(* ===== verification/Prelude.thy ===== *)
theory Prelude
  imports Main "HOL-Library.Word"
begin

text \<open>
  Shared vocabulary of the development: the fixed-width integer types of the C sources, the
  wrap-around of narrow integer locals, NUL-terminated strings as byte lists, and block memory as
  a function from offsets to bytes with the little-endian accessors and the byte-range moves the
  node and item plugins are written with.  The collections \<open>wrap_simps\<close> and \<open>mem_simps\<close> gather
  the facts most proofs need.
\<close>

unbundle bit_operations_syntax

named_theorems wrap_simps \<open>removal of wrap-around under bounds\<close>
named_theorems mem_simps \<open>reads after writes in block memory\<close>

section \<open>Error codes and repair modes\<close>

abbreviation (input) EIO :: int where "EIO \<equiv> 5"
abbreviation (input) ENOMEM :: int where "ENOMEM \<equiv> 12"
abbreviation (input) EINVAL :: int where "EINVAL \<equiv> 22"
abbreviation (input) RE_FIXABLE :: int where "RE_FIXABLE \<equiv> 4294967296"
abbreviation (input) RE_FATAL :: int where "RE_FATAL \<equiv> 8589934592"
abbreviation (input) RM_CHECK :: nat where "RM_CHECK \<equiv> 1"
abbreviation (input) RM_FIX :: nat where "RM_FIX \<equiv> 2"
abbreviation (input) RM_BUILD :: nat where "RM_BUILD \<equiv> 3"

section \<open>Fixed-width integers\<close>

type_synonym u8 = "8 word"
type_synonym u16 = "16 word"
type_synonym u32 = "32 word"
type_synonym u64 = "64 word"

text \<open>
  Narrow locals are kept as naturals; an assignment to a local of an unsigned C type stores the
  value modulo the width.  The argument is an integer, so that a subtraction below zero wraps.
\<close>

definition to_u8 :: "int \<Rightarrow> nat" where
  "to_u8 x = nat (x mod 2 ^ 8)"

definition to_u16 :: "int \<Rightarrow> nat" where
  "to_u16 x = nat (x mod 2 ^ 16)"

definition to_u32 :: "int \<Rightarrow> nat" where
  "to_u32 x = nat (x mod 2 ^ 32)"

definition to_u64 :: "int \<Rightarrow> nat" where
  "to_u64 x = nat (x mod 2 ^ 64)"

text \<open>Conversion to a signed 32-bit integer, as the usual two's complement machines do it.\<close>

definition to_s32 :: "int \<Rightarrow> int" where
  "to_s32 x = (let r = x mod 2 ^ 32 in if r < 2 ^ 31 then r else r - 2 ^ 32)"

abbreviation (input) MAX_UINT32 :: nat where
  "MAX_UINT32 \<equiv> 4294967295"

abbreviation (input) MAX_UINT64 :: nat where
  "MAX_UINT64 \<equiv> 18446744073709551615"

lemma to_u8_id [wrap_simps]: "0 \<le> x \<Longrightarrow> x < 256 \<Longrightarrow> to_u8 x = nat x"
  by (simp add: to_u8_def)

lemma to_u16_id [wrap_simps]: "0 \<le> x \<Longrightarrow> x < 65536 \<Longrightarrow> to_u16 x = nat x"
  by (simp add: to_u16_def)

lemma to_u32_id [wrap_simps]: "0 \<le> x \<Longrightarrow> x < 4294967296 \<Longrightarrow> to_u32 x = nat x"
  by (simp add: to_u32_def)

lemma to_u64_id [wrap_simps]: "0 \<le> x \<Longrightarrow> x < 18446744073709551616 \<Longrightarrow> to_u64 x = nat x"
  by (simp add: to_u64_def)

lemma to_s32_id [wrap_simps]: "0 \<le> x \<Longrightarrow> x < 2147483648 \<Longrightarrow> to_s32 x = x"
  by (simp add: to_s32_def)

lemma to_u32_diff [wrap_simps]:
  "b \<le> a \<Longrightarrow> a < 4294967296 \<Longrightarrow> to_u32 (int a - int b) = a - b"
  by (simp add: to_u32_def nat_mod_as_int flip: of_nat_diff)

lemma to_u32_add [wrap_simps]:
  "a + b < 4294967296 \<Longrightarrow> to_u32 (int a + int b) = a + b"
  by (simp add: to_u32_id nat_add_distrib)

lemma to_u32_less: "to_u32 x < 4294967296"
  by (simp add: to_u32_def nat_less_iff)

lemma to_u64_less: "to_u64 x < 18446744073709551616"
  by (simp add: to_u64_def nat_less_iff)

lemma to_u64_diff [wrap_simps]:
  "b \<le> a \<Longrightarrow> a < 18446744073709551616 \<Longrightarrow> to_u64 (int a - int b) = a - b"
  by (simp add: to_u64_def nat_mod_as_int flip: of_nat_diff)

lemma to_u64_add [wrap_simps]:
  "a + b < 18446744073709551616 \<Longrightarrow> to_u64 (int a + int b) = a + b"
  by (simp add: to_u64_id nat_add_distrib)

lemma to_u32_nat [wrap_simps]: "a < 4294967296 \<Longrightarrow> to_u32 (int a) = a"
  by (simp add: to_u32_id)

lemma to_u64_nat [wrap_simps]: "a < 18446744073709551616 \<Longrightarrow> to_u64 (int a) = a"
  by (simp add: to_u64_id)

section \<open>Byte ranges of heap buffers\<close>

text \<open>
  \<^verbatim>\<open>memcpy\<close> from and to a heap buffer of known length.  An access outside of the buffer is the
  value \<open>None\<close>, never a default.
\<close>

definition read_range :: "'a list \<Rightarrow> nat \<Rightarrow> nat \<Rightarrow> 'a list option" where
  "read_range xs off len = (if off + len \<le> length xs then Some (take len (drop off xs)) else None)"

definition write_range :: "'a list \<Rightarrow> nat \<Rightarrow> 'a list \<Rightarrow> 'a list option" where
  "write_range xs off ys =
     (if off + length ys \<le> length xs then Some (take off xs @ ys @ drop (off + length ys) xs) else None)"

lemma write_range_length: "write_range xs off ys = Some zs \<Longrightarrow> length zs = length xs"
  by (auto simp: write_range_def split: if_splits)

lemma write_range_nth:
  "write_range xs off ys = Some zs \<Longrightarrow> i < length xs \<Longrightarrow>
   zs ! i = (if off \<le> i \<and> i < off + length ys then ys ! (i - off) else xs ! i)"
  by (auto simp: write_range_def nth_append min_def split: if_splits)

lemma read_range_nth:
  "read_range xs off len = Some ys \<Longrightarrow> i < len \<Longrightarrow> ys ! i = xs ! (off + i)"
  by (auto simp: read_range_def split: if_splits)

lemma read_range_length: "read_range xs off len = Some ys \<Longrightarrow> length ys = len"
  by (auto simp: read_range_def split: if_splits)

section \<open>Little-endian integers as bytes\<close>

fun le_bytes :: "nat \<Rightarrow> nat \<Rightarrow> u8 list" where
  "le_bytes 0 v = []"
| "le_bytes (Suc n) v = word_of_nat v # le_bytes n (v div 256)"

fun le_value :: "u8 list \<Rightarrow> nat" where
  "le_value [] = 0"
| "le_value (b # bs) = unat b + 256 * le_value bs"

lemma length_le_bytes [simp]: "length (le_bytes n v) = n"
  by (induction n arbitrary: v) simp_all

lemma le_value_bytes [simp]: "v < 256 ^ n \<Longrightarrow> le_value (le_bytes n v) = v"
proof (induction n arbitrary: v)
  case (Suc n)
  then have "v div 256 < 256 ^ n" by (simp add: less_mult_imp_div_less mult.commute)
  then show ?case using Suc.IH by (simp add: unat_of_nat)
qed simp

lemma le_bytes_value [simp]: "length bs = n \<Longrightarrow> le_bytes n (le_value bs) = bs"
proof (induction bs arbitrary: n)
  case (Cons b bs)
  have "unat b < 256" using unsigned_less [of b] by simp
  then have "unat (word_of_nat (unat b + 256 * le_value bs) :: u8) = unat b"
    by (simp only: unat_of_nat) simp
  then have "(word_of_nat (unat b + 256 * le_value bs) :: u8) = b" by (simp only: word_unat_eq_iff)
  then show ?case using Cons \<open>unat b < 256\<close> by (auto simp del: of_nat_add of_nat_mult)
qed simp

lemma le_value_less: "le_value bs < 256 ^ length bs"
proof (induction bs)
  case (Cons b bs)
  have "unat b < 256" using unsigned_less [of b] by simp
  with Cons show ?case by simp
qed simp

end
