(* ===== verification/AuxLib.thy ===== *)
theory AuxLib
  imports Prelude
begin

text \<open>
  The helper library \<^verbatim>\<open>libaux\<close>: the binary search all node and directory lookups use, the packing
  of name fragments into 64-bit key elements and back, the adler32 checksum of bitmap blocks and
  the table-driven crc32c of checksummed nodes (\<^verbatim>\<open>libaux/aux.c\<close>, \<^verbatim>\<open>libaux/crc32c.c\<close>).
\<close>

section \<open>Binary search\<close>

text \<open>
  \<open>cmp i\<close> is the value of \<^verbatim>\<open>comp_func(array, i, needle, data)\<close>.  The locals \<open>left\<close> and \<open>right\<close>
  are C ints; \<open>count - 1\<close> is converted to int.  The sum \<open>right + left\<close> is taken in front of every test of the
  loop, the last one included; when it is beyond the largest int the C program has no defined result, which is
  \<open>None\<close> here.  (\<open>left\<close> is never negative, so the sum is never below the smallest int and the division, of a
  sum that is not negative, does not depend on the rounding.)
\<close>

abbreviation (input) MAX_INT32 :: int where "MAX_INT32 \<equiv> 2147483647"

function aux_bin_loop :: "(nat \<Rightarrow> int) \<Rightarrow> int \<Rightarrow> int \<Rightarrow> (int \<times> nat) option" where
  "aux_bin_loop cmp left right =
     (if right + left > MAX_INT32 then None
      else if left \<le> right then
        (let i = (right + left) div 2; res = cmp (nat i) in
         if res = -1 then aux_bin_loop cmp (i + 1) right
         else if res = 1 then aux_bin_loop cmp left (i - 1)
         else Some (1, nat i))
      else Some (0, nat left))"
  by pat_completeness auto
termination
  by (relation "measure (\<lambda>(c, l, r). nat (r - l + 1))") auto

declare aux_bin_loop.simps [simp del]

definition aux_bin_search :: "nat \<Rightarrow> (nat \<Rightarrow> int) \<Rightarrow> (int \<times> nat) option" where
  "aux_bin_search count cmp =
     (if count = 0 then Some (0, 0) else aux_bin_loop cmp 0 (to_s32 (int count - 1)))"

text \<open>The array is sorted with respect to the comparison with the needle.\<close>

definition cmp_sorted :: "nat \<Rightarrow> (nat \<Rightarrow> int) \<Rightarrow> bool" where
  "cmp_sorted count cmp \<longleftrightarrow>
     (\<forall>i<count. cmp i \<in> {-1, 0, 1}) \<and> (\<forall>i j. i \<le> j \<and> j < count \<longrightarrow> cmp i \<le> cmp j)"

lemma cmp_sorted_mono: "cmp_sorted n cmp \<Longrightarrow> i \<le> j \<Longrightarrow> j < n \<Longrightarrow> cmp i \<le> cmp j"
  by (auto simp: cmp_sorted_def)

lemma cmp_sorted_cases: "cmp_sorted n cmp \<Longrightarrow> i < n \<Longrightarrow> cmp i = -1 \<or> cmp i = 0 \<or> cmp i = 1"
  by (auto simp: cmp_sorted_def)

lemma cmp_sorted_below: "cmp_sorted n cmp \<Longrightarrow> cmp j = -1 \<Longrightarrow> i \<le> j \<Longrightarrow> j < n \<Longrightarrow> cmp i = -1"
  using cmp_sorted_mono [of n cmp i j] cmp_sorted_cases [of n cmp i] by auto

lemma cmp_sorted_above: "cmp_sorted n cmp \<Longrightarrow> cmp i = 1 \<Longrightarrow> i \<le> j \<Longrightarrow> j < n \<Longrightarrow> cmp j = 1"
  using cmp_sorted_mono [of n cmp i j] cmp_sorted_cases [of n cmp j] by auto

text \<open>
  The search of at most \<open>2 ^ 30\<close> elements never overflows: the largest sum is the one behind the loop,
  \<open>(n - 1) + n\<close>.
\<close>

lemma aux_bin_loop_correct:
  assumes "cmp_sorted n cmp" and "0 \<le> l" and "r < int n" and "l \<le> r + 1" and "n \<le> 1073741824"
    and "\<forall>i<nat l. cmp i = -1" and "\<forall>i. nat (r + 1) \<le> i \<and> i < n \<longrightarrow> cmp i = 1"
  shows "\<exists>res p. aux_bin_loop cmp l r = Some (res, p) \<and>
    ((res = 1 \<and> p < n \<and> cmp p = 0) \<or>
     (res = 0 \<and> p \<le> n \<and> (\<forall>i<p. cmp i = -1) \<and> (\<forall>i. p \<le> i \<and> i < n \<longrightarrow> cmp i = 1)))"
  using assms
proof (induction cmp l r rule: aux_bin_loop.induct)
  case (1 cmp l r)
  note srt = "1.prems"(1)
  have fits: "\<not> r + l > MAX_INT32" using "1.prems"(2-5) by linarith
  show ?case
  proof (cases "l \<le> r")
    case False
    with "1.prems" have "l = r + 1" by auto
    moreover have "aux_bin_loop cmp l r = Some (0, nat l)" using False fits by (simp add: aux_bin_loop.simps [of cmp l r])
    ultimately show ?thesis using "1.prems" by auto
  next
    case True
    let ?i = "(r + l) div 2"
    from True "1.prems" have ib: "l \<le> ?i" "?i \<le> r" "nat ?i < n" by auto
    note step = aux_bin_loop.simps [of cmp l r, unfolded if_not_P [OF fits] if_P [OF True] Let_def]
    from cmp_sorted_cases [OF srt ib(3)] consider
      "cmp (nat ?i) = -1" | "cmp (nat ?i) = 1" | "cmp (nat ?i) = 0" by blast
    then show ?thesis
    proof cases
      case 1
      have "\<forall>i<nat (?i + 1). cmp i = -1"
        using cmp_sorted_below [OF srt 1 _ ib(3)] by (auto simp: less_Suc_eq_le nat_add_distrib)
      then show ?thesis
        unfolding step if_P [OF 1] using ib "1.prems" by (intro "1.IH"(1) [OF fits True refl refl 1]) auto
    next
      case 2
      have "\<forall>i. nat (?i - 1 + 1) \<le> i \<and> i < n \<longrightarrow> cmp i = 1"
        using cmp_sorted_above [OF srt 2] by auto
      moreover have n1: "cmp (nat ?i) \<noteq> -1" using 2 by simp
      ultimately show ?thesis
        unfolding step if_not_P [OF n1] if_P [OF 2] using ib "1.prems" by (intro "1.IH"(2) [OF fits True refl refl n1 2]) auto
    next
      case 3
      then show ?thesis unfolding step using ib by auto
    qed
  qed
qed


section \<open>Packing strings into key elements\<close>

text \<open>
  A C string is the list of its bytes; the terminating NUL is the first position the list does
  not hold, so the loop test \<^verbatim>\<open>buff[i]\<close> fails there (and at an embedded zero).
\<close>

fun aux_pack_loop :: "nat \<Rightarrow> u8 list \<Rightarrow> nat \<Rightarrow> u64 \<Rightarrow> nat \<times> u64" where
  "aux_pack_loop lim [] i value = (i, value)"
| "aux_pack_loop lim (c # cs) i value =
     (if i < lim \<and> c \<noteq> 0 then aux_pack_loop lim cs (Suc i) (push_bit 8 value OR ucast c)
      else (i, value))"

definition aux_pack_string :: "u8 list \<Rightarrow> nat \<Rightarrow> u64" where
  "aux_pack_string buff start =
     (let (i, value) = aux_pack_loop (8 - start) buff 0 0
      in push_bit ((8 - i - start) * 8) value)"

text \<open>
  Unpacking writes the top byte and advances only over a non-zero one; the result is the list of
  the bytes the loop leaves before the terminating NUL.  Eight shifts clear a 64-bit value, so
  fuel 8 is enough (\<open>aux_unpack_enough\<close>).
\<close>

fun aux_unpack_loop :: "nat \<Rightarrow> u64 \<Rightarrow> u8 list option" where
  "aux_unpack_loop 0 value = None"
| "aux_unpack_loop (Suc fuel) value =
     (let c = ucast (drop_bit (64 - 8) value) :: u8;
          out = (if c \<noteq> 0 then [c] else []);
          value' = push_bit 8 value
      in if value' \<noteq> 0 then map_option ((@) out) (aux_unpack_loop fuel value') else Some out)"

definition aux_unpack_string :: "u64 \<Rightarrow> u8 list" where
  "aux_unpack_string value = the (aux_unpack_loop 8 value)"

section \<open>Adler-32\<close>

fun adler_chunk :: "nat \<Rightarrow> nat \<Rightarrow> u8 list \<Rightarrow> nat \<times> nat" where
  "adler_chunk s1 s2 [] = (s1, s2)"
| "adler_chunk s1 s2 (t # ts) =
     (let s1' = to_u32 (int s1 + int (unat t)) in
      adler_chunk s1' (to_u32 (int s2 + int s1')) ts)"

function adler_loop :: "nat \<Rightarrow> nat \<Rightarrow> u8 list \<Rightarrow> nat \<times> nat" where
  "adler_loop s1 s2 t =
     (if t = [] then (s1, s2)
      else (let k = (if length t < 5552 then length t else 5552);
                (a, b) = adler_chunk s1 s2 (take k t)
            in adler_loop (a mod 65521) (b mod 65521) (drop k t)))"
  by pat_completeness auto
termination
  by (relation "measure (\<lambda>(s1, s2, t). length t)") auto

declare adler_loop.simps [simp del]

definition aux_adler32 :: "u32 \<Rightarrow> u8 list \<Rightarrow> u32" where
  "aux_adler32 adler buff =
     (let adler = (if adler \<noteq> 0 then adler else 1);
          s1 = unat (adler AND 0xffff);
          s2 = unat (drop_bit 16 adler);
          (s1, s2) = adler_loop s1 s2 buff
      in push_bit 16 (word_of_nat s2) OR word_of_nat s1)"

text \<open>The checksum as RFC 1950 defines it: both sums are reduced after every byte.\<close>

definition adler_step :: "nat \<times> nat \<Rightarrow> u8 \<Rightarrow> nat \<times> nat" where
  "adler_step = (\<lambda>(a, b) t. ((a + unat t) mod 65521, (b + (a + unat t)) mod 65521))"

definition adler_spec :: "nat \<times> nat \<Rightarrow> u8 list \<Rightarrow> nat \<times> nat" where
  "adler_spec ab ts = foldl adler_step ab ts"

section \<open>CRC-32C\<close>

definition crc32c_table :: "u32 list" where
  "crc32c_table = [
     0x00000000, 0xF26B8303, 0xE13B70F7, 0x1350F3F4, 0xC79A971F, 0x35F1141C, 0x26A1E7E8, 0xD4CA64EB,
     0x8AD958CF, 0x78B2DBCC, 0x6BE22838, 0x9989AB3B, 0x4D43CFD0, 0xBF284CD3, 0xAC78BF27, 0x5E133C24,
     0x105EC76F, 0xE235446C, 0xF165B798, 0x030E349B, 0xD7C45070, 0x25AFD373, 0x36FF2087, 0xC494A384,
     0x9A879FA0, 0x68EC1CA3, 0x7BBCEF57, 0x89D76C54, 0x5D1D08BF, 0xAF768BBC, 0xBC267848, 0x4E4DFB4B,
     0x20BD8EDE, 0xD2D60DDD, 0xC186FE29, 0x33ED7D2A, 0xE72719C1, 0x154C9AC2, 0x061C6936, 0xF477EA35,
     0xAA64D611, 0x580F5512, 0x4B5FA6E6, 0xB93425E5, 0x6DFE410E, 0x9F95C20D, 0x8CC531F9, 0x7EAEB2FA,
     0x30E349B1, 0xC288CAB2, 0xD1D83946, 0x23B3BA45, 0xF779DEAE, 0x05125DAD, 0x1642AE59, 0xE4292D5A,
     0xBA3A117E, 0x4851927D, 0x5B016189, 0xA96AE28A, 0x7DA08661, 0x8FCB0562, 0x9C9BF696, 0x6EF07595,
     0x417B1DBC, 0xB3109EBF, 0xA0406D4B, 0x522BEE48, 0x86E18AA3, 0x748A09A0, 0x67DAFA54, 0x95B17957,
     0xCBA24573, 0x39C9C670, 0x2A993584, 0xD8F2B687, 0x0C38D26C, 0xFE53516F, 0xED03A29B, 0x1F682198,
     0x5125DAD3, 0xA34E59D0, 0xB01EAA24, 0x42752927, 0x96BF4DCC, 0x64D4CECF, 0x77843D3B, 0x85EFBE38,
     0xDBFC821C, 0x2997011F, 0x3AC7F2EB, 0xC8AC71E8, 0x1C661503, 0xEE0D9600, 0xFD5D65F4, 0x0F36E6F7,
     0x61C69362, 0x93AD1061, 0x80FDE395, 0x72966096, 0xA65C047D, 0x5437877E, 0x4767748A, 0xB50CF789,
     0xEB1FCBAD, 0x197448AE, 0x0A24BB5A, 0xF84F3859, 0x2C855CB2, 0xDEEEDFB1, 0xCDBE2C45, 0x3FD5AF46,
     0x7198540D, 0x83F3D70E, 0x90A324FA, 0x62C8A7F9, 0xB602C312, 0x44694011, 0x5739B3E5, 0xA55230E6,
     0xFB410CC2, 0x092A8FC1, 0x1A7A7C35, 0xE811FF36, 0x3CDB9BDD, 0xCEB018DE, 0xDDE0EB2A, 0x2F8B6829,
     0x82F63B78, 0x709DB87B, 0x63CD4B8F, 0x91A6C88C, 0x456CAC67, 0xB7072F64, 0xA457DC90, 0x563C5F93,
     0x082F63B7, 0xFA44E0B4, 0xE9141340, 0x1B7F9043, 0xCFB5F4A8, 0x3DDE77AB, 0x2E8E845F, 0xDCE5075C,
     0x92A8FC17, 0x60C37F14, 0x73938CE0, 0x81F80FE3, 0x55326B08, 0xA759E80B, 0xB4091BFF, 0x466298FC,
     0x1871A4D8, 0xEA1A27DB, 0xF94AD42F, 0x0B21572C, 0xDFEB33C7, 0x2D80B0C4, 0x3ED04330, 0xCCBBC033,
     0xA24BB5A6, 0x502036A5, 0x4370C551, 0xB11B4652, 0x65D122B9, 0x97BAA1BA, 0x84EA524E, 0x7681D14D,
     0x2892ED69, 0xDAF96E6A, 0xC9A99D9E, 0x3BC21E9D, 0xEF087A76, 0x1D63F975, 0x0E330A81, 0xFC588982,
     0xB21572C9, 0x407EF1CA, 0x532E023E, 0xA145813D, 0x758FE5D6, 0x87E466D5, 0x94B49521, 0x66DF1622,
     0x38CC2A06, 0xCAA7A905, 0xD9F75AF1, 0x2B9CD9F2, 0xFF56BD19, 0x0D3D3E1A, 0x1E6DCDEE, 0xEC064EED,
     0xC38D26C4, 0x31E6A5C7, 0x22B65633, 0xD0DDD530, 0x0417B1DB, 0xF67C32D8, 0xE52CC12C, 0x1747422F,
     0x49547E0B, 0xBB3FFD08, 0xA86F0EFC, 0x5A048DFF, 0x8ECEE914, 0x7CA56A17, 0x6FF599E3, 0x9D9E1AE0,
     0xD3D3E1AB, 0x21B862A8, 0x32E8915C, 0xC083125F, 0x144976B4, 0xE622F5B7, 0xF5720643, 0x07198540,
     0x590AB964, 0xAB613A67, 0xB831C993, 0x4A5A4A90, 0x9E902E7B, 0x6CFBAD78, 0x7FAB5E8C, 0x8DC0DD8F,
     0xE330A81A, 0x115B2B19, 0x020BD8ED, 0xF0605BEE, 0x24AA3F05, 0xD6C1BC06, 0xC5914FF2, 0x37FACCF1,
     0x69E9F0D5, 0x9B8273D6, 0x88D28022, 0x7AB90321, 0xAE7367CA, 0x5C18E4C9, 0x4F48173D, 0xBD23943E,
     0xF36E6F75, 0x0105EC76, 0x12551F82, 0xE03E9C81, 0x34F4F86A, 0xC69F7B69, 0xD5CF889D, 0x27A40B9E,
     0x79B737BA, 0x8BDCB4B9, 0x988C474D, 0x6AE7C44E, 0xBE2DA0A5, 0x4C4623A6, 0x5F16D052, 0xAD7D5351]"

fun crc32c_le :: "u32 \<Rightarrow> u8 list \<Rightarrow> u32" where
  "crc32c_le crc [] = crc"
| "crc32c_le crc (d # ds) =
     crc32c_le (crc32c_table ! unat ((crc XOR ucast d) AND 0xFF) XOR drop_bit 8 crc) ds"

text \<open>The reflected Castagnoli polynomial divided bit by bit.\<close>

definition crc32c_bit :: "u32 \<Rightarrow> u32" where
  "crc32c_bit c = (if bit c 0 then drop_bit 1 c XOR 0x82F63B78 else drop_bit 1 c)"

definition crc32c_byte :: "u32 \<Rightarrow> u8 \<Rightarrow> u32" where
  "crc32c_byte crc d = (crc32c_bit ^^ 8) (crc XOR ucast d)"

definition crc32c_spec :: "u32 \<Rightarrow> u8 list \<Rightarrow> u32" where
  "crc32c_spec crc ds = foldl crc32c_byte crc ds"

lemma crc32c_table_length: "length crc32c_table = 256"
  by (simp add: crc32c_table_def)


subsection \<open>The table is the bitwise division\<close>

text \<open>
  One division step is linear over exclusive or, so the 256 table entries are spanned by the eight
  entries at the powers of two.
\<close>

fun xor_span :: "u32 list \<Rightarrow> u32 list \<Rightarrow> u32 list" where
  "xor_span acc [] = acc"
| "xor_span acc (b # bs) = xor_span (acc @ map (\<lambda>x. b XOR x) acc) bs"

lemma crc32c_bit_xor: "crc32c_bit (x XOR y) = crc32c_bit x XOR crc32c_bit y"
  by (auto simp: crc32c_bit_def bit_xor_iff ac_simps xor.left_commute)

lemma crc32c_bits_xor: "(crc32c_bit ^^ n) (x XOR y) = (crc32c_bit ^^ n) x XOR (crc32c_bit ^^ n) y"
  by (induction n) (simp_all add: crc32c_bit_xor)

lemma crc32c_bits_0 [simp]: "(crc32c_bit ^^ n) 0 = 0"
  by (induction n) (simp_all add: crc32c_bit_def)

lemma add_power_xor:
  assumes "i < 2 ^ k"
  shows "(word_of_nat (2 ^ k + i) :: u32) = 2 ^ k XOR word_of_nat i"
proof -
  have "(2 ^ k) AND i = (0 :: nat)"
    using assms by (metis and_exp_eq_0_iff_not_bit bit_take_bit_iff less_irrefl take_bit_nat_eq_self
        and.commute)
  then have "2 ^ k + i = (2 ^ k) XOR i"
    by (rule disjunctive_add_eq_xor)
  then show ?thesis
    by (simp add: of_nat_xor_eq del: of_nat_add)
qed

lemma xor_span_upt:
  "xor_span (map (\<lambda>i. (crc32c_bit ^^ 8) (word_of_nat i)) [0..<2 ^ k])
            (map (\<lambda>j. (crc32c_bit ^^ 8) (2 ^ j)) [k..<k + m])
   = map (\<lambda>i. (crc32c_bit ^^ 8) (word_of_nat i)) [0..<2 ^ (k + m)]"
proof (induction m arbitrary: k)
  case 0
  then show ?case by simp
next
  case (Suc m)
  let ?f = "\<lambda>i. (crc32c_bit ^^ 8) (word_of_nat i)"
  have "[0..<2 ^ Suc k] = [0..<2 ^ k] @ map (\<lambda>i. 2 ^ k + i) [0..<2 ^ k]"
    using map_add_upt [of "2 ^ k" "2 ^ k"] upt_add_eq_append [of 0 "2 ^ k" "2 ^ k"]
    by (simp add: mult_2 add.commute)
  then have "map ?f [0..<2 ^ k] @ map (\<lambda>x. (crc32c_bit ^^ 8) (2 ^ k) XOR x) (map ?f [0..<2 ^ k]) = map ?f [0..<2 ^ Suc k]"
    by (simp add: add_power_xor crc32c_bits_xor del: of_nat_add)
  moreover have "[k..<k + Suc m] = k # [Suc k..<Suc k + m]"
    by (simp add: upt_conv_Cons)
  ultimately show ?case
    using Suc.IH [of "Suc k"] by simp
qed

lemma crc32c_bit8:
  "(crc32c_bit ^^ 8) c = crc32c_bit (crc32c_bit (crc32c_bit (crc32c_bit
     (crc32c_bit (crc32c_bit (crc32c_bit (crc32c_bit c)))))))"
  by (simp add: numeral_eq_Suc)

lemma crc32c_basis:
  "map (\<lambda>j. (crc32c_bit ^^ 8) (2 ^ j)) [0..<8] =
   [0xF26B8303, 0xE13B70F7, 0xC79A971F, 0x8AD958CF, 0x105EC76F, 0x20BD8EDE, 0x417B1DBC, 0x82F63B78]"
  by (simp add: crc32c_bit8 crc32c_bit_def upt_rec)

lemma crc32c_table_bits: "crc32c_table = map (\<lambda>i. (crc32c_bit ^^ 8) (word_of_nat i)) [0..<256]"
proof -
  have "map (\<lambda>i. (crc32c_bit ^^ 8) (word_of_nat i)) [0..<256] =
      xor_span [0] (map (\<lambda>j. (crc32c_bit ^^ 8) (2 ^ j)) [0..<8])"
    using xor_span_upt [of 0 8] by simp
  also have "\<dots> = crc32c_table"
    by (simp add: crc32c_basis crc32c_table_def)
  finally show ?thesis ..
qed


lemma crc32c_bit_even: "\<not> bit c 0 \<Longrightarrow> crc32c_bit c = drop_bit 1 c"
  by (simp add: crc32c_bit_def)

lemma crc32c_bits_clear: "\<forall>j<n. \<not> bit c j \<Longrightarrow> (crc32c_bit ^^ n) c = drop_bit n c"
proof (induction n arbitrary: c)
  case 0
  then show ?case by simp
next
  case (Suc n)
  then have "(crc32c_bit ^^ n) c = drop_bit n c" by simp
  moreover have "\<not> bit (drop_bit n c) 0"
    using Suc.prems by (simp add: bit_drop_bit_eq)
  ultimately show ?case
    by (simp add: crc32c_bit_even)
qed

lemma unat_and_255: "unat (x AND 255 :: u32) < 256"
proof -
  have "unat (x AND mask 8) = take_bit 8 (unat x)"
    by (simp add: unsigned_take_bit_eq flip: take_bit_eq_mask)
  then show ?thesis
    using take_bit_nat_less_exp [of 8 "unat x"] by (simp add: mask_eq_exp_minus_1)
qed

lemma crc32c_table_step:
  "crc32c_table ! unat ((crc XOR ucast d) AND 0xFF) XOR drop_bit 8 crc = crc32c_byte crc d"
proof -
  let ?x = "crc XOR ucast d :: u32"
  let ?lo = "?x AND 255" and ?hi = "?x AND NOT 255"
  have 1: "crc32c_table ! unat ?lo = (crc32c_bit ^^ 8) ?lo"
    using unat_and_255 [of ?x] by (simp add: crc32c_table_bits)
  have m: "(255 :: u32) = mask 8"
    by (simp add: mask_eq_exp_minus_1)
  have "(crc32c_bit ^^ 8) ?hi = drop_bit 8 ?hi"
    unfolding m by (rule crc32c_bits_clear) (auto simp: bit_simps)
  also have "\<dots> = drop_bit 8 crc"
    unfolding m by (rule bit_word_eqI) (auto simp: bit_simps dest: bit_imp_le_length)
  finally have 2: "(crc32c_bit ^^ 8) ?hi = drop_bit 8 crc" .
  have "?x = ?lo XOR ?hi"
    by (rule bit_word_eqI) (auto simp: bit_simps)
  then have "crc32c_byte crc d = (crc32c_bit ^^ 8) ?lo XOR (crc32c_bit ^^ 8) ?hi"
    unfolding crc32c_byte_def by (metis crc32c_bits_xor)
  then show ?thesis
    unfolding 1 2 by (rule sym)
qed

lemma crc32c_le_append: "crc32c_le crc (xs @ ys) = crc32c_le (crc32c_le crc xs) ys"
  by (induction xs arbitrary: crc) simp_all

section \<open>Packed strings round-trip\<close>

text \<open>The left-justified big-endian value of at most eight bytes.\<close>

fun be_pack :: "u8 list \<Rightarrow> u64" where
  "be_pack [] = 0"
| "be_pack (c # cs) = push_bit 56 (ucast c) OR drop_bit 8 (be_pack cs)"

abbreviation pack_foldl :: "u8 list \<Rightarrow> u64" where
  "pack_foldl cs \<equiv> foldl (\<lambda>v c. push_bit 8 v OR ucast c) 0 cs"

lemma aux_pack_loop_foldl:
  "\<forall>c \<in> set s. c \<noteq> 0 \<Longrightarrow> aux_pack_loop lim s i v =
     (i + min (length s) (lim - i), foldl (\<lambda>v c. push_bit 8 v OR ucast c) v (take (lim - i) s))"
proof (induction lim s i v rule: aux_pack_loop.induct)
  case (2 lim c cs i v)
  show ?case
  proof (cases "i < lim")
    case True
    then have "lim - i = Suc (lim - Suc i)" by simp
    with True 2 show ?thesis by simp
  qed simp
qed simp

lemma be_pack_low: "n < 64 - 8 * length s \<Longrightarrow> \<not> bit (be_pack s) n"
  by (induction s arbitrary: n) (auto simp: bit_simps)

lemma be_pack_snoc:
  "length s \<le> 7 \<Longrightarrow> be_pack (s @ [c]) = be_pack s OR push_bit (56 - 8 * length s) (ucast c)"
proof (induction s)
  case (Cons a s)
  have "drop_bit 8 (push_bit (56 - 8 * length s) (ucast c :: u64)) = push_bit (56 - 8 * length (a # s)) (ucast c)"
    using Cons.prems
    by (intro bit_word_eqI) (auto simp: bit_simps less_diff_conv dest: bit_imp_le_length)
  with Cons show ?case by (simp add: or.assoc)
qed simp

lemma pack_foldl_bound: "bit (pack_foldl s) n \<Longrightarrow> n < 8 * length s"
proof (induction s arbitrary: n rule: rev_induct)
  case (snoc c s)
  from snoc.prems show ?case
    using snoc.IH [of "n - 8"] by (auto simp: bit_simps dest: bit_imp_le_length)
qed simp

lemma be_pack_foldl: "length s \<le> 8 \<Longrightarrow> push_bit (64 - 8 * length s) (pack_foldl s) = be_pack s"
proof (induction s rule: rev_induct)
  case (snoc c s)
  then have "64 - 8 * length (s @ [c]) + 8 = 64 - 8 * length s" "64 - 8 * length (s @ [c]) = 56 - 8 * length s"
    by auto
  with snoc show ?case
    by (simp add: be_pack_snoc)
qed simp

lemma drop_push_bit_bounded:
  fixes v :: u64
  assumes "\<And>n. bit v n \<Longrightarrow> n < m" and "a + m \<le> 64" 
  shows "drop_bit a (push_bit (64 - m) v) = push_bit (64 - m - a) v"
proof (rule bit_word_eqI)
  fix n assume "n < LENGTH(64)"
  then show "bit (drop_bit a (push_bit (64 - m) v)) n \<longleftrightarrow> bit (push_bit (64 - m - a) v) n"
    using assms(1) [of "n - (64 - m - a)"] assms(2)
    by (auto simp: bit_simps ac_simps)
qed

lemma aux_pack_string_be:
  assumes "\<forall>c \<in> set s. c \<noteq> 0" and "start \<le> 8"
  shows "aux_pack_string s start = drop_bit (8 * start) (be_pack (take (8 - start) s))"
proof -
  let ?t = "take (8 - start) s"
  have len: "8 * start + 8 * length ?t \<le> 64" using assms(2) by auto
  have "aux_pack_string s start = push_bit ((8 - length ?t - start) * 8) (pack_foldl ?t)"
    using assms(1) by (simp add: aux_pack_string_def aux_pack_loop_foldl)
  also have "(8 - length ?t - start) * 8 = 64 - 8 * length ?t - 8 * start"
    by simp
  also have "push_bit \<dots> (pack_foldl ?t) = drop_bit (8 * start) (push_bit (64 - 8 * length ?t) (pack_foldl ?t))"
    using drop_push_bit_bounded [OF pack_foldl_bound len] by simp
  also have "\<dots> = drop_bit (8 * start) (be_pack ?t)"
    by (subst be_pack_foldl) simp_all
  finally show ?thesis .
qed

lemma be_pack_push:
  assumes "length s \<le> 7"
  shows "push_bit 8 (be_pack (c # s)) = be_pack s"
proof (rule bit_word_eqI)
  fix n assume "n < LENGTH(64)"
  then show "bit (push_bit 8 (be_pack (c # s))) n \<longleftrightarrow> bit (be_pack s) n"
    using be_pack_low [of n s] assms
    by (cases "8 \<le> n") (auto simp: bit_simps dest!: bit_imp_le_length)
qed

lemma be_pack_top: "ucast (drop_bit 56 (be_pack (c # s))) = c"
  by (intro bit_word_eqI) (auto simp: bit_simps dest: bit_imp_le_length)

lemma be_pack_nonzero: "c \<noteq> 0 \<Longrightarrow> be_pack (c # s) \<noteq> 0"
  using be_pack_top [of c s] by (metis drop_bit_of_0 unsigned_0)

lemma aux_unpack_be_pack:
  "s \<noteq> [] \<Longrightarrow> length s \<le> fuel \<Longrightarrow> length s \<le> 8 \<Longrightarrow> \<forall>c \<in> set s. c \<noteq> 0 \<Longrightarrow>
   aux_unpack_loop fuel (be_pack s) = Some s"
proof (induction s arbitrary: fuel)
  case (Cons c s)
  then obtain n where n: "fuel = Suc n" "length s \<le> n" "length s \<le> 7" by (cases fuel) auto
  show ?case
  proof (cases s)
    case Nil
    with n Cons.prems show ?thesis
      by (simp add: Let_def be_pack_push be_pack_top del: be_pack.simps(2))
  next
    case (Cons d ds)
    with n Cons.IH [of n] Cons.prems show ?thesis
      by (simp add: Let_def be_pack_push be_pack_top be_pack_nonzero del: be_pack.simps(2))
  qed
qed simp

lemma aux_unpack_be_pack_shift:
  "s \<noteq> [] \<Longrightarrow> length s \<le> 7 \<Longrightarrow> \<forall>c \<in> set s. c \<noteq> 0 \<Longrightarrow>
   aux_unpack_loop 8 (drop_bit 8 (be_pack s)) = Some s"
proof -
  assume s: "s \<noteq> []" "length s \<le> 7" "\<forall>c \<in> set s. c \<noteq> 0"
  have 1: "be_pack (0 # s) = drop_bit 8 (be_pack s)" by simp
  have "(ucast (drop_bit 56 (drop_bit 8 (be_pack s))) :: u8) = 0"
    by (intro bit_word_eqI) (auto simp: bit_simps dest: bit_imp_le_length)
  moreover have "push_bit 8 (drop_bit 8 (be_pack s)) = be_pack s"
    using be_pack_push [OF s(2), of 0] by simp
  moreover have "be_pack s \<noteq> 0"
    using s be_pack_nonzero by (cases s) (auto simp del: be_pack.simps)
  moreover have "aux_unpack_loop 7 (be_pack s) = Some s"
    by (rule aux_unpack_be_pack) (use s in auto)
  ultimately show ?thesis
    using aux_unpack_loop.simps(2) [of 7 "drop_bit 8 (be_pack s)"] by (simp add: Let_def)
qed

lemma aux_unpack_enough:
  "push_bit (8 * fuel) value = 0 \<Longrightarrow> 0 < fuel \<Longrightarrow> \<exists>s. aux_unpack_loop fuel value = Some s"
proof (induction fuel arbitrary: "value")
  case (Suc n)
  show ?case
  proof (cases "push_bit 8 value = 0")
    case False
    then have "0 < n" using Suc.prems by (cases n) auto
    moreover have "push_bit (8 * n) (push_bit 8 value) = 0"
      using Suc.prems by (simp add: add.commute)
    ultimately have "\<exists>s. aux_unpack_loop n (push_bit 8 value) = Some s"
      by (intro Suc.IH)
    then show ?thesis by (auto simp: Let_def)
  qed (simp add: Let_def)
qed simp

lemma aux_unpack_string_total: "aux_unpack_loop 8 value = Some (aux_unpack_string value)"
proof -
  have "push_bit (8 * 8) value = 0"
    by (rule bit_word_eqI) (auto simp: bit_simps)
  then show ?thesis
    using aux_unpack_enough [of 8 "value"] by (auto simp: aux_unpack_string_def)
qed

lemma aux_unpack_string_0 [simp]: "aux_unpack_string 0 = []"
  using aux_unpack_loop.simps(2) [of 7 0] by (simp add: aux_unpack_string_def Let_def)

section \<open>Adler-32 never overflows\<close>

fun adler_sum :: "nat \<Rightarrow> nat \<Rightarrow> u8 list \<Rightarrow> nat \<times> nat" where
  "adler_sum a b [] = (a, b)"
| "adler_sum a b (t # ts) = adler_sum (a + unat t) (b + (a + unat t)) ts"

lemma unat_u8_le: "unat (t :: u8) \<le> 255"
proof -
  have "unat t < 2 ^ LENGTH(8)" by (rule unsigned_less)
  then show ?thesis by simp
qed

text \<open>The largest value \<open>s2\<close> reaches within \<open>n\<close> further bytes stays below the width.\<close>

lemma adler_chunk_sum:
  "2 * b + 2 * length ts * a + 255 * (length ts * (length ts + 1)) < 2 ^ 33 \<Longrightarrow>
   a + 255 * length ts < 2 ^ 32 \<Longrightarrow> adler_chunk a b ts = adler_sum a b ts"
proof (induction ts arbitrary: a b)
  case (Cons t ts)
  let ?n = "length ts" and ?a = "a + unat t"
  have n: "length (t # ts) = ?n + 1" by simp
  have t: "unat t \<le> 255" by (rule unat_u8_le)
  then have "?n * unat t \<le> ?n * 255" by (rule mult_le_mono2)
  with t have nt: "2 * unat t + 2 * (?n * unat t) \<le> 510 * ?n + 510" by linarith
  have a: "?a + 255 * ?n < 2 ^ 32" using Cons.prems(2) t by simp
  have "2 * (b + ?a) + 2 * ?n * ?a + 255 * (?n * (?n + 1))
      = 2 * b + 2 * (?n + 1) * a + 2 * unat t + 2 * (?n * unat t) + 255 * (?n * (?n + 1))"
    by (simp add: algebra_simps)
  also have "\<dots> \<le> 2 * b + 2 * (?n + 1) * a + 510 * (?n + 1) + 255 * (?n * (?n + 1))"
    using nt by simp
  also have "\<dots> = 2 * b + 2 * length (t # ts) * a + 255 * (length (t # ts) * (length (t # ts) + 1))"
    by (simp add: algebra_simps)
  also have "\<dots> < 2 ^ 33" by (rule Cons.prems(1))
  finally have b: "2 * (b + ?a) + 2 * ?n * ?a + 255 * (?n * (?n + 1)) < 2 ^ 33" .
  then have "b + ?a < 2 ^ 32" by simp
  then have e2: "to_u32 (int b + int ?a) = b + ?a"
    by (intro to_u32_add) simp
  have e1: "to_u32 (int a + int (unat t)) = ?a"
    using a by (intro to_u32_add) simp
  have "adler_chunk a b (t # ts) = adler_chunk ?a (b + ?a) ts"
    by (simp only: adler_chunk.simps Let_def e1 e2)
  with Cons.IH [OF b a] show ?case by simp
qed simp

lemma mod_add_add: "(b + (a mod n + u)) mod n = (b + (a + u)) mod (n::nat)"
  by (metis mod_add_right_eq mod_add_left_eq)

lemma adler_sum_mod:
  "ts \<noteq> [] \<Longrightarrow> (let (x, y) = adler_sum a b ts in (x mod 65521, y mod 65521)) = adler_spec (a, b) ts"
proof (induction ts arbitrary: a b)
  case (Cons t ts)
  have mod: "adler_spec (a mod 65521, b mod 65521) us = adler_spec (a, b) us" if "us \<noteq> []" for a b us
  proof -
    have "adler_step (a mod 65521, b mod 65521) u = adler_step (a, b) u" for u
      by (simp add: adler_step_def mod_add_add mod_add_left_eq)
    with that show ?thesis by (cases us) (simp_all add: adler_spec_def)
  qed
  show ?case
  proof (cases "ts = []")
    case True
    then show ?thesis by (simp add: adler_spec_def adler_step_def)
  next
    case False
    have "adler_spec (a, b) (t # ts) = adler_spec ((a + unat t) mod 65521, (b + (a + unat t)) mod 65521) ts"
      by (simp add: adler_spec_def adler_step_def)
    also have "\<dots> = adler_spec (a + unat t, b + (a + unat t)) ts"
      using mod [OF False] .
    finally show ?thesis
      using Cons.IH [OF False] by simp
  qed
qed simp

lemma adler_chunk_spec:
  assumes "a < 65536" "b < 65536" "ts \<noteq> []" "length ts \<le> 5552"
  shows "(let (x, y) = adler_chunk a b ts in (x mod 65521, y mod 65521)) = adler_spec (a, b) ts"
proof -
  let ?n = "length ts"
  have 1: "?n * a \<le> 5552 * 65535"
    using assms by (intro mult_le_mono) auto
  have 2: "?n * (?n + 1) \<le> 5552 * 5553"
    using assms by (intro mult_le_mono) auto
  have "adler_chunk a b ts = adler_sum a b ts"
  proof (rule adler_chunk_sum)
    have "2 * b + 2 * (?n * a) + 255 * (?n * (?n + 1)) \<le> 2 * 65535 + 2 * (5552 * 65535) + 255 * (5552 * 5553)"
      using 1 2 assms by (intro add_mono mult_le_mono) auto
    then show "2 * b + 2 * ?n * a + 255 * (?n * (?n + 1)) < 2 ^ 33"
      by (simp add: mult.assoc)
    show "a + 255 * ?n < 2 ^ 32"
      using assms by simp
  qed
  with adler_sum_mod [OF assms(3)] show ?thesis by simp
qed

lemma adler_loop_spec:
  "a < 65536 \<Longrightarrow> b < 65536 \<Longrightarrow> adler_loop a b ts = adler_spec (a, b) ts"
proof (induction a b ts rule: adler_loop.induct)
  case (1 a b ts)
  show ?case
  proof (cases "ts = []")
    case True
    then show ?thesis by (simp add: adler_loop.simps [of a b "[]"] adler_spec_def)
  next
    case False
    let ?k = "if length ts < 5552 then length ts else 5552"
    obtain x y where xy: "adler_chunk a b (take ?k ts) = (x, y)" by fastforce
    have "take ?k ts \<noteq> []" "length (take ?k ts) \<le> 5552"
      using False by auto
    from adler_chunk_spec [OF "1.prems" this] xy
    have step: "adler_spec (a, b) (take ?k ts) = (x mod 65521, y mod 65521)" by simp
    have "adler_loop a b ts = adler_loop (x mod 65521) (y mod 65521) (drop ?k ts)"
      using False xy by (simp add: adler_loop.simps [of a b ts] Let_def)
    also have "\<dots> = adler_spec (x mod 65521, y mod 65521) (drop ?k ts)"
    proof (rule "1.IH" [OF False refl xy [symmetric] refl])
      show "x mod 65521 < 65536" "y mod 65521 < 65536"
        using mod_less_divisor [of 65521 x] mod_less_divisor [of 65521 y] by linarith+
    qed
    also have "\<dots> = adler_spec (a, b) (take ?k ts @ drop ?k ts)"
      by (simp only: adler_spec_def foldl_append step [unfolded adler_spec_def])
    finally show ?thesis by simp
  qed
qed

lemma aux_bin_search_spec:
  assumes "cmp_sorted count cmp" and "count \<le> 1073741824"
  shows "\<exists>found pos. aux_bin_search count cmp = Some (found, pos) \<and>
    (if \<exists>i<count. cmp i = 0 then found = 1 \<and> pos < count \<and> cmp pos = 0
     else found = 0 \<and> pos \<le> count \<and> (\<forall>i<pos. cmp i = -1) \<and> (\<forall>i. pos \<le> i \<and> i < count \<longrightarrow> cmp i = 1))"
proof (cases "count = 0")
  case True
  then show ?thesis by (simp add: aux_bin_search_def)
next
  case False
  obtain res p where r: "aux_bin_loop cmp 0 (int count - 1) = Some (res, p)" and
      c: "(res = 1 \<and> p < count \<and> cmp p = 0) \<or>
      (res = 0 \<and> p \<le> count \<and> (\<forall>i<p. cmp i = -1) \<and> (\<forall>i. p \<le> i \<and> i < count \<longrightarrow> cmp i = 1))"
    using aux_bin_loop_correct [OF assms(1), of 0 "int count - 1"] assms(2) by auto
  have s: "aux_bin_search count cmp = Some (res, p)"
    using False assms(2) r by (simp add: aux_bin_search_def to_s32_id)
  have "cmp i \<noteq> 0" if "\<forall>i<p. cmp i = -1" "\<forall>i. p \<le> i \<and> i < count \<longrightarrow> cmp i = 1" "i < count" for i
    using that by (cases "i < p") auto
  then show ?thesis using s c by auto
qed

section \<open>Properties\<close>



text \<open>The bound is the best one: one element more, and a search to the end of the array overflows.\<close>

lemma aux_bin_loop_overflow:
  assumes "\<forall>i. cmp i = -1" "0 \<le> l" "l \<le> 1073741824 + 1"
  shows "aux_bin_loop cmp l 1073741824 = None"
  using assms(2,3)
proof (induction "nat (1073741825 - l)" arbitrary: l rule: less_induct)
  case less
  show ?case
  proof (cases "1073741824 + l > MAX_INT32")
    case True
    then show ?thesis by (simp add: aux_bin_loop.simps [of cmp l])
  next
    case False
    then have "aux_bin_loop cmp l 1073741824 = aux_bin_loop cmp ((1073741824 + l) div 2 + 1) 1073741824"
      using assms(1) by (subst aux_bin_loop.simps) (simp add: Let_def)
    then show ?thesis using less False by auto
  qed
qed

text \<open>
  C34: \<^verbatim>\<open>aux_adler32\<close>, which reduces its two sums only once every 5552 bytes, never overflows its
  32-bit locals and computes the Adler-32 checksum of RFC 1950, reduced after every byte, for
  every start value and every buffer.
\<close>

theorem aux_adler32_correct:
  "aux_adler32 adler buff =
     (let start = (if adler \<noteq> 0 then adler else 1);
          (a, b) = adler_spec (unat (start AND 0xffff), unat (drop_bit 16 start)) buff
      in push_bit 16 (word_of_nat b) OR word_of_nat a)"
proof -
  have m: "unat (w AND 0xffff) < 65536" for w :: u32
  proof -
    have "unat (w AND mask 16) = take_bit 16 (unat w)"
      by (simp add: unsigned_take_bit_eq flip: take_bit_eq_mask)
    then show ?thesis
      using take_bit_nat_less_exp [of 16 "unat w"] by (simp add: mask_eq_exp_minus_1)
  qed
  have d: "unat (drop_bit 16 w) < 65536" for w :: u32
  proof -
    have "drop_bit 16 (take_bit 32 (unat w)) < 65536"
      using take_bit_nat_less_exp [of 32 "unat w"] by (simp add: drop_bit_eq_div less_mult_imp_div_less)
    then show ?thesis by (simp add: unsigned_drop_bit_eq)
  qed
  show ?thesis
    by (simp add: aux_adler32_def Let_def adler_loop_spec [OF m d])
qed

text \<open>
  C35: the table-driven \<^verbatim>\<open>crc32c_le\<close> is the bit-by-bit reflected division by the Castagnoli
  polynomial, for every seed and every buffer.
\<close>

theorem crc32c_le_correct: "crc32c_le crc ds = crc32c_spec crc ds"
  by (induction ds arbitrary: crc) (simp_all add: crc32c_table_step crc32c_spec_def)

end
