(* ===== verification/KeyCommon.thy ===== *)
theory KeyCommon
  imports AuxLib "HOL-Library.List_Lexorder"
begin

text \<open>
  What both key plugins share (\<^verbatim>\<open>plugin/key/key_common\<close> and the key types of
  \<^verbatim>\<open>include/reiser4/plugin.h\<close>): the key structure, the type codes, the smallest and the largest key,
  and the contracts the clients of keys use, stated as locales: a three-way comparison that is a
  total order, and a plugin whose setters and getters agree.
\<close>

section \<open>Types\<close>

text \<open>The plugin pointer of a key is the identity of one of the two key plugins.\<close>

datatype key_plug = KEY_SHORT | KEY_LARGE

text \<open>
  A key body is an array of 64-bit little-endian elements; an element is its value.  Short keys use
  the first three elements, large keys four.
\<close>

type_synonym key_body = "nat \<Rightarrow> u64"

record reiser4_key =
  kplug :: key_plug
  kbody :: key_body
  kadjust :: nat

text \<open>Results of the structure checks: fine (possibly repaired) or \<^verbatim>\<open>RE_FATAL\<close>.\<close>

datatype key_check = KEY_OK | KEY_RE_FATAL

abbreviation (input) MAX_UINT8 :: nat where "MAX_UINT8 \<equiv> 255"

abbreviation (input) KEY_FILENAME_TYPE :: nat where "KEY_FILENAME_TYPE \<equiv> 0"
abbreviation (input) KEY_STATDATA_TYPE :: nat where "KEY_STATDATA_TYPE \<equiv> 1"
abbreviation (input) KEY_ATTRNAME_TYPE :: nat where "KEY_ATTRNAME_TYPE \<equiv> 2"
abbreviation (input) KEY_ATTRBODY_TYPE :: nat where "KEY_ATTRBODY_TYPE \<equiv> 3"
abbreviation (input) KEY_FILEBODY_TYPE :: nat where "KEY_FILEBODY_TYPE \<equiv> 4"

abbreviation (input) KEY_FILENAME_MINOR :: nat where "KEY_FILENAME_MINOR \<equiv> 0"
abbreviation (input) KEY_STATDATA_MINOR :: nat where "KEY_STATDATA_MINOR \<equiv> 1"
abbreviation (input) KEY_ATTRNAME_MINOR :: nat where "KEY_ATTRNAME_MINOR \<equiv> 2"
abbreviation (input) KEY_ATTRBODY_MINOR :: nat where "KEY_ATTRBODY_MINOR \<equiv> 3"
abbreviation (input) KEY_FILEBODY_MINOR :: nat where "KEY_FILEBODY_MINOR \<equiv> 4"
abbreviation (input) KEY_LAST_MINOR :: nat where "KEY_LAST_MINOR \<equiv> 5"

definition key_common_type2minor :: "nat \<Rightarrow> nat" where
  "key_common_type2minor type =
     (if type = KEY_FILENAME_TYPE then KEY_FILENAME_MINOR
      else if type = KEY_STATDATA_TYPE then KEY_STATDATA_MINOR
      else if type = KEY_ATTRNAME_TYPE then KEY_ATTRNAME_MINOR
      else if type = KEY_ATTRBODY_TYPE then KEY_ATTRBODY_MINOR
      else if type = KEY_FILEBODY_TYPE then KEY_FILEBODY_MINOR
      else MAX_UINT8)"

definition key_common_minor2type :: "nat \<Rightarrow> nat" where
  "key_common_minor2type minor =
     (if minor = KEY_FILENAME_MINOR then KEY_FILENAME_TYPE
      else if minor = KEY_STATDATA_MINOR then KEY_STATDATA_TYPE
      else if minor = KEY_ATTRNAME_MINOR then KEY_ATTRNAME_TYPE
      else if minor = KEY_ATTRBODY_MINOR then KEY_ATTRBODY_TYPE
      else if minor = KEY_FILEBODY_MINOR then KEY_FILEBODY_TYPE
      else MAX_UINT8)"

definition minor_names :: "string list" where
  "minor_names = [''NAME'', ''SD'', ''AN'', ''AB'', ''FB'', ''?'']"

definition key_common_minor2name :: "nat \<Rightarrow> string" where
  "key_common_minor2name type =
     minor_names ! (if type > KEY_LAST_MINOR then KEY_LAST_MINOR else type)"

definition key_common_minimal :: "key_plug \<Rightarrow> reiser4_key" where
  "key_common_minimal plug = \<lparr>kplug = plug, kbody = (\<lambda>_. 0), kadjust = 0\<rparr>"

definition key_common_maximal :: "key_plug \<Rightarrow> reiser4_key" where
  "key_common_maximal plug = \<lparr>kplug = plug, kbody = (\<lambda>_. 0xffffffffffffffff), kadjust = 0\<rparr>"

text \<open>\<^verbatim>\<open>aal_strlen\<close> of a byte string: the bytes before the first NUL.\<close>

definition c_strlen :: "u8 list \<Rightarrow> nat" where
  "c_strlen s = length (takeWhile (\<lambda>c. c \<noteq> 0) s)"

lemma c_strlen_nonzero [simp]: "\<forall>c \<in> set s. c \<noteq> 0 \<Longrightarrow> c_strlen s = length s"
  by (simp add: c_strlen_def takeWhile_eq_all_conv [THEN iffD2])

lemma type2minor_inverse [simp]: "type \<le> 4 \<Longrightarrow> key_common_minor2type (key_common_type2minor type) = type"
  by (auto simp: key_common_minor2type_def key_common_type2minor_def le_Suc_eq numeral_eq_Suc)

lemma type2minor_small [simp]: "type \<le> 4 \<Longrightarrow> key_common_type2minor type = type"
  by (auto simp: key_common_type2minor_def le_Suc_eq numeral_eq_Suc)

section \<open>Contracts\<close>

text \<open>A three-way comparison returning -1, 0 or 1.\<close>

locale three_way =
  fixes cmp :: "'a \<Rightarrow> 'a \<Rightarrow> int"
  assumes cmp_range: "cmp x y \<in> {-1, 0, 1}"
    and cmp_flip: "cmp y x = - cmp x y"
    and cmp_trans: "cmp x y \<le> 0 \<Longrightarrow> cmp y z \<le> 0 \<Longrightarrow> cmp x z \<le> 0"
begin

lemma cmp_refl [simp]: "cmp x x = 0"
  using cmp_flip [of x x] by simp

lemma cmp_total: "cmp x y \<le> 0 \<or> cmp y x \<le> 0"
  using cmp_flip [of x y] by linarith

lemma cmp_ge: "cmp x y = -1 \<longleftrightarrow> \<not> cmp y x \<le> 0" and cmp_le: "cmp x y \<le> 0 \<longleftrightarrow> cmp x y = -1 \<or> cmp x y = 0"
  using cmp_range [of x y] cmp_flip [of y x] by auto

lemma cmp_le_less_trans: "cmp x y \<le> 0 \<Longrightarrow> cmp y z = -1 \<Longrightarrow> cmp x z = -1"
  unfolding cmp_ge using cmp_trans by blast

lemma cmp_mono:
  assumes "cmp x y \<le> 0"
  shows "cmp x z \<le> cmp y z"
proof -
  consider "cmp y z = 1" | "cmp y z = 0" | "cmp y z = -1"
    using cmp_range [of y z] by auto
  then show ?thesis
  proof cases
    case 1
    then show ?thesis using cmp_range [of x z] by auto
  next
    case 2
    then show ?thesis using cmp_trans [OF assms, of z] by simp
  next
    case 3
    then show ?thesis using cmp_le_less_trans [OF assms 3] by simp
  qed
qed

lemma cmp_eq_trans: "cmp x y = 0 \<Longrightarrow> cmp y z = 0 \<Longrightarrow> cmp x z = 0"
  using cmp_flip [of y x] cmp_flip [of z y] cmp_flip [of z x] cmp_trans [of x y z] cmp_trans [of z y x] by linarith

lemma cmp_less_le_trans: "cmp x y = -1 \<Longrightarrow> cmp y z \<le> 0 \<Longrightarrow> cmp x z = -1"
  unfolding cmp_ge using cmp_trans by blast

text \<open>An ascending array is sorted for the binary search with any needle.\<close>

lemma ascending_cmp_sorted:
  "\<forall>i j. i \<le> j \<and> j < n \<longrightarrow> cmp (a i) (a j) \<le> 0 \<Longrightarrow> cmp_sorted n (\<lambda>i. cmp (a i) needle)"
  unfolding cmp_sorted_def using cmp_range cmp_mono by blast

end

section \<open>Bit fields of key elements\<close>

text \<open>
  Every field of a key is the \<open>n\<close> bits from bit \<open>s\<close> on of one element; the setters clear the mask and
  OR the shifted value.
\<close>

definition get_field :: "nat \<Rightarrow> nat \<Rightarrow> u64 \<Rightarrow> u64" where
  "get_field s n el = take_bit n (drop_bit s el)"

definition put_field :: "nat \<Rightarrow> nat \<Rightarrow> u64 \<Rightarrow> u64 \<Rightarrow> u64" where
  "put_field s n el v = el AND NOT (push_bit s (mask n)) OR push_bit s v"

lemma field_get: "drop_bit s (el AND push_bit s (mask n)) = get_field s n el"
  unfolding get_field_def by (rule bit_word_eqI) (auto simp: bit_simps dest: bit_imp_le_length)

lemma get_put_field [simp]:
  "take_bit n v = v \<Longrightarrow> s + n \<le> 64 \<Longrightarrow> get_field s n (put_field s n el v) = v"
  unfolding get_field_def put_field_def
  by (simp add: bit_eq_iff bit_simps) (auto dest: bit_imp_le_length)

lemma get_put_other [simp]:
  assumes v: "take_bit n v = v" and "s + n \<le> 64" "s + n \<le> s' \<or> s' + n' \<le> s"
  shows "get_field s' n' (put_field s n el v) = get_field s' n' el"
proof (rule bit_word_eqI)
  fix i assume "i < LENGTH(64)"
  have "\<not> bit v j" if "n \<le> j" for j
    using that v by (metis bit_take_bit_iff not_le)
  then show "bit (get_field s' n' (put_field s n el v)) i \<longleftrightarrow> bit (get_field s' n' el) i"
    using assms(2,3) unfolding get_field_def put_field_def
    by (auto simp: bit_simps dest: bit_imp_le_length)
qed

lemma mask_locality: "(0xfffffffffffffff0 :: u64) = push_bit 4 (mask 60)"
  and mask_type: "(0xf :: u64) = push_bit 0 (mask 4)"
  and mask_full: "(0xffffffffffffffff :: u64) = push_bit 0 (mask 64)"
  and mask_band: "(0xf000000000000000 :: u64) = push_bit 60 (mask 4)"
  and mask_oid: "(0x0fffffffffffffff :: u64) = push_bit 0 (mask 60)"
  and mask_hash: "(0xffffffffffffff00 :: u64) = push_bit 8 (mask 56)"
  by (simp_all add: mask_eq_exp_minus_1 push_bit_eq_mult)

lemma take_bit_64 [simp]: "take_bit 64 (w :: u64) = w"
  by (rule bit_word_eqI) (auto simp: bit_simps dest: bit_imp_le_length)

lemma unat_two_power: "n < 64 \<Longrightarrow> unat (2 ^ n :: u64) = 2 ^ n"
  using unsigned_push_bit_eq [of n "1 :: u64", where 'a = nat]
  by (simp add: push_bit_eq_mult take_bit_nat_eq_self)

lemma take_bit_less:
  assumes "v < 2 ^ n" "n < 64"
  shows "take_bit n v = (v :: u64)"
proof -
  have "unat v < 2 ^ n" using assms by (simp add: word_less_nat_alt unat_two_power)
  then show ?thesis by (simp add: word_unat_eq_iff unsigned_take_bit_eq take_bit_nat_eq_self)
qed

lemma unat_split: "unat (a :: u64) = 2 ^ s * unat (drop_bit s a) + unat (take_bit s a)"
proof -
  have "unat a < 2 ^ LENGTH(64)" by (rule unsigned_less)
  then have "unat a mod 2 ^ LENGTH(64) = unat a" by simp
  then show ?thesis
    unfolding unsigned_take_bit_eq unsigned_drop_bit_eq unfolding take_bit_eq_mod drop_bit_eq_div
    by simp
qed

lemma digits_less:
  fixes q q' r r' B :: nat
  assumes "r < B" "r' < B"
  shows "B * q + r < B * q' + r' \<longleftrightarrow> q < q' \<or> q = q' \<and> r < r'"
proof (cases q q' rule: linorder_cases)
  case less
  then have "B * Suc q \<le> B * q'" by (intro mult_le_mono2) simp
  then show ?thesis using less assms by simp
next
  case greater
  then have "B * Suc q' \<le> B * q" by (intro mult_le_mono2) simp
  then show ?thesis using greater assms by simp
qed simp

lemma split_less:
  fixes a b :: u64
  shows "a < b \<longleftrightarrow> drop_bit s a < drop_bit s b \<or> drop_bit s a = drop_bit s b \<and> take_bit s a < take_bit s b"
proof -
  have "unat (take_bit s a) < 2 ^ s" "unat (take_bit s b) < 2 ^ s"
    by (simp_all add: unsigned_take_bit_eq)
  then show ?thesis
    unfolding word_less_nat_alt unat_split [of a s] unat_split [of b s] word_unat_eq_iff
    by (simp add: digits_less word_less_nat_alt)
qed

lemma split_eq: "(a :: u64) = b \<longleftrightarrow> drop_bit s a = drop_bit s b \<and> take_bit s a = take_bit s b"
  by (metis unat_split word_unat_eq_iff)

lemma mask_64: "mask 64 = (-1 :: u64)" by (simp add: mask_eq_exp_minus_1)

lemma put_field_full: "put_field 0 64 el v = v"
  by (simp add: put_field_def mask_64)

lemma small_types: "t \<le> 4 \<Longrightarrow> take_bit 4 (word_of_nat t :: u64) = word_of_nat t \<and> unat (word_of_nat t :: u64) = t"
proof -
  assume "t \<le> 4"
  then have "t = 0 \<or> t = 1 \<or> t = 2 \<or> t = 3 \<or> t = 4" by linarith
  then show ?thesis by (elim disjE) simp_all
qed

section \<open>The abstract key\<close>

text \<open>
  What a key is to its clients: the tuple of its fields.  Keys are ordered lexicographically by the
  fields in the order of \<open>key_rank\<close>.
\<close>

record key_view =
  v_locality :: u64
  v_minor :: nat
  v_ordering :: u64
  v_band :: u64
  v_objectid :: u64
  v_offset :: u64

definition key_rank :: "key_view \<Rightarrow> nat list" where
  "key_rank v = [unat (v_locality v), v_minor v, unat (v_ordering v), unat (v_band v),
                 unat (v_objectid v), unat (v_offset v)]"

definition rank_compare :: "nat list \<Rightarrow> nat list \<Rightarrow> int" where
  "rank_compare x y = (if x < y then -1 else if x = y then 0 else 1)"

lemma three_way_rank: "three_way (\<lambda>a b. rank_compare (f a) (f b))"
  by unfold_locales (auto simp: rank_compare_def split: if_splits)

lemma rank_compare_Cons: "rank_compare (x # xs) (y # ys) = (if x < y then -1 else if x = y then rank_compare xs ys else 1)"
  by (auto simp: rank_compare_def)

lemma rank_compare_Nil [simp]: "rank_compare [] [] = 0"
  by (simp add: rank_compare_def)

lemma rank_digits:
  "r < B \<Longrightarrow> r' < B \<Longrightarrow> rank_compare [B * q + r] [B * q' + r'] = rank_compare [q, r] [q', r']"
  using digits_less [of r B r' q q'] digits_less [of r' B r q' q] by (auto simp: rank_compare_def)

lemma el_rank:
  assumes "s + n = 64" "0 < s"
  shows "rank_compare [unat a] [unat b] =
    rank_compare [unat (get_field s n a), unat (get_field 0 s a)] [unat (get_field s n b), unat (get_field 0 s b)]"
proof -
  have drop: "get_field s n x = drop_bit s x" for x :: u64
    unfolding get_field_def using assms by (intro bit_word_eqI) (auto simp: bit_simps dest: bit_imp_le_length)
  have "unat (take_bit s x) < 2 ^ s" for x :: u64
    by (simp add: unsigned_take_bit_eq)
  then show ?thesis
    unfolding drop unat_split [of a s] unat_split [of b s] by (simp add: rank_digits get_field_def)
qed

section \<open>Names packed in keys\<close>

lemma be_pack_take_drop_unpack:
  "\<forall>c \<in> set s. c \<noteq> 0 \<Longrightarrow> aux_unpack_string (aux_pack_string (drop k s) 0) = take 8 (drop k s)"
proof -
  assume "\<forall>c \<in> set s. c \<noteq> 0"
  then have nz: "\<forall>c \<in> set (drop k s). c \<noteq> 0" by (meson in_set_dropD)
  then have "\<forall>c \<in> set (take 8 (drop k s)). c \<noteq> 0" by (meson in_set_takeD)
  then show ?thesis
    using nz aux_unpack_be_pack [of "take 8 (drop k s)" 8]
    by (cases "drop k s = []") (simp_all add: aux_pack_string_be aux_unpack_string_def [of "be_pack _"])
qed

lemma pack_1_unpack:
  assumes "\<forall>c \<in> set s. c \<noteq> 0"
  shows "aux_unpack_string (aux_pack_string s 1) = take 7 s"
proof -
  have "\<forall>c \<in> set (take 7 s). c \<noteq> 0" using assms by (meson in_set_takeD)
  then show ?thesis
    using assms aux_unpack_be_pack_shift [of "take 7 s"]
    by (cases "s = []") (simp_all add: aux_pack_string_be aux_unpack_string_def [of "drop_bit _ _"])
qed

lemma pack_1_nonzero:
  assumes "\<forall>c \<in> set s. c \<noteq> 0" and "s \<noteq> []"
  shows "aux_pack_string s 1 \<noteq> 0"
  using pack_1_unpack [OF assms(1)] assms(2) by (metis aux_unpack_string_0 take_eq_Nil zero_neq_numeral)

lemma pack_1_low:
  assumes "\<forall>c \<in> set s. c \<noteq> 0" and "56 \<le> n"
  shows "\<not> bit (aux_pack_string s 1) n"
  using assms by (auto simp: aux_pack_string_be bit_simps dest: bit_imp_le_length)

lemma fibre_mask: "(0xff00000000000000 :: u64) = push_bit 56 (mask 8)"
  and hashed_mask: "(0x0100000000000000 :: u64) = push_bit 56 1"
  by (simp_all add: mask_eq_exp_minus_1 push_bit_eq_mult)

lemma clear_fibre:
  assumes "\<forall>c \<in> set s. c \<noteq> 0"
  shows "(aux_pack_string s 1 OR push_bit 57 (ucast (f :: u8))) AND NOT 0xff00000000000000 = aux_pack_string s 1"
  unfolding fibre_mask
  by (rule bit_word_eqI) (use pack_1_low [OF assms] in \<open>auto simp: bit_simps not_le not_less\<close>)

lemma and_hashed: "w AND 0x0100000000000000 = 0 \<longleftrightarrow> \<not> bit (w :: u64) 56"
  unfolding hashed_mask by (simp only: bit_iff_and_push_bit_not_eq_0 not_not)

lemma not_hashed:
  assumes "\<forall>c \<in> set s. c \<noteq> 0"
  shows "(aux_pack_string s 1 OR push_bit 57 (ucast (f :: u8))) AND 0x0100000000000000 = 0"
  using pack_1_low [OF assms, of 56] unfolding and_hashed by (simp add: bit_simps)

lemma hashed_set: "(((x :: u64) OR 0x0100000000000000) OR y) AND 0x0100000000000000 \<noteq> 0"
  proof -
  have "bit (0x0100000000000000 :: u64) 56"
    unfolding hashed_mask by (simp only: bit_push_bit_iff bit_1_iff) simp
  then show ?thesis unfolding and_hashed by (simp add: bit_or_iff)
qed

lemma or_nonzero: "(x :: u64) \<noteq> 0 \<Longrightarrow> x OR y \<noteq> 0"
  by (simp add: or_eq_0_iff)

lemma put_field_0: "put_field s n 0 v = push_bit s v"
  by (simp add: put_field_def)

lemma name_len:
  "\<forall>c \<in> set name. c \<noteq> 0 \<Longrightarrow> length name < 65536 \<Longrightarrow> to_u16 (int (c_strlen name)) = length name"
  by (simp add: wrap_simps)

lemma dot_iff: "length name = 1 \<and> name ! 0 = c \<longleftrightarrow> name = [c]"
  by (cases name) auto

lemma get_field_0 [simp]: "get_field s n 0 = 0"
  by (simp add: get_field_def)

lemma get_field_small:
  assumes "x < 2 ^ 60"
  shows "get_field 0 60 x = x" and "get_field 60 4 x = 0"
proof -
  have x: "take_bit 60 x = x" using assms by (simp add: take_bit_less)
  show "get_field 0 60 x = x" by (simp add: get_field_def x)
  have "get_field 60 4 (take_bit 60 x) = 0" by (simp add: get_field_def drop_bit_take_bit)
  then show "get_field 60 4 x = 0" by (simp only: x)
qed

lemma split_4_60: "4 + 60 = (64 :: nat)" "0 < (4 :: nat)" and split_60_4: "60 + 4 = (64 :: nat)" "0 < (60 :: nat)"
  by simp_all

end
