(* ===== verification/KeyLarge.thy ===== *)
theory KeyLarge
  imports KeyCommon
begin

text \<open>
  The large key plugin (\<^verbatim>\<open>plugin/key/key_large\<close>): four 64-bit elements holding locality and type,
  ordering, objectid with its band, and offset; directory entry keys that carry the name itself
  when it has at most 23 bytes.
\<close>

section \<open>Elements and fields\<close>

definition kl_get_el :: "key_body \<Rightarrow> nat \<Rightarrow> u64" where
  "kl_get_el key off = key off"

definition kl_set_el :: "key_body \<Rightarrow> nat \<Rightarrow> u64 \<Rightarrow> key_body" where
  "kl_set_el key off v = key(off := v)"

definition kl_comp_el :: "key_body \<Rightarrow> key_body \<Rightarrow> nat \<Rightarrow> int" where
  "kl_comp_el k1 k2 off =
     (let e1 = kl_get_el k1 off; e2 = kl_get_el k2 off
      in if e1 < e2 then -1 else if e1 = e2 then 0 else 1)"

text \<open>The body of the macro \<^verbatim>\<open>KEY_LARGE_FIELD_HANDLER\<close>, with the index, mask and shift of the field.\<close>

definition kl_field_get :: "nat \<Rightarrow> u64 \<Rightarrow> nat \<Rightarrow> key_body \<Rightarrow> u64" where
  "kl_field_get index msk shift key = drop_bit shift (kl_get_el key index AND msk)"

definition kl_field_set :: "nat \<Rightarrow> u64 \<Rightarrow> nat \<Rightarrow> key_body \<Rightarrow> u64 \<Rightarrow> key_body" where
  "kl_field_set index msk shift key loc =
     (let el = kl_get_el key index;
          el = el AND NOT msk;
          el = el OR push_bit shift loc
      in kl_set_el key index el)"

abbreviation (input) KEY_LARGE_LOCALITY_MASK :: u64 where "KEY_LARGE_LOCALITY_MASK \<equiv> 0xfffffffffffffff0"
abbreviation (input) KEY_LARGE_TYPE_MASK :: u64 where "KEY_LARGE_TYPE_MASK \<equiv> 0xf"
abbreviation (input) KEY_LARGE_ORDERING_MASK :: u64 where "KEY_LARGE_ORDERING_MASK \<equiv> 0xffffffffffffffff"
abbreviation (input) KEY_LARGE_BAND_MASK :: u64 where "KEY_LARGE_BAND_MASK \<equiv> 0xf000000000000000"
abbreviation (input) KEY_LARGE_OBJECTID_MASK :: u64 where "KEY_LARGE_OBJECTID_MASK \<equiv> 0x0fffffffffffffff"
abbreviation (input) KEY_LARGE_FOBJECTID_MASK :: u64 where "KEY_LARGE_FOBJECTID_MASK \<equiv> 0xffffffffffffffff"
abbreviation (input) KEY_LARGE_OFFSET_MASK :: u64 where "KEY_LARGE_OFFSET_MASK \<equiv> 0xffffffffffffffff"
abbreviation (input) KEY_LARGE_HASH_MASK :: u64 where "KEY_LARGE_HASH_MASK \<equiv> 0xffffffffffffff00"

definition kl_get_locality :: "key_body \<Rightarrow> u64" where
  "kl_get_locality = kl_field_get 0 KEY_LARGE_LOCALITY_MASK 4"
definition kl_set_locality :: "key_body \<Rightarrow> u64 \<Rightarrow> key_body" where
  "kl_set_locality = kl_field_set 0 KEY_LARGE_LOCALITY_MASK 4"

text \<open>The type field is read as the enumeration \<^verbatim>\<open>key_minor_t\<close>, here a natural number.\<close>

definition kl_get_minor :: "key_body \<Rightarrow> nat" where
  "kl_get_minor key = unat (kl_field_get 0 KEY_LARGE_TYPE_MASK 0 key)"
definition kl_set_minor :: "key_body \<Rightarrow> nat \<Rightarrow> key_body" where
  "kl_set_minor key loc = kl_field_set 0 KEY_LARGE_TYPE_MASK 0 key (word_of_nat loc)"

definition kl_get_ordering :: "key_body \<Rightarrow> u64" where
  "kl_get_ordering = kl_field_get 1 KEY_LARGE_ORDERING_MASK 0"
definition kl_set_ordering :: "key_body \<Rightarrow> u64 \<Rightarrow> key_body" where
  "kl_set_ordering = kl_field_set 1 KEY_LARGE_ORDERING_MASK 0"
definition kl_get_band :: "key_body \<Rightarrow> u64" where
  "kl_get_band = kl_field_get 2 KEY_LARGE_BAND_MASK 60"
definition kl_set_band :: "key_body \<Rightarrow> u64 \<Rightarrow> key_body" where
  "kl_set_band = kl_field_set 2 KEY_LARGE_BAND_MASK 60"
definition kl_get_objectid :: "key_body \<Rightarrow> u64" where
  "kl_get_objectid = kl_field_get 2 KEY_LARGE_OBJECTID_MASK 0"
definition kl_set_objectid :: "key_body \<Rightarrow> u64 \<Rightarrow> key_body" where
  "kl_set_objectid = kl_field_set 2 KEY_LARGE_OBJECTID_MASK 0"
definition kl_get_fobjectid :: "key_body \<Rightarrow> u64" where
  "kl_get_fobjectid = kl_field_get 2 KEY_LARGE_FOBJECTID_MASK 0"
definition kl_set_fobjectid :: "key_body \<Rightarrow> u64 \<Rightarrow> key_body" where
  "kl_set_fobjectid = kl_field_set 2 KEY_LARGE_FOBJECTID_MASK 0"
definition kl_get_offset :: "key_body \<Rightarrow> u64" where
  "kl_get_offset = kl_field_get 3 KEY_LARGE_OFFSET_MASK 0"
definition kl_set_offset :: "key_body \<Rightarrow> u64 \<Rightarrow> key_body" where
  "kl_set_offset = kl_field_set 3 KEY_LARGE_OFFSET_MASK 0"
definition kl_get_hash :: "key_body \<Rightarrow> u64" where
  "kl_get_hash = kl_field_get 3 KEY_LARGE_HASH_MASK 8"
definition kl_set_hash :: "key_body \<Rightarrow> u64 \<Rightarrow> key_body" where
  "kl_set_hash = kl_field_set 3 KEY_LARGE_HASH_MASK 8"

abbreviation (input) HASHED_NAME_MASK :: u64 where "HASHED_NAME_MASK \<equiv> 0x0100000000000000"
abbreviation (input) FIBRE_MASK :: u64 where "FIBRE_MASK \<equiv> 0xff00000000000000"
abbreviation (input) FIBRE_SHIFT :: nat where "FIBRE_SHIFT \<equiv> 57"

section \<open>Plugin operations\<close>

definition key_large_minimal :: reiser4_key where
  "key_large_minimal = key_common_minimal KEY_LARGE"

definition key_large_maximal :: reiser4_key where
  "key_large_maximal = key_common_maximal KEY_LARGE"

definition key_large_bodysize :: nat where
  "key_large_bodysize = 4"

definition key_large_set_type :: "reiser4_key \<Rightarrow> nat \<Rightarrow> reiser4_key" where
  "key_large_set_type key type = key\<lparr>kbody := kl_set_minor (kbody key) (key_common_type2minor type)\<rparr>"

definition key_large_get_type :: "reiser4_key \<Rightarrow> nat" where
  "key_large_get_type key = key_common_minor2type (kl_get_minor (kbody key))"

definition key_large_set_fobjectid :: "reiser4_key \<Rightarrow> u64 \<Rightarrow> reiser4_key" where
  "key_large_set_fobjectid key objectid = key\<lparr>kbody := kl_set_fobjectid (kbody key) objectid\<rparr>"

definition key_large_get_fobjectid :: "reiser4_key \<Rightarrow> u64" where
  "key_large_get_fobjectid key = kl_get_fobjectid (kbody key)"

definition key_large_set_locality :: "reiser4_key \<Rightarrow> u64 \<Rightarrow> reiser4_key" where
  "key_large_set_locality key locality = key\<lparr>kbody := kl_set_locality (kbody key) locality\<rparr>"

definition key_large_get_locality :: "reiser4_key \<Rightarrow> u64" where
  "key_large_get_locality key = kl_get_locality (kbody key)"

definition key_large_set_ordering :: "reiser4_key \<Rightarrow> u64 \<Rightarrow> reiser4_key" where
  "key_large_set_ordering key ordr = key\<lparr>kbody := kl_set_ordering (kbody key) ordr\<rparr>"

definition key_large_get_ordering :: "reiser4_key \<Rightarrow> u64" where
  "key_large_get_ordering key = kl_get_ordering (kbody key)"

definition key_large_set_objectid :: "reiser4_key \<Rightarrow> u64 \<Rightarrow> reiser4_key" where
  "key_large_set_objectid key objectid = key\<lparr>kbody := kl_set_objectid (kbody key) objectid\<rparr>"

definition key_large_get_objectid :: "reiser4_key \<Rightarrow> u64" where
  "key_large_get_objectid key = kl_get_objectid (kbody key)"

definition key_large_set_offset :: "reiser4_key \<Rightarrow> u64 \<Rightarrow> reiser4_key" where
  "key_large_set_offset key offset = key\<lparr>kbody := kl_set_offset (kbody key) offset\<rparr>"

definition key_large_get_offset :: "reiser4_key \<Rightarrow> u64" where
  "key_large_get_offset key = kl_get_offset (kbody key)"

definition key_large_hashed :: "reiser4_key \<Rightarrow> bool" where
  "key_large_hashed key \<longleftrightarrow> key_large_get_ordering key AND HASHED_NAME_MASK \<noteq> 0"

definition key_large_get_name :: "reiser4_key \<Rightarrow> u8 list option" where
  "key_large_get_name key =
     (if key_large_hashed key then None
      else (let offset = key_large_get_offset key;
                ordr = key_large_get_ordering key;
                objectid = kl_get_fobjectid (kbody key)
            in if objectid = 0 \<and> offset = 0 \<and> ordr = 0 then Some [0x2e]
               else (let ordr = ordr AND NOT FIBRE_MASK
                     in Some (aux_unpack_string ordr @ aux_unpack_string objectid @
                              aux_unpack_string offset))))"

definition key_large_set_hash :: "reiser4_key \<Rightarrow> u64 \<Rightarrow> reiser4_key" where
  "key_large_set_hash key hash = key\<lparr>kbody := kl_set_hash (kbody key) hash\<rparr>"

definition key_large_get_hash :: "reiser4_key \<Rightarrow> u64" where
  "key_large_get_hash key = kl_get_hash (kbody key)"

definition key_large_compshort :: "reiser4_key \<Rightarrow> reiser4_key \<Rightarrow> int" where
  "key_large_compshort key1 key2 =
     (let res = kl_comp_el (kbody key1) (kbody key2) 0 in
      if res \<noteq> 0 then res
      else (let minor = kl_get_minor (kbody key1) in
            if key_common_minor2type minor = KEY_FILENAME_TYPE then 0
            else (let res = kl_comp_el (kbody key1) (kbody key2) 1 in
                  if res \<noteq> 0 then res else kl_comp_el (kbody key1) (kbody key2) 2)))"

definition key_large_compraw :: "key_body \<Rightarrow> key_body \<Rightarrow> int" where
  "key_large_compraw key1 key2 =
     (let res = kl_comp_el key1 key2 0 in
      if res \<noteq> 0 then res
      else (let res = kl_comp_el key1 key2 1 in
            if res \<noteq> 0 then res
            else (let res = kl_comp_el key1 key2 2 in
                  if res \<noteq> 0 then res else kl_comp_el key1 key2 3)))"

definition key_large_compfull :: "reiser4_key \<Rightarrow> reiser4_key \<Rightarrow> int" where
  "key_large_compfull key1 key2 = key_large_compraw (kbody key1) (kbody key2)"

text \<open>
  \<open>hash\<close> and \<open>fibre\<close> are the \<^verbatim>\<open>build\<close> methods of the two plugins, applied to a byte string and a
  length.
\<close>

definition key_large_build_hash ::
  "reiser4_key \<Rightarrow> (u8 list \<Rightarrow> nat \<Rightarrow> u64) \<Rightarrow> (u8 list \<Rightarrow> nat \<Rightarrow> u8) \<Rightarrow> u8 list \<Rightarrow> reiser4_key" where
  "key_large_build_hash key hash fibre name =
     (let len = to_u16 (int (c_strlen name)) in
      if len = 1 \<and> name ! 0 = 0x2e then key
      else
        (let ordr = aux_pack_string name 1;
             objectid = (if len > 7 then aux_pack_string (drop 7 name) 0 else 0);
             (ordr, offset) =
               (if len \<le> 7 + 8 + 8 then
                  (ordr, if len > 15 then aux_pack_string (drop 15 name) 0 else 0)
                else (ordr OR HASHED_NAME_MASK, hash (drop 15 name) (len - 15)));
             ordr = ordr OR push_bit FIBRE_SHIFT (ucast (fibre name len));
             key = key_large_set_ordering key ordr;
             key = key\<lparr>kbody := kl_set_objectid (kbody key) objectid\<rparr>
         in key_large_set_offset key offset))"

definition key_large_build_hashed ::
  "reiser4_key \<Rightarrow> (u8 list \<Rightarrow> nat \<Rightarrow> u64) \<Rightarrow> (u8 list \<Rightarrow> nat \<Rightarrow> u8) \<Rightarrow> u64 \<Rightarrow> u64 \<Rightarrow> u8 list \<Rightarrow> reiser4_key" where
  "key_large_build_hashed key hash fibre locality objectid name =
     (let type = key_common_minor2type KEY_FILENAME_MINOR;
          key = \<lparr>kplug = KEY_LARGE, kbody = (\<lambda>_. 0), kadjust = 0\<rparr>;
          key = key\<lparr>kbody := kl_set_locality (kbody key) objectid\<rparr>;
          key = key\<lparr>kbody := kl_set_minor (kbody key) (key_common_type2minor type)\<rparr>
      in key_large_build_hash key hash fibre name)"

definition key_large_build_generic ::
  "reiser4_key \<Rightarrow> nat \<Rightarrow> u64 \<Rightarrow> u64 \<Rightarrow> u64 \<Rightarrow> u64 \<Rightarrow> reiser4_key" where
  "key_large_build_generic key type locality ordr objectid offset =
     (let key = \<lparr>kplug = KEY_LARGE, kbody = (\<lambda>_. 0), kadjust = 0\<rparr>;
          key = key\<lparr>kbody := kl_set_locality (kbody key) locality\<rparr>;
          key = key\<lparr>kbody := kl_set_ordering (kbody key) ordr\<rparr>;
          key = (if type = KEY_FILENAME_TYPE
                 then key\<lparr>kbody := kl_set_fobjectid (kbody key) objectid\<rparr>
                 else key\<lparr>kbody := kl_set_objectid (kbody key) objectid\<rparr>);
          key = key\<lparr>kbody := kl_set_minor (kbody key) (key_common_type2minor type)\<rparr>
      in key\<lparr>kbody := kl_set_offset (kbody key) offset\<rparr>)"

text \<open>
  The check of \<^verbatim>\<open>key_large_repair.c\<close>.  The C expression \<^verbatim>\<open>!KEY_LARGE_BAND_MASK\<close> is a logical
  negation of a non-zero constant, hence 0.
\<close>

definition key_large_check_struct :: "reiser4_key \<Rightarrow> key_check \<times> reiser4_key" where
  "key_large_check_struct key =
     (let minor = kl_get_minor (kbody key) in
      if minor \<ge> KEY_LAST_MINOR then (KEY_RE_FATAL, key)
      else
        (let oid = key_large_get_locality key;
             not_band = (if KEY_LARGE_BAND_MASK = 0 then 1 else 0);
             key = (if oid AND KEY_LARGE_BAND_MASK \<noteq> 0
                    then key_large_set_locality key (oid AND not_band) else key)
         in if key_large_get_type key = KEY_FILENAME_TYPE then (KEY_OK, key)
            else (let oid = key_large_get_fobjectid key;
                      key = (if oid AND KEY_LARGE_BAND_MASK \<noteq> 0
                             then key_large_set_fobjectid key (oid AND not_band) else key)
                  in (KEY_OK, key))))"

section \<open>Refinement of the abstract key\<close>

definition large_view :: "reiser4_key \<Rightarrow> key_view" where
  "large_view k = \<lparr>v_locality = key_large_get_locality k, v_minor = kl_get_minor (kbody k),
     v_ordering = key_large_get_ordering k, v_band = kl_get_band (kbody k),
     v_objectid = key_large_get_objectid k, v_offset = key_large_get_offset k\<rparr>"

lemma kl_gets [simp]:
  "kl_get_locality k = get_field 4 60 (k 0)"
  "kl_get_minor k = unat (get_field 0 4 (k 0))"
  "kl_get_ordering k = k 1"
  "kl_get_band k = get_field 60 4 (k 2)"
  "kl_get_objectid k = get_field 0 60 (k 2)"
  "kl_get_fobjectid k = k 2"
  "kl_get_offset k = k 3"
  "kl_get_hash k = get_field 8 56 (k 3)"
  unfolding kl_get_locality_def kl_get_minor_def kl_get_ordering_def kl_get_band_def
    kl_get_objectid_def kl_get_fobjectid_def kl_get_offset_def kl_get_hash_def kl_field_get_def
    kl_get_el_def mask_locality mask_type mask_full mask_band mask_oid mask_hash field_get
  by (simp_all add: get_field_def)

lemmas kl_set_defs = kl_set_locality_def kl_set_minor_def kl_set_ordering_def kl_set_band_def
    kl_set_objectid_def kl_set_fobjectid_def kl_set_offset_def kl_set_hash_def kl_field_set_def
    kl_get_el_def kl_set_el_def mask_locality mask_type mask_full mask_band mask_oid mask_hash Let_def


lemma kl_sets:
  "kl_set_locality k v = k(0 := put_field 4 60 (k 0) v)"
  "kl_set_minor k t = k(0 := put_field 0 4 (k 0) (word_of_nat t))"
  "kl_set_ordering k v = k(1 := v)"
  "kl_set_band k v = k(2 := put_field 60 4 (k 2) v)"
  "kl_set_objectid k v = k(2 := put_field 0 60 (k 2) v)"
  "kl_set_fobjectid k v = k(2 := v)"
  "kl_set_offset k v = k(3 := v)"
  "kl_set_hash k v = k(3 := put_field 8 56 (k 3) v)"
  unfolding kl_set_defs put_field_def [symmetric] put_field_full by simp_all

lemma large_set_view:
  "v < 2 ^ 60 \<Longrightarrow> large_view (key_large_set_locality k v) = (large_view k)\<lparr>v_locality := v\<rparr>"
  "t \<le> 4 \<Longrightarrow> large_view (key_large_set_type k t) = (large_view k)\<lparr>v_minor := t\<rparr>"
  "large_view (key_large_set_ordering k v) = (large_view k)\<lparr>v_ordering := v\<rparr>"
  "large_view (key_large_set_fobjectid k v) =
     (large_view k)\<lparr>v_band := get_field 60 4 v, v_objectid := get_field 0 60 v\<rparr>"
  "v < 2 ^ 60 \<Longrightarrow> large_view (key_large_set_objectid k v) = (large_view k)\<lparr>v_objectid := v\<rparr>"
  "large_view (key_large_set_offset k v) = (large_view k)\<lparr>v_offset := v\<rparr>"
  using take_bit_less [of v 60] small_types [of t]
  by (simp_all add: large_view_def key_large_set_locality_def key_large_set_type_def key_large_set_ordering_def
   key_large_set_fobjectid_def key_large_set_objectid_def key_large_set_offset_def key_large_get_locality_def
   key_large_get_ordering_def key_large_get_objectid_def key_large_get_offset_def kl_sets)

lemma kl_comp_el_rank: "kl_comp_el a b i = rank_compare [unat (a i)] [unat (b i)]"
  by (auto simp: kl_comp_el_def kl_get_el_def rank_compare_def word_less_nat_alt word_unat_eq_iff)

lemma key_large_compfull_rank:
  "key_large_compfull k1 k2 = rank_compare (key_rank (large_view k1)) (key_rank (large_view k2))"
proof -
  show ?thesis
  unfolding key_large_compfull_def key_large_compraw_def kl_comp_el_rank Let_def
    el_rank [of 4 60 "kbody k1 0" "kbody k2 0", simplified] el_rank [of 60 4 "kbody k1 2" "kbody k2 2", simplified]
  by (simp add: large_view_def key_rank_def rank_compare_Cons key_large_get_locality_def
   key_large_get_ordering_def key_large_get_objectid_def key_large_get_offset_def)
qed

lemmas key_large_get_defs = key_large_get_locality_def key_large_get_ordering_def
  key_large_get_objectid_def key_large_get_fobjectid_def key_large_get_offset_def
lemmas key_large_set_defs = key_large_set_locality_def key_large_set_type_def
  key_large_set_ordering_def key_large_set_fobjectid_def key_large_set_objectid_def
  key_large_set_offset_def

lemma split_7_8_8:
  "length name \<le> 23 \<Longrightarrow>
   take 7 name @ (if 7 < length name then take 8 (drop 7 name) else []) @
   (if 15 < length name then take 8 (drop 15 name) else []) = name"
proof -
  assume "length name \<le> 23"
  then have "take 8 (drop 15 name) = drop 15 name" by simp
  moreover have "take 8 (drop 7 name) @ drop 15 name = drop 7 name"
    using append_take_drop_id [of 8 "drop 7 name"] by simp
  ultimately show ?thesis by (auto simp: not_less)
qed

lemma key_large_build_hashed_fields:
  fixes hash fibre name
  defines "p \<equiv> aux_pack_string name 1" and "f \<equiv> push_bit 57 (ucast (fibre name (length name))) :: u64"
  assumes "\<forall>c \<in> set name. c \<noteq> 0" and "length name < 65536" and "name \<noteq> [0x2e]"
  shows "key_large_get_ordering (key_large_build_hashed k hash fibre loc oid name) =
      (if length name \<le> 23 then p OR f else (p OR 0x0100000000000000) OR f)"
    and "kl_get_fobjectid (kbody (key_large_build_hashed k hash fibre loc oid name)) =
      (if 7 < length name then aux_pack_string (drop 7 name) 0 else 0)"
    and "key_large_get_offset (key_large_build_hashed k hash fibre loc oid name) =
      (if 23 < length name then hash (drop 15 name) (length name - 15)
       else if 15 < length name then aux_pack_string (drop 15 name) 0 else 0)"
proof -
  have dot: "\<not> (length name = 1 \<and> name ! 0 = 0x2e)" using assms by (simp only: dot_iff not_False_eq_True)
  note unfolds = key_large_build_hashed_def key_large_build_hash_def Let_def name_len [OF assms(3,4)]
    if_not_P [OF dot] p_def f_def
  show "key_large_get_ordering (key_large_build_hashed k hash fibre loc oid name) =
      (if length name \<le> 23 then p OR f else (p OR 0x0100000000000000) OR f)"
    unfolding unfolds by (simp add: key_large_get_defs key_large_set_defs kl_sets)
  show "kl_get_fobjectid (kbody (key_large_build_hashed k hash fibre loc oid name)) =
      (if 7 < length name then aux_pack_string (drop 7 name) 0 else 0)"
    unfolding unfolds by (simp add: key_large_get_defs key_large_set_defs kl_sets put_field_0)
  show "key_large_get_offset (key_large_build_hashed k hash fibre loc oid name) =
      (if 23 < length name then hash (drop 15 name) (length name - 15)
       else if 15 < length name then aux_pack_string (drop 15 name) 0 else 0)"
    unfolding unfolds by (simp add: key_large_get_defs key_large_set_defs kl_sets)
qed

lemma key_large_name:
  assumes nz: "\<forall>c \<in> set name. c \<noteq> 0" and "name \<noteq> []" and len: "length name < 65536"
  shows "key_large_get_name (key_large_build_hashed k hash fibre loc oid name) =
    (if length name \<le> 23 then Some name else None)"
proof (cases "name = [0x2e]")
  case True
  then show ?thesis
    by (simp add: key_large_build_hashed_def key_large_build_hash_def key_large_get_name_def
        key_large_hashed_def key_large_get_defs kl_sets c_strlen_def wrap_simps)
next
  case False
  note fields = key_large_build_hashed_fields [OF nz len False]
  show ?thesis
  proof (cases "length name \<le> 23")
    case True
    then show ?thesis
      using or_nonzero [OF pack_1_nonzero [OF nz \<open>name \<noteq> []\<close>]]
      unfolding key_large_get_name_def key_large_hashed_def fields Let_def if_P [OF True]
        not_hashed [OF nz] clear_fibre [OF nz] pack_1_unpack [OF nz]
      using split_7_8_8 [OF True]
      by (simp add: be_pack_take_drop_unpack [OF nz] if_distrib [of aux_unpack_string] cong: if_cong)
  next
    case False
    then show ?thesis
      unfolding key_large_get_name_def key_large_hashed_def fields if_not_P [OF False] if_P [OF hashed_set]
      by (simp only:)
  qed
qed

lemma key_large_build_generic_view:
  assumes "type \<le> 4" and "locality < 2 ^ 60" and "type = 0 \<or> objectid < 2 ^ 60"
  shows "large_view (key_large_build_generic k type locality ordr objectid offset) =
    \<lparr>v_locality = locality, v_minor = type, v_ordering = ordr, v_band = get_field 60 4 objectid,
     v_objectid = get_field 0 60 objectid, v_offset = offset\<rparr>"
  using assms take_bit_less [of locality 60] small_types [of type] take_bit_less [of objectid 60]
    get_field_small [of objectid]
  unfolding key_large_build_generic_def Let_def
  by (auto simp: large_view_def key_large_get_defs key_large_set_defs kl_sets)

end
