(* ===== verification/KeyShort.thy ===== *)
theory KeyShort
  imports KeyCommon
begin

text \<open>
  The short key plugin (\<^verbatim>\<open>plugin/key/key_short\<close>): three 64-bit elements holding locality and type,
  objectid with its band, and offset; there is no ordering.  Directory entry keys carry the name
  itself when it has at most 15 bytes.
\<close>

section \<open>Elements and fields\<close>

definition ks_get_el :: "key_body \<Rightarrow> nat \<Rightarrow> u64" where
  "ks_get_el key off = key off"

definition ks_set_el :: "key_body \<Rightarrow> nat \<Rightarrow> u64 \<Rightarrow> key_body" where
  "ks_set_el key off v = key(off := v)"

definition ks_comp_el :: "key_body \<Rightarrow> key_body \<Rightarrow> nat \<Rightarrow> int" where
  "ks_comp_el k1 k2 off =
     (let e1 = ks_get_el k1 off; e2 = ks_get_el k2 off
      in if e1 < e2 then -1 else if e1 = e2 then 0 else 1)"

text \<open>The body of the macro \<^verbatim>\<open>KEY_SHORT_FIELD_HANDLER\<close>, with the index, mask and shift of the field.\<close>

definition ks_field_get :: "nat \<Rightarrow> u64 \<Rightarrow> nat \<Rightarrow> key_body \<Rightarrow> u64" where
  "ks_field_get index msk shift key = drop_bit shift (ks_get_el key index AND msk)"

definition ks_field_set :: "nat \<Rightarrow> u64 \<Rightarrow> nat \<Rightarrow> key_body \<Rightarrow> u64 \<Rightarrow> key_body" where
  "ks_field_set index msk shift key loc =
     (let el = ks_get_el key index;
          el = el AND NOT msk;
          el = el OR push_bit shift loc
      in ks_set_el key index el)"

abbreviation (input) KEY_SHORT_LOCALITY_MASK :: u64 where "KEY_SHORT_LOCALITY_MASK \<equiv> 0xfffffffffffffff0"
abbreviation (input) KEY_SHORT_TYPE_MASK :: u64 where "KEY_SHORT_TYPE_MASK \<equiv> 0xf"
abbreviation (input) KEY_SHORT_BAND_MASK :: u64 where "KEY_SHORT_BAND_MASK \<equiv> 0xf000000000000000"
abbreviation (input) KEY_SHORT_OBJECTID_MASK :: u64 where "KEY_SHORT_OBJECTID_MASK \<equiv> 0x0fffffffffffffff"
abbreviation (input) KEY_SHORT_FOBJECTID_MASK :: u64 where "KEY_SHORT_FOBJECTID_MASK \<equiv> 0xffffffffffffffff"
abbreviation (input) KEY_SHORT_OFFSET_MASK :: u64 where "KEY_SHORT_OFFSET_MASK \<equiv> 0xffffffffffffffff"
abbreviation (input) KEY_SHORT_HASH_MASK :: u64 where "KEY_SHORT_HASH_MASK \<equiv> 0xffffffffffffff00"

definition ks_get_locality :: "key_body \<Rightarrow> u64" where
  "ks_get_locality = ks_field_get 0 KEY_SHORT_LOCALITY_MASK 4"
definition ks_set_locality :: "key_body \<Rightarrow> u64 \<Rightarrow> key_body" where
  "ks_set_locality = ks_field_set 0 KEY_SHORT_LOCALITY_MASK 4"
definition ks_get_minor :: "key_body \<Rightarrow> nat" where
  "ks_get_minor key = unat (ks_field_get 0 KEY_SHORT_TYPE_MASK 0 key)"
definition ks_set_minor :: "key_body \<Rightarrow> nat \<Rightarrow> key_body" where
  "ks_set_minor key loc = ks_field_set 0 KEY_SHORT_TYPE_MASK 0 key (word_of_nat loc)"
definition ks_get_band :: "key_body \<Rightarrow> u64" where
  "ks_get_band = ks_field_get 1 KEY_SHORT_BAND_MASK 60"
definition ks_set_band :: "key_body \<Rightarrow> u64 \<Rightarrow> key_body" where
  "ks_set_band = ks_field_set 1 KEY_SHORT_BAND_MASK 60"
definition ks_get_objectid :: "key_body \<Rightarrow> u64" where
  "ks_get_objectid = ks_field_get 1 KEY_SHORT_OBJECTID_MASK 0"
definition ks_set_objectid :: "key_body \<Rightarrow> u64 \<Rightarrow> key_body" where
  "ks_set_objectid = ks_field_set 1 KEY_SHORT_OBJECTID_MASK 0"
definition ks_get_fobjectid :: "key_body \<Rightarrow> u64" where
  "ks_get_fobjectid = ks_field_get 1 KEY_SHORT_FOBJECTID_MASK 0"
definition ks_set_fobjectid :: "key_body \<Rightarrow> u64 \<Rightarrow> key_body" where
  "ks_set_fobjectid = ks_field_set 1 KEY_SHORT_FOBJECTID_MASK 0"
definition ks_get_offset :: "key_body \<Rightarrow> u64" where
  "ks_get_offset = ks_field_get 2 KEY_SHORT_OFFSET_MASK 0"
definition ks_set_offset :: "key_body \<Rightarrow> u64 \<Rightarrow> key_body" where
  "ks_set_offset = ks_field_set 2 KEY_SHORT_OFFSET_MASK 0"
definition ks_get_hash :: "key_body \<Rightarrow> u64" where
  "ks_get_hash = ks_field_get 2 KEY_SHORT_HASH_MASK 8"
definition ks_set_hash :: "key_body \<Rightarrow> u64 \<Rightarrow> key_body" where
  "ks_set_hash = ks_field_set 2 KEY_SHORT_HASH_MASK 8"

abbreviation (input) KS_HASHED_NAME_MASK :: u64 where "KS_HASHED_NAME_MASK \<equiv> 0x0100000000000000"
abbreviation (input) KS_FIBRE_MASK :: u64 where "KS_FIBRE_MASK \<equiv> 0xff00000000000000"
abbreviation (input) KS_FIBRE_SHIFT :: nat where "KS_FIBRE_SHIFT \<equiv> 57"

section \<open>Plugin operations\<close>

definition key_short_minimal :: reiser4_key where
  "key_short_minimal = key_common_minimal KEY_SHORT"

definition key_short_maximal :: reiser4_key where
  "key_short_maximal = key_common_maximal KEY_SHORT"

definition key_short_bodysize :: nat where
  "key_short_bodysize = 3"

definition key_short_set_type :: "reiser4_key \<Rightarrow> nat \<Rightarrow> reiser4_key" where
  "key_short_set_type key type = key\<lparr>kbody := ks_set_minor (kbody key) (key_common_type2minor type)\<rparr>"

definition key_short_get_type :: "reiser4_key \<Rightarrow> nat" where
  "key_short_get_type key = key_common_minor2type (ks_get_minor (kbody key))"

definition key_short_set_fobjectid :: "reiser4_key \<Rightarrow> u64 \<Rightarrow> reiser4_key" where
  "key_short_set_fobjectid key objectid = key\<lparr>kbody := ks_set_fobjectid (kbody key) objectid\<rparr>"

definition key_short_get_fobjectid :: "reiser4_key \<Rightarrow> u64" where
  "key_short_get_fobjectid key = ks_get_fobjectid (kbody key)"

definition key_short_set_locality :: "reiser4_key \<Rightarrow> u64 \<Rightarrow> reiser4_key" where
  "key_short_set_locality key locality = key\<lparr>kbody := ks_set_locality (kbody key) locality\<rparr>"

definition key_short_get_locality :: "reiser4_key \<Rightarrow> u64" where
  "key_short_get_locality key = ks_get_locality (kbody key)"

definition key_short_set_ordering :: "reiser4_key \<Rightarrow> u64 \<Rightarrow> reiser4_key" where
  "key_short_set_ordering key ordr = key"

definition key_short_get_ordering :: "reiser4_key \<Rightarrow> u64" where
  "key_short_get_ordering key = 0"

definition key_short_set_objectid :: "reiser4_key \<Rightarrow> u64 \<Rightarrow> reiser4_key" where
  "key_short_set_objectid key objectid = key\<lparr>kbody := ks_set_objectid (kbody key) objectid\<rparr>"

definition key_short_get_objectid :: "reiser4_key \<Rightarrow> u64" where
  "key_short_get_objectid key = ks_get_objectid (kbody key)"

definition key_short_set_offset :: "reiser4_key \<Rightarrow> u64 \<Rightarrow> reiser4_key" where
  "key_short_set_offset key offset = key\<lparr>kbody := ks_set_offset (kbody key) offset\<rparr>"

definition key_short_get_offset :: "reiser4_key \<Rightarrow> u64" where
  "key_short_get_offset key = ks_get_offset (kbody key)"

definition key_short_hashed :: "reiser4_key \<Rightarrow> bool" where
  "key_short_hashed key \<longleftrightarrow> ks_get_fobjectid (kbody key) AND KS_HASHED_NAME_MASK \<noteq> 0"

definition key_short_get_name :: "reiser4_key \<Rightarrow> u8 list option" where
  "key_short_get_name key =
     (if key_short_hashed key then None
      else (let offset = key_short_get_offset key;
                objectid = ks_get_fobjectid (kbody key)
            in if objectid = 0 \<and> offset = 0 then Some [0x2e]
               else (let objectid = objectid AND NOT KS_FIBRE_MASK
                     in Some (aux_unpack_string objectid @ aux_unpack_string offset))))"

definition key_short_set_hash :: "reiser4_key \<Rightarrow> u64 \<Rightarrow> reiser4_key" where
  "key_short_set_hash key hash = key\<lparr>kbody := ks_set_hash (kbody key) hash\<rparr>"

definition key_short_get_hash :: "reiser4_key \<Rightarrow> u64" where
  "key_short_get_hash key = ks_get_hash (kbody key)"

definition key_short_compshort :: "reiser4_key \<Rightarrow> reiser4_key \<Rightarrow> int" where
  "key_short_compshort key1 key2 =
     (let res = ks_comp_el (kbody key1) (kbody key2) 0 in
      if res \<noteq> 0 then res
      else (let minor = ks_get_minor (kbody key1) in
            if key_common_minor2type minor = KEY_FILENAME_TYPE then 0
            else ks_comp_el (kbody key1) (kbody key2) 1))"

definition key_short_compraw :: "key_body \<Rightarrow> key_body \<Rightarrow> int" where
  "key_short_compraw key1 key2 =
     (let res = ks_comp_el key1 key2 0 in
      if res \<noteq> 0 then res
      else (let res = ks_comp_el key1 key2 1 in
            if res \<noteq> 0 then res else ks_comp_el key1 key2 2))"

definition key_short_compfull :: "reiser4_key \<Rightarrow> reiser4_key \<Rightarrow> int" where
  "key_short_compfull key1 key2 = key_short_compraw (kbody key1) (kbody key2)"

definition key_short_build_hash ::
  "reiser4_key \<Rightarrow> (u8 list \<Rightarrow> nat \<Rightarrow> u64) \<Rightarrow> (u8 list \<Rightarrow> nat \<Rightarrow> u8) \<Rightarrow> u8 list \<Rightarrow> reiser4_key" where
  "key_short_build_hash key hash fibre name =
     (let len = to_u16 (int (c_strlen name)) in
      if len = 1 \<and> name ! 0 = 0x2e then key
      else
        (let objectid = aux_pack_string name 1;
             (objectid, offset) =
               (if len \<le> 7 + 8 then
                  (objectid, if len > 7 then aux_pack_string (drop 7 name) 0 else 0)
                else (objectid OR KS_HASHED_NAME_MASK, hash (drop 7 name) (len - 7)));
             objectid = objectid OR push_bit KS_FIBRE_SHIFT (ucast (fibre name len));
             key = key\<lparr>kbody := ks_set_fobjectid (kbody key) objectid\<rparr>
         in key_short_set_offset key offset))"

definition key_short_build_hashed ::
  "reiser4_key \<Rightarrow> (u8 list \<Rightarrow> nat \<Rightarrow> u64) \<Rightarrow> (u8 list \<Rightarrow> nat \<Rightarrow> u8) \<Rightarrow> u64 \<Rightarrow> u64 \<Rightarrow> u8 list \<Rightarrow> reiser4_key" where
  "key_short_build_hashed key hash fibre locality objectid name =
     (let key = \<lparr>kplug = KEY_SHORT, kbody = (\<lambda>_. 0), kadjust = 0\<rparr>;
          type = key_common_minor2type KEY_FILENAME_MINOR;
          key = key\<lparr>kbody := ks_set_locality (kbody key) objectid\<rparr>;
          key = key\<lparr>kbody := ks_set_minor (kbody key) (key_common_type2minor type)\<rparr>
      in key_short_build_hash key hash fibre name)"

definition key_short_build_generic ::
  "reiser4_key \<Rightarrow> nat \<Rightarrow> u64 \<Rightarrow> u64 \<Rightarrow> u64 \<Rightarrow> u64 \<Rightarrow> reiser4_key" where
  "key_short_build_generic key type locality ordr objectid offset =
     (let key = \<lparr>kplug = KEY_SHORT, kbody = (\<lambda>_. 0), kadjust = 0\<rparr>;
          key = key\<lparr>kbody := ks_set_locality (kbody key) locality\<rparr>;
          key = (if type = KEY_FILENAME_TYPE
                 then key\<lparr>kbody := ks_set_fobjectid (kbody key) objectid\<rparr>
                 else key\<lparr>kbody := ks_set_objectid (kbody key) objectid\<rparr>);
          key = key\<lparr>kbody := ks_set_minor (kbody key) (key_common_type2minor type)\<rparr>
      in key\<lparr>kbody := ks_set_offset (kbody key) offset\<rparr>)"

text \<open>
  The check of \<^verbatim>\<open>key_short_repair.c\<close>.  The C expression \<^verbatim>\<open>!KEY_SHORT_BAND_MASK\<close> is a logical
  negation of a non-zero constant, hence 0.
\<close>

definition key_short_check_struct :: "reiser4_key \<Rightarrow> key_check \<times> reiser4_key" where
  "key_short_check_struct key =
     (let minor = ks_get_minor (kbody key) in
      if minor \<ge> KEY_LAST_MINOR then (KEY_RE_FATAL, key)
      else
        (let oid = key_short_get_locality key;
             not_band = (if KEY_SHORT_BAND_MASK = 0 then 1 else 0);
             key = (if oid AND KEY_SHORT_BAND_MASK \<noteq> 0
                    then key_short_set_locality key (oid AND not_band) else key)
         in if key_short_get_type key = KEY_FILENAME_TYPE then (KEY_OK, key)
            else (let oid = key_short_get_fobjectid key;
                      key = (if oid AND KEY_SHORT_BAND_MASK \<noteq> 0
                             then key_short_set_fobjectid key (oid AND not_band) else key)
                  in (KEY_OK, key))))"

section \<open>Refinement of the abstract key\<close>

definition short_view :: "reiser4_key \<Rightarrow> key_view" where
  "short_view k = \<lparr>v_locality = key_short_get_locality k, v_minor = ks_get_minor (kbody k),
     v_ordering = key_short_get_ordering k, v_band = ks_get_band (kbody k),
     v_objectid = key_short_get_objectid k, v_offset = key_short_get_offset k\<rparr>"

lemma ks_gets [simp]:
  "ks_get_locality k = get_field 4 60 (k 0)"
  "ks_get_minor k = unat (get_field 0 4 (k 0))"
  "ks_get_band k = get_field 60 4 (k 1)"
  "ks_get_objectid k = get_field 0 60 (k 1)"
  "ks_get_fobjectid k = k 1"
  "ks_get_offset k = k 2"
  "ks_get_hash k = get_field 8 56 (k 2)"
  unfolding ks_get_locality_def ks_get_minor_def ks_get_band_def
    ks_get_objectid_def ks_get_fobjectid_def ks_get_offset_def ks_get_hash_def ks_field_get_def
    ks_get_el_def mask_locality mask_type mask_full mask_band mask_oid mask_hash field_get
  by (simp_all add: get_field_def)

lemmas ks_set_defs = ks_set_locality_def ks_set_minor_def ks_set_band_def
    ks_set_objectid_def ks_set_fobjectid_def ks_set_offset_def ks_set_hash_def ks_field_set_def
    ks_get_el_def ks_set_el_def mask_locality mask_type mask_full mask_band mask_oid mask_hash Let_def

lemma ks_sets:
  "ks_set_locality k v = k(0 := put_field 4 60 (k 0) v)"
  "ks_set_minor k t = k(0 := put_field 0 4 (k 0) (word_of_nat t))"
  "ks_set_band k v = k(1 := put_field 60 4 (k 1) v)"
  "ks_set_objectid k v = k(1 := put_field 0 60 (k 1) v)"
  "ks_set_fobjectid k v = k(1 := v)"
  "ks_set_offset k v = k(2 := v)"
  "ks_set_hash k v = k(2 := put_field 8 56 (k 2) v)"
  unfolding ks_set_defs put_field_def [symmetric] put_field_full by simp_all

lemmas key_short_get_defs = key_short_get_locality_def key_short_get_ordering_def
  key_short_get_objectid_def key_short_get_fobjectid_def key_short_get_offset_def
lemmas key_short_set_defs = key_short_set_locality_def key_short_set_type_def
  key_short_set_ordering_def key_short_set_fobjectid_def key_short_set_objectid_def
  key_short_set_offset_def

lemma short_set_view:
  "v < 2 ^ 60 \<Longrightarrow> short_view (key_short_set_locality k v) = (short_view k)\<lparr>v_locality := v\<rparr>"
  "t \<le> 4 \<Longrightarrow> short_view (key_short_set_type k t) = (short_view k)\<lparr>v_minor := t\<rparr>"
  "short_view (key_short_set_ordering k v) = short_view k"
  "short_view (key_short_set_fobjectid k v) =
     (short_view k)\<lparr>v_band := get_field 60 4 v, v_objectid := get_field 0 60 v\<rparr>"
  "v < 2 ^ 60 \<Longrightarrow> short_view (key_short_set_objectid k v) = (short_view k)\<lparr>v_objectid := v\<rparr>"
  "short_view (key_short_set_offset k v) = (short_view k)\<lparr>v_offset := v\<rparr>"
  using take_bit_less [of v 60] small_types [of t]
  by (simp_all add: short_view_def key_short_get_defs key_short_set_defs ks_sets)

lemma key_short_build_generic_view:
  assumes "type \<le> 4" and "locality < 2 ^ 60" and "type = 0 \<or> objectid < 2 ^ 60"
  shows "short_view (key_short_build_generic k type locality ordr objectid offset) =
    \<lparr>v_locality = locality, v_minor = type, v_ordering = 0, v_band = get_field 60 4 objectid,
     v_objectid = get_field 0 60 objectid, v_offset = offset\<rparr>"
  using assms take_bit_less [of locality 60] small_types [of type] take_bit_less [of objectid 60]
    get_field_small [of objectid]
  unfolding key_short_build_generic_def Let_def
  by (auto simp: short_view_def key_short_get_defs key_short_set_defs ks_sets)

lemma ks_comp_el_rank: "ks_comp_el a b i = rank_compare [unat (a i)] [unat (b i)]"
  by (auto simp: ks_comp_el_def ks_get_el_def rank_compare_def word_less_nat_alt word_unat_eq_iff)

lemma key_short_compfull_rank:
  "key_short_compfull k1 k2 = rank_compare (key_rank (short_view k1)) (key_rank (short_view k2))"
  unfolding key_short_compfull_def key_short_compraw_def ks_comp_el_rank Let_def
    el_rank [OF split_4_60, of "kbody k1 0" "kbody k2 0"] el_rank [OF split_60_4, of "kbody k1 1" "kbody k2 1"]
  by (simp add: short_view_def key_rank_def rank_compare_Cons key_short_get_defs)

lemma split_7_8:
  "length name \<le> 15 \<Longrightarrow>
   take 7 name @ (if 7 < length name then take 8 (drop 7 name) else []) = name"
  by (auto simp: not_less)

lemma key_short_build_hashed_fields:
  fixes hash fibre name
  defines "p \<equiv> aux_pack_string name 1" and "f \<equiv> push_bit 57 (ucast (fibre name (length name))) :: u64"
  assumes "\<forall>c \<in> set name. c \<noteq> 0" and "length name < 65536" and "name \<noteq> [0x2e]"
  shows "kbody (key_short_build_hashed k hash fibre loc oid name) 1 =
      (if length name \<le> 15 then p OR f else (p OR 0x0100000000000000) OR f)"
    and "key_short_get_offset (key_short_build_hashed k hash fibre loc oid name) =
      (if 15 < length name then hash (drop 7 name) (length name - 7)
       else if 7 < length name then aux_pack_string (drop 7 name) 0 else 0)"
proof -
  have dot: "\<not> (length name = 1 \<and> name ! 0 = 0x2e)" using assms by (simp only: dot_iff not_False_eq_True)
  note unfolds = key_short_build_hashed_def key_short_build_hash_def Let_def name_len [OF assms(3,4)]
    if_not_P [OF dot] p_def f_def
  show "kbody (key_short_build_hashed k hash fibre loc oid name) 1 =
      (if length name \<le> 15 then p OR f else (p OR 0x0100000000000000) OR f)"
    unfolding unfolds by (simp add: key_short_get_defs key_short_set_defs ks_sets)
  show "key_short_get_offset (key_short_build_hashed k hash fibre loc oid name) =
      (if 15 < length name then hash (drop 7 name) (length name - 7)
       else if 7 < length name then aux_pack_string (drop 7 name) 0 else 0)"
    unfolding unfolds by (simp add: key_short_get_defs key_short_set_defs ks_sets)
qed

lemma key_short_name:
  assumes nz: "\<forall>c \<in> set name. c \<noteq> 0" and "name \<noteq> []" and len: "length name < 65536"
  shows "key_short_get_name (key_short_build_hashed k hash fibre loc oid name) =
    (if length name \<le> 15 then Some name else None)"
proof (cases "name = [0x2e]")
  case True
  then show ?thesis
    by (simp add: key_short_build_hashed_def key_short_build_hash_def key_short_get_name_def
        key_short_hashed_def key_short_get_defs ks_sets c_strlen_def wrap_simps)
next
  case False
  note fields = key_short_build_hashed_fields [OF nz len False]
  show ?thesis
  proof (cases "length name \<le> 15")
    case True
    then show ?thesis
      using or_nonzero [OF pack_1_nonzero [OF nz \<open>name \<noteq> []\<close>]]
      unfolding key_short_get_name_def key_short_hashed_def ks_gets fields Let_def if_P [OF True]
        not_hashed [OF nz] clear_fibre [OF nz] pack_1_unpack [OF nz]
      using split_7_8 [OF True]
      by (simp add: be_pack_take_drop_unpack [OF nz] if_distrib [of aux_unpack_string] cong: if_cong)
  next
    case False
    then show ?thesis
      unfolding key_short_get_name_def key_short_hashed_def ks_gets fields if_not_P [OF False] if_P [OF hashed_set]
      by (simp only:)
  qed
qed

text \<open>
  The assertion at the end of \<^verbatim>\<open>key_short_build_hash\<close>, that the objectid with the fibre in it fits into 60 bits,
  holds exactly for fibres without the bits 3 to 6 (bit 7 is shifted out of the word).  The fibre of \<^verbatim>\<open>a.c\<close> by
  \<^verbatim>\<open>ext_1_fibre\<close>, the letter \<^verbatim>\<open>c\<close>, violates it.
\<close>

lemma key_short_objectid_fits:
  assumes "\<forall>c \<in> set name. c \<noteq> 0" "length name < 65536" "name \<noteq> [0x2e]"
  shows "key_short_get_fobjectid (key_short_build_hashed k hash fibre loc oid name) AND 0xf000000000000000 = 0 \<longleftrightarrow>
    fibre name (length name) AND 0x78 = 0"
proof -
  let ?f = "fibre name (length name)" and ?p = "aux_pack_string name 1"
  let ?o = "key_short_get_fobjectid (key_short_build_hashed k hash fibre loc oid name)"
  have o: "?o = (if length name \<le> 15 then ?p OR push_bit 57 (ucast ?f) else (?p OR 0x0100000000000000) OR push_bit 57 (ucast ?f))"
    unfolding key_short_get_fobjectid_def ks_gets using key_short_build_hashed_fields(1) [OF assms] .
  have hashed: "\<not> bit (0x0100000000000000 :: u64) n" if "60 \<le> n" for n
    using that unfolding hashed_mask by (simp only: bit_push_bit_iff bit_1_iff) simp
  have low: "\<not> bit ?p n" if "60 \<le> n" for n using pack_1_low [OF assms(1), of n] that by simp
  have o_bit: "bit ?o n \<longleftrightarrow> n < 64 \<and> bit ?f (n - 57)" if "60 \<le> n" for n
    using low [OF that] hashed [OF that] that by (simp add: o bit_simps) (auto dest: bit_imp_le_length)
  have band: "x AND 0xf000000000000000 = 0 \<longleftrightarrow> (\<forall>n\<in>{60, 61, 62, 63}. \<not> bit x n)" for x :: u64
  proof -
    have n: "n < 64 \<and> bit (0xf000000000000000 :: u64) n \<longleftrightarrow> n \<in> {60, 61, 62, 63}" for n
      unfolding mask_band by (simp only: bit_push_bit_iff bit_mask_iff) (simp, linarith)
    have "x AND 0xf000000000000000 = 0 \<longleftrightarrow> (\<forall>n. \<not> (bit x n \<and> n < 64 \<and> bit (0xf000000000000000 :: u64) n))"
      unfolding bit_eq_iff bit_and_iff by (auto dest: bit_imp_le_length)
    then show ?thesis unfolding n by blast
  qed
  have fib: "y AND 0x78 = 0 \<longleftrightarrow> (\<forall>n\<in>{3, 4, 5, 6}. \<not> bit y n)" for y :: u8
  proof -
    have m: "(0x78 :: u8) = push_bit 3 (mask 4)" by code_simp
    have n: "n < 8 \<and> bit (0x78 :: u8) n \<longleftrightarrow> n \<in> {3, 4, 5, 6}" for n
      unfolding m by (simp only: bit_push_bit_iff bit_mask_iff) (simp, linarith)
    have "y AND 0x78 = 0 \<longleftrightarrow> (\<forall>n. \<not> (bit y n \<and> n < 8 \<and> bit (0x78 :: u8) n))"
      unfolding bit_eq_iff bit_and_iff by (auto dest: bit_imp_le_length)
    then show ?thesis unfolding n by blast
  qed
  show ?thesis unfolding band fib by (simp add: o_bit)
qed

lemma key_short_dot_objectid: "key_short_get_fobjectid (key_short_build_hashed k hash fibre loc oid [0x2e]) = 0"
  by (simp add: key_short_build_hashed_def key_short_build_hash_def key_short_get_fobjectid_def ks_sets ks_gets c_strlen_def wrap_simps)

end
