(* ===== verification/LibKey.thy ===== *)
theory LibKey
  imports KeyLarge KeyShort
begin

text \<open>
  Plugin-independent key operations (\<^verbatim>\<open>libreiser4/key.c\<close>): each dispatches on the plugin of the
  key.  The same dispatch is what \<^verbatim>\<open>objcall(key, ...)\<close> and \<^verbatim>\<open>plugcall(key->plug, ...)\<close> do in the
  node and item plugins, which use the functions of this theory.
\<close>

definition reiser4_key_compshort :: "reiser4_key \<Rightarrow> reiser4_key \<Rightarrow> int" where
  "reiser4_key_compshort key1 key2 =
     (case kplug key1 of KEY_SHORT \<Rightarrow> key_short_compshort key1 key2
                       | KEY_LARGE \<Rightarrow> key_large_compshort key1 key2)"

definition reiser4_key_compfull :: "reiser4_key \<Rightarrow> reiser4_key \<Rightarrow> int" where
  "reiser4_key_compfull key1 key2 =
     (case kplug key1 of KEY_SHORT \<Rightarrow> key_short_compfull key1 key2
                       | KEY_LARGE \<Rightarrow> key_large_compfull key1 key2)"

definition key_plug_compraw :: "key_plug \<Rightarrow> key_body \<Rightarrow> key_body \<Rightarrow> int" where
  "key_plug_compraw plug k1 k2 =
     (case plug of KEY_SHORT \<Rightarrow> key_short_compraw k1 k2 | KEY_LARGE \<Rightarrow> key_large_compraw k1 k2)"

definition key_plug_bodysize :: "key_plug \<Rightarrow> nat" where
  "key_plug_bodysize plug =
     (case plug of KEY_SHORT \<Rightarrow> key_short_bodysize | KEY_LARGE \<Rightarrow> key_large_bodysize)"

definition key_plug_maximal :: "key_plug \<Rightarrow> reiser4_key" where
  "key_plug_maximal plug =
     (case plug of KEY_SHORT \<Rightarrow> key_short_maximal | KEY_LARGE \<Rightarrow> key_large_maximal)"

definition key_plug_minimal :: "key_plug \<Rightarrow> reiser4_key" where
  "key_plug_minimal plug =
     (case plug of KEY_SHORT \<Rightarrow> key_short_minimal | KEY_LARGE \<Rightarrow> key_large_minimal)"

definition reiser4_key_hashed :: "reiser4_key \<Rightarrow> bool" where
  "reiser4_key_hashed key =
     (case kplug key of KEY_SHORT \<Rightarrow> key_short_hashed key | KEY_LARGE \<Rightarrow> key_large_hashed key)"

definition reiser4_key_get_name :: "reiser4_key \<Rightarrow> u8 list option" where
  "reiser4_key_get_name key =
     (case kplug key of KEY_SHORT \<Rightarrow> key_short_get_name key | KEY_LARGE \<Rightarrow> key_large_get_name key)"

definition reiser4_key_build_generic ::
  "reiser4_key \<Rightarrow> nat \<Rightarrow> u64 \<Rightarrow> u64 \<Rightarrow> u64 \<Rightarrow> u64 \<Rightarrow> reiser4_key" where
  "reiser4_key_build_generic key type locality ordr objectid offset =
     (case kplug key of
        KEY_SHORT \<Rightarrow> key_short_build_generic key type locality ordr objectid offset
      | KEY_LARGE \<Rightarrow> key_large_build_generic key type locality ordr objectid offset)"

definition reiser4_key_build_hashed ::
  "reiser4_key \<Rightarrow> (u8 list \<Rightarrow> nat \<Rightarrow> u64) \<Rightarrow> (u8 list \<Rightarrow> nat \<Rightarrow> u8) \<Rightarrow> u64 \<Rightarrow> u64 \<Rightarrow> u8 list \<Rightarrow> reiser4_key" where
  "reiser4_key_build_hashed key hash fibre locality objectid name =
     (case kplug key of
        KEY_SHORT \<Rightarrow> key_short_build_hashed key hash fibre locality objectid name
      | KEY_LARGE \<Rightarrow> key_large_build_hashed key hash fibre locality objectid name)"

definition reiser4_key_set_type :: "reiser4_key \<Rightarrow> nat \<Rightarrow> reiser4_key" where
  "reiser4_key_set_type key type =
     (case kplug key of KEY_SHORT \<Rightarrow> key_short_set_type key type | KEY_LARGE \<Rightarrow> key_large_set_type key type)"

definition reiser4_key_set_objectid :: "reiser4_key \<Rightarrow> u64 \<Rightarrow> reiser4_key" where
  "reiser4_key_set_objectid key objectid =
     (case kplug key of KEY_SHORT \<Rightarrow> key_short_set_objectid key objectid
                      | KEY_LARGE \<Rightarrow> key_large_set_objectid key objectid)"

definition reiser4_key_set_fobjectid :: "reiser4_key \<Rightarrow> u64 \<Rightarrow> reiser4_key" where
  "reiser4_key_set_fobjectid key objectid =
     (case kplug key of KEY_SHORT \<Rightarrow> key_short_set_fobjectid key objectid
                      | KEY_LARGE \<Rightarrow> key_large_set_fobjectid key objectid)"

definition reiser4_key_set_locality :: "reiser4_key \<Rightarrow> u64 \<Rightarrow> reiser4_key" where
  "reiser4_key_set_locality key locality =
     (case kplug key of KEY_SHORT \<Rightarrow> key_short_set_locality key locality
                      | KEY_LARGE \<Rightarrow> key_large_set_locality key locality)"

definition reiser4_key_set_ordering :: "reiser4_key \<Rightarrow> u64 \<Rightarrow> reiser4_key" where
  "reiser4_key_set_ordering key ordr =
     (case kplug key of KEY_SHORT \<Rightarrow> key_short_set_ordering key ordr
                      | KEY_LARGE \<Rightarrow> key_large_set_ordering key ordr)"

definition reiser4_key_set_offset :: "reiser4_key \<Rightarrow> u64 \<Rightarrow> reiser4_key" where
  "reiser4_key_set_offset key offset =
     (case kplug key of KEY_SHORT \<Rightarrow> key_short_set_offset key offset
                      | KEY_LARGE \<Rightarrow> key_large_set_offset key offset)"

definition reiser4_key_get_offset :: "reiser4_key \<Rightarrow> u64" where
  "reiser4_key_get_offset key =
     (case kplug key of KEY_SHORT \<Rightarrow> key_short_get_offset key | KEY_LARGE \<Rightarrow> key_large_get_offset key)"

definition reiser4_key_inc_offset :: "reiser4_key \<Rightarrow> u64 \<Rightarrow> reiser4_key" where
  "reiser4_key_inc_offset key v = reiser4_key_set_offset key (reiser4_key_get_offset key + v)"

definition reiser4_key_get_type :: "reiser4_key \<Rightarrow> nat" where
  "reiser4_key_get_type key =
     (case kplug key of KEY_SHORT \<Rightarrow> key_short_get_type key | KEY_LARGE \<Rightarrow> key_large_get_type key)"

definition reiser4_key_get_objectid :: "reiser4_key \<Rightarrow> u64" where
  "reiser4_key_get_objectid key =
     (case kplug key of KEY_SHORT \<Rightarrow> key_short_get_objectid key | KEY_LARGE \<Rightarrow> key_large_get_objectid key)"

definition reiser4_key_get_fobjectid :: "reiser4_key \<Rightarrow> u64" where
  "reiser4_key_get_fobjectid key =
     (case kplug key of KEY_SHORT \<Rightarrow> key_short_get_fobjectid key | KEY_LARGE \<Rightarrow> key_large_get_fobjectid key)"

definition reiser4_key_get_locality :: "reiser4_key \<Rightarrow> u64" where
  "reiser4_key_get_locality key =
     (case kplug key of KEY_SHORT \<Rightarrow> key_short_get_locality key | KEY_LARGE \<Rightarrow> key_large_get_locality key)"

definition reiser4_key_get_ordering :: "reiser4_key \<Rightarrow> u64" where
  "reiser4_key_get_ordering key =
     (case kplug key of KEY_SHORT \<Rightarrow> key_short_get_ordering key | KEY_LARGE \<Rightarrow> key_large_get_ordering key)"

text \<open>Only the body is copied; the plugin of the key is kept.\<close>

definition reiser4_key_maximal :: "reiser4_key \<Rightarrow> reiser4_key" where
  "reiser4_key_maximal key = key\<lparr>kbody := kbody (key_plug_maximal (kplug key))\<rparr>"

definition reiser4_key_minimal :: "reiser4_key \<Rightarrow> reiser4_key" where
  "reiser4_key_minimal key = key\<lparr>kbody := kbody (key_plug_minimal (kplug key))\<rparr>"

definition reiser4_key_set_hash :: "reiser4_key \<Rightarrow> u64 \<Rightarrow> reiser4_key" where
  "reiser4_key_set_hash key hash =
     (case kplug key of KEY_SHORT \<Rightarrow> key_short_set_hash key hash | KEY_LARGE \<Rightarrow> key_large_set_hash key hash)"

definition reiser4_key_get_hash :: "reiser4_key \<Rightarrow> u64" where
  "reiser4_key_get_hash key =
     (case kplug key of KEY_SHORT \<Rightarrow> key_short_get_hash key | KEY_LARGE \<Rightarrow> key_large_get_hash key)"

section \<open>Keys as tuples of fields\<close>

definition key_abs :: "reiser4_key \<Rightarrow> key_view" where
  "key_abs key = (case kplug key of KEY_SHORT \<Rightarrow> short_view key | KEY_LARGE \<Rightarrow> large_view key)"

abbreviation raw_key :: "key_plug \<Rightarrow> key_body \<Rightarrow> reiser4_key" where
  "raw_key plug body \<equiv> \<lparr>kplug = plug, kbody = body, kadjust = 0\<rparr>"

lemmas key_dispatch_defs = reiser4_key_set_type_def reiser4_key_set_objectid_def
  reiser4_key_set_fobjectid_def reiser4_key_set_locality_def reiser4_key_set_ordering_def
  reiser4_key_set_offset_def

lemma kplug_large_set [simp]:
  "kplug (key_large_set_type k t) = kplug k" "kplug (key_large_set_objectid k v) = kplug k"
  "kplug (key_large_set_fobjectid k v) = kplug k" "kplug (key_large_set_locality k v) = kplug k"
  "kplug (key_large_set_ordering k v) = kplug k" "kplug (key_large_set_offset k v) = kplug k"
  by (simp_all add: key_large_set_defs)

lemma kplug_short_set [simp]:
  "kplug (key_short_set_type k t) = kplug k" "kplug (key_short_set_objectid k v) = kplug k"
  "kplug (key_short_set_fobjectid k v) = kplug k" "kplug (key_short_set_locality k v) = kplug k"
  "kplug (key_short_set_ordering k v) = kplug k" "kplug (key_short_set_offset k v) = kplug k"
  by (simp_all add: key_short_set_defs)

lemma kplug_set [simp]:
  "kplug (reiser4_key_set_type k t) = kplug k" "kplug (reiser4_key_set_objectid k v) = kplug k"
  "kplug (reiser4_key_set_fobjectid k v) = kplug k" "kplug (reiser4_key_set_locality k v) = kplug k"
  "kplug (reiser4_key_set_ordering k v) = kplug k" "kplug (reiser4_key_set_offset k v) = kplug k"
  by (simp_all add: key_dispatch_defs split: key_plug.split)

lemma key_abs_set:
  "v < 2 ^ 60 \<Longrightarrow> key_abs (reiser4_key_set_locality k v) = (key_abs k)\<lparr>v_locality := v\<rparr>"
  "t \<le> 4 \<Longrightarrow> key_abs (reiser4_key_set_type k t) = (key_abs k)\<lparr>v_minor := t\<rparr>"
  "key_abs (reiser4_key_set_ordering k v) =
     (if kplug k = KEY_LARGE then (key_abs k)\<lparr>v_ordering := v\<rparr> else key_abs k)"
  "key_abs (reiser4_key_set_fobjectid k v) =
     (key_abs k)\<lparr>v_band := get_field 60 4 v, v_objectid := get_field 0 60 v\<rparr>"
  "v < 2 ^ 60 \<Longrightarrow> key_abs (reiser4_key_set_objectid k v) = (key_abs k)\<lparr>v_objectid := v\<rparr>"
  "key_abs (reiser4_key_set_offset k v) = (key_abs k)\<lparr>v_offset := v\<rparr>"
  by (simp_all add: key_abs_def key_dispatch_defs short_set_view large_set_view split: key_plug.split)

lemma key_abs_get:
  "reiser4_key_get_locality k = v_locality (key_abs k)"
  "reiser4_key_get_type k = key_common_minor2type (v_minor (key_abs k))"
  "reiser4_key_get_ordering k = v_ordering (key_abs k)"
  "reiser4_key_get_objectid k = v_objectid (key_abs k)"
  "reiser4_key_get_offset k = v_offset (key_abs k)"
  by (simp_all add: key_abs_def short_view_def large_view_def reiser4_key_get_locality_def
      reiser4_key_get_type_def reiser4_key_get_ordering_def reiser4_key_get_objectid_def
      reiser4_key_get_offset_def key_large_get_type_def key_short_get_type_def split: key_plug.split)

lemma key_compfull_rank:
  "kplug k1 = kplug k2 \<Longrightarrow>
   reiser4_key_compfull k1 k2 = rank_compare (key_rank (key_abs k1)) (key_rank (key_abs k2))"
  by (simp add: reiser4_key_compfull_def key_abs_def key_large_compfull_rank key_short_compfull_rank
      split: key_plug.split)

lemma key_compraw_rank:
  "key_plug_compraw p a b = rank_compare (key_rank (key_abs (raw_key p a))) (key_rank (key_abs (raw_key p b)))"
  using key_compfull_rank [of "raw_key p a" "raw_key p b"]
  by (cases p) (simp_all add: key_plug_compraw_def reiser4_key_compfull_def key_large_compfull_def key_short_compfull_def)

interpretation raw_keys: three_way "key_plug_compraw p" for p
  unfolding key_compraw_rank by (rule three_way_rank)

lemma compfull_compraw:
  "kplug k1 = p \<Longrightarrow> reiser4_key_compfull k1 k2 = key_plug_compraw p (kbody k1) (kbody k2)"
  by (auto simp: key_plug_compraw_def reiser4_key_compfull_def key_large_compfull_def
      key_short_compfull_def split: key_plug.split)

lemma key_abs_minimal:
  "key_abs key_large_minimal = \<lparr>v_locality = 0, v_minor = 0, v_ordering = 0, v_band = 0, v_objectid = 0, v_offset = 0\<rparr>"
  "key_abs key_short_minimal = \<lparr>v_locality = 0, v_minor = 0, v_ordering = 0, v_band = 0, v_objectid = 0, v_offset = 0\<rparr>"
  by (simp_all add: key_abs_def large_view_def short_view_def key_large_minimal_def key_short_minimal_def
      key_common_minimal_def key_large_get_defs key_short_get_defs)

lemma key_between:
  "key_plug_compraw p (kbody (key_plug_minimal p)) b \<le> 0"
  "key_plug_compraw p b (kbody (key_plug_maximal p)) \<le> 0"
proof -
  have "(0xffffffffffffffff :: u64) = -1" by simp
  then have max: "(w :: u64) < 0xffffffffffffffff \<or> w = 0xffffffffffffffff" for w
    by (simp only: order_le_less [symmetric] word_order.extremum)
  have min: "(0 :: u64) < w \<or> 0 = w" for w
    by (simp only: order_le_less [symmetric] word_zero_le)
  show "key_plug_compraw p (kbody (key_plug_minimal p)) b \<le> 0"
    using min by (cases p) (auto simp: key_plug_compraw_def key_plug_minimal_def key_large_minimal_def
      key_short_minimal_def key_common_minimal_def key_large_compraw_def key_short_compraw_def
      kl_comp_el_def ks_comp_el_def kl_get_el_def ks_get_el_def Let_def)
  show "key_plug_compraw p b (kbody (key_plug_maximal p)) \<le> 0"
    using max by (cases p) (auto simp: key_plug_compraw_def key_plug_maximal_def key_large_maximal_def
      key_short_maximal_def key_common_maximal_def key_large_compraw_def key_short_compraw_def
      kl_comp_el_def ks_comp_el_def kl_get_el_def ks_get_el_def Let_def)
qed

text \<open>
  C31.  The plugin-independent key operations implement the abstract key, a tuple of
  fields: every setter changes its own field only, for both plugins, when the value fits the field;
  a short key ignores its ordering, and \<^verbatim>\<open>reiser4_key_inc_offset\<close> adds to the offset modulo 2^64.
\<close>

theorem key_setters_refine:
  assumes "v < 2 ^ 60" and "t \<le> 4"
  shows "key_abs (reiser4_key_set_locality k v) = (key_abs k)\<lparr>v_locality := v\<rparr> \<and>
    key_abs (reiser4_key_set_type k t) = (key_abs k)\<lparr>v_minor := t\<rparr> \<and>
    key_abs (reiser4_key_set_ordering k w) =
      (if kplug k = KEY_LARGE then (key_abs k)\<lparr>v_ordering := w\<rparr> else key_abs k) \<and>
    key_abs (reiser4_key_set_objectid k v) = (key_abs k)\<lparr>v_objectid := v\<rparr> \<and>
    key_abs (reiser4_key_set_offset k w) = (key_abs k)\<lparr>v_offset := w\<rparr> \<and>
    key_abs (reiser4_key_inc_offset k w) = (key_abs k)\<lparr>v_offset := v_offset (key_abs k) + w\<rparr>"
  using assms by (simp add: key_abs_set key_abs_get reiser4_key_inc_offset_def)

theorem key_setters_refine_witness:
  "key_abs (reiser4_key_set_locality key_large_minimal 42) =
     (key_abs key_large_minimal)\<lparr>v_locality := 42\<rparr>"
  using key_setters_refine [of 42 1 key_large_minimal 0] by simp

text \<open>
  C29.  \<^verbatim>\<open>reiser4_key_compfull\<close> is the three-way comparison of the lexicographic order of
  (locality, type, ordering, band, objectid, offset), although the code compares packed 64-bit elements.
\<close>

theorem key_compfull_lexicographic:
  assumes "kplug k1 = kplug k2"
  shows "reiser4_key_compfull k1 k2 =
    (let r1 = key_rank (key_abs k1); r2 = key_rank (key_abs k2)
     in if r1 < r2 then -1 else if r1 = r2 then 0 else 1)"
  using assms by (simp add: key_compfull_rank rank_compare_def)

theorem key_compfull_lexicographic_witness:
  "reiser4_key_compfull key_short_minimal (reiser4_key_set_offset key_short_minimal 7) = -1"
  using key_compfull_lexicographic [of key_short_minimal "reiser4_key_set_offset key_short_minimal 7"]
  by (simp add: key_abs_set key_rank_def key_abs_minimal)

text \<open>
  C30.  A directory entry key built from a name gives the name back when the name has at
  most 15 (short keys) or 23 bytes (large keys), for every hash plugin; a longer name is marked as hashed and cannot
  be extracted.  With large keys the fibration plugin is arbitrary as well; with short keys its fibre must not have
  the bits 3 to 6, and then the objectid fits into 60 bits as the assertion of \<^verbatim>\<open>key_short_build_hash\<close> demands.
\<close>

theorem key_name_roundtrip:
  assumes "\<forall>c \<in> set name. c \<noteq> 0" and "name \<noteq> []" and "length name < 65536"
    and "kplug key = KEY_SHORT \<Longrightarrow> name \<noteq> [0x2e] \<Longrightarrow> fibre name (length name) AND 0x78 = 0"
  shows "reiser4_key_get_name (reiser4_key_build_hashed key hash fibre locality objectid name) =
      (if length name \<le> (case kplug key of KEY_SHORT \<Rightarrow> 15 | KEY_LARGE \<Rightarrow> 23) then Some name else None) \<and>
    (kplug key = KEY_SHORT \<longrightarrow>
      reiser4_key_get_fobjectid (reiser4_key_build_hashed key hash fibre locality objectid name) AND 0xf000000000000000 = 0)"
proof -
  have l: "kplug (key_large_build_hashed key hash fibre locality objectid name) = KEY_LARGE"
    by (simp add: key_large_build_hashed_def key_large_build_hash_def Let_def split: prod.split)
  have s: "kplug (key_short_build_hashed key hash fibre locality objectid name) = KEY_SHORT"
    by (simp add: key_short_build_hashed_def key_short_build_hash_def Let_def split: prod.split)
  have fits: "key_short_get_fobjectid (key_short_build_hashed key hash fibre locality objectid name) AND 0xf000000000000000 = 0"
    if "kplug key = KEY_SHORT"
    using key_short_objectid_fits [OF assms(1,3)] key_short_dot_objectid assms(4) that by (cases "name = [0x2e]") simp_all
  show ?thesis
  proof (cases "kplug key")
    case KEY_SHORT
    then show ?thesis
      using key_short_name [OF assms(1-3)] s fits by (simp add: reiser4_key_get_name_def reiser4_key_build_hashed_def reiser4_key_get_fobjectid_def)
  next
    case KEY_LARGE
    then show ?thesis
      using key_large_name [OF assms(1-3)] l by (simp add: reiser4_key_get_name_def reiser4_key_build_hashed_def)
  qed
qed

theorem key_name_roundtrip_witness:
  "reiser4_key_get_name (reiser4_key_build_hashed key_short_minimal (\<lambda>_ _. 0) (\<lambda>_ _. 1) 42 65536 [0x66, 0x2e, 0x6f]) =
     Some [0x66, 0x2e, 0x6f]"
proof -
  have "(1 :: u8) AND 0x78 = 0" by simp
  then show ?thesis
    using key_name_roundtrip [of "[0x66, 0x2e, 0x6f]" key_short_minimal "\<lambda>_ _. 1" "\<lambda>_ _. 0" 42 65536]
    by (simp add: key_short_minimal_def key_common_minimal_def)
qed

text \<open>
  \<^verbatim>\<open>reiser4_key_build_generic\<close> sets every field to its argument, for any previous
  contents of the key; for directory entries the 64 bits of the objectid fill band and objectid.
\<close>

lemma key_build_generic_fields:
  assumes "type \<le> 4" and "locality < 2 ^ 60" and "type = KEY_FILENAME_TYPE \<or> objectid < 2 ^ 60"
  shows "key_abs (reiser4_key_build_generic key type locality ordr objectid offset) =
    \<lparr>v_locality = locality, v_minor = type, v_ordering = (case kplug key of KEY_SHORT \<Rightarrow> 0 | KEY_LARGE \<Rightarrow> ordr),
     v_band = get_field 60 4 objectid, v_objectid = get_field 0 60 objectid, v_offset = offset\<rparr>"
proof -
  have "kplug (key_large_build_generic key type locality ordr objectid offset) = KEY_LARGE"
    "kplug (key_short_build_generic key type locality ordr objectid offset) = KEY_SHORT"
    by (simp_all add: key_large_build_generic_def key_short_build_generic_def Let_def)
  then show ?thesis
    using key_large_build_generic_view [OF assms(1,2), of objectid]
      key_short_build_generic_view [OF assms(1,2), of objectid] assms(3)
    by (simp add: reiser4_key_build_generic_def key_abs_def split: key_plug.split)
qed

lemma get_field_and_mask: "get_field 0 60 w AND 0xf000000000000000 = 0"
  unfolding mask_band get_field_def by (rule bit_word_eqI) (auto simp: bit_simps)

lemma band_nonzero: "w AND 0xf000000000000000 \<noteq> 0 \<longleftrightarrow> get_field 60 4 w \<noteq> 0"
proof -
  have "drop_bit 60 (w AND 0xf000000000000000) = get_field 60 4 w"
    unfolding mask_band field_get ..
  moreover have "push_bit 60 (drop_bit 60 (w AND 0xf000000000000000)) = w AND 0xf000000000000000"
    unfolding mask_band by (rule bit_word_eqI) (auto simp: bit_simps)
  ultimately show ?thesis
    by (metis drop_bit_of_0 push_bit_of_0)
qed

text \<open>What the structure checks do on every key, for both plugins.\<close>

definition key_check_spec :: "reiser4_key \<Rightarrow> key_check \<times> key_view" where
  "key_check_spec key =
     (let v = key_abs key in
      if v_minor v \<ge> KEY_LAST_MINOR then (KEY_RE_FATAL, v)
      else if v_minor v \<noteq> KEY_FILENAME_MINOR \<and> v_band v \<noteq> 0
      then (KEY_OK, v\<lparr>v_band := 0, v_objectid := 0\<rparr>) else (KEY_OK, v))"

lemma locality_band: "get_field 4 60 w AND 0xf000000000000000 = 0"
proof -
  have "get_field 4 60 w = get_field 0 60 (drop_bit 4 w)" by (simp add: get_field_def)
  then show ?thesis by (simp only: get_field_and_mask)
qed

lemma minor2type_0: "m < 5 \<Longrightarrow> key_common_minor2type m = 0 \<longleftrightarrow> m = 0"
  by (simp add: key_common_minor2type_def)

lemma key_large_check_struct_eq:
  "key_large_check_struct key =
    (if kl_get_minor (kbody key) \<ge> 5 then (KEY_RE_FATAL, key)
     else if kl_get_minor (kbody key) \<noteq> 0 \<and> kl_get_band (kbody key) \<noteq> 0
     then (KEY_OK, key_large_set_fobjectid key 0) else (KEY_OK, key))"
proof -
  have 1: "\<not> key_large_get_locality key AND 0xf000000000000000 \<noteq> 0"
    by (simp only: key_large_get_defs kl_gets locality_band not_not)
  have 2: "key_large_get_fobjectid key AND 0xf000000000000000 \<noteq> 0 \<longleftrightarrow> kl_get_band (kbody key) \<noteq> 0"
    by (simp only: key_large_get_defs kl_gets band_nonzero)
  have 3: "(if (0xf000000000000000 :: u64) = 0 then 1 else 0 :: u64) = 0" by simp
  show ?thesis
    unfolding key_large_check_struct_def Let_def if_not_P [OF 1] 2 3 key_large_get_type_def
    by (simp del: kl_gets add: minor2type_0 not_le)
qed

lemma key_short_check_struct_eq:
  "key_short_check_struct key =
    (if ks_get_minor (kbody key) \<ge> 5 then (KEY_RE_FATAL, key)
     else if ks_get_minor (kbody key) \<noteq> 0 \<and> ks_get_band (kbody key) \<noteq> 0
     then (KEY_OK, key_short_set_fobjectid key 0) else (KEY_OK, key))"
proof -
  have 1: "\<not> key_short_get_locality key AND 0xf000000000000000 \<noteq> 0"
    by (simp only: key_short_get_defs ks_gets locality_band not_not)
  have 2: "key_short_get_fobjectid key AND 0xf000000000000000 \<noteq> 0 \<longleftrightarrow> ks_get_band (kbody key) \<noteq> 0"
    by (simp only: key_short_get_defs ks_gets band_nonzero)
  have 3: "(if (0xf000000000000000 :: u64) = 0 then 1 else 0 :: u64) = 0" by simp
  show ?thesis
    unfolding key_short_check_struct_def Let_def if_not_P [OF 1] 2 3 key_short_get_type_def
    by (simp del: ks_gets add: minor2type_0 not_le)
qed

lemma view_minor_band:
  "kl_get_minor (kbody k) = v_minor (large_view k)" "kl_get_band (kbody k) = v_band (large_view k)"
  "ks_get_minor (kbody k) = v_minor (short_view k)" "ks_get_band (kbody k) = v_band (short_view k)"
  by (simp_all add: large_view_def short_view_def)

lemma kplug_minimal [simp]: "kplug key_large_minimal = KEY_LARGE" "kplug key_short_minimal = KEY_SHORT"
  by (simp_all add: key_large_minimal_def key_short_minimal_def key_common_minimal_def)

text \<open>
  C32.  The structure checks of both plugins: a key of unknown type is fatal; a key
  other than a directory entry key with a non-zero band is repaired by zeroing its band and its
  objectid (the complement of the band mask is written as a logical negation); everything else,
  the locality in particular, is left alone.
\<close>

theorem key_check_struct_spec:
  "(kplug key = KEY_LARGE \<longrightarrow> map_prod id key_abs (key_large_check_struct key) = key_check_spec key) \<and>
   (kplug key = KEY_SHORT \<longrightarrow> map_prod id key_abs (key_short_check_struct key) = key_check_spec key)"
  unfolding key_large_check_struct_eq key_short_check_struct_eq view_minor_band
  by (simp add: key_check_spec_def key_abs_def Let_def large_set_view short_set_view)

theorem key_check_struct_spec_witness:
  "v_objectid (key_abs (snd (key_large_check_struct
     (reiser4_key_set_fobjectid (reiser4_key_set_type key_large_minimal 4) 0x1000000000010000)))) = 0"
proof -
  let ?k = "reiser4_key_set_fobjectid (reiser4_key_set_type key_large_minimal 4) 0x1000000000010000"
  have "key_check_spec ?k = (KEY_OK, (key_abs ?k)\<lparr>v_band := 0, v_objectid := 0\<rparr>)"
    by (simp add: key_check_spec_def key_abs_set key_abs_minimal get_field_def)
  then show ?thesis
    using key_check_struct_spec [of ?k] by (auto simp: prod_eq_iff)
qed
end
