(* ===== verification/HashPlugins.thy ===== *)
theory HashPlugins
  imports Prelude
begin

text \<open>
  The name hash plugins (\<^verbatim>\<open>plugin/hash\<close>) and the fibration plugins (\<^verbatim>\<open>plugin/fibre\<close>).  A hash maps
  the first \<open>len\<close> bytes of a name to a 64-bit value; a fibre maps a name to one byte.
\<close>

section \<open>Degenerate, FNV-1 and R5\<close>

definition deg_hash_build :: "u8 list \<Rightarrow> nat \<Rightarrow> u64" where
  "deg_hash_build name len = 0xc0c0c0c010101010"

fun fnv1_loop :: "u64 \<Rightarrow> u8 list \<Rightarrow> u64" where
  "fnv1_loop a [] = a"
| "fnv1_loop a (c # cs) = fnv1_loop ((a * 0x100000001b3) XOR ucast c) cs"

definition fnv1_hash_build :: "u8 list \<Rightarrow> nat \<Rightarrow> u64" where
  "fnv1_hash_build name len = fnv1_loop 0xcbf29ce484222325 (take len name)"

text \<open>
  In \<^verbatim>\<open>a += name[i] << 4\<close> the byte is promoted to int, so no bit is lost by the left shift.
\<close>

fun r5_loop :: "u64 \<Rightarrow> u8 list \<Rightarrow> u64" where
  "r5_loop a [] = a"
| "r5_loop a (c # cs) =
     (let a = a + push_bit 4 (ucast c);
          a = a + drop_bit 4 (ucast c)
      in r5_loop (a * 11) cs)"

definition r5_hash_build :: "u8 list \<Rightarrow> nat \<Rightarrow> u64" where
  "r5_hash_build name len = r5_loop 0 (take len name)"

section \<open>Rupasov\<close>

text \<open>
  \<open>rup_pow n\<close> is the 32-bit unsigned \<open>pow\<close> after \<open>n\<close> rounds of \<^verbatim>\<open>pow = pow * 10\<close>; the inner loops
  from \<open>j\<close> below \<open>len - 1\<close> run \<open>len - 1 - j\<close> rounds, with \<open>len - 1\<close> computed unsigned.
\<close>

fun rup_pow :: "nat \<Rightarrow> u32" where
  "rup_pow 0 = 1"
| "rup_pow (Suc n) = rup_pow n * 10"

text \<open>The value \<^verbatim>\<open>name[i] - 48\<close> is a signed int, sign-extended when it is widened to 64 bits.\<close>

definition rup_digit :: "u8 list \<Rightarrow> nat \<Rightarrow> int" where
  "rup_digit name i = uint (name ! i) - 48"

definition rup_sum :: "(nat \<Rightarrow> u64) \<Rightarrow> nat \<Rightarrow> nat list \<Rightarrow> u64 \<Rightarrow> u64" where
  "rup_sum c len is a =
     foldl (\<lambda>a i. a + c i * ucast (rup_pow (to_u32 (int len - 1) - i))) a is"

definition rupasov_hash_build :: "u8 list \<Rightarrow> nat \<Rightarrow> u64" where
  "rupasov_hash_build name len =
     (let pow = rup_pow (len - 1);
          a = (if len = 1 then word_of_int (rup_digit name 0)
               else ucast (word_of_int (rup_digit name 0) * pow));
          a = rup_sum (\<lambda>i. word_of_int (rup_digit name i)) len [1..<len] a;
          i = max 1 len;
          a = rup_sum (\<lambda>i. 0) len [i..<40] a;
          i = max i 40;
          a = rup_sum (\<lambda>i. word_of_nat i) len [i..<256] a
      in push_bit 7 a)"

section \<open>TEA\<close>

record tea_state =
  tea_h0 :: u64
  tea_h1 :: u64

definition DELTA :: u64 where "DELTA = 0x9E3779B9"
definition FULLROUNDS :: nat where "FULLROUNDS = 10"
definition PARTROUNDS :: nat where "PARTROUNDS = 6"

fun tea_rounds :: "nat \<Rightarrow> u64 \<Rightarrow> u64 \<Rightarrow> u64 \<Rightarrow> u64 \<Rightarrow> u64 \<Rightarrow> u64 \<Rightarrow> u64 \<Rightarrow> u64 \<times> u64" where
  "tea_rounds 0 sm b0 b1 a b c d = (b0, b1)"
| "tea_rounds (Suc n) sm b0 b1 a b c d =
     (let sm = sm + DELTA;
          b0 = b0 + ((push_bit 4 b1 + a) XOR (b1 + sm) XOR (drop_bit 5 b1 + b));
          b1 = b1 + ((push_bit 4 b0 + c) XOR (b0 + sm) XOR (drop_bit 5 b0 + d))
      in tea_rounds n sm b0 b1 a b c d)"

definition tea_hash_core :: "nat \<Rightarrow> u64 \<Rightarrow> u64 \<Rightarrow> u64 \<Rightarrow> u64 \<Rightarrow> tea_state \<Rightarrow> tea_state" where
  "tea_hash_core rounds a b c d st =
     (let (b0, b1) = tea_rounds rounds 0 (tea_h0 st) (tea_h1 st) a b c d
      in \<lparr>tea_h0 = tea_h0 st + b0, tea_h1 = tea_h1 st + b1\<rparr>)"

definition tea_le32 :: "u8 list \<Rightarrow> nat \<Rightarrow> u64" where
  "tea_le32 name i =
     ucast (name ! i) OR push_bit 8 (ucast (name ! (i + 1)))
       OR push_bit 16 (ucast (name ! (i + 2))) OR push_bit 24 (ucast (name ! (i + 3)))"

definition tea_tail :: "u8 list \<Rightarrow> nat \<Rightarrow> nat \<Rightarrow> u64 \<Rightarrow> u64" where
  "tea_tail name i len x = foldl (\<lambda>x j. push_bit 8 x OR ucast (name ! j)) x [i..<len]"

text \<open>
  The remaining less than 16 bytes.  Each branch starts with a deliberate null-pointer store for
  lengths that should not reach it; that crash is the value \<open>None\<close>.
\<close>

definition tea_hash_rest :: "u8 list \<Rightarrow> nat \<Rightarrow> u64 \<Rightarrow> tea_state \<Rightarrow> u64 option" where
  "tea_hash_rest name len pad st =
     (let finish = (\<lambda>a b c d. let st = tea_hash_core FULLROUNDS a b c d st
                              in Some (tea_h0 st XOR tea_h1 st))
      in if len \<ge> 12 then
           (if len \<ge> 16 then None
            else finish (tea_le32 name 0) (tea_le32 name 4) (tea_le32 name 8) (tea_tail name 12 len pad))
         else if len \<ge> 8 then
           (if len \<ge> 12 then None
            else let c = tea_tail name 8 len pad
                 in finish (tea_le32 name 0) (tea_le32 name 4) c pad)
         else if len \<ge> 4 then
           (if len \<ge> 8 then None
            else finish (tea_le32 name 0) (tea_tail name 4 len pad) pad pad)
         else
           (if len \<ge> 4 then None
            else finish (tea_tail name 0 len pad) pad pad pad))"

function tea_hash_loop :: "u8 list \<Rightarrow> nat \<Rightarrow> u64 \<Rightarrow> tea_state \<Rightarrow> u64 option" where
  "tea_hash_loop name len pad st =
     (if len \<ge> 16 then
        (let st = tea_hash_core PARTROUNDS (tea_le32 name 0) (tea_le32 name 4)
                    (tea_le32 name 8) (tea_le32 name 12) st
         in tea_hash_loop (drop 16 name) (len - 16) pad st)
      else tea_hash_rest name len pad st)"
  by pat_completeness auto
termination
  by (relation "measure (\<lambda>(n, l, p, s). l)") auto

declare tea_hash_loop.simps [simp del]

definition tea_hash_build :: "u8 list \<Rightarrow> nat \<Rightarrow> u64 option" where
  "tea_hash_build name len =
     (let pad = word_of_nat len OR push_bit 8 (word_of_nat len);
          pad = pad OR push_bit 16 pad
      in tea_hash_loop name len pad \<lparr>tea_h0 = 0x9464a485, tea_h1 = 0x542e1a94\<rparr>)"

section \<open>Fibration\<close>

definition fibre_dot_o_build :: "u8 list \<Rightarrow> nat \<Rightarrow> u8" where
  "fibre_dot_o_build name len =
     (if len > 2 \<and> name ! (len - 1) = 0x6f \<and> name ! (len - 2) = 0x2e then 1 else 0)"

definition fibre_ext_1_build :: "u8 list \<Rightarrow> nat \<Rightarrow> u8" where
  "fibre_ext_1_build name len =
     (if len > 2 \<and> name ! (len - 2) = 0x2e then name ! (len - 1) else 0)"

definition fibre_ext_3_build :: "u8 list \<Rightarrow> nat \<Rightarrow> u8" where
  "fibre_ext_3_build name len =
     (if len > 4 \<and> name ! (len - 4) = 0x2e
      then name ! (len - 3) + name ! (len - 2) + name ! (len - 1) else 0)"

definition fibre_lexic_build :: "u8 list \<Rightarrow> nat \<Rightarrow> u8" where
  "fibre_lexic_build name len = 0"

section \<open>Properties\<close>

lemma fnv1_loop_append: "fnv1_loop a (xs @ ys) = fnv1_loop (fnv1_loop a xs) ys"
  by (induction xs arbitrary: a) simp_all

text \<open>The FNV prime is odd, hence invertible modulo 2^64.\<close>

lemma fnv1_prime_inverse: "(0x100000001b3 :: u64) * 0xce965057aff6957b = 1"
  by simp

lemma fnv1_step_inj: "(a * 0x100000001b3) XOR c = (b * 0x100000001b3) XOR (c :: u64) \<Longrightarrow> a = b"
proof -
  assume "(a * 0x100000001b3) XOR c = (b * 0x100000001b3) XOR c"
  then have "((a * 0x100000001b3) XOR c) XOR c = ((b * 0x100000001b3) XOR c) XOR c" by simp
  then have "a * 0x100000001b3 = b * 0x100000001b3" by (simp only: xor.assoc xor_self_eq xor.right_neutral)
  then have "a * (0x100000001b3 * 0xce965057aff6957b) = b * (0x100000001b3 * 0xce965057aff6957b)"
    by (simp only: mult.assoc [symmetric])
  then show "a = b" unfolding fnv1_prime_inverse by simp
qed

lemma fnv1_loop_inj: "fnv1_loop a cs = fnv1_loop b cs \<Longrightarrow> a = b"
  by (induction cs arbitrary: a b) (auto dest!: fnv1_step_inj)

text \<open>
  \<^verbatim>\<open>fnv1_hash_build\<close> never maps two names that differ in exactly one byte to the same hash.
\<close>

lemma fnv1_one_byte_no_collision:
  assumes "c \<noteq> d"
  shows "fnv1_hash_build (xs @ c # ys) (length xs + 1 + length ys) \<noteq>
    fnv1_hash_build (xs @ d # ys) (length xs + 1 + length ys)"
proof
  assume "fnv1_hash_build (xs @ c # ys) (length xs + 1 + length ys) =
    fnv1_hash_build (xs @ d # ys) (length xs + 1 + length ys)"
  then have "fnv1_loop (fnv1_loop 0xcbf29ce484222325 xs) (c # ys) = fnv1_loop (fnv1_loop 0xcbf29ce484222325 xs) (d # ys)"
    by (simp add: fnv1_hash_build_def fnv1_loop_append)
  then have "(fnv1_loop 0xcbf29ce484222325 xs * 0x100000001b3) XOR ucast c =
      (fnv1_loop 0xcbf29ce484222325 xs * 0x100000001b3) XOR ucast d"
    by (auto dest: fnv1_loop_inj)
  then have "x XOR (x XOR (ucast c :: u64)) = x XOR (x XOR ucast d)"
    if "x = fnv1_loop 0xcbf29ce484222325 xs * 0x100000001b3" for x using that by simp
  then have "(ucast c :: u64) = ucast d"
    by (simp flip: xor.assoc)
  then have "(ucast (ucast c :: u64) :: u8) = ucast (ucast d :: u64)" by simp
  then have "c = d" by (simp add: unsigned_ucast_eq take_bit_word_eq_self)
  with assms show False by simp
qed

lemma tea_hash_rest_total: "len < 16 \<Longrightarrow> \<exists>h. tea_hash_rest name len pad st = Some h"
  by (simp add: tea_hash_rest_def Let_def)

lemma tea_hash_loop_total: "\<exists>h. tea_hash_loop name len pad st = Some h"
  by (induction name len pad st rule: tea_hash_loop.induct)
    (subst tea_hash_loop.simps, auto simp: tea_hash_rest_total Let_def)

text \<open>
  \<^verbatim>\<open>tea_hash_build\<close> returns a hash for every name and length: the null-pointer stores that
  guard its four tail branches are unreachable.
\<close>

lemma tea_hash_build_no_crash: "\<exists>h. tea_hash_build name len = Some h"
  by (simp add: tea_hash_build_def tea_hash_loop_total)

end
