(* ===== verification/Bitmap.thy ===== *)
theory Bitmap
  imports Prelude
begin

text \<open>
  The bitmap of \<^verbatim>\<open>libreiser4/bitmap.c\<close>: a bit array with the number of valid bits and a counter of
  the marked ones, the state of the block allocator and of the fsck bookkeeping.  The single-bit
  and search primitives come from libaal, which is not part of the repository: they are the record
  \<open>aal_bits\<close>, an argument of every operation, and \<open>aal_bitops\<close> states what they promise.
\<close>

section \<open>The libaal bit primitives\<close>

text \<open>
  The searches return the position found, the region searches the number of bits found and the
  start of the region.  \<open>INVAL_BLK\<close> is the block number that stands for "none".
\<close>

record aal_bits =
  aal_test_bit :: "u8 list \<Rightarrow> nat \<Rightarrow> bool"
  aal_set_bit :: "u8 list \<Rightarrow> nat \<Rightarrow> u8 list"
  aal_clear_bit :: "u8 list \<Rightarrow> nat \<Rightarrow> u8 list"
  aal_set_bits :: "u8 list \<Rightarrow> nat \<Rightarrow> nat \<Rightarrow> u8 list"
  aal_clear_bits :: "u8 list \<Rightarrow> nat \<Rightarrow> nat \<Rightarrow> u8 list"
  aal_find_next_zero_bit :: "u8 list \<Rightarrow> nat \<Rightarrow> nat \<Rightarrow> nat"
  aal_find_next_set_bit :: "u8 list \<Rightarrow> nat \<Rightarrow> nat \<Rightarrow> nat"
  aal_find_zero_bits :: "u8 list \<Rightarrow> nat \<Rightarrow> nat \<Rightarrow> nat \<Rightarrow> nat \<times> nat"
  aal_find_set_bits :: "u8 list \<Rightarrow> nat \<Rightarrow> nat \<Rightarrow> nat \<Rightarrow> nat \<times> nat"
  INVAL_BLK :: nat

text \<open>Bit \<open>i\<close> of a map is bit \<open>i mod 8\<close> of byte \<open>i div 8\<close>.\<close>

definition map_bit :: "u8 list \<Rightarrow> nat \<Rightarrow> bool" where
  "map_bit m i \<longleftrightarrow> i < 8 * length m \<and> bit (m ! (i div 8)) (i mod 8)"

text \<open>The first position in \<open>[start, tot)\<close> with the property, as the next-bit searches find it.\<close>

definition next_bit :: "(nat \<Rightarrow> bool) \<Rightarrow> nat \<Rightarrow> nat \<Rightarrow> nat \<Rightarrow> bool" where
  "next_bit P tot start r \<longleftrightarrow>
     (if \<exists>i. start \<le> i \<and> i < tot \<and> P i
      then start \<le> r \<and> r < tot \<and> P r \<and> (\<forall>i. start \<le> i \<and> i < r \<longrightarrow> \<not> P i)
      else tot \<le> r)"

locale aal_bitops =
  fixes L :: aal_bits
  assumes test_bit: "i < 8 * length m \<Longrightarrow> aal_test_bit L m i = map_bit m i"
    and set_bit: "i < 8 * length m \<Longrightarrow>
      length (aal_set_bit L m i) = length m \<and> (\<forall>j. map_bit (aal_set_bit L m i) j \<longleftrightarrow> j = i \<or> map_bit m j)"
    and clear_bit: "i < 8 * length m \<Longrightarrow>
      length (aal_clear_bit L m i) = length m \<and> (\<forall>j. map_bit (aal_clear_bit L m i) j \<longleftrightarrow> j \<noteq> i \<and> map_bit m j)"
    and set_bits: "s + c \<le> 8 * length m \<Longrightarrow>
      length (aal_set_bits L m s c) = length m \<and>
      (\<forall>j. map_bit (aal_set_bits L m s c) j \<longleftrightarrow> s \<le> j \<and> j < s + c \<or> map_bit m j)"
    and clear_bits: "s + c \<le> 8 * length m \<Longrightarrow>
      length (aal_clear_bits L m s c) = length m \<and>
      (\<forall>j. map_bit (aal_clear_bits L m s c) j \<longleftrightarrow> \<not> (s \<le> j \<and> j < s + c) \<and> map_bit m j)"
    and find_next_zero: "tot \<le> 8 * length m \<Longrightarrow> start < tot \<Longrightarrow>
      next_bit (\<lambda>i. \<not> map_bit m i) tot start (aal_find_next_zero_bit L m tot start)"
    and find_next_set: "tot \<le> 8 * length m \<Longrightarrow> start < tot \<Longrightarrow>
      next_bit (map_bit m) tot start (aal_find_next_set_bit L m tot start)"
    and find_zero_bits: "tot \<le> 8 * length m \<Longrightarrow> aal_find_zero_bits L m tot start count = (n, s) \<Longrightarrow> 0 < n \<Longrightarrow>
      n \<le> count \<and> s + n \<le> tot \<and> (\<forall>i. s \<le> i \<and> i < s + n \<longrightarrow> \<not> map_bit m i)"
    and find_set_bits: "tot \<le> 8 * length m \<Longrightarrow> aal_find_set_bits L m tot start count = (n, s) \<Longrightarrow> 0 < n \<Longrightarrow>
      n \<le> count \<and> s + n \<le> tot \<and> (\<forall>i. s \<le> i \<and> i < s + n \<longrightarrow> map_bit m i)"
    and inval_blk: "INVAL_BLK L = MAX_UINT64"

section \<open>The bitmap\<close>

record reiser4_bitmap =
  bm_marked :: nat
  bm_total :: nat
  bm_size :: nat
  bm_map :: "u8 list"

definition reiser4_bitmap_mark :: "aal_bits \<Rightarrow> reiser4_bitmap \<Rightarrow> nat \<Rightarrow> reiser4_bitmap" where
  "reiser4_bitmap_mark L bitmap blk =
     (if blk \<ge> bm_total bitmap then bitmap
      else if aal_test_bit L (bm_map bitmap) blk then bitmap
      else bitmap\<lparr>bm_map := aal_set_bit L (bm_map bitmap) blk,
                  bm_marked := to_u64 (int (bm_marked bitmap) + 1)\<rparr>)"

definition reiser4_bitmap_clear :: "aal_bits \<Rightarrow> reiser4_bitmap \<Rightarrow> nat \<Rightarrow> reiser4_bitmap" where
  "reiser4_bitmap_clear L bitmap blk =
     (if blk \<ge> bm_total bitmap then bitmap
      else if \<not> aal_test_bit L (bm_map bitmap) blk then bitmap
      else bitmap\<lparr>bm_map := aal_clear_bit L (bm_map bitmap) blk,
                  bm_marked := to_u64 (int (bm_marked bitmap) - 1)\<rparr>)"

definition reiser4_bitmap_test :: "aal_bits \<Rightarrow> reiser4_bitmap \<Rightarrow> nat \<Rightarrow> bool" where
  "reiser4_bitmap_test L bitmap blk =
     (if blk \<ge> bm_total bitmap then False else aal_test_bit L (bm_map bitmap) blk)"

definition reiser4_bitmap_calc :: "aal_bits \<Rightarrow> reiser4_bitmap \<Rightarrow> nat \<Rightarrow> nat \<Rightarrow> bool \<Rightarrow> nat" where
  "reiser4_bitmap_calc L bitmap start count mark =
     foldl (\<lambda>bits i. to_u64 (int bits +
              (if reiser4_bitmap_test L bitmap i then of_bool mark else of_bool (\<not> mark))))
       0 [start ..< to_u64 (int start + int count)]"

definition reiser4_bitmap_mark_region :: "aal_bits \<Rightarrow> reiser4_bitmap \<Rightarrow> nat \<Rightarrow> nat \<Rightarrow> reiser4_bitmap" where
  "reiser4_bitmap_mark_region L bitmap start count =
     (if start \<ge> bm_total bitmap then bitmap
      else if to_u64 (int start + int count - 1) \<ge> bm_total bitmap then bitmap
      else (let num = reiser4_bitmap_calc L bitmap start count False
            in bitmap\<lparr>bm_map := aal_set_bits L (bm_map bitmap) start count,
                      bm_marked := to_u64 (int (bm_marked bitmap) + int num)\<rparr>))"

definition reiser4_bitmap_clear_region :: "aal_bits \<Rightarrow> reiser4_bitmap \<Rightarrow> nat \<Rightarrow> nat \<Rightarrow> reiser4_bitmap" where
  "reiser4_bitmap_clear_region L bitmap start count =
     (if start \<ge> bm_total bitmap then bitmap
      else if to_u64 (int start + int count - 1) \<ge> bm_total bitmap then bitmap
      else (let num = reiser4_bitmap_calc L bitmap start count True
            in bitmap\<lparr>bm_map := aal_clear_bits L (bm_map bitmap) start count,
                      bm_marked := to_u64 (int (bm_marked bitmap) - int num)\<rparr>))"

definition reiser4_bitmap_find_cleared :: "aal_bits \<Rightarrow> reiser4_bitmap \<Rightarrow> nat \<Rightarrow> nat" where
  "reiser4_bitmap_find_cleared L bitmap start =
     (if start \<ge> bm_total bitmap then INVAL_BLK L
      else (let blk = aal_find_next_zero_bit L (bm_map bitmap) (bm_total bitmap) start
            in if blk \<ge> bm_total bitmap then INVAL_BLK L else blk))"

definition reiser4_bitmap_find_marked :: "aal_bits \<Rightarrow> reiser4_bitmap \<Rightarrow> nat \<Rightarrow> nat" where
  "reiser4_bitmap_find_marked L bitmap start =
     (if start \<ge> bm_total bitmap then INVAL_BLK L
      else (let blk = aal_find_next_set_bit L (bm_map bitmap) (bm_total bitmap) start
            in if blk \<ge> bm_total bitmap then INVAL_BLK L else blk))"

definition reiser4_bitmap_test_region :: "aal_bits \<Rightarrow> reiser4_bitmap \<Rightarrow> nat \<Rightarrow> nat \<Rightarrow> bool \<Rightarrow> bool" where
  "reiser4_bitmap_test_region L bitmap start count mark =
     (if start \<ge> bm_total bitmap then False
      else if to_u64 (int start + int count - 1) \<ge> bm_total bitmap then False
      else (let next = (if mark then reiser4_bitmap_find_cleared L bitmap start
                        else reiser4_bitmap_find_marked L bitmap start)
            in if next \<ge> start \<and> next < to_u64 (int start + int count) then False else True))"

text \<open>Returns the number of bits found and the new value of \<^verbatim>\<open>*start\<close>.\<close>

definition reiser4_bitmap_find_region ::
  "aal_bits \<Rightarrow> reiser4_bitmap \<Rightarrow> nat \<Rightarrow> nat \<Rightarrow> bool \<Rightarrow> nat \<times> nat" where
  "reiser4_bitmap_find_region L bitmap start count mark =
     (if mark then aal_find_set_bits L (bm_map bitmap) (bm_total bitmap) start count
      else aal_find_zero_bits L (bm_map bitmap) (bm_total bitmap) start count)"

definition reiser4_bitmap_calc_marked :: "aal_bits \<Rightarrow> reiser4_bitmap \<Rightarrow> nat \<times> reiser4_bitmap" where
  "reiser4_bitmap_calc_marked L bitmap =
     (let n = reiser4_bitmap_calc L bitmap 0 (bm_total bitmap) True
      in (n, bitmap\<lparr>bm_marked := n\<rparr>))"

definition reiser4_bitmap_calc_cleared :: "aal_bits \<Rightarrow> reiser4_bitmap \<Rightarrow> nat" where
  "reiser4_bitmap_calc_cleared L bitmap = reiser4_bitmap_calc L bitmap 0 (bm_total bitmap) False"

definition reiser4_bitmap_marked :: "reiser4_bitmap \<Rightarrow> nat" where
  "reiser4_bitmap_marked bitmap = bm_marked bitmap"

definition reiser4_bitmap_cleared :: "reiser4_bitmap \<Rightarrow> nat" where
  "reiser4_bitmap_cleared bitmap = to_u64 (int (bm_total bitmap) - int (bm_marked bitmap))"

text \<open>
  Allocations can fail: \<open>ok n\<close> says whether the \<open>n\<close>-th allocation of the call succeeds, and \<open>None\<close>
  is the null pointer.
\<close>

definition reiser4_bitmap_create :: "(nat \<Rightarrow> bool) \<Rightarrow> nat \<Rightarrow> reiser4_bitmap option" where
  "reiser4_bitmap_create ok len =
     (if \<not> ok 0 then None
      else (let size = to_u32 (int (to_u64 (int len + 7) div 8))
            in if \<not> ok 1 then None
               else Some \<lparr>bm_marked = 0, bm_total = len, bm_size = size, bm_map = replicate size 0\<rparr>))"

definition reiser4_bitmap_clone :: "(nat \<Rightarrow> bool) \<Rightarrow> reiser4_bitmap \<Rightarrow> reiser4_bitmap option" where
  "reiser4_bitmap_clone ok bitmap =
     (case reiser4_bitmap_create ok (bm_total bitmap) of
        None \<Rightarrow> None
      | Some clone \<Rightarrow> Some (clone\<lparr>bm_marked := bm_marked bitmap,
                                  bm_map := take (bm_size clone) (bm_map bitmap)\<rparr>))"

definition reiser4_bitmap_resize :: "aal_bits \<Rightarrow> bool \<Rightarrow> reiser4_bitmap \<Rightarrow> nat \<Rightarrow> reiser4_bitmap" where
  "reiser4_bitmap_resize L ok bitmap len =
     (let size = to_u32 (int (to_u64 (int len + 7) div 8));
          enlarge = size > bm_size bitmap
      in if \<not> ok then bitmap
         else
           (let n = (if enlarge then bm_size bitmap else size);
                m = take n (bm_map bitmap) @ replicate (size - n) 0;
                m = (if enlarge then
                         foldl (aal_clear_bit L) m [bm_total bitmap ..< to_u32 (int (bm_size bitmap) * 8)]
                       else m);
                bitmap = bitmap\<lparr>bm_map := m, bm_total := len, bm_size := size\<rparr>
            in if \<not> enlarge then snd (reiser4_bitmap_calc_marked L bitmap) else bitmap))"

definition reiser4_bitmap_invert :: "aal_bits \<Rightarrow> reiser4_bitmap \<Rightarrow> reiser4_bitmap" where
  "reiser4_bitmap_invert L bitmap =
     (let m = map (\<lambda>b. NOT b) (take (bm_size bitmap) (bm_map bitmap)) @ drop (bm_size bitmap) (bm_map bitmap);
          m = foldl (aal_clear_bit L) m [bm_total bitmap ..< to_u32 (int (bm_size bitmap) * 8)]
      in bitmap\<lparr>bm_map := m,
                bm_marked := to_u64 (int (bm_total bitmap) - int (bm_marked bitmap))\<rparr>)"

section \<open>Packing to a stream\<close>

text \<open>
  The libaal streams: writing appends bytes, reading consumes at most the requested number of them.
\<close>

record 's aal_streams =
  aal_stream_write :: "'s \<Rightarrow> u8 list \<Rightarrow> 's"
  aal_stream_read :: "'s \<Rightarrow> nat \<Rightarrow> u8 list \<times> 's"

locale aal_stream_laws =
  fixes S :: "'s aal_streams" and unread :: "'s \<Rightarrow> u8 list"
  assumes stream_write: "unread (aal_stream_write S s bs) = unread s @ bs"
    and stream_read: "aal_stream_read S s n = (bs, s') \<Longrightarrow> bs = take n (unread s) \<and> unread s' = drop n (unread s)"

definition AUX_BITMAP_MAGIC :: "u8 list" where
  "AUX_BITMAP_MAGIC = [0x52, 0x34, 0x42, 0x74, 0x4d, 0x70, 0]"

text \<open>The \<^verbatim>\<open>while (1)\<close> loop of the packing; \<open>None\<close> when the fuel runs out.\<close>

fun bitmap_pack_loop ::
  "aal_bits \<Rightarrow> 's aal_streams \<Rightarrow> reiser4_bitmap \<Rightarrow> nat \<Rightarrow> 's \<Rightarrow> nat \<Rightarrow> bool \<Rightarrow> ('s \<times> nat) option" where
  "bitmap_pack_loop L S bitmap 0 stream count mark = None"
| "bitmap_pack_loop L S bitmap (Suc fuel) stream count mark =
     (let i = (if mark then reiser4_bitmap_find_cleared L bitmap count
               else reiser4_bitmap_find_marked L bitmap count)
      in if i = INVAL_BLK L then Some (stream, count)
         else (let i = to_u64 (int i - int count);
                   stream = aal_stream_write S stream (le_bytes 8 i)
               in bitmap_pack_loop L S bitmap fuel stream (to_u64 (int count + int i)) (\<not> mark)))"

definition reiser4_bitmap_pack :: "aal_bits \<Rightarrow> 's aal_streams \<Rightarrow> reiser4_bitmap \<Rightarrow> 's \<Rightarrow> 's option" where
  "reiser4_bitmap_pack L S bitmap stream =
     (let stream = aal_stream_write S stream AUX_BITMAP_MAGIC;
          stream = aal_stream_write S stream (le_bytes 8 (bm_total bitmap))
      in case bitmap_pack_loop L S bitmap (bm_total bitmap + 2) stream 0 True of
           None \<Rightarrow> None
         | Some (stream, count) \<Rightarrow>
             Some (aal_stream_write S stream (le_bytes 8 (to_u64 (int (bm_total bitmap) - int count)))))"

text \<open>
  The loop of the unpacking: \<open>None\<close> when the fuel runs out, else \<open>Inl\<close> when the stream is corrupted
  and \<open>Inr\<close> with the bitmap and the number of bits read at the end of the stream.
\<close>

fun bitmap_unpack_loop ::
  "aal_bits \<Rightarrow> 's aal_streams \<Rightarrow> nat \<Rightarrow> nat \<Rightarrow> reiser4_bitmap \<Rightarrow> 's \<Rightarrow> nat \<Rightarrow> bool \<Rightarrow>
   ('s + 's \<times> reiser4_bitmap \<times> nat) option" where
  "bitmap_unpack_loop L S tot 0 bitmap stream blk mark = None"
| "bitmap_unpack_loop L S tot (Suc fuel) bitmap stream blk mark =
     (let (bytes, stream) = aal_stream_read S stream 8
      in if length bytes \<noteq> 8 then Some (Inr (stream, bitmap, blk))
         else (let count = le_value bytes
               in if to_u64 (int blk + int count) > tot then Some (Inl stream)
                  else (let bitmap = (if mark then reiser4_bitmap_mark_region L bitmap blk count else bitmap)
                        in bitmap_unpack_loop L S tot fuel bitmap stream (to_u64 (int blk + int count)) (\<not> mark))))"

text \<open>The second \<open>option\<close> is the pointer returned.\<close>

definition reiser4_bitmap_unpack ::
  "nat \<Rightarrow> aal_bits \<Rightarrow> 's aal_streams \<Rightarrow> (nat \<Rightarrow> bool) \<Rightarrow> 's \<Rightarrow> ('s \<times> reiser4_bitmap option) option" where
  "reiser4_bitmap_unpack fuel L S ok stream =
     (let (buf, stream) = aal_stream_read S stream 7
      in if length buf \<noteq> 7 then Some (stream, None)
         else if buf \<noteq> AUX_BITMAP_MAGIC then Some (stream, None)
         else (let (bytes, stream) = aal_stream_read S stream 8
               in if length bytes \<noteq> 8 then Some (stream, None)
                  else (let tot = le_value bytes
                        in case reiser4_bitmap_create ok tot of
                             None \<Rightarrow> Some (stream, None)
                           | Some bitmap \<Rightarrow>
                               (case bitmap_unpack_loop L S tot fuel bitmap stream 0 True of
                                  None \<Rightarrow> None
                                | Some (Inl stream) \<Rightarrow> Some (stream, None)
                                | Some (Inr (stream, bitmap, blk)) \<Rightarrow>
                                    Some (stream, if blk \<noteq> tot then None else Some bitmap)))))"

section \<open>The set of marked blocks\<close>

definition bm_set :: "reiser4_bitmap \<Rightarrow> nat set" where
  "bm_set b = {i. i < bm_total b \<and> map_bit (bm_map b) i}"

definition bm_shape :: "reiser4_bitmap \<Rightarrow> bool" where
  "bm_shape b \<longleftrightarrow> bm_size b = length (bm_map b) \<and> bm_total b \<le> 8 * length (bm_map b) \<and>
     8 * length (bm_map b) < bm_total b + 8 \<and> length (bm_map b) < 2 ^ 29"

definition bm_ok :: "reiser4_bitmap \<Rightarrow> bool" where
  "bm_ok b \<longleftrightarrow> bm_shape b \<and> bm_marked b = card (bm_set b)"

lemma bm_set_finite [simp]: "finite (bm_set b)"
  by (simp add: bm_set_def)

lemma bm_set_bound: "bm_set b \<subseteq> {..<bm_total b}"
  by (auto simp: bm_set_def)

lemma bm_set_card: "card (bm_set b) \<le> bm_total b"
  using card_mono [OF _ bm_set_bound] by simp

lemma bm_total_small: "bm_shape b \<Longrightarrow> bm_total b < 4294967296"
  by (simp add: bm_shape_def)

lemma count_loop:
  assumes "e - s < 18446744073709551616"
  shows "foldl (\<lambda>n i. to_u64 (int n + of_bool (P i))) 0 [s..<e] = card {i \<in> {s..<e}. P i}"
  using assms
proof (induction e)
  case (Suc e)
  show ?case
  proof (cases "s \<le> e")
    case True
    have split: "{i. s \<le> i \<and> i < Suc e \<and> P i} =
        (if P e then insert e {i. s \<le> i \<and> i < e \<and> P i} else {i. s \<le> i \<and> i < e \<and> P i})"
      using True by (auto simp: less_Suc_eq)
    have "card {i \<in> {s..<e}. P i} \<le> card {s..<e}" by (rule card_mono) auto
    then show ?thesis
      using Suc True by (auto simp: split upt_Suc_append wrap_simps nat_add_distrib)
  qed simp
qed simp

context aal_bitops
begin

lemma test_bitmap: "bm_shape b \<Longrightarrow> reiser4_bitmap_test L b i \<longleftrightarrow> i \<in> bm_set b"
  by (auto simp: reiser4_bitmap_test_def bm_set_def bm_shape_def test_bit)

lemma test_in: "bm_shape b \<Longrightarrow> i < bm_total b \<Longrightarrow> aal_test_bit L (bm_map b) i \<longleftrightarrow> i \<in> bm_set b"
  by (auto simp: bm_set_def bm_shape_def test_bit)

lemma calc_card:
  assumes "bm_shape b" and "s + c < 18446744073709551616"
  shows "reiser4_bitmap_calc L b s c True = card (bm_set b \<inter> {s..<s + c})"
    and "reiser4_bitmap_calc L b s c False = card ({s..<s + c} - bm_set b)"
proof -
  have e: "to_u64 (int s + int c) = s + c" using assms(2) by (rule to_u64_add)
  have "{i \<in> {s..<s + c}. i \<in> bm_set b} = bm_set b \<inter> {s..<s + c}" by auto
  moreover have "{i \<in> {s..<s + c}. i \<notin> bm_set b} = {s..<s + c} - bm_set b" by auto
  moreover have "(\<lambda>bits i. to_u64 (int bits + (if i \<in> bm_set b then of_bool True else of_bool (\<not> True)))) =
      (\<lambda>bits i. to_u64 (int bits + of_bool (i \<in> bm_set b)))"
    "(\<lambda>bits i. to_u64 (int bits + (if i \<in> bm_set b then of_bool False else of_bool (\<not> False)))) =
      (\<lambda>bits i. to_u64 (int bits + of_bool (i \<notin> bm_set b)))"
    by (simp_all add: fun_eq_iff)
  ultimately show "reiser4_bitmap_calc L b s c True = card (bm_set b \<inter> {s..<s + c})"
    "reiser4_bitmap_calc L b s c False = card ({s..<s + c} - bm_set b)"
    unfolding reiser4_bitmap_calc_def e test_bitmap [OF assms(1)]
    using count_loop [of "s + c" s "\<lambda>i. i \<in> bm_set b"] count_loop [of "s + c" s "\<lambda>i. i \<notin> bm_set b"] assms(2)
    by (simp_all cong: if_cong)
qed

lemma mark_set:
  assumes "bm_ok b"
  shows "bm_ok (reiser4_bitmap_mark L b i)"
    and "bm_set (reiser4_bitmap_mark L b i) = bm_set b \<union> ({i} \<inter> {..<bm_total b})"
    and "bm_total (reiser4_bitmap_mark L b i) = bm_total b"
proof -
  have sh: "bm_shape b" and m: "bm_marked b = card (bm_set b)" using assms by (auto simp: bm_ok_def)
  show tot: "bm_total (reiser4_bitmap_mark L b i) = bm_total b"
    by (simp add: reiser4_bitmap_mark_def)
  show set: "bm_set (reiser4_bitmap_mark L b i) = bm_set b \<union> ({i} \<inter> {..<bm_total b})"
    using sh by (auto simp: reiser4_bitmap_mark_def bm_set_def bm_shape_def test_bit set_bit)
  have "bm_shape (reiser4_bitmap_mark L b i)"
    using sh by (auto simp: reiser4_bitmap_mark_def bm_shape_def set_bit)
  moreover have "bm_marked (reiser4_bitmap_mark L b i) = card (bm_set (reiser4_bitmap_mark L b i))"
  proof (cases "i < bm_total b \<and> i \<notin> bm_set b")
    case True
    then have "\<not> aal_test_bit L (bm_map b) i" using sh by (auto simp: bm_set_def bm_shape_def test_bit)
    then show ?thesis
      using True m bm_set_card [of b] bm_total_small [OF sh]
      unfolding set by (simp add: reiser4_bitmap_mark_def wrap_simps nat_add_distrib)
  next
    case False
    then have "bm_set b \<union> ({i} \<inter> {..<bm_total b}) = bm_set b"
      "bm_total b \<le> i \<or> aal_test_bit L (bm_map b) i"
      using False test_in [OF sh, of i] by (cases "i < bm_total b"; auto)+
    then show ?thesis unfolding set using m by (auto simp: reiser4_bitmap_mark_def)
  qed
  ultimately show "bm_ok (reiser4_bitmap_mark L b i)" by (simp add: bm_ok_def)
qed

lemma clear_set:
  assumes "bm_ok b"
  shows "bm_ok (reiser4_bitmap_clear L b i)"
    and "bm_set (reiser4_bitmap_clear L b i) = bm_set b - {i}"
    and "bm_total (reiser4_bitmap_clear L b i) = bm_total b"
proof -
  have sh: "bm_shape b" and m: "bm_marked b = card (bm_set b)" using assms by (auto simp: bm_ok_def)
  show tot: "bm_total (reiser4_bitmap_clear L b i) = bm_total b"
    by (simp add: reiser4_bitmap_clear_def)
  show set: "bm_set (reiser4_bitmap_clear L b i) = bm_set b - {i}"
    using sh by (auto simp: reiser4_bitmap_clear_def bm_set_def bm_shape_def test_bit clear_bit)
  have "bm_shape (reiser4_bitmap_clear L b i)"
    using sh by (auto simp: reiser4_bitmap_clear_def bm_shape_def clear_bit)
  moreover have "bm_marked (reiser4_bitmap_clear L b i) = card (bm_set (reiser4_bitmap_clear L b i))"
  proof (cases "i \<in> bm_set b")
    case True
    then have "aal_test_bit L (bm_map b) i" "i < bm_total b" "0 < card (bm_set b)"
      using sh by (auto simp: bm_set_def bm_shape_def test_bit card_gt_0_iff)
    then show ?thesis
      using True m bm_set_card [of b] bm_total_small [OF sh]
      unfolding set by (simp add: reiser4_bitmap_clear_def wrap_simps nat_diff_distrib)
  next
    case False
    then have "bm_set b - {i} = bm_set b"
      "bm_total b \<le> i \<or> \<not> aal_test_bit L (bm_map b) i"
      using test_in [OF sh, of i] by (auto simp: not_less)
    then show ?thesis unfolding set using m by (auto simp: reiser4_bitmap_clear_def)
  qed
  ultimately show "bm_ok (reiser4_bitmap_clear L b i)" by (simp add: bm_ok_def)
qed


lemma region_bounds:
  assumes "bm_shape b" and "s + c < 18446744073709551616"
  shows "s < bm_total b \<and> to_u64 (int s + int c - 1) < bm_total b \<longleftrightarrow>
    s < bm_total b \<and> s + c \<le> bm_total b \<and> (c = 0 \<longrightarrow> 0 < s)"
proof (cases "s + c = 0")
  case True
  then have "to_u64 (int s + int c - 1) = 18446744073709551615" by (simp add: to_u64_def)
  then show ?thesis using True bm_total_small [OF assms(1)] by auto
next
  case False
  then have "to_u64 (int s + int c - 1) = s + c - 1"
    using to_u64_diff [of 1 "s + c"] assms(2) by (simp add: Suc_le_eq)
  then show ?thesis using False by auto
qed

lemma mark_region_set:
  assumes "bm_ok b" and "s + c < 18446744073709551616"
  shows "bm_ok (reiser4_bitmap_mark_region L b s c)"
    and "bm_set (reiser4_bitmap_mark_region L b s c) =
      (if s < bm_total b \<and> s + c \<le> bm_total b then bm_set b \<union> {s..<s + c} else bm_set b)"
    and "bm_total (reiser4_bitmap_mark_region L b s c) = bm_total b"
proof -
  have sh: "bm_shape b" and m: "bm_marked b = card (bm_set b)" using assms by (auto simp: bm_ok_def)
  note bounds = region_bounds [OF sh assms(2)]
  show tot: "bm_total (reiser4_bitmap_mark_region L b s c) = bm_total b"
    by (simp add: reiser4_bitmap_mark_region_def Let_def)
  show set: "bm_set (reiser4_bitmap_mark_region L b s c) =
      (if s < bm_total b \<and> s + c \<le> bm_total b then bm_set b \<union> {s..<s + c} else bm_set b)"
    using sh bounds
    by (auto simp: reiser4_bitmap_mark_region_def bm_set_def bm_shape_def set_bits Let_def)
  have "bm_shape (reiser4_bitmap_mark_region L b s c)"
    using sh bounds by (auto simp: reiser4_bitmap_mark_region_def bm_shape_def set_bits Let_def)
  moreover have "bm_marked (reiser4_bitmap_mark_region L b s c) = card (bm_set (reiser4_bitmap_mark_region L b s c))"
  proof (cases "s < bm_total b \<and> s + c \<le> bm_total b \<and> (c = 0 \<longrightarrow> 0 < s)")
    case True
    have "card (bm_set b \<union> ({s..<s + c} - bm_set b)) = card (bm_set b) + card ({s..<s + c} - bm_set b)"
      by (rule card_Un_disjoint) auto
    moreover have "card (bm_set b \<union> {s..<s + c}) \<le> card {..<bm_total b}"
      using True bm_set_bound [of b] by (intro card_mono) auto
    ultimately show ?thesis
      using True m bm_total_small [OF sh] bounds calc_card(2) [OF sh assms(2)]
      unfolding set by (simp add: reiser4_bitmap_mark_region_def wrap_simps not_le)
  next
    case False
    have "reiser4_bitmap_mark_region L b s c = b"
      using False bounds by (auto simp: reiser4_bitmap_mark_region_def not_le)
    then show ?thesis using m by simp
  qed
  ultimately show "bm_ok (reiser4_bitmap_mark_region L b s c)" by (simp add: bm_ok_def)
qed

lemma clear_region_set:
  assumes "bm_ok b" and "s + c < 18446744073709551616"
  shows "bm_ok (reiser4_bitmap_clear_region L b s c)"
    and "bm_set (reiser4_bitmap_clear_region L b s c) =
      (if s < bm_total b \<and> s + c \<le> bm_total b then bm_set b - {s..<s + c} else bm_set b)"
    and "bm_total (reiser4_bitmap_clear_region L b s c) = bm_total b"
proof -
  have sh: "bm_shape b" and m: "bm_marked b = card (bm_set b)" using assms by (auto simp: bm_ok_def)
  note bounds = region_bounds [OF sh assms(2)]
  show tot: "bm_total (reiser4_bitmap_clear_region L b s c) = bm_total b"
    by (simp add: reiser4_bitmap_clear_region_def Let_def)
  show set: "bm_set (reiser4_bitmap_clear_region L b s c) =
      (if s < bm_total b \<and> s + c \<le> bm_total b then bm_set b - {s..<s + c} else bm_set b)"
    using sh bounds
    by (auto simp: reiser4_bitmap_clear_region_def bm_set_def bm_shape_def clear_bits Let_def)
  have "bm_shape (reiser4_bitmap_clear_region L b s c)"
    using sh bounds by (auto simp: reiser4_bitmap_clear_region_def bm_shape_def clear_bits Let_def)
  moreover have "bm_marked (reiser4_bitmap_clear_region L b s c) = card (bm_set (reiser4_bitmap_clear_region L b s c))"
  proof (cases "s < bm_total b \<and> s + c \<le> bm_total b \<and> (c = 0 \<longrightarrow> 0 < s)")
    case True
    have "card (bm_set b - (bm_set b \<inter> {s..<s + c})) = card (bm_set b) - card (bm_set b \<inter> {s..<s + c})"
      by (rule card_Diff_subset) auto
    moreover have "bm_set b - (bm_set b \<inter> {s..<s + c}) = bm_set b - {s..<s + c}" by auto
    moreover have "card (bm_set b \<inter> {s..<s + c}) \<le> card (bm_set b)" by (rule card_mono) auto
    ultimately show ?thesis
      using True m bm_total_small [OF sh] bm_set_card [of b] bounds calc_card(1) [OF sh assms(2)]
      unfolding set by (simp add: reiser4_bitmap_clear_region_def wrap_simps not_le)
  next
    case False
    have "reiser4_bitmap_clear_region L b s c = b"
      using False bounds by (auto simp: reiser4_bitmap_clear_region_def not_le)
    then show ?thesis using m by simp
  qed
  ultimately show "bm_ok (reiser4_bitmap_clear_region L b s c)" by (simp add: bm_ok_def)
qed


lemma next_bit_cong: "(\<And>i. i < n \<Longrightarrow> P i = Q i) \<Longrightarrow> next_bit P n s r \<longleftrightarrow> next_bit Q n s r"
  unfolding next_bit_def by (intro if_cong refl) auto

lemma next_bit_none: "next_bit P n s r \<Longrightarrow> n \<le> v \<Longrightarrow> next_bit P n s (if n \<le> r then v else r)"
  by (auto simp: next_bit_def split: if_splits)

lemma next_bit_past: "n \<le> s \<Longrightarrow> n \<le> v \<Longrightarrow> next_bit P n s v"
  by (auto simp: next_bit_def)

lemma find_cleared_next:
  assumes "bm_shape b"
  shows "next_bit (\<lambda>i. i \<notin> bm_set b) (bm_total b) start (reiser4_bitmap_find_cleared L b start)"
    and "bm_total b \<le> reiser4_bitmap_find_cleared L b start \<Longrightarrow> reiser4_bitmap_find_cleared L b start = MAX_UINT64"
proof -
  have v: "bm_total b \<le> INVAL_BLK L" using bm_total_small [OF assms] by (simp add: inval_blk)
  have "next_bit (\<lambda>i. i \<notin> bm_set b) (bm_total b) start (aal_find_next_zero_bit L (bm_map b) (bm_total b) start)"
    if "start < bm_total b"
    using find_next_zero [of "bm_total b" "bm_map b" start] that assms
    by (subst next_bit_cong [where Q = "\<lambda>i. \<not> map_bit (bm_map b) i"]) (auto simp: bm_set_def bm_shape_def)
  then show "next_bit (\<lambda>i. i \<notin> bm_set b) (bm_total b) start (reiser4_bitmap_find_cleared L b start)"
    using next_bit_none v next_bit_past [OF _ v] by (auto simp: reiser4_bitmap_find_cleared_def Let_def)
  show "bm_total b \<le> reiser4_bitmap_find_cleared L b start \<Longrightarrow> reiser4_bitmap_find_cleared L b start = MAX_UINT64"
    by (auto simp: reiser4_bitmap_find_cleared_def Let_def inval_blk split: if_splits)
qed

lemma find_marked_next:
  assumes "bm_shape b"
  shows "next_bit (\<lambda>i. i \<in> bm_set b) (bm_total b) start (reiser4_bitmap_find_marked L b start)"
    and "bm_total b \<le> reiser4_bitmap_find_marked L b start \<Longrightarrow> reiser4_bitmap_find_marked L b start = MAX_UINT64"
proof -
  have v: "bm_total b \<le> INVAL_BLK L" using bm_total_small [OF assms] by (simp add: inval_blk)
  have "next_bit (\<lambda>i. i \<in> bm_set b) (bm_total b) start (aal_find_next_set_bit L (bm_map b) (bm_total b) start)"
    if "start < bm_total b"
    using find_next_set [of "bm_total b" "bm_map b" start] that assms
    by (subst next_bit_cong [where Q = "map_bit (bm_map b)"]) (auto simp: bm_set_def bm_shape_def)
  then show "next_bit (\<lambda>i. i \<in> bm_set b) (bm_total b) start (reiser4_bitmap_find_marked L b start)"
    using next_bit_none v next_bit_past [OF _ v] by (auto simp: reiser4_bitmap_find_marked_def Let_def)
  show "bm_total b \<le> reiser4_bitmap_find_marked L b start \<Longrightarrow> reiser4_bitmap_find_marked L b start = MAX_UINT64"
    by (auto simp: reiser4_bitmap_find_marked_def Let_def inval_blk split: if_splits)
qed

lemma next_bit_outside: "next_bit P n s r \<Longrightarrow> e \<le> n \<Longrightarrow> s \<le> r \<and> r < e \<longleftrightarrow> (\<exists>i. s \<le> i \<and> i < e \<and> P i)"
  unfolding next_bit_def by (metis leD leI le_less_trans less_le_trans)

lemma test_region_set:
  assumes "bm_shape b" and "s + c < 18446744073709551616" and "0 < c"
  shows "reiser4_bitmap_test_region L b s c True \<longleftrightarrow> {s..<s + c} \<subseteq> bm_set b"
    and "reiser4_bitmap_test_region L b s c False \<longleftrightarrow>
      s + c \<le> bm_total b \<and> {s..<s + c} \<inter> bm_set b = {}"
proof -
  have e: "to_u64 (int s + int c) = s + c" using assms(2) by (rule to_u64_add)
  have in_range: "(s < bm_total b \<and> to_u64 (int s + int c - 1) < bm_total b) = (s + c \<le> bm_total b)"
    using region_bounds [OF assms(1,2)] assms(3) by auto
  have sub: "s + c \<le> bm_total b" if "{s..<s + c} \<subseteq> bm_set b"
  proof -
    have "s + c - 1 \<in> bm_set b" using that assms(3) by auto
    then show ?thesis by (auto simp: bm_set_def)
  qed
  show "reiser4_bitmap_test_region L b s c True \<longleftrightarrow> {s..<s + c} \<subseteq> bm_set b"
  proof (cases "s + c \<le> bm_total b")
    case True
    then show ?thesis
      using in_range next_bit_outside [OF find_cleared_next(1) [OF assms(1)] True, of s]
      unfolding reiser4_bitmap_test_region_def e Let_def by (auto simp: not_le subset_iff simp del: not_le)
  next
    case False
    then have "\<not> {s..<s + c} \<subseteq> bm_set b" using sub by blast
    then show ?thesis using False in_range by (auto simp: reiser4_bitmap_test_region_def)
  qed
  show "reiser4_bitmap_test_region L b s c False \<longleftrightarrow> s + c \<le> bm_total b \<and> {s..<s + c} \<inter> bm_set b = {}"
  proof (cases "s + c \<le> bm_total b")
    case True
    then show ?thesis
      using in_range next_bit_outside [OF find_marked_next(1) [OF assms(1)] True, of s]
      unfolding reiser4_bitmap_test_region_def e Let_def by (auto simp: not_le)
  next
    case False
    then show ?thesis using in_range by (auto simp: reiser4_bitmap_test_region_def)
  qed
qed

lemma find_region_zero:
  assumes "bm_shape b" and "reiser4_bitmap_find_region L b start count False = (n, s)" and "0 < n"
  shows "n \<le> count \<and> s + n \<le> bm_total b \<and> {s..<s + n} \<inter> bm_set b = {}"
  using assms find_zero_bits [of "bm_total b" "bm_map b" start count n s]
  by (auto simp: reiser4_bitmap_find_region_def bm_set_def bm_shape_def)

end

lemma create_ok:
  assumes "reiser4_bitmap_create ok len = Some b" and "len < 2 ^ 32 - 8"
  shows "bm_ok b" and "bm_set b = {}" and "bm_total b = len"
proof -
  have len: "len < 4294967288" using assms(2) by simp
  have "to_u64 (int len + 7) = len + 7" using to_u64_add [of len 7] len by simp
  moreover have "to_u32 (int ((len + 7) div 8)) = (len + 7) div 8"
    using len by (intro to_u32_nat) linarith
  ultimately have b: "b = \<lparr>bm_marked = 0, bm_total = len, bm_size = (len + 7) div 8, bm_map = replicate ((len + 7) div 8) 0\<rparr>"
    using assms(1) by (simp add: reiser4_bitmap_create_def Let_def split: if_splits)
  show "bm_set b = {}" by (auto simp: b bm_set_def map_bit_def)
  moreover have "len \<le> 8 * ((len + 7) div 8)" "8 * ((len + 7) div 8) < len + 8" "(len + 7) div 8 < 536870912"
    using len by linarith+
  ultimately show "bm_ok b" by (simp add: bm_ok_def) (simp add: b bm_shape_def)
  show "bm_total b = len" by (simp add: b)
qed

lemma clone_eq:
  assumes "bm_ok b" and "ok 0" "ok 1"
  shows "reiser4_bitmap_clone ok b = Some b"
proof -
  have sh: "bm_shape b" using assms(1) by (simp add: bm_ok_def)
  then have len: "bm_total b < 4294967296" "8 * length (bm_map b) < bm_total b + 8" "bm_total b \<le> 8 * length (bm_map b)"
     "length (bm_map b) < 536870912" "bm_size b = length (bm_map b)"
    by (auto simp: bm_shape_def)
  have "to_u64 (int (bm_total b) + 7) = bm_total b + 7" using to_u64_add [of "bm_total b" 7] len by simp
  moreover have "(bm_total b + 7) div 8 = length (bm_map b)" using len by linarith
  moreover have "to_u32 (int (length (bm_map b))) = length (bm_map b)"
    using len by (intro to_u32_nat) linarith
  ultimately show ?thesis
    using assms len by (simp add: reiser4_bitmap_clone_def reiser4_bitmap_create_def Let_def)
qed

section \<open>Packing and unpacking\<close>

text \<open>The lengths of the runs, marked ones first, that the packing writes.\<close>

fun run_lengths :: "(nat \<Rightarrow> bool \<Rightarrow> nat) \<Rightarrow> nat \<Rightarrow> nat \<Rightarrow> nat \<Rightarrow> bool \<Rightarrow> nat list option" where
  "run_lengths next tot 0 count mark = None"
| "run_lengths next tot (Suc fuel) count mark =
     (let i = next count mark
      in if tot \<le> i then Some [tot - count]
         else map_option ((#) (i - count)) (run_lengths next tot fuel i (\<not> mark)))"

definition find_run :: "aal_bits \<Rightarrow> reiser4_bitmap \<Rightarrow> nat \<Rightarrow> bool \<Rightarrow> nat" where
  "find_run L b count mark = (if mark then reiser4_bitmap_find_cleared L b count else reiser4_bitmap_find_marked L b count)"

context aal_bitops
begin

lemma find_run_next:
  assumes "bm_shape b"
  shows "next_bit (\<lambda>i. (i \<in> bm_set b) \<noteq> mark) (bm_total b) count (find_run L b count mark)"
    and "find_run L b count mark = INVAL_BLK L \<longleftrightarrow> bm_total b \<le> find_run L b count mark"
proof -
  show "next_bit (\<lambda>i. (i \<in> bm_set b) \<noteq> mark) (bm_total b) count (find_run L b count mark)"
    using find_cleared_next(1) [OF assms, of count] find_marked_next(1) [OF assms, of count]
    by (cases mark) (simp_all add: find_run_def)
  have inval: "bm_total b \<le> INVAL_BLK L"
    using inval_blk bm_total_small [OF assms] by simp
  show "find_run L b count mark = INVAL_BLK L \<longleftrightarrow> bm_total b \<le> find_run L b count mark"
  proof
    assume "bm_total b \<le> find_run L b count mark"
    then show "find_run L b count mark = INVAL_BLK L"
      unfolding inval_blk find_run_def
      by (cases mark) (auto intro!: find_cleared_next(2) [OF assms] find_marked_next(2) [OF assms])
  qed (simp only: inval)
qed

lemma find_run_range:
  assumes "bm_shape b" and "find_run L b count mark < bm_total b"
  shows "count \<le> find_run L b count mark"
    and "\<And>i. count \<le> i \<Longrightarrow> i < find_run L b count mark \<Longrightarrow> i \<in> bm_set b \<longleftrightarrow> mark"
    and "find_run L b count mark \<in> bm_set b \<longleftrightarrow> \<not> mark"
  using find_run_next(1) [OF assms(1), of mark count] assms(2) unfolding next_bit_def
  by (auto split: if_splits)

lemma find_run_end:
  assumes "bm_shape b" and "bm_total b \<le> find_run L b count mark" and "count \<le> i" "i < bm_total b"
  shows "i \<in> bm_set b \<longleftrightarrow> mark"
  using find_run_next(1) [OF assms(1), of mark count] assms(2-4) unfolding next_bit_def
  by (auto split: if_splits)

text \<open>Enough fuel: every run after the first one is not empty.\<close>

lemma run_lengths_enough:
  assumes "bm_shape b"
  shows "bm_total b - count + (if (count \<in> bm_set b) = mark then 0 else 1) < fuel \<Longrightarrow> count \<le> bm_total b \<Longrightarrow>
    \<exists>rs. run_lengths (find_run L b) (bm_total b) fuel count mark = Some rs \<and> length rs \<le> fuel"
proof (induction fuel arbitrary: count mark)
  case (Suc fuel)
  let ?i = "find_run L b count mark"
  show ?case
  proof (cases "bm_total b \<le> ?i")
    case False
    then have i: "?i < bm_total b" by simp
    have "count < ?i" if "(count \<in> bm_set b) = mark"
      using find_run_range(1,3) [OF assms i] that by (metis le_neq_implies_less)
    moreover have "(?i \<in> bm_set b) = (\<not> mark)" using find_run_range(3) [OF assms i] .
    ultimately have "bm_total b - ?i + (if (?i \<in> bm_set b) = (\<not> mark) then 0 else 1) < fuel"
      using Suc.prems(1) find_run_range(1) [OF assms i] i
      by (cases "(count \<in> bm_set b) = mark") simp_all
    then obtain rs where "run_lengths (find_run L b) (bm_total b) fuel ?i (\<not> mark) = Some rs" "length rs \<le> fuel"
      using Suc.IH [of ?i "\<not> mark"] i by auto
    then show ?thesis using False by (auto simp: Let_def)
  qed (simp add: Let_def)
qed simp

lemma pack_loop_runs:
  assumes "bm_shape b" and "aal_stream_laws S unread" and "count \<le> bm_total b"
    and "run_lengths (find_run L b) (bm_total b) fuel count mark = Some rs"
  shows "\<exists>s' c. bitmap_pack_loop L S b fuel s count mark = Some (s', c) \<and> c \<le> bm_total b \<and>
    unread s' @ le_bytes 8 (bm_total b - c) = unread s @ concat (map (le_bytes 8) rs)"
  using assms(3,4)
proof (induction fuel arbitrary: count mark s rs)
  case (Suc fuel)
  let ?i = "find_run L b count mark"
  have step: "bitmap_pack_loop L S b (Suc fuel) s count mark =
      (if ?i = INVAL_BLK L then Some (s, count)
       else bitmap_pack_loop L S b fuel (aal_stream_write S s (le_bytes 8 (to_u64 (int ?i - int count))))
          (to_u64 (int count + int (to_u64 (int ?i - int count)))) (\<not> mark))"
    by (simp add: find_run_def Let_def)
  show ?case
  proof (cases "bm_total b \<le> ?i")
    case True
    then show ?thesis
      using Suc.prems find_run_next(2) [OF assms(1), of count mark] unfolding step by (auto simp: Let_def)
  next
    case False
    then have i: "?i < bm_total b" by simp
    have diff: "to_u64 (int ?i - int count) = ?i - count"
      using find_run_range(1) [OF assms(1) i] i bm_total_small [OF assms(1)] by (intro to_u64_diff) auto
    have sum: "to_u64 (int count + int (?i - count)) = ?i"
      using find_run_range(1) [OF assms(1) i] i bm_total_small [OF assms(1)] by (subst to_u64_add) auto
    obtain rs' where rs: "rs = (?i - count) # rs'" "run_lengths (find_run L b) (bm_total b) fuel ?i (\<not> mark) = Some rs'"
      using Suc.prems(2) False by (auto simp: Let_def)
    have inval: "?i \<noteq> INVAL_BLK L" using False find_run_next(2) [OF assms(1)] by simp
    show ?thesis
      using Suc.IH [OF _ rs(2), of "aal_stream_write S s (le_bytes 8 (?i - count))"] i
      unfolding step diff sum using inval by (auto simp: rs(1) aal_stream_laws.stream_write [OF assms(2)])
  qed
qed simp


text \<open>Reading the runs back marks the same blocks.\<close>

lemma concat_le_bytes_Cons:
  "unread s = concat (map (le_bytes 8) (r # rs)) \<Longrightarrow> aal_stream_laws S unread \<Longrightarrow>
   aal_stream_read S s 8 = (bs, s') \<Longrightarrow> bs = le_bytes 8 r \<and> unread s' = concat (map (le_bytes 8) rs)"
  using aal_stream_laws.stream_read [of S unread s 8 bs s'] by simp

lemma unpack_loop_runs:
  assumes "bm_shape b" and "aal_stream_laws S unread"
    and "run_lengths (find_run L b) (bm_total b) fuel blk mark = Some rs"
    and "unread s = concat (map (le_bytes 8) rs)" and "blk \<le> bm_total b"
    and "bm_ok b'" and "bm_total b' = bm_total b" and "bm_set b' = bm_set b \<inter> {..<blk}"
    and "length rs < fuel'"
  shows "\<exists>s' r. bitmap_unpack_loop L S (bm_total b) fuel' b' s blk mark = Some (Inr (s', r, bm_total b)) \<and>
    bm_ok r \<and> bm_total r = bm_total b \<and> bm_set r = bm_set b"
  using assms(3-)
proof (induction fuel arbitrary: blk mark s rs b' fuel')
  case (Suc fuel)
  let ?i = "find_run L b blk mark"
  obtain f where f: "fuel' = Suc f" using Suc.prems(7) by (cases fuel') auto
  obtain bs s1 where rd: "aal_stream_read S s 8 = (bs, s1)" by (cases "aal_stream_read S s 8")
  define r where "r = (if bm_total b \<le> ?i then bm_total b else ?i) - blk"
  have r_range: "blk + r \<le> bm_total b" and small: "bm_total b < 4294967296"
    using Suc.prems(3) find_run_range(1) [OF assms(1), of blk mark] bm_total_small [OF assms(1)] by (auto simp: r_def)
  obtain rs' where rs: "rs = r # rs'"
    using Suc.prems(1) by (auto simp: r_def Let_def split: if_splits)
  have bs: "bs = le_bytes 8 r" "unread s1 = concat (map (le_bytes 8) rs')"
    using concat_le_bytes_Cons [OF Suc.prems(2) [unfolded rs] assms(2) rd] by auto
  define b1 where "b1 = (if mark then reiser4_bitmap_mark_region L b' blk r else b')"
  have sum: "to_u64 (int blk + int r) = blk + r" using r_range small by (intro to_u64_add) auto
  have val: "le_value bs = r" unfolding bs(1) by (rule le_value_bytes) (use r_range small in simp)
  have step: "bitmap_unpack_loop L S (bm_total b) fuel' b' s blk mark =
      bitmap_unpack_loop L S (bm_total b) f b1 s1 (blk + r) (\<not> mark)"
    using r_range by (simp add: f rd val sum b1_def Let_def) (simp add: bs(1))
  have run: "i \<in> bm_set b \<longleftrightarrow> mark" if "blk \<le> i" "i < blk + r" for i
    using find_run_range(2) [OF assms(1), of blk mark i] find_run_end [OF assms(1), of blk mark i] that r_range
    by (auto simp: r_def split: if_splits)
  have "bm_ok b1" and "bm_total b1 = bm_total b"
    using mark_region_set [OF Suc.prems(4), of blk r] Suc.prems(4,5) r_range small by (auto simp: b1_def)
  have "bm_set b1 = (if mark then bm_set b' \<union> {blk..<blk + r} else bm_set b')"
    using mark_region_set(2) [OF Suc.prems(4), of blk r] Suc.prems(5) r_range small by (auto simp: b1_def)
  also have "\<dots> = bm_set b \<inter> {..<blk + r}"
    unfolding Suc.prems(6) using run by (auto simp: not_less) (meson not_less)+
  finally have set1: "bm_set b1 = bm_set b \<inter> {..<blk + r}" .
  show ?case
  proof (cases "bm_total b \<le> ?i")
    case False
    then have "blk + r = ?i" using find_run_range(1) [OF assms(1), of blk mark] by (simp add: r_def)
    moreover have "run_lengths (find_run L b) (bm_total b) fuel ?i (\<not> mark) = Some rs'"
      using Suc.prems(1) False rs by (auto simp: Let_def)
    ultimately show ?thesis
      unfolding step
      using Suc.IH [of ?i "\<not> mark" rs' s1 b1 f] bs(2) r_range \<open>bm_ok b1\<close> \<open>bm_total b1 = _\<close> set1 Suc.prems(7) f rs
      by auto
  next
    case True
    then have "rs' = []" "blk + r = bm_total b"
      using Suc.prems(1,3) rs by (auto simp: Let_def r_def)
    moreover obtain f2 where "f = Suc f2" using Suc.prems(7) f rs by (cases f) auto
    moreover obtain cs s2 where rd2: "aal_stream_read S s1 8 = (cs, s2)" by (cases "aal_stream_read S s1 8")
    moreover have "cs = []" using aal_stream_laws.stream_read [OF assms(2) rd2] bs(2) \<open>rs' = []\<close> by simp
    moreover have "bm_set b1 = bm_set b" using set1 calculation(2) bm_set_bound [of b] by auto
    ultimately show ?thesis
      unfolding step using \<open>bm_ok b1\<close> \<open>bm_total b1 = _\<close> by simp
  qed
qed simp

lemma pack_unpack:
  assumes "bm_ok b" and "aal_stream_laws S unread" and "bm_total b < 2 ^ 32 - 8" and "unread s = []"
    and "ok 0" "ok 1" and "bm_total b + 3 < fuel"
  shows "\<exists>s1 s2 b'. reiser4_bitmap_pack L S b s = Some s1 \<and>
    reiser4_bitmap_unpack fuel L S ok s1 = Some (s2, Some b') \<and>
    bm_ok b' \<and> bm_total b' = bm_total b \<and> bm_set b' = bm_set b"
proof -
  have sh: "bm_shape b" using assms(1) by (simp add: bm_ok_def)
  obtain rs where rs: "run_lengths (find_run L b) (bm_total b) (bm_total b + 2) 0 True = Some rs"
    and len: "length rs \<le> bm_total b + 2"
  proof -
    have "bm_total b - 0 + (if (0 \<in> bm_set b) = True then 0 else 1) < bm_total b + 2" by simp
    then show ?thesis using run_lengths_enough [OF sh] that by blast
  qed
  let ?s0 = "aal_stream_write S (aal_stream_write S s AUX_BITMAP_MAGIC) (le_bytes 8 (bm_total b))"
  obtain s1 c where loop: "bitmap_pack_loop L S b (bm_total b + 2) ?s0 0 True = Some (s1, c)"
    and c: "c \<le> bm_total b" "unread s1 @ le_bytes 8 (bm_total b - c) = unread ?s0 @ concat (map (le_bytes 8) rs)"
    using pack_loop_runs [OF sh assms(2) _ rs, of ?s0] by auto
  define p where "p = aal_stream_write S s1 (le_bytes 8 (bm_total b - c))"
  have pack: "reiser4_bitmap_pack L S b s = Some p"
    using c(1) bm_total_small [OF sh] to_u64_diff [OF c(1)]
    by (simp add: reiser4_bitmap_pack_def loop [simplified] p_def)
  have "unread p = AUX_BITMAP_MAGIC @ le_bytes 8 (bm_total b) @ concat (map (le_bytes 8) rs)"
    using c(2) by (simp add: p_def aal_stream_laws.stream_write [OF assms(2)] assms(4))
  moreover obtain m p1 where rm: "aal_stream_read S p 7 = (m, p1)" by (cases "aal_stream_read S p 7")
  moreover obtain t p2 where rt: "aal_stream_read S p1 8 = (t, p2)" by (cases "aal_stream_read S p1 8")
  ultimately have m: "m = AUX_BITMAP_MAGIC" "t = le_bytes 8 (bm_total b)" "unread p2 = concat (map (le_bytes 8) rs)"
    using aal_stream_laws.stream_read [OF assms(2) rm] aal_stream_laws.stream_read [OF assms(2) rt]
    by (auto simp: AUX_BITMAP_MAGIC_def)
  have tot: "le_value t = bm_total b"
    unfolding m(2) by (rule le_value_bytes) (use bm_total_small [OF sh] in simp)
  obtain b0 where b0: "reiser4_bitmap_create ok (bm_total b) = Some b0"
    using assms(5,6) by (simp add: reiser4_bitmap_create_def Let_def)
  note fresh = create_ok [OF b0 assms(3)]
  obtain s2 r where "bitmap_unpack_loop L S (bm_total b) fuel b0 p2 0 True = Some (Inr (s2, r, bm_total b))"
    "bm_ok r" "bm_total r = bm_total b" "bm_set r = bm_set b"
    using unpack_loop_runs [OF sh assms(2) rs m(3) _ fresh(1) fresh(3), of fuel] fresh(2) len assms(7) by auto
  then show ?thesis
    using pack by (auto simp: reiser4_bitmap_unpack_def rm rt m(1,2) tot [unfolded m(2)] b0 AUX_BITMAP_MAGIC_def)
qed


lemma clear_foldl:
  "e \<le> 8 * length m \<Longrightarrow> length (foldl (aal_clear_bit L) m [a..<e]) = length m \<and>
     (\<forall>j. map_bit (foldl (aal_clear_bit L) m [a..<e]) j \<longleftrightarrow> \<not> (a \<le> j \<and> j < e) \<and> map_bit m j)"
proof (induction e)
  case (Suc e)
  then show ?case by (cases "a \<le> e") (auto simp: clear_bit less_Suc_eq)
qed simp

lemma map_bit_not: "map_bit (map (\<lambda>b. NOT b) m) i \<longleftrightarrow> i < 8 * length m \<and> \<not> map_bit m i"
  by (auto simp: map_bit_def bit_not_iff nth_map less_mult_imp_div_less mult.commute)

lemma invert_set:
  assumes "bm_ok b"
  shows "bm_ok (reiser4_bitmap_invert L b)" and "bm_total (reiser4_bitmap_invert L b) = bm_total b"
    and "bm_set (reiser4_bitmap_invert L b) = {..<bm_total b} - bm_set b"
proof -
  have sh: "bm_shape b" and m: "bm_marked b = card (bm_set b)" using assms by (auto simp: bm_ok_def)
  let ?m = "map (\<lambda>b. NOT b) (bm_map b)"
  have e: "to_u32 (int (bm_size b) * 8) = 8 * length (bm_map b)"
    using to_u32_id [of "int (bm_size b) * 8"] sh by (simp add: bm_shape_def)
  have map: "bm_map (reiser4_bitmap_invert L b) = foldl (aal_clear_bit L) ?m [bm_total b..<8 * length (bm_map b)]"
    using sh unfolding reiser4_bitmap_invert_def Let_def e by (simp add: bm_shape_def)
  have cl: "length (foldl (aal_clear_bit L) ?m [bm_total b..<8 * length (bm_map b)]) = length (bm_map b)"
    "map_bit (foldl (aal_clear_bit L) ?m [bm_total b..<8 * length (bm_map b)]) j \<longleftrightarrow>
       \<not> (bm_total b \<le> j \<and> j < 8 * length (bm_map b)) \<and> map_bit ?m j" for j
    using clear_foldl [of "8 * length (bm_map b)" ?m "bm_total b"] by auto
  have "bm_shape (reiser4_bitmap_invert L b)"
    using sh map cl by (simp add: bm_shape_def) (simp add: reiser4_bitmap_invert_def Let_def)
  moreover show tot: "bm_total (reiser4_bitmap_invert L b) = bm_total b"
    by (simp add: reiser4_bitmap_invert_def Let_def)
  moreover show set: "bm_set (reiser4_bitmap_invert L b) = {..<bm_total b} - bm_set b"
    using sh unfolding bm_set_def tot map by (auto simp: cl map_bit_not bm_shape_def)
  moreover have "card ({..<bm_total b} - bm_set b) = bm_total b - card (bm_set b)"
    using card_Diff_subset [OF bm_set_finite bm_set_bound] by simp
  ultimately show "bm_ok (reiser4_bitmap_invert L b)"
    using m bm_set_card [of b] bm_total_small [OF sh]
    by (simp add: bm_ok_def) (simp add: reiser4_bitmap_invert_def Let_def wrap_simps)
qed

lemma calc_marked_ok:
  assumes "bm_shape b"
  shows "bm_ok (snd (reiser4_bitmap_calc_marked L b))" and "fst (reiser4_bitmap_calc_marked L b) = card (bm_set b)"
    and "bm_set (snd (reiser4_bitmap_calc_marked L b)) = bm_set b"
    and "bm_total (snd (reiser4_bitmap_calc_marked L b)) = bm_total b"
    and "bm_map (snd (reiser4_bitmap_calc_marked L b)) = bm_map b"
proof -
  have "bm_set b \<inter> {0..<0 + bm_total b} = bm_set b" using bm_set_bound [of b] by auto
  then show fst: "fst (reiser4_bitmap_calc_marked L b) = card (bm_set b)"
    using calc_card(1) [OF assms, of 0 "bm_total b"] bm_total_small [OF assms]
    by (simp add: reiser4_bitmap_calc_marked_def Let_def)
  show set: "bm_set (snd (reiser4_bitmap_calc_marked L b)) = bm_set b"
    by (simp add: reiser4_bitmap_calc_marked_def Let_def bm_set_def)
  show "bm_ok (snd (reiser4_bitmap_calc_marked L b))"
    using fst assms by (simp add: bm_ok_def set) (simp add: reiser4_bitmap_calc_marked_def bm_shape_def Let_def)
qed (simp_all add: reiser4_bitmap_calc_marked_def Let_def)

lemma map_bit_append_zero: "map_bit (m @ replicate k 0) j \<longleftrightarrow> map_bit m j"
proof (cases "j < 8 * length m")
  case True
  then have "j div 8 < length m" by (simp add: less_mult_imp_div_less mult.commute)
  then show ?thesis using True by (simp add: map_bit_def nth_append)
next
  case False
  then have "length m \<le> j div 8" by linarith
  then show ?thesis using False by (auto simp: map_bit_def nth_append)
qed

lemma resize_set:
  assumes "bm_ok b" and "len < 2 ^ 32 - 8"
  shows "bm_ok (reiser4_bitmap_resize L True b len)" and "bm_total (reiser4_bitmap_resize L True b len) = len"
    and "bm_set (reiser4_bitmap_resize L True b len) =
      (if length (bm_map b) < (len + 7) div 8 then bm_set b else {i. i < len \<and> map_bit (bm_map b) i})"
proof -
  have sh: "bm_shape b" and m: "bm_marked b = card (bm_set b)" using assms by (auto simp: bm_ok_def)
  have len: "len < 4294967288" using assms(2) by simp
  define size where "size = (len + 7) div 8"
  have size: "len \<le> 8 * size" "8 * size < len + 8" "size < 536870912"
    using len unfolding size_def by linarith+
  have sz: "to_u32 (int (to_u64 (int len + 7) div 8)) = size"
    using to_u64_add [of len 7] to_u32_nat [of size] len size by (simp add: size_def)
  have bs: "bm_size b = length (bm_map b)" and e: "to_u32 (int (length (bm_map b)) * 8) = 8 * length (bm_map b)"
    using to_u32_id [of "int (length (bm_map b)) * 8"] sh by (simp_all add: bm_shape_def)
  note def = reiser4_bitmap_resize_def [of L True b len] Let_def sz bs e
  have "bm_ok (reiser4_bitmap_resize L True b len) \<and>
    bm_total (reiser4_bitmap_resize L True b len) = len \<and>
    bm_set (reiser4_bitmap_resize L True b len) =
      (if length (bm_map b) < (len + 7) div 8 then bm_set b else {i. i < len \<and> map_bit (bm_map b) i})"
    (is "?ok \<and> ?tot \<and> ?set")
  proof (cases "length (bm_map b) < size")
    case True
    let ?n = "bm_map b @ replicate (size - length (bm_map b)) 0"
    have r: "reiser4_bitmap_resize L True b len = b\<lparr>bm_map := foldl (aal_clear_bit L) ?n [bm_total b..<8 * length (bm_map b)],
        bm_total := len, bm_size := size\<rparr>"
      unfolding def using True by simp
    have cl: "length (foldl (aal_clear_bit L) ?n [bm_total b..<8 * length (bm_map b)]) = size"
      "map_bit (foldl (aal_clear_bit L) ?n [bm_total b..<8 * length (bm_map b)]) j \<longleftrightarrow> j < bm_total b \<and> map_bit (bm_map b) j" for j
    proof -
      note cf = clear_foldl [of "8 * length (bm_map b)" ?n "bm_total b"]
      show "length (foldl (aal_clear_bit L) ?n [bm_total b..<8 * length (bm_map b)]) = size"
        using cf True by simp
      have "map_bit (foldl (aal_clear_bit L) ?n [bm_total b..<8 * length (bm_map b)]) j \<longleftrightarrow>
          \<not> (bm_total b \<le> j \<and> j < 8 * length (bm_map b)) \<and> map_bit (bm_map b) j"
        using cf by (simp add: map_bit_append_zero)
      then show "map_bit (foldl (aal_clear_bit L) ?n [bm_total b..<8 * length (bm_map b)]) j \<longleftrightarrow>
          j < bm_total b \<and> map_bit (bm_map b) j"
        using sh by (auto simp: map_bit_def bm_shape_def)
    qed
    have less: "bm_total b < len" using True sh size by (simp add: bm_shape_def)
    have ?tot by (simp add: r)
    moreover have set: ?set using True less unfolding size_def [symmetric] by (auto simp: r bm_set_def cl)
    moreover have "bm_shape (reiser4_bitmap_resize L True b len)" using size cl by (simp add: r bm_shape_def)
    moreover have "bm_marked (reiser4_bitmap_resize L True b len) = bm_marked b" by (simp add: r)
    ultimately show ?thesis using m True unfolding bm_ok_def by (simp add: size_def)
  next
    case False
    let ?b = "b\<lparr>bm_map := take size (bm_map b), bm_total := len, bm_size := size\<rparr>"
    have r: "reiser4_bitmap_resize L True b len = snd (reiser4_bitmap_calc_marked L ?b)"
      unfolding def using False by simp
    have "bm_shape ?b" using False size by (simp add: bm_shape_def)
    moreover have "bm_set ?b = {i. i < len \<and> map_bit (bm_map b) i}"
      using False size by (auto simp: bm_set_def map_bit_def less_mult_imp_div_less mult.commute)
    ultimately show ?thesis
      using calc_marked_ok(1,3,4) [of ?b] False unfolding r by (simp add: size_def)
  qed
  then show ?ok ?tot ?set by auto
qed

end

section \<open>A bit array with these laws\<close>

definition put_bit :: "bool \<Rightarrow> u8 list \<Rightarrow> nat \<Rightarrow> u8 list" where
  "put_bit v m i =
     m[i div 8 := (if v then Bit_Operations.set_bit (i mod 8) (m ! (i div 8)) else unset_bit (i mod 8) (m ! (i div 8)))]"

definition first_bit :: "(nat \<Rightarrow> bool) \<Rightarrow> nat \<Rightarrow> nat \<Rightarrow> nat" where
  "first_bit P tot start = (case filter P [start..<tot] of [] \<Rightarrow> tot | i # rest \<Rightarrow> i)"

definition first_region :: "(nat \<Rightarrow> bool) \<Rightarrow> nat \<Rightarrow> nat \<Rightarrow> nat \<Rightarrow> nat \<times> nat" where
  "first_region P tot start count =
     (let s = first_bit P tot start in (length (takeWhile P [s..<min tot (s + count)]), s))"

definition bit_array :: aal_bits where
  "bit_array =
     \<lparr>aal_test_bit = map_bit, aal_set_bit = put_bit True, aal_clear_bit = put_bit False,
      aal_set_bits = (\<lambda>m s c. foldl (put_bit True) m [s..<s + c]),
      aal_clear_bits = (\<lambda>m s c. foldl (put_bit False) m [s..<s + c]),
      aal_find_next_zero_bit = (\<lambda>m. first_bit (\<lambda>i. \<not> map_bit m i)),
      aal_find_next_set_bit = (\<lambda>m. first_bit (map_bit m)),
      aal_find_zero_bits = (\<lambda>m. first_region (\<lambda>i. \<not> map_bit m i)),
      aal_find_set_bits = (\<lambda>m. first_region (map_bit m)),
      INVAL_BLK = MAX_UINT64\<rparr>"

lemma put_bit_length [simp]: "length (put_bit v m i) = length m"
  by (simp add: put_bit_def)

lemma put_bit_map_bit:
  assumes "i < 8 * length m"
  shows "map_bit (put_bit v m i) j \<longleftrightarrow> (if j = i then v else map_bit m j)"
proof -
  have i: "i div 8 < length m" using assms by (simp add: less_mult_imp_div_less mult.commute)
  have eq: "j = i \<longleftrightarrow> j div 8 = i div 8 \<and> j mod 8 = i mod 8"
    by (metis div_mult_mod_eq)
  show ?thesis
  proof (cases "j div 8 = i div 8")
    case True
    then have "j < 8 * length m" using i by linarith
    moreover have "j = i \<longleftrightarrow> j mod 8 = i mod 8" using eq True by blast
    ultimately show ?thesis using True i
      by (simp add: map_bit_def put_bit_def bit_set_bit_iff bit_unset_bit_iff)
  next
    case False
    then have "j \<noteq> i" by blast
    then show ?thesis using False by (simp add: map_bit_def put_bit_def)
  qed
qed

lemma put_bits_map_bit:
  "e \<le> 8 * length m \<Longrightarrow> length (foldl (put_bit v) m [s..<e]) = length m \<and>
    (\<forall>j. map_bit (foldl (put_bit v) m [s..<e]) j \<longleftrightarrow> (if s \<le> j \<and> j < e then v else map_bit m j))"
proof (induction e)
  case (Suc e)
  let ?m = "foldl (put_bit v) m [s..<e]"
  have IH: "length ?m = length m" "map_bit ?m j \<longleftrightarrow> (if s \<le> j \<and> j < e then v else map_bit m j)" for j
    using Suc by auto
  have "map_bit (put_bit v ?m e) j \<longleftrightarrow> (if j = e then v else map_bit ?m j)" for j
    using Suc.prems by (intro put_bit_map_bit) (simp add: IH(1))
  then have "map_bit (put_bit v ?m e) j \<longleftrightarrow> (if s \<le> j \<and> j < Suc e then v else map_bit m j)" if "s \<le> e" for j
    unfolding IH(2) using that by (cases "j = e"; cases "s \<le> j \<and> j < e"; auto)
  then show ?case
  proof (cases "s \<le> e")
    case False
    then show ?thesis by auto
  qed (use IH in simp)
qed simp

lemma first_bit_next: "next_bit P tot start (first_bit P tot start)"
proof (cases "filter P [start..<tot]")
  case Nil
  then show ?thesis by (auto simp: first_bit_def next_bit_def filter_empty_conv)
next
  case (Cons i rest)
  then obtain us vs where us: "[start..<tot] = us @ i # vs" "\<forall>u \<in> set us. \<not> P u" "P i"
    by (auto simp: filter_eq_Cons_iff)
  have len: "length us < tot - start" using arg_cong [OF us(1), of length] by simp
  have i: "i = start + length us"
    using arg_cong [OF us(1), of "\<lambda>l. l ! length us"] len by (simp add: nth_append)
  have "us = [start..<i]"
    using arg_cong [OF us(1), of "take (length us)"] len by (simp add: i take_upt)
  then have "set us = {start..<i}" by (metis set_upt)
  then have "\<forall>u. start \<le> u \<and> u < i \<longrightarrow> \<not> P u" using us(2) by simp
  moreover have "start \<le> i" "i < tot" using i len by auto
  moreover have "first_bit P tot start = i" by (simp add: first_bit_def Cons)
  ultimately show ?thesis using us(3) by (auto simp: next_bit_def)
qed

lemma first_region_bits:
  assumes "first_region P tot start count = (n, s)" and "0 < n"
  shows "n \<le> count \<and> s + n \<le> tot \<and> (\<forall>i. s \<le> i \<and> i < s + n \<longrightarrow> P i)"
proof -
  let ?u = "[s..<min tot (s + count)]"
  have n: "n = length (takeWhile P ?u)" using assms(1) by (auto simp: first_region_def Let_def)
  have len: "n \<le> length ?u" unfolding n by (rule length_takeWhile_le)
  have "P i" if "s \<le> i" "i < s + n" for i
  proof -
    have "takeWhile P ?u ! (i - s) \<in> set (takeWhile P ?u)" using that n by (intro nth_mem) simp
    moreover have "takeWhile P ?u ! (i - s) = ?u ! (i - s)"
      using that n by (intro takeWhile_nth) simp
    moreover have "?u ! (i - s) = i" using that len by (simp add: min_def split: if_splits)
    ultimately show ?thesis by (auto dest: set_takeWhileD)
  qed
  moreover have "n \<le> count" "s + n \<le> tot" using len assms(2) by auto
  ultimately show ?thesis by blast
qed

interpretation bit_array: aal_bitops bit_array
proof
  show "aal_find_zero_bits bit_array m tot start count = (n, s) \<Longrightarrow> 0 < n \<Longrightarrow>
      n \<le> count \<and> s + n \<le> tot \<and> (\<forall>i. s \<le> i \<and> i < s + n \<longrightarrow> \<not> map_bit m i)" for m tot start count n s
    using first_region_bits [of "\<lambda>i. \<not> map_bit m i" tot start count n s] by (simp add: bit_array_def)
  show "aal_find_set_bits bit_array m tot start count = (n, s) \<Longrightarrow> 0 < n \<Longrightarrow>
      n \<le> count \<and> s + n \<le> tot \<and> (\<forall>i. s \<le> i \<and> i < s + n \<longrightarrow> map_bit m i)" for m tot start count n s
    using first_region_bits [of "map_bit m" tot start count n s] by (simp add: bit_array_def)
  show "s + c \<le> 8 * length m \<Longrightarrow> length (aal_set_bits bit_array m s c) = length m \<and>
      (\<forall>j. map_bit (aal_set_bits bit_array m s c) j \<longleftrightarrow> s \<le> j \<and> j < s + c \<or> map_bit m j)" for m s c
    using put_bits_map_bit [of "s + c" m True s] by (simp add: bit_array_def) blast
  show "s + c \<le> 8 * length m \<Longrightarrow> length (aal_clear_bits bit_array m s c) = length m \<and>
      (\<forall>j. map_bit (aal_clear_bits bit_array m s c) j \<longleftrightarrow> \<not> (s \<le> j \<and> j < s + c) \<and> map_bit m j)" for m s c
    using put_bits_map_bit [of "s + c" m False s] by (simp add: bit_array_def)
qed (simp_all add: bit_array_def put_bit_map_bit first_bit_next)

definition byte_stream :: "u8 list aal_streams" where
  "byte_stream = \<lparr>aal_stream_write = (@), aal_stream_read = (\<lambda>s n. (take n s, drop n s))\<rparr>"

interpretation byte_stream: aal_stream_laws byte_stream id
  by unfold_locales (auto simp: byte_stream_def)


section \<open>What the block allocator relies on\<close>

text \<open>A set of used blocks below a limit, with regions taken and given back.\<close>

locale space_map =
  fixes ok :: "'m \<Rightarrow> bool" and used :: "'m \<Rightarrow> nat set" and limit :: "'m \<Rightarrow> nat"
    and occupy release :: "'m \<Rightarrow> nat \<Rightarrow> nat \<Rightarrow> 'm"
  assumes occupy: "ok m \<Longrightarrow> 0 < c \<Longrightarrow> s + c \<le> limit m \<Longrightarrow>
      ok (occupy m s c) \<and> used (occupy m s c) = used m \<union> {s..<s + c} \<and> limit (occupy m s c) = limit m"
    and release: "ok m \<Longrightarrow> 0 < c \<Longrightarrow> s + c \<le> limit m \<Longrightarrow>
      ok (release m s c) \<and> used (release m s c) = used m - {s..<s + c} \<and> limit (release m s c) = limit m"
    and used_limit: "ok m \<Longrightarrow> used m \<subseteq> {..<limit m}"
begin

lemma release_occupy:
  assumes "ok m" "0 < c" "s + c \<le> limit m" "{s..<s + c} \<inter> used m = {}"
  shows "used (release (occupy m s c) s c) = used m"
  using assms occupy [of m c s] release [of "occupy m s c" c s] by auto

lemma occupy_free:
  assumes "ok m" "0 < c" "s + c \<le> limit m" "{s..<s + c} \<inter> used m = {}"
  shows "limit m - card (used (occupy m s c)) = limit m - card (used m) - c"
proof -
  have "finite (used m)" using used_limit [OF assms(1)] finite_subset by auto
  then have "card (used m \<union> {s..<s + c}) = card (used m) + c"
    using assms(4) by (subst card_Un_disjoint) auto
  then show ?thesis using occupy [OF assms(1-3)] by simp
qed

text \<open>A sequence of regions.\<close>

lemma occupy_all:
  "ok m \<Longrightarrow> \<forall>(s, c) \<in> set rs. 0 < c \<and> s + c \<le> limit m \<Longrightarrow>
   ok (foldl (\<lambda>m (s, c). occupy m s c) m rs) \<and>
   used (foldl (\<lambda>m (s, c). occupy m s c) m rs) = used m \<union> (\<Union>(s, c) \<in> set rs. {s..<s + c}) \<and>
   limit (foldl (\<lambda>m (s, c). occupy m s c) m rs) = limit m"
proof (induction rs arbitrary: m)
  case (Cons r rs)
  obtain s c where r: "r = (s, c)" by (cases r)
  then show ?case using Cons.prems Cons.IH [of "occupy m s c"] occupy [of m c s] by auto
qed simp

end

sublocale aal_bitops \<subseteq> bitmap_space:
  space_map bm_ok bm_set bm_total "reiser4_bitmap_mark_region L" "reiser4_bitmap_clear_region L"
proof
  show "bm_ok m \<Longrightarrow> 0 < c \<Longrightarrow> s + c \<le> bm_total m \<Longrightarrow> bm_ok (reiser4_bitmap_mark_region L m s c) \<and>
      bm_set (reiser4_bitmap_mark_region L m s c) = bm_set m \<union> {s..<s + c} \<and>
      bm_total (reiser4_bitmap_mark_region L m s c) = bm_total m" for m c s
    using mark_region_set [of m s c] bm_total_small [of m] by (auto simp: bm_ok_def)
  show "bm_ok m \<Longrightarrow> 0 < c \<Longrightarrow> s + c \<le> bm_total m \<Longrightarrow> bm_ok (reiser4_bitmap_clear_region L m s c) \<and>
      bm_set (reiser4_bitmap_clear_region L m s c) = bm_set m - {s..<s + c} \<and>
      bm_total (reiser4_bitmap_clear_region L m s c) = bm_total m" for m c s
    using clear_region_set [of m s c] bm_total_small [of m] by (auto simp: bm_ok_def)
qed (rule bm_set_bound)

section \<open>Properties\<close>

text \<open>
  C36: \<^verbatim>\<open>reiser4_bitmap_mark_region\<close> and \<^verbatim>\<open>reiser4_bitmap_clear_region\<close> add and remove exactly
  the blocks of a region that lies inside of the bitmap, ignore any other region, and keep the
  counter of marked blocks exact.
\<close>

theorem bitmap_regions:
  assumes "aal_bitops L" and "bm_ok b" and "start + count < 2 ^ 64"
  shows "let m = reiser4_bitmap_mark_region L b start count; c = reiser4_bitmap_clear_region L b start count;
             inside = (start < bm_total b \<and> start + count \<le> bm_total b)
         in bm_set m = (if inside then bm_set b \<union> {start..<start + count} else bm_set b) \<and>
            bm_set c = (if inside then bm_set b - {start..<start + count} else bm_set b) \<and>
            reiser4_bitmap_marked m = card (bm_set m) \<and> reiser4_bitmap_marked c = card (bm_set c) \<and>
            reiser4_bitmap_cleared m = bm_total b - card (bm_set m)"
proof -
  have lt: "start + count < 18446744073709551616" using assms(3) by simp
  let ?m = "reiser4_bitmap_mark_region L b start count"
  note mark = aal_bitops.mark_region_set [OF assms(1,2) lt] and
    clear = aal_bitops.clear_region_set [OF assms(1,2) lt]
  have "to_u64 (int (bm_total b) - int (card (bm_set ?m))) = bm_total b - card (bm_set ?m)"
    using bm_set_card [of ?m] mark(1,3) bm_total_small [of ?m] by (intro to_u64_diff) (auto simp: bm_ok_def)
  then show ?thesis
    using mark clear by (simp add: Let_def bm_ok_def reiser4_bitmap_marked_def reiser4_bitmap_cleared_def)
qed

theorem bitmap_regions_witness:
  "\<exists>b. reiser4_bitmap_create (\<lambda>_. True) 20 = Some b \<and>
     bm_set (reiser4_bitmap_mark_region bit_array b 3 4) = {3..<7}"
proof -
  obtain b where b: "reiser4_bitmap_create (\<lambda>_. True) 20 = Some b"
    by (simp add: reiser4_bitmap_create_def Let_def)
  have "bm_ok b" "bm_set b = {}" "bm_total b = 20" using create_ok [OF b] by simp_all
  then show ?thesis
    using b bitmap_regions [OF bit_array.aal_bitops_axioms, of b 3 4] by (simp add: Let_def)
qed

text \<open>
  C28: \<^verbatim>\<open>reiser4_bitmap_unpack\<close> gives back what \<^verbatim>\<open>reiser4_bitmap_pack\<close> wrote: the same number of
  blocks, the same marked blocks and an exact counter; the loop of the packing ends after at most
  one run per block.
\<close>

theorem bitmap_pack_unpack:
  assumes "aal_bitops L" and "aal_stream_laws S unread" and "bm_ok b" and "bm_total b < 2 ^ 32 - 8"
    and "unread s = []" and "ok 0" "ok 1" and "bm_total b + 3 < fuel"
  shows "\<exists>s1 s2 b'. reiser4_bitmap_pack L S b s = Some s1 \<and>
    reiser4_bitmap_unpack fuel L S ok s1 = Some (s2, Some b') \<and>
    bm_ok b' \<and> bm_total b' = bm_total b \<and> bm_set b' = bm_set b"
  using aal_bitops.pack_unpack [OF assms(1,3,2,4-)] by blast

theorem bitmap_pack_unpack_witness:
  "\<exists>s1 s2 b'. reiser4_bitmap_pack bit_array byte_stream \<lparr>bm_marked = 0, bm_total = 20, bm_size = 3, bm_map = [0, 0, 0]\<rparr> [] = Some s1 \<and>
    reiser4_bitmap_unpack 24 bit_array byte_stream (\<lambda>_. True) s1 = Some (s2, Some b') \<and>
    bm_set b' = bm_set \<lparr>bm_marked = 0, bm_total = 20, bm_size = 3, bm_map = [0, 0, 0]\<rparr>"
proof -
  let ?b = "\<lparr>bm_marked = 0, bm_total = 20, bm_size = 3, bm_map = [0, 0, 0 :: u8]\<rparr>"
  have "reiser4_bitmap_create (\<lambda>_. True) 20 = Some ?b"
    by (simp add: reiser4_bitmap_create_def Let_def wrap_simps numeral_3_eq_3)
  then have "bm_ok ?b" using create_ok(1) by simp
  then show ?thesis
    using bitmap_pack_unpack [OF bit_array.aal_bitops_axioms byte_stream.aal_stream_laws_axioms, of ?b "[]" "\<lambda>_. True" 24]
    by auto
qed

text \<open>
  C37: \<^verbatim>\<open>reiser4_bitmap_resize\<close> keeps the counter exact.  When the byte array grows, the marked blocks
  stay the same; otherwise the marked blocks are the bits of the old array below the new length,
  which brings back bits beyond the old length that were left in the last byte.
\<close>

theorem bitmap_resize:
  assumes "aal_bitops L" and "bm_ok b" and "len < 2 ^ 32 - 8"
  shows "bm_ok (reiser4_bitmap_resize L True b len) \<and> bm_total (reiser4_bitmap_resize L True b len) = len \<and>
    bm_set (reiser4_bitmap_resize L True b len) =
      (if bm_size b < (len + 7) div 8 then bm_set b else {i. i < len \<and> map_bit (bm_map b) i})"
  using aal_bitops.resize_set [OF assms] assms(2) by (simp add: bm_ok_def bm_shape_def)

theorem bitmap_resize_witness:
  "\<exists>b. reiser4_bitmap_create (\<lambda>_. True) 20 = Some b \<and> bm_set (reiser4_bitmap_resize bit_array True b 100) = {}"
proof -
  obtain b where b: "reiser4_bitmap_create (\<lambda>_. True) 20 = Some b"
    by (simp add: reiser4_bitmap_create_def Let_def)
  have "bm_ok b" "bm_set b = {}" "bm_size b = 3" using create_ok [OF b] b
    by (auto simp: reiser4_bitmap_create_def Let_def wrap_simps)
  then show ?thesis
    using b bitmap_resize [OF bit_array.aal_bitops_axioms, of b 100] by simp
qed

end
