(* ===== verification/Alloc40.thy ===== *)
theory Alloc40
  imports Bitmap AuxLib
begin

text \<open>
  The block allocator plugin (\<^verbatim>\<open>plugin/alloc/alloc40\<close>): a bitmap of the used blocks, stored in
  bitmap blocks spread over the device, each holding a checksum and a chunk of the map.  Device
  access is libaal's and a parameter; an access outside of a heap buffer is the result \<open>None\<close>.
\<close>

section \<open>The device\<close>

text \<open>
  \<open>aal_block_init\<close> and the error results are numbers, 0 for success; reading returns the data, and
  writing the new device.
\<close>

record 'd aal_dev =
  aal_block_init :: "'d \<Rightarrow> nat \<Rightarrow> nat \<Rightarrow> int"
  aal_block_read :: "'d \<Rightarrow> nat \<Rightarrow> nat \<Rightarrow> int \<times> u8 list"
  aal_block_write :: "'d \<Rightarrow> nat \<Rightarrow> nat \<Rightarrow> u8 list \<Rightarrow> int \<times> 'd"

text \<open>A read that succeeds returns the bytes of the block, a write that succeeds replaces them.\<close>

locale aal_dev_laws =
  fixes D :: "'d aal_dev" and contents :: "'d \<Rightarrow> nat \<Rightarrow> u8 list"
  assumes block_read: "aal_block_read D dev bs blk = (0, data) \<Longrightarrow> data = contents dev blk"
    and block_write: "aal_block_write D dev bs blk data = (0, dev') \<Longrightarrow>
      contents dev' = (contents dev)(blk := data)"

section \<open>The allocator\<close>

abbreviation (input) CRC_SIZE :: nat where "CRC_SIZE \<equiv> 4"

record alloc40 =
  al_state :: nat
  al_blksize :: nat
  al_bitmap :: reiser4_bitmap
  al_crc :: "u8 list"

definition ALLOC40_BLOCKNR :: "nat \<Rightarrow> nat" where
  "ALLOC40_BLOCKNR blksize = 65536 div blksize + 2"

definition alloc40_get_state :: "alloc40 \<Rightarrow> nat" where
  "alloc40_get_state alloc = al_state alloc"

definition alloc40_set_state :: "alloc40 \<Rightarrow> nat \<Rightarrow> alloc40" where
  "alloc40_set_state alloc state = alloc\<lparr>al_state := state\<rparr>"

text \<open>
  The loop over the bitmap blocks.  The state the callback changes is \<open>s\<close>; \<open>est\<close> is libaal's error
  code ESTRUCT, after which the traversal goes on.  A zero \<open>bpb\<close> would divide by zero.
\<close>

function alloc40_layout_loop ::
  "int \<Rightarrow> (nat \<Rightarrow> nat \<Rightarrow> 's \<Rightarrow> (int \<times> 's) option) \<Rightarrow> nat \<Rightarrow> nat \<Rightarrow> nat \<Rightarrow> int \<Rightarrow> 's \<Rightarrow> (int \<times> 's) option" where
  "alloc40_layout_loop est region_func bpb endb blk res s =
     (if blk < endb then
        (if bpb = 0 then None
         else case region_func blk 1 s of
           None \<Rightarrow> None
         | Some (r, s) \<Rightarrow>
             (let res = res OR r
              in if res \<noteq> 0 \<and> res \<noteq> - est then Some (res, s)
                 else alloc40_layout_loop est region_func bpb endb ((blk div bpb + 1) * bpb) res s))
      else Some (res, s))"
  by pat_completeness auto
termination
proof (relation "measure (\<lambda>(est, f, bpb, endb, blk, res, s). endb - blk)", goal_cases)
  case 2
  have "blk < (blk div bpb + 1) * bpb" if "bpb \<noteq> 0" for blk bpb :: nat
    using that dividend_less_div_times [of bpb blk] by (simp add: algebra_simps)
  then show ?case using 2 by (simp add: diff_less_mono2)
qed simp

declare alloc40_layout_loop.simps [simp del]

definition alloc40_bpb :: "alloc40 \<Rightarrow> nat" where
  "alloc40_bpb alloc = to_u32 ((int (al_blksize alloc) - int CRC_SIZE) * 8)"

definition alloc40_layout ::
  "int \<Rightarrow> alloc40 \<Rightarrow> (nat \<Rightarrow> nat \<Rightarrow> 's \<Rightarrow> (int \<times> 's) option) \<Rightarrow> 's \<Rightarrow> (int \<times> 's) option" where
  "alloc40_layout est alloc region_func s =
     (let bpb = alloc40_bpb alloc;
          start = ALLOC40_BLOCKNR (al_blksize alloc)
      in alloc40_layout_loop est region_func bpb (start + bm_total (al_bitmap alloc)) start 0 s)"

definition cb_fetch_bitmap :: "'d aal_dev \<Rightarrow> 'd \<Rightarrow> nat \<Rightarrow> nat \<Rightarrow> alloc40 \<Rightarrow> (int \<times> alloc40) option" where
  "cb_fetch_bitmap D dev start width alloc =
     (let res = aal_block_init D dev (al_blksize alloc) start in
      if res \<noteq> 0 then Some (res, alloc)
      else (let (res, data) = aal_block_read D dev (al_blksize alloc) start in
        if res \<noteq> 0 then Some (res, alloc)
        else
          (let size = to_u32 (int (al_blksize alloc) - int CRC_SIZE);
               bmap = bm_map (al_bitmap alloc);
               offset = start div size div 8;
               current = size * offset;
               free = to_u32 (int (bm_size (al_bitmap alloc)) - int current);
               chunk = (if free > size then size else free)
           in case read_range data CRC_SIZE chunk of None \<Rightarrow> None | Some bytes \<Rightarrow>
              (case write_range bmap current bytes of None \<Rightarrow> None | Some bmap \<Rightarrow>
              (case read_range data 0 4 of None \<Rightarrow> None | Some crc \<Rightarrow>
              (case write_range (al_crc alloc) (offset * CRC_SIZE) (le_bytes 4 (le_value crc)) of None \<Rightarrow> None
               | Some crc \<Rightarrow>
                   Some (res, alloc\<lparr>al_bitmap := (al_bitmap alloc)\<lparr>bm_map := bmap\<rparr>, al_crc := crc\<rparr>)))))))"

text \<open>The outer \<open>option\<close> is the memory fault, the inner one the pointer returned.\<close>

definition alloc40_open ::
  "int \<Rightarrow> aal_bits \<Rightarrow> 'd aal_dev \<Rightarrow> (nat \<Rightarrow> bool) \<Rightarrow> 'd \<Rightarrow> nat \<Rightarrow> nat \<Rightarrow> alloc40 option option" where
  "alloc40_open est L D ok device blksize blocks =
     (if \<not> ok 0 then Some None
      else (let mapsize = to_u32 (int blksize - int CRC_SIZE) in
        case reiser4_bitmap_create (\<lambda>i. ok (1 + i)) blocks of
          None \<Rightarrow> Some None
        | Some bitmap \<Rightarrow>
            (let crcsize = to_u32 (int (to_u32 (int (bm_size bitmap) + int mapsize - 1) div mapsize) * int CRC_SIZE)
             in if \<not> ok 3 then Some None
                else (let alloc = \<lparr>al_state = 0, al_blksize = blksize, al_bitmap = bitmap,
                                    al_crc = replicate crcsize 0\<rparr>
                      in case alloc40_layout est alloc (cb_fetch_bitmap D device) alloc of
                           None \<Rightarrow> None
                         | Some (res, alloc) \<Rightarrow>
                             if res \<noteq> 0 then Some None
                             else Some (Some (alloc\<lparr>al_bitmap := snd (reiser4_bitmap_calc_marked L (al_bitmap alloc))\<rparr>))))))"

definition alloc40_create :: "(nat \<Rightarrow> bool) \<Rightarrow> nat \<Rightarrow> nat \<Rightarrow> alloc40 option" where
  "alloc40_create ok blksize blocks =
     (if \<not> ok 0 then None
      else (let mapsize = to_u32 (int blksize - int CRC_SIZE) in
        case reiser4_bitmap_create (\<lambda>i. ok (1 + i)) blocks of
          None \<Rightarrow> None
        | Some bitmap \<Rightarrow>
            (let crcsize = to_u32 (int (bm_size bitmap div mapsize) * int CRC_SIZE)
             in if \<not> ok 3 then None
                else Some \<lparr>al_state = 1, al_blksize = blksize, al_bitmap = bitmap,
                           al_crc = replicate crcsize 0\<rparr>)))"

definition alloc40_assign :: "alloc40 \<Rightarrow> reiser4_bitmap \<Rightarrow> alloc40 option" where
  "alloc40_assign alloc bitmap =
     (case read_range (bm_map bitmap) 0 (bm_size bitmap) of None \<Rightarrow> None | Some bytes \<Rightarrow>
      (case write_range (bm_map (al_bitmap alloc)) 0 bytes of None \<Rightarrow> None | Some bmap \<Rightarrow>
         Some (alloc\<lparr>al_bitmap := (al_bitmap alloc)\<lparr>bm_map := bmap, bm_marked := bm_marked bitmap\<rparr>,
                     al_state := al_state alloc OR 1\<rparr>)))"

definition alloc40_extract :: "alloc40 \<Rightarrow> reiser4_bitmap \<Rightarrow> reiser4_bitmap option" where
  "alloc40_extract alloc bitmap =
     (case read_range (bm_map (al_bitmap alloc)) 0 (bm_size bitmap) of None \<Rightarrow> None | Some bytes \<Rightarrow>
      (case write_range (bm_map bitmap) 0 bytes of None \<Rightarrow> None | Some bmap \<Rightarrow>
         Some (bitmap\<lparr>bm_map := bmap, bm_marked := bm_marked (al_bitmap alloc)\<rparr>)))"

text \<open>\<open>ok\<close> says whether the temporary buffer can be allocated.\<close>

definition cb_sync_bitmap ::
  "'d aal_dev \<Rightarrow> bool \<Rightarrow> alloc40 \<Rightarrow> nat \<Rightarrow> nat \<Rightarrow> 'd \<Rightarrow> (int \<times> 'd) option" where
  "cb_sync_bitmap D ok alloc start width dev =
     (let res = aal_block_init D dev (al_blksize alloc) start in
      if res \<noteq> 0 then Some (res, dev)
      else
        (let block = replicate (al_blksize alloc) 0xff;
             size = to_u32 (int (al_blksize alloc) - int CRC_SIZE);
             bmap = bm_map (al_bitmap alloc);
             current = size * (start div size div 8);
             left = int (bm_size (al_bitmap alloc)) - int current;
             chunk = (if left > to_s32 (int size) then size else to_u32 left)
         in case read_range bmap current chunk of None \<Rightarrow> None | Some bytes \<Rightarrow>
            (case write_range block CRC_SIZE bytes of None \<Rightarrow> None | Some block \<Rightarrow>
               if chunk < size \<and> \<not> ok then Some (- ENOMEM, dev)
               else
                 (let adler = (if chunk < size then aux_adler32 0 (bytes @ replicate (size - chunk) 0xff)
                               else aux_adler32 0 bytes)
                  in case write_range block 0 (le_bytes 4 (unat adler)) of None \<Rightarrow> None
                     | Some block \<Rightarrow> Some (aal_block_write D dev (al_blksize alloc) start block)))))"

definition alloc40_sync ::
  "int \<Rightarrow> 'd aal_dev \<Rightarrow> bool \<Rightarrow> alloc40 \<Rightarrow> 'd \<Rightarrow> (int \<times> 'd \<times> alloc40) option" where
  "alloc40_sync est D ok alloc dev =
     (case alloc40_layout est alloc (cb_sync_bitmap D ok alloc) dev of
        None \<Rightarrow> None
      | Some (res, dev) \<Rightarrow>
          if res \<noteq> 0 then Some (res, dev, alloc)
          else Some (res, dev, alloc\<lparr>al_state := unset_bit 0 (al_state alloc)\<rparr>))"

definition alloc40_occupy :: "aal_bits \<Rightarrow> alloc40 \<Rightarrow> nat \<Rightarrow> nat \<Rightarrow> alloc40" where
  "alloc40_occupy L alloc start count =
     alloc\<lparr>al_bitmap := reiser4_bitmap_mark_region L (al_bitmap alloc) start count,
           al_state := al_state alloc OR 1\<rparr>"

definition alloc40_release :: "aal_bits \<Rightarrow> alloc40 \<Rightarrow> nat \<Rightarrow> nat \<Rightarrow> alloc40" where
  "alloc40_release L alloc start count =
     alloc\<lparr>al_bitmap := reiser4_bitmap_clear_region L (al_bitmap alloc) start count,
           al_state := al_state alloc OR 1\<rparr>"

text \<open>Returns the number of blocks found, the new value of \<^verbatim>\<open>*start\<close> and the allocator.\<close>

definition alloc40_allocate :: "aal_bits \<Rightarrow> alloc40 \<Rightarrow> nat \<Rightarrow> nat \<Rightarrow> nat \<times> nat \<times> alloc40" where
  "alloc40_allocate L alloc start count =
     (let (found, start) = reiser4_bitmap_find_region L (al_bitmap alloc) start count False
      in if found > 0 then
           (found, start, alloc\<lparr>al_bitmap := reiser4_bitmap_mark_region L (al_bitmap alloc) start found,
                                al_state := al_state alloc OR 1\<rparr>)
         else (found, start, alloc))"

definition alloc40_free :: "alloc40 \<Rightarrow> nat" where
  "alloc40_free alloc = reiser4_bitmap_cleared (al_bitmap alloc)"

definition alloc40_used :: "alloc40 \<Rightarrow> nat" where
  "alloc40_used alloc = reiser4_bitmap_marked (al_bitmap alloc)"

definition alloc40_occupied :: "aal_bits \<Rightarrow> alloc40 \<Rightarrow> nat \<Rightarrow> nat \<Rightarrow> bool" where
  "alloc40_occupied L alloc start count = reiser4_bitmap_test_region L (al_bitmap alloc) start count True"

definition alloc40_available :: "aal_bits \<Rightarrow> alloc40 \<Rightarrow> nat \<Rightarrow> nat \<Rightarrow> bool" where
  "alloc40_available L alloc start count = reiser4_bitmap_test_region L (al_bitmap alloc) start count False"

text \<open>The check of one bitmap block; the warning callback only prints.\<close>

definition cb_valid_block :: "int \<Rightarrow> bool \<Rightarrow> alloc40 \<Rightarrow> nat \<Rightarrow> nat \<Rightarrow> 's \<Rightarrow> (int \<times> 's) option" where
  "cb_valid_block est ok alloc start width s =
     (let size = to_u32 (int (al_blksize alloc) - int CRC_SIZE);
          bmap = bm_map (al_bitmap alloc);
          offset = start div size div 8;
          current = offset * size
      in case read_range (al_crc alloc) (offset * CRC_SIZE) 4 of None \<Rightarrow> None | Some crc \<Rightarrow>
         (let ladler = (word_of_nat (le_value crc) :: u32);
              free = to_u32 (int (bm_size (al_bitmap alloc)) - int current);
              chunk = (if free > size then size else free)
          in if chunk < size \<and> \<not> ok then Some (- ENOMEM, s)
             else case read_range bmap current chunk of None \<Rightarrow> None | Some bytes \<Rightarrow>
               (let cadler = (if chunk < size then aux_adler32 0 (bytes @ replicate (size - chunk) 0xff)
                              else aux_adler32 0 bytes)
                in Some (if ladler \<noteq> cadler then - est else 0, s))))"

definition alloc40_valid :: "int \<Rightarrow> bool \<Rightarrow> alloc40 \<Rightarrow> int option" where
  "alloc40_valid est ok alloc = map_option fst (alloc40_layout est alloc (cb_valid_block est ok alloc) ())"

definition alloc40_region :: "alloc40 \<Rightarrow> nat \<Rightarrow> (nat \<Rightarrow> nat \<Rightarrow> 's \<Rightarrow> int \<times> 's) \<Rightarrow> 's \<Rightarrow> int \<times> 's" where
  "alloc40_region alloc blk region_func s =
     (let size = alloc40_bpb alloc;
          start = (blk div size) * size;
          size = (if start + size > bm_total (al_bitmap alloc)
                  then to_u64 (int (bm_total (al_bitmap alloc)) - int start) else size)
      in region_func start size s)"

section \<open>Repair, packing and unpacking\<close>

definition cb_check_layout ::
  "int \<Rightarrow> aal_bits \<Rightarrow> bool \<Rightarrow> alloc40 \<Rightarrow> (nat \<Rightarrow> nat \<Rightarrow> 's \<Rightarrow> int \<times> 's) \<Rightarrow> nat \<Rightarrow> nat \<Rightarrow> 's \<Rightarrow> (int \<times> 's) option" where
  "cb_check_layout est L ok alloc func start width s =
     (case cb_valid_block est ok alloc start width s of
        None \<Rightarrow> None
      | Some (res, s) \<Rightarrow>
          if res \<noteq> 0 \<and> res \<noteq> - est then Some (res, s)
          else if res \<noteq> 0 \<or> \<not> alloc40_occupied L alloc start 1 then
            (let (res, s) = func start width s in if res \<noteq> 0 then Some (res, s) else Some (0, s))
          else Some (0, s))"

definition alloc40_layout_bad ::
  "int \<Rightarrow> aal_bits \<Rightarrow> bool \<Rightarrow> alloc40 \<Rightarrow> (nat \<Rightarrow> nat \<Rightarrow> 's \<Rightarrow> int \<times> 's) \<Rightarrow> 's \<Rightarrow> (int \<times> 's) option" where
  "alloc40_layout_bad est L ok alloc func s =
     alloc40_layout est alloc (cb_check_layout est L ok alloc func) s"

definition cb_pack_bitmap :: "'s aal_streams \<Rightarrow> alloc40 \<Rightarrow> nat \<Rightarrow> nat \<Rightarrow> 's \<Rightarrow> (int \<times> 's) option" where
  "cb_pack_bitmap S alloc start width stream =
     (let size = to_u32 (int (al_blksize alloc) - int CRC_SIZE);
          offset = to_u32 (int (start div size div 8));
          bmap = bm_map (al_bitmap alloc);
          current = size * (start div size div 8);
          free = to_u32 (int (bm_size (al_bitmap alloc)) - int current);
          chunk = (if free > size then size else free)
      in case read_range (al_crc alloc) (to_u32 (int offset * int CRC_SIZE)) CRC_SIZE of None \<Rightarrow> None | Some crc \<Rightarrow>
         (let stream = aal_stream_write S stream crc
          in case read_range bmap current chunk of None \<Rightarrow> None | Some bytes \<Rightarrow>
               Some (0, aal_stream_write S stream bytes)))"

definition cb_unpack_bitmap ::
  "'s aal_streams \<Rightarrow> nat \<Rightarrow> nat \<Rightarrow> alloc40 \<times> 's \<Rightarrow> (int \<times> alloc40 \<times> 's) option" where
  "cb_unpack_bitmap S start width = (\<lambda>(alloc, stream).
     (let size = to_u32 (int (al_blksize alloc) - int CRC_SIZE);
          offset = to_u32 (int (start div size div 8));
          bmap = bm_map (al_bitmap alloc);
          current = size * (start div size div 8);
          free = to_u32 (int (bm_size (al_bitmap alloc)) - int current);
          chunk = (if free > size then size else free);
          (crc, stream) = aal_stream_read S stream CRC_SIZE
      in case write_range (al_crc alloc) (to_u32 (int offset * int CRC_SIZE)) crc of None \<Rightarrow> None | Some crcs \<Rightarrow>
         (let alloc = alloc\<lparr>al_crc := crcs\<rparr>
          in if length crc \<noteq> CRC_SIZE then Some (- EIO, alloc, stream)
             else (let (bytes, stream) = aal_stream_read S stream chunk
                   in case write_range bmap current bytes of None \<Rightarrow> None | Some bmap \<Rightarrow>
                      (let alloc = alloc\<lparr>al_bitmap := (al_bitmap alloc)\<lparr>bm_map := bmap\<rparr>\<rparr>
                       in if to_s32 (int (length bytes)) \<noteq> to_s32 (int chunk) then Some (- EIO, alloc, stream)
                          else Some (0, alloc, stream))))))"

definition alloc40_pack :: "int \<Rightarrow> 's aal_streams \<Rightarrow> alloc40 \<Rightarrow> 's \<Rightarrow> (int \<times> 's) option" where
  "alloc40_pack est S alloc stream =
     (let stream = aal_stream_write S stream (le_bytes 8 (bm_total (al_bitmap alloc)))
      in alloc40_layout est alloc (cb_pack_bitmap S alloc) stream)"

definition alloc40_unpack ::
  "int \<Rightarrow> aal_bits \<Rightarrow> 's aal_streams \<Rightarrow> (nat \<Rightarrow> bool) \<Rightarrow> nat \<Rightarrow> 's \<Rightarrow> (alloc40 option \<times> 's) option" where
  "alloc40_unpack est L S ok blksize stream =
     (if \<not> ok 0 then Some (None, stream)
      else (let (bytes, stream) = aal_stream_read S stream 8 in
        if length bytes \<noteq> 8 then Some (None, stream)
        else case reiser4_bitmap_create (\<lambda>i. ok (1 + i)) (le_value bytes) of
          None \<Rightarrow> Some (None, stream)
        | Some bitmap \<Rightarrow>
            (let mapsize = to_u32 (int blksize - int CRC_SIZE);
                 crcsize = to_u32 (int (to_u32 (int (bm_size bitmap) + int mapsize - 1) div mapsize) * int CRC_SIZE)
             in if \<not> ok 3 then Some (None, stream)
                else (let alloc = \<lparr>al_state = 0, al_blksize = blksize, al_bitmap = bitmap,
                                    al_crc = replicate crcsize 0\<rparr>
                      in case alloc40_layout est alloc (cb_unpack_bitmap S) (alloc, stream) of
                           None \<Rightarrow> None
                         | Some (res, alloc, stream) \<Rightarrow>
                             if res \<noteq> 0 then Some (None, stream)
                             else Some (Some (alloc\<lparr>al_state := 1,
                                  al_bitmap := snd (reiser4_bitmap_calc_marked L (al_bitmap alloc))\<rparr>), stream)))))"

definition alloc40_check_struct :: "int \<Rightarrow> bool \<Rightarrow> alloc40 \<Rightarrow> nat \<Rightarrow> (int \<times> alloc40) option" where
  "alloc40_check_struct est ok alloc mode =
     (case alloc40_layout est alloc (cb_valid_block est ok alloc) () of
        None \<Rightarrow> None
      | Some (res, _) \<Rightarrow>
          if res \<noteq> - est then Some (res, alloc)
          else if mode = RM_CHECK then Some (RE_FIXABLE, alloc)
          else Some (0, alloc\<lparr>al_state := 1\<rparr>))"

section \<open>The blocks the layout visits\<close>

function layout_list :: "nat \<Rightarrow> nat \<Rightarrow> nat \<Rightarrow> nat list" where
  "layout_list bpb endb blk =
     (if blk < endb \<and> 0 < bpb then blk # layout_list bpb endb ((blk div bpb + 1) * bpb) else [])"
  by pat_completeness auto
termination
proof (relation "measure (\<lambda>(bpb, endb, blk). endb - blk)", goal_cases)
  case (2 bpb endb blk)
  then have "blk < (blk div bpb + 1) * bpb"
    using dividend_less_div_times [of bpb blk] by (simp add: algebra_simps)
  then show ?case using 2 by (simp add: diff_less_mono2)
qed simp

declare layout_list.simps [simp del]

fun run_blocks ::
  "int \<Rightarrow> (nat \<Rightarrow> nat \<Rightarrow> 's \<Rightarrow> (int \<times> 's) option) \<Rightarrow> nat list \<Rightarrow> int \<Rightarrow> 's \<Rightarrow> (int \<times> 's) option" where
  "run_blocks est f [] res s = Some (res, s)"
| "run_blocks est f (b # bs) res s =
     (case f b 1 s of None \<Rightarrow> None
      | Some (r, s) \<Rightarrow> if res OR r \<noteq> 0 \<and> res OR r \<noteq> - est then Some (res OR r, s)
                       else run_blocks est f bs (res OR r) s)"

lemma layout_loop_run:
  "0 < bpb \<Longrightarrow> alloc40_layout_loop est f bpb endb blk res s = run_blocks est f (layout_list bpb endb blk) res s"
proof (induction bpb endb blk arbitrary: res s rule: layout_list.induct)
  case (1 bpb endb blk)
  show ?case
    using 1 by (subst alloc40_layout_loop.simps, subst layout_list.simps)
      (auto simp: Let_def split: option.split prod.split)
qed

lemma layout_list_multiples:
  "0 < bpb \<Longrightarrow> layout_list bpb endb (k * bpb) = map (\<lambda>j. j * bpb) [k..<(endb + bpb - 1) div bpb]"
proof (induction "(endb + bpb - 1) div bpb - k" arbitrary: k)
  case 0
  then have "\<not> k < (endb + bpb - 1) div bpb" by simp
  then have "(endb + bpb - 1) div bpb < k + 1" by simp
  then have "endb + bpb - 1 < (k + 1) * bpb" using 0(2) div_less_iff_less_mult by blast
  then have "\<not> k * bpb < endb" using 0(2) by (simp add: algebra_simps)
  then show ?case using \<open>\<not> k < _\<close> by (subst layout_list.simps) simp
next
  case (Suc d)
  then have k: "k < (endb + bpb - 1) div bpb" by simp
  then have "(k + 1) * bpb \<le> endb + bpb - 1" using Suc.prems
    by (metis Suc_eq_plus1 Suc_leI less_eq_div_iff_mult_less_eq)
  then have "k * bpb < endb" using Suc.prems by (simp add: algebra_simps)
  moreover have "(k * bpb div bpb + 1) * bpb = Suc k * bpb" using Suc.prems by simp
  ultimately show ?case
    using Suc.hyps(1) [of "Suc k"] Suc.hyps(2) Suc.prems k
    by (subst layout_list.simps) (simp add: upt_conv_Cons)
qed

lemma layout_list_start:
  assumes "blk < bpb" "blk < endb"
  shows "layout_list bpb endb blk = blk # map (\<lambda>j. j * bpb) [1..<(endb + bpb - 1) div bpb]"
  using assms layout_list_multiples [of bpb endb 1] by (subst layout_list.simps) simp

text \<open>A traversal that returns 0 is a sequence of callbacks that all returned 0.\<close>

fun ok_steps :: "(nat \<Rightarrow> nat \<Rightarrow> 's \<Rightarrow> (int \<times> 's) option) \<Rightarrow> nat list \<Rightarrow> 's \<Rightarrow> 's option" where
  "ok_steps f [] s = Some s"
| "ok_steps f (b # bs) s =
     (case f b 1 s of None \<Rightarrow> None | Some (r, s) \<Rightarrow> if r = 0 then ok_steps f bs s else None)"

lemma run_blocks_nonzero:
  "res \<noteq> 0 \<Longrightarrow> run_blocks est f bs res s = Some (r', s') \<Longrightarrow> r' \<noteq> 0"
proof (induction bs arbitrary: res s)
  case (Cons b bs)
  obtain r t where f: "f b 1 s = Some (r, t)" using Cons.prems(2) by (auto split: option.splits)
  have nz: "res OR r \<noteq> 0" using Cons.prems(1) by (simp add: or_eq_0_iff)
  show ?case using Cons.IH [OF nz, of t] Cons.prems(2) f nz by (auto split: if_splits)
qed simp

lemma run_blocks_ok: "run_blocks est f bs 0 s = Some (0, s') \<longleftrightarrow> ok_steps f bs s = Some s'"
proof (induction bs arbitrary: s)
  case (Cons b bs)
  show ?case
  proof (cases "f b 1 s")
    case (Some p)
    obtain r t where p: "p = (r, t)" by (cases p)
    show ?thesis
      using Cons.IH [of t] run_blocks_nonzero [of r est f bs t 0 s'] Some p
      by (cases "r = 0") auto
  qed simp
qed simp

section \<open>Geometry\<close>

definition al_size :: "alloc40 \<Rightarrow> nat" where
  "al_size al = al_blksize al - 4"

definition al_start :: "alloc40 \<Rightarrow> nat" where
  "al_start al = ALLOC40_BLOCKNR (al_blksize al)"

definition al_geom :: "alloc40 \<Rightarrow> bool" where
  "al_geom al \<longleftrightarrow> 512 \<le> al_blksize al \<and> al_blksize al \<le> 8192 \<and> bm_shape (al_bitmap al) \<and> 0 < bm_total (al_bitmap al)"

definition layout_blocks :: "alloc40 \<Rightarrow> nat list" where
  "layout_blocks al = layout_list (al_size al * 8) (al_start al + bm_total (al_bitmap al)) (al_start al)"

text \<open>No bitmap block lies beyond the end of the file system.\<close>

definition layout_fits :: "alloc40 \<Rightarrow> bool" where
  "layout_fits al \<longleftrightarrow> (\<forall>b \<in> set (layout_blocks al). al_start al < b \<longrightarrow> b < bm_total (al_bitmap al))"

lemma al_start_bounds: "al_geom al \<Longrightarrow> al_start al \<le> 130 \<and> 10 \<le> al_start al"
proof -
  assume "al_geom al"
  then have b: "512 \<le> al_blksize al" "al_blksize al \<le> 8192" by (auto simp: al_geom_def)
  have "65536 div al_blksize al \<le> 65536 div 512" using b(1) by (intro div_le_mono2) auto
  moreover have "65536 div 8192 \<le> 65536 div al_blksize al" using b by (intro div_le_mono2) auto
  ultimately show ?thesis by (simp add: al_start_def ALLOC40_BLOCKNR_def)
qed

lemma al_size_bounds: "al_geom al \<Longrightarrow> 508 \<le> al_size al \<and> al_size al \<le> 8188"
  by (auto simp: al_geom_def al_size_def)

lemma al_size_u32:
  assumes "al_geom al"
  shows "to_u32 (int (al_blksize al) - 4) = al_size al" and "alloc40_bpb al = al_size al * 8"
proof -
  have b: "512 \<le> al_blksize al" "al_blksize al \<le> 8192" using assms by (auto simp: al_geom_def)
  show "to_u32 (int (al_blksize al) - 4) = al_size al"
    using to_u32_diff [of 4 "al_blksize al"] b by (simp add: al_size_def)
  show "alloc40_bpb al = al_size al * 8"
    using to_u32_id [of "(int (al_blksize al) - 4) * 8"] b by (simp add: alloc40_bpb_def al_size_def)
qed

lemma layout_eq:
  assumes "al_geom al"
  shows "alloc40_layout est al f s = run_blocks est f (layout_blocks al) 0 s"
  using al_size_bounds [OF assms] al_size_u32(2) [OF assms]
  by (simp add: alloc40_layout_def Let_def layout_loop_run layout_blocks_def al_start_def)

lemma layout_blocks_eq:
  assumes "al_geom al"
  shows "layout_blocks al = al_start al #
    map (\<lambda>j. j * (al_size al * 8)) [1..<(al_start al + bm_total (al_bitmap al) + al_size al * 8 - 1) div (al_size al * 8)]"
  unfolding layout_blocks_def
  using al_size_bounds [OF assms] al_start_bounds [OF assms] assms
  by (intro layout_list_start) (auto simp: al_geom_def)

text \<open>The index of the chunk a bitmap block holds.\<close>

definition al_index :: "alloc40 \<Rightarrow> nat \<Rightarrow> nat" where
  "al_index al blk = blk div al_size al div 8"

lemma al_index_start: "al_geom al \<Longrightarrow> al_index al (al_start al) = 0"
  using al_size_bounds [of al] al_start_bounds [of al] by (simp add: al_index_def)

lemma al_index_mult: "al_geom al \<Longrightarrow> al_index al (k * (al_size al * 8)) = k"
  using al_size_bounds [of al] by (simp add: al_index_def mult.commute mult.left_commute)

lemma al_index_inside:
  assumes "al_geom al" "layout_fits al" "b \<in> set (layout_blocks al)"
  shows "al_index al b * al_size al < length (bm_map (al_bitmap al))"
proof -
  have sh: "bm_shape (al_bitmap al)" "0 < bm_total (al_bitmap al)" using assms(1) by (auto simp: al_geom_def)
  consider "b = al_start al" | k where "1 \<le> k" "b = k * (al_size al * 8)"
    using assms(3) unfolding layout_blocks_eq [OF assms(1)] by auto
  then show ?thesis
  proof cases
    case 1
    then show ?thesis using al_index_start [OF assms(1)] sh by (auto simp: bm_shape_def)
  next
    case 2
    have "1 * (al_size al * 8) \<le> b" unfolding 2(2) using 2(1) by (rule mult_le_mono1)
    then have "al_start al < b"
      using al_size_bounds [OF assms(1)] al_start_bounds [OF assms(1)] by simp
    then have "b < bm_total (al_bitmap al)" using assms(2,3) by (auto simp: layout_fits_def)
    then show ?thesis using 2 sh al_index_mult [OF assms(1)] by (auto simp: bm_shape_def)
  qed
qed

text \<open>Every byte of the map is in the chunk of a visited block.\<close>

lemma al_index_covers:
  assumes "al_geom al" "i < length (bm_map (al_bitmap al))"
  shows "\<exists>b \<in> set (layout_blocks al). al_index al b = i div al_size al"
proof -
  let ?k = "i div al_size al" and ?bpb = "al_size al * 8" and ?tot = "bm_total (al_bitmap al)"
  have sh: "bm_shape (al_bitmap al)" using assms(1) by (auto simp: al_geom_def)
  show ?thesis
  proof (cases "?k = 0")
    case True
    then show ?thesis using al_index_start [OF assms(1)] by (auto simp: layout_blocks_eq [OF assms(1)])
  next
    case False
    have "?k * al_size al \<le> i" by simp
    then have "?k * al_size al + 1 \<le> length (bm_map (al_bitmap al))" using assms(2) by linarith
    then have "8 * (?k * al_size al + 1) \<le> 8 * length (bm_map (al_bitmap al))" by (rule mult_le_mono2)
    then have "?k * ?bpb + 8 \<le> 8 * length (bm_map (al_bitmap al))" by (simp add: algebra_simps)
    then have "?k * ?bpb < ?tot" using sh by (simp add: bm_shape_def)
    then have "(?k + 1) * ?bpb \<le> al_start al + ?tot + ?bpb - 1" using al_start_bounds [OF assms(1)] by (simp add: algebra_simps)
    then have "?k + 1 \<le> (al_start al + ?tot + ?bpb - 1) div ?bpb"
      using al_size_bounds [OF assms(1)] by (subst less_eq_div_iff_mult_less_eq) auto
    then have "?k * ?bpb \<in> set (layout_blocks al)"
      unfolding layout_blocks_eq [OF assms(1)] using False by auto
    then show ?thesis using al_index_mult [OF assms(1), of ?k] by blast
  qed
qed


section \<open>Bitmap blocks\<close>

definition al_chunk :: "alloc40 \<Rightarrow> nat \<Rightarrow> u8 list" where
  "al_chunk al k = take (al_size al) (drop (k * al_size al) (bm_map (al_bitmap al)))"

definition al_padded :: "alloc40 \<Rightarrow> nat \<Rightarrow> u8 list" where
  "al_padded al k = al_chunk al k @ replicate (al_size al - length (al_chunk al k)) 0xff"

definition al_image :: "alloc40 \<Rightarrow> nat \<Rightarrow> u8 list" where
  "al_image al k = le_bytes 4 (unat (aux_adler32 0 (al_padded al k))) @ al_padded al k"

lemma al_chunk_length:
  "length (al_chunk al k) = min (al_size al) (length (bm_map (al_bitmap al)) - k * al_size al)"
  by (simp add: al_chunk_def)

lemma read_chunk:
  assumes "al_geom al" "k * al_size al \<le> length (bm_map (al_bitmap al))"
  shows "read_range (bm_map (al_bitmap al)) (al_size al * k) (length (al_chunk al k)) = Some (al_chunk al k)"
  using assms(2) by (auto simp: read_range_def al_chunk_length mult.commute al_chunk_def min_def)

lemma free_chunk:
  assumes "al_geom al" "k * al_size al \<le> length (bm_map (al_bitmap al))"
  defines "free \<equiv> to_u32 (int (bm_size (al_bitmap al)) - int (al_size al * k))"
  shows "(if free > al_size al then al_size al else free) = length (al_chunk al k)"
proof -
  have "bm_size (al_bitmap al) = length (bm_map (al_bitmap al))" "length (bm_map (al_bitmap al)) < 536870912"
    using assms(1) by (auto simp: al_geom_def bm_shape_def)
  then have "free = length (bm_map (al_bitmap al)) - al_size al * k"
    unfolding free_def using assms(2) to_u32_diff [of "al_size al * k" "length (bm_map (al_bitmap al))"]
    by (simp add: mult.commute)
  then show ?thesis by (auto simp: al_chunk_length mult.commute)
qed

lemma signed_chunk:
  assumes "al_geom al" "k * al_size al \<le> length (bm_map (al_bitmap al))"
  defines "left \<equiv> int (bm_size (al_bitmap al)) - int (al_size al * k)"
  shows "(if left > to_s32 (int (al_size al)) then al_size al else to_u32 left) = length (al_chunk al k)"
proof -
  have sh: "bm_size (al_bitmap al) = length (bm_map (al_bitmap al))" "length (bm_map (al_bitmap al)) < 536870912"
    using assms(1) by (auto simp: al_geom_def bm_shape_def)
  have "to_s32 (int (al_size al)) = int (al_size al)"
    using al_size_bounds [OF assms(1)] by (intro to_s32_id) auto
  moreover have "left = int (length (bm_map (al_bitmap al)) - k * al_size al)"
    unfolding left_def sh(1) using assms(2) by (simp add: mult.commute)
  moreover have "to_u32 (int (length (bm_map (al_bitmap al)) - k * al_size al)) = length (bm_map (al_bitmap al)) - k * al_size al"
    using sh(2) by (intro to_u32_nat) linarith
  ultimately show ?thesis by (auto simp: al_chunk_length)
qed

lemma adler_chunk_padded:
  "(if length (al_chunk al k) < al_size al
    then aux_adler32 0 (al_chunk al k @ replicate (al_size al - length (al_chunk al k)) 0xff)
    else aux_adler32 0 (al_chunk al k)) = aux_adler32 0 (al_padded al k)"
  by (simp add: al_padded_def)

lemma al_padded_length [simp]: "length (al_padded al k) = al_size al"
  by (simp add: al_padded_def al_chunk_length)

lemma sync_step:
  assumes "al_geom al" "k = al_index al blk" "k * al_size al \<le> length (bm_map (al_bitmap al))"
  shows "cb_sync_bitmap D ok al blk w dev =
    (let res = aal_block_init D dev (al_blksize al) blk in
     if res \<noteq> 0 then Some (res, dev)
     else if length (al_chunk al k) < al_size al \<and> \<not> ok then Some (- 12, dev)
     else Some (aal_block_write D dev (al_blksize al) blk (al_image al k)))"
proof -
  have size: "al_blksize al = al_size al + 4" using assms(1) by (simp add: al_geom_def al_size_def)
  have k: "blk div al_size al div 8 = k" using assms(2) by (simp add: al_index_def)
  have w1: "write_range (replicate (al_blksize al) 0xff) 4 (al_chunk al k) =
      Some (replicate 4 0xff @ al_padded al k)"
    unfolding size by (auto simp: write_range_def al_padded_def al_chunk_length)
  have w2: "write_range (replicate 4 0xff @ al_padded al k) 0 (le_bytes 4 v) = Some (le_bytes 4 v @ al_padded al k)" for v
    by (simp add: write_range_def)
  show ?thesis
    unfolding cb_sync_bitmap_def Let_def al_size_u32 [OF assms(1), simplified] of_nat_numeral
      k signed_chunk [OF assms(1,3)] read_chunk [OF assms(1,3)] option.case w1 adler_chunk_padded w2
    by (simp add: al_image_def)
qed


text \<open>What a traversal that wrote every bitmap block leaves on the device.\<close>

lemma sync_all:
  assumes "al_geom al" "aal_dev_laws D contents"
    and "ok_steps (cb_sync_bitmap D ok al) bs dev = Some dev'"
    and "\<forall>b \<in> set bs. al_index al b * al_size al \<le> length (bm_map (al_bitmap al))"
  shows "(\<forall>b \<in> set bs. contents dev' b = al_image al (al_index al b)) \<and>
    (\<forall>b. b \<notin> set bs \<longrightarrow> contents dev' b = contents dev b)"
  using assms(3,4)
proof (induction bs arbitrary: dev)
  case (Cons b bs)
  let ?k = "al_index al b"
  obtain d where d: "cb_sync_bitmap D ok al b 1 dev = Some (0, d)" "ok_steps (cb_sync_bitmap D ok al) bs d = Some dev'"
    using Cons.prems(1) by (auto split: option.splits if_splits)
  have "aal_block_write D dev (al_blksize al) b (al_image al ?k) = (0, d)"
    using d(1) sync_step [OF assms(1), of ?k b D ok 1 dev] Cons.prems(2) by (auto simp: Let_def split: if_splits)
  then have "contents d = (contents dev)(b := al_image al ?k)"
    by (rule aal_dev_laws.block_write [OF assms(2)])
  then show ?case using Cons.IH [OF d(2)] Cons.prems(2) by auto
qed simp

text \<open>What reading the blocks back does to an allocator of the same geometry.\<close>

definition al_like :: "alloc40 \<Rightarrow> alloc40 \<Rightarrow> bool" where
  "al_like al al' \<longleftrightarrow> al_geom al \<and> al_geom al' \<and> al_blksize al' = al_blksize al \<and>
     bm_total (al_bitmap al') = bm_total (al_bitmap al) \<and>
     length (bm_map (al_bitmap al')) = length (bm_map (al_bitmap al))"

lemma al_like_eqs:
  assumes "al_like al al'"
  shows "al_size al' = al_size al" "al_index al' b = al_index al b" "length (al_chunk al' k) = length (al_chunk al k)"
    "al_start al' = al_start al" "layout_blocks al' = layout_blocks al"
  using assms by (auto simp: al_like_def al_size_def al_index_def al_chunk_length al_start_def layout_blocks_def)

definition al_agree :: "alloc40 \<Rightarrow> nat set \<Rightarrow> alloc40 \<Rightarrow> bool" where
  "al_agree al K al' \<longleftrightarrow>
     (\<forall>i < length (bm_map (al_bitmap al)). i div al_size al \<in> K \<longrightarrow> bm_map (al_bitmap al') ! i = bm_map (al_bitmap al) ! i) \<and>
     (\<forall>k \<in> K. read_range (al_crc al') (4 * k) 4 = Some (le_bytes 4 (unat (aux_adler32 0 (al_padded al k)))))"

lemma read_after_write:
  "write_range xs off ys = Some zs \<Longrightarrow> length ys = n \<Longrightarrow> read_range zs off n = Some ys"
  by (auto simp: write_range_def read_range_def split: if_splits)

lemma read_after_write_other:
  assumes "write_range xs off ys = Some zs" "read_range xs off' n = Some v" "off' + n \<le> off \<or> off + length ys \<le> off'"
  shows "read_range zs off' n = Some v"
proof -
  have len: "length zs = length xs" "off' + n \<le> length xs" "length v = n"
    using assms(1,2) by (auto simp: write_range_length read_range_def split: if_splits)
  have "take n (drop off' zs) = v"
  proof (rule nth_equalityI)
    fix i assume "i < length (take n (drop off' zs))"
    then have i: "i < n" by simp
    have "zs ! (off' + i) = xs ! (off' + i)"
      using write_range_nth [OF assms(1), of "off' + i"] assms(3) i len by auto
    then show "take n (drop off' zs) ! i = v ! i" using read_range_nth [OF assms(2) i] i len by simp
  qed (use len in simp)
  then show ?thesis using len by (simp add: read_range_def)
qed

lemma fetch_step:
  assumes "al_like al al'" "aal_dev_laws D contents" "k = al_index al b"
    and "k * al_size al \<le> length (bm_map (al_bitmap al))"
    and "contents dev b = al_image al k"
    and "cb_fetch_bitmap D dev b w al' = Some (0, al2)"
  shows "\<exists>m c. write_range (bm_map (al_bitmap al')) (al_size al * k) (al_chunk al k) = Some m \<and>
    write_range (al_crc al') (4 * k) (le_bytes 4 (unat (aux_adler32 0 (al_padded al k)))) = Some c \<and>
    al2 = al'\<lparr>al_bitmap := (al_bitmap al')\<lparr>bm_map := m\<rparr>, al_crc := c\<rparr>"
proof -
  have geom': "al_geom al'" using assms(1) by (simp add: al_like_def)
  have k: "b div al_size al div 8 = k" using assms(3) by (simp add: al_index_def)
  have le': "k * al_size al' \<le> length (bm_map (al_bitmap al'))"
    using assms(1,4) al_like_eqs(1) [OF assms(1)] by (simp add: al_like_def)
  note free = free_chunk [OF geom' le', unfolded al_like_eqs [OF assms(1)]]
  have r1: "read_range (al_image al k) 4 (length (al_chunk al k)) = Some (al_chunk al k)"
    by (auto simp: read_range_def al_image_def al_padded_def al_chunk_length)
  have r2: "read_range (al_image al k) 0 4 = Some (le_bytes 4 (unat (aux_adler32 0 (al_padded al k))))"
    by (simp add: read_range_def al_image_def)
  obtain res data where rd: "aal_block_read D dev (al_blksize al') b = (res, data)" by (cases "aal_block_read D dev (al_blksize al') b")
  have init: "aal_block_init D dev (al_blksize al') b = 0"
    using assms(6) by (cases "aal_block_init D dev (al_blksize al') b = 0") (simp_all add: cb_fetch_bitmap_def)
  have res: "res = 0"
    using assms(6) unfolding cb_fetch_bitmap_def Let_def init rd prod.case by (cases "res = 0") simp_all
  have data: "data = al_image al k"
    using aal_dev_laws.block_read [OF assms(2) rd [unfolded res]] assms(5) by simp
  have "al_size al * (b div al_size al div 8) = al_size al * k" using k by simp
  then show ?thesis
    using assms(6) unfolding cb_fetch_bitmap_def Let_def init rd res data prod.case al_size_u32 [OF geom', simplified] of_nat_numeral
      al_like_eqs [OF assms(1)] k free r1 r2 option.case
    by (auto simp: mult.commute split: option.splits)
qed

lemma fetch_all:
  assumes "aal_dev_laws D contents"
    and "\<forall>b \<in> set bs. al_index al b * al_size al \<le> length (bm_map (al_bitmap al)) \<and>
      contents dev b = al_image al (al_index al b)"
    and "al_like al al'" "al_agree al K al'"
    and "ok_steps (cb_fetch_bitmap D dev) bs al' = Some al2"
  shows "al_like al al2 \<and> al_agree al (K \<union> al_index al ` set bs) al2"
  using assms(2-)
proof (induction bs arbitrary: al' K)
  case (Cons b bs)
  let ?k = "al_index al b"
  obtain al1 where st: "cb_fetch_bitmap D dev b 1 al' = Some (0, al1)" "ok_steps (cb_fetch_bitmap D dev) bs al1 = Some al2"
    using Cons.prems(4) by (auto split: option.splits if_splits)
  have pre: "?k * al_size al \<le> length (bm_map (al_bitmap al))" "contents dev b = al_image al ?k"
    using Cons.prems(1) by auto
  obtain m c where m: "write_range (bm_map (al_bitmap al')) (al_size al * ?k) (al_chunk al ?k) = Some m"
    and c: "write_range (al_crc al') (4 * ?k) (le_bytes 4 (unat (aux_adler32 0 (al_padded al ?k)))) = Some c"
    and al1: "al1 = al'\<lparr>al_bitmap := (al_bitmap al')\<lparr>bm_map := m\<rparr>, al_crc := c\<rparr>"
    using fetch_step [OF Cons.prems(2) assms(1) refl pre st(1)] by blast
  have like1: "al_like al al1"
    using Cons.prems(2) write_range_length [OF m]
    by (simp add: al_like_def al1 al_geom_def bm_shape_def)
  have "al_agree al (insert ?k K) al1"
    unfolding al_agree_def
  proof (intro conjI allI ballI impI)
    fix i assume i: "i < length (bm_map (al_bitmap al))" "i div al_size al \<in> insert ?k K"
    have len: "i < length (bm_map (al_bitmap al'))" using i(1) Cons.prems(2) by (simp add: al_like_def)
    have pos: "0 < al_size al" using al_size_bounds [of al] Cons.prems(2) by (auto simp: al_like_def)
    show "bm_map (al_bitmap al1) ! i = bm_map (al_bitmap al) ! i"
    proof (cases "i div al_size al = ?k")
      case True
      have "al_size al * (i div al_size al) \<le> i" by simp
      moreover have "i < al_size al * (i div al_size al) + al_size al"
        using pos dividend_less_div_times [of "al_size al" i] by (simp add: algebra_simps)
      ultimately have "al_size al * ?k \<le> i" "i < al_size al * ?k + al_size al" unfolding True by auto
      then show ?thesis
        using write_range_nth [OF m len] i(1)
        by (auto simp: al1 al_chunk_length al_chunk_def mult.commute)
    next
      case False
      have "\<not> (al_size al * ?k \<le> i \<and> i < al_size al * ?k + length (al_chunk al ?k))"
      proof
        assume a: "al_size al * ?k \<le> i \<and> i < al_size al * ?k + length (al_chunk al ?k)"
        moreover have "length (al_chunk al ?k) \<le> al_size al" by (simp add: al_chunk_length)
        ultimately have "i < al_size al * ?k + al_size al" by linarith
        then have "i < (?k + 1) * al_size al" by (simp add: algebra_simps)
        then have "i div al_size al < ?k + 1" using pos by (simp add: div_less_iff_less_mult)
        moreover have "?k \<le> i div al_size al" using a pos by (simp add: less_eq_div_iff_mult_less_eq mult.commute)
        ultimately show False using False by simp
      qed
      then show ?thesis
        using write_range_nth [OF m len] i Cons.prems(3) False by (auto simp: al1 al_agree_def)
    qed
  next
    fix k assume k: "k \<in> insert ?k K"
    show "read_range (al_crc al1) (4 * k) 4 = Some (le_bytes 4 (unat (aux_adler32 0 (al_padded al k))))"
    proof (cases "k = ?k")
      case True
      then show ?thesis using read_after_write [OF c, of 4] by (simp add: al1)
    next
      case False
      then have "4 * k + 4 \<le> 4 * ?k \<or> 4 * ?k + 4 \<le> 4 * k" by linarith
      then show ?thesis
        using k False Cons.prems(3) read_after_write_other [OF c, of "4 * k" 4] by (auto simp: al1 al_agree_def)
    qed
  qed
  then show ?case using Cons.IH [OF _ like1 _ st(2), of "insert ?k K"] Cons.prems(1) by auto
qed simp


lemma valid_step:
  assumes "al_geom al" "k = al_index al b" "k * al_size al \<le> length (bm_map (al_bitmap al))"
    and "read_range (al_crc al) (4 * k) 4 = Some (le_bytes 4 (unat (aux_adler32 0 (al_padded al k))))"
  shows "cb_valid_block est True al b w s = Some (0, s)"
proof -
  have k: "b div al_size al div 8 = k" using assms(2) by (simp add: al_index_def)
  have "unat (aux_adler32 0 (al_padded al k)) < 2 ^ LENGTH(32)" by (rule unsigned_less)
  then have v: "le_value (le_bytes 4 (unat (aux_adler32 0 (al_padded al k)))) = unat (aux_adler32 0 (al_padded al k))"
    by (intro le_value_bytes) simp
  show ?thesis
    unfolding cb_valid_block_def Let_def al_size_u32 [OF assms(1), simplified] of_nat_numeral k
      mult.commute [of k 4] mult.commute [of k "al_size al"] assms(4) option.case
      free_chunk [OF assms(1,3)] read_chunk [OF assms(1,3)] adler_chunk_padded v
    by simp
qed

lemma valid_all:
  assumes "al_geom al"
    and "\<forall>b \<in> set bs. al_index al b * al_size al \<le> length (bm_map (al_bitmap al)) \<and>
      read_range (al_crc al) (4 * al_index al b) 4 = Some (le_bytes 4 (unat (aux_adler32 0 (al_padded al (al_index al b)))))"
  shows "ok_steps (cb_valid_block est True al) bs s = Some s"
  using assms(2) by (induction bs) (simp_all add: valid_step [OF assms(1) refl])

lemma open_alloc:
  assumes "alloc40_open est L D ok dev blksize blocks = Some (Some al)" and "al_geom al0"
    and "al_blksize al0 = blksize" "bm_total (al_bitmap al0) = blocks" "blocks < 2 ^ 32 - 8"
  shows "\<exists>al' al2. al_like al0 al' \<and> ok_steps (cb_fetch_bitmap D dev) (layout_blocks al0) al' = Some al2 \<and>
    al = al2\<lparr>al_bitmap := snd (reiser4_bitmap_calc_marked L (al_bitmap al2))\<rparr>"
proof -
  obtain bm where bm: "reiser4_bitmap_create (\<lambda>i. ok (1 + i)) blocks = Some bm"
    using assms(1) by (auto simp: alloc40_open_def Let_def split: if_splits option.splits)
  note fresh = create_ok [OF bm assms(5)]
  obtain crc where lay: "\<exists>al2. alloc40_layout est \<lparr>al_state = 0, al_blksize = blksize, al_bitmap = bm, al_crc = crc\<rparr>
       (cb_fetch_bitmap D dev) \<lparr>al_state = 0, al_blksize = blksize, al_bitmap = bm, al_crc = crc\<rparr> = Some (0, al2) \<and>
       al = al2\<lparr>al_bitmap := snd (reiser4_bitmap_calc_marked L (al_bitmap al2))\<rparr>"
    using assms(1) bm by (auto simp: alloc40_open_def Let_def split: if_splits option.splits prod.splits)
  define al' where "al' = \<lparr>al_state = 0, al_blksize = blksize, al_bitmap = bm, al_crc = crc\<rparr>"
  have sh: "bm_shape bm" using fresh(1) by (simp add: bm_ok_def)
  have geom: "al_geom al'" using assms(2,3,4) sh fresh(3) by (auto simp: al_geom_def al'_def)
  have "length (bm_map bm) = length (bm_map (al_bitmap al0))"
    using sh assms(2,4) fresh(3) by (auto simp: al_geom_def bm_shape_def)
  then have like: "al_like al0 al'" using assms(2-4) geom fresh(3) by (simp add: al_like_def al'_def)
  show ?thesis
    using lay like unfolding al'_def [symmetric] layout_eq [OF geom] run_blocks_ok al_like_eqs(5) [OF like] by blast
qed

text \<open>On a device without errors both traversals succeed.\<close>

lemma sync_total:
  assumes "al_geom al" "\<And>d b. aal_block_init D d (al_blksize al) b = 0"
    and "\<And>d b x. \<exists>d'. aal_block_write D d (al_blksize al) b x = (0, d')"
    and "\<forall>b \<in> set bs. al_index al b * al_size al \<le> length (bm_map (al_bitmap al))"
  shows "\<exists>dev'. ok_steps (cb_sync_bitmap D True al) bs dev = Some dev'"
  using assms(4)
proof (induction bs arbitrary: dev)
  case (Cons b bs)
  obtain d' where "aal_block_write D dev (al_blksize al) b (al_image al (al_index al b)) = (0, d')"
    using assms(3) by blast
  then show ?case
    using Cons sync_step [OF assms(1) refl, of b D True 1 dev] assms(2) by (simp add: Let_def)
qed simp

lemma fetch_total:
  assumes "\<And>b. aal_block_init D dev (al_blksize al) b = 0"
    and "\<And>b. \<exists>x. aal_block_read D dev (al_blksize al) b = (0, x)" and "aal_dev_laws D contents"
    and "\<forall>b \<in> set bs. al_index al b * al_size al \<le> length (bm_map (al_bitmap al)) \<and>
      contents dev b = al_image al (al_index al b) \<and> 4 * al_index al b + 4 \<le> length (al_crc al')"
    and "al_like al al'"
  shows "\<exists>al2. ok_steps (cb_fetch_bitmap D dev) bs al' = Some al2"
  using assms(4,5)
proof (induction bs arbitrary: al')
  case (Cons b bs)
  let ?k = "al_index al b"
  have geom': "al_geom al'" and bs: "al_blksize al' = al_blksize al" using Cons.prems(2) by (auto simp: al_like_def)
  have k: "b div al_size al div 8 = ?k" by (simp add: al_index_def)
  have le': "?k * al_size al' \<le> length (bm_map (al_bitmap al'))"
    using Cons.prems al_like_eqs(1) [OF Cons.prems(2)] by (simp add: al_like_def)
  note free = free_chunk [OF geom' le', unfolded al_like_eqs [OF Cons.prems(2)]]
  have r1: "read_range (al_image al ?k) 4 (length (al_chunk al ?k)) = Some (al_chunk al ?k)"
    by (auto simp: read_range_def al_image_def al_padded_def al_chunk_length)
  have r2: "read_range (al_image al ?k) 0 4 = Some (le_bytes 4 (unat (aux_adler32 0 (al_padded al ?k))))"
    by (simp add: read_range_def al_image_def)
  obtain x where "aal_block_read D dev (al_blksize al) b = (0, x)" using assms(2) by blast
  then have rd: "aal_block_read D dev (al_blksize al') b = (0, al_image al ?k)"
    using aal_dev_laws.block_read [OF assms(3), of dev "al_blksize al" b x] Cons.prems(1) bs by simp
  have init: "aal_block_init D dev (al_blksize al') b = 0" using assms(1) bs by simp
  have "al_size al * ?k + length (al_chunk al ?k) \<le> length (bm_map (al_bitmap al'))"
    using Cons.prems by (auto simp: al_chunk_length al_like_def mult.commute min_def)
  then obtain m where m: "write_range (bm_map (al_bitmap al')) (al_size al * ?k) (al_chunk al ?k) = Some m"
    by (simp add: write_range_def)
  obtain c where c: "write_range (al_crc al') (?k * 4) (le_bytes 4 (unat (aux_adler32 0 (al_padded al ?k)))) = Some c"
    using Cons.prems(1) by (simp add: write_range_def mult.commute)
  let ?al1 = "al'\<lparr>al_bitmap := (al_bitmap al')\<lparr>bm_map := m\<rparr>, al_crc := c\<rparr>"
  have st: "cb_fetch_bitmap D dev b 1 al' = Some (0, ?al1)"
    unfolding cb_fetch_bitmap_def Let_def init rd prod.case al_size_u32 [OF geom', simplified] of_nat_numeral
      al_like_eqs [OF Cons.prems(2)] k free r1 r2 option.case m
    using c by simp
  have "al_like al ?al1"
    using Cons.prems(2) write_range_length [OF m] by (simp add: al_like_def al_geom_def bm_shape_def)
  moreover have "length c = length (al_crc al')" using write_range_length [OF c] .
  ultimately show ?case using Cons.IH [of ?al1] Cons.prems(1) st by simp
qed simp

lemma open_total:
  assumes "\<And>b. aal_block_init D dev (al_blksize al) b = 0"
    and "\<And>b. \<exists>x. aal_block_read D dev (al_blksize al) b = (0, x)" and "aal_dev_laws D contents"
    and "al_geom al" "layout_fits al" "bm_total (al_bitmap al) < 2 ^ 32 - 8"
    and "\<forall>b \<in> set (layout_blocks al). contents dev b = al_image al (al_index al b)"
  shows "\<exists>al2. alloc40_open est L D (\<lambda>_. True) dev (al_blksize al) (bm_total (al_bitmap al)) = Some (Some al2)"
proof -
  obtain bm where bm: "reiser4_bitmap_create (\<lambda>i. True) (bm_total (al_bitmap al)) = Some bm"
    by (simp add: reiser4_bitmap_create_def Let_def)
  note fresh = create_ok [OF bm assms(6)]
  have sh: "bm_shape bm" using fresh(1) by (simp add: bm_ok_def)
  have len: "length (bm_map bm) = length (bm_map (al_bitmap al))" "bm_size bm = length (bm_map (al_bitmap al))"
    using sh assms(4) fresh(3) by (auto simp: al_geom_def bm_shape_def)
  have small: "length (bm_map (al_bitmap al)) < 536870912" using assms(4) by (simp add: al_geom_def bm_shape_def)
  note b = al_size_bounds [OF assms(4)]
  let ?m = "length (bm_map (al_bitmap al)) + al_size al - 1"
  have m1: "to_u32 (int (length (bm_map (al_bitmap al))) + int (al_size al) - 1) = ?m"
    using to_u32_diff [of 1 "length (bm_map (al_bitmap al)) + al_size al"] small b by simp
  have "?m div al_size al \<le> ?m" by simp
  then have "?m div al_size al * 4 < 4294967296" using small b by linarith
  then have m2: "to_u32 (int (?m div al_size al) * 4) = ?m div al_size al * 4"
    using to_u32_nat [of "?m div al_size al * 4"] by simp
  define al' where "al' = \<lparr>al_state = 0, al_blksize = al_blksize al, al_bitmap = bm, al_crc = replicate (?m div al_size al * 4) 0\<rparr>"
  have geom': "al_geom al'" using assms(4) sh fresh(3) by (simp add: al_geom_def al'_def)
  have like: "al_like al al'" using assms(4) geom' len fresh(3) by (simp add: al_like_def al'_def)
  have "4 * al_index al b + 4 \<le> length (al_crc al')" if "b \<in> set (layout_blocks al)" for b
  proof -
    have "al_index al b * al_size al < length (bm_map (al_bitmap al))" by (rule al_index_inside [OF assms(4,5) that])
    then have "(al_index al b + 1) * al_size al \<le> ?m" by simp
    then have "al_index al b + 1 \<le> ?m div al_size al" using \<open>508 \<le> _ \<and> _\<close> by (subst less_eq_div_iff_mult_less_eq) auto
    then show ?thesis by (simp add: al'_def)
  qed
  then obtain al2 where "ok_steps (cb_fetch_bitmap D dev) (layout_blocks al) al' = Some al2"
    using fetch_total [of D dev al contents "layout_blocks al" al'] assms(1-3,7) like al_index_inside [OF assms(4,5)]
    by (auto simp: less_imp_le)
  then have "alloc40_layout est al' (cb_fetch_bitmap D dev) al' = Some (0, al2)"
    unfolding layout_eq [OF geom'] run_blocks_ok al_like_eqs(5) [OF like] .
  then show ?thesis
    unfolding alloc40_open_def Let_def if_not_P [of "\<not> True", simplified] bm option.case al_size_u32 [OF assms(4), simplified]
      of_nat_numeral len m1 m2 by (simp add: al'_def)
qed

text \<open>
  C10: what \<^verbatim>\<open>alloc40_sync\<close> wrote, \<^verbatim>\<open>alloc40_open\<close> reads back: the same map and the right counter
  of used blocks; the checksums of the opened allocator are all valid, and the written one is no
  longer dirty.  The bitmap blocks have to fit the file system (\<open>layout_fits\<close>).
\<close>

theorem alloc40_sync_open:
  assumes "aal_bitops L" and "aal_dev_laws D contents"
    and "bm_ok (al_bitmap al)" and "512 \<le> al_blksize al" "al_blksize al \<le> 8192"
    and "0 < bm_total (al_bitmap al)" "bm_total (al_bitmap al) < 2 ^ 32 - 8" and "layout_fits al"
    and "alloc40_sync est D ok al dev = Some (0, dev', al1)"
    and "alloc40_open est L D ok' dev' (al_blksize al) (bm_total (al_bitmap al)) = Some (Some al2)"
  shows "al_bitmap al2 = al_bitmap al \<and> alloc40_valid est True al2 = Some 0 \<and> \<not> bit (al_state al1) 0"
proof -
  have sh: "bm_shape (al_bitmap al)" using assms(3) by (simp add: bm_ok_def)
  have geom: "al_geom al" using assms sh by (simp add: al_geom_def)
  let ?bs = "layout_blocks al"
  have inside: "\<forall>b \<in> set ?bs. al_index al b * al_size al \<le> length (bm_map (al_bitmap al))"
    using al_index_inside [OF geom assms(8)] by (simp add: less_imp_le)
  have "ok_steps (cb_sync_bitmap D ok al) ?bs dev = Some dev'" and clean: "\<not> bit (al_state al1) 0"
    using assms(9) unfolding alloc40_sync_def layout_eq [OF geom]
    by (auto simp: run_blocks_ok bit_unset_bit_iff split: option.splits if_splits)
  then have written: "\<forall>b \<in> set ?bs. contents dev' b = al_image al (al_index al b)"
    using sync_all [OF geom assms(2) _ inside] by blast
  obtain al' a2 where like: "al_like al al'" and fetch: "ok_steps (cb_fetch_bitmap D dev') ?bs al' = Some a2"
    and al2: "al2 = a2\<lparr>al_bitmap := snd (reiser4_bitmap_calc_marked L (al_bitmap a2))\<rparr>"
    using open_alloc [OF assms(10) geom refl refl assms(7)] by blast
  have "al_agree al {} al'" by (simp add: al_agree_def)
  then have like2: "al_like al a2" and agree: "al_agree al (al_index al ` set ?bs) a2"
    using fetch_all [OF assms(2) _ like _ fetch, of "{}"] inside written by auto
  have map: "bm_map (al_bitmap a2) = bm_map (al_bitmap al)"
  proof (rule nth_equalityI)
    show len: "length (bm_map (al_bitmap a2)) = length (bm_map (al_bitmap al))" using like2 by (simp add: al_like_def)
    fix i assume "i < length (bm_map (al_bitmap a2))"
    then have i: "i < length (bm_map (al_bitmap al))" using len by simp
    then have "i div al_size al \<in> al_index al ` set ?bs" using al_index_covers [OF geom i] by force
    then show "bm_map (al_bitmap a2) ! i = bm_map (al_bitmap al) ! i" using agree i by (auto simp: al_agree_def)
  qed
  have sh2: "bm_shape (al_bitmap a2)" using like2 by (simp add: al_like_def al_geom_def)
  note calc = aal_bitops.calc_marked_ok [OF assms(1) sh2]
  have tot: "bm_total (al_bitmap a2) = bm_total (al_bitmap al)" using like2 by (simp add: al_like_def)
  have b2: "al_bitmap al2 = snd (reiser4_bitmap_calc_marked L (al_bitmap a2))" by (simp add: al2)
  have "bm_set (al_bitmap al2) = bm_set (al_bitmap al)"
    using calc(3) by (simp add: b2 bm_set_def map tot)
  moreover have "bm_ok (al_bitmap al2)" using calc(1) by (simp add: b2)
  moreover have "bm_map (al_bitmap al2) = bm_map (al_bitmap al)" "bm_total (al_bitmap al2) = bm_total (al_bitmap al)"
    using calc(4,5) by (simp_all add: b2 map tot)
  ultimately have eq: "al_bitmap al2 = al_bitmap al"
    using assms(3) by (intro reiser4_bitmap.equality) (auto simp: bm_ok_def bm_shape_def)
  have like3: "al_like al al2" "al_geom al2"
    using like2 eq sh geom by (auto simp: al_like_def al_geom_def al2)
  have pad: "al_padded al2 k = al_padded al k" for k
    using eq al_like_eqs(1) [OF like3(1)] by (simp add: al_padded_def al_chunk_def)
  have crc: "al_crc al2 = al_crc a2" by (simp add: al2)
  have "ok_steps (cb_valid_block est True al2) ?bs () = Some ()"
    using valid_all [OF like3(2), of ?bs] inside agree
    unfolding pad crc eq al_like_eqs [OF like3(1)] by (auto simp: al_agree_def)
  then have "run_blocks est (cb_valid_block est True al2) ?bs 0 () = Some (0, ())" by (simp only: run_blocks_ok)
  then have "alloc40_valid est True al2 = Some 0"
    unfolding alloc40_valid_def layout_eq [OF like3(2)] al_like_eqs(5) [OF like3(1)] by simp
  then show ?thesis using eq clean by blast
qed


definition ram_disk :: "(nat \<Rightarrow> u8 list) aal_dev" where
  "ram_disk = \<lparr>aal_block_init = (\<lambda>d bs b. 0), aal_block_read = (\<lambda>d bs b. (0, d b)),
               aal_block_write = (\<lambda>d bs b x. (0, d(b := x)))\<rparr>"

interpretation ram_disk: aal_dev_laws ram_disk id
  by unfold_locales (auto simp: ram_disk_def)

definition sample_alloc :: alloc40 where
  "sample_alloc = \<lparr>al_state = 1, al_blksize = 512,
     al_bitmap = \<lparr>bm_marked = 0, bm_total = 200, bm_size = 25, bm_map = replicate 25 0\<rparr>, al_crc = []\<rparr>"

lemma sample_alloc_ok: "bm_ok (al_bitmap sample_alloc)" "al_geom sample_alloc" "layout_fits sample_alloc"
proof -
  have "reiser4_bitmap_create (\<lambda>_. True) 200 = Some (al_bitmap sample_alloc)"
    by (simp add: reiser4_bitmap_create_def Let_def wrap_simps sample_alloc_def)
  from create_ok [OF this] show ok: "bm_ok (al_bitmap sample_alloc)" by simp
  show geom: "al_geom sample_alloc" using ok by (simp add: al_geom_def bm_ok_def) (simp add: sample_alloc_def)
  show "layout_fits sample_alloc"
    unfolding layout_fits_def layout_blocks_eq [OF geom]
    by (simp add: al_start_def ALLOC40_BLOCKNR_def al_size_def) (simp add: sample_alloc_def)
qed

theorem alloc40_sync_open_witness:
  "\<exists>dev' al1 al2. alloc40_sync 57 ram_disk True sample_alloc (\<lambda>_. []) = Some (0, dev', al1) \<and>
     alloc40_open 57 bit_array ram_disk (\<lambda>_. True) dev' 512 200 = Some (Some al2) \<and>
     al_bitmap al2 = al_bitmap sample_alloc \<and> alloc40_valid 57 True al2 = Some 0"
proof -
  note ok = sample_alloc_ok
  have inside: "\<forall>b \<in> set (layout_blocks sample_alloc).
      al_index sample_alloc b * al_size sample_alloc \<le> length (bm_map (al_bitmap sample_alloc))"
    using al_index_inside [OF ok(2,3)] by (simp add: less_imp_le)
  obtain dev' where st: "ok_steps (cb_sync_bitmap ram_disk True sample_alloc) (layout_blocks sample_alloc) (\<lambda>_. []) = Some dev'"
    using sync_total [OF ok(2) _ _ inside, of ram_disk "\<lambda>_. []"] by (auto simp: ram_disk_def)
  have "run_blocks 57 (cb_sync_bitmap ram_disk True sample_alloc) (layout_blocks sample_alloc) 0 (\<lambda>_. []) = Some (0, dev')"
    using st by (simp only: run_blocks_ok)
  then have sync: "\<exists>al1. alloc40_sync 57 ram_disk True sample_alloc (\<lambda>_. []) = Some (0, dev', al1)"
    unfolding alloc40_sync_def layout_eq [OF ok(2)] by simp
  moreover obtain al2 where op: "alloc40_open 57 bit_array ram_disk (\<lambda>_. True) dev' 512 200 = Some (Some al2)"
    using open_total [of ram_disk dev' sample_alloc id 57 bit_array] ok ram_disk.aal_dev_laws_axioms
      sync_all [OF ok(2) ram_disk.aal_dev_laws_axioms st inside]
    by (auto simp: ram_disk_def sample_alloc_def)
  ultimately show ?thesis
    using alloc40_sync_open [OF bit_array.aal_bitops_axioms ram_disk.aal_dev_laws_axioms ok(1),
        of 57 True "\<lambda>_. []" dev' _ "\<lambda>_. True" al2] ok(3)
    by (auto simp: sample_alloc_def)
qed

text \<open>The list of the visited blocks, as a callback sees them.\<close>

lemma run_blocks_record: "run_blocks est (\<lambda>b w s. Some (0, s @ [b])) bs 0 s = Some (0, s @ bs)"
  by (induction bs arbitrary: s) simp_all

text \<open>
  C38: \<^verbatim>\<open>alloc40_layout\<close> visits the block behind the master super block and then the first block of
  every further bitmap region below \<open>start + total\<close>.  When the size of the file system is a
  multiple of the blocks per bitmap, it also visits the block just behind the file system, since
  the loop compares with \<open>start + total\<close> instead of the size.
\<close>

theorem alloc40_layout_visits:
  assumes "512 \<le> al_blksize al" "al_blksize al \<le> 8192" and "bm_shape (al_bitmap al)" "0 < bm_total (al_bitmap al)"
  shows "let bpb = (al_blksize al - 4) * 8; start = 65536 div al_blksize al + 2; tot = bm_total (al_bitmap al);
             visited = start # map (\<lambda>j. j * bpb) [1..<(start + tot + bpb - 1) div bpb]
         in alloc40_layout est al (\<lambda>b w s. Some (0, s @ [b])) [] = Some (0, visited) \<and>
            (bpb dvd tot \<longrightarrow> tot \<in> set visited)"
proof -
  have geom: "al_geom al" using assms by (simp add: al_geom_def)
  let ?bpb = "al_size al * 8" and ?start = "al_start al" and ?tot = "bm_total (al_bitmap al)"
  have "?tot \<in> set (layout_blocks al)" if dvd: "?bpb dvd ?tot"
  proof -
    obtain k where k: "?tot = k * ?bpb" using dvd by (metis dvd_div_mult_self)
    then have "1 \<le> k" using assms(4) by (cases k) auto
    moreover have "(k + 1) * ?bpb = ?tot + ?bpb" using k by simp
    then have "(k + 1) * ?bpb \<le> ?start + ?tot + ?bpb - 1"
      using al_start_bounds [OF geom] by linarith
    then have "k + 1 \<le> (?start + ?tot + ?bpb - 1) div ?bpb"
      using al_size_bounds [OF geom] by (subst less_eq_div_iff_mult_less_eq) auto
    ultimately show ?thesis unfolding layout_blocks_eq [OF geom] k by auto
  qed
  then show ?thesis
    unfolding Let_def layout_eq [OF geom] run_blocks_record layout_blocks_eq [OF geom]
    by (simp add: al_size_def al_start_def ALLOC40_BLOCKNR_def)
qed

theorem alloc40_layout_visits_witness:
  "alloc40_layout 57 sample_alloc (\<lambda>b w s. Some (0, s @ [b])) [] = Some (0, [130])"
  using alloc40_layout_visits [of sample_alloc 57] sample_alloc_ok(1)
  by (simp add: bm_ok_def Let_def) (simp add: sample_alloc_def)

section \<open>Allocation\<close>

definition al_ok :: "alloc40 \<Rightarrow> bool" where
  "al_ok al \<longleftrightarrow> bm_ok (al_bitmap al)"

definition al_used :: "alloc40 \<Rightarrow> nat set" where
  "al_used al = bm_set (al_bitmap al)"

definition al_total :: "alloc40 \<Rightarrow> nat" where
  "al_total al = bm_total (al_bitmap al)"

sublocale aal_bitops \<subseteq> alloc_space:
  space_map al_ok al_used al_total "alloc40_occupy L" "alloc40_release L"
  using bitmap_space.occupy bitmap_space.release bitmap_space.used_limit
  by unfold_locales (auto simp: al_ok_def al_used_def al_total_def alloc40_occupy_def alloc40_release_def)

context aal_bitops
begin

lemma allocate_fresh:
  assumes "bm_ok (al_bitmap al)" and "alloc40_allocate L al start count = (found, s, al')"
  shows "found \<le> count \<and> bm_ok (al_bitmap al') \<or> found = 0 \<and> al' = al"
    and "0 < found \<Longrightarrow> s + found \<le> al_total al \<and> {s..<s + found} \<inter> al_used al = {} \<and>
       al_used al' = al_used al \<union> {s..<s + found} \<and>
       alloc40_free al' = alloc40_free al - found \<and> bit (al_state al') 0 \<and>
       al_used (alloc40_release L al' s found) = al_used al"
proof -
  have sh: "bm_shape (al_bitmap al)" using assms(1) by (simp add: bm_ok_def)
  have ok: "al_ok al" using assms(1) by (simp add: al_ok_def)
  have fresh: "found \<le> count" "s + found \<le> al_total al" "{s..<s + found} \<inter> al_used al = {}"
      "al' = alloc40_occupy L al s found" if "0 < found"
  proof -
    have "reiser4_bitmap_find_region L (al_bitmap al) start count False = (found, s)"
      using assms(2) that by (auto simp: alloc40_allocate_def split: prod.splits if_splits)
    from find_region_zero [OF sh this that]
    show "found \<le> count" "s + found \<le> al_total al" "{s..<s + found} \<inter> al_used al = {}"
      by (auto simp: al_used_def al_total_def)
    show "al' = alloc40_occupy L al s found"
      using assms(2) that by (auto simp: alloc40_allocate_def alloc40_occupy_def split: prod.splits if_splits)
  qed
  have same: "al' = al" if "found = 0"
    using assms(2) that by (auto simp: alloc40_allocate_def split: prod.splits if_splits)
  show "found \<le> count \<and> bm_ok (al_bitmap al') \<or> found = 0 \<and> al' = al"
    using fresh same alloc_space.occupy [OF ok, of found s] by (cases "found = 0") (auto simp: al_ok_def)
  assume f: "0 < found"
  note fr = fresh [OF f]
  have occ: "al_ok al'" "al_used al' = al_used al \<union> {s..<s + found}" "al_total al' = al_total al"
    using alloc_space.occupy [OF ok f fr(2)] fr(4) by auto
  have free: "alloc40_free a = al_total a - card (al_used a)" if "al_ok a" for a
    using that bm_set_card [of "al_bitmap a"] bm_total_small [of "al_bitmap a"]
    by (simp add: alloc40_free_def reiser4_bitmap_cleared_def al_ok_def al_total_def al_used_def bm_ok_def wrap_simps)
  have "alloc40_free al' = alloc40_free al - found"
    using alloc_space.occupy_free [OF ok f fr(2,3), folded fr(4)] free [OF occ(1)] free [OF ok] occ(3) by simp
  moreover have "bit (al_state al') 0" by (simp add: fr(4) alloc40_occupy_def bit_simps)
  moreover have "al_used (alloc40_release L al' s found) = al_used al"
    using alloc_space.release_occupy [OF ok f fr(2,3)] by (simp add: fr(4))
  ultimately show "s + found \<le> al_total al \<and> {s..<s + found} \<inter> al_used al = {} \<and>
       al_used al' = al_used al \<union> {s..<s + found} \<and>
       alloc40_free al' = alloc40_free al - found \<and> bit (al_state al') 0 \<and>
       al_used (alloc40_release L al' s found) = al_used al"
    using fr(2,3) occ(2) by blast
qed

end

text \<open>
  C11: \<^verbatim>\<open>alloc40_allocate\<close> hands out at most the requested number of blocks, all of them free before
  and used afterwards, changes nothing else, and takes exactly that many blocks off the free count;
  releasing them again gives back the set of used blocks.
\<close>

theorem alloc40_allocate_fresh:
  assumes "aal_bitops L" and "bm_ok (al_bitmap al)" and "alloc40_allocate L al start count = (found, s, al')"
    and "0 < found"
  shows "found \<le> count \<and> bm_ok (al_bitmap al') \<and>
    s + found \<le> al_total al \<and> {s..<s + found} \<inter> al_used al = {} \<and>
    al_used al' = al_used al \<union> {s..<s + found} \<and>
    alloc40_free al' = alloc40_free al - found \<and> bit (al_state al') 0 \<and>
    al_used (alloc40_release L al' s found) = al_used al"
  using aal_bitops.allocate_fresh [OF assms(1-3)] assms(4) by blast

theorem alloc40_allocate_fresh_witness:
  "\<exists>s al'. alloc40_allocate bit_array sample_alloc 0 3 = (3, s, al') \<and> al_used al' = {s..<s + 3}"
proof -
  have "\<not> map_bit (replicate 25 0) i" for i by (auto simp: map_bit_def)
  moreover have "[0..<200] = (0 :: nat) # [1..<200]" by (subst upt_conv_Cons) simp_all
  ultimately have "first_region (\<lambda>i. \<not> map_bit (replicate 25 0) i) 200 0 3 = (3, 0)"
    by (simp add: first_region_def first_bit_def Let_def takeWhile_eq_all_conv [THEN iffD2])
  then obtain s al' where a: "alloc40_allocate bit_array sample_alloc 0 3 = (3, s, al')"
    by (simp add: alloc40_allocate_def reiser4_bitmap_find_region_def bit_array_def sample_alloc_def)
  have "al_used sample_alloc = {}" by (auto simp: al_used_def sample_alloc_def bm_set_def map_bit_def)
  then show ?thesis
    using alloc40_allocate_fresh [OF bit_array.aal_bitops_axioms sample_alloc_ok(1) a] a by simp
qed

end
