(* ===== verification/Oid40.thy ===== *)
theory Oid40
  imports Prelude
begin

text \<open>
  The object id allocator plugin (\<^verbatim>\<open>plugin/oid/oid40\<close>): a counter of the next free id and of the ids in
  use, kept in an area of the format super block.  The format plugin is seen through its id area
  and its state word, which is all \<^verbatim>\<open>entcall(format, ...)\<close> uses here.
\<close>

section \<open>Operations\<close>

record oid_format =
  fm_area :: "u8 list"
  fm_state :: nat

record oid40 =
  o_next :: nat
  o_used :: nat
  o_state :: nat

abbreviation (input) OID40_ROOT_LOCALITY :: nat where "OID40_ROOT_LOCALITY \<equiv> 0x29"
abbreviation (input) OID40_ROOT_OBJECTID :: nat where "OID40_ROOT_OBJECTID \<equiv> 0x29 + 1"
abbreviation (input) OID40_SAFE_LOCALITY :: nat where "OID40_SAFE_LOCALITY \<equiv> 0x29 + 1 + 1"
abbreviation (input) OID40_RESERVED :: nat where "OID40_RESERVED \<equiv> 65536"
abbreviation (input) OID40_LOST_OBJECTID :: nat where "OID40_LOST_OBJECTID \<equiv> 65536 - 1"

definition oid40_get_next :: "u8 list \<Rightarrow> nat" where
  "oid40_get_next area = le_value (take 8 area)"

definition oid40_set_next :: "u8 list \<Rightarrow> nat \<Rightarrow> u8 list" where
  "oid40_set_next area val = le_bytes 8 val @ drop 8 area"

definition oid40_get_used :: "u8 list \<Rightarrow> nat" where
  "oid40_get_used area = le_value (take 8 (drop 8 area))"

definition oid40_set_used :: "u8 list \<Rightarrow> nat \<Rightarrow> u8 list" where
  "oid40_set_used area val = take 8 area @ le_bytes 8 val @ drop 16 area"

definition oid40_get_state :: "oid40 \<Rightarrow> nat" where
  "oid40_get_state entity = o_state entity"

definition oid40_get_next_oid :: "oid40 \<Rightarrow> nat" where
  "oid40_get_next_oid entity = o_next entity"

definition oid40_get_used_oid :: "oid40 \<Rightarrow> nat" where
  "oid40_get_used_oid entity = o_used entity"

definition oid40_set_state :: "oid40 \<Rightarrow> nat \<Rightarrow> oid40" where
  "oid40_set_state entity state = entity\<lparr>o_state := state\<rparr>"

definition oid40_set_next_oid :: "oid40 \<Rightarrow> nat \<Rightarrow> oid40" where
  "oid40_set_next_oid entity next = entity\<lparr>o_next := next, o_state := 1\<rparr>"

definition oid40_set_used_oid :: "oid40 \<Rightarrow> nat \<Rightarrow> oid40" where
  "oid40_set_used_oid entity used = entity\<lparr>o_used := used, o_state := 1\<rparr>"

definition oid40_open :: "bool \<Rightarrow> oid_format \<Rightarrow> oid40 option" where
  "oid40_open ok fmt =
     (if \<not> ok then None
      else Some \<lparr>o_next = oid40_get_next (fm_area fmt), o_used = oid40_get_used (fm_area fmt), o_state = 0\<rparr>)"

definition oid40_create :: "bool \<Rightarrow> oid_format \<Rightarrow> (oid40 \<times> oid_format) option" where
  "oid40_create ok fmt =
     (if \<not> ok then None
      else (let oid = \<lparr>o_next = OID40_RESERVED, o_used = 0, o_state = 1\<rparr>;
                area = oid40_set_next (fm_area fmt) (o_next oid);
                area = oid40_set_used area (o_used oid)
            in Some (oid, fmt\<lparr>fm_area := area\<rparr>)))"

definition oid40_sync :: "oid40 \<Rightarrow> oid_format \<Rightarrow> int \<times> oid_format" where
  "oid40_sync entity fmt =
     (let area = oid40_set_next (fm_area fmt) (o_next entity);
          area = oid40_set_used area (o_used entity);
          fmt = fmt\<lparr>fm_area := area\<rparr>;
          state = fm_state fmt
      in (0, fmt\<lparr>fm_state := state OR 1\<rparr>))"

definition oid40_allocate :: "oid40 \<Rightarrow> nat \<times> oid40" where
  "oid40_allocate entity =
     (let entity = entity\<lparr>o_next := to_u64 (int (o_next entity) + 1)\<rparr>;
          entity = entity\<lparr>o_used := to_u64 (int (o_used entity) + 1)\<rparr>;
          entity = entity\<lparr>o_state := o_state entity OR 1\<rparr>
      in (to_u64 (int (o_next entity) - 1), entity))"

definition oid40_release :: "oid40 \<Rightarrow> nat \<Rightarrow> oid40" where
  "oid40_release entity oid =
     entity\<lparr>o_used := to_u64 (int (o_used entity) - 1), o_state := o_state entity OR 1\<rparr>"

definition oid40_free :: "oid40 \<Rightarrow> nat" where
  "oid40_free entity = to_u64 (int MAX_UINT64 - int (o_next entity))"

definition oid40_valid :: "oid40 \<Rightarrow> int" where
  "oid40_valid entity = (if o_next entity < OID40_ROOT_LOCALITY then - 22 else 0)"

definition oid40_root_locality :: nat where "oid40_root_locality = OID40_ROOT_LOCALITY"
definition oid40_root_objectid :: nat where "oid40_root_objectid = OID40_ROOT_OBJECTID"
definition oid40_lost_objectid :: nat where "oid40_lost_objectid = OID40_LOST_OBJECTID"
definition oid40_slink_locality :: nat where "oid40_slink_locality = OID40_SAFE_LOCALITY"

section \<open>Histories\<close>

text \<open>
  The states an allocator reaches from \<open>o0\<close> by allocating and by releasing ids that are in use, with
  all ids handed out so far, the latest first, and those in use.
\<close>

inductive oid_history :: "oid40 \<Rightarrow> nat list \<Rightarrow> nat set \<Rightarrow> oid40 \<Rightarrow> bool" for o0 where
  start: "oid_history o0 [] {} o0"
| allocate: "oid_history o0 ids live ent \<Longrightarrow> oid40_allocate ent = (oid, ent') \<Longrightarrow>
    oid_history o0 (oid # ids) (insert oid live) ent'"
| release: "oid_history o0 ids live ent \<Longrightarrow> oid \<in> live \<Longrightarrow>
    oid_history o0 ids (live - {oid}) (oid40_release ent oid)"

inductive_cases oid_history_startE: "oid_history o0 [] live ent"

lemma allocate_next:
  assumes "o_next ent < MAX_UINT64" "o_used ent < MAX_UINT64"
  shows "oid40_allocate ent =
    (o_next ent, ent\<lparr>o_next := o_next ent + 1, o_used := o_used ent + 1, o_state := o_state ent OR 1\<rparr>)"
proof -
  have "to_u64 (int (o_next ent) + 1) = o_next ent + 1" "to_u64 (int (o_used ent) + 1) = o_used ent + 1"
    using to_u64_add [of "o_next ent" 1] to_u64_add [of "o_used ent" 1] assms by simp_all
  moreover have "to_u64 (int (o_next ent + 1) - 1) = o_next ent"
    using to_u64_diff [of 1 "o_next ent + 1"] assms by simp
  ultimately show ?thesis by (simp add: oid40_allocate_def Let_def)
qed

lemma oid_history_invariant:
  "oid_history o0 ids live ent \<Longrightarrow> o_next o0 + length ids < MAX_UINT64 \<Longrightarrow> o_used o0 + length ids < MAX_UINT64 \<Longrightarrow>
   distinct ids \<and> set ids = {o_next o0..<o_next o0 + length ids} \<and> live \<subseteq> set ids \<and>
   o_next ent = o_next o0 + length ids \<and> o_used ent = o_used o0 + card live"
proof (induction rule: oid_history.induct)
  case (allocate ids live ent oid ent')
  then have IH: "distinct ids" "set ids = {o_next o0..<o_next o0 + length ids}" "live \<subseteq> set ids"
      "o_next ent = o_next o0 + length ids" "o_used ent = o_used o0 + card live"
    by auto
  have "card live \<le> length ids"
    using IH(3) card_mono [of "set ids" live] card_length [of ids] by simp
  then have "oid = o_next ent" "ent' = ent\<lparr>o_next := o_next ent + 1, o_used := o_used ent + 1, o_state := o_state ent OR 1\<rparr>"
    using allocate_next [of ent] allocate.hyps(2) allocate.prems IH(4,5) by auto
  moreover have "finite live" using IH(3) finite_subset by auto
  moreover have "oid \<notin> live" using IH(2-4) \<open>oid = o_next ent\<close> by auto
  ultimately show ?case using IH by auto
next
  case (release ids live ent oid)
  have fin: "finite live" using release finite_subset by auto
  then have pos: "0 < card live" using release.hyps(2) by (auto simp: card_gt_0_iff)
  have "live \<subseteq> set ids" using release by auto
  then have "card live \<le> length ids"
    by (rule order_trans [OF card_mono card_length, rotated]) simp
  then have "to_u64 (int (o_used ent) - 1) = o_used ent - 1"
    using release pos to_u64_diff [of 1 "o_used ent"] by simp
  then show ?case using release pos fin by (auto simp: oid40_release_def)
qed simp

section \<open>Properties\<close>

text \<open>
  C39: over any history of allocations and releases of ids in use, no id is handed out twice, the ids
  are the consecutive ones from the initial counter on, \<^verbatim>\<open>used\<close> counts exactly the ids in use, and
  the allocator stays valid, as long as the 64-bit counters do not overflow.
\<close>

theorem oid40_ids_fresh:
  assumes "oid_history o0 ids live ent" and "OID40_RESERVED \<le> o_next o0" "o_used o0 = 0"
    and "o_next o0 + length ids < MAX_UINT64"
  shows "distinct ids \<and> set ids = {o_next o0..<o_next o0 + length ids} \<and> live \<subseteq> set ids \<and>
    oid40_get_used_oid ent = card live \<and> oid40_valid ent = 0 \<and>
    oid40_free ent = MAX_UINT64 - (o_next o0 + length ids) \<and>
    oid40_lost_objectid \<notin> set ids"
proof -
  have "distinct ids \<and> set ids = {o_next o0..<o_next o0 + length ids} \<and> live \<subseteq> set ids \<and>
      o_next ent = o_next o0 + length ids \<and> o_used ent = o_used o0 + card live"
    by (rule oid_history_invariant [OF assms(1)]) (use assms in auto)
  moreover have "to_u64 (int MAX_UINT64 - int (o_next o0 + length ids)) = MAX_UINT64 - (o_next o0 + length ids)"
    using assms(4) by (intro to_u64_diff) auto
  ultimately show ?thesis
    using assms by (auto simp: oid40_get_used_oid_def oid40_valid_def oid40_free_def oid40_lost_objectid_def)
qed

theorem oid40_ids_fresh_witness:
  "oid40_get_used_oid (oid40_release (snd (oid40_allocate \<lparr>o_next = 65536, o_used = 0, o_state = 0\<rparr>)) 65536) = 0"
proof -
  let ?o = "\<lparr>o_next = 65536, o_used = 0, o_state = 0\<rparr>"
  have "oid40_allocate ?o = (65536, snd (oid40_allocate ?o))"
    by (simp add: oid40_allocate_def Let_def wrap_simps)
  from oid_history.release [OF oid_history.allocate [OF oid_history.start this], of 65536]
  have "oid_history ?o [65536] {} (oid40_release (snd (oid40_allocate ?o)) 65536)" by simp
  then show ?thesis using oid40_ids_fresh [of ?o "[65536]" "{}"] by simp
qed

lemma area_fields:
  assumes "16 \<le> length area"
  shows "oid40_get_next (oid40_set_used (oid40_set_next area n) u) = le_value (le_bytes 8 n)"
    and "oid40_get_used (oid40_set_used (oid40_set_next area n) u) = le_value (le_bytes 8 u)"
  using assms by (simp_all add: oid40_get_next_def oid40_get_used_def oid40_set_used_def oid40_set_next_def)

text \<open>
  C40: \<^verbatim>\<open>oid40_open\<close> reads back the counters \<^verbatim>\<open>oid40_sync\<close> stored in the id area of the super block, clean;
  the sync marks the format dirty and leaves the rest of the area alone.
\<close>

theorem oid40_sync_open:
  assumes "16 \<le> length (fm_area fmt)" and "o_next ent < 2 ^ 64" "o_used ent < 2 ^ 64"
  shows "oid40_open True (snd (oid40_sync ent fmt)) = Some \<lparr>o_next = o_next ent, o_used = o_used ent, o_state = 0\<rparr> \<and>
    bit (fm_state (snd (oid40_sync ent fmt))) 0 \<and>
    drop 16 (fm_area (snd (oid40_sync ent fmt))) = drop 16 (fm_area fmt)"
proof -
  have "le_value (le_bytes 8 (o_next ent)) = o_next ent" "le_value (le_bytes 8 (o_used ent)) = o_used ent"
    using assms(2,3) by (simp_all add: le_value_bytes)
  then show ?thesis
    using assms(1) area_fields [OF assms(1)]
    by (simp add: oid40_open_def oid40_sync_def Let_def bit_simps)
      (simp add: oid40_set_used_def oid40_set_next_def)
qed

theorem oid40_sync_open_witness:
  "oid40_open True (snd (oid40_sync \<lparr>o_next = 65540, o_used = 3, o_state = 1\<rparr> \<lparr>fm_area = replicate 16 0, fm_state = 0\<rparr>)) =
     Some \<lparr>o_next = 65540, o_used = 3, o_state = 0\<rparr>"
  using oid40_sync_open [of "\<lparr>fm_area = replicate 16 0, fm_state = 0\<rparr>" "\<lparr>o_next = 65540, o_used = 3, o_state = 1\<rparr>"]
  by simp

end
