(* ===== verification/Memory.thy ===== *)
theory Memory
  imports Prelude
begin

text \<open>
  Block memory.  The data of a block and what lies around it is a function from signed offsets,
  relative to the start of the block, to bytes; a pointer into the block is its offset, and pointer
  arithmetic is exact.  Reads and writes of little-endian fields and \<^verbatim>\<open>memcpy\<close>/\<^verbatim>\<open>memmove\<close> are
  reads and writes of byte lists; \<open>mem_simps\<close> collects what a read after a write gives.
\<close>

type_synonym mem = "int \<Rightarrow> u8"

definition mread :: "mem \<Rightarrow> int \<Rightarrow> nat \<Rightarrow> u8 list" where
  "mread m a n = map (\<lambda>i. m (a + int i)) [0..<n]"

definition mwrite :: "mem \<Rightarrow> int \<Rightarrow> u8 list \<Rightarrow> mem" where
  "mwrite m a bs = (\<lambda>x. if a \<le> x \<and> x < a + int (length bs) then bs ! nat (x - a) else m x)"

definition memmove :: "mem \<Rightarrow> int \<Rightarrow> int \<Rightarrow> nat \<Rightarrow> mem" where
  "memmove m dst src n = mwrite m dst (mread m src n)"

definition memcpy :: "mem \<Rightarrow> int \<Rightarrow> mem \<Rightarrow> int \<Rightarrow> nat \<Rightarrow> mem" where
  "memcpy m dst m' src n = mwrite m dst (mread m' src n)"

definition get_le :: "nat \<Rightarrow> mem \<Rightarrow> int \<Rightarrow> nat" where
  "get_le k m a = le_value (mread m a k)"

definition set_le :: "nat \<Rightarrow> mem \<Rightarrow> int \<Rightarrow> int \<Rightarrow> mem" where
  "set_le k m a v = mwrite m a (le_bytes k (nat (v mod 256 ^ k)))"

lemma length_mread [simp]: "length (mread m a n) = n"
  by (simp add: mread_def)

lemma nth_mread [simp]: "i < n \<Longrightarrow> mread m a n ! i = m (a + int i)"
  by (simp add: mread_def)

lemma mread_0 [simp]: "mread m a 0 = []"
  by (simp add: mread_def)

lemma mread_same [mem_simps]: "length bs = n \<Longrightarrow> mread (mwrite m a bs) a n = bs"
  by (rule nth_equalityI) (auto simp: mwrite_def)

lemma mread_other [mem_simps]:
  "a + int n \<le> b \<or> b + int (length bs) \<le> a \<Longrightarrow> mread (mwrite m b bs) a n = mread m a n"
  by (rule nth_equalityI) (auto simp: mwrite_def)

lemma mread_inside:
  "b \<le> a \<Longrightarrow> a + int n \<le> b + int (length bs) \<Longrightarrow> mread (mwrite m b bs) a n = take n (drop (nat (a - b)) bs)"
  by (rule nth_equalityI) (auto simp: mwrite_def nat_add_distrib nat_diff_distrib algebra_simps
      intro!: arg_cong [where f = "(!) bs"])

lemma mread_part: "j + k \<le> n \<Longrightarrow> take k (drop j (mread m a n)) = mread m (a + int j) k"
  by (rule nth_equalityI) (auto simp: algebra_simps)

lemma memmove_0 [simp]: "memmove m a b 0 = m"
  by (auto simp: memmove_def mwrite_def fun_eq_iff)

lemma memcpy_0 [simp]: "memcpy m a m' b 0 = m"
  by (auto simp: memcpy_def mwrite_def fun_eq_iff)

lemma mread_split: "mread m a (j + k) = mread m a j @ mread m (a + int j) k"
  by (rule nth_equalityI) (auto simp: nth_append algebra_simps)

lemma mread_memmove [mem_simps]:
  "dst \<le> a \<Longrightarrow> a + int k \<le> dst + int n \<Longrightarrow> mread (memmove m dst src n) a k = mread m (a - dst + src) k"
  by (simp add: memmove_def mread_inside mread_part add.commute)

lemma mread_memmove_other [mem_simps]:
  "a + int k \<le> dst \<or> dst + int n \<le> a \<Longrightarrow> mread (memmove m dst src n) a k = mread m a k"
  by (simp add: memmove_def mread_other)

lemma mread_memcpy [mem_simps]:
  "dst \<le> a \<Longrightarrow> a + int k \<le> dst + int n \<Longrightarrow> mread (memcpy m dst m' src n) a k = mread m' (a - dst + src) k"
  by (simp add: memcpy_def mread_inside mread_part add.commute)

lemma mread_memcpy_other [mem_simps]:
  "a + int k \<le> dst \<or> dst + int n \<le> a \<Longrightarrow> mread (memcpy m dst m' src n) a k = mread m a k"
  by (simp add: memcpy_def mread_other)

lemma mread_set_le_other [mem_simps]:
  "a + int n \<le> b \<or> b + int k \<le> a \<Longrightarrow> mread (set_le k m b v) a n = mread m a n"
  by (simp add: set_le_def mread_other)

lemma get_set_le [mem_simps]: "get_le k (set_le k m a v) a = nat (v mod 256 ^ k)"
proof -
  have "v mod 256 ^ k < 256 ^ k" by simp
  then have "nat (v mod 256 ^ k) < 256 ^ k" by (simp add: nat_less_iff)
  then show ?thesis by (simp add: get_le_def set_le_def mread_same)
qed

lemma get_set_le_other [mem_simps]:
  "a + int n \<le> b \<or> b + int k \<le> a \<Longrightarrow> get_le n (set_le k m b v) a = get_le n m a"
  by (simp add: get_le_def mread_set_le_other)

lemma get_le_mwrite_other [mem_simps]:
  "a + int n \<le> b \<or> b + int (length bs) \<le> a \<Longrightarrow> get_le n (mwrite m b bs) a = get_le n m a"
  by (simp add: get_le_def mread_other)

lemma get_le_memmove [mem_simps]:
  "dst \<le> a \<Longrightarrow> a + int k \<le> dst + int n \<Longrightarrow> get_le k (memmove m dst src n) a = get_le k m (a - dst + src)"
  "a + int k \<le> dst \<or> dst + int n \<le> a \<Longrightarrow> get_le k (memmove m dst src n) a = get_le k m a"
  by (simp_all add: get_le_def mread_memmove mread_memmove_other)

lemma get_le_memcpy [mem_simps]:
  "dst \<le> a \<Longrightarrow> a + int k \<le> dst + int n \<Longrightarrow> get_le k (memcpy m dst m' src n) a = get_le k m' (a - dst + src)"
  "a + int k \<le> dst \<or> dst + int n \<le> a \<Longrightarrow> get_le k (memcpy m dst m' src n) a = get_le k m a"
  by (simp_all add: get_le_def mread_memcpy mread_memcpy_other)

lemma get_le_less: "get_le k m a < 256 ^ k"
  using le_value_less [of "mread m a k"] by (simp add: get_le_def)

text \<open>Writes leave everything outside of the written range alone.\<close>

lemma mwrite_outside: "x < a \<or> a + int (length bs) \<le> x \<Longrightarrow> mwrite m a bs x = m x"
  by (auto simp: mwrite_def)

lemma memmove_outside: "x < dst \<or> dst + int n \<le> x \<Longrightarrow> memmove m dst src n x = m x"
  by (simp add: memmove_def mwrite_outside)

lemma memcpy_outside: "x < dst \<or> dst + int n \<le> x \<Longrightarrow> memcpy m dst m' src n x = m x"
  by (simp add: memcpy_def mwrite_outside)

lemma set_le_outside: "x < a \<or> a + int k \<le> x \<Longrightarrow> set_le k m a v x = m x"
  by (simp add: set_le_def mwrite_outside)

text \<open>
  Strings in memory: the bytes in front of the first NUL.  Items are shorter than 65536 bytes (the offsets in a
  node and in an item are 16 bits wide); a scan that leaves the block is cut there.
\<close>

definition mem_str :: "mem \<Rightarrow> int \<Rightarrow> u8 list" where
  "mem_str m a = takeWhile (\<lambda>c. c \<noteq> 0) (mread m a 65536)"

lemma mem_str_eq:
  assumes "mread m a (length bs) = bs" "bs = name @ [0]" "\<forall>c\<in>set name. c \<noteq> 0" "length bs \<le> 65536"
  shows "mem_str m a = name"
proof -
  have "mread m a 65536 = bs @ mread m (a + int (length bs)) (65536 - length bs)"
    using mread_split [of m a "length bs" "65536 - length bs"] assms(1,4) by simp
  then show ?thesis using assms(2,3) by (simp add: mem_str_def takeWhile_append1 takeWhile_append2)
qed

end
