(* ===== verification/Node40.thy ===== *)
theory Node40
  imports Memory LibKey
begin

text \<open>
  The node plugin (\<^verbatim>\<open>plugin/node/node40\<close>): a block with a 28-byte header, item bodies growing up from
  it, and item headers (key, body offset, flags, plugin id) growing down from the end of the block.
  The operations are the pointer arithmetic of \<^verbatim>\<open>node40.c\<close>, for short and large keys.
\<close>

section \<open>Nodes, headers and item headers\<close>

text \<open>
  A node with its block: the bytes, the block size, the dirty flag.  \<open>nd_keypol\<close> is 3 for short keys
  and 4 for large ones; the plugin of the node is given by its id, 0 for node40 and 1 for node41.
\<close>

record node40 =
  nd_mem :: mem
  nd_size :: nat
  nd_dirty :: bool
  nd_kplug :: key_plug
  nd_keypol :: nat
  nd_state :: nat
  nd_plug :: nat

record pos =
  item :: nat
  unit :: nat

text \<open>Offsets in \<^verbatim>\<open>node40_header_t\<close> (packed) and in \<^verbatim>\<open>item_header3_t\<close>, \<^verbatim>\<open>item_header4_t\<close>.\<close>

abbreviation (input) NODE40_MAGIC :: nat where "NODE40_MAGIC \<equiv> 0x52344653"
abbreviation (input) NODE_REISER40_ID :: nat where "NODE_REISER40_ID \<equiv> 0"
abbreviation (input) NODE_REISER41_ID :: nat where "NODE_REISER41_ID \<equiv> 1"
abbreviation (input) NODE40_HEADER_SIZE :: nat where "NODE40_HEADER_SIZE \<equiv> 28"

definition key_size :: "nat \<Rightarrow> nat" where
  "key_size pol = (if pol = 3 then 24 else 32)"

definition ih_size :: "nat \<Rightarrow> nat" where
  "ih_size pol = (if pol = 3 then 30 else 38)"

definition ih_get_offset :: "mem \<Rightarrow> int \<Rightarrow> nat \<Rightarrow> nat" where
  "ih_get_offset m ih pol = get_le 2 m (ih + int (key_size pol))"
definition ih_set_offset :: "mem \<Rightarrow> int \<Rightarrow> int \<Rightarrow> nat \<Rightarrow> mem" where
  "ih_set_offset m ih v pol = set_le 2 m (ih + int (key_size pol)) v"
definition ih_get_flags :: "mem \<Rightarrow> int \<Rightarrow> nat \<Rightarrow> nat" where
  "ih_get_flags m ih pol = get_le 2 m (ih + int (key_size pol) + 2)"
definition ih_set_flags :: "mem \<Rightarrow> int \<Rightarrow> int \<Rightarrow> nat \<Rightarrow> mem" where
  "ih_set_flags m ih v pol = set_le 2 m (ih + int (key_size pol) + 2) v"
definition ih_get_pid :: "mem \<Rightarrow> int \<Rightarrow> nat \<Rightarrow> nat" where
  "ih_get_pid m ih pol = get_le 2 m (ih + int (key_size pol) + 4)"
definition ih_set_pid :: "mem \<Rightarrow> int \<Rightarrow> int \<Rightarrow> nat \<Rightarrow> mem" where
  "ih_set_pid m ih v pol = set_le 2 m (ih + int (key_size pol) + 4) v"

definition nh_get_pid :: "node40 \<Rightarrow> nat" where "nh_get_pid nd = get_le 2 (nd_mem nd) 0"
definition nh_get_num_items :: "node40 \<Rightarrow> nat" where "nh_get_num_items nd = get_le 2 (nd_mem nd) 2"
definition nh_get_free_space :: "node40 \<Rightarrow> nat" where "nh_get_free_space nd = get_le 2 (nd_mem nd) 4"
definition nh_get_free_space_start :: "node40 \<Rightarrow> nat" where
  "nh_get_free_space_start nd = get_le 2 (nd_mem nd) 6"
definition nh_get_magic :: "node40 \<Rightarrow> nat" where "nh_get_magic nd = get_le 4 (nd_mem nd) 8"
definition nh_get_mkfs_id :: "node40 \<Rightarrow> nat" where "nh_get_mkfs_id nd = get_le 4 (nd_mem nd) 12"
definition nh_get_flush_id :: "node40 \<Rightarrow> nat" where "nh_get_flush_id nd = get_le 8 (nd_mem nd) 16"
definition nh_get_level :: "node40 \<Rightarrow> nat" where "nh_get_level nd = get_le 1 (nd_mem nd) 26"

definition nh_set_pid :: "node40 \<Rightarrow> int \<Rightarrow> node40" where
  "nh_set_pid nd v = nd\<lparr>nd_mem := set_le 2 (nd_mem nd) 0 v\<rparr>"
definition nh_set_num_items :: "node40 \<Rightarrow> int \<Rightarrow> node40" where
  "nh_set_num_items nd v = nd\<lparr>nd_mem := set_le 2 (nd_mem nd) 2 v\<rparr>"
definition nh_set_free_space :: "node40 \<Rightarrow> int \<Rightarrow> node40" where
  "nh_set_free_space nd v = nd\<lparr>nd_mem := set_le 2 (nd_mem nd) 4 v\<rparr>"
definition nh_set_free_space_start :: "node40 \<Rightarrow> int \<Rightarrow> node40" where
  "nh_set_free_space_start nd v = nd\<lparr>nd_mem := set_le 2 (nd_mem nd) 6 v\<rparr>"
definition nh_set_magic :: "node40 \<Rightarrow> int \<Rightarrow> node40" where
  "nh_set_magic nd v = nd\<lparr>nd_mem := set_le 4 (nd_mem nd) 8 v\<rparr>"
definition nh_set_mkfs_id :: "node40 \<Rightarrow> int \<Rightarrow> node40" where
  "nh_set_mkfs_id nd v = nd\<lparr>nd_mem := set_le 4 (nd_mem nd) 12 v\<rparr>"
definition nh_set_flush_id :: "node40 \<Rightarrow> int \<Rightarrow> node40" where
  "nh_set_flush_id nd v = nd\<lparr>nd_mem := set_le 8 (nd_mem nd) 16 v\<rparr>"
definition nh_set_level :: "node40 \<Rightarrow> int \<Rightarrow> node40" where
  "nh_set_level nd v = nd\<lparr>nd_mem := set_le 1 (nd_mem nd) 26 v\<rparr>"

definition nh_inc_free_space :: "node40 \<Rightarrow> int \<Rightarrow> node40" where
  "nh_inc_free_space nd v = nh_set_free_space nd (int (nh_get_free_space nd) + v)"
definition nh_dec_free_space :: "node40 \<Rightarrow> int \<Rightarrow> node40" where
  "nh_dec_free_space nd v = nh_set_free_space nd (int (nh_get_free_space nd) - v)"
definition nh_inc_free_space_start :: "node40 \<Rightarrow> int \<Rightarrow> node40" where
  "nh_inc_free_space_start nd v = nh_set_free_space_start nd (int (nh_get_free_space_start nd) + v)"
definition nh_dec_free_space_start :: "node40 \<Rightarrow> int \<Rightarrow> node40" where
  "nh_dec_free_space_start nd v = nh_set_free_space_start nd (int (nh_get_free_space_start nd) - v)"
definition nh_inc_num_items :: "node40 \<Rightarrow> int \<Rightarrow> node40" where
  "nh_inc_num_items nd v = nh_set_num_items nd (int (nh_get_num_items nd) + v)"
definition nh_dec_num_items :: "node40 \<Rightarrow> int \<Rightarrow> node40" where
  "nh_dec_num_items nd v = nh_set_num_items nd (int (nh_get_num_items nd) - v)"

text \<open>The index is a 32-bit number: one past the largest is 0, the end of the block.\<close>

definition node40_ih_at :: "node40 \<Rightarrow> nat \<Rightarrow> int" where
  "node40_ih_at entity pos =
     int (nd_size entity) - int (ih_size (nd_keypol entity)) * int (to_u32 (int pos + 1))"

definition node40_ib_by_ih :: "node40 \<Rightarrow> int \<Rightarrow> int" where
  "node40_ib_by_ih entity ih = int (ih_get_offset (nd_mem entity) ih (nd_keypol entity))"

definition node40_ib_at :: "node40 \<Rightarrow> nat \<Rightarrow> int" where
  "node40_ib_at entity pos = node40_ib_by_ih entity (node40_ih_at entity pos)"

definition node40_get_level :: "node40 \<Rightarrow> nat" where
  "node40_get_level entity = nh_get_level entity"

definition node40_prepare :: "bool \<Rightarrow> mem \<Rightarrow> nat \<Rightarrow> key_plug \<Rightarrow> node40 option" where
  "node40_prepare ok block sz kp =
     (if \<not> ok then None
      else Some \<lparr>nd_mem = block, nd_size = sz, nd_dirty = False, nd_kplug = kp,
                 nd_keypol = key_plug_bodysize kp, nd_state = 0, nd_plug = NODE_REISER40_ID\<rparr>)"

definition node40_mkdirty :: "node40 \<Rightarrow> node40" where
  "node40_mkdirty entity = entity\<lparr>nd_dirty := True\<rparr>"
definition node40_mkclean :: "node40 \<Rightarrow> node40" where
  "node40_mkclean entity = entity\<lparr>nd_dirty := False\<rparr>"
definition node40_isdirty :: "node40 \<Rightarrow> bool" where
  "node40_isdirty entity = nd_dirty entity"
definition node40_get_state :: "node40 \<Rightarrow> nat" where
  "node40_get_state entity = nd_state entity"
definition node40_set_state :: "node40 \<Rightarrow> nat \<Rightarrow> node40" where
  "node40_set_state entity state = entity\<lparr>nd_state := state\<rparr>"
definition node40_get_mstamp :: "node40 \<Rightarrow> nat" where
  "node40_get_mstamp entity = nh_get_mkfs_id entity"
definition node40_get_fstamp :: "node40 \<Rightarrow> nat" where
  "node40_get_fstamp entity = nh_get_flush_id entity"

definition node40_init_common ::
  "mem \<Rightarrow> nat \<Rightarrow> nat \<Rightarrow> key_plug \<Rightarrow> nat \<Rightarrow> nat \<Rightarrow> nat \<Rightarrow>
   (mem \<Rightarrow> nat \<Rightarrow> key_plug \<Rightarrow> node40 option) \<Rightarrow> node40 option" where
  "node40_init_common block sz level kp pid magic node_header_size prepare_fn =
     (case prepare_fn block sz kp of
        None \<Rightarrow> None
      | Some entity \<Rightarrow>
          (let entity = nh_set_num_items entity 0;
               entity = nh_set_level entity (int level);
               entity = nh_set_magic entity (int magic);
               entity = nh_set_pid entity (int pid);
               entity = nh_set_free_space_start entity (int node_header_size);
               entity = nh_set_free_space entity (int sz - int node_header_size)
           in Some entity))"

definition node40_init :: "bool \<Rightarrow> mem \<Rightarrow> nat \<Rightarrow> nat \<Rightarrow> key_plug \<Rightarrow> node40 option" where
  "node40_init ok block sz level kp =
     node40_init_common block sz level kp NODE_REISER40_ID NODE40_MAGIC NODE40_HEADER_SIZE (node40_prepare ok)"

text \<open>\<open>res\<close> is the result of writing the block.\<close>

definition node40_sync :: "int \<Rightarrow> node40 \<Rightarrow> int \<times> node40" where
  "node40_sync res entity = (if res \<noteq> 0 then (res, entity) else (0, node40_mkclean entity))"

definition node40_items :: "node40 \<Rightarrow> nat" where
  "node40_items entity = nh_get_num_items entity"
definition node40_space :: "node40 \<Rightarrow> nat" where
  "node40_space entity = nh_get_free_space entity"
definition node40_set_mstamp :: "node40 \<Rightarrow> nat \<Rightarrow> node40" where
  "node40_set_mstamp entity stamp = node40_mkdirty (nh_set_mkfs_id entity (int stamp))"
definition node40_set_fstamp :: "node40 \<Rightarrow> nat \<Rightarrow> node40" where
  "node40_set_fstamp entity stamp = node40_mkdirty (nh_set_flush_id entity (int stamp))"
definition node40_set_level :: "node40 \<Rightarrow> nat \<Rightarrow> node40" where
  "node40_set_level entity level = node40_mkdirty (nh_set_level entity (int level))"

text \<open>The length is returned as a 16-bit number.\<close>

definition node40_len_by_ih :: "node40 \<Rightarrow> int \<Rightarrow> nat \<Rightarrow> nat \<Rightarrow> nat" where
  "node40_len_by_ih entity ih itm items =
     (let pol = nd_keypol entity; m = nd_mem entity in
      if to_u32 (int itm + 1) = items
      then to_u16 (int (nh_get_free_space_start entity) - int (ih_get_offset m ih pol))
      else to_u16 (int (ih_get_offset m (ih - int (ih_size pol)) pol) - int (ih_get_offset m ih pol)))"

definition node40_len :: "node40 \<Rightarrow> pos \<Rightarrow> nat" where
  "node40_len entity pos =
     node40_len_by_ih entity (node40_ih_at entity (item pos)) (item pos) (nh_get_num_items entity)"

definition node40_open :: "bool \<Rightarrow> mem \<Rightarrow> nat \<Rightarrow> key_plug \<Rightarrow> node40 option" where
  "node40_open ok block sz kp =
     (case node40_prepare ok block sz kp of
        None \<Rightarrow> None
      | Some entity \<Rightarrow> if nh_get_magic entity \<noteq> NODE40_MAGIC then None else Some entity)"

section \<open>Keys of items\<close>

text \<open>
  The key body in memory: element \<open>i\<close> is the little-endian number at byte \<open>8 i\<close>.  Copying a key out
  leaves the elements behind the key size of the node as they were.
\<close>

definition mem_key :: "mem \<Rightarrow> int \<Rightarrow> key_body" where
  "mem_key m ih = (\<lambda>i. word_of_nat (get_le 8 m (ih + 8 * int i)))"

definition key_bytes :: "key_body \<Rightarrow> nat \<Rightarrow> u8 list" where
  "key_bytes body sz = concat (map (\<lambda>i. le_bytes 8 (unat (body i))) [0..<sz div 8])"

definition node40_get_key_by_ih :: "node40 \<Rightarrow> int \<Rightarrow> reiser4_key \<Rightarrow> reiser4_key" where
  "node40_get_key_by_ih entity ih key =
     key\<lparr>kplug := nd_kplug entity,
         kbody := (\<lambda>i. if i < key_size (nd_keypol entity) div 8 then mem_key (nd_mem entity) ih i else kbody key i)\<rparr>"

definition node40_get_key :: "node40 \<Rightarrow> pos \<Rightarrow> reiser4_key \<Rightarrow> reiser4_key" where
  "node40_get_key entity pos key = node40_get_key_by_ih entity (node40_ih_at entity (item pos)) key"

definition node40_put_key :: "node40 \<Rightarrow> int \<Rightarrow> reiser4_key \<Rightarrow> node40" where
  "node40_put_key entity ih key =
     entity\<lparr>nd_mem := mwrite (nd_mem entity) ih (key_bytes (kbody key) (key_size (nd_keypol entity)))\<rparr>"

definition node40_set_key :: "node40 \<Rightarrow> pos \<Rightarrow> reiser4_key \<Rightarrow> node40" where
  "node40_set_key entity pos key =
     node40_mkdirty (node40_put_key entity (node40_ih_at entity (item pos)) key)"

definition cb_comp_key :: "node40 \<Rightarrow> int \<Rightarrow> reiser4_key \<Rightarrow> nat \<Rightarrow> int" where
  "cb_comp_key entity ih0 key2 pos =
     key_plug_compraw (kplug key2)
       (mem_key (nd_mem entity) (ih0 - int (ih_size (nd_keypol entity)) * int pos)) (kbody key2)"

datatype lookup_res = PRESENT | ABSENT | LOOKUP_EIO

text \<open>The number of items has 16 bits, far below the sizes for which the search has no defined result.\<close>

definition node40_lookup :: "node40 \<Rightarrow> reiser4_key \<Rightarrow> lookup_res \<times> nat" where
  "node40_lookup entity key =
     (let ih = node40_ih_at entity 0;
          (res, itm) = the (aux_bin_search (nh_get_num_items entity) (cb_comp_key entity ih key))
      in (if res = 1 then PRESENT else if res = 0 then ABSENT else LOOKUP_EIO, itm))"

definition node40_set_flags :: "node40 \<Rightarrow> nat \<Rightarrow> nat \<Rightarrow> node40" where
  "node40_set_flags entity pos flags =
     node40_mkdirty (entity\<lparr>nd_mem := ih_set_flags (nd_mem entity) (node40_ih_at entity pos) (int flags) (nd_keypol entity)\<rparr>)"

definition node40_get_flags :: "node40 \<Rightarrow> nat \<Rightarrow> nat" where
  "node40_get_flags entity pos = ih_get_flags (nd_mem entity) (node40_ih_at entity pos) (nd_keypol entity)"

section \<open>Making and taking room\<close>

definition node40_overhead :: "node40 \<Rightarrow> nat" where
  "node40_overhead entity = ih_size (nd_keypol entity)"

definition node40_maxspace :: "node40 \<Rightarrow> nat" where
  "node40_maxspace entity = to_u16 (int (nd_size entity) - 28 - int (ih_size (nd_keypol entity)))"

definition node40_size :: "node40 \<Rightarrow> pos \<Rightarrow> nat \<Rightarrow> nat" where
  "node40_size entity pos count =
     (let pol = nd_keypol entity; m = nd_mem entity; ih = node40_ih_at entity (item pos);
          len = (if to_u32 (int (item pos) + int count) < nh_get_num_items entity
                 then ih_get_offset m (ih - int (to_u32 (int (ih_size pol) * int count))) pol
                 else nh_get_free_space_start entity)
      in to_u32 (int len - int (ih_get_offset m ih pol)))"

text \<open>The loops over item headers that add to, or subtract from, the body offset.\<close>

fun ih_shift_offsets :: "nat \<Rightarrow> mem \<Rightarrow> int \<Rightarrow> int \<Rightarrow> nat \<Rightarrow> mem" where
  "ih_shift_offsets 0 m ih d pol = m"
| "ih_shift_offsets (Suc n) m ih d pol =
     ih_shift_offsets n (ih_set_offset m ih (int (ih_get_offset m ih pol) + d) pol) (ih - int (ih_size pol)) d pol"

definition node40_expand :: "node40 \<Rightarrow> pos \<Rightarrow> nat \<Rightarrow> nat \<Rightarrow> int \<times> node40" where
  "node40_expand entity pos len count =
     (if len = 0 then (0, entity)
      else
        (let pol = nd_keypol entity;
             headers = to_u32 (int count * int (ih_size pol));
             items = nh_get_num_items entity;
             insert = (unit pos = MAX_UINT32);
             itm = to_u32 (int (item pos) + (if insert then 0 else 1));
             ih = node40_ih_at entity itm;
             (offset, entity) =
               (if itm < items then
                  (let offset = ih_get_offset (nd_mem entity) ih pol;
                       src = int offset;
                       dst = int offset + int len;
                       size = to_u32 (int (nh_get_free_space_start entity) - int offset);
                       m = memmove (nd_mem entity) dst src size;
                       m = ih_shift_offsets (items - itm) m ih (int len) pol;
                       m = (if insert then
                              (let src = node40_ih_at entity (to_u32 (int items - 1));
                                   dst = node40_ih_at entity (to_u32 (int items - 1 + int count));
                                   size = to_u32 (int (ih_size pol) * (int items - int itm))
                               in memmove m dst src size)
                            else m)
                   in (offset, entity\<lparr>nd_mem := m\<rparr>))
                else (nh_get_free_space_start entity, entity));
             entity = nh_inc_free_space_start entity (int len);
             entity = nh_dec_free_space entity (int len);
             entity =
               (if insert then
                  (let m = ih_set_flags (nd_mem entity) ih 0 pol;
                       m = ih_set_offset m ih (int offset) pol;
                       entity = entity\<lparr>nd_mem := m\<rparr>;
                       entity = nh_inc_num_items entity (int count)
                   in nh_dec_free_space entity (int headers))
                else entity)
         in (0, node40_mkdirty entity)))"

text \<open>The \<^verbatim>\<open>while (cur >= end)\<close> loop of the unit branch.\<close>

function ih_shift_offsets_to :: "mem \<Rightarrow> int \<Rightarrow> int \<Rightarrow> int \<Rightarrow> nat \<Rightarrow> mem" where
  "ih_shift_offsets_to m cur endp d pol =
     (if cur \<ge> endp then
        ih_shift_offsets_to (ih_set_offset m cur (int (ih_get_offset m cur pol) + d) pol)
          (cur - int (ih_size pol)) endp d pol
      else m)"
  by pat_completeness auto
termination
  by (relation "measure (\<lambda>(m, cur, endp, d, pol). nat (cur - endp + 1))") (auto simp: ih_size_def)

declare ih_shift_offsets_to.simps [simp del]

definition node40_shrink :: "node40 \<Rightarrow> pos \<Rightarrow> nat \<Rightarrow> nat \<Rightarrow> int \<times> node40" where
  "node40_shrink entity pos len count =
     (let pol = nd_keypol entity;
          items = nh_get_num_items entity;
          endp = node40_ih_at entity (to_u32 (int items - 1));
          entity =
            (if unit pos = MAX_UINT32 then
               (let headers = to_u32 (int count * int (ih_size pol));
                    entity =
                      (if to_u32 (int (item pos) + int count) < items then
                         (let dst = node40_ib_at entity (item pos);
                              src = dst + int len;
                              size = to_u32 (endp - src);
                              m = memmove (nd_mem entity) dst src size;
                              src = node40_ih_at entity (to_u32 (int items - 1));
                              dst = src + int headers;
                              size = to_u32 ((int items - int (to_u32 (int (item pos) + int count))) * int (ih_size pol));
                              m = memmove m dst src size;
                              m = ih_shift_offsets (to_u32 (int items - int count) - item pos) m
                                    (node40_ih_at entity (item pos)) (- int len) pol
                          in entity\<lparr>nd_mem := m\<rparr>)
                       else entity);
                    entity = nh_dec_num_items entity (int count)
                in nh_inc_free_space entity (int len + int headers))
             else
               (let ih = node40_ih_at entity (item pos);
                    ilen = node40_len_by_ih entity ih (item pos) items;
                    src = node40_ib_at entity (item pos) + int ilen;
                    dst = src - int len;
                    size = to_u32 (endp - src);
                    m = memmove (nd_mem entity) dst src size;
                    m = ih_shift_offsets_to m (ih - int (ih_size pol)) endp (- int len) pol;
                    entity = entity\<lparr>nd_mem := m\<rparr>
                in nh_inc_free_space entity (int len)));
          entity = nh_dec_free_space_start entity (int len)
      in (0, node40_mkdirty entity))"

text \<open>The loop that gives the copied headers their offsets in the destination.\<close>

fun node40_copy_offsets :: "nat \<Rightarrow> mem \<Rightarrow> int \<Rightarrow> int \<Rightarrow> int \<Rightarrow> int \<Rightarrow> nat \<Rightarrow> mem" where
  "node40_copy_offsets 0 m ih endp offset fss pol = m"
| "node40_copy_offsets (Suc n) m ih endp offset fss pol =
     (let old = ih_get_offset m ih pol;
          m = ih_set_offset m ih offset pol;
          offset = (if ih = endp then offset + (fss - int (ih_get_offset m ih pol))
                    else offset + (int (ih_get_offset m (ih - int (ih_size pol)) pol) - int old));
          offset = int (to_u32 offset)
      in node40_copy_offsets n m (ih - int (ih_size pol)) endp offset fss pol)"

definition node40_copy :: "node40 \<Rightarrow> pos \<Rightarrow> node40 \<Rightarrow> pos \<Rightarrow> nat \<Rightarrow> int \<times> node40" where
  "node40_copy dst_entity dst_pos src_entity src_pos count =
     (let pol = nd_keypol dst_entity;
          headers = to_u32 (int count * int (ih_size pol));
          items = nh_get_num_items dst_entity;
          fss = nh_get_free_space_start dst_entity;
          size = node40_size src_entity src_pos count;
          src = node40_ib_at src_entity (item src_pos);
          body = (if item dst_pos < to_u32 (int items - int count)
                  then node40_ib_at dst_entity (item dst_pos)
                  else int fss - int size);
          m = memcpy (nd_mem dst_entity) body (nd_mem src_entity) src size;
          src = node40_ih_at src_entity (to_u32 (int (item src_pos) + int count - 1));
          dst = node40_ih_at dst_entity (to_u32 (int (item dst_pos) + int count - 1));
          m = memcpy m dst (nd_mem src_entity) src headers;
          endp = node40_ih_at dst_entity (to_u32 (int items - 1));
          ih = dst + int (ih_size pol) * int (to_u32 (int count - 1));
          offset = to_u32 body;
          m = node40_copy_offsets count m ih endp (int offset) (int fss) pol
      in (0, node40_mkdirty (dst_entity\<lparr>nd_mem := m\<rparr>)))"

end
