(* ===== verification/NodeView.thy ===== *)
theory NodeView
  imports Node40
begin

text \<open>
  The abstract view of a node: the list of its items.  A well-formed node has its bodies and headers
  in order and accounts for every byte of the block; the lemmas here say what making room and taking
  items out does to the list.
\<close>

section \<open>Items and well-formed nodes\<close>

record node_item =
  it_key :: "u8 list"
  it_flags :: nat
  it_pid :: nat
  it_body :: "u8 list"

definition nd_head :: "node40 \<Rightarrow> nat \<Rightarrow> int" where
  "nd_head nd j = int (nd_size nd) - int (ih_size (nd_keypol nd)) * (int j + 1)"

definition nd_off :: "node40 \<Rightarrow> nat \<Rightarrow> nat" where
  "nd_off nd j =
     (if j < nh_get_num_items nd then ih_get_offset (nd_mem nd) (nd_head nd j) (nd_keypol nd)
      else nh_get_free_space_start nd)"

definition nd_item :: "node40 \<Rightarrow> nat \<Rightarrow> node_item" where
  "nd_item nd j =
     \<lparr>it_key = mread (nd_mem nd) (nd_head nd j) (key_size (nd_keypol nd)),
      it_flags = ih_get_flags (nd_mem nd) (nd_head nd j) (nd_keypol nd),
      it_pid = ih_get_pid (nd_mem nd) (nd_head nd j) (nd_keypol nd),
      it_body = mread (nd_mem nd) (int (nd_off nd j)) (nd_off nd (Suc j) - nd_off nd j)\<rparr>"

definition nd_items :: "node40 \<Rightarrow> node_item list" where
  "nd_items nd = map (nd_item nd) [0..<nh_get_num_items nd]"

text \<open>The size of the node header: that of node41 has a checksum in addition.\<close>

definition nd_hdr :: "node40 \<Rightarrow> nat" where
  "nd_hdr nd = (if nd_plug nd = NODE_REISER40_ID then 28 else 32)"

definition nd_wf :: "node40 \<Rightarrow> bool" where
  "nd_wf nd \<longleftrightarrow> nd_keypol nd \<in> {3, 4} \<and> nd_size nd < 65536 \<and>
     nh_get_free_space_start nd + nh_get_free_space nd + nh_get_num_items nd * ih_size (nd_keypol nd) = nd_size nd \<and>
     nd_off nd 0 = nd_hdr nd \<and> (\<forall>j<nh_get_num_items nd. nd_off nd j \<le> nd_off nd (Suc j))"

lemma nd_off_mono:
  assumes "nd_wf nd" "i \<le> j" "j \<le> nh_get_num_items nd"
  shows "nd_off nd i \<le> nd_off nd j"
  using assms(2,3)
proof (induction j rule: dec_induct)
  case (step l)
  then have "nd_off nd l \<le> nd_off nd (Suc l)" using assms(1) by (simp add: nd_wf_def)
  with step show ?case by simp
qed simp

lemma nd_plug_simps [simp]:
  "nd_plug (nh_set_pid nd v) = nd_plug nd" "nd_plug (nh_set_num_items nd v) = nd_plug nd"
  "nd_plug (nh_set_free_space nd v) = nd_plug nd" "nd_plug (nh_set_free_space_start nd v) = nd_plug nd"
  "nd_plug (nh_inc_free_space nd v) = nd_plug nd" "nd_plug (nh_dec_free_space nd v) = nd_plug nd"
  "nd_plug (nh_inc_free_space_start nd v) = nd_plug nd" "nd_plug (nh_dec_free_space_start nd v) = nd_plug nd"
  "nd_plug (nh_inc_num_items nd v) = nd_plug nd" "nd_plug (nh_dec_num_items nd v) = nd_plug nd"
  "nd_plug (node40_mkdirty nd) = nd_plug nd"
  by (simp_all add: nh_set_pid_def nh_set_num_items_def nh_set_free_space_def nh_set_free_space_start_def
      nh_inc_free_space_def nh_dec_free_space_def nh_inc_free_space_start_def nh_dec_free_space_start_def
      nh_inc_num_items_def nh_dec_num_items_def node40_mkdirty_def)

lemma nd_plug_ops [simp]:
  "nd_plug (snd (node40_expand nd ps len count)) = nd_plug nd"
  "nd_plug (snd (node40_shrink nd ps len count)) = nd_plug nd"
  "nd_plug (snd (node40_copy nd ps nd' ps' count)) = nd_plug nd"
  by (simp_all add: node40_expand_def node40_shrink_def node40_copy_def Let_def case_prod_unfold)

lemma nd_off_end: "nh_get_num_items nd \<le> j \<Longrightarrow> nd_off nd j = nh_get_free_space_start nd"
  by (simp add: nd_off_def)

lemma nd_off_bounds:
  assumes "nd_wf nd"
  shows "28 \<le> nd_off nd j" "nd_off nd j \<le> nh_get_free_space_start nd"
proof -
  show "28 \<le> nd_off nd j"
  proof (cases "j \<le> nh_get_num_items nd")
    case True
    then show ?thesis using nd_off_mono [OF assms, of 0 j] assms by (simp add: nd_wf_def nd_hdr_def split: if_splits)
  next
    case False
    then show ?thesis using nd_off_mono [OF assms, of 0 "nh_get_num_items nd"] assms
      by (simp add: nd_wf_def nd_off_end nd_hdr_def split: if_splits)
  qed
  show "nd_off nd j \<le> nh_get_free_space_start nd"
  proof (cases "j \<le> nh_get_num_items nd")
    case True
    then show ?thesis using nd_off_mono [OF assms, of j "nh_get_num_items nd"] by (simp add: nd_off_end)
  qed (simp add: nd_off_end)
qed

lemma ih_at_head: "j < 4294967295 \<Longrightarrow> node40_ih_at nd j = nd_head nd j"
  by (simp add: node40_ih_at_def nd_head_def to_u32_id)

section \<open>The offset loops\<close>

lemma shift_offsets_read:
  assumes "\<forall>i<cnt. a + int n \<le> ih - int (ih_size pol) * int i + int (key_size pol) \<or>
      ih - int (ih_size pol) * int i + int (key_size pol) + 2 \<le> a"
  shows "mread (ih_shift_offsets cnt m ih d pol) a n = mread m a n"
  using assms
proof (induction cnt arbitrary: m ih)
  case (Suc cnt)
  have "\<forall>i<cnt. a + int n \<le> (ih - int (ih_size pol)) - int (ih_size pol) * int i + int (key_size pol) \<or>
      (ih - int (ih_size pol)) - int (ih_size pol) * int i + int (key_size pol) + 2 \<le> a"
  proof (intro allI impI)
    fix i assume "i < cnt"
    then have "a + int n \<le> ih - int (ih_size pol) * int (Suc i) + int (key_size pol) \<or>
      ih - int (ih_size pol) * int (Suc i) + int (key_size pol) + 2 \<le> a" using Suc.prems by blast
    then show "a + int n \<le> (ih - int (ih_size pol)) - int (ih_size pol) * int i + int (key_size pol) \<or>
      (ih - int (ih_size pol)) - int (ih_size pol) * int i + int (key_size pol) + 2 \<le> a"
      by (simp add: algebra_simps)
  qed
  then show ?case
    using Suc.IH Suc.prems [rule_format, of 0] by (auto simp: ih_set_offset_def mread_set_le_other)
qed simp

lemma shift_offsets_get:
  assumes "pol \<in> {3, 4}" "i < cnt"
  shows "ih_get_offset (ih_shift_offsets cnt m ih d pol) (ih - int (ih_size pol) * int i) pol =
    nat ((int (ih_get_offset m (ih - int (ih_size pol) * int i) pol) + d) mod 65536)"
  using assms(2)
proof (induction cnt arbitrary: m ih i)
  case (Suc cnt)
  let ?h = "int (ih_size pol)" and ?m = "ih_set_offset m ih (int (ih_get_offset m ih pol) + d) pol"
  show ?case
  proof (cases i)
    case 0
    have "get_le 2 (ih_shift_offsets cnt ?m (ih - ?h) d pol) (ih + int (key_size pol)) =
        get_le 2 ?m (ih + int (key_size pol))"
      unfolding get_le_def
      by (rule arg_cong [OF shift_offsets_read]) (use assms(1) in \<open>auto simp: ih_size_def key_size_def\<close>)
    then show ?thesis by (simp add: 0 ih_get_offset_def ih_set_offset_def get_set_le)
  next
    case (Suc i')
    have eq: "ih - ?h * int (Suc i') = (ih - ?h) - ?h * int i'" by (simp add: algebra_simps)
    have "ih_get_offset ?m ((ih - ?h) - ?h * int i') pol = ih_get_offset m ((ih - ?h) - ?h * int i') pol"
      using assms(1) by (auto simp: ih_get_offset_def ih_set_offset_def ih_size_def key_size_def mem_simps)
    with Suc.IH [of i' ?m "ih - ?h"] Suc.prems show ?thesis
      unfolding Suc eq by (simp add: Suc)
  qed
qed simp

lemma nd_wfD:
  assumes "nd_wf nd"
  shows "ih_size (nd_keypol nd) = 30 \<and> key_size (nd_keypol nd) = 24 \<or>
      ih_size (nd_keypol nd) = 38 \<and> key_size (nd_keypol nd) = 32"
    and "nh_get_free_space_start nd + nh_get_free_space nd + nh_get_num_items nd * ih_size (nd_keypol nd) = nd_size nd"
    and "nd_size nd < 65536" and "nd_keypol nd \<in> {3, 4}"
  using assms by (auto simp: nd_wf_def ih_size_def key_size_def)

text \<open>Reading a header around its offset field is not affected by the offset loops.\<close>

lemma head_part_disjoint:
  assumes "nd_keypol nd \<in> {3, 4}"
    and "i + l \<le> key_size (nd_keypol nd) \<or> key_size (nd_keypol nd) + 2 \<le> i \<and> i + l \<le> ih_size (nd_keypol nd)"
  shows "nd_head nd j + int i + int l \<le> nd_head nd p - int (ih_size (nd_keypol nd)) * int x + int (key_size (nd_keypol nd)) \<or>
      nd_head nd p - int (ih_size (nd_keypol nd)) * int x + int (key_size (nd_keypol nd)) + 2 \<le> nd_head nd j + int i"
proof -
  let ?pol = "nd_keypol nd"
  have sizes: "ih_size ?pol = 30 \<and> key_size ?pol = 24 \<or> ih_size ?pol = 38 \<and> key_size ?pol = 32"
    using assms(1) by (auto simp: ih_size_def key_size_def)
  consider "int x + int p + 1 \<le> int j" | "int x + int p = int j" | "int j + 1 \<le> int x + int p" by linarith
  then show ?thesis
  proof cases
    case 2
    then have "nd_head nd p - int (ih_size ?pol) * int x = nd_head nd j"
      unfolding nd_head_def by (simp add: algebra_simps flip: 2)
    then show ?thesis using assms(2) by auto
  qed (use sizes assms(2) in \<open>auto simp: nd_head_def algebra_simps\<close>)
qed

lemma shift_offsets_head:
  assumes "nd_wf nd" and "i + l \<le> key_size (nd_keypol nd) \<or> key_size (nd_keypol nd) + 2 \<le> i \<and> i + l \<le> ih_size (nd_keypol nd)"
  shows "mread (ih_shift_offsets cnt m (nd_head nd p) d (nd_keypol nd)) (nd_head nd j + int i) l = mread m (nd_head nd j + int i) l"
  using head_part_disjoint [OF nd_wfD(4) [OF assms(1)] assms(2)] by (intro shift_offsets_read) blast

section \<open>Making room for items\<close>

definition nd_room :: "node40 \<Rightarrow> nat \<Rightarrow> nat \<Rightarrow> nat \<Rightarrow> mem" where
  "nd_room nd p len c =
     (let pol = nd_keypol nd; n = nh_get_num_items nd; h = ih_size pol; off = nd_off nd p
      in if p < n then
           memmove (ih_shift_offsets (n - p)
               (memmove (nd_mem nd) (int off + int len) (int off) (nh_get_free_space_start nd - off))
               (nd_head nd p) (int len) pol)
             (nd_head nd (n + c - 1)) (nd_head nd (n - 1)) (h * (n - p))
         else nd_mem nd)"

lemma room_outside:
  assumes "nd_wf nd" "p \<le> nh_get_num_items nd" "len + c * ih_size (nd_keypol nd) \<le> nh_get_free_space nd"
    and "int (nd_size nd) - int (ih_size (nd_keypol nd)) * int p \<le> a \<or> a + int l \<le> int (nd_off nd p)"
  shows "mread (nd_room nd p len c) a l = mread (nd_mem nd) a l"
proof (cases "p < nh_get_num_items nd")
  case True
  note wf = nd_wfD [OF assms(1)] and b = nd_off_bounds [OF assms(1), of p]
  let ?pol = "nd_keypol nd" and ?n = "nh_get_num_items nd" and ?off = "nd_off nd p"
  let ?m1 = "memmove (nd_mem nd) (int ?off + int len) (int ?off) (nh_get_free_space_start nd - ?off)"
  let ?m2 = "ih_shift_offsets (?n - p) ?m1 (nd_head nd p) (int len) ?pol"
  have "mread ?m1 a l = mread (nd_mem nd) a l"
    using True wf b assms(2-4) by (intro mread_memmove_other) auto
  moreover have "mread ?m2 a l = mread ?m1 a l"
    using True wf b assms(2-4) by (intro shift_offsets_read) (auto simp: nd_head_def)
  moreover have "mread (memmove ?m2 (nd_head nd (?n + c - 1)) (nd_head nd (?n - 1)) (ih_size ?pol * (?n - p))) a l = mread ?m2 a l"
    using True wf b assms(2-4) by (intro mread_memmove_other) (auto simp: nd_head_def of_nat_diff algebra_simps)
  ultimately show ?thesis using True by (simp add: nd_room_def Let_def)
qed (simp add: nd_room_def Let_def)

lemma room_body:
  assumes "nd_wf nd" "p < nh_get_num_items nd" "len + c * ih_size (nd_keypol nd) \<le> nh_get_free_space nd"
    and "int (nd_off nd p) \<le> a" "a + int l \<le> int (nh_get_free_space_start nd)"
  shows "mread (nd_room nd p len c) (a + int len) l = mread (nd_mem nd) a l"
proof -
  note wf = nd_wfD [OF assms(1)] and b = nd_off_bounds [OF assms(1), of p]
  let ?pol = "nd_keypol nd" and ?n = "nh_get_num_items nd" and ?off = "nd_off nd p"
  let ?m1 = "memmove (nd_mem nd) (int ?off + int len) (int ?off) (nh_get_free_space_start nd - ?off)"
  let ?m2 = "ih_shift_offsets (?n - p) ?m1 (nd_head nd p) (int len) ?pol"
  have "mread ?m1 (a + int len) l = mread (nd_mem nd) a l"
    using wf b assms(2-) by (subst mread_memmove) (auto simp: algebra_simps)
  moreover have "mread ?m2 (a + int len) l = mread ?m1 (a + int len) l"
    using wf b assms(2-) by (intro shift_offsets_read) (auto simp: nd_head_def)
  moreover have "mread (memmove ?m2 (nd_head nd (?n + c - 1)) (nd_head nd (?n - 1)) (ih_size ?pol * (?n - p))) (a + int len) l = mread ?m2 (a + int len) l"
    using wf b assms(2-) by (intro mread_memmove_other) (auto simp: nd_head_def of_nat_diff algebra_simps)
  ultimately show ?thesis using assms(2) by (simp add: nd_room_def Let_def)
qed

lemma room_head:
  assumes "nd_wf nd" "p \<le> j" "j < nh_get_num_items nd" "len + c * ih_size (nd_keypol nd) \<le> nh_get_free_space nd"
  shows "i + l \<le> key_size (nd_keypol nd) \<or> key_size (nd_keypol nd) + 2 \<le> i \<and> i + l \<le> ih_size (nd_keypol nd) \<Longrightarrow>
      mread (nd_room nd p len c) (nd_head nd (j + c) + int i) l = mread (nd_mem nd) (nd_head nd j + int i) l"
    and "ih_get_offset (nd_room nd p len c) (nd_head nd (j + c)) (nd_keypol nd) = nd_off nd j + len"
proof -
  note wf = nd_wfD [OF assms(1)] and b = nd_off_bounds [OF assms(1), of p] nd_off_bounds [OF assms(1), of j]
  let ?pol = "nd_keypol nd" and ?n = "nh_get_num_items nd" and ?off = "nd_off nd p"
  let ?m1 = "memmove (nd_mem nd) (int ?off + int len) (int ?off) (nh_get_free_space_start nd - ?off)"
  let ?m2 = "ih_shift_offsets (?n - p) ?m1 (nd_head nd p) (int len) ?pol"
  let ?m3 = "memmove ?m2 (nd_head nd (?n + c - 1)) (nd_head nd (?n - 1)) (ih_size ?pol * (?n - p))"
  have m3: "nd_room nd p len c = ?m3" using assms(2,3) by (simp add: nd_room_def Let_def)
  have moved: "mread ?m3 (nd_head nd (j + c) + int i) l = mread ?m2 (nd_head nd j + int i) l"
    if "i + l \<le> ih_size ?pol" for i l
  proof -
    have "mread ?m3 (nd_head nd (j + c) + int i) l =
        mread ?m2 (nd_head nd (j + c) + int i - nd_head nd (?n + c - 1) + nd_head nd (?n - 1)) l"
      using wf assms(2-) that by (intro mread_memmove) (auto simp: nd_head_def of_nat_diff algebra_simps)
    moreover have "nd_head nd (j + c) + int i - nd_head nd (?n + c - 1) + nd_head nd (?n - 1) = nd_head nd j + int i"
      using assms(3) by (simp add: nd_head_def of_nat_diff algebra_simps)
    ultimately show ?thesis by (simp only:)
  qed
  have m1: "mread ?m1 (nd_head nd j + int i) l = mread (nd_mem nd) (nd_head nd j + int i) l" for i l
    using wf b assms(2-) by (intro mread_memmove_other) (auto simp: nd_head_def)
  show "mread (nd_room nd p len c) (nd_head nd (j + c) + int i) l = mread (nd_mem nd) (nd_head nd j + int i) l"
    if "i + l \<le> key_size ?pol \<or> key_size ?pol + 2 \<le> i \<and> i + l \<le> ih_size ?pol" for i l
  proof -
    have "mread ?m2 (nd_head nd j + int i) l = mread ?m1 (nd_head nd j + int i) l"
      by (rule shift_offsets_head [OF assms(1) that])
    then show ?thesis unfolding m3 using moved [of i l] m1 that wf(1) by auto
  qed
  have idx: "nd_head nd p - int (ih_size ?pol) * int (j - p) = nd_head nd j"
    using assms(2) by (simp add: nd_head_def of_nat_diff algebra_simps)
  have "ih_get_offset ?m3 (nd_head nd (j + c)) ?pol = ih_get_offset ?m2 (nd_head nd j) ?pol"
    using moved [of "key_size ?pol" 2] wf(1) by (auto simp: ih_get_offset_def get_le_def)
  also have "\<dots> = nat ((int (ih_get_offset ?m1 (nd_head nd j) ?pol) + int len) mod 65536)"
    by (rule shift_offsets_get [OF wf(4), of "j - p" "?n - p" ?m1 "nd_head nd p" "int len", unfolded idx])
      (use assms(2,3) in simp)
  also have "ih_get_offset ?m1 (nd_head nd j) ?pol = nd_off nd j"
    using m1 [of "key_size ?pol" 2] assms(3) by (simp add: ih_get_offset_def get_le_def nd_off_def)
  also have "nat ((int (nd_off nd j) + int len) mod 65536) = nd_off nd j + len"
    using wf b assms(4) by (simp add: nat_add_distrib)
  finally show "ih_get_offset (nd_room nd p len c) (nd_head nd (j + c)) ?pol = nd_off nd j + len"
    unfolding m3 .
qed

section \<open>What expanding for new items does\<close>

lemma set_get_u16 [mem_simps]: "0 \<le> v \<Longrightarrow> v < 65536 \<Longrightarrow> get_le 2 (set_le 2 m a v) a = nat v"
  by (simp add: get_set_le)

lemma expand_insert_eq:
  assumes "nd_wf nd" "p \<le> nh_get_num_items nd" "len + c * ih_size (nd_keypol nd) \<le> nh_get_free_space nd"
    "0 < len" "0 < c"
  defines "m1 \<equiv> set_le 2 (nd_room nd p len c) 6 (int (nh_get_free_space_start nd + len))"
  defines "m2 \<equiv> set_le 2 m1 4 (int (nh_get_free_space nd - len))"
  defines "m3 \<equiv> ih_set_offset (ih_set_flags m2 (nd_head nd p) 0 (nd_keypol nd)) (nd_head nd p) (int (nd_off nd p)) (nd_keypol nd)"
  defines "m4 \<equiv> set_le 2 m3 2 (int (nh_get_num_items nd + c))"
  shows "node40_expand nd \<lparr>item = p, unit = MAX_UINT32\<rparr> len c =
    (0, nd\<lparr>nd_mem := set_le 2 m4 4 (int (nh_get_free_space nd - (len + c * ih_size (nd_keypol nd)))), nd_dirty := True\<rparr>)"
proof -
  note wf = nd_wfD [OF assms(1)] and b = nd_off_bounds [OF assms(1), of p]
  let ?pol = "nd_keypol nd" and ?n = "nh_get_num_items nd"
  have small: "?n < 65536" "p < 65536" "c < 65536" "c * ih_size ?pol < 65536" "ih_size ?pol * (?n - p) < 65536"
    using wf assms(2,3) by auto
  have w: "to_u32 (int c * int (ih_size ?pol)) = c * ih_size ?pol" "to_u32 (int p) = p"
    "to_u32 (int (nh_get_free_space_start nd) - int (nd_off nd p)) = nh_get_free_space_start nd - nd_off nd p"
    using small b wf by (simp_all add: wrap_simps flip: of_nat_mult)
  have n: "to_u32 (int ?n - 1) = ?n - 1" "to_u32 (int ?n - 1 + int c) = ?n + c - 1"
      "to_u32 (int (ih_size ?pol) * (int ?n - int p)) = ih_size ?pol * (?n - p)"
    if "p < ?n"
  proof -
    show "to_u32 (int ?n - 1) = ?n - 1" using to_u32_diff [of 1 ?n] that small by simp
    show "to_u32 (int ?n - 1 + int c) = ?n + c - 1"
      using to_u32_add [of "?n - 1" c] that small by (simp add: of_nat_diff)
    show "to_u32 (int (ih_size ?pol) * (int ?n - int p)) = ih_size ?pol * (?n - p)"
      using to_u32_nat [of "ih_size ?pol * (?n - p)"] that small by (simp add: of_nat_diff)
  qed
  have hd: "node40_ih_at nd p = nd_head nd p" "node40_ih_at nd (?n + c - Suc 0) = nd_head nd (?n + c - Suc 0)"
     "node40_ih_at nd (?n - Suc 0) = nd_head nd (?n - Suc 0)"
    using small by (simp_all add: ih_at_head)
  have r: "get_le 2 (nd_room nd p len c) a = get_le 2 (nd_mem nd) a" if "a + 2 \<le> 28" for a
    unfolding get_le_def using that b by (subst room_outside [OF assms(1-3)]) auto
  let ?e = "nh_dec_free_space (nh_inc_free_space_start (nd\<lparr>nd_mem := nd_room nd p len c\<rparr>) (int len)) (int len)"
  let ?e2 = "?e\<lparr>nd_mem := ih_set_offset (ih_set_flags (nd_mem ?e) (nd_head nd p) 0 ?pol) (nd_head nd p) (int (nd_off nd p)) ?pol\<rparr>"
  have fin: "node40_mkdirty (nh_dec_free_space (nh_inc_num_items ?e2 (int c)) (int c * int (ih_size ?pol))) =
      nd\<lparr>nd_mem := set_le 2 m4 4 (int (nh_get_free_space nd - (len + c * ih_size ?pol))), nd_dirty := True\<rparr>"
  proof -
    have 1: "nd_mem ?e = m2"
      using assms(3) r [of 6] r [of 4]
      by (simp add: nh_inc_free_space_start_def nh_dec_free_space_def nh_set_free_space_start_def nh_set_free_space_def
          nh_get_free_space_start_def nh_get_free_space_def m1_def m2_def mem_simps of_nat_diff)
    have h: "28 \<le> nd_head nd p"
      using wf b assms(2,3,5) by (auto simp: nd_head_def)
    have m3: "get_le 2 m3 a = get_le 2 m2 a" if "a + 2 \<le> 28" for a
      using h that by (simp add: m3_def ih_set_offset_def ih_set_flags_def mem_simps)
    have 2: "get_le 2 m3 2 = ?n"
      using m3 [of 2] r [of 2] by (simp add: m2_def m1_def mem_simps nh_get_num_items_def)
    have "get_le 2 m3 4 = nh_get_free_space nd - len"
      using m3 [of 4] wf assms(3) by (simp add: m2_def mem_simps of_nat_diff)
    then have 3: "get_le 2 m4 4 = nh_get_free_space nd - len"
      by (simp add: m4_def mem_simps)
    have "nh_inc_num_items ?e2 (int c) = ?e2\<lparr>nd_mem := m4\<rparr>"
      using 2 by (simp add: 1 nh_inc_num_items_def nh_set_num_items_def nh_get_num_items_def m3_def m4_def)
    moreover have "nh_dec_free_space (?e2\<lparr>nd_mem := m4\<rparr>) (int c * int (ih_size ?pol)) =
        ?e2\<lparr>nd_mem := set_le 2 m4 4 (int (nh_get_free_space nd - (len + c * ih_size ?pol)))\<rparr>"
      using 3 assms(3)
      by (simp add: nh_dec_free_space_def nh_set_free_space_def nh_get_free_space_def of_nat_diff diff_diff_eq)
    moreover have "?e2\<lparr>nd_mem := m\<rparr> = nd\<lparr>nd_mem := m\<rparr>" for m
      by (simp add: nh_inc_free_space_start_def nh_dec_free_space_def nh_set_free_space_start_def nh_set_free_space_def)
    ultimately show ?thesis by (simp add: node40_mkdirty_def)
  qed
  show ?thesis
  proof (cases "p < ?n")
    case True
    have o: "ih_get_offset (nd_mem nd) (nd_head nd p) ?pol = nd_off nd p"
      using True by (simp add: nd_off_def)
    have room: "memmove (ih_shift_offsets (?n - p)
               (memmove (nd_mem nd) (int (nd_off nd p) + int len) (int (nd_off nd p)) (nh_get_free_space_start nd - nd_off nd p))
               (nd_head nd p) (int len) ?pol)
             (nd_head nd (?n + c - Suc 0)) (nd_head nd (?n - Suc 0)) (ih_size ?pol * (?n - p)) = nd_room nd p len c"
      using True by (simp add: nd_room_def Let_def)
    show ?thesis
      using assms(4) True
      by (simp add: node40_expand_def Let_def w n hd o room fin)
  next
    case False
    then have "nd_room nd p len c = nd_mem nd" "nd_off nd p = nh_get_free_space_start nd"
      by (simp_all add: nd_room_def Let_def nd_off_def)
    then show ?thesis
      using assms(4) False fin by (simp add: node40_expand_def Let_def w hd)
  qed
qed

lemma nd_item_eqI:
  assumes "nd_keypol nd \<in> {3, 4}" "nd_keypol nd' = nd_keypol nd"
    and "\<And>i l. i + l \<le> key_size (nd_keypol nd) \<or> key_size (nd_keypol nd) + 2 \<le> i \<and> i + l \<le> ih_size (nd_keypol nd) \<Longrightarrow>
      mread (nd_mem nd') (nd_head nd' j' + int i) l = mread (nd_mem nd) (nd_head nd j + int i) l"
    and "nd_off nd' (Suc j') - nd_off nd' j' = nd_off nd (Suc j) - nd_off nd j"
    and "mread (nd_mem nd') (int (nd_off nd' j')) (nd_off nd (Suc j) - nd_off nd j) =
      mread (nd_mem nd) (int (nd_off nd j)) (nd_off nd (Suc j) - nd_off nd j)"
  shows "nd_item nd' j' = nd_item nd j"
proof -
  have "key_size (nd_keypol nd) + 6 = ih_size (nd_keypol nd)" using assms(1) by (auto simp: key_size_def ih_size_def)
  then show ?thesis
    using assms(2,4,5) assms(3) [of 0 "key_size (nd_keypol nd)"] assms(3) [of "key_size (nd_keypol nd) + 2" 2]
      assms(3) [of "key_size (nd_keypol nd) + 4" 2]
    by (simp add: nd_item_def ih_get_flags_def ih_get_pid_def get_le_def add_ac)
qed

lemma expand_insert_read:
  assumes "nd_wf nd" "p \<le> nh_get_num_items nd" "len + c * ih_size (nd_keypol nd) \<le> nh_get_free_space nd"
    "0 < len" "0 < c"
  defines "nd' \<equiv> snd (node40_expand nd \<lparr>item = p, unit = MAX_UINT32\<rparr> len c)"
  shows "nh_get_num_items nd' = nh_get_num_items nd + c"
    and "nh_get_free_space nd' = nh_get_free_space nd - (len + c * ih_size (nd_keypol nd))"
    and "nh_get_free_space_start nd' = nh_get_free_space_start nd + len"
    and "nd_size nd' = nd_size nd" "nd_keypol nd' = nd_keypol nd" "nd_kplug nd' = nd_kplug nd" "nd_dirty nd'"
    and "ih_get_flags (nd_mem nd') (nd_head nd p) (nd_keypol nd) = 0"
    and "ih_get_offset (nd_mem nd') (nd_head nd p) (nd_keypol nd) = nd_off nd p"
    and "28 \<le> a \<Longrightarrow> a + int l \<le> nd_head nd p + int (key_size (nd_keypol nd)) \<or>
        nd_head nd p + int (key_size (nd_keypol nd)) + 4 \<le> a \<Longrightarrow>
      mread (nd_mem nd') a l = mread (nd_room nd p len c) a l"
proof -
  note wf = nd_wfD [OF assms(1)] and b = nd_off_bounds [OF assms(1), of p]
  let ?pol = "nd_keypol nd"
  have h: "28 \<le> nd_head nd p"
    using wf b assms(2,3,5) by (auto simp: nd_head_def)
  have small: "nh_get_num_items nd + c < 65536" using wf assms(3) by auto
  note eq = expand_insert_eq [OF assms(1-5)]
  note d = nd'_def eq nh_get_num_items_def nh_get_free_space_def nh_get_free_space_start_def
    ih_set_offset_def ih_set_flags_def ih_get_offset_def ih_get_flags_def
  show "nh_get_num_items nd' = nh_get_num_items nd + c" using small by (simp add: d mem_simps nat_add_distrib)
  show "nh_get_free_space nd' = nh_get_free_space nd - (len + c * ih_size ?pol)"
  proof -
    have "nh_get_free_space nd - (len + c * ih_size ?pol) < 65536" using wf by auto
    then show ?thesis by (simp add: nd'_def eq nh_get_free_space_def set_get_u16)
  qed
  show "nh_get_free_space_start nd' = nh_get_free_space_start nd + len"
    using wf assms(3) h by (simp add: d mem_simps nat_add_distrib)
  show "nd_size nd' = nd_size nd" "nd_keypol nd' = ?pol" "nd_kplug nd' = nd_kplug nd" "nd_dirty nd'"
    by (simp_all add: nd'_def eq)
  show "ih_get_flags (nd_mem nd') (nd_head nd p) ?pol = 0" using h by (simp add: d mem_simps)
  show "ih_get_offset (nd_mem nd') (nd_head nd p) ?pol = nd_off nd p"
    using h b wf by (simp add: d mem_simps)
  show "mread (nd_mem nd') a l = mread (nd_room nd p len c) a l"
    if "28 \<le> a" "a + int l \<le> nd_head nd p + int (key_size ?pol) \<or> nd_head nd p + int (key_size ?pol) + 4 \<le> a"
    using that by (auto simp: nd'_def eq ih_set_offset_def ih_set_flags_def mread_set_le_other)
qed

text \<open>The view of the node whose room was made: old items around the new headers.\<close>

lemma expand_insert_items:
  assumes "nd_wf nd" "p \<le> nh_get_num_items nd" "len + c * ih_size (nd_keypol nd) \<le> nh_get_free_space nd"
    "0 < len" "0 < c"
  defines "nd' \<equiv> snd (node40_expand nd \<lparr>item = p, unit = MAX_UINT32\<rparr> len c)"
  shows "j < p \<Longrightarrow> nd_off nd' j = nd_off nd j"
    and "nd_off nd' p = nd_off nd p"
    and "p \<le> j \<Longrightarrow> j \<le> nh_get_num_items nd \<Longrightarrow> nd_off nd' (j + c) = nd_off nd j + len"
    and "j < p \<Longrightarrow> nd_item nd' j = nd_item nd j"
    and "p \<le> j \<Longrightarrow> j < nh_get_num_items nd \<Longrightarrow> nd_item nd' (j + c) = nd_item nd j"
  proof -
  let ?pol = "nd_keypol nd" and ?n = "nh_get_num_items nd" and ?R = "nd_room nd p len c"
  note wf = nd_wfD [OF assms(1)] and b = nd_off_bounds [OF assms(1)]
  note read = expand_insert_read [OF assms(1-5), folded nd'_def]
  have hd: "nd_head nd' j = nd_head nd j" for j by (simp add: nd_head_def read(4,5))
  have above: "mread (nd_mem nd') (nd_head nd j + int i) l = mread (nd_mem nd) (nd_head nd j + int i) l"
    if "j < p" for j i l
  proof -
    have "mread (nd_mem nd') (nd_head nd j + int i) l = mread ?R (nd_head nd j + int i) l"
      using wf assms(2,3,5) b(1) [of 0] that by (intro read(10)) (auto simp: nd_head_def)
    also have "\<dots> = mread (nd_mem nd) (nd_head nd j + int i) l"
      using wf that by (intro room_outside [OF assms(1-3)]) (auto simp: nd_head_def)
    finally show ?thesis .
  qed
  have below: "mread (nd_mem nd') (nd_head nd (j + c) + int i) l = mread ?R (nd_head nd (j + c) + int i) l"
    if "p \<le> j" "j < ?n" "i + l \<le> ih_size ?pol" for j i l
    using wf assms(2,3,5) b(1) [of 0] b(2) [of 0] that by (intro read(10)) (auto simp: nd_head_def algebra_simps)
  show off1: "nd_off nd' j = nd_off nd j" if "j < p" for j
    using above [OF that, of "key_size ?pol" 2] that assms(2)
    by (simp add: nd_off_def read hd ih_get_offset_def get_le_def)
  show off2: "nd_off nd' p = nd_off nd p"
    using read(9) assms(2,5) by (simp add: nd_off_def read(1,5) hd)
  show off3: "nd_off nd' (j + c) = nd_off nd j + len" if "p \<le> j" "j \<le> ?n" for j
  proof (cases "j < ?n")
    case True
    have "key_size ?pol + 2 \<le> ih_size ?pol" using wf by auto
    then show ?thesis
      using below [OF that(1) True, of "key_size ?pol" 2] room_head(2) [OF assms(1) that(1) True assms(3)] True
      by (simp add: nd_off_def read(1,5) hd ih_get_offset_def get_le_def)
  next
    case False
    with that have "j = ?n" by simp
    then show ?thesis by (simp add: nd_off_def read)
  qed
  have body: "mread (nd_mem nd') a l = mread ?R a l" if "28 \<le> a" "a + int l \<le> int (nh_get_free_space_start nd) + int len" for a l
    using wf assms(2,3,5) that by (intro read(10)) (auto simp: nd_head_def algebra_simps)
  show "nd_item nd' j = nd_item nd j" if "j < p" for j
  proof -
    have s: "nd_off nd' (Suc j) = nd_off nd (Suc j)"
      using off1 [of "Suc j"] off2 that by (cases "Suc j = p") auto
    have "nd_off nd (Suc j) \<le> nd_off nd p" using nd_off_mono [OF assms(1), of "Suc j" p] that assms(2) by simp
    then have "mread (nd_mem nd') (int (nd_off nd j)) (nd_off nd (Suc j) - nd_off nd j) =
        mread (nd_mem nd) (int (nd_off nd j)) (nd_off nd (Suc j) - nd_off nd j)"
      using b [of j] b [of "Suc j"] nd_off_mono [OF assms(1), of j "Suc j"] that assms(2)
      by (subst body) (auto intro!: room_outside [OF assms(1-3)])
    then show ?thesis
      using above [OF that] by (intro nd_item_eqI [OF wf(4)]) (simp_all add: s off1 [OF that] hd read(5))
  qed
  show "nd_item nd' (j + c) = nd_item nd j" if "p \<le> j" "j < ?n" for j
  proof -
    have hk: "key_size ?pol + 6 = ih_size ?pol" using wf(1) by auto
    have part: "mread (nd_mem nd') (nd_head nd (j + c) + int i) l = mread (nd_mem nd) (nd_head nd j + int i) l"
      if "i + l \<le> key_size ?pol \<or> key_size ?pol + 2 \<le> i \<and> i + l \<le> ih_size ?pol" for i l
      using below [OF \<open>p \<le> j\<close> \<open>j < ?n\<close>, of i l] room_head(1) [OF assms(1) \<open>p \<le> j\<close> \<open>j < ?n\<close> assms(3) that] that hk by auto
    have s: "nd_off nd' (Suc j + c) = nd_off nd (Suc j) + len" using off3 [of "Suc j"] that by simp
    have "nd_off nd p \<le> nd_off nd j" "nd_off nd j \<le> nd_off nd (Suc j)"
      using nd_off_mono [OF assms(1), of p j] nd_off_mono [OF assms(1), of j "Suc j"] that by simp_all
    then have "mread (nd_mem nd') (int (nd_off nd j + len)) (nd_off nd (Suc j) - nd_off nd j) =
        mread (nd_mem nd) (int (nd_off nd j)) (nd_off nd (Suc j) - nd_off nd j)"
      using b [of "Suc j"] b [of j] that
        room_body [OF assms(1) _ assms(3), of p "int (nd_off nd j)" "nd_off nd (Suc j) - nd_off nd j"]
      by (subst body) auto
    then show ?thesis
      using part s off3 [of j] that by (intro nd_item_eqI [OF wf(4)]) (simp_all add: hd read(5))
  qed
qed


lemma length_nd_items [simp]: "length (nd_items nd) = nh_get_num_items nd"
  by (simp add: nd_items_def)

lemma nth_nd_items [simp]: "j < nh_get_num_items nd \<Longrightarrow> nd_items nd ! j = nd_item nd j"
  by (simp add: nd_items_def)

lemma nd_items_split:
  assumes "nh_get_num_items nd' = nh_get_num_items nd + c" "p \<le> nh_get_num_items nd"
    and "\<And>j. j < p \<Longrightarrow> nd_item nd' j = nd_item nd j"
    and "\<And>j. p \<le> j \<Longrightarrow> j < nh_get_num_items nd \<Longrightarrow> nd_item nd' (j + c) = nd_item nd j"
  shows "nd_items nd' = take p (nd_items nd) @ map (nd_item nd') [p..<p + c] @ drop p (nd_items nd)"
proof (rule nth_equalityI)
  fix i assume "i < length (nd_items nd')"
  then have i: "i < nh_get_num_items nd + c" using assms(1) by simp
  consider "i < p" | "p \<le> i" "i < p + c" | "p + c \<le> i" by linarith
  then show "nd_items nd' ! i = (take p (nd_items nd) @ map (nd_item nd') [p..<p + c] @ drop p (nd_items nd)) ! i"
  proof cases
    case 3
    then have "nd_item nd' (i - c + c) = nd_item nd (i - c)" using i by (intro assms(4)) auto
    then show ?thesis using 3 i assms(1,2) by (simp add: nth_append)
  qed (use i assms in \<open>auto simp: nth_append\<close>)
qed (use assms(1,2) in simp)

lemma expand_insert_wf:
  assumes "nd_wf nd" "p \<le> nh_get_num_items nd" "len + ih_size (nd_keypol nd) \<le> nh_get_free_space nd" "0 < len"
  defines "nd' \<equiv> snd (node40_expand nd \<lparr>item = p, unit = MAX_UINT32\<rparr> len 1)"
  shows "nd_wf nd'"
proof -
  let ?n = "nh_get_num_items nd"
  have e: "len + 1 * ih_size (nd_keypol nd) \<le> nh_get_free_space nd" using assms(3) by simp
  note r = expand_insert_read [OF assms(1,2) e assms(4) zero_less_one, folded nd'_def]
    and o = expand_insert_items [OF assms(1,2) e assms(4) zero_less_one, folded nd'_def]
  have ord: "nd_off nd' j \<le> nd_off nd' (Suc j)" if "j < Suc ?n" for j
  proof -
    consider "Suc j < p" | "Suc j = p" | "j = p" | "p < j" by linarith
    then show ?thesis
    proof cases
      case 3 then show ?thesis using o(3) [of p] o(2) assms(2) by simp
    next
      case 4
      then show ?thesis using o(3) [of "j - 1"] o(3) [of j] that nd_off_mono [OF assms(1), of "j - 1" j] by simp
    qed (use o(1,2) nd_off_mono [OF assms(1), of j "Suc j"] assms(2) in auto)
  qed
  have "nd_off nd' 0 = nd_hdr nd'" using o(1,2) assms(1) by (cases "p = 0") (auto simp: nd_wf_def nd_hdr_def nd'_def)
  then show ?thesis
    unfolding nd_wf_def using r ord nd_wfD [OF assms(1)] assms(3) by auto
qed

section \<open>A sample node\<close>

text \<open>Two items with short keys in a block of 136 bytes, 40 of them free.\<close>

definition sample_bytes :: "u8 list" where
  "sample_bytes =
     [0, 0, 2, 0, 40, 0, 36, 0, 0x53, 0x46, 0x34, 0x52] @ replicate 14 0 @ [1, 0] @
     [11, 12, 13, 14, 15, 21, 22, 23] @ replicate 40 0 @
     [2] @ replicate 23 0 @ [33, 0, 0, 0, 0, 0] @
     [1] @ replicate 23 0 @ [28, 0, 0, 0, 0, 0]"

definition sample_node :: node40 where
  "sample_node =
     \<lparr>nd_mem = (\<lambda>x. if 0 \<le> x \<and> x < 136 then sample_bytes ! nat x else 0), nd_size = 136, nd_dirty = False,
      nd_kplug = KEY_SHORT, nd_keypol = 3, nd_state = 0, nd_plug = 0\<rparr>"

lemma sample_heads:
  "nh_get_num_items sample_node = 2" "nh_get_free_space sample_node = 40" "nh_get_free_space_start sample_node = 36"
  "nd_hdr sample_node = 28" "nd_size sample_node = 136" "nd_keypol sample_node = 3" "nd_kplug sample_node = KEY_SHORT"
  by code_simp+

lemma sample_offs:
  "ih_get_offset (nd_mem sample_node) 106 3 = 28" "ih_get_offset (nd_mem sample_node) 76 3 = 33"
  by code_simp+

lemma sample_wf: "nd_wf sample_node"
  using sample_heads sample_offs
  by (auto simp: nd_wf_def nd_off_def nd_head_def ih_size_def less_Suc_eq numeral_2_eq_2)

section \<open>Properties\<close>

text \<open>
  with enough room \<^verbatim>\<open>node40_expand\<close> makes one new item at position \<open>p\<close>: the node stays well-formed,
  the other items keep key, flags, plugin id and body, the new one has the requested length and zero
  flags, and the free space goes down by the body and its header.
\<close>

lemma node40_expand_insert:
  assumes "nd_wf nd" "p \<le> node40_items nd" "0 < len" "len + node40_overhead nd \<le> node40_space nd"
  shows "\<exists>nd' it. node40_expand nd \<lparr>item = p, unit = MAX_UINT32\<rparr> len 1 = (0, nd') \<and> nd_wf nd' \<and> node40_isdirty nd' \<and>
    node40_space nd' = node40_space nd - (len + node40_overhead nd) \<and>
    it_flags it = 0 \<and> length (it_body it) = len \<and>
    nd_items nd' = take p (nd_items nd) @ it # drop p (nd_items nd)"
proof -
  let ?nd' = "snd (node40_expand nd \<lparr>item = p, unit = MAX_UINT32\<rparr> len 1)"
  note a = assms [unfolded node40_items_def node40_overhead_def node40_space_def]
  have e: "len + 1 * ih_size (nd_keypol nd) \<le> nh_get_free_space nd" using a(4) by simp
  note r = expand_insert_read [OF a(1,2) e a(3) zero_less_one] and o = expand_insert_items [OF a(1,2) e a(3) zero_less_one]
  have "nd_items ?nd' = take p (nd_items nd) @ map (nd_item ?nd') [p..<p + 1] @ drop p (nd_items nd)"
    using r(1) a(2) o(4,5) by (intro nd_items_split) auto
  moreover have "length (it_body (nd_item ?nd' p)) = len"
    using o(2) o(3) [of p] a(2) by (simp add: nd_item_def)
  moreover have "it_flags (nd_item ?nd' p) = 0"
    using r(4,5,8) by (simp add: nd_item_def nd_head_def)
  moreover have "fst (node40_expand nd \<lparr>item = p, unit = MAX_UINT32\<rparr> len 1) = 0"
    using expand_insert_eq [OF a(1,2) e a(3) zero_less_one] by simp
  ultimately show ?thesis
    using expand_insert_wf [OF a(1,2,4,3)] r(2,7)
    by (intro exI [of _ ?nd'] exI [of _ "nd_item ?nd' p"])
      (simp add: node40_space_def node40_overhead_def node40_isdirty_def prod_eq_iff)
qed

lemma sample_items: "node40_items sample_node = 2" "node40_overhead sample_node = 30" "node40_space sample_node = 40"
  by (simp_all add: node40_items_def node40_overhead_def node40_space_def ih_size_def sample_heads)

end
