(* ===== verification/NodeShrink.thy ===== *)
theory NodeShrink
  imports NodeView
begin

text \<open>
  \<^verbatim>\<open>node40_shrink\<close> and its item list: whole items are taken out of the list, units off the end of one
  item's body.
\<close>

section \<open>Taking items out\<close>

definition nd_closed :: "node40 \<Rightarrow> nat \<Rightarrow> nat \<Rightarrow> mem" where
  "nd_closed nd p c =
     (let pol = nd_keypol nd; n = nh_get_num_items nd; h = ih_size pol; len = nd_off nd (p + c) - nd_off nd p
      in if p + c < n then
           ih_shift_offsets (n - c - p)
             (memmove (memmove (nd_mem nd) (int (nd_off nd p)) (int (nd_off nd (p + c)))
                 (nat (nd_head nd (n - 1) - int (nd_off nd (p + c)))))
               (nd_head nd (n - 1 - c)) (nd_head nd (n - 1)) (h * (n - (p + c))))
             (nd_head nd p) (- int len) pol
         else nd_mem nd)"

lemma closed_outside:
  assumes "nd_wf nd" "p + c \<le> nh_get_num_items nd" "0 < c"
    and "int (nd_size nd) - int (ih_size (nd_keypol nd)) * int p \<le> a \<or> a + int l \<le> int (nd_off nd p)"
  shows "mread (nd_closed nd p c) a l = mread (nd_mem nd) a l"
proof (cases "p + c < nh_get_num_items nd")
  case True
  note wf = nd_wfD [OF assms(1)] and b = nd_off_bounds [OF assms(1)] and mono = nd_off_mono [OF assms(1), of p "p + c"]
  let ?pol = "nd_keypol nd" and ?n = "nh_get_num_items nd"
  let ?len = "nd_off nd (p + c) - nd_off nd p"
  let ?m1 = "memmove (nd_mem nd) (int (nd_off nd p)) (int (nd_off nd (p + c)))
    (nat (nd_head nd (?n - 1) - int (nd_off nd (p + c))))"
  let ?m2 = "memmove ?m1 (nd_head nd (?n - 1 - c)) (nd_head nd (?n - 1)) (ih_size ?pol * (?n - (p + c)))"
  have "mread ?m1 a l = mread (nd_mem nd) a l"
    using True wf b [of p] b [of "p + c"] mono assms(2-4)
    by (intro mread_memmove_other) (auto simp: nd_head_def of_nat_diff algebra_simps)
  moreover have "mread ?m2 a l = mread ?m1 a l"
    using True wf b [of p] b [of "p + c"] assms(2-4)
    by (intro mread_memmove_other) (auto simp: nd_head_def of_nat_diff algebra_simps)
  moreover have "mread (ih_shift_offsets (?n - c - p) ?m2 (nd_head nd p) (- int ?len) ?pol) a l = mread ?m2 a l"
    using True wf b [of p] assms(2-4) by (intro shift_offsets_read) (auto simp: nd_head_def)
  ultimately show ?thesis using True by (simp add: nd_closed_def Let_def)
qed (simp add: nd_closed_def Let_def)

lemma closed_body:
  assumes "nd_wf nd" "p + c < nh_get_num_items nd" "0 < c"
    and "int (nd_off nd (p + c)) \<le> a" "a + int l \<le> int (nh_get_free_space_start nd)"
  shows "mread (nd_closed nd p c) (a - int (nd_off nd (p + c) - nd_off nd p)) l = mread (nd_mem nd) a l"
proof -
  note wf = nd_wfD [OF assms(1)] and b = nd_off_bounds [OF assms(1)] and mono = nd_off_mono [OF assms(1), of p "p + c"]
  let ?pol = "nd_keypol nd" and ?n = "nh_get_num_items nd"
  let ?len = "nd_off nd (p + c) - nd_off nd p"
  let ?m1 = "memmove (nd_mem nd) (int (nd_off nd p)) (int (nd_off nd (p + c)))
    (nat (nd_head nd (?n - 1) - int (nd_off nd (p + c))))"
  let ?m2 = "memmove ?m1 (nd_head nd (?n - 1 - c)) (nd_head nd (?n - 1)) (ih_size ?pol * (?n - (p + c)))"
  have "mread ?m1 (a - int ?len) l = mread (nd_mem nd) a l"
    using wf b [of p] b [of "p + c"] mono assms(2-)
    by (subst mread_memmove) (auto simp: nd_head_def of_nat_diff algebra_simps)
  moreover have "mread ?m2 (a - int ?len) l = mread ?m1 (a - int ?len) l"
    using wf b [of p] b [of "p + c"] assms(2-)
    by (intro mread_memmove_other) (auto simp: nd_head_def of_nat_diff algebra_simps)
  moreover have "mread (ih_shift_offsets (?n - c - p) ?m2 (nd_head nd p) (- int ?len) ?pol) (a - int ?len) l = mread ?m2 (a - int ?len) l"
    using wf b [of p] b [of "p + c"] assms(2-) by (intro shift_offsets_read) (auto simp: nd_head_def of_nat_diff algebra_simps)
  ultimately show ?thesis using assms(2) by (simp add: nd_closed_def Let_def)
qed

lemma closed_head:
  assumes "nd_wf nd" "p + c \<le> j" "j < nh_get_num_items nd" "0 < c"
  shows "i + l \<le> key_size (nd_keypol nd) \<or> key_size (nd_keypol nd) + 2 \<le> i \<and> i + l \<le> ih_size (nd_keypol nd) \<Longrightarrow>
      mread (nd_closed nd p c) (nd_head nd (j - c) + int i) l = mread (nd_mem nd) (nd_head nd j + int i) l"
    and "ih_get_offset (nd_closed nd p c) (nd_head nd (j - c)) (nd_keypol nd) = nd_off nd j - (nd_off nd (p + c) - nd_off nd p)"
proof -
  note wf = nd_wfD [OF assms(1)] and b = nd_off_bounds [OF assms(1)]
    and mono = nd_off_mono [OF assms(1), of p "p + c"] nd_off_mono [OF assms(1), of "p + c" j]
  let ?pol = "nd_keypol nd" and ?n = "nh_get_num_items nd"
  let ?len = "nd_off nd (p + c) - nd_off nd p"
  let ?m1 = "memmove (nd_mem nd) (int (nd_off nd p)) (int (nd_off nd (p + c)))
    (nat (nd_head nd (?n - 1) - int (nd_off nd (p + c))))"
  let ?m2 = "memmove ?m1 (nd_head nd (?n - 1 - c)) (nd_head nd (?n - 1)) (ih_size ?pol * (?n - (p + c)))"
  let ?m3 = "ih_shift_offsets (?n - c - p) ?m2 (nd_head nd p) (- int ?len) ?pol"
  have m3: "nd_closed nd p c = ?m3" using assms(2,3) by (simp add: nd_closed_def Let_def)
  have moved: "mread ?m2 (nd_head nd (j - c) + int i) l = mread (nd_mem nd) (nd_head nd j + int i) l"
    if "i + l \<le> ih_size ?pol" for i l
  proof -
    have "mread ?m2 (nd_head nd (j - c) + int i) l =
        mread ?m1 (nd_head nd (j - c) + int i - nd_head nd (?n - 1 - c) + nd_head nd (?n - 1)) l"
      using wf assms(2-) that by (intro mread_memmove) (auto simp: nd_head_def of_nat_diff algebra_simps)
    moreover have "nd_head nd (j - c) + int i - nd_head nd (?n - 1 - c) + nd_head nd (?n - 1) = nd_head nd j + int i"
      using assms(2,3) by (simp add: nd_head_def of_nat_diff algebra_simps)
    moreover have "mread ?m1 (nd_head nd j + int i) l = mread (nd_mem nd) (nd_head nd j + int i) l"
      using wf b [of p] b [of "p + c"] mono assms(2-) that
      by (intro mread_memmove_other) (auto simp: nd_head_def of_nat_diff algebra_simps)
    ultimately show ?thesis by (simp only:)
  qed
  show "mread (nd_closed nd p c) (nd_head nd (j - c) + int i) l = mread (nd_mem nd) (nd_head nd j + int i) l"
    if "i + l \<le> key_size ?pol \<or> key_size ?pol + 2 \<le> i \<and> i + l \<le> ih_size ?pol" for i l
    using shift_offsets_head [OF assms(1) that] moved [of i l] that wf(1) unfolding m3 by auto
  have idx: "nd_head nd p - int (ih_size ?pol) * int (j - c - p) = nd_head nd (j - c)"
    using assms(2) by (simp add: nd_head_def of_nat_diff algebra_simps)
  have "ih_get_offset ?m3 (nd_head nd (j - c)) ?pol = nat ((int (ih_get_offset ?m2 (nd_head nd (j - c)) ?pol) - int ?len) mod 65536)"
    using shift_offsets_get [OF wf(4), of "j - c - p" "?n - c - p" ?m2 "nd_head nd p" "- int ?len", unfolded idx] assms(2,3) by simp
  also have "ih_get_offset ?m2 (nd_head nd (j - c)) ?pol = nd_off nd j"
    using moved [of "key_size ?pol" 2] assms(3) wf(1) by (auto simp: ih_get_offset_def get_le_def nd_off_def)
  also have "nat ((int (nd_off nd j) - int ?len) mod 65536) = nd_off nd j - ?len"
    using wf b [of j] b [of p] mono assms(2,3) by (simp add: nat_mod_as_int of_nat_diff)
  finally show "ih_get_offset (nd_closed nd p c) (nd_head nd (j - c)) ?pol = nd_off nd j - ?len"
    unfolding m3 .
qed


lemma shrink_items_eq:
  assumes "nd_wf nd" "p + c \<le> nh_get_num_items nd" "0 < c"
  defines "len \<equiv> nd_off nd (p + c) - nd_off nd p"
  defines "m1 \<equiv> set_le 2 (nd_closed nd p c) 2 (int (nh_get_num_items nd - c))"
  defines "m2 \<equiv> set_le 2 m1 4 (int (nh_get_free_space nd + (len + c * ih_size (nd_keypol nd))))"
  shows "node40_shrink nd \<lparr>item = p, unit = MAX_UINT32\<rparr> len c =
    (0, nd\<lparr>nd_mem := set_le 2 m2 6 (int (nh_get_free_space_start nd - len)), nd_dirty := True\<rparr>)"
proof -
  note wf = nd_wfD [OF assms(1)] and b = nd_off_bounds [OF assms(1)] and mono = nd_off_mono [OF assms(1), of p "p + c"]
  let ?pol = "nd_keypol nd" and ?n = "nh_get_num_items nd"
  have small: "?n < 65536" "p + c < 65536" "c * ih_size ?pol < 65536" "ih_size ?pol * (?n - (p + c)) < 65536"
    using wf assms(2,3) by auto
  have le: "len \<le> nh_get_free_space_start nd" unfolding len_def using b(2) [of "p + c"] by simp
  have r: "get_le 2 (nd_closed nd p c) a = get_le 2 (nd_mem nd) a" if "a + 2 \<le> 28" for a
    unfolding get_le_def using that b(1) [of p] by (subst closed_outside [OF assms(1-3)]) auto
  let ?e = "nh_inc_free_space (nh_dec_num_items (nd\<lparr>nd_mem := nd_closed nd p c\<rparr>) (int c)) (int len + int c * int (ih_size ?pol))"
  have fin: "node40_mkdirty (nh_dec_free_space_start ?e (int len)) =
      nd\<lparr>nd_mem := set_le 2 m2 6 (int (nh_get_free_space_start nd - len)), nd_dirty := True\<rparr>"
  proof -
    have "nh_dec_num_items (nd\<lparr>nd_mem := nd_closed nd p c\<rparr>) (int c) = nd\<lparr>nd_mem := m1\<rparr>"
      using r [of 2] assms(2) by (simp add: nh_dec_num_items_def nh_set_num_items_def nh_get_num_items_def m1_def of_nat_diff)
    moreover have "nh_inc_free_space (nd\<lparr>nd_mem := m1\<rparr>) (int len + int c * int (ih_size ?pol)) = nd\<lparr>nd_mem := m2\<rparr>"
      using r [of 4] by (simp add: nh_inc_free_space_def nh_set_free_space_def nh_get_free_space_def m1_def m2_def mem_simps)
    moreover have "get_le 2 m2 6 = nh_get_free_space_start nd"
      using r [of 6] by (simp add: m2_def m1_def mem_simps nh_get_free_space_start_def)
    ultimately show ?thesis
      using le by (simp add: nh_dec_free_space_start_def nh_set_free_space_start_def nh_get_free_space_start_def
          node40_mkdirty_def of_nat_diff)
  qed
  have w: "to_u32 (int c * int (ih_size ?pol)) = c * ih_size ?pol" "to_u32 (int p + int c) = p + c"
    using small by (simp_all add: wrap_simps flip: of_nat_mult)
  show ?thesis
  proof (cases "p + c < ?n")
    case True
    have n: "to_u32 (int ?n - 1) = ?n - 1" "to_u32 (int ?n - int c) = ?n - c"
      "to_u32 ((int ?n - (int p + int c)) * int (ih_size ?pol)) = ih_size ?pol * (?n - (p + c))"
    proof -
      show "to_u32 (int ?n - 1) = ?n - 1" using to_u32_diff [of 1 ?n] True small by simp
      show "to_u32 (int ?n - int c) = ?n - c" using to_u32_diff [of c ?n] True small by simp
      have "(int ?n - (int p + int c)) * int (ih_size ?pol) = int (ih_size ?pol * (?n - (p + c)))"
        using True by (simp add: of_nat_diff)
      then show "to_u32 ((int ?n - (int p + int c)) * int (ih_size ?pol)) = ih_size ?pol * (?n - (p + c))"
        using small(4) by (simp only: to_u32_nat)
    qed
    have hd: "node40_ih_at nd p = nd_head nd p" "node40_ih_at nd (?n - Suc 0) = nd_head nd (?n - Suc 0)"
      using small by (simp_all add: ih_at_head)
    have o: "node40_ib_at nd p = int (nd_off nd p)"
      using True by (simp add: node40_ib_at_def node40_ib_by_ih_def hd nd_off_def)
    have src: "int (nd_off nd p) + int len = int (nd_off nd (p + c))"
      using mono assms(2) by (simp add: len_def)
    have sz: "to_u32 (nd_head nd (?n - Suc 0) - int (nd_off nd (p + c))) = nat (nd_head nd (?n - Suc 0) - int (nd_off nd (p + c)))"
      using wf b [of "p + c"] True by (intro to_u32_id) (auto simp: nd_head_def of_nat_diff algebra_simps)
    have hd': "nd_head nd (?n - Suc 0) + int c * int (ih_size ?pol) = nd_head nd (?n - Suc c)"
      using True by (simp add: nd_head_def of_nat_diff algebra_simps)
    have closed: "ih_shift_offsets (?n - (c + p))
             (memmove (memmove (nd_mem nd) (int (nd_off nd p)) (int (nd_off nd (p + c)))
                 (nat (nd_head nd (?n - Suc 0) - int (nd_off nd (p + c)))))
               (nd_head nd (?n - Suc c)) (nd_head nd (?n - Suc 0)) (ih_size ?pol * (?n - (p + c))))
             (nd_head nd p) (- int len) ?pol = nd_closed nd p c"
      using True by (simp add: nd_closed_def Let_def len_def)
    show ?thesis
      using True by (simp add: node40_shrink_def Let_def w n hd o src sz hd' closed fin)
  next
    case False
    then have "nd_closed nd p c = nd_mem nd" by (simp add: nd_closed_def Let_def)
    then show ?thesis
      using False fin by (simp add: node40_shrink_def Let_def w)
  qed
qed

lemma shrink_items_read:
  assumes "nd_wf nd" "p + c \<le> nh_get_num_items nd" "0 < c"
  defines "len \<equiv> nd_off nd (p + c) - nd_off nd p"
  defines "nd' \<equiv> snd (node40_shrink nd \<lparr>item = p, unit = MAX_UINT32\<rparr> len c)"
  shows "nh_get_num_items nd' = nh_get_num_items nd - c"
    and "nh_get_free_space nd' = nh_get_free_space nd + (len + c * ih_size (nd_keypol nd))"
    and "nh_get_free_space_start nd' = nh_get_free_space_start nd - len"
    and "nd_size nd' = nd_size nd" "nd_keypol nd' = nd_keypol nd" "nd_kplug nd' = nd_kplug nd" "nd_dirty nd'"
    and "28 \<le> a \<Longrightarrow> mread (nd_mem nd') a l = mread (nd_closed nd p c) a l"
proof -
  note wf = nd_wfD [OF assms(1)] and b = nd_off_bounds [OF assms(1)]
  note eq = shrink_items_eq [OF assms(1-3), folded len_def]
  have small: "nh_get_num_items nd < 65536" using wf by auto
  have fit: "nh_get_free_space nd + (len + c * ih_size (nd_keypol nd)) < 65536"
  proof -
    have "len \<le> nh_get_free_space_start nd" using b(2) [of "p + c"] by (simp add: len_def)
    moreover have "c * ih_size (nd_keypol nd) \<le> nh_get_num_items nd * ih_size (nd_keypol nd)"
      using assms(2) by simp
    ultimately show ?thesis using wf(2,3) by linarith
  qed
  note d = nd'_def eq nh_get_num_items_def nh_get_free_space_def nh_get_free_space_start_def
  show "nh_get_num_items nd' = nh_get_num_items nd - c" using small by (simp add: d mem_simps)
  show "nh_get_free_space nd' = nh_get_free_space nd + (len + c * ih_size (nd_keypol nd))"
    using fit by (simp add: nd'_def eq nh_get_free_space_def get_set_le_other set_get_u16 del: of_nat_add of_nat_mult)
  show "nh_get_free_space_start nd' = nh_get_free_space_start nd - len"
    using wf by (auto simp add: d mem_simps)
  show "nd_size nd' = nd_size nd" "nd_keypol nd' = nd_keypol nd" "nd_kplug nd' = nd_kplug nd" "nd_dirty nd'"
    by (simp_all add: nd'_def eq)
  show "mread (nd_mem nd') a l = mread (nd_closed nd p c) a l" if "28 \<le> a"
    using that by (simp add: nd'_def eq mread_set_le_other)
qed

lemma shrink_items_items:
  assumes "nd_wf nd" "p + c \<le> nh_get_num_items nd" "0 < c"
  defines "len \<equiv> nd_off nd (p + c) - nd_off nd p"
  defines "nd' \<equiv> snd (node40_shrink nd \<lparr>item = p, unit = MAX_UINT32\<rparr> len c)"
  shows "j \<le> p \<Longrightarrow> nd_off nd' j = nd_off nd j"
    and "p + c \<le> j \<Longrightarrow> j \<le> nh_get_num_items nd \<Longrightarrow> nd_off nd' (j - c) = nd_off nd j - len"
    and "j < p \<Longrightarrow> nd_item nd' j = nd_item nd j"
    and "p + c \<le> j \<Longrightarrow> j < nh_get_num_items nd \<Longrightarrow> nd_item nd' (j - c) = nd_item nd j"
proof -
  let ?pol = "nd_keypol nd" and ?n = "nh_get_num_items nd" and ?C = "nd_closed nd p c"
  note wf = nd_wfD [OF assms(1)] and b = nd_off_bounds [OF assms(1)] and mono = nd_off_mono [OF assms(1)]
  note read = shrink_items_read [OF assms(1-3), folded len_def, folded nd'_def]
  have hd: "nd_head nd' j = nd_head nd j" for j by (simp add: nd_head_def read(4,5))
  have hb: "28 \<le> nd_head nd j" if "j < ?n" for j
    using wf b(1) [of 0] b(2) [of 0] that by (auto simp: nd_head_def algebra_simps)
  have above: "mread (nd_mem nd') (nd_head nd j + int i) l = mread (nd_mem nd) (nd_head nd j + int i) l"
    if "j < p" for j i l
    using hb [of j] wf(1) that assms(2) closed_outside [OF assms(1-3), of "nd_head nd j + int i" l]
    by (subst read(8)) (auto simp: nd_head_def algebra_simps)
  have head: "mread (nd_mem nd') (nd_head nd j + int i) l = mread ?C (nd_head nd j + int i) l" if "j < ?n" for j i l
    using hb [OF that] by (intro read(8)) simp
  have off1: "nd_off nd' j = nd_off nd j" if "j < p" for j
  proof -
    have "j < ?n - c" "j < ?n" using that assms(2) by auto
    then show ?thesis
      using above [OF that, of "key_size ?pol" 2] by (simp add: nd_off_def read(1,5) hd ih_get_offset_def get_le_def)
  qed
  show off2: "nd_off nd' (j - c) = nd_off nd j - len" if "p + c \<le> j" "j \<le> ?n" for j
  proof (cases "j < ?n")
    case True
    then have "j - c < ?n - c" "j - c < ?n" using that by auto
    then show ?thesis
      using head [of "j - c" "key_size ?pol" 2] closed_head(2) [OF assms(1) that(1) True assms(3)]
      by (simp add: nd_off_def [of nd'] read(1,5) hd ih_get_offset_def get_le_def len_def)
  next
    case False
    with that have "j = ?n" by simp
    then show ?thesis by (simp add: nd_off_def read)
  qed
  show off: "nd_off nd' j = nd_off nd j" if "j \<le> p" for j
    using off1 [of j] off2 [of "p + c"] that mono [of p "p + c"] assms(2) by (cases "j = p") (auto simp: len_def)
  show "nd_item nd' j = nd_item nd j" if "j < p" for j
  proof -
    have "mread (nd_mem nd') (int (nd_off nd j)) (nd_off nd (Suc j) - nd_off nd j) =
        mread (nd_mem nd) (int (nd_off nd j)) (nd_off nd (Suc j) - nd_off nd j)"
      using b [of j] mono [of j "Suc j"] mono [of "Suc j" p] that assms(2)
      by (subst read(8)) (auto intro!: closed_outside [OF assms(1-3)])
    then show ?thesis
      using above [OF that] off [of j] off [of "Suc j"] that
      by (intro nd_item_eqI [OF wf(4)]) (simp_all add: hd read(5))
  qed
  show "nd_item nd' (j - c) = nd_item nd j" if "p + c \<le> j" "j < ?n" for j
  proof -
    have part: "mread (nd_mem nd') (nd_head nd (j - c) + int i) l = mread (nd_mem nd) (nd_head nd j + int i) l"
      if "i + l \<le> key_size ?pol \<or> key_size ?pol + 2 \<le> i \<and> i + l \<le> ih_size ?pol" for i l
      using head [of "j - c" i l] closed_head(1) [OF assms(1) \<open>p + c \<le> j\<close> \<open>j < ?n\<close> assms(3) that] \<open>j < ?n\<close> by simp
    have o: "nd_off nd p + len = nd_off nd (p + c)" "nd_off nd (p + c) \<le> nd_off nd j" "nd_off nd j \<le> nd_off nd (Suc j)"
      using mono [of p "p + c"] mono [of "p + c" j] mono [of j "Suc j"] that assms(2) by (simp_all add: len_def)
    have "mread (nd_mem nd') (int (nd_off nd j) - int len) (nd_off nd (Suc j) - nd_off nd j) =
        mread (nd_mem nd) (int (nd_off nd j)) (nd_off nd (Suc j) - nd_off nd j)"
      using b [of "Suc j"] b [of p] o that
        closed_body [OF assms(1) _ assms(3), of p "int (nd_off nd j)" "nd_off nd (Suc j) - nd_off nd j", folded len_def]
      by (subst read(8)) auto
    moreover have "nd_off nd' (Suc j - c) = nd_off nd (Suc j) - len" using off2 [of "Suc j"] that by simp
    moreover have "Suc j - c = Suc (j - c)" using that by simp
    ultimately show ?thesis
      using part o off2 [of j] that
      by (intro nd_item_eqI [OF wf(4)]) (simp_all add: hd read(5) of_nat_diff)
  qed
qed


lemma shrink_items_wf:
  assumes "nd_wf nd" "p + c \<le> nh_get_num_items nd" "0 < c"
  shows "nd_wf (snd (node40_shrink nd \<lparr>item = p, unit = MAX_UINT32\<rparr> (nd_off nd (p + c) - nd_off nd p) c))"
proof -
  let ?nd' = "snd (node40_shrink nd \<lparr>item = p, unit = MAX_UINT32\<rparr> (nd_off nd (p + c) - nd_off nd p) c)"
  let ?n = "nh_get_num_items nd" and ?len = "nd_off nd (p + c) - nd_off nd p" and ?h = "ih_size (nd_keypol nd)"
  note r = shrink_items_read [OF assms] and o = shrink_items_items [OF assms] and mono = nd_off_mono [OF assms(1)]
  note wf = nd_wfD [OF assms(1)]
  have ord: "nd_off ?nd' j \<le> nd_off ?nd' (Suc j)" if "j < ?n - c" for j
  proof (cases "j < p")
    case True
    then show ?thesis using o(1) [of j] o(1) [of "Suc j"] mono [of j "Suc j"] assms(2) by simp
  next
    case False
    then show ?thesis
      using o(2) [of "j + c"] o(2) [of "Suc j + c"] mono [of "j + c" "Suc (j + c)"] that by (simp add: diff_le_mono)
  qed
  have "nd_off ?nd' 0 = nd_hdr ?nd'" using o(1) [of 0] assms(1) by (simp add: nd_wf_def nd_hdr_def)
  moreover have "?len \<le> nh_get_free_space_start nd" using nd_off_bounds(2) [OF assms(1), of "p + c"] by simp
  moreover have "(?n - c) * ?h + c * ?h = ?n * ?h" using assms(2) by (simp flip: add_mult_distrib)
  ultimately show ?thesis
    unfolding nd_wf_def using r ord wf by auto
qed

lemma node40_size_eq:
  assumes "nd_wf nd" "p + c \<le> nh_get_num_items nd" "0 < c"
  shows "node40_size nd \<lparr>item = p, unit = u\<rparr> c = nd_off nd (p + c) - nd_off nd p"
proof -
  note wf = nd_wfD [OF assms(1)] and b = nd_off_bounds [OF assms(1)] and mono = nd_off_mono [OF assms(1), of p "p + c"]
  have small: "nh_get_num_items nd < 65536" "ih_size (nd_keypol nd) * c < 65536" using wf assms(2,3) by auto
  have "to_u32 (int p + int c) = p + c" "to_u32 (int (ih_size (nd_keypol nd)) * int c) = ih_size (nd_keypol nd) * c"
    using small assms(2) by (simp_all add: wrap_simps flip: of_nat_mult)
  moreover have "nd_head nd p - int (ih_size (nd_keypol nd) * c) = nd_head nd (p + c)"
    by (simp add: nd_head_def algebra_simps)
  moreover have "node40_ih_at nd p = nd_head nd p" using small assms(2) by (simp add: ih_at_head)
  ultimately have "node40_size nd \<lparr>item = p, unit = u\<rparr> c = to_u32 (int (nd_off nd (p + c)) - int (nd_off nd p))"
    using assms(2,3) by (simp add: node40_size_def Let_def nd_off_def)
  then show ?thesis using mono assms(2) b [of "p + c"] wf by (simp add: to_u32_diff)
qed

lemma nd_items_removed:
  assumes "nh_get_num_items nd' = nh_get_num_items nd - c" "p + c \<le> nh_get_num_items nd"
    and "\<And>j. j < p \<Longrightarrow> nd_item nd' j = nd_item nd j"
    and "\<And>j. p + c \<le> j \<Longrightarrow> j < nh_get_num_items nd \<Longrightarrow> nd_item nd' (j - c) = nd_item nd j"
  shows "nd_items nd' = take p (nd_items nd) @ drop (p + c) (nd_items nd)"
proof (rule nth_equalityI)
  fix i assume "i < length (nd_items nd')"
  then have i: "i < nh_get_num_items nd - c" using assms(1) by simp
  then show "nd_items nd' ! i = (take p (nd_items nd) @ drop (p + c) (nd_items nd)) ! i"
    using assms(1-3) assms(4) [of "c + i"] by (cases "i < p") (auto simp: nth_append)
qed (use assms(1,2) in simp)

text \<open>
  \<^verbatim>\<open>node40_shrink\<close> with the length \<^verbatim>\<open>node40_size\<close> computes removes the items \<open>p\<close> to \<open>p + c - 1\<close> and
  nothing else, keeps the node well-formed and gives back bodies and headers as free space.
\<close>

lemma node40_shrink_items:
  assumes "nd_wf nd" "p + c \<le> node40_items nd" "0 < c"
  shows "\<exists>nd'. node40_shrink nd \<lparr>item = p, unit = MAX_UINT32\<rparr> (node40_size nd \<lparr>item = p, unit = MAX_UINT32\<rparr> c) c = (0, nd') \<and>
    nd_wf nd' \<and> node40_isdirty nd' \<and>
    node40_space nd' = node40_space nd + node40_size nd \<lparr>item = p, unit = MAX_UINT32\<rparr> c + c * node40_overhead nd \<and>
    nd_items nd' = take p (nd_items nd) @ drop (p + c) (nd_items nd)"
proof -
  note a = assms [unfolded node40_items_def]
  note s = node40_size_eq [OF a]
  let ?nd' = "snd (node40_shrink nd \<lparr>item = p, unit = MAX_UINT32\<rparr> (nd_off nd (p + c) - nd_off nd p) c)"
  have "nd_items ?nd' = take p (nd_items nd) @ drop (p + c) (nd_items nd)"
    using shrink_items_read(1) [OF a] shrink_items_items(3,4) [OF a] a(2) by (intro nd_items_removed) auto
  then show ?thesis
    using shrink_items_wf [OF a] shrink_items_read(2,7) [OF a] shrink_items_eq [OF a]
    by (intro exI [of _ ?nd']) (simp add: s node40_isdirty_def node40_space_def node40_overhead_def)
qed

section \<open>Taking units out of an item and making room in it\<close>

lemma shift_offsets_to:
  "pol \<in> {3, 4} \<Longrightarrow> ih_shift_offsets_to m (endp + int (ih_size pol) * (int cnt - 1)) endp d pol =
    ih_shift_offsets cnt m (endp + int (ih_size pol) * (int cnt - 1)) d pol"
proof (induction cnt arbitrary: m)
  case 0
  then show ?case by (subst ih_shift_offsets_to.simps) (auto simp: ih_size_def)
next
  case (Suc cnt)
  have e: "endp + int (ih_size pol) * (int (Suc cnt) - 1) - int (ih_size pol) = endp + int (ih_size pol) * (int cnt - 1)"
    by (simp add: algebra_simps)
  have "endp + int (ih_size pol) * (int (Suc cnt) - 1) \<ge> endp" by simp
  then show ?case
    by (subst ih_shift_offsets_to.simps) (simp only: if_True ih_shift_offsets.simps e Suc.IH [OF Suc.prems])
qed

definition nd_cut :: "node40 \<Rightarrow> nat \<Rightarrow> nat \<Rightarrow> mem" where
  "nd_cut nd p len =
     (let pol = nd_keypol nd; n = nh_get_num_items nd; src = nd_off nd (Suc p)
      in ih_shift_offsets (n - Suc p)
           (memmove (nd_mem nd) (int src - int len) (int src) (nat (nd_head nd (n - 1) - int src)))
           (nd_head nd (Suc p)) (- int len) pol)"

lemma cut_outside:
  assumes "nd_wf nd" "p < nh_get_num_items nd" "len \<le> nd_off nd (Suc p) - nd_off nd p"
    and "nd_head nd p \<le> a \<or> a + int l + int len \<le> int (nd_off nd (Suc p))"
  shows "mread (nd_cut nd p len) a l = mread (nd_mem nd) a l"
proof -
  note wf = nd_wfD [OF assms(1)] and b = nd_off_bounds [OF assms(1)]
  let ?pol = "nd_keypol nd" and ?n = "nh_get_num_items nd"
  let ?m1 = "memmove (nd_mem nd) (int (nd_off nd (Suc p)) - int len) (int (nd_off nd (Suc p)))
    (nat (nd_head nd (?n - 1) - int (nd_off nd (Suc p))))"
  have "mread ?m1 a l = mread (nd_mem nd) a l"
    using wf b [of p] b [of "Suc p"] assms(2-4)
    by (intro mread_memmove_other) (auto simp: nd_head_def of_nat_diff algebra_simps)
  moreover have "mread (ih_shift_offsets (?n - Suc p) ?m1 (nd_head nd (Suc p)) (- int len) ?pol) a l = mread ?m1 a l"
    using wf b [of "Suc p"] assms(2-4) by (intro shift_offsets_read) (auto simp: nd_head_def of_nat_diff algebra_simps)
  ultimately show ?thesis by (simp add: nd_cut_def Let_def)
qed

lemma cut_body:
  assumes "nd_wf nd" "p < nh_get_num_items nd" "len \<le> nd_off nd (Suc p) - nd_off nd p"
    and "int (nd_off nd (Suc p)) \<le> a" "a + int l \<le> int (nh_get_free_space_start nd)"
  shows "mread (nd_cut nd p len) (a - int len) l = mread (nd_mem nd) a l"
proof -
  note wf = nd_wfD [OF assms(1)] and b = nd_off_bounds [OF assms(1)]
  let ?pol = "nd_keypol nd" and ?n = "nh_get_num_items nd"
  let ?m1 = "memmove (nd_mem nd) (int (nd_off nd (Suc p)) - int len) (int (nd_off nd (Suc p)))
    (nat (nd_head nd (?n - 1) - int (nd_off nd (Suc p))))"
  have "mread ?m1 (a - int len) l = mread (nd_mem nd) a l"
    using wf b [of "Suc p"] assms(2-)
    by (subst mread_memmove) (auto simp: nd_head_def of_nat_diff algebra_simps)
  moreover have "mread (ih_shift_offsets (?n - Suc p) ?m1 (nd_head nd (Suc p)) (- int len) ?pol) (a - int len) l = mread ?m1 (a - int len) l"
    using wf b [of "Suc p"] assms(2-) by (intro shift_offsets_read) (auto simp: nd_head_def of_nat_diff algebra_simps)
  ultimately show ?thesis by (simp add: nd_cut_def Let_def)
qed

lemma cut_head:
  assumes "nd_wf nd" "p < j" "j < nh_get_num_items nd" "len \<le> nd_off nd (Suc p) - nd_off nd p"
  shows "i + l \<le> key_size (nd_keypol nd) \<or> key_size (nd_keypol nd) + 2 \<le> i \<and> i + l \<le> ih_size (nd_keypol nd) \<Longrightarrow>
      mread (nd_cut nd p len) (nd_head nd j + int i) l = mread (nd_mem nd) (nd_head nd j + int i) l"
    and "ih_get_offset (nd_cut nd p len) (nd_head nd j) (nd_keypol nd) = nd_off nd j - len"
proof -
  note wf = nd_wfD [OF assms(1)] and b = nd_off_bounds [OF assms(1)]
    and mono = nd_off_mono [OF assms(1), of p "Suc p"] nd_off_mono [OF assms(1), of "Suc p" j]
  let ?pol = "nd_keypol nd" and ?n = "nh_get_num_items nd"
  let ?m1 = "memmove (nd_mem nd) (int (nd_off nd (Suc p)) - int len) (int (nd_off nd (Suc p)))
    (nat (nd_head nd (?n - 1) - int (nd_off nd (Suc p))))"
  let ?m3 = "ih_shift_offsets (?n - Suc p) ?m1 (nd_head nd (Suc p)) (- int len) ?pol"
  have m3: "nd_cut nd p len = ?m3" by (simp add: nd_cut_def Let_def)
  have m1: "mread ?m1 (nd_head nd j + int i) l = mread (nd_mem nd) (nd_head nd j + int i) l" for i l
    using wf b [of "Suc p"] mono assms(2-)
    by (intro mread_memmove_other) (auto simp: nd_head_def of_nat_diff algebra_simps)
  show "mread (nd_cut nd p len) (nd_head nd j + int i) l = mread (nd_mem nd) (nd_head nd j + int i) l"
    if "i + l \<le> key_size ?pol \<or> key_size ?pol + 2 \<le> i \<and> i + l \<le> ih_size ?pol" for i l
    using shift_offsets_head [OF assms(1) that] m1 [of i l] unfolding m3 by simp
  have idx: "nd_head nd (Suc p) - int (ih_size ?pol) * int (j - Suc p) = nd_head nd j"
    using assms(2) by (simp add: nd_head_def of_nat_diff algebra_simps)
  have "ih_get_offset ?m3 (nd_head nd j) ?pol = nat ((int (ih_get_offset ?m1 (nd_head nd j) ?pol) - int len) mod 65536)"
    using shift_offsets_get [OF wf(4), of "j - Suc p" "?n - Suc p" ?m1 "nd_head nd (Suc p)" "- int len", unfolded idx] assms(2,3) by simp
  also have "ih_get_offset ?m1 (nd_head nd j) ?pol = nd_off nd j"
    using m1 [of "key_size ?pol" 2] assms(3) by (simp add: ih_get_offset_def get_le_def nd_off_def)
  also have "nat ((int (nd_off nd j) - int len) mod 65536) = nd_off nd j - len"
    using wf b [of j] mono assms(2-4) by (simp add: nat_mod_as_int flip: of_nat_diff)
  finally show "ih_get_offset (nd_cut nd p len) (nd_head nd j) ?pol = nd_off nd j - len" unfolding m3 .
qed

lemma shrink_units_eq:
  assumes "nd_wf nd" "p < nh_get_num_items nd" "len \<le> nd_off nd (Suc p) - nd_off nd p" "u \<noteq> MAX_UINT32"
  defines "m1 \<equiv> set_le 2 (nd_cut nd p len) 4 (int (nh_get_free_space nd + len))"
  shows "node40_shrink nd \<lparr>item = p, unit = u\<rparr> len c =
    (0, nd\<lparr>nd_mem := set_le 2 m1 6 (int (nh_get_free_space_start nd - len)), nd_dirty := True\<rparr>)"
proof -
  note wf = nd_wfD [OF assms(1)] and b = nd_off_bounds [OF assms(1)] and mono = nd_off_mono [OF assms(1), of p "Suc p"]
  let ?pol = "nd_keypol nd" and ?n = "nh_get_num_items nd"
  have small: "?n < 65536" using wf by auto
  have n: "to_u32 (int ?n - 1) = ?n - Suc 0" using to_u32_diff [of 1 ?n] assms(2) small by simp
  have hd: "node40_ih_at nd p = nd_head nd p" "node40_ih_at nd (?n - Suc 0) = nd_head nd (?n - Suc 0)"
    using small assms(2) by (simp_all add: ih_at_head)
  have h: "28 \<le> nd_head nd (?n - Suc 0)" "int (nd_off nd (Suc p)) \<le> nd_head nd (?n - Suc 0)"
    "nd_head nd (?n - Suc 0) < 65536"
    using wf b [of "Suc p"] assms(2) by (auto simp: nd_head_def of_nat_diff algebra_simps)
  have len: "to_u16 (int (nd_off nd (Suc p)) - int (nd_off nd p)) = nd_off nd (Suc p) - nd_off nd p"
    using mono b [of "Suc p"] wf assms(2) by (simp add: to_u16_def nat_mod_as_int flip: of_nat_diff)
  have o: "node40_ib_at nd p = int (nd_off nd p)"
    using assms(2) by (simp add: node40_ib_at_def node40_ib_by_ih_def hd nd_off_def)
  have nxt: "nd_head nd p - int (ih_size ?pol) = nd_head nd (Suc p)" by (simp add: nd_head_def algebra_simps)
  have ilen: "node40_len_by_ih nd (nd_head nd p) p ?n = nd_off nd (Suc p) - nd_off nd p"
  proof -
    have "to_u32 (1 + int p) = Suc p" using to_u32_nat [of "Suc p"] small assms(2) by simp
    then show ?thesis
      using assms(2) len nxt by (auto simp: node40_len_by_ih_def Let_def nd_off_def add.commute)
  qed
  have src: "int (nd_off nd p) + int (nd_off nd (Suc p) - nd_off nd p) = int (nd_off nd (Suc p))"
    using mono assms(2) by simp
  have sz: "to_u32 (nd_head nd (?n - Suc 0) - int (nd_off nd (Suc p))) = nat (nd_head nd (?n - Suc 0) - int (nd_off nd (Suc p)))"
    using h by (intro to_u32_id) auto
  have loop: "ih_shift_offsets_to m (nd_head nd (Suc p)) (nd_head nd (?n - Suc 0)) d ?pol =
      ih_shift_offsets (?n - Suc p) m (nd_head nd (Suc p)) d ?pol" for m d
  proof -
    have "nd_head nd (Suc p) = nd_head nd (?n - Suc 0) + int (ih_size ?pol) * (int (?n - Suc p) - 1)"
      using assms(2) by (simp add: nd_head_def of_nat_diff algebra_simps)
    then show ?thesis using shift_offsets_to [OF wf(4), of m "nd_head nd (?n - Suc 0)" "?n - Suc p" d] by simp
  qed
  have cut: "ih_shift_offsets (?n - Suc p)
           (memmove (nd_mem nd) (int (nd_off nd (Suc p)) - int len) (int (nd_off nd (Suc p))) (nat (nd_head nd (?n - Suc 0) - int (nd_off nd (Suc p)))))
           (nd_head nd (Suc p)) (- int len) ?pol = nd_cut nd p len"
    by (simp add: nd_cut_def Let_def)
  have r: "get_le 2 (nd_cut nd p len) a = get_le 2 (nd_mem nd) a" if "a + 2 \<le> 28" for a
    unfolding get_le_def using that b(1) [of p] assms(3) mono assms(2) by (subst cut_outside [OF assms(1-3)]) auto
  have le: "len \<le> nh_get_free_space_start nd" using b(2) [of "Suc p"] assms(3) by simp
  have fin: "node40_mkdirty (nh_dec_free_space_start (nh_inc_free_space (nd\<lparr>nd_mem := nd_cut nd p len\<rparr>) (int len)) (int len)) =
      nd\<lparr>nd_mem := set_le 2 m1 6 (int (nh_get_free_space_start nd - len)), nd_dirty := True\<rparr>"
    using r [of 4] r [of 6] le
    by (simp add: node40_mkdirty_def nh_dec_free_space_start_def nh_inc_free_space_def nh_set_free_space_start_def
        nh_set_free_space_def nh_get_free_space_start_def nh_get_free_space_def m1_def mem_simps of_nat_diff)
  show ?thesis
    using assms(4) by (simp add: node40_shrink_def Let_def n hd o ilen src sz nxt loop cut fin)
qed


lemma nd_item_prefixI:
  assumes "nd_wf nd" "nd_keypol nd' = nd_keypol nd"
    and "\<And>i l. i + l \<le> key_size (nd_keypol nd) \<or> key_size (nd_keypol nd) + 2 \<le> i \<and> i + l \<le> ih_size (nd_keypol nd) \<Longrightarrow>
      mread (nd_mem nd') (nd_head nd' j' + int i) l = mread (nd_mem nd) (nd_head nd j + int i) l"
  shows "nd_item nd' j' = (nd_item nd j)\<lparr>it_body := it_body (nd_item nd' j')\<rparr>"
proof -
  have "key_size (nd_keypol nd) + 6 = ih_size (nd_keypol nd)" using nd_wfD(1) [OF assms(1)] by auto
  then show ?thesis
    using assms(2) assms(3) [of 0 "key_size (nd_keypol nd)"] assms(3) [of "key_size (nd_keypol nd) + 2" 2]
      assms(3) [of "key_size (nd_keypol nd) + 4" 2]
    by (simp add: nd_item_def ih_get_flags_def ih_get_pid_def get_le_def add_ac)
qed

lemma shrink_units_read:
  fixes count :: nat
  assumes "nd_wf nd" "p < nh_get_num_items nd" "len \<le> nd_off nd (Suc p) - nd_off nd p" "u \<noteq> MAX_UINT32"
  defines "nd' \<equiv> snd (node40_shrink nd \<lparr>item = p, unit = u\<rparr> len count)"
  shows "nh_get_num_items nd' = nh_get_num_items nd"
    and "nh_get_free_space nd' = nh_get_free_space nd + len"
    and "nh_get_free_space_start nd' = nh_get_free_space_start nd - len"
    and "nd_size nd' = nd_size nd" "nd_keypol nd' = nd_keypol nd" "nd_kplug nd' = nd_kplug nd" "nd_dirty nd'"
    and "28 \<le> a \<Longrightarrow> mread (nd_mem nd') a l = mread (nd_cut nd p len) a l"
proof -
  note eq = shrink_units_eq [OF assms(1-4), of count]
  note wf = nd_wfD [OF assms(1)] and b = nd_off_bounds [OF assms(1)]
  have le: "nd_off nd p + len \<le> nd_off nd (Suc p)" using nd_off_mono [OF assms(1), of p "Suc p"] assms(2,3) by simp
  show "mread (nd_mem nd') a l = mread (nd_cut nd p len) a l" if "28 \<le> a" for a l
    using that by (simp add: nd'_def eq mread_set_le_other)
  have "mread (nd_cut nd p len) 2 2 = mread (nd_mem nd) 2 2"
    using b [of p] le by (intro cut_outside [OF assms(1-3)]) auto
  then show "nh_get_num_items nd' = nh_get_num_items nd"
    by (simp add: nd'_def eq get_set_le_other nh_get_num_items_def) (simp add: get_le_def)
  have "nh_get_free_space nd + len < 65536" using wf b [of "Suc p"] le by linarith
  then show "nh_get_free_space nd' = nh_get_free_space nd + len"
    by (simp add: nd'_def eq nh_get_free_space_def get_set_le_other set_get_u16 nat_add_distrib)
  have "nh_get_free_space_start nd - len < 65536" using wf by linarith
  then show "nh_get_free_space_start nd' = nh_get_free_space_start nd - len"
    by (simp add: nd'_def eq nh_get_free_space_start_def set_get_u16)
  show "nd_size nd' = nd_size nd" "nd_keypol nd' = nd_keypol nd" "nd_kplug nd' = nd_kplug nd" "nd_dirty nd'"
    by (simp_all add: nd'_def eq)
qed

lemma shrink_units_heads:
  fixes count :: nat
  assumes "nd_wf nd" "p < nh_get_num_items nd" "len \<le> nd_off nd (Suc p) - nd_off nd p" "u \<noteq> MAX_UINT32"
  defines "nd' \<equiv> snd (node40_shrink nd \<lparr>item = p, unit = u\<rparr> len count)"
  shows "nd_head nd' j = nd_head nd j"
    and "j < nh_get_num_items nd \<Longrightarrow>
      i + l \<le> key_size (nd_keypol nd) \<or> key_size (nd_keypol nd) + 2 \<le> i \<and> i + l \<le> ih_size (nd_keypol nd) \<Longrightarrow>
      mread (nd_mem nd') (nd_head nd j + int i) l = mread (nd_mem nd) (nd_head nd j + int i) l"
    and "nd_off nd' j = (if j \<le> p then nd_off nd j else nd_off nd j - len)"
proof -
  let ?pol = "nd_keypol nd" and ?n = "nh_get_num_items nd" and ?C = "nd_cut nd p len"
  note wf = nd_wfD [OF assms(1)] and b = nd_off_bounds [OF assms(1)]
  note read = shrink_units_read [OF assms(1-4), where count = count, folded nd'_def]
  show hd: "nd_head nd' j = nd_head nd j" for j by (simp add: nd_head_def read(4,5))
  have hb: "28 \<le> nd_head nd j + int i" if "j < ?n" for j i
    using wf b(1) [of 0] b(2) [of 0] that by (auto simp: nd_head_def algebra_simps)
  have out: "mread ?C (nd_head nd j + int i) l = mread (nd_mem nd) (nd_head nd j + int i) l" if "j \<le> p" for i j l
    using wf(1) that by (intro cut_outside [OF assms(1-3)]) (auto simp: nd_head_def)
  show "mread (nd_mem nd') (nd_head nd j + int i) l = mread (nd_mem nd) (nd_head nd j + int i) l"
    if "j < ?n" "i + l \<le> key_size ?pol \<or> key_size ?pol + 2 \<le> i \<and> i + l \<le> ih_size ?pol" for i l j
    using cut_head(1) [OF assms(1) _ that(1) assms(3) that(2)] out [of j i l] hb [OF that(1), of i]
    by (cases "p < j") (simp_all add: read(8))
  show "nd_off nd' j = (if j \<le> p then nd_off nd j else nd_off nd j - len)" for j
  proof (cases "j < ?n")
    case True
    have "ih_get_offset (nd_mem nd') (nd_head nd j) ?pol = ih_get_offset ?C (nd_head nd j) ?pol"
      using hb [OF True, of "key_size ?pol"] by (simp add: ih_get_offset_def get_le_def read(8))
    moreover have "ih_get_offset ?C (nd_head nd j) ?pol = nd_off nd j" if "j \<le> p"
      using True out [OF that, of "key_size ?pol" 2] by (simp add: nd_off_def ih_get_offset_def get_le_def)
    ultimately show ?thesis
      using True cut_head(2) [OF assms(1) _ True assms(3)] by (simp add: nd_off_def [of nd'] read(1,5) hd)
  qed (use assms(2) in \<open>simp add: nd_off_def read(1,3)\<close>)
qed

lemma shrink_units_item:
  fixes count :: nat
  assumes "nd_wf nd" "p < nh_get_num_items nd" "len \<le> nd_off nd (Suc p) - nd_off nd p" "u \<noteq> MAX_UINT32"
  defines "nd' \<equiv> snd (node40_shrink nd \<lparr>item = p, unit = u\<rparr> len count)"
  assumes "j < nh_get_num_items nd" "j \<noteq> p"
  shows "nd_item nd' j = nd_item nd j"
proof (rule nd_item_eqI [OF nd_wfD(4) [OF assms(1)]])
  note b = nd_off_bounds [OF assms(1)] and mono = nd_off_mono [OF assms(1)]
  note read = shrink_units_read [OF assms(1-4), where count = count, folded nd'_def]
    and heads = shrink_units_heads [OF assms(1-4), where count = count, folded nd'_def]
  have le: "nd_off nd p + len \<le> nd_off nd (Suc p)" using mono [of p "Suc p"] assms(2,3) by simp
  show "nd_off nd' (Suc j) - nd_off nd' j = nd_off nd (Suc j) - nd_off nd j"
    using heads(3) assms(6,7) le mono [of "Suc p" j] mono [of j "Suc j"] by auto
  show "mread (nd_mem nd') (int (nd_off nd' j)) (nd_off nd (Suc j) - nd_off nd j) =
      mread (nd_mem nd) (int (nd_off nd j)) (nd_off nd (Suc j) - nd_off nd j)"
  proof (cases "j < p")
    case True
    then show ?thesis
      using mono [of j "Suc j"] mono [of "Suc j" p] le assms(2) b(1) [of j]
      by (simp add: heads(3) read(8)) (rule cut_outside [OF assms(1-3)], simp)
  next
    case False
    then have "nd_off nd (Suc p) \<le> nd_off nd j" using mono [of "Suc p" j] assms(6,7) by simp
    then have "int (nd_off nd' j) = int (nd_off nd j) - int len" "28 \<le> int (nd_off nd j) - int len"
      using False assms(7) le b(1) [of p] by (auto simp add: heads(3) of_nat_diff)
    then show ?thesis
      using \<open>nd_off nd (Suc p) \<le> nd_off nd j\<close> assms(6) b(2) [of "Suc j"] mono [of j "Suc j"]
        cut_body [OF assms(1-3), of "int (nd_off nd j)" "nd_off nd (Suc j) - nd_off nd j"]
      by (simp add: read(8))
  qed
qed (use shrink_units_read(5) [OF assms(1-4)] shrink_units_heads(1,2) [OF assms(1-4)] assms(6) in \<open>simp_all add: nd'_def\<close>)

lemma shrink_units_item_cut:
  fixes count :: nat
  assumes "nd_wf nd" "p < nh_get_num_items nd" "len \<le> nd_off nd (Suc p) - nd_off nd p" "u \<noteq> MAX_UINT32"
  defines "nd' \<equiv> snd (node40_shrink nd \<lparr>item = p, unit = u\<rparr> len count)"
  shows "nd_item nd' p = (nd_item nd p)\<lparr>it_body := take (nd_off nd (Suc p) - nd_off nd p - len) (it_body (nd_item nd p))\<rparr>"
proof -
  note read = shrink_units_read [OF assms(1-4), where count = count, folded nd'_def]
    and heads = shrink_units_heads [OF assms(1-4), where count = count, folded nd'_def]
  let ?l = "nd_off nd (Suc p) - nd_off nd p"
  have le: "nd_off nd p + len \<le> nd_off nd (Suc p)"
    using nd_off_mono [OF assms(1), of p "Suc p"] assms(2,3) by simp
  have "mread (nd_mem nd') (int (nd_off nd p)) (?l - len) = mread (nd_mem nd) (int (nd_off nd p)) (?l - len)"
    using nd_off_bounds(1) [OF assms(1), of p] le by (simp add: read(8)) (rule cut_outside [OF assms(1-3)], simp)
  also have "\<dots> = take (?l - len) (mread (nd_mem nd) (int (nd_off nd p)) ?l)"
    using mread_part [of 0 "?l - len" ?l "nd_mem nd" "int (nd_off nd p)"] by simp
  finally have "it_body (nd_item nd' p) = take (?l - len) (it_body (nd_item nd p))"
    using le by (simp add: nd_item_def heads(3) add.commute)
  moreover have "nd_item nd' p = (nd_item nd p)\<lparr>it_body := it_body (nd_item nd' p)\<rparr>"
    using heads(1,2) read(5) assms(2) by (intro nd_item_prefixI [OF assms(1)]) simp_all
  ultimately show ?thesis by simp
qed

lemma nd_items_update:
  assumes "nh_get_num_items nd' = nh_get_num_items nd" "p < nh_get_num_items nd"
    and "\<And>j. j < nh_get_num_items nd \<Longrightarrow> j \<noteq> p \<Longrightarrow> nd_item nd' j = nd_item nd j"
  shows "nd_items nd' = (nd_items nd)[p := nd_item nd' p]"
  by (rule nth_equalityI) (use assms in \<open>auto simp: nth_list_update\<close>)

lemma shrink_units_result:
  fixes count :: nat
  assumes "nd_wf nd" "p < nh_get_num_items nd" "len \<le> nd_off nd (Suc p) - nd_off nd p" "u \<noteq> MAX_UINT32"
  defines "nd' \<equiv> snd (node40_shrink nd \<lparr>item = p, unit = u\<rparr> len count)"
  shows "nd_wf nd'" "nd_items nd' = (nd_items nd)[p := nd_item nd' p]"
proof -
  note read = shrink_units_read [OF assms(1-4), where count = count, folded nd'_def]
    and off = shrink_units_heads(3) [OF assms(1-4), where count = count, folded nd'_def] and mono = nd_off_mono [OF assms(1)]
  have le: "nd_off nd p + len \<le> nd_off nd (Suc p)" using mono [of p "Suc p"] assms(2,3) by simp
  show "nd_items nd' = (nd_items nd)[p := nd_item nd' p]"
    using shrink_units_item [OF assms(1-4), where count = count, folded nd'_def] read(1) assms(2) by (intro nd_items_update) auto
  have "nd_off nd' j \<le> nd_off nd' (Suc j)" if "j < nh_get_num_items nd" for j
    using off that le mono [of j "Suc j"] by (auto simp: not_le less_Suc_eq)
  moreover have "nd_hdr nd' = nd_hdr nd" by (simp add: nd_hdr_def nd'_def)
  ultimately show "nd_wf nd'"
    unfolding nd_wf_def using nd_wfD [OF assms(1)] read off [of 0] assms(1) nd_off_bounds(2) [OF assms(1), of "Suc p"] le
    by (auto simp: nd_wf_def)
qed

text \<open>
  \<^verbatim>\<open>node40_shrink\<close> inside an item cuts \<open>len\<close> bytes off its end: the item keeps its header fields and
  the front of its body, every other item stays, the node stays well-formed and the free space grows
  by \<open>len\<close>.
\<close>

lemma node40_shrink_units:
  assumes "nd_wf nd" "p < node40_items nd" "u \<noteq> MAX_UINT32" "len \<le> length (it_body (nd_items nd ! p))"
  shows "\<exists>nd'. node40_shrink nd \<lparr>item = p, unit = u\<rparr> len count = (0, nd') \<and> nd_wf nd' \<and> node40_isdirty nd' \<and>
    node40_space nd' = node40_space nd + len \<and>
    nd_items nd' = (nd_items nd)[p := (nd_items nd ! p)\<lparr>it_body :=
      take (length (it_body (nd_items nd ! p)) - len) (it_body (nd_items nd ! p))\<rparr>]"
proof -
  let ?nd' = "snd (node40_shrink nd \<lparr>item = p, unit = u\<rparr> len count)"
  have p: "p < nh_get_num_items nd" using assms(2) by (simp add: node40_items_def)
  have len: "len \<le> nd_off nd (Suc p) - nd_off nd p" using assms(4) p by (simp add: nd_item_def)
  note a = assms(1) p len assms(3)
  note read = shrink_units_read [OF a, where count = count]
  have "length (it_body (nd_item nd p)) = nd_off nd (Suc p) - nd_off nd p" by (simp add: nd_item_def)
  then show ?thesis
    using shrink_units_eq [OF a, of count] shrink_units_result [OF a, where count = count] read(2,7)
      shrink_units_item_cut [OF a, where count = count] p
    by (intro exI [of _ ?nd']) (simp add: node40_isdirty_def node40_space_def)
qed

lemma sample_body: "length (it_body (nd_items sample_node ! 0)) = 5"
  using sample_heads sample_offs by (simp add: nd_items_def nd_item_def nd_off_def nd_head_def ih_size_def)

end
