(* ===== verification/NodeMove.thy ===== *)
theory NodeMove
  imports NodeShrink
begin

text \<open>
  Copying items between nodes, as \<^verbatim>\<open>node40_expand\<close> and \<^verbatim>\<open>node40_copy\<close> do it together, and making room for
  units at the end of an item.
\<close>

section \<open>The offset loop of the copy\<close>

lemma copy_offsets_read:
  assumes "\<forall>i<cnt. a + int n \<le> ih - int (ih_size pol) * int i + int (key_size pol) \<or>
      ih - int (ih_size pol) * int i + int (key_size pol) + 2 \<le> a"
  shows "mread (node40_copy_offsets cnt m ih endp off fss pol) a n = mread m a n"
  using assms
proof (induction cnt arbitrary: m ih off)
  case (Suc cnt)
  have "\<forall>i<cnt. a + int n \<le> (ih - int (ih_size pol)) - int (ih_size pol) * int i + int (key_size pol) \<or>
      (ih - int (ih_size pol)) - int (ih_size pol) * int i + int (key_size pol) + 2 \<le> a"
  proof (intro allI impI)
    fix i assume "i < cnt"
    then have "a + int n \<le> ih - int (ih_size pol) * int (Suc i) + int (key_size pol) \<or>
      ih - int (ih_size pol) * int (Suc i) + int (key_size pol) + 2 \<le> a" using Suc.prems by blast
    then show "a + int n \<le> (ih - int (ih_size pol)) - int (ih_size pol) * int i + int (key_size pol) \<or>
      (ih - int (ih_size pol)) - int (ih_size pol) * int i + int (key_size pol) + 2 \<le> a"
      by (simp add: algebra_simps)
  qed
  then show ?case
    using Suc.IH Suc.prems [rule_format, of 0] by (auto simp: ih_set_offset_def mread_set_le_other Let_def)
qed simp

text \<open>The new offsets keep the distances of the old ones, \<open>f\<close>.\<close>

lemma copy_offsets_get:
  assumes "pol \<in> {3, 4}"
    and "\<And>i. i < cnt \<Longrightarrow> ih_get_offset m (ih - int (ih_size pol) * int i) pol = f i"
    and "\<And>i. Suc i < cnt \<Longrightarrow> f i \<le> f (Suc i)"
    and "\<And>i. Suc i < cnt \<Longrightarrow> ih - int (ih_size pol) * int i \<noteq> endp"
    and "base + f (cnt - 1) - f 0 < 65536" "i < cnt"
  shows "ih_get_offset (node40_copy_offsets cnt m ih endp (int base) fss pol) (ih - int (ih_size pol) * int i) pol =
    base + (f i - f 0)"
  using assms(2-)
proof (induction cnt arbitrary: m ih base f i)
  case (Suc cnt)
  let ?h = "int (ih_size pol)"
  have mono: "f j \<le> f k" if "j \<le> k" "k < Suc cnt" for j k
    using that(1,2)
  proof (induction k rule: dec_induct)
    case (step k)
    then show ?case using Suc.prems(2) [of k] by simp
  qed simp
  have fl: "f 0 \<le> f cnt" using mono [of 0 cnt] by simp
  have base: "base < 65536" using Suc.prems(4) fl by simp
  let ?m = "ih_set_offset m ih (int base) pol"
  show ?case
  proof (cases i)
    case 0
    have "ih_get_offset (node40_copy_offsets (Suc cnt) m ih endp (int base) fss pol) ih pol = ih_get_offset ?m ih pol"
      unfolding ih_get_offset_def get_le_def node40_copy_offsets.simps Let_def
      by (rule arg_cong [OF copy_offsets_read]) (use assms(1) in \<open>auto simp: ih_size_def key_size_def\<close>)
    also have "\<dots> = base" using base by (simp add: ih_get_offset_def ih_set_offset_def mem_simps)
    finally show ?thesis using 0 by simp
  next
    case (Suc i')
    have keep: "ih_get_offset ?m (ih - ?h - ?h * int j) pol = ih_get_offset m (ih - ?h - ?h * int j) pol" for j
      using assms(1) by (auto simp: ih_get_offset_def ih_set_offset_def ih_size_def key_size_def mem_simps)
    have old: "ih_get_offset m (ih - ?h - ?h * int j) pol = f (Suc j)" if "j < cnt" for j
      using Suc.prems(1) [of "Suc j"] that by (simp add: algebra_simps)
    have cnt: "0 < cnt" "i' < cnt" using Suc.prems(5) Suc by auto
    have "ih \<noteq> endp" using Suc.prems(3) [of 0] cnt by simp
    have f1: "f 0 \<le> f 1" "f 1 \<le> f cnt" using mono [of 0 1] mono [of 1 cnt] cnt by simp_all
    have off: "int base + (int (ih_get_offset ?m (ih - ?h) pol) - int (ih_get_offset m ih pol)) = int (base + (f 1 - f 0))"
      using keep [of 0] old [of 0] cnt Suc.prems(1) [of 0] f1 by simp
    have small: "base + (f 1 - f 0) < 65536" using Suc.prems(4) f1 by simp
    have u: "int (to_u32 (int (base + (f 1 - f 0)))) = int (base + (f 1 - f 0))"
      using small by (simp only: to_u32_nat)
    have A: "ih_get_offset (node40_copy_offsets cnt ?m (ih - ?h) endp (int (base + (f 1 - f 0))) fss pol) (ih - ?h - ?h * int i') pol =
        base + (f 1 - f 0) + (f (Suc i') - f (Suc 0))"
    proof (rule Suc.IH [where f = "\<lambda>j. f (Suc j)"])
      show "base + (f 1 - f 0) + f (Suc (cnt - 1)) - f (Suc 0) < 65536"
        using Suc.prems(4) f1 cnt by simp
      show "ih - ?h - ?h * int j \<noteq> endp" if "Suc j < cnt" for j
        using Suc.prems(3) [of "Suc j"] that by (simp add: algebra_simps)
    qed (use keep old Suc.prems(2) cnt in simp_all)
    have B: "base + (f 1 - f 0) + (f (Suc i') - f (Suc 0)) = base + (f (Suc i') - f 0)"
      using f1(1) mono [of 1 "Suc i'"] cnt by simp
    have C: "ih - ?h * int (Suc i') = ih - ?h - ?h * int i'" by (simp add: algebra_simps)
    show ?thesis
      by (simp only: Suc C node40_copy_offsets.simps Let_def if_not_P [OF \<open>ih \<noteq> endp\<close>] off u A B)
  qed
qed simp


section \<open>Copying items\<close>

text \<open>The memory after the two copies and the loop, for a destination that has room at \<open>dp\<close>.\<close>

definition nd_copied :: "node40 \<Rightarrow> nat \<Rightarrow> node40 \<Rightarrow> nat \<Rightarrow> nat \<Rightarrow> mem" where
  "nd_copied dst dp src sp c =
     (let pol = nd_keypol dst; n = nh_get_num_items dst; off = nd_off dst dp
      in node40_copy_offsets c
           (memcpy (memcpy (nd_mem dst) (int off) (nd_mem src) (int (nd_off src sp)) (nd_off src (sp + c) - nd_off src sp))
             (nd_head dst (dp + c - 1)) (nd_mem src) (nd_head src (sp + c - 1)) (c * ih_size pol))
           (nd_head dst dp) (nd_head dst (n - 1)) (int off) (int (nh_get_free_space_start dst)) pol)"

text \<open>
  The destination a copy starts from: expanding made room for \<open>c\<close> headers at \<open>dp\<close> and for their bodies
  in front of those of the items behind.
\<close>

definition nd_prepared :: "node40 \<Rightarrow> nat \<Rightarrow> nat \<Rightarrow> nat \<Rightarrow> bool" where
  "nd_prepared dst dp len c \<longleftrightarrow> nd_keypol dst \<in> {3, 4} \<and> nd_size dst < 65536 \<and>
     nh_get_free_space_start dst + nh_get_num_items dst * ih_size (nd_keypol dst) \<le> nd_size dst \<and>
     dp + c \<le> nh_get_num_items dst \<and> 0 < c \<and> 28 \<le> nd_off dst dp \<and>
     nd_off dst (dp + c) = nd_off dst dp + len \<and> nd_off dst (dp + c) \<le> nh_get_free_space_start dst"

lemma nd_preparedD:
  assumes "nd_prepared dst dp len c"
  shows "ih_size (nd_keypol dst) = 30 \<and> key_size (nd_keypol dst) = 24 \<or>
      ih_size (nd_keypol dst) = 38 \<and> key_size (nd_keypol dst) = 32"
    and "nd_keypol dst \<in> {3, 4}" "dp + c \<le> nh_get_num_items dst" "0 < c"
    and "int (nd_off dst (dp + c)) \<le> nd_head dst (dp + c - 1)" "nd_off dst (dp + c) = nd_off dst dp + len"
    and "28 \<le> nd_off dst dp" "nd_off dst (dp + c) < 65536"
  using assms by (auto simp: nd_prepared_def ih_size_def key_size_def nd_head_def of_nat_diff)

lemma copied_outside:
  assumes "nd_prepared dst dp (nd_off src (sp + c) - nd_off src sp) c"
    and "a + int l \<le> int (nd_off dst dp) \<or> int (nd_off dst (dp + c)) \<le> a \<and> a + int l \<le> nd_head dst (dp + c - 1) \<or>
      int (nd_size dst) - int (ih_size (nd_keypol dst)) * int dp \<le> a"
  shows "mread (nd_copied dst dp src sp c) a l = mread (nd_mem dst) a l"
proof -
  note p = nd_preparedD [OF assms(1)]
  let ?pol = "nd_keypol dst" and ?len = "nd_off src (sp + c) - nd_off src sp"
  let ?m1 = "memcpy (nd_mem dst) (int (nd_off dst dp)) (nd_mem src) (int (nd_off src sp)) ?len"
  let ?m2 = "memcpy ?m1 (nd_head dst (dp + c - 1)) (nd_mem src) (nd_head src (sp + c - 1)) (c * ih_size ?pol)"
  have "mread ?m1 a l = mread (nd_mem dst) a l"
    using p assms(2) by (intro mread_memcpy_other) (auto simp: nd_head_def of_nat_diff)
  moreover have "mread ?m2 a l = mread ?m1 a l"
    using p assms(2) by (intro mread_memcpy_other) (auto simp: nd_head_def of_nat_diff algebra_simps)
  moreover have "mread (node40_copy_offsets c ?m2 (nd_head dst dp) endp off fss ?pol) a l = mread ?m2 a l" for endp off fss
    using p assms(2) by (intro copy_offsets_read) (auto simp: nd_head_def of_nat_diff algebra_simps)
  ultimately show ?thesis by (simp add: nd_copied_def Let_def)
qed

lemma copied_body:
  assumes "nd_prepared dst dp (nd_off src (sp + c) - nd_off src sp) c"
    and "int (nd_off src sp) \<le> a" "a + int l \<le> int (nd_off src (sp + c))"
  shows "mread (nd_copied dst dp src sp c) (a - int (nd_off src sp) + int (nd_off dst dp)) l = mread (nd_mem src) a l"
proof -
  note p = nd_preparedD [OF assms(1)]
  let ?pol = "nd_keypol dst" and ?len = "nd_off src (sp + c) - nd_off src sp"
  let ?a = "a - int (nd_off src sp) + int (nd_off dst dp)"
  let ?m1 = "memcpy (nd_mem dst) (int (nd_off dst dp)) (nd_mem src) (int (nd_off src sp)) ?len"
  let ?m2 = "memcpy ?m1 (nd_head dst (dp + c - 1)) (nd_mem src) (nd_head src (sp + c - 1)) (c * ih_size ?pol)"
  have "mread ?m1 ?a l = mread (nd_mem src) a l"
    using assms(2,3) by (subst mread_memcpy) auto
  moreover have "mread ?m2 ?a l = mread ?m1 ?a l"
    using p assms(2,3) by (intro mread_memcpy_other) (auto simp: nd_head_def of_nat_diff algebra_simps)
  moreover have "mread (node40_copy_offsets c ?m2 (nd_head dst dp) endp off fss ?pol) ?a l = mread ?m2 ?a l" for endp off fss
    using p assms(2,3) by (intro copy_offsets_read) (auto simp: nd_head_def of_nat_diff algebra_simps)
  ultimately show ?thesis by (simp add: nd_copied_def Let_def)
qed

lemma copied_head:
  assumes "nd_prepared dst dp (nd_off src (sp + c) - nd_off src sp) c" "nd_wf src" "sp + c \<le> nh_get_num_items src"
    and "nd_keypol src = nd_keypol dst" "j < c"
  shows "i + l \<le> key_size (nd_keypol dst) \<or> key_size (nd_keypol dst) + 2 \<le> i \<and> i + l \<le> ih_size (nd_keypol dst) \<Longrightarrow>
      mread (nd_copied dst dp src sp c) (nd_head dst (dp + j) + int i) l = mread (nd_mem src) (nd_head src (sp + j) + int i) l"
    and "ih_get_offset (nd_copied dst dp src sp c) (nd_head dst (dp + j)) (nd_keypol dst) =
      nd_off dst dp + (nd_off src (sp + j) - nd_off src sp)"
proof -
  note p = nd_preparedD [OF assms(1)]
  let ?pol = "nd_keypol dst" and ?len = "nd_off src (sp + c) - nd_off src sp" and ?n = "nh_get_num_items dst"
  let ?m1 = "memcpy (nd_mem dst) (int (nd_off dst dp)) (nd_mem src) (int (nd_off src sp)) ?len"
  let ?m2 = "memcpy ?m1 (nd_head dst (dp + c - 1)) (nd_mem src) (nd_head src (sp + c - 1)) (c * ih_size ?pol)"
  let ?m3 = "node40_copy_offsets c ?m2 (nd_head dst dp) (nd_head dst (?n - 1)) (int (nd_off dst dp)) (int (nh_get_free_space_start dst)) ?pol"
  have m3: "nd_copied dst dp src sp c = ?m3" by (simp add: nd_copied_def Let_def)
  have m2: "mread ?m2 (nd_head dst (dp + j) + int i) l = mread (nd_mem src) (nd_head src (sp + j) + int i) l"
    if "j < c" "i + l \<le> ih_size ?pol" for i j l
  proof -
    have "mread ?m2 (nd_head dst (dp + j) + int i) l =
        mread (nd_mem src) (nd_head dst (dp + j) + int i - nd_head dst (dp + c - 1) + nd_head src (sp + c - 1)) l"
      using p that by (intro mread_memcpy) (auto simp: nd_head_def of_nat_diff algebra_simps)
    moreover have "nd_head dst (dp + j) + int i - nd_head dst (dp + c - 1) + nd_head src (sp + c - 1) = nd_head src (sp + j) + int i"
      using assms(4) p(4) by (simp add: nd_head_def of_nat_diff algebra_simps)
    ultimately show ?thesis by (simp only:)
  qed
  show "mread (nd_copied dst dp src sp c) (nd_head dst (dp + j) + int i) l = mread (nd_mem src) (nd_head src (sp + j) + int i) l"
    if "i + l \<le> key_size ?pol \<or> key_size ?pol + 2 \<le> i \<and> i + l \<le> ih_size ?pol" for i l
  proof -
    have "mread ?m3 (nd_head dst (dp + j) + int i) l = mread ?m2 (nd_head dst (dp + j) + int i) l"
      using head_part_disjoint [OF p(2) that] by (intro copy_offsets_read) blast
    then show ?thesis using m2 [OF assms(5), of i l] that p(1) unfolding m3 by auto
  qed
  have idx: "nd_head dst dp - int (ih_size ?pol) * int j = nd_head dst (dp + j)" for j
    by (simp add: nd_head_def algebra_simps)
  have "ih_get_offset ?m3 (nd_head dst dp - int (ih_size ?pol) * int j) ?pol = nd_off dst dp + (nd_off src (sp + j) - nd_off src (sp + 0))"
  proof (rule copy_offsets_get [where f = "\<lambda>j. nd_off src (sp + j)", OF p(2)])
    show "ih_get_offset ?m2 (nd_head dst dp - int (ih_size ?pol) * int j) ?pol = nd_off src (sp + j)" if "j < c" for j
      unfolding idx using m2 [OF that, of "key_size ?pol" 2] p(1) that assms(3,4)
      by (auto simp: ih_get_offset_def get_le_def nd_off_def)
    show "nd_off src (sp + j) \<le> nd_off src (sp + Suc j)" if "Suc j < c" for j
      using nd_off_mono [OF assms(2)] that assms(3) by simp
    show "nd_head dst dp - int (ih_size ?pol) * int j \<noteq> nd_head dst (?n - 1)" if "Suc j < c" for j
      unfolding idx using p that by (auto simp: nd_head_def of_nat_diff)
    show "nd_off dst dp + nd_off src (sp + (c - 1)) - nd_off src (sp + 0) < 65536"
      using p nd_off_mono [OF assms(2), of "sp + (c - 1)" "sp + c"] assms(3) by auto
  qed (rule assms(5))
  then show "ih_get_offset (nd_copied dst dp src sp c) (nd_head dst (dp + j)) ?pol = nd_off dst dp + (nd_off src (sp + j) - nd_off src sp)"
    unfolding m3 idx by simp
qed


lemma copy_eq:
  assumes "nd_prepared dst dp (nd_off src (sp + c) - nd_off src sp) c" "nd_wf src" "sp + c \<le> nh_get_num_items src"
    and "nd_keypol src = nd_keypol dst" "nh_get_num_items dst < 65536"
  shows "node40_copy dst \<lparr>item = dp, unit = u\<rparr> src \<lparr>item = sp, unit = v\<rparr> c =
    (0, dst\<lparr>nd_mem := nd_copied dst dp src sp c, nd_dirty := True\<rparr>)"
proof -
  note p = nd_preparedD [OF assms(1)]
  let ?pol = "nd_keypol dst" and ?n = "nh_get_num_items dst"
  let ?len = "nd_off src (sp + c) - nd_off src sp"
  have small: "c < 65536" "dp + c < 65536" "sp + c < 65536"
    using p assms(3,5) nd_wfD [OF assms(2)] by auto
  have size: "node40_size src \<lparr>item = sp, unit = v\<rparr> c = ?len" using node40_size_eq [OF assms(2,3) p(4)] .
  have w: "to_u32 (int c * int (ih_size ?pol)) = c * ih_size ?pol" "to_u32 (int ?n - int c) = ?n - c"
    "to_u32 (int ?n - 1) = ?n - Suc 0" "to_u32 (int c - 1) = c - Suc 0"
    "to_u32 (int dp + int c - 1) = dp + c - Suc 0" "to_u32 (int sp + int c - 1) = sp + c - Suc 0"
  proof -
    have "c * ih_size ?pol < 4294967296" using small p(1) by auto
    then show "to_u32 (int c * int (ih_size ?pol)) = c * ih_size ?pol" using to_u32_nat by (simp flip: of_nat_mult)
    show "to_u32 (int ?n - int c) = ?n - c" using p assms(5) by (intro to_u32_diff) auto
    show "to_u32 (int ?n - 1) = ?n - Suc 0" using to_u32_diff [of 1 ?n] p assms(5) by simp
    show "to_u32 (int c - 1) = c - Suc 0" using to_u32_diff [of 1 c] p small by simp
    show "to_u32 (int dp + int c - 1) = dp + c - Suc 0" using to_u32_diff [of 1 "dp + c"] p small by simp
    show "to_u32 (int sp + int c - 1) = sp + c - Suc 0" using to_u32_diff [of 1 "sp + c"] p small by simp
  qed
  have hd: "node40_ih_at nd j = nd_head nd j" if "j < 65536" for nd j using that by (simp add: ih_at_head)
  have src: "node40_ib_at src sp = int (nd_off src sp)"
    using small p(4) assms(3) by (simp add: node40_ib_at_def node40_ib_by_ih_def hd nd_off_def)
  have body: "(if dp < ?n - c then node40_ib_at dst dp else int (nh_get_free_space_start dst) - int ?len) = int (nd_off dst dp)"
  proof (cases "dp < ?n - c")
    case True
    then show ?thesis using small p(3,4) by (simp add: node40_ib_at_def node40_ib_by_ih_def hd nd_off_def)
  next
    case False
    then have "dp + c = ?n" using p(3) by simp
    then have "nh_get_free_space_start dst = nd_off dst dp + ?len" using p(6) by (simp add: nd_off_end)
    then show ?thesis using False by simp
  qed
  have ih: "nd_head dst (dp + c - Suc 0) + int (ih_size ?pol) * int (c - Suc 0) = nd_head dst dp"
    using p(4) by (simp add: nd_head_def of_nat_diff algebra_simps)
  have off: "to_u32 (int (nd_off dst dp)) = nd_off dst dp" using p by (simp add: to_u32_nat)
  have lt: "dp + c - Suc 0 < 65536" "sp + c - Suc 0 < 65536" "?n - Suc 0 < 65536" using small assms(5) by simp_all
  show ?thesis
    using body by (cases "dp < ?n - c")
      (simp_all add: node40_copy_def Let_def size w src hd lt ih off nd_copied_def node40_mkdirty_def)
qed


text \<open>The items around the copied ones stay what they were in the expanded node.\<close>

lemma copy_read:
  assumes "nd_prepared dst dp (nd_off src (sp + c) - nd_off src sp) c"
  defines "dst' \<equiv> dst\<lparr>nd_mem := nd_copied dst dp src sp c, nd_dirty := True\<rparr>"
  shows "nh_get_num_items dst' = nh_get_num_items dst" "nh_get_free_space dst' = nh_get_free_space dst"
    "nh_get_free_space_start dst' = nh_get_free_space_start dst" "nd_head dst' j = nd_head dst j"
    "nd_size dst' = nd_size dst" "nd_keypol dst' = nd_keypol dst" "nd_dirty dst'"
proof -
  note p = nd_preparedD [OF assms(1)]
  have "mread (nd_copied dst dp src sp c) a 2 = mread (nd_mem dst) a 2" if "a + 2 \<le> 28" for a
    using that p by (intro copied_outside [OF assms(1)]) auto
  then show "nh_get_num_items dst' = nh_get_num_items dst" "nh_get_free_space dst' = nh_get_free_space dst"
    "nh_get_free_space_start dst' = nh_get_free_space_start dst"
    by (simp_all add: dst'_def nh_get_num_items_def nh_get_free_space_def nh_get_free_space_start_def get_le_def)
qed (simp_all add: dst'_def nd_head_def)

lemma copy_off:
  assumes "nd_prepared dst dp (nd_off src (sp + c) - nd_off src sp) c" "nd_wf src" "sp + c \<le> nh_get_num_items src"
    and "nd_keypol src = nd_keypol dst"
  defines "dst' \<equiv> dst\<lparr>nd_mem := nd_copied dst dp src sp c, nd_dirty := True\<rparr>"
  shows "j < dp \<or> dp + c \<le> j \<Longrightarrow> nd_off dst' j = nd_off dst j"
    and "j \<le> c \<Longrightarrow> nd_off dst' (dp + j) = nd_off dst dp + (nd_off src (sp + j) - nd_off src sp)"
proof -
  note p = nd_preparedD [OF assms(1)] and r = copy_read [OF assms(1), folded dst'_def]
  let ?pol = "nd_keypol dst" and ?n = "nh_get_num_items dst" and ?C = "nd_copied dst dp src sp c"
  show other: "nd_off dst' j = nd_off dst j" if "j < dp \<or> dp + c \<le> j" for j
  proof (cases "j < ?n")
    case True
    have fit: "int (nd_off dst (dp + c)) \<le> nd_head dst j"
      using assms(1) True by (auto simp: nd_prepared_def nd_head_def ih_size_def)
    have "mread ?C (nd_head dst j + int (key_size ?pol)) 2 = mread (nd_mem dst) (nd_head dst j + int (key_size ?pol)) 2"
      using that fit p(1,4) by (intro copied_outside [OF assms(1)]) (auto simp: nd_head_def of_nat_diff)
    then show ?thesis
      using True by (simp add: nd_off_def r) (simp add: dst'_def nd_head_def ih_get_offset_def get_le_def)
  qed (simp add: nd_off_def r)
  show "nd_off dst' (dp + j) = nd_off dst dp + (nd_off src (sp + j) - nd_off src sp)" if "j \<le> c" for j
  proof (cases "j = c")
    case True
    then show ?thesis using other [of "dp + c"] p(6) by simp
  next
    case False
    then have "j < c" using that by simp
    from copied_head(2) [OF assms(1-4) this] show ?thesis
      using \<open>j < c\<close> p(3) by (simp add: nd_off_def [of dst'] r) (simp add: dst'_def)
  qed
qed

lemma copy_item:
  assumes "nd_prepared dst dp (nd_off src (sp + c) - nd_off src sp) c" "nd_wf src" "sp + c \<le> nh_get_num_items src"
    and "nd_keypol src = nd_keypol dst" "j < c"
  defines "dst' \<equiv> dst\<lparr>nd_mem := nd_copied dst dp src sp c, nd_dirty := True\<rparr>"
  shows "nd_item dst' (dp + j) = nd_item src (sp + j)"
proof (rule nd_item_eqI)
  note p = nd_preparedD [OF assms(1)] and r = copy_read [OF assms(1), folded dst'_def]
  note off = copy_off(2) [OF assms(1-4), folded dst'_def] and mono = nd_off_mono [OF assms(2)]
  have o: "nd_off src sp \<le> nd_off src (sp + j)" "nd_off src (sp + j) \<le> nd_off src (Suc (sp + j))"
    "nd_off src (Suc (sp + j)) \<le> nd_off src (sp + c)"
    using mono [of sp "sp + j"] mono [of "sp + j" "Suc (sp + j)"] mono [of "Suc (sp + j)" "sp + c"] assms(3,5) by simp_all
  show "nd_keypol src \<in> {3, 4}" "nd_keypol dst' = nd_keypol src" using nd_wfD(4) [OF assms(2)] r assms(4) by simp_all
  show "mread (nd_mem dst') (nd_head dst' (dp + j) + int i) l = mread (nd_mem src) (nd_head src (sp + j) + int i) l"
    if "i + l \<le> key_size (nd_keypol src) \<or> key_size (nd_keypol src) + 2 \<le> i \<and> i + l \<le> ih_size (nd_keypol src)" for i l
    using copied_head(1) [OF assms(1-5)] that assms(4) r by (simp add: dst'_def)
  show "nd_off dst' (Suc (dp + j)) - nd_off dst' (dp + j) = nd_off src (Suc (sp + j)) - nd_off src (sp + j)"
    using off [of j] off [of "Suc j"] assms(5) o by simp
  have "mread (nd_mem dst') (int (nd_off src (sp + j)) - int (nd_off src sp) + int (nd_off dst dp))
      (nd_off src (Suc (sp + j)) - nd_off src (sp + j)) =
    mread (nd_mem src) (int (nd_off src (sp + j))) (nd_off src (Suc (sp + j)) - nd_off src (sp + j))"
    unfolding dst'_def using o by (simp add: copied_body [OF assms(1)])
  moreover have "int (nd_off dst' (dp + j)) = int (nd_off src (sp + j)) - int (nd_off src sp) + int (nd_off dst dp)"
    using off [of j] assms(5) o(1) by simp
  ultimately show "mread (nd_mem dst') (int (nd_off dst' (dp + j))) (nd_off src (Suc (sp + j)) - nd_off src (sp + j)) =
      mread (nd_mem src) (int (nd_off src (sp + j))) (nd_off src (Suc (sp + j)) - nd_off src (sp + j))"
    by (simp only:)
qed

lemma copy_item_other:
  assumes "nd_prepared dst dp (nd_off src (sp + c) - nd_off src sp) c" "nd_wf src" "sp + c \<le> nh_get_num_items src"
    and "nd_keypol src = nd_keypol dst"
    and "j < dp \<and> nd_off dst j \<le> nd_off dst (Suc j) \<and> nd_off dst (Suc j) \<le> nd_off dst dp \<or>
      dp + c \<le> j \<and> j < nh_get_num_items dst \<and> nd_off dst (dp + c) \<le> nd_off dst j \<and>
      nd_off dst j \<le> nd_off dst (Suc j) \<and> nd_off dst (Suc j) \<le> nh_get_free_space_start dst"
  defines "dst' \<equiv> dst\<lparr>nd_mem := nd_copied dst dp src sp c, nd_dirty := True\<rparr>"
  shows "nd_item dst' j = nd_item dst j"
proof (rule nd_item_eqI)
  note p = nd_preparedD [OF assms(1)] and r = copy_read [OF assms(1), folded dst'_def]
  note off = copy_off [OF assms(1-4), folded dst'_def]
  let ?pol = "nd_keypol dst" and ?n = "nh_get_num_items dst"
  have fit: "int (nh_get_free_space_start dst) \<le> nd_head dst (?n - 1)" "j < ?n" "int (nd_off dst (dp + c)) \<le> nd_head dst j"
    using assms(1,5) p(1,3,4) by (auto simp: nd_prepared_def nd_head_def of_nat_diff algebra_simps ih_size_def)
  show "?pol \<in> {3, 4}" "nd_keypol dst' = ?pol" using p r by simp_all
  show "mread (nd_mem dst') (nd_head dst' j + int i) l = mread (nd_mem dst) (nd_head dst j + int i) l"
    if "i + l \<le> key_size ?pol \<or> key_size ?pol + 2 \<le> i \<and> i + l \<le> ih_size ?pol" for i l
    unfolding r(4) using that p(1,4) assms(5) fit
    by (simp add: dst'_def) (intro copied_outside [OF assms(1)], auto simp: nd_head_def of_nat_diff)
  have o: "nd_off dst' j = nd_off dst j" "nd_off dst' (Suc j) = nd_off dst (Suc j)"
    using off(1) [of j] off(1) [of "Suc j"] off(2) [of 0] assms(5) by (cases "Suc j = dp"; auto)+
  then show "nd_off dst' (Suc j) - nd_off dst' j = nd_off dst (Suc j) - nd_off dst j" by simp
  have "nd_head dst (?n - 1) \<le> nd_head dst (dp + c - 1)"
    using p(3,4) by (simp add: nd_head_def of_nat_diff mult_left_mono)
  then show "mread (nd_mem dst') (int (nd_off dst' j)) (nd_off dst (Suc j) - nd_off dst j) =
      mread (nd_mem dst) (int (nd_off dst j)) (nd_off dst (Suc j) - nd_off dst j)"
    unfolding o(1) using assms(5) fit by (simp add: dst'_def) (intro copied_outside [OF assms(1)], auto)
qed


section \<open>Making room and copying\<close>

lemma expand_prepared:
  assumes "nd_wf nd" "p \<le> nh_get_num_items nd" "len + c * ih_size (nd_keypol nd) \<le> nh_get_free_space nd" "0 < len" "0 < c"
  shows "nd_prepared (snd (node40_expand nd \<lparr>item = p, unit = MAX_UINT32\<rparr> len c)) p len c"
proof -
  let ?nd = "snd (node40_expand nd \<lparr>item = p, unit = MAX_UINT32\<rparr> len c)"
  note r = expand_insert_read [OF assms] and o = expand_insert_items [OF assms] and wf = nd_wfD [OF assms(1)]
  have "nd_off ?nd p = nd_off nd p" "nd_off ?nd (p + c) = nd_off nd p + len" using o(2) o(3) [of p] assms(2) by auto
  moreover have "nd_off nd p \<le> nh_get_free_space_start nd" "28 \<le> nd_off nd p" using nd_off_bounds [OF assms(1)] by auto
  ultimately show ?thesis
    using r wf assms(2,3,5) unfolding nd_prepared_def by (auto simp: add_mult_distrib)
qed

definition node40_put_items :: "node40 \<Rightarrow> nat \<Rightarrow> node40 \<Rightarrow> nat \<Rightarrow> nat \<Rightarrow> node40" where
  "node40_put_items dst dp src sp c =
     snd (node40_copy (snd (node40_expand dst \<lparr>item = dp, unit = MAX_UINT32\<rparr> (nd_off src (sp + c) - nd_off src sp) c))
       \<lparr>item = dp, unit = MAX_UINT32\<rparr> src \<lparr>item = sp, unit = MAX_UINT32\<rparr> c)"

lemma put_items_eq:
  assumes "nd_wf dst" "nd_wf src" "nd_keypol src = nd_keypol dst" "dp \<le> nh_get_num_items dst"
    and "sp + c \<le> nh_get_num_items src" "0 < c" "nd_off src sp < nd_off src (sp + c)"
    and "nd_off src (sp + c) - nd_off src sp + c * ih_size (nd_keypol dst) \<le> nh_get_free_space dst"
  defines "d \<equiv> snd (node40_expand dst \<lparr>item = dp, unit = MAX_UINT32\<rparr> (nd_off src (sp + c) - nd_off src sp) c)"
  shows "nd_prepared d dp (nd_off src (sp + c) - nd_off src sp) c" "nd_keypol src = nd_keypol d"
    and "node40_copy d \<lparr>item = dp, unit = MAX_UINT32\<rparr> src \<lparr>item = sp, unit = MAX_UINT32\<rparr> c =
      (0, d\<lparr>nd_mem := nd_copied d dp src sp c, nd_dirty := True\<rparr>)"
    and "node40_put_items dst dp src sp c = d\<lparr>nd_mem := nd_copied d dp src sp c, nd_dirty := True\<rparr>"
proof -
  have len: "0 < nd_off src (sp + c) - nd_off src sp" using assms(7) by simp
  note e = assms(1,4,8) len assms(6)
  note r = expand_insert_read [OF e, folded d_def]
  show pr: "nd_prepared d dp (nd_off src (sp + c) - nd_off src sp) c" unfolding d_def by (rule expand_prepared [OF e])
  show kp: "nd_keypol src = nd_keypol d" using r assms(3) by simp
  have "nh_get_num_items dst + c < 65536" using nd_wfD [OF assms(1)] assms(8) by auto
  then have n: "nh_get_num_items d < 65536" using r(1) by simp
  show eq: "node40_copy d \<lparr>item = dp, unit = MAX_UINT32\<rparr> src \<lparr>item = sp, unit = MAX_UINT32\<rparr> c =
      (0, d\<lparr>nd_mem := nd_copied d dp src sp c, nd_dirty := True\<rparr>)"
    by (rule copy_eq [OF pr assms(2,5) kp n])
  then show "node40_put_items dst dp src sp c = d\<lparr>nd_mem := nd_copied d dp src sp c, nd_dirty := True\<rparr>"
    by (simp add: node40_put_items_def d_def)
qed

lemma put_items_read:
  assumes "nd_wf dst" "nd_wf src" "nd_keypol src = nd_keypol dst" "dp \<le> nh_get_num_items dst"
    and "sp + c \<le> nh_get_num_items src" "0 < c" "nd_off src sp < nd_off src (sp + c)"
    and "nd_off src (sp + c) - nd_off src sp + c * ih_size (nd_keypol dst) \<le> nh_get_free_space dst"
  defines "dst' \<equiv> node40_put_items dst dp src sp c" and "len \<equiv> nd_off src (sp + c) - nd_off src sp"
  shows "nh_get_free_space dst' = nh_get_free_space dst - (len + c * ih_size (nd_keypol dst))"
    and "nh_get_free_space_start dst' = nh_get_free_space_start dst + len"
    and "nh_get_num_items dst' = nh_get_num_items dst + c" "nd_keypol dst' = nd_keypol dst" "nd_dirty dst'"
    and "nd_kplug dst' = nd_kplug dst" "nd_size dst' = nd_size dst"
    and "j \<le> dp \<Longrightarrow> nd_off dst' j = nd_off dst j"
    and "i \<le> c \<Longrightarrow> nd_off dst' (dp + i) = nd_off dst dp + (nd_off src (sp + i) - nd_off src sp)"
    and "dp \<le> k \<Longrightarrow> k \<le> nh_get_num_items dst \<Longrightarrow> nd_off dst' (k + c) = nd_off dst k + len"
proof -
  have len: "0 < nd_off src (sp + c) - nd_off src sp" using assms(7) by simp
  note e = assms(1,4,8) len assms(6)
  note r = expand_insert_read [OF e, folded len_def] and o = expand_insert_items [OF e, folded len_def]
  note eq = put_items_eq [OF assms(1-8), folded len_def, folded dst'_def]
  note cr = copy_read [OF eq(1) [unfolded len_def], folded len_def, folded eq(4)]
  note co = copy_off [OF eq(1) [unfolded len_def] assms(2,5) eq(2) [unfolded len_def], folded len_def, folded eq(4)]
  show "nh_get_free_space dst' = nh_get_free_space dst - (len + c * ih_size (nd_keypol dst))"
    "nh_get_free_space_start dst' = nh_get_free_space_start dst + len"
    "nh_get_num_items dst' = nh_get_num_items dst + c" "nd_keypol dst' = nd_keypol dst" "nd_dirty dst'"
    "nd_size dst' = nd_size dst"
    using cr r by simp_all
  show "nd_kplug dst' = nd_kplug dst" using r by (simp add: eq(4))
  show "nd_off dst' j = nd_off dst j" if "j \<le> dp" for j
    using co(1) [of j] co(2) [of 0] o(1) [of j] o(2) that by (cases "j = dp") auto
  show "nd_off dst' (dp + i) = nd_off dst dp + (nd_off src (sp + i) - nd_off src sp)" if "i \<le> c" for i
    using co(2) [OF that] o(2) by simp
  show "nd_off dst' (k + c) = nd_off dst k + len" if "dp \<le> k" "k \<le> nh_get_num_items dst" for k
    using co(1) [of "k + c"] o(3) [OF that] that by simp
qed

lemma put_items_hdr: "nd_hdr (node40_put_items dst dp src sp c) = nd_hdr dst"
  by (simp add: nd_hdr_def node40_put_items_def)

lemma put_items_wf:
  assumes "nd_wf dst" "nd_wf src" "nd_keypol src = nd_keypol dst" "dp \<le> nh_get_num_items dst"
    and "sp + c \<le> nh_get_num_items src" "0 < c" "nd_off src sp < nd_off src (sp + c)"
    and "nd_off src (sp + c) - nd_off src sp + c * ih_size (nd_keypol dst) \<le> nh_get_free_space dst"
  shows "nd_wf (node40_put_items dst dp src sp c)"
proof -
  let ?d = "node40_put_items dst dp src sp c"
  note r = put_items_read [OF assms] and mono = nd_off_mono [OF assms(1)] and smono = nd_off_mono [OF assms(2)]
  have ord: "nd_off ?d j \<le> nd_off ?d (Suc j)" if "j < nh_get_num_items dst + c" for j
  proof -
    consider "j < dp" | "dp \<le> j" "j < dp + c" | "dp + c \<le> j" by linarith
    then show ?thesis
    proof cases
      case 1 then show ?thesis using r(8) [of j] r(8) [of "Suc j"] mono [of j "Suc j"] assms(4) by simp
    next
      case 2
      then show ?thesis
        using r(9) [of "j - dp"] r(9) [of "Suc j - dp"] smono [of "sp + (j - dp)" "sp + (Suc j - dp)"] assms(5)
        by (simp add: diff_le_mono)
    next
      case 3
      then show ?thesis using r(10) [of "j - c"] r(10) [of "Suc j - c"] mono [of "j - c" "Suc j - c"] that by simp
    qed
  qed
  show ?thesis
    unfolding nd_wf_def using r(1-7) ord r(8) [of 0] assms(1,8) nd_wfD [OF assms(1)]
    by (auto simp: nd_wf_def put_items_hdr add_mult_distrib)
qed

lemma put_items_items:
  assumes "nd_wf dst" "nd_wf src" "nd_keypol src = nd_keypol dst" "dp \<le> nh_get_num_items dst"
    and "sp + c \<le> nh_get_num_items src" "0 < c" "nd_off src sp < nd_off src (sp + c)"
    and "nd_off src (sp + c) - nd_off src sp + c * ih_size (nd_keypol dst) \<le> nh_get_free_space dst"
  defines "dst' \<equiv> node40_put_items dst dp src sp c"
  shows "nd_items dst' = take dp (nd_items dst) @ take c (drop sp (nd_items src)) @ drop dp (nd_items dst)"
proof -
  let ?len = "nd_off src (sp + c) - nd_off src sp" and ?n = "nh_get_num_items dst"
  have len: "0 < ?len" using assms(7) by simp
  note e = assms(1,4,8) len assms(6)
  note r = expand_insert_read [OF e] and o = expand_insert_items [OF e] and mono = nd_off_mono [OF assms(1)]
  note eq = put_items_eq [OF assms(1-8), folded dst'_def]
  note item = copy_item [OF eq(1) assms(2,5) eq(2), folded eq(4)]
    and other = copy_item_other [OF eq(1) assms(2,5) eq(2), folded eq(4)]
  have "nd_item dst' j = nd_item dst j" if "j < dp" for j
  proof -
    have o1: "nd_off dst dp = nd_off (snd (node40_expand dst \<lparr>item = dp, unit = MAX_UINT32\<rparr> ?len c)) dp" using o(2) by simp
    have "Suc j = dp \<or> Suc j < dp" using that by auto
    then show ?thesis
      using other [of j] that o(1) [of j] o(1) [of "Suc j"] o(2,4) mono [of j "Suc j"] mono [of "Suc j" dp] assms(4) by auto
  qed
  moreover have "nd_item dst' (j + c) = nd_item dst j" if "dp \<le> j" "j < ?n" for j
    using other [of "j + c"] that o(3) [of dp] o(3) [of j] o(3) [of "Suc j"] o(5) [of j] r(1,3) mono [of dp j]
      mono [of j "Suc j"] nd_off_bounds(2) [OF assms(1), of "Suc j"] assms(4) by simp
  moreover have "map (nd_item dst') [dp..<dp + c] = take c (drop sp (nd_items src))"
    using item assms(5) by (intro nth_equalityI) auto
  ultimately show ?thesis
    using nd_items_split [of dst' dst c dp] put_items_read(3) [OF assms(1-8)] assms(4) by (simp add: dst'_def)
qed


section \<open>Making room for units at the end of an item\<close>

lemma memmove_same [simp]: "memmove m a a n = m"
  by (rule ext) (auto simp: memmove_def mwrite_def)

lemma expand_units_eq:
  assumes "nd_wf nd" "p < nh_get_num_items nd" "len \<le> nh_get_free_space nd" "0 < len" "u \<noteq> MAX_UINT32"
  defines "m1 \<equiv> set_le 2 (nd_room nd (Suc p) len 0) 6 (int (nh_get_free_space_start nd + len))"
  shows "node40_expand nd \<lparr>item = p, unit = u\<rparr> len c =
    (0, nd\<lparr>nd_mem := set_le 2 m1 4 (int (nh_get_free_space nd - len)), nd_dirty := True\<rparr>)"
proof -
  note wf = nd_wfD [OF assms(1)] and b = nd_off_bounds [OF assms(1), of "Suc p"]
  let ?pol = "nd_keypol nd" and ?n = "nh_get_num_items nd"
  have small: "?n < 65536" using wf by auto
  have w: "to_u32 (int p + 1) = Suc p" using to_u32_add [of p 1] small assms(2) by simp
  have sz: "to_u32 (int (nh_get_free_space_start nd) - int (nd_off nd (Suc p))) = nh_get_free_space_start nd - nd_off nd (Suc p)"
    using b wf by (simp add: to_u32_diff)
  have hd: "node40_ih_at nd (Suc p) = nd_head nd (Suc p)" using small assms(2) by (simp add: ih_at_head)
  have r: "get_le 2 (nd_room nd (Suc p) len 0) a = get_le 2 (nd_mem nd) a" if "a + 2 \<le> 28" for a
    unfolding get_le_def using that b assms(2,3) by (subst room_outside [OF assms(1)]) auto
  have fin: "node40_mkdirty (nh_dec_free_space (nh_inc_free_space_start (nd\<lparr>nd_mem := nd_room nd (Suc p) len 0\<rparr>) (int len)) (int len)) =
      nd\<lparr>nd_mem := set_le 2 m1 4 (int (nh_get_free_space nd - len)), nd_dirty := True\<rparr>"
    using assms(3) r [of 6] r [of 4]
    by (simp add: node40_mkdirty_def nh_inc_free_space_start_def nh_dec_free_space_def nh_set_free_space_start_def
        nh_set_free_space_def nh_get_free_space_start_def nh_get_free_space_def m1_def mem_simps of_nat_diff)
  show ?thesis
  proof (cases "Suc p < ?n")
    case True
    have "ih_get_offset (nd_mem nd) (nd_head nd (Suc p)) ?pol = nd_off nd (Suc p)" using True by (simp add: nd_off_def)
    moreover have "ih_shift_offsets (?n - Suc p)
        (memmove (nd_mem nd) (int (nd_off nd (Suc p)) + int len) (int (nd_off nd (Suc p))) (nh_get_free_space_start nd - nd_off nd (Suc p)))
        (nd_head nd (Suc p)) (int len) ?pol = nd_room nd (Suc p) len 0"
      using True by (simp add: nd_room_def Let_def)
    ultimately show ?thesis
      using True assms(4,5) fin by (simp add: node40_expand_def Let_def w sz hd)
  next
    case False
    then have "nd_room nd (Suc p) len 0 = nd_mem nd" by (simp add: nd_room_def Let_def)
    then show ?thesis
      using False assms(4,5) fin by (simp add: node40_expand_def Let_def w hd)
  qed
qed

lemma expand_units_read:
  fixes c :: nat
  assumes "nd_wf nd" "p < nh_get_num_items nd" "len \<le> nh_get_free_space nd" "0 < len" "u \<noteq> MAX_UINT32"
  defines "nd' \<equiv> snd (node40_expand nd \<lparr>item = p, unit = u\<rparr> len c)"
  shows "nh_get_num_items nd' = nh_get_num_items nd" "nh_get_free_space nd' = nh_get_free_space nd - len"
    "nh_get_free_space_start nd' = nh_get_free_space_start nd + len"
    "nd_size nd' = nd_size nd" "nd_keypol nd' = nd_keypol nd" "nd_kplug nd' = nd_kplug nd" "nd_dirty nd'"
    "28 \<le> a \<Longrightarrow> mread (nd_mem nd') a l = mread (nd_room nd (Suc p) len 0) a l"
    "nd_head nd' j = nd_head nd j"
proof -
  note eq = expand_units_eq [OF assms(1-5), of c] and wf = nd_wfD [OF assms(1)] and b = nd_off_bounds [OF assms(1), of "Suc p"]
  have "mread (nd_room nd (Suc p) len 0) 2 2 = mread (nd_mem nd) 2 2"
    using b assms(2,3) by (intro room_outside [OF assms(1)]) auto
  then show "nh_get_num_items nd' = nh_get_num_items nd"
    by (simp add: nd'_def eq get_set_le_other nh_get_num_items_def) (simp add: get_le_def)
  have "nh_get_free_space nd - len < 65536" "nh_get_free_space_start nd + len < 65536" using wf assms(3) by linarith+
  then show "nh_get_free_space nd' = nh_get_free_space nd - len" "nh_get_free_space_start nd' = nh_get_free_space_start nd + len"
    by (simp_all add: nd'_def eq nh_get_free_space_start_def nh_get_free_space_def get_set_le_other set_get_u16 nat_add_distrib)
  show "nd_size nd' = nd_size nd" "nd_keypol nd' = nd_keypol nd" "nd_kplug nd' = nd_kplug nd" "nd_dirty nd'"
    by (simp_all add: nd'_def eq)
  show "nd_head nd' j = nd_head nd j" by (simp add: nd'_def eq nd_head_def)
  show "mread (nd_mem nd') a l = mread (nd_room nd (Suc p) len 0) a l" if "28 \<le> a"
    using that by (simp add: nd'_def eq mread_set_le_other)
qed

lemma expand_units_heads:
  fixes c :: nat
  assumes "nd_wf nd" "p < nh_get_num_items nd" "len \<le> nh_get_free_space nd" "0 < len" "u \<noteq> MAX_UINT32"
  defines "nd' \<equiv> snd (node40_expand nd \<lparr>item = p, unit = u\<rparr> len c)"
  shows "j < nh_get_num_items nd \<Longrightarrow>
      i + l \<le> key_size (nd_keypol nd) \<or> key_size (nd_keypol nd) + 2 \<le> i \<and> i + l \<le> ih_size (nd_keypol nd) \<Longrightarrow>
      mread (nd_mem nd') (nd_head nd j + int i) l = mread (nd_mem nd) (nd_head nd j + int i) l"
    and "nd_off nd' j = (if j \<le> p then nd_off nd j else nd_off nd j + len)"
proof -
  let ?pol = "nd_keypol nd" and ?n = "nh_get_num_items nd" and ?R = "nd_room nd (Suc p) len 0"
  note wf = nd_wfD [OF assms(1)] and b = nd_off_bounds [OF assms(1)]
  note read = expand_units_read [OF assms(1-5), where c = c, folded nd'_def]
  have sp: "Suc p \<le> ?n" "len + 0 * ih_size ?pol \<le> nh_get_free_space nd" using assms(2,3) by simp_all
  have hb: "28 \<le> nd_head nd j + int i" if "j < ?n" for j i
    using wf b(1) [of 0] b(2) [of 0] that by (auto simp: nd_head_def algebra_simps)
  have out: "mread ?R (nd_head nd j + int i) l = mread (nd_mem nd) (nd_head nd j + int i) l" if "j \<le> p" for i j l
    using wf(1) that by (intro room_outside [OF assms(1) sp]) (auto simp: nd_head_def)
  show "mread (nd_mem nd') (nd_head nd j + int i) l = mread (nd_mem nd) (nd_head nd j + int i) l"
    if "j < ?n" "i + l \<le> key_size ?pol \<or> key_size ?pol + 2 \<le> i \<and> i + l \<le> ih_size ?pol" for i l j
    using room_head(1) [OF assms(1) _ that(1) sp(2) that(2), of "Suc p"] out [of j i l] hb [OF that(1), of i]
    by (cases "p < j") (simp_all add: read(8) Suc_le_eq)
  show "nd_off nd' j = (if j \<le> p then nd_off nd j else nd_off nd j + len)" for j
  proof (cases "j < ?n")
    case True
    have "ih_get_offset (nd_mem nd') (nd_head nd j) ?pol = ih_get_offset ?R (nd_head nd j) ?pol"
      using hb [OF True, of "key_size ?pol"] by (simp add: ih_get_offset_def get_le_def read(8))
    moreover have "ih_get_offset ?R (nd_head nd j) ?pol = nd_off nd j" if "j \<le> p"
      using True out [OF that, of "key_size ?pol" 2] by (simp add: nd_off_def ih_get_offset_def get_le_def)
    ultimately show ?thesis
      using True room_head(2) [OF assms(1) _ True sp(2), of "Suc p"] by (auto simp: nd_off_def [of nd'] read(1,5,9))
  qed (use assms(2) in \<open>simp add: nd_off_def read(1,3)\<close>)
qed

lemma expand_units_item:
  fixes c :: nat
  assumes "nd_wf nd" "p < nh_get_num_items nd" "len \<le> nh_get_free_space nd" "0 < len" "u \<noteq> MAX_UINT32"
  defines "nd' \<equiv> snd (node40_expand nd \<lparr>item = p, unit = u\<rparr> len c)"
  assumes "j < nh_get_num_items nd"
  shows "j \<noteq> p \<Longrightarrow> nd_item nd' j = nd_item nd j"
    and "nd_item nd' p = (nd_item nd p)\<lparr>it_body := it_body (nd_item nd p) @
      mread (nd_mem nd') (int (nd_off nd (Suc p))) len\<rparr>"
proof -
  let ?pol = "nd_keypol nd" and ?n = "nh_get_num_items nd" and ?R = "nd_room nd (Suc p) len 0"
  note wf = nd_wfD [OF assms(1)] and b = nd_off_bounds [OF assms(1)] and mono = nd_off_mono [OF assms(1)]
  note read = expand_units_read [OF assms(1-5), where c = c, folded nd'_def]
    and heads = expand_units_heads [OF assms(1-5), where c = c, folded nd'_def]
  have sp: "Suc p \<le> ?n" "len + 0 * ih_size ?pol \<le> nh_get_free_space nd" using assms(2,3) by simp_all
  have body: "mread (nd_mem nd') (int (nd_off nd j)) (nd_off nd (Suc j) - nd_off nd j) =
      mread (nd_mem nd) (int (nd_off nd j)) (nd_off nd (Suc j) - nd_off nd j)" if "j \<le> p" for j
    using b(1) [of j] mono [of j "Suc j"] mono [of "Suc j" "Suc p"] that assms(2)
    by (simp add: read(8)) (rule room_outside [OF assms(1) sp], simp)
  show "nd_item nd' j = nd_item nd j" if "j \<noteq> p"
  proof (rule nd_item_eqI [OF wf(4)])
    show "nd_off nd' (Suc j) - nd_off nd' j = nd_off nd (Suc j) - nd_off nd j"
      using that by (auto simp: heads(2))
    show "mread (nd_mem nd') (int (nd_off nd' j)) (nd_off nd (Suc j) - nd_off nd j) =
        mread (nd_mem nd) (int (nd_off nd j)) (nd_off nd (Suc j) - nd_off nd j)"
    proof (cases "j < p")
      case False
      then have "mread ?R (int (nd_off nd j) + int len) (nd_off nd (Suc j) - nd_off nd j) =
          mread (nd_mem nd) (int (nd_off nd j)) (nd_off nd (Suc j) - nd_off nd j)"
        using that assms(7) b(2) [of "Suc j"] mono [of "Suc p" j] mono [of j "Suc j"]
        by (intro room_body [OF assms(1) _ sp(2)]) auto
      then show ?thesis using False that b(1) [of j] by (simp add: heads(2) read(8))
    qed (use body in \<open>simp add: heads(2)\<close>)
  qed (use heads(1) read(5,9) assms(7) in simp_all)
  have "nd_off nd p \<le> nd_off nd (Suc p)" using mono [of p "Suc p"] assms(2) by simp
  then have "nd_off nd (Suc p) + len - nd_off nd p = (nd_off nd (Suc p) - nd_off nd p) + len" by simp
  then have "it_body (nd_item nd' p) = mread (nd_mem nd') (int (nd_off nd p)) ((nd_off nd (Suc p) - nd_off nd p) + len)"
    by (simp add: nd_item_def heads(2))
  also have "\<dots> = it_body (nd_item nd p) @ mread (nd_mem nd') (int (nd_off nd (Suc p))) len"
    unfolding mread_split using body [of p] \<open>nd_off nd p \<le> nd_off nd (Suc p)\<close> by (simp add: nd_item_def)
  finally have "it_body (nd_item nd' p) = it_body (nd_item nd p) @ mread (nd_mem nd') (int (nd_off nd (Suc p))) len" .
  moreover have "nd_item nd' p = (nd_item nd p)\<lparr>it_body := it_body (nd_item nd' p)\<rparr>"
    using heads(1) read(5,9) assms(2) by (intro nd_item_prefixI [OF assms(1)]) simp_all
  ultimately show "nd_item nd' p = (nd_item nd p)\<lparr>it_body := it_body (nd_item nd p) @
      mread (nd_mem nd') (int (nd_off nd (Suc p))) len\<rparr>" by simp
qed

lemma move_items:
  assumes "nd_wf dst" "nd_wf src" "nd_keypol src = nd_keypol dst" "dp \<le> node40_items dst"
    and "sp + c \<le> node40_items src" "0 < c" "0 < node40_size src \<lparr>item = sp, unit = MAX_UINT32\<rparr> c"
    and "node40_size src \<lparr>item = sp, unit = MAX_UINT32\<rparr> c + c * node40_overhead dst \<le> node40_space dst"
  shows "let sz = node40_size src \<lparr>item = sp, unit = MAX_UINT32\<rparr> c;
      (r1, d1) = node40_expand dst \<lparr>item = dp, unit = MAX_UINT32\<rparr> sz c;
      (r2, d2) = node40_copy d1 \<lparr>item = dp, unit = MAX_UINT32\<rparr> src \<lparr>item = sp, unit = MAX_UINT32\<rparr> c;
      (r3, s3) = node40_shrink src \<lparr>item = sp, unit = MAX_UINT32\<rparr> sz c
    in r1 = 0 \<and> r2 = 0 \<and> r3 = 0 \<and> nd_wf d2 \<and> nd_wf s3 \<and>
      nd_items d2 = take dp (nd_items dst) @ take c (drop sp (nd_items src)) @ drop dp (nd_items dst) \<and>
      nd_items s3 = take sp (nd_items src) @ drop (sp + c) (nd_items src)"
proof -
  note sp = assms(5) [unfolded node40_items_def]
  have sz: "node40_size src \<lparr>item = sp, unit = MAX_UINT32\<rparr> c = nd_off src (sp + c) - nd_off src sp"
    by (rule node40_size_eq [OF assms(2) sp assms(6)])
  note a = assms(1-3) assms(4) [unfolded node40_items_def] sp assms(6)
  have lt: "nd_off src sp < nd_off src (sp + c)" using assms(7) sz by simp
  have room: "nd_off src (sp + c) - nd_off src sp + c * ih_size (nd_keypol dst) \<le> nh_get_free_space dst"
    using assms(8) sz by (simp add: node40_overhead_def node40_space_def)
  note eq = put_items_eq [OF a lt room] and wf = put_items_wf [OF a lt room] and items = put_items_items [OF a lt room]
  have e: "fst (node40_expand dst \<lparr>item = dp, unit = MAX_UINT32\<rparr> (nd_off src (sp + c) - nd_off src sp) c) = 0"
    using expand_insert_eq [OF a(1,4) room _ a(6)] lt by simp
  have s: "fst (node40_shrink src \<lparr>item = sp, unit = MAX_UINT32\<rparr> (nd_off src (sp + c) - nd_off src sp) c) = 0"
    using shrink_items_eq [OF assms(2) sp assms(6)] by simp
  have sn: "nd_items (snd (node40_shrink src \<lparr>item = sp, unit = MAX_UINT32\<rparr> (nd_off src (sp + c) - nd_off src sp) c)) =
      take sp (nd_items src) @ drop (sp + c) (nd_items src)"
    using shrink_items_read(1) [OF assms(2) sp assms(6)] shrink_items_items(3,4) [OF assms(2) sp assms(6)] sp
    by (intro nd_items_removed) auto
  show ?thesis
    using e s sn wf items eq(3) shrink_items_wf [OF assms(2) sp assms(6)]
    by (simp add: sz Let_def case_prod_unfold node40_put_items_def)
qed

lemma expand_units_result:
  fixes c :: nat
  assumes "nd_wf nd" "p < nh_get_num_items nd" "len \<le> nh_get_free_space nd" "0 < len" "u \<noteq> MAX_UINT32"
  defines "nd' \<equiv> snd (node40_expand nd \<lparr>item = p, unit = u\<rparr> len c)"
  shows "node40_expand nd \<lparr>item = p, unit = u\<rparr> len c = (0, nd')" "nd_wf nd'" "nd_items nd' = (nd_items nd)[p := nd_item nd' p]"
proof -
  note read = expand_units_read [OF assms(1-5), where c = c, folded nd'_def]
    and off = expand_units_heads(2) [OF assms(1-5), where c = c, folded nd'_def]
    and item = expand_units_item [OF assms(1-5), where c = c, folded nd'_def] and mono = nd_off_mono [OF assms(1)]
  show "nd_items nd' = (nd_items nd)[p := nd_item nd' p]"
    using item(1) read(1) assms(2) by (intro nd_items_update) auto
  have "nd_off nd' j \<le> nd_off nd' (Suc j)" if "j < nh_get_num_items nd" for j
    using that mono [of j "Suc j"] by (auto simp: off)
  moreover have "nd_hdr nd' = nd_hdr nd" by (simp add: nd_hdr_def nd'_def)
  ultimately show "nd_wf nd'"
    unfolding nd_wf_def using nd_wfD [OF assms(1)] read off [of 0] assms(1,3) by (auto simp: nd_wf_def)
  show "node40_expand nd \<lparr>item = p, unit = u\<rparr> len c = (0, nd')"
    using arg_cong [OF expand_units_eq [OF assms(1-5), of c], of fst] by (simp only: nd'_def prod_eq_iff fst_conv snd_conv simp_thms)
qed

text \<open>
  \<^verbatim>\<open>node40_expand\<close> inside an item with enough room appends \<open>len\<close> bytes to its body (their values are
  left to the item plugin) and moves everything behind; the node stays well-formed.
\<close>

lemma node40_expand_units:
  assumes "nd_wf nd" "p < node40_items nd" "u \<noteq> MAX_UINT32" "0 < len" "len \<le> node40_space nd"
  shows "\<exists>nd' extra. node40_expand nd \<lparr>item = p, unit = u\<rparr> len count = (0, nd') \<and> nd_wf nd' \<and> node40_isdirty nd' \<and>
    node40_space nd' = node40_space nd - len \<and> length extra = len \<and>
    nd_items nd' = (nd_items nd)[p := (nd_items nd ! p)\<lparr>it_body := it_body (nd_items nd ! p) @ extra\<rparr>]"
proof -
  let ?nd' = "snd (node40_expand nd \<lparr>item = p, unit = u\<rparr> len count)"
  have p: "p < nh_get_num_items nd" using assms(2) by (simp add: node40_items_def)
  have len: "len \<le> nh_get_free_space nd" using assms(5) by (simp add: node40_space_def)
  note a = assms(1) p len assms(4,3)
  note read = expand_units_read [OF a, where c = count] and result = expand_units_result [OF a, where c = count]
  have "nd_item ?nd' p = (nd_items nd ! p)\<lparr>it_body := it_body (nd_items nd ! p) @
      mread (nd_mem ?nd') (int (nd_off nd (Suc p))) len\<rparr>"
    using expand_units_item(2) [OF a p, where c = count] p by simp
  then show ?thesis
    using result read(2,7) by (metis length_mread node40_isdirty_def node40_space_def)
qed

text \<open>
  C8: moving items between nodes, the sequence \<^verbatim>\<open>node40_expand\<close>, \<^verbatim>\<open>node40_copy\<close>, \<^verbatim>\<open>node40_shrink\<close> of the
  shifting code: with enough room the items \<open>sp\<close> to \<open>sp + c - 1\<close> of the source come, unchanged and in
  order, to position \<open>dp\<close> of the destination and are gone from the source; both nodes stay well-formed.
\<close>

theorem node40_move_items:
  assumes "nd_wf dst" "nd_wf src" "nd_keypol src = nd_keypol dst" "dp \<le> node40_items dst"
    and "sp + c \<le> node40_items src" "0 < c" "0 < node40_size src \<lparr>item = sp, unit = MAX_UINT32\<rparr> c"
    and "node40_size src \<lparr>item = sp, unit = MAX_UINT32\<rparr> c + c * node40_overhead dst \<le> node40_space dst"
  shows "let sz = node40_size src \<lparr>item = sp, unit = MAX_UINT32\<rparr> c;
      (r1, d1) = node40_expand dst \<lparr>item = dp, unit = MAX_UINT32\<rparr> sz c;
      (r2, d2) = node40_copy d1 \<lparr>item = dp, unit = MAX_UINT32\<rparr> src \<lparr>item = sp, unit = MAX_UINT32\<rparr> c;
      (r3, s3) = node40_shrink src \<lparr>item = sp, unit = MAX_UINT32\<rparr> sz c
    in r1 = 0 \<and> r2 = 0 \<and> r3 = 0 \<and> nd_wf d2 \<and> nd_wf s3 \<and>
      nd_items d2 = take dp (nd_items dst) @ take c (drop sp (nd_items src)) @ drop dp (nd_items dst) \<and>
      nd_items s3 = take sp (nd_items src) @ drop (sp + c) (nd_items src)"
  by (rule move_items [OF assms])

theorem node40_move_items_witness:
  "let sz = node40_size sample_node \<lparr>item = 0, unit = MAX_UINT32\<rparr> 1;
      (r1, d1) = node40_expand sample_node \<lparr>item = 2, unit = MAX_UINT32\<rparr> sz 1;
      (r2, d2) = node40_copy d1 \<lparr>item = 2, unit = MAX_UINT32\<rparr> sample_node \<lparr>item = 0, unit = MAX_UINT32\<rparr> 1
    in r1 = 0 \<and> r2 = 0 \<and> nd_items d2 = take 2 (nd_items sample_node) @ take 1 (nd_items sample_node) @ drop 2 (nd_items sample_node)"
proof -
  have "node40_size sample_node \<lparr>item = 0, unit = MAX_UINT32\<rparr> 1 = 5"
    using sample_heads sample_offs
    by (simp add: node40_size_eq [OF sample_wf] nd_off_def nd_head_def ih_size_def)
  then show ?thesis
    using node40_move_items [OF sample_wf sample_wf refl, of 2 0 1] by (simp add: sample_items Let_def case_prod_unfold)
qed

end
