(* ===== verification/NodeKeys.thy ===== *)
theory NodeKeys
  imports NodeMove
begin

text \<open>
  New nodes, the keys of items, and lookup.
\<close>

unbundle bit_operations_syntax

section \<open>New nodes\<close>

lemma init_eq:
  assumes "sz < 65536" "28 \<le> sz" "level < 256"
  shows "\<exists>nd. node40_init True m sz level kp = Some nd \<and> nh_get_num_items nd = 0 \<and> nh_get_free_space nd = sz - 28 \<and>
    nh_get_free_space_start nd = 28 \<and> nh_get_level nd = level \<and> nh_get_magic nd = NODE40_MAGIC \<and> nh_get_pid nd = 0 \<and>
    nd_size nd = sz \<and> nd_keypol nd = key_plug_bodysize kp \<and> nd_kplug nd = kp"
  using assms
  by (simp add: node40_init_def node40_init_common_def node40_prepare_def Let_def nh_set_num_items_def nh_set_level_def
      nh_set_magic_def nh_set_pid_def nh_set_free_space_start_def nh_set_free_space_def nh_get_num_items_def
      nh_get_free_space_def nh_get_free_space_start_def nh_get_level_def nh_get_magic_def nh_get_pid_def mem_simps of_nat_diff)

lemma bodysize_pol: "key_plug_bodysize kp \<in> {3, 4}"
  by (cases kp) (simp_all add: key_plug_bodysize_def key_short_bodysize_def key_large_bodysize_def)

text \<open>
  \<^verbatim>\<open>node40_init\<close> makes an empty well-formed node of the asked level with all of the block but the
  header free, and \<^verbatim>\<open>node40_open\<close> accepts its block and gives the same node back.
\<close>

lemma node40_init_open:
  assumes "28 \<le> sz" "sz < 65536" "level < 256"
  shows "\<exists>nd. node40_init True m sz level kp = Some nd \<and> nd_wf nd \<and> nd_items nd = [] \<and>
    node40_space nd = sz - 28 \<and> node40_get_level nd = level \<and>
    node40_open True (nd_mem nd) sz kp = Some (node40_mkclean nd)"
proof -
  obtain nd where nd: "node40_init True m sz level kp = Some nd" "nh_get_num_items nd = 0" "nh_get_free_space nd = sz - 28"
      "nh_get_free_space_start nd = 28" "nh_get_level nd = level" "nh_get_magic nd = NODE40_MAGIC"
      "nd_size nd = sz" "nd_keypol nd = key_plug_bodysize kp" "nd_kplug nd = kp"
    using init_eq [OF assms(2,1,3)] by blast
  have st: "nd_state nd = 0"
    using nd(1) by (auto simp: node40_init_def node40_init_common_def node40_prepare_def Let_def nh_set_num_items_def
        nh_set_level_def nh_set_magic_def nh_set_pid_def nh_set_free_space_start_def nh_set_free_space_def)
  have "nd_plug nd = 0"
    using nd(1) by (auto simp: node40_init_def node40_init_common_def node40_prepare_def Let_def nh_set_num_items_def
        nh_set_level_def nh_set_magic_def nh_set_pid_def nh_set_free_space_start_def nh_set_free_space_def)
  then have "nd_wf nd" using nd assms bodysize_pol by (simp add: nd_wf_def nd_off_def nd_hdr_def)
  moreover have "node40_open True (nd_mem nd) sz kp = Some (node40_mkclean nd)"
    using nd st \<open>nd_plug nd = 0\<close> by (auto simp: node40_open_def node40_prepare_def nh_get_magic_def node40_mkclean_def intro!: node40.equality)
  ultimately show ?thesis
    using nd by (intro exI [of _ nd]) (simp add: nd_items_def node40_space_def node40_get_level_def)
qed

section \<open>Keys\<close>

lemma compraw_cong:
  assumes "\<And>i. i < key_plug_bodysize p \<Longrightarrow> a i = a' i" "\<And>i. i < key_plug_bodysize p \<Longrightarrow> b i = b' i"
  shows "key_plug_compraw p a b = key_plug_compraw p a' b'"
proof (cases p)
  case KEY_SHORT
  then have "a 0 = a' 0" "a 1 = a' 1" "a 2 = a' 2" "b 0 = b' 0" "b 1 = b' 1" "b 2 = b' 2"
    using assms by (simp_all add: key_plug_bodysize_def key_short_bodysize_def)
  then show ?thesis
    using KEY_SHORT by (simp add: key_plug_compraw_def key_short_compraw_def ks_comp_el_def ks_get_el_def Let_def)
next
  case KEY_LARGE
  then have "a 0 = a' 0" "a 1 = a' 1" "a 2 = a' 2" "a 3 = a' 3" "b 0 = b' 0" "b 1 = b' 1" "b 2 = b' 2" "b 3 = b' 3"
    using assms by (simp_all add: key_plug_bodysize_def key_large_bodysize_def)
  then show ?thesis
    using KEY_LARGE by (simp add: key_plug_compraw_def key_large_compraw_def kl_comp_el_def kl_get_el_def Let_def)
qed

text \<open>The key of item \<open>i\<close> as \<^verbatim>\<open>node40_get_key\<close> returns it.\<close>

definition node_key :: "node40 \<Rightarrow> nat \<Rightarrow> reiser4_key" where
  "node_key nd i = node40_get_key nd \<lparr>item = i, unit = MAX_UINT32\<rparr> (key_plug_minimal (nd_kplug nd))"

definition nd_keyed :: "node40 \<Rightarrow> bool" where
  "nd_keyed nd \<longleftrightarrow> nd_wf nd \<and> nd_keypol nd = key_plug_bodysize (nd_kplug nd)"

lemma key_size_bodysize: "key_size (key_plug_bodysize p) div 8 = key_plug_bodysize p"
  by (cases p) (simp_all add: key_plug_bodysize_def key_short_bodysize_def key_large_bodysize_def key_size_def)

lemma cb_comp_node_key:
  assumes "nd_keyed nd" "i < nh_get_num_items nd" "kplug key = nd_kplug nd"
  shows "cb_comp_key nd (node40_ih_at nd 0) key i = key_plug_compraw (nd_kplug nd) (kbody (node_key nd i)) (kbody key)"
proof -
  have "nh_get_num_items nd < 65536"
    using assms(1) nd_wfD [of nd] by (auto simp: nd_keyed_def)
  then have "node40_ih_at nd 0 = nd_head nd 0" "node40_ih_at nd i = nd_head nd i"
    using assms(2) by (simp_all add: ih_at_head)
  moreover have "nd_head nd 0 - int (ih_size (nd_keypol nd)) * int i = nd_head nd i"
    by (simp add: nd_head_def algebra_simps)
  moreover have "nd_keypol nd = key_plug_bodysize (nd_kplug nd)" using assms(1) by (simp add: nd_keyed_def)
  ultimately show ?thesis
    unfolding cb_comp_key_def assms(3)
    by (simp add: node_key_def node40_get_key_def node40_get_key_by_ih_def key_size_bodysize
        cong: compraw_cong)
qed

text \<open>The binary search of \<^verbatim>\<open>node40_lookup\<close> over ascending keys.\<close>

lemma node40_lookup_spec:
  assumes "nd_keyed nd" "kplug key = nd_kplug nd"
    and "\<forall>i j. i \<le> j \<and> j < node40_items nd \<longrightarrow> reiser4_key_compfull (node_key nd i) (node_key nd j) \<le> 0"
  shows "case node40_lookup nd key of
      (PRESENT, p) \<Rightarrow> p < node40_items nd \<and> reiser4_key_compfull (node_key nd p) key = 0
    | (ABSENT, p) \<Rightarrow> p \<le> node40_items nd \<and> (\<forall>i<p. reiser4_key_compfull (node_key nd i) key = -1) \<and>
        (\<forall>i. p \<le> i \<and> i < node40_items nd \<longrightarrow> reiser4_key_compfull (node_key nd i) key = 1)
    | (LOOKUP_EIO, p) \<Rightarrow> False"
proof -
  let ?n = "node40_items nd" and ?p = "nd_kplug nd"
  let ?cmp = "\<lambda>i. key_plug_compraw ?p (kbody (node_key nd i)) (kbody key)"
  have kp: "kplug (node_key nd i) = ?p" for i by (simp add: node_key_def node40_get_key_def node40_get_key_by_ih_def)
  have cf: "reiser4_key_compfull (node_key nd i) k = key_plug_compraw ?p (kbody (node_key nd i)) (kbody k)" for i k
    by (rule compfull_compraw [OF kp])
  let ?cb = "cb_comp_key nd (node40_ih_at nd 0) key"
  have eq: "?cb i = ?cmp i" if "i < ?n" for i
    using cb_comp_node_key [OF assms(1) _ assms(2)] that by (simp add: node40_items_def)
  have "cmp_sorted ?n ?cmp"
    using assms(3) unfolding cf by (rule raw_keys.ascending_cmp_sorted)
  then have srt: "cmp_sorted ?n ?cb"
    using eq by (simp add: cmp_sorted_def)
  have small: "?n \<le> 1073741824" using assms(1) nd_wfD [of nd] by (auto simp: nd_keyed_def node40_items_def)
  obtain f p where fp: "aux_bin_search ?n ?cb = Some (f, p)" and spec:
    "if \<exists>i<?n. ?cb i = 0 then f = 1 \<and> p < ?n \<and> ?cb p = 0
     else f = 0 \<and> p \<le> ?n \<and> (\<forall>i<p. ?cb i = -1) \<and> (\<forall>i. p \<le> i \<and> i < ?n \<longrightarrow> ?cb i = 1)"
    using aux_bin_search_spec [OF srt small] by (elim exE conjE)
  have "node40_lookup nd key = (if f = 1 then PRESENT else if f = 0 then ABSENT else LOOKUP_EIO, p)"
    unfolding node40_lookup_def Let_def fp [unfolded node40_items_def] option.sel prod.case ..
  moreover have "f = 1 \<and> p < ?n \<and> ?cmp p = 0 \<or>
      f = 0 \<and> p \<le> ?n \<and> (\<forall>i<p. ?cmp i = -1) \<and> (\<forall>i. p \<le> i \<and> i < ?n \<longrightarrow> ?cmp i = 1)"
  proof (cases "\<exists>i<?n. ?cb i = 0")
    case True
    have "f = 1 \<and> p < ?n \<and> ?cb p = 0" using spec unfolding if_P [OF True] .
    then show ?thesis using eq [of p] by simp
  next
    case False
    have s: "f = 0 \<and> p \<le> ?n \<and> (\<forall>i<p. ?cb i = -1) \<and> (\<forall>i. p \<le> i \<and> i < ?n \<longrightarrow> ?cb i = 1)"
      using spec unfolding if_not_P [OF False] .
    have "?cmp i = -1" if "i < p" for i
      using s that eq [of i] by (metis less_le_trans)
    moreover have "?cmp i = 1" if "p \<le> i" "i < ?n" for i
      using s that eq [of i] by metis
    ultimately show ?thesis using s by blast
  qed
  ultimately show ?thesis unfolding cf by (elim disjE conjE) simp_all
qed

text \<open>
  C9: on a node whose keys ascend, \<^verbatim>\<open>node40_lookup\<close> answers PRESENT with the position of an item of that
  key if there is one, else ABSENT with the insertion point: every item in front of it has a smaller
  key and every item from it on a larger one.  It never reports an error.
\<close>

theorem node40_lookup_correct:
  assumes "nd_keyed nd" "kplug key = nd_kplug nd"
    and "\<forall>i j. i \<le> j \<and> j < node40_items nd \<longrightarrow> reiser4_key_compfull (node_key nd i) (node_key nd j) \<le> 0"
  shows "case node40_lookup nd key of
      (PRESENT, p) \<Rightarrow> p < node40_items nd \<and> reiser4_key_compfull (node_key nd p) key = 0
    | (ABSENT, p) \<Rightarrow> p \<le> node40_items nd \<and> (\<forall>i<p. reiser4_key_compfull (node_key nd i) key = -1) \<and>
        (\<forall>i. p \<le> i \<and> i < node40_items nd \<longrightarrow> reiser4_key_compfull (node_key nd i) key = 1)
    | (LOOKUP_EIO, p) \<Rightarrow> False"
  using node40_lookup_spec [OF assms] .


lemma sample_key_bytes:
  "get_le 8 (nd_mem sample_node) 106 = 1" "get_le 8 (nd_mem sample_node) 114 = 0" "get_le 8 (nd_mem sample_node) 122 = 0"
  "get_le 8 (nd_mem sample_node) 76 = 2" "get_le 8 (nd_mem sample_node) 84 = 0" "get_le 8 (nd_mem sample_node) 92 = 0"
  by code_simp+

lemma sample_node_key:
  "kbody (node_key sample_node 0) 0 = 1" "kbody (node_key sample_node 0) 1 = 0" "kbody (node_key sample_node 0) 2 = 0"
  "kbody (node_key sample_node 1) 0 = 2" "kbody (node_key sample_node 1) 1 = 0" "kbody (node_key sample_node 1) 2 = 0"
  by (simp_all add: node_key_def node40_get_key_def node40_get_key_by_ih_def sample_heads key_size_def mem_key_def
      node40_ih_at_def ih_size_def to_u32_id sample_key_bytes)

lemma sample_keyed: "nd_keyed sample_node"
  by (simp add: nd_keyed_def sample_wf sample_heads key_plug_bodysize_def key_short_bodysize_def)

definition sample_key :: "nat \<Rightarrow> reiser4_key" where
  "sample_key n = (key_plug_minimal KEY_SHORT)\<lparr>kbody := (\<lambda>i. if i = 0 then word_of_nat n else 0)\<rparr>"

lemma sample_key_plug: "kplug (sample_key n) = nd_kplug sample_node"
  by (simp add: sample_key_def key_plug_minimal_def sample_heads)

lemma sample_cmp: "reiser4_key_compfull (node_key sample_node i) k = key_plug_compraw KEY_SHORT (kbody (node_key sample_node i)) (kbody k)"
  by (rule compfull_compraw) (simp add: node_key_def node40_get_key_def node40_get_key_by_ih_def sample_heads)

theorem node40_lookup_correct_witness:
  "node40_lookup sample_node (sample_key 2) = (PRESENT, 1)"
proof -
  have "reiser4_key_compfull (node_key sample_node i) (node_key sample_node j) \<le> 0" if "i \<le> j" "j < 2" for i j
  proof -
    from that consider "i = j" | "i = 0" "j = 1" by linarith
    then show ?thesis
    proof cases
      case 2
      then show ?thesis using sample_node_key
        by (simp add: sample_cmp key_plug_compraw_def key_short_compraw_def ks_comp_el_def ks_get_el_def)
    qed (simp add: sample_cmp)
  qed
  then have res: "case node40_lookup sample_node (sample_key 2) of
      (PRESENT, p) \<Rightarrow> p < 2 \<and> reiser4_key_compfull (node_key sample_node p) (sample_key 2) = 0
    | (ABSENT, p) \<Rightarrow> p \<le> 2 \<and> (\<forall>i<p. reiser4_key_compfull (node_key sample_node i) (sample_key 2) = -1) \<and>
        (\<forall>i. p \<le> i \<and> i < 2 \<longrightarrow> reiser4_key_compfull (node_key sample_node i) (sample_key 2) = 1)
    | (LOOKUP_EIO, p) \<Rightarrow> False"
    by (intro node40_lookup_correct [OF sample_keyed sample_key_plug, unfolded sample_items]) auto
  have c: "reiser4_key_compfull (node_key sample_node 0) (sample_key 2) = -1"
    "reiser4_key_compfull (node_key sample_node 1) (sample_key 2) = 0"
    using sample_node_key
    by (simp_all add: sample_cmp sample_key_def key_plug_compraw_def key_short_compraw_def ks_comp_el_def ks_get_el_def)
  obtain r p where rp: "node40_lookup sample_node (sample_key 2) = (r, p)" by fastforce
  then show ?thesis
    using res c by (cases r) (auto simp: rp less_2_cases_iff dest: spec [of _ 1])
qed

section \<open>Setting keys\<close>

lemma le_word: "word_of_nat (le_value (le_bytes 8 (unat (w :: u64)))) = w"
  using unsigned_less [of w] by (subst le_value_bytes) simp_all

lemma nth_key_bytes:
  "i < n \<Longrightarrow> take 8 (drop (8 * i) (concat (map (\<lambda>i. le_bytes 8 (f i)) [0..<n]))) = le_bytes 8 (f i)"
proof (induction n)
  case (Suc n)
  have len: "length (concat (map (\<lambda>i. le_bytes 8 (f i)) [0..<n])) = 8 * n" for n
    by (induction n) simp_all
  show ?case
  proof (cases "i = n")
    case True
    then show ?thesis by (simp add: len)
  next
    case False
    then have "i < n" using Suc.prems by simp
    then have "8 * i + 8 \<le> 8 * n" by simp
    then show ?thesis using Suc.IH [OF \<open>i < n\<close>] by (simp add: len)
  qed
qed simp

lemma key_bytes_read:
  assumes "i < sz div 8"
  shows "mem_key (mwrite m ih (key_bytes body sz)) ih i = body i"
proof -
  have len: "length (key_bytes body sz) = 8 * (sz div 8)"
    unfolding key_bytes_def length_concat by (simp add: comp_def sum_list_triv)
  have "mread (mwrite m ih (key_bytes body sz)) (ih + 8 * int i) 8 = le_bytes 8 (unat (body i))"
    using assms len by (subst mread_inside) (simp_all add: key_bytes_def nth_key_bytes nat_mult_distrib)
  then show ?thesis unfolding mem_key_def get_le_def by (simp only: le_word)
qed


lemma length_key_bytes: "pol \<in> {3, 4} \<Longrightarrow> length (key_bytes body (key_size pol)) = key_size pol"
  by (auto simp: key_bytes_def key_size_def length_concat comp_def sum_list_triv)

lemma set_key_read:
  assumes "nd_wf nd" "p < nh_get_num_items nd" "a + int l \<le> nd_head nd p \<or> nd_head nd p + int (key_size (nd_keypol nd)) \<le> a"
  shows "mread (nd_mem (node40_set_key nd \<lparr>item = p, unit = u\<rparr> key)) a l = mread (nd_mem nd) a l"
proof -
  have "p < 4294967295" using nd_wfD [OF assms(1)] assms(2) by auto
  then show ?thesis
    using assms(3) by (simp add: node40_set_key_def node40_put_key_def node40_mkdirty_def ih_at_head mread_other
        length_key_bytes [OF nd_wfD(4) [OF assms(1)]])
qed

lemma set_key_head:
  assumes "nd_wf nd" "p < nh_get_num_items nd"
    and "j \<noteq> p \<or> key_size (nd_keypol nd) \<le> i" "i + l \<le> ih_size (nd_keypol nd)"
  shows "mread (nd_mem (node40_set_key nd \<lparr>item = p, unit = u\<rparr> key)) (nd_head nd j + int i) l = mread (nd_mem nd) (nd_head nd j + int i) l"
proof (rule set_key_read [OF assms(1,2)])
  consider "int j + 1 \<le> int p" | "j = p" | "int p + 1 \<le> int j" by linarith
  then show "nd_head nd j + int i + int l \<le> nd_head nd p \<or> nd_head nd p + int (key_size (nd_keypol nd)) \<le> nd_head nd j + int i"
  proof cases
    case 1
    then show ?thesis using nd_wfD(1) [OF assms(1)] assms(4) by (auto simp: nd_head_def algebra_simps)
  next
    case 2
    then show ?thesis using assms(3) by simp
  next
    case 3
    then show ?thesis using nd_wfD(1) [OF assms(1)] assms(4) by (auto simp: nd_head_def algebra_simps)
  qed
qed

lemma set_key_view:
  fixes u :: nat and key :: reiser4_key
  assumes "nd_wf nd" "p < nh_get_num_items nd"
  defines "nd' \<equiv> node40_set_key nd \<lparr>item = p, unit = u\<rparr> key"
  shows "nh_get_num_items nd' = nh_get_num_items nd" "nh_get_free_space nd' = nh_get_free_space nd"
    "nh_get_free_space_start nd' = nh_get_free_space_start nd" "nd_size nd' = nd_size nd" "nd_keypol nd' = nd_keypol nd"
    "nd_kplug nd' = nd_kplug nd" "nd_dirty nd'" "nd_head nd' j = nd_head nd j" "nd_off nd' j = nd_off nd j"
proof -
  have h: "28 \<le> nd_head nd p"
    using nd_wfD [OF assms(1)] nd_off_bounds [OF assms(1), of 0] assms(2) by (auto simp: nd_head_def)
  show f: "nh_get_num_items nd' = nh_get_num_items nd" "nh_get_free_space nd' = nh_get_free_space nd"
    "nh_get_free_space_start nd' = nh_get_free_space_start nd"
    unfolding nd'_def nh_get_num_items_def nh_get_free_space_def nh_get_free_space_start_def get_le_def
    using h by (simp_all add: set_key_read [OF assms(1,2)])
  show s: "nd_size nd' = nd_size nd" "nd_keypol nd' = nd_keypol nd" "nd_kplug nd' = nd_kplug nd" "nd_dirty nd'"
    by (simp_all add: nd'_def node40_set_key_def node40_put_key_def node40_mkdirty_def)
  show h': "nd_head nd' j = nd_head nd j" by (simp add: nd_head_def s)
  have "ih_get_offset (nd_mem nd') (nd_head nd j) (nd_keypol nd) = ih_get_offset (nd_mem nd) (nd_head nd j) (nd_keypol nd)"
    unfolding nd'_def ih_get_offset_def get_le_def
    using nd_wfD(1) [OF assms(1)] by (subst set_key_head [OF assms(1,2)]) auto
  then show "nd_off nd' j = nd_off nd j" by (simp add: nd_off_def f s h')
qed

lemma set_key_item:
  fixes u :: nat and key :: reiser4_key
  assumes "nd_wf nd" "p < nh_get_num_items nd"
  defines "nd' \<equiv> node40_set_key nd \<lparr>item = p, unit = u\<rparr> key"
  shows "j < nh_get_num_items nd \<Longrightarrow> j \<noteq> p \<Longrightarrow> nd_item nd' j = nd_item nd j"
    and "nd_item nd' p = (nd_item nd p)\<lparr>it_key := key_bytes (kbody key) (key_size (nd_keypol nd))\<rparr>"
proof -
  note v = set_key_view [OF assms(1,2), where u = u and key = key, folded nd'_def]
  note head = set_key_head [OF assms(1,2), where u = u and key = key, folded nd'_def]
  have sizes: "key_size (nd_keypol nd) + 6 = ih_size (nd_keypol nd)" using nd_wfD(1) [OF assms(1)] by auto
  have body: "it_body (nd_item nd' j) = it_body (nd_item nd j)" for j
  proof -
    have "int (nd_off nd j) + int (nd_off nd (Suc j) - nd_off nd j) \<le> nd_head nd p \<or> nd_off nd (Suc j) \<le> nd_off nd j"
      using nd_wfD [OF assms(1)] nd_off_bounds(2) [OF assms(1), of "Suc j"] assms(2) by (auto simp: nd_head_def)
    then show ?thesis
      unfolding nd_item_def v using set_key_read [OF assms(1,2), folded nd'_def] by (auto simp: nd'_def)
  qed
  have flags: "it_flags (nd_item nd' j) = it_flags (nd_item nd j)" "it_pid (nd_item nd' j) = it_pid (nd_item nd j)" for j
    using head [of j "key_size (nd_keypol nd) + 2" 2] head [of j "key_size (nd_keypol nd) + 4" 2] sizes
    by (simp_all add: nd_item_def v ih_get_flags_def ih_get_pid_def get_le_def add_ac)
  have "it_key (nd_item nd' j) = it_key (nd_item nd j)" if "j \<noteq> p" for j
    using head [of j 0 "key_size (nd_keypol nd)"] sizes that by (simp add: nd_item_def v)
  then show "nd_item nd' j = nd_item nd j" if "j \<noteq> p"
    using that body flags by (intro node_item.equality) simp_all
  have "p < 4294967295" using nd_wfD [OF assms(1)] assms(2) by auto
  then have "it_key (nd_item nd' p) = key_bytes (kbody key) (key_size (nd_keypol nd))"
    using nd_wfD(4) [OF assms(1)]
    by (simp add: nd_item_def v) (simp add: nd'_def node40_set_key_def node40_put_key_def node40_mkdirty_def ih_at_head mread_same length_key_bytes)
  then show "nd_item nd' p = (nd_item nd p)\<lparr>it_key := key_bytes (kbody key) (key_size (nd_keypol nd))\<rparr>"
    using body flags by (intro node_item.equality) simp_all
qed

text \<open>
  \<^verbatim>\<open>node40_set_key\<close> changes the key bytes of the one item and nothing else of the node, and
  \<^verbatim>\<open>node40_get_key\<close> then returns a key equal to the one set.
\<close>

lemma node40_set_get_key:
  assumes "nd_keyed nd" "p < node40_items nd" "kplug key = nd_kplug nd"
  shows "let nd' = node40_set_key nd \<lparr>item = p, unit = u\<rparr> key in
    nd_keyed nd' \<and> node40_isdirty nd' \<and> reiser4_key_compfull (node_key nd' p) key = 0 \<and>
    nd_items nd' = (nd_items nd)[p := (nd_items nd ! p)\<lparr>it_key := key_bytes (kbody key) (key_size (nd_keypol nd))\<rparr>]"
proof -
  let ?nd' = "node40_set_key nd \<lparr>item = p, unit = u\<rparr> key"
  have wf: "nd_wf nd" and pol: "nd_keypol nd = key_plug_bodysize (nd_kplug nd)" using assms(1) by (auto simp: nd_keyed_def)
  have p: "p < nh_get_num_items nd" using assms(2) by (simp add: node40_items_def)
  have p': "p < 4294967295" using nd_wfD [OF wf] p by auto
  note v = set_key_view [OF wf p, where u = u and key = key] and item = set_key_item [OF wf p, where u = u and key = key]
  have "nd_plug ?nd' = nd_plug nd" by (simp add: node40_set_key_def node40_put_key_def)
  then have keyed: "nd_keyed ?nd'" using wf pol by (simp add: nd_keyed_def nd_wf_def v nd_hdr_def)
  have "kbody (node_key ?nd' p) i = kbody key i" if "i < key_plug_bodysize (nd_kplug nd)" for i
    using that p' pol key_size_bodysize [of "nd_kplug nd"] key_bytes_read [of i "key_size (nd_keypol nd)" "nd_mem nd" "nd_head nd p" "kbody key"]
    by (simp add: node_key_def node40_get_key_def node40_get_key_by_ih_def v ih_at_head)
      (simp add: node40_set_key_def node40_put_key_def node40_mkdirty_def ih_at_head)
  moreover have kp: "kplug (node_key ?nd' p) = nd_kplug nd"
    by (simp add: node_key_def node40_get_key_def node40_get_key_by_ih_def v)
  ultimately have "reiser4_key_compfull (node_key ?nd' p) key = key_plug_compraw (nd_kplug nd) (kbody key) (kbody key)"
    using compraw_cong compfull_compraw [OF kp] by metis
  then have "reiser4_key_compfull (node_key ?nd' p) key = 0" by simp
  moreover have "nd_items ?nd' = (nd_items nd)[p := nd_item ?nd' p]"
    using v(1) p item(1) by (intro nd_items_update)
  moreover have "nd_item ?nd' p = (nd_items nd ! p)\<lparr>it_key := key_bytes (kbody key) (key_size (nd_keypol nd))\<rparr>"
    using item(2) p by (simp add: nd_items_def)
  ultimately show ?thesis using keyed v(7) by (simp add: node40_isdirty_def)
qed

end
