(* ===== verification/Node41.thy ===== *)
theory Node41
  imports NodeKeys
begin

text \<open>
  The checksummed node plugin (\<^verbatim>\<open>plugin/node/node41\<close>): a node40 with a 32-bit checksum behind the common
  header.  Everything but creation, opening, syncing and the sizes is shared with node40, and so are the
  lemmas about items, through \<open>nd_hdr\<close>.
\<close>

unbundle bit_operations_syntax

abbreviation (input) NODE41_MAGIC :: nat where "NODE41_MAGIC \<equiv> 0x19051966"
abbreviation (input) NODE41_HEADER_SIZE :: nat where "NODE41_HEADER_SIZE \<equiv> 32"

definition nh41_get_csum :: "node40 \<Rightarrow> nat" where
  "nh41_get_csum nd = get_le 4 (nd_mem nd) 28"
definition nh41_set_csum :: "node40 \<Rightarrow> int \<Rightarrow> node40" where
  "nh41_set_csum nd v = nd\<lparr>nd_mem := set_le 4 (nd_mem nd) 28 v\<rparr>"

definition node41_get_csum :: "node40 \<Rightarrow> nat" where
  "node41_get_csum entity = nh41_get_csum entity"

definition csum_node41 :: "node40 \<Rightarrow> bool \<Rightarrow> bool \<times> node40" where
  "csum_node41 entity check =
     (let calc = crc32c_le (NOT 0) (mread (nd_mem entity) 0 NODE40_HEADER_SIZE);
          calc = crc32c_le calc
            (mread (nd_mem entity) (int NODE41_HEADER_SIZE) (to_u32 (int (nd_size entity) - int NODE41_HEADER_SIZE)))
      in if check then (unat calc = nh41_get_csum entity, entity)
         else (True, nh41_set_csum entity (uint calc)))"

definition node41_prepare :: "bool \<Rightarrow> mem \<Rightarrow> nat \<Rightarrow> key_plug \<Rightarrow> node40 option" where
  "node41_prepare ok block sz kp =
     (if \<not> ok then None
      else Some \<lparr>nd_mem = block, nd_size = sz, nd_dirty = False, nd_kplug = kp,
                 nd_keypol = key_plug_bodysize kp, nd_state = 0, nd_plug = NODE_REISER41_ID\<rparr>)"

definition node41_open :: "bool \<Rightarrow> mem \<Rightarrow> nat \<Rightarrow> key_plug \<Rightarrow> node40 option" where
  "node41_open ok block sz kp =
     (case node41_prepare ok block sz kp of
        None \<Rightarrow> None
      | Some entity \<Rightarrow>
          if \<not> fst (csum_node41 entity True) then None
          else if nh_get_magic entity \<noteq> NODE41_MAGIC then None
          else Some entity)"

definition node41_sync :: "int \<Rightarrow> node40 \<Rightarrow> int \<times> node40" where
  "node41_sync res entity = node40_sync res (snd (csum_node41 entity False))"

definition node41_maxspace :: "node40 \<Rightarrow> nat" where
  "node41_maxspace entity = to_u16 (int (nd_size entity) - 32 - int (ih_size (nd_keypol entity)))"

definition node41_init :: "bool \<Rightarrow> mem \<Rightarrow> nat \<Rightarrow> nat \<Rightarrow> key_plug \<Rightarrow> node40 option" where
  "node41_init ok block sz level kp =
     node40_init_common block sz level kp NODE_REISER41_ID NODE41_MAGIC NODE41_HEADER_SIZE (node41_prepare ok)"

text \<open>The call of the \<^verbatim>\<open>maxspace\<close> method of a node through its plugin.\<close>

definition node_maxspace :: "node40 \<Rightarrow> nat" where
  "node_maxspace nd = (if nd_plug nd = NODE_REISER40_ID then node40_maxspace nd else node41_maxspace nd)"

section \<open>The checksum sees every change of one byte\<close>

lemma xor_cancel: "(a :: u32) XOR c = b XOR c \<longleftrightarrow> a = b" "(c :: u32) XOR a = c XOR b \<longleftrightarrow> a = b"
proof -
  have "a = b" if "a XOR c = b XOR c"
  proof -
    have "(a XOR c) XOR c = (b XOR c) XOR c" using that by simp
    then show "a = b" by (simp add: xor.assoc)
  qed
  then show "a XOR c = b XOR c \<longleftrightarrow> a = b" by auto
  then show "c XOR a = c XOR b \<longleftrightarrow> a = b" by (simp add: xor.commute)
qed

lemma crc32c_bit_inj: "crc32c_bit x = crc32c_bit y \<Longrightarrow> x = y"
proof -
  assume eq: "crc32c_bit x = crc32c_bit y"
  have top: "bit (crc32c_bit w) 31 \<longleftrightarrow> bit w 0" for w
    by (auto simp: crc32c_bit_def bit_simps dest: bit_imp_le_length)
  have "bit x 0 \<longleftrightarrow> bit y 0" using top [of x] top [of y] eq by simp
  moreover have "drop_bit 1 x = drop_bit 1 y"
    using eq \<open>bit x 0 \<longleftrightarrow> bit y 0\<close> by (auto simp: crc32c_bit_def xor_cancel split: if_splits)
  ultimately show "x = y"
    by (metis bit_eq_rec bit_0 drop_bit_Suc drop_bit_0 One_nat_def id_apply)
qed

lemma crc32c_bits_inj: "(crc32c_bit ^^ n) x = (crc32c_bit ^^ n) y \<Longrightarrow> x = y"
  by (induction n) (auto dest: crc32c_bit_inj)

lemma crc32c_byte_inj: "crc32c_byte x d = crc32c_byte y d \<Longrightarrow> x = y"
  unfolding crc32c_byte_def by (drule crc32c_bits_inj) (simp add: xor_cancel)

lemma crc32c_byte_inj2: "crc32c_byte x d = crc32c_byte x e \<Longrightarrow> d = e"
proof -
  assume "crc32c_byte x d = crc32c_byte x e"
  then have "ucast d = (ucast e :: u32)"
    unfolding crc32c_byte_def by (drule_tac crc32c_bits_inj) (simp add: xor_cancel)
  then have "unat (ucast d :: u32) = unat (ucast e :: u32)" by simp
  moreover have "unat d < 2 ^ 32" "unat e < 2 ^ 32"
    using unsigned_less [of d, where 'a = nat] unsigned_less [of e, where 'a = nat] by simp_all
  ultimately show "d = e" by (simp add: unsigned_ucast_eq take_bit_nat_eq_self word_unat_eq_iff)
qed

lemma crc32c_le_inj: "crc32c_le x ds = crc32c_le y ds \<Longrightarrow> x = y"
  by (induction ds arbitrary: x y) (auto simp: crc32c_table_step dest: crc32c_byte_inj)

lemma crc32c_le_one_byte:
  assumes "i < length ds" "ds ! i \<noteq> b"
  shows "crc32c_le c (ds[i := b]) \<noteq> crc32c_le c ds"
proof
  assume eq: "crc32c_le c (ds[i := b]) = crc32c_le c ds"
  have split: "ds = take i ds @ ds ! i # drop (Suc i) ds" using assms(1) by (simp add: id_take_nth_drop)
  have "ds[i := b] = take i ds @ b # drop (Suc i) ds" using assms(1) by (simp add: upd_conv_take_nth_drop)
  then have "crc32c_le (crc32c_byte (crc32c_le c (take i ds)) b) (drop (Suc i) ds) =
      crc32c_le (crc32c_byte (crc32c_le c (take i ds)) (ds ! i)) (drop (Suc i) ds)"
    using eq split by (metis crc32c_le.simps(2) crc32c_le_append crc32c_table_step)
  then show False using assms(2) by (auto dest: crc32c_le_inj crc32c_byte_inj2)
qed

lemma mread_upd:
  "mread (m(a := b)) s n = (if s \<le> a \<and> a < s + int n then (mread m s n)[nat (a - s) := b] else mread m s n)"
  by (rule nth_equalityI) (auto simp: nth_list_update)

lemma csum_node41_eq:
  "csum_node41 nd True = (unat (crc32c_le (crc32c_le (NOT 0) (mread (nd_mem nd) 0 28))
     (mread (nd_mem nd) 32 (to_u32 (int (nd_size nd) - 32)))) = get_le 4 (nd_mem nd) 28, nd)"
  by (simp add: csum_node41_def nh41_get_csum_def Let_def)

lemma le_value_inj: "length xs = length ys \<Longrightarrow> le_value xs = le_value ys \<Longrightarrow> xs = ys"
  by (metis le_bytes_value)

lemma get_le_upd:
  assumes "s \<le> a" "a < s + int k" "b \<noteq> m a"
  shows "get_le k (m(a := b)) s \<noteq> get_le k m s"
proof
  assume "get_le k (m(a := b)) s = get_le k m s"
  then have "mread (m(a := b)) s k = mread m s k" unfolding get_le_def by (intro le_value_inj) (simp_all add: mread_def)
  then have "mread (m(a := b)) s k ! nat (a - s) = mread m s k ! nat (a - s)" by simp
  then show False using assms by (simp add: mread_def)
qed

section \<open>Properties\<close>

text \<open>
  C6: a block that \<^verbatim>\<open>node41_open\<close> accepts is refused as soon as any single byte of it has another value, be
  it a byte of the header, of the items or of the checksum field itself.
\<close>

theorem node41_open_detects:
  assumes "node41_open True m sz kp = Some nd" "32 \<le> sz" "sz < 4294967296"
    and "0 \<le> a" "a < int sz" "b \<noteq> m a"
  shows "node41_open True (m(a := b)) sz kp = None"
proof -
  let ?c = "\<lambda>m. crc32c_le (crc32c_le (NOT 0) (mread m 0 28)) (mread m 32 (to_u32 (int sz - 32)))"
  have sz: "to_u32 (int sz - 32) = sz - 32" using assms(2,3) to_u32_diff [of 32 sz] by simp
  have ok: "unat (?c m) = get_le 4 m 28"
    using assms(1) by (auto simp: node41_open_def node41_prepare_def csum_node41_eq split: if_splits)
  consider (head) "a < 28" | (field) "28 \<le> a" "a < 32" | (body) "32 \<le> a" by linarith
  then have "unat (?c (m(a := b))) \<noteq> get_le 4 (m(a := b)) 28"
  proof cases
    case field
    then have "?c (m(a := b)) = ?c m" by (simp add: mread_upd)
    moreover have "get_le 4 (m(a := b)) 28 \<noteq> get_le 4 m 28" by (rule get_le_upd) (use field assms(6) in auto)
    ultimately show ?thesis using ok by metis
  next
    case head
    then have "mread (m(a := b)) 32 (sz - 32) = mread m 32 (sz - 32)" "mread (m(a := b)) 0 28 = (mread m 0 28)[nat a := b]"
      using assms(4) by (simp_all add: mread_upd)
    then have "?c (m(a := b)) \<noteq> ?c m"
      unfolding sz using crc32c_le_one_byte [of "nat a" "mread m 0 28" b] head assms(4,6)
      by (auto dest: crc32c_le_inj)
    moreover have "get_le 4 (m(a := b)) 28 = get_le 4 m 28" using head by (simp add: get_le_def mread_upd)
    ultimately show ?thesis using ok by (metis word_unat_eq_iff)
  next
    case body
    then have "mread (m(a := b)) 0 28 = mread m 0 28"
      "mread (m(a := b)) 32 (sz - 32) = (mread m 32 (sz - 32))[nat (a - 32) := b]"
      using assms(2,5) by (simp_all add: mread_upd)
    then have "?c (m(a := b)) \<noteq> ?c m"
      unfolding sz using crc32c_le_one_byte [of "nat (a - 32)" "mread m 32 (sz - 32)" b] body assms(2,5,6) by auto
    moreover have "get_le 4 (m(a := b)) 28 = get_le 4 m 28" using body by (simp add: get_le_def mread_upd)
    ultimately show ?thesis using ok by (metis word_unat_eq_iff)
  qed
  then show ?thesis by (simp add: node41_open_def node41_prepare_def csum_node41_eq)
qed

lemma csum_update_eq:
  "snd (csum_node41 nd False) = nd\<lparr>nd_mem := set_le 4 (nd_mem nd) 28 (uint (crc32c_le (crc32c_le (NOT 0) (mread (nd_mem nd) 0 28))
     (mread (nd_mem nd) 32 (to_u32 (int (nd_size nd) - 32)))))\<rparr>"
  by (simp add: csum_node41_def nh41_set_csum_def Let_def)

lemma nd_off_hdr:
  assumes "nd_wf nd"
  shows "nd_hdr nd \<le> nd_off nd j"
proof -
  have hdr: "nd_off nd 0 = nd_hdr nd" using assms by (simp add: nd_wf_def)
  show ?thesis
  proof (cases "j \<le> nh_get_num_items nd")
    case True
    then show ?thesis using nd_off_mono [OF assms, of 0 j] hdr by simp
  next
    case False
    then show ?thesis using nd_off_mono [OF assms, of 0 "nh_get_num_items nd"] hdr by (simp add: nd_off_end)
  qed
qed

text \<open>Writing between the common header and the first body does not touch any item.\<close>

lemma csum_same_view:
  fixes v :: int
  assumes "nd_wf nd" "nd_plug nd = 1"
  defines "nd' \<equiv> nd\<lparr>nd_mem := set_le 4 (nd_mem nd) 28 v\<rparr>"
  shows "nd_wf nd'" "nd_items nd' = nd_items nd" "node40_space nd' = node40_space nd" "nh_get_magic nd' = nh_get_magic nd"
proof -
  have other: "mread (nd_mem nd') a l = mread (nd_mem nd) a l" if "a + int l \<le> 28 \<or> 32 \<le> a" for a l
    using that by (simp add: nd'_def mread_set_le_other)
  have same: "nd_size nd' = nd_size nd" "nd_keypol nd' = nd_keypol nd" "nd_plug nd' = nd_plug nd" by (simp_all add: nd'_def)
  have head: "nd_head nd' j = nd_head nd j" for j by (simp add: nd_head_def same)
  have f: "nh_get_num_items nd' = nh_get_num_items nd" "nh_get_free_space nd' = nh_get_free_space nd"
    "nh_get_free_space_start nd' = nh_get_free_space_start nd" "nh_get_magic nd' = nh_get_magic nd"
    by (simp_all add: nh_get_num_items_def nh_get_free_space_def nh_get_free_space_start_def nh_get_magic_def get_le_def other)
  have lo: "32 \<le> nd_off nd j" for j
    using nd_off_hdr [OF assms(1), of j] assms(2) by (simp add: nd_hdr_def)
  have h: "32 \<le> nd_head nd j" if "j < nh_get_num_items nd" for j
    using lo [of "nh_get_num_items nd"] nd_wfD [OF assms(1)] that by (auto simp: nd_head_def nd_off_end)
  have "ih_get_offset (nd_mem nd') (nd_head nd j) (nd_keypol nd) = ih_get_offset (nd_mem nd) (nd_head nd j) (nd_keypol nd)"
    if "j < nh_get_num_items nd" for j
    using h [OF that] by (simp add: ih_get_offset_def get_le_def other)
  then have off: "nd_off nd' j = nd_off nd j" for j
    by (simp add: nd_off_def f head same)
  show "nd_wf nd'" using assms(1) by (simp add: nd_wf_def same f off nd_hdr_def)
  have "nd_item nd' j = nd_item nd j" if "j < nh_get_num_items nd" for j
    using h [OF that] lo by (simp add: nd_item_def same head off other ih_get_flags_def ih_get_pid_def get_le_def)
  then show "nd_items nd' = nd_items nd" by (simp add: nd_items_def f)
  show "node40_space nd' = node40_space nd" "nh_get_magic nd' = nh_get_magic nd"
    using f by (simp_all add: node40_space_def)
qed

text \<open>
  C7: \<^verbatim>\<open>node41_sync\<close> changes nothing but the checksum and the dirty flag, and \<^verbatim>\<open>node41_open\<close> then accepts
  the block and gives the synced node back.
\<close>

theorem node41_sync_open:
  assumes "nd_keyed nd" "nd_plug nd = 1" "nh_get_magic nd = NODE41_MAGIC" "node40_get_state nd = 0"
  shows "let (r, nd') = node41_sync 0 nd in
    r = 0 \<and> \<not> node40_isdirty nd' \<and> nd_keyed nd' \<and> nd_items nd' = nd_items nd \<and> node40_space nd' = node40_space nd \<and>
    node41_open True (nd_mem nd') (nd_size nd') (nd_kplug nd') = Some nd'"
proof -
  have wf: "nd_wf nd" using assms(1) by (simp add: nd_keyed_def)
  let ?c = "crc32c_le (crc32c_le (NOT 0) (mread (nd_mem nd) 0 28)) (mread (nd_mem nd) 32 (to_u32 (int (nd_size nd) - 32)))"
  define nd' where "nd' = nd\<lparr>nd_mem := set_le 4 (nd_mem nd) 28 (uint ?c)\<rparr>"
  note v = csum_same_view [OF wf assms(2), of "uint ?c", folded nd'_def]
  have sync: "node41_sync 0 nd = (0, nd'\<lparr>nd_dirty := False\<rparr>)"
    by (simp add: node41_sync_def node40_sync_def node40_mkclean_def csum_update_eq nd'_def)
  have clean: "nd_items (nd'\<lparr>nd_dirty := False\<rparr>) = nd_items nd'" "nd_wf (nd'\<lparr>nd_dirty := False\<rparr>) = nd_wf nd'"
    "node40_space (nd'\<lparr>nd_dirty := False\<rparr>) = node40_space nd'"
    by (simp_all add: nd_items_def nd_item_def [abs_def] nd_wf_def nd_off_def nd_head_def nd_hdr_def nh_get_num_items_def
        nh_get_free_space_def nh_get_free_space_start_def node40_space_def)
  have "uint ?c mod 256 ^ 4 = uint ?c" using uint_lt2p [of ?c] by (intro mod_pos_pos_trivial) simp_all
  then have "get_le 4 (nd_mem nd') 28 = unat ?c" by (simp add: nd'_def get_set_le)
  then have "fst (csum_node41 (nd'\<lparr>nd_dirty := False\<rparr>) True)"
    by (simp add: csum_node41_eq) (simp add: nd'_def mread_set_le_other)
  moreover have "nh_get_magic (nd'\<lparr>nd_dirty := False\<rparr>) = NODE41_MAGIC"
    using v(4) assms(3) by (simp add: nh_get_magic_def)
  moreover have "node41_prepare True (nd_mem nd') (nd_size nd') (nd_kplug nd') = Some (nd'\<lparr>nd_dirty := False\<rparr>)"
    using assms by (auto simp: node41_prepare_def nd'_def nd_keyed_def node40_get_state_def intro!: node40.equality)
  ultimately have "node41_open True (nd_mem nd') (nd_size nd') (nd_kplug nd') = Some (nd'\<lparr>nd_dirty := False\<rparr>)"
    by (simp add: node41_open_def)
  then show ?thesis
    using v clean assms(1) by (simp add: sync node40_isdirty_def nd_keyed_def) (simp add: nd'_def)
qed


theorem node41_sync_open_witness:
  "\<exists>nd nd'. node41_init True (\<lambda>_. 0) 512 1 KEY_LARGE = Some nd \<and> node41_sync 0 nd = (0, nd') \<and>
    node41_open True (nd_mem nd') 512 KEY_LARGE = Some nd'"
proof -
  obtain nd where nd: "node41_init True (\<lambda>_. 0) 512 1 KEY_LARGE = Some nd" "nh_get_num_items nd = 0"
      "nh_get_free_space nd = 480" "nh_get_free_space_start nd = 32" "nh_get_magic nd = NODE41_MAGIC" "nd_size nd = 512"
      "nd_keypol nd = 4" "nd_kplug nd = KEY_LARGE" "nd_plug nd = 1" "nd_state nd = 0"
    by (simp add: node41_init_def node40_init_common_def node41_prepare_def Let_def nh_set_num_items_def nh_set_level_def
        nh_set_magic_def nh_set_pid_def nh_set_free_space_start_def nh_set_free_space_def nh_get_num_items_def
        nh_get_free_space_def nh_get_free_space_start_def nh_get_level_def nh_get_magic_def mem_simps
        key_plug_bodysize_def key_large_bodysize_def)
  then have "nd_keyed nd"
    by (simp add: nd_keyed_def nd_wf_def nd_off_def nd_hdr_def key_plug_bodysize_def key_large_bodysize_def)
  from node41_sync_open [OF this] nd show ?thesis
    by (intro exI [of _ nd] exI [of _ "snd (node41_sync 0 nd)"])
      (auto simp: node40_get_state_def Let_def case_prod_unfold prod_eq_iff node41_sync_def node40_sync_def node40_mkclean_def csum_update_eq)
qed

definition sample_block41 :: mem where
  "sample_block41 = set_le 4 (set_le 4 (\<lambda>_. 0) 8 (int NODE41_MAGIC)) 28
     (uint (crc32c_le (crc32c_le (NOT 0) (mread (set_le 4 (\<lambda>_. 0) 8 (int NODE41_MAGIC)) 0 28)) (replicate 8 0)))"

lemma sample_open41: "\<exists>nd. node41_open True sample_block41 40 KEY_SHORT = Some nd"
proof -
  define m where "m = set_le 4 (\<lambda>_. 0) 8 (int NODE41_MAGIC)"
  define c where "c = crc32c_le (crc32c_le (NOT 0) (mread m 0 28)) (replicate 8 0)"
  have s: "sample_block41 = set_le 4 m 28 (uint c)" by (simp add: sample_block41_def m_def c_def)
  have "uint c mod 256 ^ 4 = uint c" using uint_lt2p [of c] by (intro mod_pos_pos_trivial) simp_all
  then have 1: "get_le 4 sample_block41 28 = unat c" by (simp add: s get_set_le)
  have "mread m 32 8 = replicate 8 0" by (rule nth_equalityI) (simp_all add: m_def set_le_outside)
  then have 2: "mread sample_block41 32 8 = replicate 8 0" by (simp add: s mread_set_le_other)
  have 3: "mread sample_block41 0 28 = mread m 0 28" by (simp add: s mread_set_le_other)
  have "get_le 4 sample_block41 8 = NODE41_MAGIC" by (simp add: s m_def get_set_le get_set_le_other)
  then show ?thesis
    by (simp add: node41_open_def node41_prepare_def csum_node41_eq nh_get_magic_def to_u32_id 1 2 3 c_def)
qed

theorem node41_open_detects_witness: "node41_open True (sample_block41(9 := 0x20)) 40 KEY_SHORT = None"
proof -
  obtain nd where nd: "node41_open True sample_block41 40 KEY_SHORT = Some nd" using sample_open41 by blast
  have byte: "le_bytes 4 v ! Suc 0 = word_of_nat (v div 256)" for v
  proof -
    have "le_bytes (Suc (Suc 2)) v ! Suc 0 = word_of_nat (v div 256)" by (simp only: le_bytes.simps nth_Cons_Suc nth_Cons_0)
    then show ?thesis by simp
  qed
  have "sample_block41 9 = 0x19"
    by (simp add: sample_block41_def set_le_outside) (simp add: set_le_def mwrite_def byte)
  then have "(0x20 :: u8) \<noteq> sample_block41 9" by simp
  from node41_open_detects [OF nd _ _ _ _ this] show ?thesis by simp
qed

end
