(* ===== verification/ItemPlug.thy ===== *)
theory ItemPlug
  imports Node41
begin

text \<open>
  What node and item plugins exchange: places, the hints of tree and shift operations, and the table of
  methods of an item plugin (\<^verbatim>\<open>include/reiser4/plugin.h\<close>), with the dispatch to it
  (\<^verbatim>\<open>libreiser4/item.c\<close>).
\<close>

unbundle bit_operations_syntax

section \<open>Places and hints\<close>

text \<open>
  A place holds the node it lies in; item plugins that write through the body pointer return the place
  with the changed node.  The plugin is given by its id.
\<close>

record place =
  pl_pos :: pos
  pl_node :: node40
  pl_body :: int
  pl_len :: nat
  pl_off :: nat
  pl_key :: reiser4_key
  pl_plug :: nat

definition place_mkdirty :: "place \<Rightarrow> place" where
  "place_mkdirty place = place\<lparr>pl_node := node40_mkdirty (pl_node place)\<rparr>"

definition place_unit :: "place \<Rightarrow> nat \<Rightarrow> place" where
  "place_unit place u = place\<lparr>pl_pos := (pl_pos place)\<lparr>unit := u\<rparr>\<rparr>"

definition place_mem :: "place \<Rightarrow> mem" where
  "place_mem place = nd_mem (pl_node place)"

definition place_put :: "place \<Rightarrow> mem \<Rightarrow> place" where
  "place_put place m = place\<lparr>pl_node := (pl_node place)\<lparr>nd_mem := m\<rparr>\<rparr>"

lemma place_put_simps [simp]:
  "place_mem (place_put place m) = m" "pl_body (place_put place m) = pl_body place" "pl_len (place_put place m) = pl_len place"
  "pl_key (place_put place m) = pl_key place" "pl_pos (place_put place m) = pl_pos place"
  "place_mem (place_mkdirty place) = place_mem place" "pl_body (place_mkdirty place) = pl_body place"
  "pl_len (place_mkdirty place) = pl_len place" "pl_key (place_mkdirty place) = pl_key place"
  "pl_pos (place_mkdirty place) = pl_pos place"
  "place_mem (place_unit place u) = place_mem place" "pl_body (place_unit place u) = pl_body place"
  "pl_len (place_unit place u) = pl_len place" "unit (pl_pos (place_unit place u)) = u" "pl_key (place_unit place u) = pl_key place"
  by (simp_all add: place_put_def place_mem_def place_mkdirty_def node40_mkdirty_def place_unit_def)

lemma place_put_twice: "place_put (place_put p m) m' = place_put p m'" "place_put p (place_mem p) = p"
  by (simp_all add: place_put_def place_mem_def)

text \<open>
  \<^verbatim>\<open>ptr_hint_t\<close>, and what the \<^verbatim>\<open>specific\<close> pointer of a hint can point to: a data buffer is the memory from
  offset 0 on, \<open>SP_PTRS\<close> an array of pointer hints, \<open>SP_ENTRIES\<close> one of entry hints.
\<close>

record ptr_hint =
  ptr_start :: nat
  ptr_width :: nat

text \<open>
  \<^verbatim>\<open>entry_hint_t\<close>: a name is the bytes before the NUL in the buffer.
\<close>

record entry_hint =
  eh_len :: nat
  eh_place :: place
  eh_offset :: reiser4_key
  eh_object :: reiser4_key
  eh_type :: nat
  eh_name :: "u8 list"

text \<open>
  The hints of stat data extensions, by extension.  A member of a plugin set is a pointer to a plugin, here its
  id, or a number stored in the pointer; the null pointer is the number 0.  The name of a symbolic link is the
  bytes before its NUL.
\<close>

record sdhint_lw =
  lw_mode :: nat
  lw_nlink :: nat
  lw_size :: nat

record sdhint_unix =
  ux_uid :: nat
  ux_gid :: nat
  ux_atime :: nat
  ux_mtime :: nat
  ux_ctime :: nat
  ux_rdev :: nat
  ux_bytes :: nat

record sdhint_lt =
  lt_atime :: nat
  lt_mtime :: nat
  lt_ctime :: nat

datatype plug_ref = PLUG nat | PARAM nat

record reiser4_pset =
  ps_mask :: u64
  ps_plug :: "plug_ref list"

record sdhint_crypto =
  cr_keylen :: nat
  cr_signlen :: nat
  cr_sign :: "u8 list"

datatype sd_hint = SDH_LW sdhint_lw | SDH_UNIX sdhint_unix | SDH_LT sdhint_lt | SDH_SYMLINK "u8 list" | SDH_PLUG reiser4_pset
  | SDH_FLAGS nat | SDH_CRYPTO sdhint_crypto

record stat_hint =
  st_extmask :: u64
  st_ext :: "sd_hint option list"

datatype specific = SP_NULL | SP_DATA mem | SP_PTR ptr_hint | SP_PTRS "ptr_hint list" | SP_CTAIL nat | SP_PLACE place
  | SP_ENTRIES "entry_hint list" | SP_STAT stat_hint

text \<open>
  \<open>'d\<close> is the type of the data behind the opaque \<^verbatim>\<open>data\<close> pointer, which the hook \<^verbatim>\<open>region_func\<close> reads
  and changes; a null hook is \<open>None\<close>.
\<close>

record 'd trans_hint =
  th_overhead :: nat
  th_len :: int
  th_bytes :: nat
  th_specific :: specific
  th_count :: nat
  th_offset :: reiser4_key
  th_maxkey :: reiser4_key
  th_insert_flags :: nat
  th_head :: nat
  th_tail :: nat
  th_plug :: nat
  th_region_func :: "(nat \<Rightarrow> nat \<Rightarrow> 'd \<Rightarrow> int \<times> 'd) option"
  th_data :: 'd

record shift_hint =
  sh_create :: bool
  sh_update :: bool
  sh_items_number :: nat
  sh_units_number :: nat
  sh_items_bytes :: nat
  sh_units_bytes :: nat
  sh_control :: u32
  sh_result :: u32
  sh_pos :: pos

abbreviation (input) SF_ALLOW_LEFT :: u32 where "SF_ALLOW_LEFT \<equiv> 1"
abbreviation (input) SF_ALLOW_RIGHT :: u32 where "SF_ALLOW_RIGHT \<equiv> 2"
abbreviation (input) SF_MOVE_POINT :: u32 where "SF_MOVE_POINT \<equiv> 4"
abbreviation (input) SF_UPDATE_POINT :: u32 where "SF_UPDATE_POINT \<equiv> 8"
abbreviation (input) SF_ALLOW_MERGE :: u32 where "SF_ALLOW_MERGE \<equiv> 16"

abbreviation (input) SF_HOLD_POS :: u32 where "SF_HOLD_POS \<equiv> 128"

definition sh_flag :: "u32 \<Rightarrow> u32 \<Rightarrow> bool" where
  "sh_flag flags f \<longleftrightarrow> flags AND f \<noteq> 0"

lemma sh_flag_or [simp]: "f \<noteq> 0 \<Longrightarrow> sh_flag (x OR f) f"
proof -
  have "(x OR f) AND f = f" by (rule bit_word_eqI) (auto simp: bit_simps)
  then show "f \<noteq> 0 \<Longrightarrow> sh_flag (x OR f) f" by (simp add: sh_flag_def)
qed

text \<open>Two shift hints that ask for the same.\<close>

definition same_goal :: "shift_hint \<Rightarrow> shift_hint \<Rightarrow> bool" where
  "same_goal hint hint' \<longleftrightarrow>
     sh_create hint' = sh_create hint \<and> sh_control hint' = sh_control hint \<and>
     sh_items_number hint' = sh_items_number hint \<and> sh_items_bytes hint' = sh_items_bytes hint"

text \<open>\<^verbatim>\<open>repair_hint_t\<close>: the mode of fsck, and the bytes a check took off the end of an item.\<close>

record repair_hint =
  rh_len :: int
  rh_mode :: nat

datatype lookup_bias = FIND_EXACT | FIND_CONV

section \<open>Item plugins\<close>

text \<open>
  The methods the node layer and the item dispatch call; a method that is not implemented is \<open>None\<close>.
  \<open>ip_merge\<close> takes the left and the right place of one node, the node being that of the right one.
\<close>

record 'd item_plug =
  ip_id :: nat
  ip_group :: nat
  ip_init :: "(place \<Rightarrow> place) option"
  ip_units :: "(place \<Rightarrow> nat) option"
  ip_lookup :: "(place \<Rightarrow> reiser4_key \<Rightarrow> lookup_bias \<Rightarrow> lookup_res \<times> place) option"
  ip_fetch_key :: "(place \<Rightarrow> reiser4_key) option"
  ip_maxposs_key :: "(place \<Rightarrow> reiser4_key) option"
  ip_maxreal_key :: "(place \<Rightarrow> reiser4_key) option"
  ip_mergeable :: "(place \<Rightarrow> place \<Rightarrow> bool) option"
  ip_merge :: "(place \<Rightarrow> place \<Rightarrow> int \<times> place) option"
  ip_prep_shift :: "(place \<Rightarrow> place option \<Rightarrow> shift_hint \<Rightarrow> int \<times> place option \<times> shift_hint) option"
  ip_shift_units :: "(place \<Rightarrow> place \<Rightarrow> shift_hint \<Rightarrow> int \<times> place \<times> place \<times> shift_hint) option"
  ip_insert_units :: "(place \<Rightarrow> 'd trans_hint \<Rightarrow> int \<times> place \<times> 'd trans_hint) option"
  ip_write_units :: "(place \<Rightarrow> 'd trans_hint \<Rightarrow> int \<times> place \<times> 'd trans_hint) option"
  ip_remove_units :: "(place \<Rightarrow> 'd trans_hint \<Rightarrow> int \<times> place \<times> 'd trans_hint) option"
  ip_update_units :: "(place \<Rightarrow> 'd trans_hint \<Rightarrow> int \<times> place \<times> 'd trans_hint) option"
  ip_trunc_units :: "(place \<Rightarrow> 'd trans_hint \<Rightarrow> int \<times> place \<times> 'd trans_hint) option"
  ip_read_units :: "(place \<Rightarrow> 'd trans_hint \<Rightarrow> int \<times> place \<times> 'd trans_hint) option"
  ip_fetch_units :: "(place \<Rightarrow> 'd trans_hint \<Rightarrow> int \<times> place \<times> 'd trans_hint) option"
  ip_prep_write :: "(place \<Rightarrow> 'd trans_hint \<Rightarrow> int \<times> place \<times> 'd trans_hint) option"
  ip_prep_insert :: "(place \<Rightarrow> 'd trans_hint \<Rightarrow> int \<times> place \<times> 'd trans_hint) option"
  ip_insert_raw :: "(place \<Rightarrow> 'd trans_hint \<Rightarrow> int \<times> place \<times> 'd trans_hint) option"
  ip_layout :: "(place \<Rightarrow> (nat \<Rightarrow> nat \<Rightarrow> 'd \<Rightarrow> int \<times> 'd) \<Rightarrow> 'd \<Rightarrow> int \<times> 'd) option"
  ip_check_struct :: "(place \<Rightarrow> repair_hint \<Rightarrow> int \<times> place \<times> repair_hint) option"

abbreviation (input) STAT_ITEM :: nat where "STAT_ITEM \<equiv> 0"
abbreviation (input) PTR_ITEM :: nat where "PTR_ITEM \<equiv> 1"

text \<open>The table of plugins, from ids to methods.\<close>

type_synonym 'd item_table = "nat \<Rightarrow> 'd item_plug option"

section \<open>Item dispatch\<close>

definition reiser4_item_units :: "'d item_plug \<Rightarrow> place \<Rightarrow> nat" where
  "reiser4_item_units plug place = (case ip_units plug of Some f \<Rightarrow> f place | None \<Rightarrow> 1)"

definition reiser4_item_statdata :: "'d item_plug \<Rightarrow> bool" where
  "reiser4_item_statdata plug \<longleftrightarrow> ip_group plug = STAT_ITEM"

definition reiser4_item_branch :: "'d item_plug \<Rightarrow> bool" where
  "reiser4_item_branch plug \<longleftrightarrow> ip_group plug = PTR_ITEM"

definition reiser4_item_mergeable :: "'d item_plug \<Rightarrow> place \<Rightarrow> place \<Rightarrow> bool" where
  "reiser4_item_mergeable plug1 place1 place2 \<longleftrightarrow>
     pl_plug place1 = pl_plug place2 \<and>
     (case ip_mergeable plug1 of Some f \<Rightarrow> f place1 place2 | None \<Rightarrow> False)"

definition reiser4_item_maxposs_key :: "'d item_plug \<Rightarrow> place \<Rightarrow> reiser4_key" where
  "reiser4_item_maxposs_key plug place =
     (case ip_maxposs_key plug of None \<Rightarrow> pl_key place | Some f \<Rightarrow> f place)"

definition reiser4_item_maxreal_key :: "'d item_plug \<Rightarrow> place \<Rightarrow> reiser4_key" where
  "reiser4_item_maxreal_key plug place =
     (case ip_maxreal_key plug of None \<Rightarrow> pl_key place | Some f \<Rightarrow> f place)"

definition reiser4_item_get_key :: "'d item_plug \<Rightarrow> place \<Rightarrow> reiser4_key \<Rightarrow> reiser4_key" where
  "reiser4_item_get_key plug place key =
     (let key = key\<lparr>kplug := kplug (pl_key place)\<rparr>; u = unit (pl_pos place)
      in case ip_fetch_key plug of
           Some f \<Rightarrow> if u \<noteq> 0 \<and> u \<noteq> MAX_UINT32 then f place else node40_get_key (pl_node place) (pl_pos place) key
         | None \<Rightarrow> node40_get_key (pl_node place) (pl_pos place) key)"

text \<open>Item flags: bit \<open>flag\<close> of the 16-bit field of the item header.\<close>

definition reiser4_item_set_flag :: "place \<Rightarrow> nat \<Rightarrow> place" where
  "reiser4_item_set_flag place flag =
     (let old = node40_get_flags (pl_node place) (item (pl_pos place))
      in if old AND push_bit flag 1 \<noteq> 0 then place
         else place\<lparr>pl_node := node40_set_flags (pl_node place) (item (pl_pos place)) (to_u16 (int (old OR push_bit flag 1)))\<rparr>)"

definition reiser4_item_clear_flag :: "place \<Rightarrow> nat \<Rightarrow> place" where
  "reiser4_item_clear_flag place flag =
     (let old = node40_get_flags (pl_node place) (item (pl_pos place))
      in if NOT (int old) AND push_bit flag 1 \<noteq> 0 then place
         else place\<lparr>pl_node := node40_set_flags (pl_node place) (item (pl_pos place))
                (to_u16 (int old AND NOT (push_bit flag 1)))\<rparr>)"

definition reiser4_item_clear_flags :: "place \<Rightarrow> place" where
  "reiser4_item_clear_flags place =
     (if node40_get_flags (pl_node place) (item (pl_pos place)) = 0 then place
      else place\<lparr>pl_node := node40_set_flags (pl_node place) (item (pl_pos place)) 0\<rparr>)"

definition reiser4_item_test_flag :: "place \<Rightarrow> nat \<Rightarrow> bool" where
  "reiser4_item_test_flag place flag \<longleftrightarrow>
     node40_get_flags (pl_node place) (item (pl_pos place)) AND push_bit flag 1 \<noteq> 0"

definition reiser4_item_dup_flags :: "place \<Rightarrow> nat \<Rightarrow> place" where
  "reiser4_item_dup_flags place flags =
     place\<lparr>pl_node := node40_set_flags (pl_node place) (item (pl_pos place)) flags\<rparr>"

definition reiser4_item_get_flags :: "place \<Rightarrow> nat" where
  "reiser4_item_get_flags place = node40_get_flags (pl_node place) (item (pl_pos place))"

end
