(* ===== verification/TailItems.thy ===== *)
theory TailItems
  imports ItemPlug
begin

text \<open>
  File bodies kept in the tree: the code shared by body items (\<^verbatim>\<open>plugin/item/body40\<close>), plain tails
  (\<^verbatim>\<open>tail40\<close>, \<^verbatim>\<open>plain40\<close>) and compressed ones (\<^verbatim>\<open>ctail40\<close>), whose items have a one-byte header in front
  of the data, kept in the \<open>pl_off\<close> of a place.
\<close>

unbundle bit_operations_syntax

section \<open>Body items\<close>

definition body40_get_key :: "place \<Rightarrow> nat \<Rightarrow> (place \<Rightarrow> nat \<Rightarrow> u64) option \<Rightarrow> reiser4_key" where
  "body40_get_key place pos trans_func =
     (let key = pl_key place;
          offset = reiser4_key_get_offset key;
          offset = offset + (case trans_func of Some f \<Rightarrow> f place pos | None \<Rightarrow> word_of_nat pos)
      in reiser4_key_set_offset key offset)"

definition body40_maxposs_key :: "place \<Rightarrow> reiser4_key" where
  "body40_maxposs_key place =
     (let key = pl_key place;
          maxkey = key_plug_maximal (kplug key);
          offset = reiser4_key_get_offset maxkey
      in reiser4_key_set_offset key offset)"

text \<open>\<open>units\<close> is the method of the plugin of the place.\<close>

definition body40_maxreal_key :: "(place \<Rightarrow> nat) \<Rightarrow> place \<Rightarrow> (place \<Rightarrow> nat \<Rightarrow> u64) option \<Rightarrow> reiser4_key" where
  "body40_maxreal_key units_fn place trans_func =
     (let units = units_fn place;
          key = pl_key place;
          offset = reiser4_key_get_offset key;
          offset = offset + (case trans_func of Some f \<Rightarrow> f place units | None \<Rightarrow> word_of_nat units)
      in reiser4_key_set_offset key (offset - 1))"

definition body40_mergeable :: "(place \<Rightarrow> reiser4_key) \<Rightarrow> place \<Rightarrow> place \<Rightarrow> bool" where
  "body40_mergeable maxreal_key place1 place2 \<longleftrightarrow>
     (let maxkey = maxreal_key place1;
          offset = reiser4_key_get_offset maxkey;
          maxkey = reiser4_key_set_offset maxkey (offset + 1)
      in reiser4_key_compfull maxkey (pl_key place2) = 0)"

section \<open>Tails\<close>

definition tail40_pos :: "place \<Rightarrow> nat" where
  "tail40_pos place = to_u32 (int (unit (pl_pos place)) + int (pl_off place))"

definition tail40_units :: "place \<Rightarrow> nat" where
  "tail40_units place = to_u32 (int (pl_len place) - int (pl_off place))"

definition tail40_fetch_key :: "place \<Rightarrow> reiser4_key" where
  "tail40_fetch_key place = body40_get_key place (unit (pl_pos place)) None"

definition tail40_maxreal_key :: "place \<Rightarrow> reiser4_key" where
  "tail40_maxreal_key place = body40_maxreal_key tail40_units place None"

definition tail40_maxposs_key :: "place \<Rightarrow> reiser4_key" where
  "tail40_maxposs_key place = body40_maxposs_key place"

definition tail40_size :: "place \<Rightarrow> nat" where
  "tail40_size place = to_u32 (int (pl_len place) - int (pl_off place))"

text \<open>
  The caller's buffer behind \<^verbatim>\<open>specific\<close> is memory from offset 0 on; that it is large enough is the caller's
  business.
\<close>

definition sp_mem :: "specific \<Rightarrow> mem" where
  "sp_mem sp = (case sp of SP_DATA m \<Rightarrow> m | _ \<Rightarrow> (\<lambda>_. 0))"

definition tail40_read_units :: "place \<Rightarrow> 'd trans_hint \<Rightarrow> int \<times> place \<times> 'd trans_hint" where
  "tail40_read_units place hint =
     (let place = (if unit (pl_pos place) = MAX_UINT32 then place_unit place 0 else place);
          count = (if to_u64 (int (tail40_pos place) + int (th_count hint)) > pl_len place
                   then to_u32 (int (pl_len place) - int (tail40_pos place))
                   else to_u32 (int (th_count hint)));
          buf = memcpy (sp_mem (th_specific hint)) 0 (place_mem place) (pl_body place + int (tail40_pos place)) count
      in (int count, place, hint\<lparr>th_specific := SP_DATA buf\<rparr>))"

definition tail40_prep_write :: "place \<Rightarrow> 'd trans_hint \<Rightarrow> int \<times> place \<times> 'd trans_hint" where
  "tail40_prep_write place hint =
     (let hint = hint\<lparr>th_overhead := pl_off place\<rparr>;
          hint =
            (if unit (pl_pos place) = MAX_UINT32
             then hint\<lparr>th_len := to_s32 (int (th_count hint)), th_maxkey := th_offset hint\<rparr>
             else
               (let right = to_u32 (int (pl_len place) - int (tail40_pos place));
                    hint = hint\<lparr>th_len := (if right \<noteq> 0 then 0 else to_s32 (int (th_count hint)))\<rparr>;
                    maxkey = tail40_maxreal_key place;
                    max_offset = reiser4_key_get_offset maxkey + 1
                in hint\<lparr>th_maxkey := reiser4_key_set_offset maxkey max_offset\<rparr>));
          space = node_maxspace (pl_node place);
          room = to_s32 (int space - int (th_overhead hint));
          hint = (if th_len hint > room then hint\<lparr>th_len := room\<rparr> else hint)
      in (0, place, hint))"

definition tail40_write_units :: "place \<Rightarrow> 'd trans_hint \<Rightarrow> int \<times> place \<times> 'd trans_hint" where
  "tail40_write_units place hint =
     (let hint = hint\<lparr>th_bytes := 0\<rparr>;
          count = to_u32 (int (th_count hint));
          place = (if unit (pl_pos place) = MAX_UINT32 then place_unit place 0 else place);
          count = (if to_u32 (int count + int (tail40_pos place)) > pl_len place
                   then to_u32 (int (pl_len place) - int (tail40_pos place)) else count);
          max_offset = reiser4_key_get_offset (th_maxkey hint);
          ins_offset = reiser4_key_get_offset (th_offset hint);
          dst = pl_body place + int (tail40_pos place);
          place =
            (case th_specific hint of
               SP_NULL \<Rightarrow> place_put place (mwrite (place_mem place) dst (replicate count 0))
             | sp \<Rightarrow> place_put place (memcpy (place_mem place) dst (sp_mem sp) 0 count));
          place = (if unit (pl_pos place) = 0 then place\<lparr>pl_key := body40_get_key place 0 None\<rparr> else place);
          hint = (if ins_offset + word_of_nat count > max_offset
                  then hint\<lparr>th_bytes := unat (ins_offset + word_of_nat count - max_offset)\<rparr> else hint)
      in (int count, place_mkdirty place, hint))"

definition tail40_lookup :: "place \<Rightarrow> reiser4_key \<Rightarrow> lookup_bias \<Rightarrow> lookup_res \<times> place" where
  "tail40_lookup place key bias =
     (let units = tail40_units place;
          offset = reiser4_key_get_offset (pl_key place);
          wanted = reiser4_key_get_offset key
      in if wanted \<ge> offset \<and> wanted < offset + word_of_nat units
         then (PRESENT, place_unit place (to_u32 (uint (wanted - offset))))
         else (if bias = FIND_CONV then PRESENT else ABSENT, place_unit place units))"

section \<open>Moving units between tails\<close>

definition tail40_prep_shift :: "place \<Rightarrow> place option \<Rightarrow> shift_hint \<Rightarrow> int \<times> shift_hint" where
  "tail40_prep_shift src_place dst_place hint =
     (let check_point = (item (pl_pos src_place) = item (sh_pos hint) \<and> unit (sh_pos hint) \<noteq> MAX_UINT32);
          space = sh_units_bytes hint;
          overhead = (if sh_create hint then pl_off src_place else 0);
          whole = (\<lambda>space. if to_u32 (int space + int (pl_off src_place)) > pl_len src_place
                          then to_u32 (int (pl_len src_place) - int (pl_off src_place)) else space)
      in if space \<le> overhead then (0, hint\<lparr>sh_units_bytes := 0, sh_units_number := 0\<rparr>)
         else
           (let space = space - overhead;
                (space, hint) =
                  (if sh_flag (sh_control hint) SF_ALLOW_LEFT then
                     (if sh_flag (sh_control hint) SF_UPDATE_POINT \<and> check_point then
                        (let space = (if space > unit (sh_pos hint) then unit (sh_pos hint) else space);
                             left = unit (sh_pos hint) - space;
                             hint = hint\<lparr>sh_pos := (sh_pos hint)\<lparr>unit := left\<rparr>\<rparr>
                         in (space,
                             if left = 0 \<and> sh_flag (sh_control hint) SF_MOVE_POINT
                             then hint\<lparr>sh_result := sh_result hint OR SF_MOVE_POINT,
                                    sh_pos := (sh_pos hint)\<lparr>unit := to_u32 (int space +
                                      (case dst_place of Some d \<Rightarrow> int (pl_len d) - int (pl_off d) | None \<Rightarrow> 0))\<rparr>\<rparr>
                             else hint))
                      else (whole space, hint))
                   else
                     (if sh_flag (sh_control hint) SF_UPDATE_POINT \<and> check_point then
                        (if to_u32 (int (unit (sh_pos hint)) + int (pl_off src_place)) < pl_len src_place then
                           (let right = to_u32 (int (pl_len src_place) - int (unit (sh_pos hint)) - int (pl_off src_place));
                                space = (if space > right then right else space)
                            in (space,
                                if space = right \<and> sh_flag (sh_control hint) SF_MOVE_POINT
                                then hint\<lparr>sh_result := sh_result hint OR SF_MOVE_POINT,
                                       sh_pos := (sh_pos hint)\<lparr>unit := 0\<rparr>\<rparr>
                                else hint))
                         else
                           (0, if sh_flag (sh_control hint) SF_MOVE_POINT
                               then hint\<lparr>sh_result := sh_result hint OR SF_MOVE_POINT,
                                      sh_pos := (sh_pos hint)\<lparr>unit := 0\<rparr>\<rparr>
                               else hint))
                      else (whole space, hint)))
            in (0, hint\<lparr>sh_units_bytes := to_u32 (int space + int overhead), sh_units_number := space\<rparr>)))"

definition tail40_copy :: "place \<Rightarrow> nat \<Rightarrow> place \<Rightarrow> nat \<Rightarrow> nat \<Rightarrow> place" where
  "tail40_copy dst_place dst_pos src_place src_pos count =
     (if count > 0 then
        place_mkdirty (place_put dst_place
          (memcpy (place_mem dst_place) (pl_body dst_place + int dst_pos + int (pl_off dst_place))
             (place_mem src_place) (pl_body src_place + int src_pos + int (pl_off src_place)) count))
      else dst_place)"

definition tail40_expand :: "place \<Rightarrow> nat \<Rightarrow> nat \<Rightarrow> place" where
  "tail40_expand place pos count =
     (let size = to_u32 (int (pl_len place) - int pos - int (pl_off place) - int count)
      in if size \<noteq> 0 \<and> count \<noteq> 0 then
           place_mkdirty (place_put place
             (memmove (place_mem place) (pl_body place + int (pl_off place) + int pos + int count)
                (pl_body place + int (pl_off place) + int pos) size))
         else place)"

definition tail40_shrink :: "place \<Rightarrow> nat \<Rightarrow> nat \<Rightarrow> nat \<Rightarrow> place" where
  "tail40_shrink place pos count len =
     (let size = to_u32 (int (pl_len place) - int pos - int (pl_off place) - int count)
      in if size \<noteq> 0 \<and> count \<noteq> 0 then
           place_mkdirty (place_put place
             (memmove (place_mem place) (pl_body place + int pos + int (pl_off place))
                (pl_body place + int pos + int (pl_off place) + int count) size))
         else place)"

definition tail40_shift_units :: "place \<Rightarrow> place \<Rightarrow> shift_hint \<Rightarrow> int \<times> place \<times> place \<times> shift_hint" where
  "tail40_shift_units src_place dst_place hint =
     (let hint = (if sh_create hint then hint\<lparr>sh_units_bytes := to_u32 (int (sh_units_bytes hint) - int (pl_off src_place))\<rparr> else hint);
          number = sh_units_number hint; bytes = sh_units_bytes hint
      in if sh_flag (sh_control hint) SF_ALLOW_LEFT then
           (let pos = to_u32 (int (pl_len dst_place) - int (pl_off dst_place) - int number);
                dst_place = tail40_expand dst_place pos number;
                dst_place = tail40_copy dst_place pos src_place 0 bytes;
                src_place = tail40_shrink src_place 0 number bytes;
                offset = reiser4_key_get_offset (pl_key src_place);
                src_place = src_place\<lparr>pl_key := reiser4_key_set_offset (pl_key src_place) (offset + word_of_nat bytes)\<rparr>
            in (0, src_place, dst_place, hint))
         else
           (let dst_place = tail40_expand dst_place 0 number;
                pos = to_u32 (int (pl_len src_place) - int (pl_off src_place) - int number);
                dst_place = tail40_copy dst_place 0 src_place pos bytes;
                src_place = tail40_shrink src_place pos number bytes;
                offset = reiser4_key_get_offset (pl_key dst_place);
                dst_place = dst_place\<lparr>pl_key := reiser4_key_set_offset (pl_key dst_place) (offset - word_of_nat bytes)\<rparr>
            in (0, src_place, dst_place, hint)))"

definition tail40_trunc_units :: "place \<Rightarrow> 'd trans_hint \<Rightarrow> int \<times> place \<times> 'd trans_hint" where
  "tail40_trunc_units place hint =
     (let place = (if unit (pl_pos place) = MAX_UINT32 then place_unit place 0 else place);
          pos = tail40_pos place;
          count = (if to_u64 (int pos + int (th_count hint)) > pl_len place
                   then to_u32 (int (pl_len place) - int pos) else th_count hint);
          place = (if to_u64 (int pos + int count) < pl_len place
                   then place_put place (memmove (place_mem place) (pl_body place + int pos)
                          (pl_body place + int pos + int count) (to_u64 (int (pl_len place) - (int pos + int count))))
                   else place);
          place = (if unit (pl_pos place) = 0 \<and> to_u64 (int pos + int count) < pl_len place
                   then place\<lparr>pl_key := body40_get_key place (to_u32 (int (unit (pl_pos place)) + int count)) None\<rparr>
                   else place);
          hint = hint\<lparr>th_overhead := (if count = to_u32 (int (pl_len place) - int (pl_off place)) then pl_off place else 0),
                      th_len := to_s32 (int count), th_bytes := count\<rparr>
      in (int count, place, hint))"

section \<open>Repair\<close>

text \<open>The results of the checks, as \<^verbatim>\<open>errno_t\<close>: \<^verbatim>\<open>RE_FATAL\<close> and \<^verbatim>\<open>RE_FIXABLE\<close> are bits above the error numbers.\<close>

abbreviation (input) RE_FIXABLE :: int where "RE_FIXABLE \<equiv> 0x100000000"
abbreviation (input) RE_FATAL :: int where "RE_FATAL \<equiv> 0x200000000"

definition tail40_check_struct :: "place \<Rightarrow> int" where
  "tail40_check_struct place = (if pl_len place \<le> pl_off place then RE_FATAL else 0)"

text \<open>The source of a raw insertion is the place \<^verbatim>\<open>specific\<close> points to.\<close>

definition sp_place :: "specific \<Rightarrow> place \<Rightarrow> place" where
  "sp_place sp d = (case sp of SP_PLACE p \<Rightarrow> p | _ \<Rightarrow> d)"

definition tail40_prep_insert_raw :: "place \<Rightarrow> 'd trans_hint \<Rightarrow> int \<times> place \<times> 'd trans_hint" where
  "tail40_prep_insert_raw place hint =
     (let src = sp_place (th_specific hint) place;
          u = unit (pl_pos place);
          count =
            (if tail40_pos place = pl_len place \<or> u = MAX_UINT32
             then to_u32 (int (pl_len src) - int (tail40_pos src))
             else
               (let doffset = reiser4_key_get_offset (pl_key place);
                    start = reiser4_key_get_offset (th_offset hint)
                in if start < doffset then unat (doffset - start) else 0))
      in (0, place, hint\<lparr>th_count := count, th_overhead := (if u = MAX_UINT32 then pl_off place else 0),
                         th_bytes := 0, th_len := to_s32 (int count)\<rparr>))"

definition tail40_insert_raw :: "place \<Rightarrow> 'd trans_hint \<Rightarrow> int \<times> place \<times> 'd trans_hint" where
  "tail40_insert_raw place hint =
     (let src = sp_place (th_specific hint) place;
          u = unit (pl_pos place);
          pos = (if u = MAX_UINT32 then 0 else u);
          offset = reiser4_key_get_offset (th_offset hint);
          (place, offset) =
            (if th_count hint \<noteq> 0 then
               (let place = (if u \<noteq> MAX_UINT32 then tail40_expand place u (to_u32 (th_len hint)) else place);
                    place = tail40_copy place pos src (unit (pl_pos src)) (to_u32 (int (th_count hint)))
                in (place_mkdirty place, offset + word_of_nat (th_count hint)))
             else (place, offset + word_of_nat (to_u32 (int (tail40_units place) - int pos))));
          hint = hint\<lparr>th_maxkey := reiser4_key_set_offset (th_offset hint) offset\<rparr>;
          place = (if pos = 0 \<and> th_count hint \<noteq> 0 then place\<lparr>pl_key := th_offset hint\<rparr> else place)
      in (0, place, hint))"

section \<open>The plain tail and the compressed tail plugins\<close>

definition plain40_mergeable :: "place \<Rightarrow> place \<Rightarrow> bool" where
  "plain40_mergeable place1 place2 = body40_mergeable tail40_maxreal_key place1 place2"

definition plain40_prep_write :: "place \<Rightarrow> 'd trans_hint \<Rightarrow> int \<times> place \<times> 'd trans_hint" where
  "plain40_prep_write place hint = tail40_prep_write (place\<lparr>pl_off := 0\<rparr>) hint"

definition plain40_prep_shift :: "place \<Rightarrow> place option \<Rightarrow> shift_hint \<Rightarrow> int \<times> place option \<times> shift_hint" where
  "plain40_prep_shift src_place dst_place hint =
     (let dst_place = map_option (\<lambda>d. d\<lparr>pl_off := 0\<rparr>) dst_place;
          (res, hint) = tail40_prep_shift src_place dst_place hint
      in (res, dst_place, hint))"

definition plain40_prep_insert_raw :: "place \<Rightarrow> 'd trans_hint \<Rightarrow> int \<times> place \<times> 'd trans_hint" where
  "plain40_prep_insert_raw place hint = tail40_prep_insert_raw (place\<lparr>pl_off := 0\<rparr>) hint"

abbreviation (input) CTAIL40_SIZE :: nat where "CTAIL40_SIZE \<equiv> 1"

definition ct40_get_shift :: "place \<Rightarrow> nat" where
  "ct40_get_shift place = unat (place_mem place (pl_body place))"

definition ctail40_init :: "place \<Rightarrow> place" where
  "ctail40_init place = place\<lparr>pl_off := CTAIL40_SIZE\<rparr>"

text \<open>\<^verbatim>\<open>1 << shift\<close> is a 32-bit signed shift, used here for shifts below 31; the mask is widened to 64 bits.\<close>

definition ctail40_mergeable :: "place \<Rightarrow> place \<Rightarrow> bool" where
  "ctail40_mergeable place1 place2 \<longleftrightarrow>
     (let shift = ct40_get_shift place1;
          off1 = reiser4_key_get_offset (pl_key place1);
          off2 = reiser4_key_get_offset (pl_key place2);
          shift = (word_of_int (to_s32 (2 ^ shift) - 1) :: u64)
      in if off1 AND NOT shift \<noteq> off2 AND NOT shift then False
         else body40_mergeable tail40_maxreal_key place1 place2)"

definition ctail40_prep_shift :: "place \<Rightarrow> place option \<Rightarrow> shift_hint \<Rightarrow> int \<times> place option \<times> shift_hint" where
  "ctail40_prep_shift src_place dst_place hint =
     (let dst_place = map_option (\<lambda>d. d\<lparr>pl_off := CTAIL40_SIZE\<rparr>) dst_place;
          (res, hint) = tail40_prep_shift src_place dst_place hint
      in (res, dst_place, hint))"

definition ctail40_shift_units :: "place \<Rightarrow> place \<Rightarrow> shift_hint \<Rightarrow> int \<times> place \<times> place \<times> shift_hint" where
  "ctail40_shift_units src_place dst_place hint =
     (let dst_place = (if sh_create hint
                       then place_put dst_place (memcpy (place_mem dst_place) (pl_body dst_place)
                              (place_mem src_place) (pl_body src_place) (pl_off src_place))
                       else dst_place)
      in tail40_shift_units src_place dst_place hint)"

definition ctail40_prep_write :: "place \<Rightarrow> 'd trans_hint \<Rightarrow> int \<times> place \<times> 'd trans_hint" where
  "ctail40_prep_write place hint = tail40_prep_write (place\<lparr>pl_off := CTAIL40_SIZE\<rparr>) hint"

definition ctail40_fetch_units :: "place \<Rightarrow> 'd trans_hint \<Rightarrow> int \<times> place \<times> 'd trans_hint" where
  "ctail40_fetch_units place hint = (1, place, hint\<lparr>th_specific := SP_CTAIL (ct40_get_shift place)\<rparr>)"

definition ctail40_update_units :: "place \<Rightarrow> 'd trans_hint \<Rightarrow> int \<times> place \<times> 'd trans_hint" where
  "ctail40_update_units place hint =
     (let shift = (case th_specific hint of SP_CTAIL s \<Rightarrow> s | _ \<Rightarrow> 0)
      in (1, place_mkdirty (place_put place (mwrite (place_mem place) (pl_body place) [word_of_nat shift])), hint))"

definition ctail40_merge :: "place \<Rightarrow> place \<Rightarrow> int \<times> place" where
  "ctail40_merge left right =
     (int CTAIL40_SIZE,
      place_put right (memmove (place_mem right) (pl_body right) (pl_body right + int CTAIL40_SIZE)
        (to_u64 (int (pl_len right) - int CTAIL40_SIZE))))"

definition ctail40_prep_insert_raw :: "place \<Rightarrow> 'd trans_hint \<Rightarrow> int \<times> place \<times> 'd trans_hint" where
  "ctail40_prep_insert_raw place hint = tail40_prep_insert_raw (place\<lparr>pl_off := CTAIL40_SIZE\<rparr>) hint"

abbreviation (input) ITEM_PLAIN40_ID :: nat where "ITEM_PLAIN40_ID \<equiv> 6"
abbreviation (input) ITEM_CTAIL40_ID :: nat where "ITEM_CTAIL40_ID \<equiv> 7"
abbreviation (input) TAIL_ITEM :: nat where "TAIL_ITEM \<equiv> 3"
abbreviation (input) CTAIL_ITEM :: nat where "CTAIL_ITEM \<equiv> 6"

definition plain40_plug :: "'d item_plug" where
  "plain40_plug =
     \<lparr>ip_id = ITEM_PLAIN40_ID, ip_group = TAIL_ITEM, ip_init = None, ip_units = Some tail40_units,
      ip_lookup = Some tail40_lookup, ip_fetch_key = Some tail40_fetch_key, ip_maxposs_key = Some tail40_maxposs_key,
      ip_maxreal_key = Some tail40_maxreal_key, ip_mergeable = Some plain40_mergeable, ip_merge = None,
      ip_prep_shift = Some plain40_prep_shift, ip_shift_units = Some tail40_shift_units,
      ip_insert_units = None, ip_write_units = Some tail40_write_units, ip_remove_units = None,
      ip_update_units = None, ip_trunc_units = Some tail40_trunc_units, ip_read_units = Some tail40_read_units,
      ip_fetch_units = None, ip_prep_write = Some plain40_prep_write, ip_prep_insert = None,
      ip_insert_raw = Some tail40_insert_raw, ip_layout = None, ip_check_struct = Some (\<lambda>place hint. (tail40_check_struct place, place, hint))\<rparr>"

definition ctail40_plug :: "'d item_plug" where
  "ctail40_plug =
     \<lparr>ip_id = ITEM_CTAIL40_ID, ip_group = CTAIL_ITEM, ip_init = Some ctail40_init, ip_units = Some tail40_units,
      ip_lookup = Some tail40_lookup, ip_fetch_key = Some tail40_fetch_key, ip_maxposs_key = Some tail40_maxposs_key,
      ip_maxreal_key = Some tail40_maxreal_key, ip_mergeable = Some ctail40_mergeable, ip_merge = Some ctail40_merge,
      ip_prep_shift = Some ctail40_prep_shift, ip_shift_units = Some ctail40_shift_units,
      ip_insert_units = None, ip_write_units = Some tail40_write_units, ip_remove_units = None,
      ip_update_units = Some ctail40_update_units, ip_trunc_units = Some tail40_trunc_units, ip_read_units = Some tail40_read_units,
      ip_fetch_units = Some ctail40_fetch_units, ip_prep_write = Some ctail40_prep_write, ip_prep_insert = None,
      ip_insert_raw = Some tail40_insert_raw, ip_layout = None, ip_check_struct = Some (\<lambda>place hint. (tail40_check_struct place, place, hint))\<rparr>"

end
