(* ===== verification/Node40Ops.thy ===== *)
theory Node40Ops
  imports TailItems
begin

text \<open>
  The operations of \<^verbatim>\<open>node40.c\<close> that call item plugins: fetching an item, inserting, writing, truncating,
  removing and merging, and the balancing operation that shifts items and units to a neighbour node.
  The plugins are a table of methods.  A call through a method that an item plugin does not implement
  is the result \<open>None\<close>; error codes are negative numbers, as in the code.
\<close>

unbundle bit_operations_syntax

abbreviation (input) whole_item :: "nat \<Rightarrow> pos" where
  "whole_item i \<equiv> \<lparr>item = i, unit = MAX_UINT32\<rparr>"

section \<open>Fetching items\<close>

definition node40_fetch :: "'d item_table \<Rightarrow> node40 \<Rightarrow> pos \<Rightarrow> int \<times> place" where
  "node40_fetch tab entity pos =
     (let ih = node40_ih_at entity (item pos);
          pid = ih_get_pid (nd_mem entity) ih (nd_keypol entity);
          place = \<lparr>pl_pos = pos, pl_node = entity, pl_body = node40_ib_by_ih entity ih,
                   pl_len = node40_len_by_ih entity ih (item pos) (nh_get_num_items entity),
                   pl_off = 0,
                   pl_key = node40_get_key_by_ih entity ih (key_plug_minimal (nd_kplug entity)),
                   pl_plug = pid\<rparr>
      in case tab pid of
           None \<Rightarrow> (- EINVAL, place)
         | Some plug \<Rightarrow> (0, case ip_init plug of Some f \<Rightarrow> f place | None \<Rightarrow> place))"

definition node40_put_pid :: "node40 \<Rightarrow> int \<Rightarrow> nat \<Rightarrow> node40" where
  "node40_put_pid entity ih pid = entity\<lparr>nd_mem := ih_set_pid (nd_mem entity) ih (int pid) (nd_keypol entity)\<rparr>"

section \<open>Inserting and writing\<close>

type_synonym 'd modify_func = "place \<Rightarrow> 'd trans_hint \<Rightarrow> int \<times> place \<times> 'd trans_hint"

definition node40_modify ::
  "'d item_table \<Rightarrow> node40 \<Rightarrow> pos \<Rightarrow> 'd trans_hint \<Rightarrow> 'd modify_func option \<Rightarrow> (int \<times> node40 \<times> 'd trans_hint) option" where
  "node40_modify tab entity pos hint modify_func =
     (let len = to_u32 (th_len hint + int (th_overhead hint));
          (res, entity) = node40_expand entity pos len 1
      in if res \<noteq> 0 then Some (res, entity, hint)
         else
           (let ih = node40_ih_at entity (item pos);
                entity = (if unit pos = MAX_UINT32
                          then node40_put_key (node40_put_pid entity ih (th_plug hint)) ih (th_offset hint)
                          else entity);
                (res, place) = node40_fetch tab entity pos
            in if res \<noteq> 0 then Some (- EINVAL, entity, hint)
               else case modify_func of
                      None \<Rightarrow> None
                    | Some f \<Rightarrow>
                        (let (written, place, hint) = f place hint; entity = pl_node place
                         in if written < 0 then Some (written, entity, hint)
                            else Some (written,
                              if unit pos = 0 then node40_put_key entity ih (pl_key place) else entity, hint))))"

definition node40_insert ::
  "'d item_table \<Rightarrow> node40 \<Rightarrow> pos \<Rightarrow> 'd trans_hint \<Rightarrow> (int \<times> node40 \<times> 'd trans_hint) option" where
  "node40_insert tab entity pos hint =
     (case tab (th_plug hint) of None \<Rightarrow> None | Some plug \<Rightarrow> node40_modify tab entity pos hint (ip_insert_units plug))"

definition node40_write ::
  "'d item_table \<Rightarrow> node40 \<Rightarrow> pos \<Rightarrow> 'd trans_hint \<Rightarrow> (int \<times> node40 \<times> 'd trans_hint) option" where
  "node40_write tab entity pos hint =
     (case tab (th_plug hint) of None \<Rightarrow> None | Some plug \<Rightarrow> node40_modify tab entity pos hint (ip_write_units plug))"

definition node40_insert_raw ::
  "'d item_table \<Rightarrow> node40 \<Rightarrow> pos \<Rightarrow> 'd trans_hint \<Rightarrow> (int \<times> node40 \<times> 'd trans_hint) option" where
  "node40_insert_raw tab entity pos hint =
     (case tab (th_plug hint) of None \<Rightarrow> None | Some plug \<Rightarrow> node40_modify tab entity pos hint (ip_insert_raw plug))"

section \<open>Truncating and removing\<close>

definition node40_trunc ::
  "'d item_table \<Rightarrow> node40 \<Rightarrow> pos \<Rightarrow> 'd trans_hint \<Rightarrow> (int \<times> node40 \<times> 'd trans_hint) option" where
  "node40_trunc tab entity pos hint =
     (let (res, place) = node40_fetch tab entity pos
      in if res \<noteq> 0 then Some (- EINVAL, entity, hint)
         else case Option.bind (tab (pl_plug place)) ip_trunc_units of
                None \<Rightarrow> None
              | Some f \<Rightarrow>
                  (let (count, place, hint) = f place hint; entity = pl_node place
                   in if count < 0 then Some (count, entity, hint)
                      else
                        (let len = to_u32 (int (th_overhead hint) + th_len hint)
                         in if len > 0 then
                              (let number = to_u32 count;
                                   place = place_unit place 0;
                                   (number, place, len) =
                                     (if len \<ge> pl_len place then (1, place_unit place MAX_UINT32, pl_len place)
                                      else (number, place, len));
                                   (res, entity) = node40_shrink entity (pl_pos place) len number
                               in if res \<noteq> 0 then Some (res, entity, hint)
                                  else Some (count,
                                    if len < pl_len place
                                    then node40_put_key entity (node40_ih_at entity (item (pl_pos place))) (pl_key place)
                                    else entity, hint))
                            else Some (count,
                              node40_put_key entity (node40_ih_at entity (item (pl_pos place))) (pl_key place), hint))))"

text \<open>The loop over the removed items that tells the hook about the blocks they own.\<close>

fun node40_remove_layout ::
  "'d item_table \<Rightarrow> node40 \<Rightarrow> (nat \<Rightarrow> nat \<Rightarrow> 'd \<Rightarrow> int \<times> 'd) \<Rightarrow> nat \<Rightarrow> nat \<Rightarrow> 'd \<Rightarrow> int \<times> 'd" where
  "node40_remove_layout tab entity region_func itm 0 data = (0, data)"
| "node40_remove_layout tab entity region_func itm (Suc n) data =
     (let (res, place) = node40_fetch tab entity (whole_item itm)
      in if res \<noteq> 0 then (- EINVAL, data)
         else case tab (pl_plug place) of
                None \<Rightarrow> (- EINVAL, data)
              | Some plug \<Rightarrow>
                  if ip_group plug = PTR_ITEM then node40_remove_layout tab entity region_func (itm + 1) n data
                  else case ip_layout plug of
                         None \<Rightarrow> node40_remove_layout tab entity region_func (itm + 1) n data
                       | Some f \<Rightarrow> node40_remove_layout tab entity region_func (itm + 1) n (snd (f place region_func data)))"

definition node40_remove ::
  "'d item_table \<Rightarrow> node40 \<Rightarrow> pos \<Rightarrow> 'd trans_hint \<Rightarrow> (int \<times> node40 \<times> pos \<times> 'd trans_hint) option" where
  "node40_remove tab entity pos hint =
     (if unit pos = MAX_UINT32 then
        (let count = to_u32 (int (th_count hint));
             len = node40_size entity pos count;
             (res, data) =
               (case th_region_func hint of
                  None \<Rightarrow> (0, th_data hint)
                | Some rf \<Rightarrow> node40_remove_layout tab entity rf (item pos)
                    (to_u32 (int (item pos) + int count) - item pos) (th_data hint));
             hint = hint\<lparr>th_data := data\<rparr>
         in if res \<noteq> 0 then Some (res, entity, pos, hint)
            else (let (res, entity) = node40_shrink entity pos len count in Some (res, entity, pos, hint)))
      else
        (let (res, place) = node40_fetch tab entity pos
         in if res \<noteq> 0 then Some (- EINVAL, entity, pos, hint)
            else case tab (pl_plug place) of
                   None \<Rightarrow> None
                 | Some plug \<Rightarrow>
                     (case ip_units plug of
                        None \<Rightarrow> None
                      | Some units_fn \<Rightarrow>
                          (let units = units_fn place;
                               (res, place, hint) =
                                 (case ip_remove_units plug of None \<Rightarrow> (0, place, hint) | Some f \<Rightarrow> f place hint);
                               entity = pl_node place
                           in if res \<noteq> 0 then Some (res, entity, pos, hint)
                              else
                                (let len = to_u32 (th_len hint + int (th_overhead hint));
                                     (len, pos, entity) =
                                       (if len \<ge> pl_len place \<or> units = th_count hint
                                        then (pl_len place, pos\<lparr>unit := MAX_UINT32\<rparr>, entity)
                                        else (len, pos,
                                          if unit pos = 0
                                          then node40_put_key entity (node40_ih_at entity (item pos)) (pl_key place)
                                          else entity));
                                     (res, entity) = node40_shrink entity pos len 1
                                 in Some (res, entity, pos, hint))))))"

section \<open>Merging two items of a node\<close>

definition node40_merge :: "'d item_table \<Rightarrow> node40 \<Rightarrow> pos \<Rightarrow> pos \<Rightarrow> int \<times> node40" where
  "node40_merge tab entity left_pos right_pos =
     (let pol = nd_keypol entity;
          items = nh_get_num_items entity;
          delta = to_s32 (int (item left_pos) - int (item right_pos))
      in if \<bar>delta\<bar> > 1 then (- EINVAL, entity)
         else
           (let (lres, left_place) = node40_fetch tab entity left_pos;
                (rres, right_place) = node40_fetch tab entity right_pos
            in if lres \<noteq> 0 \<or> rres \<noteq> 0 then (- EINVAL, entity)
               else
                 (let (res, entity) =
                    (case Option.bind (tab (pl_plug left_place)) ip_merge of
                       None \<Rightarrow> (0, entity)
                     | Some f \<Rightarrow>
                         (let (space, right_place) = f left_place right_place; entity = pl_node right_place
                          in if space \<noteq> 0 then node40_shrink entity (right_pos\<lparr>unit := 0\<rparr>) (to_u32 space) 1
                             else (0, entity)))
                  in if res \<noteq> 0 then (res, entity)
                     else
                       (let left = node40_ih_at entity (item left_pos);
                            right = node40_ih_at entity (item right_pos);
                            entity =
                              (if item right_pos < to_u32 (int items - 1) then
                                 (let delta = to_s32 ((int items - int (item right_pos) - 1) * int (ih_size pol))
                                  in entity\<lparr>nd_mem := memmove (nd_mem entity) (left - delta) (right - delta) (nat delta)\<rparr>)
                               else entity);
                            entity = nh_dec_num_items entity 1;
                            entity = nh_inc_free_space entity (int (ih_size pol))
                        in (0, node40_mkdirty entity)))))"

section \<open>Shifting to a neighbour node\<close>

definition node40_splittable :: "'d item_plug \<Rightarrow> place \<Rightarrow> bool" where
  "node40_splittable plug place \<longleftrightarrow>
     ip_shift_units plug \<noteq> None \<and> ip_prep_shift plug \<noteq> None \<and>
     (case ip_units plug of None \<Rightarrow> False | Some f \<Rightarrow> f place > 0)"

definition node40_border :: "'d item_table \<Rightarrow> node40 \<Rightarrow> bool \<Rightarrow> int \<times> place option" where
  "node40_border tab entity left_border =
     (let items = nh_get_num_items entity
      in if items = 0 then (- EINVAL, None)
         else (let (res, place) = node40_fetch tab entity (whole_item (if left_border then 0 else items - 1))
               in (res, Some place)))"

text \<open>
  Whole items: the estimate.  The loop runs over the items of the source from the side they leave it;
  \<open>cur\<close> is the header of the current one.  Its results are the error, the space left in the destination
  and the hint.
\<close>

fun node40_predict_loop ::
  "'d item_table \<Rightarrow> node40 \<Rightarrow> nat \<Rightarrow> u32 \<Rightarrow> int \<Rightarrow> int \<Rightarrow> nat \<Rightarrow> nat \<Rightarrow> nat \<Rightarrow> shift_hint \<Rightarrow> int \<times> nat \<times> shift_hint" where
  "node40_predict_loop tab src overhead flags endp cur space dst_items 0 hint = (0, space, hint)"
| "node40_predict_loop tab src overhead flags endp cur space dst_items (Suc n) hint =
     (let src_items = Suc n; pol = nd_keypol src; m = nd_mem src;
          right = int (ih_size pol);
          len = (if cur = endp then to_u32 (int (nh_get_free_space_start src) - int (ih_get_offset m cur pol))
                 else to_u32 (int (ih_get_offset m (cur - right) pol) - int (ih_get_offset m cur pol)));
          next_step = (\<lambda>hint. node40_predict_loop tab src overhead flags endp
              (cur + (if sh_flag flags SF_ALLOW_LEFT then - right else right))
              (to_u32 (int space - int (to_u32 (int len + int overhead)))) (dst_items + 1) n
              (hint\<lparr>sh_items_number := sh_items_number hint + 1, sh_items_bytes := sh_items_bytes hint + len\<rparr>));
          p = sh_pos hint;
          moved = (\<lambda>i. hint\<lparr>sh_result := sh_result hint OR SF_MOVE_POINT, sh_pos := p\<lparr>item := i\<rparr>\<rparr>)
      in if sh_flag (sh_result hint) SF_MOVE_POINT then (0, space, hint)
         else if \<not> sh_flag flags SF_MOVE_POINT \<and> sh_flag flags SF_ALLOW_RIGHT \<and> item p \<ge> src_items then (0, space, hint)
         else if space < to_u32 (int len + int overhead) then (0, space, hint)
         else if \<not> sh_flag flags SF_UPDATE_POINT then next_step hint
         else if sh_flag flags SF_ALLOW_LEFT then
           (if item p = 0 then
              (let (res, place) = node40_fetch tab src (whole_item 0)
               in if res \<noteq> 0 then (- EINVAL, space, hint)
                  else case Option.bind (tab (pl_plug place)) ip_units of
                         None \<Rightarrow> (- EINVAL, space, hint)
                       | Some f \<Rightarrow>
                           if sh_flag flags SF_MOVE_POINT \<and>
                              (unit p = MAX_UINT32 \<or> unit p \<ge> to_u32 (int (f place) - 1))
                           then next_step (moved dst_items)
                           else (0, space, hint))
            else next_step (hint\<lparr>sh_pos := p\<lparr>item := item p - 1\<rparr>\<rparr>))
         else if item p \<ge> src_items - 1 then
           (if item p = src_items - 1 then
              (if sh_flag flags SF_MOVE_POINT \<and> (unit p = MAX_UINT32 \<or> unit p = 0) then next_step (moved 0)
               else if unit p \<noteq> MAX_UINT32 then (0, space, hint)
               else next_step hint)
            else (0, space, if sh_flag flags SF_MOVE_POINT then moved 0 else hint))
         else next_step hint)"

definition node40_predict :: "'d item_table \<Rightarrow> node40 \<Rightarrow> node40 \<Rightarrow> shift_hint \<Rightarrow> int \<times> shift_hint" where
  "node40_predict tab src_entity dst_entity hint =
     (let dst_items = nh_get_num_items dst_entity; src_items = nh_get_num_items src_entity
      in if src_items = 0 then (0, hint)
         else
           (let endp = node40_ih_at src_entity (src_items - 1);
                cur = (if sh_flag (sh_control hint) SF_ALLOW_LEFT then node40_ih_at src_entity 0 else endp);
                (res, space, hint) = node40_predict_loop tab src_entity (node40_overhead dst_entity)
                  (sh_control hint) endp cur (node40_space dst_entity) dst_items src_items hint
            in if res \<noteq> 0 then (res, hint) else (0, hint\<lparr>sh_units_bytes := space\<rparr>)))"

definition node40_move ::
  "'d item_table \<Rightarrow> node40 \<Rightarrow> node40 \<Rightarrow> shift_hint \<Rightarrow> int \<times> node40 \<times> node40 \<times> shift_hint" where
  "node40_move tab src_entity dst_entity hint =
     (let dst_items = nh_get_num_items dst_entity; src_items = nh_get_num_items src_entity;
          (res, hint) = node40_predict tab src_entity dst_entity hint
      in if res \<noteq> 0 then (res, src_entity, dst_entity, hint)
         else if sh_items_number hint = 0 \<or> sh_items_bytes hint = 0 then (0, src_entity, dst_entity, hint)
         else
           (let (src_pos, dst_pos) =
                  (if sh_flag (sh_control hint) SF_ALLOW_LEFT then (whole_item 0, whole_item dst_items)
                   else (whole_item (to_u32 (int src_items - int (sh_items_number hint))), whole_item 0));
                (res, dst_entity) = node40_expand dst_entity dst_pos (sh_items_bytes hint) (sh_items_number hint)
            in if res \<noteq> 0 then (res, src_entity, dst_entity, hint)
               else
                 (let (res, dst_entity) = node40_copy dst_entity dst_pos src_entity src_pos (sh_items_number hint)
                  in if res \<noteq> 0 then (res, src_entity, dst_entity, hint)
                     else
                       (let hint = hint\<lparr>sh_update := True\<rparr>;
                            (res, src_entity) = node40_shrink src_entity src_pos (sh_items_bytes hint) (sh_items_number hint)
                        in (res, src_entity, dst_entity, hint)))))"

text \<open>
  Merging the border items: the part after the border items are known.  \<open>create\<close> says whether a new item
  is made in the destination; the estimate is done by the plugin of the source item.
\<close>

definition node40_unite_shift ::
  "'d item_table \<Rightarrow> 'd item_plug \<Rightarrow> node40 \<Rightarrow> node40 \<Rightarrow> bool \<Rightarrow> place \<Rightarrow> pos \<Rightarrow> shift_hint \<Rightarrow>
   (int \<times> node40 \<times> node40 \<times> shift_hint) option" where
  "node40_unite_shift tab plug src_entity dst_entity left_shift src_place pos hint =
     (let pol = nd_keypol dst_entity;
          (res, dst_entity) = node40_expand dst_entity pos (sh_units_bytes hint) 1
      in if res \<noteq> 0 then Some (- EINVAL, src_entity, dst_entity, hint)
         else
           (let src_ih = node40_ih_at src_entity (item (pl_pos src_place));
                dst_ih = node40_ih_at dst_entity (item pos);
                dst_entity =
                  (if sh_create hint then
                     (let e = node40_put_key (node40_put_pid dst_entity dst_ih (pl_plug src_place)) dst_ih (pl_key src_place)
                      in e\<lparr>nd_mem := ih_set_flags (nd_mem e) dst_ih (int (ih_get_flags (nd_mem src_entity) src_ih pol)) pol\<rparr>)
                   else dst_entity);
                (res, dst_place) = node40_fetch tab dst_entity pos
            in if res \<noteq> 0 then Some (- EINVAL, src_entity, dst_entity, hint)
               else case (ip_maxreal_key plug, ip_units plug, ip_shift_units plug) of
                 (maxreal, Some units_fn, Some shift_fn) \<Rightarrow>
                   if sh_create hint \<and> maxreal = None then None
                   else
                     (let dst_place =
                            (case maxreal of
                               Some f \<Rightarrow>
                                 if sh_create hint then
                                   (let key = f src_place
                                    in dst_place\<lparr>pl_key := reiser4_key_set_offset key (reiser4_key_get_offset key + 1)\<rparr>)
                                 else dst_place
                             | None \<Rightarrow> dst_place);
                          units = units_fn src_place;
                          (res, src_place, dst_place, hint) = shift_fn src_place dst_place hint;
                          src_entity = pl_node src_place; dst_entity = pl_node dst_place
                      in if res \<noteq> 0 then Some (- EINVAL, src_entity, dst_entity, hint)
                         else
                           (let hint = hint\<lparr>sh_update := True\<rparr>;
                                itm = item (pl_pos src_place);
                                remove = (sh_units_number hint = units);
                                (src_entity, dst_entity) =
                                  (if left_shift then
                                     (if \<not> remove
                                      then node40_put_key src_entity (node40_ih_at src_entity itm) (pl_key src_place)
                                      else src_entity, dst_entity)
                                   else (src_entity,
                                     node40_put_key dst_entity (node40_ih_at dst_entity (item (pl_pos dst_place))) (pl_key dst_place)));
                                (len, u, hint) =
                                  (if remove then
                                     (let hint = (if itm = item (sh_pos hint)
                                                  then hint\<lparr>sh_pos := (sh_pos hint)\<lparr>unit := MAX_UINT32\<rparr>\<rparr> else hint);
                                          hint = (if \<not> sh_flag (sh_result hint) SF_MOVE_POINT \<and> itm < item (sh_pos hint)
                                                  then hint\<lparr>sh_pos := (sh_pos hint)\<lparr>item := item (sh_pos hint) - 1\<rparr>\<rparr> else hint)
                                      in (pl_len src_place, MAX_UINT32, hint))
                                   else (sh_units_bytes hint, 0, hint));
                                (res, src_entity) = node40_shrink src_entity \<lparr>item = itm, unit = u\<rparr> len 1
                            in Some (res, src_entity, dst_entity, hint)))
               | _ \<Rightarrow> None))"

definition node40_unite_create :: "'d item_table \<Rightarrow> node40 \<Rightarrow> node40 \<Rightarrow> bool \<Rightarrow> place \<Rightarrow> int \<times> bool option \<times> place option" where
  "node40_unite_create tab src_entity dst_entity left_shift src_place =
     (if nh_get_num_items dst_entity > 0 then
        (let (res, dst_border) = node40_border tab dst_entity (\<not> left_shift)
         in case dst_border of
              None \<Rightarrow> (res, None, None)
            | Some dst_place \<Rightarrow>
                if res \<noteq> 0 then (res, None, None)
                else
                  (let pol = nd_keypol dst_entity;
                       src_ih = node40_ih_at src_entity (item (pl_pos src_place));
                       dst_ih = node40_ih_at dst_entity (item (pl_pos dst_place))
                   in if ih_get_flags (nd_mem src_entity) src_ih pol \<noteq> ih_get_flags (nd_mem dst_entity) dst_ih pol
                      then (0, None, None)
                      else
                        (let (p1, p2) = (if left_shift then (dst_place, src_place) else (src_place, dst_place))
                         in case tab (pl_plug p1) of
                              None \<Rightarrow> (0, Some True, Some dst_place)
                            | Some plug1 \<Rightarrow> (0, Some (\<not> reiser4_item_mergeable plug1 p1 p2), Some dst_place))))
      else (0, Some True, None))"

definition node40_unite ::
  "'d item_table \<Rightarrow> node40 \<Rightarrow> node40 \<Rightarrow> shift_hint \<Rightarrow> bool \<Rightarrow> (int \<times> node40 \<times> node40 \<times> shift_hint) option" where
  "node40_unite tab src_entity dst_entity hint create =
     (let src_items = nh_get_num_items src_entity;
          dst_items = nh_get_num_items dst_entity;
          hint = hint\<lparr>sh_units_bytes := node40_space dst_entity\<rparr>;
          done = (\<lambda>res hint. Some (res, src_entity, dst_entity, hint));
          left_shift = sh_flag (sh_control hint) SF_ALLOW_LEFT
      in if src_items = 0 \<or> sh_units_bytes hint = 0 then done 0 hint
         else if sh_flag (sh_control hint) SF_UPDATE_POINT \<and> unit (sh_pos hint) = MAX_UINT32 \<and>
            (left_shift \<and> item (sh_pos hint) = 0 \<or> \<not> left_shift \<and> item (sh_pos hint) = src_items) then done 0 hint
         else case node40_border tab src_entity left_shift of
           (res, None) \<Rightarrow> done res hint
         | (res, Some src_place) \<Rightarrow>
             if res \<noteq> 0 then done res hint
             else case tab (pl_plug src_place) of
               None \<Rightarrow> None
             | Some plug \<Rightarrow>
                 if \<not> node40_splittable plug src_place then done 0 hint
                 else case node40_unite_create tab src_entity dst_entity left_shift src_place of
                   (res, None, _) \<Rightarrow> done res hint
                 | (res, Some cr, dst_place) \<Rightarrow>
                     (let hint = hint\<lparr>sh_create := cr\<rparr>
                      in if cr \<noteq> create then done 0 hint
                         else case ip_prep_shift plug of
                           None \<Rightarrow> None
                         | Some prep \<Rightarrow>
                             if cr then
                               (if sh_units_bytes hint \<le> node40_overhead dst_entity then done 0 hint
                                else
                                  (let hint = hint\<lparr>sh_units_bytes := sh_units_bytes hint - node40_overhead dst_entity\<rparr>;
                                       (res, _, hint) = prep src_place None hint
                                   in if res \<noteq> 0 then done (- EINVAL) hint
                                      else
                                        (let hint = (if sh_flag (sh_control hint) SF_UPDATE_POINT \<and> sh_flag (sh_result hint) SF_MOVE_POINT
                                                     then hint\<lparr>sh_pos := (sh_pos hint)\<lparr>item := (if left_shift then dst_items else 0)\<rparr>\<rparr>
                                                     else hint)
                                         in if sh_units_number hint = 0 then done 0 hint
                                            else node40_unite_shift tab plug src_entity dst_entity left_shift src_place
                                                   (whole_item (if left_shift then dst_items else 0)) hint)))
                             else
                               (let (res, _, hint) = prep src_place dst_place hint
                                in if res \<noteq> 0 then done (- EINVAL) hint
                                   else
                                     (let hint = (if sh_flag (sh_control hint) SF_UPDATE_POINT \<and> sh_flag (sh_result hint) SF_MOVE_POINT
                                                  then hint\<lparr>sh_pos := (sh_pos hint)\<lparr>item :=
                                                    (if left_shift then to_u32 (int dst_items - 1) else 0)\<rparr>\<rparr>
                                                  else hint)
                                      in if sh_units_number hint = 0 then done 0 hint
                                         else node40_unite_shift tab plug src_entity dst_entity left_shift src_place
                                                \<lparr>item = (if left_shift then to_u32 (int dst_items - 1) else 0), unit = 0\<rparr> hint))))"

definition node40_shift ::
  "'d item_table \<Rightarrow> node40 \<Rightarrow> node40 \<Rightarrow> shift_hint \<Rightarrow> (int \<times> node40 \<times> node40 \<times> shift_hint) option" where
  "node40_shift tab src_entity dst_entity hint =
     (let left_shift = sh_flag (sh_control hint) SF_ALLOW_LEFT;
          merge = sh_flag (sh_control hint) SF_ALLOW_MERGE;
          finish = (\<lambda>src_entity dst_entity hint.
            Some (0, src_entity, dst_entity,
              if sh_flag (sh_control hint) SF_UPDATE_POINT \<and> sh_flag (sh_result hint) SF_MOVE_POINT \<and>
                 sh_units_number hint = 0 \<and> sh_create hint
              then hint\<lparr>sh_pos := (sh_pos hint)\<lparr>unit := MAX_UINT32\<rparr>\<rparr> else hint));
          whole = (\<lambda>src_entity dst_entity hint.
            if sh_flag (sh_result hint) SF_MOVE_POINT then Some (0, src_entity, dst_entity, hint)
            else
              (let (res, src_entity, dst_entity, hint) = node40_move tab src_entity dst_entity hint
               in if res \<noteq> 0 then Some (res, src_entity, dst_entity, hint)
                  else if sh_flag (sh_result hint) SF_MOVE_POINT then Some (0, src_entity, dst_entity, hint)
                  else if merge then
                    (case node40_unite tab src_entity dst_entity hint True of
                       None \<Rightarrow> None
                     | Some (res, src_entity, dst_entity, hint) \<Rightarrow>
                         if res \<noteq> 0 then Some (res, src_entity, dst_entity, hint)
                         else finish src_entity dst_entity hint)
                  else finish src_entity dst_entity hint))
      in if merge then
           (case node40_unite tab src_entity dst_entity hint False of
              None \<Rightarrow> None
            | Some (res, src_entity, dst_entity, hint) \<Rightarrow>
                if res \<noteq> 0 then Some (res, src_entity, dst_entity, hint)
                else whole src_entity dst_entity hint)
         else
           (case (node40_border tab src_entity left_shift, node40_border tab dst_entity (\<not> left_shift)) of
              ((sres, Some src_place), (dres, Some dst_place)) \<Rightarrow>
                if sres \<noteq> 0 then Some (sres, src_entity, dst_entity, hint)
                else if dres \<noteq> 0 then Some (dres, src_entity, dst_entity, hint)
                else
                  (case tab (pl_plug src_place) of
                     None \<Rightarrow> None
                   | Some plug \<Rightarrow>
                       if reiser4_item_mergeable plug src_place dst_place then Some (0, src_entity, dst_entity, hint)
                       else whole src_entity dst_entity hint)
            | ((sres, None), _) \<Rightarrow> Some (sres, src_entity, dst_entity, hint)
            | (_, (dres, None)) \<Rightarrow> Some (dres, src_entity, dst_entity, hint)))"

end
