(* ===== verification/NodeTouch.thy ===== *)
theory NodeTouch
  imports Node40Ops
begin

text \<open>
  Changes confined to one item: to its body and to the fields of its header other than the offset.  Such a
  change keeps the node well-formed and every other item as it is; setting the key, the plugin id or the
  flags of an item is one, and so is everything an item plugin does inside the body it was given.
\<close>

unbundle bit_operations_syntax

section \<open>Changes to one item\<close>

definition in_item :: "node40 \<Rightarrow> nat \<Rightarrow> int \<Rightarrow> bool" where
  "in_item nd i x \<longleftrightarrow>
     int (nd_off nd i) \<le> x \<and> x < int (nd_off nd (Suc i)) \<or>
     nd_head nd i \<le> x \<and> x < nd_head nd i + int (key_size (nd_keypol nd)) \<or>
     nd_head nd i + int (key_size (nd_keypol nd)) + 2 \<le> x \<and> x < nd_head nd i + int (ih_size (nd_keypol nd))"

definition nd_touched :: "node40 \<Rightarrow> nat \<Rightarrow> node40 \<Rightarrow> bool" where
  "nd_touched nd i nd' \<longleftrightarrow>
     nd_size nd' = nd_size nd \<and> nd_keypol nd' = nd_keypol nd \<and> nd_kplug nd' = nd_kplug nd \<and> nd_plug nd' = nd_plug nd \<and>
     (\<forall>x. \<not> in_item nd i x \<longrightarrow> nd_mem nd' x = nd_mem nd x)"

lemma mread_cong: "(\<And>x. a \<le> x \<Longrightarrow> x < a + int l \<Longrightarrow> m' x = m x) \<Longrightarrow> mread m' a l = mread m a l"
  by (rule nth_equalityI) simp_all

lemma touched_refl [simp]: "nd_touched nd i nd"
  by (simp add: nd_touched_def)

lemma touched_mkdirty [simp]: "nd_touched nd i (node40_mkdirty nd') = nd_touched nd i nd'"
  by (simp add: nd_touched_def node40_mkdirty_def)


lemma touched_read:
  assumes wf: "nd_wf nd" and i: "i < nh_get_num_items nd" and touched: "nd_touched nd i nd'"
    and "\<And>x. a \<le> x \<Longrightarrow> x < a + int l \<Longrightarrow> \<not> in_item nd i x"
  shows "mread (nd_mem nd') a l = mread (nd_mem nd) a l"
  using touched assms(4-) by (intro mread_cong) (simp add: nd_touched_def)

lemma touched_same:
  assumes wf: "nd_wf nd" and i: "i < nh_get_num_items nd" and touched: "nd_touched nd i nd'"
  shows "nd_size nd' = nd_size nd" "nd_keypol nd' = nd_keypol nd" "nd_kplug nd' = nd_kplug nd" "nd_plug nd' = nd_plug nd"
  "nd_head nd' j = nd_head nd j"
  using touched by (simp_all add: nd_touched_def nd_head_def)

lemma touched_bounds:
  assumes wf: "nd_wf nd" and i: "i < nh_get_num_items nd" and touched: "nd_touched nd i nd'"
  shows "28 \<le> nd_off nd j" "28 \<le> nd_head nd i" "int (nd_off nd j) \<le> nd_head nd i"
  using nd_off_bounds [OF wf, of j] nd_wfD [OF wf] i by (auto simp: nd_head_def)

lemma touched_header:
  assumes wf: "nd_wf nd" and i: "i < nh_get_num_items nd" and touched: "nd_touched nd i nd'"
  shows "nh_get_num_items nd' = nh_get_num_items nd" "nh_get_free_space nd' = nh_get_free_space nd"
  "nh_get_free_space_start nd' = nh_get_free_space_start nd"
  unfolding nh_get_num_items_def nh_get_free_space_def nh_get_free_space_start_def get_le_def
  using touched_bounds(1) [OF wf i touched, of i] touched_bounds(1) [OF wf i touched, of "Suc i"] touched_bounds(2) [OF wf i touched]
  by (auto intro!: arg_cong [where f = le_value] touched_read [OF wf i touched] simp: in_item_def)

text \<open>Another header, or the offset field of the touched one.\<close>

lemma touched_head_read:
  assumes wf: "nd_wf nd" and i: "i < nh_get_num_items nd" and touched: "nd_touched nd i nd'"
    and "j < nh_get_num_items nd" "k + l \<le> ih_size (nd_keypol nd)"
    and "j \<noteq> i \<or> k = key_size (nd_keypol nd) \<and> l = 2"
  shows "mread (nd_mem nd') (nd_head nd j + int k) l = mread (nd_mem nd) (nd_head nd j + int k) l"
proof (rule touched_read [OF wf i touched])
  fix x assume x: "nd_head nd j + int k \<le> x" "x < nd_head nd j + int k + int l"
  have "int (nd_off nd (Suc i)) \<le> nd_head nd j"
    using nd_off_bounds(2) [OF wf, of "Suc i"] nd_wfD [OF wf] assms(4) by (auto simp: nd_head_def)
  then have body: "\<not> x < int (nd_off nd (Suc i))" using x by simp
  consider "int j + 1 \<le> int i" | "j = i" | "int i + 1 \<le> int j" by linarith
  then show "\<not> in_item nd i x"
  proof cases
    case 1
    then have "nd_head nd i + int (ih_size (nd_keypol nd)) \<le> nd_head nd j"
      using nd_wfD(1) [OF wf] by (auto simp: nd_head_def algebra_simps)
    then show ?thesis using x body nd_wfD(1) [OF wf] by (auto simp: in_item_def)
  next
    case 2
    then show ?thesis using x body assms(6) by (auto simp: in_item_def)
  next
    case 3
    then have "nd_head nd j + int (ih_size (nd_keypol nd)) \<le> nd_head nd i"
      using nd_wfD(1) [OF wf] by (auto simp: nd_head_def algebra_simps)
    then show ?thesis using x body assms(5) by (auto simp: in_item_def)
  qed
qed

lemma touched_off:
  assumes wf: "nd_wf nd" and i: "i < nh_get_num_items nd" and touched: "nd_touched nd i nd'"
  shows "nd_off nd' j = nd_off nd j"
proof (cases "j < nh_get_num_items nd")
  case True
  have "key_size (nd_keypol nd) + 2 \<le> ih_size (nd_keypol nd)" using nd_wfD(1) [OF wf] by auto
  then show ?thesis
    using touched_head_read [OF wf i touched True, of "key_size (nd_keypol nd)" 2] True
    by (simp add: nd_off_def touched_header [OF wf i touched] touched_same [OF wf i touched] ih_get_offset_def get_le_def)
qed (simp add: nd_off_def touched_header [OF wf i touched])

lemma touched_wf:
  assumes wf: "nd_wf nd" and i: "i < nh_get_num_items nd" and touched: "nd_touched nd i nd'"
  shows "nd_wf nd'"
  using wf by (simp add: nd_wf_def nd_hdr_def touched_same [OF wf i touched] touched_header [OF wf i touched] touched_off [OF wf i touched])

lemma touched_body_read:
  assumes wf: "nd_wf nd" and i: "i < nh_get_num_items nd" and touched: "nd_touched nd i nd'"
    and "nd_off nd j + l \<le> nh_get_free_space_start nd" "nd_off nd (Suc i) \<le> nd_off nd j \<or> nd_off nd j + l \<le> nd_off nd i"
  shows "mread (nd_mem nd') (int (nd_off nd j)) l = mread (nd_mem nd) (int (nd_off nd j)) l"
proof (rule touched_read [OF wf i touched])
  fix x assume x: "int (nd_off nd j) \<le> x" "x < int (nd_off nd j) + int l"
  have "int (nh_get_free_space_start nd) \<le> nd_head nd i"
    using nd_wfD [OF wf] i by (auto simp: nd_head_def)
  then show "\<not> in_item nd i x" using x assms(4-) by (auto simp: in_item_def)
qed

lemma touched_item:
  assumes wf: "nd_wf nd" and i: "i < nh_get_num_items nd" and touched: "nd_touched nd i nd'"
    and "j < nh_get_num_items nd" "j \<noteq> i"
  shows "nd_item nd' j = nd_item nd j"
proof -
  have sizes: "key_size (nd_keypol nd) + 6 = ih_size (nd_keypol nd)" using nd_wfD(1) [OF wf] by auto
  note mono = nd_off_mono [OF wf]
  have "nd_off nd j + (nd_off nd (Suc j) - nd_off nd j) \<le> nh_get_free_space_start nd"
    using mono [of j "Suc j"] assms(4) nd_off_bounds(2) [OF wf, of "Suc j"] by simp
  moreover have "nd_off nd (Suc i) \<le> nd_off nd j \<or> nd_off nd j + (nd_off nd (Suc j) - nd_off nd j) \<le> nd_off nd i"
    using mono [of "Suc i" j] mono [of "Suc j" i] mono [of j "Suc j"] assms(4-) i by (cases "j < i") auto
  ultimately have "it_body (nd_item nd' j) = it_body (nd_item nd j)"
    by (simp add: nd_item_def touched_off [OF wf i touched] touched_body_read [OF wf i touched])
  then show ?thesis
    using touched_head_read [OF wf i touched assms(4), of 0 "key_size (nd_keypol nd)"] assms(5) sizes
      touched_head_read [OF wf i touched assms(4), of "key_size (nd_keypol nd) + 2" 2]
      touched_head_read [OF wf i touched assms(4), of "key_size (nd_keypol nd) + 4" 2]
    by (simp add: nd_item_def touched_same [OF wf i touched] ih_get_flags_def ih_get_pid_def get_le_def add_ac)
qed

lemma touched_items:
  assumes wf: "nd_wf nd" and i: "i < nh_get_num_items nd" and touched: "nd_touched nd i nd'"
  shows "nd_items nd' = (nd_items nd)[i := nd_item nd' i]"
  using touched_header(1) [OF wf i touched] touched_item [OF wf i touched] i by (intro nd_items_update) auto

lemma touched_in_item:
  assumes wf: "nd_wf nd" and i: "i < nh_get_num_items nd" and touched: "nd_touched nd i nd'"
  shows "in_item nd' i x = in_item nd i x"
  by (simp add: in_item_def touched_off [OF wf i touched] touched_same [OF wf i touched])

lemma touched_trans:
  assumes wf: "nd_wf nd" and i: "i < nh_get_num_items nd" and touched: "nd_touched nd i nd'"
  shows "nd_touched nd' i nd'' \<Longrightarrow> nd_touched nd i nd''"
  using touched by (simp add: nd_touched_def touched_in_item [OF wf i touched])

lemma touched_key:
  assumes wf: "nd_wf nd" and i: "i < nh_get_num_items nd" and touched: "nd_touched nd i nd'"
  shows "nd_touched nd i (node40_put_key nd' (nd_head nd i) key)"
  using touched nd_wfD(4) [OF wf] length_key_bytes [of "nd_keypol nd" "kbody key"]
  by (auto simp: nd_touched_def node40_put_key_def in_item_def mwrite_outside)

lemma touched_pid:
  assumes wf: "nd_wf nd" and i: "i < nh_get_num_items nd" and touched: "nd_touched nd i nd'"
  shows "nd_touched nd i (node40_put_pid nd' (nd_head nd i) pid)"
proof -
  have "key_size (nd_keypol nd) + 6 = ih_size (nd_keypol nd)" using nd_wfD(1) [OF wf] by auto
  then show ?thesis
    using touched by (auto simp: nd_touched_def node40_put_pid_def ih_set_pid_def in_item_def set_le_outside)
qed

lemma touched_flags:
  assumes wf: "nd_wf nd" and i: "i < nh_get_num_items nd" and touched: "nd_touched nd i nd'"
  shows "nd_touched nd i (nd'\<lparr>nd_mem := ih_set_flags (nd_mem nd') (nd_head nd i) v (nd_keypol nd)\<rparr>)"
proof -
  have "key_size (nd_keypol nd) + 6 = ih_size (nd_keypol nd)" using nd_wfD(1) [OF wf] by auto
  then show ?thesis
    using touched by (auto simp: nd_touched_def ih_set_flags_def in_item_def set_le_outside)
qed

lemma touched_body:
  assumes wf: "nd_wf nd" and i: "i < nh_get_num_items nd" and touched: "nd_touched nd i nd'"
    and "\<And>x. \<not> (int (nd_off nd i) \<le> x \<and> x < int (nd_off nd (Suc i))) \<Longrightarrow> m x = nd_mem nd' x"
  shows "nd_touched nd i (nd'\<lparr>nd_mem := m\<rparr>)"
  using touched assms(4-) by (auto simp: nd_touched_def in_item_def)


end
