(* ===== verification/NodeptrItems.thy ===== *)
theory NodeptrItems
  imports TailItems
begin

text \<open>
  Pointers to child nodes (\<^verbatim>\<open>plugin/item/nodeptr40\<close>): an item of one unit, a 64-bit block number.
\<close>

abbreviation (input) ITEM_NODEPTR40_ID :: nat where "ITEM_NODEPTR40_ID \<equiv> 3"
abbreviation (input) NODEPTR40_SIZE :: nat where "NODEPTR40_SIZE \<equiv> 8"

definition np40_get_ptr :: "place \<Rightarrow> nat" where
  "np40_get_ptr place = get_le 8 (place_mem place) (pl_body place)"
definition np40_set_ptr :: "place \<Rightarrow> nat \<Rightarrow> place" where
  "np40_set_ptr place v = place_put place (set_le 8 (place_mem place) (pl_body place) (int v))"

definition sp_ptr :: "specific \<Rightarrow> ptr_hint" where
  "sp_ptr sp = (case sp of SP_PTR p \<Rightarrow> p | _ \<Rightarrow> \<lparr>ptr_start = 0, ptr_width = 0\<rparr>)"

definition nodeptr40_units :: "place \<Rightarrow> nat" where
  "nodeptr40_units place = 1"

definition nodeptr40_fetch_units :: "place \<Rightarrow> 'd trans_hint \<Rightarrow> int \<times> place \<times> 'd trans_hint" where
  "nodeptr40_fetch_units place hint =
     (1, place, hint\<lparr>th_specific := SP_PTR \<lparr>ptr_start = np40_get_ptr place, ptr_width = 1\<rparr>\<rparr>)"

definition nodeptr40_update_units :: "place \<Rightarrow> 'd trans_hint \<Rightarrow> int \<times> place \<times> 'd trans_hint" where
  "nodeptr40_update_units place hint =
     (1, place_mkdirty (np40_set_ptr place (ptr_start (sp_ptr (th_specific hint)))), hint)"

definition nodeptr40_layout :: "place \<Rightarrow> (nat \<Rightarrow> nat \<Rightarrow> 'd \<Rightarrow> int \<times> 'd) \<Rightarrow> 'd \<Rightarrow> int \<times> 'd" where
  "nodeptr40_layout place region_func data = region_func (np40_get_ptr place) 1 data"

definition nodeptr40_prep_insert :: "place \<Rightarrow> 'd trans_hint \<Rightarrow> int \<times> place \<times> 'd trans_hint" where
  "nodeptr40_prep_insert place hint = (0, place, hint\<lparr>th_overhead := 0, th_len := int NODEPTR40_SIZE\<rparr>)"

definition nodeptr40_insert_units :: "place \<Rightarrow> 'd trans_hint \<Rightarrow> int \<times> place \<times> 'd trans_hint" where
  "nodeptr40_insert_units place hint =
     (1, place_mkdirty (np40_set_ptr place (ptr_start (sp_ptr (th_specific hint)))), hint)"

definition nodeptr40_remove_units :: "place \<Rightarrow> 'd trans_hint \<Rightarrow> int \<times> place \<times> 'd trans_hint" where
  "nodeptr40_remove_units place hint = (0, place, hint\<lparr>th_overhead := 0, th_len := int NODEPTR40_SIZE\<rparr>)"

definition nodeptr40_check_struct :: "place \<Rightarrow> int" where
  "nodeptr40_check_struct place = (if pl_len place \<noteq> NODEPTR40_SIZE then RE_FATAL else 0)"

text \<open>
  The check of the block a pointer points to: a positive answer of the hook is a wrong pointer, which
  rebuilding (\<open>build\<close>) removes by reporting the length to cut.  The result is the error, the data of the
  hook and the length to remove.
\<close>

definition nodeptr40_check_layout ::
  "place \<Rightarrow> bool \<Rightarrow> nat \<Rightarrow> (nat \<Rightarrow> nat \<Rightarrow> 'd \<Rightarrow> int \<times> 'd) \<Rightarrow> 'd \<Rightarrow> int \<times> 'd \<times> nat" where
  "nodeptr40_check_layout place build len region_func data =
     (let blk = np40_get_ptr place; (res, data) = region_func blk 1 data
      in if res > 0 then (if build then (0, data, pl_len place) else (RE_FATAL, data, len))
         else if res < 0 then (res, data, len)
         else (0, data, len))"

definition nodeptr40_plug :: "'d item_plug" where
  "nodeptr40_plug =
     \<lparr>ip_id = ITEM_NODEPTR40_ID, ip_group = PTR_ITEM, ip_init = None, ip_units = Some nodeptr40_units,
      ip_lookup = None, ip_fetch_key = None, ip_maxposs_key = None, ip_maxreal_key = None, ip_mergeable = None,
      ip_merge = None, ip_prep_shift = None, ip_shift_units = None,
      ip_insert_units = Some nodeptr40_insert_units, ip_write_units = None, ip_remove_units = Some nodeptr40_remove_units,
      ip_update_units = Some nodeptr40_update_units, ip_trunc_units = None, ip_read_units = None,
      ip_fetch_units = Some nodeptr40_fetch_units, ip_prep_write = None, ip_prep_insert = Some nodeptr40_prep_insert,
      ip_insert_raw = None, ip_layout = Some nodeptr40_layout, ip_check_struct = Some (\<lambda>place hint. (nodeptr40_check_struct place, place, hint))\<rparr>"

section \<open>Child pointers of an item\<close>

definition reiser4_item_update_link :: "'d item_plug \<Rightarrow> place \<Rightarrow> nat \<Rightarrow> 'd trans_hint \<Rightarrow> (int \<times> place) option" where
  "reiser4_item_update_link plug place blk hint =
     (let hint = hint\<lparr>th_count := 1, th_specific := SP_PTR \<lparr>ptr_start = blk, ptr_width = 1\<rparr>\<rparr>
      in case ip_update_units plug of
           None \<Rightarrow> None
         | Some f \<Rightarrow> (let (res, place, hint) = f place hint in Some (if res \<noteq> 1 then - 5 else 0, place)))"

definition reiser4_item_down_link :: "'d item_plug \<Rightarrow> place \<Rightarrow> 'd trans_hint \<Rightarrow> nat option" where
  "reiser4_item_down_link plug place hint =
     (let hint = hint\<lparr>th_count := 1, th_specific := SP_PTR \<lparr>ptr_start = 0, ptr_width = 0\<rparr>\<rparr>
      in case ip_fetch_units plug of
           None \<Rightarrow> None
         | Some f \<Rightarrow> (let (res, place, hint) = f place hint
                      in Some (if res \<noteq> 1 then MAX_UINT64 else ptr_start (sp_ptr (th_specific hint)))))"

end
