(* ===== verification/NodeInsert.thy ===== *)
theory NodeInsert
  imports NodeTouch NodeptrItems
begin

text \<open>
  Inserting an item through its plugin.  What the node layer relies on is that a plugin writes only inside
  the body it was given; the contract is a locale, which the plugins here are shown to meet.
\<close>

unbundle bit_operations_syntax

section \<open>Fetching\<close>

definition plug_init :: "'d item_plug \<Rightarrow> place \<Rightarrow> place" where
  "plug_init plug place = (case ip_init plug of Some f \<Rightarrow> f place | None \<Rightarrow> place)"

definition item_place :: "node40 \<Rightarrow> pos \<Rightarrow> place" where
  "item_place nd pos =
     \<lparr>pl_pos = pos, pl_node = nd, pl_body = int (nd_off nd (item pos)),
      pl_len = nd_off nd (Suc (item pos)) - nd_off nd (item pos), pl_off = 0, pl_key = node_key nd (item pos),
      pl_plug = it_pid (nd_item nd (item pos))\<rparr>"

lemma len_by_ih:
  assumes "nd_wf nd" "i < nh_get_num_items nd"
  shows "node40_len_by_ih nd (nd_head nd i) i (nh_get_num_items nd) = nd_off nd (Suc i) - nd_off nd i"
proof -
  have n: "nh_get_num_items nd < 65536" using nd_wfD [OF assms(1)] by auto
  have b: "nd_off nd i \<le> nd_off nd (Suc i)" "nd_off nd (Suc i) < 65536"
    using nd_off_mono [OF assms(1), of i "Suc i"] assms(2) nd_off_bounds(2) [OF assms(1), of "Suc i"] nd_wfD(2,3) [OF assms(1)]
    by simp_all
  have u: "to_u16 (int (nd_off nd (Suc i)) - int (nd_off nd i)) = nd_off nd (Suc i) - nd_off nd i"
    using b by (simp add: to_u16_id)
  have h: "nd_head nd (Suc i) = nd_head nd i - int (ih_size (nd_keypol nd))" by (simp add: nd_head_def algebra_simps)
  have s: "to_u32 (int i + 1) = Suc i" using n assms(2) by (simp add: to_u32_id nat_add_distrib)
  show ?thesis
    using u assms(2) by (cases "Suc i = nh_get_num_items nd") (simp_all add: node40_len_by_ih_def Let_def s nd_off_def h)
qed

lemma fetch_item:
  assumes "nd_wf nd" "item pos < nh_get_num_items nd" "tab (it_pid (nd_item nd (item pos))) = Some plug"
  shows "node40_fetch tab nd pos = (0, plug_init plug (item_place nd pos))"
proof -
  have "nh_get_num_items nd < 65536" using nd_wfD [OF assms(1)] by auto
  then have ih: "node40_ih_at nd (item pos) = nd_head nd (item pos)" using assms(2) by (simp add: ih_at_head)
  have ib: "node40_ib_by_ih nd (nd_head nd (item pos)) = int (nd_off nd (item pos))"
    using assms(2) by (simp add: node40_ib_by_ih_def nd_off_def)
  have pid: "ih_get_pid (nd_mem nd) (nd_head nd (item pos)) (nd_keypol nd) = it_pid (nd_item nd (item pos))"
    by (simp add: nd_item_def)
  have key: "node40_get_key_by_ih nd (nd_head nd (item pos)) (key_plug_minimal (nd_kplug nd)) = node_key nd (item pos)"
    by (simp add: node_key_def node40_get_key_def ih)
  show ?thesis
    using assms(3) len_by_ih [OF assms(1,2)]
    by (cases "ip_init plug") (simp_all add: node40_fetch_def Let_def ih ib pid key plug_init_def item_place_def)
qed

section \<open>The contract of the writing methods\<close>

definition place_confined :: "place \<Rightarrow> place \<Rightarrow> bool" where
  "place_confined place place' \<longleftrightarrow>
     nd_size (pl_node place') = nd_size (pl_node place) \<and> nd_keypol (pl_node place') = nd_keypol (pl_node place) \<and>
     nd_kplug (pl_node place') = nd_kplug (pl_node place) \<and> nd_plug (pl_node place') = nd_plug (pl_node place) \<and>
     pl_body place' = pl_body place \<and> pl_len place' = pl_len place \<and>
     (\<forall>x. \<not> (pl_body place \<le> x \<and> x < pl_body place + int (pl_len place)) \<longrightarrow> place_mem place' x = place_mem place x)"

locale body_writer =
  fixes write_fn :: "'d modify_func" and fits :: "place \<Rightarrow> 'd trans_hint \<Rightarrow> bool"
  assumes confined: "fits place hint \<Longrightarrow> 0 \<le> fst (write_fn place hint) \<and> place_confined place (fst (snd (write_fn place hint)))"

lemma confined_touched:
  assumes wf: "nd_wf nd" "item pos < nh_get_num_items nd" and c: "place_confined ((item_place nd pos)\<lparr>pl_off := off\<rparr>) place'"
  shows "nd_touched nd (item pos) (pl_node place')"
proof -
  have "nd_off nd (item pos) \<le> nd_off nd (Suc (item pos))"
    using nd_off_mono [OF wf(1), of "item pos" "Suc (item pos)"] wf(2) by simp
  then show ?thesis
    using c unfolding nd_touched_def place_confined_def place_mem_def item_place_def in_item_def by simp
qed

section \<open>Headers of an item\<close>

lemma put_header_item:
  fixes key :: reiser4_key
  assumes "nd_wf nd" "i < nh_get_num_items nd" "pid < 65536"
  defines "nd' \<equiv> node40_put_key (node40_put_pid nd (nd_head nd i) pid) (nd_head nd i) key"
  shows "nd_touched nd i nd'"
    and "nd_item nd' i = (nd_item nd i)\<lparr>it_key := key_bytes (kbody key) (key_size (nd_keypol nd)), it_pid := pid\<rparr>"
proof -
  let ?pol = "nd_keypol nd" and ?h = "nd_head nd i"
  have sizes: "key_size ?pol + 6 = ih_size ?pol" using nd_wfD(1) [OF assms(1)] by auto
  have t1: "nd_touched nd i (node40_put_pid nd ?h pid)" by (rule touched_pid [OF assms(1,2) touched_refl])
  show t: "nd_touched nd i nd'" unfolding nd'_def by (rule touched_key [OF assms(1,2) t1])
  have len: "length (key_bytes (kbody key) (key_size ?pol)) = key_size ?pol"
    by (rule length_key_bytes [OF nd_wfD(4) [OF assms(1)]])
  have m: "nd_mem nd' = mwrite (set_le 2 (nd_mem nd) (?h + int (key_size ?pol) + 4) (int pid)) ?h
      (key_bytes (kbody key) (key_size ?pol))"
    by (simp add: nd'_def node40_put_key_def node40_put_pid_def ih_set_pid_def)
  have k: "mread (nd_mem nd') ?h (key_size ?pol) = key_bytes (kbody key) (key_size ?pol)"
    unfolding m by (rule mread_same [OF len])
  have f: "get_le 2 (nd_mem nd') (?h + int (key_size ?pol) + 2) = get_le 2 (nd_mem nd) (?h + int (key_size ?pol) + 2)"
    unfolding m by (simp add: get_le_mwrite_other len get_set_le_other)
  have p: "get_le 2 (nd_mem nd') (?h + int (key_size ?pol) + 4) = pid"
    unfolding m using assms(3) by (simp add: get_le_mwrite_other len get_set_le nat_mod_as_int)
  have b: "mread (nd_mem nd') (int (nd_off nd i)) (nd_off nd (Suc i) - nd_off nd i) =
      mread (nd_mem nd) (int (nd_off nd i)) (nd_off nd (Suc i) - nd_off nd i)"
  proof (cases "nd_off nd i \<le> nd_off nd (Suc i)")
    case True
    have "int (nd_off nd (Suc i)) \<le> ?h" by (rule touched_bounds(3) [OF assms(1,2) touched_refl])
    then show ?thesis unfolding m using True by (subst mread_other) (simp_all add: mread_set_le_other)
  qed simp
  show "nd_item nd' i = (nd_item nd i)\<lparr>it_key := key_bytes (kbody key) (key_size ?pol), it_pid := pid\<rparr>"
    using k f p b
    by (simp add: nd_item_def touched_same [OF assms(1,2) t] touched_off [OF assms(1,2) t] ih_get_flags_def ih_get_pid_def)
qed

text \<open>What a confined change leaves of the item itself: everything but the body.\<close>

lemma confined_item:
  assumes "nd_wf nd" "i < nh_get_num_items nd"
    and "nd_size nd' = nd_size nd" "nd_keypol nd' = nd_keypol nd" "nd_kplug nd' = nd_kplug nd" "nd_plug nd' = nd_plug nd"
    and "\<And>x. \<not> (int (nd_off nd i) \<le> x \<and> x < int (nd_off nd (Suc i))) \<Longrightarrow> nd_mem nd' x = nd_mem nd x"
  shows "nd_touched nd i nd'"
    and "nd_item nd' i = (nd_item nd i)\<lparr>it_body := mread (nd_mem nd') (int (nd_off nd i)) (nd_off nd (Suc i) - nd_off nd i)\<rparr>"
proof -
  show t: "nd_touched nd i nd'" using assms by (simp add: nd_touched_def in_item_def)
  have "int (nd_off nd (Suc i)) \<le> nd_head nd i" by (rule touched_bounds(3) [OF assms(1,2) t])
  then have "mread (nd_mem nd') (nd_head nd i + int k) l = mread (nd_mem nd) (nd_head nd i + int k) l" for k l
    using assms(7) by (intro mread_cong) auto
  from this [of 0] this [of "key_size (nd_keypol nd) + 2"] this [of "key_size (nd_keypol nd) + 4"]
  show "nd_item nd' i = (nd_item nd i)\<lparr>it_body := mread (nd_mem nd') (int (nd_off nd i)) (nd_off nd (Suc i) - nd_off nd i)\<rparr>"
    by (simp add: nd_item_def touched_same [OF assms(1,2) t] touched_off [OF assms(1,2) t] ih_get_flags_def
        ih_get_pid_def get_le_def add_ac)
qed

section \<open>Inserting an item\<close>

lemma expand_item:
  assumes "nd_wf nd" "p \<le> nh_get_num_items nd" "0 < len" "len + ih_size (nd_keypol nd) \<le> nh_get_free_space nd"
  defines "nd' \<equiv> snd (node40_expand nd (whole_item p) len 1)"
  shows "node40_expand nd (whole_item p) len 1 = (0, nd')" "nd_wf nd'" "nh_get_num_items nd' = nh_get_num_items nd + 1"
    "nd_keypol nd' = nd_keypol nd" "nd_kplug nd' = nd_kplug nd" "it_flags (nd_item nd' p) = 0"
    "nh_get_free_space nd' = nh_get_free_space nd - (len + ih_size (nd_keypol nd))"
    "nd_off nd' (Suc p) - nd_off nd' p = len" "nd_off nd' p \<le> nd_off nd' (Suc p)"
    "nd_items nd' = take p (nd_items nd) @ nd_item nd' p # drop p (nd_items nd)"
proof -
  have e: "len + 1 * ih_size (nd_keypol nd) \<le> nh_get_free_space nd" using assms(4) by simp
  note r = expand_insert_read [OF assms(1,2) e assms(3) zero_less_one, folded nd'_def]
    and o = expand_insert_items [OF assms(1,2) e assms(3) zero_less_one, folded nd'_def]
  show "nd_wf nd'" unfolding nd'_def by (rule expand_insert_wf [OF assms(1,2,4,3)])
  show "nh_get_num_items nd' = nh_get_num_items nd + 1" "nd_keypol nd' = nd_keypol nd" "nd_kplug nd' = nd_kplug nd"
    "nh_get_free_space nd' = nh_get_free_space nd - (len + ih_size (nd_keypol nd))" using r by simp_all
  show "it_flags (nd_item nd' p) = 0" using r(4,5,8) by (simp add: nd_item_def nd_head_def)
  show "nd_off nd' (Suc p) - nd_off nd' p = len" "nd_off nd' p \<le> nd_off nd' (Suc p)"
    using o(2) o(3) [of p] assms(2) by simp_all
  show "node40_expand nd (whole_item p) len 1 = (0, nd')"
    using expand_insert_eq [OF assms(1,2) e assms(3) zero_less_one] by (simp add: nd'_def prod_eq_iff)
  have "nd_items nd' = take p (nd_items nd) @ map (nd_item nd') [p..<p + 1] @ drop p (nd_items nd)"
    using r(1) assms(2) o(4,5) by (intro nd_items_split) auto
  then show "nd_items nd' = take p (nd_items nd) @ nd_item nd' p # drop p (nd_items nd)" by simp
qed

text \<open>\<open>sets_off\<close>: initialising a place sets its \<open>pl_off\<close> to a constant of the plugin and nothing else.\<close>

definition sets_off :: "'d item_plug \<Rightarrow> nat \<Rightarrow> bool" where
  "sets_off plug off \<longleftrightarrow> (\<forall>place. plug_init plug place = place\<lparr>pl_off := (if ip_init plug = None then pl_off place else off)\<rparr>)"

context body_writer
begin

lemma modify_inserts:
  assumes "nd_wf nd" "p \<le> nh_get_num_items nd" "0 < len" "len + ih_size (nd_keypol nd) \<le> nh_get_free_space nd"
    and "to_u32 (th_len hint + int (th_overhead hint)) = len" "tab (th_plug hint) = Some plug" "th_plug hint < 65536"
    and "sets_off plug off" "\<And>place. pl_len place = len \<Longrightarrow> pl_pos place = whole_item p \<Longrightarrow> pl_off place = (if ip_init plug = None then 0 else off) \<Longrightarrow> fits place hint"
  shows "\<exists>place nd' body. node40_modify tab nd (whole_item p) hint (Some write_fn) =
      Some (fst (write_fn place hint), nd', snd (snd (write_fn place hint))) \<and> fits place hint \<and> pl_len place = len \<and>
    pl_pos place = whole_item p \<and> pl_off place = (if ip_init plug = None then 0 else off) \<and>
    nd_wf nd' \<and> nh_get_free_space nd' = nh_get_free_space nd - (len + ih_size (nd_keypol nd)) \<and>
    body = mread (place_mem (fst (snd (write_fn place hint)))) (pl_body place) len \<and>
    nd_items nd' = take p (nd_items nd) @ \<lparr>it_key = key_bytes (kbody (th_offset hint)) (key_size (nd_keypol nd)),
      it_flags = 0, it_pid = th_plug hint, it_body = body\<rparr> # drop p (nd_items nd)"
proof -
  define nd1 where "nd1 = snd (node40_expand nd (whole_item p) len 1)"
  note e = expand_item [OF assms(1-4), folded nd1_def]
  have p1: "p < nh_get_num_items nd1" using e(3) assms(2) by simp
  have "nh_get_num_items nd1 < 65536" using nd_wfD [OF e(2)] by auto
  then have ih: "node40_ih_at nd1 p = nd_head nd1 p" using p1 by (simp add: ih_at_head)
  define nd2 where "nd2 = node40_put_key (node40_put_pid nd1 (nd_head nd1 p) (th_plug hint)) (nd_head nd1 p) (th_offset hint)"
  note h = put_header_item [OF e(2) p1 assms(7), where key = "th_offset hint", folded nd2_def]
  note wf2 = touched_wf [OF e(2) p1 h(1)] and off2 = touched_off [OF e(2) p1 h(1)]
    and same2 = touched_same [OF e(2) p1 h(1)] and hd2 = touched_header [OF e(2) p1 h(1)]
  have p2: "p < nh_get_num_items nd2" using p1 hd2 by simp
  let ?place = "(item_place nd2 (whole_item p))\<lparr>pl_off := (if ip_init plug = None then 0 else off)\<rparr>"
  have pid: "it_pid (nd_item nd2 p) = th_plug hint" using h(2) by simp
  have fetch: "node40_fetch tab nd2 (whole_item p) = (0, ?place)"
    using fetch_item [OF wf2, of "whole_item p" tab plug] p2 pid assms(6,8)
    by (auto simp: sets_off_def item_place_def)
  have len: "pl_len ?place = len" "pl_body ?place = int (nd_off nd1 p)"
    using e(8) by (simp_all add: item_place_def off2)
  have fits: "fits ?place hint"
    by (rule assms(9)) (use len in \<open>simp_all add: item_place_def\<close>)
  obtain w place' hint' where f: "write_fn ?place hint = (w, place', hint')" using prod_cases3 by blast
  have w: "0 \<le> w" and c: "place_confined ?place place'" using confined [OF fits] f by simp_all
  let ?nd3 = "pl_node place'"
  have bnd: "nd_off nd2 p \<le> nd_off nd2 (Suc p)" using e(9) by (simp add: off2)
  have out: "nd_mem ?nd3 x = nd_mem nd2 x" if "\<not> (int (nd_off nd2 p) \<le> x \<and> x < int (nd_off nd2 (Suc p)))" for x
    using c that bnd unfolding place_confined_def by (simp add: place_mem_def item_place_def)
  have same3: "nd_size ?nd3 = nd_size nd2" "nd_keypol ?nd3 = nd_keypol nd2" "nd_kplug ?nd3 = nd_kplug nd2" "nd_plug ?nd3 = nd_plug nd2"
    using c by (simp_all add: place_confined_def item_place_def)
  note i3 = confined_item [OF wf2 p2 same3 out]
  note t3 = touched_trans [OF e(2) p1 h(1) i3(1)]
  have item: "nd_item ?nd3 p = \<lparr>it_key = key_bytes (kbody (th_offset hint)) (key_size (nd_keypol nd)),
      it_flags = 0, it_pid = th_plug hint, it_body = mread (nd_mem ?nd3) (int (nd_off nd1 p)) len\<rparr>"
    using i3(2) h(2) e(4,6,8) by (simp add: off2)
  have "nd_items ?nd3 = (nd_items nd1)[p := nd_item ?nd3 p]" by (rule touched_items [OF e(2) p1 t3])
  also have "\<dots> = take p (nd_items nd) @ nd_item ?nd3 p # drop p (nd_items nd)"
  proof -
    have "length (take p (nd_items nd)) = p" using assms(2) by (simp add: nd_items_def)
    then show ?thesis by (subst e(10)) (simp add: list_update_append)
  qed
  finally have items: "nd_items ?nd3 = take p (nd_items nd) @ nd_item ?nd3 p # drop p (nd_items nd)" .
  have "node40_modify tab nd (whole_item p) hint (Some write_fn) = Some (w, ?nd3, hint')"
    using w by (simp add: node40_modify_def assms(5) e(1) [unfolded One_nat_def] ih fetch f flip: nd2_def)
  then show ?thesis
    using fits len f touched_wf [OF e(2) p1 t3] touched_header(2) [OF e(2) p1 t3] e(7) items item
    by (intro exI [of _ ?place] exI [of _ ?nd3] exI [of _ "mread (nd_mem ?nd3) (int (nd_off nd1 p)) len"])
      (simp add: place_mem_def item_place_def)
qed

end

section \<open>The writing methods of the plugins meet the contract\<close>

lemma place_simps [simp]:
  "pl_node (place_put place m) = (pl_node place)\<lparr>nd_mem := m\<rparr>" "pl_body (place_put place m) = pl_body place"
  "pl_len (place_put place m) = pl_len place" "pl_off (place_put place m) = pl_off place"
  "pl_pos (place_put place m) = pl_pos place" "pl_key (place_put place m) = pl_key place"
  "place_mem (place_put place m) = m" "pl_plug (place_put place m) = pl_plug place"
  by (simp_all add: place_put_def place_mem_def)

lemma place_mkdirty_simps [simp]:
  "pl_node (place_mkdirty place) = node40_mkdirty (pl_node place)" "pl_body (place_mkdirty place) = pl_body place"
  "pl_len (place_mkdirty place) = pl_len place" "pl_off (place_mkdirty place) = pl_off place"
  "pl_pos (place_mkdirty place) = pl_pos place" "pl_key (place_mkdirty place) = pl_key place"
  "place_mem (place_mkdirty place) = place_mem place" "pl_plug (place_mkdirty place) = pl_plug place"
  by (simp_all add: place_mkdirty_def node40_mkdirty_def place_mem_def)

lemma place_unit_simps [simp]:
  "pl_node (place_unit place u) = pl_node place" "pl_body (place_unit place u) = pl_body place"
  "pl_len (place_unit place u) = pl_len place" "pl_off (place_unit place u) = pl_off place"
  "pl_pos (place_unit place u) = (pl_pos place)\<lparr>unit := u\<rparr>" "pl_key (place_unit place u) = pl_key place"
  "place_mem (place_unit place u) = place_mem place" "pl_plug (place_unit place u) = pl_plug place"
  by (simp_all add: place_unit_def place_mem_def)

lemma place_key_simps [simp]:
  "place_mem (place\<lparr>pl_key := k\<rparr>) = place_mem place" "place_mem (place\<lparr>pl_off := n\<rparr>) = place_mem place"
  by (simp_all add: place_mem_def)

lemma confined_put:
  assumes "\<And>x. \<not> (pl_body place \<le> x \<and> x < pl_body place + int (pl_len place)) \<Longrightarrow> m x = place_mem place x"
  shows "place_confined place (place_mkdirty (place_put place m))"
  using assms by (auto simp: place_confined_def node40_mkdirty_def)

interpretation nodeptr_insert: body_writer nodeptr40_insert_units "\<lambda>place hint. pl_len place = NODEPTR40_SIZE"
proof unfold_locales
  fix place :: place and hint :: "'d trans_hint"
  assume len: "pl_len place = NODEPTR40_SIZE"
  have "place_confined place (place_mkdirty (place_put place (set_le 8 (place_mem place) (pl_body place) v)))" for v
    by (rule confined_put) (use len in \<open>auto intro: set_le_outside\<close>)
  then show "0 \<le> fst (nodeptr40_insert_units place hint) \<and>
      place_confined place (fst (snd (nodeptr40_insert_units place hint)))"
    by (simp add: nodeptr40_insert_units_def np40_set_ptr_def)
qed

text \<open>What a write of a tail does to its body, for a new item or a position inside it.\<close>

definition tail_at :: "place \<Rightarrow> nat" where
  "tail_at place = pl_off place + (if unit (pl_pos place) = MAX_UINT32 then 0 else unit (pl_pos place))"

definition tail_fits :: "place \<Rightarrow> 'd trans_hint \<Rightarrow> bool" where
  "tail_fits place hint \<longleftrightarrow>
     pl_len place < 65536 \<and> tail_at place \<le> pl_len place \<and> to_u32 (int (th_count hint)) + 65536 \<le> 4294967296"

definition tail_count :: "place \<Rightarrow> 'd trans_hint \<Rightarrow> nat" where
  "tail_count place hint = min (to_u32 (int (th_count hint))) (pl_len place - tail_at place)"

lemma tail_at_pos:
  assumes "pl_len place < 65536" "tail_at place \<le> pl_len place"
  shows "tail40_pos (if unit (pl_pos place) = MAX_UINT32 then place_unit place 0 else place) = tail_at place"
  using assms by (auto simp: tail40_pos_def tail_at_def to_u32_id nat_add_distrib)

lemma tail_count_eq:
  assumes "tail_fits place hint"
  shows "(if to_u32 (int (to_u32 (int (th_count hint))) + int (tail_at place)) > pl_len place
      then to_u32 (int (pl_len place) - int (tail_at place)) else to_u32 (int (th_count hint))) = tail_count place hint"
proof -
  let ?n = "to_u32 (int (th_count hint))"
  note f = assms [unfolded tail_fits_def]
  have "to_u32 (int ?n + int (tail_at place)) = ?n + tail_at place" using f by (intro to_u32_add) auto
  moreover have "to_u32 (int (pl_len place) - int (tail_at place)) = pl_len place - tail_at place"
    using f by (intro to_u32_diff) auto
  ultimately show ?thesis using f by (auto simp: tail_count_def)
qed

lemma if_place [simp]:
  "pl_node (if c then p\<lparr>pl_key := k\<rparr> else p) = pl_node p" "pl_body (if c then p\<lparr>pl_key := k\<rparr> else p) = pl_body p"
  "pl_len (if c then p\<lparr>pl_key := k\<rparr> else p) = pl_len p"
  "pl_node (if c then place_unit p 0 else p) = pl_node p" "pl_body (if c then place_unit p 0 else p) = pl_body p"
  "pl_len (if c then place_unit p 0 else p) = pl_len p"
  by simp_all

lemma hint_bytes: "th_count (hint\<lparr>th_bytes := b\<rparr>) = th_count hint" "th_specific (hint\<lparr>th_bytes := b\<rparr>) = th_specific hint"
  by simp_all

lemma if_place_mem: "place_mem (if c then place_unit p 0 else p) = place_mem p"
  by simp

definition tail_bytes :: "place \<Rightarrow> 'd trans_hint \<Rightarrow> u8 list" where
  "tail_bytes place hint =
     (case th_specific hint of
        SP_NULL \<Rightarrow> replicate (tail_count place hint) 0 | sp \<Rightarrow> mread (sp_mem sp) 0 (tail_count place hint))"

lemma tail_write_effect:
  assumes "tail_fits place hint"
  defines "p \<equiv> fst (snd (tail40_write_units place hint))"
  shows "fst (tail40_write_units place hint) = int (tail_count place hint)"
    and "pl_node p = node40_mkdirty ((pl_node place)\<lparr>nd_mem :=
      mwrite (place_mem place) (pl_body place + int (tail_at place)) (tail_bytes place hint)\<rparr>)"
    and "pl_body p = pl_body place" "pl_len p = pl_len place" "place_confined place p"
proof -
  have pos: "tail40_pos (if unit (pl_pos place) = MAX_UINT32 then place_unit place 0 else place) = tail_at place"
    using assms by (intro tail_at_pos) (auto simp: tail_fits_def)
  note cnt = tail_count_eq [OF assms(1)]
  note defs = p_def tail40_write_units_def Let_def pos cnt tail_bytes_def memcpy_def
  show "fst (tail40_write_units place hint) = int (tail_count place hint)"
    by (simp only: defs if_place fst_conv hint_bytes cnt)
  show n: "pl_node p = node40_mkdirty ((pl_node place)\<lparr>nd_mem :=
      mwrite (place_mem place) (pl_body place + int (tail_at place)) (tail_bytes place hint)\<rparr>)"
    "pl_body p = pl_body place" "pl_len p = pl_len place"
    by (cases "th_specific hint"; simp only: defs if_place fst_conv snd_conv hint_bytes cnt specific.case
        place_mkdirty_simps place_simps place_unit_simps if_place_mem)+
  have "length (tail_bytes place hint) = tail_count place hint" by (simp add: tail_bytes_def split: specific.split)
  moreover have "int (tail_at place) + int (tail_count place hint) \<le> int (pl_len place)"
    using assms by (auto simp: tail_fits_def tail_count_def)
  ultimately have "mwrite (place_mem place) (pl_body place + int (tail_at place)) (tail_bytes place hint) x = place_mem place x"
    if "\<not> (pl_body place \<le> x \<and> x < pl_body place + int (pl_len place))" for x
    using that by (intro mwrite_outside) auto
  then show "place_confined place p"
    by (simp add: place_confined_def place_mem_def n node40_mkdirty_def)
qed

interpretation tail_write: body_writer tail40_write_units tail_fits
  by unfold_locales (simp_all add: tail_write_effect)

section \<open>Fetching what was inserted\<close>

lemma inserted_item:
  assumes "p \<le> length xs" "nd_items nd' = take p xs @ it # drop p xs"
  shows "p < nh_get_num_items nd'" "nd_item nd' p = it"
proof -
  have "nh_get_num_items nd' = length (nd_items nd')" by (simp add: nd_items_def)
  then show p: "p < nh_get_num_items nd'" using assms by simp
  have "nd_item nd' p = nd_items nd' ! p" using p by (simp add: nd_items_def)
  then show "nd_item nd' p = it" using assms by (simp add: nth_append)
qed

lemma fetch_inserted:
  assumes "nd_wf nd'" "p \<le> length xs" "nd_items nd' = take p xs @ it # drop p xs" "tab (it_pid it) = Some plug" "ip_init plug = None"
  shows "\<exists>place. node40_fetch tab nd' (whole_item p) = (0, place) \<and> pl_pos place = whole_item p \<and> pl_off place = 0 \<and>
    pl_len place = length (it_body it) \<and> mread (place_mem place) (pl_body place) (length (it_body it)) = it_body it"
proof -
  note it = inserted_item [OF assms(2,3)]
  have "node40_fetch tab nd' (whole_item p) = (0, item_place nd' (whole_item p))"
    using fetch_item [OF assms(1), of "whole_item p" tab plug] it assms(4,5) by (simp add: plug_init_def)
  moreover have b: "it_body it = mread (nd_mem nd') (int (nd_off nd' p)) (nd_off nd' (Suc p) - nd_off nd' p)"
    using it(2) by (auto simp: nd_item_def)
  ultimately show ?thesis by (simp add: item_place_def place_mem_def b)
qed

lemma sets_off_None: "ip_init plug = None \<Longrightarrow> sets_off plug off"
  by (simp add: sets_off_def plug_init_def)

section \<open>Properties\<close>

text \<open>
  C5: inserting a child pointer with \<^verbatim>\<open>nodeptr40_prep_insert\<close> and \<^verbatim>\<open>node40_insert\<close> makes exactly one new item,
  with the key and plugin id of the hint and the block number as its body, leaves every other item alone,
  and \<^verbatim>\<open>reiser4_item_down_link\<close> on the fetched item returns the block.
\<close>

theorem node40_insert_pointer:
  assumes "nd_wf nd" "p \<le> node40_items nd" "8 + node40_overhead nd \<le> node40_space nd"
    and "tab ITEM_NODEPTR40_ID = Some nodeptr40_plug" "th_plug hint = ITEM_NODEPTR40_ID"
    and "th_specific hint = SP_PTR \<lparr>ptr_start = blk, ptr_width = 1\<rparr>" "blk < 2 ^ 64"
  shows "let (r, place, h) = nodeptr40_prep_insert place hint in
    \<exists>nd' place'. node40_insert tab nd (whole_item p) h = Some (1, nd', h) \<and> nd_wf nd' \<and>
      node40_space nd' = node40_space nd - (8 + node40_overhead nd) \<and>
      nd_items nd' = take p (nd_items nd) @ \<lparr>it_key = key_bytes (kbody (th_offset hint)) (key_size (nd_keypol nd)), it_flags = 0,
        it_pid = ITEM_NODEPTR40_ID, it_body = le_bytes 8 blk\<rparr> # drop p (nd_items nd) \<and>
      node40_fetch tab nd' (whole_item p) = (0, place') \<and> reiser4_item_down_link nodeptr40_plug place' h = Some blk"
proof -
  let ?h = "hint\<lparr>th_overhead := 0, th_len := int NODEPTR40_SIZE\<rparr>"
  let ?it = "\<lparr>it_key = key_bytes (kbody (th_offset hint)) (key_size (nd_keypol nd)), it_flags = 0,
      it_pid = ITEM_NODEPTR40_ID, it_body = le_bytes 8 blk\<rparr>"
  note a = assms(1) assms(2) [unfolded node40_items_def] _ assms(3) [unfolded node40_overhead_def node40_space_def]
  obtain pl nd' body where m: "node40_modify tab nd (whole_item p) ?h (Some nodeptr40_insert_units) =
        Some (fst (nodeptr40_insert_units pl ?h), nd', snd (snd (nodeptr40_insert_units pl ?h)))"
      "nd_wf nd'" "nh_get_free_space nd' = nh_get_free_space nd - (8 + ih_size (nd_keypol nd))"
      "body = mread (place_mem (fst (snd (nodeptr40_insert_units pl ?h)))) (pl_body pl) 8"
      "nd_items nd' = take p (nd_items nd) @ \<lparr>it_key = key_bytes (kbody (th_offset ?h)) (key_size (nd_keypol nd)),
        it_flags = 0, it_pid = th_plug ?h, it_body = body\<rparr> # drop p (nd_items nd)"
    using nodeptr_insert.modify_inserts [OF a, of ?h tab nodeptr40_plug 0] assms(4,5)
    by (auto simp: to_u32_id sets_off_None nodeptr40_plug_def)
  have "body = le_bytes 8 blk"
    unfolding m(4) using assms(6,7)
    by (simp add: nodeptr40_insert_units_def np40_set_ptr_def sp_ptr_def set_le_def mread_same nat_mod_as_int)
  then have items: "nd_items nd' = take p (nd_items nd) @ ?it # drop p (nd_items nd)" using m(5) assms(5) by simp
  obtain place' where f: "node40_fetch tab nd' (whole_item p) = (0, place')" "mread (place_mem place') (pl_body place') 8 = le_bytes 8 blk"
    using fetch_inserted [OF m(2) _ items, of tab nodeptr40_plug] assms(2,4)
    by (auto simp: node40_items_def nd_items_def nodeptr40_plug_def)
  have "reiser4_item_down_link nodeptr40_plug place' ?h = Some blk"
    using f(2) assms(7) by (simp add: reiser4_item_down_link_def nodeptr40_plug_def nodeptr40_fetch_units_def np40_get_ptr_def
        get_le_def sp_ptr_def)
  moreover have "node40_insert tab nd (whole_item p) ?h = Some (1, nd', ?h)"
    using m(1) assms(4,5) by (simp add: node40_insert_def nodeptr40_plug_def nodeptr40_insert_units_def)
  ultimately show ?thesis
    using m(2,3) items f(1) by (auto simp: nodeptr40_prep_insert_def node40_space_def node40_overhead_def)
qed

definition sample_table :: "unit item_table" where
  "sample_table pid = (if pid = 3 then Some nodeptr40_plug else if pid = 6 then Some plain40_plug
     else if pid = 7 then Some ctail40_plug else None)"

definition sample_hint :: "nat \<Rightarrow> specific \<Rightarrow> nat \<Rightarrow> unit trans_hint" where
  "sample_hint pid sp count =
     \<lparr>th_overhead = 0, th_len = 0, th_bytes = 0, th_specific = sp, th_count = count, th_offset = sample_key 5,
      th_maxkey = sample_key 5, th_insert_flags = 0, th_head = 0, th_tail = 0, th_plug = pid, th_region_func = None, th_data = ()\<rparr>"

theorem node40_insert_pointer_witness:
  "\<exists>nd'. node40_insert sample_table sample_node (whole_item 1)
      (snd (snd (nodeptr40_prep_insert (item_place sample_node (whole_item 1)) (sample_hint 3 (SP_PTR \<lparr>ptr_start = 77, ptr_width = 1\<rparr>) 1)))) =
      Some (1, nd', snd (snd (nodeptr40_prep_insert (item_place sample_node (whole_item 1))
        (sample_hint 3 (SP_PTR \<lparr>ptr_start = 77, ptr_width = 1\<rparr>) 1)))) \<and> nd_wf nd' \<and> node40_space nd' = 2"
  using node40_insert_pointer [OF sample_wf, of 1 sample_table "sample_hint 3 (SP_PTR \<lparr>ptr_start = 77, ptr_width = 1\<rparr>) 1" 77
      "item_place sample_node (whole_item 1)"]
  by (auto simp: sample_items sample_table_def sample_hint_def nodeptr40_prep_insert_def)

text \<open>
  C4: writing \<open>count\<close> bytes as a new tail item with \<^verbatim>\<open>plain40_prep_write\<close> and \<^verbatim>\<open>node40_write\<close> makes exactly one
  new item whose body is the data, leaves every other item alone, and \<^verbatim>\<open>tail40_read_units\<close> on the fetched
  item reads the data back.
\<close>

theorem node40_write_tail:
  assumes "nd_wf nd" "p \<le> node40_items nd" "0 < th_count hint" "th_count hint + node40_overhead nd \<le> node40_space nd"
    and "tab ITEM_PLAIN40_ID = Some plain40_plug" "th_plug hint = ITEM_PLAIN40_ID" "th_specific hint = SP_DATA data"
    and "pl_pos place = whole_item p" "pl_node place = nd"
  shows "let count = th_count hint; (r, pl, h) = plain40_prep_write place hint in
    \<exists>nd' h' place'. r = 0 \<and> node40_write tab nd (whole_item p) h = Some (int count, nd', h') \<and> nd_wf nd' \<and>
      node40_space nd' = node40_space nd - (count + node40_overhead nd) \<and>
      nd_items nd' = take p (nd_items nd) @ \<lparr>it_key = key_bytes (kbody (th_offset hint)) (key_size (nd_keypol nd)), it_flags = 0,
        it_pid = ITEM_PLAIN40_ID, it_body = mread data 0 count\<rparr> # drop p (nd_items nd) \<and>
      node40_fetch tab nd' (whole_item p) = (0, place') \<and>
      (let (n, pl, h) = tail40_read_units place' hint in n = int count \<and> mread (sp_mem (th_specific h)) 0 count = mread data 0 count)"
proof -
  let ?n = "th_count hint"
  note free = assms(4) [unfolded node40_overhead_def node40_space_def] and w = nd_wfD [OF assms(1)]
  have hdr: "nd_hdr nd \<le> nh_get_free_space_start nd"
    using nd_off_hdr [OF assms(1), of "nh_get_num_items nd"] by (simp add: nd_off_end)
  have n: "?n < 65536" using free w by auto
  have room: "to_s32 (int ?n) = int ?n" "int ?n \<le> to_s32 (int (node_maxspace nd) - 0)"
  proof -
    show "to_s32 (int ?n) = int ?n" using n by (simp add: to_s32_id)
    have "node_maxspace nd = nd_size nd - nd_hdr nd - ih_size (nd_keypol nd)"
      using hdr free w by (auto simp: node_maxspace_def node40_maxspace_def node41_maxspace_def nd_hdr_def to_u16_id split: if_splits)
    then show "int ?n \<le> to_s32 (int (node_maxspace nd) - 0)" using hdr free w by (auto simp: to_s32_id)
  qed
  let ?h = "hint\<lparr>th_overhead := 0, th_len := int ?n, th_maxkey := th_offset hint\<rparr>"
  have prep: "plain40_prep_write place hint = (0, place\<lparr>pl_off := 0\<rparr>, ?h)"
    using room assms(8,9) by (simp add: plain40_prep_write_def tail40_prep_write_def Let_def)
  note a = assms(1) assms(2) [unfolded node40_items_def] assms(3) free
  have fits: "tail_fits pl ?h" if "pl_len pl = ?n" "pl_pos pl = whole_item p" "pl_off pl = 0" for pl
    using that n by (simp add: tail_fits_def tail_at_def to_u32_id)
  obtain pl nd' body where m: "node40_modify tab nd (whole_item p) ?h (Some tail40_write_units) =
        Some (fst (tail40_write_units pl ?h), nd', snd (snd (tail40_write_units pl ?h)))"
      "tail_fits pl ?h" "pl_len pl = ?n" "pl_pos pl = whole_item p" "pl_off pl = 0" "nd_wf nd'" "nh_get_free_space nd' = nh_get_free_space nd - (?n + ih_size (nd_keypol nd))"
      "body = mread (place_mem (fst (snd (tail40_write_units pl ?h)))) (pl_body pl) ?n"
      "nd_items nd' = take p (nd_items nd) @ \<lparr>it_key = key_bytes (kbody (th_offset ?h)) (key_size (nd_keypol nd)),
        it_flags = 0, it_pid = th_plug ?h, it_body = body\<rparr> # drop p (nd_items nd)"
    using tail_write.modify_inserts [OF a, of ?h tab plain40_plug 0] assms(5,6) fits n
    by (auto simp: to_u32_id sets_off_None plain40_plug_def)
  have at: "tail_at pl = 0" "tail_count pl ?h = ?n"
    using m(3-5) n by (simp_all add: tail_at_def tail_count_def to_u32_id)
  note e = tail_write_effect [OF m(2)]
  have "body = mread data 0 ?n"
    unfolding m(8) place_mem_def e(2) using at assms(7)
    by (simp add: node40_mkdirty_def mread_same tail_bytes_def sp_mem_def)
  then have items: "nd_items nd' = take p (nd_items nd) @ \<lparr>it_key = key_bytes (kbody (th_offset hint)) (key_size (nd_keypol nd)),
      it_flags = 0, it_pid = ITEM_PLAIN40_ID, it_body = mread data 0 ?n\<rparr> # drop p (nd_items nd)"
    using m(9) assms(6) by simp
  obtain place' where f: "node40_fetch tab nd' (whole_item p) = (0, place')" "mread (place_mem place') (pl_body place') ?n = mread data 0 ?n"
      "pl_pos place' = whole_item p" "pl_off place' = 0" "pl_len place' = ?n"
    using fetch_inserted [OF m(6) _ items, of tab plain40_plug] assms(2,5)
    by (auto simp: node40_items_def nd_items_def plain40_plug_def)
  have "let (n, pl, h) = tail40_read_units place' hint in n = int ?n \<and> mread (sp_mem (th_specific h)) 0 ?n = mread data 0 ?n"
    using f n by (simp add: tail40_read_units_def tail40_pos_def to_u32_id to_u64_id sp_mem_def mread_memcpy Let_def)
  moreover have "node40_write tab nd (whole_item p) ?h = Some (int ?n, nd', snd (snd (tail40_write_units pl ?h)))"
    using m(1) e(1) at(2) assms(5,6) by (simp add: node40_write_def plain40_plug_def)
  ultimately show ?thesis
    using m(6,7) items f(1) by (simp add: prep node40_space_def node40_overhead_def Let_def)
qed

theorem node40_write_tail_witness:
  "\<exists>nd' h'. node40_write sample_table sample_node (whole_item 2)
      (snd (snd (plain40_prep_write (item_place sample_node (whole_item 2)) (sample_hint 6 (SP_DATA (\<lambda>x. word_of_int x)) 4)))) =
      Some (4, nd', h') \<and> nd_wf nd' \<and> it_body (nd_items nd' ! 2) = [0, 1, 2, 3]"
proof -
  let ?h = "sample_hint 6 (SP_DATA (\<lambda>x. word_of_int x)) 4" and ?pl = "item_place sample_node (whole_item 2)"
  have data: "mread (\<lambda>x. word_of_int x) 0 4 = [0, 1, 2, 3]" by (simp add: mread_def upt_rec)
  have "length (nd_items sample_node) = 2" using sample_items by (simp add: nd_items_def node40_items_def)
  then show ?thesis
    using node40_write_tail [OF sample_wf, of 2 ?h sample_table "\<lambda>x. word_of_int x" ?pl]
    by (auto simp: sample_items sample_table_def sample_hint_def item_place_def Let_def case_prod_unfold data nth_append)
qed

end
