(* ===== verification/NodeShift.thy ===== *)
theory NodeShift
  imports NodeInsert
begin

text \<open>
  Balancing: what \<^verbatim>\<open>node40_shift\<close> and its parts move between two nodes.
\<close>

unbundle bit_operations_syntax

section \<open>The estimate of whole items\<close>

text \<open>
  \<open>k\<close> items leave the source, from its left end or from its right end, and \<open>bytes\<close> is the size of their
  bodies; they fit into the destination.
\<close>

definition predicted :: "node40 \<Rightarrow> bool \<Rightarrow> nat \<Rightarrow> nat \<Rightarrow> nat \<Rightarrow> bool" where
  "predicted src left_shift space k bytes \<longleftrightarrow>
     (let n = nh_get_num_items src
      in k \<le> n \<and> bytes + k * ih_size (nd_keypol src) \<le> space \<and>
         bytes = (if left_shift then nd_off src k - nd_off src 0 else nd_off src n - nd_off src (n - k)))"

lemma predict_len:
  assumes "nd_wf src" "i < nh_get_num_items src"
  shows "(if nd_head src i = nd_head src (nh_get_num_items src - 1)
     then to_u32 (int (nh_get_free_space_start src) - int (ih_get_offset (nd_mem src) (nd_head src i) (nd_keypol src)))
     else to_u32 (int (ih_get_offset (nd_mem src) (nd_head src i - int (ih_size (nd_keypol src))) (nd_keypol src)) -
       int (ih_get_offset (nd_mem src) (nd_head src i) (nd_keypol src)))) = nd_off src (Suc i) - nd_off src i"
proof -
  let ?n = "nh_get_num_items src"
  have b: "nd_off src i \<le> nd_off src (Suc i)" "nd_off src (Suc i) < 65536"
    using nd_off_mono [OF assms(1), of i "Suc i"] assms(2) nd_off_bounds(2) [OF assms(1), of "Suc i"] nd_wfD(2,3) [OF assms(1)]
    by simp_all
  have h: "nd_head src i - int (ih_size (nd_keypol src)) = nd_head src (Suc i)" by (simp add: nd_head_def algebra_simps)
  have e: "nd_head src i = nd_head src (?n - 1) \<longleftrightarrow> Suc i = ?n"
    using assms(2) nd_wfD(1) [OF assms(1)] by (auto simp: nd_head_def)
  have u: "to_u32 (int (nd_off src (Suc i)) - int (nd_off src i)) = nd_off src (Suc i) - nd_off src i"
    using b by (intro to_u32_diff) simp_all
  have o: "ih_get_offset (nd_mem src) (nd_head src i) (nd_keypol src) = nd_off src i"
    using assms(2) by (simp add: nd_off_def)
  show ?thesis
  proof (cases "Suc i = ?n")
    case True
    then show ?thesis using u by (simp only: e o if_True) (simp add: nd_off_end)
  next
    case False
    then have "ih_get_offset (nd_mem src) (nd_head src (Suc i)) (nd_keypol src) = nd_off src (Suc i)"
      using assms(2) by (simp add: nd_off_def)
    then show ?thesis using False u by (simp only: e o h if_False)
  qed
qed

definition predict_ok :: "node40 \<Rightarrow> bool \<Rightarrow> nat \<Rightarrow> shift_hint \<Rightarrow> int \<times> nat \<times> shift_hint \<Rightarrow> bool" where
  "predict_ok src left_shift space0 hint = (\<lambda>(res, space, hint').
     predicted src left_shift space0 (sh_items_number hint') (sh_items_bytes hint') \<and>
     space + (sh_items_bytes hint' + sh_items_number hint' * ih_size (nd_keypol src)) = space0 \<and>
     sh_control hint' = sh_control hint \<and>
     (sh_flag (sh_result hint) SF_MOVE_POINT \<longrightarrow> sh_flag (sh_result hint') SF_MOVE_POINT) \<and>
     (\<not> sh_flag (sh_result hint') SF_MOVE_POINT \<longrightarrow> unit (sh_pos hint') = unit (sh_pos hint) \<and>
        (if left_shift \<and> sh_flag (sh_control hint) SF_UPDATE_POINT
         then item (sh_pos hint') + sh_items_number hint' = item (sh_pos hint) + sh_items_number hint
         else item (sh_pos hint') = item (sh_pos hint))))"

lemma predict_ok_cases:
  "(b \<Longrightarrow> predict_ok s l t h x) \<Longrightarrow> (\<not> b \<Longrightarrow> predict_ok s l t h y) \<Longrightarrow> predict_ok s l t h (if b then x else y)"
  "(\<And>u v. pr = (u, v) \<Longrightarrow> predict_ok s l t h (f u v)) \<Longrightarrow> predict_ok s l t h (case pr of (u, v) \<Rightarrow> f u v)"
  "(op = None \<Longrightarrow> predict_ok s l t h x) \<Longrightarrow> (\<And>g. op = Some g \<Longrightarrow> predict_ok s l t h (k g)) \<Longrightarrow>
    predict_ok s l t h (case op of None \<Rightarrow> x | Some g \<Rightarrow> k g)"
  by (auto split: prod.split option.split)

lemma predict_loop:
  assumes wf: "nd_wf src" and ov: "overhead = ih_size (nd_keypol src)" and lt: "space0 < 65536"
    and "predict_ok src (sh_flag (sh_control hint) SF_ALLOW_LEFT) space0 hint (0, space, hint)"
    and "sh_items_number hint + n = nh_get_num_items src" "sh_control hint = flags"
    and "0 < n \<Longrightarrow> cur = nd_head src (if sh_flag flags SF_ALLOW_LEFT then sh_items_number hint else n - 1)"
  shows "predict_ok src (sh_flag flags SF_ALLOW_LEFT) space0 hint
    (node40_predict_loop tab src overhead flags (nd_head src (nh_get_num_items src - 1)) cur space dst_items n hint)"
  using assms(4-)
proof (induction n arbitrary: hint cur space dst_items)
  case 0
  then show ?case by simp
next
  case (Suc n)
  let ?left = "sh_flag flags SF_ALLOW_LEFT" and ?n = "nh_get_num_items src" and ?k = "sh_items_number hint"
  let ?i = "if ?left then ?k else n" and ?h = "ih_size (nd_keypol src)"
  let ?len = "nd_off src (Suc ?i) - nd_off src ?i"
  let ?cur = "cur + (if ?left then - int ?h else int ?h)"
  have i: "?i < ?n" using Suc.prems by auto
  note len = predict_len [OF wf i]
  have cur: "cur = nd_head src ?i" using Suc.prems(4) by simp
  have le: "nd_off src ?i \<le> nd_off src (Suc ?i)" using nd_off_mono [OF wf, of ?i "Suc ?i"] i by simp
  note ok = Suc.prems(1) [unfolded predict_ok_def predicted_def Let_def Suc.prems(3)]
  have stay: "predict_ok src ?left space0 hint (r, space, g)"
    if "sh_items_number g = ?k" "sh_items_bytes g = sh_items_bytes hint" "sh_control g = flags"
      "sh_flag (sh_result g) SF_MOVE_POINT \<or> sh_pos g = sh_pos hint \<and> sh_result g = sh_result hint"
      "\<not> (?left \<and> sh_flag flags SF_UPDATE_POINT) \<or> sh_pos g = sh_pos hint" for r g
    using ok that Suc.prems(3) by (auto simp: predict_ok_def predicted_def)
  have "nd_off src (Suc ?i) < 65536" using nd_off_bounds(2) [OF wf, of "Suc ?i"] nd_wfD(2,3) [OF wf] by simp
  then have u: "to_u32 (int ?len + int overhead) = ?len + overhead"
    using nd_wfD(1) [OF wf] ov by (intro to_u32_add) auto
  have step: "predict_ok src ?left space0 hint (node40_predict_loop tab src overhead flags (nd_head src (?n - 1)) ?cur
      (to_u32 (int space - int (to_u32 (int ?len + int overhead)))) (dst_items + 1) n
      (g\<lparr>sh_items_number := sh_items_number g + 1, sh_items_bytes := sh_items_bytes g + ?len\<rparr>))"
    if g: "sh_items_number g = ?k" "sh_items_bytes g = sh_items_bytes hint" "sh_control g = flags"
      and moved: "sh_flag (sh_result g) SF_MOVE_POINT \<or> sh_result g = sh_result hint \<and> unit (sh_pos g) = unit (sh_pos hint) \<and>
        (if ?left \<and> sh_flag flags SF_UPDATE_POINT then item (sh_pos g) + 1 = item (sh_pos hint) else item (sh_pos g) = item (sh_pos hint))"
      and fit: "\<not> space < to_u32 (int ?len + int overhead)" for g
  proof -
    have s: "to_u32 (int space - int (?len + overhead)) = space - (?len + overhead)"
      using fit u ok lt by (intro to_u32_diff) (auto simp: Suc.prems(3))
    let ?g = "g\<lparr>sh_items_number := sh_items_number g + 1, sh_items_bytes := sh_items_bytes g + ?len\<rparr>"
    have fit': "?len + overhead \<le> space" using fit u by simp
    have pr: "predicted src ?left space0 (Suc ?k) (sh_items_bytes hint + ?len)"
    proof -
      have sum: "sh_items_bytes hint + ?len + Suc ?k * ?h \<le> space0" using ok fit' ov by simp
      have "sh_items_bytes hint + ?len = (if ?left then nd_off src (Suc ?k) - nd_off src 0 else nd_off src ?n - nd_off src (?n - Suc ?k))"
      proof (cases ?left)
        case True
        have "nd_off src 0 \<le> nd_off src ?k" using nd_off_mono [OF wf, of 0 ?k] i True by simp
        then show ?thesis using ok le True by simp
      next
        case False
        have n: "?n - ?k = Suc n" "?n - Suc ?k = n" using Suc.prems(2) by simp_all
        have "nd_off src (Suc n) \<le> nd_off src ?n" using nd_off_mono [OF wf, of "Suc n" ?n] i False by simp
        then show ?thesis using ok le False n by simp
      qed
      moreover have "Suc ?k \<le> ?n" using Suc.prems(2) by simp
      ultimately show ?thesis using sum by (simp add: predicted_def)
    qed
    have "predict_ok src (sh_flag (sh_control ?g) SF_ALLOW_LEFT) space0 ?g (0, space - (?len + overhead), ?g)"
      using pr ok fit' ov g by (simp add: predict_ok_def)
    moreover have "sh_items_number ?g + n = ?n" using Suc.prems(2) g by simp
    moreover have "?cur = nd_head src (if ?left then sh_items_number ?g else n - 1)" if "0 < n"
      using that g cur by (auto simp: nd_head_def algebra_simps of_nat_diff)
    ultimately have "predict_ok src ?left space0 ?g (node40_predict_loop tab src overhead flags (nd_head src (?n - 1)) ?cur
        (space - (?len + overhead)) (dst_items + 1) n ?g)"
      using g by (intro Suc.IH) simp_all
    then show ?thesis
      using g s moved Suc.prems(3) by (auto simp: u predict_ok_def split: if_splits)
  qed
  show ?case
    unfolding node40_predict_loop.simps Let_def cur len
    by (intro predict_ok_cases step [unfolded cur] stay; simp add: Suc.prems(3) del: One_nat_def)
qed

section \<open>Moving whole items\<close>

lemma predict_correct:
  assumes "nd_wf src" "nd_wf dst" "nd_keypol src = nd_keypol dst" "sh_items_number hint = 0" "sh_items_bytes hint = 0"
    and "node40_predict tab src dst hint = (res, hint')"
  shows "predicted src (sh_flag (sh_control hint) SF_ALLOW_LEFT) (node40_space dst) (sh_items_number hint') (sh_items_bytes hint')"
    and "sh_control hint' = sh_control hint"
    and "\<not> sh_flag (sh_result hint') SF_MOVE_POINT \<Longrightarrow> \<not> sh_flag (sh_result hint) SF_MOVE_POINT \<and>
      unit (sh_pos hint') = unit (sh_pos hint) \<and>
      item (sh_pos hint) = (if sh_flag (sh_control hint) SF_ALLOW_LEFT \<and> sh_flag (sh_control hint) SF_UPDATE_POINT
        then item (sh_pos hint') + sh_items_number hint' else item (sh_pos hint'))"
proof -
  let ?n = "nh_get_num_items src" and ?left = "sh_flag (sh_control hint) SF_ALLOW_LEFT"
  have n: "?n < 65536" and sp: "node40_space dst < 65536"
    using nd_wfD [OF assms(1)] nd_wfD(2,3) [OF assms(2)] by (auto simp: node40_space_def)
  have "predicted src ?left (node40_space dst) (sh_items_number hint') (sh_items_bytes hint') \<and> sh_control hint' = sh_control hint \<and>
    (\<not> sh_flag (sh_result hint') SF_MOVE_POINT \<longrightarrow> \<not> sh_flag (sh_result hint) SF_MOVE_POINT \<and>
      unit (sh_pos hint') = unit (sh_pos hint) \<and>
      item (sh_pos hint) = (if ?left \<and> sh_flag (sh_control hint) SF_UPDATE_POINT
        then item (sh_pos hint') + sh_items_number hint' else item (sh_pos hint')))"
  proof (cases "?n = 0")
    case True
    then show ?thesis using assms(4-6) by (auto simp: node40_predict_def predicted_def nd_off_def)
  next
    case False
    then have ih: "node40_ih_at src (?n - 1) = nd_head src (?n - 1)" "node40_ih_at src 0 = nd_head src 0"
      using n by (simp_all add: ih_at_head)
    let ?cur = "if ?left then nd_head src 0 else nd_head src (?n - 1)"
    obtain r space g where l: "node40_predict_loop tab src (node40_overhead dst) (sh_control hint) (nd_head src (?n - 1)) ?cur
        (node40_space dst) (nh_get_num_items dst) ?n hint = (r, space, g)" using prod_cases3 by blast
    have "predict_ok src ?left (node40_space dst) hint (r, space, g)"
      unfolding l [symmetric]
      by (rule predict_loop [OF assms(1) _ sp])
        (use assms(3-5) in \<open>simp_all add: node40_overhead_def predict_ok_def predicted_def\<close>)
    moreover have "hint' = (if r \<noteq> 0 then g else g\<lparr>sh_units_bytes := space\<rparr>)"
      using assms(6) False l by (auto simp: node40_predict_def ih [unfolded One_nat_def] Let_def split: if_splits)
    ultimately show ?thesis using assms(4) by (auto simp: predict_ok_def split: if_splits)
  qed
  then show "predicted src ?left (node40_space dst) (sh_items_number hint') (sh_items_bytes hint')"
    "sh_control hint' = sh_control hint"
    "\<not> sh_flag (sh_result hint') SF_MOVE_POINT \<Longrightarrow> \<not> sh_flag (sh_result hint) SF_MOVE_POINT \<and>
      unit (sh_pos hint') = unit (sh_pos hint) \<and>
      item (sh_pos hint) = (if ?left \<and> sh_flag (sh_control hint) SF_UPDATE_POINT
        then item (sh_pos hint') + sh_items_number hint' else item (sh_pos hint'))" by simp_all
qed

text \<open>The items of two neighbours, in the order of the tree.\<close>

definition joint_items :: "bool \<Rightarrow> node40 \<Rightarrow> node40 \<Rightarrow> node_item list" where
  "joint_items left_shift src dst = (if left_shift then nd_items dst @ nd_items src else nd_items src @ nd_items dst)"

lemma nh_same [simp]:
  "nd_keypol (nh_set_num_items nd v) = nd_keypol nd" "nd_keypol (nh_set_free_space nd v) = nd_keypol nd"
  "nd_keypol (nh_set_free_space_start nd v) = nd_keypol nd" "nd_kplug (nh_set_num_items nd v) = nd_kplug nd"
  "nd_kplug (nh_set_free_space nd v) = nd_kplug nd" "nd_kplug (nh_set_free_space_start nd v) = nd_kplug nd"
  "nd_size (nh_set_num_items nd v) = nd_size nd" "nd_size (nh_set_free_space nd v) = nd_size nd"
  "nd_size (nh_set_free_space_start nd v) = nd_size nd"
  by (simp_all add: nh_set_num_items_def nh_set_free_space_def nh_set_free_space_start_def)

lemmas nh_updates = nh_inc_free_space_def nh_dec_free_space_def nh_inc_free_space_start_def nh_dec_free_space_start_def
  nh_inc_num_items_def nh_dec_num_items_def node40_mkdirty_def

lemma node_ops_same [simp]:
  "nd_keypol (snd (node40_expand nd ps len count)) = nd_keypol nd" "nd_kplug (snd (node40_expand nd ps len count)) = nd_kplug nd"
  "nd_keypol (snd (node40_shrink nd ps len count)) = nd_keypol nd" "nd_kplug (snd (node40_shrink nd ps len count)) = nd_kplug nd"
  "nd_keypol (snd (node40_copy nd ps nd' ps' count)) = nd_keypol nd" "nd_kplug (snd (node40_copy nd ps nd' ps' count)) = nd_kplug nd"
  "nd_size (snd (node40_expand nd ps len count)) = nd_size nd" "nd_size (snd (node40_copy nd ps nd' ps' count)) = nd_size nd"
  by (simp_all add: node40_expand_def node40_shrink_def node40_copy_def Let_def case_prod_unfold nh_updates)

lemma node40_move_eq:
  assumes "node40_predict tab src dst hint = (0, hint1)" "sh_items_number hint1 \<noteq> 0" "sh_items_bytes hint1 \<noteq> 0"
  defines "k \<equiv> sh_items_number hint1" and "sz \<equiv> sh_items_bytes hint1"
  defines "sp \<equiv> (if sh_flag (sh_control hint1) SF_ALLOW_LEFT then 0 else to_u32 (int (nh_get_num_items src) - int k))"
    and "dp \<equiv> (if sh_flag (sh_control hint1) SF_ALLOW_LEFT then nh_get_num_items dst else 0)"
  shows "node40_move tab src dst hint =
    (let (r1, d1) = node40_expand dst (whole_item dp) sz k;
         (r2, d2) = node40_copy d1 (whole_item dp) src (whole_item sp) k;
         (r3, s3) = node40_shrink src (whole_item sp) sz k
     in if r1 \<noteq> 0 then (r1, src, d1, hint1) else if r2 \<noteq> 0 then (r2, src, d2, hint1)
        else (r3, s3, d2, hint1\<lparr>sh_update := True\<rparr>))"
  using assms(1-3) by (auto simp: node40_move_def Let_def case_prod_unfold k_def sz_def sp_def dp_def)

text \<open>
  The insert point, as long as it is kept up in the source, is behind the items or inside of one; items
  are not empty.
\<close>

definition point_ok :: "shift_hint \<Rightarrow> node40 \<Rightarrow> bool" where
  "point_ok hint src \<longleftrightarrow>
     (sh_flag (sh_control hint) SF_UPDATE_POINT \<and> \<not> sh_flag (sh_result hint) SF_MOVE_POINT \<and>
        item (sh_pos hint) < nh_get_num_items src \<longrightarrow>
      unit (sh_pos hint) = MAX_UINT32 \<or> unit (sh_pos hint) \<le> length (it_body (nd_items src ! item (sh_pos hint))))"

definition nd_full :: "node40 \<Rightarrow> bool" where
  "nd_full nd \<longleftrightarrow> (\<forall>it \<in> set (nd_items nd). it_body it \<noteq> [])"

lemma nd_full_off:
  assumes "nd_wf nd" "nd_full nd" "i < j" "j \<le> nh_get_num_items nd"
  shows "nd_off nd i < nd_off nd j"
proof -
  have "it_body (nd_item nd i) \<noteq> []" using assms by (auto simp: nd_full_def nd_items_def)
  then have "nd_off nd i < nd_off nd (Suc i)" by (auto simp: nd_item_def mread_def)
  then show ?thesis using nd_off_mono [OF assms(1), of "Suc i" j] assms(3,4) by simp
qed

lemma move_step:
  assumes "nd_wf src" "nd_wf dst" "nd_keypol src = nd_keypol dst" "sh_items_number hint = 0" "sh_items_bytes hint = 0"
    and p: "node40_predict tab src dst hint = (0, hint1)" and k: "sh_items_number hint1 \<noteq> 0" "sh_items_bytes hint1 \<noteq> 0"
    and "node40_move tab src dst hint = (res, src', dst', hint')"
  defines "left_shift \<equiv> sh_flag (sh_control hint) SF_ALLOW_LEFT" and "k \<equiv> sh_items_number hint1" and "n \<equiv> nh_get_num_items src"
  defines "sp \<equiv> (if left_shift then 0 else n - k)" and "dp \<equiv> (if left_shift then nh_get_num_items dst else 0)"
  shows "res = 0" "nd_wf src'" "nd_wf dst'" "hint' = hint1\<lparr>sh_update := True\<rparr>"
    "nd_items dst' = take dp (nd_items dst) @ take k (drop sp (nd_items src)) @ drop dp (nd_items dst)"
    "nd_items src' = take sp (nd_items src) @ drop (sp + k) (nd_items src)"
    "nd_keypol src' = nd_keypol src" "nd_keypol dst' = nd_keypol dst"
    "nd_size dst' = nd_size dst" "nd_plug dst' = nd_plug dst" "k \<le> n"
proof -
  note pc = predict_correct [OF assms(1-5) p]
  let ?sz = "sh_items_bytes hint1"
  note d = pc(1) [unfolded predicted_def Let_def, folded k_def n_def left_shift_def]
  have n: "n < 65536" using nd_wfD [OF assms(1)] by (auto simp: n_def)
  show "k \<le> n" using d by simp
  have spk: "sp + k \<le> n" using d by (auto simp: sp_def)
  have size: "node40_size src (whole_item sp) k = ?sz"
    using node40_size_eq [OF assms(1) spk [unfolded n_def]] k d by (auto simp: sp_def n_def k_def)
  have sp: "(if sh_flag (sh_control hint1) SF_ALLOW_LEFT then 0 else to_u32 (int (nh_get_num_items src) - int (sh_items_number hint1))) = sp"
    using pc(2) d n by (simp add: to_u32_diff sp_def left_shift_def n_def k_def)
  have dp: "(if sh_flag (sh_control hint1) SF_ALLOW_LEFT then nh_get_num_items dst else 0) = dp"
    using pc(2) by (simp add: dp_def left_shift_def)
  have mv: "let (r1, d1) = node40_expand dst (whole_item dp) ?sz k;
      (r2, d2) = node40_copy d1 (whole_item dp) src (whole_item sp) k;
      (r3, s3) = node40_shrink src (whole_item sp) ?sz k
    in r1 = 0 \<and> r2 = 0 \<and> r3 = 0 \<and> nd_wf d2 \<and> nd_wf s3 \<and>
      nd_items d2 = take dp (nd_items dst) @ take k (drop sp (nd_items src)) @ drop dp (nd_items dst) \<and>
      nd_items s3 = take sp (nd_items src) @ drop (sp + k) (nd_items src)"
    using move_items [OF assms(2,1,3), of dp sp k] spk k d size assms(3)
    by (simp add: node40_items_def node40_overhead_def Let_def k_def n_def dp_def del: One_nat_def)
  have "node40_move tab src dst hint =
    (let (r1, d1) = node40_expand dst (whole_item dp) ?sz k;
         (r2, d2) = node40_copy d1 (whole_item dp) src (whole_item sp) k;
         (r3, s3) = node40_shrink src (whole_item sp) ?sz k
     in if r1 \<noteq> 0 then (r1, src, d1, hint1) else if r2 \<noteq> 0 then (r2, src, d2, hint1)
        else (r3, s3, d2, hint1\<lparr>sh_update := True\<rparr>))"
    using node40_move_eq [OF p k] unfolding sp dp k_def by simp
  then show "res = 0" "nd_wf src'" "nd_wf dst'" "hint' = hint1\<lparr>sh_update := True\<rparr>"
      "nd_items dst' = take dp (nd_items dst) @ take k (drop sp (nd_items src)) @ drop dp (nd_items dst)"
      "nd_items src' = take sp (nd_items src) @ drop (sp + k) (nd_items src)"
      "nd_keypol src' = nd_keypol src" "nd_keypol dst' = nd_keypol dst" "nd_size dst' = nd_size dst" "nd_plug dst' = nd_plug dst"
    using mv assms(9) by (simp_all add: Let_def case_prod_unfold)
qed

lemma move_nothing:
  assumes "node40_predict tab src dst hint = (r, hint1)" "\<not> (r = 0 \<and> sh_items_number hint1 \<noteq> 0 \<and> sh_items_bytes hint1 \<noteq> 0)"
  shows "node40_move tab src dst hint = (r, src, dst, hint1)"
  using assms by (auto simp: node40_move_def Let_def)

lemma predicted_empty:
  assumes "nd_wf src" "nd_full src" "predicted src left_shift space k 0"
  shows "k = 0"
proof (rule ccontr)
  assume "k \<noteq> 0"
  then show False
    using assms(3) nd_full_off [OF assms(1,2), of 0 k] nd_full_off [OF assms(1,2), of "nh_get_num_items src - k" "nh_get_num_items src"]
    by (auto simp: predicted_def Let_def split: if_splits)
qed

lemma move_correct:
  assumes "nd_wf src" "nd_wf dst" "nd_keypol src = nd_keypol dst" "sh_items_number hint = 0" "sh_items_bytes hint = 0"
    and "node40_move tab src dst hint = (res, src', dst', hint')"
  shows "nd_wf src' \<and> nd_wf dst' \<and> joint_items (sh_flag (sh_control hint) SF_ALLOW_LEFT) src' dst' =
      joint_items (sh_flag (sh_control hint) SF_ALLOW_LEFT) src dst \<and>
    nd_keypol src' = nd_keypol src \<and> nd_keypol dst' = nd_keypol dst \<and> sh_control hint' = sh_control hint \<and>
    (nd_full src \<longrightarrow> nd_full src') \<and> (nd_full src \<and> point_ok hint src \<and> res = 0 \<longrightarrow> point_ok hint' src')"
proof -
  let ?left = "sh_flag (sh_control hint) SF_ALLOW_LEFT" and ?n = "nh_get_num_items src"
  obtain r hint1 where p: "node40_predict tab src dst hint = (r, hint1)" by fastforce
  note pc = predict_correct [OF assms(1-5) p]
  let ?k = "sh_items_number hint1" and ?sz = "sh_items_bytes hint1"
  show ?thesis
  proof (cases "r = 0 \<and> ?k \<noteq> 0 \<and> ?sz \<noteq> 0")
    case False
    have "point_ok hint1 src" if "nd_full src" "point_ok hint src" "r = 0"
      using predicted_empty [OF assms(1) that(1), of ?left "node40_space dst" ?k] pc False that(2,3)
      by (auto simp: point_ok_def split: if_splits)
    then show ?thesis using move_nothing [OF p False] assms pc(2) by auto
  next
    case True
    then have t: "node40_predict tab src dst hint = (0, hint1)" "?k \<noteq> 0" "?sz \<noteq> 0" using p by simp_all
    note r = move_step [OF assms(1-5) t assms(6)]
    have len: "length (nd_items src') = nh_get_num_items src'" by (simp add: nd_items_def)
    have "joint_items ?left src' dst' = joint_items ?left src dst"
      using r(5,6,11) by (cases ?left) (auto simp: joint_items_def)
    moreover have "nd_full src'" if "nd_full src"
      using that r(6) by (auto simp: nd_full_def dest: in_set_takeD in_set_dropD)
    moreover have "point_ok hint' src'" if "point_ok hint src"
    proof (cases "sh_flag (sh_control hint) SF_UPDATE_POINT \<and> \<not> sh_flag (sh_result hint1) SF_MOVE_POINT \<and> item (sh_pos hint1) < nh_get_num_items src'")
      case upd: True
      have n': "nh_get_num_items src' = ?n - ?k" using len r(6,11) by auto
      have same: "nd_items src' ! item (sh_pos hint1) = nd_items src ! item (sh_pos hint)" "item (sh_pos hint) < ?n"
        using pc(3) upd n' r(6) by (auto simp: nth_append add.commute split: if_splits)
      then show ?thesis using that upd pc(2,3) r(4) by (auto simp: point_ok_def)
    qed (auto simp: point_ok_def r(4) pc(2))
    ultimately show ?thesis using r pc(2) by auto
  qed
qed

section \<open>Moving as much as fits\<close>

text \<open>
  When the insert point is not followed, the loop goes on until the items are exhausted or the one at the
  edge does not fit.
\<close>

definition nd_edge_len :: "node40 \<Rightarrow> bool \<Rightarrow> nat \<Rightarrow> nat" where
  "nd_edge_len src left_shift k =
     (let i = (if left_shift then k else nh_get_num_items src - 1 - k) in nd_off src (Suc i) - nd_off src i)"

lemma predict_loop_fills:
  assumes wf: "nd_wf src" and ov: "overhead = ih_size (nd_keypol src)"
    and go: "\<not> sh_flag flags SF_UPDATE_POINT" "sh_flag flags SF_MOVE_POINT \<or> \<not> sh_flag flags SF_ALLOW_RIGHT"
    and "sh_items_number hint + n = nh_get_num_items src" "\<not> sh_flag (sh_result hint) SF_MOVE_POINT"
    and "0 < n \<Longrightarrow> cur = nd_head src (if sh_flag flags SF_ALLOW_LEFT then sh_items_number hint else n - 1)"
    and "node40_predict_loop tab src overhead flags (nd_head src (nh_get_num_items src - 1)) cur space dst_items n hint
      = (res, space', hint')"
  shows "res = 0 \<and> \<not> sh_flag (sh_result hint') SF_MOVE_POINT \<and>
    (sh_items_number hint' = nh_get_num_items src \<or>
     space' < nd_edge_len src (sh_flag flags SF_ALLOW_LEFT) (sh_items_number hint') + overhead)"
  using assms(5-)
proof (induction n arbitrary: hint cur space dst_items)
  case (Suc n)
  let ?left = "sh_flag flags SF_ALLOW_LEFT" and ?n = "nh_get_num_items src" and ?k = "sh_items_number hint"
  let ?i = "if ?left then ?k else n"
  let ?len = "nd_off src (Suc ?i) - nd_off src ?i"
  let ?cur = "cur + (if ?left then - int (ih_size (nd_keypol src)) else int (ih_size (nd_keypol src)))"
  have i: "?i < ?n" "n = ?n - 1 - ?k" using Suc.prems(1) by auto
  note len = predict_len [OF wf i(1)]
  have cur: "cur = nd_head src ?i" using Suc.prems(3) by simp
  have edge: "nd_edge_len src ?left ?k = ?len" using i(2) by (simp add: nd_edge_len_def Let_def)
  have "nd_off src (Suc ?i) < 65536" using nd_off_bounds(2) [OF wf, of "Suc ?i"] nd_wfD(2,3) [OF wf] by simp
  then have u: "to_u32 (int ?len + int overhead) = ?len + overhead"
    using nd_wfD(1) [OF wf] ov by (intro to_u32_add) auto
  let ?g = "hint\<lparr>sh_items_number := ?k + 1, sh_items_bytes := sh_items_bytes hint + ?len\<rparr>"
  let ?rest = "node40_predict_loop tab src overhead flags (nd_head src (?n - 1)) ?cur
      (to_u32 (int space - int (?len + overhead))) (dst_items + 1) n ?g"
  have eq: "node40_predict_loop tab src overhead flags (nd_head src (?n - 1)) cur space dst_items (Suc n) hint
      = (if space < ?len + overhead then (0, space, hint) else ?rest)"
    using go Suc.prems(2) unfolding node40_predict_loop.simps Let_def cur len u by auto
  show ?case
  proof (cases "space < ?len + overhead")
    case True
    then show ?thesis using Suc.prems(2,4) edge unfolding eq by auto
  next
    case False
    then have "?rest = (res, space', hint')" using Suc.prems(4) unfolding eq by simp
    moreover have "?cur = nd_head src (if ?left then sh_items_number ?g else n - 1)" if "0 < n"
      using that cur by (auto simp: nd_head_def algebra_simps of_nat_diff)
    ultimately show ?thesis using Suc.prems(1,2) by (intro Suc.IH [of ?g]) simp_all
  qed
qed simp

text \<open>Every byte of the block is accounted for.\<close>

lemma nd_off_sum:
  assumes "nd_wf nd"
  shows "k \<le> nh_get_num_items nd \<Longrightarrow> nd_off nd k = nd_hdr nd + sum_list (map (\<lambda>it. length (it_body it)) (take k (nd_items nd)))"
proof (induction k)
  case 0
  then show ?case using assms by (simp add: nd_wf_def)
next
  case (Suc k)
  have "nd_off nd k \<le> nd_off nd (Suc k)" using nd_off_mono [OF assms, of k "Suc k"] Suc.prems by simp
  moreover have "length (it_body (nd_item nd k)) = nd_off nd (Suc k) - nd_off nd k" by (simp add: nd_item_def mread_def)
  ultimately show ?case using Suc by (simp add: take_Suc_conv_app_nth)
qed

definition items_room :: "nat \<Rightarrow> node_item list \<Rightarrow> nat" where
  "items_room overhead its = sum_list (map (\<lambda>it. length (it_body it) + overhead) its)"

lemma items_room_simps [simp]:
  "items_room overhead [] = 0" "items_room overhead (it # its) = length (it_body it) + overhead + items_room overhead its"
  "items_room overhead (xs @ ys) = items_room overhead xs + items_room overhead ys"
  by (simp_all add: items_room_def)

lemma items_room_sum: "items_room overhead its = sum_list (map (\<lambda>it. length (it_body it)) its) + overhead * length its"
  by (induction its) auto

lemma nd_space_room:
  assumes "nd_wf nd"
  shows "node40_space nd + items_room (node40_overhead nd) (nd_items nd) + nd_hdr nd = nd_size nd"
  using nd_off_sum [OF assms, of "nh_get_num_items nd"] nd_wfD(2) [OF assms]
  by (simp add: node40_space_def node40_overhead_def items_room_sum nd_off_end algebra_simps)

lemma nd_edge_len_item:
  assumes "k < nh_get_num_items src"
  shows "nd_edge_len src left_shift k = length (it_body (if left_shift then nd_items src ! k else nd_items src ! (nh_get_num_items src - 1 - k)))"
  using assms by (auto simp: nd_edge_len_def Let_def nd_item_def mread_def)

lemma predict_fills:
  assumes "nd_wf src" "nd_wf dst" "nd_keypol src = nd_keypol dst" "sh_items_number hint = 0" "sh_items_bytes hint = 0"
    and go: "\<not> sh_flag (sh_control hint) SF_UPDATE_POINT" "sh_flag (sh_control hint) SF_MOVE_POINT \<or> \<not> sh_flag (sh_control hint) SF_ALLOW_RIGHT"
      "\<not> sh_flag (sh_result hint) SF_MOVE_POINT"
    and "node40_predict tab src dst hint = (r, hint1)"
  defines "k \<equiv> sh_items_number hint1"
  shows "r = 0 \<and> (k = nh_get_num_items src \<or>
    node40_space dst - (sh_items_bytes hint1 + k * node40_overhead dst)
      < nd_edge_len src (sh_flag (sh_control hint) SF_ALLOW_LEFT) k + node40_overhead dst)"
proof -
  let ?n = "nh_get_num_items src" and ?left = "sh_flag (sh_control hint) SF_ALLOW_LEFT"
  have n: "?n < 65536" and sp: "node40_space dst < 65536"
    using nd_wfD [OF assms(1)] nd_wfD(2,3) [OF assms(2)] by (auto simp: node40_space_def)
  show ?thesis
  proof (cases "?n = 0")
    case True
    then show ?thesis using assms(4,9) by (auto simp: node40_predict_def k_def)
  next
    case False
    then have ih: "node40_ih_at src (?n - 1) = nd_head src (?n - 1)" "node40_ih_at src 0 = nd_head src 0"
      using n by (simp_all add: ih_at_head)
    let ?cur = "if ?left then nd_head src 0 else nd_head src (?n - 1)"
    obtain r' space g where l: "node40_predict_loop tab src (node40_overhead dst) (sh_control hint) (nd_head src (?n - 1)) ?cur
        (node40_space dst) (nh_get_num_items dst) ?n hint = (r', space, g)" using prod_cases3 by blast
    have ov: "node40_overhead dst = ih_size (nd_keypol src)" using assms(3) by (simp add: node40_overhead_def)
    have "predict_ok src ?left (node40_space dst) hint (r', space, g)"
      unfolding l [symmetric]
      by (rule predict_loop [OF assms(1) ov sp])
        (use assms(4,5) in \<open>simp_all add: predict_ok_def predicted_def\<close>)
    moreover have "r' = 0 \<and> (sh_items_number g = ?n \<or> space < nd_edge_len src ?left (sh_items_number g) + node40_overhead dst)"
      using predict_loop_fills [OF assms(1) ov go(1,2) _ go(3) _ l] assms(4) by simp
    moreover have "r = r' \<and> hint1 = (if r' \<noteq> 0 then g else g\<lparr>sh_units_bytes := space\<rparr>)"
      using assms(9) False l by (auto simp: node40_predict_def ih [unfolded One_nat_def] Let_def split: if_splits)
    ultimately show ?thesis using ov by (auto simp: predict_ok_def k_def)
  qed
qed

lemma moved_room:
  assumes "nd_wf src" "k \<le> nh_get_num_items src"
  defines "n \<equiv> nh_get_num_items src"
  shows "items_room h (take k (drop (if left_shift then 0 else n - k) (nd_items src))) =
    (if left_shift then nd_off src k - nd_off src 0 else nd_off src n - nd_off src (n - k)) + k * h"
proof -
  have sum: "sum_list (map (\<lambda>it. length (it_body it)) (take j (nd_items src))) = nd_off src j - nd_off src 0" if "j \<le> n" for j
    using nd_off_sum [OF assms(1), of j] nd_off_sum [OF assms(1), of 0] that by (simp add: n_def)
  show ?thesis
  proof (cases left_shift)
    case True
    then show ?thesis using sum [of k] assms(2) by (simp add: items_room_sum n_def min_def)
  next
    case False
    have "sum_list (map (\<lambda>it. length (it_body it)) (take n (nd_items src))) =
        sum_list (map (\<lambda>it. length (it_body it)) (take (n - k) (nd_items src))) +
        sum_list (map (\<lambda>it. length (it_body it)) (drop (n - k) (nd_items src)))"
      by (simp add: n_def flip: sum_list_append map_append)
    moreover have "nd_off src 0 \<le> nd_off src (n - k)" "nd_off src (n - k) \<le> nd_off src n"
      using nd_off_mono [OF assms(1), of 0 "n - k"] nd_off_mono [OF assms(1), of "n - k" n] by (simp_all add: n_def)
    ultimately have "sum_list (map (\<lambda>it. length (it_body it)) (drop (n - k) (nd_items src))) = nd_off src n - nd_off src (n - k)"
      using sum [of n] sum [of "n - k"] by linarith
    then show ?thesis using False assms(2) by (simp add: items_room_sum n_def)
  qed
qed

section \<open>The properties\<close>

text \<open>
  C3: \<^verbatim>\<open>node40_move\<close>, which shifts whole items to the left or to the right neighbour, loses and invents
  nothing: whatever the hint asks for, both nodes stay well formed and the items of the two nodes, read in the
  order of the tree, are the same items in the same order, with the same keys, flags, plugins and bodies.
\<close>

theorem node40_move_keeps:
  assumes "nd_wf src" "nd_wf dst" "nd_keypol src = nd_keypol dst" "sh_items_number hint = 0" "sh_items_bytes hint = 0"
    and "node40_move tab src dst hint = (res, src', dst', hint')"
  shows "nd_wf src' \<and> nd_wf dst' \<and>
    (if sh_flag (sh_control hint) SF_ALLOW_LEFT then nd_items dst' @ nd_items src' = nd_items dst @ nd_items src
     else nd_items src' @ nd_items dst' = nd_items src @ nd_items dst)"
  using move_correct [OF assms] by (auto simp: joint_items_def)

lemma last_take: "0 < j \<Longrightarrow> j \<le> length xs \<Longrightarrow> List.last (take j xs) = xs ! (j - 1)"
  by (subst last_conv_nth) auto

text \<open>
  C2: \<^verbatim>\<open>node40_move\<close> moves as much as fits: when the insert point need not be followed (packing, as in
  removals and repair) it succeeds, and afterwards the source is empty or the item at its edge, together
  with an item header, is larger than the space that is left in the destination.
\<close>

theorem node40_move_fills:
  assumes "nd_wf src" "nd_wf dst" "nd_keypol src = nd_keypol dst" "nd_full src" "sh_items_number hint = 0" "sh_items_bytes hint = 0"
    and go: "\<not> sh_flag (sh_control hint) SF_UPDATE_POINT" "sh_flag (sh_control hint) SF_MOVE_POINT \<or> \<not> sh_flag (sh_control hint) SF_ALLOW_RIGHT"
      "\<not> sh_flag (sh_result hint) SF_MOVE_POINT"
    and "node40_move tab src dst hint = (res, src', dst', hint')"
  shows "res = 0 \<and> (nd_items src' = [] \<or>
    node40_space dst' < length (it_body (if sh_flag (sh_control hint) SF_ALLOW_LEFT then hd (nd_items src') else List.last (nd_items src')))
      + node40_overhead dst)"
proof -
  let ?left = "sh_flag (sh_control hint) SF_ALLOW_LEFT" and ?n = "nh_get_num_items src"
  obtain r hint1 where p: "node40_predict tab src dst hint = (r, hint1)" by fastforce
  note pc = predict_correct [OF assms(1-3,5,6) p]
  let ?k = "sh_items_number hint1"
  have f: "r = 0 \<and> (?k = ?n \<or> node40_space dst - (sh_items_bytes hint1 + ?k * node40_overhead dst) < nd_edge_len src ?left ?k + node40_overhead dst)"
    by (rule predict_fills [OF assms(1-3,5-9) p])
  have k: "?k \<le> ?n" using pc(1) by (simp add: predicted_def Let_def)
  show ?thesis
  proof (cases "?k \<noteq> 0 \<and> sh_items_bytes hint1 \<noteq> 0")
    case False
    then have z: "?k = 0 \<and> sh_items_bytes hint1 = 0"
      using predicted_empty [OF assms(1,4), of ?left "node40_space dst" ?k] pc(1) by (auto simp: predicted_def Let_def)
    have "node40_move tab src dst hint = (r, src, dst, hint1)" using move_nothing [OF p] False by blast
    then show ?thesis
      using f z assms(10) k nd_edge_len_item [of 0 src ?left]
      by (cases "?n = 0") (auto simp: nd_items_def hd_map last_map)
  next
    case True
    then have t: "node40_predict tab src dst hint = (0, hint1)" "?k \<noteq> 0" "sh_items_bytes hint1 \<noteq> 0" using p f by simp_all
    note r = move_step [OF assms(1-3,5,6) t assms(10)]
    have room: "items_room (node40_overhead dst) (nd_items dst') =
        items_room (node40_overhead dst) (nd_items dst) + (sh_items_bytes hint1 + ?k * node40_overhead dst)"
      using r(5) moved_room [OF assms(1), of ?k "node40_overhead dst" ?left] pc(1) k assms(3) by (auto simp: node40_overhead_def predicted_def Let_def)
    then have "node40_space dst' = node40_space dst - (sh_items_bytes hint1 + ?k * node40_overhead dst)"
      using nd_space_room [OF assms(2)] nd_space_room [OF r(3)] r(8-10) by (auto simp: node40_overhead_def nd_hdr_def)
    moreover have "?k < ?n \<Longrightarrow> (if ?left then hd (nd_items src') else List.last (nd_items src')) =
        (if ?left then nd_items src ! ?k else nd_items src ! (?n - 1 - ?k))"
      using r(6) last_take [of "?n - ?k" "nd_items src"] by (auto simp: hd_drop_conv_nth)
    ultimately show ?thesis using f k r(1,6) nd_edge_len_item [of ?k src ?left] by (cases "?k = ?n") auto
  qed
qed

definition sample_shift :: shift_hint where
  "sample_shift = \<lparr>sh_create = False, sh_update = False, sh_items_number = 0, sh_units_number = 0, sh_items_bytes = 0,
     sh_units_bytes = 0, sh_control = SF_ALLOW_LEFT OR SF_MOVE_POINT, sh_result = 0, sh_pos = whole_item 0\<rparr>"

lemma sample_shift_flags:
  "sh_items_number sample_shift = 0" "sh_items_bytes sample_shift = 0" "\<not> sh_flag (sh_control sample_shift) SF_UPDATE_POINT"
  "sh_flag (sh_control sample_shift) SF_MOVE_POINT" "sh_flag (sh_control sample_shift) SF_ALLOW_LEFT"
  "\<not> sh_flag (sh_result sample_shift) SF_MOVE_POINT"
  by (simp_all add: sample_shift_def sh_flag_def)

lemma sample_full: "nd_full sample_node"
proof -
  have "\<forall>j<2. nd_off sample_node j < nd_off sample_node (Suc j)"
    by (auto simp: numeral_2_eq_2 less_Suc_eq nd_off_def nd_head_def ih_size_def sample_heads sample_offs)
  then show ?thesis by (auto simp: nd_full_def nd_items_def sample_heads(1) nd_item_def mread_def)
qed

theorem node40_move_keeps_witness:
  "let (res, src', dst', hint') = node40_move (\<lambda>_. None :: unit item_plug option) sample_node sample_node sample_shift
   in nd_wf src' \<and> nd_wf dst' \<and> nd_items dst' @ nd_items src' = nd_items sample_node @ nd_items sample_node"
proof -
  obtain res src' dst' hint' where m: "node40_move (\<lambda>_. None :: unit item_plug option) sample_node sample_node sample_shift = (res, src', dst', hint')"
    using prod_cases4 by blast
  show ?thesis using node40_move_keeps [OF sample_wf sample_wf refl sample_shift_flags(1,2) m] sample_shift_flags(5) m by simp
qed

theorem node40_move_fills_witness:
  "let (res, src', dst', hint') = node40_move (\<lambda>_. None :: unit item_plug option) sample_node sample_node sample_shift
   in res = 0 \<and> (nd_items src' = [] \<or>
     node40_space dst' < length (it_body (hd (nd_items src'))) + node40_overhead sample_node)"
proof -
  obtain res src' dst' hint' where m: "node40_move (\<lambda>_. None :: unit item_plug option) sample_node sample_node sample_shift = (res, src', dst', hint')"
    using prod_cases4 by blast
  show ?thesis
    using node40_move_fills [OF sample_wf sample_wf refl sample_full sample_shift_flags(1-3) disjI1 [OF sample_shift_flags(4)] sample_shift_flags(6) m]
      sample_shift_flags(5) m by simp
qed

end
