(* ===== verification/ByteShifter.thy ===== *)
theory ByteShifter
  imports NodeShift
begin

text \<open>
  The contract of the item plugins whose units are bytes, as a locale: how much the estimate of a shift may
  promise, what it does to the insert point, and what the bodies hold after the units are shifted.  Plain
  tails meet it.
\<close>

unbundle bit_operations_syntax

section \<open>The contract\<close>

definition place_bytes :: "place \<Rightarrow> u8 list" where
  "place_bytes place = mread (place_mem place) (pl_body place) (pl_len place)"

text \<open>The insert point, if it is to be kept up and lies in the item, is inside it.\<close>

definition point_inside :: "shift_hint \<Rightarrow> nat \<Rightarrow> nat \<Rightarrow> bool" where
  "point_inside hint i len \<longleftrightarrow>
     (sh_flag (sh_control hint) SF_UPDATE_POINT \<and> item (sh_pos hint) = i \<and> unit (sh_pos hint) \<noteq> MAX_UINT32 \<longrightarrow>
      unit (sh_pos hint) \<le> len)"

text \<open>What the estimate does to the insert point that stays in the source.\<close>

definition point_kept :: "shift_hint \<Rightarrow> shift_hint \<Rightarrow> nat \<Rightarrow> nat \<Rightarrow> bool" where
  "point_kept hint hint' i len \<longleftrightarrow>
     (\<not> sh_flag (sh_result hint') SF_MOVE_POINT \<longrightarrow>
      \<not> sh_flag (sh_result hint) SF_MOVE_POINT \<and> item (sh_pos hint') = item (sh_pos hint) \<and>
      (item (sh_pos hint) = i \<or> unit (sh_pos hint') = unit (sh_pos hint)) \<and> point_inside hint' i len)"

definition shifted_units :: "bool \<Rightarrow> nat \<Rightarrow> place \<Rightarrow> place \<Rightarrow> place \<Rightarrow> place \<Rightarrow> bool" where
  "shifted_units left_shift n src dst src' dst' \<longleftrightarrow>
     place_confined src src' \<and> place_confined dst dst' \<and> pl_pos src' = pl_pos src \<and> pl_pos dst' = pl_pos dst \<and>
     (if left_shift then
        place_bytes dst' = take (pl_len dst - n) (place_bytes dst) @ take n (place_bytes src) \<and>
        take (pl_len src - n) (place_bytes src') = drop n (place_bytes src)
      else
        place_bytes dst' = drop (pl_len src - n) (place_bytes src) @ take (pl_len dst - n) (place_bytes dst) \<and>
        take (pl_len src - n) (place_bytes src') = take (pl_len src - n) (place_bytes src))"

locale byte_shifter =
  fixes prep :: "place \<Rightarrow> place option \<Rightarrow> shift_hint \<Rightarrow> int \<times> place option \<times> shift_hint"
    and shift_fn :: "place \<Rightarrow> place \<Rightarrow> shift_hint \<Rightarrow> int \<times> place \<times> place \<times> shift_hint"
    and units_fn :: "place \<Rightarrow> nat"
  assumes prep_law: "pl_off src = 0 \<Longrightarrow> pl_len src < 65536 \<Longrightarrow> sh_units_bytes hint < 65536 \<Longrightarrow>
      point_inside hint (item (pl_pos src)) (pl_len src) \<Longrightarrow> prep src dsto hint = (res, dsto', hint') \<Longrightarrow>
      res = 0 \<and> same_goal hint hint' \<and> sh_units_number hint' = sh_units_bytes hint' \<and>
      sh_units_bytes hint' \<le> sh_units_bytes hint \<and> sh_units_bytes hint' \<le> pl_len src \<and>
      point_kept hint hint' (item (pl_pos src)) (pl_len src - sh_units_bytes hint')"
    and units_law: "pl_off src = 0 \<Longrightarrow> pl_len src < 65536 \<Longrightarrow> units_fn src = pl_len src"
    and shift_law: "pl_off src = 0 \<Longrightarrow> pl_off dst = 0 \<Longrightarrow> pl_len src < 65536 \<Longrightarrow> pl_len dst < 65536 \<Longrightarrow>
      sh_units_number hint = sh_units_bytes hint \<Longrightarrow> sh_units_bytes hint \<le> pl_len src \<Longrightarrow>
      sh_units_bytes hint \<le> pl_len dst \<Longrightarrow> shift_fn src dst hint = (res, src', dst', hint') \<Longrightarrow>
      res = 0 \<and> hint' = hint \<and>
      shifted_units (sh_flag (sh_control hint) SF_ALLOW_LEFT) (sh_units_bytes hint) src dst src' dst'"

section \<open>Plain tails meet it\<close>

text \<open>A place after its memory was changed: all fields but the node are as before.\<close>

definition place_upd :: "place \<Rightarrow> mem \<Rightarrow> place \<Rightarrow> bool" where
  "place_upd place m place' \<longleftrightarrow>
     (\<exists>b. pl_node place' = (pl_node place)\<lparr>nd_mem := m, nd_dirty := b\<rparr>) \<and> pl_body place' = pl_body place \<and>
     pl_len place' = pl_len place \<and> pl_off place' = pl_off place \<and> pl_pos place' = pl_pos place"

lemma place_updD:
  assumes "place_upd place m place'"
  shows "place_mem place' = m" "pl_body place' = pl_body place" "pl_len place' = pl_len place" "pl_off place' = pl_off place"
    "pl_pos place' = pl_pos place"
  using assms by (auto simp: place_upd_def place_mem_def)

lemma place_upd_trans: "place_upd p m q \<Longrightarrow> place_upd q m' r \<Longrightarrow> place_upd p m' r"
  by (auto simp: place_upd_def)

lemma place_upd_put: "place_upd p m (place_mkdirty (place_put p m))"
  unfolding place_upd_def by (intro conjI exI [of _ True]) (simp_all add: node40_mkdirty_def)

lemma place_upd_self: "place_upd p (place_mem p) p"
proof -
  have "pl_node p = (pl_node p)\<lparr>nd_mem := place_mem p, nd_dirty := nd_dirty (pl_node p)\<rparr>"
    by (simp add: place_mem_def)
  then show ?thesis unfolding place_upd_def by blast
qed

lemma place_upd_confined:
  assumes "place_upd p m q" "\<And>x. \<not> (pl_body p \<le> x \<and> x < pl_body p + int (pl_len p)) \<Longrightarrow> m x = place_mem p x"
  shows "place_confined p q"
  using assms by (auto simp: place_upd_def place_confined_def place_mem_def)

lemma place_upd_key: "place_upd p m q \<Longrightarrow> place_upd p m (q\<lparr>pl_key := k\<rparr>)"
  by (simp add: place_upd_def)

lemma tail_expand_upd:
  assumes "pl_off d = 0" "pl_len d < 65536" "pos + n \<le> pl_len d"
  shows "place_upd d (memmove (place_mem d) (pl_body d + int pos + int n) (pl_body d + int pos) (pl_len d - pos - n)) (tail40_expand d pos n)"
proof -
  have "to_u32 (int (pl_len d) - int pos - int (pl_off d) - int n) = pl_len d - pos - n"
    using assms by (simp add: to_u32_def nat_mod_as_int of_nat_diff)
  then show ?thesis
    using assms(1) place_upd_put [of d "memmove (place_mem d) (pl_body d + int pos + int n) (pl_body d + int pos) (pl_len d - pos - n)"]
      place_upd_self [of d] by (auto simp: tail40_expand_def memmove_same)
qed

lemma tail_shrink_upd:
  assumes "pl_off d = 0" "pl_len d < 65536" "pos + n \<le> pl_len d"
  shows "place_upd d (memmove (place_mem d) (pl_body d + int pos) (pl_body d + int pos + int n) (pl_len d - pos - n)) (tail40_shrink d pos n len)"
proof -
  have "to_u32 (int (pl_len d) - int pos - int (pl_off d) - int n) = pl_len d - pos - n"
    using assms by (simp add: to_u32_def nat_mod_as_int of_nat_diff)
  then show ?thesis
    using assms(1) place_upd_put [of d "memmove (place_mem d) (pl_body d + int pos) (pl_body d + int pos + int n) (pl_len d - pos - n)"]
      place_upd_self [of d] by (auto simp: tail40_shrink_def memmove_same)
qed

lemma tail_copy_upd:
  assumes "pl_off d = 0" "pl_off s = 0"
  shows "place_upd d (memcpy (place_mem d) (pl_body d + int dp) (place_mem s) (pl_body s + int sp) n) (tail40_copy d dp s sp n)"
  using assms place_upd_put [of d "memcpy (place_mem d) (pl_body d + int dp) (place_mem s) (pl_body s + int sp) n"]
    place_upd_self [of d] by (auto simp: tail40_copy_def)

lemma tail_shift_law:
  assumes "pl_off src = 0" "pl_off dst = 0" "pl_len src < 65536" "pl_len dst < 65536"
    "sh_units_number hint = sh_units_bytes hint" "sh_units_bytes hint \<le> pl_len src" "sh_units_bytes hint \<le> pl_len dst"
    "tail40_shift_units src dst hint = (res, src', dst', hint')"
  shows "res = 0 \<and> hint' = hint \<and>
      shifted_units (sh_flag (sh_control hint) SF_ALLOW_LEFT) (sh_units_bytes hint) src dst src' dst'"
proof -
  let ?n = "sh_units_bytes hint" and ?left = "sh_flag (sh_control hint) SF_ALLOW_LEFT"
  let ?ld = "pl_len dst" and ?ls = "pl_len src"
  have h: "(if sh_create hint then hint\<lparr>sh_units_bytes := to_u32 (int ?n - int (pl_off src))\<rparr> else hint) = hint"
    using assms(1,3,6) by (simp add: to_u32_id)
  have pd: "to_u32 (int ?ld - int (pl_off dst) - int ?n) = ?ld - ?n" and ps: "to_u32 (int ?ls - int (pl_off src) - int ?n) = ?ls - ?n"
    using assms(1-7) by (simp_all add: to_u32_def nat_mod_as_int of_nat_diff)
  have split: "place_bytes q = mread (place_mem q) (pl_body q) j @ mread (place_mem q) (pl_body q + int j) (pl_len q - j)"
    if "j \<le> pl_len q" for q j
    using that mread_split [of "place_mem q" "pl_body q" j "pl_len q - j"] by (simp add: place_bytes_def)
  show ?thesis
  proof (cases ?left)
    case True
    let ?d1 = "tail40_expand dst (?ld - ?n) ?n"
    let ?d2 = "tail40_copy ?d1 (?ld - ?n) src 0 ?n" and ?s1 = "tail40_shrink src 0 ?n ?n"
    let ?md = "memcpy (place_mem dst) (pl_body dst + int (?ld - ?n)) (place_mem src) (pl_body src) ?n"
    let ?ms = "memmove (place_mem src) (pl_body src) (pl_body src + int ?n) (?ls - ?n)"
    obtain k where r: "res = 0" "hint' = hint" "dst' = ?d2" "src' = ?s1\<lparr>pl_key := k\<rparr>"
      using assms(8) True unfolding tail40_shift_units_def h Let_def assms(5) pd by auto
    have d1: "place_upd dst (place_mem dst) ?d1" using tail_expand_upd [OF assms(2,4), of "?ld - ?n" ?n] assms(7) by simp
    have ud: "place_upd dst ?md dst'"
      using tail_copy_upd [of ?d1 src "?ld - ?n" 0 ?n] place_updD [OF d1] assms(1,2) place_upd_trans [OF d1] unfolding r(3) by simp
    have us: "place_upd src ?ms src'"
      unfolding r(4) using tail_shrink_upd [OF assms(1,3), of 0 ?n ?n] assms(6) by (intro place_upd_key) simp
    have "place_confined dst dst'" by (rule place_upd_confined [OF ud]) (use assms(7) in \<open>auto intro: memcpy_outside\<close>)
    moreover have "place_confined src src'" by (rule place_upd_confined [OF us]) (use assms(6) in \<open>auto intro: memmove_outside\<close>)
    moreover have "place_bytes dst' = take (?ld - ?n) (place_bytes dst) @ take ?n (place_bytes src)"
      using split [of "?ld - ?n" dst'] place_updD [OF ud] assms(6,7)
        mread_part [of 0 "?ld - ?n" ?ld "place_mem dst" "pl_body dst"] mread_part [of 0 ?n ?ls "place_mem src" "pl_body src"]
      by (simp add: mread_memcpy mread_memcpy_other place_bytes_def)
    moreover have "take (?ls - ?n) (place_bytes src') = drop ?n (place_bytes src)"
      using place_updD [OF us] assms(6) mread_part [of 0 "?ls - ?n" ?ls ?ms "pl_body src"]
        mread_part [of ?n "?ls - ?n" ?ls "place_mem src" "pl_body src"]
      by (simp add: place_bytes_def mread_memmove add.commute)
    ultimately show ?thesis using True r(1,2) place_updD(5) [OF ud] place_updD(5) [OF us] by (simp add: shifted_units_def)
  next
    case False
    let ?d1 = "tail40_expand dst 0 ?n"
    let ?d2 = "tail40_copy ?d1 0 src (?ls - ?n) ?n" and ?s1 = "tail40_shrink src (?ls - ?n) ?n ?n"
    let ?m1 = "memmove (place_mem dst) (pl_body dst + int ?n) (pl_body dst) (?ld - ?n)"
    let ?md = "memcpy ?m1 (pl_body dst) (place_mem src) (pl_body src + int (?ls - ?n)) ?n"
    obtain k where r: "res = 0" "hint' = hint" "dst' = ?d2\<lparr>pl_key := k\<rparr>" "src' = ?s1"
      using assms(8) False unfolding tail40_shift_units_def h Let_def assms(5) ps by auto
    have d1: "place_upd dst ?m1 ?d1" using tail_expand_upd [OF assms(2,4), of 0 ?n] assms(7) by simp
    have ud: "place_upd dst ?md dst'"
      using tail_copy_upd [of ?d1 src 0 "?ls - ?n" ?n] place_updD [OF d1] assms(1,2) place_upd_trans [OF d1] place_upd_key unfolding r(3)
      by simp
    have us: "place_upd src (place_mem src) src'"
      unfolding r(4) using tail_shrink_upd [OF assms(1,3), of "?ls - ?n" ?n ?n] assms(6) by simp
    have "place_confined dst dst'"
      by (rule place_upd_confined [OF ud]) (use assms(7) in \<open>subst memcpy_outside; auto intro: memmove_outside\<close>)
    moreover have "place_confined src src'" by (rule place_upd_confined [OF us]) simp
    moreover have "place_bytes dst' = drop (?ls - ?n) (place_bytes src) @ take (?ld - ?n) (place_bytes dst)"
      using split [of ?n dst'] place_updD [OF ud] assms(6,7)
        mread_part [of 0 "?ld - ?n" ?ld "place_mem dst" "pl_body dst"] mread_part [of "?ls - ?n" ?n ?ls "place_mem src" "pl_body src"]
      by (simp add: mread_memcpy mread_memcpy_other mread_memmove place_bytes_def)
    moreover have "place_bytes src' = place_bytes src" using place_updD [OF us] by (simp add: place_bytes_def)
    ultimately show ?thesis using False r(1,2) place_updD(5) [OF ud] place_updD(5) [OF us] by (simp add: shifted_units_def)
  qed
qed

lemma tail_prep_law:
  assumes "pl_off src = 0" "pl_len src < 65536" "sh_units_bytes hint < 65536"
    "point_inside hint (item (pl_pos src)) (pl_len src)" "tail40_prep_shift src dsto hint = (res, hint')"
  shows "res = 0 \<and> same_goal hint hint' \<and> sh_units_number hint' = sh_units_bytes hint' \<and>
      sh_units_bytes hint' \<le> sh_units_bytes hint \<and> sh_units_bytes hint' \<le> pl_len src \<and>
      point_kept hint hint' (item (pl_pos src)) (pl_len src - sh_units_bytes hint')"
proof -
  let ?B = "sh_units_bytes hint" and ?L = "pl_len src" and ?u = "unit (sh_pos hint)"
  have w: "to_u32 (int x) = x" if "x < 65536" for x using that by (simp add: to_u32_id)
  have sub: "to_u32 (int ?L - int x) = ?L - x" if "x \<le> ?L" for x
    using that assms(2) by (intro to_u32_diff) auto
  consider (none) "?B = 0" | (in_item) "?B \<noteq> 0" "sh_flag (sh_control hint) SF_UPDATE_POINT"
      "item (pl_pos src) = item (sh_pos hint)" "?u \<noteq> MAX_UINT32"
    | (free) "?B \<noteq> 0" "\<not> (sh_flag (sh_control hint) SF_UPDATE_POINT \<and> item (pl_pos src) = item (sh_pos hint) \<and> ?u \<noteq> MAX_UINT32)"
    by blast
  then show ?thesis
  proof cases
    case none
    then show ?thesis using assms(4,5) by (auto simp: tail40_prep_shift_def Let_def same_goal_def point_kept_def point_inside_def)
  next
    case in_item
    then have u: "?u \<le> ?L" using assms(4) by (simp add: point_inside_def)
    then have u': "to_u32 (int ?u) = ?u" using assms(2) by (intro w) simp
    show ?thesis
      using assms(1-3,5) in_item u u' sub [OF u] w
      by (auto simp: tail40_prep_shift_def Let_def same_goal_def point_kept_def point_inside_def split: if_splits)
  next
    case free
    have "to_u32 (int ?B) = ?B" "to_u32 (int ?L) = ?L" using assms(2,3) w by simp_all
    then show ?thesis
      using assms(1-3,5) free by (auto simp: tail40_prep_shift_def Let_def same_goal_def point_kept_def point_inside_def split: if_splits)
  qed
qed

interpretation plain_shifter: byte_shifter plain40_prep_shift tail40_shift_units tail40_units
proof unfold_locales
  fix src :: place and dsto dsto' :: "place option" and hint hint' :: shift_hint and res :: int
  assume "pl_off src = 0" "pl_len src < 65536" "sh_units_bytes hint < 65536"
    "point_inside hint (item (pl_pos src)) (pl_len src)" "plain40_prep_shift src dsto hint = (res, dsto', hint')"
  then show "res = 0 \<and> same_goal hint hint' \<and> sh_units_number hint' = sh_units_bytes hint' \<and>
      sh_units_bytes hint' \<le> sh_units_bytes hint \<and> sh_units_bytes hint' \<le> pl_len src \<and>
      point_kept hint hint' (item (pl_pos src)) (pl_len src - sh_units_bytes hint')"
    by (intro tail_prep_law [where dsto = "map_option (\<lambda>d. d\<lparr>pl_off := 0\<rparr>) dsto" and res = res])
      (auto simp: plain40_prep_shift_def Let_def split: prod.splits)
next
  fix src dst src' dst' :: place and hint hint' :: shift_hint and res :: int
  assume "pl_off src = 0" "pl_off dst = 0" "pl_len src < 65536" "pl_len dst < 65536"
    "sh_units_number hint = sh_units_bytes hint" "sh_units_bytes hint \<le> pl_len src" "sh_units_bytes hint \<le> pl_len dst"
    "tail40_shift_units src dst hint = (res, src', dst', hint')"
  then show "res = 0 \<and> hint' = hint \<and>
      shifted_units (sh_flag (sh_control hint) SF_ALLOW_LEFT) (sh_units_bytes hint) src dst src' dst'"
    by (rule tail_shift_law)
qed (simp add: tail40_units_def to_u32_id)

end
