(* ===== verification/NodeUnite.thy ===== *)
theory NodeUnite
  imports ByteShifter
begin

text \<open>
  Balancing two nodes of byte items: \<^verbatim>\<open>node40_unite\<close> and \<^verbatim>\<open>node40_shift\<close> keep the nodes well formed and the
  bytes of the two nodes, in order, under the contract of the item plugins.
\<close>

unbundle bit_operations_syntax

section \<open>Making room in the destination\<close>

definition nd_bodies :: "node40 \<Rightarrow> u8 list list" where
  "nd_bodies nd = map it_body (nd_items nd)"

lemma length_bodies [simp]: "length (nd_bodies nd) = nh_get_num_items nd"
  by (simp add: nd_bodies_def)

lemma nth_bodies: "i < nh_get_num_items nd \<Longrightarrow> nd_bodies nd ! i = it_body (nd_item nd i)"
  by (simp add: nd_bodies_def)

definition nd_pids :: "node40 \<Rightarrow> nat list" where
  "nd_pids nd = map it_pid (nd_items nd)"

lemma length_pids [simp]: "length (nd_pids nd) = nh_get_num_items nd"
  by (simp add: nd_pids_def)

lemma body_len: "length (it_body (nd_item nd i)) = nd_off nd (Suc i) - nd_off nd i"
  by (simp add: nd_item_def)

lemma unite_expand:
  assumes "nd_wf dst" "0 < n" "n + (if cr then node40_overhead dst else 0) \<le> node40_space dst"
    and "if cr then unit pos = MAX_UINT32 \<and> item pos \<le> nh_get_num_items dst else unit pos \<noteq> MAX_UINT32 \<and> item pos < nh_get_num_items dst"
  shows "\<exists>d1 extra. node40_expand dst pos n 1 = (0, d1) \<and> nd_wf d1 \<and> item pos < nh_get_num_items d1 \<and>
    nd_keypol d1 = nd_keypol dst \<and> nd_kplug d1 = nd_kplug dst \<and> length extra = n \<and>
    nd_bodies d1 = (if cr then take (item pos) (nd_bodies dst) @ extra # drop (item pos) (nd_bodies dst)
      else (nd_bodies dst)[item pos := nd_bodies dst ! item pos @ extra]) \<and>
    (\<exists>x. nd_pids d1 = (if cr then take (item pos) (nd_pids dst) @ x # drop (item pos) (nd_pids dst) else nd_pids dst)) \<and>
    (\<not> cr \<longrightarrow> it_pid (nd_item d1 (item pos)) = it_pid (nd_item dst (item pos)))"
proof (cases cr)
  case True
  then have a: "n + ih_size (nd_keypol dst) \<le> nh_get_free_space dst" "item pos \<le> nh_get_num_items dst" "pos = whole_item (item pos)"
    using assms(3,4) by (simp_all add: node40_overhead_def node40_space_def)
  let ?d1 = "snd (node40_expand dst pos n 1)"
  note e = expand_item [OF assms(1) a(2) assms(2) a(1), folded a(3)]
  have "nd_bodies ?d1 = take (item pos) (nd_bodies dst) @ it_body (nd_item ?d1 (item pos)) # drop (item pos) (nd_bodies dst)"
    using e(10) by (simp add: nd_bodies_def take_map drop_map)
  moreover have "length (it_body (nd_item ?d1 (item pos))) = n" using e(8) by (simp add: body_len)
  moreover have "nd_pids ?d1 = take (item pos) (nd_pids dst) @ it_pid (nd_item ?d1 (item pos)) # drop (item pos) (nd_pids dst)"
    using e(10) by (simp add: nd_pids_def take_map drop_map)
  ultimately show ?thesis using True e a(2) by (intro exI [of _ ?d1] exI [of _ "it_body (nd_item ?d1 (item pos))"]) auto
next
  case False
  then have a: "item pos < nh_get_num_items dst" "n \<le> nh_get_free_space dst" "0 < n" "unit pos \<noteq> MAX_UINT32"
    using assms by (simp_all add: node40_space_def)
  have p: "pos = \<lparr>item = item pos, unit = unit pos\<rparr>" by simp
  let ?d1 = "snd (node40_expand dst pos n 1)"
  note r = expand_units_result [OF assms(1) a, of 1, folded p] and i = expand_units_item(2) [OF assms(1) a, of "item pos" 1, folded p]
    and rd = expand_units_read [OF assms(1) a, of 1, folded p]
  let ?x = "mread (nd_mem ?d1) (int (nd_off dst (Suc (item pos)))) n"
  have it: "nd_item ?d1 (item pos) = (nd_item dst (item pos))\<lparr>it_body := it_body (nd_item dst (item pos)) @ ?x\<rparr>"
    using i a(1) by blast
  have "nd_bodies ?d1 = (nd_bodies dst)[item pos := nd_bodies dst ! item pos @ ?x]"
    using r(3) it a(1) by (simp add: nd_bodies_def map_update)
  moreover have "nd_pids ?d1 = nd_pids dst"
    using r(3) it a(1) by (simp add: nd_pids_def map_update list_update_same_conv)
  ultimately show ?thesis using False r(1,2) rd(1,5,6) a(1) it
    by (intro exI [of _ ?d1] exI [of _ ?x]) simp
qed

section \<open>Taking the units out of the source\<close>

lemma unite_shrink:
  assumes "nd_wf src" "i < nh_get_num_items src" "nd_touched src i s2" "n \<le> length (nd_bodies src ! i)"
  defines "len \<equiv> length (nd_bodies src ! i)"
  shows "\<exists>s3. node40_shrink s2 (if n = len then whole_item i else \<lparr>item = i, unit = 0\<rparr>) n 1 = (0, s3) \<and> nd_wf s3 \<and>
    nd_keypol s3 = nd_keypol src \<and> set (nd_pids s3) \<subseteq> set (nd_pids s2) \<and>
    nd_bodies s3 = (if n = len then take i (nd_bodies src) @ drop (Suc i) (nd_bodies src)
      else (nd_bodies src)[i := take (len - n) (it_body (nd_item s2 i))])"
proof -
  note wf2 = touched_wf [OF assms(1-3)] and off2 = touched_off [OF assms(1-3)] and same2 = touched_same [OF assms(1-3)]
    and n2 = touched_header(1) [OF assms(1-3)]
  have len: "len = nd_off src (Suc i) - nd_off src i" using assms(2) by (simp add: len_def nth_bodies body_len)
  have b2: "nd_bodies s2 = (nd_bodies src)[i := it_body (nd_item s2 i)]"
    using touched_items [OF assms(1-3)] by (simp add: nd_bodies_def map_update)
  have i2: "i < nh_get_num_items s2" "i + 1 \<le> nh_get_num_items s2" using assms(2) n2 by simp_all
  show ?thesis
  proof (cases "n = len")
    case True
    then have nlen: "n = nd_off s2 (i + 1) - nd_off s2 i" by (simp add: off2 len)
    let ?s3 = "snd (node40_shrink s2 (whole_item i) n 1)"
    note r = shrink_items_read [OF wf2 i2(2) zero_less_one, folded nlen]
      and o = shrink_items_items(3,4) [OF wf2 i2(2) zero_less_one, folded nlen]
      and e = shrink_items_eq [OF wf2 i2(2) zero_less_one, folded nlen]
    have "nd_items ?s3 = take i (nd_items s2) @ drop (i + 1) (nd_items s2)"
      using r(1) o i2(2) by (intro nd_items_removed) auto
    then have "nd_bodies ?s3 = take i (nd_bodies s2) @ drop (Suc i) (nd_bodies s2)" "set (nd_pids ?s3) \<subseteq> set (nd_pids s2)"
      by (auto simp: nd_bodies_def nd_pids_def take_map drop_map dest: in_set_takeD in_set_dropD)
    then show ?thesis
      using True shrink_items_wf [OF wf2 i2(2) zero_less_one, folded nlen] e b2 same2(2) node_ops_same(3)
      by (intro exI [of _ ?s3]) (simp add: prod_eq_iff)
  next
    case False
    have nlen: "n \<le> nd_off s2 (Suc i) - nd_off s2 i" using assms(4) len by (simp add: off2 len_def)
    let ?s3 = "snd (node40_shrink s2 \<lparr>item = i, unit = 0\<rparr> n 1)"
    have u: "(0 :: nat) \<noteq> MAX_UINT32" by simp
    note r = shrink_units_result [OF wf2 i2(1) nlen u, of 1] and c = shrink_units_item_cut [OF wf2 i2(1) nlen u, of 1]
    have "nd_bodies ?s3 = (nd_bodies s2)[i := take (len - n) (it_body (nd_item s2 i))]"
      using r(2) c by (simp add: nd_bodies_def map_update body_len off2 len)
    moreover have "nd_pids ?s3 = nd_pids s2"
      using r(2) c i2(1) by (simp add: nd_pids_def map_update list_update_same_conv)
    ultimately show ?thesis
      using False r(1) shrink_units_eq [OF wf2 i2(1) nlen u, of 1] b2 same2(2)
      by (intro exI [of _ ?s3]) (simp add: prod_eq_iff)
  qed
qed

section \<open>Shifting the units\<close>

lemma place_bytes_item: "place_bytes (item_place nd pos) = it_body (nd_item nd (item pos))"
  by (simp add: place_bytes_def item_place_def place_mem_def nd_item_def)

lemma place_key_same [simp]:
  "place_bytes (p\<lparr>pl_key := k\<rparr>) = place_bytes p" "place_confined (p\<lparr>pl_key := k\<rparr>) q = place_confined p q"
  by (simp_all add: place_bytes_def place_confined_def place_mem_def)

lemma confined_bytes:
  assumes "nd_wf nd" "item pos < nh_get_num_items nd" "place_confined (item_place nd pos) q"
  shows "nd_touched nd (item pos) (pl_node q)" "place_bytes q = it_body (nd_item (pl_node q) (item pos))"
    "it_pid (nd_item (pl_node q) (item pos)) = it_pid (nd_item nd (item pos))"
proof -
  have "item_place nd pos = (item_place nd pos)\<lparr>pl_off := 0\<rparr>" by (simp add: item_place_def)
  then show t: "nd_touched nd (item pos) (pl_node q)"
    using confined_touched [OF assms(1,2), of 0 q] assms(3) by simp
  have "nd_item (pl_node q) (item pos) = (nd_item nd (item pos))\<lparr>it_body := mread (nd_mem (pl_node q)) (int (nd_off nd (item pos))) (nd_off nd (Suc (item pos)) - nd_off nd (item pos))\<rparr>"
    by (rule confined_item(2) [OF assms(1,2)])
      (use assms(3) nd_off_mono [OF assms(1), of "item pos" "Suc (item pos)"] assms(2) in \<open>auto simp: place_confined_def item_place_def place_mem_def\<close>)
  then show "it_pid (nd_item (pl_node q) (item pos)) = it_pid (nd_item nd (item pos))" by simp
  show "place_bytes q = it_body (nd_item (pl_node q) (item pos))"
    using assms(3) touched_off [OF assms(1,2) t]
    by (simp add: place_bytes_def place_confined_def item_place_def nd_item_def place_mem_def)
qed

lemma item_place_simps [simp]:
  "pl_pos (item_place nd pos) = pos" "pl_node (item_place nd pos) = nd" "pl_off (item_place nd pos) = 0"
  "pl_len (item_place nd pos) = length (it_body (nd_item nd (item pos)))"
  by (simp_all add: item_place_def body_len)

lemma body_small: "nd_wf nd \<Longrightarrow> length (it_body (nd_item nd i)) < 65536"
  using nd_off_bounds(2) [of nd "Suc i"] nd_wfD(2,3) [of nd] by (simp add: body_len)

context byte_shifter
begin

lemma bodies_shifted:
  assumes "nd_wf src" "nd_wf dst" "item ps < nh_get_num_items src" "item pd < nh_get_num_items dst"
    and "sh_units_number hint = sh_units_bytes hint"
    and "sh_units_bytes hint \<le> length (nd_bodies src ! item ps)" "sh_units_bytes hint \<le> length (nd_bodies dst ! item pd)"
    and "shift_fn (item_place src ps) ((item_place dst pd)\<lparr>pl_key := k\<rparr>) hint = (res, p, q, hint')"
  defines "b \<equiv> nd_bodies src ! item ps" and "c \<equiv> nd_bodies dst ! item pd" and "n \<equiv> sh_units_bytes hint"
  shows "res = 0" "hint' = hint" "nd_touched src (item ps) (pl_node p)" "nd_touched dst (item pd) (pl_node q)"
    "pl_pos p = ps" "pl_pos q = pd" "pl_len p = length b" "it_pid (nd_item (pl_node p) (item ps)) = it_pid (nd_item src (item ps))"
    "it_pid (nd_item (pl_node q) (item pd)) = it_pid (nd_item dst (item pd))"
    "sh_flag (sh_control hint) SF_ALLOW_LEFT \<Longrightarrow> it_body (nd_item (pl_node q) (item pd)) = take (length c - n) c @ take n b \<and>
      take (length b - n) (it_body (nd_item (pl_node p) (item ps))) = drop n b"
    "\<not> sh_flag (sh_control hint) SF_ALLOW_LEFT \<Longrightarrow> it_body (nd_item (pl_node q) (item pd)) = drop (length b - n) b @ take (length c - n) c \<and>
      take (length b - n) (it_body (nd_item (pl_node p) (item ps))) = take (length b - n) b"
proof -
  note small = body_small [OF assms(1), of "item ps"] body_small [OF assms(2), of "item pd"]
  have law: "res = 0 \<and> hint' = hint \<and>
      shifted_units (sh_flag (sh_control hint) SF_ALLOW_LEFT) (sh_units_bytes hint) (item_place src ps)
        ((item_place dst pd)\<lparr>pl_key := k\<rparr>) p q"
    by (rule shift_law) (use small assms(3-8) in \<open>simp_all add: nth_bodies\<close>)
  then have cf: "place_confined (item_place src ps) p" "place_confined (item_place dst pd) q"
    by (simp_all add: shifted_units_def)
  note p = confined_bytes [OF assms(1,3) cf(1)] and q = confined_bytes [OF assms(2,4) cf(2)]
  show "nd_touched src (item ps) (pl_node p)" "nd_touched dst (item pd) (pl_node q)" by (rule p(1), rule q(1))
  show "it_pid (nd_item (pl_node p) (item ps)) = it_pid (nd_item src (item ps))"
    "it_pid (nd_item (pl_node q) (item pd)) = it_pid (nd_item dst (item pd))" by (rule p(3), rule q(3))
  show "res = 0" "hint' = hint" "pl_pos p = ps" "pl_pos q = pd" using law by (simp_all add: shifted_units_def)
  show "pl_len p = length b"
    using cf(1) assms(3) by (simp add: place_confined_def nth_bodies b_def)
  show "sh_flag (sh_control hint) SF_ALLOW_LEFT \<Longrightarrow> it_body (nd_item (pl_node q) (item pd)) = take (length c - n) c @ take n b \<and>
      take (length b - n) (it_body (nd_item (pl_node p) (item ps))) = drop n b"
    "\<not> sh_flag (sh_control hint) SF_ALLOW_LEFT \<Longrightarrow> it_body (nd_item (pl_node q) (item pd)) = drop (length b - n) b @ take (length c - n) c \<and>
      take (length b - n) (it_body (nd_item (pl_node p) (item ps))) = take (length b - n) b"
    using law assms(3,4) by (auto simp: shifted_units_def p(2) q(2) place_bytes_item b_def c_def n_def nth_bodies)
qed

end

section \<open>One merge\<close>

definition point_removed :: "shift_hint \<Rightarrow> nat \<Rightarrow> shift_hint" where
  "point_removed hint itm =
     (let hint = (if itm = item (sh_pos hint) then hint\<lparr>sh_pos := (sh_pos hint)\<lparr>unit := MAX_UINT32\<rparr>\<rparr> else hint)
      in if \<not> sh_flag (sh_result hint) SF_MOVE_POINT \<and> itm < item (sh_pos hint)
         then hint\<lparr>sh_pos := (sh_pos hint)\<lparr>item := item (sh_pos hint) - 1\<rparr>\<rparr> else hint)"

text \<open>The destination up to the call of the plugin: room is made, a new item gets its header, the place is fetched.\<close>

definition unite_header :: "node40 \<Rightarrow> node40 \<Rightarrow> place \<Rightarrow> nat \<Rightarrow> nat \<Rightarrow> bool \<Rightarrow> node40 \<Rightarrow> node40" where
  "unite_header src dst sp i j cr d1 =
     (if cr then
        (let h = nd_head d1 j; e = node40_put_key (node40_put_pid d1 h (pl_plug sp)) h (pl_key sp)
         in e\<lparr>nd_mem := ih_set_flags (nd_mem e) h (int (ih_get_flags (nd_mem src) (nd_head src i) (nd_keypol dst))) (nd_keypol dst)\<rparr>)
      else d1)"

lemma unite_shift_run:
  assumes e: "node40_expand dst pos n 1 = (0, d1)" and p1: "item pos < nh_get_num_items d1" "item pos < 65536"
    and i: "item (pl_pos sp) < 65536" and keypol: "nd_keypol d1 = nd_keypol dst"
    and plug: "ip_maxreal_key plug = Some maxreal" "ip_units plug = Some units_fn" "ip_shift_units plug = Some shift_fn"
  assumes d2: "d2 = unite_header src dst sp (item (pl_pos sp)) (item pos) (sh_create hint) d1"
    and f: "node40_fetch tab d2 pos = (0, dp)"
    and s: "shift_fn sp (dp\<lparr>pl_key := (if sh_create hint then reiser4_key_set_offset (maxreal sp) (reiser4_key_get_offset (maxreal sp) + 1) else pl_key dp)\<rparr>) hint
      = (0, p, q, hint')" and n: "sh_units_bytes hint = n"
  defines "itm \<equiv> item (pl_pos p)" and "remove \<equiv> sh_units_number hint' = units_fn sp"
  shows "node40_unite_shift tab plug src dst left_shift sp pos hint =
    (let s2 = (if left_shift \<and> \<not> remove then node40_put_key (pl_node p) (node40_ih_at (pl_node p) itm) (pl_key p) else pl_node p);
         d3 = (if left_shift then pl_node q else node40_put_key (pl_node q) (node40_ih_at (pl_node q) (item (pl_pos q))) (pl_key q));
         (res, s3) = node40_shrink s2 (if remove then whole_item itm else \<lparr>item = itm, unit = 0\<rparr>)
           (if remove then pl_len p else sh_units_bytes hint') 1
     in Some (res, s3, d3, (if remove then point_removed (hint'\<lparr>sh_update := True\<rparr>) itm else hint'\<lparr>sh_update := True\<rparr>)))"
proof -
  let ?h = "node40_ih_at d1 (item pos)"
  have h: "?h = nd_head d1 (item pos)" "node40_ih_at src (item (pl_pos sp)) = nd_head src (item (pl_pos sp))"
    using p1(2) i by (simp_all add: ih_at_head)
  have d: "(if sh_create hint then (node40_put_key (node40_put_pid d1 ?h (pl_plug sp)) ?h (pl_key sp))
        \<lparr>nd_mem := ih_set_flags (nd_mem (node40_put_key (node40_put_pid d1 ?h (pl_plug sp)) ?h (pl_key sp))) ?h
          (int (ih_get_flags (nd_mem src) (node40_ih_at src (item (pl_pos sp))) (nd_keypol dst))) (nd_keypol dst)\<rparr>
      else d1) = d2"
    unfolding h by (simp add: d2 unite_header_def Let_def)
  have k: "(if sh_create hint then dp\<lparr>pl_key := reiser4_key_set_offset (maxreal sp) (reiser4_key_get_offset (maxreal sp) + 1)\<rparr> else dp) =
      dp\<lparr>pl_key := (if sh_create hint then reiser4_key_set_offset (maxreal sp) (reiser4_key_get_offset (maxreal sp) + 1) else pl_key dp)\<rparr>"
    by simp
  have nz: "((0::int) \<noteq> 0) = False" "(sh_create hint \<and> Some maxreal = None) = False" by simp_all
  show ?thesis
    unfolding node40_unite_shift_def Let_def n e prod.case nz if_False d f plug option.case k s
    by (cases remove; cases left_shift) (simp_all add: itm_def remove_def point_removed_def Let_def case_prod_unfold)
qed


text \<open>The header of the new item.\<close>

lemma new_header:
  fixes key :: reiser4_key and v :: int
  assumes "nd_wf d1" "i < nh_get_num_items d1" "pid < 65536"
  defines "e \<equiv> node40_put_key (node40_put_pid d1 (nd_head d1 i) pid) (nd_head d1 i) key"
  defines "d2 \<equiv> e\<lparr>nd_mem := ih_set_flags (nd_mem e) (nd_head d1 i) v (nd_keypol d1)\<rparr>"
  shows "nd_touched d1 i d2" "it_pid (nd_item d2 i) = pid"
proof -
  note h = put_header_item [OF assms(1-3), where key = key, folded e_def]
  show t: "nd_touched d1 i d2" unfolding d2_def by (rule touched_flags [OF assms(1,2) h(1)])
  have "get_le 2 (nd_mem d2) (nd_head d1 i + int (key_size (nd_keypol d1)) + 4) =
      get_le 2 (nd_mem e) (nd_head d1 i + int (key_size (nd_keypol d1)) + 4)"
    by (simp add: d2_def ih_set_flags_def get_set_le_other)
  moreover have "it_pid (nd_item e i) = pid" using h(2) by simp
  ultimately show "it_pid (nd_item d2 i) = pid"
    by (simp add: nd_item_def ih_get_pid_def touched_same [OF assms(1,2) t] touched_same [OF assms(1,2) h(1)])
qed

lemma pid_small: "it_pid (nd_item nd i) < 65536"
  using get_le_less [of 2 "nd_mem nd" "nd_head nd i + int (key_size (nd_keypol nd)) + 4"] by (simp add: nd_item_def ih_get_pid_def)

lemma touched_bodies:
  assumes "nd_wf nd" "i < nh_get_num_items nd" "nd_touched nd i nd'"
  shows "nd_bodies nd' = (nd_bodies nd)[i := it_body (nd_item nd' i)]" "nd_pids nd' = (nd_pids nd)[i := it_pid (nd_item nd' i)]"
  using touched_items [OF assms] by (simp_all add: nd_bodies_def nd_pids_def map_update)

lemma touched_pids:
  assumes "nd_wf nd" "i < nh_get_num_items nd" "nd_touched nd i nd'" "it_pid (nd_item nd' i) = it_pid (nd_item nd i)"
  shows "nd_pids nd' = nd_pids nd"
  using touched_bodies(2) [OF assms(1-3)] assms(2,4) by (simp add: nd_pids_def list_update_same_conv)

lemma put_key_body:
  assumes "nd_wf nd" "i < nh_get_num_items nd"
  shows "nd_touched nd i (node40_put_key nd (node40_ih_at nd i) key)"
    "it_body (nd_item (node40_put_key nd (node40_ih_at nd i) key) i) = it_body (nd_item nd i)"
    "it_pid (nd_item (node40_put_key nd (node40_ih_at nd i) key) i) = it_pid (nd_item nd i)"
proof -
  have "nh_get_num_items nd < 65536" using nd_wfD [OF assms(1)] by auto
  then have h: "node40_ih_at nd i = nd_head nd i" using assms(2) by (simp add: ih_at_head)
  show t: "nd_touched nd i (node40_put_key nd (node40_ih_at nd i) key)"
    unfolding h by (rule touched_key [OF assms touched_refl])
  have kl: "length (key_bytes (kbody key) (key_size (nd_keypol nd))) = key_size (nd_keypol nd)"
    by (rule length_key_bytes [OF nd_wfD(4) [OF assms(1)]])
  have "get_le 2 (nd_mem (node40_put_key nd (nd_head nd i) key)) (nd_head nd i + int (key_size (nd_keypol nd)) + 4) =
      get_le 2 (nd_mem nd) (nd_head nd i + int (key_size (nd_keypol nd)) + 4)"
    by (simp add: node40_put_key_def get_le_mwrite_other kl)
  then show "it_pid (nd_item (node40_put_key nd (node40_ih_at nd i) key) i) = it_pid (nd_item nd i)"
    by (simp add: nd_item_def ih_get_pid_def touched_same [OF assms t] h [symmetric])
  have "int (nd_off nd (Suc i)) \<le> nd_head nd i" by (rule touched_bounds(3) [OF assms touched_refl])
  then have "mread (nd_mem (node40_put_key nd (nd_head nd i) key)) (int (nd_off nd i)) (nd_off nd (Suc i) - nd_off nd i) =
      mread (nd_mem nd) (int (nd_off nd i)) (nd_off nd (Suc i) - nd_off nd i)"
    using kl nd_off_mono [OF assms(1), of i "Suc i"] assms(2) by (simp add: node40_put_key_def mread_other)
  then show "it_body (nd_item (node40_put_key nd (node40_ih_at nd i) key) i) = it_body (nd_item nd i)"
    by (simp add: nd_item_def touched_off [OF assms t] h [symmetric])
qed


definition dest_ready ::
  "'d item_table \<Rightarrow> node40 \<Rightarrow> node40 \<Rightarrow> pos \<Rightarrow> nat \<Rightarrow> nat \<Rightarrow> bool \<Rightarrow> node40 \<Rightarrow> node40 \<Rightarrow> bool" where
  "dest_ready tab src dst pos i n cr d1 d2 \<longleftrightarrow>
     (let j = item pos
      in node40_expand dst pos n 1 = (0, d1) \<and> j < nh_get_num_items d1 \<and> nd_keypol d1 = nd_keypol dst \<and>
        d2 = unite_header src dst (item_place src (whole_item i)) i j cr d1 \<and> node40_fetch tab d2 pos = (0, item_place d2 pos) \<and>
        nd_wf d2 \<and> j < nh_get_num_items d2 \<and> nd_keypol d2 = nd_keypol dst \<and>
        length (nd_bodies d2 ! j) = (if cr then 0 else length (nd_bodies dst ! j)) + n \<and>
        take (length (nd_bodies d2 ! j) - n) (nd_bodies d2 ! j) = (if cr then [] else nd_bodies dst ! j) \<and>
        nd_pids d2 = (if cr then take j (nd_pids dst) @ it_pid (nd_item src i) # drop j (nd_pids dst) else nd_pids dst) \<and>
        (\<forall>c. (nd_bodies d2)[j := c] = (if cr then take j (nd_bodies dst) @ c # drop j (nd_bodies dst) else (nd_bodies dst)[j := c])))"

lemma dest_readyD:
  assumes "dest_ready tab src dst pos i n cr d1 d2"
  shows "node40_expand dst pos n 1 = (0, d1)" "item pos < nh_get_num_items d1" "nd_keypol d1 = nd_keypol dst"
    "d2 = unite_header src dst (item_place src (whole_item i)) i (item pos) cr d1" "node40_fetch tab d2 pos = (0, item_place d2 pos)"
    "nd_wf d2" "item pos < nh_get_num_items d2" "nd_keypol d2 = nd_keypol dst"
    "length (nd_bodies d2 ! item pos) = (if cr then 0 else length (nd_bodies dst ! item pos)) + n"
    "take (length (nd_bodies d2 ! item pos) - n) (nd_bodies d2 ! item pos) = (if cr then [] else nd_bodies dst ! item pos)"
    "nd_pids d2 = (if cr then take (item pos) (nd_pids dst) @ it_pid (nd_item src i) # drop (item pos) (nd_pids dst) else nd_pids dst)"
    "(nd_bodies d2)[item pos := c] = (if cr then take (item pos) (nd_bodies dst) @ c # drop (item pos) (nd_bodies dst) else (nd_bodies dst)[item pos := c])"
  using assms by (simp_all only: dest_ready_def Let_def) blast+

lemma unite_dest:
  assumes wf: "nd_wf dst" and n: "0 < n" "n + (if cr then node40_overhead dst else 0) \<le> node40_space dst"
    and pos: "if cr then unit pos = MAX_UINT32 \<and> item pos \<le> nh_get_num_items dst else unit pos \<noteq> MAX_UINT32 \<and> item pos < nh_get_num_items dst"
    and tab: "tab (if cr then it_pid (nd_item src i) else it_pid (nd_item dst (item pos))) = Some plug0" "ip_init plug0 = None"
  shows "\<exists>d1 d2. dest_ready tab src dst pos i n cr d1 d2"
proof -
  define sp where "sp = item_place src (whole_item i)"
  define j where "j = item pos"
  obtain d1 extra x where d1: "node40_expand dst pos n 1 = (0, d1)" "nd_wf d1" "j < nh_get_num_items d1"
      "nd_keypol d1 = nd_keypol dst" "length extra = n"
      "nd_bodies d1 = (if cr then take j (nd_bodies dst) @ extra # drop j (nd_bodies dst)
        else (nd_bodies dst)[j := nd_bodies dst ! j @ extra])"
      "\<not> cr \<longrightarrow> it_pid (nd_item d1 j) = it_pid (nd_item dst j)"
      "nd_pids d1 = (if cr then take j (nd_pids dst) @ x # drop j (nd_pids dst) else nd_pids dst)"
    using unite_expand [OF wf n pos] unfolding j_def by blast
  define d2 where "d2 = unite_header src dst sp i j cr d1"
  note hd = new_header [OF d1(2,3) pid_small, of src i "pl_key sp" "int (ih_get_flags (nd_mem src) (nd_head src i) (nd_keypol dst))", unfolded d1(4)]
  have pl: "pl_plug sp = it_pid (nd_item src i)" by (simp add: sp_def item_place_def)
  have t2: "nd_touched d1 j d2" using hd(1) by (simp add: d2_def unite_header_def Let_def pl)
  note wf2 = touched_wf [OF d1(2,3) t2]
  have j2: "j < nh_get_num_items d2" "nd_keypol d2 = nd_keypol dst"
    using d1(3,4) touched_header(1) [OF d1(2,3) t2] touched_same(2) [OF d1(2,3) t2] by simp_all
  have "tab (it_pid (nd_item d2 j)) = Some plug0" using tab(1) hd(2) d1(7) by (auto simp: d2_def unite_header_def Let_def pl j_def split: if_splits)
  then have f: "node40_fetch tab d2 pos = (0, item_place d2 pos)"
    using fetch_item [OF wf2, of pos tab plug0] j2 tab(2) by (simp add: plug_init_def j_def)
  have len: "length (it_body (nd_item d2 j)) = length (it_body (nd_item d1 j))"
    by (simp add: body_len touched_off [OF d1(2,3) t2])
  have b: "cr \<Longrightarrow> d2 = d1 \<or> j \<le> length (nd_bodies dst)" "\<not> cr \<Longrightarrow> d2 = d1 \<and> j < length (nd_bodies dst)"
    using pos by (auto simp: d2_def unite_header_def j_def split: if_splits)
  have u: "(nd_bodies d2)[j := c] = (if cr then take j (nd_bodies dst) @ c # drop j (nd_bodies dst) else (nd_bodies dst)[j := c])" for c
    using touched_bodies [OF d1(2,3) t2] d1(6) pos by (auto simp: j_def list_update_append)
  have l: "length (nd_bodies d2 ! j) = (if cr then 0 else length (nd_bodies dst ! j)) + n"
    using len d1(3,5,6) j2(1) pos by (auto simp: j_def nth_append nth_bodies [of _ d1, symmetric] nth_bodies [of _ d2])
  have tk: "take (length (nd_bodies d2 ! j) - n) (nd_bodies d2 ! j) = (if cr then [] else nd_bodies dst ! j)"
    using l b(2) d1(6) pos by (auto simp: j_def)
  have "nd_pids d2 = (if cr then take j (nd_pids dst) @ it_pid (nd_item src i) # drop j (nd_pids dst) else nd_pids dst)"
    using touched_bodies(2) [OF d1(2,3) t2] d1(8) pos hd(2) b(2)
    by (auto simp: d2_def unite_header_def Let_def pl j_def list_update_append)
  then show ?thesis
    using d1(1,3,4) wf2 j2 f u l tk d2_def [unfolded sp_def] unfolding dest_ready_def Let_def j_def [symmetric] by blast
qed



text \<open>After the plugin: the key of the source item or of the destination item is set, and the source is shrunk.\<close>

lemma put_if_body:
  fixes c :: bool and key :: reiser4_key
  assumes "nd_wf nd" "i < nh_get_num_items nd" "nd_touched nd i nd1"
  defines "nd2 \<equiv> (if c then node40_put_key nd1 (node40_ih_at nd1 i) key else nd1)"
  shows "nd_touched nd i nd2" "it_body (nd_item nd2 i) = it_body (nd_item nd1 i)" "it_pid (nd_item nd2 i) = it_pid (nd_item nd1 i)"
proof -
  have a: "nd_wf nd1" "i < nh_get_num_items nd1"
    using touched_wf [OF assms(1-3)] touched_header(1) [OF assms(1-3)] assms(2) by simp_all
  show "nd_touched nd i nd2" "it_body (nd_item nd2 i) = it_body (nd_item nd1 i)" "it_pid (nd_item nd2 i) = it_pid (nd_item nd1 i)"
    using put_key_body [OF a] touched_trans [OF assms(1-3)] assms(3) by (simp_all add: nd2_def)
qed

lemma unite_shift_ok:
  assumes B: "byte_shifter prep shift_fn units_fn"
    and plug: "ip_maxreal_key plug = Some maxreal" "ip_units plug = Some units_fn" "ip_shift_units plug = Some shift_fn"
    and wf: "nd_wf src" "nd_wf dst" and i: "i < nh_get_num_items src"
    and n: "sh_units_number hint = sh_units_bytes hint" "0 < sh_units_bytes hint" "sh_units_bytes hint \<le> length (nd_bodies src ! i)"
      "sh_units_bytes hint + (if sh_create hint then node40_overhead dst else 0) \<le> node40_space dst"
    and pos: "if sh_create hint then unit pos = MAX_UINT32 \<and> item pos \<le> nh_get_num_items dst
      else unit pos \<noteq> MAX_UINT32 \<and> item pos < nh_get_num_items dst"
    and tab: "tab (if sh_create hint then it_pid (nd_item src i) else it_pid (nd_item dst (item pos))) = Some plug0" "ip_init plug0 = None"
  defines "left_shift \<equiv> sh_flag (sh_control hint) SF_ALLOW_LEFT" and "n \<equiv> sh_units_bytes hint" and "b \<equiv> nd_bodies src ! i"
  defines "part \<equiv> (if left_shift then take n b else drop (length b - n) b)"
  shows "\<exists>src' dst'. node40_unite_shift tab plug src dst left_shift (item_place src (whole_item i)) pos hint =
      Some (0, src', dst', if n = length b then point_removed (hint\<lparr>sh_update := True\<rparr>) i else hint\<lparr>sh_update := True\<rparr>) \<and>
    nd_wf src' \<and> nd_wf dst' \<and> nd_keypol src' = nd_keypol src \<and> nd_keypol dst' = nd_keypol dst \<and>
    set (nd_pids src') \<subseteq> set (nd_pids src) \<and> set (nd_pids dst') \<subseteq> set (nd_pids src) \<union> set (nd_pids dst) \<and>
    nd_bodies src' = (if n = length b then take i (nd_bodies src) @ drop (Suc i) (nd_bodies src)
      else (nd_bodies src)[i := (if left_shift then drop n b else take (length b - n) b)]) \<and>
    nd_bodies dst' = (if sh_create hint then take (item pos) (nd_bodies dst) @ part # drop (item pos) (nd_bodies dst)
      else (nd_bodies dst)[item pos := (let c = nd_bodies dst ! item pos in if left_shift then c @ part else part @ c)])"
proof -
  let ?sp = "item_place src (whole_item i)" and ?j = "item pos" and ?cr = "sh_create hint"
  obtain d1 d2 where "dest_ready tab src dst pos i n ?cr d1 d2"
    using unite_dest [where tab = tab and src = src and i = i, OF wf(2) n(2,4) pos tab] unfolding n_def by blast
  note d = dest_readyD [OF this]
  have small: "?j < 65536" "i < 65536" using d(7) i nd_wfD [OF d(6)] nd_wfD [OF wf(1)] by auto
  let ?k = "if ?cr then reiser4_key_set_offset (maxreal ?sp) (reiser4_key_get_offset (maxreal ?sp) + 1) else pl_key (item_place d2 pos)"
  obtain res p q hint' where s: "shift_fn ?sp ((item_place d2 pos)\<lparr>pl_key := ?k\<rparr>) hint = (res, p, q, hint')"
    using prod_cases4 by blast
  have "n \<le> length (nd_bodies d2 ! ?j)" by (simp add: d(9))
  then have bs: "res = 0" "hint' = hint" "nd_touched src i (pl_node p)" "nd_touched d2 ?j (pl_node q)" "pl_pos p = whole_item i" "pl_pos q = pos"
      "pl_len p = length b" "it_pid (nd_item (pl_node p) i) = it_pid (nd_item src i)" "it_pid (nd_item (pl_node q) ?j) = it_pid (nd_item d2 ?j)"
      "it_body (nd_item (pl_node q) ?j) = (let c = (if ?cr then [] else nd_bodies dst ! ?j) in if left_shift then c @ part else part @ c)"
      "take (length b - n) (it_body (nd_item (pl_node p) i)) = (if left_shift then drop n b else take (length b - n) b)"
    using byte_shifter.bodies_shifted [OF B wf(1) d(6) _ d(7) n(1) _ _ s] i n(3) d(10)
    by (auto simp: n_def b_def left_shift_def part_def)
  have units: "units_fn ?sp = length b"
    using byte_shifter.units_law [OF B, of ?sp] body_small [OF wf(1), of i] i by (simp add: b_def nth_bodies)
  let ?rm = "n = length b"
  let ?s2 = "if left_shift \<and> \<not> ?rm then node40_put_key (pl_node p) (node40_ih_at (pl_node p) i) (pl_key p) else pl_node p"
  let ?d3 = "if \<not> left_shift then node40_put_key (pl_node q) (node40_ih_at (pl_node q) ?j) (pl_key q) else pl_node q"
  note s2 = put_if_body [OF wf(1) i bs(3), of "left_shift \<and> \<not> ?rm" "pl_key p"]
    and d3 = put_if_body [OF d(6,7) bs(4), of "\<not> left_shift" "pl_key q"]
  obtain s3 where s3: "node40_shrink ?s2 (if ?rm then whole_item i else \<lparr>item = i, unit = 0\<rparr>) n 1 = (0, s3)" "nd_wf s3" "nd_keypol s3 = nd_keypol src" "set (nd_pids s3) \<subseteq> set (nd_pids ?s2)"
      "nd_bodies s3 = (if ?rm then take i (nd_bodies src) @ drop (Suc i) (nd_bodies src)
        else (nd_bodies src)[i := take (length b - n) (it_body (nd_item ?s2 i))])"
    using unite_shrink [OF wf(1) i s2(1), of n] n(3) unfolding n_def b_def by blast
  have "node40_unite_shift tab plug src dst left_shift ?sp pos hint =
      Some (0, s3, ?d3, if ?rm then point_removed (hint\<lparr>sh_update := True\<rparr>) i else hint\<lparr>sh_update := True\<rparr>)"
    using unite_shift_run [OF d(1,2) small(1) _ d(3) plug _ d(5) s [unfolded bs(1,2)], of src left_shift] small(2) d(4) bs(5-7) s3(1) units n(1)
    by (cases ?rm; cases left_shift) (simp_all add: n_def Let_def)
  moreover have "nd_bodies ?d3 = (nd_bodies d2)[?j := it_body (nd_item (pl_node q) ?j)]"
    using touched_bodies [OF d(6,7) d3(1)] d3(2) by simp
  moreover have "nd_wf ?d3" "nd_keypol ?d3 = nd_keypol dst"
    using touched_wf [OF d(6,7) d3(1)] touched_same(2) [OF d(6,7) d3(1)] d(8) by simp_all
  moreover have "set (nd_pids s3) \<subseteq> set (nd_pids src)"
    using s3(4) touched_pids [OF wf(1) i s2(1)] s2(3) bs(8) by simp
  moreover have "set (nd_pids ?d3) \<subseteq> set (nd_pids src) \<union> set (nd_pids dst)"
  proof -
    have "nd_pids ?d3 = nd_pids d2"
      using touched_pids [OF d(6,7) d3(1)] d3(3) bs(9) by simp
    moreover have "it_pid (nd_item src i) \<in> set (nd_pids src)" using i by (auto simp: nd_pids_def nd_items_def)
    ultimately show ?thesis using d(11) by (auto dest: in_set_takeD in_set_dropD)
  qed
  ultimately show ?thesis
    using s3 s2(2) bs(10,11) d(12) by (intro exI [of _ s3] exI [of _ ?d3]) (auto simp: Let_def)
qed

end
