(* ===== verification/NodeBalance.thy ===== *)
theory NodeBalance
  imports NodeUnite
begin

text \<open>
  Balancing as a whole: \<^verbatim>\<open>node40_unite\<close>, \<^verbatim>\<open>node40_move\<close> and \<^verbatim>\<open>node40_shift\<close> between nodes of byte items keep the
  nodes well formed and the bytes of their items in order.  What the item plugins have to promise for it is
  a locale over the table of plugins.
\<close>

unbundle bit_operations_syntax

section \<open>Two nodes of byte items\<close>

text \<open>
  The items of a table whose units can be shifted are byte items, and no plugin of it changes a place when
  it is fetched.
\<close>

locale byte_items =
  fixes tab :: "'d item_table"
  assumes no_init: "tab pid = Some plug \<Longrightarrow> ip_init plug = None"
    and counts: "tab pid = Some plug \<Longrightarrow> ip_units plug \<noteq> None"
    and splits: "tab pid = Some plug \<Longrightarrow> ip_prep_shift plug = Some prep \<Longrightarrow> ip_shift_units plug = Some shift_fn \<Longrightarrow>
      ip_units plug = Some units_fn \<Longrightarrow> byte_shifter prep shift_fn units_fn \<and> ip_maxreal_key plug \<noteq> None"

definition known_plugs :: "'d item_table \<Rightarrow> node40 \<Rightarrow> bool" where
  "known_plugs tab nd \<longleftrightarrow> (\<forall>pid \<in> set (nd_pids nd). tab pid \<noteq> None)"

text \<open>The bytes of the two nodes in the order of the tree.\<close>

definition joint_bytes :: "bool \<Rightarrow> node40 \<Rightarrow> node40 \<Rightarrow> u8 list" where
  "joint_bytes left_shift src dst = concat (if left_shift then nd_bodies dst @ nd_bodies src else nd_bodies src @ nd_bodies dst)"

lemma known_pid: "known_plugs tab nd \<Longrightarrow> i < nh_get_num_items nd \<Longrightarrow> \<exists>plug. tab (it_pid (nd_item nd i)) = Some plug"
  by (auto simp: known_plugs_def nd_pids_def nd_items_def)

lemma full_bodies: "nd_full nd \<longleftrightarrow> [] \<notin> set (nd_bodies nd)"
  by (force simp: nd_full_def nd_bodies_def)

lemma point_ok_bodies:
  "point_ok hint src \<longleftrightarrow>
     (sh_flag (sh_control hint) SF_UPDATE_POINT \<and> \<not> sh_flag (sh_result hint) SF_MOVE_POINT \<and>
        item (sh_pos hint) < nh_get_num_items src \<longrightarrow>
      unit (sh_pos hint) = MAX_UINT32 \<or> unit (sh_pos hint) \<le> length (nd_bodies src ! item (sh_pos hint)))"
  by (auto simp: point_ok_def nth_bodies)

lemma point_removed_simps [simp]:
  "sh_control (point_removed h i) = sh_control h" "sh_result (point_removed h i) = sh_result h"
  "sh_items_number (point_removed h i) = sh_items_number h" "sh_items_bytes (point_removed h i) = sh_items_bytes h"
  by (simp_all add: point_removed_def Let_def)

lemma point_shifted:
  assumes "point_ok hint src" "point_kept hint hint' i (length (nd_bodies src ! i) - n)" "sh_control hint' = sh_control hint"
    and "i < nh_get_num_items src" "n \<le> length (nd_bodies src ! i)" "length x = length (nd_bodies src ! i) - n"
    and b: "nd_bodies src' = (if n = length (nd_bodies src ! i) then take i (nd_bodies src) @ drop (Suc i) (nd_bodies src)
      else (nd_bodies src)[i := x])"
  shows "point_ok (if n = length (nd_bodies src ! i) then point_removed hint' i else hint') src'"
proof (cases "sh_flag (sh_control hint) SF_UPDATE_POINT \<and> \<not> sh_flag (sh_result hint') SF_MOVE_POINT")
  case True
  then have k: "\<not> sh_flag (sh_result hint) SF_MOVE_POINT" "item (sh_pos hint') = item (sh_pos hint)"
      "item (sh_pos hint) = i \<or> unit (sh_pos hint') = unit (sh_pos hint)" "point_inside hint' i (length (nd_bodies src ! i) - n)"
    using assms(2) by (simp_all add: point_kept_def)
  show ?thesis
  proof (cases "n = length (nd_bodies src ! i)")
    case rm: True
    have "nh_get_num_items src' = length (nd_bodies src')" by simp
    also have "\<dots> = nh_get_num_items src - 1" using b rm assms(4) by simp
    finally have n': "nh_get_num_items src' = nh_get_num_items src - 1" .
    show ?thesis
    proof (cases "i = item (sh_pos hint')")
      case False
      have "unit (sh_pos hint) = MAX_UINT32 \<or> unit (sh_pos hint) \<le> length (nd_bodies src ! item (sh_pos hint))"
        if "item (sh_pos hint) < nh_get_num_items src"
        using assms(1) True k(1) that by (simp add: point_ok_bodies)
      then show ?thesis
        using False True k rm assms(3,4) b n'
        by (auto simp: point_ok_bodies point_removed_def nth_append not_less)
    qed (use rm True in \<open>simp add: point_ok_bodies point_removed_def\<close>)
  next
    case False
    then have n': "nh_get_num_items src' = nh_get_num_items src" using b by (metis length_bodies length_list_update)
    show ?thesis
    proof (cases "i = item (sh_pos hint')")
      case True
      then show ?thesis using False k assms(3,4,6) b n' by (auto simp: point_ok_bodies point_inside_def)
    next
      case other: False
      then show ?thesis using False True k assms(1,3,4) b n' by (auto simp: point_ok_bodies)
    qed
  qed
qed (use assms(3) in \<open>auto simp: point_ok_bodies\<close>)

definition shift_kept :: "'d item_table \<Rightarrow> node40 \<Rightarrow> node40 \<Rightarrow> shift_hint \<Rightarrow> node40 \<Rightarrow> node40 \<Rightarrow> shift_hint \<Rightarrow> bool" where
  "shift_kept tab src dst hint src' dst' hint' \<longleftrightarrow>
     nd_wf src' \<and> nd_wf dst' \<and> nd_keypol src' = nd_keypol src \<and> nd_keypol dst' = nd_keypol dst \<and>
     known_plugs tab src' \<and> known_plugs tab dst' \<and>
     joint_bytes (sh_flag (sh_control hint) SF_ALLOW_LEFT) src' dst' = joint_bytes (sh_flag (sh_control hint) SF_ALLOW_LEFT) src dst \<and>
     sh_control hint' = sh_control hint \<and> sh_items_number hint' = sh_items_number hint \<and> sh_items_bytes hint' = sh_items_bytes hint \<and>
     nd_full src' \<and> point_ok hint' src'"

lemma joint_bytes_shifted:
  assumes "i < nh_get_num_items src" "n \<le> length (nd_bodies src ! i)"
    and "i = (if left_shift then 0 else nh_get_num_items src - 1)"
    and "if cr then j = (if left_shift then nh_get_num_items dst else 0)
      else 0 < nh_get_num_items dst \<and> j = (if left_shift then nh_get_num_items dst - 1 else 0)"
  defines "b \<equiv> nd_bodies src ! i"
  defines "part \<equiv> (if left_shift then take n b else drop (length b - n) b)"
  assumes "nd_bodies src' = (if n = length b then take i (nd_bodies src) @ drop (Suc i) (nd_bodies src)
      else (nd_bodies src)[i := (if left_shift then drop n b else take (length b - n) b)])"
    and "nd_bodies dst' = (if cr then take j (nd_bodies dst) @ part # drop j (nd_bodies dst)
      else (nd_bodies dst)[j := (let c = nd_bodies dst ! j in if left_shift then c @ part else part @ c)])"
  shows "joint_bytes left_shift src' dst' = joint_bytes left_shift src dst"
proof (cases left_shift)
  case True
  then obtain bs where s: "nd_bodies src = b # bs" using assms(1,3) length_bodies [of src] by (cases "nd_bodies src") (auto simp: b_def)
  have "concat (nd_bodies dst') = concat (nd_bodies dst) @ take n b"
  proof (cases cr)
    case False
    then obtain cs c where "nd_bodies dst = cs @ [c]" using assms(4) length_bodies [of dst] by (cases "nd_bodies dst" rule: rev_cases) auto
    then have "nd_bodies dst = cs @ [c]" "nh_get_num_items dst - 1 = length cs" using length_bodies [of dst] by simp_all
    then show ?thesis using False True assms(4,8) by (simp add: part_def Let_def)
  qed (use True assms(4,8) in \<open>simp add: part_def\<close>)
  moreover have "concat (nd_bodies src') = drop n b @ concat bs" using True s assms(3,7) by simp
  ultimately show ?thesis using True s by (simp add: joint_bytes_def)
next
  case False
  obtain bs c where c: "nd_bodies src = bs @ [c]"
    using assms(1) length_bodies [of src] by (cases "nd_bodies src" rule: rev_cases) auto
  then have i: "i = length bs" using False assms(3) length_bodies [of src] by simp
  then have s: "nd_bodies src = bs @ [b]" using c by (simp add: b_def)
  have "concat (nd_bodies dst') = drop (length b - n) b @ concat (nd_bodies dst)"
  proof (cases cr)
    case cr: False
    then obtain cs c where "nd_bodies dst = c # cs" using assms(4) length_bodies [of dst] by (cases "nd_bodies dst") auto
    then show ?thesis using cr False assms(4,8) by (simp add: part_def Let_def)
  qed (use False assms(4,8) in \<open>simp add: part_def\<close>)
  moreover have "concat (nd_bodies src') = concat bs @ take (length b - n) b" using False s i assms(7) by simp
  ultimately show ?thesis using False s by (simp add: joint_bytes_def)
qed

lemma hint_upd:
  "sh_control (hint\<lparr>sh_units_bytes := a\<rparr>) = sh_control hint" "sh_pos (hint\<lparr>sh_units_bytes := a\<rparr>) = sh_pos hint"
  "sh_units_bytes (hint\<lparr>sh_units_bytes := a\<rparr>) = a" "sh_units_bytes (hint\<lparr>sh_create := c\<rparr>) = sh_units_bytes hint"
  "hint\<lparr>sh_units_bytes := a, sh_create := c, sh_units_bytes := b\<rparr> = hint\<lparr>sh_units_bytes := b, sh_create := c\<rparr>"
  by simp_all

lemma unite_run:
  fixes hint h :: shift_hint and src dst :: node40 and create :: bool
  defines "d \<equiv> nh_get_num_items dst"
  assumes ne: "\<not> (nh_get_num_items src = 0 \<or> node40_space dst = 0)"
    and pt: "\<not> (sh_flag (sh_control hint) SF_UPDATE_POINT \<and> unit (sh_pos hint) = MAX_UINT32 \<and>
      (sh_flag (sh_control hint) SF_ALLOW_LEFT \<and> item (sh_pos hint) = 0 \<or>
       \<not> sh_flag (sh_control hint) SF_ALLOW_LEFT \<and> item (sh_pos hint) = nh_get_num_items src))"
    and b: "node40_border tab src (sh_flag (sh_control hint) SF_ALLOW_LEFT) = (0, Some sp)" and plug: "tab (pl_plug sp) = Some plug"
    and s: "\<not> \<not> node40_splittable plug sp"
    and c: "node40_unite_create tab src dst (sh_flag (sh_control hint) SF_ALLOW_LEFT) sp = (0, Some create, dp)" and prep: "ip_prep_shift plug = Some prep"
    and room: "\<not> (create \<and> node40_space dst \<le> node40_overhead dst)"
    and p: "prep sp (if create then None else dp)
      (hint\<lparr>sh_units_bytes := (if create then node40_space dst - node40_overhead dst else node40_space dst), sh_create := create\<rparr>) = (0, dp', h)"
    and h: "sh_control h = sh_control hint" and w: "\<not> create \<Longrightarrow> to_u32 (int d - 1) = d - 1"
  defines "k \<equiv> if create then (if sh_flag (sh_control hint) SF_ALLOW_LEFT then d else 0) else (if sh_flag (sh_control hint) SF_ALLOW_LEFT then d - 1 else 0)"
  defines "h' \<equiv> if sh_flag (sh_control hint) SF_UPDATE_POINT \<and> sh_flag (sh_result h) SF_MOVE_POINT then h\<lparr>sh_pos := (sh_pos h)\<lparr>item := k\<rparr>\<rparr> else h"
  shows "node40_unite tab src dst hint create =
    (if sh_units_number h' = 0 then Some (0, src, dst, h')
     else node40_unite_shift tab plug src dst (sh_flag (sh_control hint) SF_ALLOW_LEFT) sp (if create then whole_item k else \<lparr>item = k, unit = 0\<rparr>) h')"
proof (cases create)
  case True
  note go = node40_unite_def Let_def hint_upd if_not_P [OF ne] if_not_P [OF pt] b prod.case option.case plug if_not_P [OF s] c prep
  have r: "\<not> node40_space dst \<le> node40_overhead dst" "True \<noteq> True \<longleftrightarrow> False" "(0 :: int) \<noteq> 0 \<longleftrightarrow> False" using room True by simp_all
  have p': "prep sp None (hint\<lparr>sh_units_bytes := node40_space dst - node40_overhead dst, sh_create := True\<rparr>) = (0, dp', h)"
    using p True by simp
  show ?thesis
    unfolding go eqTrueI [OF True] h'_def k_def d_def if_not_P [OF r(1)] if_True r(2,3) if_False p'
    by (simp add: h)
next
  case False
  have no: "create = False" using False by simp
  note go = node40_unite_def Let_def hint_upd if_not_P [OF ne] if_not_P [OF pt] b prod.case option.case plug if_not_P [OF s] c prep
  have r: "False \<noteq> False \<longleftrightarrow> False" "(0 :: int) \<noteq> 0 \<longleftrightarrow> False" by simp_all
  have p': "prep sp dp (hint\<lparr>sh_units_bytes := node40_space dst, sh_create := False\<rparr>) = (0, dp', h)"
    using p False by simp
  show ?thesis
    unfolding go h'_def k_def d_def no r if_False p' w [OF False, unfolded d_def]
    by (simp add: h)
qed

context byte_items
begin

lemma fetch_known:
  assumes "nd_wf nd" "known_plugs tab nd" "item pos < nh_get_num_items nd"
  obtains plug where "tab (it_pid (nd_item nd (item pos))) = Some plug" "node40_fetch tab nd pos = (0, item_place nd pos)"
proof -
  obtain plug where p: "tab (it_pid (nd_item nd (item pos))) = Some plug" using known_pid [OF assms(2,3)] by blast
  then show ?thesis using that fetch_item [where tab = tab, OF assms(1,3) p] no_init [OF p] by (simp add: plug_init_def)
qed

lemma border_known:
  assumes "nd_wf nd" "known_plugs tab nd" "0 < nh_get_num_items nd"
  shows "node40_border tab nd l = (0, Some (item_place nd (whole_item (if l then 0 else nh_get_num_items nd - 1))))"
proof -
  let ?pos = "whole_item (if l then 0 else nh_get_num_items nd - 1)"
  have "item ?pos < nh_get_num_items nd" using assms(3) by simp
  then have f: "node40_fetch tab nd ?pos = (0, item_place nd ?pos)" by (rule fetch_known [OF assms(1,2)])
  show ?thesis using assms(3) unfolding node40_border_def Let_def f by simp
qed

lemma create_known:
  assumes "nd_wf dst" "known_plugs tab dst"
  shows "\<exists>cr dp. node40_unite_create tab src dst left_shift sp = (0, cr, dp) \<and> (cr = Some False \<longrightarrow> 0 < nh_get_num_items dst)"
proof (cases "0 < nh_get_num_items dst")
  case True
  then show ?thesis
    using border_known [OF assms True]
    by (auto simp: node40_unite_create_def Let_def split: option.splits)
qed (simp add: node40_unite_create_def)

lemma unite_after_prep:
  fixes hint h :: shift_hint
  assumes wf: "nd_wf src" "nd_wf dst" and known: "known_plugs tab src" "known_plugs tab dst" and full: "nd_full src"
    and point: "point_ok hint src"
    and i: "0 < nh_get_num_items src" "i = (if left_shift then 0 else nh_get_num_items src - 1)"
    and left_shift: "left_shift = sh_flag (sh_control hint) SF_ALLOW_LEFT"
    and plug: "tab (it_pid (nd_item src i)) = Some plug" "ip_prep_shift plug = Some prep" "ip_shift_units plug = Some shift_fn" "ip_units plug = Some units_fn"
    and h: "sh_create h = cr" "sh_control h = sh_control hint" "sh_items_number h = sh_items_number hint" "sh_items_bytes h = sh_items_bytes hint"
      "sh_units_number h = sh_units_bytes h" "sh_units_bytes h \<le> length (nd_bodies src ! i)"
      "sh_units_bytes h + (if cr then node40_overhead dst else 0) \<le> node40_space dst"
      "point_kept hint h i (length (nd_bodies src ! i) - sh_units_bytes h)"
    and pos: "pos = (if cr then whole_item (if left_shift then nh_get_num_items dst else 0)
      else \<lparr>item = (if left_shift then nh_get_num_items dst - 1 else 0), unit = 0\<rparr>)" "cr \<or> 0 < nh_get_num_items dst"
  shows "\<exists>src' dst' hint'. (if sh_units_number h = 0 then Some (0, src, dst, h)
      else node40_unite_shift tab plug src dst left_shift (item_place src (whole_item i)) pos h) = Some (0, src', dst', hint') \<and>
    shift_kept tab src dst hint src' dst' hint'"
proof -
  let ?b = "nd_bodies src ! i" and ?n = "sh_units_bytes h"
  have ii: "i < nh_get_num_items src" using i by simp
  have len: "0 < length ?b" using full ii by (metis full_bodies length_bodies length_greater_0_conv nth_mem)
  show ?thesis
  proof (cases "?n = 0")
    case True
    have "point_ok h src"
      using point_shifted [OF point, of h i 0 ?b src] h(2,8) ii len True by simp
    then show ?thesis using True h wf known full by (simp add: shift_kept_def)
  next
    case False
    have b: "byte_shifter prep shift_fn units_fn" "ip_maxreal_key plug \<noteq> None" using splits [OF plug] by simp_all
    then obtain maxreal where maxreal: "ip_maxreal_key plug = Some maxreal" by blast
    have p: "if sh_create h then unit pos = MAX_UINT32 \<and> item pos \<le> nh_get_num_items dst else unit pos \<noteq> MAX_UINT32 \<and> item pos < nh_get_num_items dst"
      using pos h(1) by auto
    obtain plug0 where plug0: "tab (if sh_create h then it_pid (nd_item src i) else it_pid (nd_item dst (item pos))) = Some plug0"
      using plug(1) known_pid [OF known(2), of "item pos"] p by (cases "sh_create h") auto
    have l: "left_shift = sh_flag (sh_control h) SF_ALLOW_LEFT" using left_shift h(2) by simp
    obtain src' dst' where u: "node40_unite_shift tab plug src dst left_shift (item_place src (whole_item i)) pos h =
        Some (0, src', dst', if ?n = length ?b then point_removed (h\<lparr>sh_update := True\<rparr>) i else h\<lparr>sh_update := True\<rparr>)"
      "nd_wf src'" "nd_wf dst'" "nd_keypol src' = nd_keypol src" "nd_keypol dst' = nd_keypol dst"
      "set (nd_pids src') \<subseteq> set (nd_pids src)" "set (nd_pids dst') \<subseteq> set (nd_pids src) \<union> set (nd_pids dst)"
      and bs: "nd_bodies src' = (if ?n = length ?b then take i (nd_bodies src) @ drop (Suc i) (nd_bodies src)
        else (nd_bodies src)[i := (if left_shift then drop ?n ?b else take (length ?b - ?n) ?b)])"
      "nd_bodies dst' = (if cr then take (item pos) (nd_bodies dst) @ (if left_shift then take ?n ?b else drop (length ?b - ?n) ?b) # drop (item pos) (nd_bodies dst)
        else (nd_bodies dst)[item pos := (let c = nd_bodies dst ! item pos in if left_shift then c @ (if left_shift then take ?n ?b else drop (length ?b - ?n) ?b)
          else (if left_shift then take ?n ?b else drop (length ?b - ?n) ?b) @ c)])"
      using unite_shift_ok [where tab = tab and src = src and i = i and pos = pos and hint = h, OF b(1) maxreal plug(4,3) wf ii h(5) _ h(6) _ p plug0 no_init [OF plug0]] False h(1,7)
      unfolding l by blast
    have "joint_bytes left_shift src' dst' = joint_bytes left_shift src dst"
      by (rule joint_bytes_shifted [OF ii h(6) i(2) _ bs]) (use pos in auto)
    moreover have "nd_full src'"
      using full bs(1) h(6) False by (auto simp: full_bodies set_update_subset_insert dest!: in_set_takeD in_set_dropD subsetD [OF set_update_subset_insert])
    moreover have "point_ok (if ?n = length ?b then point_removed (h\<lparr>sh_update := True\<rparr>) i else h\<lparr>sh_update := True\<rparr>) src'"
      using point_shifted [OF point, of "h\<lparr>sh_update := True\<rparr>" i ?n "if left_shift then drop ?n ?b else take (length ?b - ?n) ?b" src'] h(2,6,8) ii bs(1)
      by (simp add: point_kept_def point_inside_def)
    moreover have "known_plugs tab src'" "known_plugs tab dst'" using u(6,7) known by (auto simp: known_plugs_def)
    ultimately show ?thesis using u h(1-5) False left_shift by (auto simp: shift_kept_def)
  qed
qed

lemma unite_ok:
  assumes wf: "nd_wf src" "nd_wf dst" and known: "known_plugs tab src" "known_plugs tab dst" and full: "nd_full src"
    and point: "point_ok hint src" and stay: "\<not> sh_flag (sh_result hint) SF_MOVE_POINT"
  shows "\<exists>src' dst' hint'. node40_unite tab src dst hint create = Some (0, src', dst', hint') \<and>
    shift_kept tab src dst hint src' dst' hint'"
proof -
  let ?left = "sh_flag (sh_control hint) SF_ALLOW_LEFT" and ?n = "nh_get_num_items src" and ?d = "nh_get_num_items dst"
  let ?i = "if ?left then 0 else ?n - 1" and ?S = "node40_space dst"
  let ?h0 = "hint\<lparr>sh_units_bytes := ?S\<rparr>"
  have space_small: "?S < 65536" and d_small: "?d < 65536" using nd_wfD [OF wf(2)] by (auto simp: node40_space_def)
  have still: "shift_kept tab src dst hint src dst h"
    if "sh_control h = sh_control hint" "sh_items_number h = sh_items_number hint" "sh_items_bytes h = sh_items_bytes hint"
      "sh_result h = sh_result hint" "sh_pos h = sh_pos hint" for h
    using that wf known full point by (simp add: shift_kept_def point_ok_def)
  show ?thesis
  proof (cases "?n = 0 \<or> ?S = 0 \<or> sh_flag (sh_control hint) SF_UPDATE_POINT \<and> unit (sh_pos hint) = MAX_UINT32 \<and>
      (?left \<and> item (sh_pos hint) = 0 \<or> \<not> ?left \<and> item (sh_pos hint) = ?n)")
    case True
    then show ?thesis using still [of ?h0] by (auto simp: node40_unite_def Let_def)
  next
    case False
    then have n: "0 < ?n" "?i < ?n" by simp_all
    note b = border_known [OF wf(1) known(1) n(1), of ?left]
    obtain plug where plug: "tab (it_pid (nd_item src ?i)) = Some plug" using known_pid [OF known(1) n(2)] by blast
    obtain cr dp where cr: "node40_unite_create tab src dst ?left (item_place src (whole_item ?i)) = (0, cr, dp)"
      "cr = Some False \<longrightarrow> 0 < ?d" using create_known [OF wf(2) known(2)] by blast
    let ?sp = "item_place src (whole_item ?i)"
    have pl: "pl_plug ?sp = it_pid (nd_item src ?i)" by (simp add: item_place_def)
    show ?thesis
    proof (cases "node40_splittable plug ?sp \<and> cr = Some create")
      case stop: False
      have "\<exists>h. node40_unite tab src dst hint create = Some (0, src, dst, h) \<and> (h = ?h0 \<or> (\<exists>c. h = ?h0\<lparr>sh_create := c\<rparr>))"
        using False stop b cr(1) plug by (cases cr) (auto simp: node40_unite_def Let_def pl)
      then show ?thesis using still [of ?h0] still [of "?h0\<lparr>sh_create := c\<rparr>" for c] by auto
    next
      case go: True
      obtain prep shift_fn units_fn where m: "ip_prep_shift plug = Some prep" "ip_shift_units plug = Some shift_fn" "ip_units plug = Some units_fn"
        using go by (auto simp: node40_splittable_def split: option.splits)
      show ?thesis
      proof (cases "create \<and> ?S \<le> node40_overhead dst")
        case True
        then have "node40_unite tab src dst hint create = Some (0, src, dst, ?h0\<lparr>sh_create := True\<rparr>)"
          using False go b cr(1) plug m(1) by (auto simp: node40_unite_def Let_def pl)
        then show ?thesis using still [of "?h0\<lparr>sh_create := True\<rparr>"] by simp
      next
        case room: False
        let ?h1 = "hint\<lparr>sh_units_bytes := (if create then ?S - node40_overhead dst else ?S), sh_create := create\<rparr>"
        obtain res dp' h where p: "prep ?sp (if create then None else dp) ?h1 = (res, dp', h)" using prod_cases3 by blast
        have law: "res = 0 \<and> same_goal ?h1 h \<and> sh_units_number h = sh_units_bytes h \<and> sh_units_bytes h \<le> sh_units_bytes ?h1 \<and>
            sh_units_bytes h \<le> pl_len ?sp \<and> point_kept ?h1 h (item (pl_pos ?sp)) (pl_len ?sp - sh_units_bytes h)"
          by (rule byte_shifter.prep_law [OF conjunct1 [OF splits [OF plug m]] _ _ _ _ p])
            (use body_small [OF wf(1), of ?i] space_small point stay n in \<open>auto simp: point_inside_def point_ok_bodies nth_bodies\<close>)
        let ?k = "if create then (if ?left then ?d else 0) else (if ?left then ?d - 1 else 0)"
        let ?h = "if sh_flag (sh_control hint) SF_UPDATE_POINT \<and> sh_flag (sh_result h) SF_MOVE_POINT
          then h\<lparr>sh_pos := (sh_pos h)\<lparr>item := ?k\<rparr>\<rparr> else h"
        let ?pos = "if create then whole_item ?k else \<lparr>item = ?k, unit = 0\<rparr>"
        have d: "create \<or> 0 < ?d" using cr(2) go by auto
        have w: "to_u32 (int ?d - 1) = ?d - 1" if "\<not> create" using d that d_small to_u32_diff [of 1 ?d] by simp
        have "node40_unite tab src dst hint create =
            (if sh_units_number ?h = 0 then Some (0, src, dst, ?h) else node40_unite_shift tab plug src dst ?left ?sp ?pos ?h)"
          by (rule unite_run [where plug = plug and prep = prep and dp = dp and dp' = dp', OF _ _ b _ _ _ m(1) room _ _ w])
            (use False go cr(1) plug p law in \<open>simp_all add: pl same_goal_def\<close>)
        moreover have "\<exists>src' dst' hint'. (if sh_units_number ?h = 0 then Some (0, src, dst, ?h)
            else node40_unite_shift tab plug src dst ?left ?sp ?pos ?h) = Some (0, src', dst', hint') \<and> shift_kept tab src dst hint src' dst' hint'"
          by (rule unite_after_prep [OF wf known full point n(1) refl refl plug m, where cr = create])
            (use law room d n in \<open>auto simp: same_goal_def nth_bodies point_kept_def point_inside_def\<close>)
        ultimately show ?thesis by simp
      qed
    qed
  qed
qed

end

section \<open>The whole shift\<close>

lemma zero_cases:
  "(b \<Longrightarrow> fst x = z) \<Longrightarrow> (\<not> b \<Longrightarrow> fst y = z) \<Longrightarrow> fst (if b then x else y) = z"
  by simp

lemma predict_loop_zero:
  assumes "node40_fetch tab src (whole_item 0) = (0, place)" "tab (pl_plug place) = Some plug" "ip_units plug = Some f"
  shows "fst (node40_predict_loop tab src overhead flags endp cur space dst_items n hint) = 0"
proof (induction n arbitrary: cur space dst_items hint)
  case (Suc n)
  show ?case
    unfolding node40_predict_loop.simps Let_def assms prod.case
    by (intro zero_cases) (simp_all add: Suc.IH assms)
qed simp

definition nodes_kept :: "'d item_table \<Rightarrow> bool \<Rightarrow> node40 \<Rightarrow> node40 \<Rightarrow> node40 \<Rightarrow> node40 \<Rightarrow> bool" where
  "nodes_kept tab left_shift src dst src' dst' \<longleftrightarrow>
     nd_wf src' \<and> nd_wf dst' \<and> nd_keypol src' = nd_keypol src \<and> nd_keypol dst' = nd_keypol dst \<and>
     known_plugs tab src' \<and> known_plugs tab dst' \<and> joint_bytes left_shift src' dst' = joint_bytes left_shift src dst"

lemma nodes_kept_trans:
  "nodes_kept tab l src dst src1 dst1 \<Longrightarrow> nodes_kept tab l src1 dst1 src2 dst2 \<Longrightarrow> nodes_kept tab l src dst src2 dst2"
  by (simp add: nodes_kept_def)

lemma shift_kept_nodes:
  "shift_kept tab src dst hint src' dst' hint' \<Longrightarrow> nodes_kept tab (sh_flag (sh_control hint) SF_ALLOW_LEFT) src dst src' dst'"
  by (simp add: shift_kept_def nodes_kept_def)

lemma joint_pids:
  assumes "joint_items l src' dst' = joint_items l src dst"
  shows "joint_bytes l src' dst' = joint_bytes l src dst"
    and "known_plugs tab src \<Longrightarrow> known_plugs tab dst \<Longrightarrow> known_plugs tab src' \<and> known_plugs tab dst'"
proof -
  have b: "joint_bytes l s d = concat (map it_body (joint_items l s d))" for s d
    by (simp add: joint_bytes_def joint_items_def nd_bodies_def)
  show "joint_bytes l src' dst' = joint_bytes l src dst" by (simp add: b assms)
  have k: "known_plugs tab s \<and> known_plugs tab d \<longleftrightarrow> (\<forall>it \<in> set (joint_items l s d). tab (it_pid it) \<noteq> None)" for s d
    by (auto simp: known_plugs_def nd_pids_def joint_items_def)
  show "known_plugs tab src \<Longrightarrow> known_plugs tab dst \<Longrightarrow> known_plugs tab src' \<and> known_plugs tab dst'"
    using k [of src dst] k [of src' dst'] assms by simp
qed

context byte_items
begin

lemma predict_zero:
  assumes "nd_wf src" "known_plugs tab src"
  shows "fst (node40_predict tab src dst hint) = 0"
proof (cases "nh_get_num_items src = 0")
  case False
  then have z: "item (whole_item 0) < nh_get_num_items src" by simp
  obtain plug where p: "tab (it_pid (nd_item src (item (whole_item 0)))) = Some plug" "node40_fetch tab src (whole_item 0) = (0, item_place src (whole_item 0))"
    by (rule fetch_known [OF assms z])
  obtain f where f: "ip_units plug = Some f" using counts [OF p(1)] by blast
  have "tab (pl_plug (item_place src (whole_item 0))) = Some plug" using p(1) by (simp add: item_place_def)
  note zero = predict_loop_zero [OF p(2) this f]
  show ?thesis
    using False by (simp add: node40_predict_def Let_def case_prod_unfold zero)
qed (simp add: node40_predict_def)

lemma move_kept:
  assumes "nd_wf src" "nd_wf dst" "nd_keypol src = nd_keypol dst" "sh_items_number hint = 0" "sh_items_bytes hint = 0"
    and "known_plugs tab src" "known_plugs tab dst" "nd_full src" "point_ok hint src"
  shows "\<exists>src' dst' hint'. node40_move tab src dst hint = (0, src', dst', hint') \<and>
    nodes_kept tab (sh_flag (sh_control hint) SF_ALLOW_LEFT) src dst src' dst' \<and> sh_control hint' = sh_control hint \<and>
    nd_full src' \<and> point_ok hint' src'"
proof -
  obtain r hint1 where p: "node40_predict tab src dst hint = (r, hint1)" by fastforce
  then have r: "r = 0" using predict_zero [OF assms(1,6), of dst hint] by simp
  obtain res src' dst' hint' where m: "node40_move tab src dst hint = (res, src', dst', hint')" using prod_cases4 by blast
  have "res = 0"
    using move_nothing [OF p] move_step(1) [OF assms(1-5) p [unfolded r] _ _ m] m r by (metis fst_conv)
  then show ?thesis
    using m move_correct [OF assms(1-5) m] joint_pids [of _ src' dst' src dst] assms(6-9) by (auto simp: nodes_kept_def)
qed

lemma shift_ok:
  assumes "nd_wf src" "nd_wf dst" "nd_keypol src = nd_keypol dst" "sh_items_number hint = 0" "sh_items_bytes hint = 0"
    and "known_plugs tab src" "known_plugs tab dst" "nd_full src" "point_ok hint src" "\<not> sh_flag (sh_result hint) SF_MOVE_POINT"
    and merge: "sh_flag (sh_control hint) SF_ALLOW_MERGE"
  shows "\<exists>src' dst' hint'. node40_shift tab src dst hint = Some (0, src', dst', hint') \<and>
    nodes_kept tab (sh_flag (sh_control hint) SF_ALLOW_LEFT) src dst src' dst'"
proof -
  let ?l = "sh_flag (sh_control hint) SF_ALLOW_LEFT"
  obtain src1 dst1 h1 where u1: "node40_unite tab src dst hint False = Some (0, src1, dst1, h1)" "shift_kept tab src dst hint src1 dst1 h1"
    using unite_ok [OF assms(1,2,6-10)] by blast
  note k1 = u1(2) [unfolded shift_kept_def] and n1 = shift_kept_nodes [OF u1(2)]
  show ?thesis
  proof (cases "sh_flag (sh_result h1) SF_MOVE_POINT")
    case True
    then show ?thesis using u1 n1 merge by (simp add: node40_shift_def Let_def)
  next
    case False
    obtain src2 dst2 h2 where m: "node40_move tab src1 dst1 h1 = (0, src2, dst2, h2)" "nodes_kept tab ?l src1 dst1 src2 dst2"
        "sh_control h2 = sh_control hint" "nd_full src2" "point_ok h2 src2"
      using move_kept [of src1 dst1 h1] k1 assms(3-5) by auto
    note n2 = nodes_kept_trans [OF n1 m(2)]
    show ?thesis
    proof (cases "sh_flag (sh_result h2) SF_MOVE_POINT")
      case True
      then show ?thesis using u1(1) False m(1) n2 merge by (simp add: node40_shift_def Let_def)
    next
      case stay: False
      obtain src3 dst3 h3 where u3: "node40_unite tab src2 dst2 h2 True = Some (0, src3, dst3, h3)" "shift_kept tab src2 dst2 h2 src3 dst3 h3"
        using unite_ok [of src2 dst2 h2 True] m(2,4,5) stay unfolding nodes_kept_def by blast
      have "nodes_kept tab ?l src dst src3 dst3" using nodes_kept_trans [OF n2] shift_kept_nodes [OF u3(2)] m(3) by simp
      then show ?thesis using u1(1) False m(1) stay u3(1) merge by (simp add: node40_shift_def Let_def)
    qed
  qed
qed

end

section \<open>Nodes of tails and node pointers\<close>

text \<open>Node pointers cannot be split between nodes, so they meet the contract as well.\<close>

definition byte_tab :: "'d item_table" where
  "byte_tab pid = (if pid = ITEM_PLAIN40_ID then Some plain40_plug else if pid = ITEM_NODEPTR40_ID then Some nodeptr40_plug else None)"

interpretation byte_table: byte_items byte_tab
proof unfold_locales
  fix pid and plug :: "'d item_plug" and prep shift_fn units_fn
  assume "byte_tab pid = Some plug"
  then have p: "plug = plain40_plug \<or> plug = nodeptr40_plug" by (simp add: byte_tab_def split: if_splits)
  then show "ip_init plug = None" "ip_units plug \<noteq> None" by (auto simp: plain40_plug_def nodeptr40_plug_def)
  assume "ip_prep_shift plug = Some prep" "ip_shift_units plug = Some shift_fn" "ip_units plug = Some units_fn"
  then show "byte_shifter prep shift_fn units_fn \<and> ip_maxreal_key plug \<noteq> None"
    using p plain_shifter.byte_shifter_axioms by (auto simp: plain40_plug_def nodeptr40_plug_def)
qed

text \<open>
  C1: balancing keeps the data.  Between two well-formed nodes whose items are tails and node pointers,
  \<^verbatim>\<open>node40_shift\<close> with merging (units into the neighbour's border item, then whole items, then units of one
  more item into a new one) succeeds, both nodes stay well formed, and the bytes of the items of the two
  nodes, in the order of the tree, are the same; the insert point the hint carries may be anywhere in the
  source.
\<close>

theorem node40_shift_keeps:
  fixes src dst :: node40
  defines "tab \<equiv> byte_tab :: 'd item_table"
  assumes "nd_wf src" "nd_wf dst" "nd_keypol src = nd_keypol dst" "nd_full src"
    and "known_plugs tab src" "known_plugs tab dst"
    and "sh_items_number hint = 0" "sh_items_bytes hint = 0" "\<not> sh_flag (sh_result hint) SF_MOVE_POINT" "point_ok hint src"
    and "sh_flag (sh_control hint) SF_ALLOW_MERGE"
  shows "\<exists>src' dst' hint'. node40_shift tab src dst hint = Some (0, src', dst', hint') \<and>
    nd_wf src' \<and> nd_wf dst' \<and> known_plugs tab src' \<and> known_plugs tab dst' \<and>
    (if sh_flag (sh_control hint) SF_ALLOW_LEFT then concat (nd_bodies dst' @ nd_bodies src') = concat (nd_bodies dst @ nd_bodies src)
     else concat (nd_bodies src' @ nd_bodies dst') = concat (nd_bodies src @ nd_bodies dst))"
  using byte_table.shift_ok [OF assms(2-4,8,9) assms(6,7) [unfolded tab_def] assms(5,11,10,12), folded tab_def]
  by (cases "sh_flag (sh_control hint) SF_ALLOW_LEFT") (auto simp: nodes_kept_def joint_bytes_def)

text \<open>The sample node with tails in it.\<close>

definition sample_tails :: node40 where
  "sample_tails = node40_put_pid (node40_put_pid sample_node 106 ITEM_PLAIN40_ID) 76 ITEM_PLAIN40_ID"

lemma sample_tails_view:
  "nd_items sample_tails = map (\<lambda>it. it\<lparr>it_pid := ITEM_PLAIN40_ID\<rparr>) (nd_items sample_node)"
  by code_simp

lemma sample_tails_heads:
  "nh_get_num_items sample_tails = 2" "nh_get_free_space sample_tails = 40" "nh_get_free_space_start sample_tails = 36"
  "nd_hdr sample_tails = 28" "nd_size sample_tails = 136" "nd_keypol sample_tails = 3"
  "ih_get_offset (nd_mem sample_tails) 106 3 = 28" "ih_get_offset (nd_mem sample_tails) 76 3 = 33"
  by code_simp+

lemma sample_tails_ok: "nd_wf sample_tails" "nd_full sample_tails" "known_plugs byte_tab sample_tails"
proof -
  show "nd_wf sample_tails"
    using sample_tails_heads by (auto simp: nd_wf_def nd_off_def nd_head_def ih_size_def less_Suc_eq numeral_2_eq_2)
  show "nd_full sample_tails" using sample_full by (simp add: nd_full_def sample_tails_view)
  show "known_plugs byte_tab sample_tails" by (simp add: known_plugs_def nd_pids_def sample_tails_view byte_tab_def)
qed

definition sample_merge :: shift_hint where
  "sample_merge = sample_shift\<lparr>sh_control := SF_ALLOW_RIGHT OR SF_ALLOW_MERGE\<rparr>"

theorem node40_shift_keeps_witness:
  "\<exists>src' dst' hint'. node40_shift (byte_tab :: unit item_table) sample_tails sample_tails sample_merge = Some (0, src', dst', hint') \<and>
    nd_wf src' \<and> nd_wf dst' \<and> concat (nd_bodies src' @ nd_bodies dst') = concat (nd_bodies sample_tails @ nd_bodies sample_tails)"
proof -
  have h: "sh_items_number sample_merge = 0" "sh_items_bytes sample_merge = 0" "\<not> sh_flag (sh_result sample_merge) SF_MOVE_POINT"
    "sh_flag (sh_control sample_merge) SF_ALLOW_MERGE" "\<not> sh_flag (sh_control sample_merge) SF_ALLOW_LEFT"
    "\<not> sh_flag (sh_control sample_merge) SF_UPDATE_POINT"
    by (simp_all add: sample_merge_def sample_shift_def sh_flag_def)
  have "point_ok sample_merge sample_tails" using h(6) by (simp add: point_ok_def)
  from node40_shift_keeps [where 'd = unit, OF sample_tails_ok(1,1) refl sample_tails_ok(2,3,3) h(1-3) this h(4)] show ?thesis
    using h(5) by auto
qed

end
