(* ===== verification/Node40Repair.thy ===== *)
theory Node40Repair
  imports NodeInsert
begin

text \<open>
  What fsck does to a node (\<^verbatim>\<open>node40_repair.c\<close>, \<^verbatim>\<open>node41_repair.c\<close>): the count of items, the array of item
  headers, the free space fields and the plugin ids are checked or rebuilt; packing to a stream and back.
  Results are error codes with the bits \<open>RE_FIXABLE\<close> and \<open>RE_FATAL\<close>; the plugin factory is the parameter
  \<open>known\<close>.  Messages are left out.
\<close>

unbundle bit_operations_syntax

abbreviation (input) MIN_ITEM_LEN :: nat where "MIN_ITEM_LEN \<equiv> 1"

definition repair_error_fatal :: "int \<Rightarrow> bool" where
  "repair_error_fatal res \<longleftrightarrow> res < 0 \<or> res AND RE_FATAL \<noteq> 0"

section \<open>Offsets\<close>

definition node40_set_offset_at :: "node40 \<Rightarrow> nat \<Rightarrow> nat \<Rightarrow> node40" where
  "node40_set_offset_at node pos offset =
     (if pos > nh_get_num_items node then node
      else if nh_get_num_items node = pos then nh_set_free_space_start node (int offset)
      else node\<lparr>nd_mem := ih_set_offset (nd_mem node) (node40_ih_at node pos) (int offset) (nd_keypol node)\<rparr>)"

definition ih_offset_at :: "node40 \<Rightarrow> nat \<Rightarrow> nat" where
  "ih_offset_at node i = ih_get_offset (nd_mem node) (node40_ih_at node i) (nd_keypol node)"

fun region_offsets :: "nat \<Rightarrow> mem \<Rightarrow> int \<Rightarrow> nat \<Rightarrow> mem" where
  "region_offsets 0 m ih pol = m"
| "region_offsets (Suc n) m ih pol =
     region_offsets n (ih_set_offset m ih (int (ih_get_offset m (ih + int (ih_size pol)) pol) + 1) pol)
       (ih - int (ih_size pol)) pol"

text \<open>\<open>start\<close> is at least 1: the item in front of the region goes with it.\<close>

definition node40_region_delete :: "node40 \<Rightarrow> nat \<Rightarrow> nat \<Rightarrow> int \<times> node40" where
  "node40_region_delete node start endp =
     (let m = region_offsets (endp - start) (nd_mem node) (node40_ih_at node start) (nd_keypol node);
          node = node\<lparr>nd_mem := m\<rparr>;
          pos = whole_item (to_u32 (int start - 1));
          count = to_u32 (int endp - int (item pos));
          len = node40_size node pos count
      in node40_shrink node pos len count)"

section \<open>The count of items\<close>

definition node40_count_valid :: "node40 \<Rightarrow> bool" where
  "node40_count_valid node \<longleftrightarrow>
     (let count = nh_get_num_items node
      in if count > nd_size node div ih_size (nd_keypol node) then False
         else if nh_get_free_space_start node > nd_size node then False
         else if nh_get_free_space node > nd_size node then False
         else nh_get_free_space_start node + nh_get_free_space node + count * ih_size (nd_keypol node) = nd_size node)"

text \<open>The loop of the estimate; \<open>None\<close> when the fuel, the size of the block, runs out.\<close>

fun estimate_loop :: "nat \<Rightarrow> node40 \<Rightarrow> nat \<Rightarrow> nat \<Rightarrow> nat \<Rightarrow> nat \<Rightarrow> nat option" where
  "estimate_loop 0 node i left right last_pos = None"
| "estimate_loop (Suc fuel) node i left right last_pos =
     (if left > right then Some last_pos
      else
        (let offset = ih_offset_at node i;
             (last_pos, left) = (if offset \<ge> left \<and> offset \<le> right then (i, offset) else (last_pos, left))
         in estimate_loop fuel node (i + 1) (left + MIN_ITEM_LEN)
              (to_u32 (int right - int (ih_size (nd_keypol node)))) last_pos))"

definition node40_estimate_count_common :: "node40 \<Rightarrow> nat \<Rightarrow> nat option" where
  "node40_estimate_count_common node node_header_size =
     map_option (\<lambda>n. n + 1)
       (estimate_loop (nd_size node) node 0 node_header_size
          (to_u32 (int (nd_size node) - int (ih_size (nd_keypol node)) - int MIN_ITEM_LEN)) 0)"

definition node40_estimate_count :: "node40 \<Rightarrow> nat option" where
  "node40_estimate_count node = node40_estimate_count_common node 28"

definition node40_count_check_common :: "node40 \<Rightarrow> nat \<Rightarrow> (node40 \<Rightarrow> nat option) \<Rightarrow> (int \<times> node40) option" where
  "node40_count_check_common node mode estimate_count =
     (if node40_count_valid node then Some (0, node)
      else case estimate_count node of
        None \<Rightarrow> None
      | Some num \<Rightarrow>
          if num \<ge> nh_get_num_items node then Some (0, node)
          else if mode \<noteq> RM_BUILD then Some (RE_FATAL, node)
          else Some (0, node40_mkdirty (nh_set_num_items node (int num))))"

definition node40_count_check :: "node40 \<Rightarrow> nat \<Rightarrow> (int \<times> node40) option" where
  "node40_count_check node mode = node40_count_check_common node mode node40_estimate_count"

section \<open>Free space\<close>

definition node40_space_check :: "node40 \<Rightarrow> nat \<Rightarrow> nat \<Rightarrow> int \<times> node40" where
  "node40_space_check node offset mode =
     (let space = nh_get_free_space_start node;
          (res, node) =
            (if offset \<noteq> space then
               (if mode = RM_BUILD then
                  (let node = nh_set_free_space node (int (nh_get_free_space node) + int space - int offset)
                   in (0, node40_mkdirty (nh_set_free_space_start node (int offset))))
                else (RE_FATAL, node))
             else (0, node));
          space = to_u32 (int (nd_size node) - int (nh_get_free_space_start node) -
                    int (ih_size (nd_keypol node)) * int (nh_get_num_items node))
      in if space \<noteq> nh_get_free_space node then
           (if mode = RM_CHECK then (res OR RE_FIXABLE, node)
            else (res, node40_mkdirty (nh_set_free_space node (int space))))
         else (res, node))"

section \<open>The array of item headers\<close>

text \<open>
  The loop over the offsets, with \<open>i\<close> from 0 to the count, the limits \<open>left\<close> and \<open>right\<close> and the last
  position with a good offset.  \<open>Inl\<close> is the early return, \<open>Inr\<close> the values after the loop.
\<close>

function ih_array_loop ::
  "nat \<Rightarrow> node40 \<Rightarrow> nat \<Rightarrow> nat \<Rightarrow> nat \<Rightarrow> nat \<Rightarrow> nat \<Rightarrow> int \<Rightarrow> (int \<times> node40) + (node40 \<times> nat \<times> nat \<times> nat \<times> int)" where
  "ih_array_loop mode node i count left right last_pos res =
     (if i > count then Inr (node, i, left, last_pos, res)
      else
        (let offset = (if i = count then nh_get_free_space_start node else ih_offset_at node i)
         in if i = 0 then
              (if offset = left then ih_array_loop mode node (i + 1) count (left + MIN_ITEM_LEN) right last_pos res
               else if mode \<noteq> RM_BUILD then
                 ih_array_loop mode node (i + 1) count (left + MIN_ITEM_LEN) right last_pos (res OR RE_FATAL)
               else
                 (let m = ih_set_offset (nd_mem node) (node40_ih_at node 0) (int left) (nd_keypol node)
                  in ih_array_loop mode (node40_mkdirty (node\<lparr>nd_mem := m\<rparr>)) (i + 1) count (left + MIN_ITEM_LEN) right last_pos res))
            else
              (let relable = offset \<ge> left \<and> to_u32 (int offset + (int count - int i) * int MIN_ITEM_LEN) \<le> right;
                   res = (if \<not> relable \<and> mode \<noteq> RM_BUILD then res OR RE_FATAL else res)
               in if \<not> relable \<and> count \<noteq> i then ih_array_loop mode node (i + 1) count (left + MIN_ITEM_LEN) right last_pos res
                  else if last_pos \<noteq> i - 1 \<or> \<not> relable then
                    (if mode = RM_BUILD then
                       (let delta = i - last_pos; count = count - delta;
                            right = to_u32 (int right + int delta * int (ih_size (nd_keypol node)));
                            (r, node) = node40_region_delete node (last_pos + 1) i
                        in if r \<noteq> 0 then Inl (- EINVAL, node)
                           else ih_array_loop mode node (last_pos + 1) count
                                  (ih_offset_at node last_pos + MIN_ITEM_LEN) right last_pos res)
                     else ih_array_loop mode node (i + 1) count
                            ((if \<not> relable then ih_offset_at node last_pos else left) + MIN_ITEM_LEN) right last_pos res)
                  else ih_array_loop mode node (i + 1) count
                         ((if i = count then nh_get_free_space_start node else ih_offset_at node i) + MIN_ITEM_LEN) right i res)))"
  by pat_completeness auto
termination
  by (relation "measure (\<lambda>(mode, node, i, count, left, right, last_pos, res). Suc count - i)") auto

declare ih_array_loop.simps [simp del]

definition node40_ih_array_check_common :: "node40 \<Rightarrow> nat \<Rightarrow> nat \<Rightarrow> int \<times> node40" where
  "node40_ih_array_check_common node mode node_header_size =
     (let count = nh_get_num_items node;
          right = to_u32 (int (nd_size node) - int count * int (ih_size (nd_keypol node)))
      in case ih_array_loop mode node 0 count node_header_size right 0 0 of
           Inl (res, node) \<Rightarrow> (res, node)
         | Inr (node, i, left, last_pos, res) \<Rightarrow>
             (let left = to_u32 (int left - (int i - int last_pos) * int MIN_ITEM_LEN);
                  (res', node) = node40_space_check node left mode
              in (res OR res', node)))"

definition node40_ih_array_check :: "node40 \<Rightarrow> nat \<Rightarrow> int \<times> node40" where
  "node40_ih_array_check node mode = node40_ih_array_check_common node mode 28"

section \<open>Plugin ids\<close>

fun iplug_loop :: "nat \<Rightarrow> (nat \<Rightarrow> bool) \<Rightarrow> int \<Rightarrow> nat \<Rightarrow> nat \<Rightarrow> node40 \<Rightarrow> int \<Rightarrow> int \<times> node40" where
  "iplug_loop mode known ih itm 0 node res = (res, node)"
| "iplug_loop mode known ih itm (Suc n) node res =
     (let pid = ih_get_pid (nd_mem node) ih (nd_keypol node);
          step = ih - int (ih_size (nd_keypol node))
      in if known pid then iplug_loop mode known step (itm + 1) n node res
         else if mode \<noteq> RM_BUILD then iplug_loop mode known step (itm + 1) n node (res OR RE_FATAL)
         else
           (let len = node40_size node (whole_item itm) 1;
                (res, node) = node40_shrink node (whole_item itm) len 1
            in if res \<noteq> 0 then (res, node) else iplug_loop mode known step (itm + 1) n node res))"

definition node40_iplug_check :: "(nat \<Rightarrow> bool) \<Rightarrow> node40 \<Rightarrow> nat \<Rightarrow> int \<times> node40" where
  "node40_iplug_check known node mode = iplug_loop mode known (node40_ih_at node 0) 0 (nh_get_num_items node) node 0"

section \<open>The whole check\<close>

definition node40_check_struct :: "(nat \<Rightarrow> bool) \<Rightarrow> node40 \<Rightarrow> nat \<Rightarrow> (int \<times> node40) option" where
  "node40_check_struct known node mode =
     (case node40_count_check node mode of
        None \<Rightarrow> None
      | Some (res, node) \<Rightarrow>
          if res \<noteq> 0 then Some (res, node)
          else if nh_get_num_items node = 0 then Some (node40_space_check node 28 mode)
          else
            (let (res, node) = node40_ih_array_check node mode
             in if repair_error_fatal res then Some (res, node)
                else (let (res', node) = node40_iplug_check known node mode in Some (res OR res', node))))"

definition node41_estimate_count :: "node40 \<Rightarrow> nat option" where
  "node41_estimate_count node = node40_estimate_count_common node 32"

definition node41_count_check :: "node40 \<Rightarrow> nat \<Rightarrow> (int \<times> node40) option" where
  "node41_count_check node mode = node40_count_check_common node mode node41_estimate_count"

definition node41_ih_array_check :: "node40 \<Rightarrow> nat \<Rightarrow> int \<times> node40" where
  "node41_ih_array_check node mode = node40_ih_array_check_common node mode 32"

definition node41_check_struct :: "(nat \<Rightarrow> bool) \<Rightarrow> node40 \<Rightarrow> nat \<Rightarrow> (int \<times> node40) option" where
  "node41_check_struct known node mode =
     (case node41_count_check node mode of
        None \<Rightarrow> None
      | Some (res, node) \<Rightarrow>
          if res \<noteq> 0 then Some (res, node)
          else if nh_get_num_items node = 0 then Some (node40_space_check node 32 mode)
          else
            (let (res, node) = node41_ih_array_check node mode
             in if repair_error_fatal res then Some (res, node)
                else (let (res', node) = node40_iplug_check known node mode in Some (res OR res', node))))"

end
