(* ===== verification/NodeFsck.thy ===== *)
theory NodeFsck
  imports NodeShift Node40Repair
begin

text \<open>
  What the checks of fsck establish: in the checking mode the result is 0 exactly for well-formed nodes
  with items of known plugins.
\<close>

unbundle bit_operations_syntax

section \<open>The estimate ends\<close>

lemma estimate_room:
  assumes "512 \<le> nd_size nd" "nd_keypol nd \<in> {3, 4}" "28 + i \<le> left" "right < fuel"
    and "right + ih_size (nd_keypol nd) * (i + 1) + 1 = nd_size nd" "nd_size nd < 65536"
    and "(last_pos + 1) * ih_size (nd_keypol nd) \<le> nd_size nd"
  shows "\<exists>n. estimate_loop fuel nd i left right last_pos = Some n \<and> (n + 1) * ih_size (nd_keypol nd) \<le> nd_size nd"
  using assms(3-5,7)
proof (induction fuel arbitrary: i left right last_pos)
  case (Suc fuel)
  let ?h = "ih_size (nd_keypol nd)"
  have h: "?h \<le> 38" "0 < ?h" using assms(2) by (auto simp: ih_size_def)
  show ?case
  proof (cases "left > right")
    case False
    have "?h \<le> right"
    proof (rule ccontr)
      assume "\<not> ?h \<le> right"
      then have "i < 10" "right < 38" using False Suc.prems(1) h by linarith+
      then have "?h * (i + 1) \<le> 38 * 10" using h by (intro mult_le_mono) simp_all
      then show False using Suc.prems(3) assms(1) \<open>right < 38\<close> by linarith
    qed
    then have r: "to_u32 (int right - int ?h) = right - ?h" "right - ?h < fuel"
      using Suc.prems(2,3) assms(6) h by (auto intro: to_u32_diff)
    have e: "right - ?h + ?h * (Suc i + 1) + 1 = nd_size nd" using \<open>?h \<le> right\<close> Suc.prems(3) by simp
    have ip: "(i + 1) * ?h \<le> nd_size nd" using Suc.prems(3) by (simp add: mult.commute)
    have "\<exists>n. estimate_loop fuel nd (Suc i) l (right - ?h) lp = Some n \<and> (n + 1) * ?h \<le> nd_size nd"
      if "28 + Suc i \<le> l" "(lp + 1) * ?h \<le> nd_size nd" for l lp
      by (rule Suc.IH [OF that(1) r(2) e that(2)])
    then show ?thesis using False Suc.prems(1,4) r(1) ip by (simp add: Let_def)
  qed (use Suc.prems in simp)
qed simp

lemma count_check_total:
  assumes "512 \<le> nd_size nd" "nd_keypol nd \<in> {3, 4}" "nd_size nd < 65536" "28 \<le> hdr"
  shows "\<exists>n. node40_estimate_count_common nd hdr = Some n"
proof -
  let ?h = "ih_size (nd_keypol nd)"
  have h: "?h \<le> 38" using assms(2) by (auto simp: ih_size_def)
  then have "to_u32 (int (nd_size nd) - int ?h - int MIN_ITEM_LEN) = nd_size nd - (?h + 1)"
    using assms(1,3) to_u32_diff [of "?h + 1" "nd_size nd"] by (simp add: algebra_simps)
  moreover have "\<exists>n. estimate_loop (nd_size nd) nd 0 hdr (nd_size nd - (?h + 1)) 0 = Some n \<and> (n + 1) * ?h \<le> nd_size nd"
    by (rule estimate_room) (use assms h in auto)
  ultimately show ?thesis by (auto simp: node40_estimate_count_common_def)
qed

section \<open>Checking\<close>

definition offsets_good :: "node40 \<Rightarrow> nat \<Rightarrow> nat \<Rightarrow> bool" where
  "offsets_good nd right i \<longleftrightarrow>
     (\<forall>j. i \<le> j \<and> j \<le> nh_get_num_items nd \<longrightarrow>
       nd_off nd (j - 1) < nd_off nd j \<and> nd_off nd j + (nh_get_num_items nd - j) \<le> right)"

lemma offset_at: "i < nh_get_num_items nd \<Longrightarrow> ih_offset_at nd i = nd_off nd i"
  using get_le_less [of 2 "nd_mem nd" 2] by (simp add: ih_offset_at_def nd_off_def ih_at_head nh_get_num_items_def)

lemma offset_small: "nd_off nd i < 65536" "nh_get_num_items nd < 65536" "nh_get_free_space nd < 65536" "nh_get_free_space_start nd < 65536"
  using get_le_less [of 2] by (simp_all add: nd_off_def ih_get_offset_def nh_get_num_items_def nh_get_free_space_def nh_get_free_space_start_def del: get_le_def)

lemma int_or_nonzero: "(a :: int) OR b = 0 \<longleftrightarrow> a = 0 \<and> b = 0"
  by (rule or_eq_0_iff)

definition check_next :: "node40 \<Rightarrow> nat \<Rightarrow> nat \<Rightarrow> nat \<Rightarrow> nat \<Rightarrow> nat \<Rightarrow> int \<Rightarrow> nat \<times> nat \<times> int" where
  "check_next nd i count left right lp res =
     (let offset = (if i = count then nh_get_free_space_start nd else ih_offset_at nd i)
      in if i = 0 then (left + 1, lp, if offset = left then res else res OR RE_FATAL)
         else
           (let relable = offset \<ge> left \<and> to_u32 (int offset + (int count - int i)) \<le> right;
                res = (if \<not> relable then res OR RE_FATAL else res)
            in if \<not> relable \<and> count \<noteq> i then (left + 1, lp, res)
               else if lp \<noteq> i - 1 \<or> \<not> relable then ((if \<not> relable then ih_offset_at nd lp else left) + 1, lp, res)
               else (offset + 1, i, res)))"

lemma check_next_step:
  assumes "mode \<noteq> RM_BUILD" "i \<le> count" "check_next nd i count left right lp res = (left2, lp2, res2)"
  shows "ih_array_loop mode nd i count left right lp res = ih_array_loop mode nd (i + 1) count left2 right lp2 res2"
proof -
  define offset where "offset = (if i = count then nh_get_free_space_start nd else ih_offset_at nd i)"
  define relable where "relable \<longleftrightarrow> offset \<ge> left \<and> to_u32 (int offset + (int count - int i)) \<le> right"
  note defs = offset_def [symmetric] relable_def [symmetric]
  have nxt: "check_next nd i count left right lp res =
     (if i = 0 then (left + 1, lp, if offset = left then res else res OR RE_FATAL)
      else if \<not> relable \<and> count \<noteq> i then (left + 1, lp, if \<not> relable then res OR RE_FATAL else res)
      else if lp \<noteq> i - 1 \<or> \<not> relable then ((if \<not> relable then ih_offset_at nd lp else left) + 1, lp, if \<not> relable then res OR RE_FATAL else res)
      else (offset + 1, i, if \<not> relable then res OR RE_FATAL else res))"
    unfolding check_next_def Let_def defs by (rule refl)
  have loop: "ih_array_loop mode nd i count left right lp res =
     (if i = 0 then
        (if offset = left then ih_array_loop mode nd (i + 1) count (left + 1) right lp res
         else ih_array_loop mode nd (i + 1) count (left + 1) right lp (res OR RE_FATAL))
      else if \<not> relable \<and> count \<noteq> i then ih_array_loop mode nd (i + 1) count (left + 1) right lp (if \<not> relable then res OR RE_FATAL else res)
      else if lp \<noteq> i - 1 \<or> \<not> relable then
        ih_array_loop mode nd (i + 1) count ((if \<not> relable then ih_offset_at nd lp else left) + 1) right lp (if \<not> relable then res OR RE_FATAL else res)
      else ih_array_loop mode nd (i + 1) count (offset + 1) right i (if \<not> relable then res OR RE_FATAL else res))"
    using assms(2) ih_array_loop.simps [of mode nd i count left right lp res]
    unfolding Let_def of_nat_1 mult_1_right defs eqTrueI [OF assms(1)] eq_False [THEN iffD2, OF assms(1)] simp_thms if_True if_False
    by (simp only: if_not_P not_less split_conv simp_thms)
  show ?thesis
    using assms(3) unfolding nxt loop by (cases "i = 0"; cases relable; cases "lp = i - 1"; cases "count = i"; cases "offset = left"; simp)
qed

lemma check_next_res: "check_next nd i count left right lp res = (left2, lp2, res2) \<Longrightarrow> res \<noteq> 0 \<Longrightarrow> res2 \<noteq> 0"
  by (auto simp: check_next_def Let_def int_or_nonzero split: if_splits)

lemma check_step:
  assumes "mode \<noteq> RM_BUILD" "i \<le> count"
  shows "\<exists>left2 lp2 res2. ih_array_loop mode nd i count left right lp res = ih_array_loop mode nd (i + 1) count left2 right lp2 res2 \<and>
    (res \<noteq> 0 \<longrightarrow> res2 \<noteq> 0)"
  using check_next_step [OF assms] check_next_res by (metis prod_cases3)

lemma check_loop_end:
  assumes "mode \<noteq> RM_BUILD"
  shows "i + k = Suc count \<Longrightarrow> \<exists>left' lp' r. ih_array_loop mode nd i count left right lp res = Inr (nd, Suc count, left', lp', r) \<and>
    (res \<noteq> 0 \<longrightarrow> r \<noteq> 0)"
proof (induction k arbitrary: i left lp res)
  case 0
  then show ?case by (subst ih_array_loop.simps) simp
next
  case (Suc k)
  then obtain left2 lp2 res2 where s: "ih_array_loop mode nd i count left right lp res = ih_array_loop mode nd (i + 1) count left2 right lp2 res2"
      "res \<noteq> 0 \<longrightarrow> res2 \<noteq> 0" using check_step [OF assms, of i count nd left right lp res] by auto
  show ?case using Suc.IH [of "i + 1" left2 lp2 res2] Suc.prems s by auto
qed

lemma check_loop_good:
  fixes nd :: node40
  assumes "mode \<noteq> RM_BUILD"
  defines "n \<equiv> nh_get_num_items nd"
  shows "i + k = Suc n \<Longrightarrow> 0 < i \<Longrightarrow>
    \<exists>left' lp' r. ih_array_loop mode nd i n (nd_off nd (i - 1) + 1) right (i - 1) res = Inr (nd, Suc n, left', lp', r) \<and>
      (if offsets_good nd right i then left' = nh_get_free_space_start nd + 1 \<and> lp' = n \<and> r = res else r \<noteq> 0)"
proof (induction k arbitrary: i)
  case 0
  then have "offsets_good nd right i" by (simp add: offsets_good_def n_def)
  then show ?case using 0 by (subst ih_array_loop.simps) (simp add: nd_off_end n_def)
next
  case (Suc k)
  then have i: "i \<le> n" "0 < i" by simp_all
  have off: "(if i = n then nh_get_free_space_start nd else ih_offset_at nd i) = nd_off nd i"
    using i by (simp add: offset_at nd_off_end n_def)
  have small: "nd_off nd i < 65536" "n < 65536" by (simp_all add: offset_small n_def)
  then have w: "to_u32 (int (nd_off nd i) + (int n - int i)) = nd_off nd i + (n - i)"
    using i to_u32_id [of "int (nd_off nd i) + (int n - int i)"] by (simp add: of_nat_diff nat_add_distrib)
  let ?ok = "nd_off nd (i - 1) < nd_off nd i \<and> nd_off nd i + (n - i) \<le> right"
  have split: "offsets_good nd right i \<longleftrightarrow> ?ok \<and> offsets_good nd right (Suc i)"
    using i unfolding offsets_good_def n_def [symmetric] by (metis Suc_leD Suc_leI le_eq_less_or_eq)
  have nx: "check_next nd i n (nd_off nd (i - 1) + 1) right (i - 1) res =
      (if ?ok then (nd_off nd i + 1, i, res)
       else ((if n = i then ih_offset_at nd (i - 1) else nd_off nd (i - 1) + 1) + 1, i - 1, res OR RE_FATAL))"
    using i(2) unfolding check_next_def off Let_def w by (auto simp: Suc_le_eq)
  show ?case
  proof (cases ?ok)
    case True
    then have "ih_array_loop mode nd i n (nd_off nd (i - 1) + 1) right (i - 1) res =
        ih_array_loop mode nd (i + 1) n (nd_off nd i + 1) right i res"
      using check_next_step [OF assms(1) i(1)] nx by simp
    then show ?thesis using Suc.IH [of "Suc i"] Suc.prems True split by simp
  next
    case False
    obtain left2 where "ih_array_loop mode nd i n (nd_off nd (i - 1) + 1) right (i - 1) res =
        ih_array_loop mode nd (i + 1) n left2 right (i - 1) (res OR RE_FATAL)"
      using that check_next_step [OF assms(1) i(1) trans [OF nx if_not_P [OF False]]] by blast
    moreover have "res OR RE_FATAL \<noteq> 0" by (simp add: int_or_nonzero)
    ultimately show ?thesis
      using check_loop_end [OF assms(1), of "i + 1" k n nd left2 right "i - 1" "res OR RE_FATAL"] Suc.prems split False by auto
  qed
qed

lemma space_equation:
  assumes "nd_size nd < 65536" "nd_keypol nd \<in> {3, 4}"
  shows "to_u32 (int (nd_size nd) - int (nh_get_free_space_start nd) - int (ih_size (nd_keypol nd)) * int (nh_get_num_items nd)) = nh_get_free_space nd \<longleftrightarrow>
    nh_get_free_space_start nd + nh_get_free_space nd + nh_get_num_items nd * ih_size (nd_keypol nd) = nd_size nd"
proof -
  let ?x = "int (nd_size nd) - int (nh_get_free_space_start nd) - int (ih_size (nd_keypol nd)) * int (nh_get_num_items nd)"
  note small = offset_small(2,3,4) [of nd]
  have "ih_size (nd_keypol nd) * nh_get_num_items nd \<le> 38 * 65536"
    using small(1) assms(2) by (intro mult_le_mono) (auto simp: ih_size_def)
  then have b: "- 4294967296 < ?x - int (nh_get_free_space nd)" "?x - int (nh_get_free_space nd) < 4294967296"
    using small assms(1) by (simp_all flip: of_nat_mult)
  have "to_u32 ?x = nh_get_free_space nd \<longleftrightarrow> ?x mod 4294967296 = int (nh_get_free_space nd) mod 4294967296"
    using small(2) by (auto simp: to_u32_def nat_eq_iff)
  also have "\<dots> \<longleftrightarrow> 4294967296 dvd ?x - int (nh_get_free_space nd)" by (simp add: mod_eq_dvd_iff)
  also have "\<dots> \<longleftrightarrow> ?x - int (nh_get_free_space nd) = 0" using b by (auto dest: dvd_imp_le_int)
  also have "\<dots> \<longleftrightarrow> int (nh_get_free_space_start nd + nh_get_free_space nd + nh_get_num_items nd * ih_size (nd_keypol nd)) = int (nd_size nd)"
    by (simp add: mult.commute) linarith
  finally show ?thesis by (simp only: of_nat_eq_iff)
qed

lemma space_check_checks:
  assumes "nd_size nd < 65536" "nd_keypol nd \<in> {3, 4}"
  shows "\<exists>res. node40_space_check nd offset RM_CHECK = (res, nd) \<and>
    (res = 0 \<longleftrightarrow> offset = nh_get_free_space_start nd \<and>
      nh_get_free_space_start nd + nh_get_free_space nd + nh_get_num_items nd * ih_size (nd_keypol nd) = nd_size nd)"
  using space_equation [OF assms] by (auto simp: node40_space_check_def Let_def int_or_nonzero)

lemma check_array:
  assumes "nd_size nd < 65536" "nd_keypol nd \<in> {3, 4}" "0 < nh_get_num_items nd" "hdr < 65536"
  defines "right \<equiv> to_u32 (int (nd_size nd) - int (nh_get_num_items nd) * int (ih_size (nd_keypol nd)))"
  shows "\<exists>res. node40_ih_array_check_common nd RM_CHECK hdr = (res, nd) \<and>
    (res = 0 \<longleftrightarrow> nd_off nd 0 = hdr \<and> offsets_good nd right 1 \<and>
      nh_get_free_space_start nd + nh_get_free_space nd + nh_get_num_items nd * ih_size (nd_keypol nd) = nd_size nd)"
proof -
  let ?n = "nh_get_num_items nd"
  have m: "RM_CHECK \<noteq> RM_BUILD" by simp
  have first: "ih_array_loop RM_CHECK nd 0 ?n hdr right 0 0 =
      (if nd_off nd 0 = hdr then ih_array_loop RM_CHECK nd 1 ?n (nd_off nd (1 - 1) + 1) right (1 - 1) 0
       else ih_array_loop RM_CHECK nd 1 ?n (hdr + 1) right 0 RE_FATAL)"
    using assms(3) by (subst ih_array_loop.simps) (auto simp: Let_def offset_at)
  obtain left' lp' r where l: "ih_array_loop RM_CHECK nd 0 ?n hdr right 0 0 = Inr (nd, Suc ?n, left', lp', r)"
    "if nd_off nd 0 = hdr \<and> offsets_good nd right 1 then left' = nh_get_free_space_start nd + 1 \<and> lp' = ?n \<and> r = 0 else r \<noteq> 0"
  proof (cases "nd_off nd 0 = hdr")
    case True
    then show ?thesis
      using that check_loop_good [OF m, of 1 ?n nd right 0] first by auto
  next
    case False
    then show ?thesis using that check_loop_end [OF m, of 1 ?n ?n nd "hdr + 1" right 0 RE_FATAL] first by auto
  qed
  obtain res where sc: "node40_space_check nd (to_u32 (int left' - (int (Suc ?n) - int lp'))) RM_CHECK = (res, nd)"
    "res = 0 \<longleftrightarrow> to_u32 (int left' - (int (Suc ?n) - int lp')) = nh_get_free_space_start nd \<and>
      nh_get_free_space_start nd + nh_get_free_space nd + ?n * ih_size (nd_keypol nd) = nd_size nd"
    using space_check_checks [OF assms(1,2)] by blast
  have run: "node40_ih_array_check_common nd RM_CHECK hdr = (r OR res, nd)"
    using l(1) sc(1) by (simp add: node40_ih_array_check_common_def Let_def right_def)
  show ?thesis
  proof (cases "nd_off nd 0 = hdr \<and> offsets_good nd right 1")
    case True
    then have "to_u32 (int left' - (int (Suc ?n) - int lp')) = nh_get_free_space_start nd"
      using l(2) offset_small(4) [of nd] to_u32_id [of "int (nh_get_free_space_start nd)"] by simp
    then show ?thesis using run True l(2) sc(2) by simp
  qed (use run l(2) in \<open>auto simp: int_or_nonzero\<close>)
qed

lemma iplug_same: "mode \<noteq> RM_BUILD \<Longrightarrow> snd (iplug_loop mode known ih i n nd res) = nd"
  by (induction n arbitrary: ih i res) (simp_all add: Let_def)

lemma iplug_checks:
  "mode \<noteq> RM_BUILD \<Longrightarrow> fst (iplug_loop mode known (nd_head nd i) i n nd res) = 0 \<longleftrightarrow>
     res = 0 \<and> (\<forall>j. i \<le> j \<and> j < i + n \<longrightarrow> known (it_pid (nd_item nd j)))"
proof (induction n arbitrary: i res)
  case (Suc n)
  have h: "nd_head nd i - int (ih_size (nd_keypol nd)) = nd_head nd (Suc i)" by (simp add: nd_head_def algebra_simps)
  have p: "ih_get_pid (nd_mem nd) (nd_head nd i) (nd_keypol nd) = it_pid (nd_item nd i)" by (simp add: nd_item_def)
  have split: "(\<forall>j. i \<le> j \<and> j < i + Suc n \<longrightarrow> known (it_pid (nd_item nd j))) \<longleftrightarrow>
      known (it_pid (nd_item nd i)) \<and> (\<forall>j. Suc i \<le> j \<and> j < Suc i + n \<longrightarrow> known (it_pid (nd_item nd j)))"
    by (metis Suc_leD Suc_le_eq add_Suc add_Suc_right le_add1 le_eq_less_or_eq less_add_Suc1)
  show ?case
    unfolding split iplug_loop.simps Let_def h p using Suc.IH [OF Suc.prems, of "Suc i"] Suc.prems
    by (simp add: int_or_nonzero)
qed auto


lemma good_offsets:
  assumes "nd_keypol nd \<in> {3, 4}" "nd_size nd < 65536"
    and eq: "nh_get_free_space_start nd + nh_get_free_space nd + nh_get_num_items nd * ih_size (nd_keypol nd) = nd_size nd"
  defines "right \<equiv> to_u32 (int (nd_size nd) - int (nh_get_num_items nd) * int (ih_size (nd_keypol nd)))"
  shows "nd_off nd 0 = nd_hdr nd \<and> offsets_good nd right 1 \<longleftrightarrow> nd_wf nd \<and> nd_full nd"
proof -
  let ?n = "nh_get_num_items nd"
  have "to_u32 (int (nd_size nd) - int (?n * ih_size (nd_keypol nd))) = nd_size nd - ?n * ih_size (nd_keypol nd)"
    using assms(2) eq by (intro to_u32_diff) simp_all
  then have right: "right = nh_get_free_space_start nd + nh_get_free_space nd" using eq by (simp add: right_def)
  show ?thesis
  proof (intro iffI conjI)
    assume good: "nd_off nd 0 = nd_hdr nd \<and> offsets_good nd right 1"
    then have inc: "nd_off nd j < nd_off nd (Suc j)" if "j < ?n" for j
      using that unfolding offsets_good_def by (metis Suc_leI diff_Suc_1 le_add1 plus_1_eq_Suc)
    then show "nd_wf nd" using assms(1,2) eq good by (auto simp: nd_wf_def intro: less_imp_le)
    show "nd_full nd" using inc by (fastforce simp: nd_full_def nd_items_def nd_item_def mread_def)
  next
    assume wf: "nd_wf nd \<and> nd_full nd"
    then show "nd_off nd 0 = nd_hdr nd" by (simp add: nd_wf_def)
    have inc: "nd_off nd i < nd_off nd j" if "i < j" "j \<le> ?n" for i j using nd_full_off wf that by blast
    have up: "nd_off nd j + k \<le> nd_off nd (j + k)" if "j + k \<le> ?n" for j k
      using that
    proof (induction k)
      case (Suc k)
      then show ?case using inc [of "j + k" "Suc (j + k)"] by simp
    qed simp
    show "offsets_good nd right 1"
      unfolding offsets_good_def
    proof (intro allI impI conjI)
      fix j assume j: "1 \<le> j \<and> j \<le> ?n"
      then show "nd_off nd (j - 1) < nd_off nd j" using inc by simp
      show "nd_off nd j + (?n - j) \<le> right"
        using up [of j "?n - j"] j nd_off_end [of nd ?n] by (simp add: right)
    qed
  qed
qed

lemma known_items:
  "(\<forall>j. 0 \<le> j \<and> j < 0 + nh_get_num_items nd \<longrightarrow> known (it_pid (nd_item nd j))) \<longleftrightarrow>
    (\<forall>it \<in> set (nd_items nd). known (it_pid it))"
  by (auto simp: nd_items_def)

lemma count_valid_eq:
  assumes "nd_keypol nd \<in> {3, 4}"
  shows "node40_count_valid nd \<longleftrightarrow>
    nh_get_free_space_start nd + nh_get_free_space nd + nh_get_num_items nd * ih_size (nd_keypol nd) = nd_size nd"
proof -
  have h: "0 < ih_size (nd_keypol nd)" using assms by (auto simp: ih_size_def)
  have "nh_get_num_items nd \<le> nd_size nd div ih_size (nd_keypol nd)"
    if "nh_get_free_space_start nd + nh_get_free_space nd + nh_get_num_items nd * ih_size (nd_keypol nd) = nd_size nd"
    using that h by (simp add: less_eq_div_iff_mult_less_eq)
  then show ?thesis by (auto simp: node40_count_valid_def Let_def)
qed

lemma check_common:
  assumes "512 \<le> nd_size nd" "nd_size nd < 65536" "nd_keypol nd \<in> {3, 4}" and hdr: "hdr = nd_hdr nd"
    and est: "est nd = node40_estimate_count_common nd hdr"
  shows "\<exists>res. (case node40_count_check_common nd RM_CHECK est of
        None \<Rightarrow> None
      | Some (res, node) \<Rightarrow>
          if res \<noteq> 0 then Some (res, node)
          else if nh_get_num_items node = 0 then Some (node40_space_check node hdr RM_CHECK)
          else
            (let (res, node) = node40_ih_array_check_common node RM_CHECK hdr
             in if repair_error_fatal res then Some (res, node)
                else (let (res', node) = node40_iplug_check known node RM_CHECK in Some (res OR res', node)))) =
      Some (res, nd) \<and>
      (res = 0 \<longleftrightarrow> nd_wf nd \<and> nd_full nd \<and> (\<forall>it \<in> set (nd_items nd). known (it_pid it)))"
proof -
  let ?eq = "nh_get_free_space_start nd + nh_get_free_space nd + nh_get_num_items nd * ih_size (nd_keypol nd) = nd_size nd"
  let ?good = "nd_wf nd \<and> nd_full nd \<and> (\<forall>it \<in> set (nd_items nd). known (it_pid it))"
  have h28: "28 \<le> hdr" "hdr < 65536" using hdr by (auto simp: nd_hdr_def)
  obtain num where num: "est nd = Some num" using count_check_total [OF assms(1,3,2) h28(1)] est by auto
  have wf_eq: "nd_wf nd \<Longrightarrow> ?eq" by (simp add: nd_wf_def)
  define c where "c = (if ?eq \<or> nh_get_num_items nd \<le> num then 0 else RE_FATAL :: int)"
  have c: "node40_count_check_common nd RM_CHECK est = Some (c, nd)" "nd_wf nd \<Longrightarrow> c = 0"
    using num wf_eq by (simp_all add: node40_count_check_common_def c_def count_valid_eq [OF assms(3)])
  show ?thesis
  proof (cases "c = 0")
    case False
    then show ?thesis using c by auto
  next
    case c0: True
    show ?thesis
    proof (cases "nh_get_num_items nd = 0")
      case True
      obtain res where sc: "node40_space_check nd hdr RM_CHECK = (res, nd)" "res = 0 \<longleftrightarrow> hdr = nh_get_free_space_start nd \<and> ?eq"
        using space_check_checks [OF assms(2,3)] by blast
      have "?good \<longleftrightarrow> hdr = nh_get_free_space_start nd \<and> ?eq"
        using True assms(2,3) hdr by (auto simp: nd_wf_def nd_full_def nd_items_def nd_off_def)
      then show ?thesis using c(1) c0 True sc by simp
    next
      case False
      obtain a where a: "node40_ih_array_check_common nd RM_CHECK hdr = (a, nd)"
          "a = 0 \<longleftrightarrow> nd_off nd 0 = hdr \<and>
             offsets_good nd (to_u32 (int (nd_size nd) - int (nh_get_num_items nd) * int (ih_size (nd_keypol nd)))) 1 \<and> ?eq"
        using check_array [OF assms(2,3) _ h28(2)] False by blast
      have a0: "a = 0 \<longleftrightarrow> nd_wf nd \<and> nd_full nd"
        using a(2) good_offsets [OF assms(3,2)] wf_eq hdr by blast
      obtain p where p: "node40_iplug_check known nd RM_CHECK = (p, nd)" "p = 0 \<longleftrightarrow> (\<forall>it \<in> set (nd_items nd). known (it_pid it))"
      proof
        have "node40_ih_at nd 0 = nd_head nd 0" by (simp add: ih_at_head)
        then have f: "node40_iplug_check known nd RM_CHECK = iplug_loop RM_CHECK known (nd_head nd 0) 0 (nh_get_num_items nd) nd 0"
          by (simp add: node40_iplug_check_def)
        show "node40_iplug_check known nd RM_CHECK = (fst (node40_iplug_check known nd RM_CHECK), nd)"
          unfolding f using iplug_same [of RM_CHECK known "nd_head nd 0" 0 "nh_get_num_items nd" nd 0] by (simp add: prod_eq_iff)
        show "fst (node40_iplug_check known nd RM_CHECK) = 0 \<longleftrightarrow> (\<forall>it \<in> set (nd_items nd). known (it_pid it))"
          unfolding f using iplug_checks [of RM_CHECK known nd 0 "nh_get_num_items nd" 0] known_items by simp
      qed
      show ?thesis
      proof (cases "repair_error_fatal a")
        case True
        then have "a \<noteq> 0" by (auto simp: repair_error_fatal_def)
        then show ?thesis using c(1) c0 False a(1) a0 True by auto
      next
        case ok: False
        then show ?thesis using c(1) c0 False a(1) a0 p by (auto simp: int_or_nonzero)
      qed
    qed
  qed
qed

text \<open>
  C12: in the checking mode fsck never changes the node and always comes to an end, and its result is 0
  exactly for a well formed node whose items are not empty and have known plugins: the check of the node
  header, of the item headers and of the plugin ids decides the invariant of the operations.
\<close>

theorem node40_check_decides:
  assumes "512 \<le> nd_size nd" "nd_size nd < 65536" "nd_keypol nd \<in> {3, 4}"
  shows "\<exists>res. (if nd_plug nd = NODE_REISER40_ID then node40_check_struct known nd RM_CHECK
           else node41_check_struct known nd RM_CHECK) = Some (res, nd) \<and>
    (res = 0 \<longleftrightarrow> nd_wf nd \<and> nd_full nd \<and> (\<forall>it \<in> set (nd_items nd). known (it_pid it)))"
proof (cases "nd_plug nd = NODE_REISER40_ID")
  case True
  show ?thesis
    unfolding if_P [OF True] node40_check_struct_def node40_count_check_def node40_ih_array_check_def
    by (rule check_common [OF assms]) (simp_all add: True nd_hdr_def node40_estimate_count_def)
next
  case False
  show ?thesis
    unfolding if_not_P [OF False] node41_check_struct_def node41_count_check_def node41_ih_array_check_def
    by (rule check_common [OF assms]) (simp_all add: False nd_hdr_def node41_estimate_count_def)
qed

definition blank_node :: node40 where
  "blank_node = \<lparr>nd_mem = (\<lambda>x. 0), nd_size = 512, nd_dirty = False, nd_kplug = KEY_SHORT, nd_keypol = 3, nd_state = 0, nd_plug = 0\<rparr>"

theorem node40_check_decides_witness:
  "\<exists>res. node40_check_struct (\<lambda>_. True) blank_node RM_CHECK = Some (res, blank_node) \<and> res \<noteq> 0"
proof -
  have "nh_get_free_space_start blank_node = 0" by code_simp
  then have "\<not> nd_wf blank_node" using nd_off_bounds(1) [of blank_node 0] nd_off_bounds(2) [of blank_node 0] by fastforce
  then show ?thesis using node40_check_decides [of blank_node "\<lambda>_. True"] by (auto simp: blank_node_def)
qed

end
