(* ===== verification/NodeRebuild.thy ===== *)
theory NodeRebuild
  imports NodeFsck
begin

text \<open>
  The rebuilding mode of fsck: whatever a block holds, the loop over the item headers ends and the node that
  comes out of it is well formed; then items of unknown plugins are removed, which is right for one of them only.  \<open>raw_off\<close> is the offset field of a header as it stands, \<open>rebuilding\<close> the
  invariant of the loop and \<open>rebuilt\<close> what holds when it is done.
\<close>

unbundle bit_operations_syntax

section \<open>Deleting regions of a damaged node\<close>

definition raw_off :: "node40 \<Rightarrow> nat \<Rightarrow> nat" where
  "raw_off nd j = ih_get_offset (nd_mem nd) (nd_head nd j) (nd_keypol nd)"

definition same_block :: "node40 \<Rightarrow> node40 \<Rightarrow> bool" where
  "same_block nd nd' \<longleftrightarrow> nd_size nd' = nd_size nd \<and> nd_keypol nd' = nd_keypol nd \<and> nd_plug nd' = nd_plug nd"

lemma same_block_trans: "same_block a b \<Longrightarrow> same_block b c \<Longrightarrow> same_block a c"
  by (simp add: same_block_def)

lemma raw_off_small: "raw_off nd j < 65536"
  using get_le_less [of 2] by (simp add: raw_off_def ih_get_offset_def del: get_le_def)

lemma region_offsets_read:
  assumes "\<forall>i<cnt. a + int n \<le> ih - int (ih_size pol) * int i + int (key_size pol) \<or>
      ih - int (ih_size pol) * int i + int (key_size pol) + 2 \<le> a"
  shows "mread (region_offsets cnt m ih pol) a n = mread m a n"
  using assms
proof (induction cnt arbitrary: m ih)
  case (Suc cnt)
  have "\<forall>i<cnt. a + int n \<le> (ih - int (ih_size pol)) - int (ih_size pol) * int i + int (key_size pol) \<or>
      (ih - int (ih_size pol)) - int (ih_size pol) * int i + int (key_size pol) + 2 \<le> a"
  proof (intro allI impI)
    fix i assume "i < cnt"
    then have "a + int n \<le> ih - int (ih_size pol) * int (Suc i) + int (key_size pol) \<or>
      ih - int (ih_size pol) * int (Suc i) + int (key_size pol) + 2 \<le> a" using Suc.prems by blast
    then show "a + int n \<le> (ih - int (ih_size pol)) - int (ih_size pol) * int i + int (key_size pol) \<or>
      (ih - int (ih_size pol)) - int (ih_size pol) * int i + int (key_size pol) + 2 \<le> a"
      by (simp add: algebra_simps)
  qed
  then show ?case
    using Suc.IH Suc.prems [rule_format, of 0] by (auto simp: ih_set_offset_def mread_set_le_other)
qed simp

text \<open>Writes to the fields of the node header leave the offsets alone.\<close>

lemma raw_off_fields:
  assumes "nd_keypol nd \<in> {3, 4}" "0 \<le> nd_head nd j" "a + 2 \<le> 8"
  shows "ih_get_offset (set_le 2 m a v) (nd_head nd j) (nd_keypol nd) = ih_get_offset m (nd_head nd j) (nd_keypol nd)"
  using assms by (auto simp: ih_get_offset_def key_size_def mem_simps)

lemma shrink_last:
  assumes "nd_keypol nd \<in> {3, 4}" "p + c = nh_get_num_items nd" "0 < c"
  shows "\<exists>nd'. node40_shrink nd (whole_item p) len c = (0, nd') \<and> same_block nd nd' \<and> nh_get_num_items nd' = p \<and>
    nh_get_free_space_start nd' = nat ((int (nh_get_free_space_start nd) - int len) mod 65536) \<and>
    (\<forall>j. 0 \<le> nd_head nd j \<longrightarrow> raw_off nd' j = raw_off nd j)"
proof -
  have n: "nh_get_num_items nd < 65536"
    using get_le_less [of 2 "nd_mem nd" 2] by (simp add: nh_get_num_items_def)
  have w: "to_u32 (int p + int c) = nh_get_num_items nd" using n assms(2) to_u32_nat [of "p + c"] by (simp flip: of_nat_add)
  let ?m = "set_le 2 (nd_mem nd) 2 (int (nh_get_num_items nd) - int c)"
  define m2 where "m2 = set_le 2 ?m 4 (int (get_le 2 ?m 4) + (int len + int (to_u32 (int c * int (ih_size (nd_keypol nd))))))"
  have sh: "node40_shrink nd (whole_item p) len c =
      (0, nd\<lparr>nd_mem := set_le 2 m2 6 (int (get_le 2 m2 6) - int len), nd_dirty := True\<rparr>)"
    using w by (simp add: node40_shrink_def Let_def m2_def node40_mkdirty_def nh_dec_free_space_start_def
        nh_inc_free_space_def nh_dec_num_items_def nh_set_free_space_start_def nh_set_free_space_def nh_set_num_items_def
        nh_get_free_space_start_def nh_get_free_space_def)
  have fss: "get_le 2 m2 6 = nh_get_free_space_start nd"
    by (simp add: m2_def mem_simps nh_get_free_space_start_def)
  have num: "nat ((int (nh_get_num_items nd) - int c) mod 65536) = p" using n assms(2) by simp
  show ?thesis
    unfolding sh fss
    using assms(1) by (simp add: same_block_def nh_get_num_items_def nh_get_free_space_start_def m2_def mem_simps
        raw_off_def nd_head_def raw_off_fields [unfolded nd_head_def] num [unfolded nh_get_num_items_def])
qed


lemma shrink_middle:
  assumes "nd_keypol nd \<in> {3, 4}" "nd_size nd < 65536" "p + c < nh_get_num_items nd" "0 < c"
    and hs: "right + nh_get_num_items nd * ih_size (nd_keypol nd) = nd_size nd"
    and offs: "28 \<le> raw_off nd p" "raw_off nd p < raw_off nd (p + c)" "raw_off nd (p + c) \<le> right"
  defines "len \<equiv> raw_off nd (p + c) - raw_off nd p"
  shows "\<exists>nd'. node40_shrink nd (whole_item p) len c = (0, nd') \<and> same_block nd nd' \<and>
    nh_get_num_items nd' = nh_get_num_items nd - c \<and> (\<forall>j\<le>p. raw_off nd' j = raw_off nd j)"
proof -
  let ?pol = "nd_keypol nd" and ?n = "nh_get_num_items nd"
  have sz: "ih_size ?pol = 30 \<and> key_size ?pol = 24 \<or> ih_size ?pol = 38 \<and> key_size ?pol = 32"
    using assms(1) by (auto simp: ih_size_def key_size_def)
  have n: "?n < 65536" using get_le_less [of 2 "nd_mem nd" 2] by (simp add: nh_get_num_items_def)
  have small: "p + c < 65536" "c * ih_size ?pol < 65536" "ih_size ?pol * (?n - (p + c)) < 65536"
    using n sz assms(2,3) hs by auto
  have w: "to_u32 (int c * int (ih_size ?pol)) = c * ih_size ?pol" "to_u32 (int p + int c) = p + c"
    "to_u32 (int ?n - 1) = ?n - 1" "to_u32 (int ?n - int c) = ?n - c"
    using small to_u32_diff [of 1 ?n] to_u32_diff [of c ?n] assms(3) n by (simp_all add: wrap_simps flip: of_nat_mult of_nat_add)
  have wl: "to_u32 ((int ?n - (int p + int c)) * int (ih_size ?pol)) = ih_size ?pol * (?n - (p + c))"
  proof -
    have "(int ?n - (int p + int c)) * int (ih_size ?pol) = int (ih_size ?pol * (?n - (p + c)))"
      using assms(3) by (simp add: of_nat_diff)
    then show ?thesis using small(3) by (simp only: to_u32_nat)
  qed
  have hd: "node40_ih_at nd p = nd_head nd p" "node40_ih_at nd (?n - Suc 0) = nd_head nd (?n - Suc 0)"
    using n small by (simp_all add: ih_at_head)
  have o: "node40_ib_at nd p = int (raw_off nd p)" by (simp add: node40_ib_at_def node40_ib_by_ih_def hd raw_off_def)
  have src: "int (raw_off nd p) + int len = int (raw_off nd (p + c))" using offs(2) by (simp add: len_def)
  have he: "nd_head nd (?n - Suc 0) = int right" using hs assms(3) by (simp add: nd_head_def algebra_simps flip: hs)
  have hl: "to_u32 (int right - int (raw_off nd (p + c))) = right - raw_off nd (p + c)"
    using offs(3) hs assms(2) by (intro to_u32_diff) auto
  have hd': "int right + int c * int (ih_size ?pol) = nd_head nd (?n - Suc c)"
    using assms(3) hs by (simp add: nd_head_def of_nat_diff algebra_simps flip: hs)
  define m1 where "m1 = memmove (nd_mem nd) (int (raw_off nd p)) (int (raw_off nd (p + c))) (right - raw_off nd (p + c))"
  define m2 where "m2 = memmove m1 (nd_head nd (?n - Suc c)) (int right) (ih_size ?pol * (?n - (p + c)))"
  define m3 where "m3 = ih_shift_offsets (?n - (c + p)) m2 (nd_head nd p) (- int len) ?pol"
  have hge: "int right \<le> nd_head nd j" if "j < ?n" for j
  proof -
    have "(j + 1) * ih_size ?pol \<le> ?n * ih_size ?pol" using that by (intro mult_le_mono1) simp
    then show ?thesis using hs by (simp add: nd_head_def algebra_simps flip: hs of_nat_mult)
  qed
  have hidx: "nd_head nd p - int (ih_size ?pol) * int i = nd_head nd (p + i)" for i
    by (simp add: nd_head_def algebra_simps)
  have r28: "28 \<le> right" using offs by simp
  have c1: "int right \<le> nd_head nd (?n - Suc c)" using hge assms(3) by simp
  have top: "nd_head nd (?n - Suc c) + int (ih_size ?pol * (?n - (p + c))) = nd_head nd p + int (ih_size ?pol)"
  proof -
    have "int (ih_size ?pol * (?n - (p + c))) = int (ih_size ?pol) * (int ?n - int p - int c)"
      using assms(3) by (simp only: of_nat_mult) (simp add: of_nat_diff)
    then show ?thesis using assms(3) by (simp only:) (simp add: nd_head_def of_nat_diff algebra_simps)
  qed
  have low: "get_le 2 m3 a = get_le 2 (nd_mem nd) a" if "a + 2 \<le> 28" for a
  proof -
    have "mread m3 a 2 = mread m2 a 2"
      unfolding m3_def hidx
    proof (intro shift_offsets_read allI impI, unfold hidx)
      fix i assume "i < ?n - (c + p)"
      then have "int right \<le> nd_head nd (p + i)" by (intro hge) simp
      then show "a + int 2 \<le> nd_head nd (p + i) + int (key_size ?pol) \<or> nd_head nd (p + i) + int (key_size ?pol) + 2 \<le> a"
        using that r28 by simp
    qed
    moreover have "mread m2 a 2 = mread m1 a 2"
      unfolding m2_def using that r28 c1 by (intro mread_memmove_other) simp
    moreover have "mread m1 a 2 = mread (nd_mem nd) a 2"
      unfolding m1_def using that offs(1) by (intro mread_memmove_other) simp
    ultimately show ?thesis by (simp add: get_le_def)
  qed
  have above: "ih_get_offset m3 (nd_head nd j) ?pol = raw_off nd j" if "j < p" for j
  proof -
    have hj: "nd_head nd p + int (ih_size ?pol) \<le> nd_head nd j"
      using that mult_le_mono1 [of "j + 2" "p + 1" "ih_size ?pol"] by (simp add: nd_head_def algebra_simps flip: of_nat_mult)
    have "mread m3 (nd_head nd j + int (key_size ?pol)) 2 = mread m2 (nd_head nd j + int (key_size ?pol)) 2"
      unfolding m3_def
    proof (intro shift_offsets_read allI impI)
      fix i
      have "0 \<le> int (ih_size ?pol) * int i" by simp
      then show "nd_head nd j + int (key_size ?pol) + int 2 \<le> nd_head nd p - int (ih_size ?pol) * int i + int (key_size ?pol) \<or>
          nd_head nd p - int (ih_size ?pol) * int i + int (key_size ?pol) + 2 \<le> nd_head nd j + int (key_size ?pol)"
        using hj sz by auto
    qed
    moreover have "mread m2 (nd_head nd j + int (key_size ?pol)) 2 = mread m1 (nd_head nd j + int (key_size ?pol)) 2"
      unfolding m2_def using hj top by (intro mread_memmove_other) auto
    moreover have "mread m1 (nd_head nd j + int (key_size ?pol)) 2 = mread (nd_mem nd) (nd_head nd j + int (key_size ?pol)) 2"
      unfolding m1_def using hge [of j] that assms(3) offs by (intro mread_memmove_other) auto
    ultimately show ?thesis by (simp add: raw_off_def ih_get_offset_def get_le_def)
  qed
  have atp: "ih_get_offset m3 (nd_head nd p) ?pol = raw_off nd p"
  proof -
    have "ih_get_offset m3 (nd_head nd p) ?pol = nat ((int (ih_get_offset m2 (nd_head nd p) ?pol) - int len) mod 65536)"
      using shift_offsets_get [OF assms(1), of 0 "?n - (c + p)" m2 "nd_head nd p" "- int len"] assms(3) by (simp add: m3_def)
    moreover have "ih_get_offset m2 (nd_head nd p) ?pol = raw_off nd (p + c)"
    proof -
      have "mread m2 (nd_head nd p + int (key_size ?pol)) 2 =
          mread m1 (nd_head nd p + int (key_size ?pol) - nd_head nd (?n - Suc c) + int right) 2"
        unfolding m2_def using top sz hge [of "?n - Suc c"] assms(3,4) mult_le_mono1 [of "p + 1" "?n - c" "ih_size ?pol"]
        by (intro mread_memmove) (auto simp: nd_head_def algebra_simps of_nat_diff)
      moreover have "nd_head nd p + int (key_size ?pol) - nd_head nd (?n - Suc c) + int right = nd_head nd (p + c) + int (key_size ?pol)"
        using he assms(3) by (simp add: nd_head_def of_nat_diff algebra_simps)
      moreover have "mread m1 (nd_head nd (p + c) + int (key_size ?pol)) 2 = mread (nd_mem nd) (nd_head nd (p + c) + int (key_size ?pol)) 2"
        unfolding m1_def using hge [of "p + c"] assms(3) offs by (intro mread_memmove_other) auto
      ultimately show ?thesis by (simp add: raw_off_def ih_get_offset_def get_le_def)
    qed
    ultimately show ?thesis using raw_off_small [of nd p] offs(2) by (simp add: len_def of_nat_diff)
  qed
  define e where "e = nh_dec_free_space_start (nh_inc_free_space (nh_dec_num_items (nd\<lparr>nd_mem := m3\<rparr>) (int c))
    (int len + int (c * ih_size ?pol))) (int len)"
  have sh: "node40_shrink nd (whole_item p) len c = (0, node40_mkdirty e)"
    using assms(3) by (simp add: node40_shrink_def Let_def w wl hd o src he hl hd' e_def m3_def m2_def m1_def)
  have num: "nat ((int ?n - int c) mod 65536) = ?n - c" using n assms(3) by (simp add: nat_diff_distrib)
  have field: "ih_get_offset (nd_mem (node40_mkdirty e)) (nd_head nd j) ?pol = ih_get_offset m3 (nd_head nd j) ?pol" if "j \<le> p" for j
  proof -
    have "0 \<le> nd_head nd j" using hge [of j] that assms(3) by simp
    then show ?thesis
      by (simp add: e_def node40_mkdirty_def nh_dec_free_space_start_def nh_set_free_space_start_def
          nh_inc_free_space_def nh_set_free_space_def nh_dec_num_items_def nh_set_num_items_def raw_off_fields [OF assms(1)])
  qed
  have "nd_head (node40_mkdirty e) j = nd_head nd j" "nd_keypol (node40_mkdirty e) = ?pol" for j
    by (simp_all add: nd_head_def e_def node40_mkdirty_def nh_dec_free_space_start_def nh_set_free_space_start_def
          nh_inc_free_space_def nh_set_free_space_def nh_dec_num_items_def nh_set_num_items_def)
  then have "\<forall>j\<le>p. raw_off (node40_mkdirty e) j = raw_off nd j"
    using field above atp by (auto simp: raw_off_def le_less)
  moreover have "nh_get_num_items (node40_mkdirty e) = ?n - c"
    using low [of 2] num
    by (simp add: e_def node40_mkdirty_def nh_dec_free_space_start_def nh_set_free_space_start_def nh_inc_free_space_def
        nh_set_free_space_def nh_dec_num_items_def nh_set_num_items_def nh_get_num_items_def mem_simps)
  moreover have "same_block nd (node40_mkdirty e)"
    by (simp add: same_block_def e_def node40_mkdirty_def nh_dec_free_space_start_def nh_set_free_space_start_def
          nh_inc_free_space_def nh_set_free_space_def nh_dec_num_items_def nh_set_num_items_def)
  ultimately show ?thesis unfolding sh by blast
qed


lemma region_raw:
  assumes "nd_keypol nd \<in> {3, 4}" "j \<le> lp \<or> i \<le> j"
  defines "m \<equiv> region_offsets (i - Suc lp) (nd_mem nd) (nd_head nd (Suc lp)) (nd_keypol nd)"
  shows "ih_get_offset m (nd_head nd j) (nd_keypol nd) = raw_off nd j"
proof -
  let ?pol = "nd_keypol nd"
  have sz: "ih_size ?pol = 30 \<and> key_size ?pol = 24 \<or> ih_size ?pol = 38 \<and> key_size ?pol = 32"
    using assms(1) by (auto simp: ih_size_def key_size_def)
  have hidx: "nd_head nd (Suc lp) - int (ih_size ?pol) * int k = nd_head nd (Suc lp + k)" for k
    by (simp add: nd_head_def algebra_simps)
  have "mread m (nd_head nd j + int (key_size ?pol)) 2 = mread (nd_mem nd) (nd_head nd j + int (key_size ?pol)) 2"
    unfolding m_def
  proof (intro region_offsets_read allI impI, unfold hidx)
    fix k assume k: "k < i - Suc lp"
    have "int (ih_size ?pol) * int j + int (ih_size ?pol) \<le> int (ih_size ?pol) * int (Suc lp + k)" if "j < Suc lp + k"
      using that mult_left_mono [of "int j + 1" "int (Suc lp + k)" "int (ih_size ?pol)"] by (simp add: algebra_simps)
    moreover have "int (ih_size ?pol) * int (Suc lp + k) + int (ih_size ?pol) \<le> int (ih_size ?pol) * int j" if "Suc lp + k < j"
      using that mult_left_mono [of "int (Suc lp + k) + 1" "int j" "int (ih_size ?pol)"] by (simp add: algebra_simps)
    ultimately show "nd_head nd j + int (key_size ?pol) + int 2 \<le> nd_head nd (Suc lp + k) + int (key_size ?pol) \<or>
        nd_head nd (Suc lp + k) + int (key_size ?pol) + 2 \<le> nd_head nd j + int (key_size ?pol)"
      using assms(2) k sz by (cases "j < Suc lp + k") (auto simp: nd_head_def algebra_simps)
  qed
  then show ?thesis by (simp add: raw_off_def ih_get_offset_def get_le_def)
qed

lemma region_field:
  fixes nd :: node40 and i lp :: nat
  assumes "nd_keypol nd \<in> {3, 4}" "a + 2 \<le> 24" "i * ih_size (nd_keypol nd) \<le> nd_size nd"
  defines "m \<equiv> region_offsets (i - Suc lp) (nd_mem nd) (nd_head nd (Suc lp)) (nd_keypol nd)"
  shows "get_le 2 m a = get_le 2 (nd_mem nd) a"
proof -
  let ?pol = "nd_keypol nd"
  have "mread m a 2 = mread (nd_mem nd) a 2"
    unfolding m_def
  proof (intro region_offsets_read allI impI)
    fix k assume "k < i - Suc lp"
    then have "(Suc lp + k + 1) * ih_size ?pol \<le> nd_size nd"
      using mult_le_mono1 [of "Suc lp + k + 1" i "ih_size ?pol"] assms(3) by linarith
    then have "int ((Suc lp + k + 1) * ih_size ?pol) \<le> int (nd_size nd)" by (simp only: of_nat_le_iff)
    then have "0 \<le> nd_head nd (Suc lp) - int (ih_size ?pol) * int k"
      by (simp add: nd_head_def algebra_simps)
    moreover have "24 \<le> int (key_size ?pol)" using assms(1) by (auto simp: key_size_def)
    ultimately show "a + int 2 \<le> nd_head nd (Suc lp) - int (ih_size ?pol) * int k + int (key_size ?pol) \<or>
        nd_head nd (Suc lp) - int (ih_size ?pol) * int k + int (key_size ?pol) + 2 \<le> a"
      using assms(2) by simp
  qed
  then show ?thesis by (simp add: get_le_def)
qed


definition region_node :: "node40 \<Rightarrow> nat \<Rightarrow> nat \<Rightarrow> node40" where
  "region_node nd lp i = nd\<lparr>nd_mem := region_offsets (i - Suc lp) (nd_mem nd) (nd_head nd (Suc lp)) (nd_keypol nd)\<rparr>"

lemma region_node_facts:
  assumes "nd_keypol nd \<in> {3, 4}" "i * ih_size (nd_keypol nd) \<le> nd_size nd"
  shows "same_block nd (region_node nd lp i)" "nh_get_num_items (region_node nd lp i) = nh_get_num_items nd"
    "nh_get_free_space_start (region_node nd lp i) = nh_get_free_space_start nd"
    "j \<le> lp \<or> i \<le> j \<Longrightarrow> raw_off (region_node nd lp i) j = raw_off nd j"
    "nd_head (region_node nd lp i) = nd_head nd"
  using region_field [OF assms(1) _ assms(2), of 2 lp] region_field [OF assms(1) _ assms(2), of 6 lp] region_raw [OF assms(1)]
  by (simp_all add: region_node_def same_block_def nh_get_num_items_def nh_get_free_space_start_def raw_off_def nd_head_def fun_eq_iff)

lemma region_delete_run:
  assumes "nd_keypol nd \<in> {3, 4}" "lp < i" "i \<le> nh_get_num_items nd" "i * ih_size (nd_keypol nd) \<le> nd_size nd"
  shows "node40_region_delete nd (Suc lp) i =
    node40_shrink (region_node nd lp i) (whole_item lp)
      (to_u32 (int (if i < nh_get_num_items nd then raw_off nd i else nh_get_free_space_start nd) - int (raw_off nd lp))) (i - lp)"
proof -
  let ?pol = "nd_keypol nd" and ?r = "region_node nd lp i"
  have n: "nh_get_num_items nd < 65536" using get_le_less [of 2 "nd_mem nd" 2] by (simp add: nh_get_num_items_def)
  have w: "to_u32 (int lp) = lp" "to_u32 (int (Suc lp) - 1) = lp" "to_u32 (int i - int lp) = i - lp"
    "to_u32 (int lp + int (i - lp)) = i"
    using assms(2,3) n to_u32_diff [of lp i] by (simp_all add: wrap_simps flip: of_nat_add)
  have h: "to_u32 (int (ih_size ?pol) * int (i - lp)) = ih_size ?pol * (i - lp)"
  proof -
    have "ih_size ?pol * (i - lp) \<le> 38 * 65536" using assms(1-3) n by (intro mult_le_mono) (auto simp: ih_size_def)
    then show ?thesis by (simp add: wrap_simps flip: of_nat_mult)
  qed
  have hi: "nd_head nd lp - int (ih_size ?pol * (i - lp)) = nd_head nd i"
    using assms(2) by (simp add: nd_head_def of_nat_diff algebra_simps)
  note f = region_node_facts [OF assms(1,4), where lp = lp]
  have hd: "node40_ih_at nd (Suc lp) = nd_head nd (Suc lp)" "node40_ih_at ?r lp = nd_head nd lp"
    using n assms(2,3) by (simp_all add: ih_at_head f)
  have "node40_size ?r (whole_item lp) (i - lp) =
      to_u32 (int (if i < nh_get_num_items nd then raw_off nd i else nh_get_free_space_start nd) - int (raw_off nd lp))"
    using f(4) [where j = i] f(4) [where j = lp] f(1)
    by (simp add: node40_size_def Let_def w h hd hi [unfolded of_nat_mult] f(2,3,5) raw_off_def same_block_def)
  then show ?thesis
    by (simp add: node40_region_delete_def Let_def hd w flip: region_node_def)
qed

lemma delete_last:
  assumes "nd_keypol nd \<in> {3, 4}" "lp < nh_get_num_items nd" "nh_get_num_items nd * ih_size (nd_keypol nd) \<le> nd_size nd"
  shows "\<exists>nd'. node40_region_delete nd (Suc lp) (nh_get_num_items nd) = (0, nd') \<and> same_block nd nd' \<and>
    nh_get_num_items nd' = lp \<and> nh_get_free_space_start nd' = raw_off nd lp \<and> (\<forall>j\<le>lp. raw_off nd' j = raw_off nd j)"
proof -
  let ?n = "nh_get_num_items nd" and ?pol = "nd_keypol nd"
  define len where "len = to_u32 (int (nh_get_free_space_start nd) - int (raw_off nd lp))"
  note f = region_node_facts [OF assms(1,3), where lp = lp]
  have k: "nd_keypol (region_node nd lp ?n) \<in> {3, 4}" using assms(1) f(1) by (simp add: same_block_def)
  have "lp + (?n - lp) = nh_get_num_items (region_node nd lp ?n)" "0 < ?n - lp" using assms(2) f(2) by simp_all
  from shrink_last [OF k this, of len] obtain nd' where nd':
    "node40_shrink (region_node nd lp ?n) (whole_item lp) len (?n - lp) = (0, nd')" "same_block (region_node nd lp ?n) nd'"
    "nh_get_num_items nd' = lp"
    "nh_get_free_space_start nd' = nat ((int (nh_get_free_space_start nd) - int len) mod 65536)"
    "\<forall>j. 0 \<le> nd_head nd j \<longrightarrow> raw_off nd' j = raw_off (region_node nd lp ?n) j"
    using f(3,5) by auto
  have "(int (nh_get_free_space_start nd) - int len) mod 65536 = int (raw_off nd lp)"
  proof -
    have "int len = (int (nh_get_free_space_start nd) - int (raw_off nd lp)) mod 4294967296" by (simp add: len_def to_u32_def)
    then obtain q where "int (nh_get_free_space_start nd) - int (raw_off nd lp) = 4294967296 * q + int len"
      by (metis mult_div_mod_eq)
    then have "int (nh_get_free_space_start nd) - int len = int (raw_off nd lp) + 65536 * (65536 * q)" by simp
    then have "(int (nh_get_free_space_start nd) - int len) mod 65536 = int (raw_off nd lp) mod 65536" by (simp only: mod_mult_self2)
    then show ?thesis using raw_off_small [of nd lp] by simp
  qed
  moreover have "0 \<le> nd_head nd j" if "j \<le> lp" for j
  proof -
    have "(j + 1) * ih_size ?pol \<le> nd_size nd"
      using mult_le_mono1 [of "j + 1" ?n "ih_size ?pol"] that assms(2,3) by linarith
    then have "int ((j + 1) * ih_size ?pol) \<le> int (nd_size nd)" by (simp only: of_nat_le_iff)
    then show ?thesis by (simp add: nd_head_def algebra_simps)
  qed
  ultimately show ?thesis
    using nd' f(1,4) region_delete_run [OF assms(1,2) order_refl assms(3)]
    by (auto simp: len_def [symmetric] intro: same_block_trans)
qed

lemma delete_middle:
  assumes "nd_keypol nd \<in> {3, 4}" "nd_size nd < 65536" "lp < i" "i < nh_get_num_items nd"
    and "right + nh_get_num_items nd * ih_size (nd_keypol nd) = nd_size nd"
    and "28 \<le> raw_off nd lp" "raw_off nd lp < raw_off nd i" "raw_off nd i \<le> right"
  shows "\<exists>nd'. node40_region_delete nd (Suc lp) i = (0, nd') \<and> same_block nd nd' \<and>
    nh_get_num_items nd' = nh_get_num_items nd - (i - lp) \<and> (\<forall>j\<le>lp. raw_off nd' j = raw_off nd j)"
proof -
  let ?pol = "nd_keypol nd" and ?r = "region_node nd lp i"
  have hs: "i * ih_size ?pol \<le> nd_size nd"
    using mult_le_mono1 [of i "nh_get_num_items nd" "ih_size ?pol"] assms(4,5) by linarith
  note f = region_node_facts [OF assms(1) hs, where lp = lp]
  have s: "nd_keypol ?r = ?pol" "nd_size ?r = nd_size nd" using f(1) by (simp_all add: same_block_def)
  have len: "to_u32 (int (raw_off nd i) - int (raw_off nd lp)) = raw_off nd i - raw_off nd lp"
    using assms(7) raw_off_small [of nd i] by (intro to_u32_diff) simp_all
  have run: "node40_region_delete nd (Suc lp) i = node40_shrink ?r (whole_item lp) (raw_off nd i - raw_off nd lp) (i - lp)"
    using region_delete_run [OF assms(1,3) _ hs] assms(4) len by simp
  have "\<exists>nd'. node40_shrink ?r (whole_item lp) (raw_off ?r (lp + (i - lp)) - raw_off ?r lp) (i - lp) = (0, nd') \<and> same_block ?r nd' \<and>
    nh_get_num_items nd' = nh_get_num_items ?r - (i - lp) \<and> (\<forall>j\<le>lp. raw_off nd' j = raw_off ?r j)"
    by (rule shrink_middle [of _ _ _ right]) (use assms s f(2) f(4) [where j = lp] f(4) [where j = i] in simp_all)
  then show ?thesis
    using run f(1,2) f(4) assms(3) by (auto intro: same_block_trans)
qed


section \<open>The loop in the rebuilding mode\<close>

definition rebuilding :: "node40 \<Rightarrow> nat \<Rightarrow> nat \<Rightarrow> nat \<Rightarrow> nat \<Rightarrow> bool" where
  "rebuilding nd hdr i right lp \<longleftrightarrow>
     nd_keypol nd \<in> {3, 4} \<and> nd_size nd < 65536 \<and> 28 \<le> hdr \<and>
     right + nh_get_num_items nd * ih_size (nd_keypol nd) = nd_size nd \<and> lp < i \<and> i \<le> nh_get_num_items nd \<and>
     raw_off nd 0 = hdr \<and> (\<forall>j<lp. raw_off nd j < raw_off nd (Suc j)) \<and> (lp = 0 \<or> raw_off nd lp \<le> right)"

definition rebuilt :: "node40 \<Rightarrow> nat \<Rightarrow> bool" where
  "rebuilt nd hdr \<longleftrightarrow>
     nd_off nd 0 = hdr \<and> (\<forall>j<nh_get_num_items nd. nd_off nd j < nd_off nd (Suc j)) \<and>
     (nh_get_num_items nd = 0 \<or> nh_get_free_space_start nd + nh_get_num_items nd * ih_size (nd_keypol nd) \<le> nd_size nd)"

definition loop_done :: "node40 \<Rightarrow> nat \<Rightarrow> (int \<times> node40) + (node40 \<times> nat \<times> nat \<times> nat \<times> int) \<Rightarrow> bool" where
  "loop_done nd hdr r \<longleftrightarrow>
     (\<exists>nd' i' left' lp'. r = Inr (nd', i', left', lp', 0) \<and> same_block nd nd' \<and> rebuilt nd' hdr \<and>
        int left' - (int i' - int lp') = int (nh_get_free_space_start nd'))"

lemma loop_done_same: "loop_done nd' hdr r \<Longrightarrow> same_block nd nd' \<Longrightarrow> loop_done nd hdr r"
  unfolding loop_done_def by (blast intro: same_block_trans)

lemma raw_off_up:
  assumes "\<forall>j<lp. raw_off nd j < raw_off nd (Suc j)"
  shows "raw_off nd 0 + lp \<le> raw_off nd lp"
  using assms
proof (induction lp)
  case (Suc lp)
  then show ?case by (metis Suc_leI add_Suc_right le_trans less_SucI lessI not_less)
qed simp

lemma rebuilding_end:
  assumes "rebuilding nd hdr (nh_get_num_items nd) right lp"
  shows "\<exists>nd'. node40_region_delete nd (lp + 1) (nh_get_num_items nd) = (0, nd') \<and> same_block nd nd' \<and>
    rebuilt nd' hdr \<and> nh_get_num_items nd' = lp \<and> ih_offset_at nd' lp = nh_get_free_space_start nd'"
proof -
  let ?n = "nh_get_num_items nd" and ?h = "ih_size (nd_keypol nd)"
  note inv = assms [unfolded rebuilding_def]
  have n: "?n < 65536" using get_le_less [of 2 "nd_mem nd" 2] by (simp add: nh_get_num_items_def)
  obtain nd' where nd': "node40_region_delete nd (Suc lp) ?n = (0, nd')" "same_block nd nd'" "nh_get_num_items nd' = lp"
      "nh_get_free_space_start nd' = raw_off nd lp" "\<forall>j\<le>lp. raw_off nd' j = raw_off nd j"
    using delete_last [of nd lp] inv by auto
  have off: "nd_off nd' j = raw_off nd j" if "j \<le> lp" for j
    using that nd'(3-5) by (auto simp: nd_off_def raw_off_def)
  have "rebuilt nd' hdr"
    unfolding rebuilt_def nd'(3,4)
  proof (intro conjI)
    show "nd_off nd' 0 = hdr" using off inv by simp
    show "\<forall>j<lp. nd_off nd' j < nd_off nd' (Suc j)" using off inv by simp
    show "lp = 0 \<or> raw_off nd lp + lp * ih_size (nd_keypol nd') \<le> nd_size nd'"
    proof (cases "lp = 0")
      case False
      have "lp * ?h \<le> ?n * ?h" using inv by (intro mult_le_mono1) simp
      moreover have "raw_off nd lp \<le> right" "right + ?n * ?h = nd_size nd" using inv False by auto
      ultimately have "raw_off nd lp + lp * ?h \<le> nd_size nd" by linarith
      then show ?thesis using nd'(2) unfolding same_block_def by simp
    qed simp
  qed
  moreover have "ih_offset_at nd' lp = raw_off nd' lp"
    using n inv nd'(2) by (simp add: ih_offset_at_def raw_off_def ih_at_head)
  ultimately show ?thesis using nd' by auto
qed

lemma rebuilding_middle:
  assumes "rebuilding nd hdr i right lp" "i < nh_get_num_items nd" "raw_off nd lp < raw_off nd i" "raw_off nd i \<le> right"
  shows "\<exists>nd'. node40_region_delete nd (lp + 1) i = (0, nd') \<and> same_block nd nd' \<and>
    nh_get_num_items nd' = nh_get_num_items nd - (i - lp) \<and> ih_offset_at nd' lp = raw_off nd' lp \<and>
    rebuilding nd' hdr (lp + 1) (right + (i - lp) * ih_size (nd_keypol nd)) lp"
proof -
  let ?n = "nh_get_num_items nd" and ?h = "ih_size (nd_keypol nd)"
  note inv = assms(1) [unfolded rebuilding_def]
  have n: "?n < 65536" using get_le_less [of 2 "nd_mem nd" 2] by (simp add: nh_get_num_items_def)
  have "28 \<le> raw_off nd 0" "\<forall>j<lp. raw_off nd j < raw_off nd (Suc j)" using inv by auto
  then have "28 \<le> raw_off nd lp" using raw_off_up [of lp nd] by simp
  then obtain nd' where nd': "node40_region_delete nd (Suc lp) i = (0, nd')" "same_block nd nd'"
      "nh_get_num_items nd' = ?n - (i - lp)" "\<forall>j\<le>lp. raw_off nd' j = raw_off nd j"
    using delete_middle [of nd lp i right] inv assms(2-4) by auto
  have "right + (i - lp) * ?h + (?n - (i - lp)) * ?h = right + ?n * ?h"
  proof -
    have "(i - lp) + (?n - (i - lp)) = ?n" using assms(2) by simp
    then show ?thesis by (metis add.assoc distrib_right)
  qed
  then have "rebuilding nd' hdr (lp + 1) (right + (i - lp) * ?h) lp"
    using inv nd' assms(2) by (auto simp: rebuilding_def same_block_def)
  moreover have "ih_offset_at nd' lp = raw_off nd' lp"
    using n inv by (simp add: ih_offset_at_def raw_off_def ih_at_head)
  ultimately show ?thesis using nd' by auto
qed


lemma rebuild_loop:
  fixes nd :: node40
  shows "rebuilding nd hdr i right lp \<Longrightarrow> raw_off nd lp < left \<Longrightarrow> Suc (nh_get_num_items nd) - i = k \<Longrightarrow>
    loop_done nd hdr (ih_array_loop RM_BUILD nd i (nh_get_num_items nd) left right lp 0)"
proof (induction k arbitrary: nd i left right lp rule: less_induct)
  case (less k)
  let ?n = "nh_get_num_items nd" and ?h = "ih_size (nd_keypol nd)"
  note inv = less.prems(1) [unfolded rebuilding_def]
  define offset where "offset = (if i = ?n then nh_get_free_space_start nd else ih_offset_at nd i)"
  define relable where "relable \<longleftrightarrow> offset \<ge> left \<and> offset + (?n - i) \<le> right"
  have n: "?n < 65536" using get_le_less [of 2 "nd_mem nd" 2] by (simp add: nh_get_num_items_def)
  have o: "offset = raw_off nd i" if "i < ?n"
    using that n by (simp add: offset_def ih_offset_at_def raw_off_def ih_at_head)
  have o_end: "offset = nh_get_free_space_start nd" if "i = ?n" using that by (simp add: offset_def)
  have small: "offset < 65536"
    using get_le_less [of 2] by (simp add: offset_def ih_offset_at_def ih_get_offset_def nh_get_free_space_start_def del: get_le_def)
  have i: "0 < i" "i \<le> ?n" "lp < i" using inv by auto
  have w: "to_u32 (int offset + (int ?n - int i)) = offset + (?n - i)"
  proof -
    have "int offset + (int ?n - int i) = int (offset + (?n - i))" using i by simp
    then show ?thesis using small n to_u32_nat [of "offset + (?n - i)"] by (simp del: of_nat_add)
  qed
  have wd: "to_u32 (int right + int (i - lp) * int ?h) = right + (i - lp) * ?h"
  proof -
    have "(i - lp) * ?h \<le> ?n * ?h" using i by (intro mult_le_mono1) simp
    then have "right + (i - lp) * ?h < 65536" using inv by linarith
    then show ?thesis using to_u32_nat [of "right + (i - lp) * ?h"] by simp
  qed
  have step: "ih_array_loop RM_BUILD nd i ?n left right lp 0 =
     (if \<not> relable \<and> ?n \<noteq> i then ih_array_loop RM_BUILD nd (i + 1) ?n (left + 1) right lp 0
      else if lp \<noteq> i - 1 \<or> \<not> relable then
        (case node40_region_delete nd (lp + 1) i of (r, node) \<Rightarrow>
           if r \<noteq> 0 then Inl (- EINVAL, node)
           else ih_array_loop RM_BUILD node (lp + 1) (?n - (i - lp)) (ih_offset_at node lp + 1) (right + (i - lp) * ?h) lp 0)
      else ih_array_loop RM_BUILD nd (i + 1) ?n (offset + 1) right i 0)"
  proof -
    have "\<not> i > ?n" "i \<noteq> 0" using i by simp_all
    then show ?thesis
      unfolding ih_array_loop.simps [of RM_BUILD nd i ?n left right lp 0] Let_def offset_def [symmetric] relable_def
        of_nat_1 mult_1_right w wd
      by (simp only: if_False if_True simp_thms)
  qed
  show ?case
  proof (cases "\<not> relable \<and> ?n \<noteq> i")
    case True
    have "rebuilding nd hdr (i + 1) right lp" using inv i True by (auto simp: rebuilding_def)
    then show ?thesis using True less.IH [of "k - 1" nd "i + 1" right lp "left + 1"] less.prems i step by simp
  next
    case far: False
    show ?thesis
    proof (cases "i = ?n")
      case at_end: True
      show ?thesis
      proof (cases "lp \<noteq> i - 1 \<or> \<not> relable")
        case True
        obtain nd' where nd': "node40_region_delete nd (lp + 1) ?n = (0, nd')" "same_block nd nd'" "rebuilt nd' hdr"
            "nh_get_num_items nd' = lp" "ih_offset_at nd' lp = nh_get_free_space_start nd'"
          using rebuilding_end [of nd hdr right lp] less.prems(1) at_end by auto
        have "ih_array_loop RM_BUILD nd i ?n left right lp 0 = Inr (nd', lp + 1, nh_get_free_space_start nd' + 1, lp, 0)"
          using step far True nd' at_end i by (simp add: ih_array_loop.simps [of RM_BUILD nd' "Suc lp"])
        then show ?thesis using nd'(2,3) by (simp add: loop_done_def)
      next
        case False
        then have eq: "ih_array_loop RM_BUILD nd i ?n left right lp 0 = Inr (nd, i + 1, nh_get_free_space_start nd + 1, i, 0)"
          using step far at_end i o_end by (simp add: ih_array_loop.simps [of RM_BUILD nd "Suc ?n"])
        have rl: "left \<le> nh_get_free_space_start nd" "nh_get_free_space_start nd \<le> right"
          using False at_end o_end by (simp_all add: relable_def)
        have off: "nd_off nd j = raw_off nd j" if "j < ?n" for j using that by (simp add: nd_off_def raw_off_def)
        have lp: "Suc lp = ?n" using False at_end i by simp
        have inc: "nd_off nd j < nd_off nd (Suc j)" if "j < ?n" for j
        proof (cases "j = lp")
          case True
          then show ?thesis using off [of lp] lp rl(1) less.prems(2) nd_off_end [of nd ?n] by simp
        next
          case False
          then show ?thesis using that off [of j] off [of "Suc j"] lp inv by simp
        qed
        have "rebuilt nd hdr"
          unfolding rebuilt_def using inc off [of 0] lp inv rl(2) by simp
        then show ?thesis by (auto simp: eq loop_done_def same_block_def)
      qed
    next
      case False
      then have rl: relable "i < ?n" "raw_off nd lp < raw_off nd i" "raw_off nd i \<le> right"
        using far i o less.prems(2) by (auto simp: relable_def)
      show ?thesis
      proof (cases "lp = i - 1")
        case True
        then have "i = Suc lp" using i by simp
        then have "\<forall>j<i. raw_off nd j < raw_off nd (Suc j)" using inv rl(3) by (simp add: less_Suc_eq)
        then have "rebuilding nd hdr (i + 1) right i"
          using inv rl by (simp add: rebuilding_def)
        then show ?thesis
          using less.IH [of "k - 1" nd "i + 1" right i "offset + 1"] less.prems i rl(1,2) o step True by simp
      next
        case gap: False
        obtain nd' where nd': "node40_region_delete nd (lp + 1) i = (0, nd')" "same_block nd nd'"
            "nh_get_num_items nd' = ?n - (i - lp)" "ih_offset_at nd' lp = raw_off nd' lp"
            "rebuilding nd' hdr (lp + 1) (right + (i - lp) * ?h) lp"
          using rebuilding_middle [OF less.prems(1) rl(2-4)] by blast
        have "loop_done nd' hdr (ih_array_loop RM_BUILD nd' (lp + 1) (nh_get_num_items nd') (ih_offset_at nd' lp + 1)
            (right + (i - lp) * ?h) lp 0)"
          by (rule less.IH [OF _ nd'(5) _ refl]) (use nd'(3,4) less.prems(3) i rl(2) in auto)
        then have "loop_done nd' hdr (ih_array_loop RM_BUILD nd i ?n left right lp 0)"
          using step gap rl(1) nd'(1,3) by simp
        then show ?thesis using nd'(2) by (rule loop_done_same)
      qed
    qed
  qed
qed


section \<open>The count\<close>

lemma count_check_build:
  assumes "512 \<le> nd_size nd" "nd_size nd < 65536" "nd_keypol nd \<in> {3, 4}" "28 \<le> hdr"
    and est: "est nd = node40_estimate_count_common nd hdr"
  shows "\<exists>nd1. node40_count_check_common nd RM_BUILD est = Some (0, nd1) \<and> same_block nd nd1 \<and>
    nh_get_num_items nd1 * ih_size (nd_keypol nd1) \<le> nd_size nd1"
proof -
  let ?h = "ih_size (nd_keypol nd)"
  have h: "?h \<le> 38" using assms(3) by (auto simp: ih_size_def)
  have n: "nh_get_num_items nd < 65536" using get_le_less [of 2 "nd_mem nd" 2] by (simp add: nh_get_num_items_def)
  have "to_u32 (int (nd_size nd) - int ?h - int MIN_ITEM_LEN) = nd_size nd - (?h + 1)"
    using assms(1,2) h to_u32_diff [of "?h + 1" "nd_size nd"] by (simp add: algebra_simps)
  moreover have "\<exists>n. estimate_loop (nd_size nd) nd 0 hdr (nd_size nd - (?h + 1)) 0 = Some n \<and> (n + 1) * ?h \<le> nd_size nd"
    by (rule estimate_room) (use assms h in auto)
  ultimately obtain num where num: "est nd = Some num" "num * ?h \<le> nd_size nd"
    unfolding est by (auto simp: node40_estimate_count_common_def)
  show ?thesis
  proof (cases "node40_count_valid nd")
    case True
    then have "nh_get_num_items nd * ?h \<le> nd_size nd" by (auto simp: node40_count_valid_def Let_def split: if_splits)
    then show ?thesis using True by (simp add: node40_count_check_common_def same_block_def)
  next
    case invalid: False
    show ?thesis
    proof (cases "num \<ge> nh_get_num_items nd")
      case True
      then have "nh_get_num_items nd * ?h \<le> nd_size nd" using num(2) mult_le_mono1 order_trans by blast
      then show ?thesis using invalid True num(1) by (simp add: node40_count_check_common_def same_block_def)
    next
      case False
      let ?nd1 = "node40_mkdirty (nh_set_num_items nd (int num))"
      have "nh_get_num_items ?nd1 = num" using False n
        by (simp add: nh_get_num_items_def nh_set_num_items_def node40_mkdirty_def mem_simps)
      then show ?thesis using invalid False num
        by (simp add: node40_count_check_common_def same_block_def nh_set_num_items_def node40_mkdirty_def)
    qed
  qed
qed

section \<open>The whole array\<close>

lemma space_check_build:
  assumes "rebuilt nd hdr" "nd_keypol nd \<in> {3, 4}" "nd_size nd < 65536" "hdr \<le> nd_size nd" "hdr = nd_hdr nd"
  shows "\<exists>nd'. node40_space_check nd (nh_get_free_space_start nd) RM_BUILD = (0, nd') \<and> same_block nd nd' \<and>
    nh_get_num_items nd' = nh_get_num_items nd \<and> nd_wf nd' \<and> nd_full nd'"
proof -
  let ?n = "nh_get_num_items nd" and ?h = "ih_size (nd_keypol nd)"
  note r = assms(1) [unfolded rebuilt_def]
  have le: "nh_get_free_space_start nd + ?n * ?h \<le> nd_size nd"
  proof (cases "?n = 0")
    case True
    then show ?thesis using r assms(4) by (simp add: nd_off_def)
  qed (use r in simp)
  define space where "space = nd_size nd - (nh_get_free_space_start nd + ?n * ?h)"
  have sp: "to_u32 (int (nd_size nd) - int (nh_get_free_space_start nd) - int ?h * int ?n) = space"
    using le assms(3) to_u32_diff [of "nh_get_free_space_start nd + ?n * ?h" "nd_size nd"]
    by (simp add: space_def algebra_simps)
  define nd' where "nd' = (if space \<noteq> nh_get_free_space nd then node40_mkdirty (nh_set_free_space nd (int space)) else nd)"
  have run: "node40_space_check nd (nh_get_free_space_start nd) RM_BUILD = (0, nd')"
    by (simp add: node40_space_check_def Let_def sp nd'_def)
  have f: "nh_get_num_items nd' = ?n" "nh_get_free_space_start nd' = nh_get_free_space_start nd" "nh_get_free_space nd' = space"
      "same_block nd nd'"
    using assms(3) by (simp_all add: nd'_def nh_get_num_items_def nh_get_free_space_start_def nh_get_free_space_def
        nh_set_free_space_def node40_mkdirty_def same_block_def mem_simps space_def)
  have off: "nd_off nd' j = nd_off nd j" if "j \<le> ?n" for j
  proof (cases "j < ?n")
    case True
    have "(j + 1) * ?h \<le> nd_size nd" using True le mult_le_mono1 [of "j + 1" ?n ?h] by linarith
    then have "int ((j + 1) * ?h) \<le> int (nd_size nd)" by (simp only: of_nat_le_iff)
    then have "0 \<le> nd_head nd j" by (simp add: nd_head_def algebra_simps)
    moreover have "nd_head nd' j = nd_head nd j" "nd_keypol nd' = nd_keypol nd"
      using f(4) by (simp_all add: nd_head_def same_block_def)
    ultimately show ?thesis
      using True f(1) raw_off_fields [OF assms(2), of j 4]
      by (simp add: nd_off_def nd'_def nh_set_free_space_def node40_mkdirty_def)
  qed (use f that in \<open>simp add: nd_off_def\<close>)
  have wf: "nd_wf nd'"
    unfolding nd_wf_def using f off assms(2,3,5) r le by (auto simp: same_block_def nd_hdr_def space_def intro: less_imp_le)
  have "nd_full nd'"
    using r off f(1) by (fastforce simp: nd_full_def nd_items_def nd_item_def mread_def)
  then show ?thesis using run f(1,4) wf by blast
qed

lemma rebuild_array:
  assumes "512 \<le> nd_size nd" "nd_size nd < 65536" "nd_keypol nd \<in> {3, 4}" "hdr = nd_hdr nd"
    and room: "0 < nh_get_num_items nd" "nh_get_num_items nd * ih_size (nd_keypol nd) \<le> nd_size nd"
  shows "\<exists>nd'. node40_ih_array_check_common nd RM_BUILD hdr = (0, nd') \<and> same_block nd nd' \<and> nd_wf nd' \<and> nd_full nd'"
proof -
  let ?n = "nh_get_num_items nd" and ?pol = "nd_keypol nd"
  define right where "right = nd_size nd - ?n * ih_size ?pol"
  have right: "to_u32 (int (nd_size nd) - int ?n * int (ih_size ?pol)) = right"
    using room(2) assms(2) to_u32_diff [of "?n * ih_size ?pol" "nd_size nd"] by (simp add: right_def)
  have hdr: "28 \<le> hdr" "hdr \<le> 32" using assms(4) by (auto simp: nd_hdr_def)
  define nd0 where "nd0 = (if ih_offset_at nd 0 = hdr then nd else
    node40_mkdirty (nd\<lparr>nd_mem := ih_set_offset (nd_mem nd) (node40_ih_at nd 0) (int hdr) ?pol\<rparr>))"
  have first: "ih_array_loop RM_BUILD nd 0 ?n hdr right 0 0 = ih_array_loop RM_BUILD nd0 1 ?n (hdr + 1) right 0 0"
    using room(1) by (subst ih_array_loop.simps) (simp add: Let_def nd0_def)
  have head: "nd_head nd 0 = int (nd_size nd) - int (ih_size ?pol)" "node40_ih_at nd 0 = nd_head nd 0"
    by (simp_all add: nd_head_def ih_at_head)
  have s0: "same_block nd nd0" "nd_head nd0 = nd_head nd" by (simp_all add: nd0_def same_block_def node40_mkdirty_def nd_head_def fun_eq_iff)
  have n0: "nh_get_num_items nd0 = ?n"
    using assms(1,3) head by (auto simp: nd0_def nh_get_num_items_def node40_mkdirty_def ih_set_offset_def ih_size_def key_size_def mem_simps)
  have o0: "raw_off nd0 0 = hdr"
    using hdr head s0 by (simp add: nd0_def raw_off_def ih_offset_at_def node40_mkdirty_def ih_set_offset_def ih_get_offset_def nd_head_def mem_simps)
  have "rebuilding nd0 hdr 1 right 0"
    using assms(2,3) hdr n0 o0 s0(1) room by (simp add: rebuilding_def same_block_def right_def)
  then have "loop_done nd0 hdr (ih_array_loop RM_BUILD nd 0 ?n hdr right 0 0)"
    using rebuild_loop [of nd0 hdr 1 right 0 "hdr + 1" ?n] o0 n0 first by simp
  then obtain nd1 i left lp where l: "ih_array_loop RM_BUILD nd 0 ?n hdr right 0 0 = Inr (nd1, i, left, lp, 0)"
      "same_block nd0 nd1" "rebuilt nd1 hdr" "int left - (int i - int lp) = int (nh_get_free_space_start nd1)"
    unfolding loop_done_def by blast
  have fss: "to_u32 (int left - (int i - int lp)) = nh_get_free_space_start nd1"
    using get_le_less [of 2 "nd_mem nd1" 6] l(4) to_u32_nat [of "nh_get_free_space_start nd1"] by (simp add: nh_get_free_space_start_def)
  have s1: "same_block nd nd1" using s0(1) l(2) by (rule same_block_trans)
  obtain nd' where nd': "node40_space_check nd1 (nh_get_free_space_start nd1) RM_BUILD = (0, nd')" "same_block nd1 nd'" "nd_wf nd'" "nd_full nd'"
  proof -
    have "nd_keypol nd1 \<in> {3, 4}" "nd_size nd1 < 65536" "hdr \<le> nd_size nd1" "hdr = nd_hdr nd1"
      using s1 assms(1-4) hdr(2) unfolding same_block_def by (simp_all add: nd_hdr_def)
    from space_check_build [OF l(3) this] show ?thesis using that by blast
  qed
  have "node40_ih_array_check_common nd RM_BUILD hdr = (0, nd')"
    using l(1) fss nd'(1) by (simp add: node40_ih_array_check_common_def Let_def right)
  then show ?thesis using nd' s1 same_block_trans by blast
qed


section \<open>Removing an item of an unknown plugin\<close>

text \<open>The header behind the last one of the node after one item was taken out: it is left as it was.\<close>

lemma closed_last:
  assumes "nd_wf nd" "Suc p < nh_get_num_items nd" "i + l \<le> ih_size (nd_keypol nd)"
  defines "h \<equiv> nd_head nd (nh_get_num_items nd - 1)"
  shows "mread (nd_closed nd p 1) (h + int i) l = mread (nd_mem nd) (h + int i) l"
proof -
  note wf = nd_wfD [OF assms(1)] and b = nd_off_bounds [OF assms(1)] and mono = nd_off_mono [OF assms(1), of p "Suc p"]
  let ?pol = "nd_keypol nd" and ?n = "nh_get_num_items nd"
  let ?m1 = "memmove (nd_mem nd) (int (nd_off nd p)) (int (nd_off nd (Suc p)))
    (nat (nd_head nd (?n - 1) - int (nd_off nd (Suc p))))"
  let ?m2 = "memmove ?m1 (nd_head nd (?n - 1 - 1)) (nd_head nd (?n - 1)) (ih_size ?pol * (?n - Suc p))"
  have "mread ?m1 (h + int i) l = mread (nd_mem nd) (h + int i) l"
    using wf b [of p] b [of "Suc p"] mono assms(2,3)
    by (intro mread_memmove_other) (auto simp: h_def nd_head_def of_nat_diff algebra_simps)
  moreover have "mread ?m2 (h + int i) l = mread ?m1 (h + int i) l"
    using wf b [of p] assms(2,3) by (intro mread_memmove_other) (auto simp: h_def nd_head_def of_nat_diff algebra_simps)
  moreover have "mread (ih_shift_offsets (?n - 1 - p) ?m2 (nd_head nd p) (- int (nd_off nd (Suc p) - nd_off nd p)) ?pol) (h + int i) l =
      mread ?m2 (h + int i) l"
    using wf b [of p] assms(2,3) by (intro shift_offsets_read) (auto simp: h_def nd_head_def of_nat_diff algebra_simps)
  ultimately show ?thesis using assms(2) by (simp add: nd_closed_def Let_def)
qed

lemma iplug_all_known:
  assumes "\<And>j. i \<le> j \<Longrightarrow> j < i + n \<Longrightarrow> known (ih_get_pid (nd_mem nd) (nd_head nd j) (nd_keypol nd))"
  shows "iplug_loop mode known (nd_head nd i) i (n + m) nd res = iplug_loop mode known (nd_head nd (i + n)) (i + n) m nd res"
  using assms
proof (induction n arbitrary: i)
  case (Suc n)
  have h: "nd_head nd i - int (ih_size (nd_keypol nd)) = nd_head nd (Suc i)" by (simp add: nd_head_def algebra_simps)
  have "known (ih_get_pid (nd_mem nd) (nd_head nd i) (nd_keypol nd))" using Suc.prems by simp
  then show ?case using Suc.IH [of "Suc i"] Suc.prems h by simp
qed simp

lemma iplug_removes:
  assumes "nd_wf nd" "p < nh_get_num_items nd" "\<not> known (it_pid (nd_item nd p))"
    and "\<And>j. j < nh_get_num_items nd \<Longrightarrow> j \<noteq> p \<Longrightarrow> known (it_pid (nd_item nd j))"
  shows "\<exists>nd'. node40_iplug_check known nd RM_BUILD = (0, nd') \<and> nd_wf nd' \<and> same_block nd nd' \<and>
    nd_items nd' = take p (nd_items nd) @ drop (Suc p) (nd_items nd)"
proof -
  let ?n = "nh_get_num_items nd"
  have small: "?n < 65536" using nd_wfD [OF assms(1)] by auto
  have pid: "it_pid (nd_item nd j) = ih_get_pid (nd_mem nd) (nd_head nd j) (nd_keypol nd)" for nd j by (simp add: nd_item_def)
  have "p + 1 \<le> node40_items nd" using assms(2) by (simp add: node40_items_def)
  from node40_shrink_items [OF assms(1) this zero_less_one] obtain nd' where
    s: "node40_shrink nd (whole_item p) (node40_size nd (whole_item p) 1) 1 = (0, nd')" "nd_wf nd'"
    "nd_items nd' = take p (nd_items nd) @ drop (p + 1) (nd_items nd)" by blast
  note a = assms(1) assms(2) [folded Suc_le_eq, folded Suc_eq_plus1] zero_less_one
  have nd': "nd' = snd (node40_shrink nd (whole_item p) (nd_off nd (p + 1) - nd_off nd p) 1)"
    using s(1) node40_size_eq [OF assms(1), of p 1] assms(2) by simp
  have p1: "p + 1 \<le> ?n" using assms(2) by simp
  note r = shrink_items_read [OF assms(1) p1 zero_less_one, folded nd']
    and o = shrink_items_items [OF assms(1) p1 zero_less_one, folded nd']
  have plug: "nd_plug nd' = nd_plug nd"
    unfolding nd' shrink_items_eq [OF assms(1) p1 zero_less_one] by simp
  have hd: "nd_head nd' j = nd_head nd j" for j by (simp add: nd_head_def r(4,5))
  have known': "known (ih_get_pid (nd_mem nd') (nd_head nd' j) (nd_keypol nd'))" if "p < j" "j < ?n" for j
  proof (cases "j = ?n - 1")
    case False
    then have "nd_item nd' (Suc j - 1) = nd_item nd (Suc j)" using o(4) [of "Suc j"] that by simp
    then have "it_pid (nd_item nd' j) = it_pid (nd_item nd (Suc j))" by simp
    then show ?thesis using assms(4) [of "Suc j"] that False pid [of nd' j] by simp
  next
    case True
    let ?k = "key_size (nd_keypol nd)"
    have k: "?k + 4 + 2 \<le> ih_size (nd_keypol nd)" using nd_wfD(1) [OF assms(1)] by (auto simp: ih_size_def key_size_def)
    have "0 \<le> nd_head nd j" "28 \<le> nd_head nd j + int (?k + 4)"
      using nd_wfD [OF assms(1)] nd_off_bounds [OF assms(1), of 0] that by (auto simp: nd_head_def)
    then have "mread (nd_mem nd') (nd_head nd j + int (?k + 4)) 2 = mread (nd_mem nd) (nd_head nd j + int (?k + 4)) 2"
      using r(8) [of "nd_head nd j + int (?k + 4)" 2] closed_last [OF assms(1) _ k, of p] that True by simp
    then have "ih_get_pid (nd_mem nd') (nd_head nd j) (nd_keypol nd) = it_pid (nd_item nd j)"
      unfolding pid ih_get_pid_def get_le_def by (simp add: add.assoc)
    then show ?thesis using assms(4) [of j] that hd r(5) by simp
  qed
  have "node40_iplug_check known nd RM_BUILD = iplug_loop RM_BUILD known (nd_head nd 0) 0 ?n nd 0"
    using assms(2) small by (simp add: node40_iplug_check_def ih_at_head)
  also have "\<dots> = iplug_loop RM_BUILD known (nd_head nd p) p (Suc (?n - Suc p)) nd 0"
    using iplug_all_known [of 0 p known nd RM_BUILD "Suc (?n - Suc p)" 0] assms(2,4) pid by simp
  also have "\<dots> = iplug_loop RM_BUILD known (nd_head nd' (Suc p)) (Suc p) (?n - Suc p) nd' 0"
  proof -
    have h: "nd_head nd p - int (ih_size (nd_keypol nd)) = nd_head nd' (Suc p)" unfolding hd by (simp add: nd_head_def algebra_simps)
    have "\<not> known (ih_get_pid (nd_mem nd) (nd_head nd p) (nd_keypol nd))" using assms(3) pid by simp
    then show ?thesis using s(1) h by (simp del: One_nat_def flip: Suc_eq_plus1)
  qed
  also have "\<dots> = (0, nd')"
    using iplug_all_known [of "Suc p" "?n - Suc p" known nd' RM_BUILD 0 0] known' by simp
  finally show ?thesis using s(2,3) r(4,5) plug by (intro exI [of _ nd']) (simp add: same_block_def)
qed

text \<open>With at most one item of an unknown plugin the check ends with the other items.\<close>

lemma filter_one:
  assumes "length (filter (\<lambda>x. \<not> P x) xs) \<le> 1"
  shows "filter P xs = xs \<or> (\<exists>p<length xs. \<not> P (xs ! p) \<and> (\<forall>j<length xs. j \<noteq> p \<longrightarrow> P (xs ! j)) \<and> filter P xs = take p xs @ drop (Suc p) xs)"
  using assms
proof (induction xs)
  case (Cons x xs)
  show ?case
  proof (cases "P x")
    case True
    from Cons consider "filter P xs = xs" | p where "p < length xs" "\<not> P (xs ! p)" "\<forall>j<length xs. j \<noteq> p \<longrightarrow> P (xs ! j)" "filter P xs = take p xs @ drop (Suc p) xs"
      using True by auto
    then show ?thesis
    proof cases
      case 2
      then show ?thesis using True by (intro disjI2 exI [of _ "Suc p"]) (auto simp: nth_Cons split: nat.splits)
    qed (use True in simp)
  next
    case False
    then have "filter (\<lambda>x. \<not> P x) xs = []" using Cons.prems by simp
    then have all: "\<forall>y\<in>set xs. P y" by (simp add: filter_empty_conv)
    then have "filter P xs = xs" by simp
    then show ?thesis using False all by (intro disjI2 exI [of _ 0]) (auto simp: nth_Cons split: nat.splits)
  qed
qed simp

lemma iplug_one:
  assumes "nd_wf nd" "nd_full nd" "length (filter (\<lambda>it. \<not> known (it_pid it)) (nd_items nd)) \<le> 1"
  shows "\<exists>nd'. node40_iplug_check known nd RM_BUILD = (0, nd') \<and> nd_wf nd' \<and> nd_full nd' \<and> same_block nd nd' \<and>
    nd_items nd' = filter (\<lambda>it. known (it_pid it)) (nd_items nd)"
proof -
  let ?n = "nh_get_num_items nd"
  have small: "?n < 65536" using nd_wfD [OF assms(1)] by auto
  have nth: "nd_items nd ! j = nd_item nd j" if "j < ?n" for j using that by (simp add: nd_items_def)
  have len: "length (nd_items nd) = ?n" by (simp add: nd_items_def)
  from filter_one [OF assms(3)] show ?thesis
  proof (elim disjE exE conjE)
    assume f: "filter (\<lambda>it. known (it_pid it)) (nd_items nd) = nd_items nd"
    have "known (it_pid (nd_item nd j))" if "j < ?n" for j
      using f that nth [OF that] len by (metis filter_id_conv nth_mem)
    then have "iplug_loop RM_BUILD known (nd_head nd 0) 0 ?n nd 0 = (0, nd)"
      using iplug_all_known [of 0 ?n known nd RM_BUILD 0 0] by (simp add: nd_item_def)
    then have "node40_iplug_check known nd RM_BUILD = (0, nd)"
      using small by (cases "?n = 0") (simp_all add: node40_iplug_check_def ih_at_head)
    then show ?thesis using assms(1,2) f by (simp add: same_block_def)
  next
    fix p
    assume p: "p < length (nd_items nd)" "\<not> known (it_pid (nd_items nd ! p))"
      "\<forall>j<length (nd_items nd). j \<noteq> p \<longrightarrow> known (it_pid (nd_items nd ! j))"
      "filter (\<lambda>it. known (it_pid it)) (nd_items nd) = take p (nd_items nd) @ drop (Suc p) (nd_items nd)"
    obtain nd' where nd': "node40_iplug_check known nd RM_BUILD = (0, nd')" "nd_wf nd'" "same_block nd nd'"
      "nd_items nd' = filter (\<lambda>it. known (it_pid it)) (nd_items nd)"
      using iplug_removes [OF assms(1), of p known] p nth len by auto
    then have "nd_full nd'" using assms(2) by (simp add: nd_full_def)
    then show ?thesis using nd' by blast
  qed
qed

text \<open>
  Two items of unknown plugins are more than the loop copes with.  After the first was taken out it goes on with
  the next index, past the new count, and reads the header that was left behind: the length it computes is
  below zero, and the node it leaves has no items but a free space that starts at the body of the second one.
\<close>

lemma shrink_past_end:
  assumes "nd_keypol nd \<in> {3, 4}" "nh_get_num_items nd = 1" "len < 4294967296"
  shows "\<exists>nd'. node40_shrink nd (whole_item 1) len 1 = (0, nd') \<and> nh_get_num_items nd' = 0 \<and> nd_plug nd' = nd_plug nd \<and>
    nh_get_free_space_start nd' = nat ((int (nh_get_free_space_start nd) - int len) mod 65536)"
proof -
  let ?m = "set_le 2 (nd_mem nd) 2 (int (nh_get_num_items nd) - 1)"
  define m2 where "m2 = set_le 2 ?m 4 (int (get_le 2 ?m 4) + (int len + int (to_u32 (int (ih_size (nd_keypol nd))))))"
  have w: "\<not> to_u32 (1 + 1) < 1" "to_u32 (1 + 1) = 2" using to_u32_nat [of 2] by simp_all
  have sh: "node40_shrink nd (whole_item 1) len 1 =
      (0, nd\<lparr>nd_mem := set_le 2 m2 6 (int (get_le 2 m2 6) - int len), nd_dirty := True\<rparr>)"
    using w by (simp add: node40_shrink_def assms(2) Let_def m2_def node40_mkdirty_def nh_dec_free_space_start_def
        nh_inc_free_space_def nh_dec_num_items_def nh_set_free_space_start_def nh_set_free_space_def nh_set_num_items_def
        nh_get_free_space_start_def nh_get_free_space_def)
  have fss: "get_le 2 m2 6 = nh_get_free_space_start nd"
    by (simp add: m2_def mem_simps nh_get_free_space_start_def)
  show ?thesis
    unfolding sh fss using assms(2) by (simp add: nh_get_num_items_def nh_get_free_space_start_def m2_def mem_simps)
qed

lemma iplug_both_unknown:
  assumes "nd_wf nd" "nd_off nd 0 < nd_off nd 1" "nh_get_num_items nd = 2"
  shows "\<exists>nd'. node40_iplug_check (\<lambda>_. False) nd RM_BUILD = (0, nd') \<and> nh_get_num_items nd' = 0 \<and>
    nh_get_free_space_start nd' = nd_off nd 1 \<and> \<not> nd_wf nd'"
proof -
  let ?len = "nd_off nd 1 - nd_off nd 0" and ?k = "key_size (nd_keypol nd)"
  have p1: "0 + 1 \<le> nh_get_num_items nd" using assms(3) by simp
  define nd1 where "nd1 = snd (node40_shrink nd (whole_item 0) (nd_off nd (0 + 1) - nd_off nd 0) 1)"
  note r = shrink_items_read [OF assms(1) p1 zero_less_one, folded nd1_def]
  have s1: "node40_shrink nd (whole_item 0) (node40_size nd (whole_item 0) 1) 1 = (0, nd1)"
    using shrink_items_eq [OF assms(1) p1 zero_less_one] node40_size_eq [OF assms(1), of 0 1] assms(3) by (simp add: nd1_def)
  have plug: "nd_plug nd1 = nd_plug nd"
    unfolding nd1_def shrink_items_eq [OF assms(1) p1 zero_less_one] by simp
  have hd: "node40_ih_at nd1 1 = nd_head nd 1"
    using r(4,5) ih_at_head [of 1 nd1] by (simp add: nd_head_def)
  have b: "nd_off nd 1 \<le> nh_get_free_space_start nd" "28 \<le> nd_off nd 0" "nh_get_free_space_start nd < 65536" "nd_keypol nd \<in> {3, 4}"
    using nd_off_bounds [OF assms(1)] nd_wfD [OF assms(1)] by auto
  have off1: "ih_get_offset (nd_mem nd1) (nd_head nd 1) (nd_keypol nd) = nd_off nd 1"
  proof -
    have k: "?k + 2 \<le> ih_size (nd_keypol nd)" using b(4) by (auto simp: ih_size_def key_size_def)
    have "28 \<le> nd_head nd 1 + int ?k"
      using nd_wfD [OF assms(1)] nd_off_bounds [OF assms(1), of 0] assms(3) by (auto simp: nd_head_def)
    then have "mread (nd_mem nd1) (nd_head nd 1 + int ?k) 2 = mread (nd_mem nd) (nd_head nd 1 + int ?k) 2"
      using r(8) [of "nd_head nd 1 + int ?k" 2] closed_last [OF assms(1) _ k, of 0] assms(3) by (simp add: numeral_2_eq_2)
    then show ?thesis using assms(3) by (simp add: nd_off_def ih_get_offset_def get_le_def)
  qed
  have fss1: "nh_get_free_space_start nd1 = nh_get_free_space_start nd - ?len" using r(3) by simp
  have size1: "node40_size nd1 (whole_item 1) 1 = to_u32 (int (nh_get_free_space_start nd1) - int (nd_off nd 1))"
  proof -
    have "to_u32 (1 + 1) = 2" using to_u32_nat [of 2] by simp
    then show ?thesis using r(1) assms(3) off1 hd r(5) by (simp add: node40_size_def Let_def)
  qed
  have k1: "nd_keypol nd1 \<in> {3, 4}" "nh_get_num_items nd1 = 1" using b(4) r(1,5) assms(3) by simp_all
  have lt: "node40_size nd1 (whole_item 1) 1 < 4294967296" unfolding size1 by (simp add: to_u32_def)
  obtain nd' where nd': "node40_shrink nd1 (whole_item 1) (node40_size nd1 (whole_item 1) 1) 1 = (0, nd')"
    "nh_get_num_items nd' = 0" "nd_plug nd' = nd_plug nd1"
    "nh_get_free_space_start nd' = nat ((int (nh_get_free_space_start nd1) - int (node40_size nd1 (whole_item 1) 1)) mod 65536)"
    using shrink_past_end [OF k1 lt] by blast
  have fss: "nh_get_free_space_start nd' = nd_off nd 1"
  proof -
    have "(int (nh_get_free_space_start nd1) - int (node40_size nd1 (whole_item 1) 1)) mod 65536 = int (nd_off nd 1) mod 65536"
    proof -
      have "int (to_u32 x) mod 65536 = x mod 65536" for x
        using mod_mod_cancel [of 65536 4294967296 x] by (simp add: to_u32_def)
      then have "(a - int (to_u32 x)) mod 65536 = (a - x) mod 65536" for a x :: int by (rule mod_diff_cong [OF refl])
      then show ?thesis unfolding size1 by simp
    qed
    then show ?thesis using nd'(4) b by simp
  qed
  have "node40_iplug_check (\<lambda>_. False) nd RM_BUILD = (0, nd')"
  proof -
    have two: "nh_get_num_items nd = Suc (Suc 0)" using assms(3) by simp
    show ?thesis unfolding node40_iplug_check_def two iplug_loop.simps Let_def using s1 nd'(1) by simp
  qed
  moreover have "\<not> nd_wf nd'"
    using nd'(2,3) fss plug assms(1,2) by (auto simp: nd_wf_def nd_off_def nd_hdr_def split: if_splits)
  ultimately show ?thesis using nd'(2) fss by blast
qed

lemma iplug_sample_unknown:
  "nd_wf sample_node \<and> \<not> nd_wf (snd (node40_iplug_check (\<lambda>_. False) sample_node RM_BUILD))"
proof -
  have "nd_off sample_node 0 < nd_off sample_node 1"
    using sample_heads sample_offs by (simp add: nd_off_def nd_head_def ih_size_def)
  then show ?thesis using iplug_both_unknown [OF sample_wf] sample_heads(1) sample_wf by auto
qed

section \<open>Rebuilding a node\<close>

lemma build_common:
  assumes "512 \<le> nd_size nd" "nd_size nd < 65536" "nd_keypol nd \<in> {3, 4}" and hdr: "hdr = nd_hdr nd"
    and est: "est nd = node40_estimate_count_common nd hdr"
  shows "\<exists>nd'. nd_wf nd' \<and> nd_full nd' \<and> same_block nd nd' \<and>
    (case node40_count_check_common nd RM_BUILD est of
        None \<Rightarrow> None
      | Some (res, node) \<Rightarrow>
          if res \<noteq> 0 then Some (res, node)
          else if nh_get_num_items node = 0 then Some (node40_space_check node hdr RM_BUILD)
          else
            (let (res, node) = node40_ih_array_check_common node RM_BUILD hdr
             in if repair_error_fatal res then Some (res, node)
                else (let (res', node) = node40_iplug_check known node RM_BUILD in Some (res OR res', node)))) =
      Some (node40_iplug_check known nd' RM_BUILD)"
proof -
  have h: "28 \<le> hdr" "hdr \<le> 32" using hdr by (auto simp: nd_hdr_def)
  obtain nd1 where nd1: "node40_count_check_common nd RM_BUILD est = Some (0, nd1)" "same_block nd nd1"
      "nh_get_num_items nd1 * ih_size (nd_keypol nd1) \<le> nd_size nd1"
    using count_check_build [where est = est, OF assms(1-3) h(1) est] by blast
  have s: "512 \<le> nd_size nd1" "nd_size nd1 < 65536" "nd_keypol nd1 \<in> {3, 4}" "hdr = nd_hdr nd1"
    using assms(1-4) nd1(2) unfolding same_block_def by (simp_all add: nd_hdr_def)
  show ?thesis
  proof (cases "nh_get_num_items nd1 = 0")
    case True
    obtain nd2 where nd2: "nd2 = (if hdr \<noteq> nh_get_free_space_start nd1 then
        node40_mkdirty (nh_set_free_space_start (nh_set_free_space nd1 (int (nh_get_free_space nd1) + int (nh_get_free_space_start nd1) - int hdr)) (int hdr))
        else nd1)" by blast
    have f: "nh_get_num_items nd2 = 0" "nh_get_free_space_start nd2 = hdr" "same_block nd1 nd2"
      using True h by (simp_all add: nd2 nh_get_num_items_def nh_get_free_space_start_def nh_set_free_space_start_def
          nh_set_free_space_def node40_mkdirty_def same_block_def mem_simps)
    have "rebuilt nd2 hdr" using f by (simp add: rebuilt_def nd_off_def)
    moreover have "nd_keypol nd2 \<in> {3, 4}" "nd_size nd2 < 65536" "hdr \<le> nd_size nd2" "hdr = nd_hdr nd2"
      using s f(3) h unfolding same_block_def by (simp_all add: nd_hdr_def)
    ultimately obtain nd' where nd': "node40_space_check nd2 hdr RM_BUILD = (0, nd')" "same_block nd2 nd'"
        "nh_get_num_items nd' = 0" "nd_wf nd'" "nd_full nd'"
      using space_check_build [of nd2 hdr] f(1,2) by metis
    have "node40_space_check nd1 hdr RM_BUILD = node40_space_check nd2 hdr RM_BUILD"
    proof (cases "hdr = nh_get_free_space_start nd1")
      case False
      then show ?thesis using f(2) by (simp add: node40_space_check_def nd2 Let_def)
    qed (simp add: nd2)
    then have "node40_space_check nd1 hdr RM_BUILD = node40_iplug_check known nd' RM_BUILD"
      using nd' by (simp add: node40_iplug_check_def)
    then show ?thesis
      using True nd1(1) nd'(4,5) same_block_trans [OF nd1(2) same_block_trans [OF f(3) nd'(2)]] by auto
  next
    case False
    then obtain nd' where nd': "node40_ih_array_check_common nd1 RM_BUILD hdr = (0, nd')" "same_block nd1 nd'" "nd_wf nd'" "nd_full nd'"
      using rebuild_array [OF s] nd1(3) by blast
    then show ?thesis
      using False nd1(1) same_block_trans [OF nd1(2) nd'(2)]
      by (intro exI [of _ nd']) (simp add: repair_error_fatal_def split: prod.split)
  qed
qed

text \<open>
  C13: in the rebuilding mode fsck terminates on a block with any contents whatever: the counts, the
  offsets and the free space are mended to a well formed node \<open>nd'\<close> without empty items in the same block, and
  the answer is that of the check of the plugin ids on \<open>nd'\<close>.  When at most one item of \<open>nd'\<close> has an unknown
  plugin the answer is success, with a well formed node that holds the items of known plugins and no other.  With
  more the loop of \<^verbatim>\<open>node40_iplug_check\<close> skips items and reads headers it left behind (\<open>iplug_both_unknown\<close>).
\<close>

theorem node40_rebuild_wf:
  assumes "512 \<le> nd_size nd" "nd_size nd < 65536" "nd_keypol nd \<in> {3, 4}"
  shows "\<exists>nd'. nd_wf nd' \<and> nd_full nd' \<and> nd_size nd' = nd_size nd \<and> nd_plug nd' = nd_plug nd \<and>
    (if nd_plug nd = NODE_REISER40_ID then node40_check_struct known nd RM_BUILD
     else node41_check_struct known nd RM_BUILD) = Some (node40_iplug_check known nd' RM_BUILD) \<and>
    (length (filter (\<lambda>it. \<not> known (it_pid it)) (nd_items nd')) \<le> 1 \<longrightarrow>
      (\<exists>nd''. node40_iplug_check known nd' RM_BUILD = (0, nd'') \<and> nd_wf nd'' \<and> nd_full nd'' \<and>
        nd_size nd'' = nd_size nd \<and> nd_plug nd'' = nd_plug nd \<and>
        nd_items nd'' = filter (\<lambda>it. known (it_pid it)) (nd_items nd')))"
proof -
  have "\<exists>nd'. nd_wf nd' \<and> nd_full nd' \<and> same_block nd nd' \<and>
    (if nd_plug nd = NODE_REISER40_ID then node40_check_struct known nd RM_BUILD
     else node41_check_struct known nd RM_BUILD) = Some (node40_iplug_check known nd' RM_BUILD)"
  proof (cases "nd_plug nd = NODE_REISER40_ID")
    case True
    show ?thesis
      unfolding if_P [OF True] node40_check_struct_def node40_count_check_def node40_ih_array_check_def
      by (rule build_common [OF assms]) (simp_all add: True nd_hdr_def node40_estimate_count_def)
  next
    case False
    show ?thesis
      unfolding if_not_P [OF False] node41_check_struct_def node41_count_check_def node41_ih_array_check_def
      by (rule build_common [OF assms]) (simp_all add: False nd_hdr_def node41_estimate_count_def)
  qed
  then obtain nd' where nd': "nd_wf nd'" "nd_full nd'" "same_block nd nd'"
    "(if nd_plug nd = NODE_REISER40_ID then node40_check_struct known nd RM_BUILD
      else node41_check_struct known nd RM_BUILD) = Some (node40_iplug_check known nd' RM_BUILD)" by blast
  have "\<exists>nd''. node40_iplug_check known nd' RM_BUILD = (0, nd'') \<and> nd_wf nd'' \<and> nd_full nd'' \<and>
      nd_size nd'' = nd_size nd \<and> nd_plug nd'' = nd_plug nd \<and> nd_items nd'' = filter (\<lambda>it. known (it_pid it)) (nd_items nd')"
    if "length (filter (\<lambda>it. \<not> known (it_pid it)) (nd_items nd')) \<le> 1"
    using iplug_one [OF nd'(1,2) that] nd'(3) by (auto simp: same_block_def)
  then show ?thesis using nd' by (intro exI [of _ nd']) (simp add: same_block_def)
qed

text \<open>A blank block, where every plugin is known.\<close>

theorem node40_rebuild_wf_witness:
  "\<exists>nd'. nd_wf nd' \<and> nd_full nd' \<and> node40_check_struct (\<lambda>_. True) blank_node RM_BUILD = Some (0, nd')"
  using node40_rebuild_wf [of blank_node "\<lambda>_. True"] by (auto simp: blank_node_def)

end
