(* ===== verification/Extent40.thy ===== *)
theory Extent40
  imports TailItems
begin

text \<open>
  Extents (\<^verbatim>\<open>plugin/item/extent40\<close>): a file body item whose units are pairs of a start block and a width in
  blocks, both 64 bits wide on disk; start 0 is a hole and 1 a region that has no blocks yet.  The data of such
  units lives in the cache of unformatted blocks and on the device.
\<close>

unbundle bit_operations_syntax

abbreviation (input) ITEM_EXTENT40_ID :: nat where "ITEM_EXTENT40_ID \<equiv> 5"
abbreviation (input) EXTENT_ITEM :: nat where "EXTENT_ITEM \<equiv> 4"
abbreviation (input) EXTENT_HOLE_UNIT :: u64 where "EXTENT_HOLE_UNIT \<equiv> 0"
abbreviation (input) EXTENT_UNALLOC_UNIT :: u64 where "EXTENT_UNALLOC_UNIT \<equiv> 1"
abbreviation (input) ET40_OVERWRITE :: nat where "ET40_OVERWRITE \<equiv> 1"
abbreviation (input) ET40_HEAD :: nat where "ET40_HEAD \<equiv> 2"
abbreviation (input) ET40_TAIL :: nat where "ET40_TAIL \<equiv> 4"
abbreviation (input) ET40_JOIN :: nat where "ET40_JOIN \<equiv> 8"
abbreviation (input) et_size :: nat where "et_size \<equiv> 16"

definition to_s64 :: "u64 \<Rightarrow> int" where
  "to_s64 w = sint w"

definition th_flag :: "'d trans_hint \<Rightarrow> nat \<Rightarrow> bool" where
  "th_flag hint f \<longleftrightarrow> th_insert_flags hint AND f \<noteq> 0"

text \<open>
  What the plugin calls outside of itself: the tree's counters of free blocks and its memory pressure hook, the
  hash table of cached blocks (lookup, insertion, removal and writing to a block in it) and the device (loading
  and allocating a block).  All of it works on the state behind the hint's data pointer; \<open>None\<close> is a null
  pointer.
\<close>

record 'd extent_env =
  ee_inc_free :: "nat \<Rightarrow> 'd \<Rightarrow> int \<times> 'd"
  ee_dec_free :: "nat \<Rightarrow> 'd \<Rightarrow> int \<times> 'd"
  ee_mpressure :: "'d \<Rightarrow> int \<times> 'd"
  ee_lookup :: "reiser4_key \<Rightarrow> 'd \<Rightarrow> mem option"
  ee_insert :: "reiser4_key \<Rightarrow> mem \<Rightarrow> 'd \<Rightarrow> 'd option"
  ee_update :: "reiser4_key \<Rightarrow> mem \<Rightarrow> 'd \<Rightarrow> 'd"
  ee_remove :: "reiser4_key \<Rightarrow> 'd \<Rightarrow> 'd"
  ee_load :: "nat \<Rightarrow> u64 \<Rightarrow> 'd \<Rightarrow> mem option"
  ee_alloc :: "nat \<Rightarrow> 'd \<Rightarrow> mem option"

section \<open>Units\<close>

definition place_blksize :: "place \<Rightarrow> nat" where
  "place_blksize place = nd_size (pl_node place)"

definition et40_at :: "place \<Rightarrow> nat \<Rightarrow> int" where
  "et40_at place i = pl_body place + int et_size * int i"

definition et40_get_start :: "place \<Rightarrow> nat \<Rightarrow> u64" where
  "et40_get_start place i = word_of_nat (get_le 8 (place_mem place) (et40_at place i))"
definition et40_set_start :: "place \<Rightarrow> nat \<Rightarrow> u64 \<Rightarrow> place" where
  "et40_set_start place i v = place_put place (set_le 8 (place_mem place) (et40_at place i) (uint v))"
definition et40_get_width :: "place \<Rightarrow> nat \<Rightarrow> u64" where
  "et40_get_width place i = word_of_nat (get_le 8 (place_mem place) (et40_at place i + 8))"
definition et40_set_width :: "place \<Rightarrow> nat \<Rightarrow> u64 \<Rightarrow> place" where
  "et40_set_width place i v = place_put place (set_le 8 (place_mem place) (et40_at place i + 8) (uint v))"
definition et40_inc_start :: "place \<Rightarrow> nat \<Rightarrow> u64 \<Rightarrow> place" where
  "et40_inc_start place i v = et40_set_start place i (et40_get_start place i + v)"
definition et40_inc_width :: "place \<Rightarrow> nat \<Rightarrow> u64 \<Rightarrow> place" where
  "et40_inc_width place i v = et40_set_width place i (et40_get_width place i + v)"
definition et40_dec_width :: "place \<Rightarrow> nat \<Rightarrow> u64 \<Rightarrow> place" where
  "et40_dec_width place i v = et40_set_width place i (et40_get_width place i - v)"

definition extent40_units :: "place \<Rightarrow> nat" where
  "extent40_units place = pl_len place div et_size"

fun extent40_blocks :: "place \<Rightarrow> nat \<Rightarrow> u64" where
  "extent40_blocks place 0 = 0"
| "extent40_blocks place (Suc i) = extent40_blocks place i + et40_get_width place i"

definition extent40_offset :: "place \<Rightarrow> nat \<Rightarrow> u64" where
  "extent40_offset place pos = extent40_blocks place pos * word_of_nat (place_blksize place)"

definition extent40_fetch_key :: "place \<Rightarrow> reiser4_key" where
  "extent40_fetch_key place = body40_get_key place (unit (pl_pos place)) (Some extent40_offset)"

definition extent40_size :: "place \<Rightarrow> u64" where
  "extent40_size place = extent40_offset place (extent40_units place)"

fun extent40_used :: "place \<Rightarrow> nat \<Rightarrow> u64" where
  "extent40_used place 0 = 0"
| "extent40_used place (Suc i) =
     (if et40_get_start place i \<noteq> 0 then extent40_used place i + et40_get_width place i else extent40_used place i)"

definition extent40_bytes :: "place \<Rightarrow> u64" where
  "extent40_bytes place = extent40_used place (extent40_units place) * word_of_nat (place_blksize place)"

text \<open>The sum of the widths is kept in 32 bits.\<close>

fun extent40_unit_loop :: "place \<Rightarrow> u64 \<Rightarrow> nat \<Rightarrow> nat \<Rightarrow> nat \<Rightarrow> nat" where
  "extent40_unit_loop place offset i 0 width = i"
| "extent40_unit_loop place offset i (Suc n) width =
     (let width = to_u32 (int width + uint (et40_get_width place i * word_of_nat (place_blksize place)))
      in if offset < word_of_nat width then i else extent40_unit_loop place offset (i + 1) n width)"

definition extent40_unit :: "place \<Rightarrow> u64 \<Rightarrow> nat" where
  "extent40_unit place offset = extent40_unit_loop place offset 0 (extent40_units place) 0"

definition extent40_maxreal_key :: "place \<Rightarrow> reiser4_key" where
  "extent40_maxreal_key place = body40_maxreal_key extent40_units place (Some extent40_offset)"

definition extent40_maxposs_key :: "place \<Rightarrow> reiser4_key" where
  "extent40_maxposs_key place = body40_maxposs_key place"

definition extent40_mergeable :: "place \<Rightarrow> place \<Rightarrow> bool" where
  "extent40_mergeable place1 place2 = body40_mergeable extent40_maxreal_key place1 place2"

fun extent40_lookup_loop :: "place \<Rightarrow> u64 \<Rightarrow> u64 \<Rightarrow> nat \<Rightarrow> nat \<Rightarrow> nat option" where
  "extent40_lookup_loop place wanted offset i 0 = None"
| "extent40_lookup_loop place wanted offset i (Suc n) =
     (let offset = offset + et40_get_width place i * word_of_nat (place_blksize place)
      in if offset > wanted then Some i else extent40_lookup_loop place wanted offset (i + 1) n)"

definition extent40_lookup :: "place \<Rightarrow> reiser4_key \<Rightarrow> lookup_bias \<Rightarrow> lookup_res \<times> place" where
  "extent40_lookup place key bias =
     (let units = extent40_units place; wanted = reiser4_key_get_offset key; offset = reiser4_key_get_offset (pl_key place)
      in case extent40_lookup_loop place wanted offset 0 units of
           Some i \<Rightarrow> (PRESENT, place_unit place i)
         | None \<Rightarrow> (if bias = FIND_CONV then PRESENT else ABSENT, place_unit place units))"

section \<open>Moving units around\<close>

definition extent40_expand :: "place \<Rightarrow> nat \<Rightarrow> nat \<Rightarrow> place" where
  "extent40_expand place pos count =
     (if pos < extent40_units place then
        place_mkdirty (place_put place
          (memmove (place_mem place) (et40_at place pos + int (to_u32 (int count * int et_size))) (et40_at place pos)
             (to_u32 ((int (extent40_units place) - int pos - int count) * int et_size))))
      else place)"

definition extent40_shrink :: "place \<Rightarrow> nat \<Rightarrow> nat \<Rightarrow> place" where
  "extent40_shrink place pos count =
     (if pos < extent40_units place then
        place_mkdirty (place_put place
          (memmove (place_mem place) (et40_at place pos) (et40_at place pos + int (to_u32 (int count * int et_size)))
             (to_u32 ((int (extent40_units place) - int pos) * int et_size))))
      else place)"

definition extent40_copy :: "place \<Rightarrow> nat \<Rightarrow> place \<Rightarrow> nat \<Rightarrow> nat \<Rightarrow> place" where
  "extent40_copy dst_place dst_pos src_place src_pos count =
     (if count > 0 then
        place_mkdirty (place_put dst_place
          (memcpy (place_mem dst_place) (et40_at dst_place dst_pos) (place_mem src_place) (et40_at src_place src_pos)
             (to_u32 (int count * int et_size))))
      else dst_place)"

definition sp_ptrs :: "specific \<Rightarrow> ptr_hint list" where
  "sp_ptrs sp = (case sp of SP_PTRS ps \<Rightarrow> ps | SP_PTR p \<Rightarrow> [p] | _ \<Rightarrow> [])"

text \<open>The array of pointer hints has \<open>count\<close> elements.\<close>

definition extent40_fetch_units :: "place \<Rightarrow> 'd trans_hint \<Rightarrow> int \<times> place \<times> 'd trans_hint" where
  "extent40_fetch_units place hint =
     (let pos = (if unit (pl_pos place) = MAX_UINT32 then 0 else unit (pl_pos place));
          ptrs = map (\<lambda>i. \<lparr>ptr_start = unat (et40_get_start place i), ptr_width = unat (et40_get_width place i)\<rparr>)
                   [pos..<pos + th_count hint]
      in (int (th_count hint), place, hint\<lparr>th_specific := SP_PTRS ptrs\<rparr>))"

fun extent40_store :: "place \<Rightarrow> nat \<Rightarrow> ptr_hint list \<Rightarrow> place" where
  "extent40_store place i [] = place"
| "extent40_store place i (p # ps) =
     extent40_store (et40_set_width (et40_set_start place i (word_of_nat (ptr_start p))) i (word_of_nat (ptr_width p))) (i + 1) ps"

definition extent40_update_units :: "place \<Rightarrow> 'd trans_hint \<Rightarrow> int \<times> place \<times> 'd trans_hint" where
  "extent40_update_units place hint =
     (let pos = (if unit (pl_pos place) = MAX_UINT32 then 0 else unit (pl_pos place));
          place = extent40_store place pos (take (th_count hint) (sp_ptrs (th_specific hint)))
      in (int (th_count hint), place_mkdirty place, hint))"

definition extent40_prep_insert :: "place \<Rightarrow> 'd trans_hint \<Rightarrow> int \<times> place \<times> 'd trans_hint" where
  "extent40_prep_insert place hint = (0, place, hint\<lparr>th_len := to_s32 (int (th_count hint) * int et_size)\<rparr>)"

definition extent40_insert_units :: "place \<Rightarrow> 'd trans_hint \<Rightarrow> int \<times> place \<times> 'd trans_hint" where
  "extent40_insert_units place hint =
     (let place = (if unit (pl_pos place) = MAX_UINT32 then place_unit place 0 else place);
          place = extent40_expand place (unit (pl_pos place)) (to_u32 (int (th_count hint)))
      in extent40_update_units place hint)"

section \<open>Removing units\<close>

text \<open>The loop over the removed units: start and width are kept in 32 bits.\<close>

fun extent40_release ::
  "'d extent_env \<Rightarrow> (nat \<Rightarrow> nat \<Rightarrow> 'd \<Rightarrow> int \<times> 'd) \<Rightarrow> place \<Rightarrow> nat \<Rightarrow> nat \<Rightarrow> 'd \<Rightarrow> int \<times> 'd" where
  "extent40_release env region_func place i 0 data = (0, data)"
| "extent40_release env region_func place i (Suc n) data =
     (let start = to_u32 (uint (et40_get_start place i)); width = to_u32 (uint (et40_get_width place i));
          (res, data) = (if start \<noteq> 0 then ee_inc_free env width data else (0, data))
      in if res \<noteq> 0 then (res, data)
         else if start = 1 \<or> start = 0 then extent40_release env region_func place (i + 1) n data
         else
           (let (res, data) = region_func start width data
            in if res \<noteq> 0 then (res, data) else extent40_release env region_func place (i + 1) n data))"

definition extent40_remove_units :: "'d extent_env \<Rightarrow> place \<Rightarrow> 'd trans_hint \<Rightarrow> int \<times> place \<times> 'd trans_hint" where
  "extent40_remove_units env place hint =
     (let pos = (if unit (pl_pos place) = MAX_UINT32 then 0 else unit (pl_pos place));
          (res, hint) =
            (case th_region_func hint of
               None \<Rightarrow> (0, hint)
             | Some f \<Rightarrow> (let (res, data) = extent40_release env f place pos (th_count hint) (th_data hint)
                         in (res, hint\<lparr>th_data := data\<rparr>)))
      in if res \<noteq> 0 then (res, place, hint)
         else
           (let len = to_u32 (int (pl_len place) - (int pos + int (th_count hint)) * int et_size);
                place = place_put place (memmove (place_mem place) (et40_at place pos) (et40_at place (pos + th_count hint)) len);
                place = (if pos = 0 then place\<lparr>pl_key := extent40_fetch_key place\<rparr> else place);
                hint = hint\<lparr>th_overhead := 0, th_len := to_s32 (int et_size * int (th_count hint))\<rparr>
            in (0, place_mkdirty place, hint)))"

section \<open>Visiting the regions\<close>

fun extent40_layout_loop :: "(nat \<Rightarrow> nat \<Rightarrow> 'd \<Rightarrow> int \<times> 'd) \<Rightarrow> place \<Rightarrow> nat \<Rightarrow> nat \<Rightarrow> 'd \<Rightarrow> int \<times> 'd" where
  "extent40_layout_loop region_func place i 0 data = (0, data)"
| "extent40_layout_loop region_func place i (Suc n) data =
     (let start = et40_get_start place i
      in if start = EXTENT_UNALLOC_UNIT \<or> start = EXTENT_HOLE_UNIT then extent40_layout_loop region_func place (i + 1) n data
         else
           (let (res, data) = region_func (unat start) (unat (et40_get_width place i)) data
            in if res \<noteq> 0 then (res, data) else extent40_layout_loop region_func place (i + 1) n data))"

definition extent40_layout :: "place \<Rightarrow> (nat \<Rightarrow> nat \<Rightarrow> 'd \<Rightarrow> int \<times> 'd) \<Rightarrow> 'd \<Rightarrow> int \<times> 'd" where
  "extent40_layout place region_func data = extent40_layout_loop region_func place 0 (extent40_units place) data"

section \<open>Truncation\<close>

text \<open>Taking the blocks of a region out of the cache.\<close>

fun extent40_uncache :: "'d extent_env \<Rightarrow> nat \<Rightarrow> nat \<Rightarrow> reiser4_key \<Rightarrow> 'd \<Rightarrow> reiser4_key \<times> 'd" where
  "extent40_uncache env blksize 0 key data = (key, data)"
| "extent40_uncache env blksize (Suc n) key data =
     extent40_uncache env blksize n (reiser4_key_set_offset key (reiser4_key_get_offset key + word_of_nat blksize))
       (ee_remove env key data)"

text \<open>
  One round of the loop with at least one block to remove; \<open>size\<close> is the rest.  The result is an error or the
  next state.  The region hook is called without a test for null; here a null hook is success.
\<close>

definition extent40_trunc_round ::
  "'d extent_env \<Rightarrow> nat \<Rightarrow> nat \<Rightarrow> nat \<Rightarrow> reiser4_key \<Rightarrow> place \<Rightarrow> 'd trans_hint \<Rightarrow> int \<times> place \<times> 'd trans_hint \<times> reiser4_key" where
  "extent40_trunc_round env blksize eskip remove key place hint =
     (let u = unit (pl_pos place);
          width = to_u32 (uint (et40_get_width place u));
          (key, data) = extent40_uncache env blksize remove key (th_data hint);
          start = to_u32 (uint (et40_get_start place u));
          (res, data) = (if start \<noteq> 0 then ee_inc_free env remove data else (0, data));
          hint = hint\<lparr>th_data := data\<rparr>
      in if res \<noteq> 0 then (res, place, hint, key)
         else
           (let (res, data) =
              (if start \<noteq> 0 \<and> start \<noteq> 1 then
                 (case th_region_func hint of
                    Some f \<Rightarrow> f (to_u32 (int start + int eskip)) remove (th_data hint)
                  | None \<Rightarrow> (0, th_data hint))
               else (0, th_data hint));
                hint = hint\<lparr>th_data := data\<rparr>
            in if res \<noteq> 0 then (res, place, hint, key)
               else
                 (let bytes = to_u32 (int remove * int blksize);
                      hint = (if start \<noteq> 0 then hint\<lparr>th_bytes := to_u64 (int (th_bytes hint) + int bytes)\<rparr> else hint)
                  in if eskip \<noteq> 0 then
                       (0, et40_dec_width place u (word_of_nat remove),
                        hint\<lparr>th_bytes := to_u64 (int (th_bytes hint) + int bytes)\<rparr>, key)
                     else if remove < width then
                       (0, et40_dec_width (if start \<noteq> 0 \<and> start \<noteq> 1 then et40_inc_start place u (word_of_nat remove) else place)
                             u (word_of_nat remove),
                        hint\<lparr>th_bytes := to_u64 (int (th_bytes hint) + int bytes)\<rparr>, key)
                     else
                       (0, if u < to_u32 (int (extent40_units place) - 1) then
                             place_put place (memmove (place_mem place) (et40_at place u) (et40_at place (u + 1))
                               (to_u32 (int et_size * int (extent40_units place) - (int u + 1))))
                           else place,
                        hint\<lparr>th_len := to_s32 (th_len hint + int et_size)\<rparr>, key))))"

text \<open>
  The loop, \<open>left\<close> a signed 32-bit number.  Each round takes at least one block off it; \<open>None\<close> when the fuel is
  used up.
\<close>

fun extent40_trunc_loop ::
  "nat \<Rightarrow> 'd extent_env \<Rightarrow> nat \<Rightarrow> u64 \<Rightarrow> nat \<Rightarrow> int \<Rightarrow> reiser4_key \<Rightarrow> place \<Rightarrow> 'd trans_hint \<Rightarrow>
     (int \<times> place \<times> 'd trans_hint) option" where
  "extent40_trunc_loop 0 env blksize count epos left key place hint = None"
| "extent40_trunc_loop (Suc fuel) env blksize count epos left key place hint =
     (if left \<le> 0 then Some (0, place, hint)
      else
        (let width = to_u32 (uint (et40_get_width place (unit (pl_pos place))));
             eskip = (if left = to_s64 count then epos else 0);
             rest = to_u32 (int width - int eskip);
             remove = (if nat left div blksize > rest then rest else nat left div blksize)
         in if remove = 0 then Some (0, place, hint)
            else
              (let (res, place, hint, key) = extent40_trunc_round env blksize eskip remove key place hint
               in if res \<noteq> 0 then Some (res, place, hint)
                  else extent40_trunc_loop fuel env blksize count epos (to_s32 (left - int remove * int blksize)) key place hint)))"

definition extent40_trunc_units :: "'d extent_env \<Rightarrow> place \<Rightarrow> 'd trans_hint \<Rightarrow> (int \<times> place \<times> 'd trans_hint) option" where
  "extent40_trunc_units env place hint =
     (let hint = hint\<lparr>th_len := 0, th_bytes := 0, th_overhead := 0\<rparr>;
          place = (if unit (pl_pos place) = MAX_UINT32 then place_unit place 0 else place);
          blksize = place_blksize place;
          offset = reiser4_key_get_offset (th_offset hint);
          skip = blksize - unat offset mod blksize;
          skip = (if skip = blksize then 0 else skip);
          offset = offset + word_of_nat skip;
          key = reiser4_key_set_offset (th_offset hint) offset;
          offset = offset - reiser4_key_get_offset (pl_key place);
          esize = extent40_size place - offset;
          epos = to_u32 (uint ((offset - extent40_offset place (unit (pl_pos place))) div word_of_nat blksize))
      in if th_count hint < skip then Some (int (th_count hint), place, hint)
         else
           (let count = word_of_nat (th_count hint - skip) :: u64;
                count = (if count > esize then esize else count)
            in case extent40_trunc_loop (Suc (unat count)) env blksize count epos (to_s32 (uint count)) key place hint of
                 None \<Rightarrow> None
               | Some (res, place, hint) \<Rightarrow>
                   if res \<noteq> 0 then Some (res, place, hint)
                   else
                     (let place =
                        (if unit (pl_pos place) = 0 \<and> epos = 0 \<and> count \<noteq> 0 then
                           place\<lparr>pl_key := reiser4_key_set_offset (pl_key place)
                             (reiser4_key_get_offset (pl_key place) + count div word_of_nat blksize * word_of_nat blksize)\<rparr>
                         else place)
                      in Some (int (unat count) + int skip, place, hint))))"

section \<open>Reading\<close>

text \<open>The bytes of a hole: at most \<open>width\<close> blocks; returns what is left to read and the positions.\<close>

fun extent40_read_hole :: "nat \<Rightarrow> nat \<Rightarrow> u64 \<Rightarrow> u64 \<Rightarrow> mem \<Rightarrow> int \<Rightarrow> u64 \<times> u64 \<times> mem \<times> int" where
  "extent40_read_hole blksize 0 count read_offset buf at = (count, read_offset, buf, at)"
| "extent40_read_hole blksize (Suc width) count read_offset buf at =
     (if count = 0 then (count, read_offset, buf, at)
      else
        (let rest = blksize - unat read_offset mod blksize;
             size = to_u32 (uint count);
             size = (if size > rest then rest else size)
         in extent40_read_hole blksize width (count - word_of_nat size) (read_offset + word_of_nat size)
              (mwrite buf at (replicate size 0)) (at + int size)))"

text \<open>The bytes of an allocated unit: block by block from the cache, which is filled from the device.\<close>

definition extent40_cached :: "'d extent_env \<Rightarrow> nat \<Rightarrow> reiser4_key \<Rightarrow> u64 \<Rightarrow> 'd \<Rightarrow> int + mem \<times> 'd" where
  "extent40_cached env blksize key blk data =
     (case ee_lookup env key data of
        Some block \<Rightarrow> Inr (block, data)
      | None \<Rightarrow>
          (case ee_load env blksize blk data of
             None \<Rightarrow> Inl (- EIO)
           | Some block \<Rightarrow>
               (case ee_insert env key block data of None \<Rightarrow> Inl (- ENOMEM) | Some data \<Rightarrow> Inr (block, data))))"

fun extent40_read_blocks ::
  "nat \<Rightarrow> 'd extent_env \<Rightarrow> nat \<Rightarrow> u64 \<Rightarrow> u64 \<Rightarrow> u64 \<Rightarrow> u64 \<Rightarrow> reiser4_key \<Rightarrow> mem \<Rightarrow> int \<Rightarrow> 'd \<Rightarrow>
     ((int \<times> mem \<times> 'd) + u64 \<times> u64 \<times> reiser4_key \<times> mem \<times> int \<times> 'd) option" where
  "extent40_read_blocks 0 env blksize endb blk count read_offset key buf at data = None"
| "extent40_read_blocks (Suc fuel) env blksize endb blk count read_offset key buf at data =
     (if \<not> (blk < endb \<and> count > 0) then Some (Inr (count, read_offset, key, buf, at, data))
      else
        (let rest = blksize - unat read_offset mod blksize;
             size = to_u32 (uint count);
             size = (if size > rest then rest else size);
             block_offset = read_offset - (read_offset AND word_of_nat (blksize - 1));
             key = reiser4_key_set_offset key block_offset
         in case extent40_cached env blksize key blk data of
              Inl e \<Rightarrow> Some (Inl (e, buf, data))
            | Inr (block, data) \<Rightarrow>
                (let buf = memcpy buf at block (int (unat read_offset mod blksize)) size;
                     read_offset = read_offset + word_of_nat size
                 in extent40_read_blocks fuel env blksize endb
                      (if unat read_offset mod blksize = 0 then blk + 1 else blk)
                      (count - word_of_nat size) read_offset key buf (at + int size) data)))"

fun extent40_read_loop ::
  "'d extent_env \<Rightarrow> place \<Rightarrow> nat \<Rightarrow> nat \<Rightarrow> u64 \<Rightarrow> u64 \<Rightarrow> u64 \<Rightarrow> reiser4_key \<Rightarrow> mem \<Rightarrow> int \<Rightarrow> 'd \<Rightarrow>
     ((int \<times> mem \<times> 'd) + u64 \<times> mem \<times> 'd) option" where
  "extent40_read_loop env place i 0 count read_offset rel_offset key buf at data = Some (Inr (count, buf, data))"
| "extent40_read_loop env place i (Suc n) count read_offset rel_offset key buf at data =
     (if count = 0 then Some (Inr (count, buf, data))
      else
        (let blksize = place_blksize place;
             start = et40_get_start place i;
             blk = start + rel_offset div word_of_nat blksize;
             cont = (\<lambda>(count, read_offset, key, buf, at, data).
               let (res, data) = ee_mpressure env data
               in if res \<noteq> 0 then Some (Inl (res, buf, data))
                  else extent40_read_loop env place (i + 1) n count read_offset 0 key buf at data)
         in if start = EXTENT_HOLE_UNIT then
              (let width = et40_get_width place i - rel_offset div word_of_nat blksize;
                   (count, read_offset, buf, at) = extent40_read_hole blksize (unat width) count read_offset buf at
               in cont (count, read_offset, key, buf, at, data))
            else
              (case extent40_read_blocks (Suc (unat count)) env blksize (start + et40_get_width place i) blk count
                      read_offset key buf at data of
                 None \<Rightarrow> None
               | Some (Inl e) \<Rightarrow> Some (Inl e)
               | Some (Inr r) \<Rightarrow> cont r)))"

definition extent40_read_units :: "'d extent_env \<Rightarrow> place \<Rightarrow> 'd trans_hint \<Rightarrow> (int \<times> place \<times> 'd trans_hint) option" where
  "extent40_read_units env place hint =
     (let count = word_of_nat (th_count hint);
          place = (if unit (pl_pos place) = MAX_UINT32 then place_unit place 0 else place);
          key = extent40_fetch_key place;
          read_offset = reiser4_key_get_offset (th_offset hint);
          rel_offset = read_offset - reiser4_key_get_offset key;
          u = unit (pl_pos place)
      in case extent40_read_loop env place u (extent40_units place - u) count read_offset rel_offset key
                (sp_mem (th_specific hint)) 0 (th_data hint) of
           None \<Rightarrow> None
         | Some (Inl (e, buf, data)) \<Rightarrow> Some (e, place, hint\<lparr>th_specific := SP_DATA buf, th_data := data\<rparr>)
         | Some (Inr (rest, buf, data)) \<Rightarrow>
             Some (int (unat (count - rest)), place, hint\<lparr>th_specific := SP_DATA buf, th_data := data\<rparr>))"

section \<open>Writing\<close>

text \<open>Blocks for new data: counted in the tree, allocated and put into the cache.  The number of bytes or an error.\<close>

fun extent40_alloc_loop :: "nat \<Rightarrow> 'd extent_env \<Rightarrow> nat \<Rightarrow> u64 \<Rightarrow> u64 \<Rightarrow> reiser4_key \<Rightarrow> 'd \<Rightarrow> (int \<times> 'd) option" where
  "extent40_alloc_loop 0 env blksize count offset key data = None"
| "extent40_alloc_loop (Suc fuel) env blksize count offset key data =
     (if count = 0 then Some (0, data)
      else
        (let key = reiser4_key_set_offset key offset
         in case ee_alloc env blksize data of
              None \<Rightarrow> Some (- ENOMEM, data)
            | Some block \<Rightarrow>
                (case ee_insert env key block data of
                   None \<Rightarrow> Some (- ENOMEM, data)
                 | Some data \<Rightarrow> extent40_alloc_loop fuel env blksize (count - word_of_nat blksize) (offset + word_of_nat blksize) key data)))"

definition extent40_alloc_block :: "'d extent_env \<Rightarrow> place \<Rightarrow> u64 \<Rightarrow> u64 \<Rightarrow> 'd \<Rightarrow> (int \<times> 'd) option" where
  "extent40_alloc_block env place ins_offset count data =
     (let blksize = place_blksize place; b = word_of_nat blksize :: u64;
          offset = ins_offset - (ins_offset AND word_of_nat (blksize - 1));
          count = (ins_offset + count + b - 1) div b * b - offset;
          key = pl_key place;
          (res, data) = ee_dec_free env (unat (count div b)) data
      in if res \<noteq> 0 then Some (res, data)
         else case extent40_alloc_loop (Suc (unat count)) env blksize count offset key data of
                None \<Rightarrow> None
              | Some (res, data) \<Rightarrow> Some (if res \<noteq> 0 then res else to_s64 count, data))"

definition extent40_load_block :: "'d extent_env \<Rightarrow> place \<Rightarrow> reiser4_key \<Rightarrow> u64 \<Rightarrow> u64 \<Rightarrow> 'd \<Rightarrow> (mem \<times> 'd) option" where
  "extent40_load_block env place key start off data =
     (case ee_lookup env key data of
        Some block \<Rightarrow> Some (block, data)
      | None \<Rightarrow>
          if start = EXTENT_UNALLOC_UNIT then None
          else case ee_load env (place_blksize place) (start + off) data of
            None \<Rightarrow> None
          | Some block \<Rightarrow> map_option (\<lambda>data. (block, data)) (ee_insert env key block data))"

text \<open>
  The loop of the estimate over the units to be overwritten: \<open>count\<close> is a signed number, \<open>len\<close> the bytes needed so
  far; \<open>n\<close> units are left.  Returns the length and the offset reached.
\<close>

fun extent40_prep_loop :: "bool \<Rightarrow> place \<Rightarrow> nat \<Rightarrow> nat \<Rightarrow> nat \<Rightarrow> int \<Rightarrow> u64 \<Rightarrow> u64 \<Rightarrow> int \<Rightarrow> int \<times> u64" where
  "extent40_prep_loop specific place first unit_pos 0 count ins_off uni_off len = (len, ins_off)"
| "extent40_prep_loop specific place first unit_pos (Suc n) count ins_off uni_off len =
     (if count \<le> 0 \<or> len \<noteq> 0 then (len, ins_off)
      else
        (let blksize = word_of_nat (place_blksize place);
             start = et40_get_start place unit_pos;
             unit_size = et40_get_width place unit_pos * blksize;
             left = to_s64 (unit_size - (ins_off - uni_off));
             left = (if left > count then count else left);
             hole = (start = EXTENT_HOLE_UNIT \<and> specific);
             len = (if hole \<and> ins_off \<ge> uni_off + blksize then len + int et_size else len);
             len = (if hole \<and> ins_off + word_of_int left + blksize \<le> uni_off + unit_size then len + int et_size else len)
         in if hole \<and> len \<noteq> 0 \<and> unit_pos \<noteq> first then (0, ins_off)
            else extent40_prep_loop specific place first (unit_pos + 1) n (count - left) (ins_off + word_of_int left)
                   (uni_off + unit_size) len))"

definition extent40_prep_write :: "place \<Rightarrow> 'd trans_hint \<Rightarrow> int \<times> place \<times> 'd trans_hint" where
  "extent40_prep_write place hint =
     (let hint = hint\<lparr>th_len := 0, th_overhead := 0, th_insert_flags := 0\<rparr>;
          unit_pos = unit (pl_pos place);
          units = (if unit (pl_pos place) = MAX_UINT32 then 0 else extent40_units place);
          hint = hint\<lparr>th_maxkey := th_offset hint\<rparr>;
          specific = (th_specific hint \<noteq> SP_NULL)
      in if unit (pl_pos place) = MAX_UINT32 \<or> unit_pos = units then
           (let max_off = reiser4_key_get_offset (th_maxkey hint) + word_of_nat (th_count hint);
                hint = hint\<lparr>th_maxkey := reiser4_key_set_offset (th_maxkey hint) max_off\<rparr>
            in if unit (pl_pos place) \<noteq> MAX_UINT32 then
                 (let start = et40_get_start place (units - 1)
                  in if start = EXTENT_UNALLOC_UNIT \<and> specific \<or> start = EXTENT_HOLE_UNIT \<and> \<not> specific
                     then (0, place, hint\<lparr>th_insert_flags := ET40_JOIN\<rparr>)
                     else (0, place, hint\<lparr>th_len := int et_size\<rparr>))
               else (0, place, hint\<lparr>th_len := int et_size\<rparr>))
         else
           (let key = extent40_fetch_key place;
                uni_off = reiser4_key_get_offset key;
                ins_off = reiser4_key_get_offset (th_offset hint);
                (len, ins_off) = extent40_prep_loop specific place unit_pos unit_pos (units - unit_pos)
                   (to_s64 (word_of_nat (th_count hint))) ins_off uni_off 0
            in (0, place, hint\<lparr>th_len := to_s32 len, th_maxkey := reiser4_key_set_offset (th_maxkey hint) ins_off,
                   th_insert_flags := ET40_OVERWRITE\<rparr>)))"

text \<open>
  The first loop of the write, splitting holes that data goes into.  Its state is the place, the hint and the
  offsets; a negative number of bytes from the allocation is returned as an error.
\<close>

definition extent40_split :: "place \<Rightarrow> nat \<Rightarrow> u64 \<Rightarrow> u64 \<Rightarrow> place" where
  "extent40_split place unit_pos width unit_size =
     (let place = extent40_expand place (unit_pos + 1) 1;
          place = et40_set_width place unit_pos unit_size;
          place = et40_set_width place (unit_pos + 1) (width - unit_size)
      in et40_set_start place (unit_pos + 1) EXTENT_HOLE_UNIT)"

fun extent40_fill_loop ::
  "'d extent_env \<Rightarrow> nat \<Rightarrow> nat \<Rightarrow> int \<Rightarrow> u64 \<Rightarrow> u64 \<Rightarrow> place \<Rightarrow> 'd trans_hint \<Rightarrow> (int \<times> place \<times> 'd trans_hint) option" where
  "extent40_fill_loop env unit_pos 0 count ins_off uni_off place hint = Some (0, place, hint)"
| "extent40_fill_loop env unit_pos (Suc n) count ins_off uni_off place hint =
     (if count \<le> 0 then Some (0, place, hint)
      else
        (let blksize = word_of_nat (place_blksize place) :: u64;
             start = et40_get_start place unit_pos;
             width = word_of_nat (to_u32 (uint (et40_get_width place unit_pos))) :: u64;
             unit_size = word_of_nat (to_u32 (uint width * int (place_blksize place))) :: u64;
             left = to_s64 (unit_size - (ins_off - uni_off));
             left = (if left > count then count else left)
         in if start \<noteq> EXTENT_HOLE_UNIT \<or> th_specific hint = SP_NULL then
              extent40_fill_loop env (unit_pos + 1) n (count - left) (ins_off + word_of_int left) (uni_off + unit_size) place hint
            else
              (let (place, unit_size, left) =
                 (if ins_off \<ge> uni_off + blksize then
                    (extent40_split place unit_pos width ((ins_off - uni_off) div blksize), (ins_off - uni_off) div blksize * blksize, 0)
                  else (place, unit_size, left));
                   (place, unit_size) =
                 (if ins_off + word_of_int left + blksize \<le> uni_off + unit_size then
                    (let unit_size = (ins_off + word_of_int left - uni_off + blksize - 1) div blksize
                     in (extent40_split place unit_pos width unit_size, unit_size * blksize))
                  else (place, unit_size))
               in if left = 0 then
                    extent40_fill_loop env (unit_pos + 1) n (count - left) (ins_off + word_of_int left) (uni_off + unit_size) place hint
                  else
                    (let place = et40_set_start place unit_pos EXTENT_UNALLOC_UNIT
                     in case extent40_alloc_block env place ins_off (word_of_int left) (th_data hint) of
                          None \<Rightarrow> None
                        | Some (bytes, data) \<Rightarrow>
                            (let hint = hint\<lparr>th_data := data\<rparr>
                             in if bytes < 0 then Some (bytes, place, hint)
                                else extent40_fill_loop env (unit_pos + 1) n (count - left) (ins_off + word_of_int left)
                                       (uni_off + unit_size) place
                                       (hint\<lparr>th_bytes := to_u64 (int (th_bytes hint) + bytes)\<rparr>))))))"

text \<open>
  The second loop, writing the data: \<open>e\<close> is the index of the unit, \<open>bpos\<close> the position in the buffer.  A block
  that cannot be had is \<open>-EINVAL\<close>.
\<close>

fun extent40_data_loop ::
  "nat \<Rightarrow> 'd extent_env \<Rightarrow> nat \<Rightarrow> int \<Rightarrow> u64 \<Rightarrow> u64 \<Rightarrow> reiser4_key \<Rightarrow> int \<Rightarrow> place \<Rightarrow> 'd trans_hint \<Rightarrow> (int \<times> 'd trans_hint) option" where
  "extent40_data_loop 0 env e count ins_off uni_off key bpos place hint = None"
| "extent40_data_loop (Suc fuel) env e count ins_off uni_off key bpos place hint =
     (if count \<le> 0 then Some (0, hint)
      else
        (let blksize = place_blksize place; mask = word_of_nat (blksize - 1) :: u64;
             left = int blksize - uint (ins_off AND mask);
             blk_off = ins_off - (ins_off AND mask);
             left = (if left > count then count else left);
             key = reiser4_key_set_offset key blk_off;
             start = et40_get_start place e;
             width = word_of_nat (to_u32 (uint (et40_get_width place e))) :: u64
         in if start = EXTENT_HOLE_UNIT \<and> th_specific hint = SP_NULL then
              extent40_data_loop fuel env e (count - left) (ins_off + word_of_int left) uni_off key bpos place hint
            else
              (let blk = (blk_off - uni_off) div word_of_nat blksize
               in case extent40_load_block env place key start blk (th_data hint) of
                    None \<Rightarrow> Some (- EINVAL, hint)
                  | Some (block, data) \<Rightarrow>
                      (let at = int (unat (ins_off - blk_off));
                           (block, bpos) =
                             (if th_specific hint \<noteq> SP_NULL
                              then (memcpy block at (sp_mem (th_specific hint)) bpos (nat left), bpos + left)
                              else (mwrite block at (replicate (nat left) 0), bpos));
                           hint = hint\<lparr>th_data := ee_update env key block data\<rparr>;
                           (e, uni_off) =
                             (if blk = width then (e + 1, uni_off + word_of_nat (to_u32 (uint width * int blksize))) else (e, uni_off))
                       in extent40_data_loop fuel env e (count - left) (ins_off + word_of_int left) uni_off key bpos place hint))))"

definition extent40_write_units :: "'d extent_env \<Rightarrow> place \<Rightarrow> 'd trans_hint \<Rightarrow> (int \<times> place \<times> 'd trans_hint) option" where
  "extent40_write_units env place hint =
     (let place = (if unit (pl_pos place) = MAX_UINT32 then place_unit place 0 else place);
          hint = hint\<lparr>th_bytes := 0\<rparr>;
          buff = (th_specific hint \<noteq> SP_NULL);
          unit_pos = unit (pl_pos place);
          units = extent40_units place;
          blksize = place_blksize place;
          ins_off = reiser4_key_get_offset (th_offset hint);
          max_off = reiser4_key_get_offset (th_maxkey hint);
          total = max_off - ins_off;
          count = to_s64 total;
          first =
            (if th_flag hint ET40_OVERWRITE then
               extent40_fill_loop env unit_pos (units - unit_pos) count ins_off (extent40_offset place unit_pos) place hint
             else
               (let width = to_u32 (uint (max_off - ins_off));
                    width = to_u32 (int (to_u32 (int width + int blksize - 1) div blksize));
                    (place, unit_pos, allocate) =
                      (if unit_pos \<noteq> 0 \<and> th_flag hint ET40_JOIN then
                         (let place = place_unit place (unit_pos - 1); unit_pos = unit_pos - 1;
                              start = et40_get_start place unit_pos
                          in (et40_inc_width place unit_pos (word_of_nat width), unit_pos, start = EXTENT_UNALLOC_UNIT))
                       else
                         (let place = et40_set_start place unit_pos (if buff then EXTENT_UNALLOC_UNIT else EXTENT_HOLE_UNIT)
                          in (et40_set_width place unit_pos (word_of_nat width), unit_pos, buff)))
                in if allocate then
                     (case extent40_alloc_block env place ins_off (word_of_int count) (th_data hint) of
                        None \<Rightarrow> None
                      | Some (bytes, data) \<Rightarrow>
                          (let hint = hint\<lparr>th_data := data\<rparr>
                           in if bytes < 0 then Some (bytes, place, hint)
                              else Some (0, place, hint\<lparr>th_bytes := to_u64 (int (th_bytes hint) + bytes)\<rparr>)))
                   else Some (0, place, hint)))
      in case first of
           None \<Rightarrow> None
         | Some (res, place, hint) \<Rightarrow>
             if res \<noteq> 0 then Some (res, place, hint)
             else
               (let key = extent40_fetch_key place
                in case extent40_data_loop (Suc (nat count)) env (unit (pl_pos place)) count ins_off
                          (reiser4_key_get_offset key) key 0 place hint of
                     None \<Rightarrow> None
                   | Some (res, hint) \<Rightarrow>
                       if res \<noteq> 0 then Some (res, place, hint)
                       else
                         (let (res, data) = ee_mpressure env (th_data hint); hint = hint\<lparr>th_data := data\<rparr>
                          in if res \<noteq> 0 then Some (res, place, hint)
                             else Some (to_s64 total, place_mkdirty place, hint))))"

section \<open>Moving units between items\<close>

definition extent40_prep_shift :: "place \<Rightarrow> place option \<Rightarrow> shift_hint \<Rightarrow> int \<times> shift_hint" where
  "extent40_prep_shift src_place dst_place hint =
     (let hint = hint\<lparr>sh_units_number := 0\<rparr>;
          check_point = (item (pl_pos src_place) = item (sh_pos hint) \<and> unit (sh_pos hint) \<noteq> MAX_UINT32);
          whole = (\<lambda>hint. if sh_units_bytes hint > pl_len src_place then hint\<lparr>sh_units_bytes := pl_len src_place\<rparr> else hint);
          move = sh_flag (sh_control hint) SF_MOVE_POINT; hold = sh_flag (sh_control hint) SF_HOLD_POS;
          hint =
            (if sh_flag (sh_control hint) SF_ALLOW_LEFT then
               (if sh_flag (sh_control hint) SF_UPDATE_POINT \<and> check_point then
                  (let left = to_u32 (int (unit (sh_pos hint)) * int et_size);
                       left = (if hold \<and> move \<and> extent40_units src_place > unit (sh_pos hint) then to_u32 (int left + int et_size) else left);
                       hint = (if sh_units_bytes hint > left then hint\<lparr>sh_units_bytes := left\<rparr> else hint);
                       units = sh_units_bytes hint div et_size
                   in if unit (sh_pos hint) \<le> units \<and> move then
                        (let u = to_u32 ((case dst_place of Some d \<Rightarrow> int (pl_len d) | None \<Rightarrow> 0) + int (sh_units_bytes hint)) div et_size
                         in hint\<lparr>sh_result := sh_result hint OR SF_MOVE_POINT,
                              sh_pos := (sh_pos hint)\<lparr>unit := (if hold then to_u32 (int u - 1) else u)\<rparr>\<rparr>)
                      else hint\<lparr>sh_pos := (sh_pos hint)\<lparr>unit := to_u32 (int (unit (sh_pos hint)) - int (sh_units_bytes hint div et_size))\<rparr>\<rparr>)
                else whole hint)
             else
               (if sh_flag (sh_control hint) SF_UPDATE_POINT \<and> check_point then
                  (let units = extent40_units src_place
                   in if unit (sh_pos hint) < units then
                        (let units = to_u32 (int (units - unit (sh_pos hint)) * int et_size);
                             right = (if hold \<and> \<not> move then to_u32 (int units - int et_size) else units);
                             hint = (if sh_units_bytes hint > right then hint\<lparr>sh_units_bytes := right\<rparr> else hint)
                         in if move \<and> sh_units_bytes hint = units then
                              hint\<lparr>sh_result := sh_result hint OR SF_MOVE_POINT, sh_pos := (sh_pos hint)\<lparr>unit := 0\<rparr>\<rparr>
                            else hint)
                      else
                        (let hint = (if move then hint\<lparr>sh_result := sh_result hint OR SF_MOVE_POINT, sh_pos := (sh_pos hint)\<lparr>unit := 0\<rparr>\<rparr> else hint)
                         in hint\<lparr>sh_units_bytes := 0\<rparr>))
                else whole hint));
          bytes = sh_units_bytes hint - sh_units_bytes hint mod et_size
      in (0, hint\<lparr>sh_units_bytes := bytes, sh_units_number := bytes div et_size\<rparr>))"

definition extent40_shift_units :: "place \<Rightarrow> place \<Rightarrow> shift_hint \<Rightarrow> int \<times> place \<times> place \<times> shift_hint" where
  "extent40_shift_units src_place dst_place hint =
     (let number = sh_units_number hint
      in if sh_flag (sh_control hint) SF_ALLOW_LEFT then
           (let pos = to_u32 (int (extent40_units dst_place) - int number);
                dst_place = extent40_expand dst_place pos number;
                dst_place = extent40_copy dst_place pos src_place 0 number;
                src_place = src_place\<lparr>pl_key := body40_get_key src_place number (Some extent40_offset)\<rparr>;
                src_place = extent40_shrink src_place 0 number
            in (0, src_place, dst_place, hint))
         else
           (let dst_place = extent40_expand dst_place 0 number;
                pos = to_u32 (int (extent40_units src_place) - int number);
                dst_place = extent40_copy dst_place 0 src_place pos number;
                dst_place = dst_place\<lparr>pl_key := body40_get_key src_place pos (Some extent40_offset)\<rparr>;
                src_place = extent40_shrink src_place pos number
            in (0, src_place, dst_place, hint)))"

section \<open>Checking and joining\<close>

text \<open>
  Joining neighbour units: \<open>n\<close> units are left to look at, \<open>i\<close> is the index.  A unit of width 0 is taken out, a
  hole behind a hole and a region that continues the previous one are joined with it.  The number of units
  to join, and the place when they are joined (\<open>fix\<close>).
\<close>

fun extent40_join_loop :: "bool \<Rightarrow> place \<Rightarrow> nat \<Rightarrow> nat \<Rightarrow> nat \<Rightarrow> nat \<times> place" where
  "extent40_join_loop fixit place i 0 joint = (joint, place)"
| "extent40_join_loop fixit place i (Suc n) joint =
     (let joined = (et40_get_width place i = 0 \<or>
            i \<noteq> 0 \<and>
            (et40_get_start place (i - 1) + et40_get_width place (i - 1) = et40_get_start place i \<or>
             et40_get_start place (i - 1) = 0 \<and> et40_get_start place i = 0))
      in if \<not> joined then extent40_join_loop fixit place (i + 1) n joint
         else if \<not> fixit then extent40_join_loop fixit place (i + 1) n (joint + 1)
         else
           (let place = (if i \<noteq> 0 then et40_set_width place (i - 1) (et40_get_width place (i - 1) + et40_get_width place i) else place);
                place = extent40_shrink place i 1
            in extent40_join_loop fixit place i n (joint + 1)))"

definition extent40_join_units :: "place \<Rightarrow> bool \<Rightarrow> nat \<times> place" where
  "extent40_join_units place fixit = extent40_join_loop fixit place 0 (extent40_units place) 0"

text \<open>The repair hint is given by its mode and its length, the number of bytes to take off the item.\<close>

fun extent40_region_check ::
  "nat \<Rightarrow> (nat \<Rightarrow> nat \<Rightarrow> 'd \<Rightarrow> int \<times> 'd) \<Rightarrow> nat \<Rightarrow> nat \<Rightarrow> int \<Rightarrow> place \<Rightarrow> 'd \<Rightarrow> int \<times> place \<times> 'd" where
  "extent40_region_check mode func i 0 result place data = (result, place, data)"
| "extent40_region_check mode func i (Suc n) result place data =
     (let start = et40_get_start place i; width = et40_get_width place i
      in if start = EXTENT_HOLE_UNIT \<or> start = EXTENT_UNALLOC_UNIT \<or> width = 0 then
           extent40_region_check mode func (i + 1) n result place data
         else
           (let (res, data) = func (unat start) (unat width) data
            in if res < 0 then (res, place, data)
               else if res = 0 then extent40_region_check mode func (i + 1) n result place data
               else if mode \<noteq> RM_CHECK then
                 extent40_region_check mode func (i + 1) n result (place_mkdirty (et40_set_start place i 0)) data
               else extent40_region_check mode func (i + 1) n RE_FIXABLE place data))"

definition extent40_check_layout ::
  "place \<Rightarrow> nat \<Rightarrow> int \<Rightarrow> (nat \<Rightarrow> nat \<Rightarrow> 'd \<Rightarrow> int \<times> 'd) \<Rightarrow> 'd \<Rightarrow> int \<times> place \<times> int \<times> 'd" where
  "extent40_check_layout place mode len func data =
     (let (result, place, data) = extent40_region_check mode func 0 (extent40_units place) 0 place data
      in if result < 0 then (result, place, len, data)
         else if mode \<noteq> RM_CHECK then
           (let (units, place) = extent40_join_units place True in (result, place, len + int (units * et_size), data))
         else (result, place, len, data))"

fun extent40_unalloc_check :: "nat \<Rightarrow> nat \<Rightarrow> nat \<Rightarrow> int \<Rightarrow> place \<Rightarrow> int \<times> place" where
  "extent40_unalloc_check mode i 0 res place = (res, place)"
| "extent40_unalloc_check mode i (Suc n) res place =
     (if et40_get_start place i \<noteq> EXTENT_UNALLOC_UNIT then extent40_unalloc_check mode (i + 1) n res place
      else if mode \<noteq> RM_CHECK then
        extent40_unalloc_check mode (i + 1) n res (place_mkdirty (et40_set_start place i 0))
      else extent40_unalloc_check mode (i + 1) n (res OR RE_FIXABLE) place)"

definition extent40_check_struct :: "place \<Rightarrow> nat \<Rightarrow> int \<Rightarrow> int \<times> place \<times> int" where
  "extent40_check_struct place mode len =
     (if pl_len place mod et_size \<noteq> 0 then (RE_FATAL, place, len)
      else if unat (reiser4_key_get_offset (pl_key place)) mod place_blksize place \<noteq> 0 then (RE_FATAL, place, len)
      else if extent40_units place = 0 then (RE_FATAL, place, len)
      else
        (let (res, place) = extent40_unalloc_check mode 0 (extent40_units place) 0 place
         in if mode \<noteq> RM_CHECK then
              (let (units, place) = extent40_join_units place True in (res, place, len + int (units * et_size)))
            else (res, place, len)))"

section \<open>Inserting units of another item\<close>

definition extent40_head :: "place \<Rightarrow> nat \<Rightarrow> reiser4_key \<Rightarrow> nat" where
  "extent40_head place pos key =
     (let koffset = reiser4_key_get_offset key;
          offset = koffset - reiser4_key_get_offset (pl_key place);
          doffset = extent40_offset place pos
      in to_u32 (uint ((offset - doffset) div word_of_nat (place_blksize place))))"

definition sp_place_of :: "specific \<Rightarrow> place \<Rightarrow> place" where
  "sp_place_of sp dflt = (case sp of SP_PLACE p \<Rightarrow> p | _ \<Rightarrow> dflt)"

definition extent40_prep_insert_raw :: "place \<Rightarrow> 'd trans_hint \<Rightarrow> int \<times> place \<times> 'd trans_hint" where
  "extent40_prep_insert_raw place hint =
     (let src = sp_place_of (th_specific hint) place;
          offset = reiser4_key_get_offset (pl_key place);
          su = unit (pl_pos src); du = unit (pl_pos place);
          send = to_s32 (int su - 1);
          sunits = to_s32 (int (extent40_units src));
          hint = hint\<lparr>th_head := extent40_head src su (th_offset hint), th_tail := 0, th_insert_flags := 0\<rparr>;
          (send, hint) =
            (if du = MAX_UINT32 \<or> du = extent40_units place then (sunits - 1, hint)
             else if reiser4_key_compfull (th_offset hint) (pl_key place) < 0 then
               (let offset = offset - reiser4_key_get_offset (pl_key src);
                    send = extent40_unit src (offset - 1)
                in (int send, hint\<lparr>th_tail := unat (et40_get_width src send - word_of_nat (extent40_head src send (pl_key place)))\<rparr>))
             else if et40_get_start place du = 0 \<and> et40_get_start src su \<noteq> 0 then
               (let hint = hint\<lparr>th_insert_flags := ET40_OVERWRITE\<rparr>;
                    offset = offset + extent40_offset place (du + 1) - reiser4_key_get_offset (pl_key src);
                    send = int (extent40_unit src (offset - 1));
                    (send, hint) =
                      (if send < sunits then
                         (send, hint\<lparr>th_tail := unat ((extent40_offset src (nat send + 1) - offset) div word_of_nat (place_blksize src))\<rparr>)
                       else (sunits - 1, hint\<lparr>th_tail := 0, th_insert_flags := th_insert_flags hint OR ET40_TAIL\<rparr>));
                    hint = (if extent40_head place du (th_offset hint) \<noteq> 0 then hint\<lparr>th_insert_flags := th_insert_flags hint OR ET40_HEAD\<rparr> else hint)
                in (send, hint))
             else (send, hint));
          count = to_u64 (int (to_u32 (send + 1 - int su)));
          len = to_s32 (int count);
          len = (if th_flag hint ET40_OVERWRITE
                 then to_s32 (len + ((if th_flag hint ET40_TAIL then 1 else 0) - (if th_flag hint ET40_HEAD then 0 else 1)))
                 else len)
      in (0, place, hint\<lparr>th_overhead := 0, th_bytes := 0, th_count := count, th_len := to_s32 (len * int et_size)\<rparr>))"

text \<open>Skipping the units with, or without, a start block from \<open>i\<close> on.\<close>

fun extent40_skip :: "place \<Rightarrow> bool \<Rightarrow> nat \<Rightarrow> nat \<Rightarrow> nat" where
  "extent40_skip place used i 0 = i"
| "extent40_skip place used i (Suc n) =
     (if (et40_get_start place i \<noteq> 0) = used then extent40_skip place used (i + 1) n else i)"

text \<open>The hook for the inserted regions gets the low 32 bits of the start.\<close>

fun extent40_inserted_regions :: "(nat \<Rightarrow> nat \<Rightarrow> 'd \<Rightarrow> int \<times> 'd) \<Rightarrow> place \<Rightarrow> nat \<Rightarrow> nat \<Rightarrow> 'd \<Rightarrow> int \<times> 'd" where
  "extent40_inserted_regions region_func place i 0 data = (0, data)"
| "extent40_inserted_regions region_func place i (Suc n) data =
     (let start = to_u32 (uint (et40_get_start place i))
      in if start = 1 \<or> start = 0 then extent40_inserted_regions region_func place (i + 1) n data
         else
           (let (res, data) = region_func start (unat (et40_get_width place i)) data
            in if res \<noteq> 0 then (res, data) else extent40_inserted_regions region_func place (i + 1) n data))"

definition extent40_insert_raw :: "place \<Rightarrow> 'd trans_hint \<Rightarrow> int \<times> place \<times> 'd trans_hint" where
  "extent40_insert_raw place hint =
     (let src = sp_place_of (th_specific hint) place;
          place = (if unit (pl_pos place) = MAX_UINT32 then place_unit place 0 else place);
          u = unit (pl_pos place);
          dstart = u + (if th_flag hint ET40_HEAD then 1 else 0);
          sstart = (if unit (pl_pos src) = MAX_UINT32 then 0 else unit (pl_pos src));
          hint = hint\<lparr>th_maxkey := th_offset hint\<rparr>
      in if th_count hint = 0 then
           (let offset =
              (if et40_get_start place dstart \<noteq> 0 then
                 reiser4_key_get_offset (pl_key place) +
                   extent40_offset place (extent40_skip place True dstart (extent40_units place - dstart))
               else
                 reiser4_key_get_offset (pl_key src) +
                   extent40_offset src (extent40_skip src False sstart (extent40_units src - sstart)))
            in (0, place, hint\<lparr>th_maxkey := reiser4_key_set_offset (th_maxkey hint) offset\<rparr>))
         else
           (let count = int (th_count hint);
                count = (if th_flag hint ET40_OVERWRITE
                         then count + (if th_flag hint ET40_TAIL then 1 else 0) - (if th_flag hint ET40_HEAD then 0 else 1) else count);
                count = to_u32 count;
                offset = reiser4_key_get_offset (pl_key src) + extent40_offset src (sstart + th_count hint) -
                  word_of_nat (th_tail hint) * word_of_nat (place_blksize src);
                hint = hint\<lparr>th_maxkey := reiser4_key_set_offset (th_maxkey hint) offset\<rparr>;
                tail = (if th_flag hint ET40_TAIL then extent40_head place u (th_maxkey hint) else 0);
                head = (if th_flag hint ET40_HEAD then extent40_head place u (th_offset hint) else 0);
                place = extent40_expand place dstart count;
                place =
                  (if th_flag hint ET40_TAIL then
                     (let place = et40_set_start place (u + count) 0;
                          width = et40_get_width place u - word_of_nat tail;
                          place = et40_set_width place (u + count) width
                      in et40_set_width place u (word_of_nat tail))
                   else place);
                place = (if th_flag hint ET40_HEAD then et40_set_width place u (word_of_nat head) else place);
                place = place_put place (memcpy (place_mem place) (et40_at place dstart) (place_mem src) (et40_at src sstart)
                          (th_count hint * et_size));
                place =
                  (if th_head hint \<noteq> 0 then
                     (let start = to_u32 (uint (et40_get_start place dstart));
                          place = (if start \<noteq> 0 then et40_set_start place dstart (word_of_nat start + word_of_nat (th_head hint)) else place)
                      in et40_dec_width place dstart (word_of_nat (th_head hint)))
                   else place);
                last = dstart + (th_count hint - 1);
                place = (if th_tail hint \<noteq> 0 then et40_dec_width place last (word_of_nat (th_tail hint)) else place);
                (res, data) =
                  (case th_region_func hint of
                     None \<Rightarrow> (0, th_data hint)
                   | Some f \<Rightarrow> extent40_inserted_regions f place dstart (th_count hint) (th_data hint));
                hint = hint\<lparr>th_data := data\<rparr>
            in if res \<noteq> 0 then (res, place, hint)
               else
                 (let place = (if reiser4_key_compfull (th_offset hint) (pl_key place) < 0 then place\<lparr>pl_key := th_offset hint\<rparr> else place)
                  in (0, place_mkdirty place, hint))))"

end
