(* ===== verification/ExtentUnits.thy ===== *)
theory ExtentUnits
  imports Extent40
begin

text \<open>
  The units of an extent item as a list of pairs, what the operations do to that list, and the list of blocks it
  stands for.
\<close>

unbundle bit_operations_syntax

section \<open>The list of units\<close>

definition et_unit :: "place \<Rightarrow> nat \<Rightarrow> u64 \<times> u64" where
  "et_unit place i = (et40_get_start place i, et40_get_width place i)"

definition et_list :: "place \<Rightarrow> nat \<Rightarrow> (u64 \<times> u64) list" where
  "et_list place n = map (et_unit place) [0..<n]"

lemma length_et_list [simp]: "length (et_list place n) = n"
  by (simp add: et_list_def)

lemma nth_et_list [simp]: "i < n \<Longrightarrow> et_list place n ! i = et_unit place i"
  by (simp add: et_list_def)

lemma et_at_inj: "et40_at place i + 16 \<le> et40_at place j \<or> et40_at place j + 16 \<le> et40_at place i \<or> i = j"
  by (auto simp: et40_at_def)

lemma place_blksize_simps [simp]:
  "place_blksize (place_put place m) = place_blksize place" "place_blksize (place_mkdirty place) = place_blksize place"
  "place_blksize (place_unit place u) = place_blksize place"
  by (simp_all add: place_put_def place_mkdirty_def node40_mkdirty_def place_unit_def place_blksize_def)

lemma et_at_cong: "pl_body p = pl_body q \<Longrightarrow> et40_at p i = et40_at q i"
  by (simp add: et40_at_def)

lemma et_unit_cong: "place_mem p = place_mem q \<Longrightarrow> pl_body p = pl_body q \<Longrightarrow> et_unit p i = et_unit q i"
  by (simp add: et_unit_def et40_get_start_def et40_get_width_def et_at_cong [of p q])

lemma et_unit_memmove:
  "et_unit (place_put place (memmove (place_mem place) (et40_at place d) (et40_at place s) (16 * k))) i =
    (if d \<le> i \<and> i < d + k then et_unit place (i - d + s) else et_unit place i)"
proof (cases "d \<le> i \<and> i < d + k")
  case True
  have "et40_at place i - et40_at place d + et40_at place s = et40_at place (i - d + s)"
    using True by (simp add: et40_at_def of_nat_diff)
  moreover have "et40_at place d \<le> et40_at place i" "et40_at place i + 16 \<le> et40_at place d + int (16 * k)"
    using True by (simp_all add: et40_at_def)
  ultimately show ?thesis
    using True by (simp add: et_unit_def et40_get_start_def et40_get_width_def et40_at_def mem_simps algebra_simps)
next
  case False
  then have "i < d \<or> d + k \<le> i" by linarith
  then have "et40_at place i + 16 \<le> et40_at place d \<or> et40_at place d + int (16 * k) \<le> et40_at place i"
    by (auto simp: et40_at_def)
  then show ?thesis
    using False by (auto simp: et_unit_def et40_get_start_def et40_get_width_def et40_at_def mem_simps)
qed

lemma u64_nat_uint: "word_of_nat (nat (uint (v :: u64) mod 18446744073709551616)) = v"
proof -
  have "uint v mod 18446744073709551616 = uint v" using uint_lt2p [of v] by (intro mod_pos_pos_trivial) simp_all
  then show ?thesis by (simp flip: unat_eq_nat_uint)
qed

lemma et_unit_set [simp]:
  "et_unit (et40_set_start place i v) j = (if j = i then (v, et40_get_width place i) else et_unit place j)"
  "et_unit (et40_set_width place i v) j = (if j = i then (et40_get_start place i, v) else et_unit place j)"
  using et_at_inj [of place i j]
  by (auto simp: et_unit_def et40_get_start_def et40_get_width_def et40_set_start_def et40_set_width_def et40_at_def mem_simps u64_nat_uint)

lemma et_set_simps [simp]:
  "pl_body (et40_set_start place i v) = pl_body place" "pl_len (et40_set_start place i v) = pl_len place"
  "pl_key (et40_set_start place i v) = pl_key place" "pl_pos (et40_set_start place i v) = pl_pos place"
  "pl_body (et40_set_width place i v) = pl_body place" "pl_len (et40_set_width place i v) = pl_len place"
  "pl_key (et40_set_width place i v) = pl_key place" "pl_pos (et40_set_width place i v) = pl_pos place"
  "place_blksize (et40_set_width place i v) = place_blksize place" "place_blksize (et40_set_start place i v) = place_blksize place"
  "et40_get_start (et40_set_width place i v) j = et40_get_start place j"
  "et40_get_width (et40_set_start place i v) j = et40_get_width place j"
  "et40_get_start (et40_set_start place i v) j = (if j = i then v else et40_get_start place j)"
  "et40_get_width (et40_set_width place i v) j = (if j = i then v else et40_get_width place j)"
proof -
  show "et40_get_start (et40_set_start place i v) j = (if j = i then v else et40_get_start place j)"
    using et_unit_set(1) [of place i v j] by (simp add: et_unit_def split: if_splits)
  show "et40_get_width (et40_set_width place i v) j = (if j = i then v else et40_get_width place j)"
    using et_unit_set(2) [of place i v j] by (simp add: et_unit_def split: if_splits)
  show "et40_get_start (et40_set_width place i v) j = et40_get_start place j"
    using et_unit_set(2) [of place i v j] by (simp add: et_unit_def split: if_splits)
  show "et40_get_width (et40_set_start place i v) j = et40_get_width place j"
    using et_unit_set(1) [of place i v j] by (simp add: et_unit_def split: if_splits)
qed (simp_all add: et40_set_start_def et40_set_width_def)

lemma units_small: "pl_len place < 4294967296 \<Longrightarrow> extent40_units place * 16 < 4294967296"
  using div_times_less_eq_dividend [of "pl_len place" 16] by (simp add: extent40_units_def)

lemma et_unit_expand:
  assumes "pl_len place < 4294967296" "p + c \<le> extent40_units place"
  shows "et_unit (extent40_expand place p c) i =
    (if p + c \<le> i \<and> i < extent40_units place then et_unit place (i - c) else et_unit place i)"
proof (cases "p < extent40_units place")
  case True
  let ?u = "extent40_units place"
  have w: "to_u32 (int ?u * 16 - int p * 16 - int c * 16) = 16 * (?u - p - c)" "to_u32 (int c * 16) = 16 * c"
    using to_u32_nat [of "16 * (?u - p - c)"] to_u32_nat [of "16 * c"] units_small [OF assms(1)] assms(2)
    by (simp_all add: of_nat_diff algebra_simps)
  have a: "et40_at place p + 16 * int c = et40_at place (p + c)" by (simp add: et40_at_def)
  have "et_unit (extent40_expand place p c) i =
      et_unit (place_put place (memmove (place_mem place) (et40_at place (p + c)) (et40_at place p) (16 * (?u - p - c)))) i"
    using True by (simp add: extent40_expand_def left_diff_distrib w a) (rule et_unit_cong; simp)
  then show ?thesis using assms(2) unfolding et_unit_memmove by (auto intro!: arg_cong [where f = "et_unit place"])
qed (use assms(2) in \<open>auto simp: extent40_expand_def\<close>)

lemma et_unit_shrink:
  assumes "pl_len place < 4294967296" "p < extent40_units place" "c < 268435456"
  shows "et_unit (extent40_shrink place p c) i =
    (if p \<le> i \<and> i < extent40_units place then et_unit place (i + c) else et_unit place i)"
proof -
  let ?u = "extent40_units place"
  have w: "to_u32 (int ?u * 16 - int p * 16) = 16 * (?u - p)" "to_u32 (int c * 16) = 16 * c"
    using to_u32_nat [of "16 * (?u - p)"] to_u32_nat [of "16 * c"] units_small [OF assms(1)] assms(2,3)
    by (simp_all add: of_nat_diff algebra_simps)
  have a: "et40_at place p + 16 * int c = et40_at place (p + c)" by (simp add: et40_at_def)
  have "et_unit (extent40_shrink place p c) i =
      et_unit (place_put place (memmove (place_mem place) (et40_at place p) (et40_at place (p + c)) (16 * (?u - p)))) i"
    using assms(2) by (simp add: extent40_shrink_def left_diff_distrib w a) (rule et_unit_cong; simp)
  then show ?thesis unfolding et_unit_memmove by (auto intro!: arg_cong [where f = "et_unit place"])
qed

lemma move_simps [simp]:
  "pl_len (extent40_expand place p c) = pl_len place" "pl_body (extent40_expand place p c) = pl_body place"
  "pl_key (extent40_expand place p c) = pl_key place" "pl_pos (extent40_expand place p c) = pl_pos place"
  "pl_len (extent40_shrink place p c) = pl_len place" "pl_body (extent40_shrink place p c) = pl_body place"
  "pl_key (extent40_shrink place p c) = pl_key place" "pl_pos (extent40_shrink place p c) = pl_pos place"
  "place_blksize (extent40_expand place p c) = place_blksize place" "place_blksize (extent40_shrink place p c) = place_blksize place"
  by (simp_all add: extent40_expand_def extent40_shrink_def)

lemma units_simps [simp]:
  "extent40_units (place_put place m) = extent40_units place" "extent40_units (place_mkdirty place) = extent40_units place"
  "extent40_units (et40_set_start place i v) = extent40_units place" "extent40_units (et40_set_width place i v) = extent40_units place"
  "extent40_units (extent40_expand place p c) = extent40_units place" "extent40_units (extent40_shrink place p c) = extent40_units place"
  "extent40_units (place_unit place u) = extent40_units place"
  by (simp_all add: extent40_units_def)

section \<open>Inserting and removing\<close>

definition ptr_unit :: "ptr_hint \<Rightarrow> u64 \<times> u64" where
  "ptr_unit p = (word_of_nat (ptr_start p), word_of_nat (ptr_width p))"

lemma et_unit_store:
  "et_unit (extent40_store place i ps) j = (if i \<le> j \<and> j < i + length ps then ptr_unit (ps ! (j - i)) else et_unit place j)"
proof (induction ps arbitrary: place i j)
  case (Cons p ps)
  let ?q = "et40_set_width (et40_set_start place i (word_of_nat (ptr_start p))) i (word_of_nat (ptr_width p))"
  have q: "et_unit ?q i = ptr_unit p" "j \<noteq> i \<Longrightarrow> et_unit ?q j = et_unit place j"
    by (simp_all add: ptr_unit_def et_unit_def)
  consider "j < i" | "j = i" | k where "j = Suc (i + k)" using less_iff_Suc_add [of i j] by fastforce
  then show ?case
    using q by cases (simp_all add: Cons.IH)
qed auto

definition ptrs_ok :: "'d trans_hint \<Rightarrow> ptr_hint list \<Rightarrow> bool" where
  "ptrs_ok hint ps \<longleftrightarrow> th_specific hint = SP_PTRS ps \<and> length ps = th_count hint \<and> th_count hint < 268435456"

text \<open>The place of an insertion: its unit, or 0 for a new item.\<close>

definition at_unit :: "place \<Rightarrow> nat" where
  "at_unit place = (if unit (pl_pos place) = MAX_UINT32 then 0 else unit (pl_pos place))"

lemma store_simps [simp]:
  "pl_len (extent40_store place i ps) = pl_len place" "pl_body (extent40_store place i ps) = pl_body place"
  "pl_key (extent40_store place i ps) = pl_key place" "pl_pos (extent40_store place i ps) = pl_pos place"
  "place_blksize (extent40_store place i ps) = place_blksize place"
  by (induction ps arbitrary: place i) simp_all

lemma insert_units_list:
  assumes "pl_len place < 4294967296" "ptrs_ok hint ps" "n + length ps = extent40_units place" "at_unit place \<le> n"
  defines "p \<equiv> at_unit place"
  shows "\<exists>place'. extent40_insert_units place hint = (int (length ps), place', hint) \<and>
    et_list place' (n + length ps) = take p (et_list place n) @ map ptr_unit ps @ drop p (et_list place n) \<and>
    pl_key place' = pl_key place \<and> pl_len place' = pl_len place"
proof -
  let ?c = "length ps"
  let ?pl = "if unit (pl_pos place) = MAX_UINT32 then place_unit place 0 else place"
  let ?q = "extent40_store (extent40_expand ?pl p ?c) p ps"
  have pl: "unit (pl_pos ?pl) = p" "pl_len ?pl = pl_len place" "et_unit ?pl i = et_unit place i" "pl_key ?pl = pl_key place"
    "extent40_units ?pl = extent40_units place" for i
    by (auto simp: p_def at_unit_def intro: et_unit_cong)
  have c: "th_count hint = ?c" "?c < 268435456" "to_u32 (int ?c) = ?c" "sp_ptrs (th_specific hint) = ps"
    using assms(2) by (auto simp: ptrs_ok_def to_u32_nat sp_ptrs_def)
  have p: "p \<noteq> MAX_UINT32" using assms(3,4) units_small [OF assms(1)] by (auto simp: p_def)
  have run: "extent40_insert_units place hint = (int ?c, place_mkdirty ?q, hint)"
    using pl(1) p by (simp add: extent40_insert_units_def extent40_update_units_def c Let_def)
  have "et_unit ?q i = (take p (et_list place n) @ map ptr_unit ps @ drop p (et_list place n)) ! i" if "i < n + ?c" for i
  proof -
    have "et_unit ?q i = (if p \<le> i \<and> i < p + ?c then ptr_unit (ps ! (i - p))
        else if p + ?c \<le> i then et_unit place (i - ?c) else et_unit place i)"
      using that assms(3,4) et_unit_expand [of ?pl p ?c i] pl(2,3,5) assms(1) by (auto simp: et_unit_store p_def)
    then show ?thesis using that assms(4) by (auto simp: nth_append p_def [symmetric] min_def algebra_simps)
  qed
  then have "et_list (place_mkdirty ?q) (n + ?c) = take p (et_list place n) @ map ptr_unit ps @ drop p (et_list place n)"
    using assms(4) et_unit_cong [of "place_mkdirty ?q" ?q] by (intro nth_equalityI) (auto simp: p_def)
  then show ?thesis using run pl(2,4) by auto
qed

lemma remove_units_list:
  assumes "pl_len place < 2147483648" "at_unit place + th_count hint \<le> extent40_units place" "unit (pl_pos place) \<noteq> MAX_UINT32"
    and "th_region_func hint = None" "pl_len place mod 16 = 0"
  defines "p \<equiv> at_unit place" and "c \<equiv> th_count hint" and "n \<equiv> extent40_units place"
  shows "\<exists>place' hint'. extent40_remove_units env place hint = (0, place', hint') \<and>
    et_list place' (n - c) = take p (et_list place n) @ drop (p + c) (et_list place n) \<and> th_len hint' = int (16 * c) \<and>
    pl_len place' = pl_len place"
proof -
  have small: "n * 16 = pl_len place" using assms(5) by (simp add: n_def extent40_units_def) presburger
  have u: "unit (pl_pos place) = p" using assms(3) by (simp add: p_def at_unit_def)
  have len: "to_u32 (int (pl_len place) - (int p + int c) * 16) = 16 * (n - (p + c))"
    using assms(1,2) small to_u32_nat [of "16 * (n - (p + c))"]
    by (simp add: p_def c_def n_def of_nat_diff algebra_simps flip: small)
  define q where "q = place_put place (memmove (place_mem place) (et40_at place p) (et40_at place (p + c)) (16 * (n - (p + c))))"
  define r where "r = (if p = 0 then q\<lparr>pl_key := extent40_fetch_key q\<rparr> else q)"
  have run: "extent40_remove_units env place hint =
      (0, place_mkdirty r, hint\<lparr>th_overhead := 0, th_len := to_s32 (16 * int c)\<rparr>)"
    unfolding extent40_remove_units_def Let_def u if_not_P [OF assms(3) [unfolded u]] assms(4) option.case prod.case simp_thms if_False
      c_def [symmetric] len
    by (simp only: q_def r_def len of_nat_mult of_nat_numeral if_True simp_thms)
  have unit_r: "et_unit (place_mkdirty r) i = et_unit q i" for i
    by (rule et_unit_cong) (simp_all add: r_def place_mem_def place_mkdirty_def node40_mkdirty_def)
  have "et_list (place_mkdirty r) (n - c) = take p (et_list place n) @ drop (p + c) (et_list place n)"
    using assms(2) unfolding p_def [symmetric] c_def [symmetric] n_def [symmetric]
    by (intro nth_equalityI) (auto simp: unit_r q_def et_unit_memmove nth_append intro!: arg_cong [where f = "et_unit place"])
  moreover have "to_s32 (16 * int c) = int (16 * c)"
    using assms(1,2) small by (simp add: c_def n_def to_s32_id)
  ultimately show ?thesis using run by (auto simp: r_def q_def)
qed

section \<open>Shifting\<close>

lemma et_unit_copy:
  assumes "c < 268435456"
  shows "et_unit (extent40_copy dst dp src sp c) i =
    (if dp \<le> i \<and> i < dp + c then et_unit src (i - dp + sp) else et_unit dst i)"
proof (cases "c = 0")
  case False
  have w: "to_u32 (int c * 16) = 16 * c" using to_u32_nat [of "16 * c"] assms by (simp add: algebra_simps)
  let ?q = "place_put dst (memcpy (place_mem dst) (et40_at dst dp) (place_mem src) (et40_at src sp) (16 * c))"
  have "et_unit (extent40_copy dst dp src sp c) i = et_unit ?q i"
    using False by (simp add: extent40_copy_def w) (rule et_unit_cong; simp)
  also have "\<dots> = (if dp \<le> i \<and> i < dp + c then et_unit src (i - dp + sp) else et_unit dst i)"
  proof (cases "dp \<le> i \<and> i < dp + c")
    case True
    have "et40_at dst i - et40_at dst dp + et40_at src sp = et40_at src (i - dp + sp)"
      using True by (simp add: et40_at_def of_nat_diff)
    moreover have "et40_at dst dp \<le> et40_at dst i" "et40_at dst i + 16 \<le> et40_at dst dp + int (16 * c)"
      using True by (simp_all add: et40_at_def)
    ultimately show ?thesis
      using True by (simp add: et_unit_def et40_get_start_def et40_get_width_def et40_at_def mem_simps algebra_simps)
  next
    case False
    then have "i < dp \<or> dp + c \<le> i" by linarith
    then have "et40_at dst i + 16 \<le> et40_at dst dp \<or> et40_at dst dp + int (16 * c) \<le> et40_at dst i"
      by (auto simp: et40_at_def)
    then show ?thesis
      using False by (auto simp: et_unit_def et40_get_start_def et40_get_width_def et40_at_def mem_simps)
  qed
  finally show ?thesis .
qed (auto simp: extent40_copy_def)

lemma copy_simps [simp]:
  "pl_len (extent40_copy dst dp src sp c) = pl_len dst" "pl_key (extent40_copy dst dp src sp c) = pl_key dst"
  "pl_pos (extent40_copy dst dp src sp c) = pl_pos dst" "pl_body (extent40_copy dst dp src sp c) = pl_body dst"
  by (simp_all add: extent40_copy_def)

lemma et_unit_key [simp]: "et_unit (place\<lparr>pl_key := k\<rparr>) i = et_unit place i"
  by (rule et_unit_cong) (simp_all add: place_mem_def)

lemma units_key [simp]: "extent40_units (place\<lparr>pl_key := k\<rparr>) = extent40_units place"
  by (simp add: extent40_units_def)

lemma shift_left_list:
  assumes "pl_len src < 4294967296" "pl_len dst < 4294967296" "sh_units_number hint = k"
    and "k \<le> extent40_units src" "dn + k = extent40_units dst" "sh_flag (sh_control hint) SF_ALLOW_LEFT"
  defines "n \<equiv> extent40_units src"
  shows "\<exists>src' dst'. extent40_shift_units src dst hint = (0, src', dst', hint) \<and>
    et_list dst' (dn + k) = et_list dst dn @ take k (et_list src n) \<and> et_list src' (n - k) = drop k (et_list src n) \<and>
    pl_key dst' = pl_key dst \<and>
    pl_key src' = reiser4_key_set_offset (pl_key src) (reiser4_key_get_offset (pl_key src) + extent40_offset src k)"
proof -
  have k: "k < 268435456" "dn < 268435456" using units_small [OF assms(1)] units_small [OF assms(2)] assms(4,5) by linarith+
  have pos: "to_u32 (int (extent40_units dst) - int k) = dn"
    using to_u32_diff [of k "extent40_units dst"] assms(5) units_small [OF assms(2)] by simp
  let ?d = "extent40_copy (extent40_expand dst dn k) dn src 0 k"
  let ?s = "src\<lparr>pl_key := body40_get_key src k (Some extent40_offset)\<rparr>"
  have run: "extent40_shift_units src dst hint = (0, extent40_shrink ?s 0 k, ?d, hint)"
    using assms(3,6) by (simp add: extent40_shift_units_def Let_def pos)
  have "et_list ?d (dn + k) = et_list dst dn @ take k (et_list src n)"
    using assms(4,5) k(1) et_unit_expand [OF assms(2), of dn k]
    by (intro nth_equalityI) (auto simp: et_unit_copy nth_append n_def)
  moreover have "et_list (extent40_shrink ?s 0 k) (n - k) = drop k (et_list src n)"
  proof (cases "n = 0")
    case False
    then show ?thesis
      using assms(1,4) k(1) et_unit_shrink [of ?s 0 k]
      by (intro nth_equalityI) (auto simp: n_def add.commute)
  qed (simp add: et_list_def)
  ultimately show ?thesis using run by (auto simp: body40_get_key_def Let_def)
qed

lemma shift_right_list:
  assumes "pl_len src < 4294967296" "pl_len dst < 4294967296" "sh_units_number hint = k"
    and "k \<le> extent40_units src" "dn + k = extent40_units dst" "\<not> sh_flag (sh_control hint) SF_ALLOW_LEFT"
  defines "n \<equiv> extent40_units src"
  shows "\<exists>src' dst'. extent40_shift_units src dst hint = (0, src', dst', hint) \<and>
    et_list dst' (dn + k) = drop (n - k) (et_list src n) @ et_list dst dn \<and> et_list src' (n - k) = take (n - k) (et_list src n) \<and>
    pl_key src' = pl_key src \<and>
    pl_key dst' = reiser4_key_set_offset (pl_key src) (reiser4_key_get_offset (pl_key src) + extent40_offset src (n - k))"
proof -
  have k: "k < 268435456" "n < 268435456" using units_small [OF assms(1)] assms(4) unfolding n_def by linarith+
  have pos: "to_u32 (int (extent40_units src) - int k) = n - k"
    using to_u32_diff [of k "extent40_units src"] assms(4) units_small [OF assms(1)] by (simp add: n_def)
  let ?d = "extent40_copy (extent40_expand dst 0 k) 0 src (n - k) k"
  let ?d' = "?d\<lparr>pl_key := body40_get_key src (n - k) (Some extent40_offset)\<rparr>"
  have run: "extent40_shift_units src dst hint = (0, extent40_shrink src (n - k) k, ?d', hint)"
    using assms(3,6) by (simp add: extent40_shift_units_def Let_def pos)
  have "et_list ?d' (dn + k) = drop (n - k) (et_list src n) @ et_list dst dn"
    using assms(4,5) k(1) et_unit_expand [OF assms(2), of 0 k]
    by (intro nth_equalityI) (auto simp: et_unit_copy nth_append n_def add.commute)
  moreover have "et_list (extent40_shrink src (n - k) k) (n - k) = take (n - k) (et_list src n)"
  proof (cases "k = 0")
    case False
    then show ?thesis
      using assms(1,4) k(1) et_unit_shrink [of src "n - k" k]
      by (intro nth_equalityI) (auto simp: n_def)
  next
    case True
    then show ?thesis by (simp add: extent40_shrink_def n_def)
  qed
  ultimately show ?thesis using run by (auto simp: body40_get_key_def Let_def)
qed

section \<open>The blocks of a list of units\<close>

text \<open>A block of the file is a hole, not yet allocated, or a block of the device.\<close>

datatype region_block = RB_HOLE | RB_UNALLOC | RB_BLOCK nat

definition unit_blocks :: "u64 \<times> u64 \<Rightarrow> region_block list" where
  "unit_blocks u = (case u of (start, width) \<Rightarrow>
     if start = 0 then replicate (unat width) RB_HOLE
     else if start = 1 then replicate (unat width) RB_UNALLOC
     else map (\<lambda>i. RB_BLOCK (unat start + i)) [0..<unat width])"

definition region_map :: "(u64 \<times> u64) list \<Rightarrow> region_block list" where
  "region_map us = concat (map unit_blocks us)"

definition et_total :: "(u64 \<times> u64) list \<Rightarrow> nat" where
  "et_total us = (\<Sum>u\<leftarrow>us. unat (snd u))"

lemma region_map_append: "region_map (us @ vs) = region_map us @ region_map vs"
  by (simp add: region_map_def)

lemma region_map_Cons: "region_map (u # vs) = unit_blocks u @ region_map vs"
  by (simp add: region_map_def)

lemma length_region_map: "length (region_map us) = et_total us"
  by (induction us) (auto simp: region_map_def et_total_def unit_blocks_def)

definition units_join :: "u64 \<times> u64 \<Rightarrow> u64 \<times> u64 \<Rightarrow> bool" where
  "units_join u v \<longleftrightarrow> snd v = 0 \<or> fst u + snd u = fst v \<or> fst u = 0 \<and> fst v = 0"

fun units_normal :: "(u64 \<times> u64) list \<Rightarrow> bool" where
  "units_normal [] \<longleftrightarrow> True"
| "units_normal [u] \<longleftrightarrow> snd u \<noteq> 0"
| "units_normal (u # v # us) \<longleftrightarrow> snd u \<noteq> 0 \<and> \<not> units_join u v \<and> units_normal (v # us)"

lemma units_normal_snoc:
  "units_normal (us @ [u]) \<longleftrightarrow> units_normal us \<and> snd u \<noteq> 0 \<and> (us \<noteq> [] \<longrightarrow> \<not> units_join (last us) u)"
  by (induction us rule: units_normal.induct) (auto simp: units_join_def)

lemma et_total_simps [simp]: "et_total (us @ vs) = et_total us + et_total vs" "et_total (u # vs) = unat (snd u) + et_total vs" "et_total [] = 0"
  by (simp_all add: et_total_def)

text \<open>The joining as a function of the list of units: empty units go away, a unit that can be joined widens the one in front.\<close>

fun join_run :: "u64 \<times> u64 \<Rightarrow> (u64 \<times> u64) list \<Rightarrow> (u64 \<times> u64) list" where
  "join_run u [] = [u]"
| "join_run u (v # vs) = (if units_join u v then join_run (fst u, snd u + snd v) vs else u # join_run v vs)"

fun units_joined :: "(u64 \<times> u64) list \<Rightarrow> (u64 \<times> u64) list" where
  "units_joined [] = []"
| "units_joined (u # us) = (if snd u = 0 then units_joined us else join_run u us)"

text \<open>
  A unit really goes on with the next one if that is empty, if both are holes, or if the next one begins at the block of
  the device behind it.  The joins of a list are sound if this holds for each of them.
\<close>

definition goes_on :: "u64 \<times> u64 \<Rightarrow> u64 \<times> u64 \<Rightarrow> bool" where
  "goes_on u v \<longleftrightarrow> snd v = 0 \<or> fst u = 0 \<and> fst v = 0 \<or> 1 < fst u \<and> unat (fst u) + unat (snd u) = unat (fst v)"

fun run_sound :: "u64 \<times> u64 \<Rightarrow> (u64 \<times> u64) list \<Rightarrow> bool" where
  "run_sound u [] \<longleftrightarrow> True"
| "run_sound u (v # vs) \<longleftrightarrow>
     (if units_join u v then goes_on u v \<and> run_sound (fst u, snd u + snd v) vs else run_sound v vs)"

fun joins_sound :: "(u64 \<times> u64) list \<Rightarrow> bool" where
  "joins_sound [] \<longleftrightarrow> True"
| "joins_sound (u # us) \<longleftrightarrow> (if snd u = 0 then joins_sound us else run_sound u us)"

definition block_at :: "u64 \<Rightarrow> nat \<Rightarrow> region_block" where
  "block_at start i = (if start = 0 then RB_HOLE else if start = 1 then RB_UNALLOC else RB_BLOCK (unat start + i))"

lemma unit_blocks_at: "unit_blocks u = map (block_at (fst u)) [0..<unat (snd u)]"
  by (intro nth_equalityI) (auto simp: unit_blocks_def block_at_def case_prod_beta)

lemma unat_widths:
  fixes a b :: u64
  assumes "unat a + unat b < 2 ^ 64"
  shows "unat (a + b) = unat a + unat b" "a \<noteq> 0 \<Longrightarrow> a + b \<noteq> 0"
proof -
  show s: "unat (a + b) = unat a + unat b" using assms by (simp add: unat_add_lem [THEN iffD1])
  show "a + b \<noteq> 0" if "a \<noteq> 0"
  proof
    assume "a + b = 0"
    then have "unat a + unat b = 0" using s by simp
    then show False using that by (simp add: unat_eq_zero)
  qed
qed

lemma widened_blocks:
  assumes "unat (snd u) + unat (snd v) < 2 ^ 64"
  shows "unit_blocks (fst u, snd u + snd v) =
    unit_blocks u @ map (\<lambda>i. block_at (fst u) (unat (snd u) + i)) [0..<unat (snd v)]"
  using unat_widths(1) [OF assms] unfolding unit_blocks_at by (intro nth_equalityI) (auto simp: nth_append)

text \<open>A join is sound exactly when the block behind the first unit is the first one of the second.\<close>

lemma goes_on_block:
  assumes "units_join u v" "snd u \<noteq> 0" "snd v \<noteq> 0"
  shows "goes_on u v \<longleftrightarrow> block_at (fst u) (unat (snd u)) = block_at (fst v) 0"
proof -
  have j: "fst u + snd u = fst v \<or> fst u = 0 \<and> fst v = 0" using assms(1,3) by (simp add: units_join_def)
  have one: "1 < x \<longleftrightarrow> x \<noteq> 0 \<and> x \<noteq> 1" for x :: u64
    using word_less_nat_alt [of 1 x] unat_eq_zero [of x] word_unat_eq_iff [of x 1] by auto
  have big: "unat (fst u) + unat (snd u) = unat (fst v) \<Longrightarrow> 1 < fst u \<Longrightarrow> 1 < fst v"
    by (simp add: word_less_nat_alt)
  have "fst u = 1 \<Longrightarrow> fst v \<noteq> 1" using j assms(2) by auto
  then show ?thesis
    using assms(3) big unfolding goes_on_def block_at_def one by (auto simp: unat_gt_0)
qed

lemma sound_blocks:
  assumes "unat (snd u) + unat (snd v) < 2 ^ 64" "goes_on u v"
  shows "unit_blocks (fst u, snd u + snd v) = unit_blocks u @ unit_blocks v"
proof -
  have "block_at (fst u) (unat (snd u) + i) = block_at (fst v) i" if "i < unat (snd v)" for i
  proof -
    have "snd v \<noteq> 0" using that by auto
    then consider "fst u = 0" "fst v = 0" | "1 < fst u" "unat (fst u) + unat (snd u) = unat (fst v)"
      using assms(2) unfolding goes_on_def by blast
    then show ?thesis
    proof cases
      case 2
      then have "1 < unat (fst u)" "1 < unat (fst v)" by (simp_all add: word_less_nat_alt)
      then have "fst u \<noteq> 0" "fst u \<noteq> 1" "fst v \<noteq> 0" "fst v \<noteq> 1" by auto
      then show ?thesis using 2(2) by (simp add: block_at_def)
    qed (simp add: block_at_def)
  qed
  then show ?thesis unfolding widened_blocks [OF assms(1)] unit_blocks_at [of v] by simp
qed

lemma join_run_prefix:
  assumes "unat (snd u) + et_total vs < 2 ^ 64"
  shows "\<exists>xs. region_map (join_run u vs) = unit_blocks u @ xs"
  using assms
proof (induction vs arbitrary: u)
  case (Cons v vs)
  have w: "unat (snd u) + unat (snd v) < 2 ^ 64" using Cons.prems by simp
  show ?case
  proof (cases "units_join u v")
    case True
    obtain xs where "region_map (join_run (fst u, snd u + snd v) vs) = unit_blocks (fst u, snd u + snd v) @ xs"
      using Cons.IH [of "(fst u, snd u + snd v)"] Cons.prems unat_widths(1) [OF w] by auto
    then show ?thesis using True widened_blocks [OF w] by simp
  qed (simp add: region_map_Cons)
qed (simp add: region_map_def)

lemma join_run_map:
  assumes "unat (snd u) + et_total vs < 2 ^ 64" "snd u \<noteq> 0"
  shows "region_map (join_run u vs) = unit_blocks u @ region_map vs \<longleftrightarrow> run_sound u vs"
  using assms
proof (induction vs arbitrary: u)
  case Nil
  then show ?case by (simp add: region_map_def)
next
  case (Cons v vs)
  have w: "unat (snd u) + unat (snd v) < 2 ^ 64" using Cons.prems by simp
  let ?u = "(fst u, snd u + snd v)"
  note wide = unat_widths(1) [OF w] unat_widths(2) [OF w Cons.prems(2)]
  show ?case
  proof (cases "units_join u v")
    case False
    then have "snd v \<noteq> 0" by (simp add: units_join_def)
    then show ?thesis using Cons.IH [of v] Cons.prems False by (simp add: region_map_Cons)
  next
    case join: True
    show ?thesis
    proof (cases "goes_on u v")
      case True
      then show ?thesis
        using Cons.IH [of ?u] Cons.prems wide join sound_blocks [OF w True] by (simp add: region_map_Cons)
    next
      case False
      then have v: "snd v \<noteq> 0" by (simp add: goes_on_def)
      have l: "unat (snd u) < unat (snd ?u)" "0 < unat (snd v)" using v wide by (simp_all add: unat_gt_0)
      obtain xs where xs: "region_map (join_run ?u vs) = unit_blocks ?u @ xs"
        using join_run_prefix [of ?u vs] Cons.prems wide by auto
      have "(unit_blocks ?u @ xs) ! unat (snd u) = block_at (fst u) (unat (snd u))"
        using l(1) by (simp add: unit_blocks_at nth_append)
      moreover have "(unit_blocks u @ unit_blocks v @ region_map vs) ! unat (snd u) = block_at (fst v) 0"
        using l(2) by (simp add: unit_blocks_at nth_append)
      moreover have "block_at (fst u) (unat (snd u)) \<noteq> block_at (fst v) 0"
        using goes_on_block [OF join Cons.prems(2) v] False by blast
      ultimately have "unit_blocks ?u @ xs \<noteq> unit_blocks u @ unit_blocks v @ region_map vs" by metis
      then show ?thesis using join False xs by (simp add: region_map_Cons)
    qed
  qed
qed

lemma join_run_normal:
  assumes "unat (snd u) + et_total vs < 2 ^ 64" "snd u \<noteq> 0"
  shows "units_normal (join_run u vs)" "\<exists>w ws. join_run u vs = (fst u, w) # ws \<and> w \<noteq> 0"
proof -
  have "units_normal (join_run u vs) \<and> (\<exists>w ws. join_run u vs = (fst u, w) # ws \<and> w \<noteq> 0)"
    using assms
  proof (induction vs arbitrary: u)
    case Nil
    then show ?case by (cases u) simp
  next
    case (Cons v vs)
    have w: "unat (snd u) + unat (snd v) < 2 ^ 64" using Cons.prems by simp
    show ?case
    proof (cases "units_join u v")
      case True
      then show ?thesis
        using Cons.IH [of "(fst u, snd u + snd v)"] Cons.prems unat_widths(1) [OF w] unat_widths(2) [OF w Cons.prems(2)] by simp
    next
      case False
      then have "snd v \<noteq> 0" by (simp add: units_join_def)
      then obtain x ws where x: "units_normal (join_run v vs)" "join_run v vs = (fst v, x) # ws" "x \<noteq> 0"
        using Cons.IH [of v] Cons.prems by auto
      have "\<not> units_join u (fst v, x)" using False x(3) by (simp add: units_join_def)
      then show ?thesis using False x Cons.prems(2) by (cases u) simp
    qed
  qed
  then show "units_normal (join_run u vs)" "\<exists>w ws. join_run u vs = (fst u, w) # ws \<and> w \<noteq> 0" by blast+
qed

lemma units_joined_map:
  assumes "et_total us < 2 ^ 64"
  shows "region_map (units_joined us) = region_map us \<longleftrightarrow> joins_sound us" "units_normal (units_joined us)"
proof -
  have "(region_map (units_joined us) = region_map us \<longleftrightarrow> joins_sound us) \<and> units_normal (units_joined us)"
    using assms
  proof (induction us)
    case (Cons u us)
    show ?case
    proof (cases "snd u = 0")
      case True
      then have "unit_blocks u = []" by (simp add: unit_blocks_at)
      then show ?thesis using Cons True by (simp add: region_map_Cons)
    next
      case False
      then show ?thesis using join_run_map [of u us] join_run_normal(1) [of u us] Cons.prems by (simp add: region_map_Cons)
    qed
  qed simp
  then show "region_map (units_joined us) = region_map us \<longleftrightarrow> joins_sound us" "units_normal (units_joined us)" by blast+
qed

text \<open>Among regions of the device that do not leave it, and empty units, every join is sound.\<close>

lemma joins_sound_regions:
  assumes "\<forall>u\<in>set us. snd u = 0 \<or> 1 < fst u \<and> unat (fst u) + unat (snd u) < 2 ^ 64"
  shows "joins_sound us"
proof -
  have run: "run_sound u vs" if "1 < fst u" "unat (fst u) + unat (snd u) < 2 ^ 64"
    "\<forall>v\<in>set vs. snd v = 0 \<or> 1 < fst v \<and> unat (fst v) + unat (snd v) < 2 ^ 64" for u vs
    using that
  proof (induction vs arbitrary: u)
    case (Cons v vs)
    show ?case
    proof (cases "units_join u v \<and> snd v \<noteq> 0")
      case True
      then have v: "1 < fst v" "unat (fst v) + unat (snd v) < 2 ^ 64" "fst u + snd u = fst v"
        using Cons.prems(1,3) by (auto simp: units_join_def)
      have e: "unat (fst u) + unat (snd u) = unat (fst v)" using unat_widths(1) [OF Cons.prems(2)] v(3) by simp
      then have "unat (snd u) + unat (snd v) < 2 ^ 64" using v(2) by linarith
      then have "unat (snd u + snd v) = unat (snd u) + unat (snd v)" by (rule unat_widths)
      then show ?thesis using True Cons.IH [of "(fst u, snd u + snd v)"] Cons.prems e v(2) by (simp add: goes_on_def)
    next
      case False
      then consider "snd v = 0" | "\<not> units_join u v" "snd v \<noteq> 0" by (auto simp: units_join_def)
      then show ?thesis
      proof cases
        case 1
        then show ?thesis using Cons.IH [of u] Cons.prems by (simp add: units_join_def goes_on_def)
      next
        case 2
        then show ?thesis using Cons.IH [of v] Cons.prems(3) by simp
      qed
    qed
  qed simp
  show ?thesis
    using assms
  proof (induction us)
    case (Cons u us)
    then show ?case using run [of u us] by auto
  qed simp
qed

lemma et_list_split: "et_list place (i + n) = et_list place i @ map (et_unit place) [i..<i + n]"
  using upt_add_eq_append [of 0 i n] by (simp add: et_list_def del: upt_Suc)

lemma et_list_Suc: "et_list place (Suc n) = et_list place n @ [et_unit place n]"
  by (simp add: et_list_def)

lemma et_list_eqI: "(\<And>i. i < n \<Longrightarrow> et_unit p i = et_unit q i) \<Longrightarrow> et_list p n = et_list q n"
  by (simp add: et_list_def)

definition join_done :: "place \<Rightarrow> nat \<Rightarrow> nat \<Rightarrow> nat \<Rightarrow> nat \<times> place \<Rightarrow> bool" where
  "join_done place i cnt joint r \<longleftrightarrow>
     (\<exists>k\<le>cnt. \<exists>place'. r = (joint + k, place') \<and>
        et_list place' (cnt - k) =
          (if i = 0 then units_joined (map (et_unit place) [0..<cnt])
           else et_list place (i - 1) @ join_run (et_unit place (i - 1)) (map (et_unit place) [i..<cnt])) \<and>
        pl_len place' = pl_len place \<and> pl_body place' = pl_body place \<and> pl_key place' = pl_key place)"

definition join_step :: "place \<Rightarrow> nat \<Rightarrow> place" where
  "join_step place i =
     extent40_shrink (if i \<noteq> 0 then et40_set_width place (i - 1) (et40_get_width place (i - 1) + et40_get_width place i) else place) i 1"

lemma join_step_list:
  assumes "pl_len place < 4294967296" "i + Suc n \<le> extent40_units place"
  shows "et_list (join_step place i) (i + n) =
    (if i = 0 then [] else et_list place (i - 1) @ [(et40_get_start place (i - 1), et40_get_width place (i - 1) + et40_get_width place i)]) @
      map (et_unit place) [Suc i..<Suc (i + n)]"
proof (intro nth_equalityI)
  fix j assume "j < length (et_list (join_step place i) (i + n))"
  then have j: "j < i + n" by simp
  let ?p = "if i \<noteq> 0 then et40_set_width place (i - 1) (et40_get_width place (i - 1) + et40_get_width place i) else place"
  have "et_unit (join_step place i) j = (if i \<le> j then et_unit ?p (Suc j) else et_unit ?p j)"
    using assms j et_unit_shrink [of ?p i 1] by (simp add: join_step_def)
  also have "\<dots> = (if i \<le> j then et_unit place (Suc j)
      else if Suc j = i then (et40_get_start place (i - 1), et40_get_width place (i - 1) + et40_get_width place i) else et_unit place j)"
    by auto
  finally show "et_list (join_step place i) (i + n) ! j = ((if i = 0 then [] else et_list place (i - 1) @
      [(et40_get_start place (i - 1), et40_get_width place (i - 1) + et40_get_width place i)]) @ map (et_unit place) [Suc i..<Suc (i + n)]) ! j"
    using j by (auto simp: nth_append simp del: upt_Suc)
qed auto

lemma join_step_simps [simp]:
  "pl_len (join_step place i) = pl_len place" "pl_body (join_step place i) = pl_body place"
  "pl_key (join_step place i) = pl_key place" "extent40_units (join_step place i) = extent40_units place"
  by (simp_all add: join_step_def)

lemma join_step_units:
  assumes "pl_len place < 4294967296" "i + Suc n \<le> extent40_units place"
  shows "map (et_unit (join_step place i)) [i..<i + n] = map (et_unit place) [Suc i..<Suc (i + n)]"
    "0 < i \<Longrightarrow> et_list (join_step place i) (i - 1) = et_list place (i - 1)"
    "0 < i \<Longrightarrow> et_unit (join_step place i) (i - 1) =
       (fst (et_unit place (i - 1)), snd (et_unit place (i - 1)) + snd (et_unit place i))"
proof -
  note l = join_step_list [OF assms]
  have n: "et_unit (join_step place i) j = et_list (join_step place i) (i + n) ! j" if "j < i + n" for j
    using that by simp
  show "map (et_unit (join_step place i)) [i..<i + n] = map (et_unit place) [Suc i..<Suc (i + n)]"
    using n by (intro nth_equalityI) (auto simp: l nth_append simp del: upt_Suc)
  have l0: "et_list (join_step place i) i = (if i = 0 then [] else et_list place (i - 1) @
      [(et40_get_start place (i - 1), et40_get_width place (i - 1) + et40_get_width place i)])"
    using join_step_list [of place i 0] assms by simp
  show "et_list (join_step place i) (i - 1) = et_list place (i - 1)" if "0 < i"
  proof -
    have "et_list (join_step place i) i = et_list (join_step place i) (i - 1) @ [et_unit (join_step place i) (i - 1)]"
      using et_list_Suc [of "join_step place i" "i - 1"] that by simp
    then show ?thesis using l0 that by simp
  qed
  show "et_unit (join_step place i) (i - 1) = (fst (et_unit place (i - 1)), snd (et_unit place (i - 1)) + snd (et_unit place i))" if "0 < i"
  proof -
    have "et_list (join_step place i) i = et_list (join_step place i) (i - 1) @ [et_unit (join_step place i) (i - 1)]"
      using et_list_Suc [of "join_step place i" "i - 1"] that by simp
    then show ?thesis using l0 that by (simp add: et_unit_def)
  qed
qed

lemma join_loop_done:
  assumes "pl_len place < 4294967296" "i + n \<le> extent40_units place"
  shows "join_done place i (i + n) joint (extent40_join_loop True place i n joint)"
  using assms
proof (induction n arbitrary: place i joint)
  case 0
  then show ?case using et_list_Suc [of place "i - 1"] by (auto simp: join_done_def et_list_def [of _ 0])
next
  case (Suc n)
  let ?u = "et_unit place i"
  have rest: "map (et_unit place) [i..<i + Suc n] = ?u # map (et_unit place) [Suc i..<i + Suc n]" using upt_conv_Cons [of i "i + Suc n"] by simp
  define joined where "joined \<longleftrightarrow> (et40_get_width place i = 0 \<or>
            i \<noteq> 0 \<and>
            (et40_get_start place (i - 1) + et40_get_width place (i - 1) = et40_get_start place i \<or>
             et40_get_start place (i - 1) = 0 \<and> et40_get_start place i = 0))"
  have joined: "joined \<longleftrightarrow> (if i = 0 then snd ?u = 0 else units_join (et_unit place (i - 1)) ?u)"
    by (auto simp: joined_def units_join_def et_unit_def)
  show ?case
  proof (cases joined)
    case False
    have "join_done place (Suc i) (Suc i + n) joint (extent40_join_loop True place (i + 1) n joint)"
      using Suc.IH [of place "Suc i" joint] Suc.prems by simp
    then obtain k place' where k: "k \<le> i + Suc n" "extent40_join_loop True place (i + 1) n joint = (joint + k, place')"
      "et_list place' (i + Suc n - k) = et_list place i @ join_run ?u (map (et_unit place) [Suc i..<i + Suc n])"
      "pl_len place' = pl_len place" "pl_body place' = pl_body place" "pl_key place' = pl_key place"
      by (auto simp: join_done_def simp del: upt_Suc)
    have "et_list place i @ join_run ?u (map (et_unit place) [Suc i..<i + Suc n]) =
        (if i = 0 then units_joined (map (et_unit place) [0..<i + Suc n])
         else et_list place (i - 1) @ join_run (et_unit place (i - 1)) (map (et_unit place) [i..<i + Suc n]))"
      using False joined rest et_list_Suc [of place "i - 1"] by (cases "i = 0") (simp_all add: et_list_def [of _ 0] del: upt_Suc)
    then show ?thesis using k False unfolding join_done_def by (intro exI [of _ k] conjI exI [of _ place']) (simp_all add: joined_def del: upt_Suc)
  next
    case True
    have loop: "extent40_join_loop True place i (Suc n) joint = extent40_join_loop True (join_step place i) i n (joint + 1)"
      using True by (simp add: joined_def join_step_def Let_def)
    note js = join_step_units [OF Suc.prems]
    have "join_done (join_step place i) i (i + n) (joint + 1) (extent40_join_loop True (join_step place i) i n (joint + 1))"
      using Suc.IH [of "join_step place i" i "joint + 1"] Suc.prems by simp
    then obtain k place' where k: "k \<le> i + n" "extent40_join_loop True (join_step place i) i n (joint + 1) = (joint + 1 + k, place')"
      "et_list place' (i + n - k) =
          (if i = 0 then units_joined (map (et_unit (join_step place i)) [0..<i + n])
           else et_list (join_step place i) (i - 1) @ join_run (et_unit (join_step place i) (i - 1)) (map (et_unit (join_step place i)) [i..<i + n]))"
      "pl_len place' = pl_len place" "pl_body place' = pl_body place" "pl_key place' = pl_key place"
      by (auto simp: join_done_def)
    have "et_list place' (i + n - k) =
        (if i = 0 then units_joined (map (et_unit place) [0..<i + Suc n])
         else et_list place (i - 1) @ join_run (et_unit place (i - 1)) (map (et_unit place) [i..<i + Suc n]))"
    proof (cases "i = 0")
      case i: True
      then show ?thesis using k(3) js(1) rest True joined by (simp del: upt_Suc)
    next
      case False
      then show ?thesis using k(3) js rest True joined by (simp del: upt_Suc)
    qed
    then show ?thesis unfolding join_done_def loop using k by (intro exI [of _ "Suc k"] conjI exI [of _ place']) (simp_all del: upt_Suc)
  qed
qed

section \<open>Finding the unit of an offset\<close>

definition unit_end :: "place \<Rightarrow> nat \<Rightarrow> nat" where
  "unit_end place j = unat (reiser4_key_get_offset (pl_key place)) + et_total (et_list place j) * place_blksize place"

lemma unit_end_mono: "i \<le> j \<Longrightarrow> unit_end place i \<le> unit_end place j"
  using et_list_split [of place i "j - i"] by (simp add: unit_end_def)

lemma unit_end_word:
  assumes "unit_end place (Suc i) < 2 ^ 64" "unat offset = unit_end place i" "place_blksize place < 2 ^ 64"
  shows "unat (offset + et40_get_width place i * word_of_nat (place_blksize place)) = unit_end place (Suc i)"
proof -
  let ?w = "et40_get_width place i"
  have e: "unit_end place (Suc i) = unit_end place i + unat ?w * place_blksize place"
    by (simp add: unit_end_def et_list_Suc et_unit_def algebra_simps)
  have b: "unat (word_of_nat (place_blksize place) :: u64) = place_blksize place"
    using assms(3) by (simp add: unat_of_nat)
  have "unat ?w * place_blksize place < 2 ^ 64" using assms(1) e by linarith
  then have m: "unat (?w * word_of_nat (place_blksize place)) = unat ?w * place_blksize place"
    using b unat_mult_lem [of ?w "word_of_nat (place_blksize place)"] by simp
  then show ?thesis using assms(1,2) e unat_add_lem [of offset "?w * word_of_nat (place_blksize place)"] by simp
qed

lemma lookup_loop_finds:
  assumes "place_blksize place < 2 ^ 64" "unit_end place (i + n) < 2 ^ 64" "unat offset = unit_end place i" "offset \<le> wanted"
  shows "case extent40_lookup_loop place wanted offset i n of
      Some j \<Rightarrow> i \<le> j \<and> j < i + n \<and> unit_end place j \<le> unat wanted \<and> unat wanted < unit_end place (Suc j)
    | None \<Rightarrow> unit_end place (i + n) \<le> unat wanted"
  using assms(2-)
proof (induction n arbitrary: i offset)
  case 0
  then show ?case by (simp add: word_le_nat_alt)
next
  case (Suc n)
  let ?off = "offset + et40_get_width place i * word_of_nat (place_blksize place)"
  have e: "unat ?off = unit_end place (Suc i)"
    using unit_end_word [OF _ Suc.prems(2) assms(1)] unit_end_mono [of "Suc i" "i + Suc n" place] Suc.prems(1) by simp
  show ?case
  proof (cases "?off > wanted")
    case True
    then show ?thesis using Suc.prems(2,3) e by (simp add: word_le_nat_alt word_less_nat_alt)
  next
    case False
    then have "?off \<le> wanted" by simp
    then show ?thesis
      using False Suc.IH [of "Suc i" ?off] Suc.prems(1) e by (auto simp: Let_def split: option.splits)
  qed
qed

lemma lookup_spec:
  assumes "place_blksize place < 2 ^ 64" "unit_end place (extent40_units place) < 2 ^ 64"
    and "unat (reiser4_key_get_offset (pl_key place)) \<le> unat (reiser4_key_get_offset key)"
    and "extent40_lookup place key bias = (res, place')"
  defines "u \<equiv> unit (pl_pos place')" and "wanted \<equiv> unat (reiser4_key_get_offset key)"
  shows "if wanted < unit_end place (extent40_units place)
    then res = PRESENT \<and> u < extent40_units place \<and> unit_end place u \<le> wanted \<and> wanted < unit_end place (Suc u)
    else res = (if bias = FIND_CONV then PRESENT else ABSENT) \<and> u = extent40_units place"
proof -
  have "unat (reiser4_key_get_offset (pl_key place)) = unit_end place 0" by (simp add: unit_end_def et_list_def)
  from lookup_loop_finds [OF assms(1) _ this, of "extent40_units place" "reiser4_key_get_offset key"] assms(2,3)
  have r: "case extent40_lookup_loop place (reiser4_key_get_offset key) (reiser4_key_get_offset (pl_key place)) 0 (extent40_units place) of
      Some j \<Rightarrow> j < extent40_units place \<and> unit_end place j \<le> wanted \<and> wanted < unit_end place (Suc j)
    | None \<Rightarrow> unit_end place (extent40_units place) \<le> wanted"
    by (simp add: word_le_nat_alt wanted_def split: option.splits)
  show ?thesis
  proof (cases "extent40_lookup_loop place (reiser4_key_get_offset key) (reiser4_key_get_offset (pl_key place)) 0 (extent40_units place)")
    case None
    then show ?thesis using r assms(4) by (auto simp: extent40_lookup_def Let_def u_def)
  next
    case (Some j)
    then have "wanted < unit_end place (extent40_units place)"
      using r unit_end_mono [of "Suc j" "extent40_units place" place] by simp
    then show ?thesis using r Some assms(4) by (auto simp: extent40_lookup_def Let_def u_def)
  qed
qed

section \<open>Properties\<close>

text \<open>
  C16: looking a key up in an extent item finds the one unit whose bytes hold the offset of the key, and
  for an offset behind the item the position behind the last unit, as long as the end of the item is below 2 to
  the 64.
\<close>

theorem extent40_lookup_finds:
  assumes "place_blksize place < 2 ^ 64" "unit_end place (extent40_units place) < 2 ^ 64"
    and "unat (reiser4_key_get_offset (pl_key place)) \<le> unat (reiser4_key_get_offset key)"
  shows "case extent40_lookup place key bias of (res, place') \<Rightarrow>
    let u = unit (pl_pos place'); wanted = unat (reiser4_key_get_offset key)
    in if wanted < unit_end place (extent40_units place)
       then res = PRESENT \<and> u < extent40_units place \<and> unit_end place u \<le> wanted \<and> wanted < unit_end place (Suc u)
       else res = (if bias = FIND_CONV then PRESENT else ABSENT) \<and> u = extent40_units place"
  using lookup_spec [OF assms, of bias "fst (extent40_lookup place key bias)" "snd (extent40_lookup place key bias)"]
  by (simp add: Let_def case_prod_beta)

text \<open>
  C14: what fsck does when it joins the units of an extent item is exactly \<open>units_joined\<close>: it drops empty units
  and widens a unit by those that follow and can be joined to it, so that no unit is empty and no two neighbours can be
  joined afterwards.  The list of blocks the item stands for is kept if and only if every join is one of two holes or of a
  region and the one that begins at the block behind it; the others, which the code does not tell apart, lose data.
\<close>

theorem extent40_join_keeps_map:
  assumes "pl_len place < 2 ^ 32" "et_total (et_list place (extent40_units place)) < 2 ^ 64"
  shows "case extent40_join_units place True of (joint, place') \<Rightarrow>
    let n = extent40_units place; us = et_list place n; us' = et_list place' (n - joint)
    in joint \<le> n \<and> us' = units_joined us \<and> units_normal us' \<and>
       (region_map us' = region_map us \<longleftrightarrow> joins_sound us) \<and> pl_key place' = pl_key place"
proof -
  let ?n = "extent40_units place"
  have "join_done place 0 ?n 0 (extent40_join_units place True)"
    using join_loop_done [of place 0 ?n 0] assms(1) by (simp add: extent40_join_units_def)
  then obtain k place' where k: "k \<le> ?n" "extent40_join_units place True = (k, place')"
    "et_list place' (?n - k) = units_joined (et_list place ?n)" "pl_key place' = pl_key place"
    by (auto simp: join_done_def et_list_def)
  then show ?thesis using units_joined_map [OF assms(2)] by (simp add: Let_def)
qed

text \<open>
  C15: shifting units to the left or to the right neighbour keeps the list of blocks of the two items
  together, and the item whose first unit changed gets the key of that unit: the offset of the left item
  plus the bytes of its units.
\<close>

theorem extent40_shift_conserves:
  assumes "pl_len src < 2 ^ 32" "pl_len dst < 2 ^ 32" "sh_units_number hint \<le> extent40_units src"
    and "dn + sh_units_number hint = extent40_units dst"
  shows "case extent40_shift_units src dst hint of (res, src', dst', hint') \<Rightarrow>
    let n = extent40_units src; k = sh_units_number hint;
        us = et_list src n; vs = et_list dst dn; us' = et_list src' (n - k); vs' = et_list dst' (dn + k);
        left = sh_flag (sh_control hint) SF_ALLOW_LEFT;
        key' = (\<lambda>i. reiser4_key_set_offset (pl_key src) (reiser4_key_get_offset (pl_key src) + extent40_offset src i))
    in res = 0 \<and>
       (if left then region_map vs' @ region_map us' = region_map vs @ region_map us \<and> pl_key src' = key' k \<and> pl_key dst' = pl_key dst
        else region_map us' @ region_map vs' = region_map us @ region_map vs \<and> pl_key dst' = key' (n - k) \<and> pl_key src' = pl_key src)"
proof (cases "sh_flag (sh_control hint) SF_ALLOW_LEFT")
  case True
  have l: "pl_len src < 4294967296" "pl_len dst < 4294967296" using assms(1,2) by simp_all
  obtain src' dst' where s: "extent40_shift_units src dst hint = (0, src', dst', hint)"
    "et_list dst' (dn + sh_units_number hint) = et_list dst dn @ take (sh_units_number hint) (et_list src (extent40_units src))"
    "et_list src' (extent40_units src - sh_units_number hint) = drop (sh_units_number hint) (et_list src (extent40_units src))"
    "pl_key dst' = pl_key dst"
    "pl_key src' = reiser4_key_set_offset (pl_key src) (reiser4_key_get_offset (pl_key src) + extent40_offset src (sh_units_number hint))"
    using shift_left_list [OF l refl assms(3,4) True] by blast
  then show ?thesis using True s by (simp add: Let_def region_map_append) (simp flip: region_map_append)
next
  case False
  have l: "pl_len src < 4294967296" "pl_len dst < 4294967296" using assms(1,2) by simp_all
  obtain src' dst' where s: "extent40_shift_units src dst hint = (0, src', dst', hint)"
    "et_list dst' (dn + sh_units_number hint) =
      drop (extent40_units src - sh_units_number hint) (et_list src (extent40_units src)) @ et_list dst dn"
    "et_list src' (extent40_units src - sh_units_number hint) =
      take (extent40_units src - sh_units_number hint) (et_list src (extent40_units src))"
    "pl_key src' = pl_key src"
    "pl_key dst' = reiser4_key_set_offset (pl_key src)
       (reiser4_key_get_offset (pl_key src) + extent40_offset src (extent40_units src - sh_units_number hint))"
    using shift_right_list [OF l refl assms(3,4) False] by blast
  then show ?thesis using False by (simp add: Let_def region_map_append flip: append_assoc) (simp flip: region_map_append)
qed

section \<open>Witnesses\<close>

text \<open>An item with given units, and room for \<open>extra\<close> more.\<close>

definition sample_extent :: "nat \<Rightarrow> ptr_hint list \<Rightarrow> place" where
  "sample_extent extra ps =
     extent40_store \<lparr>pl_pos = \<lparr>item = 0, unit = 0\<rparr>,
       pl_node = \<lparr>nd_mem = (\<lambda>_. 0), nd_size = 4096, nd_dirty = False, nd_kplug = KEY_LARGE, nd_keypol = 4, nd_state = 0, nd_plug = 0\<rparr>,
       pl_body = 28, pl_len = 16 * (length ps + extra), pl_off = 0, pl_key = reiser4_key_set_offset (key_plug_minimal KEY_LARGE) 0, pl_plug = ITEM_EXTENT40_ID\<rparr> 0 ps"

lemma sample_extent_simps [simp]:
  "pl_len (sample_extent extra ps) = 16 * (length ps + extra)" "extent40_units (sample_extent extra ps) = length ps + extra"
  "place_blksize (sample_extent extra ps) = 4096" "pl_key (sample_extent extra ps) = reiser4_key_set_offset (key_plug_minimal KEY_LARGE) 0"
  by (simp_all add: sample_extent_def extent40_units_def) (simp add: place_blksize_def)

lemma sample_extent_list: "et_list (sample_extent extra ps) (length ps) = map ptr_unit ps"
  by (intro nth_equalityI) (simp_all add: sample_extent_def et_unit_store)

definition sample_units :: "ptr_hint list" where
  "sample_units = [\<lparr>ptr_start = 0, ptr_width = 5\<rparr>, \<lparr>ptr_start = 100, ptr_width = 3\<rparr>, \<lparr>ptr_start = 103, ptr_width = 2\<rparr>]"

lemma sample_units_map: "map ptr_unit sample_units = [(0, 5), (100, 3), (103, 2)]" "length sample_units = 3"
  by (simp_all add: sample_units_def ptr_unit_def)

theorem extent40_lookup_finds_witness:
  "fst (extent40_lookup (sample_extent 0 sample_units) (reiser4_key_set_offset (key_plug_minimal KEY_LARGE) 24576) FIND_EXACT) = PRESENT"
proof -
  have o: "reiser4_key_get_offset (reiser4_key_set_offset k w) = w" for k w
    by (simp add: key_abs_get key_abs_set)
  have e: "unit_end (sample_extent 0 sample_units) 3 = 40960"
    using sample_extent_list [of 0 sample_units] by (simp add: unit_end_def sample_units_map o)
  show ?thesis
    using extent40_lookup_finds [of "sample_extent 0 sample_units" "reiser4_key_set_offset (key_plug_minimal KEY_LARGE) 24576" FIND_EXACT] e o
    by (simp add: sample_units_map Let_def split: prod.splits)
qed

theorem extent40_join_keeps_map_witness:
  "case extent40_join_units (sample_extent 0 sample_units) True of (joint, place') \<Rightarrow>
    et_list place' (3 - joint) = [(0, 5), (100, 5)] \<and>
    region_map (et_list place' (3 - joint)) = replicate 5 RB_HOLE @ map RB_BLOCK [100, 101, 102, 103, 104]"
proof -
  have l: "et_list (sample_extent 0 sample_units) 3 = [(0, 5), (100, 3), (103, 2)]"
    using sample_extent_list [of 0 sample_units] by (simp only: sample_units_map)
  have "units_joined [(0, 5), (100, 3), (103, 2)] = [(0, 5), (100, 5)]" "joins_sound [(0, 5), (100, 3), (103, 2)]"
    by (simp_all add: units_join_def goes_on_def word_less_nat_alt)
  moreover have "region_map [(0, 5), (100, 3), (103, 2)] = replicate 5 RB_HOLE @ map RB_BLOCK [100, 101, 102, 103, 104]" by code_simp
  moreover have "region_map [(0, 5), (100, 5)] = replicate 5 RB_HOLE @ map RB_BLOCK [100, 101, 102, 103, 104]" by code_simp
  ultimately show ?thesis
    using extent40_join_keeps_map [of "sample_extent 0 sample_units"] l
    by (simp add: sample_units_map Let_def del: units_joined.simps joins_sound.simps split: prod.splits)
qed

theorem extent40_shift_conserves_witness:
  "case extent40_shift_units (sample_extent 0 sample_units) (sample_extent 1 sample_units)
      \<lparr>sh_create = False, sh_update = False, sh_items_number = 0, sh_units_number = 1, sh_items_bytes = 0,
       sh_units_bytes = 16, sh_control = SF_ALLOW_LEFT, sh_result = 0, sh_pos = \<lparr>item = 0, unit = 0\<rparr>\<rparr> of (res, src', dst', hint') \<Rightarrow>
    res = 0 \<and> region_map (et_list dst' 4) @ region_map (et_list src' 2) =
      region_map (et_list (sample_extent 1 sample_units) 3) @ region_map (et_list (sample_extent 0 sample_units) 3)"
  using extent40_shift_conserves [of "sample_extent 0 sample_units" "sample_extent 1 sample_units"
      "\<lparr>sh_create = False, sh_update = False, sh_items_number = 0, sh_units_number = 1, sh_items_bytes = 0,
       sh_units_bytes = 16, sh_control = SF_ALLOW_LEFT, sh_result = 0, sh_pos = \<lparr>item = 0, unit = 0\<rparr>\<rparr>" 3]
  by (simp add: sample_units_map Let_def sh_flag_def split: prod.splits)

text \<open>Joins that are not sound: a region behind a hole or behind blocks that are not allocated yet, with the wrong number.\<close>

lemma unsound_joins: "\<not> joins_sound [(0, 5), (5, 3)]" "\<not> joins_sound [(1, 3), (4, 2)]"
  by (simp_all add: units_join_def goes_on_def word_less_nat_alt)

text \<open>
  Such a join loses data: a hole of five blocks in front of the region that
  starts at block 5 swallows it.
\<close>

lemma join_eats_region:
  defines "place \<equiv> sample_extent 0 [\<lparr>ptr_start = 0, ptr_width = 5\<rparr>, \<lparr>ptr_start = 5, ptr_width = 3\<rparr>]"
  shows "fst (extent40_join_units place True) = 1"
    "region_map (et_list place 2) = replicate 5 RB_HOLE @ map RB_BLOCK [5, 6, 7]"
    "region_map (et_list (snd (extent40_join_units place True)) 1) = replicate 8 RB_HOLE"
proof -
  have l: "et_list place 2 = [(0, 5), (5, 3)]"
    using sample_extent_list [of 0 "[\<lparr>ptr_start = 0, ptr_width = 5\<rparr>, \<lparr>ptr_start = 5, ptr_width = 3\<rparr>]"]
    by (simp add: place_def ptr_unit_def numeral_2_eq_2)
  then have u: "et_unit place 0 = (0, 5)" "et_unit place 1 = (5, 3)"
    using nth_et_list [of 0 2 place] nth_et_list [of 1 2 place] by simp_all
  then have s: "et40_get_start place 0 = 0" "et40_get_width place 0 = 5" "et40_get_start place 1 = 5" "et40_get_width place 1 = 3"
    by (simp_all add: et_unit_def)
  have units: "extent40_units place = 2" "pl_len place = 32" by (simp_all add: place_def)
  have run: "extent40_join_units place True = (1, join_step place 1)"
    unfolding extent40_join_units_def units numeral_2_eq_2 by (simp add: s s [unfolded One_nat_def] join_step_def Let_def)
  show "fst (extent40_join_units place True) = 1" by (simp add: run)
  show "region_map (et_list place 2) = replicate 5 RB_HOLE @ map RB_BLOCK [5, 6, 7]"
    unfolding l by code_simp
  have "et_list (join_step place 1) 1 = [(0, 8)]"
    using join_step_list [of place 1 0] units s by (simp add: et_list_def)
  moreover have "region_map [(0, 8)] = replicate 8 RB_HOLE" by code_simp
  ultimately show "region_map (et_list (snd (extent40_join_units place True)) 1) = replicate 8 RB_HOLE"
    by (simp only: run snd_conv)
qed

end
