(* ===== verification/Cde40.thy ===== *)
theory Cde40
  imports TailItems
begin

text \<open>
  Directory entries (\<^verbatim>\<open>plugin/item/cde40\<close>): an item holds the number of its entries, an array of headers, each the
  hash of a name and the offset of the entry's body in the item, and the bodies: the key of the object the entry
  points to and, when the name did not fit into the hash, the name with a NUL behind it.  The policy, 3 or 4, is
  that of the key plugin and fixes the sizes of all of these.
\<close>

unbundle bit_operations_syntax

abbreviation (input) ITEM_CDE40_ID :: nat where "ITEM_CDE40_ID \<equiv> 2"
abbreviation (input) DIR_ITEM :: nat where "DIR_ITEM \<equiv> 2"
abbreviation (input) cde40_t_size :: nat where "cde40_t_size \<equiv> 2"

section \<open>The layout\<close>

definition ob_size :: "nat \<Rightarrow> nat" where
  "ob_size pol = (if pol = 3 then 16 else 24)"
definition ha_size :: "nat \<Rightarrow> nat" where
  "ha_size pol = (if pol = 3 then 16 else 24)"
definition en_size :: "nat \<Rightarrow> nat" where
  "en_size pol = (if pol = 3 then 18 else 26)"

definition en_get_offset :: "mem \<Rightarrow> int \<Rightarrow> nat \<Rightarrow> nat" where
  "en_get_offset m en pol = get_le 2 m (en + int (ha_size pol))"
definition en_set_offset :: "mem \<Rightarrow> int \<Rightarrow> int \<Rightarrow> nat \<Rightarrow> mem" where
  "en_set_offset m en v pol = set_le 2 m (en + int (ha_size pol)) v"

text \<open>
  The words of a hash.  A short hash has no ordering; its accessor gives 0 where only short keys are compiled
  in.
\<close>

definition ha_get_ordering :: "mem \<Rightarrow> int \<Rightarrow> nat \<Rightarrow> u64" where
  "ha_get_ordering m ha pol = (if pol = 3 then 0 else word_of_nat (get_le 8 m ha))"
definition ha_set_ordering :: "mem \<Rightarrow> int \<Rightarrow> u64 \<Rightarrow> nat \<Rightarrow> mem" where
  "ha_set_ordering m ha v pol = (if pol = 3 then m else set_le 8 m ha (uint v))"
definition ha_get_objectid :: "mem \<Rightarrow> int \<Rightarrow> nat \<Rightarrow> u64" where
  "ha_get_objectid m ha pol = word_of_nat (get_le 8 m (if pol = 3 then ha else ha + 8))"
definition ha_set_objectid :: "mem \<Rightarrow> int \<Rightarrow> u64 \<Rightarrow> nat \<Rightarrow> mem" where
  "ha_set_objectid m ha v pol = set_le 8 m (if pol = 3 then ha else ha + 8) (uint v)"
definition ha_get_offset :: "mem \<Rightarrow> int \<Rightarrow> nat \<Rightarrow> u64" where
  "ha_get_offset m ha pol = word_of_nat (get_le 8 m (if pol = 3 then ha + 8 else ha + 16))"
definition ha_set_offset :: "mem \<Rightarrow> int \<Rightarrow> u64 \<Rightarrow> nat \<Rightarrow> mem" where
  "ha_set_offset m ha v pol = set_le 8 m (if pol = 3 then ha + 8 else ha + 16) (uint v)"

definition cde_get_units :: "place \<Rightarrow> nat" where
  "cde_get_units place = get_le 2 (place_mem place) (pl_body place)"
definition cde_set_units :: "place \<Rightarrow> int \<Rightarrow> place" where
  "cde_set_units place v = place_put place (set_le 2 (place_mem place) (pl_body place) v)"
definition cde_inc_units :: "place \<Rightarrow> nat \<Rightarrow> place" where
  "cde_inc_units place v = cde_set_units place (int (cde_get_units place) + int v)"
definition cde_dec_units :: "place \<Rightarrow> nat \<Rightarrow> place" where
  "cde_dec_units place v = cde_set_units place (int (cde_get_units place) - int v)"

definition cde40_key_pol :: "place \<Rightarrow> nat" where
  "cde40_key_pol place = key_plug_bodysize (kplug (pl_key place))"

definition cde40_entry :: "place \<Rightarrow> nat \<Rightarrow> int" where
  "cde40_entry place pos = pl_body place + int cde40_t_size + int (en_size (cde40_key_pol place)) * int pos"

definition cde_get_offset :: "place \<Rightarrow> nat \<Rightarrow> nat" where
  "cde_get_offset place pos = en_get_offset (place_mem place) (cde40_entry place pos) (cde40_key_pol place)"
definition cde_set_offset :: "place \<Rightarrow> nat \<Rightarrow> nat \<Rightarrow> place" where
  "cde_set_offset place pos v =
     place_put place (en_set_offset (place_mem place) (cde40_entry place pos) (int v) (cde40_key_pol place))"

definition cde40_objid :: "place \<Rightarrow> nat \<Rightarrow> int" where
  "cde40_objid place pos = pl_body place + int (cde_get_offset place pos)"

section \<open>Reading entries\<close>

definition cde40_get_obj :: "place \<Rightarrow> nat \<Rightarrow> reiser4_key" where
  "cde40_get_obj place pos =
     \<lparr>kplug = kplug (pl_key place),
      kbody = (\<lambda>i. if i < ob_size (cde40_key_pol place) div 8 then mem_key (place_mem place) (cde40_objid place pos) i else 0),
      kadjust = 0\<rparr>"

definition cde40_get_hash :: "place \<Rightarrow> nat \<Rightarrow> reiser4_key" where
  "cde40_get_hash place pos =
     (let pol = cde40_key_pol place; hash = cde40_entry place pos; m = place_mem place;
          locality = reiser4_key_get_locality (pl_key place)
      in reiser4_key_build_generic (pl_key place) KEY_FILENAME_TYPE locality (ha_get_ordering m hash pol)
           (ha_get_objectid m hash pol) (ha_get_offset m hash pol))"

text \<open>The key to store is an argument of the C function, but the fields are taken from the key of the item.\<close>

definition cde40_set_hash :: "place \<Rightarrow> nat \<Rightarrow> reiser4_key \<Rightarrow> place" where
  "cde40_set_hash place pos key =
     (let pol = cde40_key_pol place; hash = cde40_entry place pos; m = place_mem place;
          ordr = reiser4_key_get_ordering (pl_key place);
          objectid = reiser4_key_get_fobjectid (pl_key place);
          offset = reiser4_key_get_offset (pl_key place);
          m = ha_set_ordering m hash ordr pol;
          m = ha_set_objectid m hash objectid pol;
          m = ha_set_offset m hash offset pol
      in place_put place m)"

definition cde40_get_name :: "place \<Rightarrow> nat \<Rightarrow> nat \<Rightarrow> u8 list" where
  "cde40_get_name place pos len =
     (let key = cde40_get_hash place pos
      in if reiser4_key_hashed key
         then take len (mem_str (place_mem place) (cde40_objid place pos + int (ob_size (cde40_key_pol place))))
         else case reiser4_key_get_name key of Some name \<Rightarrow> name | None \<Rightarrow> [])"

definition cde40_get_len :: "place \<Rightarrow> nat \<Rightarrow> nat" where
  "cde40_get_len place pos =
     (let pol = cde40_key_pol place; len = ob_size pol; key = cde40_get_hash place pos
      in if reiser4_key_hashed key
         then len + length (mem_str (place_mem place) (cde40_objid place pos + int (ob_size pol))) + 1
         else len)"

definition cde40_update_key :: "place \<Rightarrow> reiser4_key \<Rightarrow> place" where
  "cde40_update_key place key = cde40_set_hash place (unit (pl_pos place)) key"

definition cde40_fetch_key :: "place \<Rightarrow> reiser4_key" where
  "cde40_fetch_key place = cde40_get_hash place (unit (pl_pos place))"

definition cde40_units :: "place \<Rightarrow> nat" where
  "cde40_units place = cde_get_units place"

definition sp_entries :: "specific \<Rightarrow> entry_hint list" where
  "sp_entries sp = (case sp of SP_ENTRIES es \<Rightarrow> es | _ \<Rightarrow> [])"

text \<open>The array of hints has \<open>count\<close> elements; the size of their name buffer is 8192.\<close>

definition cde40_fetch_units :: "place \<Rightarrow> 'd trans_hint \<Rightarrow> int \<times> place \<times> 'd trans_hint" where
  "cde40_fetch_units place hint =
     (let pos = unit (pl_pos place);
          entries = map (\<lambda>(i, entry). entry\<lparr>eh_object := cde40_get_obj place i, eh_offset := cde40_get_hash place i,
                        eh_name := cde40_get_name place i 8192\<rparr>)
                      (zip [pos..<pos + th_count hint] (sp_entries (th_specific hint)))
      in (int (th_count hint), place, hint\<lparr>th_specific := SP_ENTRIES entries\<rparr>))"

definition cde40_overhead :: nat where
  "cde40_overhead = cde40_t_size"

definition cde40_mergeable :: "place \<Rightarrow> place \<Rightarrow> bool" where
  "cde40_mergeable place1 place2 \<longleftrightarrow> reiser4_key_compshort (pl_key place1) (pl_key place2) = 0"

definition cde40_regsize :: "place \<Rightarrow> nat \<Rightarrow> nat \<Rightarrow> nat" where
  "cde40_regsize place pos count =
     (if count = 0 then 0
      else if pos + count < cde_get_units place
      then to_u32 (int (cde_get_offset place (pos + count)) - int (cde_get_offset place pos))
      else to_u32 (int (cde40_get_len place (pos + count - 1)) +
             (int (cde_get_offset place (pos + count - 1)) - int (cde_get_offset place pos))))"

section \<open>Moving entries\<close>

text \<open>Adding to the offsets of \<open>n\<close> entries from a header on.\<close>

fun cde40_add_offsets :: "nat \<Rightarrow> nat \<Rightarrow> mem \<Rightarrow> int \<Rightarrow> int \<Rightarrow> mem" where
  "cde40_add_offsets pol 0 m entry d = m"
| "cde40_add_offsets pol (Suc n) m entry d =
     cde40_add_offsets pol n (en_set_offset m entry (int (en_get_offset m entry pol) + d) pol) (entry + int (en_size pol)) d"

text \<open>Source and destination of a copy are items of different nodes.\<close>

fun cde40_copy_offsets :: "nat \<Rightarrow> nat \<Rightarrow> place \<Rightarrow> nat \<Rightarrow> mem \<Rightarrow> int \<Rightarrow> nat \<Rightarrow> mem" where
  "cde40_copy_offsets pol 0 src src_pos m entry offset = m"
| "cde40_copy_offsets pol (Suc n) src src_pos m entry offset =
     cde40_copy_offsets pol n src (src_pos + 1) (en_set_offset m entry (int offset) pol) (entry + int (en_size pol))
       (to_u32 (int offset + int (cde40_get_len src src_pos)))"

definition cde40_copy :: "place \<Rightarrow> nat \<Rightarrow> place \<Rightarrow> nat \<Rightarrow> nat \<Rightarrow> place" where
  "cde40_copy dst dst_pos src src_pos count =
     (let pol = cde40_key_pol dst;
          dst_units = cde40_units dst;
          offset = (if dst_pos \<noteq> 0 then to_u32 (int (cde40_regsize dst 0 (dst_pos - 1)) + int (cde40_get_len dst (dst_pos - 1))) else 0);
          srcp = pl_body src + int cde40_t_size + int (src_pos * en_size pol);
          dstp = pl_body dst + int cde40_t_size + int (dst_pos * en_size pol);
          headers = count * en_size pol;
          dst = place_put dst (memcpy (place_mem dst) dstp (place_mem src) srcp headers);
          srcp = pl_body src + int (en_get_offset (place_mem src) srcp pol);
          dstp = pl_body dst + int cde40_t_size + int (dst_units * en_size pol) + int headers + int offset;
          size = cde40_regsize src src_pos count;
          dst = place_put dst (memcpy (place_mem dst) dstp (place_mem src) srcp size);
          entry = cde40_entry dst dst_pos;
          offset = to_u32 (int offset + int (cde40_t_size + dst_units * en_size pol + headers));
          dst = place_put dst (cde40_copy_offsets pol count src src_pos (place_mem dst) entry offset);
          dst = cde_inc_units dst count;
          dst = (if dst_pos = 0 then dst\<lparr>pl_key := cde40_get_hash dst 0\<rparr> else dst)
      in place_mkdirty dst)"

text \<open>The result is the number of bytes removed.\<close>

definition cde40_cut :: "place \<Rightarrow> nat \<Rightarrow> nat \<Rightarrow> nat \<Rightarrow> nat \<times> place" where
  "cde40_cut place pos count len =
     (let pol = cde40_key_pol place;
          units = cde_get_units place;
          count = (if pos + count > units then units - pos else count)
      in if count = 0 then (0, place)
         else
           (let headers = count * en_size pol;
                first = to_u32 (int ((units - (pos + count)) * en_size pol) + int (cde40_regsize place 0 pos));
                second = (if pos + count = units then 0 else to_u32 (int len - int (cde_get_offset place (pos + count))));
                removed = (if pos + count = units then to_u32 (int len - int (cde_get_offset place pos))
                           else cde40_regsize place pos count);
                entry = cde40_entry place pos;
                place = place_put place (memmove (place_mem place) entry (entry + int (en_size pol * count)) first);
                place = place_put place (cde40_add_offsets pol pos (place_mem place) (cde40_entry place 0) (- int headers));
                place =
                  (if second > 0 then
                     (let src = pl_body place + int (cde_get_offset place pos);
                          dst = src - int (headers + removed);
                          place = place_put place (memmove (place_mem place) dst src second)
                      in place_put place (cde40_add_offsets pol (units - count - pos) (place_mem place) (cde40_entry place pos)
                           (- int (headers + removed))))
                   else place);
                place = cde_dec_units place count
            in (to_u32 (int removed + int headers), place_mkdirty place)))"

definition cde40_shrink :: "place \<Rightarrow> nat \<Rightarrow> nat \<Rightarrow> nat \<times> place" where
  "cde40_shrink place pos count =
     (let units = cde_get_units place;
          count = (if pos + count > units then units - pos else count)
      in if count = 0 then (0, place)
         else cde40_cut place pos count
                (to_u32 (int (cde_get_offset place (units - 1)) + int (cde40_get_len place (units - 1)))))"

text \<open>The result is the offset of the room in the item.\<close>

definition cde40_expand :: "place \<Rightarrow> nat \<Rightarrow> nat \<Rightarrow> nat \<Rightarrow> nat \<times> place" where
  "cde40_expand place pos count len =
     (let pol = cde40_key_pol place;
          units = cde_get_units place;
          headers = count * en_size pol;
          offset = (if units > 0 then
                      (if pos < units then cde_get_offset place pos
                       else to_u32 (int (cde_get_offset place (units - 1)) + int (cde40_get_len place (units - 1))))
                    else cde40_t_size);
          first = to_u32 (int ((units - pos) * en_size pol) + int (cde40_regsize place 0 pos));
          second = cde40_regsize place pos (units - pos);
          place = place_put place (cde40_add_offsets pol pos (place_mem place) (cde40_entry place 0) (int headers));
          place = place_put place (cde40_add_offsets pol (units - pos) (place_mem place) (cde40_entry place pos) (int len));
          place = (if pos < units
                   then place_put place (memmove (place_mem place) (pl_body place + int offset + int len) (pl_body place + int offset) second)
                   else place);
          place = (if first > 0
                   then place_put place (memmove (place_mem place) (cde40_entry place pos + int headers) (cde40_entry place pos) first)
                   else place)
      in (to_u32 (int offset + int headers), place_mkdirty place))"

section \<open>Shifting\<close>

text \<open>
  The loop of the estimate.  Every round takes one unit off \<open>src_units\<close>, and the current unit runs from the
  first one upwards or from the last one downwards, so it leaves the item when \<open>src_units\<close> is 0.
\<close>

fun cde40_predict :: "place \<Rightarrow> bool \<Rightarrow> nat \<Rightarrow> nat \<Rightarrow> nat \<Rightarrow> nat \<Rightarrow> shift_hint \<Rightarrow> nat \<times> shift_hint" where
  "cde40_predict src_place check cur 0 dst_units space hint = (space, hint)"
| "cde40_predict src_place check cur (Suc n) dst_units space hint =
     (let src_units = Suc n; flags = sh_control hint; p = sh_pos hint;
          follow = (check \<and> sh_flag flags SF_UPDATE_POINT);
          lft = sh_flag flags SF_ALLOW_LEFT;
          len = cde40_get_len src_place cur;
          unit_len = len + en_size (cde40_key_pol src_place);
          moved = (\<lambda>u. if sh_flag flags SF_MOVE_POINT
                       then hint\<lparr>sh_result := sh_result hint OR SF_MOVE_POINT, sh_pos := p\<lparr>unit := u\<rparr>\<rparr> else hint)
      in if sh_flag (sh_result hint) SF_MOVE_POINT then (space, hint)
         else if follow \<and> \<not> sh_flag flags SF_MOVE_POINT \<and> (if lft then unit p = 0 else unit p = src_units) then (space, hint)
         else if space < unit_len then (space, hint)
         else if follow \<and> lft \<and> unit p = 0 then (space, moved dst_units)
         else if follow \<and> \<not> lft \<and> unit p \<ge> src_units then (space, moved 0)
         else
           (let hint = (if follow \<and> lft then hint\<lparr>sh_pos := p\<lparr>unit := unit p - 1\<rparr>\<rparr> else hint)
            in cde40_predict src_place check (if lft then cur + 1 else cur - 1) n (dst_units + 1) (space - unit_len)
                 (hint\<lparr>sh_units_number := sh_units_number hint + 1\<rparr>)))"

definition cde40_prep_shift :: "place \<Rightarrow> place option \<Rightarrow> shift_hint \<Rightarrow> int \<times> place option \<times> shift_hint" where
  "cde40_prep_shift src_place dst_place hint =
     (let hint = hint\<lparr>sh_units_number := 0\<rparr>;
          space = sh_units_bytes hint;
          src_units = cde40_units src_place;
          dst_units = (case dst_place of Some d \<Rightarrow> cde40_units d | None \<Rightarrow> 0)
      in if sh_create hint \<and> space \<le> cde40_t_size then (0, dst_place, hint)
         else
           (let space = (if sh_create hint then space - cde40_t_size else space);
                cur = (if sh_flag (sh_control hint) SF_ALLOW_LEFT then 0 else src_units - 1);
                check = (item (pl_pos src_place) = item (sh_pos hint) \<and> unit (sh_pos hint) \<noteq> MAX_UINT32);
                (space, hint) = cde40_predict src_place check cur src_units dst_units space hint;
                hint = (if sh_units_number hint > 0
                        then hint\<lparr>sh_units_bytes := to_u32 (int (sh_units_bytes hint) - int space)\<rparr> else hint)
            in (0, dst_place, hint)))"

definition cde40_shift_units :: "place \<Rightarrow> place \<Rightarrow> shift_hint \<Rightarrow> int \<times> place \<times> place \<times> shift_hint" where
  "cde40_shift_units src_place dst_place hint =
     (let (hint, dst_place) =
            (if sh_create hint
             then (hint\<lparr>sh_units_bytes := to_u32 (int (sh_units_bytes hint) - int cde40_t_size)\<rparr>, cde_set_units dst_place 0)
             else (hint, dst_place));
          number = sh_units_number hint;
          lft = sh_flag (sh_control hint) SF_ALLOW_LEFT;
          src_pos = (if lft then 0 else to_u32 (int (cde_get_units src_place) - int number));
          dst_pos = (if lft then cde_get_units dst_place else 0);
          (_, dst_place) = cde40_expand dst_place dst_pos number (sh_units_bytes hint);
          dst_place = cde40_copy dst_place dst_pos src_place src_pos number;
          (_, src_place) = cde40_shrink src_place src_pos number;
          src_place = (if cde_get_units src_place > 0 \<and> lft then src_place\<lparr>pl_key := cde40_get_hash src_place 0\<rparr> else src_place)
      in (0, src_place, dst_place, hint))"

section \<open>Inserting and removing\<close>

text \<open>The policy is that of the plugin of the hint's key.\<close>

definition cde40_entry_len :: "nat \<Rightarrow> entry_hint \<Rightarrow> nat" where
  "cde40_entry_len pol entry = ob_size pol + (if reiser4_key_hashed (eh_offset entry) then length (eh_name entry) + 1 else 0)"

definition cde40_prep_insert :: "place \<Rightarrow> 'd trans_hint \<Rightarrow> int \<times> place \<times> 'd trans_hint" where
  "cde40_prep_insert place hint =
     (let pol = key_plug_bodysize (kplug (th_offset hint));
          len = th_count hint * en_size pol + sum_list (map (cde40_entry_len pol) (take (th_count hint) (sp_entries (th_specific hint))))
      in (0, place, hint\<lparr>th_len := to_s32 (int len), th_bytes := len, th_overhead := cde40_overhead\<rparr>))"

text \<open>Writing an entry: \<open>entry\<close> is its header, \<open>offset\<close> the place of its body, and the result the next one.\<close>

definition cde40_put_entry :: "nat \<Rightarrow> int \<Rightarrow> entry_hint \<Rightarrow> mem \<Rightarrow> int \<Rightarrow> nat \<Rightarrow> mem \<times> nat" where
  "cde40_put_entry pol body e m entry offset =
     (let m = en_set_offset m entry (int offset) pol;
          hash = eh_offset e;
          m = ha_set_ordering m entry (reiser4_key_get_ordering hash) pol;
          m = ha_set_objectid m entry (reiser4_key_get_fobjectid hash) pol;
          m = ha_set_offset m entry (reiser4_key_get_offset hash) pol;
          m = mwrite m (body + int offset) (key_bytes (kbody (eh_object e)) (ob_size pol));
          offset = offset + ob_size pol
      in if reiser4_key_hashed hash then
           (let m = mwrite m (body + int offset) (eh_name e);
                offset = offset + length (eh_name e)
            in (mwrite m (body + int offset) [0], offset + 1))
         else (m, offset))"

fun cde40_put_entries :: "nat \<Rightarrow> int \<Rightarrow> entry_hint list \<Rightarrow> mem \<Rightarrow> int \<Rightarrow> nat \<Rightarrow> mem" where
  "cde40_put_entries pol body [] m entry offset = m"
| "cde40_put_entries pol body (e # es) m entry offset =
     (let (m, offset) = cde40_put_entry pol body e m entry offset
      in cde40_put_entries pol body es m (entry + int (en_size pol)) offset)"

definition cde40_insert_units :: "place \<Rightarrow> 'd trans_hint \<Rightarrow> int \<times> place \<times> 'd trans_hint" where
  "cde40_insert_units place hint =
     (let pol = cde40_key_pol place;
          place = (if unit (pl_pos place) = MAX_UINT32 then place_unit (cde_set_units place 0) 0 else place);
          (offset, place) = cde40_expand place (unit (pl_pos place)) (th_count hint) (to_u32 (th_len hint));
          entry = cde40_entry place (unit (pl_pos place));
          entries = take (th_count hint) (sp_entries (th_specific hint));
          place = place_put place (cde40_put_entries pol (pl_body place) entries (place_mem place) entry offset);
          place = cde_inc_units place (th_count hint);
          place = (if unit (pl_pos place) = 0 then place\<lparr>pl_key := cde40_get_hash place 0\<rparr> else place)
      in (int (th_count hint), place_mkdirty place, hint))"

definition cde40_delete :: "place \<Rightarrow> nat \<Rightarrow> 'd trans_hint \<Rightarrow> int \<times> place \<times> 'd trans_hint" where
  "cde40_delete place pos hint =
     (let (len, place) = cde40_shrink place pos (th_count hint);
          hint = hint\<lparr>th_len := to_s32 (int len), th_bytes := len\<rparr>;
          place = (if pos = 0 \<and> cde40_units place > 0 then place\<lparr>pl_key := cde40_get_hash place 0\<rparr> else place)
      in (0, place, hint\<lparr>th_overhead := (if cde40_units place = 0 then cde40_overhead else 0)\<rparr>))"

definition cde40_remove_units :: "place \<Rightarrow> 'd trans_hint \<Rightarrow> int \<times> place \<times> 'd trans_hint" where
  "cde40_remove_units place hint = cde40_delete place (unit (pl_pos place)) hint"

text \<open>The two items lie in one node; the result carries the node in the right place.\<close>

definition cde40_merge :: "place \<Rightarrow> place \<Rightarrow> int \<times> place" where
  "cde40_merge left right =
     (let pol = cde40_key_pol left;
          left = place_put left (place_mem right);
          units = cde_get_units left;
          size = cde_get_units right * en_size pol;
          offset = cde40_t_size + units * en_size pol;
          left = cde_inc_units left (cde_get_units right);
          m = memmove (place_mem left) (pl_body right) (pl_body right + int cde40_t_size) (to_u64 (int (pl_len right) - int cde40_t_size));
          buf = mread m (pl_body right) size;
          m = memmove m (pl_body left + int (offset + size)) (pl_body left + int offset) (to_u32 (int (pl_len left) - int offset));
          m = mwrite m (pl_body left + int offset) buf;
          left = place_put left m;
          left = place_put left (cde40_add_offsets pol units (place_mem left) (cde40_entry left 0) (int size));
          left = place_put left (cde40_add_offsets pol (cde_get_units left - units) (place_mem left) (cde40_entry left units)
                   (int (pl_len left) - int cde40_t_size))
      in (int cde40_t_size, place_put right (place_mem left)))"

section \<open>Keys and lookup\<close>

definition cde40_maxreal_key :: "place \<Rightarrow> reiser4_key" where
  "cde40_maxreal_key place = cde40_get_hash place (cde40_units place - 1)"

definition cde40_size :: "place \<Rightarrow> nat" where
  "cde40_size place = cde40_units place"

definition cde40_bytes :: "place \<Rightarrow> nat" where
  "cde40_bytes place = to_u64 (int (pl_len place) - 2)"

definition cde40_comp_hash :: "place \<Rightarrow> nat \<Rightarrow> reiser4_key \<Rightarrow> int" where
  "cde40_comp_hash place pos key = reiser4_key_compfull (cde40_get_hash place pos) key"

text \<open>
  The search for a name among the entries with one hash; the loop counts in the unit of the place but compares
  the entry whose number is that of the item in the node.
\<close>

fun cde40_collide :: "place \<Rightarrow> reiser4_key \<Rightarrow> u8 list \<Rightarrow> nat \<Rightarrow> lookup_res \<times> place" where
  "cde40_collide place hash name 0 = (ABSENT, place)"
| "cde40_collide place hash name (Suc n) =
     (if cde40_comp_hash place (item (pl_pos place)) hash \<noteq> 0 then (ABSENT, place)
      else if cde40_get_name place (item (pl_pos place)) 256 = name then (PRESENT, place)
      else cde40_collide (place_unit place (unit (pl_pos place) + 1)) hash name n)"

definition cde40_collision :: "place \<Rightarrow> u8 list \<Rightarrow> lookup_res \<times> place" where
  "cde40_collision place name =
     (let place = (if unit (pl_pos place) = MAX_UINT32 then place_unit place 0 else place);
          units = cde40_units place
      in if unit (pl_pos place) \<ge> units then (ABSENT, place)
         else cde40_collide place (cde40_get_hash place (unit (pl_pos place))) name (units - unit (pl_pos place)))"

definition cde40_maxposs_key :: "place \<Rightarrow> reiser4_key" where
  "cde40_maxposs_key place =
     (let key = pl_key place;
          maxkey = key_plug_maximal (kplug key);
          key = reiser4_key_set_ordering key (reiser4_key_get_ordering maxkey);
          key = reiser4_key_set_objectid key (reiser4_key_get_objectid maxkey)
      in reiser4_key_set_offset key (reiser4_key_get_offset maxkey))"

definition cb_comp_hash :: "reiser4_key \<Rightarrow> place \<Rightarrow> nat \<Rightarrow> int" where
  "cb_comp_hash key place pos = cde40_comp_hash place pos key"

text \<open>From a unit with the key to the leftmost one of its neighbours that has it.\<close>

fun cde40_leftmost :: "place \<Rightarrow> reiser4_key \<Rightarrow> nat \<Rightarrow> nat" where
  "cde40_leftmost place key 0 = 0"
| "cde40_leftmost place key (Suc i) = (if cde40_comp_hash place i key = 0 then cde40_leftmost place key i else Suc i)"

text \<open>The number of units has 16 bits, far below the sizes for which the search has no defined result.\<close>

definition cde40_lookup :: "place \<Rightarrow> reiser4_key \<Rightarrow> lookup_bias \<Rightarrow> lookup_res \<times> place" where
  "cde40_lookup place key bias =
     (let (res, pos) = the (aux_bin_search (cde40_units place) (cb_comp_hash key place))
      in if res = 1 then (PRESENT, place_unit place (cde40_leftmost place key pos))
         else if res = 0 then (if bias = FIND_CONV then PRESENT else ABSENT, place_unit place pos)
         else (LOOKUP_EIO, place_unit place pos))"

end
