(* ===== verification/CdeUnits.thy ===== *)
theory CdeUnits
  imports Cde40
begin

text \<open>
  What a directory item means: the list of its entries, and how room is made between the bodies.
\<close>

unbundle bit_operations_syntax

section \<open>Items as lists of entries\<close>

record cde_entry =
  ce_hash :: "u8 list"
  ce_body :: "u8 list"

definition ce_hashed :: "u8 list \<Rightarrow> bool" where
  "ce_hashed h \<longleftrightarrow> (word_of_nat (le_value (take 8 h)) :: u64) AND HASHED_NAME_MASK \<noteq> 0"

definition ce_ok :: "nat \<Rightarrow> cde_entry \<Rightarrow> bool" where
  "ce_ok pol e \<longleftrightarrow> length (ce_hash e) = ha_size pol \<and>
     (if ce_hashed (ce_hash e)
      then ob_size pol < length (ce_body e) \<and> last (ce_body e) = 0 \<and> (\<forall>c\<in>set (butlast (drop (ob_size pol) (ce_body e))). c \<noteq> 0)
      else length (ce_body e) = ob_size pol)"

definition bodies_len :: "cde_entry list \<Rightarrow> nat" where
  "bodies_len es = sum_list (map (\<lambda>e. length (ce_body e)) es)"

definition ce_off :: "nat \<Rightarrow> cde_entry list \<Rightarrow> nat \<Rightarrow> nat" where
  "ce_off pol es i = 2 + length es * en_size pol + bodies_len (take i es)"

definition cde_len :: "nat \<Rightarrow> cde_entry list \<Rightarrow> nat" where
  "cde_len pol es = ce_off pol es (length es)"

definition cde_holds :: "place \<Rightarrow> cde_entry list \<Rightarrow> bool" where
  "cde_holds p es \<longleftrightarrow> (let pol = cde40_key_pol p; m = place_mem p in
     cde_get_units p = length es \<and> cde_len pol es < 65536 \<and> (\<forall>e\<in>set es. ce_ok pol e) \<and>
     (\<forall>i<length es. mread m (cde40_entry p i) (ha_size pol) = ce_hash (es ! i) \<and> cde_get_offset p i = ce_off pol es i \<and>
        mread m (pl_body p + int (ce_off pol es i)) (length (ce_body (es ! i))) = ce_body (es ! i)))"

lemma bodies_len_simps [simp]:
  "bodies_len [] = 0" "bodies_len (e # es) = length (ce_body e) + bodies_len es"
  "bodies_len (es @ fs) = bodies_len es + bodies_len fs"
  by (simp_all add: bodies_len_def)

lemma bodies_take_Suc: "i < length es \<Longrightarrow> bodies_len (take (Suc i) es) = bodies_len (take i es) + length (ce_body (es ! i))"
  by (simp add: take_Suc_conv_app_nth)

lemma bodies_take_mono: "i \<le> j \<Longrightarrow> bodies_len (take i es) \<le> bodies_len (take j es)"
  using take_add [of i "j - i" es] by simp

lemma bodies_take_all: "bodies_len (take i es) \<le> bodies_len es"
  using bodies_len_simps(3) [of "take i es" "drop i es"] by simp

lemma pol_cases: "cde40_key_pol p = 3 \<or> cde40_key_pol p = 4"
  using bodysize_pol by (auto simp: cde40_key_pol_def)

lemma ob_size_eq [simp]: "ob_size pol = ha_size pol"
  by (simp add: ob_size_def ha_size_def)

lemma en_size_eq: "en_size pol = ha_size pol + 2"
  by (simp add: en_size_def ha_size_def)

lemma ha_size_pos: "0 < ha_size pol" "8 \<le> ha_size pol" "ha_size pol \<le> 24" by (simp_all add: ha_size_def)

text \<open>The hash of an entry is a name key; whether the name is hashed is a bit of its first word.\<close>

lemma hashed_eq:
  "reiser4_key_hashed (cde40_get_hash p i) = ce_hashed (mread (place_mem p) (cde40_entry p i) (ha_size (cde40_key_pol p)))"
proof -
  have t: "take 8 (mread m a (ha_size pol)) = mread m a 8" for m a pol
    using mread_part [of 0 8 "ha_size pol" m a] ha_size_pos(2) by simp
  show ?thesis
    by (cases "kplug (pl_key p)")
      (simp_all add: cde40_get_hash_def reiser4_key_build_generic_def Let_def reiser4_key_hashed_def key_short_build_generic_def
        key_large_build_generic_def key_short_hashed_def key_large_hashed_def key_large_get_ordering_def ce_hashed_def t
        kl_sets ks_sets ha_get_ordering_def ha_get_objectid_def get_le_def cde40_key_pol_def key_plug_bodysize_def
        key_short_bodysize_def key_large_bodysize_def)
qed

lemma holdsD:
  assumes "cde_holds p es"
  shows "cde_get_units p = length es" "cde_len (cde40_key_pol p) es < 65536" "\<And>e. e \<in> set es \<Longrightarrow> ce_ok (cde40_key_pol p) e"
    and "\<And>i. i < length es \<Longrightarrow> mread (place_mem p) (cde40_entry p i) (ha_size (cde40_key_pol p)) = ce_hash (es ! i)"
    and "\<And>i. i < length es \<Longrightarrow> cde_get_offset p i = ce_off (cde40_key_pol p) es i"
    and "\<And>i. i < length es \<Longrightarrow> mread (place_mem p) (pl_body p + int (ce_off (cde40_key_pol p) es i)) (length (ce_body (es ! i))) = ce_body (es ! i)"
  using assms by (auto simp: cde_holds_def Let_def)

lemma cde_len_eq: "cde_len pol es = 2 + length es * en_size pol + bodies_len es"
  by (simp add: cde_len_def ce_off_def)

lemma ce_off_bound: "i < length es \<Longrightarrow> ce_off pol es i + length (ce_body (es ! i)) \<le> cde_len pol es"
  using bodies_take_Suc [of i es] bodies_take_all [of "Suc i" es] by (simp add: ce_off_def cde_len_def)

lemma ce_off_Suc: "i < length es \<Longrightarrow> ce_off pol es (Suc i) = ce_off pol es i + length (ce_body (es ! i))"
  by (simp add: ce_off_def bodies_take_Suc)

lemma get_len_body:
  assumes "mread (place_mem p) (cde40_entry p i) (ha_size (cde40_key_pol p)) = ce_hash e"
    and "mread (place_mem p) (cde40_objid p i) (length (ce_body e)) = ce_body e"
    and "ce_ok (cde40_key_pol p) e" "length (ce_body e) < 65536"
  shows "cde40_get_len p i = length (ce_body e)"
proof (cases "ce_hashed (ce_hash e)")
  case True
  let ?n = "ha_size (cde40_key_pol p)" and ?b = "ce_body e"
  have b: "?n < length ?b" "drop ?n ?b = butlast (drop ?n ?b) @ [0]" "\<forall>c\<in>set (butlast (drop ?n ?b)). c \<noteq> 0"
    using assms(3) True append_butlast_last_id [of "drop ?n ?b"] by (auto simp: ce_ok_def last_drop)
  have "mread (place_mem p) (cde40_objid p i + int ?n) (length (drop ?n ?b)) = drop ?n ?b"
    using mread_part [of ?n "length ?b - ?n" "length ?b" "place_mem p" "cde40_objid p i"] assms(2) b(1) by simp
  from mem_str_eq [OF this b(2,3)] have "mem_str (place_mem p) (cde40_objid p i + int ?n) = butlast (drop ?n ?b)"
    using assms(4) by simp
  then show ?thesis
    using True assms(1) b(1) by (simp add: cde40_get_len_def Let_def hashed_eq)
next
  case False
  then show ?thesis using assms(1,3) by (simp add: cde40_get_len_def Let_def hashed_eq ce_ok_def)
qed

lemma holds_len:
  assumes "cde_holds p es" "i < length es"
  shows "cde40_get_len p i = length (ce_body (es ! i))"
proof (rule get_len_body)
  show "mread (place_mem p) (cde40_objid p i) (length (ce_body (es ! i))) = ce_body (es ! i)"
    using holdsD(5,6) [OF assms(1) assms(2)] by (simp add: cde40_objid_def)
  show "length (ce_body (es ! i)) < 65536"
    using ce_off_bound [OF assms(2), of "cde40_key_pol p"] holdsD(2) [OF assms(1)] by simp
qed (use holdsD [OF assms(1)] assms(2) in simp_all)

lemma holds_regsize:
  assumes "cde_holds p es" "pos + count \<le> length es"
  shows "cde40_regsize p pos count = bodies_len (take count (drop pos es))"
proof (cases "count = 0")
  case False
  let ?pol = "cde40_key_pol p"
  have t: "take (pos + count) es = take pos es @ take count (drop pos es)" by (rule take_add)
  have small: "ce_off ?pol es i \<le> cde_len ?pol es" for i using bodies_take_all by (simp add: ce_off_def cde_len_def)
  have d: "ce_off ?pol es (pos + count) = ce_off ?pol es pos + bodies_len (take count (drop pos es))"
    by (simp add: ce_off_def t)
  note off = holdsD(5) [OF assms(1)]
  show ?thesis
  proof (cases "pos + count < length es")
    case True
    then show ?thesis
      using False d small [of "pos + count"] holdsD(1,2) [OF assms(1)] off [of pos] off [of "pos + count"]
      by (simp add: cde40_regsize_def wrap_simps)
  next
    case last: False
    then have c: "pos + count - 1 < length es" "Suc (pos + count - 1) = pos + count" using assms(2) False by auto
    have "ce_off ?pol es (pos + count) = ce_off ?pol es (pos + count - 1) + length (ce_body (es ! (pos + count - 1)))"
      using ce_off_Suc [OF c(1)] c(2) by simp
    then have x: "int (cde40_get_len p (pos + count - 1)) + (int (cde_get_offset p (pos + count - 1)) - int (cde_get_offset p pos)) =
        int (bodies_len (take count (drop pos es)))"
      using d off [OF c(1)] off [of pos] holds_len [OF assms(1) c(1)] c(1) False by linarith
    have "bodies_len (take count (drop pos es)) < 65536" using d small [of "pos + count"] holdsD(2) [OF assms(1)] by linarith
    then show ?thesis
      using False last holdsD(1) [OF assms(1)] unfolding cde40_regsize_def x by (simp add: to_u32_nat)
  qed
qed (simp add: cde40_regsize_def)

section \<open>Making room\<close>

declare place_put_twice [simp]

lemma if_place_put: "(if c then place_put p a else p) = place_put p (if c then a else place_mem p)"
  by simp

lemma cde_put_simps [simp]:
  "cde40_key_pol (place_put p m) = cde40_key_pol p" "cde40_entry (place_put p m) i = cde40_entry p i"
  "cde40_key_pol (place_mkdirty p) = cde40_key_pol p" "cde40_entry (place_mkdirty p) i = cde40_entry p i"
  "cde40_key_pol (place_unit p u) = cde40_key_pol p" "cde40_entry (place_unit p u) i = cde40_entry p i"
  by (simp_all add: cde40_key_pol_def cde40_entry_def)

lemma add_offsets_read:
  "\<forall>j<n. a + int k \<le> e + int (en_size pol) * int j + int (ha_size pol) \<or> e + int (en_size pol) * int j + int (ha_size pol) + 2 \<le> a \<Longrightarrow>
   mread (cde40_add_offsets pol n m e d) a k = mread m a k"
proof (induction n arbitrary: m e)
  case (Suc n)
  have "\<forall>j<n. a + int k \<le> e + int (en_size pol) + int (en_size pol) * int j + int (ha_size pol) \<or>
      e + int (en_size pol) + int (en_size pol) * int j + int (ha_size pol) + 2 \<le> a"
  proof (intro allI impI)
    fix j assume "j < n"
    then show "a + int k \<le> e + int (en_size pol) + int (en_size pol) * int j + int (ha_size pol) \<or>
      e + int (en_size pol) + int (en_size pol) * int j + int (ha_size pol) + 2 \<le> a"
      using Suc.prems [rule_format, of "Suc j"] by (simp add: algebra_simps)
  qed
  then show ?case
    using Suc.IH Suc.prems [rule_format, of 0] by (simp add: en_set_offset_def mread_set_le_other)
qed simp

lemma add_offsets_get:
  assumes "j < n"
  shows "en_get_offset (cde40_add_offsets pol n m e d) (e + int (en_size pol) * int j) pol =
    nat ((int (en_get_offset m (e + int (en_size pol) * int j) pol) + d) mod 65536)"
  using assms
proof (induction n arbitrary: m e j)
  case (Suc n)
  let ?m = "en_set_offset m e (int (en_get_offset m e pol) + d) pol"
  have other: "en_get_offset ?m (e + int (en_size pol) * int j) pol = en_get_offset m (e + int (en_size pol) * int j) pol" if "j \<noteq> 0" for j
  proof -
    have "int (en_size pol) * 1 \<le> int (en_size pol) * int j" using that by (intro mult_left_mono) simp_all
    moreover have "2 \<le> int (en_size pol)" by (simp add: en_size_eq)
    ultimately have "2 \<le> int (en_size pol) * int j" by linarith
    then show ?thesis unfolding en_get_offset_def en_set_offset_def
      by (intro get_set_le_other disjI2) simp
  qed
  show ?case
  proof (cases j)
    case 0
    have "mread (cde40_add_offsets pol n ?m (e + int (en_size pol)) d) (e + int (ha_size pol)) 2 = mread ?m (e + int (ha_size pol)) 2"
    proof (intro add_offsets_read allI impI disjI1)
      fix j show "e + int (ha_size pol) + int 2 \<le> e + int (en_size pol) + int (en_size pol) * int j + int (ha_size pol)"
        using mult_nonneg_nonneg [of "int (en_size pol)" "int j"] en_size_eq [of pol] by simp
    qed
    then have "en_get_offset (cde40_add_offsets pol n ?m (e + int (en_size pol)) d) e pol = en_get_offset ?m e pol"
      by (simp add: en_get_offset_def get_le_def)
    then show ?thesis using 0 by (simp add: en_get_offset_def en_set_offset_def get_set_le)
  next
    case (Suc k)
    have e: "e + int (en_size pol) * int j = e + int (en_size pol) + int (en_size pol) * int k"
      using Suc by (simp add: algebra_simps)
    show ?thesis using Suc.IH [of k ?m "e + int (en_size pol)"] other [of j] Suc.prems Suc unfolding e by simp
  qed
qed simp

definition cde_gap :: "place \<Rightarrow> cde_entry list \<Rightarrow> nat \<Rightarrow> nat \<Rightarrow> nat \<Rightarrow> bool" where
  "cde_gap p es pos count room \<longleftrightarrow> (let pol = cde40_key_pol p; m = place_mem p in
     cde_get_units p = length es \<and>
     (\<forall>i<length es. let j = (if i < pos then i else i + count);
          off = ce_off pol es i + count * en_size pol + (if i < pos then 0 else room)
        in mread m (cde40_entry p j) (ha_size pol) = ce_hash (es ! i) \<and> cde_get_offset p j = off \<and>
           mread m (pl_body p + int off) (length (ce_body (es ! i))) = ce_body (es ! i)))"

lemma expand_eq:
  fixes p es pos count len
  defines "pol \<equiv> cde40_key_pol p" and "n \<equiv> length es"
  defines "m \<equiv> cde40_add_offsets pol (n - pos) (cde40_add_offsets pol pos (place_mem p) (cde40_entry p 0) (int (count * en_size pol)))
      (cde40_entry p pos) (int len)"
  assumes "cde_holds p es" "pos \<le> n" "ce_off pol es pos + count * en_size pol < 65536"
  shows "cde40_expand p pos count len = (ce_off pol es pos + count * en_size pol, place_mkdirty (place_put p
     (memmove (memmove m (pl_body p + int (ce_off pol es pos + len)) (pl_body p + int (ce_off pol es pos)) (bodies_len (drop pos es)))
        (cde40_entry p pos + int (count * en_size pol)) (cde40_entry p pos) ((n - pos) * en_size pol + bodies_len (take pos es)))))"
proof -
  note h = holdsD [OF assms(4), folded pol_def]
  have off: "(if n > 0 then (if pos < n then cde_get_offset p pos
      else to_u32 (int (cde_get_offset p (n - 1)) + int (cde40_get_len p (n - 1)))) else cde40_t_size) = ce_off pol es pos"
  proof (cases "pos < n")
    case False
    then have pos: "pos = n" using assms(5) by simp
    show ?thesis
    proof (cases "n = 0")
      case nz: False
      then have n1: "n - 1 < length es" "Suc (n - 1) = n" by (simp_all add: n_def)
      have "int (cde_get_offset p (n - 1)) + int (cde40_get_len p (n - 1)) = int (ce_off pol es n)"
        using ce_off_Suc [OF n1(1), of pol] h(5) [OF n1(1)] holds_len [OF assms(4) n1(1)] n1(2) by simp
      moreover have "ce_off pol es n < 65536" using h(2) by (simp add: cde_len_def n_def)
      ultimately show ?thesis using nz pos to_u32_nat [of "ce_off pol es n"] by simp
    qed (use pos in \<open>simp add: ce_off_def n_def\<close>)
  qed (use h(5) [of pos] in \<open>auto simp: n_def\<close>)
  have reg: "cde40_regsize p 0 pos = bodies_len (take pos es)" "cde40_regsize p pos (n - pos) = bodies_len (drop pos es)"
    using holds_regsize [OF assms(4), of 0 pos] holds_regsize [OF assms(4), of pos "n - pos"] assms(5) by (simp_all add: n_def)
  have "(n - pos) * en_size pol + bodies_len (take pos es) \<le> ce_off pol es pos"
    using mult_le_mono1 [OF diff_le_self, of n pos "en_size pol"] unfolding ce_off_def n_def by linarith
  then have first: "to_u32 (int ((n - pos) * en_size pol) + int (bodies_len (take pos es))) = (n - pos) * en_size pol + bodies_len (take pos es)"
    using assms(6) by (intro to_u32_add) linarith
  have res: "to_u32 (int (ce_off pol es pos) + int (count * en_size pol)) = ce_off pol es pos + count * en_size pol"
    using assms(6) by (intro to_u32_add) linarith
  have skip: "bodies_len (drop pos es) = 0" if "\<not> pos < n" using that by (simp add: n_def)
  show ?thesis
    unfolding cde40_expand_def Let_def pol_def [symmetric] h(1) n_def [symmetric] off reg first res
    using skip by (simp add: m_def add.assoc)
qed

text \<open>Headers and bodies do not overlap.\<close>

lemma entry_before: "i < j \<Longrightarrow> cde40_entry p i + int (en_size (cde40_key_pol p)) \<le> cde40_entry p j"
proof -
  assume "i < j"
  then have "en_size (cde40_key_pol p) * Suc i \<le> en_size (cde40_key_pol p) * j" by (intro mult_le_mono2) simp
  then have "int (en_size (cde40_key_pol p) * Suc i) \<le> int (en_size (cde40_key_pol p) * j)" by (simp only: of_nat_le_iff)
  then show ?thesis by (simp add: cde40_entry_def algebra_simps)
qed

lemma entry_add: "cde40_entry p (i + c) = cde40_entry p i + int (c * en_size (cde40_key_pol p))"
  by (simp add: cde40_entry_def algebra_simps)

lemma entry_end: "cde40_entry p (length es) + int (bodies_len (take i es)) = pl_body p + int (ce_off (cde40_key_pol p) es i)"
  by (simp add: cde40_entry_def ce_off_def algebra_simps)

lemma add_offsets_hash:
  "mread (cde40_add_offsets (cde40_key_pol p) n m (cde40_entry p i) d) (cde40_entry p j) (ha_size (cde40_key_pol p)) =
   mread m (cde40_entry p j) (ha_size (cde40_key_pol p))"
proof (intro add_offsets_read allI impI)
  fix k
  have e: "cde40_entry p i + int (en_size (cde40_key_pol p)) * int k = cde40_entry p (i + k)" by (simp add: cde40_entry_def algebra_simps)
  show "cde40_entry p j + int (ha_size (cde40_key_pol p)) \<le> cde40_entry p i + int (en_size (cde40_key_pol p)) * int k + int (ha_size (cde40_key_pol p)) \<or>
      cde40_entry p i + int (en_size (cde40_key_pol p)) * int k + int (ha_size (cde40_key_pol p)) + 2 \<le> cde40_entry p j"
    unfolding e using entry_before [of j "i + k" p] entry_before [of "i + k" j p] en_size_eq [of "cde40_key_pol p"]
    by (cases "j < i + k"; cases "j = i + k") auto
qed

lemma add_offsets_body:
  assumes "cde40_entry p (i + n) \<le> a"
  shows "mread (cde40_add_offsets (cde40_key_pol p) n m (cde40_entry p i) d) a k = mread m a k"
proof (intro add_offsets_read allI impI disjI2)
  fix j assume "j < n"
  have "cde40_entry p i + int (en_size (cde40_key_pol p)) * int j = cde40_entry p (i + j)" by (simp add: cde40_entry_def algebra_simps)
  then show "cde40_entry p i + int (en_size (cde40_key_pol p)) * int j + int (ha_size (cde40_key_pol p)) + 2 \<le> a"
    using entry_before [of "i + j" "i + n" p] \<open>j < n\<close> assms en_size_eq [of "cde40_key_pol p"] by simp
qed

lemma add_offsets_off:
  "en_get_offset (cde40_add_offsets (cde40_key_pol p) n m (cde40_entry p i) d) (cde40_entry p j) (cde40_key_pol p) =
   (if i \<le> j \<and> j < i + n then nat ((int (en_get_offset m (cde40_entry p j) (cde40_key_pol p)) + d) mod 65536)
    else en_get_offset m (cde40_entry p j) (cde40_key_pol p))"
proof (cases "i \<le> j \<and> j < i + n")
  case True
  have "cde40_entry p j = cde40_entry p i + int (en_size (cde40_key_pol p)) * int (j - i)"
    using True by (simp add: cde40_entry_def algebra_simps of_nat_diff)
  then show ?thesis using True add_offsets_get [of "j - i" n "cde40_key_pol p" m "cde40_entry p i" d] by auto
next
  case False
  let ?pol = "cde40_key_pol p"
  have "mread (cde40_add_offsets ?pol n m (cde40_entry p i) d) (cde40_entry p j + int (ha_size ?pol)) 2 = mread m (cde40_entry p j + int (ha_size ?pol)) 2"
  proof (intro add_offsets_read allI impI)
    fix k assume "k < n"
    have e: "cde40_entry p i + int (en_size ?pol) * int k = cde40_entry p (i + k)" by (simp add: cde40_entry_def algebra_simps)
    have "j < i + k \<or> i + k < j" using False \<open>k < n\<close> by auto
    then show "cde40_entry p j + int (ha_size ?pol) + int 2 \<le> cde40_entry p i + int (en_size ?pol) * int k + int (ha_size ?pol) \<or>
       cde40_entry p i + int (en_size ?pol) * int k + int (ha_size ?pol) + 2 \<le> cde40_entry p j + int (ha_size ?pol)"
      unfolding e using entry_before [of j "i + k" p] entry_before [of "i + k" j p] en_size_eq [of "cde40_key_pol p"] by auto
  qed
  then show ?thesis unfolding if_not_P [OF False] by (simp add: en_get_offset_def get_le_def)
qed

lemma expand_gap:
  fixes p es pos count room
  defines "pol \<equiv> cde40_key_pol p"
  assumes "cde_holds p es" "pos \<le> length es" "cde_len pol es + count * en_size pol + room < 65536"
  obtains q where "cde40_expand p pos count (count * en_size pol + room) = (ce_off pol es pos + count * en_size pol, q)"
    and "cde_gap q es pos count room" "pl_body q = pl_body p" "pl_key q = pl_key p" "pl_pos q = pl_pos p" "pl_len q = pl_len p"
proof -
  define n where "n = length es"
  define hs where "hs = count * en_size pol"
  define m where "m = cde40_add_offsets pol (n - pos) (cde40_add_offsets pol pos (place_mem p) (cde40_entry p 0) (int hs))
      (cde40_entry p pos) (int (hs + room))"
  define m3 where "m3 = memmove m (pl_body p + int (ce_off pol es pos + (hs + room))) (pl_body p + int (ce_off pol es pos)) (bodies_len (drop pos es))"
  define m4 where "m4 = memmove m3 (cde40_entry p pos + int hs) (cde40_entry p pos) ((n - pos) * en_size pol + bodies_len (take pos es))"
  define q where "q = place_mkdirty (place_put p m4)"
  note h = holdsD [OF assms(2), folded pol_def n_def]
  have small: "ce_off pol es i + hs + room < 65536" for i
    using assms(4) bodies_take_all [of i es] by (simp add: ce_off_def cde_len_def hs_def)
  have run: "cde40_expand p pos count (hs + room) = (ce_off pol es pos + hs, q)"
    unfolding q_def m4_def m3_def m_def hs_def n_def pol_def
    by (rule expand_eq [OF assms(2,3)]) (use small [of pos] in \<open>simp add: pol_def hs_def\<close>)
  have bds: "cde40_entry p n \<le> pl_body p + int (ce_off pol es i)" for i
    using entry_end [where es = es, of p i] by (simp add: n_def pol_def)
  have m_hash: "mread m (cde40_entry p i) (ha_size pol) = mread (place_mem p) (cde40_entry p i) (ha_size pol)" for i
    by (simp only: m_def pol_def add_offsets_hash)
  have le: "cde40_entry p i \<le> cde40_entry p j" if "i \<le> j" for i j
    using that entry_before [of i j p] by (cases "i = j") auto
  have pos: "pos + (n - pos) = n" "pos \<le> n" using assms(3) by (simp_all add: n_def)
  have m_body: "mread m (pl_body p + int (ce_off pol es i)) k = mread (place_mem p) (pl_body p + int (ce_off pol es i)) k" for i k
    using order_trans [OF le [OF pos(2)] bds [of i]] bds [of i] pos
    by (simp add: m_def pol_def add_offsets_body)
  have m_off: "en_get_offset m (cde40_entry p i) pol = ce_off pol es i + hs + (if i < pos then 0 else room)" if "i < n" for i
  proof -
    have o: "en_get_offset (place_mem p) (cde40_entry p i) pol = ce_off pol es i"
      using h(5) [of i] that by (simp add: cde_get_offset_def pol_def n_def)
    have sm: "nat ((int (ce_off pol es i) + int d) mod 65536) = ce_off pol es i + d" if "d \<le> hs + room" for d
      using that small [of i] by (simp add: nat_mod_as_int flip: of_nat_add)
    show ?thesis
      using that pos o [unfolded pol_def] sm [of hs] sm [of "hs + room"]
      by (auto simp: m_def pol_def add_offsets_off)
  qed
  have cut: "cde40_entry p pos + int hs + int ((n - pos) * en_size pol + bodies_len (take pos es)) = pl_body p + int (ce_off pol es pos) + int hs"
    using entry_end [where es = es, of p pos] entry_add [of p pos "n - pos"] pos by (simp add: n_def pol_def)
  have below: "pl_body p + int (ce_off pol es i) + int (length (ce_body (es ! i))) \<le> pl_body p + int (ce_off pol es pos)" if "i < pos" for i
    using that assms(3) ce_off_Suc [of i es pol] bodies_take_mono [of "Suc i" pos es] by (simp add: ce_off_def)
  have above: "ce_off pol es pos \<le> ce_off pol es i" if "pos \<le> i" for i
    using bodies_take_mono [OF that, of es] by (simp add: ce_off_def)
  have E: "en_size pol = ha_size pol + 2" by (rule en_size_eq)
  have headers: "mread m4 (cde40_entry p j) (ha_size pol) = ce_hash (es ! i)" "en_get_offset m4 (cde40_entry p j) pol = en_get_offset m (cde40_entry p i) pol"
    if "i < n" "j = (if i < pos then i else i + count)" for i j
  proof -
    have e: "cde40_entry p i + int (en_size pol) \<le> cde40_entry p n" using entry_before [OF that(1), of p] by (simp add: pol_def)
    then have far: "cde40_entry p i + int (en_size pol) \<le> pl_body p + int (ce_off pol es pos + (hs + room))" using bds [of pos] by simp
    have part: "mread m4 (cde40_entry p j + int d) k = mread m (cde40_entry p i + int d) k" if k: "d + k \<le> en_size pol" for d k
    proof (cases "i < pos")
      case True
      then have "cde40_entry p i + int (en_size pol) \<le> cde40_entry p pos" using entry_before [OF True, of p] by (simp add: pol_def)
      then show ?thesis using True k far \<open>j = _\<close> by (simp add: m4_def m3_def mem_simps)
    next
      case False
      have j: "cde40_entry p j = cde40_entry p i + int hs" using False \<open>j = _\<close> entry_add [of p i count] by (simp add: hs_def pol_def)
      have "cde40_entry p pos \<le> cde40_entry p i" using False le by simp
      then have "mread m4 (cde40_entry p j + int d) k = mread m3 (cde40_entry p i + int d) k"
        unfolding m4_def using k e cut bds [of pos] j
        by (subst mread_memmove) (auto simp: algebra_simps)
      then show ?thesis using k far by (simp add: m3_def mem_simps)
    qed
    show "mread m4 (cde40_entry p j) (ha_size pol) = ce_hash (es ! i)"
      using part [of 0 "ha_size pol"] E m_hash [of i] h(4) [of i] that(1) by (simp add: n_def)
    show "en_get_offset m4 (cde40_entry p j) pol = en_get_offset m (cde40_entry p i) pol"
      using part [of "ha_size pol" 2] E by (simp add: en_get_offset_def get_le_def)
  qed
  have bodies: "mread m4 (pl_body p + int (ce_off pol es i + hs + (if i < pos then 0 else room))) (length (ce_body (es ! i))) = ce_body (es ! i)"
    if "i < n" for i
  proof -
    have b: "mread m (pl_body p + int (ce_off pol es i)) (length (ce_body (es ! i))) = ce_body (es ! i)"
      using m_body h(6) [of i] that by (simp add: n_def)
    show ?thesis
    proof (cases "i < pos")
      case True
      have "mread m4 (pl_body p + int (ce_off pol es i) + int hs) (length (ce_body (es ! i))) =
          mread m3 (pl_body p + int (ce_off pol es i)) (length (ce_body (es ! i)))"
        unfolding m4_def using below [OF True] cut bds [of i] le [OF pos(2)]
        by (subst mread_memmove) (auto simp: algebra_simps)
      then show ?thesis using True below [OF True] b by (simp add: m3_def mem_simps algebra_simps)
    next
      case False
      let ?l = "length (ce_body (es ! i))"
      have "mread m4 (pl_body p + int (ce_off pol es i + hs + room)) ?l = mread m3 (pl_body p + int (ce_off pol es i + hs + room)) ?l"
        unfolding m4_def using above [of i] False cut by (intro mread_memmove_other disjI2) simp
      also have "\<dots> = mread m (pl_body p + int (ce_off pol es i)) ?l"
      proof -
        have "ce_off pol es i + ?l \<le> ce_off pol es pos + bodies_len (drop pos es)"
          using ce_off_bound [of i es pol] that pos(2) bodies_len_simps(3) [of "take pos es" "drop pos es"]
          by (simp add: ce_off_def cde_len_def n_def)
        then show ?thesis unfolding m3_def using above [of i] False by (subst mread_memmove) (auto simp: algebra_simps)
      qed
      finally show ?thesis using False b by simp
    qed
  qed
  have units: "cde_get_units q = n"
  proof -
    have two: "2 \<le> int (ce_off pol es pos)" "pl_body p + 2 \<le> cde40_entry p pos" by (simp_all add: ce_off_def cde40_entry_def)
    have "mread m4 (pl_body p) 2 = mread m3 (pl_body p) 2"
      unfolding m4_def using two by (intro mread_memmove_other disjI1) simp
    also have "\<dots> = mread m (pl_body p) 2"
      unfolding m3_def using two by (intro mread_memmove_other disjI1) simp
    also have "\<dots> = mread (place_mem p) (pl_body p) 2"
      unfolding m_def pol_def
      by (subst add_offsets_read, simp add: cde40_entry_def add_increasing2)+ simp
    finally show ?thesis using h(1) by (simp add: q_def cde_get_units_def get_le_def n_def)
  qed
  show ?thesis
  proof
    show "cde40_expand p pos count (count * en_size pol + room) = (ce_off pol es pos + count * en_size pol, q)" using run by (simp add: hs_def)
    show "cde_gap q es pos count room"
      unfolding cde_gap_def Let_def
      using units headers bodies m_off by (simp add: q_def cde_get_offset_def hs_def n_def pol_def split del: if_split)
  qed (simp_all add: q_def)
qed

text \<open>Filling the room with entries.\<close>

definition gap_start :: "place \<Rightarrow> cde_entry list \<Rightarrow> nat \<Rightarrow> nat \<Rightarrow> int" where
  "gap_start p es pos count = pl_body p + int (ce_off (cde40_key_pol p) es pos + count * en_size (cde40_key_pol p))"

definition cde_filled :: "place \<Rightarrow> mem \<Rightarrow> cde_entry list \<Rightarrow> nat \<Rightarrow> cde_entry list \<Rightarrow> bool" where
  "cde_filled q m es pos ns \<longleftrightarrow> (let pol = cde40_key_pol q; count = length ns; g = gap_start q es pos count in
     (\<forall>a k. (a + int k \<le> cde40_entry q pos \<or> cde40_entry q (pos + count) \<le> a) \<and> (a + int k \<le> g \<or> g + int (bodies_len ns) \<le> a) \<longrightarrow>
        mread m a k = mread (place_mem q) a k) \<and>
     (\<forall>j<count. mread m (cde40_entry q (pos + j)) (ha_size pol) = ce_hash (ns ! j) \<and>
        en_get_offset m (cde40_entry q (pos + j)) pol = ce_off pol es pos + count * en_size pol + bodies_len (take j ns) \<and>
        mread m (g + int (bodies_len (take j ns))) (length (ce_body (ns ! j))) = ce_body (ns ! j)))"

lemma take_length_add: "take (length xs + n) (xs @ ys) = xs @ take n ys"
  by simp

lemma filled_holds:
  fixes q es pos ns m
  defines "pol \<equiv> cde40_key_pol q" and "es' \<equiv> take pos es @ ns @ drop pos es"
  assumes gap: "cde_gap q es pos (length ns) (bodies_len ns)" and fill: "cde_filled q m es pos ns"
    and ok: "\<forall>e\<in>set es \<union> set ns. ce_ok pol e" and pos: "pos \<le> length es" and small: "cde_len pol es' < 65536"
    and p: "pl_body p = pl_body q" "cde40_key_pol p = pol" "place_mem p = set_le 2 m (pl_body q) (int (length es'))"
  shows "cde_holds p es'"
proof -
  define c where "c = length ns"
  define hs where "hs = c * en_size pol"
  define g where "g = gap_start q es pos c"
  have len: "length es' = length es + c" using pos by (simp add: es'_def c_def)
  have un: "length es' < 65536" using small mult_le_mono2 [of 1 "en_size pol" "length es'"] en_size_eq [of pol]
    by (simp add: cde_len_def ce_off_def)
  have E: "cde40_entry p i = cde40_entry q i" for i using p(1,2) by (simp add: cde40_entry_def pol_def)
  have bd: "pl_body q + 2 \<le> cde40_entry q i" for i by (simp add: cde40_entry_def)
  have rd: "mread (place_mem p) a k = mread m a k" if "pl_body q + 2 \<le> a" for a k
    unfolding p(3) using that by (intro mread_set_le_other disjI2) simp
  have off: "en_get_offset (place_mem p) (cde40_entry q i) pol = en_get_offset m (cde40_entry q i) pol" for i
    using bd [of i] by (simp add: en_get_offset_def get_le_def rd)
  have bnd: "pl_body q + 2 \<le> pl_body q + int (ce_off pol xs i)" for xs i by (simp add: ce_off_def)
  note frame = fill [unfolded cde_filled_def Let_def, THEN conjunct1, rule_format, folded c_def pol_def, folded g_def]
  note new = fill [unfolded cde_filled_def Let_def, THEN conjunct2, rule_format, folded c_def pol_def, folded hs_def g_def]
  have units: "cde_get_units p = length es'" using un by (simp add: cde_get_units_def p(1,3) get_set_le)
  have all: "mread (place_mem p) (cde40_entry p i) (ha_size pol) = ce_hash (es' ! i) \<and> cde_get_offset p i = ce_off pol es' i \<and>
        mread (place_mem p) (pl_body p + int (ce_off pol es' i)) (length (ce_body (es' ! i))) = ce_body (es' ! i)" if i: "i < length es'" for i
  proof -
    note old = gap [unfolded cde_gap_def Let_def, THEN conjunct2, rule_format, folded c_def pol_def, folded hs_def]
    have o: "ce_off pol es' i = 2 + length es * en_size pol + hs + bodies_len (take i es')"
      by (simp add: ce_off_def len hs_def algebra_simps)
    have g: "g = pl_body q + int (ce_off pol es pos + hs)" by (simp add: g_def gap_start_def pol_def hs_def)
    have cut: "cde40_entry q (length es + c) \<le> pl_body q + int (ce_off pol es j + hs)" for j
      using entry_end [where es = es, of q j] entry_add [of q "length es" c] by (simp add: pol_def hs_def)
    have gle: "cde40_entry q (length es + c) \<le> g" using cut [of pos] g by simp
    have gap_le: "cde40_entry q (pos + c) \<le> cde40_entry q (length es + c)"
      using entry_before [of "pos + c" "length es + c" q] pos by (cases "pos = length es") auto
    have E2: "en_size pol = ha_size pol + 2" by (rule en_size_eq)
    have keep: "mread m (cde40_entry q j) (ha_size pol) = mread (place_mem q) (cde40_entry q j) (ha_size pol) \<and>
        en_get_offset m (cde40_entry q j) pol = en_get_offset (place_mem q) (cde40_entry q j) pol"
      if "j < length es + c" "j < pos \<or> pos + c \<le> j" for j
    proof -
      have "cde40_entry q j + int (en_size pol) \<le> g" using entry_before [OF that(1), of q] gle by (simp add: pol_def)
      moreover have "cde40_entry q j + int (en_size pol) \<le> cde40_entry q pos \<or> cde40_entry q (pos + c) \<le> cde40_entry q j"
        using that(2) entry_before [of j pos q] entry_before [of "pos + c" j q] by (cases "j = pos + c") (auto simp: pol_def)
      ultimately show ?thesis
        using E2 by (auto simp: en_get_offset_def get_le_def intro!: frame arg_cong [where f = le_value])
    qed
    consider (a) "i < pos" | (b) j where "i = pos + j" "j < c" | (c) k where "i = k + c" "pos \<le> k" "k < length es"
    proof (cases "i < pos + c")
      case True
      then show thesis using that(1) that(2) [of "i - pos"] by (cases "i < pos") auto
    next
      case False
      then show thesis using that(3) [of "i - c"] i len by auto
    qed
    then show ?thesis
    proof cases
      case a
      then have b: "es' ! i = es ! i" "bodies_len (take i es') = bodies_len (take i es)" using pos by (simp_all add: es'_def nth_append)
      then have oe: "ce_off pol es' i = ce_off pol es i + hs" using o by (simp add: ce_off_def)
      have "pl_body q + int (ce_off pol es i + hs) + int (length (ce_body (es ! i))) \<le> g"
        using a pos ce_off_Suc [of i es pol] bodies_take_mono [of "Suc i" pos es] g by (simp add: ce_off_def)
      then have "mread m (pl_body q + int (ce_off pol es i + hs)) (length (ce_body (es ! i))) =
          mread (place_mem q) (pl_body q + int (ce_off pol es i + hs)) (length (ce_body (es ! i)))"
        using cut [of i] gap_le by (intro frame) auto
      then show ?thesis
        using a b(1) oe old [of i] pos keep [of i] rd [OF bd [of i]] rd [OF bnd [of es' i]] off [of i]
        by (simp add: E p(1,2) cde_get_offset_def pol_def)
    next
      case b
      then have x: "es' ! i = ns ! j" "bodies_len (take i es') = bodies_len (take pos es) + bodies_len (take j ns)"
        using pos by (simp_all add: es'_def nth_append c_def)
      then have oe: "ce_off pol es' i = ce_off pol es pos + hs + bodies_len (take j ns)" using o by (simp add: ce_off_def)
      then show ?thesis
        using b x(1) new [of j] rd [OF bd [of i]] rd [OF bnd [of es' i]] off [of i] g
        by (simp add: E p(1,2) cde_get_offset_def algebra_simps)
    next
      case c
      then have x: "es' ! i = es ! k" using pos by (simp add: es'_def nth_append c_def min_def)
      have "take i es' = take pos es @ ns @ take (k - pos) (drop pos es)"
        using take_length_add [of "take pos es @ ns" "k - pos" "drop pos es"] c(1,2) pos by (simp add: es'_def c_def add.commute)
      moreover have "bodies_len (take k es) = bodies_len (take pos es) + bodies_len (take (k - pos) (drop pos es))"
        using take_add [of pos "k - pos" es] c(2) by simp
      ultimately have oe: "ce_off pol es' i = ce_off pol es k + hs + bodies_len ns" using o by (simp add: ce_off_def)
      have "g + int (bodies_len ns) \<le> pl_body q + int (ce_off pol es k + hs + bodies_len ns)"
        using bodies_take_mono [OF c(2), of es] g by (simp add: ce_off_def)
      then have "mread m (pl_body q + int (ce_off pol es k + hs + bodies_len ns)) (length (ce_body (es ! k))) =
          mread (place_mem q) (pl_body q + int (ce_off pol es k + hs + bodies_len ns)) (length (ce_body (es ! k)))"
        using cut [of k] gap_le by (intro frame) auto
      then show ?thesis
        using c x oe old [of k] pos keep [of i] rd [OF bd [of i]] rd [OF bnd [of es' i]] off [of i]
        by (simp add: E p(1,2) cde_get_offset_def pol_def)
    qed
  qed
  show ?thesis
    unfolding cde_holds_def Let_def p(2)
    using units all small ok by (auto simp: es'_def dest: in_set_takeD in_set_dropD)
qed

end
