(* ===== verification/CdeOps.thy ===== *)
theory CdeOps
  imports CdeUnits
begin

text \<open>
  Insertion and removal of entries, on the list of entries of an item.
\<close>

unbundle bit_operations_syntax

section \<open>Insertion\<close>

definition ce_of :: "nat \<Rightarrow> entry_hint \<Rightarrow> cde_entry" where
  "ce_of pol e = (let k = eh_offset e in
     \<lparr>ce_hash = (if pol = 3 then [] else le_bytes 8 (unat (reiser4_key_get_ordering k))) @
        le_bytes 8 (unat (reiser4_key_get_fobjectid k)) @ le_bytes 8 (unat (reiser4_key_get_offset k)),
      ce_body = key_bytes (kbody (eh_object e)) (ob_size pol) @ (if reiser4_key_hashed k then eh_name e @ [0] else [])\<rparr>)"

definition hint_ok :: "nat \<Rightarrow> entry_hint \<Rightarrow> bool" where
  "hint_ok pol e \<longleftrightarrow> key_plug_bodysize (kplug (eh_offset e)) = pol \<and> (\<forall>c\<in>set (eh_name e). c \<noteq> 0)"

lemma length_key_bytes_pol [simp]: "length (key_bytes b (ha_size pol)) = ha_size pol"
  by (simp add: key_bytes_def length_concat comp_def sum_list_triv ha_size_def)

lemma le_bytes_word [simp]: "word_of_nat (le_value (le_bytes 8 (unat (w :: u64)))) = w"
  using unsigned_less [of w] by (subst le_value_bytes) simp_all

lemma ce_of_ok:
  assumes "hint_ok pol e"
  shows "ce_ok pol (ce_of pol e)" "ce_hashed (ce_hash (ce_of pol e)) \<longleftrightarrow> reiser4_key_hashed (eh_offset e)"
    "length (ce_body (ce_of pol e)) = cde40_entry_len pol e"
proof -
  show h: "ce_hashed (ce_hash (ce_of pol e)) \<longleftrightarrow> reiser4_key_hashed (eh_offset e)"
  proof (cases "kplug (eh_offset e)")
    case KEY_SHORT
    then have "pol = 3" using assms by (simp add: hint_ok_def key_plug_bodysize_def key_short_bodysize_def)
    then have "take 8 (ce_hash (ce_of pol e)) = le_bytes 8 (unat (reiser4_key_get_fobjectid (eh_offset e)))"
      by (simp add: ce_of_def Let_def)
    then show ?thesis
      using KEY_SHORT unfolding ce_hashed_def by (simp add: reiser4_key_hashed_def key_short_hashed_def reiser4_key_get_fobjectid_def key_short_get_fobjectid_def)
  next
    case KEY_LARGE
    then have "pol \<noteq> 3" using assms by (simp add: hint_ok_def key_plug_bodysize_def key_large_bodysize_def)
    then have "take 8 (ce_hash (ce_of pol e)) = le_bytes 8 (unat (reiser4_key_get_ordering (eh_offset e)))"
      by (simp add: ce_of_def Let_def)
    then show ?thesis
      using KEY_LARGE unfolding ce_hashed_def by (simp add: reiser4_key_hashed_def key_large_hashed_def reiser4_key_get_ordering_def)
  qed
  show "ce_ok pol (ce_of pol e)"
  proof -
    have l: "length (ce_hash (ce_of pol e)) = ha_size pol" by (simp add: ce_of_def Let_def ha_size_def)
    have b: "ce_body (ce_of pol e) = key_bytes (kbody (eh_object e)) (ha_size pol) @
        (if reiser4_key_hashed (eh_offset e) then eh_name e @ [0] else [])" by (simp add: ce_of_def Let_def)
    have z: "\<forall>c\<in>set (eh_name e). c \<noteq> 0" using assms by (simp add: hint_ok_def)
    show ?thesis using l z unfolding ce_ok_def h b by simp
  qed
  show "length (ce_body (ce_of pol e)) = cde40_entry_len pol e"
    by (simp add: ce_of_def cde40_entry_len_def Let_def)
qed

lemma put_entry_effect:
  assumes "cde40_put_entry pol body e m entry offset = (m', offset')" "entry + int (en_size pol) \<le> body + int offset" "offset < 65536"
  shows "offset' = offset + cde40_entry_len pol e"
    and "mread m' entry (ha_size pol) = ce_hash (ce_of pol e)" and "en_get_offset m' entry pol = offset"
    and "mread m' (body + int offset) (cde40_entry_len pol e) = ce_body (ce_of pol e)"
    and "(a + int k \<le> entry \<or> entry + int (en_size pol) \<le> a) \<and> (a + int k \<le> body + int offset \<or> body + int offset' \<le> a) \<Longrightarrow>
      mread m' a k = mread m a k"
proof -
  define m1 where "m1 = en_set_offset m entry (int offset) pol"
  define m4 where "m4 = ha_set_offset (ha_set_objectid (ha_set_ordering m1 entry (reiser4_key_get_ordering (eh_offset e)) pol)
      entry (reiser4_key_get_fobjectid (eh_offset e)) pol) entry (reiser4_key_get_offset (eh_offset e)) pol"
  have m': "m' = mwrite m4 (body + int offset) (ce_body (ce_of pol e)) \<and> offset' = offset + cde40_entry_len pol e"
  proof -
    have "mwrite (mwrite m a xs) (a + int (length xs)) ys = mwrite m a (xs @ ys)" for m a xs ys
      by (auto simp: mwrite_def fun_eq_iff nth_append nat_less_iff nat_diff_distrib algebra_simps intro!: arg_cong [where f = "(!) ys"])
    from this [of _ "body + int offset" "key_bytes (kbody (eh_object e)) (ha_size pol)"] this [of _ "body + int offset" "key_bytes (kbody (eh_object e)) (ha_size pol) @ eh_name e"]
    show ?thesis
      using assms(1) by (auto simp: cde40_put_entry_def Let_def m1_def m4_def ce_of_def cde40_entry_len_def algebra_simps split: if_splits)
  qed
  have E: "en_size pol = ha_size pol + 2" by (rule en_size_eq)
  have len: "length (ce_body (ce_of pol e)) = cde40_entry_len pol e" by (simp add: ce_of_def cde40_entry_len_def Let_def)
  have m1: "mread m' a k = mread m4 a k" if "a + int k \<le> body + int offset \<or> body + int offset + int (cde40_entry_len pol e) \<le> a" for a k
    using m' that len by (simp add: mread_other)
  have m4: "mread m4 a k = mread m1 a k" if "a + int k \<le> entry \<or> entry + int (ha_size pol) \<le> a" for a k
    using that by (auto simp: m4_def ha_set_offset_def ha_set_objectid_def ha_set_ordering_def ha_size_def mread_set_le_other split: if_splits)
  have hash: "mread m4 entry (ha_size pol) = ce_hash (ce_of pol e)"
  proof -
    have r: "mread (set_le 8 m a (uint w)) a 8 = le_bytes 8 (unat w)" for m a and w :: u64
    proof -
      have "nat (uint w mod 18446744073709551616) = unat w" using uint_lt2p [of w] by (simp add: mod_pos_pos_trivial)
      then show ?thesis by (simp add: set_le_def mread_same)
    qed
    show ?thesis
    proof (cases "pol = 3")
      case True
      then show ?thesis using mread_split [of m4 entry 8 8]
        by (simp add: ce_of_def Let_def m4_def ha_size_def ha_set_offset_def ha_set_objectid_def ha_set_ordering_def mread_set_le_other r)
    next
      case False
      have "mread m4 entry 24 = mread m4 entry 8 @ mread m4 (entry + 8) 8 @ mread m4 (entry + 16) 8"
        using mread_split [of m4 entry 8 16] mread_split [of m4 "entry + 8" 8 8] by (simp add: add.commute)
      then show ?thesis using False
        by (simp add: ce_of_def Let_def m4_def ha_size_def ha_set_offset_def ha_set_objectid_def ha_set_ordering_def mread_set_le_other r)
    qed
  qed
  show "offset' = offset + cde40_entry_len pol e" using m' by simp
  show "mread m' entry (ha_size pol) = ce_hash (ce_of pol e)" using m1 [of entry] hash assms(2) E by simp
  show "en_get_offset m' entry pol = offset"
    using m1 [of "entry + int (ha_size pol)" 2] m4 [of "entry + int (ha_size pol)" 2] assms(2,3) E get_set_le [of 2 m "entry + int (ha_size pol)" "int offset"]
    by (simp add: en_get_offset_def get_le_def m1_def en_set_offset_def)
  show "mread m' (body + int offset) (cde40_entry_len pol e) = ce_body (ce_of pol e)" using m' len by (simp add: mread_same)
  show "mread m' a k = mread m a k"
    if "(a + int k \<le> entry \<or> entry + int (en_size pol) \<le> a) \<and> (a + int k \<le> body + int offset \<or> body + int offset' \<le> a)"
    using m1 [of a k] m4 [of a k] that m' E by (auto simp: m1_def en_set_offset_def mread_set_le_other)
qed

lemma bodies_len_of: "bodies_len (map (ce_of pol) hs) = sum_list (map (cde40_entry_len pol) hs)"
  by (induction hs) (simp_all add: ce_of_def cde40_entry_len_def Let_def)

lemma put_entries_frame:
  assumes "entry + int (en_size pol * length hs) \<le> body + int offset" "offset + bodies_len (map (ce_of pol) hs) < 65536"
    and "(a + int k \<le> entry \<or> entry + int (en_size pol * length hs) \<le> a)"
    and "(a + int k \<le> body + int offset \<or> body + int (offset + bodies_len (map (ce_of pol) hs)) \<le> a)"
  shows "mread (cde40_put_entries pol body hs m entry offset) a k = mread m a k"
  using assms
proof (induction hs arbitrary: m entry offset)
  case (Cons e hs)
  obtain m' o' where p: "cde40_put_entry pol body e m entry offset = (m', o')" by fastforce
  have l: "length (ce_body (ce_of pol e)) = cde40_entry_len pol e" by (simp add: ce_of_def cde40_entry_len_def Let_def)
  have pos: "0 \<le> int (en_size pol) * int (length hs)" by simp
  have len: "int (en_size pol * length (e # hs)) = int (en_size pol) + int (en_size pol) * int (length hs)" by (simp add: algebra_simps)
  have e: "entry + int (en_size pol) \<le> body + int offset" "offset < 65536"
    using Cons.prems(1,2) pos len by linarith+
  note eff = put_entry_effect [OF p e]
  have "mread (cde40_put_entries pol body hs m' (entry + int (en_size pol)) o') a k = mread m' a k"
    using Cons.prems eff(1) pos by (intro Cons.IH) (auto simp: l algebra_simps)
  also have "\<dots> = mread m a k"
  proof (rule eff(5), intro conjI)
    show "a + int k \<le> entry \<or> entry + int (en_size pol) \<le> a"
      using Cons.prems(3) by (rule disj_forward) (use pos len in linarith)+
    show "a + int k \<le> body + int offset \<or> body + int o' \<le> a"
      using Cons.prems(4) eff(1) l by auto
  qed
  finally show ?case by (simp add: p)
qed simp

lemma put_entries_new:
  assumes "entry + int (en_size pol * length hs) \<le> body + int offset" "offset + bodies_len (map (ce_of pol) hs) < 65536" "j < length hs"
  shows "mread (cde40_put_entries pol body hs m entry offset) (entry + int (en_size pol * j)) (ha_size pol) = ce_hash (ce_of pol (hs ! j)) \<and>
    en_get_offset (cde40_put_entries pol body hs m entry offset) (entry + int (en_size pol * j)) pol =
      offset + bodies_len (take j (map (ce_of pol) hs)) \<and>
    mread (cde40_put_entries pol body hs m entry offset) (body + int (offset + bodies_len (take j (map (ce_of pol) hs))))
      (length (ce_body (ce_of pol (hs ! j)))) = ce_body (ce_of pol (hs ! j))"
  using assms
proof (induction hs arbitrary: m entry offset j)
  case (Cons e hs)
  obtain m' o' where p: "cde40_put_entry pol body e m entry offset = (m', o')" by fastforce
  have l: "length (ce_body (ce_of pol e)) = cde40_entry_len pol e" by (simp add: ce_of_def cde40_entry_len_def Let_def)
  have pos: "0 \<le> int (en_size pol) * int (length hs)" by simp
  have len: "int (en_size pol * length (e # hs)) = int (en_size pol) + int (en_size pol) * int (length hs)" by (simp add: algebra_simps)
  have e: "entry + int (en_size pol) \<le> body + int offset" "offset < 65536"
    using Cons.prems(1,2) pos len by linarith+
  note eff = put_entry_effect [OF p e]
  let ?m = "cde40_put_entries pol body hs m' (entry + int (en_size pol)) o'"
  have pre: "entry + int (en_size pol) + int (en_size pol * length hs) \<le> body + int o'" "o' + bodies_len (map (ce_of pol) hs) < 65536"
    using Cons.prems(1,2) eff(1) by (simp_all add: l algebra_simps)
  show ?case
  proof (cases j)
    case 0
    have E: "en_size pol = ha_size pol + 2" by (rule en_size_eq)
    have "mread ?m entry (ha_size pol) = mread m' entry (ha_size pol)"
      using e E eff(1) pre(1) by (intro put_entries_frame [OF pre]) auto
    moreover have "mread ?m (entry + int (ha_size pol)) 2 = mread m' (entry + int (ha_size pol)) 2"
      using e E eff(1) pre(1) by (intro put_entries_frame [OF pre]) auto
    moreover have "mread ?m (body + int offset) (cde40_entry_len pol e) = mread m' (body + int offset) (cde40_entry_len pol e)"
      using Cons.prems(1) eff(1) by (intro put_entries_frame [OF pre]) (auto simp: algebra_simps)
    ultimately show ?thesis using 0 eff(2,3,4) p l by (simp add: en_get_offset_def get_le_def)
  next
    case (Suc i)
    have "entry + int (en_size pol) + int (en_size pol * i) = entry + int (en_size pol * j)" using Suc by simp
    then show ?thesis
      using Cons.IH [OF pre, of i m'] Cons.prems(3) Suc p eff(1) l by (simp add: add.assoc)
  qed
qed simp

lemma holds_cong:
  "pl_body q = pl_body p \<Longrightarrow> cde40_key_pol q = cde40_key_pol p \<Longrightarrow> place_mem q = place_mem p \<Longrightarrow> cde_holds q es \<longleftrightarrow> cde_holds p es"
  by (simp add: cde_holds_def cde_get_units_def cde_get_offset_def cde40_entry_def)

lemma kplug_get_hash [simp]: "kplug (cde40_get_hash p i) = kplug (pl_key p)"
  by (cases "kplug (pl_key p)")
    (simp_all add: cde40_get_hash_def Let_def reiser4_key_build_generic_def key_short_build_generic_def key_large_build_generic_def)

lemma holds_key [simp]: "cde_holds (p\<lparr>pl_key := cde40_get_hash p' 0\<rparr>) es \<longleftrightarrow> cde_holds p es" if "kplug (pl_key p') = kplug (pl_key p)"
  by (rule holds_cong) (simp_all add: that cde40_key_pol_def place_mem_def)

lemma holds_dirty [simp]: "cde_holds (place_mkdirty p) es \<longleftrightarrow> cde_holds p es"
  by (rule holds_cong) simp_all

lemma holds_empty: "cde_get_units p = 0 \<Longrightarrow> cde_holds p []"
  by (simp add: cde_holds_def cde_len_def ce_off_def)

definition entries_hint :: "place \<Rightarrow> 'd trans_hint \<Rightarrow> entry_hint list \<Rightarrow> bool" where
  "entries_hint p hint hs \<longleftrightarrow> (let pol = cde40_key_pol p in
     th_specific hint = SP_ENTRIES hs \<and> th_count hint = length hs \<and>
     th_len hint = int (length hs * en_size pol + sum_list (map (cde40_entry_len pol) hs)) \<and> (\<forall>e\<in>set hs. hint_ok pol e))"

lemma insert_filled:
  assumes "cde_holds p es" "pos \<le> length es" "\<forall>e\<in>set hs. hint_ok (cde40_key_pol p) e"
    and "cde_len (cde40_key_pol p) (take pos es @ map (ce_of (cde40_key_pol p)) hs @ drop pos es) < 65536"
  defines "pol \<equiv> cde40_key_pol p" and "ns \<equiv> map (ce_of (cde40_key_pol p)) hs"
  obtains off q where "cde40_expand p pos (length hs) (length hs * en_size pol + bodies_len ns) = (off, q)"
    and "cde_holds (cde_inc_units (place_put q (cde40_put_entries pol (pl_body q) hs (place_mem q) (cde40_entry q pos) off)) (length hs))
        (take pos es @ ns @ drop pos es)"
    and "pl_body q = pl_body p" "pl_key q = pl_key p" "pl_pos q = pl_pos p" "pl_len q = pl_len p"
proof -
  have small: "cde_len pol es + length hs * en_size pol + bodies_len ns < 65536"
    using assms(4) bodies_len_simps(3) [of "take pos es" "drop pos es"] assms(2)
    by (simp add: pol_def ns_def cde_len_def ce_off_def algebra_simps)
  obtain q where q: "cde40_expand p pos (length hs) (length hs * en_size pol + bodies_len ns) = (ce_off pol es pos + length hs * en_size pol, q)"
      "cde_gap q es pos (length hs) (bodies_len ns)" "pl_body q = pl_body p" "pl_key q = pl_key p" "pl_pos q = pl_pos p" "pl_len q = pl_len p"
    using expand_gap [OF assms(1,2), of "length hs" "bodies_len ns"] small by (auto simp: pol_def)
  have Q: "cde40_key_pol q = pol" using q(4) by (simp add: cde40_key_pol_def pol_def)
  let ?off = "ce_off pol es pos + length hs * en_size pol"
  let ?m = "cde40_put_entries pol (pl_body q) hs (place_mem q) (cde40_entry q pos) ?off"
  have pre: "cde40_entry q pos + int (en_size pol * length hs) \<le> pl_body q + int ?off" "?off + bodies_len ns < 65536"
  proof -
    have "cde40_entry q pos \<le> cde40_entry q (length es)" using entry_before [of pos "length es" q] assms(2) by (cases "pos = length es") auto
    then show "cde40_entry q pos + int (en_size pol * length hs) \<le> pl_body q + int ?off"
      using entry_end [where es = es, of q pos] by (simp add: Q mult.commute)
    show "?off + bodies_len ns < 65536"
      using small bodies_take_all [of pos es] unfolding ce_off_def cde_len_def by simp
  qed
  have e: "cde40_entry q (pos + j) = cde40_entry q pos + int (en_size pol * j)" for j by (simp add: entry_add Q mult.commute)
  have g: "gap_start q es pos (length ns) = pl_body q + int ?off" by (simp add: gap_start_def Q ns_def)
  have "cde_filled q ?m es pos ns"
    unfolding cde_filled_def Let_def Q g e
    using put_entries_frame [OF pre [unfolded ns_def, folded pol_def]] put_entries_new [OF pre [unfolded ns_def, folded pol_def]]
    by (auto simp: ns_def pol_def algebra_simps)
  then have "cde_holds (cde_inc_units (place_put q ?m) (length hs)) (take pos es @ ns @ drop pos es)"
  proof (rule filled_holds [rotated])
    show "cde_gap q es pos (length ns) (bodies_len ns)" using q(2) by (simp add: ns_def)
    show "\<forall>e\<in>set es \<union> set ns. ce_ok (cde40_key_pol q) e"
      using holdsD(3) [OF assms(1)] assms(3) ce_of_ok(1) by (auto simp: Q pol_def ns_def)
    have "mread ?m (pl_body q) 2 = mread (place_mem q) (pl_body q) 2"
      by (rule put_entries_frame [OF pre [unfolded ns_def, folded pol_def]]) (simp_all add: cde40_entry_def ce_off_def)
    then have "get_le 2 ?m (pl_body q) = length es"
      using q(2) by (simp add: cde_gap_def Let_def cde_get_units_def get_le_def)
    then show "place_mem (cde_inc_units (place_put q ?m) (length hs)) = set_le 2 ?m (pl_body q) (int (length (take pos es @ ns @ drop pos es)))"
      using assms(2) by (simp add: cde_inc_units_def cde_set_units_def cde_get_units_def ns_def add.commute)
  qed (use assms(2,4) in \<open>simp_all add: Q pol_def ns_def cde_inc_units_def cde_set_units_def\<close>)
  then show ?thesis using that q by blast
qed

lemma insert_units_entries:
  assumes "entries_hint p hint hs" "if unit (pl_pos p) = MAX_UINT32 then es = [] else cde_holds p es \<and> unit (pl_pos p) \<le> length es"
  defines "pol \<equiv> cde40_key_pol p" and "u \<equiv> if unit (pl_pos p) = MAX_UINT32 then 0 else unit (pl_pos p)"
  assumes "cde_len pol (take u es @ map (ce_of pol) hs @ drop u es) < 65536"
  obtains q where "cde40_insert_units p hint = (int (length hs), q, hint)"
    and "cde_holds q (take u es @ map (ce_of pol) hs @ drop u es)" "cde40_key_pol q = pol" "pl_body q = pl_body p"
    and "pl_len q = pl_len p" "pl_pos q = (pl_pos p)\<lparr>unit := u\<rparr>"
proof -
  define r where "r = (if unit (pl_pos p) = MAX_UINT32 then place_unit (cde_set_units p 0) 0 else p)"
  have r: "cde_holds r es" "unit (pl_pos r) = u" "cde40_key_pol r = pol" "pl_body r = pl_body p" "pl_len r = pl_len p"
      "pl_pos r = (pl_pos p)\<lparr>unit := u\<rparr>" "u \<le> length es" "pl_key r = pl_key p"
    using assms(2) by (auto simp: r_def u_def pol_def cde_set_units_def cde_get_units_def get_set_le place_unit_def place_put_def
      place_mem_def cde40_key_pol_def intro!: holds_empty split: if_splits)
  have hint: "th_specific hint = SP_ENTRIES hs" "th_count hint = length hs" "\<forall>e\<in>set hs. hint_ok pol e"
      "th_len hint = int (length hs * en_size pol + bodies_len (map (ce_of pol) hs))"
    using assms(1) by (simp_all add: entries_hint_def Let_def pol_def bodies_len_of)
  obtain off q where q: "cde40_expand r u (length hs) (length hs * en_size pol + bodies_len (map (ce_of pol) hs)) = (off, q)"
      "cde_holds (cde_inc_units (place_put q (cde40_put_entries pol (pl_body q) hs (place_mem q) (cde40_entry q u) off)) (length hs))
        (take u es @ map (ce_of pol) hs @ drop u es)"
      "pl_body q = pl_body r" "pl_key q = pl_key r" "pl_pos q = pl_pos r" "pl_len q = pl_len r"
    using insert_filled [OF r(1,7), unfolded r(3), OF hint(3) assms(5)] by metis
  have len: "to_u32 (th_len hint) = length hs * en_size pol + bodies_len (map (ce_of pol) hs)"
    using assms(5) r(7) unfolding hint(4) by (intro to_u32_nat) (simp add: cde_len_def ce_off_def algebra_simps)
  define w where "w = cde_inc_units (place_put q (cde40_put_entries pol (pl_body q) hs (place_mem q) (cde40_entry q u) off)) (length hs)"
  have w: "pl_key w = pl_key p" "pl_body w = pl_body p" "pl_len w = pl_len p" "pl_pos w = (pl_pos p)\<lparr>unit := u\<rparr>"
    using q r by (simp_all add: w_def cde_inc_units_def cde_set_units_def)
  define w' where "w' = (if u = 0 then w\<lparr>pl_key := cde40_get_hash w 0\<rparr> else w)"
  have w': "cde_holds w' (take u es @ map (ce_of pol) hs @ drop u es)" "kplug (pl_key w') = kplug (pl_key p)" "pl_body w' = pl_body p"
      "pl_len w' = pl_len p" "pl_pos w' = (pl_pos p)\<lparr>unit := u\<rparr>"
    unfolding w'_def using q(2) [folded w_def] w by (cases "u = 0"; simp)+
  show ?thesis
  proof
    show "cde40_insert_units p hint = (int (length hs), place_mkdirty w', hint)"
      unfolding cde40_insert_units_def Let_def r_def [symmetric] pol_def [symmetric] r(2) hint(1,2) len q(1)
      using q(5) r(2,6) by (simp add: sp_entries_def w'_def w_def cde_inc_units_def cde_set_units_def)
  qed (use w' in \<open>simp_all add: cde40_key_pol_def pol_def\<close>)
qed

section \<open>Removal\<close>

lemma cut_holds:
  fixes p es pos count
  defines "pol \<equiv> cde40_key_pol p" and "es' \<equiv> take pos es @ drop (pos + count) es"
  assumes "cde_holds p es" "pos + count \<le> length es" "0 < count"
  obtains q where "cde40_cut p pos count (cde_len pol es) = (count * en_size pol + bodies_len (take count (drop pos es)), q)"
    and "cde_holds q es'" "pl_body q = pl_body p" "pl_key q = pl_key p" "pl_pos q = pl_pos p" "pl_len q = pl_len p"
proof -
  define n where "n = length es"
  define hs where "hs = count * en_size pol"
  define rem where "rem = bodies_len (take count (drop pos es))"
  define m1 where "m1 = memmove (place_mem p) (cde40_entry p pos) (cde40_entry p pos + int hs)
      ((n - (pos + count)) * en_size pol + bodies_len (take pos es))"
  define m2 where "m2 = cde40_add_offsets pol pos m1 (cde40_entry p 0) (- int hs)"
  define src where "src = pl_body p + int (ce_off pol es (pos + count))"
  define m3 where "m3 = memmove m2 (src - int (hs + rem)) src (bodies_len (drop (pos + count) es))"
  define m4 where "m4 = (if pos + count = n then m2 else cde40_add_offsets pol (n - count - pos) m3 (cde40_entry p pos) (- int (hs + rem)))"
  define q where "q = place_mkdirty (cde_dec_units (place_put p m4) count)"
  note h = holdsD [OF assms(3), folded pol_def n_def]
  have pc: "pos + count \<le> n" "pos \<le> n" using assms(4) by (simp_all add: n_def)
  have offs: "ce_off pol es (pos + count) = ce_off pol es pos + rem"
    using take_add [of pos count es] by (simp add: ce_off_def rem_def)
  have sm: "ce_off pol es i < 65536" for i
    using h(2) bodies_take_all [of i es] by (simp add: ce_off_def cde_len_def)
  have total: "bodies_len es = bodies_len (take pos es) + rem + bodies_len (drop (pos + count) es)"
    using bodies_len_simps(3) [of "take (pos + count) es" "drop (pos + count) es", unfolded append_take_drop_id]
    unfolding take_add [of pos count es] by (simp add: rem_def)
  have hs: "hs \<le> n * en_size pol" using mult_le_mono1 [of count n "en_size pol"] pc by (simp add: hs_def)
  have E: "en_size pol = ha_size pol + 2" by (rule en_size_eq)
  have le: "cde40_entry p i \<le> cde40_entry p j" if "i \<le> j" for i j
    using that entry_before [of i j p] by (cases "i = j") auto
  have endp: "cde40_entry p n + int (bodies_len (take i es)) = pl_body p + int (ce_off pol es i)" for i
    using entry_end [where es = es, of p i] by (simp add: n_def pol_def)
  have eadd: "cde40_entry p (i + count) = cde40_entry p i + int hs" for i using entry_add [of p i count] by (simp add: hs_def pol_def)
  have top: "cde40_entry p pos + int ((n - (pos + count)) * en_size pol + bodies_len (take pos es)) + int hs = pl_body p + int (ce_off pol es pos)"
    using endp [of pos] entry_add [of p "pos + count" "n - (pos + count)"] pc eadd [of pos] by (simp add: pol_def)
  have m1_head: "mread m1 (cde40_entry p i + int d) k = mread (place_mem p) (cde40_entry p (if i < pos then i else i + count) + int d) k"
    if "i < n - count" "d + k \<le> en_size pol" for i d k
  proof (cases "i < pos")
    case True
    then show ?thesis
      using that(2) entry_before [OF True, of p] by (simp add: m1_def mread_memmove_other pol_def)
  next
    case False
    have "cde40_entry p i + int (en_size pol) \<le> cde40_entry p (n - count)" using entry_before [OF that(1), of p] by (simp add: pol_def)
    moreover have "cde40_entry p (n - count) + int hs = cde40_entry p n" using eadd [of "n - count"] pc by simp
    ultimately show ?thesis
      unfolding m1_def using False that(2) top endp [of pos] le [of pos i] eadd [of pos] eadd [of i]
      by (subst mread_memmove) (auto simp: algebra_simps)
  qed
  have bigger: "ce_off pol es i \<le> ce_off pol es j" if "i \<le> j" for i j
    using bodies_take_mono [OF that, of es] by (simp add: ce_off_def)
  have below: "ce_off pol es i + length (ce_body (es ! i)) \<le> ce_off pol es pos" if "i < pos" for i
    using that pc bigger [of "Suc i" pos] ce_off_Suc [of i es pol] by (simp add: n_def)
  have hs_off: "hs + 2 \<le> ce_off pol es i" for i using hs by (simp add: ce_off_def n_def)
  have posle: "cde40_entry p pos \<le> cde40_entry p (n - count)" using pc by (intro le) simp
  have m1_low: "mread m1 (pl_body p + int (ce_off pol es i - hs)) (length (ce_body (es ! i))) =
      mread (place_mem p) (pl_body p + int (ce_off pol es i)) (length (ce_body (es ! i)))" if "i < pos" for i
    unfolding m1_def using that below [OF that] top endp [of i] posle pc eadd [of "n - count"] eadd [of pos] hs_off [of i]
    by (subst mread_memmove) (auto simp: eadd algebra_simps of_nat_diff)
  have m1_high: "mread m1 (pl_body p + int (ce_off pol es i)) k = mread (place_mem p) (pl_body p + int (ce_off pol es i)) k" if "pos \<le> i" for i k
    unfolding m1_def using bigger [OF that] top by (intro mread_memmove_other disjI2) simp
  have pos0: "cde40_entry p (0 + pos) \<le> pl_body p + int (ce_off pol es i)" for i using endp [of i] le [of pos n] pc by simp
  have pos0': "cde40_entry p (0 + pos) \<le> pl_body p + int (ce_off pol es i - hs)" for i
    using endp [of i] posle eadd [of "n - count"] pc hs_off [of i] by (simp add: of_nat_diff)
  have m2_body: "mread m2 (pl_body p + int (ce_off pol es i)) k = mread m1 (pl_body p + int (ce_off pol es i)) k"
    "mread m2 (pl_body p + int (ce_off pol es i - hs)) k = mread m1 (pl_body p + int (ce_off pol es i - hs)) k" for i k
    unfolding m2_def pol_def by (rule add_offsets_body [OF pos0 [unfolded pol_def]], rule add_offsets_body [OF pos0' [unfolded pol_def]])
  have m2_off: "en_get_offset m2 (cde40_entry p i) pol = ce_off pol es (if i < pos then i else i + count) - (if i < pos then hs else 0)" if "i < n - count" for i
  proof -
    have o: "en_get_offset m1 (cde40_entry p i) pol = ce_off pol es (if i < pos then i else i + count)"
      using m1_head [OF that, of "ha_size pol" 2] E h(5) [of "if i < pos then i else i + count"] that pc
      by (auto simp: en_get_offset_def get_le_def cde_get_offset_def pol_def n_def)
    have "nat ((int (ce_off pol es i) - int hs) mod 65536) = ce_off pol es i - hs"
      using hs_off [of i] sm [of i] by (simp add: nat_mod_as_int flip: of_nat_diff)
    then show ?thesis using o by (simp add: m2_def pol_def add_offsets_off)
  qed
  have run: "cde40_cut p pos count (cde_len pol es) = (hs + rem, q)"
  proof -
    have reg: "cde40_regsize p 0 pos = bodies_len (take pos es)" "cde40_regsize p pos count = rem"
      using holds_regsize [OF assms(3), of 0 pos] holds_regsize [OF assms(3), of pos count] assms(4) by (simp_all add: rem_def)
    have o: "cde_get_offset p i = ce_off pol es i" if "i < n" for i using h(5) [of i] that by (simp add: n_def)
    have len: "cde_len pol es = ce_off pol es pos + rem + bodies_len (drop (pos + count) es)"
      unfolding cde_len_def ce_off_def using total by simp
    have first: "to_u32 (int ((n - (pos + count)) * en_size pol) + int (bodies_len (take pos es))) =
        (n - (pos + count)) * en_size pol + bodies_len (take pos es)"
      using sm [of pos] mult_le_mono1 [OF diff_le_self, of n "pos + count" "en_size pol"] unfolding ce_off_def n_def [symmetric]
      by (intro to_u32_add) linarith
    have res: "to_u32 (int rem + int hs) = hs + rem"
      using sm [of "pos + count"] hs unfolding ce_off_def offs n_def [symmetric] using offs by (simp add: ce_off_def to_u32_id n_def)
    have nz: "count \<noteq> 0" "\<not> n < pos + count" using assms(5) pc by simp_all
    show ?thesis
    proof (cases "pos + count = n")
      case True
      have r: "to_u32 (int (cde_len pol es) - int (cde_get_offset p pos)) = rem"
        using True len o [of pos] nz h(2) by (simp add: n_def to_u32_nat)
      show ?thesis
        unfolding cde40_cut_def Let_def pol_def [symmetric] h(1) n_def [symmetric]
        using nz True r first res reg by (simp add: q_def m4_def m2_def m1_def hs_def mult.commute [of "en_size pol"])
    next
      case False
      then have k: "pos + count < length es" "pos + count < n" using pc by (simp_all add: n_def)
      have "0 < length (ce_body (es ! (pos + count)))"
        using h(3) [of "es ! (pos + count)"] k ha_size_pos(1) [of pol] by (auto simp: ce_ok_def split: if_splits)
      moreover have "length (ce_body (es ! (pos + count))) \<le> bodies_len (drop (pos + count) es)"
        using Cons_nth_drop_Suc [OF k(1)] bodies_len_simps(2) [of "es ! (pos + count)" "drop (Suc (pos + count)) es"] by simp
      ultimately have sec: "0 < bodies_len (drop (pos + count) es)" by linarith
      have s2: "to_u32 (int (cde_len pol es) - int (cde_get_offset p (pos + count))) = bodies_len (drop (pos + count) es)"
        using len o [OF k(2)] offs h(2) by (simp add: to_u32_nat)
      have o1: "en_get_offset m2 (cde40_entry p pos) pol = ce_off pol es (pos + count)"
        using m2_off [of pos] k(2) by simp
      have g: "cde_get_offset (place_put p m2) pos = ce_off pol es (pos + count)"
        using o1 by (simp add: cde_get_offset_def pol_def)
      have c: "en_size pol * count = hs" "(pos + count > n) = False" "(count = 0) = False" "(pos + count = n) = False"
        "(0 < bodies_len (drop (pos + count) es)) = True"
        using nz False sec by (simp_all add: hs_def)
      show ?thesis
        unfolding cde40_cut_def Let_def pol_def [symmetric] h(1) n_def [symmetric]
        unfolding hs_def [symmetric] s2 first reg c if_False if_True m1_def [symmetric] place_put_simps cde_put_simps place_put_twice
          pol_def [symmetric] m2_def [symmetric] g src_def [symmetric] m3_def [symmetric] res
        by (simp add: q_def m4_def c(4))
    qed
  qed
  have m2_head: "mread m2 (cde40_entry p i) (ha_size pol) = mread m1 (cde40_entry p i) (ha_size pol)" for i
    by (simp only: m2_def pol_def add_offsets_hash)
  have new_off: "ce_off pol es' i = ce_off pol es (if i < pos then i else i + count) - hs - (if i < pos then 0 else rem)" if "i < n - count" for i
  proof -
    have "length es' * en_size pol = n * en_size pol - hs" using pc by (simp add: es'_def n_def hs_def diff_mult_distrib)
    moreover have "bodies_len (take i es') = bodies_len (take i es)" if "i < pos" using that pc by (simp add: es'_def n_def)
    moreover have "bodies_len (take (i + count) es) = bodies_len (take i es') + rem" if "\<not> i < pos"
    proof -
      have "take i es' = take pos es @ take (i - pos) (drop (pos + count) es)"
        using that pc take_length_add [of "take pos es" "i - pos" "drop (pos + count) es"] by (simp add: es'_def n_def)
      moreover have "take (i + count) es = take pos es @ take count (drop pos es) @ take (i - pos) (drop (pos + count) es)"
        using that take_add [of "pos + count" "i - pos" es] take_add [of pos count es] by (simp add: algebra_simps)
      ultimately show ?thesis by (simp add: rem_def)
    qed
    ultimately show ?thesis using hs by (cases "i < pos"; simp add: ce_off_def n_def)
  qed
  have new_nth: "es' ! i = es ! (if i < pos then i else i + count)" if "i < n - count" for i
    using that pc by (auto simp: es'_def nth_append n_def algebra_simps)
  have fin: "mread m4 (cde40_entry p i) (ha_size pol) = ce_hash (es' ! i) \<and> en_get_offset m4 (cde40_entry p i) pol = ce_off pol es' i \<and>
      mread m4 (pl_body p + int (ce_off pol es' i)) (length (ce_body (es' ! i))) = ce_body (es' ! i)" if i: "i < n - count" for i
  proof -
    let ?j = "if i < pos then i else i + count"
    have j: "?j < length es" using i pc by (auto simp: n_def)
    have src: "src - int (hs + rem) = pl_body p + int (ce_off pol es pos - hs)"
      using hs_off [of pos] offs by (simp add: src_def of_nat_diff)
    have room: "cde40_entry p (n - count) \<le> pl_body p + int (ce_off pol es k - hs)" for k
      using endp [of k] eadd [of "n - count"] pc hs_off [of k] by (simp add: of_nat_diff)
    have ei: "cde40_entry p i + int (en_size pol) \<le> cde40_entry p (n - count)" using entry_before [OF i, of p] by (simp add: pol_def)
    have body: "mread (place_mem p) (pl_body p + int (ce_off pol es ?j)) (length (ce_body (es ! ?j))) = ce_body (es ! ?j)"
      using h(6) [of ?j] j by (simp add: n_def)
    have m3_head: "mread m3 (cde40_entry p i + int d) k = mread m2 (cde40_entry p i + int d) k" if "d + k \<le> en_size pol" for d k
      unfolding m3_def src using that ei room [of pos] by (intro mread_memmove_other disjI1) simp
    have hash: "mread m4 (cde40_entry p i) (ha_size pol) = mread m2 (cde40_entry p i) (ha_size pol)"
      using m3_head [of 0 "ha_size pol"] E by (simp add: m4_def pol_def add_offsets_hash)
    have head: "mread m4 (cde40_entry p i) (ha_size pol) = ce_hash (es ! ?j)"
      using hash m2_head [of i] m1_head [OF i, of 0 "ha_size pol"] E h(4) [of ?j] j by (simp add: n_def)
    have off: "en_get_offset m4 (cde40_entry p i) pol = ce_off pol es' i"
    proof (cases "pos + count = n")
      case True
      then have "i < pos" using i by auto
      then show ?thesis using True m2_off [OF i] new_off [OF i] by (simp add: m4_def)
    next
      case False
      have "en_get_offset m3 (cde40_entry p i) pol = en_get_offset m2 (cde40_entry p i) pol"
        using m3_head [of "ha_size pol" 2] E by (simp add: en_get_offset_def get_le_def)
      moreover have "nat ((int (ce_off pol es (i + count)) + (- int hs - int rem)) mod 65536) = ce_off pol es (i + count) - hs - rem" if "pos \<le> i"
      proof -
        have "hs + rem \<le> ce_off pol es (i + count)" using bigger [of "pos + count" "i + count"] that offs hs_off [of pos] by simp
        moreover from this have "int (ce_off pol es (i + count)) + (- int hs - int rem) = int (ce_off pol es (i + count) - (hs + rem))"
          by (simp add: of_nat_diff)
        ultimately show ?thesis using sm [of "i + count"] by (simp add: nat_mod_as_int del: of_nat_diff)
      qed
      ultimately show ?thesis
        using i False m2_off [OF i] new_off [OF i] by (auto simp: m4_def pol_def add_offsets_off)
    qed
    have bod: "mread m4 (pl_body p + int (ce_off pol es' i)) (length (ce_body (es ! ?j))) = ce_body (es ! ?j)"
    proof (cases "i < pos")
      case True
      have low: "mread m2 (pl_body p + int (ce_off pol es i - hs)) (length (ce_body (es ! i))) = ce_body (es ! i)"
        using m2_body(2) m1_low [OF True] body True by simp
      have m3: "mread m3 (pl_body p + int (ce_off pol es i - hs)) (length (ce_body (es ! i))) =
          mread m2 (pl_body p + int (ce_off pol es i - hs)) (length (ce_body (es ! i)))"
        unfolding m3_def src using below [OF True] hs_off [of i] by (intro mread_memmove_other disjI1) (simp add: of_nat_diff)
      have "mread m4 (pl_body p + int (ce_off pol es i - hs)) k = mread (if pos + count = n then m2 else m3) (pl_body p + int (ce_off pol es i - hs)) k" for k
        using pc room [of i] by (auto simp: m4_def pol_def intro!: add_offsets_body)
      then show ?thesis using True low m3 new_off [OF i] by simp
    next
      case False
      then have ne: "pos + count \<noteq> n" using i by auto
      have o: "pl_body p + int (ce_off pol es' i) = pl_body p + int (ce_off pol es (i + count)) - int (hs + rem)"
        using False new_off [OF i] bigger [of "pos + count" "i + count"] offs hs_off [of pos] by (simp add: of_nat_diff)
      have "mread m4 (pl_body p + int (ce_off pol es' i)) k = mread m3 (pl_body p + int (ce_off pol es' i)) k" for k
        unfolding o using ne pc room [of pos] False bigger [of "pos + count" "i + count"] offs hs_off [of pos]
        by (simp add: m4_def pol_def of_nat_diff) (rule add_offsets_body, simp)
      also have "mread m3 (pl_body p + int (ce_off pol es' i)) (length (ce_body (es ! (i + count)))) =
          mread m2 (pl_body p + int (ce_off pol es (i + count))) (length (ce_body (es ! (i + count))))"
      proof -
        have "ce_off pol es (i + count) + length (ce_body (es ! (i + count))) \<le> ce_off pol es (pos + count) + bodies_len (drop (pos + count) es)"
          using ce_off_bound [of "i + count" es pol] j False total offs by (simp add: ce_off_def cde_len_def)
        then show ?thesis
          unfolding m3_def o src_def using False bigger [of "pos + count" "i + count"]
          by (subst mread_memmove) (auto simp: algebra_simps)
      qed
      also have "\<dots> = ce_body (es ! (i + count))"
        using m2_body(1) m1_high [of "i + count"] body False by simp
      finally show ?thesis using False by simp
    qed
    show ?thesis using head off bod new_nth [OF i] by simp
  qed
  have rd: "mread (place_mem q) a k = mread m4 a k" if "pl_body p + 2 \<le> a" for a k
    using that by (simp add: q_def cde_dec_units_def cde_set_units_def mread_set_le_other)
  have en: "cde40_entry q i = cde40_entry p i" "cde40_key_pol q = pol" for i
    by (simp_all add: q_def cde_dec_units_def cde_set_units_def pol_def)
  have bd: "pl_body p + 2 \<le> cde40_entry p i" "pl_body p + 2 \<le> pl_body p + int (ce_off pol es' i)" for i
    by (simp_all add: cde40_entry_def ce_off_def)
  have pb: "pl_body q = pl_body p" by (simp add: q_def cde_dec_units_def cde_set_units_def)
  have offq: "en_get_offset (place_mem q) (cde40_entry p i) pol = en_get_offset m4 (cde40_entry p i) pol" for i
    using rd [of "cde40_entry p i + int (ha_size pol)" 2] bd(1) [of i] by (simp add: en_get_offset_def get_le_def)
  have units: "cde_get_units q = n - count"
  proof -
    have two: "pl_body p + 2 \<le> src - int (hs + rem)" using offs hs_off [of pos] by (simp add: src_def)
    have "mread m2 (pl_body p) 2 = mread m1 (pl_body p) 2" "mread m4 (pl_body p) 2 = mread m2 (pl_body p) 2"
      using two unfolding m2_def m4_def pol_def m3_def
      by (auto simp: cde40_entry_def mread_memmove_other intro!: add_offsets_read trans [OF add_offsets_read])
    moreover have "mread m1 (pl_body p) 2 = mread (place_mem p) (pl_body p) 2"
      unfolding m1_def by (intro mread_memmove_other disjI1) (simp add: cde40_entry_def)
    ultimately have "get_le 2 m4 (pl_body p) = n" using h(1) by (simp add: cde_get_units_def get_le_def)
    moreover have "n < 65536" using h(2) mult_le_mono2 [of 1 "en_size pol" n] E by (simp add: cde_len_def ce_off_def n_def)
    ultimately show ?thesis
      using pc by (simp add: q_def cde_dec_units_def cde_set_units_def cde_get_units_def get_set_le nat_mod_as_int flip: of_nat_diff)
  qed
  have len': "length es' = n - count" using pc by (simp add: es'_def n_def)
  have "cde_len pol es' \<le> cde_len pol es"
  proof -
    have "bodies_len es' \<le> bodies_len es" using total by (simp add: es'_def)
    moreover have "(n - count) * en_size pol \<le> n * en_size pol" by (rule mult_le_mono1) simp
    ultimately show ?thesis unfolding cde_len_eq len' n_def by linarith
  qed
  moreover have "\<forall>e\<in>set es'. ce_ok pol e" using h(3) by (auto simp: es'_def dest: in_set_takeD in_set_dropD)
  ultimately have "cde_holds q es'"
    unfolding cde_holds_def Let_def en len' cde_get_offset_def pb
    using units fin h(2) rd [OF bd(1)] rd [OF bd(2)] offq by simp
  then show ?thesis using that run by (simp add: hs_def rem_def q_def cde_dec_units_def cde_set_units_def)
qed

lemma shrink_holds:
  fixes p es pos count
  defines "pol \<equiv> cde40_key_pol p"
  assumes "cde_holds p es" "pos + count \<le> length es" "0 < count"
  obtains q where "cde40_shrink p pos count = (count * en_size pol + bodies_len (take count (drop pos es)), q)"
    and "cde_holds q (take pos es @ drop (pos + count) es)" "pl_body q = pl_body p" "pl_key q = pl_key p" "pl_pos q = pl_pos p"
    "pl_len q = pl_len p"
proof -
  note h = holdsD [OF assms(2), folded pol_def]
  have n: "length es - 1 < length es" "Suc (length es - 1) = length es" using assms(3,4) by auto
  have "int (cde_get_offset p (length es - 1)) + int (cde40_get_len p (length es - 1)) = int (cde_len pol es)"
    using h(5) [OF n(1)] holds_len [OF assms(2) n(1)] ce_off_Suc [OF n(1), of pol] n(2) by (simp add: cde_len_def)
  then have len: "to_u32 (int (cde_get_offset p (length es - 1)) + int (cde40_get_len p (length es - 1))) = cde_len pol es"
    using h(2) by (simp add: to_u32_nat)
  have "cde40_shrink p pos count = cde40_cut p pos count (cde_len pol es)"
    using assms(3,4) h(1) len by (simp add: cde40_shrink_def Let_def)
  then show ?thesis using cut_holds [OF assms(2-4), folded pol_def] that by metis
qed

lemma remove_entries:
  fixes p es hint
  defines "u \<equiv> unit (pl_pos p)" and "c \<equiv> th_count hint" and "pol \<equiv> cde40_key_pol p"
  assumes "cde_holds p es" "u + c \<le> length es" "0 < c"
  obtains q hint' where "cde40_remove_units p hint = (0, q, hint')" "cde_holds q (take u es @ drop (u + c) es)"
    and "th_len hint' = int (c * en_size pol + bodies_len (take c (drop u es)))" "th_overhead hint' = (if c = length es then 2 else 0)"
    and "cde40_key_pol q = pol" "pl_body q = pl_body p" "pl_len q = pl_len p"
proof -
  obtain q where q: "cde40_shrink p u c = (c * en_size pol + bodies_len (take c (drop u es)), q)"
      "cde_holds q (take u es @ drop (u + c) es)" "pl_body q = pl_body p" "pl_key q = pl_key p" "pl_len q = pl_len p"
    using shrink_holds [OF assms(4-6)] by (auto simp: pol_def)
  define w where "w = (if u = 0 \<and> cde40_units q > 0 then q\<lparr>pl_key := cde40_get_hash q 0\<rparr> else q)"
  have w: "cde_holds w (take u es @ drop (u + c) es)" "cde40_key_pol w = pol" "pl_body w = pl_body p" "pl_len w = pl_len p"
  proof -
    have "w = q \<or> w = q\<lparr>pl_key := cde40_get_hash q 0\<rparr>" by (simp add: w_def)
    then show "cde_holds w (take u es @ drop (u + c) es)" "cde40_key_pol w = pol" "pl_body w = pl_body p" "pl_len w = pl_len p"
      using q(2-5) by (auto simp: cde40_key_pol_def pol_def)
  qed
  have "c * en_size pol \<le> length es * en_size pol" using assms(5) by (intro mult_le_mono1) simp
  moreover have "bodies_len (take c (drop u es)) \<le> bodies_len es"
    using bodies_take_all [of c "drop u es"] bodies_len_simps(3) [of "take u es" "drop u es"] by simp
  ultimately have "c * en_size pol + bodies_len (take c (drop u es)) < 65536"
    using holdsD(2) [OF assms(4)] unfolding cde_len_eq pol_def [symmetric] by linarith
  then have s: "to_s32 (int (c * en_size pol + bodies_len (take c (drop u es)))) = int (c * en_size pol + bodies_len (take c (drop u es)))"
    by (intro to_s32_id) linarith+
  have un: "(cde40_units w = 0) = (c = length es)"
    using holdsD(1) [OF w(1)] assms(5) by (auto simp: cde40_units_def)
  show ?thesis
  proof
    show "cde40_remove_units p hint = (0, w, hint\<lparr>th_len := int (c * en_size pol + bodies_len (take c (drop u es))),
        th_bytes := c * en_size pol + bodies_len (take c (drop u es)), th_overhead := if c = length es then 2 else 0\<rparr>)"
      unfolding cde40_remove_units_def cde40_delete_def Let_def u_def [symmetric] c_def [symmetric] q(1) prod.case s w_def [symmetric] un
      by (simp add: cde40_overhead_def)
  qed (use w in simp_all)
qed

section \<open>Inserting and removing again\<close>

lemma entry_len_mono: "sum_list (map (cde40_entry_len pol) hs) = bodies_len (map (ce_of pol) hs)"
  by (simp add: bodies_len_of)

lemma prep_insert_hint:
  assumes "th_specific h = SP_ENTRIES hs" "th_count h = length hs" "\<forall>e\<in>set hs. hint_ok (cde40_key_pol p) e"
    and "kplug (th_offset h) = kplug (pl_key p)" "cde_len (cde40_key_pol p) (map (ce_of (cde40_key_pol p)) hs) < 65536"
  shows "fst (cde40_prep_insert p h) = 0" "entries_hint p (snd (snd (cde40_prep_insert p h))) hs"
    and "th_overhead (snd (snd (cde40_prep_insert p h))) = 2"
proof -
  have pol: "key_plug_bodysize (kplug (th_offset h)) = cde40_key_pol p" using assms(4) by (simp add: cde40_key_pol_def)
  have "length hs * en_size (cde40_key_pol p) + sum_list (map (cde40_entry_len (cde40_key_pol p)) hs) < 65536"
    using assms(5) unfolding cde_len_eq bodies_len_of by simp
  then have "to_s32 (int (length hs * en_size (cde40_key_pol p) + sum_list (map (cde40_entry_len (cde40_key_pol p)) hs))) =
      int (length hs * en_size (cde40_key_pol p) + sum_list (map (cde40_entry_len (cde40_key_pol p)) hs))"
    by (intro to_s32_id) linarith+
  then show "fst (cde40_prep_insert p h) = 0" "entries_hint p (snd (snd (cde40_prep_insert p h))) hs"
    "th_overhead (snd (snd (cde40_prep_insert p h))) = 2"
    using assms(1-3) pol by (simp_all add: cde40_prep_insert_def entries_hint_def Let_def sp_entries_def cde40_overhead_def del: of_nat_add of_nat_mult)
qed

text \<open>
  C18: \<^verbatim>\<open>cde40_prep_insert\<close> and \<^verbatim>\<open>cde40_insert_units\<close> put entries between the entries of a directory item, at the
  unit of the place, and change no other; the item grows by exactly the estimated number of bytes.  Removing
  them again with \<^verbatim>\<open>cde40_remove_units\<close> gives the same number of bytes back and leaves the entries the item had.
\<close>

theorem cde40_insert_remove:
  assumes "cde_holds p es" "unit (pl_pos p) \<le> length es" "hs \<noteq> []" "\<forall>e\<in>set hs. hint_ok (cde40_key_pol p) e"
    and "th_specific h = SP_ENTRIES hs" "th_count h = length hs" "kplug (th_offset h) = kplug (pl_key p)"
    and "cde_len (cde40_key_pol p) (es @ map (ce_of (cde40_key_pol p)) hs) < 65536"
  shows "let u = unit (pl_pos p); pol = cde40_key_pol p; (res, p', h') = cde40_prep_insert p h; (n, q, h2) = cde40_insert_units p h';
      (res2, q', h3) = cde40_remove_units q h2
    in res = 0 \<and> n = int (length hs) \<and> cde_holds q (take u es @ map (ce_of pol) hs @ drop u es) \<and>
      int (cde_len pol (take u es @ map (ce_of pol) hs @ drop u es)) = int (cde_len pol es) + th_len h' \<and>
      res2 = 0 \<and> cde_holds q' es \<and> th_len h3 = th_len h'"
proof -
  let ?pol = "cde40_key_pol p" and ?u = "unit (pl_pos p)"
  let ?ns = "map (ce_of ?pol) hs" and ?h = "snd (snd (cde40_prep_insert p h))"
  have "length es * 1 \<le> length es * en_size ?pol" using en_size_eq [of ?pol] by (intro mult_le_mono2) simp
  then have nm: "?u \<noteq> MAX_UINT32" using holdsD(2) [OF assms(1)] assms(2) unfolding cde_len_eq by linarith
  have bl: "bodies_len es = bodies_len (take ?u es) + bodies_len (drop ?u es)"
    using bodies_len_simps(3) [of "take ?u es" "drop ?u es", unfolded append_take_drop_id] .
  have len: "cde_len ?pol (take ?u es @ ?ns @ drop ?u es) = cde_len ?pol (es @ ?ns)"
    using bl assms(2) unfolding cde_len_eq by simp
  have "cde_len ?pol ?ns \<le> cde_len ?pol (es @ ?ns)" unfolding cde_len_eq by (simp add: add_mult_distrib)
  then have "cde_len ?pol ?ns < 65536" using assms(8) by linarith
  note prep = prep_insert_hint [OF assms(5,6,4,7) this]
  obtain q where q: "cde40_insert_units p ?h = (int (length hs), q, ?h)" "cde_holds q (take ?u es @ ?ns @ drop ?u es)"
      "cde40_key_pol q = ?pol" "pl_pos q = (pl_pos p)\<lparr>unit := ?u\<rparr>"
    using insert_units_entries [OF prep(2), of es] nm assms(1,2,8) len by auto
  have cnt: "th_count ?h = length hs" "th_len ?h = int (length hs * en_size ?pol + bodies_len ?ns)"
    using prep(2) by (simp_all add: entries_hint_def Let_def bodies_len_of)
  have undo: "take ?u (take ?u es @ ?ns @ drop ?u es) @ drop (?u + length hs) (take ?u es @ ?ns @ drop ?u es) = es"
    "take (length hs) (drop ?u (take ?u es @ ?ns @ drop ?u es)) = ?ns" using assms(2) by simp_all
  let ?es' = "take ?u es @ ?ns @ drop ?u es"
  have pre: "unit (pl_pos q) + th_count ?h \<le> length ?es'" "0 < th_count ?h" using q(4) cnt(1) assms(2,3) by simp_all
  obtain q' h3 where x: "cde40_remove_units q ?h = (0, q', h3)"
      "cde_holds q' (take (unit (pl_pos q)) ?es' @ drop (unit (pl_pos q) + th_count ?h) ?es')"
      "th_len h3 = int (th_count ?h * en_size (cde40_key_pol q) + bodies_len (take (th_count ?h) (drop (unit (pl_pos q)) ?es')))"
    by (rule remove_entries [OF q(2) pre])
  have u: "unit (pl_pos q) = ?u" using q(4) by simp
  have r: "cde40_remove_units q ?h = (0, q', h3)" "cde_holds q' es" "th_len h3 = th_len ?h"
    using x unfolding u cnt q(3) undo by (simp_all only:)
  have grow: "int (cde_len ?pol (take ?u es @ ?ns @ drop ?u es)) = int (cde_len ?pol es) + th_len ?h"
  proof -
    have "cde_len ?pol (es @ ?ns) = cde_len ?pol es + (length hs * en_size ?pol + bodies_len ?ns)"
      unfolding cde_len_eq by (simp add: add_mult_distrib)
    then show ?thesis unfolding len cnt(2) by (simp only: of_nat_add)
  qed
  show ?thesis
    using prep(1) q(1,2) r grow by (simp add: Let_def case_prod_unfold)
qed

text \<open>A directory with one entry that points to the object of key 0.\<close>

definition sample_entry :: cde_entry where
  "sample_entry = \<lparr>ce_hash = replicate 24 0, ce_body = replicate 24 0\<rparr>"

definition sample_cde :: place where
  "sample_cde = \<lparr>pl_pos = \<lparr>item = 0, unit = 1\<rparr>, pl_node = sample_node\<lparr>nd_mem := (\<lambda>_. 0)(0 := 1, 26 := 28)\<rparr>, pl_body = 0,
     pl_len = 52, pl_off = 0, pl_key = \<lparr>kplug = KEY_LARGE, kbody = (\<lambda>_. 0), kadjust = 0\<rparr>, pl_plug = ITEM_CDE40_ID\<rparr>"

definition sample_new :: entry_hint where
  "sample_new = \<lparr>eh_len = 0, eh_place = sample_cde, eh_offset = \<lparr>kplug = KEY_LARGE, kbody = (\<lambda>_. 7), kadjust = 0\<rparr>,
     eh_object = \<lparr>kplug = KEY_LARGE, kbody = (\<lambda>_. 9), kadjust = 0\<rparr>, eh_type = 0, eh_name = [0x61]\<rparr>"

lemma sample_cde_simps [simp]:
  "cde40_key_pol sample_cde = 4" "pl_pos sample_cde = \<lparr>item = 0, unit = 1\<rparr>" "kplug (pl_key sample_cde) = KEY_LARGE"
  by (simp_all add: sample_cde_def cde40_key_pol_def key_plug_bodysize_def key_large_bodysize_def)

lemma sample_cde_holds: "cde_holds sample_cde [sample_entry]"
proof -
  have m: "place_mem sample_cde = (\<lambda>_. 0)(0 := 1, 26 := 28)" "pl_body sample_cde = 0" by (simp_all add: sample_cde_def place_mem_def)
  have z: "mread ((\<lambda>_. 0)(0 := 1, 26 := 28)) a k = replicate k (0 :: u8)" if "28 \<le> a \<or> 0 < a \<and> a + int k \<le> 26" for a k
    using that by (intro nth_equalityI) auto
  have o: "get_le 2 ((\<lambda>_. 0)(0 := 1, 26 := 28)) 26 = 28" "get_le 2 ((\<lambda>_. 0)(0 := 1, 26 := 28)) 0 = 1"
    by (simp_all add: get_le_def mread_def upt_rec)
  have e: "cde40_entry sample_cde 0 = 2" by (simp add: cde40_entry_def m)
  have h: "ce_hashed (replicate 24 0) = False" unfolding ce_hashed_def by (simp add: numeral_eq_Suc)
  show ?thesis
    unfolding cde_holds_def Let_def sample_cde_simps
    by (simp add: cde_get_units_def cde_get_offset_def en_get_offset_def m o e z ce_off_def cde_len_def ha_size_def en_size_def
        sample_entry_def ce_ok_def h)
qed

definition sample_insert :: "unit trans_hint" where
  "sample_insert =
     \<lparr>th_overhead = 0, th_len = 0, th_bytes = 0, th_specific = SP_ENTRIES [sample_new], th_count = 1, th_offset = pl_key sample_cde,
      th_maxkey = pl_key sample_cde, th_insert_flags = 0, th_head = 0, th_tail = 0, th_plug = ITEM_CDE40_ID, th_region_func = None, th_data = ()\<rparr>"

theorem cde40_insert_remove_witness:
  "let (res, p', h') = cde40_prep_insert sample_cde sample_insert; (n, q, h2) = cde40_insert_units sample_cde h';
      (res2, q', h3) = cde40_remove_units q h2
   in n = 1 \<and> cde_holds q [sample_entry, ce_of 4 sample_new] \<and> res2 = 0 \<and> cde_holds q' [sample_entry] \<and> th_len h3 = th_len h'"
proof -
  have ok: "hint_ok 4 sample_new"
    by (simp add: hint_ok_def sample_new_def key_plug_bodysize_def key_large_bodysize_def)
  have nh: "\<not> reiser4_key_hashed (eh_offset sample_new)"
    by (simp add: sample_new_def reiser4_key_hashed_def key_large_hashed_def key_large_get_ordering_def)
  have "length (ce_body (ce_of 4 sample_new)) = 24"
    using nh ce_of_ok(3) [OF ok] by (simp add: cde40_entry_len_def ha_size_def)
  then have len: "cde_len 4 [sample_entry, ce_of 4 sample_new] < 65536"
    unfolding cde_len_eq by (simp add: sample_entry_def en_size_def)
  show ?thesis
    using cde40_insert_remove [OF sample_cde_holds, of "[sample_new]" sample_insert] ok len
    by (simp add: sample_insert_def Let_def case_prod_unfold)
qed

end
