(* ===== verification/CdeShift.thy ===== *)
theory CdeShift
  imports CdeOps
begin

text \<open>
  Copying, shifting and the estimate of a shift of entries between two items.
\<close>

unbundle bit_operations_syntax

section \<open>Copying\<close>

lemma cde_copy_offsets_read:
  "\<forall>j<n. a + int k \<le> e + int (en_size pol) * int j + int (ha_size pol) \<or> e + int (en_size pol) * int j + int (ha_size pol) + 2 \<le> a \<Longrightarrow>
   mread (cde40_copy_offsets pol n src sp m e off) a k = mread m a k"
proof (induction n arbitrary: m e sp off)
  case (Suc n)
  have "\<forall>j<n. a + int k \<le> e + int (en_size pol) + int (en_size pol) * int j + int (ha_size pol) \<or>
      e + int (en_size pol) + int (en_size pol) * int j + int (ha_size pol) + 2 \<le> a"
  proof (intro allI impI)
    fix j assume "j < n"
    then show "a + int k \<le> e + int (en_size pol) + int (en_size pol) * int j + int (ha_size pol) \<or>
      e + int (en_size pol) + int (en_size pol) * int j + int (ha_size pol) + 2 \<le> a"
      using Suc.prems [rule_format, of "Suc j"] by (simp add: algebra_simps)
  qed
  then show ?case
    using Suc.IH Suc.prems [rule_format, of 0] by (simp add: en_set_offset_def mread_set_le_other)
qed simp

lemma cde_copy_offsets_get:
  assumes "j < n" "\<And>i. i < n \<Longrightarrow> cde40_get_len src (sp + i) = length (ce_body (ns ! i))" "n = length ns" "off + bodies_len ns < 65536"
  shows "en_get_offset (cde40_copy_offsets pol n src sp m e off) (e + int (en_size pol) * int j) pol = off + bodies_len (take j ns)"
  using assms
proof (induction n arbitrary: m e sp off j ns)
  case (Suc n)
  obtain x xs where ns: "ns = x # xs" using Suc.prems(3) by (cases ns) auto
  let ?m = "en_set_offset m e (int off) pol"
  have l0: "cde40_get_len src sp = length (ce_body x)" using Suc.prems(2) [of 0] ns by simp
  then have o: "to_u32 (int off + int (cde40_get_len src sp)) = off + length (ce_body x)"
    using Suc.prems(4) ns by (intro trans [OF to_u32_add]) simp_all
  show ?case
  proof (cases j)
    case 0
    have "mread (cde40_copy_offsets pol n src (sp + 1) ?m (e + int (en_size pol)) o2) (e + int (ha_size pol)) 2 =
        mread ?m (e + int (ha_size pol)) 2" for o2
    proof (intro cde_copy_offsets_read allI impI disjI1)
      fix j show "e + int (ha_size pol) + int 2 \<le> e + int (en_size pol) + int (en_size pol) * int j + int (ha_size pol)"
        using mult_nonneg_nonneg [of "int (en_size pol)" "int j"] en_size_eq [of pol] by simp
    qed
    then show ?thesis
      using 0 Suc.prems(4) get_set_le [of 2 m "e + int (ha_size pol)" "int off"] by (simp add: en_get_offset_def en_set_offset_def get_le_def)
  next
    case (Suc k)
    have e: "e + int (en_size pol) * int j = e + int (en_size pol) + int (en_size pol) * int k"
      using Suc by (simp add: algebra_simps)
    show ?thesis
      unfolding e using Suc.IH [of k "sp + 1" xs "off + length (ce_body x)" ?m "e + int (en_size pol)"] Suc.prems(1,3,4) Suc ns o
        Suc.prems(2) [of "Suc i" for i] by (simp add: add.assoc)
  qed
qed simp

lemma gap_before:
  fixes dst es pos count
  defines "pol \<equiv> cde40_key_pol dst"
  assumes "cde_gap dst es pos count room" "pos \<le> length es" "0 < pos" "\<forall>e\<in>set es. ce_ok pol e"
    and "ce_off pol es pos + count * en_size pol < 65536"
  shows "to_u32 (int (cde40_regsize dst 0 (pos - 1)) + int (cde40_get_len dst (pos - 1))) = bodies_len (take pos es)"
proof -
  note g = assms(2) [unfolded cde_gap_def Let_def, THEN conjunct2, rule_format, folded pol_def]
  have k: "pos - 1 < length es" "pos - 1 < pos" "Suc (pos - 1) = pos" using assms(3,4) by auto
  have units: "cde_get_units dst = length es" using assms(2) by (simp add: cde_gap_def Let_def)
  have bl: "bodies_len (take pos es) = bodies_len (take (pos - 1) es) + length (ce_body (es ! (pos - 1)))"
    using bodies_take_Suc [OF k(1)] k(3) by simp
  then have small: "bodies_len (take pos es) < 65536" using assms(6) by (simp add: ce_off_def)
  have "cde40_get_len dst (pos - 1) = length (ce_body (es ! (pos - 1)))"
    using g [OF k(1)] k(1,2) assms(5) small bl by (intro get_len_body) (auto simp: pol_def cde40_objid_def)
  moreover have "cde40_regsize dst 0 (pos - 1) = bodies_len (take (pos - 1) es)"
  proof (cases "pos - 1 = 0")
    case False
    have "0 < length es" using assms(3,4) by linarith
    then have "cde_get_offset dst 0 = ce_off pol es 0 + count * en_size pol" using g [of 0] assms(4) by simp
    moreover have "cde_get_offset dst (pos - 1) = ce_off pol es (pos - 1) + count * en_size pol" using g [OF k(1)] k(2) by simp
    ultimately have "int (cde_get_offset dst (pos - 1)) - int (cde_get_offset dst 0) = int (bodies_len (take (pos - 1) es))"
      by (simp add: ce_off_def)
    then show ?thesis using False units k(1) small bl by (simp add: cde40_regsize_def to_u32_nat)
  qed (simp add: cde40_regsize_def)
  ultimately show ?thesis using bl small by (simp add: to_u32_nat flip: of_nat_add)
qed

lemma copy_holds:
  fixes dst src es ss pos spos count
  defines "pol \<equiv> cde40_key_pol dst" and "ns \<equiv> take count (drop spos ss)"
  assumes "cde_gap dst es pos count (bodies_len ns)" "cde_holds src ss" "cde40_key_pol src = pol" "\<forall>e\<in>set es. ce_ok pol e"
    and "pos \<le> length es" "spos + count \<le> length ss" "0 < count" "cde_len pol (take pos es @ ns @ drop pos es) < 65536"
  shows "cde_holds (cde40_copy dst pos src spos count) (take pos es @ ns @ drop pos es)"
    and "kplug (pl_key (cde40_copy dst pos src spos count)) = kplug (pl_key dst)"
    and "pl_body (cde40_copy dst pos src spos count) = pl_body dst"
proof -
  define hs where "hs = count * en_size pol"
  define off where "off = bodies_len (take pos es)"
  define m1 where "m1 = memcpy (place_mem dst) (cde40_entry dst pos) (place_mem src) (cde40_entry src spos) hs"
  define m2 where "m2 = memcpy m1 (gap_start dst es pos count) (place_mem src) (pl_body src + int (ce_off pol ss spos)) (bodies_len ns)"
  define m3 where "m3 = cde40_copy_offsets pol count src spos m2 (cde40_entry dst pos) (ce_off pol es pos + hs)"
  note g = assms(3) [unfolded cde_gap_def Let_def, THEN conjunct2, rule_format, folded pol_def]
  note hsrc = holdsD [OF assms(4), unfolded assms(5)]
  have lns: "length ns = count" using assms(8) by (simp add: ns_def)
  have units: "cde_get_units dst = length es" using assms(3) by (simp add: cde_gap_def Let_def)
  have bl: "bodies_len es = bodies_len (take pos es) + bodies_len (drop pos es)"
    using bodies_len_simps(3) [of "take pos es" "drop pos es"] by simp
  have small: "ce_off pol es pos + hs + bodies_len ns < 65536"
    using assms(7,10) bl unfolding cde_len_eq by (simp add: ce_off_def hs_def lns algebra_simps)
  have E: "en_size pol = ha_size pol + 2" by (rule en_size_eq)
  have gs: "gap_start dst es pos count = pl_body dst + int (ce_off pol es pos + hs)" by (simp add: gap_start_def pol_def hs_def)
  have eadd: "cde40_entry dst (pos + count) = cde40_entry dst pos + int hs" by (simp add: entry_add hs_def pol_def)
  have gle: "cde40_entry dst (pos + count) \<le> gap_start dst es pos count"
  proof -
    have "cde40_entry dst pos \<le> cde40_entry dst (length es)" using entry_before [of pos "length es" dst] assms(7) by (cases "pos = length es") auto
    then show ?thesis using eadd entry_end [where es = es, of dst pos] gs by (simp add: pol_def)
  qed
  have ea: "cde40_entry dst pos + int (en_size pol) * int j = cde40_entry dst (pos + j)" for j
    by (simp add: cde40_entry_def pol_def algebra_simps)
  have in_head: "cde40_entry dst (pos + j) + int (en_size pol) \<le> cde40_entry dst (pos + count)" if "j < count" for j
    using entry_before [of "pos + j" "pos + count" dst] that by (simp add: pol_def)
  have fill: "cde_filled dst m3 es pos ns"
    unfolding cde_filled_def Let_def lns pol_def [symmetric]
  proof (intro conjI allI impI)
    fix a k
    assume d: "(a + int k \<le> cde40_entry dst pos \<or> cde40_entry dst (pos + count) \<le> a) \<and>
      (a + int k \<le> gap_start dst es pos count \<or> gap_start dst es pos count + int (bodies_len ns) \<le> a)"
    have "mread m3 a k = mread m2 a k"
      unfolding m3_def
    proof (rule cde_copy_offsets_read, intro allI impI)
      fix j assume "j < count"
      then show "a + int k \<le> cde40_entry dst pos + int (en_size pol) * int j + int (ha_size pol) \<or>
        cde40_entry dst pos + int (en_size pol) * int j + int (ha_size pol) + 2 \<le> a"
        unfolding ea using d in_head [of j] E entry_before [of pos "pos + j" dst] by (cases "j = 0") auto
    qed
    also have "\<dots> = mread m1 a k" using d by (simp add: m2_def mread_memcpy_other)
    also have "\<dots> = mread (place_mem dst) a k" using d eadd by (simp add: m1_def mread_memcpy_other)
    finally show "mread m3 a k = mread (place_mem dst) a k" .
  next
    fix j assume j: "j < count"
    have nj: "ns ! j = ss ! (spos + j)" "spos + j < length ss" using j assms(8) by (simp_all add: ns_def)
    have "mread m3 (cde40_entry dst (pos + j)) (ha_size pol) = mread m2 (cde40_entry dst (pos + j)) (ha_size pol)"
      unfolding m3_def
    proof (rule cde_copy_offsets_read, intro allI impI)
      fix i
      show "cde40_entry dst (pos + j) + int (ha_size pol) \<le> cde40_entry dst pos + int (en_size pol) * int i + int (ha_size pol) \<or>
        cde40_entry dst pos + int (en_size pol) * int i + int (ha_size pol) + 2 \<le> cde40_entry dst (pos + j)"
        unfolding ea using entry_before [of "pos + i" "pos + j" dst] entry_before [of "pos + j" "pos + i" dst] E
        by (cases "i < j"; cases "i = j") (auto simp: pol_def)
    qed
    also have "\<dots> = mread m1 (cde40_entry dst (pos + j)) (ha_size pol)"
      using in_head [OF j] gle E by (simp add: m2_def mread_memcpy_other)
    also have "\<dots> = mread (place_mem src) (cde40_entry src (spos + j)) (ha_size pol)"
    proof -
      have "cde40_entry dst (pos + j) - cde40_entry dst pos + cde40_entry src spos = cde40_entry src (spos + j)"
        by (simp add: cde40_entry_def assms(5) pol_def [symmetric] algebra_simps)
      moreover have "cde40_entry dst pos \<le> cde40_entry dst (pos + j)" using entry_before [of pos "pos + j" dst] by (cases "j = 0") auto
      ultimately show ?thesis
        unfolding m1_def using in_head [OF j] eadd E ea [of j] mult_nonneg_nonneg [of "int (en_size pol)" "int j"]
        by (subst mread_memcpy) auto
    qed
    finally show "mread m3 (cde40_entry dst (pos + j)) (ha_size pol) = ce_hash (ns ! j)" using hsrc(4) [OF nj(2)] nj(1) by simp
    show "en_get_offset m3 (cde40_entry dst (pos + j)) pol = ce_off pol es pos + count * en_size pol + bodies_len (take j ns)"
    proof -
      have lens: "cde40_get_len src (spos + i) = length (ce_body (ns ! i))" if "i < count" for i
        using holds_len [OF assms(4), of "spos + i"] that assms(8) by (simp add: ns_def)
      show ?thesis
        unfolding m3_def ea [symmetric] hs_def [symmetric] by (rule cde_copy_offsets_get [OF j lens lns [symmetric] small])
    qed
    show "mread m3 (gap_start dst es pos count + int (bodies_len (take j ns))) (length (ce_body (ns ! j))) = ce_body (ns ! j)"
    proof -
      let ?a = "gap_start dst es pos count + int (bodies_len (take j ns))" and ?l = "length (ce_body (ns ! j))"
      have "mread m3 ?a ?l = mread m2 ?a ?l"
        unfolding m3_def
      proof (rule cde_copy_offsets_read, intro allI impI disjI2)
        fix i assume "i < count"
        then show "cde40_entry dst pos + int (en_size pol) * int i + int (ha_size pol) + 2 \<le> ?a"
          unfolding ea using in_head [of i] gle E by simp
      qed
      also have "\<dots> = mread (place_mem src) (pl_body src + int (ce_off pol ss spos) + int (bodies_len (take j ns))) ?l"
        unfolding m2_def using bodies_take_Suc [of j ns] bodies_take_all [of "Suc j" ns] j lns
        by (subst mread_memcpy) (auto simp: algebra_simps)
      also have "pl_body src + int (ce_off pol ss spos) + int (bodies_len (take j ns)) = pl_body src + int (ce_off pol ss (spos + j))"
      proof -
        have "take j ns = take j (drop spos ss)" using j by (simp add: ns_def min_def)
        then show ?thesis using take_add [of spos j ss] by (simp add: ce_off_def)
      qed
      finally show ?thesis using hsrc(6) [OF nj(2)] nj(1) by simp
    qed
  qed
  define w where "w = cde_inc_units (place_put dst m3) count"
  have w: "pl_key w = pl_key dst" "pl_body w = pl_body dst" by (simp_all add: w_def cde_inc_units_def cde_set_units_def)
  have run: "cde40_copy dst pos src spos count = place_mkdirty (if pos = 0 then w\<lparr>pl_key := cde40_get_hash w 0\<rparr> else w)"
  proof -
    have off: "(if pos \<noteq> 0 then to_u32 (int (cde40_regsize dst 0 (pos - 1)) + int (cde40_get_len dst (pos - 1))) else 0) = off"
      using gap_before [OF assms(3,7) _ assms(6) [unfolded pol_def]] small by (simp add: off_def pol_def hs_def)
    have reg: "cde40_regsize src spos count = bodies_len ns" using holds_regsize [OF assms(4,8)] by (simp add: ns_def)
    have sp: "pl_body src + int cde40_t_size + int (spos * en_size pol) = cde40_entry src spos"
      by (simp add: cde40_entry_def assms(5) pol_def [symmetric] mult.commute)
    have dp: "pl_body dst + int cde40_t_size + int (pos * en_size pol) = cde40_entry dst pos"
      by (simp add: cde40_entry_def pol_def [symmetric] mult.commute)
    have so: "en_get_offset (place_mem src) (cde40_entry src spos) pol = ce_off pol ss spos"
      using hsrc(5) [of spos] assms(5,8,9) by (simp add: cde_get_offset_def)
    have db: "pl_body dst + int cde40_t_size + int (length es * en_size pol) + int hs + int off = gap_start dst es pos count"
      unfolding gs by (simp add: ce_off_def off_def)
    have oo: "to_u32 (int off + int (cde40_t_size + length es * en_size pol + hs)) = ce_off pol es pos + hs"
      using small by (simp add: off_def ce_off_def to_u32_id algebra_simps flip: of_nat_mult of_nat_add)
    show ?thesis
      unfolding cde40_copy_def Let_def pol_def [symmetric] cde40_units_def units off sp dp place_put_simps cde_put_simps
        hs_def [symmetric] so db reg oo place_put_twice m1_def [symmetric] m2_def [symmetric] m3_def [symmetric] w_def [symmetric]
      by (rule refl)
  qed
  have "cde_holds w (take pos es @ ns @ drop pos es)"
  proof (rule filled_holds [OF _ fill])
    show "cde_gap dst es pos (length ns) (bodies_len ns)" using assms(3) by (simp add: lns)
    show "\<forall>e\<in>set es \<union> set ns. ce_ok (cde40_key_pol dst) e"
      using hsrc(3) assms(6) by (auto simp: ns_def pol_def dest: in_set_takeD in_set_dropD)
    have "mread m3 (pl_body dst) 2 = mread (place_mem dst) (pl_body dst) 2"
      using fill [unfolded cde_filled_def Let_def, THEN conjunct1, rule_format, of "pl_body dst" 2]
      by (simp add: cde40_entry_def gap_start_def ce_off_def)
    then have "get_le 2 m3 (pl_body dst) = length es" using units by (simp add: cde_get_units_def get_le_def)
    then show "place_mem w = set_le 2 m3 (pl_body dst) (int (length (take pos es @ ns @ drop pos es)))"
      using assms(7) lns by (simp add: w_def cde_inc_units_def cde_set_units_def cde_get_units_def add.commute)
  qed (use assms(7,10) in \<open>simp_all add: w_def cde_inc_units_def cde_set_units_def pol_def\<close>)
  then show "cde_holds (cde40_copy dst pos src spos count) (take pos es @ ns @ drop pos es)"
    unfolding run using w by (cases "pos = 0"; simp)
  show "kplug (pl_key (cde40_copy dst pos src spos count)) = kplug (pl_key dst)"
    "pl_body (cde40_copy dst pos src spos count) = pl_body dst"
    unfolding run using w by simp_all
qed

section \<open>Shifting\<close>

text \<open>
  What the estimate promises when \<open>m\<close> of the units are not passed yet, \<open>d\<close> are in the destination and \<open>j\<close> more
  are taken: the insert point stays at the same place in the joint list of entries.
\<close>

definition follow_point :: "bool \<Rightarrow> nat \<Rightarrow> nat \<Rightarrow> nat \<Rightarrow> shift_hint \<Rightarrow> shift_hint \<Rightarrow> bool" where
  "follow_point lft m d j hint hint' \<longleftrightarrow> (let u = unit (sh_pos hint); u' = unit (sh_pos hint') in
     item (sh_pos hint') = item (sh_pos hint) \<and>
     (if sh_flag (sh_result hint') SF_MOVE_POINT then (if lft then u = j \<and> u' = d + j else u = m - j \<and> u' = 0)
      else (if lft then j \<le> u \<and> u' = u - j else u \<le> m - j \<and> u' = u)))"

definition predicted_units :: "bool \<Rightarrow> bool \<Rightarrow> nat \<Rightarrow> nat \<Rightarrow> nat \<Rightarrow> shift_hint \<Rightarrow> shift_hint \<Rightarrow> bool" where
  "predicted_units lft follow m d j hint hint' \<longleftrightarrow>
     same_goal hint hint' \<and> sh_units_bytes hint' = sh_units_bytes hint \<and> sh_units_number hint' = sh_units_number hint + j \<and> j \<le> m \<and>
     (if follow then follow_point lft m d j hint hint' else sh_pos hint' = sh_pos hint \<and> sh_result hint' = sh_result hint)"

definition run_size :: "nat \<Rightarrow> cde_entry list \<Rightarrow> nat" where
  "run_size pol es = length es * en_size pol + bodies_len es"

lemma run_size_simps [simp]:
  "run_size pol [] = 0" "run_size pol (e # es) = length (ce_body e) + en_size pol + run_size pol es"
  "run_size pol (es @ fs) = run_size pol es + run_size pol fs"
  by (simp_all add: run_size_def algebra_simps)

lemma predict_spec:
  fixes p ss check lft
  assumes "cde_holds p ss" "m \<le> length ss" "cde40_predict p check cur m d space hint = (space', hint')"
    and "cur = (if lft then length ss - m else m - 1)" "sh_flag (sh_control hint) SF_ALLOW_LEFT = lft"
    and "\<not> sh_flag (sh_result hint) SF_MOVE_POINT"
    and "follow = (check \<and> sh_flag (sh_control hint) SF_UPDATE_POINT)" "follow \<Longrightarrow> \<not> lft \<Longrightarrow> unit (sh_pos hint) \<le> m"
  shows "\<exists>j. predicted_units lft follow m d j hint hint' \<and>
     space = space' + run_size (cde40_key_pol p) (if lft then take j (drop (length ss - m) ss) else take j (drop (m - j) ss))"
  using assms(2-8)
proof (induction m arbitrary: cur d space hint)
  case 0
  then show ?case by (intro exI [of _ 0]) (auto simp: predicted_units_def follow_point_def same_goal_def Let_def)
next
  case (Suc m)
  let ?pol = "cde40_key_pol p" and ?n = "length ss" and ?u = "unit (sh_pos hint)"
  have cur: "cur < ?n" using Suc.prems(1,3) by (auto split: if_splits)
  define sz where "sz = length (ce_body (ss ! cur)) + en_size ?pol"
  have len: "cde40_get_len p cur + en_size ?pol = sz" using holds_len [OF assms(1) cur] by (simp add: sz_def)
  define hint1 where "hint1 = (let h = (if follow \<and> lft then hint\<lparr>sh_pos := (sh_pos hint)\<lparr>unit := ?u - 1\<rparr>\<rparr> else hint)
      in h\<lparr>sh_units_number := sh_units_number h + 1\<rparr>)"
  consider (stop) "space' = space" "hint' = hint" "follow \<longrightarrow> lft \<or> ?u \<le> Suc m"
    | (moved) "space' = space" "hint' = hint\<lparr>sh_result := sh_result hint OR SF_MOVE_POINT, sh_pos := (sh_pos hint)\<lparr>unit := if lft then d else 0\<rparr>\<rparr>"
        "follow" "if lft then ?u = 0 else ?u = Suc m"
    | (step) "sz \<le> space" "cde40_predict p check (if lft then cur + 1 else cur - 1) m (d + 1) (space - sz) hint1 = (space', hint')"
        "follow \<longrightarrow> (if lft then 0 < ?u else ?u \<le> m)"
  proof -
    let ?M = "sh_flag (sh_control hint) SF_MOVE_POINT"
    define B where "B \<longleftrightarrow> follow \<and> \<not> ?M \<and> (if lft then ?u = 0 else ?u = Suc m)"
    define rest where "rest = cde40_predict p check (if lft then cur + 1 else cur - 1) m (d + 1) (space - sz) hint1"
    have eq: "(if B then (space, hint) else if space < sz then (space, hint)
        else if follow \<and> lft \<and> ?u = 0 then (space, if ?M then hint\<lparr>sh_result := sh_result hint OR SF_MOVE_POINT, sh_pos := (sh_pos hint)\<lparr>unit := d\<rparr>\<rparr> else hint)
        else if follow \<and> \<not> lft \<and> Suc m \<le> ?u then (space, if ?M then hint\<lparr>sh_result := sh_result hint OR SF_MOVE_POINT, sh_pos := (sh_pos hint)\<lparr>unit := 0\<rparr>\<rparr> else hint)
        else rest) = (space', hint')"
      using Suc.prems(2) unfolding cde40_predict.simps Let_def len Suc.prems(4) if_not_P [OF Suc.prems(5)] Suc.prems(6) [symmetric] B_def rest_def hint1_def Let_def
      by (simp only: conj_assoc)
    have u: "follow \<longrightarrow> lft \<or> ?u \<le> Suc m" using Suc.prems(7) by blast
    consider "B \<or> space < sz" | "\<not> B" "sz \<le> space" "follow" "if lft then ?u = 0 else Suc m \<le> ?u"
      | "\<not> B" "sz \<le> space" "\<not> (follow \<and> lft \<and> ?u = 0)" "\<not> (follow \<and> \<not> lft \<and> Suc m \<le> ?u)"
      by (cases "B \<or> space < sz"; cases "follow \<and> (if lft then ?u = 0 else Suc m \<le> ?u)"; cases lft) (auto simp: not_less)
    then show thesis
    proof cases
      case 1
      then have "space' = space \<and> hint' = hint" using eq by (cases B) auto
      then show thesis using u stop by simp
    next
      case 2
      then have M: "?M" "if lft then ?u = 0 else ?u = Suc m" using u by (auto simp: B_def split: if_splits)
      then show thesis using 2 eq moved by (cases lft) (simp_all add: not_less)
    next
      case 3
      then have "rest = (space', hint')" using eq by (simp only: if_False leD simp_thms)
      moreover have "follow \<longrightarrow> (if lft then 0 < ?u else ?u \<le> m)" using 3(3,4) by auto
      ultimately show thesis using step 3(2) by (simp add: rest_def)
    qed
  qed
  then show ?case
  proof cases
    case stop
    then show ?thesis using Suc.prems(5,6) by (intro exI [of _ 0]) (auto simp: predicted_units_def follow_point_def same_goal_def Let_def)
  next
    case moved
    then show ?thesis by (intro exI [of _ 0]) (auto simp: predicted_units_def follow_point_def same_goal_def Let_def)
  next
    case step
    have c: "(if lft then cur + 1 else cur - 1) = (if lft then ?n - m else m - 1)" using Suc.prems(1,3) by auto
    have u1: "unit (sh_pos hint1) = (if follow \<and> lft then ?u - 1 else ?u)" "item (sh_pos hint1) = item (sh_pos hint)"
      "sh_control hint1 = sh_control hint" "sh_result hint1 = sh_result hint" "\<not> follow \<Longrightarrow> sh_pos hint1 = sh_pos hint"
      "same_goal hint hint1" "sh_units_bytes hint1 = sh_units_bytes hint" "sh_units_number hint1 = sh_units_number hint + 1"
      by (auto simp: hint1_def Let_def same_goal_def)
    obtain j where j: "predicted_units lft follow m (d + 1) j hint1 hint'"
        "space - sz = space' + run_size ?pol (if lft then take j (drop (?n - m) ss) else take j (drop (m - j) ss))"
      using Suc.IH [OF _ step(2) c] Suc.prems(1,4-7) step(3) u1 by auto
    have jm: "j \<le> m" using j(1) by (simp add: predicted_units_def)
    have "run_size ?pol (if lft then take (Suc j) (drop (?n - Suc m) ss) else take (Suc j) (drop (Suc m - Suc j) ss)) =
        sz + run_size ?pol (if lft then take j (drop (?n - m) ss) else take j (drop (m - j) ss))"
    proof (cases lft)
      case True
      then have "drop (?n - Suc m) ss = ss ! cur # drop (?n - m) ss"
        using Cons_nth_drop_Suc [OF cur] Suc.prems(1,3) by (simp add: Suc_diff_Suc)
      then show ?thesis using True by (simp add: sz_def)
    next
      case False
      have "m < ?n" using Suc.prems(1) by simp
      then have "take (Suc j) (drop (m - j) ss) = take j (drop (m - j) ss) @ [ss ! m]"
        using jm by (subst take_Suc_conv_app_nth) auto
      then show ?thesis using False Suc.prems(3) by (simp add: sz_def)
    qed
    moreover have "predicted_units lft follow (Suc m) d (Suc j) hint hint'"
      using j(1) u1 step(3) by (auto simp: predicted_units_def same_goal_def follow_point_def Let_def split: if_splits)
    ultimately show ?thesis using j(2) step(1) by (intro exI [of _ "Suc j"]) auto
  qed
qed

lemma prep_spec:
  fixes src ss hint
  defines "n \<equiv> length ss" and "lft \<equiv> sh_flag (sh_control hint) SF_ALLOW_LEFT"
    and "follow \<equiv> item (pl_pos src) = item (sh_pos hint) \<and> unit (sh_pos hint) \<noteq> MAX_UINT32 \<and> sh_flag (sh_control hint) SF_UPDATE_POINT"
    and "extra \<equiv> if sh_create hint then 2 else 0"
  assumes "cde_holds src ss" "cde40_prep_shift src dsto hint = (res, dsto', hint')" "\<not> sh_flag (sh_result hint) SF_MOVE_POINT"
    and "sh_units_bytes hint < 65536" "follow \<Longrightarrow> \<not> lft \<Longrightarrow> unit (sh_pos hint) \<le> n" "0 < sh_units_number hint'"
  defines "j \<equiv> sh_units_number hint'" and "d \<equiv> case dsto of Some dst \<Rightarrow> cde40_units dst | None \<Rightarrow> 0"
  shows "res = 0" "dsto' = dsto" "same_goal hint hint'" "j \<le> n"
    and "sh_units_bytes hint' = extra + run_size (cde40_key_pol src) (if lft then take j ss else drop (n - j) ss)"
    and "sh_units_bytes hint' \<le> sh_units_bytes hint"
    and "follow \<Longrightarrow> follow_point lft n d j hint hint'"
proof -
  define hint0 where "hint0 = hint\<lparr>sh_units_number := 0\<rparr>"
  define check where "check \<longleftrightarrow> item (pl_pos src) = item (sh_pos hint) \<and> unit (sh_pos hint) \<noteq> MAX_UINT32"
  define space where "space = sh_units_bytes hint - extra"
  have un: "cde40_units src = n" using holdsD(1) [OF assms(5)] by (simp add: cde40_units_def n_def)
  have nc: "\<not> (sh_create hint \<and> sh_units_bytes hint \<le> 2)"
    using assms(6,10) by (auto simp: cde40_prep_shift_def Let_def split: if_splits)
  obtain space' h where p: "cde40_predict src check (if lft then 0 else n - 1) n d space hint0 = (space', h)" by fastforce
  have ex: "extra \<le> sh_units_bytes hint" using nc by (auto simp: extra_def)
  have run: "(res, dsto', hint') = (0, dsto, if sh_units_number h > 0 then h\<lparr>sh_units_bytes := to_u32 (int (sh_units_bytes h) - int space')\<rparr> else h)"
  proof -
    have sp: "(if sh_create hint then sh_units_bytes hint - cde40_t_size else sh_units_bytes hint) = space" by (simp add: space_def extra_def)
    have h0: "sh_create hint0 = sh_create hint" "sh_units_bytes hint0 = sh_units_bytes hint" "sh_control hint0 = sh_control hint"
      "sh_pos hint0 = sh_pos hint" by (simp_all add: hint0_def)
    have "cde40_prep_shift src dsto hint = (0, dsto, if sh_units_number h > 0 then h\<lparr>sh_units_bytes := to_u32 (int (sh_units_bytes h) - int space')\<rparr> else h)"
      unfolding cde40_prep_shift_def Let_def un hint0_def [symmetric] h0 if_not_P [OF nc] sp lft_def [symmetric] d_def [symmetric]
        check_def [symmetric] p prod.case by (rule refl)
    then show ?thesis using assms(6) by simp
  qed
  have fol: "follow = (check \<and> sh_flag (sh_control hint0) SF_UPDATE_POINT)" by (auto simp: follow_def check_def hint0_def)
  obtain k where k: "predicted_units lft follow n d k hint0 h"
      "space = space' + run_size (cde40_key_pol src) (if lft then take k (drop (length ss - n) ss) else take k (drop (n - k) ss))"
  proof -
    have c: "n \<le> length ss" "(if lft then 0 else n - 1) = (if lft then length ss - n else n - 1)" "sh_flag (sh_control hint0) SF_ALLOW_LEFT = lft"
      "\<not> sh_flag (sh_result hint0) SF_MOVE_POINT" "\<And>x. follow \<Longrightarrow> \<not> lft \<Longrightarrow> unit (sh_pos hint0) \<le> n"
      using assms(7,9) by (simp_all add: n_def hint0_def lft_def)
    show ?thesis using predict_spec [OF assms(5) c(1) p c(2-4) fol c(5)] that by blast
  qed
  have kj: "sh_units_number h = k" "k = j" "k \<le> n" "sh_units_bytes h = sh_units_bytes hint" "same_goal hint0 h"
    using k(1) run by (auto simp: predicted_units_def hint0_def j_def split: if_splits)
  have pos: "0 < k" using assms(10) kj(2) by (simp add: j_def)
  have h': "hint' = h\<lparr>sh_units_bytes := to_u32 (int (sh_units_bytes h) - int space')\<rparr>" using run kj(1) pos by simp
  have "sh_units_bytes hint' = sh_units_bytes hint - space'"
    using assms(8) k(2) kj(4) unfolding h' space_def by (simp add: to_u32_diff)
  moreover have "(if lft then take k (drop (length ss - n) ss) else take k (drop (n - k) ss)) = (if lft then take j ss else drop (n - j) ss)"
    using kj(2,3) by (simp add: n_def)
  ultimately show "sh_units_bytes hint' = extra + run_size (cde40_key_pol src) (if lft then take j ss else drop (n - j) ss)"
    "sh_units_bytes hint' \<le> sh_units_bytes hint"
    using k(2) ex by (simp_all add: space_def)
  show "res = 0" "dsto' = dsto" using run by simp_all
  show "same_goal hint hint'" using kj(5) h' by (simp add: same_goal_def hint0_def)
  show "j \<le> n" using kj by simp
  show "follow \<Longrightarrow> follow_point lft n d j hint hint'"
    using k(1) kj(2) h' by (simp add: predicted_units_def follow_point_def Let_def hint0_def)
qed

lemma shift_units_entries:
  fixes src dst ss es hint
  defines "pol \<equiv> cde40_key_pol src" and "lft \<equiv> sh_flag (sh_control hint) SF_ALLOW_LEFT" and "k \<equiv> sh_units_number hint"
    and "n \<equiv> length ss"
  assumes "cde_holds src ss" "if sh_create hint then es = [] else cde_holds dst es" "kplug (pl_key dst) = kplug (pl_key src)"
    and "cde_len pol (es @ ss) < 65536" "0 < k" "k \<le> n"
    and "sh_units_bytes hint = (if sh_create hint then 2 else 0) + run_size pol (if lft then take k ss else drop (n - k) ss)"
  obtains src' dst' hint' where "cde40_shift_units src dst hint = (0, src', dst', hint')"
    and "cde_holds src' (if lft then drop k ss else take (n - k) ss)"
    and "cde_holds dst' (if lft then es @ take k ss else drop (n - k) ss @ es)"
proof -
  define dst1 where "dst1 = (if sh_create hint then cde_set_units dst 0 else dst)"
  define spos where "spos = (if lft then 0 else n - k)"
  define dpos where "dpos = (if lft then length es else 0)"
  define ns where "ns = take k (drop spos ss)"
  define hint1 where "hint1 = (if sh_create hint then hint\<lparr>sh_units_bytes := to_u32 (int (sh_units_bytes hint) - int cde40_t_size)\<rparr> else hint)"
  have ns: "ns = (if lft then take k ss else drop (n - k) ss)" "length ns = k" using assms(10) by (auto simp: ns_def spos_def n_def)
  have d1: "cde_holds dst1 es" "kplug (pl_key dst1) = kplug (pl_key src)" "cde40_key_pol dst1 = pol"
    using assms(6,7) by (auto simp: dst1_def cde_set_units_def cde_get_units_def get_set_le cde40_key_pol_def pol_def intro!: holds_empty split: if_splits)
  have rs: "run_size pol ns \<le> run_size pol ss"
    using run_size_simps(3) [of pol "take k ss" "drop k ss"] run_size_simps(3) [of pol "take (n - k) ss" "drop (n - k) ss"] ns(1) by auto
  have tot: "cde_len pol es + run_size pol ns < 65536"
    using rs assms(8) unfolding cde_len_eq by (simp add: run_size_def algebra_simps)
  have bytes: "sh_units_bytes hint1 = k * en_size pol + bodies_len ns"
  proof -
    have r: "run_size pol ns = k * en_size pol + bodies_len ns" by (simp add: run_size_def ns(2))
    have "sh_units_bytes hint = (if sh_create hint then 2 else 0) + run_size pol ns" using assms(11) ns(1) by simp
    moreover have "to_u32 (int (2 + run_size pol ns) - int cde40_t_size) = run_size pol ns" using tot by (subst to_u32_diff) auto
    ultimately have "sh_units_bytes hint1 = run_size pol ns" by (simp add: hint1_def)
    then show ?thesis using r by simp
  qed
  have u: "cde_get_units dst1 = length es" "cde_get_units src = n" using holdsD(1) [OF d1(1)] holdsD(1) [OF assms(5)] by (simp_all add: n_def)
  have nsmall: "n < 65536"
    using assms(8) mult_le_mono2 [of 1 "en_size pol" n] en_size_eq [of pol] unfolding cde_len_eq by (simp add: n_def algebra_simps)
  have dp: "dpos \<le> length es" by (simp add: dpos_def)
  have sp: "spos + k \<le> length ss" using assms(10) by (simp add: spos_def n_def)
  obtain q where q: "cde40_expand dst1 dpos k (k * en_size pol + bodies_len ns) = (ce_off pol es dpos + k * en_size pol, q)"
      "cde_gap q es dpos k (bodies_len ns)" "pl_body q = pl_body dst1" "pl_key q = pl_key dst1"
    using expand_gap [OF d1(1) dp, of k "bodies_len ns"] tot d1(3) ns(2) by (auto simp: run_size_def)
  have Q: "cde40_key_pol q = pol" using q(4) d1 by (simp add: cde40_key_pol_def)
  have len: "cde_len pol (take dpos es @ ns @ drop dpos es) < 65536"
    using tot bodies_len_simps(3) [of "take dpos es" "drop dpos es"] dp unfolding cde_len_eq by (simp add: run_size_def algebra_simps)
  define w where "w = cde40_copy q dpos src spos k"
  have w: "cde_holds w (take dpos es @ ns @ drop dpos es)"
    using copy_holds(1) [of q es dpos k spos ss src] q(2) assms(5,9) dp sp len holdsD(3) [OF d1(1)] d1(3) Q
    by (simp add: w_def ns_def pol_def)
  obtain s where s: "cde40_shrink src spos k = (k * en_size pol + bodies_len (take k (drop spos ss)), s)"
      "cde_holds s (take spos ss @ drop (spos + k) ss)" "pl_key s = pl_key src"
    using shrink_holds [OF assms(5) sp assms(9)] by (auto simp: pol_def)
  define s' where "s' = (if cde_get_units s > 0 \<and> lft then s\<lparr>pl_key := cde40_get_hash s 0\<rparr> else s)"
  have "s' = s \<or> s' = s\<lparr>pl_key := cde40_get_hash s 0\<rparr>" by (simp add: s'_def)
  then have s': "cde_holds s' (take spos ss @ drop (spos + k) ss)" using s(2) by auto
  have h1: "sh_units_number hint1 = k" "sh_control hint1 = sh_control hint" by (simp_all add: hint1_def k_def)
  have pair: "(if sh_create hint then (hint\<lparr>sh_units_bytes := to_u32 (int (sh_units_bytes hint) - int cde40_t_size)\<rparr>, cde_set_units dst 0)
      else (hint, dst)) = (hint1, dst1)" by (simp add: hint1_def dst1_def)
  have spos: "(if lft then 0 else to_u32 (int n - int k)) = spos" using assms(10) nsmall by (simp add: spos_def to_u32_diff)
  have run: "cde40_shift_units src dst hint = (0, s', w, hint1)"
    unfolding cde40_shift_units_def pair Let_def prod.case h1 lft_def [symmetric] u bytes spos dpos_def [symmetric] q(1) w_def [symmetric] s(1) s'_def [symmetric]
    by (rule refl)
  show ?thesis
  proof
    show "cde_holds s' (if lft then drop k ss else take (n - k) ss)" using s' assms(10) by (simp add: spos_def n_def split: if_splits)
    show "cde_holds w (if lft then es @ take k ss else drop (n - k) ss @ es)" using w ns(1) by (simp add: dpos_def split: if_splits)
  qed (rule run)
qed

text \<open>
  C17: shifting entries between two directory items, to the left or to the right, into a new item or an existing
  one: what \<^verbatim>\<open>cde40_prep_shift\<close> estimated fits into the space and \<^verbatim>\<open>cde40_shift_units\<close> moves exactly these
  entries; joined in order, the two items hold the same entries as before, the destination grows by the estimated
  bytes, and the insert point stays between the same two entries.
\<close>

theorem cde40_shift_keeps:
  assumes "cde_holds src ss" "if sh_create hint then es = [] else cde_holds dst es" "kplug (pl_key dst) = kplug (pl_key src)"
    and "cde_len (cde40_key_pol src) (es @ ss) < 65536" "sh_units_bytes hint < 65536" "\<not> sh_flag (sh_result hint) SF_MOVE_POINT"
    and "unit (sh_pos hint) \<le> length ss" "item (pl_pos src) = item (sh_pos hint)" "sh_flag (sh_control hint) SF_UPDATE_POINT"
    and "cde40_prep_shift src (if sh_create hint then None else Some dst) hint = (res, dsto, hint1)" "0 < sh_units_number hint1"
  shows "\<exists>src' dst' hint2 ss' es'. res = 0 \<and> cde40_shift_units src dst hint1 = (0, src', dst', hint2) \<and>
    cde_holds src' ss' \<and> cde_holds dst' es' \<and> length es' = length es + sh_units_number hint1 \<and>
    (if sh_flag (sh_control hint) SF_ALLOW_LEFT then es' @ ss' = es @ ss else ss' @ es' = ss @ es) \<and>
    cde_len (cde40_key_pol src) es' = (if sh_create hint then 0 else cde_len (cde40_key_pol src) es) + sh_units_bytes hint1 \<and>
    sh_units_bytes hint1 \<le> sh_units_bytes hint \<and>
    follow_point (sh_flag (sh_control hint) SF_ALLOW_LEFT) (length ss) (length es) (sh_units_number hint1) hint hint1"
proof -
  let ?lft = "sh_flag (sh_control hint) SF_ALLOW_LEFT" and ?k = "sh_units_number hint1" and ?pol = "cde40_key_pol src"
  have "length ss * 1 \<le> length ss * en_size ?pol" using en_size_eq [of ?pol] by (intro mult_le_mono2) simp
  then have nsmall: "length ss < 65536" using holdsD(2) [OF assms(1)] unfolding cde_len_eq by linarith
  note prep = prep_spec [OF assms(1,10,6,5) assms(7) assms(11)]
  have d: "(case if sh_create hint then None else Some dst of None \<Rightarrow> 0 | Some dst \<Rightarrow> cde40_units dst) = length es"
    using assms(2) holdsD(1) by (auto simp: cde40_units_def split: if_splits)
  have g: "sh_create hint1 = sh_create hint" "sh_control hint1 = sh_control hint" using prep(3) by (simp_all add: same_goal_def)
  obtain src' dst' hint2 where s: "cde40_shift_units src dst hint1 = (0, src', dst', hint2)"
      "cde_holds src' (if ?lft then drop ?k ss else take (length ss - ?k) ss)"
      "cde_holds dst' (if ?lft then es @ take ?k ss else drop (length ss - ?k) ss @ es)"
    using shift_units_entries [of src ss hint1 es dst] assms(1-4,11) prep(4,5) g by auto
  have pt: "follow_point ?lft (length ss) (length es) ?k hint hint1"
    using prep(7) assms(7-9) nsmall d by simp
  have len: "cde_len ?pol (if ?lft then es @ take ?k ss else drop (length ss - ?k) ss @ es) =
      (if sh_create hint then 0 else cde_len ?pol es) + sh_units_bytes hint1"
    using prep(5) assms(2) unfolding cde_len_eq by (auto simp: run_size_def algebra_simps)
  show ?thesis
    using s pt len prep(1,4,6) by (intro exI [of _ src'] exI [of _ dst'] exI [of _ hint2]
      exI [of _ "if ?lft then drop ?k ss else take (length ss - ?k) ss"]
      exI [of _ "if ?lft then es @ take ?k ss else drop (length ss - ?k) ss @ es"]) auto
qed

definition sample_cde_shift :: shift_hint where
  "sample_cde_shift = \<lparr>sh_create = True, sh_update = False, sh_items_number = 0, sh_units_number = 0, sh_items_bytes = 0,
     sh_units_bytes = 100, sh_control = SF_ALLOW_LEFT OR SF_UPDATE_POINT, sh_result = 0, sh_pos = \<lparr>item = 0, unit = 1\<rparr>\<rparr>"

theorem cde40_shift_keeps_witness:
  "let (res, d, hint1) = cde40_prep_shift sample_cde None sample_cde_shift; (res', src', dst', hint2) = cde40_shift_units sample_cde sample_cde hint1
   in res = 0 \<and> res' = 0 \<and> cde_holds src' [] \<and> cde_holds dst' [sample_entry] \<and> sh_units_number hint1 = 1 \<and> unit (sh_pos hint1) = 0"
proof -
  note h = sample_cde_holds
  have units: "cde40_units sample_cde = 1" using holdsD(1) [OF h] by (simp add: cde40_units_def)
  have len: "cde40_get_len sample_cde 0 = 24" using holds_len [OF h, of 0] by (simp add: sample_entry_def)
  have flags: "sh_flag (sh_control sample_cde_shift) SF_ALLOW_LEFT" "sh_flag (sh_control sample_cde_shift) SF_UPDATE_POINT"
    "\<not> sh_flag (sh_control sample_cde_shift) SF_MOVE_POINT" "\<not> sh_flag (sh_result sample_cde_shift) SF_MOVE_POINT"
    by (simp_all add: sample_cde_shift_def sh_flag_def)
  let ?h = "snd (snd (cde40_prep_shift sample_cde None sample_cde_shift))"
  have num: "sh_units_number ?h = 1" "unit (sh_pos ?h) = 0"
    using flags by (simp_all add: cde40_prep_shift_def units Let_def len en_size_def sample_cde_shift_def)
  have lens: "cde_len 4 [sample_entry] < 65536" by (simp add: cde_len_eq sample_entry_def en_size_def)
  obtain src' dst' hint2 ss' es' where r: "fst (cde40_prep_shift sample_cde None sample_cde_shift) = 0"
      "cde40_shift_units sample_cde sample_cde ?h = (0, src', dst', hint2)" "cde_holds src' ss'" "cde_holds dst' es'"
      "length es' = 1" "es' @ ss' = [sample_entry]"
    using cde40_shift_keeps [OF h, of sample_cde_shift "[]" sample_cde "fst (cde40_prep_shift sample_cde None sample_cde_shift)"
        "fst (snd (cde40_prep_shift sample_cde None sample_cde_shift))" ?h] flags num lens
    by (auto simp: sample_cde_shift_def)
  then have "es' = [sample_entry]" "ss' = []" by (cases es'; simp)+
  then show ?thesis using r num by (simp add: Let_def case_prod_unfold)
qed

end
