(* ===== verification/CdeLookup.thy ===== *)
theory CdeLookup
  imports CdeShift
begin

text \<open>
  Merging of two directory items, and lookup in an item whose hashes ascend.
\<close>

unbundle bit_operations_syntax

section \<open>Merging\<close>

lemma merge_entries:
  fixes l r es fs
  defines "pol \<equiv> cde40_key_pol l"
  assumes "cde_holds (place_put l (place_mem r)) es" "cde_holds r fs" "cde40_key_pol r = pol"
    and "pl_len l = cde_len pol es" "pl_len r = cde_len pol fs" "pl_body r = pl_body l + int (pl_len l)"
    and "cde_len pol (es @ fs) < 65536"
  obtains r' where "cde40_merge l r = (2, r')" "cde_holds (place_put l (place_mem r')) (es @ fs)"
proof -
  define b where "b = pl_body l"
  define n1 where "n1 = length es"
  define n2 where "n2 = length fs"
  define sz where "sz = n2 * en_size pol"
  define off where "off = 2 + n1 * en_size pol"
  define L where "L = cde_len pol es"
  define m1 where "m1 = set_le 2 (place_mem r) b (int n1 + int n2)"
  define m2 where "m2 = memmove m1 (b + int L) (b + int L + 2) (cde_len pol fs - 2)"
  define m3 where "m3 = memmove m2 (b + int (off + sz)) (b + int off) (L - off)"
  define m4 where "m4 = mwrite m3 (b + int off) (mread m2 (b + int L) sz)"
  define m5 where "m5 = cde40_add_offsets pol n1 m4 (cde40_entry l 0) (int sz)"
  define m6 where "m6 = cde40_add_offsets pol n2 m5 (cde40_entry l n1) (int L - 2)"
  note h1 = holdsD [OF assms(2), unfolded cde_put_simps place_put_simps, folded pol_def]
  note h2 = holdsD [OF assms(3), unfolded assms(4)]
  have E: "en_size pol = ha_size pol + 2" by (rule en_size_eq)
  have Leq: "L = off + bodies_len es" by (simp add: L_def off_def cde_len_eq n1_def)
  have tot: "off + sz + bodies_len es + bodies_len fs < 65536"
    using assms(8) unfolding cde_len_eq by (simp add: off_def sz_def n1_def n2_def algebra_simps)
  have un: "cde_get_units (place_put l (place_mem r)) = n1" "cde_get_units r = n2" using h1(1) h2(1) by (simp_all add: n1_def n2_def)
  have nsm: "n1 + n2 < 65536"
    using tot mult_le_mono2 [of 1 "en_size pol" n1] mult_le_mono2 [of 1 "en_size pol" n2] E by (simp add: off_def sz_def mult.commute)
  have le: "cde40_entry l i \<le> cde40_entry l j" if "i \<le> j" for i j using that entry_before [of i j l] by (cases "i = j") auto
  have en: "cde40_entry l n1 = b + int off" "cde40_entry l (n1 + n2) = b + int (off + sz)"
    by (simp_all add: cde40_entry_def b_def off_def sz_def pol_def algebra_simps)
  have small: "cde_len pol fs - 2 < 65536" "L - off < 65536" "2 \<le> L" "off \<le> L" "2 \<le> cde_len pol fs"
    using h2(2) tot Leq by (simp_all add: off_def cde_len_eq)
  have unm: "get_le 2 m1 b = n1 + n2"
    using nsm by (simp add: m1_def get_set_le nat_mod_as_int flip: of_nat_add)
  have m3_units: "get_le 2 m4 b = n1 + n2" "get_le 2 m5 b = n1 + n2"
  proof -
    have "mread m4 b 2 = mread m1 b 2"
      unfolding m4_def m3_def m2_def using small by (simp add: mread_other mread_memmove_other off_def)
    then show m4: "get_le 2 m4 b = n1 + n2" using unm by (simp add: get_le_def)
    have "mread m5 b 2 = mread m4 b 2"
      unfolding m5_def by (rule add_offsets_read) (simp add: cde40_entry_def b_def)
    then show "get_le 2 m5 b = n1 + n2" using m4 by (simp add: get_le_def)
  qed
  have run: "cde40_merge l r = (2, place_put r m6)"
  proof -
    have a: "to_u64 (int (pl_len r) - 2) = cde_len pol fs - 2"
      using small(1,5) unfolding assms(6) by (simp add: to_u64_id nat_diff_distrib)
    have c: "to_u32 (int (pl_len l) - int off) = L - off"
      using small(4) tot Leq unfolding assms(5) L_def [symmetric] by (intro to_u32_diff) simp_all
    have br: "pl_body r = b + int L" using assms(5,7) by (simp add: b_def L_def)
    have o2: "cde40_t_size + n1 * en_size pol = off" by (simp add: off_def)
    have inc: "place_mem (cde_inc_units (place_put l (place_mem r)) n2) = m1" "pl_body (cde_inc_units (place_put l (place_mem r)) n2) = b"
      "pl_len (cde_inc_units (place_put l (place_mem r)) n2) = pl_len l" "place_put (cde_inc_units (place_put l (place_mem r)) n2) m = place_put l m"
      "cde40_entry (cde_inc_units (place_put l (place_mem r)) n2) i = cde40_entry l i" for m i
      using un(1) by (simp_all add: cde_inc_units_def cde_set_units_def m1_def b_def)
    have gu: "cde_get_units (place_put l m5) - n1 = n2"
      using m3_units(2) by (simp add: cde_get_units_def b_def)
    have eL: "int (pl_len l) - 2 = int L - 2" by (simp add: L_def assms(5))
    show ?thesis
      unfolding cde40_merge_def Let_def pol_def [symmetric] un sz_def [symmetric] o2 inc br a c
        of_nat_numeral m2_def [symmetric] m3_def [symmetric] m4_def [symmetric] place_put_simps cde_put_simps place_put_twice
        m5_def [symmetric] gu eL m6_def [symmetric] by (rule refl)
  qed
  have offs: "ce_off pol (es @ fs) i = (if i < n1 then ce_off pol es i + sz else ce_off pol fs (i - n1) + (L - 2))" if "i \<le> n1 + n2" for i
    using Leq by (auto simp: ce_off_def sz_def off_def n1_def n2_def algebra_simps)
  have read_end: "mread m6 a k = mread m4 a k" if "b + int (off + sz) \<le> a" for a k
  proof -
    have "mread m6 a k = mread m5 a k"
      unfolding m6_def pol_def by (rule add_offsets_body) (use that en(2) in simp)
    moreover have "cde40_entry l (0 + n1) \<le> a" using en that by simp
    then have "mread m5 a k = mread m4 a k" unfolding m5_def pol_def by (rule add_offsets_body)
    ultimately show ?thesis by simp
  qed
  have fin: "mread m6 (cde40_entry l i) (ha_size pol) = ce_hash ((es @ fs) ! i) \<and> en_get_offset m6 (cde40_entry l i) pol = ce_off pol (es @ fs) i \<and>
      mread m6 (b + int (ce_off pol (es @ fs) i)) (length (ce_body ((es @ fs) ! i))) = ce_body ((es @ fs) ! i)" if i: "i < n1 + n2" for i
  proof -
    have hash: "mread m6 (cde40_entry l i) (ha_size pol) = mread m4 (cde40_entry l i) (ha_size pol)"
      by (simp only: m6_def m5_def pol_def add_offsets_hash)
    have two: "b + 2 \<le> cde40_entry l i" by (simp add: cde40_entry_def b_def)
    show ?thesis
    proof (cases "i < n1")
      case True
      then have ei: "cde40_entry l i + int (en_size pol) \<le> b + int off" using entry_before [OF True, of l] en(1) by (simp add: pol_def)
      have rd: "mread m4 (cde40_entry l i + int d) k = mread (place_mem r) (cde40_entry l i + int d) k" if "d + k \<le> en_size pol" for d k
        unfolding m4_def m3_def m2_def m1_def using that ei small(4) two
        by (simp add: mread_other mread_memmove_other mread_set_le_other)
      have "en_get_offset m4 (cde40_entry l i) pol = ce_off pol es i"
        using rd [of "ha_size pol" 2] E h1(5) [of i] True by (simp add: en_get_offset_def get_le_def cde_get_offset_def pol_def n1_def)
      moreover have "nat ((int (ce_off pol es i) + int sz) mod 65536) = ce_off pol es i + sz"
        using tot bodies_take_all [of i es] unfolding off_def
        by (simp add: ce_off_def n1_def nat_mod_as_int flip: of_nat_add)
      ultimately have off: "en_get_offset m6 (cde40_entry l i) pol = ce_off pol es i + sz"
        using True by (simp add: m6_def m5_def pol_def add_offsets_off)
      have "mread m6 (b + int (ce_off pol es i + sz)) (length (ce_body (es ! i))) = mread m4 (b + int (ce_off pol es i + sz)) (length (ce_body (es ! i)))"
        by (rule read_end) (simp add: off_def ce_off_def n1_def)
      also have "\<dots> = mread m3 (b + int (ce_off pol es i + sz)) (length (ce_body (es ! i)))"
        unfolding m4_def by (rule mread_other) (simp add: off_def ce_off_def n1_def)
      also have "\<dots> = mread m2 (b + int (ce_off pol es i)) (length (ce_body (es ! i)))"
      proof -
        have "off \<le> ce_off pol es i" "ce_off pol es i + length (ce_body (es ! i)) \<le> L"
          using ce_off_bound [of i es pol] True by (simp_all add: L_def n1_def off_def ce_off_def [of pol es i])
        then show ?thesis unfolding m3_def using small(4) by (subst mread_memmove) (auto simp: of_nat_diff algebra_simps)
      qed
      also have "\<dots> = mread (place_mem r) (b + int (ce_off pol es i)) (length (ce_body (es ! i)))"
      proof -
        have "ce_off pol es i + length (ce_body (es ! i)) \<le> L" "2 \<le> ce_off pol es i"
          using ce_off_bound [of i es pol] True by (simp_all add: L_def n1_def ce_off_def [of pol es i])
        then show ?thesis unfolding m2_def m1_def by (simp add: mread_memmove_other mread_set_le_other)
      qed
      also have "\<dots> = ce_body (es ! i)" using h1(6) [of i] True by (simp add: n1_def b_def)
      finally show ?thesis
        using hash rd [of 0 "ha_size pol"] E h1(4) [of i] True off offs [of i] i by (simp add: nth_append n1_def)
    next
      case False
      define j where "j = i - n1"
      have j: "i = n1 + j" "j < n2" using False i by (auto simp: j_def)
      define x where "x = j * en_size pol"
      have jE: "x + en_size pol \<le> sz" using mult_le_mono1 [of "Suc j" n2 "en_size pol"] j by (simp add: sz_def x_def)
      have ei: "cde40_entry l i = b + int off + int x" using entry_add [of l n1 j] en(1) j by (simp add: pol_def x_def)
      have er: "cde40_entry r j = b + int L + 2 + int x"
        using assms(4,5,7) by (simp add: cde40_entry_def b_def L_def x_def mult.commute)
      have rlen: "sz \<le> cde_len pol fs - 2" by (simp add: cde_len_eq sz_def n2_def)
      have rd: "mread m4 (cde40_entry l i + int d) k = mread (place_mem r) (cde40_entry r j + int d) k" if "d + k \<le> en_size pol" for d k
      proof -
        have "mread m4 (cde40_entry l i + int d) k = take k (drop (x + d) (mread m2 (b + int L) sz))"
          unfolding m4_def ei using that jE by (subst mread_inside) (auto simp: nat_add_distrib algebra_simps)
        also have "\<dots> = mread m2 (b + int L + int (x + d)) k"
          using that jE by (intro mread_part) simp
        also have "\<dots> = mread m1 (b + int L + 2 + int (x + d)) k"
          unfolding m2_def using that jE rlen by (subst mread_memmove) (auto simp: algebra_simps)
        also have "\<dots> = mread (place_mem r) (cde40_entry r j + int d) k"
          unfolding m1_def er by (subst mread_set_le_other) (auto simp: algebra_simps)
        finally show ?thesis .
      qed
      have "en_get_offset m4 (cde40_entry l i) pol = ce_off pol fs j"
        using rd [of "ha_size pol" 2] E h2(5) [of j] j assms(4) by (simp add: en_get_offset_def get_le_def cde_get_offset_def n2_def)
      moreover have "nat ((int (ce_off pol fs j) + (int L - 2)) mod 65536) = ce_off pol fs j + (L - 2)"
      proof -
        have "ce_off pol fs j + (L - 2) < 65536"
          using tot bodies_take_all [of j fs] Leq by (simp add: ce_off_def sz_def n2_def off_def)
        then show ?thesis using small(3) by (simp add: nat_mod_as_int of_nat_diff flip: of_nat_add)
      qed
      ultimately have off: "en_get_offset m6 (cde40_entry l i) pol = ce_off pol fs j + (L - 2)"
        using j by (simp add: m6_def m5_def pol_def add_offsets_off)
      have pos: "b + int (ce_off pol fs j + (L - 2)) = b + int L + int (ce_off pol fs j - 2)"
        using small(3) by (simp add: ce_off_def)
      have beyond: "off + sz \<le> ce_off pol fs j + (L - 2)" "L + sz \<le> ce_off pol fs j + (L - 2)"
        using Leq small(3) by (simp_all add: ce_off_def sz_def n2_def off_def)
      have "mread m6 (b + int (ce_off pol fs j + (L - 2))) (length (ce_body (fs ! j))) = mread m4 (b + int (ce_off pol fs j + (L - 2))) (length (ce_body (fs ! j)))"
        by (rule read_end) (use beyond(1) in simp)
      also have "\<dots> = mread m3 (b + int (ce_off pol fs j + (L - 2))) (length (ce_body (fs ! j)))"
        unfolding m4_def by (rule mread_other) (use beyond(1) in simp)
      also have "\<dots> = mread m2 (b + int (ce_off pol fs j + (L - 2))) (length (ce_body (fs ! j)))"
        unfolding m3_def by (rule mread_memmove_other) (use beyond(2) small(4) in simp)
      also have "\<dots> = mread m1 (b + int L + int (ce_off pol fs j)) (length (ce_body (fs ! j)))"
      proof -
        have "2 \<le> ce_off pol fs j" "ce_off pol fs j + length (ce_body (fs ! j)) \<le> cde_len pol fs"
          using ce_off_bound [of j fs pol] j by (simp_all add: n2_def ce_off_def [of pol fs j])
        then show ?thesis unfolding m2_def pos by (subst mread_memmove) (auto simp: of_nat_diff algebra_simps)
      qed
      also have "\<dots> = mread (place_mem r) (b + int L + int (ce_off pol fs j)) (length (ce_body (fs ! j)))"
        unfolding m1_def by (rule mread_set_le_other) (use small(3) in simp)
      also have "\<dots> = ce_body (fs ! j)" using h2(6) [of j] j assms(5,7) by (simp add: n2_def b_def L_def)
      finally show ?thesis
        using hash rd [of 0 "ha_size pol"] E h2(4) [of j] j off offs [of i] by (simp add: nth_append n1_def n2_def)
    qed
  qed
  have "mread m6 b 2 = mread m5 b 2" unfolding m6_def by (rule add_offsets_read) (simp add: cde40_entry_def b_def)
  then have units: "cde_get_units (place_put l m6) = n1 + n2" using m3_units(2) by (simp add: cde_get_units_def get_le_def b_def)
  have "cde_holds (place_put l m6) (es @ fs)"
    unfolding cde_holds_def Let_def cde_get_offset_def cde_put_simps place_put_simps pol_def [symmetric] b_def [symmetric] units
    using fin assms(8) h1(3) h2(3) by (auto simp: n1_def n2_def)
  then show ?thesis using run that by simp
qed

section \<open>Lookup\<close>

lemma leftmost_spec:
  "cde40_leftmost p key i \<le> i \<and> (\<forall>j. cde40_leftmost p key i \<le> j \<and> j < i \<longrightarrow> cde40_comp_hash p j key = 0) \<and>
   (cde40_leftmost p key i = 0 \<or> cde40_comp_hash p (cde40_leftmost p key i - 1) key \<noteq> 0)"
proof (induction i)
  case (Suc i)
  then show ?case by (auto simp: less_Suc_eq)
qed simp

text \<open>
  C19: in a directory item whose hashes ascend, with any number of equal ones, \<^verbatim>\<open>cde40_lookup\<close> finds the
  leftmost entry with the wanted key, or the insertion point when there is none, and answers PRESENT or ABSENT
  accordingly; it reports no error.
\<close>

theorem cde40_lookup_leftmost:
  assumes "kplug key = kplug (pl_key p)" "cde40_units p < 65536"
    and "\<forall>i j. i \<le> j \<and> j < cde40_units p \<longrightarrow> reiser4_key_compfull (cde40_get_hash p i) (cde40_get_hash p j) \<le> 0"
  defines "n \<equiv> cde40_units p" and "cmp \<equiv> \<lambda>i. reiser4_key_compfull (cde40_get_hash p i) key"
  shows "\<exists>res u. cde40_lookup p key bias = (res, place_unit p u) \<and> u \<le> n \<and>
    (\<forall>i<u. cmp i = -1) \<and>
    (if \<exists>i<n. cmp i = 0 then res = PRESENT \<and> u < n \<and> cmp u = 0
     else res = (if bias = FIND_CONV then PRESENT else ABSENT) \<and> (\<forall>i. u \<le> i \<and> i < n \<longrightarrow> cmp i = 1))"
proof -
  let ?cb = "cb_comp_hash key p"
  have cb: "?cb i = cmp i" "cde40_comp_hash p i key = cmp i" for i by (simp_all add: cb_comp_hash_def cde40_comp_hash_def cmp_def)
  have cf: "reiser4_key_compfull (cde40_get_hash p i) k = key_plug_compraw (kplug (pl_key p)) (kbody (cde40_get_hash p i)) (kbody k)" for i k
    by (rule compfull_compraw) simp
  have "?cb = (\<lambda>i. key_plug_compraw (kplug (pl_key p)) (kbody (cde40_get_hash p i)) (kbody key))"
    by (rule ext) (simp only: cb cmp_def cf)
  then have srt: "cmp_sorted n ?cb"
    unfolding n_def using raw_keys.ascending_cmp_sorted [OF assms(3) [unfolded cf]] by (simp only:)
  have b: "n \<le> 1073741824" using assms(2) by (simp add: n_def)
  obtain f u where fu: "aux_bin_search n ?cb = Some (f, u)" and spec: "if \<exists>i<n. cmp i = 0 then f = 1 \<and> u < n \<and> cmp u = 0
     else f = 0 \<and> u \<le> n \<and> (\<forall>i<u. cmp i = -1) \<and> (\<forall>i. u \<le> i \<and> i < n \<longrightarrow> cmp i = 1)"
    using aux_bin_search_spec [OF srt b] unfolding cb by blast
  show ?thesis
  proof (cases "\<exists>i<n. cmp i = 0")
    case True
    let ?v = "cde40_leftmost p key u"
    have s: "f = 1" "u < n" "cmp u = 0" using spec True by simp_all
    note lm = leftmost_spec [of p key u, unfolded cb]
    have z: "cmp ?v = 0" using lm s(3) by (cases "?v = u") auto
    have "cmp i = -1" if "i < ?v" for i
    proof -
      have v: "i \<le> ?v - 1" "?v - 1 < n" "?v < n" using lm s(2) that by linarith+
      have "cmp (?v - 1) \<noteq> 0" using lm that by auto
      moreover have "cmp (?v - 1) \<le> cmp ?v" using cmp_sorted_mono [OF srt, of "?v - 1" ?v] v by (simp add: cb)
      moreover have "cmp i \<le> cmp (?v - 1)" using cmp_sorted_mono [OF srt v(1,2)] by (simp add: cb)
      ultimately show ?thesis using cmp_sorted_cases [OF srt, of i] cmp_sorted_cases [OF srt v(2)] z v by (auto simp: cb)
    qed
    then have low: "\<forall>i<?v. cmp i = -1" by blast
    have run: "cde40_lookup p key bias = (PRESENT, place_unit p ?v)"
      unfolding cde40_lookup_def n_def [symmetric] fu option.sel Let_def prod.case s(1) by simp
    have v: "?v \<le> n" "?v < n" using lm s(2) by linarith+
    show ?thesis unfolding if_P [OF True] using run v low z by blast
  next
    case False
    have s: "f = 0" "u \<le> n" "\<forall>i<u. cmp i = -1" "\<forall>i. u \<le> i \<and> i < n \<longrightarrow> cmp i = 1"
      using spec unfolding if_not_P [OF False] by blast+
    have run: "cde40_lookup p key bias = (if bias = FIND_CONV then PRESENT else ABSENT, place_unit p u)"
      unfolding cde40_lookup_def n_def [symmetric] fu option.sel Let_def prod.case s(1) by simp
    show ?thesis unfolding if_not_P [OF False] using run s(2-4) by blast
  qed
qed

theorem cde40_lookup_leftmost_witness:
  "\<exists>res u. cde40_lookup sample_cde (cde40_get_hash sample_cde 0) FIND_EXACT = (res, place_unit sample_cde u) \<and> res = PRESENT \<and> u = 0"
proof -
  have units: "cde40_units sample_cde = 1" using holdsD(1) [OF sample_cde_holds] by (simp add: cde40_units_def)
  have same: "reiser4_key_compfull k k = 0" for k
    unfolding key_compfull_rank [OF refl] rank_compare_def by simp
  show ?thesis
    using cde40_lookup_leftmost [of "cde40_get_hash sample_cde 0" sample_cde FIND_EXACT] units same by (auto simp: kplug_get_hash)
qed

end
