(* ===== verification/Format40.thy ===== *)
theory Format40
  imports Alloc40 Memory
begin

text \<open>
  The disk format plugin (\<^verbatim>\<open>plugin/format/format40\<close>): the super block behind the master block, its fields, its way
  to the device and to a stream, the copy of its permanent fields in the backup blocks, and what fsck does with
  it.  The device, the streams, the clock (the id \<open>mkfs\<close> gives the file system), the release number of the build
  and the answer of the user are parameters; \<open>policies\<close> are the ids of the registered formatting policies.
\<close>

unbundle bit_operations_syntax

section \<open>The super block\<close>

abbreviation (input) MAGIC_SIZE :: nat where "MAGIC_SIZE \<equiv> 16"
abbreviation (input) FORMAT40_SUPER_SIZE :: nat where "FORMAT40_SUPER_SIZE \<equiv> 512"
abbreviation (input) FORMAT40_BACKUP_SIZE :: nat where "FORMAT40_BACKUP_SIZE \<equiv> 50"
abbreviation (input) KEY_SHORT_ID :: nat where "KEY_SHORT_ID \<equiv> 0"
abbreviation (input) KEY_LARGE_ID :: nat where "KEY_LARGE_ID \<equiv> 1"
abbreviation (input) PM_POLICY :: nat where "PM_POLICY \<equiv> 0"
abbreviation (input) PM_KEY :: nat where "PM_KEY \<equiv> 1"

text \<open>\<open>"ReIsEr40FoRmAt"\<close> with its NUL.\<close>

definition FORMAT40_MAGIC :: "u8 list" where
  "FORMAT40_MAGIC = [0x52, 0x65, 0x49, 0x73, 0x45, 0x72, 0x34, 0x30, 0x46, 0x6f, 0x52, 0x6d, 0x41, 0x74, 0]"

definition FORMAT40_BLOCKNR :: "nat \<Rightarrow> nat" where
  "FORMAT40_BLOCKNR blksize = 65536 div blksize + 1"

record format40 =
  fmt_state :: u32
  fmt_blksize :: nat
  fmt_super :: mem

record format_hint =
  fh_blocks :: nat
  fh_blksize :: nat
  fh_policy :: nat
  fh_key :: nat
  fh_node :: nat
  fh_mask :: nat

text \<open>The backup block: its number, its size and its data; the parts of it start at \<open>bh_off\<close>.\<close>

record backup_hint =
  bh_nr :: nat
  bh_size :: nat
  bh_data :: mem
  bh_off :: "nat list"
  bh_blocks :: nat
  bh_count :: nat
  bh_total :: nat
  bh_version :: nat

abbreviation (input) BK_FORMAT :: nat where "BK_FORMAT \<equiv> 1"

definition get_sb_block_count :: "mem \<Rightarrow> nat" where "get_sb_block_count sb = get_le 8 sb 0"
definition set_sb_block_count :: "mem \<Rightarrow> nat \<Rightarrow> mem" where "set_sb_block_count sb v = set_le 8 sb 0 (int v)"
definition get_sb_free_blocks :: "mem \<Rightarrow> nat" where "get_sb_free_blocks sb = get_le 8 sb 8"
definition set_sb_free_blocks :: "mem \<Rightarrow> nat \<Rightarrow> mem" where "set_sb_free_blocks sb v = set_le 8 sb 8 (int v)"
definition get_sb_root_block :: "mem \<Rightarrow> nat" where "get_sb_root_block sb = get_le 8 sb 16"
definition set_sb_root_block :: "mem \<Rightarrow> nat \<Rightarrow> mem" where "set_sb_root_block sb v = set_le 8 sb 16 (int v)"
definition get_sb_oid :: "mem \<Rightarrow> nat" where "get_sb_oid sb = get_le 8 sb 24"
definition get_sb_file_count :: "mem \<Rightarrow> nat" where "get_sb_file_count sb = get_le 8 sb 32"
definition get_sb_flushes :: "mem \<Rightarrow> nat" where "get_sb_flushes sb = get_le 8 sb 40"
definition set_sb_flushes :: "mem \<Rightarrow> nat \<Rightarrow> mem" where "set_sb_flushes sb v = set_le 8 sb 40 (int v)"
definition get_sb_mkfs_id :: "mem \<Rightarrow> nat" where "get_sb_mkfs_id sb = get_le 4 sb 48"
definition set_sb_mkfs_id :: "mem \<Rightarrow> nat \<Rightarrow> mem" where "set_sb_mkfs_id sb v = set_le 4 sb 48 (int v)"
definition sb_magic :: "mem \<Rightarrow> u8 list" where "sb_magic sb = mread sb 52 MAGIC_SIZE"
definition get_sb_tree_height :: "mem \<Rightarrow> nat" where "get_sb_tree_height sb = get_le 2 sb 68"
definition set_sb_tree_height :: "mem \<Rightarrow> nat \<Rightarrow> mem" where "set_sb_tree_height sb v = set_le 2 sb 68 (int v)"
definition get_sb_policy :: "mem \<Rightarrow> nat" where "get_sb_policy sb = get_le 2 sb 70"
definition set_sb_policy :: "mem \<Rightarrow> nat \<Rightarrow> mem" where "set_sb_policy sb v = set_le 2 sb 70 (int v)"
definition get_sb_flags :: "mem \<Rightarrow> nat" where "get_sb_flags sb = get_le 8 sb 72"
definition set_sb_flags :: "mem \<Rightarrow> nat \<Rightarrow> mem" where "set_sb_flags sb v = set_le 8 sb 72 (int v)"
definition get_sb_node_pid :: "mem \<Rightarrow> nat" where "get_sb_node_pid sb = get_le 4 sb 84"
definition set_sb_node_pid :: "mem \<Rightarrow> nat \<Rightarrow> mem" where "set_sb_node_pid sb v = set_le 4 sb 84 (int v)"

text \<open>The highest bit of the version says that the backup is to be updated.\<close>

definition get_sb_version :: "mem \<Rightarrow> nat" where "get_sb_version sb = get_le 4 sb 80 mod 2 ^ 31"
definition set_sb_version :: "mem \<Rightarrow> nat \<Rightarrow> mem" where "set_sb_version sb v = set_le 4 sb 80 (int v)"
definition sb_update_backup :: "mem \<Rightarrow> bool" where "sb_update_backup sb \<longleftrightarrow> 2 ^ 31 \<le> get_le 4 sb 80"

text \<open>The fields of the copy in the backup, which starts at \<open>b\<close>.\<close>

definition bk_block_count :: "mem \<Rightarrow> int \<Rightarrow> nat" where "bk_block_count m b = get_le 8 m (b + 16)"
definition bk_mkfs_id :: "mem \<Rightarrow> int \<Rightarrow> nat" where "bk_mkfs_id m b = get_le 4 m (b + 24)"
definition bk_policy :: "mem \<Rightarrow> int \<Rightarrow> nat" where "bk_policy m b = get_le 2 m (b + 28)"
definition bk_flags :: "mem \<Rightarrow> int \<Rightarrow> nat" where "bk_flags m b = get_le 8 m (b + 30)"
definition bk_version :: "mem \<Rightarrow> int \<Rightarrow> nat" where "bk_version m b = get_le 4 m (b + 38) mod 2 ^ 31"

definition format40_mkdirty :: "format40 \<Rightarrow> format40" where
  "format40_mkdirty format = format\<lparr>fmt_state := fmt_state format OR 1\<rparr>"
definition format40_mkclean :: "format40 \<Rightarrow> format40" where
  "format40_mkclean format = format\<lparr>fmt_state := fmt_state format AND NOT 1\<rparr>"

section \<open>Fields\<close>

definition format40_get_root :: "format40 \<Rightarrow> nat" where
  "format40_get_root entity = get_sb_root_block (fmt_super entity)"
definition format40_get_height :: "format40 \<Rightarrow> nat" where
  "format40_get_height entity = get_sb_tree_height (fmt_super entity)"
definition format40_get_len :: "format40 \<Rightarrow> nat" where
  "format40_get_len entity = get_sb_block_count (fmt_super entity)"
definition format40_get_free :: "format40 \<Rightarrow> nat" where
  "format40_get_free entity = get_sb_free_blocks (fmt_super entity)"
definition format40_get_stamp :: "format40 \<Rightarrow> nat" where
  "format40_get_stamp entity = get_sb_mkfs_id (fmt_super entity)"
definition format40_get_policy :: "format40 \<Rightarrow> nat" where
  "format40_get_policy entity = get_sb_policy (fmt_super entity)"
definition format40_node_pid :: "format40 \<Rightarrow> nat" where
  "format40_node_pid entity = get_sb_node_pid (fmt_super entity)"
definition format40_start :: "format40 \<Rightarrow> nat" where
  "format40_start entity = FORMAT40_BLOCKNR (fmt_blksize entity)"
definition format40_get_state :: "format40 \<Rightarrow> u32" where
  "format40_get_state entity = fmt_state entity"
definition format40_set_state :: "format40 \<Rightarrow> u32 \<Rightarrow> format40" where
  "format40_set_state entity state = entity\<lparr>fmt_state := state\<rparr>"
definition format40_version :: "format40 \<Rightarrow> nat" where
  "format40_version entity = get_sb_version (fmt_super entity)"

text \<open>The area of the object id allocator in the super block.\<close>

definition format40_oid_area :: "format40 \<Rightarrow> u8 list" where
  "format40_oid_area entity = mread (fmt_super entity) 24 16"
definition format40_oid_pid :: "format40 \<Rightarrow> nat" where "format40_oid_pid entity = 0"
definition format40_journal_pid :: "format40 \<Rightarrow> nat" where "format40_journal_pid entity = 0"
definition format40_alloc_pid :: "format40 \<Rightarrow> nat" where "format40_alloc_pid entity = 0"

definition format40_set_root :: "format40 \<Rightarrow> nat \<Rightarrow> format40" where
  "format40_set_root entity root = format40_mkdirty (entity\<lparr>fmt_super := set_sb_root_block (fmt_super entity) root\<rparr>)"
definition format40_set_len :: "format40 \<Rightarrow> nat \<Rightarrow> format40" where
  "format40_set_len entity blocks = format40_mkdirty (entity\<lparr>fmt_super := set_sb_block_count (fmt_super entity) blocks\<rparr>)"
definition format40_set_free :: "format40 \<Rightarrow> nat \<Rightarrow> format40" where
  "format40_set_free entity blocks =
     (if get_sb_free_blocks (fmt_super entity) = blocks then entity
      else format40_mkdirty (entity\<lparr>fmt_super := set_sb_free_blocks (fmt_super entity) blocks\<rparr>))"
definition format40_set_height :: "format40 \<Rightarrow> nat \<Rightarrow> format40" where
  "format40_set_height entity height = format40_mkdirty (entity\<lparr>fmt_super := set_sb_tree_height (fmt_super entity) height\<rparr>)"
definition format40_set_stamp :: "format40 \<Rightarrow> nat \<Rightarrow> format40" where
  "format40_set_stamp entity mkfsid = format40_mkdirty (entity\<lparr>fmt_super := set_sb_mkfs_id (fmt_super entity) mkfsid\<rparr>)"
definition format40_set_policy :: "format40 \<Rightarrow> nat \<Rightarrow> format40" where
  "format40_set_policy entity tail = format40_mkdirty (entity\<lparr>fmt_super := set_sb_policy (fmt_super entity) tail\<rparr>)"

text \<open>Whether keys are large is the lowest flag.\<close>

definition format40_set_key :: "format40 \<Rightarrow> nat \<Rightarrow> format40" where
  "format40_set_key entity key =
     (let flags = get_sb_flags (fmt_super entity);
          flags = flags - flags mod 2;
          flags = flags + (if key = KEY_LARGE_ID then 1 else 0)
      in format40_mkdirty (entity\<lparr>fmt_super := set_sb_flags (fmt_super entity) flags\<rparr>))"

definition format40_get_key :: "format40 \<Rightarrow> nat" where
  "format40_get_key entity = (if odd (get_sb_flags (fmt_super entity)) then KEY_LARGE_ID else KEY_SHORT_ID)"

definition format40_layout :: "format40 \<Rightarrow> (nat \<Rightarrow> nat \<Rightarrow> 's \<Rightarrow> int \<times> 's) \<Rightarrow> 's \<Rightarrow> int \<times> 's" where
  "format40_layout entity region_func s =
     (let blk = FORMAT40_BLOCKNR (fmt_blksize entity);
          (res, s) = region_func 0 blk s
      in if res \<noteq> 0 then (res, s) else region_func blk 1 s)"

section \<open>Opening, creation, synchronisation\<close>

text \<open>A string comparison with the magic is decided by its NUL at the latest.\<close>

definition format40_magic :: "mem \<Rightarrow> bool" where
  "format40_magic super \<longleftrightarrow> mread super 52 15 = FORMAT40_MAGIC"

text \<open>
  The outer \<open>option\<close> is the access behind the end of a block that is smaller than the super block.  The error
  code of a block that could not be read comes from libaal.
\<close>

definition format40_super_open :: "'d aal_dev \<Rightarrow> 'd \<Rightarrow> format40 \<Rightarrow> (int \<times> format40) option" where
  "format40_super_open D dev format =
     (let offset = FORMAT40_BLOCKNR (fmt_blksize format);
          (res, data) = aal_block_read D dev (fmt_blksize format) offset
      in if res \<noteq> 0 then Some (res, format)
         else case read_range data 0 FORMAT40_SUPER_SIZE of None \<Rightarrow> None | Some bytes \<Rightarrow>
           (if \<not> format40_magic (mwrite (\<lambda>_. 0) 0 bytes) then Some (- EINVAL, format)
            else Some (res, format\<lparr>fmt_super := mwrite (fmt_super format) 0 bytes\<rparr>)))"

definition format40_open :: "'d aal_dev \<Rightarrow> 'd \<Rightarrow> nat \<Rightarrow> format40 option option" where
  "format40_open D dev blksize =
     (let format = \<lparr>fmt_state = 0, fmt_blksize = blksize, fmt_super = (\<lambda>_. 0)\<rparr>
      in case format40_super_open D dev format of None \<Rightarrow> None
       | Some (res, format) \<Rightarrow> Some (if res \<noteq> 0 then None else Some format))"

fun format40_clobber_loop :: "'d aal_dev \<Rightarrow> nat \<Rightarrow> nat \<Rightarrow> nat \<Rightarrow> 'd \<Rightarrow> int \<times> 'd" where
  "format40_clobber_loop D blksize blk 0 dev = (0, dev)"
| "format40_clobber_loop D blksize blk (Suc width) dev =
     (let (res, dev) = aal_block_write D dev blksize blk (replicate blksize 0)
      in if res \<noteq> 0 then (res, dev) else format40_clobber_loop D blksize (blk + 1) width dev)"

definition format40_clobber_block :: "'d aal_dev \<Rightarrow> 'd \<Rightarrow> format40 \<Rightarrow> nat \<Rightarrow> nat \<Rightarrow> int \<times> 'd" where
  "format40_clobber_block D dev format start width =
     (let res = aal_block_init D dev (fmt_blksize format) 0
      in if res \<noteq> 0 then (res, dev) else format40_clobber_loop D (fmt_blksize format) start width dev)"

definition format40_create :: "'d aal_dev \<Rightarrow> nat \<Rightarrow> nat \<Rightarrow> nat \<Rightarrow> 'd \<Rightarrow> format_hint \<Rightarrow> format40 option \<times> 'd" where
  "format40_create D inval random release dev desc =
     (if 2 \<le> fh_key desc then (None, dev)
      else
        (let super = mwrite (\<lambda>_. 0) 52 FORMAT40_MAGIC;
             super = set_sb_flushes super 0;
             super = set_sb_tree_height super 2;
             super = set_sb_block_count super (fh_blocks desc);
             super = set_sb_root_block super inval;
             super = set_sb_policy super (fh_policy desc);
             super = set_sb_node_pid super (fh_node desc);
             super = set_sb_flags super (if fh_key desc = KEY_LARGE_ID then 1 else 0);
             super = set_sb_mkfs_id super random;
             super = set_sb_version super release;
             format = format40_mkdirty \<lparr>fmt_state = 0, fmt_blksize = fh_blksize desc, fmt_super = super\<rparr>;
             start = FORMAT40_BLOCKNR (fmt_blksize format);
             (res, dev) = format40_clobber_block D dev format 0 start
         in (if res \<noteq> 0 then None else Some format, dev)))"

definition format40_sync :: "'d aal_dev \<Rightarrow> 'd \<Rightarrow> format40 \<Rightarrow> (int \<times> 'd \<times> format40) option" where
  "format40_sync D dev format =
     (let offset = FORMAT40_BLOCKNR (fmt_blksize format);
          res = aal_block_init D dev (fmt_blksize format) offset
      in if res \<noteq> 0 then Some (res, dev, format)
         else case write_range (replicate (fmt_blksize format) 0) 0 (mread (fmt_super format) 0 FORMAT40_SUPER_SIZE) of
           None \<Rightarrow> None
         | Some data \<Rightarrow>
             (let (res, dev) = aal_block_write D dev (fmt_blksize format) offset data
              in Some (res, dev, if res = 0 then format40_mkclean format else format)))"

text \<open>\<open>None\<close> is the division by zero when the block of the device is larger than that of the file system.\<close>

definition format40_valid :: "nat \<Rightarrow> nat \<Rightarrow> nat \<Rightarrow> format40 \<Rightarrow> int option" where
  "format40_valid devlen devblk release format =
     (if devblk = 0 \<or> fmt_blksize format div devblk = 0 then None
      else
        (let max_format_len = devlen div (fmt_blksize format div devblk);
             super = fmt_super format
         in Some (if get_sb_block_count super > max_format_len then - EINVAL
                  else if get_sb_root_block super \<le> format40_start format \<or> get_sb_root_block super \<ge> max_format_len then - EINVAL
                  else if get_sb_version super > release then - EINVAL
                  else 0)))"

section \<open>Backup and repair\<close>

definition format40_backup :: "format40 \<Rightarrow> backup_hint \<Rightarrow> int \<times> backup_hint" where
  "format40_backup entity hint =
     (let sb = fmt_super entity; b = int (bh_off hint ! BK_FORMAT); m = bh_data hint;
          off = (bh_off hint)[BK_FORMAT + 1 := to_u16 (int (bh_off hint ! BK_FORMAT) + int FORMAT40_BACKUP_SIZE)];
          m = memcpy m b sb 52 MAGIC_SIZE;
          m = set_le 8 m (b + 16) (int (get_sb_block_count sb));
          m = set_le 4 m (b + 24) (int (get_sb_mkfs_id sb));
          m = set_le 2 m (b + 28) (int (get_sb_policy sb));
          m = set_le 8 m (b + 30) (int (get_sb_flags sb));
          m = set_le 8 m (b + 42) 0;
          m = set_le 4 m (b + 38) (int (get_sb_version sb))
      in (0, hint\<lparr>bh_data := m, bh_off := off, bh_version := get_sb_version sb\<rparr>))"

definition format40_update :: "'d aal_dev \<Rightarrow> 'd \<Rightarrow> format40 \<Rightarrow> (int \<times> format40) option" where
  "format40_update D dev format =
     (let blk = FORMAT40_BLOCKNR (fmt_blksize format);
          res = aal_block_init D dev (fmt_blksize format) blk
      in if res \<noteq> 0 then Some (res, format)
         else (let (res, data) = aal_block_read D dev (fmt_blksize format) blk
           in if res \<noteq> 0 then Some (res, format)
              else case read_range data 0 FORMAT40_SUPER_SIZE of None \<Rightarrow> None | Some bytes \<Rightarrow>
                (let super = mwrite (\<lambda>_. 0) 0 bytes; sb = fmt_super format;
                     sb = set_sb_root_block sb (get_sb_root_block super);
                     sb = set_sb_tree_height sb (get_sb_tree_height super);
                     sb = set_sb_flushes sb (get_sb_flushes super)
                 in Some (res, format40_mkdirty (format\<lparr>fmt_super := sb\<rparr>)))))"

text \<open>A difference of the super block: repaired in the modes \<open>fix\<close>, else reported as \<open>err\<close>.\<close>

definition format40_settle :: "bool \<Rightarrow> bool \<Rightarrow> int \<Rightarrow> (mem \<Rightarrow> mem) \<Rightarrow> int \<Rightarrow> format40 \<Rightarrow> int \<times> format40" where
  "format40_settle bad fix err upd res format =
     (if \<not> bad then (res, format)
      else if fix then (res, format40_mkdirty (format\<lparr>fmt_super := upd (fmt_super format)\<rparr>))
      else (res OR err, format))"

text \<open>The version; \<open>Inl\<close> is an early return of the check.\<close>

definition format40_check_version ::
  "nat \<Rightarrow> bool \<Rightarrow> (mem \<times> int) option \<Rightarrow> nat \<Rightarrow> int \<Rightarrow> format40 \<Rightarrow> int + int \<times> format40" where
  "format40_check_version release yes backup mode res format =
     (let super = fmt_super format; version = get_sb_version super
      in case backup of
           Some (m, b) \<Rightarrow>
             (if bk_version m b > release \<or> version > release \<and> sb_update_backup super then Inl RE_FATAL
              else if version > bk_version m b \<and> version \<le> release \<and> sb_update_backup super
              then Inr (format40_settle True (mode \<noteq> RM_CHECK) RE_FIXABLE (\<lambda>sb. set_sb_version sb (get_sb_version sb)) res format)
              else Inr (format40_settle (version \<noteq> bk_version m b) (mode = RM_BUILD) RE_FATAL
                     (\<lambda>sb. set_sb_version sb (bk_version m b)) res format))
         | None \<Rightarrow>
             (if version > release then
                (if mode \<noteq> RM_BUILD then Inl RE_FATAL
                 else if \<not> yes then Inl (- EINVAL)
                 else Inr (res, format40_mkdirty (format\<lparr>fmt_super := set_sb_version super release\<rparr>)))
              else Inr (res, format)))"

definition format40_check_policy ::
  "nat list \<Rightarrow> (mem \<times> int) option \<Rightarrow> format_hint \<Rightarrow> nat \<Rightarrow> int \<Rightarrow> format40 \<Rightarrow> int \<times> format40" where
  "format40_check_policy policies backup desc mode res format =
     (let policy = get_sb_policy (fmt_super format); fix = (mode \<noteq> RM_CHECK)
      in if fh_mask desc AND push_bit PM_POLICY 1 \<noteq> 0
         then format40_settle (fh_policy desc \<noteq> policy) fix RE_FIXABLE (\<lambda>sb. set_sb_policy sb (fh_policy desc)) res format
         else case backup of
           Some (m, b) \<Rightarrow> format40_settle (policy \<noteq> bk_policy m b) fix RE_FIXABLE (\<lambda>sb. set_sb_policy sb (bk_policy m b)) res format
         | None \<Rightarrow> format40_settle (policy \<notin> List.set policies) fix RE_FIXABLE (\<lambda>sb. set_sb_policy sb (fh_policy desc)) res format)"

definition format40_check_key :: "(mem \<times> int) option \<Rightarrow> format_hint \<Rightarrow> nat \<Rightarrow> int \<Rightarrow> format40 \<Rightarrow> int \<times> format40" where
  "format40_check_key backup desc mode res format =
     (if fh_mask desc AND push_bit PM_KEY 1 \<noteq> 0
      then (if fh_key desc = format40_get_key format then (res, format)
            else if mode = RM_BUILD then (res, format40_set_key format (fh_key desc))
            else (res OR RE_FATAL, format))
      else case backup of
        Some (m, b) \<Rightarrow> format40_settle (get_sb_flags (fmt_super format) \<noteq> bk_flags m b) (mode = RM_BUILD) RE_FATAL
                         (\<lambda>sb. set_sb_flags sb (bk_flags m b)) res format
      | None \<Rightarrow> (res, format))"

definition format40_check_blocks :: "(mem \<times> int) option \<Rightarrow> format_hint \<Rightarrow> nat \<Rightarrow> int \<Rightarrow> format40 \<Rightarrow> int \<times> format40" where
  "format40_check_blocks backup desc mode res format =
     (case backup of
        Some (m, b) \<Rightarrow>
          (let (res, format) = format40_settle (get_sb_block_count (fmt_super format) \<noteq> bk_block_count m b) (mode = RM_BUILD) RE_FATAL
                 (\<lambda>sb. set_sb_block_count sb (bk_block_count m b)) res format
           in format40_settle (get_sb_mkfs_id (fmt_super format) \<noteq> bk_mkfs_id m b) (mode = RM_BUILD) RE_FATAL
                (\<lambda>sb. set_sb_mkfs_id sb (bk_mkfs_id m b)) res format)
      | None \<Rightarrow> format40_settle (get_sb_block_count (fmt_super format) \<noteq> fh_blocks desc) (mode = RM_BUILD) RE_FATAL
                 (\<lambda>sb. set_sb_block_count sb (fh_blocks desc)) res format)"

definition format40_check_struct ::
  "nat \<Rightarrow> nat list \<Rightarrow> bool \<Rightarrow> format40 \<Rightarrow> backup_hint option \<Rightarrow> format_hint \<Rightarrow> nat \<Rightarrow> int \<times> format40" where
  "format40_check_struct release policies yes format hint desc mode =
     (let backup = map_option (\<lambda>h. (bh_data h, int (bh_off h ! BK_FORMAT))) hint;
          (res, format) = format40_settle (\<not> format40_magic (fmt_super format)) (mode = RM_BUILD) RE_FATAL
                            (\<lambda>sb. mwrite sb 52 FORMAT40_MAGIC) 0 format
      in case format40_check_version release yes backup mode res format of
           Inl err \<Rightarrow> (err, format)
         | Inr (res, format) \<Rightarrow>
             (let (res, format) = format40_check_policy policies backup desc mode res format;
                  (res, format) = format40_check_key backup desc mode res format
              in format40_check_blocks backup desc mode res format))"

definition format40_check_backup :: "nat list \<Rightarrow> backup_hint \<Rightarrow> int \<times> backup_hint" where
  "format40_check_backup policies hint =
     (let b = int (bh_off hint ! BK_FORMAT); m = bh_data hint;
          hint = hint\<lparr>bh_off := (bh_off hint)[BK_FORMAT + 1 := to_u16 (int (bh_off hint ! BK_FORMAT) + int FORMAT40_BACKUP_SIZE)]\<rparr>
      in if mread m b 15 \<noteq> FORMAT40_MAGIC then (RE_FATAL, hint)
         else if bk_block_count m b \<le> bh_nr hint then (RE_FATAL, hint)
         else if bk_policy m b \<notin> List.set policies then (RE_FATAL, hint)
         else (0, hint\<lparr>bh_blocks := bk_block_count m b, bh_version := bk_version m b\<rparr>))"

definition format40_regenerate :: "nat \<Rightarrow> nat \<Rightarrow> backup_hint \<Rightarrow> format40 option" where
  "format40_regenerate inval release hint =
     (let b = int (bh_off hint ! BK_FORMAT); m = bh_data hint
      in if bk_version m b > release then None
         else
           (let super = mwrite (\<lambda>_. 0) 52 (takeWhile (\<lambda>c. c \<noteq> 0) (mread m b MAGIC_SIZE));
                super = set_sb_block_count super (bk_block_count m b);
                super = set_sb_flags super (bk_flags m b);
                super = set_sb_mkfs_id super (bk_mkfs_id m b);
                super = set_sb_policy super (bk_policy m b);
                super = set_sb_tree_height super 2;
                super = set_sb_root_block super inval;
                super = set_sb_version super (bk_version m b)
            in Some (format40_mkdirty \<lparr>fmt_state = 0, fmt_blksize = bh_size hint, fmt_super = super\<rparr>)))"

section \<open>Packing\<close>

definition format40_pack :: "'s aal_streams \<Rightarrow> format40 \<Rightarrow> 's \<Rightarrow> int \<times> 's" where
  "format40_pack S format stream =
     (let stream = aal_stream_write S stream (le_bytes 4 0);
          stream = aal_stream_write S stream (le_bytes 4 FORMAT40_SUPER_SIZE)
      in (0, aal_stream_write S stream (mread (fmt_super format) 0 FORMAT40_SUPER_SIZE)))"

definition format40_unpack :: "'s aal_streams \<Rightarrow> nat \<Rightarrow> 's \<Rightarrow> format40 option \<times> 's" where
  "format40_unpack S blksize stream =
     (let (size, stream) = aal_stream_read S stream 4
      in if length size \<noteq> 4 then (None, stream)
         else if le_value size \<noteq> FORMAT40_SUPER_SIZE then (None, stream)
         else (let (bytes, stream) = aal_stream_read S stream FORMAT40_SUPER_SIZE
           in if length bytes \<noteq> FORMAT40_SUPER_SIZE then (None, stream)
              else (Some (format40_mkdirty \<lparr>fmt_state = 0, fmt_blksize = blksize, fmt_super = mwrite (\<lambda>_. 0) 0 bytes\<rparr>), stream)))"

end
