(* ===== verification/FormatChecks.thy ===== *)
theory FormatChecks
  imports Format40
begin

text \<open>
  What the checks of the disk format settle, and the round trips of the super block: over the device, and over
  the backup blocks.
\<close>

unbundle bit_operations_syntax

section \<open>Fields\<close>

lemmas sb_defs = get_sb_block_count_def set_sb_block_count_def get_sb_free_blocks_def set_sb_free_blocks_def
  get_sb_root_block_def set_sb_root_block_def get_sb_oid_def get_sb_file_count_def get_sb_flushes_def
  set_sb_flushes_def get_sb_mkfs_id_def set_sb_mkfs_id_def get_sb_tree_height_def set_sb_tree_height_def
  get_sb_policy_def set_sb_policy_def get_sb_flags_def set_sb_flags_def get_sb_node_pid_def set_sb_node_pid_def
  get_sb_version_def set_sb_version_def sb_update_backup_def format40_magic_def sb_magic_def

lemmas bk_defs = bk_block_count_def bk_mkfs_id_def bk_policy_def bk_flags_def bk_version_def

lemma magic_length [simp]: "length FORMAT40_MAGIC = 15"
  by (simp add: FORMAT40_MAGIC_def)

lemma magic_set [simp]: "format40_magic (mwrite sb 52 FORMAT40_MAGIC)"
  by (simp add: format40_magic_def mread_same)

lemma get_le_bound [simp]:
  "get_le 8 m a mod 18446744073709551616 = get_le 8 m a" "get_le 4 m a mod 4294967296 = get_le 4 m a"
  "get_le 2 m a mod 65536 = get_le 2 m a"
  using get_le_less [of 8 m a] get_le_less [of 4 m a] get_le_less [of 2 m a] by simp_all

lemma nat_int_mod [simp]: "nat (int a mod numeral k) = a mod numeral k"
  by (metis nat_int of_nat_numeral of_nat_mod)

lemma dirty_simps [simp]:
  "fmt_super (format40_mkdirty f) = fmt_super f" "fmt_blksize (format40_mkdirty f) = fmt_blksize f"
  "fmt_super (format40_mkclean f) = fmt_super f" "fmt_blksize (format40_mkclean f) = fmt_blksize f"
  by (simp_all add: format40_mkdirty_def format40_mkclean_def)

section \<open>What a settled format is\<close>

definition version_settled :: "nat \<Rightarrow> (mem \<times> int) option \<Rightarrow> mem \<Rightarrow> bool" where
  "version_settled release backup sb =
     (get_sb_version sb \<le> release \<and> (case backup of None \<Rightarrow> True | Some (m, b) \<Rightarrow> get_sb_version sb = bk_version m b))"

definition policy_settled :: "nat list \<Rightarrow> (mem \<times> int) option \<Rightarrow> format_hint \<Rightarrow> mem \<Rightarrow> bool" where
  "policy_settled policies backup desc sb =
     (if fh_mask desc AND push_bit PM_POLICY 1 \<noteq> 0 then get_sb_policy sb = fh_policy desc
      else case backup of None \<Rightarrow> get_sb_policy sb \<in> List.set policies | Some (m, b) \<Rightarrow> get_sb_policy sb = bk_policy m b)"

definition key_settled :: "(mem \<times> int) option \<Rightarrow> format_hint \<Rightarrow> mem \<Rightarrow> bool" where
  "key_settled backup desc sb =
     (if fh_mask desc AND push_bit PM_KEY 1 \<noteq> 0 then fh_key desc = (if odd (get_sb_flags sb) then KEY_LARGE_ID else KEY_SHORT_ID)
      else case backup of None \<Rightarrow> True | Some (m, b) \<Rightarrow> get_sb_flags sb = bk_flags m b)"

definition blocks_settled :: "(mem \<times> int) option \<Rightarrow> format_hint \<Rightarrow> mem \<Rightarrow> bool" where
  "blocks_settled backup desc sb =
     (case backup of None \<Rightarrow> get_sb_block_count sb = fh_blocks desc
      | Some (m, b) \<Rightarrow> get_sb_block_count sb = bk_block_count m b \<and> get_sb_mkfs_id sb = bk_mkfs_id m b)"

definition hint_backup :: "backup_hint option \<Rightarrow> (mem \<times> int) option" where
  "hint_backup hint = map_option (\<lambda>h. (bh_data h, int (bh_off h ! BK_FORMAT))) hint"

definition format_settled :: "nat \<Rightarrow> nat list \<Rightarrow> backup_hint option \<Rightarrow> format_hint \<Rightarrow> mem \<Rightarrow> bool" where
  "format_settled release policies hint desc sb =
     (format40_magic sb \<and> version_settled release (hint_backup hint) sb \<and> policy_settled policies (hint_backup hint) desc sb \<and>
      key_settled (hint_backup hint) desc sb \<and> blocks_settled (hint_backup hint) desc sb)"

lemma settle_cases:
  "format40_settle False fix err upd res f = (res, f)"
  "format40_settle bad True err upd res f = (res, if bad then format40_mkdirty (f\<lparr>fmt_super := upd (fmt_super f)\<rparr>) else f)"
  "format40_settle True False err upd res f = (res OR err, f)"
  by (simp_all add: format40_settle_def)

text \<open>A settled format passes the check mode as it is.\<close>

lemma settled_check:
  assumes "format_settled release policies hint desc (fmt_super f)"
  shows "format40_check_struct release policies yes f hint desc RM_CHECK = (0, f)"
proof -
  let ?b = "hint_backup hint"
  note s = assms [unfolded format_settled_def]
  have v: "format40_check_version release yes ?b RM_CHECK 0 f = Inr (0, f)"
    using s by (auto simp: format40_check_version_def version_settled_def Let_def settle_cases split: option.splits)
  have p: "format40_check_policy policies ?b desc RM_CHECK 0 f = (0, f)"
    using s by (auto simp: format40_check_policy_def policy_settled_def Let_def settle_cases split: option.splits if_splits)
  have k: "format40_check_key ?b desc RM_CHECK 0 f = (0, f)"
    using s by (auto simp: format40_check_key_def key_settled_def format40_get_key_def settle_cases split: option.splits if_splits)
  have c: "format40_check_blocks ?b desc RM_CHECK 0 f = (0, f)"
    using s by (auto simp: format40_check_blocks_def blocks_settled_def settle_cases split: option.splits)
  show ?thesis
    unfolding format40_check_struct_def hint_backup_def [symmetric] using s by (simp add: settle_cases v p k c Let_def del: One_nat_def)
qed

section \<open>The rebuilding mode\<close>

text \<open>What each step of the rebuilding keeps: the magic, and all fields but its own.\<close>

lemma build_magic:
  "format40_settle (\<not> format40_magic (fmt_super f)) True err (\<lambda>sb. mwrite sb 52 FORMAT40_MAGIC) res f = (res', f') \<Longrightarrow>
   res' = res \<and> format40_magic (fmt_super f')"
  by (auto simp: settle_cases split: if_splits)

lemma build_version:
  assumes "format40_check_version release yes backup RM_BUILD res f = Inr (res', f')" "release < 2 ^ 31"
  shows "res' = res \<and> get_sb_version (fmt_super f') \<le> release \<and> (format40_magic (fmt_super f) \<longrightarrow> format40_magic (fmt_super f'))"
proof -
  have set_v: "get_sb_version (set_sb_version sb v) = v" "format40_magic (set_sb_version sb v) = format40_magic sb" if "v < 2 ^ 31" for sb v
    using that by (simp_all add: sb_defs mem_simps)
  have "get_sb_version sb < 2 ^ 31" for sb by (simp add: get_sb_version_def)
  moreover have "bk_version m b < 2 ^ 31" for m b by (simp add: bk_version_def)
  ultimately show ?thesis
    using assms by (auto simp: format40_check_version_def Let_def settle_cases set_v split: option.splits if_splits)
qed

lemma build_policy:
  assumes "format40_check_policy policies backup desc RM_BUILD res f = (res', f')" "fh_policy desc < 65536" "fh_policy desc \<in> List.set policies"
  shows "res' = res \<and> policy_settled policies backup desc (fmt_super f') \<and>
    get_sb_version (fmt_super f') = get_sb_version (fmt_super f) \<and> format40_magic (fmt_super f') = format40_magic (fmt_super f)"
proof -
  have set_p: "get_sb_policy (set_sb_policy sb v) = v" if "v < 65536" for sb v using that by (simp add: sb_defs mem_simps)
  have frame: "format40_magic (set_sb_policy sb v) = format40_magic sb" "get_sb_version (set_sb_policy sb v) = get_sb_version sb" for sb v
    by (simp_all add: sb_defs mem_simps)
  have "bk_policy m b < 65536" for m b using get_le_less [of 2] by (simp add: bk_policy_def)
  then show ?thesis
    using assms by (auto simp: format40_check_policy_def policy_settled_def Let_def settle_cases set_p frame split: option.splits if_splits)
qed

lemma build_key:
  assumes "format40_check_key backup desc RM_BUILD res f = (res', f')" "fh_key desc < 2"
  shows "res' = res \<and> key_settled backup desc (fmt_super f') \<and> get_sb_policy (fmt_super f') = get_sb_policy (fmt_super f) \<and>
    get_sb_version (fmt_super f') = get_sb_version (fmt_super f) \<and> format40_magic (fmt_super f') = format40_magic (fmt_super f)"
proof -
  have set_f: "get_sb_flags (set_sb_flags sb v) = v mod 2 ^ 64" for sb v by (simp add: sb_defs mem_simps)
  have frame: "format40_magic (set_sb_flags sb v) = format40_magic sb" "get_sb_version (set_sb_flags sb v) = get_sb_version sb"
    "get_sb_policy (set_sb_flags sb v) = get_sb_policy sb" for sb v
    by (simp_all add: sb_defs mem_simps)
  have key: "even (v mod 18446744073709551616) = even v" "even (v - v mod 2)" for v :: nat
    by (simp add: dvd_mod_iff) presburger
  have bk: "bk_flags m b mod 18446744073709551616 = bk_flags m b" for m b by (simp add: bk_flags_def)
  have "fh_key desc = 0 \<or> fh_key desc = 1" using assms(2) by linarith
  then show ?thesis
    using assms(1)
    by (auto simp: format40_check_key_def key_settled_def settle_cases frame format40_set_key_def Let_def key format40_get_key_def
        set_f bk simp del: One_nat_def split: option.splits if_splits)
qed

lemma build_blocks:
  assumes "format40_check_blocks backup desc RM_BUILD res f = (res', f')" "fh_blocks desc < 2 ^ 64"
  shows "res' = res \<and> blocks_settled backup desc (fmt_super f') \<and> get_sb_policy (fmt_super f') = get_sb_policy (fmt_super f) \<and>
    get_sb_flags (fmt_super f') = get_sb_flags (fmt_super f) \<and>
    get_sb_version (fmt_super f') = get_sb_version (fmt_super f) \<and> format40_magic (fmt_super f') = format40_magic (fmt_super f)"
proof -
  have set_c: "get_sb_block_count (set_sb_block_count sb v) = v mod 2 ^ 64" "get_sb_mkfs_id (set_sb_mkfs_id sb v) = v mod 2 ^ 32"
    "get_sb_mkfs_id (set_sb_block_count sb v) = get_sb_mkfs_id sb" "get_sb_block_count (set_sb_mkfs_id sb v) = get_sb_block_count sb" for sb v
    by (simp_all add: sb_defs mem_simps)
  have frame: "format40_magic (set_sb_block_count sb v) = format40_magic sb" "get_sb_version (set_sb_block_count sb v) = get_sb_version sb"
    "get_sb_policy (set_sb_block_count sb v) = get_sb_policy sb" "get_sb_flags (set_sb_block_count sb v) = get_sb_flags sb"
    "format40_magic (set_sb_mkfs_id sb v) = format40_magic sb" "get_sb_version (set_sb_mkfs_id sb v) = get_sb_version sb"
    "get_sb_policy (set_sb_mkfs_id sb v) = get_sb_policy sb" "get_sb_flags (set_sb_mkfs_id sb v) = get_sb_flags sb" for sb v
    by (simp_all add: sb_defs mem_simps)
  have bk: "bk_block_count m b mod 18446744073709551616 = bk_block_count m b" "bk_mkfs_id m b mod 4294967296 = bk_mkfs_id m b" for m b
    by (simp_all add: bk_defs)
  show ?thesis
    using assms by (auto simp: format40_check_blocks_def blocks_settled_def settle_cases set_c frame bk split: option.splits if_splits)
qed

section \<open>Backup\<close>

lemma backup_fields:
  assumes "snd (format40_backup f h) = h'" "b = int (bh_off h ! BK_FORMAT)"
  shows "bh_off h' ! BK_FORMAT = bh_off h ! BK_FORMAT" "mread (bh_data h') b MAGIC_SIZE = sb_magic (fmt_super f)"
    "bk_block_count (bh_data h') b = get_sb_block_count (fmt_super f)" "bk_mkfs_id (bh_data h') b = get_sb_mkfs_id (fmt_super f)"
    "bk_policy (bh_data h') b = get_sb_policy (fmt_super f)" "bk_flags (bh_data h') b = get_sb_flags (fmt_super f)"
    "bk_version (bh_data h') b = get_sb_version (fmt_super f)" "bh_nr h' = bh_nr h" "bh_size h' = bh_size h"
proof -
  show "bh_off h' ! BK_FORMAT = bh_off h ! BK_FORMAT" "bh_nr h' = bh_nr h" "bh_size h' = bh_size h"
    unfolding assms(1) [symmetric] by (simp_all add: format40_backup_def Let_def)
  show "mread (bh_data h') b MAGIC_SIZE = sb_magic (fmt_super f)"
    "bk_block_count (bh_data h') b = get_sb_block_count (fmt_super f)" "bk_mkfs_id (bh_data h') b = get_sb_mkfs_id (fmt_super f)"
    "bk_policy (bh_data h') b = get_sb_policy (fmt_super f)" "bk_flags (bh_data h') b = get_sb_flags (fmt_super f)"
    "bk_version (bh_data h') b = get_sb_version (fmt_super f)"
    using assms(1) by (auto simp: assms(2) format40_backup_def Let_def bk_defs sb_defs mem_simps)
qed

section \<open>Properties\<close>

text \<open>
  C20: the check mode of fsck on the disk format never changes it, and its result is 0 exactly for a settled super
  block: the magic is right, the version is known, and the formatting policy, the key policy, the number of blocks
  and the id of the file system are those of the backup or, where the profile says so or there is no backup, those
  of the profile.  An update of the backup that is still due counts as a difference.
\<close>

theorem format40_check_decides:
  "let (res, f') = format40_check_struct release policies yes f hint desc RM_CHECK
   in f' = f \<and> (res = 0 \<longleftrightarrow> format_settled release policies hint desc (fmt_super f))"
proof -
  let ?b = "hint_backup hint" and ?sb = "fmt_super f"
  have or0: "x OR y = 0 \<longleftrightarrow> x = 0 \<and> y = 0" for x y :: int by (simp add: or_eq_0_iff)
  let ?r0 = "if format40_magic ?sb then 0 else RE_FATAL"
  have m: "format40_settle (\<not> format40_magic ?sb) False RE_FATAL upd 0 f = (?r0, f)" for upd by (simp add: format40_settle_def)
  obtain rv where v: "format40_check_version release yes ?b RM_CHECK ?r0 f = rv"
    "case rv of Inl e \<Rightarrow> e \<noteq> 0 \<and> \<not> version_settled release ?b ?sb
     | Inr (r, g) \<Rightarrow> g = f \<and> (r = 0 \<longleftrightarrow> ?r0 = 0 \<and> version_settled release ?b ?sb)"
    by (auto simp: format40_check_version_def version_settled_def Let_def format40_settle_def or0 split: option.splits if_splits)
  have p: "\<exists>r'. format40_check_policy policies ?b desc RM_CHECK r f = (r', f) \<and> (r' = 0 \<longleftrightarrow> r = 0 \<and> policy_settled policies ?b desc ?sb)" for r
    by (auto simp: format40_check_policy_def policy_settled_def Let_def format40_settle_def or0 split: option.splits)
  have k: "\<exists>r'. format40_check_key ?b desc RM_CHECK r f = (r', f) \<and> (r' = 0 \<longleftrightarrow> r = 0 \<and> key_settled ?b desc ?sb)" for r
    by (auto simp: format40_check_key_def key_settled_def format40_get_key_def format40_settle_def or0 split: option.splits)
  have c: "\<exists>r'. format40_check_blocks ?b desc RM_CHECK r f = (r', f) \<and> (r' = 0 \<longleftrightarrow> r = 0 \<and> blocks_settled ?b desc ?sb)" for r
    by (auto simp: format40_check_blocks_def blocks_settled_def format40_settle_def or0 split: option.splits)
  show ?thesis
  proof (cases rv)
    case (Inl e)
    then show ?thesis using v m unfolding format40_check_struct_def hint_backup_def [symmetric]
      by (auto simp: Let_def format_settled_def simp del: One_nat_def)
  next
    case (Inr rg)
    then obtain r where r: "rv = Inr (r, f)" "r = 0 \<longleftrightarrow> ?r0 = 0 \<and> version_settled release ?b ?sb" using v(2) by (cases rg) auto
    obtain r1 where r1: "format40_check_policy policies ?b desc RM_CHECK r f = (r1, f)" "r1 = 0 \<longleftrightarrow> r = 0 \<and> policy_settled policies ?b desc ?sb"
      using p by blast
    obtain r2 where r2: "format40_check_key ?b desc RM_CHECK r1 f = (r2, f)" "r2 = 0 \<longleftrightarrow> r1 = 0 \<and> key_settled ?b desc ?sb" using k by blast
    obtain r3 where r3: "format40_check_blocks ?b desc RM_CHECK r2 f = (r3, f)" "r3 = 0 \<longleftrightarrow> r2 = 0 \<and> blocks_settled ?b desc ?sb" using c by blast
    have "format40_check_struct release policies yes f hint desc RM_CHECK = (r3, f)"
      unfolding format40_check_struct_def hint_backup_def [symmetric]
      using m v(1) r(1) r1(1) r2(1) r3(1) by (simp add: Let_def del: One_nat_def)
    then show ?thesis using r(2) r1(2) r2(2) r3(2) by (auto simp: format_settled_def)
  qed
qed

text \<open>
  C21: what the rebuild mode of fsck leaves is settled: when \<^verbatim>\<open>format40_check_struct\<close> in that mode succeeds on any
  super block, and the backup, if there is one, is renewed from the result, then the check mode finds nothing.
\<close>

theorem format40_rebuild_settles:
  assumes "format40_check_struct release policies yes f hint desc RM_BUILD = (0, f')"
    and "release < 2 ^ 31" "fh_policy desc \<in> List.set policies" "fh_policy desc < 65536" "fh_key desc < 2" "fh_blocks desc < 2 ^ 64"
  shows "let hint' = map_option (\<lambda>h. snd (format40_backup f' h)) hint
    in format_settled release policies hint' desc (fmt_super f') \<and>
       format40_check_struct release policies yes' f' hint' desc RM_CHECK = (0, f')"
proof -
  let ?b = "hint_backup hint" and ?hint' = "map_option (\<lambda>h. snd (format40_backup f' h)) hint"
  obtain r1 f1 where 1: "format40_settle (\<not> format40_magic (fmt_super f)) True RE_FATAL (\<lambda>sb. mwrite sb 52 FORMAT40_MAGIC) 0 f = (r1, f1)" by fastforce
  note m = build_magic [OF 1]
  have "\<exists>r2 f2. format40_check_version release yes ?b RM_BUILD r1 f1 = Inr (r2, f2)"
    using assms(1) 1 unfolding format40_check_struct_def hint_backup_def [symmetric]
    by (auto simp: Let_def format40_check_version_def split: sum.splits option.splits if_splits)
  then obtain r2 f2 where 2: "format40_check_version release yes ?b RM_BUILD r1 f1 = Inr (r2, f2)" by blast
  obtain r3 f3 where 3: "format40_check_policy policies ?b desc RM_BUILD r2 f2 = (r3, f3)" by fastforce
  obtain r4 f4 where 4: "format40_check_key ?b desc RM_BUILD r3 f3 = (r4, f4)" by fastforce
  have 5: "format40_check_blocks ?b desc RM_BUILD r4 f4 = (0, f')"
    using assms(1) 1 2 3 4 unfolding format40_check_struct_def hint_backup_def [symmetric] by (simp add: Let_def)
  note w = build_version [OF 2 assms(2)] build_policy [OF 3 assms(4,3)] build_key [OF 4 assms(5)] build_blocks [OF 5 assms(6)]
  have b: "hint_backup ?hint' = (case hint of None \<Rightarrow> None | Some h \<Rightarrow> Some (bh_data (snd (format40_backup f' h)), int (bh_off h ! BK_FORMAT)))"
    using backup_fields(1) [OF refl refl] by (cases hint) (simp_all add: hint_backup_def)
  have "format_settled release policies ?hint' desc (fmt_super f')"
    unfolding format_settled_def b using m w backup_fields [OF refl refl, of f']
    by (cases hint) (auto simp: version_settled_def policy_settled_def key_settled_def blocks_settled_def hint_backup_def)
  then show ?thesis using settled_check by (simp add: Let_def)
qed

text \<open>
  C22: what \<^verbatim>\<open>format40_backup\<close> saved of a super block, \<^verbatim>\<open>format40_check_backup\<close> accepts and \<^verbatim>\<open>format40_regenerate\<close>
  restores: the number of blocks, the version, the id of the file system and both policies are the old ones, and
  the check mode of fsck has nothing to say about the new super block.
\<close>

theorem format40_backup_regenerate:
  assumes "format40_magic (fmt_super f)" "format40_version f \<le> release" "format40_get_policy f \<in> List.set policies"
    and "bh_nr hint < format40_get_len f" "fh_mask desc = 0"
  shows "let hint' = snd (format40_backup f hint); (res, hint2) = format40_check_backup policies hint'
    in res = 0 \<and> bh_blocks hint2 = format40_get_len f \<and> bh_version hint2 = format40_version f \<and>
      (\<exists>g. format40_regenerate inval release hint' = Some g \<and> format40_get_len g = format40_get_len f \<and>
        format40_version g = format40_version f \<and> format40_get_stamp g = format40_get_stamp f \<and>
        format40_get_policy g = format40_get_policy f \<and> format40_get_key g = format40_get_key f \<and>
        format40_check_struct release policies yes g (Some hint') desc RM_CHECK = (0, g))"
proof -
  define h' where "h' = snd (format40_backup f hint)"
  define b where "b = int (bh_off hint ! Suc 0)"
  note bk = backup_fields [OF h'_def [symmetric] b_def [folded One_nat_def]]
  have mg: "mread (bh_data h') b 15 = FORMAT40_MAGIC"
  proof -
    have "mread (bh_data h') b 15 = take 15 (mread (bh_data h') b MAGIC_SIZE)"
      using mread_part [of 0 15 16 "bh_data h'" b] by simp
    also have "\<dots> = mread (fmt_super f) 52 15"
      unfolding bk(2) sb_magic_def using mread_part [of 0 15 16 "fmt_super f" 52] by simp
    finally show ?thesis using assms(1) by (simp add: format40_magic_def)
  qed
  have chk: "format40_check_backup policies h' = (0, h'\<lparr>bh_off := (bh_off h')[Suc (Suc 0) := to_u16 (int (bh_off hint ! 1) + 50)],
      bh_blocks := format40_get_len f, bh_version := format40_version f\<rparr>)"
    using assms(3,4) mg bk by (simp add: format40_check_backup_def Let_def b_def format40_get_policy_def format40_get_len_def format40_version_def)
  have tw: "takeWhile (\<lambda>c. c \<noteq> 0) (mread (bh_data h') b MAGIC_SIZE) = take 14 FORMAT40_MAGIC"
    using mread_split [of "bh_data h'" b 15 1] mg by (simp add: FORMAT40_MAGIC_def)
  define sb0 where "sb0 = mwrite (\<lambda>_. 0) 52 (take 14 FORMAT40_MAGIC)"
  have m0: "format40_magic sb0"
    by (simp add: format40_magic_def sb0_def mread_def mwrite_def FORMAT40_MAGIC_def upt_rec)
  define g where "g = format40_mkdirty \<lparr>fmt_state = 0, fmt_blksize = bh_size h',
      fmt_super = set_sb_version (set_sb_root_block (set_sb_tree_height (set_sb_policy (set_sb_mkfs_id (set_sb_flags (set_sb_block_count sb0
        (bk_block_count (bh_data h') b)) (bk_flags (bh_data h') b)) (bk_mkfs_id (bh_data h') b)) (bk_policy (bh_data h') b)) 2) inval)
        (bk_version (bh_data h') b)\<rparr>"
  have reg: "format40_regenerate inval release h' = Some g"
    using assms(2) bk(1,7) by (simp add: format40_regenerate_def Let_def g_def tw [simplified] sb0_def format40_version_def flip: b_def)
  have fields: "get_sb_block_count (fmt_super g) = get_sb_block_count (fmt_super f)" "get_sb_mkfs_id (fmt_super g) = get_sb_mkfs_id (fmt_super f)"
    "get_sb_policy (fmt_super g) = get_sb_policy (fmt_super f)" "get_sb_flags (fmt_super g) = get_sb_flags (fmt_super f)"
    "get_sb_version (fmt_super g) = get_sb_version (fmt_super f)" "format40_magic (fmt_super g)"
    using m0 unfolding g_def dirty_simps format40.select_convs bk by (simp_all add: sb_defs mem_simps)
  have "format_settled release policies (Some h') desc (fmt_super g)"
    using assms(2,5) bk fields
    by (simp add: format_settled_def hint_backup_def version_settled_def policy_settled_def key_settled_def blocks_settled_def
        format40_version_def flip: b_def)
  then show ?thesis
    using chk reg fields settled_check by (simp add: Let_def h'_def [symmetric] format40_get_len_def format40_version_def
        format40_get_stamp_def format40_get_policy_def format40_get_key_def)
qed

text \<open>A super block of zeroes, and one with the magic and 1000 blocks.\<close>

definition sample_desc :: format_hint where
  "sample_desc = \<lparr>fh_blocks = 1000, fh_blksize = 4096, fh_policy = 2, fh_key = 1, fh_node = 0, fh_mask = 0\<rparr>"

definition sample_format :: format40 where
  "sample_format = \<lparr>fmt_state = 0, fmt_blksize = 4096, fmt_super = set_sb_block_count (mwrite (\<lambda>_. 0) 52 FORMAT40_MAGIC) 1000\<rparr>"

definition sample_backup :: backup_hint where
  "sample_backup = \<lparr>bh_nr = 22, bh_size = 4096, bh_data = (\<lambda>_. 0), bh_off = [0, 16, 0, 0], bh_blocks = 0, bh_count = 0, bh_total = 0,
     bh_version = 0\<rparr>"

lemma le_value_zeroes [simp]: "le_value (replicate n 0) = 0"
  by (induction n) simp_all

lemma get_le_zeroes [simp]: "get_le k (\<lambda>_. 0) a = 0"
proof -
  have "mread (\<lambda>_. 0) a k = replicate k 0" by (rule nth_equalityI) auto
  then show ?thesis by (simp add: get_le_def)
qed

lemma sample_format_fields [simp]:
  "get_sb_version (fmt_super sample_format) = 0" "get_sb_policy (fmt_super sample_format) = 0"
  "get_sb_block_count (fmt_super sample_format) = 1000" "format40_magic (fmt_super sample_format)"
  by (simp_all add: sample_format_def sb_defs mem_simps)

theorem format40_rebuild_settles_witness:
  "\<exists>f'. format40_check_struct 2 [0, 1, 2] True (format40_set_len sample_format 7) None sample_desc RM_BUILD = (0, f') \<and>
     format40_check_struct 2 [0, 1, 2] False f' None sample_desc RM_CHECK = (0, f')"
proof -
  let ?f = "format40_set_len sample_format 7"
  have f: "get_sb_version (fmt_super ?f) = 0" "get_sb_policy (fmt_super ?f) = 0" "get_sb_block_count (fmt_super ?f) = 7"
    "format40_magic (fmt_super ?f)"
    by (simp_all add: format40_set_len_def sample_format_def sb_defs mem_simps)
  obtain f' where r: "format40_check_struct 2 [0, 1, 2] True ?f None sample_desc RM_BUILD = (0, f')"
    using f by (simp add: format40_check_struct_def Let_def settle_cases format40_check_version_def format40_check_policy_def
        format40_check_key_def format40_check_blocks_def sample_desc_def)
  show ?thesis
    using r format40_rebuild_settles [OF r, of False] by (auto simp: sample_desc_def Let_def)
qed

theorem format40_backup_regenerate_witness:
  "let hint' = snd (format40_backup sample_format sample_backup)
   in fst (format40_check_backup [0, 1, 2] hint') = 0 \<and>
      (\<exists>g. format40_regenerate 0 2 hint' = Some g \<and> format40_get_len g = 1000)"
  using format40_backup_regenerate [of sample_format 2 "[0, 1, 2]" sample_backup sample_desc 0 False]
  by (auto simp: format40_version_def format40_get_policy_def format40_get_len_def sample_backup_def sample_desc_def Let_def case_prod_unfold)

text \<open>
  C23: \<^verbatim>\<open>format40_sync\<close> writes the super block where \<^verbatim>\<open>format40_open\<close> reads it: after a successful synchronisation the
  opened format has the same 512 bytes and is clean, and the synchronised one is marked clean; a super block
  without the magic is never opened.
\<close>

theorem format40_sync_open:
  assumes "aal_dev_laws D contents" "512 \<le> fmt_blksize f" "format40_sync D dev f = Some (0, dev', f')"
    and "fst (aal_block_read D dev' (fmt_blksize f) (FORMAT40_BLOCKNR (fmt_blksize f))) = 0"
  shows "f' = format40_mkclean f \<and>
    (if format40_magic (fmt_super f)
     then \<exists>g. format40_open D dev' (fmt_blksize f) = Some (Some g) \<and> fmt_state g = 0 \<and> fmt_blksize g = fmt_blksize f \<and>
       mread (fmt_super g) 0 512 = mread (fmt_super f) 0 512
     else format40_open D dev' (fmt_blksize f) = Some None)"
proof -
  let ?bs = "fmt_blksize f" and ?blk = "FORMAT40_BLOCKNR (fmt_blksize f)" and ?sb = "mread (fmt_super f) 0 512"
  define data where "data = ?sb @ replicate (?bs - 512) (0 :: u8)"
  have w: "write_range (replicate ?bs 0) 0 ?sb = Some data"
    using assms(2) by (simp add: write_range_def data_def)
  obtain r where r: "aal_block_write D dev ?bs ?blk data = (r, dev')" "r = 0" "f' = format40_mkclean f"
    using assms(3) w by (auto simp: format40_sync_def Let_def split: if_splits prod.splits)
  have "contents dev' ?blk = data"
    using aal_dev_laws.block_write [OF assms(1) r(1) [unfolded r(2)]] by simp
  then obtain x where x: "aal_block_read D dev' ?bs ?blk = (0, x)" "x = data"
    using assms(4) aal_dev_laws.block_read [OF assms(1)] by (metis prod.collapse)
  have part: "mread (mwrite (\<lambda>_. 0) 0 ?sb) 52 15 = mread (fmt_super f) 52 15"
    using mread_inside [of 0 52 15 ?sb "\<lambda>_. 0"] mread_part [of 52 15 512 "fmt_super f" 0] by simp
  have rd: "read_range data 0 512 = Some ?sb" by (simp add: read_range_def data_def)
  show ?thesis
    using x rd part r(3) by (simp add: format40_open_def format40_super_open_def Let_def format40_magic_def mread_same)
qed

theorem format40_sync_open_witness:
  "\<exists>dev' f' g. format40_sync ram_disk (\<lambda>_. []) sample_format = Some (0, dev', f') \<and>
     format40_open ram_disk dev' 4096 = Some (Some g) \<and> fmt_state g = 0"
proof -
  have bs: "fmt_blksize sample_format = 4096" by (simp add: sample_format_def)
  obtain dev' f' where s: "format40_sync ram_disk (\<lambda>_. []) sample_format = Some (0, dev', f')"
    by (simp add: format40_sync_def Let_def ram_disk_def write_range_def bs)
  have rd: "fst (aal_block_read ram_disk dev' (fmt_blksize sample_format) (FORMAT40_BLOCKNR (fmt_blksize sample_format))) = 0"
    by (simp add: ram_disk_def)
  show ?thesis
    using s format40_sync_open [OF ram_disk.aal_dev_laws_axioms _ s rd] by (auto simp: bs)
qed

end
