(* ===== verification/SdExt.thy ===== *)
theory SdExt
  imports ItemPlug
begin

text \<open>
  The extensions of stat data (\<^verbatim>\<open>plugin/sdext\<close>): the light-weight fields, the unix fields, large times, the target of
  a symbolic link, inode flags, and the plugin set and heir set of an object.  An extension is a run of bytes of the
  stat data item, found by its offset in the item.  \<open>F\<close> looks a member of a plugin set up in the library
  (\<^verbatim>\<open>pset_ops.find\<close>): \<open>None\<close> is its invalid pointer, the null pointer stands for a valid number of a parameter.
\<close>

unbundle bit_operations_syntax

abbreviation (input) SDEXT_LW_ID :: nat where "SDEXT_LW_ID \<equiv> 0"
abbreviation (input) SDEXT_UNIX_ID :: nat where "SDEXT_UNIX_ID \<equiv> 1"
abbreviation (input) SDEXT_LT_ID :: nat where "SDEXT_LT_ID \<equiv> 2"
abbreviation (input) SDEXT_SYMLINK_ID :: nat where "SDEXT_SYMLINK_ID \<equiv> 3"
abbreviation (input) SDEXT_PSET_ID :: nat where "SDEXT_PSET_ID \<equiv> 4"
abbreviation (input) SDEXT_FLAGS_ID :: nat where "SDEXT_FLAGS_ID \<equiv> 5"
abbreviation (input) SDEXT_CRYPTO_ID :: nat where "SDEXT_CRYPTO_ID \<equiv> 7"
abbreviation (input) SDEXT_HSET_ID :: nat where "SDEXT_HSET_ID \<equiv> 8"
abbreviation (input) SDEXT_LAST_ID :: nat where "SDEXT_LAST_ID \<equiv> 9"
abbreviation (input) PSET_OBJ :: nat where "PSET_OBJ \<equiv> 0"
abbreviation (input) PSET_DIR :: nat where "PSET_DIR \<equiv> 1"
abbreviation (input) PSET_STORE_LAST :: nat where "PSET_STORE_LAST \<equiv> 14"
abbreviation (input) PSET_LAST :: nat where "PSET_LAST \<equiv> 17"
abbreviation (input) NULL_REF :: plug_ref where "NULL_REF \<equiv> PARAM 0"

section \<open>Extension entities and plugins\<close>

record stat_info =
  si_mode :: nat
  si_digest :: plug_ref

record stat_entity =
  se_plug :: nat
  se_place :: place
  se_offset :: nat
  se_info :: stat_info

definition stat_body :: "stat_entity \<Rightarrow> int" where
  "stat_body stat = pl_body (se_place stat) + int (se_offset stat)"

definition se_mem :: "stat_entity \<Rightarrow> mem" where
  "se_mem stat = place_mem (se_place stat)"

text \<open>
  The methods of an extension plugin.  The length is asked of a hint or of the body.  \<open>None\<close> as a result of \<open>sx_info\<close>
  is a call that does not return.
\<close>

record sdext_plug =
  sx_id :: nat
  sx_init :: "stat_entity \<Rightarrow> sd_hint \<Rightarrow> int \<times> place"
  sx_open :: "(stat_entity \<Rightarrow> sd_hint \<Rightarrow> int \<times> sd_hint) option"
  sx_length :: "stat_entity option \<Rightarrow> sd_hint option \<Rightarrow> nat"
  sx_info :: "(stat_entity \<Rightarrow> stat_info option) option"
  sx_check_struct :: "(stat_entity \<Rightarrow> repair_hint \<Rightarrow> int \<times> place \<times> repair_hint) option"

text \<open>The casts of the opaque hint pointer.\<close>

definition sd_lw :: "sd_hint \<Rightarrow> sdhint_lw" where
  "sd_lw h = (case h of SDH_LW x \<Rightarrow> x | _ \<Rightarrow> \<lparr>lw_mode = 0, lw_nlink = 0, lw_size = 0\<rparr>)"
definition sd_unix :: "sd_hint \<Rightarrow> sdhint_unix" where
  "sd_unix h = (case h of SDH_UNIX x \<Rightarrow> x
     | _ \<Rightarrow> \<lparr>ux_uid = 0, ux_gid = 0, ux_atime = 0, ux_mtime = 0, ux_ctime = 0, ux_rdev = 0, ux_bytes = 0\<rparr>)"
definition sd_lt :: "sd_hint \<Rightarrow> sdhint_lt" where
  "sd_lt h = (case h of SDH_LT x \<Rightarrow> x | _ \<Rightarrow> \<lparr>lt_atime = 0, lt_mtime = 0, lt_ctime = 0\<rparr>)"
definition sd_name :: "sd_hint \<Rightarrow> u8 list" where
  "sd_name h = (case h of SDH_SYMLINK x \<Rightarrow> x | _ \<Rightarrow> [])"
definition sd_pset :: "sd_hint \<Rightarrow> reiser4_pset" where
  "sd_pset h = (case h of SDH_PLUG x \<Rightarrow> x | _ \<Rightarrow> \<lparr>ps_mask = 0, ps_plug = replicate PSET_LAST NULL_REF\<rparr>)"
definition sd_flags :: "sd_hint \<Rightarrow> nat" where
  "sd_flags h = (case h of SDH_FLAGS x \<Rightarrow> x | _ \<Rightarrow> 0)"

text \<open>The check the extensions of a fixed size share.\<close>

definition sdext_fits :: "nat \<Rightarrow> stat_entity \<Rightarrow> repair_hint \<Rightarrow> int \<times> place \<times> repair_hint" where
  "sdext_fits sz stat hint =
     (if se_offset stat + sz > pl_len (se_place stat) then (RE_FATAL, se_place stat, hint) else (0, se_place stat, hint))"

section \<open>Light-weight fields\<close>

definition sdext_lw_open :: "stat_entity \<Rightarrow> sd_hint \<Rightarrow> int \<times> sd_hint" where
  "sdext_lw_open stat hint =
     (let m = se_mem stat; ext = stat_body stat
      in (0, SDH_LW \<lparr>lw_mode = get_le 2 m ext, lw_nlink = get_le 4 m (ext + 2), lw_size = get_le 8 m (ext + 6)\<rparr>))"

definition sdext_lw_length :: "stat_entity option \<Rightarrow> sd_hint option \<Rightarrow> nat" where
  "sdext_lw_length stat hint = 14"

definition sdext_lw_info :: "stat_entity \<Rightarrow> stat_info option" where
  "sdext_lw_info stat = Some ((se_info stat)\<lparr>si_mode := get_le 2 (se_mem stat) (stat_body stat)\<rparr>)"

definition sdext_lw_init :: "stat_entity \<Rightarrow> sd_hint \<Rightarrow> int \<times> place" where
  "sdext_lw_init stat hint =
     (let lwh = sd_lw hint; m = se_mem stat; ext = stat_body stat;
          m = set_le 2 m ext (int (lw_mode lwh));
          m = set_le 4 m (ext + 2) (int (lw_nlink lwh));
          m = set_le 8 m (ext + 6) (int (lw_size lwh))
      in (0, place_put (se_place stat) m))"

definition sdext_lw_check_struct :: "stat_entity \<Rightarrow> repair_hint \<Rightarrow> int \<times> place \<times> repair_hint" where
  "sdext_lw_check_struct stat hint = sdext_fits 14 stat hint"

definition sdext_lw_plug :: sdext_plug where
  "sdext_lw_plug = \<lparr>sx_id = SDEXT_LW_ID, sx_init = sdext_lw_init, sx_open = Some sdext_lw_open, sx_length = sdext_lw_length,
     sx_info = Some sdext_lw_info, sx_check_struct = Some sdext_lw_check_struct\<rparr>"

section \<open>Unix fields\<close>

text \<open>The file type in the mode, as \<^verbatim>\<open>sys/stat.h\<close> has it.\<close>

definition S_ISCHR :: "nat \<Rightarrow> bool" where "S_ISCHR mode \<longleftrightarrow> mode AND 0xF000 = 0x2000"
definition S_ISBLK :: "nat \<Rightarrow> bool" where "S_ISBLK mode \<longleftrightarrow> mode AND 0xF000 = 0x6000"

definition sdext_unix_length :: "stat_entity option \<Rightarrow> sd_hint option \<Rightarrow> nat" where
  "sdext_unix_length stat hint = 28"

definition sdext_unix_open :: "stat_entity \<Rightarrow> sd_hint \<Rightarrow> int \<times> sd_hint" where
  "sdext_unix_open stat hint =
     (let m = se_mem stat; ext = stat_body stat; mode = si_mode (se_info stat); dev = (S_ISBLK mode \<or> S_ISCHR mode)
      in (0, SDH_UNIX
            \<lparr>ux_uid = get_le 4 m ext, ux_gid = get_le 4 m (ext + 4), ux_atime = get_le 4 m (ext + 8),
             ux_mtime = get_le 4 m (ext + 12), ux_ctime = get_le 4 m (ext + 16),
             ux_rdev = (if dev then to_u32 (int (get_le 8 m (ext + 20))) else 0),
             ux_bytes = (if dev then 0 else get_le 8 m (ext + 20))\<rparr>))"

definition sdext_unix_init :: "stat_entity \<Rightarrow> sd_hint \<Rightarrow> int \<times> place" where
  "sdext_unix_init stat hint =
     (let unixh = sd_unix hint; m = se_mem stat; ext = stat_body stat; mode = si_mode (se_info stat);
          m = set_le 4 m ext (int (ux_uid unixh));
          m = set_le 4 m (ext + 4) (int (ux_gid unixh));
          m = set_le 4 m (ext + 8) (int (ux_atime unixh));
          m = set_le 4 m (ext + 12) (int (ux_mtime unixh));
          m = set_le 4 m (ext + 16) (int (ux_ctime unixh));
          m = (if S_ISBLK mode \<or> S_ISCHR mode then set_le 8 m (ext + 20) (int (ux_rdev unixh))
               else set_le 8 m (ext + 20) (int (ux_bytes unixh)))
      in (0, place_put (se_place stat) m))"

definition sdext_unix_check_struct :: "stat_entity \<Rightarrow> repair_hint \<Rightarrow> int \<times> place \<times> repair_hint" where
  "sdext_unix_check_struct stat hint = sdext_fits 28 stat hint"

definition sdext_unix_plug :: sdext_plug where
  "sdext_unix_plug = \<lparr>sx_id = SDEXT_UNIX_ID, sx_init = sdext_unix_init, sx_open = Some sdext_unix_open, sx_length = sdext_unix_length,
     sx_info = None, sx_check_struct = Some sdext_unix_check_struct\<rparr>"

section \<open>Large times\<close>

definition sdext_lt_length :: "stat_entity option \<Rightarrow> sd_hint option \<Rightarrow> nat" where
  "sdext_lt_length stat hint = 12"

definition sdext_lt_open :: "stat_entity \<Rightarrow> sd_hint \<Rightarrow> int \<times> sd_hint" where
  "sdext_lt_open stat hint =
     (let m = se_mem stat; ext = stat_body stat
      in (0, SDH_LT \<lparr>lt_atime = get_le 4 m ext, lt_mtime = get_le 4 m (ext + 4), lt_ctime = get_le 4 m (ext + 8)\<rparr>))"

definition sdext_lt_init :: "stat_entity \<Rightarrow> sd_hint \<Rightarrow> int \<times> place" where
  "sdext_lt_init stat hint =
     (let lth = sd_lt hint; m = se_mem stat; ext = stat_body stat;
          m = set_le 4 m ext (int (lt_atime lth));
          m = set_le 4 m (ext + 4) (int (lt_mtime lth));
          m = set_le 4 m (ext + 8) (int (lt_ctime lth))
      in (0, place_put (se_place stat) m))"

definition sdext_lt_check_struct :: "stat_entity \<Rightarrow> repair_hint \<Rightarrow> int \<times> place \<times> repair_hint" where
  "sdext_lt_check_struct stat hint = sdext_fits 12 stat hint"

definition sdext_lt_plug :: sdext_plug where
  "sdext_lt_plug = \<lparr>sx_id = SDEXT_LT_ID, sx_init = sdext_lt_init, sx_open = Some sdext_lt_open, sx_length = sdext_lt_length,
     sx_info = None, sx_check_struct = Some sdext_lt_check_struct\<rparr>"

section \<open>Inode flags\<close>

definition sdext_flags_length :: "stat_entity option \<Rightarrow> sd_hint option \<Rightarrow> nat" where
  "sdext_flags_length stat hint = 4"

definition sdext_flags_open :: "stat_entity \<Rightarrow> sd_hint \<Rightarrow> int \<times> sd_hint" where
  "sdext_flags_open stat hint = (0, SDH_FLAGS (get_le 4 (se_mem stat) (stat_body stat)))"

definition sdext_flags_init :: "stat_entity \<Rightarrow> sd_hint \<Rightarrow> int \<times> place" where
  "sdext_flags_init stat hint = (0, place_put (se_place stat) (set_le 4 (se_mem stat) (stat_body stat) (int (sd_flags hint))))"

definition sdext_flags_check_struct :: "stat_entity \<Rightarrow> repair_hint \<Rightarrow> int \<times> place \<times> repair_hint" where
  "sdext_flags_check_struct stat hint = sdext_fits 4 stat hint"

definition sdext_flags_plug :: sdext_plug where
  "sdext_flags_plug = \<lparr>sx_id = SDEXT_FLAGS_ID, sx_init = sdext_flags_init, sx_open = Some sdext_flags_open, sx_length = sdext_flags_length,
     sx_info = None, sx_check_struct = Some sdext_flags_check_struct\<rparr>"

section \<open>Symbolic links\<close>

definition sdext_symlink_length :: "stat_entity option \<Rightarrow> sd_hint option \<Rightarrow> nat" where
  "sdext_symlink_length stat hint =
     (case hint of Some h \<Rightarrow> length (sd_name h) + 1
      | None \<Rightarrow> (case stat of Some s \<Rightarrow> length (mem_str (se_mem s) (stat_body s)) + 1 | None \<Rightarrow> 0))"

definition sdext_symlink_open :: "stat_entity \<Rightarrow> sd_hint \<Rightarrow> int \<times> sd_hint" where
  "sdext_symlink_open stat hint = (0, SDH_SYMLINK (mem_str (se_mem stat) (stat_body stat)))"

definition sdext_symlink_init :: "stat_entity \<Rightarrow> sd_hint \<Rightarrow> int \<times> place" where
  "sdext_symlink_init stat hint = (0, place_put (se_place stat) (mwrite (se_mem stat) (stat_body stat) (sd_name hint @ [0])))"

definition sdext_symlink_check_struct :: "stat_entity \<Rightarrow> repair_hint \<Rightarrow> int \<times> place \<times> repair_hint" where
  "sdext_symlink_check_struct stat hint =
     (let offset = se_offset stat + length (mem_str (se_mem stat) (stat_body stat))
      in if offset \<ge> pl_len (se_place stat) then (RE_FATAL, se_place stat, hint) else (0, se_place stat, hint))"

definition sdext_symlink_plug :: sdext_plug where
  "sdext_symlink_plug = \<lparr>sx_id = SDEXT_SYMLINK_ID, sx_init = sdext_symlink_init, sx_open = Some sdext_symlink_open,
     sx_length = sdext_symlink_length, sx_info = None, sx_check_struct = Some sdext_symlink_check_struct\<rparr>"

section \<open>Plugin sets\<close>

definition sdext_plug_get_count :: "mem \<Rightarrow> int \<Rightarrow> nat" where "sdext_plug_get_count m ext = get_le 2 m ext"
definition sdext_plug_set_count :: "mem \<Rightarrow> int \<Rightarrow> nat \<Rightarrow> mem" where "sdext_plug_set_count m ext v = set_le 2 m ext (int v)"
definition sdext_plug_get_member :: "mem \<Rightarrow> int \<Rightarrow> nat \<Rightarrow> nat" where "sdext_plug_get_member m ext n = get_le 2 m (ext + 2 + 4 * int n)"
definition sdext_plug_set_member :: "mem \<Rightarrow> int \<Rightarrow> nat \<Rightarrow> nat \<Rightarrow> mem" where
  "sdext_plug_set_member m ext n v = set_le 2 m (ext + 2 + 4 * int n) (int v)"
definition sdext_plug_get_pid :: "mem \<Rightarrow> int \<Rightarrow> nat \<Rightarrow> nat" where "sdext_plug_get_pid m ext n = get_le 2 m (ext + 4 + 4 * int n)"
definition sdext_plug_set_pid :: "mem \<Rightarrow> int \<Rightarrow> nat \<Rightarrow> nat \<Rightarrow> mem" where
  "sdext_plug_set_pid m ext n v = set_le 2 m (ext + 4 + 4 * int n) (int v)"

text \<open>
  The search for the digest.  The counter of the loop has 8 bits, the number of slots 16: with more than 255 slots
  and no match among the first 256 the loop has no end.
\<close>

fun sdext_plug_digest :: "(nat \<Rightarrow> nat \<Rightarrow> bool \<Rightarrow> plug_ref option) \<Rightarrow> mem \<Rightarrow> int \<Rightarrow> nat \<Rightarrow> nat \<Rightarrow> plug_ref option" where
  "sdext_plug_digest F m ext i 0 = None"
| "sdext_plug_digest F m ext i (Suc n) =
     (let mem = sdext_plug_get_member m ext i; id = sdext_plug_get_pid m ext i
      in if mem \<noteq> SDEXT_PSET_ID then sdext_plug_digest F m ext (i + 1) n
         else Some (case F mem id True of None \<Rightarrow> NULL_REF | Some r \<Rightarrow> r))"

definition sdext_plug_info :: "(nat \<Rightarrow> nat \<Rightarrow> bool \<Rightarrow> plug_ref option) \<Rightarrow> stat_entity \<Rightarrow> stat_info option" where
  "sdext_plug_info F stat =
     (let info = (se_info stat)\<lparr>si_digest := NULL_REF\<rparr>
      in if se_plug stat \<noteq> SDEXT_PSET_ID then Some info
         else (let m = se_mem stat; ext = stat_body stat; count = sdext_plug_get_count m ext
           in case sdext_plug_digest F m ext 0 (min count 256) of
                Some r \<Rightarrow> Some (info\<lparr>si_digest := r\<rparr>)
              | None \<Rightarrow> if count < 256 then Some info else None))"

fun count_bits :: "nat \<Rightarrow> u64 \<Rightarrow> nat" where
  "count_bits 0 msk = 0"
| "count_bits (Suc n) msk = (if bit msk 0 then 1 else 0) + count_bits n (drop_bit 1 msk)"

definition sdext_plug_length :: "stat_entity option \<Rightarrow> sd_hint option \<Rightarrow> nat" where
  "sdext_plug_length stat hint =
     (let count = (case hint of Some h \<Rightarrow> count_bits 64 (ps_mask (sd_pset h))
                   | None \<Rightarrow> (case stat of Some s \<Rightarrow> sdext_plug_get_count (se_mem s) (stat_body s) | None \<Rightarrow> 0))
      in 4 * count + (if count \<noteq> 0 then 2 else 0))"

fun sdext_plug_read ::
  "(nat \<Rightarrow> nat \<Rightarrow> bool \<Rightarrow> plug_ref option) \<Rightarrow> bool \<Rightarrow> mem \<Rightarrow> int \<Rightarrow> nat \<Rightarrow> nat \<Rightarrow> reiser4_pset \<Rightarrow> int \<times> reiser4_pset" where
  "sdext_plug_read F is_pset m ext i 0 plugh = (0, plugh)"
| "sdext_plug_read F is_pset m ext i (Suc n) plugh =
     (let mem = sdext_plug_get_member m ext i; id = sdext_plug_get_pid m ext i
      in if mem \<ge> PSET_STORE_LAST then (- EIO, plugh)
         else if bit (ps_mask plugh) mem then (- EIO, plugh)
         else case F mem id is_pset of
           None \<Rightarrow> (- EIO, plugh)
         | Some r \<Rightarrow>
             (let r = (if r = NULL_REF then PARAM id else r)
              in sdext_plug_read F is_pset m ext (i + 1) n
                   \<lparr>ps_mask = ps_mask plugh OR push_bit mem 1, ps_plug = (ps_plug plugh)[mem := r]\<rparr>))"

definition sdext_plug_open :: "(nat \<Rightarrow> nat \<Rightarrow> bool \<Rightarrow> plug_ref option) \<Rightarrow> stat_entity \<Rightarrow> sd_hint \<Rightarrow> int \<times> sd_hint" where
  "sdext_plug_open F stat hint =
     (let m = se_mem stat; ext = stat_body stat;
          plugh = \<lparr>ps_mask = 0, ps_plug = replicate PSET_LAST NULL_REF\<rparr>;
          (res, plugh) = sdext_plug_read F (se_plug stat = SDEXT_PSET_ID) m ext 0 (sdext_plug_get_count m ext) plugh
      in (res, SDH_PLUG plugh))"

text \<open>
  The number stored for a member: the id of its plugin, or the number itself.  In the code the mask of parameters
  of the tree says which of them a member holds, here its constructor.
\<close>

definition ref_id :: "plug_ref \<Rightarrow> nat" where
  "ref_id r = (case r of PLUG n \<Rightarrow> n | PARAM n \<Rightarrow> n)"

fun sdext_plug_write :: "reiser4_pset \<Rightarrow> mem \<Rightarrow> int \<Rightarrow> nat \<Rightarrow> nat \<Rightarrow> nat \<Rightarrow> mem \<times> nat" where
  "sdext_plug_write plugh m ext mem 0 count = (m, count)"
| "sdext_plug_write plugh m ext mem (Suc n) count =
     (if \<not> bit (ps_mask plugh) mem then sdext_plug_write plugh m ext (mem + 1) n count
      else (let m = sdext_plug_set_member m ext count mem;
                m = sdext_plug_set_pid m ext count (ref_id (ps_plug plugh ! mem))
            in sdext_plug_write plugh m ext (mem + 1) n (count + 1)))"

definition sdext_plug_init :: "stat_entity \<Rightarrow> sd_hint \<Rightarrow> int \<times> place" where
  "sdext_plug_init stat hint =
     (let ext = stat_body stat;
          (m, count) = sdext_plug_write (sd_pset hint) (se_mem stat) ext 0 PSET_STORE_LAST 0
      in (0, place_put (se_place stat) (sdext_plug_set_count m ext count)))"

text \<open>The scan for broken slots: the mask of those to remove, and their number.\<close>

fun sdext_plug_scan ::
  "(nat \<Rightarrow> nat \<Rightarrow> bool \<Rightarrow> plug_ref option) \<Rightarrow> bool \<Rightarrow> mem \<Rightarrow> int \<Rightarrow> nat \<Rightarrow> nat \<Rightarrow> u64 \<Rightarrow> u64 \<Rightarrow> nat \<Rightarrow> u64 \<times> nat" where
  "sdext_plug_scan F is_pset m ext i 0 metmask rmmask remove = (rmmask, remove)"
| "sdext_plug_scan F is_pset m ext i (Suc n) metmask rmmask remove =
     (let mem = sdext_plug_get_member m ext i; id = sdext_plug_get_pid m ext i
      in if mem \<ge> PSET_STORE_LAST then sdext_plug_scan F is_pset m ext (i + 1) n metmask (rmmask OR push_bit i 1) (remove + 1)
         else if bit metmask mem then sdext_plug_scan F is_pset m ext (i + 1) n metmask (rmmask OR push_bit i 1) (remove + 1)
         else (let metmask = metmask OR push_bit i 1
               in if F mem id is_pset = None
                  then sdext_plug_scan F is_pset m ext (i + 1) n metmask (rmmask OR push_bit i 1) (remove + 1)
                  else sdext_plug_scan F is_pset m ext (i + 1) n metmask rmmask remove))"

fun sdext_plug_drop :: "u64 \<Rightarrow> nat \<Rightarrow> nat \<Rightarrow> int \<Rightarrow> nat \<Rightarrow> mem \<Rightarrow> mem" where
  "sdext_plug_drop rmmask i 0 dst len m = m"
| "sdext_plug_drop rmmask i (Suc n) dst len m =
     (let len = to_u32 (int len - 4)
      in if \<not> bit rmmask i then sdext_plug_drop rmmask (i + 1) n (dst + 4) len m
         else sdext_plug_drop rmmask (i + 1) n dst len (memmove m dst (dst + 4) len))"

definition sdext_plug_check_struct ::
  "(nat \<Rightarrow> nat \<Rightarrow> bool \<Rightarrow> plug_ref option) \<Rightarrow> stat_entity \<Rightarrow> repair_hint \<Rightarrow> int \<times> place \<times> repair_hint" where
  "sdext_plug_check_struct F stat hint =
     (let m = se_mem stat; ext = stat_body stat; count = sdext_plug_get_count m ext; place = se_place stat;
          len = sdext_plug_length (Some stat) None
      in if count > PSET_STORE_LAST then (RE_FATAL, place, hint)
         else if len = 0 \<or> se_offset stat + len > pl_len place then (RE_FATAL, place, hint)
         else
           (let (rmmask, remove) = sdext_plug_scan F (se_plug stat = SDEXT_PSET_ID) m ext 0 count 0 0 0
            in if rmmask = 0 then (0, place, hint)
               else if rh_mode hint \<noteq> RM_BUILD then (RE_FATAL, place, hint)
               else if remove = count then (RE_FATAL, place, hint)
               else (let m = sdext_plug_drop rmmask 0 count (ext + 2) (len - 2) m;
                         m = sdext_plug_set_count m ext (count - remove)
                     in (0, place_put place m, hint\<lparr>rh_len := int (remove * 4)\<rparr>))))"

definition sdext_pset_plug :: "(nat \<Rightarrow> nat \<Rightarrow> bool \<Rightarrow> plug_ref option) \<Rightarrow> sdext_plug" where
  "sdext_pset_plug F = \<lparr>sx_id = SDEXT_PSET_ID, sx_init = sdext_plug_init, sx_open = Some (sdext_plug_open F), sx_length = sdext_plug_length,
     sx_info = Some (sdext_plug_info F), sx_check_struct = Some (sdext_plug_check_struct F)\<rparr>"

definition sdext_hset_plug :: "(nat \<Rightarrow> nat \<Rightarrow> bool \<Rightarrow> plug_ref option) \<Rightarrow> sdext_plug" where
  "sdext_hset_plug F = \<lparr>sx_id = SDEXT_HSET_ID, sx_init = sdext_plug_init, sx_open = Some (sdext_plug_open F), sx_length = sdext_plug_length,
     sx_info = Some (sdext_plug_info F), sx_check_struct = Some (sdext_plug_check_struct F)\<rparr>"

section \<open>The registered extensions\<close>

text \<open>
  Looking an extension up by its id.  The crypto extension is an argument: the size of its signature is computed by
  shifting with the address of a plugin.
\<close>

definition sdext_ifind :: "(nat \<Rightarrow> nat \<Rightarrow> bool \<Rightarrow> plug_ref option) \<Rightarrow> sdext_plug option \<Rightarrow> nat \<Rightarrow> sdext_plug option" where
  "sdext_ifind F crypto i =
     (if i = SDEXT_LW_ID then Some sdext_lw_plug
      else if i = SDEXT_UNIX_ID then Some sdext_unix_plug
      else if i = SDEXT_LT_ID then Some sdext_lt_plug
      else if i = SDEXT_SYMLINK_ID then Some sdext_symlink_plug
      else if i = SDEXT_PSET_ID then Some (sdext_pset_plug F)
      else if i = SDEXT_FLAGS_ID then Some sdext_flags_plug
      else if i = SDEXT_CRYPTO_ID then crypto
      else if i = SDEXT_HSET_ID then Some (sdext_hset_plug F)
      else None)"

end
