(* ===== verification/Stat40.thy ===== *)
theory Stat40
  imports SdExt
begin

text \<open>
  Stat data (\<^verbatim>\<open>plugin/item/stat40\<close>): an item of one unit, a mask of 16 bits and the bodies of the extensions whose
  bits are set, in the order of their ids.  Bit 15 says that another mask follows in the place of the extension 15.
  \<open>T\<close> finds an extension plugin by its id, \<open>tset\<close> is the table of the file plugins of the tree.
\<close>

unbundle bit_operations_syntax

abbreviation (input) ITEM_STAT40_ID :: nat where "ITEM_STAT40_ID \<equiv> 0"
abbreviation (input) STAT_ITEM :: nat where "STAT_ITEM \<equiv> 0"
abbreviation (input) STAT40_EXTNR :: nat where "STAT40_EXTNR \<equiv> 64"

definition st40_get_extmask :: "mem \<Rightarrow> int \<Rightarrow> u16" where
  "st40_get_extmask m stat = word_of_nat (get_le 2 m stat)"
definition st40_set_extmask :: "mem \<Rightarrow> int \<Rightarrow> u16 \<Rightarrow> mem" where
  "st40_set_extmask m stat v = set_le 2 m stat (uint v)"

definition sp_stat :: "specific \<Rightarrow> stat_hint" where
  "sp_stat sp = (case sp of SP_STAT s \<Rightarrow> s | _ \<Rightarrow> \<lparr>st_extmask = 0, st_ext = replicate SDEXT_LAST_ID None\<rparr>)"

section \<open>The walk over the extensions\<close>

text \<open>
  The callback gets the plugin, or \<open>None\<close> for a mask, the entity, and the mask shifted to its position in an
  \<^verbatim>\<open>int\<close>; it may change the place.  \<open>n\<close> is the number of rounds left.  The result \<open>None\<close> is a call that does not return.
\<close>

definition stat40_border :: "nat \<Rightarrow> bool" where
  "stat40_border i \<longleftrightarrow> i = 0 \<or> (i + 1) mod 16 = 0"
definition stat40_last :: "nat \<Rightarrow> u16 \<Rightarrow> bool" where
  "stat40_last i extmask \<longleftrightarrow> stat40_border i \<and> i > 0 \<and> (\<not> bit extmask 15 \<or> i + 1 = STAT40_EXTNR)"

definition sdext_info :: "sdext_plug \<Rightarrow> stat_entity \<Rightarrow> stat_info option" where
  "sdext_info plug stat = (case sx_info plug of None \<Rightarrow> Some (se_info stat) | Some info \<Rightarrow> info stat)"

definition stat_next :: "sdext_plug \<Rightarrow> stat_entity \<Rightarrow> stat_entity" where
  "stat_next plug stat = stat\<lparr>se_offset := to_u32 (int (se_offset stat) + int (sx_length plug (Some stat) None))\<rparr>"

fun stat40_walk ::
  "(nat \<Rightarrow> sdext_plug option) \<Rightarrow> (sdext_plug option \<Rightarrow> stat_entity \<Rightarrow> nat \<Rightarrow> 's \<Rightarrow> int \<times> place \<times> 's) \<Rightarrow>
   nat \<Rightarrow> nat \<Rightarrow> u16 \<Rightarrow> nat \<Rightarrow> stat_entity \<Rightarrow> 's \<Rightarrow> (int \<times> place \<times> 's) option" where
  "stat40_walk T ext_func i 0 extmask chunks stat s = Some (0, se_place stat, s)"
| "stat40_walk T ext_func i (Suc n) extmask chunks stat s =
     (if stat40_last i extmask then Some (0, se_place stat, s)
      else
        (let (res, extmask, chunks, stat, s) =
               (if stat40_border i then
                  (let extmask = st40_get_extmask (se_mem stat) (stat_body stat);
                       (res, place, s) = ext_func None stat (to_u64 (to_s32 (uint extmask * 2 ^ (chunks * 16)))) s
                   in (res, extmask, chunks + 1, stat\<lparr>se_place := place, se_offset := to_u32 (int (se_offset stat) + 2)\<rparr>, s))
                else (0, extmask, chunks, stat, s))
         in if res \<noteq> 0 then Some (res, se_place stat, s)
            else if stat40_border i \<and> i > 0 then stat40_walk T ext_func (i + 1) n extmask chunks stat s
            else if \<not> bit extmask (i - (chunks - 1) * 16) then stat40_walk T ext_func (i + 1) n extmask chunks stat s
            else case T i of
              None \<Rightarrow> stat40_walk T ext_func (i + 1) n extmask chunks stat s
            | Some plug \<Rightarrow>
                (let stat = stat\<lparr>se_plug := i\<rparr>;
                     (res, place, s) = ext_func (Some plug) stat (unat extmask) s;
                     stat = stat\<lparr>se_place := place\<rparr>
                 in if res \<noteq> 0 then Some (res, place, s)
                    else case sdext_info plug stat of
                      None \<Rightarrow> None
                    | Some info \<Rightarrow> stat40_walk T ext_func (i + 1) n extmask chunks (stat_next plug (stat\<lparr>se_info := info\<rparr>)) s)))"

declare stat40_walk.simps [simp del]

definition stat_entity0 :: "place \<Rightarrow> stat_entity" where
  "stat_entity0 place = \<lparr>se_plug = 0, se_place = place, se_offset = 0, se_info = \<lparr>si_mode = 0, si_digest = NULL_REF\<rparr>\<rparr>"

definition stat40_traverse ::
  "(nat \<Rightarrow> sdext_plug option) \<Rightarrow> place \<Rightarrow> (sdext_plug option \<Rightarrow> stat_entity \<Rightarrow> nat \<Rightarrow> 's \<Rightarrow> int \<times> place \<times> 's) \<Rightarrow>
   's \<Rightarrow> (int \<times> place \<times> 's) option" where
  "stat40_traverse T place ext_func s = stat40_walk T ext_func 0 STAT40_EXTNR 0 0 (stat_entity0 place) s"

section \<open>Fetching\<close>

definition cb_open_ext :: "sdext_plug option \<Rightarrow> stat_entity \<Rightarrow> nat \<Rightarrow> stat_hint \<Rightarrow> int \<times> place \<times> stat_hint" where
  "cb_open_ext plug stat extmask stath =
     (case plug of None \<Rightarrow> (0, se_place stat, stath)
      | Some x \<Rightarrow> (case sx_open x of None \<Rightarrow> (0, se_place stat, stath)
        | Some open_ext \<Rightarrow>
            (let stath = stath\<lparr>st_extmask := st_extmask stath OR push_bit (sx_id x) 1\<rparr>
             in case st_ext stath ! sx_id x of
                  None \<Rightarrow> (0, se_place stat, stath)
                | Some sdext \<Rightarrow>
                    (let (res, sdext) = open_ext stat sdext
                     in (res, se_place stat, stath\<lparr>st_ext := (st_ext stath)[sx_id x := Some sdext]\<rparr>)))))"

definition S_IFMT :: "nat \<Rightarrow> nat" where "S_IFMT mode = mode AND 0xF000"

definition stat40_file_mode :: "(nat \<Rightarrow> plug_ref) \<Rightarrow> nat \<Rightarrow> plug_ref" where
  "stat40_file_mode tset mode =
     (let t = S_IFMT mode
      in if t = 0xA000 then tset 2
         else if t = 0x8000 then tset 0
         else if t = 0x4000 then tset 1
         else if t = 0x2000 then tset 3
         else if t = 0x6000 then tset 3
         else if t = 0x1000 then tset 3
         else if t = 0xC000 then tset 3
         else NULL_REF)"

definition stat40_decode_pset :: "(nat \<Rightarrow> plug_ref) \<Rightarrow> reiser4_pset \<Rightarrow> sdhint_lw \<Rightarrow> reiser4_pset" where
  "stat40_decode_pset tset plugh lwh =
     (if ps_plug plugh ! PSET_OBJ = NULL_REF
      then \<lparr>ps_mask = ps_mask plugh OR push_bit PSET_OBJ 1,
            ps_plug = (ps_plug plugh)[PSET_OBJ := stat40_file_mode tset (lw_mode lwh)]\<rparr>
      else plugh)"

text \<open>
  \<open>lwh\<close> is what the local hint of the code holds before anything is read into it.  When the traversal fails the
  pointer to it stays in the table of the caller.
\<close>

definition stat40_fetch_units ::
  "(nat \<Rightarrow> sdext_plug option) \<Rightarrow> (nat \<Rightarrow> plug_ref) \<Rightarrow> sdhint_lw \<Rightarrow> place \<Rightarrow> stat_hint \<Rightarrow> (int \<times> stat_hint) option" where
  "stat40_fetch_units T tset lwh place stath =
     (let pset = (st_ext stath ! SDEXT_PSET_ID \<noteq> None);
          lw_local = (pset \<and> st_ext stath ! SDEXT_LW_ID = None);
          stath = (if lw_local then stath\<lparr>st_ext := (st_ext stath)[SDEXT_LW_ID := Some (SDH_LW lwh)]\<rparr> else stath)
      in case stat40_traverse T place cb_open_ext stath of
           None \<Rightarrow> None
         | Some (res, _, stath) \<Rightarrow>
             (if res \<noteq> 0 then Some (- EINVAL, stath)
              else if \<not> pset then Some (1, stath)
              else
                (let exts = st_ext stath;
                     plugh = stat40_decode_pset tset (sd_pset (the (exts ! SDEXT_PSET_ID))) (sd_lw (the (exts ! SDEXT_LW_ID)));
                     exts = exts[SDEXT_PSET_ID := Some (SDH_PLUG plugh)];
                     exts = (if lw_local then exts[SDEXT_LW_ID := None] else exts)
                 in Some (1, stath\<lparr>st_ext := exts\<rparr>))))"

definition stat40_units :: "place \<Rightarrow> nat" where
  "stat40_units place = 1"

section \<open>Insertion and update\<close>

definition stat40_encode_pset ::
  "(nat \<Rightarrow> sdext_plug option) \<Rightarrow> (nat \<Rightarrow> plug_ref) \<Rightarrow> sdhint_lw \<Rightarrow> place \<Rightarrow> stat_hint \<Rightarrow> (int \<times> stat_hint) option" where
  "stat40_encode_pset T tset junk place sd_hint =
     (case st_ext sd_hint ! SDEXT_PSET_ID of
        None \<Rightarrow> Some (0, sd_hint)
      | Some h \<Rightarrow>
          (let plugh = sd_pset h
           in if \<not> bit (ps_mask plugh) PSET_OBJ then Some (0, sd_hint)
              else
                (let found = (case st_ext sd_hint ! SDEXT_LW_ID of
                       Some l \<Rightarrow> Some (1, Some (lw_mode (sd_lw l)))
                     | None \<Rightarrow>
                         (case stat40_fetch_units T tset junk place
                                 \<lparr>st_extmask = 0, st_ext = (replicate SDEXT_LAST_ID None)[SDEXT_LW_ID := Some (SDH_LW junk)]\<rparr> of
                            None \<Rightarrow> None
                          | Some (res, stat) \<Rightarrow>
                              Some (res, if bit (st_extmask stat) SDEXT_LW_ID
                                         then Some (lw_mode (sd_lw (the (st_ext stat ! SDEXT_LW_ID)))) else None)))
                 in case found of
                      None \<Rightarrow> None
                    | Some (res, mode) \<Rightarrow>
                        (if res \<noteq> 1 then Some (res, sd_hint)
                         else case mode of
                           None \<Rightarrow> Some (0, sd_hint)
                         | Some mode \<Rightarrow>
                             (let mask1 = (if ps_plug plugh ! PSET_OBJ = stat40_file_mode tset mode
                                           then ps_mask plugh AND NOT (push_bit PSET_OBJ 1) else ps_mask plugh);
                                  mask1 = mask1 AND NOT (push_bit PSET_DIR 1);
                                  exts = (st_ext sd_hint)[SDEXT_PSET_ID := Some (SDH_PLUG (plugh\<lparr>ps_mask := mask1\<rparr>))];
                                  extmask = (if mask1 = 0 then st_extmask sd_hint AND NOT (push_bit SDEXT_PSET_ID 1)
                                             else st_extmask sd_hint)
                              in Some (0, \<lparr>st_extmask = extmask, st_ext = exts\<rparr>))))))"

fun stat40_estimate :: "(nat \<Rightarrow> sdext_plug option) \<Rightarrow> stat_hint \<Rightarrow> nat \<Rightarrow> nat \<Rightarrow> int \<Rightarrow> int \<times> int" where
  "stat40_estimate T stath i 0 len = (0, len)"
| "stat40_estimate T stath i (Suc n) len =
     (if \<not> bit (st_extmask stath) i then stat40_estimate T stath (i + 1) n len
      else if (i + 1) mod 16 = 0 then stat40_estimate T stath (i + 1) n (to_s32 (len + 2))
      else case T i of
        None \<Rightarrow> (- EINVAL, len)
      | Some plug \<Rightarrow> stat40_estimate T stath (i + 1) n (to_s32 (len + int (sx_length plug None (st_ext stath ! i)))))"

definition stat40_prep_insert ::
  "(nat \<Rightarrow> sdext_plug option) \<Rightarrow> (nat \<Rightarrow> plug_ref) \<Rightarrow> sdhint_lw \<Rightarrow> place \<Rightarrow> 'd trans_hint \<Rightarrow> (int \<times> 'd trans_hint) option" where
  "stat40_prep_insert T tset junk place hint =
     (case stat40_encode_pset T tset junk place (sp_stat (th_specific hint)) of
        None \<Rightarrow> None
      | Some (res, stath) \<Rightarrow>
          (let hint = hint\<lparr>th_len := 0, th_specific := SP_STAT stath\<rparr>
           in if res \<noteq> 0 then Some (res, hint)
              else (let (res, len) = stat40_estimate T stath 0 STAT40_EXTNR (if unit (pl_pos place) = MAX_UINT32 then 2 else 0)
                    in Some (res, hint\<lparr>th_len := len\<rparr>))))"

text \<open>
  The loop of the insertion and of the update.  The shift in the test of a bit is the one of the code; from the second
  mask on it is wider than any integer type, and no bit is set there.
\<close>

fun stat40_put ::
  "(nat \<Rightarrow> sdext_plug option) \<Rightarrow> stat_hint \<Rightarrow> bool \<Rightarrow> nat \<Rightarrow> nat \<Rightarrow> u16 \<Rightarrow> nat \<Rightarrow> stat_entity \<Rightarrow> (int \<times> place) option" where
  "stat40_put T stath ins i 0 extmask chunks stat = Some (0, se_place stat)"
| "stat40_put T stath ins i (Suc n) extmask chunks stat =
     (if stat40_last i extmask then Some (0, se_place stat)
      else
        (let (extmask, chunks, stat) =
               (if stat40_border i then
                  (let extmask = st40_get_extmask (se_mem stat) (stat_body stat);
                       extmask = (if ins then extmask OR ucast (drop_bit i (st_extmask stath)) else extmask);
                       place = (if ins then place_put (se_place stat) (st40_set_extmask (se_mem stat) (stat_body stat) extmask)
                                else se_place stat)
                   in (extmask, chunks + 1, stat\<lparr>se_place := place, se_offset := to_u32 (int (se_offset stat) + 2)\<rparr>))
                else (extmask, chunks, stat))
         in if stat40_border i \<and> i > 0 then stat40_put T stath ins (i + 1) n extmask chunks stat
            else if \<not> bit extmask (push_bit ((chunks - 1) * 16) i) then stat40_put T stath ins (i + 1) n extmask chunks stat
            else case T i of
              None \<Rightarrow> Some (- EINVAL, se_place stat)
            | Some plug \<Rightarrow>
                (let stat = stat\<lparr>se_plug := i\<rparr>;
                     stat =
                       (case st_ext stath ! i of
                          None \<Rightarrow> stat
                        | Some h \<Rightarrow>
                            (let p = se_place stat; extsize = sx_length plug None (Some h);
                                 p = (if ins
                                      then place_put p (memmove (place_mem p) (stat_body stat + int extsize) (stat_body stat)
                                             (to_u32 (int (pl_len p) - (int (se_offset stat) + int extsize))))
                                      else p);
                                 (_, p) = sx_init plug (stat\<lparr>se_place := p\<rparr>) h
                             in stat\<lparr>se_place := p\<rparr>))
                 in case sdext_info plug stat of
                      None \<Rightarrow> None
                    | Some info \<Rightarrow> stat40_put T stath ins (i + 1) n extmask chunks (stat_next plug (stat\<lparr>se_info := info\<rparr>)))))"

definition stat40_modify ::
  "(nat \<Rightarrow> sdext_plug option) \<Rightarrow> place \<Rightarrow> 'd trans_hint \<Rightarrow> bool \<Rightarrow> (int \<times> place) option" where
  "stat40_modify T place hint ins =
     (let stath = sp_stat (th_specific hint);
          place = (if unit (pl_pos place) = MAX_UINT32 \<and> ins
                   then place_put place (st40_set_extmask (place_mem place) (pl_body place) 0) else place)
      in if st_extmask stath = 0 then Some (0, place)
         else case stat40_put T stath ins 0 STAT40_EXTNR 0 0 (stat_entity0 place) of
           None \<Rightarrow> None
         | Some (res, place) \<Rightarrow> Some (if res \<noteq> 0 then (res, place) else (1, place_mkdirty place)))"

definition stat40_insert_units :: "(nat \<Rightarrow> sdext_plug option) \<Rightarrow> place \<Rightarrow> 'd trans_hint \<Rightarrow> (int \<times> place) option" where
  "stat40_insert_units T place hint = stat40_modify T place hint True"

definition stat40_update_units :: "(nat \<Rightarrow> sdext_plug option) \<Rightarrow> place \<Rightarrow> 'd trans_hint \<Rightarrow> (int \<times> place) option" where
  "stat40_update_units T place hint = stat40_modify T place hint False"

section \<open>Removal\<close>

fun stat40_cut ::
  "(nat \<Rightarrow> sdext_plug option) \<Rightarrow> stat_hint \<Rightarrow> nat \<Rightarrow> nat \<Rightarrow> u16 \<Rightarrow> nat \<Rightarrow> stat_entity \<Rightarrow> int \<Rightarrow> (int \<times> place \<times> int) option" where
  "stat40_cut T stath i 0 old_extmask chunks stat len = Some (0, se_place stat, len)"
| "stat40_cut T stath i (Suc n) old_extmask chunks stat len =
     (if stat40_last i old_extmask then Some (0, se_place stat, len)
      else
        (let (old_extmask, chunks, stat) =
               (if stat40_border i then
                  (let old_extmask = st40_get_extmask (se_mem stat) (stat_body stat);
                       new_extmask = old_extmask AND NOT (ucast (drop_bit i (st_extmask stath)));
                       place = place_put (se_place stat) (st40_set_extmask (se_mem stat) (stat_body stat) new_extmask)
                   in (old_extmask, chunks + 1, stat\<lparr>se_place := place, se_offset := to_u32 (int (se_offset stat) + 2)\<rparr>))
                else (old_extmask, chunks, stat))
         in if stat40_border i \<and> i > 0 then stat40_cut T stath (i + 1) n old_extmask chunks stat len
            else if \<not> bit old_extmask (i - (chunks - 1) * 16) then stat40_cut T stath (i + 1) n old_extmask chunks stat len
            else case T i of
              None \<Rightarrow> Some (- EINVAL, se_place stat, len)
            | Some plug \<Rightarrow>
                (let stat = stat\<lparr>se_plug := i\<rparr>;
                     extsize = to_u16 (int (sx_length plug (Some stat) None))
                 in if bit (st_extmask stath) i then
                      (let p = se_place stat;
                           p = place_put p (memmove (place_mem p) (stat_body stat) (stat_body stat + int extsize)
                                 (to_u32 (int (pl_len p) - (int (se_offset stat) + int extsize))))
                       in stat40_cut T stath (i + 1) n old_extmask chunks (stat\<lparr>se_place := p\<rparr>) (to_s32 (len + int extsize)))
                    else
                      (let stat = stat\<lparr>se_offset := to_u32 (int (se_offset stat) + int extsize)\<rparr>
                       in case sdext_info plug stat of
                            None \<Rightarrow> None
                          | Some info \<Rightarrow> stat40_cut T stath (i + 1) n old_extmask chunks (stat\<lparr>se_info := info\<rparr>) len))))"

definition stat40_remove_units ::
  "(nat \<Rightarrow> sdext_plug option) \<Rightarrow> place \<Rightarrow> 'd trans_hint \<Rightarrow> (int \<times> place \<times> 'd trans_hint) option" where
  "stat40_remove_units T place hint =
     (let hint = hint\<lparr>th_overhead := 0, th_len := 0\<rparr>
      in case stat40_cut T (sp_stat (th_specific hint)) 0 STAT40_EXTNR 0 0 (stat_entity0 place) 0 of
           None \<Rightarrow> None
         | Some (res, place, len) \<Rightarrow>
             Some (res, if res \<noteq> 0 then place else place_mkdirty place, hint\<lparr>th_len := len\<rparr>))"

section \<open>Repair\<close>

record repair_stat_hint =
  rs_repair :: repair_hint
  rs_extmask :: u64
  rs_goodmask :: u64
  rs_len :: nat

definition cb_check_ext :: "sdext_plug option \<Rightarrow> stat_entity \<Rightarrow> nat \<Rightarrow> repair_stat_hint \<Rightarrow> int \<times> place \<times> repair_stat_hint" where
  "cb_check_ext plug stat extmask hint =
     (case plug of
        None \<Rightarrow> (0, se_place stat, hint\<lparr>rs_extmask := rs_extmask hint OR word_of_nat extmask, rs_len := to_u64 (int (rs_len hint) + 2)\<rparr>)
      | Some x \<Rightarrow>
          (let hint = hint\<lparr>rs_goodmask := rs_goodmask hint OR push_bit (sx_id x) 1\<rparr>;
               chunk = sx_id x div 16;
               hint = (if chunk > 0 then hint\<lparr>rs_goodmask := rs_goodmask hint OR push_bit (chunk * 16 - 1) 1\<rparr> else hint);
               (res, place, rep) = (case sx_check_struct x of None \<Rightarrow> (0, se_place stat, rs_repair hint)
                                    | Some check \<Rightarrow> check stat (rs_repair hint));
               hint = hint\<lparr>rs_repair := rep\<rparr>
           in if res \<noteq> 0 then (res, place, hint)
              else
                (let stat = stat\<lparr>se_place := place\<rparr>;
                     len = sx_length x (Some stat) None;
                     hint = hint\<lparr>rs_len := to_u64 (int (rs_len hint) + int len)\<rparr>
                 in if rh_len rep \<noteq> 0 then
                      (let oldlen = to_u32 (int len + rh_len rep);
                           place = place_put place (memmove (place_mem place) (stat_body stat + int len) (stat_body stat + int oldlen)
                                     (to_u32 (int (pl_len place) - int (se_offset stat) - int oldlen)))
                       in (0, place_mkdirty place, hint\<lparr>rs_repair := rep\<lparr>rh_len := 0\<rparr>\<rparr>))
                    else (0, place, hint))))"

definition cb_fix_mask :: "sdext_plug option \<Rightarrow> stat_entity \<Rightarrow> nat \<Rightarrow> u64 \<Rightarrow> int \<times> place \<times> u64" where
  "cb_fix_mask plug stat extmask msk =
     (case plug of
        Some _ \<Rightarrow> (0, se_place stat, msk)
      | None \<Rightarrow> (0, place_put (se_place stat) (st40_set_extmask (se_mem stat) (stat_body stat) (ucast msk)), drop_bit 16 msk))"

definition stat40_check_struct ::
  "(nat \<Rightarrow> sdext_plug option) \<Rightarrow> place \<Rightarrow> repair_hint \<Rightarrow> (int \<times> place \<times> repair_hint) option" where
  "stat40_check_struct T place hint =
     (case stat40_traverse T place cb_check_ext \<lparr>rs_repair = hint, rs_extmask = 0, rs_goodmask = 0, rs_len = 0\<rparr> of
        None \<Rightarrow> None
      | Some (res, place, stat) \<Rightarrow>
          (let hint = rs_repair stat
           in if res < 0 then Some (res, place, hint)
              else if res \<noteq> 0 then Some (RE_FATAL, place, hint)
              else
                (let short = (int (rs_len stat) + rh_len hint < int (pl_len place))
                 in if short \<and> rh_mode hint \<noteq> RM_BUILD then Some (RE_FATAL, place, hint)
                    else
                      (let (place, hint) = (if short
                             then (place_mkdirty place, hint\<lparr>rh_len := int (pl_len place) - int (rs_len stat)\<rparr>) else (place, hint))
                       in if rs_extmask stat = rs_goodmask stat then Some (0, place, hint)
                          else if rh_mode hint = RM_CHECK then Some (RE_FIXABLE, place, hint)
                          else case stat40_traverse T place cb_fix_mask (rs_goodmask stat) of
                            None \<Rightarrow> None
                          | Some (res, place, _) \<Rightarrow>
                              Some (if res < 0 then (res, place, hint) else (0, place_mkdirty place, hint))))))"

definition cb_count_ext :: "sdext_plug option \<Rightarrow> stat_entity \<Rightarrow> nat \<Rightarrow> nat \<Rightarrow> int \<times> place \<times> nat" where
  "cb_count_ext plug stat extmask count = (0, se_place stat, if plug = None then count else to_u32 (int count + 1))"

definition stat40_sdext_count :: "(nat \<Rightarrow> sdext_plug option) \<Rightarrow> place \<Rightarrow> nat option" where
  "stat40_sdext_count T place =
     map_option (\<lambda>(res, _, count). if res < 0 then 0 else count) (stat40_traverse T place cb_count_ext 0)"

definition stat40_prep_insert_raw :: "place \<Rightarrow> 'd trans_hint \<Rightarrow> int \<times> 'd trans_hint" where
  "stat40_prep_insert_raw place hint =
     (let src = (case th_specific hint of SP_PLACE p \<Rightarrow> p | _ \<Rightarrow> place);
          hint = hint\<lparr>th_overhead := 0, th_bytes := 0\<rparr>
      in (0, if unit (pl_pos place) = MAX_UINT32 then hint\<lparr>th_count := 1, th_len := int (pl_len src)\<rparr>
             else hint\<lparr>th_count := 0, th_len := 0\<rparr>))"

definition stat40_insert_raw :: "place \<Rightarrow> 'd trans_hint \<Rightarrow> int \<times> place" where
  "stat40_insert_raw place hint =
     (if th_len hint = 0 then (0, place)
      else (let src = (case th_specific hint of SP_PLACE p \<Rightarrow> p | _ \<Rightarrow> place)
            in (0, place_mkdirty (place_put place (memcpy (place_mem place) (pl_body place) (place_mem src) (pl_body src)
                     (nat (th_len hint)))))))"

end
