(* ===== verification/SdLaws.thy ===== *)
theory SdLaws
  imports Stat40
begin

text \<open>
  The contract of an extension plugin, as a locale: an extension is a list of bytes that depends on the hint and on
  what the extensions before it left in the entity.  What the plugin writes are these bytes, and from these bytes
  alone it reads the hint, the length and the information back.  All extensions of the library but the crypto one
  meet it.
\<close>

unbundle bit_operations_syntax

section \<open>The contract\<close>

definition ext_at :: "stat_entity \<Rightarrow> u8 list \<Rightarrow> bool" where
  "ext_at stat bs \<longleftrightarrow> mread (se_mem stat) (stat_body stat) (length bs) = bs"

locale sd_ext =
  fixes x :: sdext_plug and good :: "stat_info \<Rightarrow> sd_hint \<Rightarrow> bool" and enc :: "stat_info \<Rightarrow> sd_hint \<Rightarrow> u8 list"
    and aft :: "stat_info \<Rightarrow> sd_hint \<Rightarrow> stat_info"
  assumes ext_init: "good (se_info stat) h \<Longrightarrow> \<exists>m'. sx_init x stat h = (0, place_put (se_place stat) m') \<and>
      mread m' (stat_body stat) (length (enc (se_info stat) h)) = enc (se_info stat) h \<and>
      (\<forall>a. a < stat_body stat \<or> stat_body stat + int (length (enc (se_info stat) h)) \<le> a \<longrightarrow> m' a = se_mem stat a)"
    and ext_hint_length: "good nf h \<Longrightarrow> sx_length x None (Some h) = length (enc nf h)"
    and ext_body_length: "good nf h \<Longrightarrow> ext_at stat (enc nf h) \<Longrightarrow> sx_length x (Some stat) None = length (enc nf h)"
    and ext_open: "good (se_info stat) h \<Longrightarrow> ext_at stat (enc (se_info stat) h) \<Longrightarrow> se_plug stat = sx_id x \<Longrightarrow>
      \<exists>open_ext. sx_open x = Some open_ext \<and> open_ext stat h0 = (0, h)"
    and ext_info: "good (se_info stat) h \<Longrightarrow> ext_at stat (enc (se_info stat) h) \<Longrightarrow> se_plug stat = sx_id x \<Longrightarrow>
      sdext_info x stat = Some (aft (se_info stat) h)"
    and ext_check: "good (se_info stat) h \<Longrightarrow> ext_at stat (enc (se_info stat) h) \<Longrightarrow> se_plug stat = sx_id x \<Longrightarrow>
      se_offset stat + length (enc (se_info stat) h) \<le> pl_len (se_place stat) \<Longrightarrow>
      \<exists>check. sx_check_struct x = Some check \<and> check stat hint = (0, se_place stat, hint)"

section \<open>Fields\<close>

text \<open>The bytes of the fields of an extension of a fixed size: pairs of a width and a value.\<close>

fun fields :: "(nat \<times> nat) list \<Rightarrow> u8 list" where
  "fields [] = []"
| "fields ((k, v) # fs) = le_bytes k v @ fields fs"

definition fits :: "(nat \<times> nat) list \<Rightarrow> bool" where
  "fits fs \<longleftrightarrow> (\<forall>(k, v)\<in>set fs. v < 256 ^ k)"

lemma length_fields: "length (fields fs) = sum_list (map fst fs)"
  by (induction fs rule: fields.induct) simp_all

lemma fits_simps [simp]: "fits []" "fits ((k, v) # fs) \<longleftrightarrow> v < 256 ^ k \<and> fits fs"
  by (simp_all add: fits_def)

lemma read_fields:
  assumes "mread m a (length (fields ((k, v) # fs))) = fields ((k, v) # fs)" "v < 256 ^ k"
  shows "get_le k m a = v" "mread m (a + int k) (length (fields fs)) = fields fs"
proof -
  have "mread m a k @ mread m (a + int k) (length (fields fs)) = le_bytes k v @ fields fs"
    using assms(1) by (simp add: mread_split)
  then have "mread m a k = le_bytes k v" "mread m (a + int k) (length (fields fs)) = fields fs"
    by (simp_all add: append_eq_append_conv)
  then show "get_le k m a = v" "mread m (a + int k) (length (fields fs)) = fields fs"
    using assms(2) by (simp_all add: get_le_def)
qed

fun get_fields :: "mem \<Rightarrow> int \<Rightarrow> nat list \<Rightarrow> nat list" where
  "get_fields m a [] = []"
| "get_fields m a (k # ks) = get_le k m a # get_fields m (a + int k) ks"

lemma get_fields_eq: "mread m a (length (fields fs)) = fields fs \<Longrightarrow> fits fs \<Longrightarrow> get_fields m a (map fst fs) = map snd fs"
proof (induction fs arbitrary: a rule: fields.induct)
  case (2 k v fs)
  then show ?case using read_fields [OF "2.prems"(1)] by simp
qed simp

text \<open>Writing the fields one after the other.\<close>

fun write_fields :: "mem \<Rightarrow> int \<Rightarrow> (nat \<times> nat) list \<Rightarrow> mem" where
  "write_fields m a [] = m"
| "write_fields m a ((k, v) # fs) = write_fields (set_le k m a (int v)) (a + int k) fs"

lemma write_fields_outside: "b < a \<or> a + int (length (fields fs)) \<le> b \<Longrightarrow> write_fields m a fs b = m b"
proof (induction fs arbitrary: m a rule: fields.induct)
  case (2 k v fs)
  then show ?case by (auto simp: set_le_outside)
qed simp

lemma write_fields_read: "fits fs \<Longrightarrow> mread (write_fields m a fs) a (length (fields fs)) = fields fs"
proof (induction fs arbitrary: m a rule: fields.induct)
  case (2 k v fs)
  have "mread (write_fields (set_le k m a (int v)) (a + int k) fs) a k = mread (set_le k m a (int v)) a k"
    by (rule nth_equalityI) (auto simp: write_fields_outside)
  also have "\<dots> = le_bytes k v" using "2.prems" by (simp add: set_le_def mread_same nat_mod_as_int)
  finally show ?case using 2 by (simp add: mread_split)
qed simp

text \<open>What the reading of an extension with these fields relies on, and what its writing needs.\<close>

lemma ext_fields: "ext_at stat bs \<Longrightarrow> bs = fields fs \<Longrightarrow> fits fs \<Longrightarrow> get_fields (se_mem stat) (stat_body stat) (map fst fs) = map snd fs"
  by (simp add: ext_at_def get_fields_eq)

lemma fields_init:
  assumes "sx_init x stat h = (0, place_put (se_place stat) (write_fields (se_mem stat) (stat_body stat) fs))" "fits fs" "bs = fields fs"
  shows "\<exists>m'. sx_init x stat h = (0, place_put (se_place stat) m') \<and> mread m' (stat_body stat) (length bs) = bs \<and>
    (\<forall>a. a < stat_body stat \<or> stat_body stat + int (length bs) \<le> a \<longrightarrow> m' a = se_mem stat a)"
  using assms write_fields_read write_fields_outside by blast

lemma place_put_se [simp]: "se_mem (stat\<lparr>se_place := place_put p m\<rparr>) = m" "se_mem (stat\<lparr>se_plug := j\<rparr>) = se_mem stat"
  "se_mem (stat\<lparr>se_offset := k\<rparr>) = se_mem stat" "se_mem (stat\<lparr>se_info := i\<rparr>) = se_mem stat"
  "stat_body (stat\<lparr>se_plug := j\<rparr>) = stat_body stat" "stat_body (stat\<lparr>se_info := i\<rparr>) = stat_body stat"
  by (simp_all add: se_mem_def stat_body_def)

section \<open>The extensions of a fixed size\<close>

definition lw_good :: "stat_info \<Rightarrow> sd_hint \<Rightarrow> bool" where
  "lw_good nf h \<longleftrightarrow> (\<exists>l. h = SDH_LW l \<and> lw_mode l < 2 ^ 16 \<and> lw_nlink l < 2 ^ 32 \<and> lw_size l < 2 ^ 64)"
definition lw_bytes :: "stat_info \<Rightarrow> sd_hint \<Rightarrow> u8 list" where
  "lw_bytes nf h = fields [(2, lw_mode (sd_lw h)), (4, lw_nlink (sd_lw h)), (8, lw_size (sd_lw h))]"
definition lw_after :: "stat_info \<Rightarrow> sd_hint \<Rightarrow> stat_info" where
  "lw_after nf h = nf\<lparr>si_mode := lw_mode (sd_lw h)\<rparr>"

lemma lw_open:
  assumes "lw_good (se_info stat) h" "ext_at stat (lw_bytes (se_info stat) h)"
  shows "sdext_lw_open stat h0 = (0, h)" "sdext_lw_info stat = Some (lw_after (se_info stat) h)"
  using assms(1) ext_fields [OF assms(2) lw_bytes_def]
  by (auto simp: lw_good_def sdext_lw_open_def sdext_lw_info_def lw_after_def Let_def sd_lw_def add.assoc)

interpretation lw_ext: sd_ext sdext_lw_plug lw_good lw_bytes lw_after
proof
  fix stat :: stat_entity and h assume g: "lw_good (se_info stat) h"
  show "\<exists>m'. sx_init sdext_lw_plug stat h = (0, place_put (se_place stat) m') \<and>
      mread m' (stat_body stat) (length (lw_bytes (se_info stat) h)) = lw_bytes (se_info stat) h \<and>
      (\<forall>a. a < stat_body stat \<or> stat_body stat + int (length (lw_bytes (se_info stat) h)) \<le> a \<longrightarrow> m' a = se_mem stat a)"
    using g by (intro fields_init [OF _ _ lw_bytes_def]) (auto simp: sdext_lw_plug_def sdext_lw_init_def Let_def lw_good_def sd_lw_def add.assoc)
qed (simp_all add: lw_open sdext_lw_plug_def sdext_lw_length_def lw_bytes_def length_fields sdext_info_def sdext_lw_check_struct_def sdext_fits_def)

definition unix_good :: "stat_info \<Rightarrow> sd_hint \<Rightarrow> bool" where
  "unix_good nf h \<longleftrightarrow> (\<exists>u. h = SDH_UNIX u \<and> ux_uid u < 2 ^ 32 \<and> ux_gid u < 2 ^ 32 \<and> ux_atime u < 2 ^ 32 \<and> ux_mtime u < 2 ^ 32 \<and>
     ux_ctime u < 2 ^ 32 \<and>
     (if S_ISBLK (si_mode nf) \<or> S_ISCHR (si_mode nf) then ux_rdev u < 2 ^ 32 \<and> ux_bytes u = 0 else ux_rdev u = 0 \<and> ux_bytes u < 2 ^ 64))"
definition unix_bytes :: "stat_info \<Rightarrow> sd_hint \<Rightarrow> u8 list" where
  "unix_bytes nf h = fields [(4, ux_uid (sd_unix h)), (4, ux_gid (sd_unix h)), (4, ux_atime (sd_unix h)), (4, ux_mtime (sd_unix h)),
     (4, ux_ctime (sd_unix h)), (8, if S_ISBLK (si_mode nf) \<or> S_ISCHR (si_mode nf) then ux_rdev (sd_unix h) else ux_bytes (sd_unix h))]"

lemma unix_open:
  assumes "unix_good (se_info stat) h" "ext_at stat (unix_bytes (se_info stat) h)"
  shows "sdext_unix_open stat h0 = (0, h)"
  using assms(1) ext_fields [OF assms(2) unix_bytes_def]
  by (auto simp: unix_good_def sdext_unix_open_def Let_def sd_unix_def add.assoc wrap_simps split: if_splits)

interpretation unix_ext: sd_ext sdext_unix_plug unix_good unix_bytes "\<lambda>nf h. nf"
proof
  fix stat :: stat_entity and h assume g: "unix_good (se_info stat) h"
  show "\<exists>m'. sx_init sdext_unix_plug stat h = (0, place_put (se_place stat) m') \<and>
      mread m' (stat_body stat) (length (unix_bytes (se_info stat) h)) = unix_bytes (se_info stat) h \<and>
      (\<forall>a. a < stat_body stat \<or> stat_body stat + int (length (unix_bytes (se_info stat) h)) \<le> a \<longrightarrow> m' a = se_mem stat a)"
    using g by (intro fields_init [OF _ _ unix_bytes_def])
      (auto simp: sdext_unix_plug_def sdext_unix_init_def Let_def unix_good_def sd_unix_def add.assoc split: if_splits)
qed (simp_all add: unix_open sdext_unix_plug_def sdext_unix_length_def unix_bytes_def length_fields sdext_info_def sdext_unix_check_struct_def sdext_fits_def)

definition lt_good :: "stat_info \<Rightarrow> sd_hint \<Rightarrow> bool" where
  "lt_good nf h \<longleftrightarrow> (\<exists>l. h = SDH_LT l \<and> lt_atime l < 2 ^ 32 \<and> lt_mtime l < 2 ^ 32 \<and> lt_ctime l < 2 ^ 32)"
definition lt_bytes :: "stat_info \<Rightarrow> sd_hint \<Rightarrow> u8 list" where
  "lt_bytes nf h = fields [(4, lt_atime (sd_lt h)), (4, lt_mtime (sd_lt h)), (4, lt_ctime (sd_lt h))]"

lemma lt_open:
  assumes "lt_good (se_info stat) h" "ext_at stat (lt_bytes (se_info stat) h)"
  shows "sdext_lt_open stat h0 = (0, h)"
  using assms(1) ext_fields [OF assms(2) lt_bytes_def]
  by (auto simp: lt_good_def sdext_lt_open_def Let_def sd_lt_def add.assoc)

interpretation lt_ext: sd_ext sdext_lt_plug lt_good lt_bytes "\<lambda>nf h. nf"
proof
  fix stat :: stat_entity and h assume g: "lt_good (se_info stat) h"
  show "\<exists>m'. sx_init sdext_lt_plug stat h = (0, place_put (se_place stat) m') \<and>
      mread m' (stat_body stat) (length (lt_bytes (se_info stat) h)) = lt_bytes (se_info stat) h \<and>
      (\<forall>a. a < stat_body stat \<or> stat_body stat + int (length (lt_bytes (se_info stat) h)) \<le> a \<longrightarrow> m' a = se_mem stat a)"
    using g by (intro fields_init [OF _ _ lt_bytes_def])
      (auto simp: sdext_lt_plug_def sdext_lt_init_def Let_def lt_good_def sd_lt_def add.assoc)
qed (simp_all add: lt_open sdext_lt_plug_def sdext_lt_length_def lt_bytes_def length_fields sdext_info_def sdext_lt_check_struct_def sdext_fits_def)

definition flags_good :: "stat_info \<Rightarrow> sd_hint \<Rightarrow> bool" where
  "flags_good nf h \<longleftrightarrow> (\<exists>f. h = SDH_FLAGS f \<and> f < 2 ^ 32)"
definition flags_bytes :: "stat_info \<Rightarrow> sd_hint \<Rightarrow> u8 list" where
  "flags_bytes nf h = fields [(4, sd_flags h)]"

lemma flags_open:
  assumes "flags_good (se_info stat) h" "ext_at stat (flags_bytes (se_info stat) h)"
  shows "sdext_flags_open stat h0 = (0, h)"
  using assms(1) ext_fields [OF assms(2) flags_bytes_def]
  by (auto simp: flags_good_def sdext_flags_open_def sd_flags_def)

interpretation flags_ext: sd_ext sdext_flags_plug flags_good flags_bytes "\<lambda>nf h. nf"
proof
  fix stat :: stat_entity and h assume g: "flags_good (se_info stat) h"
  show "\<exists>m'. sx_init sdext_flags_plug stat h = (0, place_put (se_place stat) m') \<and>
      mread m' (stat_body stat) (length (flags_bytes (se_info stat) h)) = flags_bytes (se_info stat) h \<and>
      (\<forall>a. a < stat_body stat \<or> stat_body stat + int (length (flags_bytes (se_info stat) h)) \<le> a \<longrightarrow> m' a = se_mem stat a)"
    using g by (intro fields_init [OF _ _ flags_bytes_def])
      (auto simp: sdext_flags_plug_def sdext_flags_init_def flags_good_def sd_flags_def)
qed (simp_all add: flags_open sdext_flags_plug_def sdext_flags_length_def flags_bytes_def length_fields sdext_info_def sdext_flags_check_struct_def
    sdext_fits_def)

section \<open>Symbolic links\<close>

definition link_good :: "stat_info \<Rightarrow> sd_hint \<Rightarrow> bool" where
  "link_good nf h \<longleftrightarrow> (\<exists>name. h = SDH_SYMLINK name \<and> length name < 65536 \<and> (\<forall>c\<in>set name. c \<noteq> 0))"
definition link_bytes :: "stat_info \<Rightarrow> sd_hint \<Rightarrow> u8 list" where
  "link_bytes nf h = sd_name h @ [0]"

lemma link_open:
  assumes "link_good nf h" "ext_at stat (link_bytes nf h)"
  shows "mem_str (se_mem stat) (stat_body stat) = sd_name h" "sdext_symlink_open stat h0 = (0, h)"
proof -
  obtain name where h: "h = SDH_SYMLINK name" "length name < 65536" "\<forall>c\<in>set name. c \<noteq> 0" using assms(1) by (auto simp: link_good_def)
  show m: "mem_str (se_mem stat) (stat_body stat) = sd_name h"
    using mem_str_eq [OF _ refl, of "se_mem stat" "stat_body stat" name] assms(2) h by (simp add: sd_name_def ext_at_def link_bytes_def)
  show "sdext_symlink_open stat h0 = (0, h)" unfolding sdext_symlink_open_def m by (simp add: sd_name_def h(1))
qed

interpretation link_ext: sd_ext sdext_symlink_plug link_good link_bytes "\<lambda>nf h. nf"
proof
  fix stat :: stat_entity and h
  let ?m = "mwrite (se_mem stat) (stat_body stat) (sd_name h @ [0])"
  show "\<exists>m'. sx_init sdext_symlink_plug stat h = (0, place_put (se_place stat) m') \<and>
      mread m' (stat_body stat) (length (link_bytes (se_info stat) h)) = link_bytes (se_info stat) h \<and>
      (\<forall>a. a < stat_body stat \<or> stat_body stat + int (length (link_bytes (se_info stat) h)) \<le> a \<longrightarrow> m' a = se_mem stat a)"
    by (intro exI [of _ ?m]) (auto simp: sdext_symlink_plug_def sdext_symlink_init_def link_bytes_def mread_same mwrite_outside)
qed (auto simp: link_open sdext_symlink_plug_def sdext_symlink_length_def link_bytes_def sdext_info_def sdext_symlink_check_struct_def Let_def)

end
