(* ===== verification/SdPset.thy ===== *)
theory SdPset
  imports SdLaws
begin

text \<open>The plugin set and the heir set meet the contract of the extensions.\<close>

unbundle bit_operations_syntax

section \<open>Slots\<close>

definition pset_members :: "reiser4_pset \<Rightarrow> nat list" where
  "pset_members ps = filter (\<lambda>j. bit (ps_mask ps) j) [0..<PSET_STORE_LAST]"

definition pset_slot :: "reiser4_pset \<Rightarrow> nat \<Rightarrow> u8 list" where
  "pset_slot ps j = le_bytes 2 j @ le_bytes 2 (ref_id (ps_plug ps ! j))"

definition pset_ok :: "(nat \<Rightarrow> nat \<Rightarrow> bool \<Rightarrow> plug_ref option) \<Rightarrow> bool \<Rightarrow> reiser4_pset \<Rightarrow> bool" where
  "pset_ok F is_pset ps \<longleftrightarrow> length (ps_plug ps) = PSET_LAST \<and> ps_mask ps \<noteq> 0 \<and> (\<forall>j. bit (ps_mask ps) j \<longrightarrow> j < PSET_STORE_LAST) \<and>
     (\<forall>j<PSET_LAST. if bit (ps_mask ps) j
        then ref_id (ps_plug ps ! j) < 65536 \<and> (\<exists>r. F j (ref_id (ps_plug ps ! j)) is_pset = Some r \<and>
          ps_plug ps ! j = (if r = NULL_REF then PARAM (ref_id (ps_plug ps ! j)) else r))
        else ps_plug ps ! j = NULL_REF)"

definition pset_good :: "(nat \<Rightarrow> nat \<Rightarrow> bool \<Rightarrow> plug_ref option) \<Rightarrow> bool \<Rightarrow> stat_info \<Rightarrow> sd_hint \<Rightarrow> bool" where
  "pset_good F is_pset nf h \<longleftrightarrow> (\<exists>ps. h = SDH_PLUG ps \<and> pset_ok F is_pset ps)"

definition pset_bytes :: "stat_info \<Rightarrow> sd_hint \<Rightarrow> u8 list" where
  "pset_bytes nf h = (let ps = sd_pset h; ms = pset_members ps in le_bytes 2 (length ms) @ concat (map (pset_slot ps) ms))"

definition pset_after :: "(nat \<Rightarrow> nat \<Rightarrow> bool \<Rightarrow> plug_ref option) \<Rightarrow> bool \<Rightarrow> stat_info \<Rightarrow> sd_hint \<Rightarrow> stat_info" where
  "pset_after F is_pset nf h =
     nf\<lparr>si_digest := (if is_pset \<and> 4 \<in> set (pset_members (sd_pset h))
        then (case F 4 (ref_id (ps_plug (sd_pset h) ! 4)) True of None \<Rightarrow> NULL_REF | Some r \<Rightarrow> r) else NULL_REF)\<rparr>"

lemma members_facts: "sorted_wrt (<) (pset_members ps)" "distinct (pset_members ps)" "set (pset_members ps) = {j. bit (ps_mask ps) j \<and> j < PSET_STORE_LAST}"
  "length (pset_members ps) \<le> PSET_STORE_LAST"
proof -
  show "sorted_wrt (<) (pset_members ps)" unfolding pset_members_def by (intro sorted_wrt_filter) (rule sorted_wrt_upt)
  show "distinct (pset_members ps)" "set (pset_members ps) = {j. bit (ps_mask ps) j \<and> j < PSET_STORE_LAST}"
    by (auto simp: pset_members_def)
  show "length (pset_members ps) \<le> PSET_STORE_LAST" unfolding pset_members_def by (rule order_trans [OF length_filter_le]) simp
qed

lemma pset_ok_at:
  assumes "pset_ok F is_pset ps" "bit (ps_mask ps) j"
  shows "j < PSET_STORE_LAST" "ref_id (ps_plug ps ! j) < 65536"
    "\<exists>r. F j (ref_id (ps_plug ps ! j)) is_pset = Some r \<and> ps_plug ps ! j = (if r = NULL_REF then PARAM (ref_id (ps_plug ps ! j)) else r)"
proof -
  show j: "j < PSET_STORE_LAST" using assms by (auto simp: pset_ok_def)
  then have "j < PSET_LAST" by simp
  then show "ref_id (ps_plug ps ! j) < 65536"
    "\<exists>r. F j (ref_id (ps_plug ps ! j)) is_pset = Some r \<and> ps_plug ps ! j = (if r = NULL_REF then PARAM (ref_id (ps_plug ps ! j)) else r)"
    using assms unfolding pset_ok_def by metis+
qed

lemma length_slots: "length (concat (map (pset_slot ps) ms)) = 4 * length ms"
  by (induction ms) (simp_all add: pset_slot_def)

lemma drop_slots: "drop (4 * k) (concat (map (pset_slot ps) ms)) = concat (map (pset_slot ps) (drop k ms))"
proof (induction k arbitrary: ms)
  case (Suc k)
  show ?case
  proof (cases ms)
    case (Cons j ms')
    have "length (pset_slot ps j) = 4" by (simp add: pset_slot_def)
    then show ?thesis using Cons Suc by (simp add: add.commute [of 4])
  qed simp
qed simp

text \<open>What the slots of an extension hold.\<close>

definition slots_hold :: "reiser4_pset \<Rightarrow> mem \<Rightarrow> int \<Rightarrow> bool" where
  "slots_hold ps m ext \<longleftrightarrow> (\<forall>k<length (pset_members ps). sdext_plug_get_member m ext k = pset_members ps ! k \<and>
     sdext_plug_get_pid m ext k = ref_id (ps_plug ps ! (pset_members ps ! k)))"

lemma pset_slots:
  assumes "pset_ok F is_pset ps" "ext_at stat (pset_bytes nf (SDH_PLUG ps))"
  shows "slots_hold ps (se_mem stat) (stat_body stat)" "sdext_plug_get_count (se_mem stat) (stat_body stat) = length (pset_members ps)"
proof -
  let ?ms = "pset_members ps" and ?m = "se_mem stat" and ?e = "stat_body stat"
  have bs: "pset_bytes nf (SDH_PLUG ps) = le_bytes 2 (length ?ms) @ concat (map (pset_slot ps) ?ms)"
    by (simp add: pset_bytes_def sd_pset_def Let_def)
  have all: "mread ?m ?e 2 @ mread ?m (?e + 2) (4 * length ?ms) = le_bytes 2 (length ?ms) @ concat (map (pset_slot ps) ?ms)"
    using assms(2) mread_split [of ?m ?e 2 "4 * length ?ms"] unfolding ext_at_def bs by (simp add: length_slots)
  then have two: "mread ?m ?e 2 = le_bytes 2 (length ?ms)" "mread ?m (?e + 2) (4 * length ?ms) = concat (map (pset_slot ps) ?ms)"
    by (simp_all add: append_eq_append_conv)
  show "sdext_plug_get_count ?m ?e = length ?ms"
    using two(1) members_facts(4) [of ps] by (simp add: sdext_plug_get_count_def get_le_def)
  show "slots_hold ps ?m ?e"
    unfolding slots_hold_def
  proof (intro allI impI)
    fix k assume k: "k < length ?ms"
    define j where "j = ?ms ! k"
    have "j \<in> set ?ms" using k by (simp add: j_def)
    then have j: "bit (ps_mask ps) j" "j < 14" by (auto simp: members_facts)
    then have r: "ref_id (ps_plug ps ! j) < 65536" by (intro pset_ok_at(2) [OF assms(1)])
    have "mread ?m (?e + 2 + int (4 * k)) 4 = take 4 (drop (4 * k) (mread ?m (?e + 2) (4 * length ?ms)))"
      using k by (subst mread_part) auto
    also have "\<dots> = pset_slot ps j"
      unfolding two(2) drop_slots using k by (simp add: Cons_nth_drop_Suc [symmetric] j_def pset_slot_def)
    finally have "mread ?m (?e + 2 + 4 * int k) 2 @ mread ?m (?e + 2 + 4 * int k + 2) 2 = le_bytes 2 j @ le_bytes 2 (ref_id (ps_plug ps ! j))"
      using mread_split [of ?m "?e + 2 + 4 * int k" 2 2] by (simp add: pset_slot_def)
    then have "mread ?m (?e + 2 + 4 * int k) 2 = le_bytes 2 j" "mread ?m (?e + 2 + 4 * int k + 2) 2 = le_bytes 2 (ref_id (ps_plug ps ! j))"
      by (simp_all add: append_eq_append_conv)
    then have v: "le_value (mread ?m (?e + 2 + 4 * int k) 2) = j" "le_value (mread ?m (?e + 2 + 4 * int k + 2) 2) = ref_id (ps_plug ps ! j)"
      using j r by simp_all
    have e: "?e + 4 + 4 * int k = ?e + 2 + 4 * int k + 2" by simp
    show "sdext_plug_get_member ?m ?e k = ?ms ! k \<and> sdext_plug_get_pid ?m ?e k = ref_id (ps_plug ps ! (?ms ! k))"
      unfolding sdext_plug_get_member_def sdext_plug_get_pid_def get_le_def e j_def [symmetric] v by (intro conjI refl)
  qed
qed

section \<open>Reading\<close>

lemma digest_slots:
  assumes "slots_hold ps m ext"
  shows "i + n = length (pset_members ps) \<Longrightarrow> sdext_plug_digest F m ext i n =
    (if 4 \<in> set (drop i (pset_members ps)) then Some (case F 4 (ref_id (ps_plug ps ! 4)) True of None \<Rightarrow> NULL_REF | Some r \<Rightarrow> r) else None)"
proof (induction n arbitrary: i)
  case (Suc n)
  have i: "i < length (pset_members ps)" using Suc.prems by simp
  then have d: "drop i (pset_members ps) = pset_members ps ! i # drop (Suc i) (pset_members ps)" by (simp add: Cons_nth_drop_Suc)
  show ?case
    using assms i Suc.IH [of "i + 1"] Suc.prems unfolding d by (auto simp: slots_hold_def Let_def)
qed simp

lemma read_slots:
  assumes "slots_hold ps m ext" "pset_ok F is_pset ps"
  shows "i + n = length (pset_members ps) \<Longrightarrow> length (ps_plug pl) = PSET_LAST \<Longrightarrow>
    (\<forall>j. bit (ps_mask pl) j \<longleftrightarrow> j \<in> set (take i (pset_members ps))) \<Longrightarrow>
    (\<forall>j<PSET_LAST. ps_plug pl ! j = (if j \<in> set (take i (pset_members ps)) then ps_plug ps ! j else NULL_REF)) \<Longrightarrow>
    sdext_plug_read F is_pset m ext i n pl = (0, ps)"
proof (induction n arbitrary: i pl)
  case 0
  then have full: "take i (pset_members ps) = pset_members ps" by simp
  have "ps_mask pl = ps_mask ps"
    using 0(3) assms(2) unfolding full by (intro bit_word_eqI) (auto simp: members_facts pset_ok_def)
  moreover have "ps_plug pl = ps_plug ps"
    using 0(2,4) assms(2) unfolding full by (intro nth_equalityI) (auto simp: pset_ok_def members_facts)
  ultimately show ?case by simp
next
  case (Suc n)
  let ?ms = "pset_members ps"
  define j where "j = ?ms ! i"
  have i: "i < length ?ms" using Suc.prems by simp
  have "j \<in> set ?ms" using i by (simp add: j_def)
  then have jb: "bit (ps_mask ps) j" "j < 14" by (auto simp: members_facts)
  have s: "sdext_plug_get_member m ext i = j" "sdext_plug_get_pid m ext i = ref_id (ps_plug ps ! j)"
    using assms(1) i by (auto simp: slots_hold_def j_def)
  have nj: "j \<notin> set (take i ?ms)"
    using i members_facts(2) [of ps] by (auto simp: j_def in_set_conv_nth nth_eq_iff_index_eq)
  obtain r where r: "F j (ref_id (ps_plug ps ! j)) is_pset = Some r" "ps_plug ps ! j = (if r = NULL_REF then PARAM (ref_id (ps_plug ps ! j)) else r)"
    using pset_ok_at(3) [OF assms(2) jb(1)] by blast
  let ?pl = "\<lparr>ps_mask = ps_mask pl OR push_bit j 1, ps_plug = (ps_plug pl)[j := ps_plug ps ! j]\<rparr>"
  have tk: "set (take (i + 1) ?ms) = insert j (set (take i ?ms))" using i by (simp add: take_Suc_conv_app_nth j_def)
  have "sdext_plug_read F is_pset m ext i (Suc n) pl = sdext_plug_read F is_pset m ext (i + 1) n ?pl"
    using s jb nj r Suc.prems(3) by (simp add: Let_def)
  also have "\<dots> = (0, ps)"
  proof (rule Suc.IH)
    show "\<forall>k. bit (ps_mask ?pl) k \<longleftrightarrow> k \<in> set (take (i + 1) ?ms)"
      using Suc.prems(3) jb unfolding tk by (auto simp: bit_simps)
    show "\<forall>k<PSET_LAST. ps_plug ?pl ! k = (if k \<in> set (take (i + 1) ?ms) then ps_plug ps ! k else NULL_REF)"
      using Suc.prems(2,4) jb unfolding tk by (auto simp: nth_list_update)
  qed (use Suc.prems in simp_all)
  finally show ?case .
qed

lemma scan_slots:
  assumes "slots_hold ps m ext" "pset_ok F is_pset ps"
  shows "i + n = length (pset_members ps) \<Longrightarrow> (\<forall>j. bit met j \<longrightarrow> j < i) \<Longrightarrow> sdext_plug_scan F is_pset m ext i n met 0 0 = (0, 0)"
proof (induction n arbitrary: i met)
  case (Suc n)
  let ?ms = "pset_members ps"
  define j where "j = ?ms ! i"
  have i: "i < length ?ms" using Suc.prems by simp
  have "j \<in> set ?ms" using i by (simp add: j_def)
  then have jb: "bit (ps_mask ps) j" "j < 14" by (auto simp: members_facts)
  have s: "sdext_plug_get_member m ext i = j" "sdext_plug_get_pid m ext i = ref_id (ps_plug ps ! j)"
    using assms(1) i by (auto simp: slots_hold_def j_def)
  have "i \<le> j" unfolding j_def by (rule sorted_wrt_less_idx [OF members_facts(1) i])
  then have nb: "\<not> bit met j" using Suc.prems(2) by force
  have f: "F j (ref_id (ps_plug ps ! j)) is_pset \<noteq> None" using pset_ok_at(3) [OF assms(2) jb(1)] by auto
  have "\<forall>k. bit (met OR push_bit i 1) k \<longrightarrow> k < i + 1" using Suc.prems(2) by (auto simp: bit_simps less_Suc_eq)
  then show ?case using s jb nb f Suc.IH [of "i + 1"] Suc.prems(1) by (auto simp: Let_def)
qed simp

section \<open>Writing\<close>

lemma count_bits_eq: "count_bits n msk = length (filter (bit msk) [0..<n])"
proof (induction n arbitrary: msk)
  case (Suc n)
  have "[0..<Suc n] = 0 # map Suc [0..<n]" by (simp add: upt_conv_Cons map_Suc_upt del: upt_Suc)
  then show ?case using Suc.IH [of "drop_bit 1 msk"] by (simp add: filter_map comp_def bit_simps)
qed simp

lemma write_slots:
  "\<forall>j<PSET_STORE_LAST. bit (ps_mask ps) j \<longrightarrow> ref_id (ps_plug ps ! j) < 65536 \<Longrightarrow> mm + n = PSET_STORE_LAST \<Longrightarrow>
   sdext_plug_write ps m ext mm n count = (m', count') \<Longrightarrow>
   (let ms = filter (bit (ps_mask ps)) [mm..<PSET_STORE_LAST]; a = ext + 2 + 4 * int count
    in count' = count + length ms \<and> mread m' a (4 * length ms) = concat (map (pset_slot ps) ms) \<and>
       (\<forall>b. b < a \<or> a + 4 * int (length ms) \<le> b \<longrightarrow> m' b = m b))"
proof (induction n arbitrary: mm m count)
  case 0
  then show ?case by simp
next
  case (Suc n)
  have up: "[mm..<PSET_STORE_LAST] = mm # [mm + 1..<PSET_STORE_LAST]" using Suc.prems(2) by (simp add: upt_conv_Cons)
  show ?case
  proof (cases "bit (ps_mask ps) mm")
    case False
    then show ?thesis using Suc.IH [OF Suc.prems(1), of "mm + 1"] Suc.prems(2,3) unfolding up by simp
  next
    case True
    let ?a = "ext + 2 + 4 * int count"
    let ?m1 = "sdext_plug_set_pid (sdext_plug_set_member m ext count mm) ext count (ref_id (ps_plug ps ! mm))"
    let ?ms = "filter (bit (ps_mask ps)) [mm + 1..<PSET_STORE_LAST]"
    have r: "mm < 256 ^ 2" "ref_id (ps_plug ps ! mm) < 256 ^ 2" using Suc.prems(1,2) True by auto
    have m1: "?m1 = write_fields m ?a [(2, mm), (2, ref_id (ps_plug ps ! mm))]"
      by (simp add: sdext_plug_set_pid_def sdext_plug_set_member_def algebra_simps)
    have "fits [(2, mm), (2, ref_id (ps_plug ps ! mm))]" using r by simp
    from write_fields_read [OF this, of m ?a] have s1: "mread ?m1 ?a 4 = pset_slot ps mm"
      unfolding m1 by (simp add: pset_slot_def)
    have o1: "b < ?a \<or> ?a + 4 \<le> b \<Longrightarrow> ?m1 b = m b" for b
      unfolding m1 by (rule write_fields_outside) simp
    have "sdext_plug_write ps ?m1 ext (mm + 1) n (count + 1) = (m', count')" using Suc.prems(3) True by (simp add: Let_def)
    from Suc.IH [OF Suc.prems(1) _ this] Suc.prems(2)
    have w: "count' = count + 1 + length ?ms" "mread m' (?a + 4) (4 * length ?ms) = concat (map (pset_slot ps) ?ms)"
      "\<forall>b. b < ?a + 4 \<or> ?a + 4 + 4 * int (length ?ms) \<le> b \<longrightarrow> m' b = ?m1 b"
      by (simp_all add: Let_def algebra_simps)
    have "mread m' ?a 4 = mread ?m1 ?a 4" using w(3) by (intro nth_equalityI) auto
    then have "mread m' ?a (4 + 4 * length ?ms) = pset_slot ps mm @ concat (map (pset_slot ps) ?ms)"
      unfolding mread_split using s1 w(2) by simp
    then show ?thesis using True w(1,3) o1 unfolding up by (auto simp: Let_def)
  qed
qed

lemma pset_length:
  assumes "pset_ok F is_pset ps"
  shows "count_bits 64 (ps_mask ps) = length (pset_members ps)" "pset_members ps \<noteq> []"
proof -
  have up: "[0..<64] = [0..<14] @ [14..<64]" using upt_add_eq_append [of 0 14 50] by simp
  have "filter (bit (ps_mask ps)) [14..<64] = []" using assms by (auto simp: filter_empty_conv pset_ok_def)
  then show "count_bits 64 (ps_mask ps) = length (pset_members ps)" unfolding count_bits_eq up pset_members_def by simp
  have "ps_mask ps \<noteq> 0" using assms by (simp add: pset_ok_def)
  then obtain j where "bit (ps_mask ps) j" using bit_word_eqI [of "ps_mask ps" 0] by auto
  then have "j \<in> set (pset_members ps)" using assms by (auto simp: members_facts pset_ok_def)
  then show "pset_members ps \<noteq> []" by auto
qed

section \<open>The contract\<close>

text \<open>Both extensions have the same methods; they differ by their ids.\<close>

lemma pset_laws:
  assumes x: "sx_init x = sdext_plug_init" "sx_open x = Some (sdext_plug_open F)" "sx_length x = sdext_plug_length"
    "sx_info x = Some (sdext_plug_info F)" "sx_check_struct x = Some (sdext_plug_check_struct F)"
    and is_pset: "is_pset = (sx_id x = SDEXT_PSET_ID)"
  shows "sd_ext x (pset_good F is_pset) pset_bytes (pset_after F is_pset)"
proof
  fix stat :: stat_entity and h assume "pset_good F is_pset (se_info stat) h"
  then obtain ps where h: "h = SDH_PLUG ps" "pset_ok F is_pset ps" by (auto simp: pset_good_def)
  let ?e = "stat_body stat" and ?ms = "pset_members ps"
  have sp: "sd_pset h = ps" by (simp add: h(1) sd_pset_def)
  obtain m1 c where w: "sdext_plug_write ps (se_mem stat) ?e 0 PSET_STORE_LAST 0 = (m1, c)" by fastforce
  have "\<forall>j<PSET_STORE_LAST. bit (ps_mask ps) j \<longrightarrow> ref_id (ps_plug ps ! j) < 65536" using pset_ok_at(2) [OF h(2)] by blast
  from write_slots [OF this _ w]
  have s: "c = length ?ms" "mread m1 (?e + 2) (4 * length ?ms) = concat (map (pset_slot ps) ?ms)"
    "\<forall>b. b < ?e + 2 \<or> ?e + 2 + 4 * int (length ?ms) \<le> b \<longrightarrow> m1 b = se_mem stat b"
    by (simp_all add: Let_def pset_members_def)
  let ?m = "sdext_plug_set_count m1 ?e c"
  have c: "c < 256 ^ 2" using s(1) members_facts(4) [of ps] by simp
  have m: "?m = write_fields m1 ?e [(2, c)]" by (simp add: sdext_plug_set_count_def)
  have "mread ?m ?e 2 = le_bytes 2 c" using write_fields_read [of "[(2, c)]" m1 ?e] c unfolding m by simp
  moreover have "mread ?m (?e + 2) (4 * length ?ms) = mread m1 (?e + 2) (4 * length ?ms)"
    unfolding m by (intro nth_equalityI) (auto simp: set_le_outside)
  ultimately have "mread ?m ?e (2 + 4 * length ?ms) = pset_bytes (se_info stat) h"
    unfolding mread_split using s(1,2) by (simp add: pset_bytes_def sp Let_def)
  moreover have "length (pset_bytes (se_info stat) h) = 2 + 4 * length ?ms" by (simp add: pset_bytes_def sp Let_def length_slots)
  moreover have "\<forall>a. a < ?e \<or> ?e + int (2 + 4 * length ?ms) \<le> a \<longrightarrow> ?m a = se_mem stat a"
    using s(3) by (auto simp: sdext_plug_set_count_def set_le_outside)
  ultimately show "\<exists>m'. sx_init x stat h = (0, place_put (se_place stat) m') \<and>
      mread m' ?e (length (pset_bytes (se_info stat) h)) = pset_bytes (se_info stat) h \<and>
      (\<forall>a. a < ?e \<or> ?e + int (length (pset_bytes (se_info stat) h)) \<le> a \<longrightarrow> m' a = se_mem stat a)"
    by (intro exI [of _ ?m]) (simp add: x sdext_plug_init_def sp w)
next
  fix nf h assume "pset_good F is_pset nf h"
  then obtain ps where h: "h = SDH_PLUG ps" "pset_ok F is_pset ps" by (auto simp: pset_good_def)
  then show "sx_length x None (Some h) = length (pset_bytes nf h)"
    using pset_length [OF h(2)] by (simp add: x sdext_plug_length_def sd_pset_def pset_bytes_def Let_def length_slots)
next
  fix stat :: stat_entity and nf h assume "pset_good F is_pset nf h" and at: "ext_at stat (pset_bytes nf h)"
  then obtain ps where h: "h = SDH_PLUG ps" "pset_ok F is_pset ps" by (auto simp: pset_good_def)
  then show "sx_length x (Some stat) None = length (pset_bytes nf h)"
    using pset_slots(2) [OF h(2) at [unfolded h(1)]] pset_length(2) [OF h(2)]
    by (simp add: x sdext_plug_length_def pset_bytes_def sd_pset_def Let_def length_slots)
next
  fix stat :: stat_entity and h assume "pset_good F is_pset (se_info stat) h" and at: "ext_at stat (pset_bytes (se_info stat) h)"
  then obtain ps where h: "h = SDH_PLUG ps" "pset_ok F is_pset ps" by (auto simp: pset_good_def)
  note sl = pset_slots [OF h(2) at [unfolded h(1)]]
  have len: "length (pset_bytes (se_info stat) h) = 2 + 4 * length (pset_members ps)"
    by (simp add: pset_bytes_def h(1) sd_pset_def Let_def length_slots)
  have bl: "sx_length x (Some stat) None = length (pset_bytes (se_info stat) h)"
    using sl(2) pset_length(2) [OF h(2)] by (simp add: x sdext_plug_length_def len)
  assume plug: "se_plug stat = sx_id x"
  have pl0: "length (ps_plug \<lparr>ps_mask = 0, ps_plug = replicate PSET_LAST NULL_REF\<rparr>) = PSET_LAST" by simp
  have "sdext_plug_read F is_pset (se_mem stat) (stat_body stat) 0 (length (pset_members ps)) \<lparr>ps_mask = 0, ps_plug = replicate PSET_LAST NULL_REF\<rparr> = (0, ps)"
    by (rule read_slots [OF sl(1) h(2)]) simp_all
  then show "\<exists>open_ext. sx_open x = Some open_ext \<and> open_ext stat h0 = (0, h)" for h0
    using sl(2) plug is_pset h(1) by (simp add: x sdext_plug_open_def)
  have "sdext_plug_digest F (se_mem stat) (stat_body stat) 0 (min (length (pset_members ps)) 256) =
    (if 4 \<in> set (pset_members ps) then Some (case F 4 (ref_id (ps_plug ps ! 4)) True of None \<Rightarrow> NULL_REF | Some r \<Rightarrow> r) else None)"
    using digest_slots [OF sl(1), of 0 "length (pset_members ps)"] members_facts(4) [of ps] by (simp add: min_def)
  then show "sdext_info x stat = Some (pset_after F is_pset (se_info stat) h)"
    using sl(2) plug is_pset h(1) members_facts(4) [of ps]
    by (auto simp: sdext_info_def x sdext_plug_info_def Let_def pset_after_def sd_pset_def)
  assume "se_offset stat + length (pset_bytes (se_info stat) h) \<le> pl_len (se_place stat)"
  moreover have "sdext_plug_scan F is_pset (se_mem stat) (stat_body stat) 0 (length (pset_members ps)) 0 0 0 = (0, 0)"
    by (rule scan_slots [OF sl(1) h(2)]) simp_all
  ultimately show "\<exists>check. sx_check_struct x = Some check \<and> check stat hint = (0, se_place stat, hint)" for hint
    using sl(2) plug is_pset members_facts(4) [of ps] bl by (simp add: x sdext_plug_check_struct_def Let_def len)
qed

interpretation pset_ext: sd_ext "sdext_pset_plug F" "pset_good F True" pset_bytes "pset_after F True" for F
  by (rule pset_laws) (simp_all add: sdext_pset_plug_def)

interpretation hset_ext: sd_ext "sdext_hset_plug F" "pset_good F False" pset_bytes "pset_after F False" for F
  by (rule pset_laws) (simp_all add: sdext_hset_plug_def)

end
