(* ===== verification/StatUnits.thy ===== *)
theory StatUnits
  imports SdPset
begin

text \<open>
  Stat data items as lists of extensions.  The locale \<open>stat_exts\<close> is what the item needs of a table of extension
  plugins: each of its ids has a plugin that meets the contract of extensions.
\<close>

unbundle bit_operations_syntax

section \<open>Items as lists of extensions\<close>

fun sd_good :: "nat set \<Rightarrow> (nat \<Rightarrow> stat_info \<Rightarrow> sd_hint \<Rightarrow> bool) \<Rightarrow> (nat \<Rightarrow> stat_info \<Rightarrow> sd_hint \<Rightarrow> stat_info) \<Rightarrow> stat_info \<Rightarrow>
    (nat \<times> sd_hint) list \<Rightarrow> bool" where
  "sd_good ids g a nf [] = True"
| "sd_good ids g a nf ((j, h) # xs) = (j \<in> ids \<and> g j nf h \<and> sd_good ids g a (a j nf h) xs)"

fun sd_bytes :: "(nat \<Rightarrow> stat_info \<Rightarrow> sd_hint \<Rightarrow> u8 list) \<Rightarrow> (nat \<Rightarrow> stat_info \<Rightarrow> sd_hint \<Rightarrow> stat_info) \<Rightarrow> stat_info \<Rightarrow>
    (nat \<times> sd_hint) list \<Rightarrow> u8 list" where
  "sd_bytes b a nf [] = []"
| "sd_bytes b a nf ((j, h) # xs) = b j nf h @ sd_bytes b a (a j nf h) xs"

definition sd_items :: "(nat \<Rightarrow> bool) \<Rightarrow> (nat \<Rightarrow> sd_hint) \<Rightarrow> nat \<Rightarrow> (nat \<times> sd_hint) list" where
  "sd_items B hs i = map (\<lambda>j. (j, hs j)) (filter B [i..<15])"

lemma wrap_id: "k < 65536 \<Longrightarrow> to_u64 (to_s32 (int k)) = k"
  by (simp add: to_s32_id to_u64_nat)

lemma sd_items_step: "i < 15 \<Longrightarrow> sd_items B hs i = (if B i then (i, hs i) # sd_items B hs (i + 1) else sd_items B hs (i + 1))"
  by (simp add: sd_items_def upt_conv_Cons)

lemma sd_items_end [simp]: "sd_items B hs 15 = []"
  by (simp add: sd_items_def)

lemma ext_at_append:
  "ext_at stat (bs @ rs) \<longleftrightarrow> ext_at stat bs \<and> ext_at (stat\<lparr>se_offset := se_offset stat + length bs\<rparr>) rs"
proof -
  have "mread (se_mem stat) (stat_body stat) (length bs + length rs) = bs @ rs \<longleftrightarrow>
      mread (se_mem stat) (stat_body stat) (length bs) = bs \<and> mread (se_mem stat) (stat_body stat + int (length bs)) (length rs) = rs"
    unfolding mread_split by (rule append_eq_append_conv) simp
  then show ?thesis by (simp add: ext_at_def stat_body_def add.assoc)
qed

lemma ext_at_cong [simp]: "ext_at (stat\<lparr>se_plug := j\<rparr>) bs = ext_at stat bs" "ext_at (stat\<lparr>se_info := nf\<rparr>) bs = ext_at stat bs"
  by (simp_all add: ext_at_def stat_body_def se_mem_def)

section \<open>The steps of the loops\<close>

definition walk_body where
  "walk_body T ext_func i n extmask chunks stat s =
     (if \<not> bit extmask (i - (chunks - 1) * 16) then stat40_walk T ext_func (i + 1) n extmask chunks stat s
      else case T i of
        None \<Rightarrow> stat40_walk T ext_func (i + 1) n extmask chunks stat s
      | Some plug \<Rightarrow>
          (let stat = stat\<lparr>se_plug := i\<rparr>;
               (res, place, s) = ext_func (Some plug) stat (unat extmask) s;
               stat = stat\<lparr>se_place := place\<rparr>
           in if res \<noteq> 0 then Some (res, place, s)
              else case sdext_info plug stat of
                None \<Rightarrow> None
              | Some info \<Rightarrow> stat40_walk T ext_func (i + 1) n extmask chunks (stat_next plug (stat\<lparr>se_info := info\<rparr>)) s))"

lemma walk_inner: "0 < i \<Longrightarrow> i < 15 \<Longrightarrow> stat40_walk T f i (Suc n) em chunks stat s = walk_body T f i n em chunks stat s"
  by (simp add: stat40_walk.simps(2) stat40_last_def stat40_border_def walk_body_def)

lemma walk_end: "\<not> bit em 15 \<Longrightarrow> stat40_walk T f 15 (Suc n) em chunks stat s = Some (0, se_place stat, s)"
  by (simp add: stat40_walk.simps(2) stat40_last_def stat40_border_def)

lemma walk_first:
  assumes "f None stat (to_u64 (to_s32 (uint (st40_get_extmask (se_mem stat) (stat_body stat))))) s = (0, place, s')"
  shows "stat40_walk T f 0 (Suc n) em 0 stat s = walk_body T f 0 n (st40_get_extmask (se_mem stat) (stat_body stat)) 1
    (stat\<lparr>se_place := place, se_offset := to_u32 (int (se_offset stat) + 2)\<rparr>) s'"
  using assms by (simp add: stat40_walk.simps(2) stat40_last_def stat40_border_def walk_body_def Let_def)

definition put_body where
  "put_body T stath ins i n extmask stat =
     (if \<not> bit extmask i then stat40_put T stath ins (i + 1) n extmask 1 stat
      else case T i of
        None \<Rightarrow> Some (- EINVAL, se_place stat)
      | Some plug \<Rightarrow>
          (let stat = stat\<lparr>se_plug := i\<rparr>;
               stat =
                 (case st_ext stath ! i of
                    None \<Rightarrow> stat
                  | Some h \<Rightarrow>
                      (let p = se_place stat; extsize = sx_length plug None (Some h);
                           p = (if ins
                                then place_put p (memmove (place_mem p) (stat_body stat + int extsize) (stat_body stat)
                                       (to_u32 (int (pl_len p) - (int (se_offset stat) + int extsize))))
                                else p);
                           (_, p) = sx_init plug (stat\<lparr>se_place := p\<rparr>) h
                       in stat\<lparr>se_place := p\<rparr>))
           in case sdext_info plug stat of
                None \<Rightarrow> None
              | Some info \<Rightarrow> stat40_put T stath ins (i + 1) n extmask 1 (stat_next plug (stat\<lparr>se_info := info\<rparr>))))"

lemma put_inner: "0 < i \<Longrightarrow> i < 15 \<Longrightarrow> stat40_put T stath True i (Suc n) em 1 stat = put_body T stath True i n em stat"
  by (simp add: stat40_last_def stat40_border_def put_body_def del: One_nat_def)

lemma put_end: "\<not> bit em 15 \<Longrightarrow> stat40_put T stath True 15 (Suc n) em 1 stat = Some (0, se_place stat)"
  by (simp add: stat40_last_def stat40_border_def)

lemma put_first:
  assumes "em = st40_get_extmask (se_mem stat) (stat_body stat) OR ucast (st_extmask stath)"
  shows "stat40_put T stath True 0 (Suc n) em0 0 stat = put_body T stath True 0 n em
    (stat\<lparr>se_place := place_put (se_place stat) (st40_set_extmask (se_mem stat) (stat_body stat) em),
          se_offset := to_u32 (int (se_offset stat) + 2)\<rparr>)"
  by (simp add: assms stat40_last_def stat40_border_def put_body_def Let_def del: One_nat_def)

section \<open>The walk over an item\<close>

locale stat_exts =
  fixes T :: "nat \<Rightarrow> sdext_plug option" and g :: "nat \<Rightarrow> stat_info \<Rightarrow> sd_hint \<Rightarrow> bool" and b :: "nat \<Rightarrow> stat_info \<Rightarrow> sd_hint \<Rightarrow> u8 list"
    and a :: "nat \<Rightarrow> stat_info \<Rightarrow> sd_hint \<Rightarrow> stat_info" and ids :: "nat set"
  assumes ids_less: "j \<in> ids \<Longrightarrow> j < SDEXT_LAST_ID"
    and ext_law: "j \<in> ids \<Longrightarrow> \<exists>x. T j = Some x \<and> sx_id x = j \<and> sd_ext x (g j) (b j) (a j)"
begin

lemma body_step:
  assumes cb: "\<And>stat h e s. i \<in> ids \<Longrightarrow> g i (se_info stat) h \<Longrightarrow> ext_at stat (b i (se_info stat) h) \<Longrightarrow> se_plug stat = i \<Longrightarrow>
      se_offset stat + length (b i (se_info stat) h) \<le> pl_len (se_place stat) \<Longrightarrow> Q s \<Longrightarrow>
      f (T i) stat e s = (0, se_place stat, upd i h s) \<and> Q (upd i h s)" and Q: "Q s"
    and i: "i < 15" and xs: "xs = sd_items (bit em) hs i" "sd_good ids g a (se_info stat) xs" "ext_at stat (sd_bytes b a (se_info stat) xs)"
    and room: "se_offset stat + length (sd_bytes b a (se_info stat) xs) \<le> pl_len (se_place stat)" "pl_len (se_place stat) < 2 ^ 32"
    and rest: "\<And>stat s xs. xs = sd_items (bit em) hs (i + 1) \<Longrightarrow> sd_good ids g a (se_info stat) xs \<Longrightarrow>
      ext_at stat (sd_bytes b a (se_info stat) xs) \<Longrightarrow> se_offset stat + length (sd_bytes b a (se_info stat) xs) \<le> pl_len (se_place stat) \<Longrightarrow>
      pl_len (se_place stat) < 2 ^ 32 \<Longrightarrow> Q s \<Longrightarrow>
      stat40_walk T f (i + 1) n em 1 stat s = Some (0, se_place stat, fold (\<lambda>(j, h). upd j h) xs s)"
  shows "walk_body T f i n em 1 stat s = Some (0, se_place stat, fold (\<lambda>(j, h). upd j h) xs s)"
proof (cases "bit em i")
  case False
  then show ?thesis using rest [OF _ xs(2,3) room Q] xs(1) sd_items_step [OF i] by (simp add: walk_body_def)
next
  case True
  let ?ys = "sd_items (bit em) hs (i + 1)" and ?h = "hs i" and ?nf = "se_info stat"
  have x: "xs = (i, ?h) # ?ys" using xs(1) sd_items_step [OF i] True by simp
  have gd: "i \<in> ids" "g i ?nf ?h" "sd_good ids g a (a i ?nf ?h) ?ys" using xs(2) by (simp_all add: x)
  obtain p where p: "T i = Some p" "sx_id p = i" "sd_ext p (g i) (b i) (a i)" using ext_law [OF gd(1)] by blast
  let ?st = "stat\<lparr>se_plug := i\<rparr>"
  have at: "ext_at stat (b i ?nf ?h)" "ext_at (stat\<lparr>se_offset := se_offset stat + length (b i ?nf ?h)\<rparr>) (sd_bytes b a (a i ?nf ?h) ?ys)"
    using xs(3) by (simp_all add: x ext_at_append)
  have len: "se_offset stat + length (b i ?nf ?h) + length (sd_bytes b a (a i ?nf ?h) ?ys) \<le> pl_len (se_place stat)"
    using room(1) by (simp add: x)
  have c: "f (Some p) ?st (unat em) s = (0, se_place stat, upd i ?h s)" "Q (upd i ?h s)"
    using cb [of ?st ?h s "unat em"] gd at len Q by (simp_all add: p(1))
  have inf: "sdext_info p ?st = Some (a i ?nf ?h)" using sd_ext.ext_info [OF p(3), of ?st ?h] gd at p(2) by simp
  let ?st' = "?st\<lparr>se_info := a i ?nf ?h\<rparr>"
  have "sx_length p (Some ?st') None = length (b i ?nf ?h)"
    using sd_ext.ext_body_length [OF p(3) gd(2), of ?st'] at by simp
  then have nx: "stat_next p ?st' = ?st'\<lparr>se_offset := se_offset stat + length (b i ?nf ?h)\<rparr>"
    using len room(2) by (simp add: stat_next_def wrap_simps)
  have "stat40_walk T f (i + 1) n em 1 (stat_next p ?st') (upd i ?h s) =
      Some (0, se_place (stat_next p ?st'), fold (\<lambda>(j, h). upd j h) ?ys (upd i ?h s))"
    using gd at len room(2) c(2) by (intro rest refl) (simp_all add: nx ext_at_def stat_body_def se_mem_def)
  then show ?thesis using True c(1) inf by (simp add: walk_body_def p(1) x nx Let_def)
qed

lemma walk_items:
  assumes cb: "\<And>stat j h e s. j \<in> ids \<Longrightarrow> g j (se_info stat) h \<Longrightarrow> ext_at stat (b j (se_info stat) h) \<Longrightarrow> se_plug stat = j \<Longrightarrow>
      se_offset stat + length (b j (se_info stat) h) \<le> pl_len (se_place stat) \<Longrightarrow> Q s \<Longrightarrow>
      f (T j) stat e s = (0, se_place stat, upd j h s) \<and> Q (upd j h s)"
    and em: "\<not> bit em 15"
  shows "0 < i \<Longrightarrow> i \<le> 15 \<Longrightarrow> 16 \<le> n + i \<Longrightarrow> xs = sd_items (bit em) hs i \<Longrightarrow> sd_good ids g a (se_info stat) xs \<Longrightarrow>
    ext_at stat (sd_bytes b a (se_info stat) xs) \<Longrightarrow> se_offset stat + length (sd_bytes b a (se_info stat) xs) \<le> pl_len (se_place stat) \<Longrightarrow>
    pl_len (se_place stat) < 2 ^ 32 \<Longrightarrow> Q s \<Longrightarrow> stat40_walk T f i n em 1 stat s = Some (0, se_place stat, fold (\<lambda>(j, h). upd j h) xs s)"
proof (induction n arbitrary: i stat s xs)
  case (Suc n)
  show ?case
  proof (cases "i = 15")
    case True
    have "xs = []" using Suc.prems(4) True by simp
    then show ?thesis using walk_end [OF em, of T f n 1 stat s] True by simp
  next
    case False
    then have i: "i < 15" using Suc.prems(2) by simp
    have "walk_body T f i n em 1 stat s = Some (0, se_place stat, fold (\<lambda>(j, h). upd j h) xs s)"
    proof (rule body_step [where Q = Q, OF _ Suc.prems(9) i Suc.prems(4-8)])
      show "stat40_walk T f (i + 1) n em 1 st t = Some (0, se_place st, fold (\<lambda>(j, h). upd j h) ys t)"
        if "ys = sd_items (bit em) hs (i + 1)" "sd_good ids g a (se_info st) ys" "ext_at st (sd_bytes b a (se_info st) ys)"
          "se_offset st + length (sd_bytes b a (se_info st) ys) \<le> pl_len (se_place st)" "pl_len (se_place st) < 2 ^ 32" "Q t" for st t ys
        using Suc.prems(3) i by (intro Suc.IH that) simp_all
    qed (rule cb)
    then show ?thesis unfolding walk_inner [OF Suc.prems(1) i] .
  qed
qed simp

text \<open>The whole item: the mask and the extensions behind it.\<close>

definition sd_holds :: "place \<Rightarrow> u16 \<Rightarrow> (nat \<Rightarrow> sd_hint) \<Rightarrow> bool" where
  "sd_holds p em hs \<longleftrightarrow> (let xs = sd_items (bit em) hs 0; nf = \<lparr>si_mode = 0, si_digest = NULL_REF\<rparr> in
     \<not> bit em 15 \<and> sd_good ids g a nf xs \<and>
     mread (place_mem p) (pl_body p) (2 + length (sd_bytes b a nf xs)) = le_bytes 2 (unat em) @ sd_bytes b a nf xs \<and>
     2 + length (sd_bytes b a nf xs) \<le> pl_len p \<and> pl_len p < 65536)"

lemma traverse_items:
  assumes cb: "\<And>stat j h e s. j \<in> ids \<Longrightarrow> g j (se_info stat) h \<Longrightarrow> ext_at stat (b j (se_info stat) h) \<Longrightarrow> se_plug stat = j \<Longrightarrow>
      se_offset stat + length (b j (se_info stat) h) \<le> pl_len (se_place stat) \<Longrightarrow> Q s \<Longrightarrow>
      f (T j) stat e s = (0, se_place stat, upd j h s) \<and> Q (upd j h s)"
    and cb0: "\<And>stat. f None stat (unat em) s = (0, se_place stat, s0)" "Q s0" and holds: "sd_holds p em hs"
  shows "stat40_traverse T p f s = Some (0, p, fold (\<lambda>(j, h). upd j h) (sd_items (bit em) hs 0) s0)"
proof -
  let ?nf = "\<lparr>si_mode = 0, si_digest = NULL_REF\<rparr>" and ?xs = "sd_items (bit em) hs 0" and ?st = "stat_entity0 p"
  let ?bs = "sd_bytes b a ?nf ?xs"
  note h = holds [unfolded sd_holds_def Let_def]
  have at: "ext_at ?st (le_bytes 2 (unat em) @ ?bs)"
    using h by (simp add: ext_at_def stat_entity0_def stat_body_def se_mem_def)
  have u: "unat em < 65536" using unsigned_less [of em] by simp
  have mk: "st40_get_extmask (se_mem ?st) (stat_body ?st) = em"
    using at u by (simp add: ext_at_append) (simp add: ext_at_def st40_get_extmask_def get_le_def)
  have ue: "uint em = int (unat em)" by simp
  have e0: "to_u64 (to_s32 (uint em)) = unat em" unfolding ue by (rule wrap_id [OF u])
  let ?st1 = "?st\<lparr>se_place := p, se_offset := 2\<rparr>"
  have "stat40_walk T f 0 (Suc 63) 0 0 ?st s = walk_body T f 0 63 em 1 ?st1 s0"
    using walk_first [where T = T and f = f and stat = ?st and s = s and n = 63 and em = 0, unfolded mk e0, OF cb0(1)]
    by (simp add: stat_entity0_def wrap_simps)
  also have "\<dots> = Some (0, se_place ?st1, fold (\<lambda>(j, h). upd j h) ?xs s0)"
  proof (rule body_step [where Q = Q])
    show "sd_good ids g a (se_info ?st1) ?xs" using h by (simp add: stat_entity0_def)
    have o2: "se_offset ?st + length (le_bytes 2 (unat em)) = 2" by (simp add: stat_entity0_def)
    have "ext_at (?st\<lparr>se_offset := 2\<rparr>) ?bs" using at unfolding ext_at_append o2 by (rule conjunct2)
    then show "ext_at ?st1 (sd_bytes b a (se_info ?st1) ?xs)" by (simp add: stat_entity0_def)
    show "se_offset ?st1 + length (sd_bytes b a (se_info ?st1) ?xs) \<le> pl_len (se_place ?st1)" "pl_len (se_place ?st1) < 2 ^ 32"
      using h by (simp_all add: stat_entity0_def)
    show "stat40_walk T f (0 + 1) 63 em 1 st t = Some (0, se_place st, fold (\<lambda>(j, h). upd j h) ys t)"
      if "ys = sd_items (bit em) hs (0 + 1)" "sd_good ids g a (se_info st) ys" "ext_at st (sd_bytes b a (se_info st) ys)"
        "se_offset st + length (sd_bytes b a (se_info st) ys) \<le> pl_len (se_place st)" "pl_len (se_place st) < 2 ^ 32" "Q t" for st t ys
      by (rule walk_items [where hs = hs and f = f and upd = upd and Q = Q]) (use h that cb in simp_all)
  qed (use cb cb0(2) in simp_all)
  finally show ?thesis by (simp add: stat40_traverse_def)
qed

section \<open>Insertion\<close>

lemma put_step:
  assumes i: "i < 15" and xs: "xs = sd_items (bit em) hs i" "sd_good ids g a (se_info stat) xs"
    and hint: "\<And>j. bit em j \<Longrightarrow> st_ext st ! j = Some (hs j)"
    and room: "se_offset stat + length (sd_bytes b a (se_info stat) xs) \<le> pl_len (se_place stat)" "pl_len (se_place stat) < 2 ^ 32"
    and rest: "\<And>stat xs. xs = sd_items (bit em) hs (i + 1) \<Longrightarrow> sd_good ids g a (se_info stat) xs \<Longrightarrow>
      se_offset stat + length (sd_bytes b a (se_info stat) xs) \<le> pl_len (se_place stat) \<Longrightarrow> pl_len (se_place stat) < 2 ^ 32 \<Longrightarrow>
      \<exists>m'. stat40_put T st True (i + 1) n em 1 stat = Some (0, place_put (se_place stat) m') \<and>
        mread m' (stat_body stat) (length (sd_bytes b a (se_info stat) xs)) = sd_bytes b a (se_info stat) xs \<and>
        (\<forall>c. c < stat_body stat \<or> pl_body (se_place stat) + int (pl_len (se_place stat)) \<le> c \<longrightarrow> m' c = se_mem stat c)"
  shows "\<exists>m'. put_body T st True i n em stat = Some (0, place_put (se_place stat) m') \<and>
        mread m' (stat_body stat) (length (sd_bytes b a (se_info stat) xs)) = sd_bytes b a (se_info stat) xs \<and>
        (\<forall>c. c < stat_body stat \<or> pl_body (se_place stat) + int (pl_len (se_place stat)) \<le> c \<longrightarrow> m' c = se_mem stat c)"
proof (cases "bit em i")
  case False
  then show ?thesis using rest [OF _ xs(2) room] xs(1) sd_items_step [OF i] by (simp add: put_body_def del: One_nat_def)
next
  case True
  let ?ys = "sd_items (bit em) hs (i + 1)" and ?h = "hs i" and ?nf = "se_info stat" and ?p = "se_place stat"
  let ?bs = "b i ?nf ?h" and ?B = "stat_body stat" and ?E = "pl_body ?p + int (pl_len ?p)"
  have x: "xs = (i, ?h) # ?ys" using xs(1) sd_items_step [OF i] True by simp
  have gd: "i \<in> ids" "g i ?nf ?h" "sd_good ids g a (a i ?nf ?h) ?ys" using xs(2) by (simp_all add: x)
  obtain q where q: "T i = Some q" "sx_id q = i" "sd_ext q (g i) (b i) (a i)" using ext_law [OF gd(1)] by blast
  have len: "se_offset stat + length ?bs + length (sd_bytes b a (a i ?nf ?h) ?ys) \<le> pl_len ?p" using room(1) by (simp add: x)
  define m1 where "m1 = memmove (place_mem ?p) (?B + int (length ?bs)) ?B (to_u32 (int (pl_len ?p) - (int (se_offset stat) + int (length ?bs))))"
  have ml: "to_u32 (int (pl_len ?p) - (int (se_offset stat) + int (length ?bs))) = pl_len ?p - (se_offset stat + length ?bs)"
    using len room(2) by (subst to_u32_id) auto
  have m1: "c < ?B \<or> ?E \<le> c \<Longrightarrow> m1 c = se_mem stat c" for c
    unfolding m1_def ml se_mem_def using len by (intro memmove_outside) (auto simp: stat_body_def of_nat_diff)
  let ?st1 = "stat\<lparr>se_plug := i, se_place := place_put ?p m1\<rparr>"
  have "g i (se_info ?st1) ?h" using gd(2) by simp
  from sd_ext.ext_init [OF q(3) this] obtain m2 where m2: "sx_init q ?st1 ?h = (0, place_put ?p m2)"
      "mread m2 ?B (length ?bs) = ?bs" "\<forall>c. c < ?B \<or> ?B + int (length ?bs) \<le> c \<longrightarrow> m2 c = m1 c"
    by (auto simp: place_put_def stat_body_def se_mem_def place_mem_def)
  let ?st2 = "stat\<lparr>se_plug := i, se_place := place_put ?p m2\<rparr>"
  have at: "ext_at ?st2 ?bs" using m2(2) by (simp add: ext_at_def stat_body_def se_mem_def)
  have inf: "sdext_info q ?st2 = Some (a i ?nf ?h)" using sd_ext.ext_info [OF q(3), of ?st2 ?h] gd at q(2) by simp
  let ?st3 = "?st2\<lparr>se_info := a i ?nf ?h\<rparr>"
  have "sx_length q (Some ?st3) None = length ?bs"
    using sd_ext.ext_body_length [OF q(3) gd(2), of ?st3] at by simp
  then have nx: "stat_next q ?st3 = ?st3\<lparr>se_offset := se_offset stat + length ?bs\<rparr>"
    using len room(2) by (simp add: stat_next_def wrap_simps)
  let ?st4 = "?st3\<lparr>se_offset := se_offset stat + length ?bs\<rparr>"
  have "sd_good ids g a (se_info ?st4) ?ys" "se_offset ?st4 + length (sd_bytes b a (se_info ?st4) ?ys) \<le> pl_len (se_place ?st4)"
    "pl_len (se_place ?st4) < 2 ^ 32" using gd(3) len room(2) by simp_all
  from rest [OF refl this] obtain m3 where m3: "stat40_put T st True (i + 1) n em 1 ?st4 = Some (0, place_put ?p m3)"
      "mread m3 (?B + int (length ?bs)) (length (sd_bytes b a (a i ?nf ?h) ?ys)) = sd_bytes b a (a i ?nf ?h) ?ys"
      "\<forall>c. c < ?B + int (length ?bs) \<or> ?E \<le> c \<longrightarrow> m3 c = m2 c"
    by (auto simp: place_put_def stat_body_def se_mem_def place_mem_def add.assoc)
  have "mread m3 ?B (length ?bs) = mread m2 ?B (length ?bs)" using m3(3) by (intro nth_equalityI) auto
  then have "mread m3 ?B (length (sd_bytes b a ?nf xs)) = sd_bytes b a ?nf xs"
    using m2(2) m3(2) by (simp add: x mread_split)
  moreover have "\<forall>c. c < ?B \<or> ?E \<le> c \<longrightarrow> m3 c = se_mem stat c"
    using m1 m2(3) m3(3) len by (auto simp: stat_body_def)
  moreover have "put_body T st True i n em stat = stat40_put T st True (i + 1) n em 1 ?st4"
    using True hint [OF True] m2(1) inf nx sd_ext.ext_hint_length [OF q(3) gd(2)]
    by (simp add: put_body_def q(1) Let_def m1_def stat_body_def del: One_nat_def)
  ultimately show ?thesis using m3(1) by auto
qed

lemma put_items:
  assumes em: "\<not> bit em 15" and hint: "\<And>j. bit em j \<Longrightarrow> st_ext st ! j = Some (hs j)"
  shows "0 < i \<Longrightarrow> i \<le> 15 \<Longrightarrow> 16 \<le> n + i \<Longrightarrow> xs = sd_items (bit em) hs i \<Longrightarrow> sd_good ids g a (se_info stat) xs \<Longrightarrow>
    se_offset stat + length (sd_bytes b a (se_info stat) xs) \<le> pl_len (se_place stat) \<Longrightarrow> pl_len (se_place stat) < 2 ^ 32 \<Longrightarrow>
    \<exists>m'. stat40_put T st True i n em 1 stat = Some (0, place_put (se_place stat) m') \<and>
      mread m' (stat_body stat) (length (sd_bytes b a (se_info stat) xs)) = sd_bytes b a (se_info stat) xs \<and>
      (\<forall>c. c < stat_body stat \<or> pl_body (se_place stat) + int (pl_len (se_place stat)) \<le> c \<longrightarrow> m' c = se_mem stat c)"
proof (induction n arbitrary: i stat xs)
  case (Suc n)
  show ?case
  proof (cases "i = 15")
    case True
    have "xs = []" using Suc.prems(4) True by simp
    then show ?thesis unfolding True put_end [OF em]
      by (intro exI [of _ "se_mem stat"]) (simp add: se_mem_def place_put_twice)
  next
    case False
    then have i: "i < 15" using Suc.prems(2) by simp
    show ?thesis unfolding put_inner [OF Suc.prems(1) i]
    proof (rule put_step [OF i Suc.prems(4,5) hint Suc.prems(6,7)])
      fix stat :: stat_entity and ys
      assume p: "ys = sd_items (bit em) hs (i + 1)" "sd_good ids g a (se_info stat) ys"
        "se_offset stat + length (sd_bytes b a (se_info stat) ys) \<le> pl_len (se_place stat)" "pl_len (se_place stat) < 2 ^ 32"
      have "0 < i + 1" "i + 1 \<le> 15" "16 \<le> n + (i + 1)" using Suc.prems(3) i by simp_all
      from Suc.IH [OF this p] show "\<exists>m'. stat40_put T st True (i + 1) n em 1 stat = Some (0, place_put (se_place stat) m') \<and>
        mread m' (stat_body stat) (length (sd_bytes b a (se_info stat) ys)) = sd_bytes b a (se_info stat) ys \<and>
        (\<forall>c. c < stat_body stat \<or> pl_body (se_place stat) + int (pl_len (se_place stat)) \<le> c \<longrightarrow> m' c = se_mem stat c)" .
    qed
  qed
qed simp

end

end
