(* ===== verification/StatInsert.thy ===== *)
theory StatInsert
  imports StatUnits
begin

text \<open>
  Stat data as a whole: what an insertion writes is what is estimated, is read back by the traversal and the fetch, and
  passes the check.
\<close>

unbundle bit_operations_syntax

lemma bit_mask16: "j < 16 \<Longrightarrow> bit (ucast (msk :: u64) :: u16) j = bit msk j"
  by (simp add: bit_simps)

lemma sd_items_ucast: "sd_items (bit (ucast (msk :: u64) :: u16)) hs i = sd_items (bit msk) hs i"
  unfolding sd_items_def by (rule arg_cong [where f = "map _"], rule filter_cong) (auto simp: bit_mask16)

lemma read_set_extmask: "mread (st40_set_extmask m p em) p 2 = le_bytes 2 (unat em)"
proof -
  have "uint em mod 256 ^ 2 = uint em" using uint_lt2p [of em] by simp
  then show ?thesis unfolding st40_set_extmask_def set_le_def by (simp add: mread_same del: unsigned_of_int)
qed

context stat_exts
begin

lemma ids_bound: "j \<in> ids \<Longrightarrow> j < 9"
  using ids_less .

lemma hint_length:
  assumes "j \<in> ids" "g j nf h"
  shows "sx_length (the (T j)) None (Some h) = length (b j nf h)"
proof -
  obtain p where p: "T j = Some p" "sd_ext p (g j) (b j) (a j)" using ext_law [OF assms(1)] by blast
  then show ?thesis using sd_ext.ext_hint_length [OF p(2) assms(2)] by simp
qed

lemma items_ids: "sd_good ids g a nf xs \<Longrightarrow> x \<in> set xs \<Longrightarrow> fst x \<in> ids"
  by (induction xs arbitrary: nf) auto

section \<open>Estimation\<close>

lemma estimate_above:
  assumes "\<And>j. bit (st_extmask st) j \<Longrightarrow> j < 15"
  shows "15 \<le> i \<Longrightarrow> stat40_estimate T st i n len = (0, len)"
  using assms by (induction n arbitrary: i) force+

lemma estimate_items:
  assumes msk: "\<And>j. bit (st_extmask st) j \<Longrightarrow> j \<in> ids" and hint: "\<And>j. bit (st_extmask st) j \<Longrightarrow> st_ext st ! j = Some (hs j)"
  shows "i \<le> 15 \<Longrightarrow> 15 \<le> n + i \<Longrightarrow> xs = sd_items (bit (st_extmask st)) hs i \<Longrightarrow> sd_good ids g a nf xs \<Longrightarrow>
    k + length (sd_bytes b a nf xs) < 65536 \<Longrightarrow> stat40_estimate T st i n (int k) = (0, int (k + length (sd_bytes b a nf xs)))"
proof (induction n arbitrary: i k nf xs)
  case 0
  then show ?case by simp
next
  case (Suc n)
  have b15: "j < 15" if "bit (st_extmask st) j" for j using ids_bound [OF msk [OF that]] by simp
  show ?case
  proof (cases "i = 15")
    case True
    then show ?thesis using estimate_above [of st 15 "Suc n" "int k", OF b15] Suc.prems(3) by simp
  next
    case False
    then have i: "i < 15" using Suc.prems(1) by simp
    let ?ys = "sd_items (bit (st_extmask st)) hs (i + 1)"
    show ?thesis
    proof (cases "bit (st_extmask st) i")
      case f: False
      then show ?thesis using Suc.IH [of "i + 1" xs nf k] Suc.prems i sd_items_step [OF i] by simp
    next
      case t: True
      have x: "xs = (i, hs i) # ?ys" using Suc.prems(3) sd_items_step [OF i] t by simp
      have gd: "i \<in> ids" "g i nf (hs i)" "sd_good ids g a (a i nf (hs i)) ?ys" using Suc.prems(4) by (simp_all add: x)
      obtain p where p: "T i = Some p" using ext_law [OF gd(1)] by blast
      have l: "sx_length p None (Some (hs i)) = length (b i nf (hs i))" using hint_length [OF gd(1,2)] p by simp
      have m: "(i + 1) mod 16 \<noteq> 0" using i by simp
      have w: "to_s32 (int k + int (length (b i nf (hs i)))) = int (k + length (b i nf (hs i)))"
        using Suc.prems(5) by (simp add: x to_s32_id)
      have "stat40_estimate T st i (Suc n) (int k) = stat40_estimate T st (i + 1) n (int (k + length (b i nf (hs i))))"
        using t m p l hint [OF t] w by simp
      also have "\<dots> = (0, int (k + length (b i nf (hs i)) + length (sd_bytes b a (a i nf (hs i)) ?ys)))"
        using Suc.prems(2,5) i by (intro Suc.IH gd(3)) (simp_all add: x)
      finally show ?thesis by (simp add: x)
    qed
  qed
qed

lemma holds_mkdirty: "sd_holds (place_mkdirty p) em hs = sd_holds p em hs"
  by (simp add: sd_holds_def)

section \<open>Insertion of a new item\<close>

abbreviation (input) info0 :: stat_info where "info0 \<equiv> \<lparr>si_mode = 0, si_digest = NULL_REF\<rparr>"

lemma insert_items:
  fixes place :: place and hint :: "'d trans_hint" and hs :: "nat \<Rightarrow> sd_hint"
  defines "st \<equiv> sp_stat (th_specific hint)"
  defines "xs \<equiv> sd_items (bit (st_extmask st)) hs 0"
  assumes msk: "\<And>j. bit (st_extmask st) j \<Longrightarrow> j \<in> ids" "st_extmask st \<noteq> 0"
    and hint: "\<And>j. bit (st_extmask st) j \<Longrightarrow> st_ext st ! j = Some (hs j)" and good: "sd_good ids g a info0 xs"
    and new: "unit (pl_pos place) = MAX_UINT32" and room: "2 + length (sd_bytes b a info0 xs) \<le> pl_len place" "pl_len place < 65536"
  shows "\<exists>m'. stat40_insert_units T place hint = Some (1, place_mkdirty (place_put place m')) \<and>
    sd_holds (place_put place m') (ucast (st_extmask st)) hs \<and>
    (\<forall>c. c < pl_body place \<or> pl_body place + int (pl_len place) \<le> c \<longrightarrow> m' c = place_mem place c)"
proof -
  let ?em = "ucast (st_extmask st) :: u16" and ?B = "pl_body place" and ?bs = "sd_bytes b a info0 xs"
  let ?p0 = "place_put place (st40_set_extmask (place_mem place) ?B 0)"
  let ?s0 = "stat_entity0 ?p0"
  have b15: "\<not> bit (st_extmask st) 15" using ids_bound [OF msk(1), of 15] by auto
  have em15: "\<not> bit ?em 15" using b15 by (simp add: bit_mask16)
  have xs: "xs = sd_items (bit ?em) hs 0" unfolding xs_def sd_items_ucast ..
  have hint': "st_ext st ! j = Some (hs j)" if "bit ?em j" for j
    using that by (intro hint) (auto simp: bit_simps)
  have s0: "stat_body ?s0 = ?B" "se_mem ?s0 = st40_set_extmask (place_mem place) ?B 0" "se_offset ?s0 = 0" "se_info ?s0 = info0"
    "se_place ?s0 = ?p0" by (simp_all add: stat_body_def se_mem_def stat_entity0_def)
  have em: "?em = st40_get_extmask (se_mem ?s0) (stat_body ?s0) OR ucast (st_extmask st)"
    unfolding s0 by (simp add: st40_get_extmask_def st40_set_extmask_def get_le_def set_le_def mread_same)
  let ?m1 = "st40_set_extmask (se_mem ?s0) (stat_body ?s0) ?em"
  let ?s1 = "?s0\<lparr>se_place := place_put ?p0 ?m1, se_offset := 2\<rparr>"
  have s1: "stat_body ?s1 = ?B + 2" "se_mem ?s1 = ?m1" "se_place ?s1 = place_put place ?m1"
    using s0 by (simp_all add: stat_body_def place_put_twice)
  have put0: "stat40_put T st True 0 (Suc 63) 0 0 ?s0 = put_body T st True 0 63 ?em ?s1"
    using put_first [OF em, of T 63 0] unfolding s0 by (simp add: to_u32_id)
  have good1: "sd_good ids g a (se_info ?s1) xs" and room1: "se_offset ?s1 + length (sd_bytes b a (se_info ?s1) xs) \<le> pl_len (se_place ?s1)"
    "pl_len (se_place ?s1) < 2 ^ 32" using good room by (simp_all add: s0)
  have "\<exists>m'. put_body T st True 0 63 ?em ?s1 = Some (0, place_put (se_place ?s1) m') \<and>
      mread m' (stat_body ?s1) (length (sd_bytes b a (se_info ?s1) xs)) = sd_bytes b a (se_info ?s1) xs \<and>
      (\<forall>c. c < stat_body ?s1 \<or> pl_body (se_place ?s1) + int (pl_len (se_place ?s1)) \<le> c \<longrightarrow> m' c = se_mem ?s1 c)"
  proof (rule put_step [OF _ xs good1 _ room1])
    fix stat :: stat_entity and ys
    assume "ys = sd_items (bit ?em) hs (0 + 1)" "sd_good ids g a (se_info stat) ys"
      "se_offset stat + length (sd_bytes b a (se_info stat) ys) \<le> pl_len (se_place stat)" "pl_len (se_place stat) < 2 ^ 32"
    then show "\<exists>m'. stat40_put T st True (0 + 1) 63 ?em 1 stat = Some (0, place_put (se_place stat) m') \<and>
      mread m' (stat_body stat) (length (sd_bytes b a (se_info stat) ys)) = sd_bytes b a (se_info stat) ys \<and>
      (\<forall>c. c < stat_body stat \<or> pl_body (se_place stat) + int (pl_len (se_place stat)) \<le> c \<longrightarrow> m' c = se_mem stat c)"
      by (intro put_items [OF em15 hint']) simp_all
  qed (simp_all add: hint')
  then obtain m' where m': "put_body T st True 0 63 ?em ?s1 = Some (0, place_put place m')"
      "mread m' (?B + 2) (length ?bs) = ?bs" "\<forall>c. c < ?B + 2 \<or> ?B + int (pl_len place) \<le> c \<longrightarrow> m' c = ?m1 c"
    unfolding s1 by (auto simp: s0 place_put_twice)
  have "mread m' ?B 2 = mread ?m1 ?B 2" using m'(3) by (intro nth_equalityI) auto
  also have "\<dots> = le_bytes 2 (unat ?em)"
    unfolding s0(1) by (rule read_set_extmask)
  finally have "mread m' ?B (2 + length ?bs) = le_bytes 2 (unat ?em) @ ?bs" unfolding mread_split using m'(2) by simp
  then have "sd_holds (place_put place m') ?em hs"
    using em15 good room unfolding sd_holds_def xs [symmetric] by (simp add: Let_def)
  moreover have "stat40_insert_units T place hint = Some (1, place_mkdirty (place_put place m'))"
    using put0 m'(1) new msk(2) by (simp add: stat40_insert_units_def stat40_modify_def st_def Let_def)
  moreover have "\<forall>c. c < ?B \<or> ?B + int (pl_len place) \<le> c \<longrightarrow> m' c = place_mem place c"
    using m'(3) room unfolding s0 by (auto simp: st40_set_extmask_def set_le_outside)
  ultimately show ?thesis by blast
qed

end

end
