(* ===== verification/StatFetch.thy ===== *)
theory StatFetch
  imports StatInsert
begin

text \<open>Reading and checking what an item holds, and the properties of the item plugin over the registered extensions.\<close>

unbundle bit_operations_syntax

text \<open>What opening an extension does to the hint.\<close>

definition sd_opened :: "nat \<Rightarrow> sd_hint \<Rightarrow> stat_hint \<Rightarrow> stat_hint" where
  "sd_opened j h s = \<lparr>st_extmask = st_extmask s OR push_bit j 1,
     st_ext = (if st_ext s ! j = None then st_ext s else (st_ext s)[j := Some h])\<rparr>"

lemma fold_opened:
  assumes s: "length (st_ext s) = SDEXT_LAST_ID" and js: "\<forall>j\<in>set js. j < SDEXT_LAST_ID"
  shows "fold (\<lambda>(j, h). sd_opened j h) (List.map (\<lambda>j. (j, hs j)) js) s =
    \<lparr>st_extmask = fold (\<lambda>j e. e OR push_bit j 1) js (st_extmask s),
     st_ext = List.map (\<lambda>j. if j \<in> set js \<and> st_ext s ! j \<noteq> None then Some (hs j) else st_ext s ! j) [0..<SDEXT_LAST_ID]\<rparr>"
  using assms
proof (induction js arbitrary: s)
  case Nil
  have "st_ext s = List.map (\<lambda>j. st_ext s ! j) [0..<SDEXT_LAST_ID]" using Nil(1) by (intro nth_equalityI) simp_all
  then show ?case by simp
next
  case (Cons j js)
  have l: "length (st_ext (sd_opened j (hs j) s)) = SDEXT_LAST_ID" using Cons.prems(1) by (simp add: sd_opened_def)
  have e: "st_ext (sd_opened j (hs j) s) ! k = (if k = j \<and> st_ext s ! k \<noteq> None then Some (hs k) else st_ext s ! k)" if "k < SDEXT_LAST_ID" for k
    using that Cons.prems by (auto simp: sd_opened_def nth_list_update)
  have "fold (\<lambda>(j, h). sd_opened j h) (List.map (\<lambda>j. (j, hs j)) (j # js)) s =
      fold (\<lambda>(j, h). sd_opened j h) (List.map (\<lambda>j. (j, hs j)) js) (sd_opened j (hs j) s)" by simp
  also have "\<dots> = \<lparr>st_extmask = fold (\<lambda>j e. e OR push_bit j 1) js (st_extmask (sd_opened j (hs j) s)),
     st_ext = List.map (\<lambda>k. if k \<in> set js \<and> st_ext (sd_opened j (hs j) s) ! k \<noteq> None then Some (hs k)
       else st_ext (sd_opened j (hs j) s) ! k) [0..<SDEXT_LAST_ID]\<rparr>"
    using Cons.prems by (intro Cons.IH l) simp
  also have "List.map (\<lambda>k. if k \<in> set js \<and> st_ext (sd_opened j (hs j) s) ! k \<noteq> None then Some (hs k)
       else st_ext (sd_opened j (hs j) s) ! k) [0..<SDEXT_LAST_ID] =
     List.map (\<lambda>k. if k \<in> set (j # js) \<and> st_ext s ! k \<noteq> None then Some (hs k) else st_ext s ! k) [0..<SDEXT_LAST_ID]"
    by (rule list.map_cong0) (auto simp: e)
  finally show ?case by (simp add: sd_opened_def)
qed

lemma fold_mask: "bit (fold (\<lambda>j (e :: u64). e OR push_bit j 1) js e) k = (bit e k \<or> (k \<in> set js \<and> k < 64))"
  by (induction js arbitrary: e) (auto simp: bit_simps)

lemma check_none: "cb_check_ext None stat e s =
    (0, se_place stat, s\<lparr>rs_extmask := rs_extmask s OR word_of_nat e, rs_len := to_u64 (int (rs_len s) + 2)\<rparr>)"
  by (simp add: cb_check_ext_def)

lemma cb_open_none: "cb_open_ext None stat e s = (0, se_place stat, s)"
  by (simp add: cb_open_ext_def)

context stat_exts
begin

lemma open_step:
  assumes "j \<in> ids" "g j (se_info stat) h" "ext_at stat (b j (se_info stat) h)" "se_plug stat = j"
  shows "cb_open_ext (T j) stat e s = (0, se_place stat, sd_opened j h s)"
proof -
  obtain x where x: "T j = Some x" "sx_id x = j" "sd_ext x (g j) (b j) (a j)" using ext_law [OF assms(1)] by blast
  obtain op where op: "sx_open x = Some op" using sd_ext.ext_open [OF x(3) assms(2,3)] assms(4) x(2) by auto
  have "op stat h0 = (0, h)" for h0 using sd_ext.ext_open [OF x(3) assms(2,3), of h0] assms(4) x(2) op by simp
  then show ?thesis by (cases "st_ext s ! j") (simp_all add: cb_open_ext_def x(1,2) op sd_opened_def Let_def)
qed

lemma open_items:
  assumes holds: "sd_holds p em hs" and s: "length (st_ext s) = SDEXT_LAST_ID"
  shows "stat40_traverse T p cb_open_ext s = Some (0, p,
    \<lparr>st_extmask = st_extmask s OR ucast em,
     st_ext = List.map (\<lambda>j. if bit em j \<and> st_ext s ! j \<noteq> None then Some (hs j) else st_ext s ! j) [0..<SDEXT_LAST_ID]\<rparr>)"
proof -
  let ?js = "List.filter (bit em) [0..<15]"
  have "stat40_traverse T p cb_open_ext s = Some (0, p, fold (\<lambda>(j, h). sd_opened j h) (sd_items (bit em) hs 0) s)"
    by (rule traverse_items [OF _ _ _ holds, where Q = "\<lambda>_. True"]) (simp_all add: open_step cb_open_none)
  moreover have js: "\<forall>j\<in>set ?js. j < SDEXT_LAST_ID"
  proof
    fix j assume "j \<in> set ?js"
    then have "(j, hs j) \<in> set (sd_items (bit em) hs 0)" by (auto simp: sd_items_def)
    moreover have "sd_good ids g a info0 (sd_items (bit em) hs 0)" using holds by (simp add: sd_holds_def Let_def)
    ultimately have "j \<in> ids" using items_ids by fastforce
    then show "j < SDEXT_LAST_ID" by (rule ids_bound)
  qed
  moreover have b: "bit em j \<Longrightarrow> j < 15" for j
    using holds bit_imp_le_length [of em j] by (cases "j = 15") (auto simp: sd_holds_def Let_def)
  have "fold (\<lambda>j e. e OR push_bit j 1) ?js (st_extmask s) = st_extmask s OR ucast em"
  proof (rule bit_word_eqI)
    fix n assume "n < LENGTH(64)"
    then show "bit (fold (\<lambda>j e. e OR push_bit j 1) ?js (st_extmask s)) n = bit (st_extmask s OR ucast em) n"
      unfolding fold_mask using b by (auto simp: bit_simps)
  qed
  ultimately show ?thesis using fold_opened [OF s js, of hs] b by (auto simp: sd_items_def)
qed

text \<open>The check: every extension is sound, and the masks and the lengths add up.\<close>

definition sd_checked :: "nat \<Rightarrow> sd_hint \<Rightarrow> repair_stat_hint \<Rightarrow> repair_stat_hint" where
  "sd_checked j h s = s\<lparr>rs_goodmask := rs_goodmask s OR push_bit j 1,
     rs_len := to_u64 (int (rs_len s) + int (sx_length (the (T j)) None (Some h)))\<rparr>"

lemma check_ext_step:
  assumes "j \<in> ids" "g j (se_info stat) h" "ext_at stat (b j (se_info stat) h)" "se_plug stat = j"
    "se_offset stat + length (b j (se_info stat) h) \<le> pl_len (se_place stat)" "rh_len (rs_repair s) = 0"
  shows "cb_check_ext (T j) stat e s = (0, se_place stat, sd_checked j h s)"
proof -
  obtain x where x: "T j = Some x" "sx_id x = j" "sd_ext x (g j) (b j) (a j)" using ext_law [OF assms(1)] by blast
  obtain ck where ck: "sx_check_struct x = Some ck" using sd_ext.ext_check [OF x(3) assms(2,3) _ assms(5)] assms(4) x(2) by auto
  have c: "ck stat hint = (0, se_place stat, hint)" for hint
    using sd_ext.ext_check [OF x(3) assms(2,3) _ assms(5), of hint] assms(4) x(2) ck by simp
  have st: "stat\<lparr>se_place := se_place stat\<rparr> = stat" by simp
  have l: "sx_length x (Some stat) None = length (b j (se_info stat) h)" "sx_length x None (Some h) = length (b j (se_info stat) h)"
    using sd_ext.ext_body_length [OF x(3) assms(2,3)] sd_ext.ext_hint_length [OF x(3) assms(2)] by simp_all
  have d: "sx_id x div 16 = 0" using ids_bound [OF assms(1)] x(2) by simp
  show ?thesis
    unfolding cb_check_ext_def x(1) option.case d
    by (simp add: ck c st l x assms(6) sd_checked_def Let_def)
qed

lemma fold_checked:
  shows "sd_good ids g a nf xs \<Longrightarrow> rs_len s + length (sd_bytes b a nf xs) < 65536 \<Longrightarrow>
    fold (\<lambda>(j, h). sd_checked j h) xs s =
    s\<lparr>rs_goodmask := fold (\<lambda>j e. e OR push_bit j 1) (List.map fst xs) (rs_goodmask s), rs_len := rs_len s + length (sd_bytes b a nf xs)\<rparr>"
proof (induction xs arbitrary: nf s)
  case (Cons x xs)
  obtain j h where x: "x = (j, h)" by (cases x)
  have gd: "j \<in> ids" "g j nf h" "sd_good ids g a (a j nf h) xs" using Cons.prems by (simp_all add: x)
  have s1: "sd_checked j h s = s\<lparr>rs_goodmask := rs_goodmask s OR push_bit j 1, rs_len := rs_len s + length (b j nf h)\<rparr>"
    using Cons.prems(2) by (simp add: sd_checked_def hint_length [OF gd(1,2)] x wrap_simps)
  show ?case using Cons.IH [OF gd(3), of "sd_checked j h s"] Cons.prems(2) by (simp add: x s1)
qed simp

lemma check_items:
  assumes holds: "sd_holds p em hs" and len: "pl_len p = 2 + length (sd_bytes b a info0 (sd_items (bit em) hs 0))"
    and hint: "rh_len hint = 0"
  shows "stat40_check_struct T p hint = Some (0, p, hint)"
proof -
  let ?xs = "sd_items (bit em) hs 0"
  have h: "sd_good ids g a info0 ?xs" "\<not> bit em 15" "pl_len p < 65536" using holds by (auto simp: sd_holds_def Let_def)
  let ?s0 = "\<lparr>rs_repair = hint, rs_extmask = ucast em, rs_goodmask = 0, rs_len = 2\<rparr>"
  have "stat40_traverse T p cb_check_ext \<lparr>rs_repair = hint, rs_extmask = 0, rs_goodmask = 0, rs_len = 0\<rparr> =
      Some (0, p, fold (\<lambda>(j, h). sd_checked j h) ?xs ?s0)"
    by (rule traverse_items [OF _ _ _ holds, where Q = "\<lambda>s. rh_len (rs_repair s) = 0"])
      (simp_all add: check_ext_step check_none hint to_u64_def, simp add: sd_checked_def)
  moreover have "fold (\<lambda>(j, h). sd_checked j h) ?xs ?s0 =
      \<lparr>rs_repair = hint, rs_extmask = ucast em, rs_goodmask = fold (\<lambda>j e. e OR push_bit j 1) (List.filter (bit em) [0..<15]) 0, rs_len = pl_len p\<rparr>"
    using fold_checked [OF h(1), of ?s0] len h(3) by (simp add: sd_items_def comp_def)
  moreover have "fold (\<lambda>j e. e OR push_bit j 1) (List.filter (bit em) [0..<15]) 0 = (ucast em :: u64)"
  proof (rule bit_word_eqI)
    fix n assume "n < LENGTH(64)"
    then show "bit (fold (\<lambda>j (e :: u64). e OR push_bit j 1) (List.filter (bit em) [0..<15]) 0) n = bit (ucast em :: u64) n"
      unfolding fold_mask using h(2) bit_imp_le_length [of em n] by (cases "n = 15") (auto simp: bit_simps)
  qed
  ultimately show ?thesis using hint by (simp add: stat40_check_struct_def Let_def)
qed

end

end
