(* ===== verification/StatProps.thy ===== *)
theory StatProps
  imports StatFetch
begin

text \<open>
  The stat data plugin over the registered extensions: the interpretation of the contract, and the properties of
  insertion, fetching and of the default file plugin.
\<close>

unbundle bit_operations_syntax

section \<open>The registered extensions\<close>

definition stat_good :: "(nat \<Rightarrow> nat \<Rightarrow> bool \<Rightarrow> plug_ref option) \<Rightarrow> nat \<Rightarrow> stat_info \<Rightarrow> sd_hint \<Rightarrow> bool" where
  "stat_good F j = (if j = SDEXT_LW_ID then lw_good else if j = SDEXT_UNIX_ID then unix_good else if j = SDEXT_LT_ID then lt_good
     else if j = SDEXT_SYMLINK_ID then link_good else if j = SDEXT_PSET_ID then pset_good F True
     else if j = SDEXT_FLAGS_ID then flags_good else pset_good F False)"

definition stat_bytes :: "nat \<Rightarrow> stat_info \<Rightarrow> sd_hint \<Rightarrow> u8 list" where
  "stat_bytes j = (if j = SDEXT_LW_ID then lw_bytes else if j = SDEXT_UNIX_ID then unix_bytes else if j = SDEXT_LT_ID then lt_bytes
     else if j = SDEXT_SYMLINK_ID then link_bytes else if j = SDEXT_FLAGS_ID then flags_bytes else pset_bytes)"

definition stat_after :: "(nat \<Rightarrow> nat \<Rightarrow> bool \<Rightarrow> plug_ref option) \<Rightarrow> nat \<Rightarrow> stat_info \<Rightarrow> sd_hint \<Rightarrow> stat_info" where
  "stat_after F j = (if j = SDEXT_LW_ID then lw_after else if j = SDEXT_PSET_ID then pset_after F True
     else if j = SDEXT_HSET_ID then pset_after F False else (\<lambda>nf h. nf))"

abbreviation (input) STAT_EXTS :: "nat set" where
  "STAT_EXTS \<equiv> {SDEXT_LW_ID, SDEXT_UNIX_ID, SDEXT_LT_ID, SDEXT_SYMLINK_ID, SDEXT_PSET_ID, SDEXT_FLAGS_ID, SDEXT_HSET_ID}"

lemmas ext_contracts = lw_ext.sd_ext_axioms unix_ext.sd_ext_axioms lt_ext.sd_ext_axioms link_ext.sd_ext_axioms pset_ext.sd_ext_axioms
  flags_ext.sd_ext_axioms hset_ext.sd_ext_axioms

lemmas ext_ids = sdext_lw_plug_def sdext_unix_plug_def sdext_lt_plug_def sdext_symlink_plug_def sdext_pset_plug_def sdext_flags_plug_def
  sdext_hset_plug_def

interpretation reg: stat_exts "sdext_ifind F crypto" "stat_good F" stat_bytes "stat_after F" STAT_EXTS for F crypto
proof
  fix j :: nat assume "j \<in> STAT_EXTS"
  then show "j < SDEXT_LAST_ID" by auto
next
  fix j :: nat assume "j \<in> STAT_EXTS"
  then consider "j = 0" | "j = 1" | "j = 2" | "j = 3" | "j = 4" | "j = 5" | "j = 8" by auto
  then show "\<exists>x. sdext_ifind F crypto j = Some x \<and> sx_id x = j \<and> sd_ext x (stat_good F j) (stat_bytes j) (stat_after F j)"
    by cases (simp_all add: sdext_ifind_def stat_good_def stat_bytes_def stat_after_def ext_contracts ext_ids [symmetric], simp_all add: ext_ids)
qed

section \<open>Hints and items\<close>

definition stat_exts_of :: "stat_hint \<Rightarrow> (nat \<times> sd_hint) list" where
  "stat_exts_of st = sd_items (bit (st_extmask st)) (\<lambda>j. the (st_ext st ! j)) 0"

text \<open>A hint that describes an item: each extension of its mask is registered, has a hint of its kind, and fits its fields.\<close>

definition stat_hint_ok :: "(nat \<Rightarrow> nat \<Rightarrow> bool \<Rightarrow> plug_ref option) \<Rightarrow> stat_hint \<Rightarrow> bool" where
  "stat_hint_ok F st \<longleftrightarrow> st_extmask st \<noteq> 0 \<and> (\<forall>j. bit (st_extmask st) j \<longrightarrow> j \<in> STAT_EXTS \<and> st_ext st ! j \<noteq> None) \<and>
     sd_good STAT_EXTS (stat_good F) (stat_after F) \<lparr>si_mode = 0, si_digest = NULL_REF\<rparr> (stat_exts_of st)"

text \<open>The bytes of the item.\<close>

definition stat_image :: "(nat \<Rightarrow> nat \<Rightarrow> bool \<Rightarrow> plug_ref option) \<Rightarrow> stat_hint \<Rightarrow> u8 list" where
  "stat_image F st = le_bytes 2 (unat (ucast (st_extmask st) :: u16)) @
     sd_bytes stat_bytes (stat_after F) \<lparr>si_mode = 0, si_digest = NULL_REF\<rparr> (stat_exts_of st)"

lemma hint_ok_simps:
  assumes "stat_hint_ok F st"
  shows "st_extmask st \<noteq> 0" "bit (st_extmask st) j \<Longrightarrow> j \<in> STAT_EXTS" "bit (st_extmask st) j \<Longrightarrow> st_ext st ! j = Some (the (st_ext st ! j))"
    "sd_good STAT_EXTS (stat_good F) (stat_after F) \<lparr>si_mode = 0, si_digest = NULL_REF\<rparr> (sd_items (bit (st_extmask st)) (\<lambda>j. the (st_ext st ! j)) 0)"
    "bit (st_extmask st) j \<Longrightarrow> j < SDEXT_LAST_ID"
  using assms unfolding stat_hint_ok_def stat_exts_of_def by auto

lemma insert_ok:
  assumes st: "sp_stat (th_specific hint) = st" "stat_hint_ok F st" and new: "unit (pl_pos place) = MAX_UINT32"
    and len: "length (stat_image F st) \<le> pl_len place" "pl_len place < 65536"
  shows "\<exists>m'. stat40_insert_units (sdext_ifind F crypto) place hint = Some (1, place_mkdirty (place_put place m')) \<and>
    reg.sd_holds F (place_mkdirty (place_put place m')) (ucast (st_extmask st)) (\<lambda>j. the (st_ext st ! j)) \<and>
    (\<forall>c. c < pl_body place \<or> pl_body place + int (pl_len place) \<le> c \<longrightarrow> m' c = place_mem place c)"
proof -
  note ok = hint_ok_simps [OF st(2)]
  have "2 + length (sd_bytes stat_bytes (stat_after F) \<lparr>si_mode = 0, si_digest = NULL_REF\<rparr>
      (sd_items (bit (st_extmask st)) (\<lambda>j. the (st_ext st ! j)) 0)) \<le> pl_len place"
    using len(1) by (simp add: stat_image_def stat_exts_of_def)
  from reg.insert_items [where hint = hint and F = F and hs = "\<lambda>j. the (st_ext st ! j)" and place = place, unfolded st(1), OF ok(2,1,3,4) new this len(2)]
  show ?thesis unfolding reg.holds_mkdirty by blast
qed

lemma image_read:
  assumes "reg.sd_holds F p (ucast (st_extmask st)) (\<lambda>j. the (st_ext st ! j))"
  shows "mread (place_mem p) (pl_body p) (length (stat_image F st)) = stat_image F st"
  using assms unfolding reg.sd_holds_def Let_def stat_image_def stat_exts_of_def sd_items_ucast by simp

text \<open>C24. What is inserted is what was estimated.\<close>

theorem stat40_insert_image:
  fixes hint :: "'d trans_hint"
  assumes "sp_stat (th_specific hint) = st" "stat_hint_ok F st" "unit (pl_pos place) = MAX_UINT32"
    and "pl_len place = length (stat_image F st)" "pl_len place < 65536" "rh_len rep = 0"
  shows "stat40_estimate (sdext_ifind F crypto) st 0 STAT40_EXTNR 2 = (0, int (pl_len place)) \<and>
    (\<exists>p. stat40_insert_units (sdext_ifind F crypto) place hint = Some (1, p) \<and>
      mread (place_mem p) (pl_body place) (pl_len place) = stat_image F st \<and> pl_body p = pl_body place \<and> pl_len p = pl_len place \<and>
      (\<forall>c. c < pl_body place \<or> pl_body place + int (pl_len place) \<le> c \<longrightarrow> place_mem p c = place_mem place c) \<and>
      stat40_check_struct (sdext_ifind F crypto) p rep = Some (0, p, rep))"
proof -
  note ok = hint_ok_simps [OF assms(2)]
  let ?hs = "\<lambda>j. the (st_ext st ! j)" and ?em = "ucast (st_extmask st) :: u16"
  obtain m' where m: "stat40_insert_units (sdext_ifind F crypto) place hint = Some (1, place_mkdirty (place_put place m'))"
    "reg.sd_holds F (place_mkdirty (place_put place m')) ?em ?hs"
    "\<forall>c. c < pl_body place \<or> pl_body place + int (pl_len place) \<le> c \<longrightarrow> m' c = place_mem place c"
    using insert_ok [OF assms(1,2,3) eq_imp_le [OF assms(4) [symmetric]] assms(5)] by blast
  have len: "pl_len place = 2 + length (sd_bytes stat_bytes (stat_after F) \<lparr>si_mode = 0, si_digest = NULL_REF\<rparr> (sd_items (bit (st_extmask st)) ?hs 0))"
    using assms(4) by (simp add: stat_image_def stat_exts_of_def)
  have "stat40_estimate (sdext_ifind F crypto) st 0 STAT40_EXTNR (int 2) = (0, int (pl_len place))"
    unfolding len by (rule reg.estimate_items [OF ok(2,3) _ _ refl ok(4)]) (use assms(5) len in simp_all)
  moreover have "stat40_check_struct (sdext_ifind F crypto) (place_mkdirty (place_put place m')) rep = Some (0, place_mkdirty (place_put place m'), rep)"
    by (rule reg.check_items [OF m(2) _ assms(6)]) (simp add: len sd_items_ucast)
  moreover have "mread m' (pl_body place) (pl_len place) = stat_image F st"
    using image_read [OF m(2)] assms(4) by simp
  ultimately show ?thesis using m(1,3) by (intro conjI exI [of _ "place_mkdirty (place_put place m')"]) simp_all
qed

lemma fetch_opened:
  assumes "length (st_ext ask) = SDEXT_LAST_ID" "B SDEXT_LW_ID"
    and "\<And>exts. length exts = SDEXT_LAST_ID \<Longrightarrow> stat40_traverse T p cb_open_ext \<lparr>st_extmask = st_extmask ask, st_ext = exts\<rparr> =
      Some (0, p, \<lparr>st_extmask = em, st_ext = List.map (\<lambda>j. if B j \<and> exts ! j \<noteq> None then Some (hs j) else exts ! j) [0..<SDEXT_LAST_ID]\<rparr>)"
  shows "\<exists>got. stat40_fetch_units T tset lwh p ask = Some (1, got) \<and> st_extmask got = em \<and>
    (\<forall>j<SDEXT_LAST_ID. st_ext got ! j =
      (if st_ext ask ! j = None then None
       else (let h = (if B j then hs j else the (st_ext ask ! j))
         in Some (if j = SDEXT_PSET_ID then SDH_PLUG (stat40_decode_pset tset (sd_pset h) (sd_lw (hs SDEXT_LW_ID))) else h))))"
proof -
  let ?E = "\<lambda>exts. List.map (\<lambda>j. if B j \<and> exts ! j \<noteq> None then Some (hs j) else exts ! j) [0..<SDEXT_LAST_ID]"
  let ?asked = "st_ext ask ! SDEXT_PSET_ID \<noteq> None" and ?local = "st_ext ask ! SDEXT_PSET_ID \<noteq> None \<and> st_ext ask ! SDEXT_LW_ID = None"
  define exts where "exts = (if ?local then (st_ext ask)[SDEXT_LW_ID := Some (SDH_LW lwh)] else st_ext ask)"
  have l: "length exts = SDEXT_LAST_ID" using assms(1) by (simp add: exts_def)
  have ask: "(if ?local then ask\<lparr>st_ext := (st_ext ask)[SDEXT_LW_ID := Some (SDH_LW lwh)]\<rparr> else ask) = \<lparr>st_extmask = st_extmask ask, st_ext = exts\<rparr>"
    by (simp add: exts_def)
  have e: "?E exts ! j = (if B j \<and> exts ! j \<noteq> None then Some (hs j) else exts ! j)" if "j < SDEXT_LAST_ID" for j
    using that by (simp del: upt_Suc)
  have x: "exts ! j = (if ?local \<and> j = SDEXT_LW_ID then Some (SDH_LW lwh) else st_ext ask ! j)" for j
    using assms(1) by (simp add: exts_def)
  define got where "got = (if ?asked then
      (?E exts)[SDEXT_PSET_ID := Some (SDH_PLUG (stat40_decode_pset tset (sd_pset (the (?E exts ! SDEXT_PSET_ID))) (sd_lw (the (?E exts ! SDEXT_LW_ID)))))]
    else ?E exts)"
  define got' where "got' = (if ?local then got[SDEXT_LW_ID := None] else got)"
  have f: "stat40_fetch_units T tset lwh p ask = Some (1, \<lparr>st_extmask = em, st_ext = got'\<rparr>)"
    unfolding stat40_fetch_units_def Let_def ask assms(3) [OF l] option.case prod.case got'_def got_def by (simp del: upt_Suc)
  have le: "length (?E exts) = SDEXT_LAST_ID" by simp
  have lw: "?asked \<Longrightarrow> ?E exts ! SDEXT_LW_ID = Some (hs SDEXT_LW_ID)" using e [of SDEXT_LW_ID] x [of SDEXT_LW_ID] assms(2) by auto
  have fetched: "got' ! j = (if st_ext ask ! j = None then None
       else (let h = (if B j then hs j else the (st_ext ask ! j))
         in Some (if j = SDEXT_PSET_ID then SDH_PLUG (stat40_decode_pset tset (sd_pset h) (sd_lw (hs SDEXT_LW_ID))) else h)))"
    if "j < SDEXT_LAST_ID" for j
  proof (cases ?asked)
    case False
    then show ?thesis using e [OF that] x [of j] unfolding got'_def got_def Let_def by simp
  next
    case True
    consider "j = SDEXT_PSET_ID" | "j = SDEXT_LW_ID" | "j \<noteq> SDEXT_PSET_ID" "j \<noteq> SDEXT_LW_ID" by blast
    then show ?thesis
    proof cases
      case 1
      then show ?thesis using True lw [OF True] e [of SDEXT_PSET_ID] x [of SDEXT_PSET_ID] le
        unfolding got'_def got_def Let_def by (auto simp: nth_list_update simp del: upt_Suc)
    next
      case 2
      then show ?thesis using True lw [OF True] le assms(2) unfolding got'_def got_def Let_def by (simp add: nth_list_update del: upt_Suc)
    next
      case 3
      then show ?thesis using True e [OF that] x [of j] unfolding got'_def got_def Let_def by (simp del: upt_Suc)
    qed
  qed
  show ?thesis using fetched f by (intro exI [of _ "\<lparr>st_extmask = em, st_ext = got'\<rparr>"]) simp
qed

text \<open>C25. What is inserted is fetched.\<close>

theorem stat40_insert_fetch:
  fixes hint :: "'d trans_hint"
  assumes "sp_stat (th_specific hint) = st" "stat_hint_ok F st" "unit (pl_pos place) = MAX_UINT32"
    and "length (stat_image F st) \<le> pl_len place" "pl_len place < 65536"
    and "bit (st_extmask st) SDEXT_LW_ID" "length (st_ext ask) = SDEXT_LAST_ID"
  shows "\<exists>p got. stat40_insert_units (sdext_ifind F crypto) place hint = Some (1, p) \<and>
    stat40_fetch_units (sdext_ifind F crypto) tset lwh p ask = Some (1, got) \<and>
    st_extmask got = st_extmask ask OR st_extmask st \<and>
    (\<forall>j<SDEXT_LAST_ID. st_ext got ! j =
      (if st_ext ask ! j = None then None
       else (let h = (if bit (st_extmask st) j then the (st_ext st ! j) else the (st_ext ask ! j))
         in Some (if j = SDEXT_PSET_ID then SDH_PLUG (stat40_decode_pset tset (sd_pset h) (sd_lw (the (st_ext st ! SDEXT_LW_ID)))) else h))))"
proof -
  note ok = hint_ok_simps [OF assms(2)]
  let ?hs = "\<lambda>j. the (st_ext st ! j)" and ?em = "ucast (st_extmask st) :: u16"
  obtain p where p: "stat40_insert_units (sdext_ifind F crypto) place hint = Some (1, p)" "reg.sd_holds F p ?em ?hs"
    using insert_ok [OF assms(1-5)] by blast
  have em: "ucast ?em = st_extmask st"
  proof (rule bit_word_eqI)
    fix n assume "n < LENGTH(64)"
    then show "bit (ucast ?em :: u64) n = bit (st_extmask st) n" using ok(5) [of n] by (auto simp: bit_simps)
  qed
  have bit_em: "bit ?em j = bit (st_extmask st) j" if "j < SDEXT_LAST_ID" for j using that by (simp add: bit_simps)
  have tr: "stat40_traverse (sdext_ifind F crypto) p cb_open_ext \<lparr>st_extmask = st_extmask ask, st_ext = exts\<rparr> =
      Some (0, p, \<lparr>st_extmask = st_extmask ask OR st_extmask st,
        st_ext = List.map (\<lambda>j. if bit ?em j \<and> exts ! j \<noteq> None then Some (?hs j) else exts ! j) [0..<SDEXT_LAST_ID]\<rparr>)"
    if "length exts = SDEXT_LAST_ID" for exts
    using reg.open_items [OF p(2), of "\<lparr>st_extmask = st_extmask ask, st_ext = exts\<rparr>"] that em by simp
  have "bit ?em SDEXT_LW_ID" using bit_em assms(6) by simp
  from fetch_opened [OF assms(7) this tr, of tset lwh] p(1) bit_em show ?thesis by (intro exI [of _ p]) (auto simp: Let_def)
qed

section \<open>The default file plugin\<close>

text \<open>What the item keeps of a plugin set: the members of the mask.\<close>

definition pset_stored :: "reiser4_pset \<Rightarrow> reiser4_pset" where
  "pset_stored ps = \<lparr>ps_mask = ps_mask ps, ps_plug = List.map (\<lambda>j. if bit (ps_mask ps) j then ps_plug ps ! j else NULL_REF) [0..<PSET_LAST]\<rparr>"

lemma write_stored: "mm + n \<le> PSET_LAST \<Longrightarrow> sdext_plug_write (pset_stored ps) m ext mm n count = sdext_plug_write ps m ext mm n count"
  by (induction n arbitrary: mm m count) (simp_all add: pset_stored_def Let_def del: upt_Suc)

lemma init_stored: "sdext_plug_init stat (SDH_PLUG (pset_stored ps)) = sdext_plug_init stat (SDH_PLUG ps)"
  by (simp add: sdext_plug_init_def sd_pset_def write_stored)

text \<open>C26. The default file plugin is left out of the item and put back.\<close>

theorem stat40_pset_default:
  assumes "length (st_ext st) = SDEXT_LAST_ID" "st_ext st ! SDEXT_PSET_ID = Some (SDH_PLUG ps)" "st_ext st ! SDEXT_LW_ID = Some (SDH_LW lwh)"
    and "bit (ps_mask ps) PSET_OBJ" "ps_plug ps ! PSET_OBJ \<noteq> NULL_REF" "length (ps_plug ps) = PSET_LAST"
  shows "\<exists>st' ps'. stat40_encode_pset T tset junk place st = Some (0, st') \<and> st_ext st' ! SDEXT_PSET_ID = Some (SDH_PLUG ps') \<and>
    (\<forall>j. bit (ps_mask ps') j \<longleftrightarrow> bit (ps_mask ps) j \<and> j \<noteq> PSET_DIR \<and>
      \<not> (j = PSET_OBJ \<and> ps_plug ps ! PSET_OBJ = stat40_file_mode tset (lw_mode lwh))) \<and>
    (bit (st_extmask st') SDEXT_PSET_ID \<longleftrightarrow> bit (st_extmask st) SDEXT_PSET_ID \<and> ps_mask ps' \<noteq> 0) \<and>
    sdext_plug_init stat (SDH_PLUG ps') = sdext_plug_init stat (SDH_PLUG (pset_stored ps')) \<and>
    (let back = stat40_decode_pset tset (pset_stored ps') lwh
     in bit (ps_mask back) PSET_OBJ \<and> (\<forall>j<PSET_LAST. bit (ps_mask ps) j \<longrightarrow> j \<noteq> PSET_DIR \<longrightarrow> ps_plug back ! j = ps_plug ps ! j))"
proof -
  let ?d = "stat40_file_mode tset (lw_mode lwh)"
  define m1 where "m1 = (if ps_plug ps ! PSET_OBJ = ?d then ps_mask ps AND NOT (push_bit PSET_OBJ 1) else ps_mask ps) AND NOT (push_bit PSET_DIR 1)"
  let ?ps = "ps\<lparr>ps_mask := m1\<rparr>"
  let ?st = "\<lparr>st_extmask = (if m1 = 0 then st_extmask st AND NOT (push_bit SDEXT_PSET_ID 1) else st_extmask st),
     st_ext = (st_ext st)[SDEXT_PSET_ID := Some (SDH_PLUG ?ps)]\<rparr>"
  have enc: "stat40_encode_pset T tset junk place st = Some (0, ?st)"
    using assms by (simp add: stat40_encode_pset_def sd_pset_def sd_lw_def m1_def Let_def)
  have m1: "bit m1 j \<longleftrightarrow> bit (ps_mask ps) j \<and> j \<noteq> PSET_DIR \<and> \<not> (j = PSET_OBJ \<and> ps_plug ps ! PSET_OBJ = ?d)" for j
    using bit_imp_le_length [of "ps_mask ps" j] by (auto simp: m1_def bit_simps)
  have em: "bit (st_extmask ?st) SDEXT_PSET_ID \<longleftrightarrow> bit (st_extmask st) SDEXT_PSET_ID \<and> m1 \<noteq> 0" by (simp add: bit_simps)
  have z: "ps_plug (pset_stored ?ps) ! j = (if bit m1 j then ps_plug ps ! j else NULL_REF)" if "j < PSET_LAST" for j
    using that by (simp add: pset_stored_def del: upt_Suc)
  have l: "length (ps_plug (pset_stored ?ps)) = PSET_LAST" by (simp add: pset_stored_def)
  let ?b = "stat40_decode_pset tset (pset_stored ?ps) lwh"
  have "bit (ps_mask ?b) PSET_OBJ \<and> (\<forall>j<PSET_LAST. bit (ps_mask ps) j \<longrightarrow> j \<noteq> PSET_DIR \<longrightarrow> ps_plug ?b ! j = ps_plug ps ! j)"
  proof (cases "ps_plug ps ! PSET_OBJ = ?d")
    case True
    then have "ps_plug (pset_stored ?ps) ! PSET_OBJ = NULL_REF" using z [of PSET_OBJ] m1 by simp
    then show ?thesis using True z m1 l by (auto simp: stat40_decode_pset_def bit_simps nth_list_update)
  next
    case False
    then have b: "bit m1 PSET_OBJ" using m1 assms(4) by simp
    then have "ps_plug (pset_stored ?ps) ! PSET_OBJ \<noteq> NULL_REF" using z [of PSET_OBJ] assms(5) by simp
    then have "?b = pset_stored ?ps" by (simp add: stat40_decode_pset_def)
    then show ?thesis using False z m1 b by (auto simp: pset_stored_def)
  qed
  then show ?thesis
    using enc em m1 assms(1) by (intro exI [of _ ?st] exI [of _ ?ps]) (simp add: init_stored Let_def)
qed

section \<open>Witnesses\<close>

definition sample_find :: "nat \<Rightarrow> nat \<Rightarrow> bool \<Rightarrow> plug_ref option" where
  "sample_find member i is_pset = Some (PLUG i)"

definition sample_plugins :: reiser4_pset where
  "sample_plugins = \<lparr>ps_mask = 0x21, ps_plug = [PLUG 1, NULL_REF, NULL_REF, NULL_REF, NULL_REF, PLUG 3, NULL_REF, NULL_REF, NULL_REF, NULL_REF,
     NULL_REF, NULL_REF, NULL_REF, NULL_REF, NULL_REF, NULL_REF, NULL_REF]\<rparr>"

definition sample_stat :: stat_hint where
  "sample_stat = \<lparr>st_extmask = 0x13, st_ext =
     [Some (SDH_LW \<lparr>lw_mode = 0x41ED, lw_nlink = 2, lw_size = 300\<rparr>),
      Some (SDH_UNIX \<lparr>ux_uid = 7, ux_gid = 8, ux_atime = 1, ux_mtime = 2, ux_ctime = 3, ux_rdev = 0, ux_bytes = 512\<rparr>),
      None, None,
      Some (SDH_PLUG sample_plugins),
      None, None, None, None]\<rparr>"

definition sample_sd :: place where
  "sample_sd = \<lparr>pl_pos = \<lparr>item = 0, unit = MAX_UINT32\<rparr>,
     pl_node = \<lparr>nd_mem = (\<lambda>_. 0xFF), nd_size = 4096, nd_dirty = False, nd_kplug = KEY_LARGE, nd_keypol = 4, nd_state = 0, nd_plug = 0\<rparr>,
     pl_body = 28, pl_len = 54, pl_off = 0, pl_key = \<lparr>kplug = KEY_LARGE, kbody = (\<lambda>_. 0), kadjust = 0\<rparr>, pl_plug = ITEM_STAT40_ID\<rparr>"

definition sample_stat_hint :: "unit trans_hint" where
  "sample_stat_hint =
     \<lparr>th_overhead = 0, th_len = 54, th_bytes = 0, th_specific = SP_STAT sample_stat, th_count = 1, th_offset = pl_key sample_sd,
      th_maxkey = pl_key sample_sd, th_insert_flags = 0, th_head = 0, th_tail = 0, th_plug = ITEM_STAT40_ID, th_region_func = None, th_data = ()\<rparr>"

lemma bits_below:
  assumes "\<forall>k\<in>set [0..<64]. bit (w :: u64) k \<longleftrightarrow> k \<in> A" "A \<subseteq> {..<64}"
  shows "bit w j \<longleftrightarrow> j \<in> A"
  using assms bit_imp_le_length [of w j] by (cases "j < 64") auto

lemma sample_bits: "bit (st_extmask sample_stat) j \<longleftrightarrow> j \<in> {0, 1, 4}"
proof -
  have "\<forall>k\<in>set [0..<64]. bit (0x13 :: u64) k \<longleftrightarrow> k \<in> {0, 1, 4}" by code_simp
  from bits_below [OF this, of j] show ?thesis by (simp add: sample_stat_def)
qed

lemma sample_set_bits: "bit (ps_mask sample_plugins) j \<longleftrightarrow> j \<in> {0, 5}"
proof -
  have "\<forall>k\<in>set [0..<64]. bit (0x21 :: u64) k \<longleftrightarrow> k \<in> {0, 5}" by code_simp
  from bits_below [OF this, of j] show ?thesis by (simp add: sample_plugins_def)
qed

lemma sample_members: "pset_members sample_plugins = [0, 5]"
proof -
  have "[0..<14] = [0, 1, 2, 3, 4, 5, 6, 7, 8, 9, 10, 11, 12, 13]" by code_simp
  then show ?thesis unfolding pset_members_def sample_set_bits by simp
qed

lemma sample_exts: "stat_exts_of sample_stat = [(0, the (st_ext sample_stat ! 0)), (1, the (st_ext sample_stat ! 1)), (4, SDH_PLUG sample_plugins)]"
proof -
  have "[0..<15] = [0, 1, 2, 3, 4, 5, 6, 7, 8, 9, 10, 11, 12, 13, 14]" by code_simp
  then show ?thesis unfolding stat_exts_of_def sd_items_def sample_bits by (simp add: sample_stat_def)
qed

lemma sample_pset: "pset_ok sample_find True sample_plugins"
proof -
  have p: "\<forall>j\<in>set [0..<17]. if j \<in> {0, 5} then ref_id (ps_plug sample_plugins ! j) < 65536 \<and> ps_plug sample_plugins ! j = PLUG (ref_id (ps_plug sample_plugins ! j))
      else ps_plug sample_plugins ! j = NULL_REF" by (simp add: sample_plugins_def ref_id_def upt_conv_Cons del: upt_Suc)
  have "ps_plug sample_plugins ! j = NULL_REF" if "j < PSET_LAST" "j \<notin> {0, 5}" for j using p that by (auto simp del: upt_Suc)
  moreover have "ref_id (ps_plug sample_plugins ! j) < 65536 \<and> ps_plug sample_plugins ! j = PLUG (ref_id (ps_plug sample_plugins ! j))"
    if "j \<in> {0, 5}" for j using p that by (auto simp del: upt_Suc)
  moreover have "length (ps_plug sample_plugins) = PSET_LAST" "ps_mask sample_plugins \<noteq> 0" by (simp_all add: sample_plugins_def)
  moreover have "ref_id (PARAM 0) = 0" by (simp add: ref_id_def)
  ultimately show ?thesis unfolding pset_ok_def sample_set_bits sample_find_def by simp
qed

lemma sample_stat_ok: "stat_hint_ok sample_find sample_stat"
proof -
  have "sd_good STAT_EXTS (stat_good sample_find) (stat_after sample_find) \<lparr>si_mode = 0, si_digest = NULL_REF\<rparr> (stat_exts_of sample_stat)"
    unfolding sample_exts
    using sample_pset
    by (simp add: stat_good_def stat_after_def lw_good_def unix_good_def pset_good_def lw_after_def sample_stat_def sd_lw_def S_ISBLK_def S_ISCHR_def)
  then show ?thesis unfolding stat_hint_ok_def sample_bits by (auto simp: sample_stat_def)
qed

lemma sample_image: "length (stat_image sample_find sample_stat) = 54"
  unfolding stat_image_def sample_exts
  by (simp add: stat_bytes_def lw_bytes_def unix_bytes_def length_fields pset_bytes_def sd_pset_def sample_members pset_slot_def Let_def)

lemma sample_hint_simps: "sp_stat (th_specific sample_stat_hint) = sample_stat" "unit (pl_pos sample_sd) = MAX_UINT32" "pl_len sample_sd = 54"
  by (simp_all add: sample_stat_hint_def sp_stat_def sample_sd_def)

theorem stat40_insert_image_witness:
  "\<exists>p. stat40_insert_units (sdext_ifind sample_find None) sample_sd sample_stat_hint = Some (1, p) \<and>
     mread (place_mem p) (pl_body sample_sd) 54 = stat_image sample_find sample_stat"
  using stat40_insert_image [of sample_stat_hint sample_stat sample_find sample_sd "\<lparr>rh_len = 0, rh_mode = 0\<rparr>" None] sample_stat_ok
  by (auto simp: sample_hint_simps sample_image)

theorem stat40_insert_fetch_witness:
  "\<exists>p got. stat40_insert_units (sdext_ifind sample_find None) sample_sd sample_stat_hint = Some (1, p) \<and>
     stat40_fetch_units (sdext_ifind sample_find None) PLUG \<lparr>lw_mode = 0, lw_nlink = 0, lw_size = 0\<rparr> p
       \<lparr>st_extmask = 0, st_ext = (replicate SDEXT_LAST_ID None)[SDEXT_UNIX_ID := Some (SDH_FLAGS 0)]\<rparr> = Some (1, got) \<and>
     st_extmask got = 0x13 \<and> st_ext got ! SDEXT_UNIX_ID = st_ext sample_stat ! SDEXT_UNIX_ID"
proof -
  let ?ask = "\<lparr>st_extmask = 0, st_ext = (replicate SDEXT_LAST_ID None)[SDEXT_UNIX_ID := Some (SDH_FLAGS 0)]\<rparr>"
  have e: "st_extmask sample_stat = 0x13" "st_ext sample_stat ! 1 = Some (the (st_ext sample_stat ! 1))" by (simp_all add: sample_stat_def)
  have "bit (st_extmask sample_stat) SDEXT_LW_ID" unfolding sample_bits by simp
  moreover have "length (stat_image sample_find sample_stat) \<le> pl_len sample_sd" "pl_len sample_sd < 65536"
    by (simp_all add: sample_hint_simps sample_image)
  ultimately obtain p got where
    "stat40_insert_units (sdext_ifind sample_find None) sample_sd sample_stat_hint = Some (1, p)"
    "stat40_fetch_units (sdext_ifind sample_find None) PLUG \<lparr>lw_mode = 0, lw_nlink = 0, lw_size = 0\<rparr> p ?ask = Some (1, got)"
    "st_extmask got = st_extmask ?ask OR st_extmask sample_stat"
    "\<forall>j<SDEXT_LAST_ID. st_ext got ! j = (if st_ext ?ask ! j = None then None
       else (let h = (if bit (st_extmask sample_stat) j then the (st_ext sample_stat ! j) else the (st_ext ?ask ! j))
         in Some (if j = SDEXT_PSET_ID then SDH_PLUG (stat40_decode_pset PLUG (sd_pset h) (sd_lw (the (st_ext sample_stat ! SDEXT_LW_ID)))) else h)))"
    using stat40_insert_fetch [OF sample_hint_simps(1) sample_stat_ok sample_hint_simps(2), of ?ask None PLUG "\<lparr>lw_mode = 0, lw_nlink = 0, lw_size = 0\<rparr>"]
    by auto
  moreover have "bit (st_extmask sample_stat) 1" unfolding sample_bits by simp
  ultimately show ?thesis using e by (intro exI [of _ p] exI [of _ got]) simp
qed

theorem stat40_pset_default_witness:
  "\<exists>st' ps'. stat40_encode_pset (sdext_ifind sample_find None) PLUG \<lparr>lw_mode = 0, lw_nlink = 0, lw_size = 0\<rparr> sample_sd sample_stat = Some (0, st') \<and>
     st_ext st' ! SDEXT_PSET_ID = Some (SDH_PLUG ps') \<and> \<not> bit (ps_mask ps') PSET_OBJ"
proof -
  have ps: "length (st_ext sample_stat) = SDEXT_LAST_ID" "st_ext sample_stat ! SDEXT_PSET_ID = Some (SDH_PLUG sample_plugins)"
    "st_ext sample_stat ! SDEXT_LW_ID = Some (SDH_LW \<lparr>lw_mode = 0x41ED, lw_nlink = 2, lw_size = 300\<rparr>)" by (simp_all add: sample_stat_def)
  have pl: "bit (ps_mask sample_plugins) PSET_OBJ" "ps_plug sample_plugins ! PSET_OBJ \<noteq> NULL_REF" "length (ps_plug sample_plugins) = PSET_LAST"
    unfolding sample_set_bits by (simp_all add: sample_plugins_def)
  have d: "ps_plug sample_plugins ! PSET_OBJ = stat40_file_mode PLUG 0x41ED"
    by (simp add: sample_plugins_def stat40_file_mode_def S_IFMT_def)
  show ?thesis
    using stat40_pset_default [OF ps pl, of "sdext_ifind sample_find None" PLUG "\<lparr>lw_mode = 0, lw_nlink = 0, lw_size = 0\<rparr>" sample_sd "stat_entity0 sample_sd"] d
    by - (elim exE conjE, intro exI conjI, assumption, assumption, simp)
qed

end
