(* ===== verification/LibPlace.thy ===== *)
theory LibPlace
  imports NodeKeys Node41 NodeptrItems Node40Ops
begin

text \<open>
  Places and nodes as the library sees them (\<^verbatim>\<open>libreiser4/place.c\<close>, \<^verbatim>\<open>libreiser4/node.c\<close>): moving a place over the
  items and units of a node, opening a node, and the search for a key in one node.
\<close>

definition place_plug :: "'d item_table \<Rightarrow> place \<Rightarrow> 'd item_plug" where
  "place_plug tab place = the (tab (pl_plug place))"

section \<open>Places\<close>

definition reiser4_place_fetch :: "'d item_table \<Rightarrow> place \<Rightarrow> int \<times> place" where
  "reiser4_place_fetch tab place = node40_fetch tab (pl_node place) (pl_pos place)"

definition place_units :: "'d item_table \<Rightarrow> place \<Rightarrow> nat" where
  "place_units tab place = reiser4_item_units (place_plug tab place) place"

definition place_item :: "place \<Rightarrow> nat \<Rightarrow> place" where
  "place_item place i = place\<lparr>pl_pos := (pl_pos place)\<lparr>item := i\<rparr>\<rparr>"

definition reiser4_place_valid :: "place \<Rightarrow> bool" where
  "reiser4_place_valid place \<longleftrightarrow> item (pl_pos place) < node40_items (pl_node place)"

definition reiser4_place_first :: "place \<Rightarrow> int \<times> place" where
  "reiser4_place_first place =
     (let place = place_item place 0
      in (0, if unit (pl_pos place) \<noteq> MAX_UINT32 then place_unit place 0 else place))"

definition reiser4_place_last :: "'d item_table \<Rightarrow> place \<Rightarrow> int \<times> place" where
  "reiser4_place_last tab place =
     (let items = node40_items (pl_node place); place = place_item place (to_u32 (int items - 1))
      in if unit (pl_pos place) \<noteq> MAX_UINT32
         then (let (res, place) = reiser4_place_fetch tab place
               in if res \<noteq> 0 then (- EINVAL, place)
                  else (0, place_unit place (to_u32 (int (place_units tab place) - 1))))
         else (0, place))"

definition reiser4_place_gtfirst :: "place \<Rightarrow> bool" where
  "reiser4_place_gtfirst place \<longleftrightarrow>
     (if unit (pl_pos place) = MAX_UINT32 then item (pl_pos place) > 0
      else item (pl_pos place) > 0 \<or> unit (pl_pos place) > 0)"

definition reiser4_place_ltlast :: "'d item_table \<Rightarrow> place \<Rightarrow> bool \<times> place" where
  "reiser4_place_ltlast tab place =
     (let items = node40_items (pl_node place)
      in if unit (pl_pos place) = MAX_UINT32 then (item (pl_pos place) < to_u32 (int items - 1), place)
         else (let (res, place) = reiser4_place_fetch tab place
               in if res \<noteq> 0 then (False, place)
                  else (let units = place_units tab place
                        in (item (pl_pos place) < to_u32 (int items - 1) \<or> unit (pl_pos place) < to_u32 (int units - 1), place))))"

definition reiser4_place_leftmost :: "place \<Rightarrow> bool" where
  "reiser4_place_leftmost place \<longleftrightarrow>
     (unit (pl_pos place) = 0 \<or> unit (pl_pos place) = MAX_UINT32) \<and> item (pl_pos place) = 0"

definition reiser4_place_rightmost :: "'d item_table \<Rightarrow> place \<Rightarrow> bool \<times> place" where
  "reiser4_place_rightmost tab place =
     (let items = node40_items (pl_node place)
      in if item (pl_pos place) = items then (True, place)
         else (let (res, place) = reiser4_place_fetch tab place
               in if res \<noteq> 0 then (False, place)
                  else (item (pl_pos place) = to_u32 (int items - 1) \<and> unit (pl_pos place) = place_units tab place, place)))"

definition reiser4_place_right :: "'d item_table \<Rightarrow> place \<Rightarrow> bool \<times> place" where
  "reiser4_place_right tab place =
     (if item (pl_pos place) \<ge> node40_items (pl_node place) \<or> unit (pl_pos place) = MAX_UINT32 then (False, place)
      else (let (res, place) = reiser4_place_fetch tab place
            in if res \<noteq> 0 then (False, place) else (unit (pl_pos place) \<ge> place_units tab place, place)))"

definition reiser4_place_inc :: "'d item_table \<Rightarrow> place \<Rightarrow> bool \<Rightarrow> place" where
  "reiser4_place_inc tab place whole =
     (let u = (if whole then MAX_UINT32 else 0);
          place = (if unit (pl_pos place) = MAX_UINT32 then place_unit place u else place);
          (res, place) = reiser4_place_fetch tab place
      in if res \<noteq> 0 then place
         else if unit (pl_pos place) \<ge> to_u32 (int (place_units tab place) - 1)
              then place_unit (place_item place (to_u32 (int (item (pl_pos place)) + 1))) u
              else place_unit place (to_u32 (int (unit (pl_pos place)) + 1)))"

definition reiser4_place_dec :: "'d item_table \<Rightarrow> place \<Rightarrow> bool \<Rightarrow> place" where
  "reiser4_place_dec tab place whole =
     (let over = (unit (pl_pos place) = 0 \<or> unit (pl_pos place) = MAX_UINT32);
          (res, place) = (if over then reiser4_place_fetch tab (place_item place (to_u32 (int (item (pl_pos place)) - 1))) else (0, place))
      in if over \<and> res \<noteq> 0 then place
         else (let place = place_unit place (to_u32 (int (if over then place_units tab place else unit (pl_pos place)) - 1))
               in if whole \<and> unit (pl_pos place) = 0 then place_unit place MAX_UINT32 else place))"

section \<open>Nodes\<close>

text \<open>
  Opening a node: \<open>dev\<close> gives the contents of a block or \<open>None\<close> for an error of the device.  The plugin is found by
  the first two bytes.
\<close>

definition reiser4_node_open :: "(nat \<Rightarrow> mem option) \<Rightarrow> nat \<Rightarrow> key_plug \<Rightarrow> nat \<Rightarrow> node40 option" where
  "reiser4_node_open dev sz kp nr =
     (case dev nr of
        None \<Rightarrow> None
      | Some block \<Rightarrow>
          (let pid = get_le 2 block 0
           in if pid = 0 then node40_open True block sz kp
              else if pid = 1 then node41_open True block sz kp
              else None))"

definition reiser4_node_leftmost_key :: "node40 \<Rightarrow> reiser4_key \<Rightarrow> reiser4_key" where
  "reiser4_node_leftmost_key node key = node40_get_key node \<lparr>item = 0, unit = MAX_UINT32\<rparr> key"

definition reiser4_node_lookup :: "'d item_table \<Rightarrow> node40 \<Rightarrow> reiser4_key \<Rightarrow> lookup_bias \<Rightarrow> lookup_res \<times> pos" where
  "reiser4_node_lookup tab node key bias =
     (case node40_lookup node key of
        (LOOKUP_EIO, i) \<Rightarrow> (LOOKUP_EIO, \<lparr>item = i, unit = MAX_UINT32\<rparr>)
      | (PRESENT, i) \<Rightarrow> (PRESENT, \<lparr>item = i, unit = 0\<rparr>)
      | (ABSENT, i) \<Rightarrow>
          (if i = 0 then (ABSENT, \<lparr>item = 0, unit = MAX_UINT32\<rparr>)
           else
             (let pos = \<lparr>item = i - 1, unit = MAX_UINT32\<rparr>; (res, place) = node40_fetch tab node pos
              in if res \<noteq> 0 then (LOOKUP_EIO, pos)
                 else
                   (let plug = place_plug tab place
                    in if (case ip_maxposs_key plug of None \<Rightarrow> False
                           | Some f \<Rightarrow> reiser4_key_compfull key (reiser4_item_maxposs_key plug place) > 0)
                       then (ABSENT, \<lparr>item = i, unit = MAX_UINT32\<rparr>)
                       else case ip_lookup plug of
                         Some f \<Rightarrow> (let (res, place) = f place key bias in (res, \<lparr>item = i - 1, unit = unit (pl_pos place)\<rparr>))
                       | None \<Rightarrow> if \<not> reiser4_item_branch plug \<or> bias = FIND_CONV then (ABSENT, \<lparr>item = i, unit = MAX_UINT32\<rparr>)
                                 else (ABSENT, pos)))))"

section \<open>The room of a node\<close>

text \<open>The check in front of an insertion and of a write; then the node plugin does the work.\<close>

definition node_modify_check :: "node40 \<Rightarrow> pos \<Rightarrow> 'd trans_hint \<Rightarrow> int" where
  "node_modify_check node pos hint =
     (let len = to_u32 (th_len hint + int (th_overhead hint));
          needed = to_u32 (int len + int (if unit pos = MAX_UINT32 then node40_overhead node else 0))
      in if needed > node40_space node then - EINVAL else 0)"

definition reiser4_node_insert ::
  "'d item_table \<Rightarrow> node40 \<Rightarrow> pos \<Rightarrow> 'd trans_hint \<Rightarrow> (int \<times> node40 \<times> 'd trans_hint) option" where
  "reiser4_node_insert tab node pos hint =
     (let res = node_modify_check node pos hint
      in if res \<noteq> 0 then Some (res, node, hint) else node40_insert tab node pos hint)"

definition reiser4_node_write ::
  "'d item_table \<Rightarrow> node40 \<Rightarrow> pos \<Rightarrow> 'd trans_hint \<Rightarrow> (int \<times> node40 \<times> 'd trans_hint) option" where
  "reiser4_node_write tab node pos hint =
     (let res = node_modify_check node pos hint
      in if res \<noteq> 0 then Some (res, node, hint) else node40_write tab node pos hint)"

end
