(* ===== verification/LibTree.thy ===== *)
theory LibTree
  imports LibPlace
begin

text \<open>
  The balanced tree (\<^verbatim>\<open>libreiser4/tree.c\<close>) as it is read: the cache of nodes with their places in the parents and
  their siblings, the loading of nodes, the ways to the neighbours, and the search for a key from the root down.

  A node in memory is named by its block number, the key of the hash table \<open>rt_nodes\<close>.  The device, the table of
  item plugins and what a local hint holds before it is filled are the environment.  A node is locked for the time
  of a call only to keep it from being released under memory pressure; there is none in the model, so the pairs of
  lock and unlock are left out, but the lock a child has on its parent is kept.
\<close>

abbreviation (input) LEAF_LEVEL :: nat where "LEAF_LEVEL \<equiv> 1"
abbreviation (input) INVAL_BLK :: nat where "INVAL_BLK \<equiv> MAX_UINT64"
abbreviation (input) no_pos :: pos where "no_pos \<equiv> \<lparr>item = 0, unit = MAX_UINT32\<rparr>"

section \<open>The state\<close>

record tnode =
  tn_node :: node40
  tn_p :: "nat option"
  tn_ppos :: pos
  tn_left :: "nat option"
  tn_right :: "nat option"
  tn_counter :: int

record rtree =
  rt_root_blk :: nat
  rt_height :: nat
  rt_root :: "nat option"
  rt_blksize :: nat
  rt_kplug :: key_plug
  rt_nodes :: "nat \<Rightarrow> tnode option"

record 'd tree_env =
  te_dev :: "nat \<Rightarrow> mem option"
  te_tab :: "'d item_table"
  te_hint :: "'d trans_hint"

text \<open>A place in the tree: a node, a position in it, and what the last fetch has found there.\<close>

record tplace =
  tp_node :: "nat option"
  tp_pos :: pos
  tp_item :: "place option"

definition tn_at :: "rtree \<Rightarrow> nat \<Rightarrow> tnode" where
  "tn_at tree blk = the (rt_nodes tree blk)"

definition node_at :: "rtree \<Rightarrow> nat \<Rightarrow> node40" where
  "node_at tree blk = tn_node (tn_at tree blk)"

definition tn_update :: "nat \<Rightarrow> (tnode \<Rightarrow> tnode) \<Rightarrow> rtree \<Rightarrow> rtree" where
  "tn_update blk f tree = tree\<lparr>rt_nodes := (rt_nodes tree)(blk := map_option f (rt_nodes tree blk))\<rparr>"

definition reiser4_node_lock :: "nat \<Rightarrow> rtree \<Rightarrow> rtree" where
  "reiser4_node_lock blk tree = tn_update blk (\<lambda>n. n\<lparr>tn_counter := tn_counter n + 1\<rparr>) tree"
definition reiser4_node_unlock :: "nat \<Rightarrow> rtree \<Rightarrow> rtree" where
  "reiser4_node_unlock blk tree = tn_update blk (\<lambda>n. n\<lparr>tn_counter := tn_counter n - 1\<rparr>) tree"

definition reiser4_tree_root_node :: "rtree \<Rightarrow> nat \<Rightarrow> bool" where
  "reiser4_tree_root_node tree blk \<longleftrightarrow> rt_root_blk tree = blk"

definition reiser4_tree_fresh :: "rtree \<Rightarrow> bool" where
  "reiser4_tree_fresh tree \<longleftrightarrow> rt_root_blk tree = INVAL_BLK"
definition reiser4_tree_minimal :: "rtree \<Rightarrow> bool" where
  "reiser4_tree_minimal tree \<longleftrightarrow> rt_height tree \<le> 2"
definition reiser4_tree_singular :: "rtree \<Rightarrow> bool" where
  "reiser4_tree_singular tree \<longleftrightarrow> node40_items (node_at tree (the (rt_root tree))) = 1"
definition reiser4_tree_attached_node :: "rtree \<Rightarrow> nat \<Rightarrow> bool" where
  "reiser4_tree_attached_node tree blk \<longleftrightarrow>
     (if reiser4_tree_fresh tree then False
      else if reiser4_tree_root_node tree blk then True
      else rt_nodes tree blk \<noteq> None \<and> tn_p (tn_at tree blk) \<noteq> None)"

section \<open>Links to children\<close>

definition item_branch :: "'d tree_env \<Rightarrow> place \<Rightarrow> bool" where
  "item_branch E place \<longleftrightarrow> reiser4_item_branch (place_plug (te_tab E) place)"

definition item_link :: "'d tree_env \<Rightarrow> place \<Rightarrow> nat" where
  "item_link E place = the (reiser4_item_down_link (place_plug (te_tab E) place) place (te_hint E))"

definition tree_check_pos :: "'d tree_env \<Rightarrow> node40 \<Rightarrow> pos \<Rightarrow> nat \<Rightarrow> bool" where
  "tree_check_pos E node pos blocknr \<longleftrightarrow>
     (if \<not> item pos < node40_items node then False
      else (let (res, place) = node40_fetch (te_tab E) node pos
            in if res \<noteq> 0 then False
               else if \<not> item_branch E place then False
               else item_link E place = blocknr))"

fun find_link_unit :: "'d tree_env \<Rightarrow> place \<Rightarrow> nat \<Rightarrow> nat \<Rightarrow> nat \<Rightarrow> nat option" where
  "find_link_unit E place blk j 0 = None"
| "find_link_unit E place blk j (Suc n) =
     (if item_link E (place_unit place j) = blk then Some j else find_link_unit E place blk (j + 1) n)"

text \<open>The linear search; \<open>u\<close> is the unit of the position, which the search of an item leaves at the last one it has seen.\<close>

fun find_link :: "'d tree_env \<Rightarrow> node40 \<Rightarrow> nat \<Rightarrow> nat \<Rightarrow> nat \<Rightarrow> nat \<Rightarrow> int \<times> pos" where
  "find_link E node blk i u 0 = (- EINVAL, \<lparr>item = i - 1, unit = u\<rparr>)"
| "find_link E node blk i u (Suc n) =
     (let (res, place) = node40_fetch (te_tab E) node \<lparr>item = i, unit = u\<rparr>
      in if res \<noteq> 0 then (res, \<lparr>item = i, unit = u\<rparr>)
         else if \<not> item_branch E place then find_link E node blk (i + 1) u n
         else
           (let units = place_units (te_tab E) place
            in case find_link_unit E place blk 0 units of
                 Some j \<Rightarrow> (0, \<lparr>item = i, unit = (if units = 1 then MAX_UINT32 else j)\<rparr>)
               | None \<Rightarrow> find_link E node blk (i + 1) (if units = 0 then u else units - 1) n))"

definition correct_place :: "'d tree_env \<Rightarrow> node40 \<Rightarrow> pos \<Rightarrow> pos" where
  "correct_place E node pos =
     (let (res, place) = node40_fetch (te_tab E) node pos
      in if place_units (te_tab E) place = 1 then pos\<lparr>unit := MAX_UINT32\<rparr> else pos)"

definition tree_find_child_pos :: "'d tree_env \<Rightarrow> key_plug \<Rightarrow> node40 \<Rightarrow> nat \<Rightarrow> node40 \<Rightarrow> pos \<Rightarrow> int \<times> pos" where
  "tree_find_child_pos E kp parent blk child pos =
     (if tree_check_pos E parent pos blk then (0, correct_place E parent pos)
      else
        (let lkey = reiser4_node_leftmost_key child (key_plug_minimal kp);
             (res, pos) = reiser4_node_lookup (te_tab E) parent lkey FIND_EXACT
         in if res = PRESENT \<and> tree_check_pos E parent pos blk then (0, correct_place E parent pos)
            else find_link E parent blk 0 (unit pos) (node40_items parent)))"

section \<open>Loading and unloading\<close>

definition reiser4_tree_hash_node :: "nat \<Rightarrow> tnode \<Rightarrow> rtree \<Rightarrow> rtree" where
  "reiser4_tree_hash_node blk node tree = tree\<lparr>rt_nodes := (rt_nodes tree)(blk := Some node)\<rparr>"
definition reiser4_tree_unhash_node :: "nat \<Rightarrow> rtree \<Rightarrow> rtree" where
  "reiser4_tree_unhash_node blk tree = tree\<lparr>rt_nodes := (rt_nodes tree)(blk := None)\<rparr>"

definition reiser4_tree_connect_node :: "'d tree_env \<Rightarrow> nat option \<Rightarrow> nat \<Rightarrow> tnode \<Rightarrow> rtree \<Rightarrow> int \<times> rtree" where
  "reiser4_tree_connect_node E parent blk node tree =
     (if reiser4_tree_root_node tree blk then (0, reiser4_tree_hash_node blk node (tree\<lparr>rt_root := Some blk\<rparr>))
      else case parent of
        None \<Rightarrow> (0, reiser4_tree_hash_node blk node tree)
      | Some pb \<Rightarrow>
          (let (res, pos) = tree_find_child_pos E (rt_kplug tree) (node_at tree pb) blk (tn_node node) (tn_ppos node)
           in if res \<noteq> 0 then (- EINVAL, tree)
              else (0, reiser4_tree_hash_node blk (node\<lparr>tn_p := Some pb, tn_ppos := pos\<rparr>) (reiser4_node_lock pb tree))))"

definition reiser4_tree_lookup_node :: "rtree \<Rightarrow> nat \<Rightarrow> tnode option" where
  "reiser4_tree_lookup_node tree blk = rt_nodes tree blk"

definition reiser4_tree_load_node :: "'d tree_env \<Rightarrow> nat option \<Rightarrow> nat \<Rightarrow> rtree \<Rightarrow> bool \<times> rtree" where
  "reiser4_tree_load_node E parent blk tree =
     (case reiser4_tree_lookup_node tree blk of
        Some _ \<Rightarrow> (True, tree)
      | None \<Rightarrow>
          (case reiser4_node_open (te_dev E) (rt_blksize tree) (rt_kplug tree) blk of
             None \<Rightarrow> (False, tree)
           | Some nd \<Rightarrow>
               (let (res, tree) = reiser4_tree_connect_node E parent blk
                      \<lparr>tn_node = nd, tn_p = None, tn_ppos = no_pos, tn_left = None, tn_right = None, tn_counter = 0\<rparr> tree
                in (res = 0, tree))))"

definition reiser4_tree_load_root :: "'d tree_env \<Rightarrow> rtree \<Rightarrow> int \<times> rtree" where
  "reiser4_tree_load_root E tree =
     (if rt_root tree \<noteq> None then (0, tree)
      else (let (ok, tree) = reiser4_tree_load_node E None (rt_root_blk tree) tree
            in if \<not> ok then (- EIO, tree) else (0, tree\<lparr>rt_root := Some (rt_root_blk tree)\<rparr>)))"

definition reiser4_tree_disconnect_node :: "nat \<Rightarrow> rtree \<Rightarrow> rtree" where
  "reiser4_tree_disconnect_node blk tree =
     (let node = tn_at tree blk;
          tree = (case tn_left node of None \<Rightarrow> tree | Some l \<Rightarrow> tn_update l (\<lambda>n. n\<lparr>tn_right := None\<rparr>) tree);
          tree = (case tn_right node of None \<Rightarrow> tree | Some r \<Rightarrow> tn_update r (\<lambda>n. n\<lparr>tn_left := None\<rparr>) tree);
          tree = reiser4_tree_unhash_node blk tree;
          tree = (if rt_root tree = Some blk then tree\<lparr>rt_root := None\<rparr> else tree)
      in case tn_p node of None \<Rightarrow> tree | Some pb \<Rightarrow> reiser4_node_unlock pb tree)"

definition reiser4_tree_unload_node :: "nat \<Rightarrow> rtree \<Rightarrow> int \<times> rtree" where
  "reiser4_tree_unload_node blk tree = (0, reiser4_tree_disconnect_node blk tree)"

definition reiser4_tree_child_node :: "'d tree_env \<Rightarrow> nat \<Rightarrow> pos \<Rightarrow> rtree \<Rightarrow> nat option \<times> rtree" where
  "reiser4_tree_child_node E pb pos tree =
     (let (res, place) = node40_fetch (te_tab E) (node_at tree pb) pos
      in if res \<noteq> 0 then (None, tree)
         else if \<not> item_branch E place then (None, tree)
         else (let blk = item_link E place; (ok, tree) = reiser4_tree_load_node E (Some pb) blk tree
               in (if ok then Some blk else None, tree)))"

section \<open>Neighbours\<close>

datatype direction = DIR_LEFT | DIR_RIGHT

definition place_of :: "rtree \<Rightarrow> nat \<Rightarrow> pos \<Rightarrow> place" where
  "place_of tree blk pos =
     \<lparr>pl_pos = pos, pl_node = node_at tree blk, pl_body = 0, pl_len = 0, pl_off = 0, pl_key = key_plug_minimal (rt_kplug tree), pl_plug = 0\<rparr>"

text \<open>The way up to the level where there is a neighbour, and its position there; \<open>None\<close> inside is \<^verbatim>\<open>0\<close>, not found.\<close>

partial_function (option) neig_up ::
  "'d tree_env \<Rightarrow> rtree \<Rightarrow> direction \<Rightarrow> nat \<Rightarrow> nat \<Rightarrow> (nat \<times> nat \<times> pos) option option" where
  "neig_up E tree dir blk level =
     (case tn_p (tn_at tree blk) of
        None \<Rightarrow> Some None
      | Some pb \<Rightarrow>
          (let place = place_of tree pb (tn_ppos (tn_at tree blk));
               found = (case dir of DIR_LEFT \<Rightarrow> reiser4_place_gtfirst place | DIR_RIGHT \<Rightarrow> fst (reiser4_place_ltlast (te_tab E) place));
               i = item (pl_pos place)
           in if found then Some (Some (level + 1, pb, (pl_pos place)\<lparr>item := to_u32 (case dir of DIR_LEFT \<Rightarrow> int i - 1 | DIR_RIGHT \<Rightarrow> int i + 1)\<rparr>))
              else neig_up E tree dir pb (level + 1)))"

definition reiser4_tree_neig_place :: "'d tree_env \<Rightarrow> rtree \<Rightarrow> nat \<Rightarrow> direction \<Rightarrow> (nat \<times> nat \<times> pos) option option" where
  "reiser4_tree_neig_place E tree blk dir = neig_up E tree dir blk 0"

fun neig_down :: "'d tree_env \<Rightarrow> direction \<Rightarrow> nat \<Rightarrow> nat \<Rightarrow> pos \<Rightarrow> rtree \<Rightarrow> nat option \<times> rtree" where
  "neig_down E dir 0 blk pos tree = (Some blk, tree)"
| "neig_down E dir (Suc level) blk pos tree =
     (case reiser4_tree_child_node E blk pos tree of
        (None, tree) \<Rightarrow> (None, tree)
      | (Some child, tree) \<Rightarrow>
          (let place = place_of tree child pos;
               (res, place) = (case dir of DIR_LEFT \<Rightarrow> reiser4_place_last (te_tab E) place | DIR_RIGHT \<Rightarrow> reiser4_place_first place)
           in if res \<noteq> 0 then (None, tree) else neig_down E dir level child (pl_pos place) tree))"

definition set_siblings :: "direction \<Rightarrow> nat \<Rightarrow> nat \<Rightarrow> rtree \<Rightarrow> rtree" where
  "set_siblings dir blk neig tree =
     (case dir of
        DIR_LEFT \<Rightarrow> tn_update neig (\<lambda>n. n\<lparr>tn_right := Some blk\<rparr>) (tn_update blk (\<lambda>n. n\<lparr>tn_left := Some neig\<rparr>) tree)
      | DIR_RIGHT \<Rightarrow> tn_update neig (\<lambda>n. n\<lparr>tn_left := Some blk\<rparr>) (tn_update blk (\<lambda>n. n\<lparr>tn_right := Some neig\<rparr>) tree))"

definition reiser4_tree_ltrt_node :: "'d tree_env \<Rightarrow> nat \<Rightarrow> direction \<Rightarrow> rtree \<Rightarrow> (nat option \<times> rtree) option" where
  "reiser4_tree_ltrt_node E blk dir tree =
     (case reiser4_tree_neig_place E tree blk dir of
        None \<Rightarrow> None
      | Some None \<Rightarrow> Some (None, tree)
      | Some (Some (level, pb, pos)) \<Rightarrow>
          (case neig_down E dir level pb pos tree of
             (None, tree) \<Rightarrow> Some (None, tree)
           | (Some neig, tree) \<Rightarrow> Some (Some neig, set_siblings dir blk neig tree)))"

text \<open>Fetching into a place.\<close>

definition tree_place_fetch :: "'d tree_env \<Rightarrow> rtree \<Rightarrow> tplace \<Rightarrow> int \<times> tplace" where
  "tree_place_fetch E tree tp =
     (let (res, place) = node40_fetch (te_tab E) (node_at tree (the (tp_node tp))) (tp_pos tp)
      in (res, tp\<lparr>tp_item := Some place, tp_pos := pl_pos place\<rparr>))"

definition reiser4_tree_adjust_place :: "'d tree_env \<Rightarrow> tplace \<Rightarrow> rtree \<Rightarrow> (int \<times> tplace \<times> rtree) option" where
  "reiser4_tree_adjust_place E place tree =
     (let blk = the (tp_node place)
      in if item (tp_pos place) \<ge> node40_items (node_at tree blk) then
           (case reiser4_tree_ltrt_node E blk DIR_RIGHT tree of
              None \<Rightarrow> None
            | Some (_, tree) \<Rightarrow>
                (case tn_right (tn_at tree blk) of
                   Some right \<Rightarrow>
                     (let (res, tp) = tree_place_fetch E tree (place\<lparr>tp_node := Some right, tp_pos := \<lparr>item = 0, unit = 0\<rparr>\<rparr>)
                      in Some (res, tp, tree))
                 | None \<Rightarrow>
                     (case reiser4_tree_neig_place E tree blk DIR_RIGHT of
                        None \<Rightarrow> None
                      | Some None \<Rightarrow> Some (0, \<lparr>tp_node = None, tp_pos = \<lparr>item = 0, unit = 0\<rparr>, tp_item = None\<rparr>, tree)
                      | Some (Some (_, pb, pos)) \<Rightarrow>
                          (let (res, tp) = tree_place_fetch E tree (place\<lparr>tp_node := Some pb, tp_pos := pos\<rparr>) in Some (res, tp, tree)))))
         else (let (res, tp) = tree_place_fetch E tree place in Some (res, tp, tree)))"

partial_function (option) next_down :: "'d tree_env \<Rightarrow> tplace \<Rightarrow> rtree \<Rightarrow> (int \<times> tplace \<times> rtree) option" where
  "next_down E next_place tree =
     (let place = the (tp_item next_place)
      in if \<not> item_branch E place then Some (0, next_place, tree)
         else
           (let blk = item_link E place; (ok, tree) = reiser4_tree_load_node E (tp_node next_place) blk tree
            in if \<not> ok then Some (- EINVAL, next_place\<lparr>tp_node := None\<rparr>, tree)
               else
                 (let pos = pl_pos (snd (reiser4_place_first (place_of tree blk (tp_pos next_place))));
                      (res, tp) = tree_place_fetch E tree (next_place\<lparr>tp_node := Some blk, tp_pos := pos\<rparr>)
                  in if res \<noteq> 0 then Some (- EINVAL, tp, tree) else next_down E tp tree)))"

definition reiser4_tree_next_place :: "'d tree_env \<Rightarrow> tplace \<Rightarrow> rtree \<Rightarrow> (int \<times> tplace \<times> rtree) option" where
  "reiser4_tree_next_place E place tree =
     (case reiser4_tree_adjust_place E
             (place\<lparr>tp_pos := \<lparr>item = to_u32 (int (item (tp_pos place)) + 1), unit = 0\<rparr>\<rparr>) tree of
        None \<Rightarrow> None
      | Some (res, tp, tree) \<Rightarrow>
          (if res \<noteq> 0 then Some (- EINVAL, tp, tree)
           else if tp_node tp = None then Some (0, tp, tree)
           else next_down E tp tree))"

definition reiser4_tree_place_key :: "'d tree_env \<Rightarrow> rtree \<Rightarrow> nat \<Rightarrow> pos \<Rightarrow> (int \<times> reiser4_key) option" where
  "reiser4_tree_place_key E tree blk pos =
     (let start = (if item pos \<ge> node40_items (node_at tree blk)
                   then reiser4_tree_neig_place E tree blk DIR_RIGHT else Some (Some (0, blk, pos)))
      in case start of
           None \<Rightarrow> None
         | Some None \<Rightarrow> Some (0, key_plug_maximal (rt_kplug tree))
         | Some (Some (_, b, p)) \<Rightarrow>
             (let (res, place) = node40_fetch (te_tab E) (node_at tree b) p
              in if res \<noteq> 0 then Some (- EINVAL, key_plug_minimal (rt_kplug tree))
                 else Some (0, reiser4_item_get_key (place_plug (te_tab E) place) place (key_plug_minimal (rt_kplug tree)))))"

definition reiser4_tree_next_key :: "'d tree_env \<Rightarrow> rtree \<Rightarrow> nat \<Rightarrow> pos \<Rightarrow> (int \<times> reiser4_key) option" where
  "reiser4_tree_next_key E tree blk pos =
     reiser4_tree_place_key E tree blk \<lparr>item = to_u32 (int (item pos) + 1), unit = MAX_UINT32\<rparr>"

section \<open>Lookup\<close>

text \<open>
  The walk to the left over the items with the wanted key.  The inner loop goes over the items of one node in front
  of position \<open>i\<close>; it ends the search (\<open>True\<close>), or asks for the left neighbour.
\<close>

fun collision_items :: "'d tree_env \<Rightarrow> rtree \<Rightarrow> reiser4_key \<Rightarrow> nat \<Rightarrow> nat \<Rightarrow> nat \<Rightarrow> tplace \<Rightarrow> int \<times> bool \<times> tplace" where
  "collision_items E tree key blk 0 u place = (0, False, place)"
| "collision_items E tree key blk (Suc i) u place =
     (let (res, walk) = node40_fetch (te_tab E) (node_at tree blk) \<lparr>item = i, unit = u\<rparr>;
          plug = place_plug (te_tab E) walk
      in if res \<noteq> 0 then (- EINVAL, True, place)
         else if reiser4_key_compshort (pl_key walk) key \<noteq> 0 then (0, True, place)
         else if (case ip_maxposs_key plug of None \<Rightarrow> False
                  | Some f \<Rightarrow> reiser4_key_compfull (reiser4_item_maxposs_key plug walk) key < 0) then (0, True, place)
         else case ip_lookup plug of
           Some f \<Rightarrow>
             (let (res, walk) = f walk key FIND_EXACT
              in if res = PRESENT
                 then collision_items E tree key blk i (unit (pl_pos walk)) \<lparr>tp_node = Some blk, tp_pos = pl_pos walk, tp_item = Some walk\<rparr>
                 else (0, True, place))
         | None \<Rightarrow>
             (if reiser4_key_compfull (pl_key walk) key = 0
              then collision_items E tree key blk i (unit (pl_pos walk)) \<lparr>tp_node = Some blk, tp_pos = pl_pos walk, tp_item = Some walk\<rparr>
              else (0, True, place)))"

partial_function (option) collision_walk ::
  "'d tree_env \<Rightarrow> reiser4_key \<Rightarrow> nat \<Rightarrow> nat \<Rightarrow> nat \<Rightarrow> tplace \<Rightarrow> rtree \<Rightarrow> (int \<times> tplace \<times> rtree) option" where
  "collision_walk E key blk i u place tree =
     (let (res, stop, place) = collision_items E tree key blk i u place
      in if stop then Some (res, place, tree)
         else case reiser4_tree_ltrt_node E blk DIR_LEFT tree of
           None \<Rightarrow> None
         | Some (_, tree) \<Rightarrow>
             (case tn_left (tn_at tree blk) of
                None \<Rightarrow> Some (0, place, tree)
              | Some left \<Rightarrow> collision_walk E key left (node40_items (node_at tree left)) MAX_UINT32 place tree))"

definition reiser4_tree_collision_start ::
  "'d tree_env \<Rightarrow> reiser4_key \<Rightarrow> tplace \<Rightarrow> rtree \<Rightarrow> (int \<times> tplace \<times> rtree) option" where
  "reiser4_tree_collision_start E key place tree =
     (let (res, place) = tree_place_fetch E tree place
      in if res \<noteq> 0 then Some (- EINVAL, place, tree)
         else collision_walk E key (the (tp_node place)) (item (tp_pos place)) (unit (tp_pos place)) place tree)"

text \<open>
  The search.  \<open>collision\<close> is the callback of the hint that moves the place among colliding keys, \<open>None\<close> for a null
  pointer.
\<close>

record lookup_hint =
  lh_key :: reiser4_key
  lh_level :: nat
  lh_collision :: "(tplace \<Rightarrow> rtree \<Rightarrow> lookup_res \<times> tplace \<times> rtree) option"

definition lookup_finish ::
  "'d tree_env \<Rightarrow> lookup_hint \<Rightarrow> lookup_res \<Rightarrow> tplace \<Rightarrow> rtree \<Rightarrow> (lookup_res \<times> tplace \<times> rtree) option" where
  "lookup_finish E hint res place tree =
     (if res \<noteq> PRESENT then Some (res, place, tree)
      else case reiser4_tree_collision_start E (lh_key hint) place tree of
        None \<Rightarrow> None
      | Some (err, place, tree) \<Rightarrow>
          (if err \<noteq> 0 then Some (LOOKUP_EIO, place, tree)
           else
             (let (res, place, tree) = (case lh_collision hint of None \<Rightarrow> (PRESENT, place, tree) | Some f \<Rightarrow> f place tree)
              in if res = LOOKUP_EIO then Some (res, place, tree)
                 else (let (err, place) = tree_place_fetch E tree place
                       in if err \<noteq> 0 then Some (LOOKUP_EIO, place, tree) else Some (res, place, tree)))))"

partial_function (option) lookup_loop ::
  "'d tree_env \<Rightarrow> lookup_hint \<Rightarrow> lookup_bias \<Rightarrow> nat \<Rightarrow> rtree \<Rightarrow> (lookup_res \<times> tplace \<times> rtree) option" where
  "lookup_loop E hint bias blk tree =
     (let node = node_at tree blk; clevel = node40_get_level node;
          (res, pos) = reiser4_node_lookup (te_tab E) node (lh_key hint) (if clevel > lh_level hint then FIND_EXACT else bias);
          place = \<lparr>tp_node = Some blk, tp_pos = pos, tp_item = None\<rparr>
      in if clevel \<le> lh_level hint \<or> res = LOOKUP_EIO then lookup_finish E hint res place tree
         else if \<not> item pos < node40_items node then Some (ABSENT, place, tree)
         else
           (let (err, place) = tree_place_fetch E tree place; pl = the (tp_item place)
            in if err \<noteq> 0 then Some (LOOKUP_EIO, place, tree)
               else if \<not> item_branch E pl then Some (res, place, tree)
               else
                 (let child = item_link E pl; (ok, tree) = reiser4_tree_load_node E (Some blk) child tree
                  in if \<not> ok then Some (LOOKUP_EIO, place\<lparr>tp_node := None\<rparr>, tree)
                     else lookup_loop E hint bias child tree)))"

definition reiser4_tree_lookup ::
  "'d tree_env \<Rightarrow> lookup_hint \<Rightarrow> lookup_bias \<Rightarrow> rtree \<Rightarrow> (lookup_res \<times> tplace \<times> rtree) option" where
  "reiser4_tree_lookup E hint bias tree =
     (if reiser4_tree_fresh tree then Some (ABSENT, \<lparr>tp_node = None, tp_pos = no_pos, tp_item = None\<rparr>, tree)
      else
        (let (res, tree) = reiser4_tree_load_root E tree
         in if res < 0 then Some (LOOKUP_EIO, \<lparr>tp_node = None, tp_pos = \<lparr>item = 0, unit = 0\<rparr>, tp_item = None\<rparr>, tree)
            else lookup_loop E hint bias (the (rt_root tree)) tree))"

end
