(* ===== verification/TreeOk.thy ===== *)
theory TreeOk
  imports LibTree
begin

text \<open>
  The tree on the device as a search tree, what the cache holds of it, and the facts about both that the walks over
  the tree rely on.
\<close>

section \<open>The plugins of the items\<close>

text \<open>
  What the tree relies on from the table of item plugins: pointers are node pointers, initialising a place after it
  was fetched leaves its key and position, and the maximal key of an item is of its key plugin.
\<close>

locale item_plugins =
  fixes tab :: "'d item_table"
  assumes branch_plug: "tab pid = Some plug \<Longrightarrow> ip_group plug = PTR_ITEM \<Longrightarrow> plug = nodeptr40_plug"
    and init_keeps: "tab pid = Some plug \<Longrightarrow> ip_init plug = Some f \<Longrightarrow>
      pl_key (f p) = pl_key p \<and> pl_pos (f p) = pl_pos p \<and> pl_node (f p) = pl_node p \<and> pl_plug (f p) = pl_plug p"
    and maxposs_plug: "tab pid = Some plug \<Longrightarrow> ip_maxposs_key plug = Some g \<Longrightarrow> kplug (g p) = kplug (pl_key p)"

section \<open>Search trees\<close>

definition place_at :: "'d item_table \<Rightarrow> node40 \<Rightarrow> nat \<Rightarrow> nat \<Rightarrow> place" where
  "place_at tab nd i u = snd (node40_fetch tab nd \<lparr>item = i, unit = u\<rparr>)"

definition item_known :: "'d item_table \<Rightarrow> node40 \<Rightarrow> nat \<Rightarrow> bool" where
  "item_known tab nd i \<longleftrightarrow> fst (node40_fetch tab nd (whole_item i)) = 0"

definition is_ptr :: "'d tree_env \<Rightarrow> node40 \<Rightarrow> nat \<Rightarrow> bool" where
  "is_ptr E nd i \<longleftrightarrow> item_branch E (place_at (te_tab E) nd i MAX_UINT32)"

definition ptr_link :: "node40 \<Rightarrow> nat \<Rightarrow> nat" where
  "ptr_link nd i = get_le 8 (nd_mem nd) (node40_ib_by_ih nd (node40_ih_at nd i))"

definition key_at :: "node40 \<Rightarrow> nat \<Rightarrow> key_body" where
  "key_at nd i = kbody (node_key nd i)"

definition disk_node :: "'d tree_env \<Rightarrow> nat \<Rightarrow> key_plug \<Rightarrow> nat \<Rightarrow> node40 option" where
  "disk_node E sz kp blk = reiser4_node_open (te_dev E) sz kp blk"

definition upper_key :: "node40 \<Rightarrow> nat \<Rightarrow> key_body option \<Rightarrow> key_body option" where
  "upper_key nd i hi = (if Suc i < node40_items nd then Some (key_at nd (Suc i)) else hi)"

text \<open>One node: known items with ascending keys, all below \<open>hi\<close>.\<close>

definition node_ok :: "'d tree_env \<Rightarrow> key_plug \<Rightarrow> nat \<Rightarrow> node40 \<Rightarrow> key_body option \<Rightarrow> bool" where
  "node_ok E kp l nd hi \<longleftrightarrow> nd_keyed nd \<and> nd_kplug nd = kp \<and> node40_get_level nd = l \<and> 0 < node40_items nd \<and>
     (\<forall>i<node40_items nd. item_known (te_tab E) nd i \<and>
        (case upper_key nd i hi of None \<Rightarrow> True | Some h \<Rightarrow> key_plug_compraw kp (key_at nd i) h = -1))"

text \<open>
  The tree below a block, of level \<open>l\<close>: each pointer leads to a tree one level lower, whose first key is the key of the
  pointer and whose keys are below the next one.  Other items are allowed on every level, extents are on the second.
\<close>

fun tree_ok :: "'d tree_env \<Rightarrow> nat \<Rightarrow> key_plug \<Rightarrow> nat \<Rightarrow> nat \<Rightarrow> key_body option \<Rightarrow> bool" where
  "tree_ok E sz kp 0 blk hi = False"
| "tree_ok E sz kp (Suc l) blk hi =
     (case disk_node E sz kp blk of
        None \<Rightarrow> False
      | Some nd \<Rightarrow> node_ok E kp (Suc l) nd hi \<and>
          (\<forall>i<node40_items nd. is_ptr E nd i \<longrightarrow>
             tree_ok E sz kp l (ptr_link nd i) (upper_key nd i hi) \<and>
             (case disk_node E sz kp (ptr_link nd i) of
                None \<Rightarrow> False | Some c \<Rightarrow> key_plug_compraw kp (key_at c 0) (key_at nd i) = 0)))"

text \<open>The items of the tree that are no pointers, from left to right.\<close>

fun tree_items :: "'d tree_env \<Rightarrow> nat \<Rightarrow> key_plug \<Rightarrow> nat \<Rightarrow> nat \<Rightarrow> (nat \<times> nat) list" where
  "tree_items E sz kp 0 blk = []"
| "tree_items E sz kp (Suc l) blk =
     (case disk_node E sz kp blk of
        None \<Rightarrow> []
      | Some nd \<Rightarrow> concat (map (\<lambda>i. if is_ptr E nd i then tree_items E sz kp l (ptr_link nd i) else [(blk, i)]) [0..<node40_items nd]))"

definition item_key :: "'d tree_env \<Rightarrow> nat \<Rightarrow> key_plug \<Rightarrow> nat \<times> nat \<Rightarrow> key_body" where
  "item_key E sz kp x = key_at (the (disk_node E sz kp (fst x))) (snd x)"

text \<open>What an item says to a key above its own: the key is not above the largest possible one, and its lookup finds it.\<close>

definition item_covers :: "'d item_table \<Rightarrow> node40 \<Rightarrow> nat \<Rightarrow> nat \<Rightarrow> reiser4_key \<Rightarrow> bool" where
  "item_covers tab nd i u key \<longleftrightarrow>
     (let place = place_at tab nd i u; plug = place_plug tab place
      in (case ip_maxposs_key plug of None \<Rightarrow> True | Some f \<Rightarrow> reiser4_key_compfull key (reiser4_item_maxposs_key plug place) \<le> 0) \<and>
         (case ip_lookup plug of None \<Rightarrow> False | Some f \<Rightarrow> fst (f place key FIND_EXACT) = PRESENT))"

definition item_has :: "'d tree_env \<Rightarrow> nat \<Rightarrow> key_plug \<Rightarrow> reiser4_key \<Rightarrow> nat \<times> nat \<Rightarrow> bool" where
  "item_has E sz kp key x \<longleftrightarrow>
     key_plug_compraw kp (item_key E sz kp x) (kbody key) = 0 \<or>
     key_plug_compraw kp (item_key E sz kp x) (kbody key) = -1 \<and>
       item_covers (te_tab E) (the (disk_node E sz kp (fst x))) (snd x) MAX_UINT32 key"

text \<open>
  Items do not overlap: of the keys from its own on, an item covers only such as are below the keys of the items behind
  it, and its lookup does not fail.
\<close>

definition items_apart :: "'d tree_env \<Rightarrow> nat \<Rightarrow> key_plug \<Rightarrow> (nat \<times> nat) list \<Rightarrow> bool" where
  "items_apart E sz kp xs \<longleftrightarrow>
     (\<forall>x\<in>set xs. \<forall>u key. kplug key = kp \<and> key_plug_compraw kp (item_key E sz kp x) (kbody key) \<le> 0 \<longrightarrow>
        (let nd = the (disk_node E sz kp (fst x)); place = place_at (te_tab E) nd (snd x) u in
           (case ip_lookup (place_plug (te_tab E) place) of None \<Rightarrow> True | Some f \<Rightarrow> fst (f place key FIND_EXACT) \<noteq> LOOKUP_EIO) \<and>
           (item_covers (te_tab E) nd (snd x) u key \<longrightarrow>
              (\<forall>y\<in>set xs. key_plug_compraw kp (item_key E sz kp x) (item_key E sz kp y) = -1 \<longrightarrow>
                 key_plug_compraw kp (kbody key) (item_key E sz kp y) = -1))))"

text \<open>The right answer of a search among items.\<close>

definition lookup_answer :: "'d tree_env \<Rightarrow> nat \<Rightarrow> key_plug \<Rightarrow> (nat \<times> nat) list \<Rightarrow> reiser4_key \<Rightarrow> lookup_res \<Rightarrow> tplace \<Rightarrow> bool" where
  "lookup_answer E sz kp xs key res place \<longleftrightarrow>
     (case res of
        PRESENT \<Rightarrow> \<exists>b. tp_node place = Some b \<and> (b, item (tp_pos place)) \<in> set xs \<and> item_has E sz kp key (b, item (tp_pos place))
      | ABSENT \<Rightarrow> \<forall>x\<in>set xs. \<not> item_has E sz kp key x
      | LOOKUP_EIO \<Rightarrow> False)"

section \<open>Fetching\<close>

context item_plugins
begin

lemma fetch_unit:
  "fst (node40_fetch tab nd \<lparr>item = i, unit = u\<rparr>) = fst (node40_fetch tab nd \<lparr>item = i, unit = v\<rparr>)"
  by (simp add: node40_fetch_def Let_def split: option.splits)

lemma fetch_ok:
  assumes "item_known tab nd i"
  shows "node40_fetch tab nd \<lparr>item = i, unit = u\<rparr> = (0, place_at tab nd i u)"
  using assms fetch_unit [of nd i u MAX_UINT32] unfolding item_known_def place_at_def by (metis prod.collapse)

lemma place_at_simps:
  "pl_key (place_at tab nd i u) = node_key nd i" "pl_pos (place_at tab nd i u) = \<lparr>item = i, unit = u\<rparr>"
  "pl_node (place_at tab nd i u) = nd"
  "pl_plug (place_at tab nd i u) = ih_get_pid (nd_mem nd) (node40_ih_at nd i) (nd_keypol nd)"
  using init_keeps
  by (auto simp: place_at_def node40_fetch_def Let_def node_key_def node40_get_key_def split: option.splits)

lemma known_plug:
  "item_known tab nd i \<longleftrightarrow> tab (ih_get_pid (nd_mem nd) (node40_ih_at nd i) (nd_keypol nd)) \<noteq> None"
  by (simp add: item_known_def node40_fetch_def Let_def split: option.splits)

lemma place_plug_unit: "place_plug tab (place_at tab nd i u) = place_plug tab (place_at tab nd i v)"
  by (simp add: place_plug_def place_at_simps)

text \<open>Pointers.\<close>

lemma ptr_plug:
  assumes "item_known tab nd i" "reiser4_item_branch (place_plug tab (place_at tab nd i u))"
  shows "place_plug tab (place_at tab nd i v) = nodeptr40_plug"
    "place_at tab nd i v = \<lparr>pl_pos = \<lparr>item = i, unit = v\<rparr>, pl_node = nd, pl_body = node40_ib_by_ih nd (node40_ih_at nd i),
       pl_len = node40_len_by_ih nd (node40_ih_at nd i) i (nh_get_num_items nd), pl_off = 0, pl_key = node_key nd i,
       pl_plug = ih_get_pid (nd_mem nd) (node40_ih_at nd i) (nd_keypol nd)\<rparr>"
proof -
  obtain plug where plug: "tab (ih_get_pid (nd_mem nd) (node40_ih_at nd i) (nd_keypol nd)) = Some plug"
    using assms(1) by (auto simp: known_plug)
  have "place_plug tab (place_at tab nd i w) = plug" for w using plug by (simp add: place_plug_def place_at_simps)
  moreover then have "plug = nodeptr40_plug" using assms(2) branch_plug [OF plug] by (simp add: reiser4_item_branch_def)
  ultimately show "place_plug tab (place_at tab nd i v) = nodeptr40_plug"
    "place_at tab nd i v = \<lparr>pl_pos = \<lparr>item = i, unit = v\<rparr>, pl_node = nd, pl_body = node40_ib_by_ih nd (node40_ih_at nd i),
       pl_len = node40_len_by_ih nd (node40_ih_at nd i) i (nh_get_num_items nd), pl_off = 0, pl_key = node_key nd i,
       pl_plug = ih_get_pid (nd_mem nd) (node40_ih_at nd i) (nd_keypol nd)\<rparr>"
    using plug by (simp_all add: place_at_def node40_fetch_def Let_def nodeptr40_plug_def node_key_def node40_get_key_def)
qed

end

locale tree_items_env = item_plugins "te_tab E" for E :: "'d tree_env"
begin

lemma branch_unit: "item_branch E (place_at (te_tab E) nd i u) \<longleftrightarrow> is_ptr E nd i"
  using place_plug_unit [of nd i u MAX_UINT32] by (simp add: is_ptr_def item_branch_def)

lemma ptr_facts:
  assumes "item_known (te_tab E) nd i" "is_ptr E nd i"
  shows "item_link E (place_at (te_tab E) nd i u) = ptr_link nd i" "place_units (te_tab E) (place_at (te_tab E) nd i u) = 1"
    "ip_lookup (place_plug (te_tab E) (place_at (te_tab E) nd i u)) = None"
    "ip_maxposs_key (place_plug (te_tab E) (place_at (te_tab E) nd i u)) = None"
    "item_link E (place_unit (place_at (te_tab E) nd i u) v) = ptr_link nd i"
proof -
  note p = ptr_plug [OF assms(1) assms(2) [unfolded is_ptr_def item_branch_def]]
  show "item_link E (place_at (te_tab E) nd i u) = ptr_link nd i" "place_units (te_tab E) (place_at (te_tab E) nd i u) = 1"
    "ip_lookup (place_plug (te_tab E) (place_at (te_tab E) nd i u)) = None"
    "ip_maxposs_key (place_plug (te_tab E) (place_at (te_tab E) nd i u)) = None"
    by (simp_all add: item_link_def place_units_def p(1)) (simp_all add: p(2) nodeptr40_plug_def reiser4_item_down_link_def nodeptr40_fetch_units_def sp_ptr_def
        np40_get_ptr_def place_mem_def ptr_link_def reiser4_item_units_def nodeptr40_units_def)
  have "place_plug (te_tab E) (place_unit (place_at (te_tab E) nd i u) v) = nodeptr40_plug"
    using p(1) [of u] by (simp add: place_plug_def place_unit_def)
  then show "item_link E (place_unit (place_at (te_tab E) nd i u) v) = ptr_link nd i"
    by (simp add: item_link_def) (simp add: p(2) nodeptr40_plug_def reiser4_item_down_link_def nodeptr40_fetch_units_def sp_ptr_def
        np40_get_ptr_def place_mem_def ptr_link_def place_unit_def)
qed

end

end
