(* ===== verification/TreeCache.thy ===== *)
theory TreeCache
  imports TreeOk
begin

text \<open>The nodes below a block, the cache invariant, and that loading a node keeps it.\<close>

section \<open>Nodes of the tree\<close>

inductive sub_tree :: "'d tree_env \<Rightarrow> nat \<Rightarrow> key_plug \<Rightarrow> nat \<Rightarrow> nat \<Rightarrow> nat \<Rightarrow> nat \<Rightarrow> key_body option \<Rightarrow> bool"
  for E :: "'d tree_env" and sz :: nat and kp :: key_plug and h :: nat and root :: nat where
  sub_root: "tree_ok E sz kp h root None \<Longrightarrow> sub_tree E sz kp h root h root None"
| sub_child: "sub_tree E sz kp h root (Suc l) blk hi \<Longrightarrow> disk_node E sz kp blk = Some nd \<Longrightarrow> i < node40_items nd \<Longrightarrow>
    is_ptr E nd i \<Longrightarrow> sub_tree E sz kp h root l (ptr_link nd i) (upper_key nd i hi)"

lemma sub_tree_ok: "sub_tree E sz kp h root l blk hi \<Longrightarrow> tree_ok E sz kp l blk hi"
  by (induction rule: sub_tree.induct) auto

lemma tree_ok_node:
  assumes "tree_ok E sz kp l blk hi"
  obtains nd where "disk_node E sz kp blk = Some nd" "node_ok E kp l nd hi" "0 < l"
    "\<And>i. i < node40_items nd \<Longrightarrow> is_ptr E nd i \<Longrightarrow> tree_ok E sz kp (l - 1) (ptr_link nd i) (upper_key nd i hi)"
    "\<And>i. i < node40_items nd \<Longrightarrow> is_ptr E nd i \<Longrightarrow> \<exists>c. disk_node E sz kp (ptr_link nd i) = Some c \<and> key_plug_compraw kp (key_at c 0) (key_at nd i) = 0"
  using assms by (cases l) (auto split: option.splits)

lemma node_okD:
  assumes "node_ok E kp l nd hi"
  shows "nd_keyed nd" "nd_kplug nd = kp" "node40_get_level nd = l" "0 < node40_items nd" "node40_items nd < 65536"
    "i < node40_items nd \<Longrightarrow> item_known (te_tab E) nd i"
    "i < node40_items nd \<Longrightarrow> upper_key nd i hi = Some k \<Longrightarrow> key_plug_compraw kp (key_at nd i) k = -1"
proof -
  show k: "nd_keyed nd" "nd_kplug nd = kp" "node40_get_level nd = l" "0 < node40_items nd" using assms by (simp_all add: node_ok_def)
  show "node40_items nd < 65536" using k(1) nd_wfD [of nd] by (auto simp: nd_keyed_def node40_items_def)
  show "i < node40_items nd \<Longrightarrow> item_known (te_tab E) nd i"
    "i < node40_items nd \<Longrightarrow> upper_key nd i hi = Some k \<Longrightarrow> key_plug_compraw kp (key_at nd i) k = -1"
    using assms by (auto simp: node_ok_def)
qed

text \<open>Keys ascend in a node, and stay below its bound.\<close>

lemma keys_ascend:
  assumes "node_ok E kp l nd hi" "i < j" "j < node40_items nd"
  shows "key_plug_compraw kp (key_at nd i) (key_at nd j) = -1"
  using assms(2,3)
proof (induction j)
  case (Suc j)
  have s: "key_plug_compraw kp (key_at nd j) (key_at nd (Suc j)) = -1"
    using node_okD(7) [OF assms(1), of j "key_at nd (Suc j)"] Suc.prems by (simp add: upper_key_def)
  show ?case
  proof (cases "i = j")
    case False
    then have "key_plug_compraw kp (key_at nd i) (key_at nd j) = -1" using Suc by simp
    then show ?thesis using raw_keys.cmp_le_less_trans [OF _ s] by simp
  qed (use s in simp)
qed simp

lemma keys_below:
  assumes "node_ok E kp l nd (Some k)" "i < node40_items nd"
  shows "key_plug_compraw kp (key_at nd i) k = -1"
proof -
  let ?n = "node40_items nd - 1"
  have last: "key_plug_compraw kp (key_at nd ?n) k = -1"
    using node_okD(7) [OF assms(1), of ?n k] assms(2) by (simp add: upper_key_def)
  show ?thesis
  proof (cases "i = ?n")
    case False
    then have "key_plug_compraw kp (key_at nd i) (key_at nd ?n) = -1" using keys_ascend [OF assms(1), of i ?n] assms(2) by simp
    then show ?thesis using raw_keys.cmp_le_less_trans [OF _ last] by simp
  qed (use last in simp)
qed

text \<open>All items of the tree below a block have keys between its first key and its bound.\<close>

lemma items_between:
  assumes "tree_ok E sz kp l blk hi" "disk_node E sz kp blk = Some nd" "x \<in> set (tree_items E sz kp l blk)"
  shows "\<exists>nd'. disk_node E sz kp (fst x) = Some nd' \<and> snd x < node40_items nd' \<and> key_plug_compraw kp (key_at nd 0) (key_at nd' (snd x)) \<le> 0 \<and>
    (\<forall>k. hi = Some k \<longrightarrow> key_plug_compraw kp (key_at nd' (snd x)) k = -1) \<and> (\<exists>l' hi'. node_ok E kp l' nd' hi')"
  using assms
proof (induction l arbitrary: blk hi nd)
  case (Suc l)
  obtain n: "node_ok E kp (Suc l) nd hi"
    and ch: "\<And>i. i < node40_items nd \<Longrightarrow> is_ptr E nd i \<Longrightarrow> tree_ok E sz kp l (ptr_link nd i) (upper_key nd i hi)"
      "\<And>i. i < node40_items nd \<Longrightarrow> is_ptr E nd i \<Longrightarrow> \<exists>c. disk_node E sz kp (ptr_link nd i) = Some c \<and> key_plug_compraw kp (key_at c 0) (key_at nd i) = 0"
    using tree_ok_node [OF Suc.prems(1)] Suc.prems(2) by (metis diff_Suc_1 option.inject)
  have up: "key_plug_compraw kp (key_at nd 0) (key_at nd i) \<le> 0" if "i < node40_items nd" for i
    using keys_ascend [OF n, of 0 i] that by (cases "i = 0") simp_all
  obtain i where i: "i < node40_items nd" "x \<in> set (if is_ptr E nd i then tree_items E sz kp l (ptr_link nd i) else [(blk, i)])"
    using Suc.prems(2,3) by auto
  show ?case
  proof (cases "is_ptr E nd i")
    case True
    obtain c where c: "disk_node E sz kp (ptr_link nd i) = Some c" "key_plug_compraw kp (key_at c 0) (key_at nd i) = 0"
      using ch(2) [OF i(1) True] by blast
    obtain nd' where nd': "disk_node E sz kp (fst x) = Some nd'" "snd x < node40_items nd'"
      "key_plug_compraw kp (key_at c 0) (key_at nd' (snd x)) \<le> 0"
      "\<forall>k. upper_key nd i hi = Some k \<longrightarrow> key_plug_compraw kp (key_at nd' (snd x)) k = -1" "\<exists>l' hi'. node_ok E kp l' nd' hi'"
      using Suc.IH [OF ch(1) [OF i(1) True] c(1)] i(2) True by auto
    have "key_plug_compraw kp (key_at nd i) (key_at c 0) \<le> 0" using c(2) raw_keys.cmp_flip [of kp "key_at nd i" "key_at c 0"] by simp
    then have lo: "key_plug_compraw kp (key_at nd 0) (key_at nd' (snd x)) \<le> 0" using up [OF i(1)] nd'(3) raw_keys.cmp_trans by meson
    have "key_plug_compraw kp (key_at nd' (snd x)) k = -1" if "hi = Some k" for k
    proof (cases "Suc i < node40_items nd")
      case True
      then have "key_plug_compraw kp (key_at nd' (snd x)) (key_at nd (Suc i)) = -1" using nd'(4) by (simp add: upper_key_def)
      moreover have "key_plug_compraw kp (key_at nd (Suc i)) k = -1" using keys_below [of E kp "Suc l" nd k] n True that by simp
      ultimately show ?thesis using raw_keys.cmp_le_less_trans [of kp "key_at nd' (snd x)" "key_at nd (Suc i)" k] by simp
    next
      case False
      then show ?thesis using nd'(4) that by (simp add: upper_key_def)
    qed
    then show ?thesis using nd' lo by blast
  next
    case False
    then have "x = (blk, i)" using i(2) by simp
    then show ?thesis using Suc.prems(2) i(1) up [OF i(1)] n keys_below [of E kp "Suc l" nd] by auto
  qed
qed simp

text \<open>The first item below a block has the first key of the block.\<close>

lemma first_item:
  assumes "tree_ok E sz kp l blk hi" "disk_node E sz kp blk = Some nd"
  shows "\<exists>x nd'. x \<in> set (tree_items E sz kp l blk) \<and> disk_node E sz kp (fst x) = Some nd' \<and>
    key_plug_compraw kp (key_at nd' (snd x)) (key_at nd 0) = 0"
  using assms
proof (induction l arbitrary: blk hi nd)
  case (Suc l)
  obtain n: "node_ok E kp (Suc l) nd hi"
    and ch: "\<And>i. i < node40_items nd \<Longrightarrow> is_ptr E nd i \<Longrightarrow> tree_ok E sz kp l (ptr_link nd i) (upper_key nd i hi)"
      "\<And>i. i < node40_items nd \<Longrightarrow> is_ptr E nd i \<Longrightarrow> \<exists>c. disk_node E sz kp (ptr_link nd i) = Some c \<and> key_plug_compraw kp (key_at c 0) (key_at nd i) = 0"
    using tree_ok_node [OF Suc.prems(1)] Suc.prems(2) by (metis diff_Suc_1 option.inject)
  have i0: "0 < node40_items nd" using node_okD(4) [OF n] .
  show ?case
  proof (cases "is_ptr E nd 0")
    case True
    obtain c where c: "disk_node E sz kp (ptr_link nd 0) = Some c" "key_plug_compraw kp (key_at c 0) (key_at nd 0) = 0"
      using ch(2) [OF i0 True] by blast
    obtain x nd' where x: "x \<in> set (tree_items E sz kp l (ptr_link nd 0))" "disk_node E sz kp (fst x) = Some nd'"
      "key_plug_compraw kp (key_at nd' (snd x)) (key_at c 0) = 0" using Suc.IH [OF ch(1) [OF i0 True] c(1)] by blast
    have "x \<in> set (tree_items E sz kp (Suc l) blk)" using x(1) Suc.prems(2) True i0 by force
    moreover have "key_plug_compraw kp (key_at nd' (snd x)) (key_at nd 0) = 0"
      by (rule raw_keys.cmp_eq_trans [OF x(3) c(2)])
    ultimately show ?thesis using x(2) by blast
  next
    case False
    then have "(blk, 0) \<in> set (tree_items E sz kp (Suc l) blk)" using Suc.prems(2) i0 by force
    then show ?thesis using Suc.prems(2) by force
  qed
qed simp

section \<open>Levels\<close>

lemma level_unique:
  assumes "tree_ok E sz kp l blk hi" "tree_ok E sz kp l' blk hi'"
  shows "l = l'"
  using tree_ok_node [OF assms(1)] tree_ok_node [OF assms(2)] node_okD(3) by (metis option.inject)

lemma sub_tree_root: "sub_tree E sz kp h root l blk hi \<Longrightarrow> tree_ok E sz kp h root None"
  by (induction rule: sub_tree.induct) auto

lemma sub_level:
  assumes "sub_tree E sz kp h root l blk hi"
  shows "l \<le> h \<and> (l = h \<longrightarrow> blk = root)" "blk = root \<Longrightarrow> l = h" "0 < l"
proof -
  show "l \<le> h \<and> (l = h \<longrightarrow> blk = root)" using assms by (induction rule: sub_tree.induct) auto
  show "l = h" if "blk = root"
    using level_unique [OF sub_tree_ok [OF assms [unfolded that]] sub_tree_root [OF assms]] .
  show "0 < l" using sub_tree_ok [OF assms] by (rule tree_ok_node)
qed

section \<open>The cache\<close>

definition left_of :: "key_plug \<Rightarrow> tnode \<Rightarrow> tnode \<Rightarrow> bool" where
  "left_of kp l n \<longleftrightarrow> node40_get_level (tn_node l) = node40_get_level (tn_node n) \<and>
     key_plug_compraw kp (key_at (tn_node l) (node40_items (tn_node l) - 1)) (key_at (tn_node n) 0) = -1"

definition has_parent :: "'d tree_env \<Rightarrow> rtree \<Rightarrow> nat \<Rightarrow> tnode \<Rightarrow> bool" where
  "has_parent E tree blk n \<longleftrightarrow> (\<exists>pb pn i. tn_p n = Some pb \<and> tn_ppos n = whole_item i \<and> rt_nodes tree pb = Some pn \<and>
     i < node40_items (tn_node pn) \<and> is_ptr E (tn_node pn) i \<and> ptr_link (tn_node pn) i = blk)"

lemma has_parentE:
  assumes "has_parent E tree blk n"
  obtains pb pn i where "tn_p n = Some pb" "tn_ppos n = whole_item i" "rt_nodes tree pb = Some pn" "i < node40_items (tn_node pn)"
    "is_ptr E (tn_node pn) i" "ptr_link (tn_node pn) i = blk"
  using assms unfolding has_parent_def by blast

definition cached_ok :: "'d tree_env \<Rightarrow> nat \<Rightarrow> key_plug \<Rightarrow> nat \<Rightarrow> nat \<Rightarrow> rtree \<Rightarrow> nat \<Rightarrow> tnode \<Rightarrow> bool" where
  "cached_ok E sz kp h root tree blk n \<longleftrightarrow> disk_node E sz kp blk = Some (tn_node n) \<and> (\<exists>l hi. sub_tree E sz kp h root l blk hi) \<and>
     (if blk = root then tn_p n = None else has_parent E tree blk n) \<and>
     (\<forall>lb. tn_left n = Some lb \<longrightarrow> (\<exists>ln. rt_nodes tree lb = Some ln \<and> left_of kp ln n)) \<and>
     (\<forall>rb. tn_right n = Some rb \<longrightarrow> (\<exists>rn. rt_nodes tree rb = Some rn \<and> left_of kp n rn))"

definition cache_ok :: "'d tree_env \<Rightarrow> nat \<Rightarrow> key_plug \<Rightarrow> nat \<Rightarrow> nat \<Rightarrow> rtree \<Rightarrow> bool" where
  "cache_ok E sz kp h root tree \<longleftrightarrow> tree_ok E sz kp h root None \<and> root \<noteq> INVAL_BLK \<and> rt_root_blk tree = root \<and> rt_blksize tree = sz \<and> rt_kplug tree = kp \<and>
     (rt_root tree \<noteq> None \<longrightarrow> rt_root tree = Some root \<and> rt_nodes tree root \<noteq> None) \<and>
     (\<forall>b n. rt_nodes tree b = Some n \<longrightarrow> cached_ok E sz kp h root tree b n)"

text \<open>What a walk does to the cache: it adds nodes, and changes links and locks only.\<close>

definition cache_le :: "rtree \<Rightarrow> rtree \<Rightarrow> bool" where
  "cache_le tree tree' \<longleftrightarrow> (\<forall>b n. rt_nodes tree b = Some n \<longrightarrow> (\<exists>n'. rt_nodes tree' b = Some n' \<and> tn_node n' = tn_node n))"

lemma cache_le_refl [simp]: "cache_le tree tree"
  by (simp add: cache_le_def)

lemma cache_le_trans: "cache_le a b \<Longrightarrow> cache_le b c \<Longrightarrow> cache_le a c"
  unfolding cache_le_def by metis

lemma cache_le_at: "cache_le tree tree' \<Longrightarrow> rt_nodes tree b = Some n \<Longrightarrow> node_at tree' b = node_at tree b"
  unfolding cache_le_def node_at_def tn_at_def by fastforce

lemma cache_okD:
  assumes "cache_ok E sz kp h root tree" "rt_nodes tree b = Some n"
  shows "disk_node E sz kp b = Some (tn_node n)" "node_at tree b = tn_node n" "\<exists>l hi. sub_tree E sz kp h root l b hi"
    "cached_ok E sz kp h root tree b n"
proof -
  show c: "cached_ok E sz kp h root tree b n" using assms unfolding cache_ok_def by blast
  show "disk_node E sz kp b = Some (tn_node n)" "\<exists>l hi. sub_tree E sz kp h root l b hi" using c unfolding cached_ok_def by blast+
  show "node_at tree b = tn_node n" using assms(2) by (simp add: node_at_def tn_at_def)
qed

text \<open>Links and locks of cached nodes may change as long as the siblings are right.\<close>

lemma cache_ok_update:
  assumes "cache_ok E sz kp h root tree" "rt_nodes tree b = Some n"
    and f: "tn_node (f n) = tn_node n" "tn_p (f n) = tn_p n" "tn_ppos (f n) = tn_ppos n"
      "\<forall>lb. tn_left (f n) = Some lb \<longrightarrow> (\<exists>ln. rt_nodes tree lb = Some ln \<and> left_of kp ln n)"
      "\<forall>rb. tn_right (f n) = Some rb \<longrightarrow> (\<exists>rn. rt_nodes tree rb = Some rn \<and> left_of kp n rn)"
  shows "cache_ok E sz kp h root (tn_update b f tree)" "cache_le tree (tn_update b f tree)"
proof -
  let ?t = "tn_update b f tree"
  have nodes: "rt_nodes ?t c = (if c = b then Some (f n) else rt_nodes tree c)" for c using assms(2) by (simp add: tn_update_def)
  have same: "rt_nodes tree c = Some m \<Longrightarrow> \<exists>m'. rt_nodes ?t c = Some m' \<and> tn_node m' = tn_node m" for c m
    using assms(2) f(1) by (cases "c = b") (auto simp: nodes)
  have lo: "left_of kp m1 m2 \<longleftrightarrow> left_of kp m1' m2'" if "tn_node m1 = tn_node m1'" "tn_node m2 = tn_node m2'" for m1 m2 m1' m2'
    using that by (simp add: left_of_def)
  show "cache_le tree ?t" using same by (simp add: cache_le_def)
  have old: "rt_nodes tree c = Some m \<Longrightarrow> cached_ok E sz kp h root tree c m" for c m using assms(1) by (simp add: cache_ok_def)
  have "cached_ok E sz kp h root ?t c m'" if m': "rt_nodes ?t c = Some m'" for c m'
  proof -
    obtain m where m: "rt_nodes tree c = Some m" "tn_node m' = tn_node m" "tn_p m' = tn_p m" "tn_ppos m' = tn_ppos m"
        "\<forall>lb. tn_left m' = Some lb \<longrightarrow> (\<exists>ln. rt_nodes tree lb = Some ln \<and> left_of kp ln m)"
        "\<forall>rb. tn_right m' = Some rb \<longrightarrow> (\<exists>rn. rt_nodes tree rb = Some rn \<and> left_of kp m rn)"
      using m' f assms(2) old [of c] by (cases "c = b") (auto simp: nodes cached_ok_def)
    note o = old [OF m(1), unfolded cached_ok_def]
    have par: "has_parent E ?t c m'" if "c \<noteq> root"
    proof -
      have "has_parent E tree c m" using o that by simp
      then obtain pb pn i where p: "tn_p m = Some pb" "tn_ppos m = whole_item i" "rt_nodes tree pb = Some pn" "i < node40_items (tn_node pn)"
        "is_ptr E (tn_node pn) i" "ptr_link (tn_node pn) i = c" by (rule has_parentE)
      obtain pn' where "rt_nodes ?t pb = Some pn'" "tn_node pn' = tn_node pn" using same [OF p(3)] by blast
      then show ?thesis unfolding has_parent_def using p m(3,4) by (intro exI [of _ pb] exI [of _ pn'] exI [of _ i]) simp
    qed
    have sib: "\<exists>ln'. rt_nodes ?t lb = Some ln' \<and> tn_node ln' = tn_node ln" if "rt_nodes tree lb = Some ln" for lb ln using same [OF that] .
    have l: "\<forall>lb. tn_left m' = Some lb \<longrightarrow> (\<exists>ln. rt_nodes ?t lb = Some ln \<and> left_of kp ln m')"
      using m(5) sib lo m(2) by metis
    have r: "\<forall>rb. tn_right m' = Some rb \<longrightarrow> (\<exists>rn. rt_nodes ?t rb = Some rn \<and> left_of kp m' rn)"
      using m(6) sib lo m(2) by metis
    show ?thesis unfolding cached_ok_def using o m(2,3) par l r by presburger
  qed
  moreover have "rt_root_blk ?t = rt_root_blk tree" "rt_blksize ?t = rt_blksize tree" "rt_kplug ?t = rt_kplug tree" "rt_root ?t = rt_root tree"
    by (simp_all add: tn_update_def)
  ultimately show "cache_ok E sz kp h root ?t" using assms(1) nodes unfolding cache_ok_def by simp
qed

end
