(* ===== verification/TreeLoad.thy ===== *)
theory TreeLoad
  imports TreeCache
begin

text \<open>Loading nodes: the position of the pointer in the parent is found, and the cache stays right.\<close>

section \<open>The pointer to a child\<close>

context tree_items_env
begin

lemma check_pos:
  assumes "node_ok E kp l nd hi" "tree_check_pos E nd pos blk"
  shows "item pos < node40_items nd" "is_ptr E nd (item pos)" "ptr_link nd (item pos) = blk"
    "correct_place E nd pos = whole_item (item pos)"
proof -
  obtain i u where pos: "pos = \<lparr>item = i, unit = u\<rparr>" by (cases pos) simp
  have i: "i < node40_items nd" using assms(2) by (auto simp: tree_check_pos_def pos split: if_splits)
  note k = node_okD(6) [OF assms(1) i] and f = fetch_ok [OF node_okD(6) [OF assms(1) i], of u]
  have b: "is_ptr E nd i" "item_link E (place_at (te_tab E) nd i u) = blk"
    using assms(2) i by (simp_all add: tree_check_pos_def pos f branch_unit split: if_splits)
  show "item pos < node40_items nd" "is_ptr E nd (item pos)" "ptr_link nd (item pos) = blk"
    "correct_place E nd pos = whole_item (item pos)"
    using i b ptr_facts [OF k b(1)] by (simp_all add: pos correct_place_def f)
qed

lemma find_link_finds:
  assumes "node_ok E kp l nd hi" "i < node40_items nd" "is_ptr E nd i" "ptr_link nd i = blk" "a \<le> i" "node40_items nd = a + n"
  shows "\<exists>j<node40_items nd. find_link E nd blk a u n = (0, whole_item j) \<and> is_ptr E nd j \<and> ptr_link nd j = blk"
  using assms(5,6)
proof (induction n arbitrary: a u)
  case 0
  then show ?case using assms(2) by simp
next
  case (Suc n)
  have a: "a < node40_items nd" using Suc.prems(2) by simp
  note k = node_okD(6) [OF assms(1) a] and f = fetch_ok [OF node_okD(6) [OF assms(1) a], of u]
  show ?case
  proof (cases "is_ptr E nd a \<and> ptr_link nd a = blk")
    case True
    note p = ptr_facts [OF k conjunct1 [OF True]]
    have "find_link_unit E (place_at (te_tab E) nd a u) blk 0 1 = Some 0"
      using p(5) [of u 0] True by simp
    then have "find_link E nd blk a u (Suc n) = (0, whole_item a)"
      using True p(2) [of u] by (simp add: f branch_unit del: One_nat_def)
    then show ?thesis using True a by blast
  next
    case False
    then have "a \<noteq> i" using assms(3,4) by blast
    then have IH: "\<exists>j<node40_items nd. find_link E nd blk (Suc a) u n = (0, whole_item j) \<and> is_ptr E nd j \<and> ptr_link nd j = blk" for u
      using Suc.IH [of "Suc a"] Suc.prems by simp
    show ?thesis
    proof (cases "is_ptr E nd a")
      case True
      note p = ptr_facts [OF k True]
      have "find_link_unit E (place_at (te_tab E) nd a u) blk 0 1 = None"
        using p(5) [of u 0] True False by simp
      then have "find_link E nd blk a u (Suc n) = find_link E nd blk (Suc a) 0 n"
        using True p(2) [of u] by (simp add: f branch_unit)
      then show ?thesis using IH by presburger
    next
      case False
      then have "find_link E nd blk a u (Suc n) = find_link E nd blk (Suc a) u n" by (simp add: f branch_unit)
      then show ?thesis using IH by presburger
    qed
  qed
qed

lemma find_child:
  assumes "node_ok E kp l nd hi" "i < node40_items nd" "is_ptr E nd i" "ptr_link nd i = blk"
  shows "\<exists>j<node40_items nd. tree_find_child_pos E kp' nd blk c pos = (0, whole_item j) \<and> is_ptr E nd j \<and> ptr_link nd j = blk"
proof -
  obtain res q where q: "reiser4_node_lookup (te_tab E) nd (reiser4_node_leftmost_key c (key_plug_minimal kp')) FIND_EXACT = (res, q)"
    by fastforce
  have l: "\<exists>j<node40_items nd. find_link E nd blk 0 (unit q) (node40_items nd) = (0, whole_item j) \<and> is_ptr E nd j \<and> ptr_link nd j = blk"
    by (rule find_link_finds [OF assms]) simp_all
  consider "tree_check_pos E nd pos blk" | "\<not> tree_check_pos E nd pos blk" "tree_check_pos E nd q blk" "res = PRESENT"
    | "\<not> tree_check_pos E nd pos blk" "\<not> (res = PRESENT \<and> tree_check_pos E nd q blk)" by blast
  then show ?thesis
  proof cases
    case 1
    then show ?thesis using check_pos [OF assms(1) 1] by (intro exI [of _ "item pos"]) (simp add: tree_find_child_pos_def)
  next
    case 2
    then show ?thesis using check_pos [OF assms(1) 2(2)] by (intro exI [of _ "item q"]) (simp add: tree_find_child_pos_def q)
  next
    case 3
    have "tree_find_child_pos E kp' nd blk c pos = find_link E nd blk 0 (unit q) (node40_items nd)"
      unfolding tree_find_child_pos_def using 3 by (auto simp: q Let_def)
    then show ?thesis using l by presburger
  qed
qed

section \<open>Adding a node to the cache\<close>

lemma cache_ok_hash:
  assumes "cache_ok E sz kp h root tree" "rt_nodes tree b = None"
    and n: "disk_node E sz kp b = Some (tn_node n)" "sub_tree E sz kp h root l b hi" "if b = root then tn_p n = None else has_parent E tree b n"
      "tn_left n = None" "tn_right n = None"
    and r: "rt_root tree' = rt_root tree \<or> b = root \<and> rt_root tree' = Some root"
    and t: "rt_nodes tree' = (rt_nodes tree)(b := Some n)" "rt_root_blk tree' = rt_root_blk tree" "rt_blksize tree' = rt_blksize tree"
      "rt_kplug tree' = rt_kplug tree"
  shows "cache_ok E sz kp h root tree'" "cache_le tree tree'"
proof -
  have same: "rt_nodes tree c = Some m \<Longrightarrow> rt_nodes tree' c = Some m" for c m using assms(2) t(1) by (cases "c = b") auto
  show "cache_le tree tree'" using same unfolding cache_le_def by blast
  have par: "has_parent E tree c m \<Longrightarrow> has_parent E tree' c m" for c m using same unfolding has_parent_def by blast
  have old: "cached_ok E sz kp h root tree' c m" if "rt_nodes tree c = Some m" for c m
    using cache_okD(4) [OF assms(1) that] same par unfolding cached_ok_def by (cases "c = root") (simp, blast)+
  have new: "cached_ok E sz kp h root tree' b n"
    using n par unfolding cached_ok_def by (cases "b = root") (simp, blast)+
  have all: "cached_ok E sz kp h root tree' c m" if "rt_nodes tree' c = Some m" for c m
    using that old new t(1) by (cases "c = b") simp_all
  have "rt_root tree' \<noteq> None \<longrightarrow> rt_root tree' = Some root \<and> rt_nodes tree' root \<noteq> None"
    using r assms(1) t(1) unfolding cache_ok_def by auto
  then show "cache_ok E sz kp h root tree'" using assms(1) t(2-4) all unfolding cache_ok_def by simp
qed

lemma cache_lock:
  assumes "cache_ok E sz kp h root tree"
  shows "cache_ok E sz kp h root (reiser4_node_lock b tree)" "cache_le tree (reiser4_node_lock b tree)"
proof -
  have "cache_ok E sz kp h root (reiser4_node_lock b tree) \<and> cache_le tree (reiser4_node_lock b tree)"
  proof (cases "rt_nodes tree b")
    case None
    then have "(rt_nodes tree)(b := None) = rt_nodes tree" by auto
    then have "reiser4_node_lock b tree = tree" using None by (simp add: reiser4_node_lock_def tn_update_def)
    then show ?thesis using assms by simp
  next
    case (Some n)
    note c = cache_okD(4) [OF assms Some, unfolded cached_ok_def]
    show ?thesis unfolding reiser4_node_lock_def using c by (intro conjI cache_ok_update [OF assms Some]) simp_all
  qed
  then show "cache_ok E sz kp h root (reiser4_node_lock b tree)" "cache_le tree (reiser4_node_lock b tree)" by blast+
qed

text \<open>Loading the child behind a pointer of a cached node.\<close>

lemma load_child:
  assumes "cache_ok E sz kp h root tree" "rt_nodes tree pb = Some pn" "i < node40_items (tn_node pn)" "is_ptr E (tn_node pn) i"
    and "blk = ptr_link (tn_node pn) i"
  shows "\<exists>tree' n. reiser4_tree_load_node E (Some pb) blk tree = (True, tree') \<and> cache_ok E sz kp h root tree' \<and> cache_le tree tree' \<and>
    rt_nodes tree' blk = Some n \<and> disk_node E sz kp blk = Some (tn_node n)"
proof (cases "rt_nodes tree blk")
  case (Some n)
  then show ?thesis using assms(1) cache_okD(1) [OF assms(1) Some]
    by (auto simp: reiser4_tree_load_node_def reiser4_tree_lookup_node_def)
next
  case None
  note pd = cache_okD [OF assms(1,2)]
  obtain l hi where s: "sub_tree E sz kp h root l pb hi" using pd(3) by blast
  obtain nok: "node_ok E kp l (tn_node pn) hi" and lev: "0 < l"
    and c: "\<exists>c. disk_node E sz kp blk = Some c"
    using tree_ok_node [OF sub_tree_ok [OF s]] pd(1) assms(3,4,5) by (metis option.inject)
  obtain l' where l': "l = Suc l'" using lev by (cases l) simp_all
  have child: "sub_tree E sz kp h root l' blk (upper_key (tn_node pn) i hi)"
    unfolding assms(5) by (rule sub_child [OF s [unfolded l'] pd(1) assms(3,4)])
  have nroot: "blk \<noteq> root" using sub_level(1) [OF s] sub_level(2) [OF child] l' by auto
  obtain nd where nd: "disk_node E sz kp blk = Some nd" using c by blast
  define node where "node = \<lparr>tn_node = nd, tn_p = None, tn_ppos = no_pos, tn_left = None, tn_right = None, tn_counter = 0\<rparr>"
  obtain j where j: "j < node40_items (tn_node pn)" "tree_find_child_pos E kp (node_at tree pb) blk nd no_pos = (0, whole_item j)"
      "is_ptr E (tn_node pn) j" "ptr_link (tn_node pn) j = blk"
    using find_child [OF nok assms(3,4)] assms(5) pd(2) by metis
  let ?n = "node\<lparr>tn_p := Some pb, tn_ppos := whole_item j\<rparr>" and ?t = "reiser4_node_lock pb tree"
  let ?t' = "reiser4_tree_hash_node blk ?n ?t"
  have rt: "rt_root_blk tree = root" "rt_blksize tree = sz" "rt_kplug tree = kp" using assms(1) by (simp_all add: cache_ok_def)
  have load: "reiser4_tree_load_node E (Some pb) blk tree = (True, ?t')"
    using nd nroot j(2) None
    by (simp add: reiser4_tree_load_node_def reiser4_tree_lookup_node_def reiser4_tree_connect_node_def reiser4_tree_root_node_def
        disk_node_def rt node_def)
  note lock = cache_lock [OF assms(1), of pb]
  have "blk \<noteq> pb" using None assms(2) by auto
  then have none: "rt_nodes ?t blk = None" using None by (simp add: reiser4_node_lock_def tn_update_def)
  obtain pn' where pn': "rt_nodes ?t pb = Some pn'" "tn_node pn' = tn_node pn" using lock(2) assms(2) unfolding cache_le_def by blast
  have par: "has_parent E ?t blk ?n"
    unfolding has_parent_def using pn' j by (intro exI [of _ pb] exI [of _ pn'] exI [of _ j]) simp
  have "cache_ok E sz kp h root ?t' \<and> cache_le ?t ?t'"
    by (intro conjI cache_ok_hash [OF lock(1) none _ child, of ?n])
      (use nd nroot par in \<open>simp_all add: node_def reiser4_tree_hash_node_def\<close>)
  then have "cache_ok E sz kp h root ?t'" "cache_le tree ?t'" using cache_le_trans [OF lock(2)] by blast+
  moreover have "rt_nodes ?t' blk = Some ?n" "tn_node ?n = nd" by (simp_all add: reiser4_tree_hash_node_def node_def)
  ultimately show ?thesis using load nd by (intro exI [of _ ?t'] exI [of _ ?n]) (simp only: simp_thms)
qed

lemma load_root:
  assumes "cache_ok E sz kp h root tree"
  shows "\<exists>tree'. reiser4_tree_load_root E tree = (0, tree') \<and> cache_ok E sz kp h root tree' \<and> rt_root tree' = Some root \<and>
    rt_nodes tree' root \<noteq> None"
proof (cases "rt_root tree")
  case (Some r)
  then show ?thesis using assms by (simp add: reiser4_tree_load_root_def cache_ok_def)
next
  case r: None
  have rt: "rt_root_blk tree = root" "rt_blksize tree = sz" "rt_kplug tree = kp" and ok: "tree_ok E sz kp h root None"
    using assms by (simp_all add: cache_ok_def)
  show ?thesis
  proof (cases "rt_nodes tree root")
    case (Some n)
    have "cached_ok E sz kp h root (tree\<lparr>rt_root := Some root\<rparr>) b m = cached_ok E sz kp h root tree b m" for b m
      by (simp add: cached_ok_def has_parent_def)
    then have "cache_ok E sz kp h root (tree\<lparr>rt_root := Some root\<rparr>)" using assms Some by (simp add: cache_ok_def)
    then show ?thesis using r Some rt
      by (simp add: reiser4_tree_load_root_def reiser4_tree_load_node_def reiser4_tree_lookup_node_def)
  next
    case None
    obtain nd where nd: "disk_node E sz kp root = Some nd" using tree_ok_node [OF ok] by metis
    define node where "node = \<lparr>tn_node = nd, tn_p = None, tn_ppos = no_pos, tn_left = None, tn_right = None, tn_counter = 0\<rparr>"
    let ?t = "reiser4_tree_hash_node root node (tree\<lparr>rt_root := Some root\<rparr>)"
    have "reiser4_tree_load_root E tree = (0, ?t\<lparr>rt_root := Some root\<rparr>)"
      using nd r None by (simp add: reiser4_tree_load_root_def reiser4_tree_load_node_def reiser4_tree_lookup_node_def
          reiser4_tree_connect_node_def reiser4_tree_root_node_def disk_node_def rt node_def
          reiser4_tree_hash_node_def)
    moreover have "?t\<lparr>rt_root := Some root\<rparr> = ?t" by (simp add: reiser4_tree_hash_node_def)
    moreover have "cache_ok E sz kp h root ?t"
      by (rule cache_ok_hash(1) [OF assms None _ sub_root [OF ok], of node])
        (use nd in \<open>simp_all add: node_def reiser4_tree_hash_node_def\<close>)
    moreover have "rt_root ?t = Some root" "rt_nodes ?t root \<noteq> None" by (simp_all add: reiser4_tree_hash_node_def)
    ultimately show ?thesis by metis
  qed
qed

end

end
