(* ===== verification/TreeNeig.thy ===== *)
theory TreeNeig
  imports TreeLoad
begin

text \<open>The way to the left neighbour: it ends, it keeps the cache right, and what it finds lies to the left.\<close>

section \<open>Levels and parents of cached nodes\<close>

lemma cached_sub:
  assumes "cache_ok E sz kp h root tree" "rt_nodes tree b = Some n"
  obtains hi where "sub_tree E sz kp h root (node40_get_level (tn_node n)) b hi" "node_ok E kp (node40_get_level (tn_node n)) (tn_node n) hi"
proof -
  obtain l hi where s: "sub_tree E sz kp h root l b hi" using cache_okD(3) [OF assms] by blast
  have "node_ok E kp l (tn_node n) hi" using tree_ok_node [OF sub_tree_ok [OF s]] cache_okD(1) [OF assms] by (metis option.inject)
  then show ?thesis using s that node_okD(3) by metis
qed

lemma cached_parent:
  assumes "cache_ok E sz kp h root tree" "rt_nodes tree b = Some n" "tn_p n = Some pb"
  obtains pn i where "tn_ppos n = whole_item i" "rt_nodes tree pb = Some pn" "i < node40_items (tn_node pn)"
    "node40_get_level (tn_node pn) = Suc (node40_get_level (tn_node n))" "node40_get_level (tn_node pn) \<le> h"
    "key_plug_compraw kp (key_at (tn_node n) 0) (key_at (tn_node pn) i) = 0"
proof -
  have "has_parent E tree b n" using cache_okD(4) [OF assms(1,2)] assms(3) unfolding cached_ok_def by (cases "b = root") simp_all
  then obtain pn i where p: "tn_ppos n = whole_item i" "rt_nodes tree pb = Some pn" "i < node40_items (tn_node pn)"
    "is_ptr E (tn_node pn) i" "ptr_link (tn_node pn) i = b" using assms(3) by (rule_tac has_parentE) auto
  let ?l = "node40_get_level (tn_node pn)"
  obtain hi where s: "sub_tree E sz kp h root ?l pb hi" using cached_sub [OF assms(1) p(2)] by blast
  obtain l where l: "?l = Suc l" using sub_level(3) [OF s] by (cases ?l) simp_all
  have child: "sub_tree E sz kp h root l b (upper_key (tn_node pn) i hi)"
    using sub_child [OF s [unfolded l] cache_okD(1) [OF assms(1) p(2)] p(3,4)] p(5) by simp
  obtain hi' where s': "sub_tree E sz kp h root (node40_get_level (tn_node n)) b hi'" using cached_sub [OF assms(1,2)] by blast
  have "l = node40_get_level (tn_node n)" by (rule level_unique [OF sub_tree_ok [OF child] sub_tree_ok [OF s']])
  then have lev: "?l = Suc (node40_get_level (tn_node n))" using l by simp
  have "\<exists>c. disk_node E sz kp b = Some c \<and> key_plug_compraw kp (key_at c 0) (key_at (tn_node pn) i) = 0"
    using tree_ok_node [OF sub_tree_ok [OF s]] cache_okD(1) [OF assms(1) p(2)] p(3,4,5) by (metis option.inject)
  then have "key_plug_compraw kp (key_at (tn_node n) 0) (key_at (tn_node pn) i) = 0"
    using cache_okD(1) [OF assms(1,2)] by auto
  then show ?thesis using that p(1-3) lev sub_level(1) [OF s] by blast
qed

section \<open>Up\<close>

lemma neig_up_left:
  assumes "cache_ok E sz kp h root tree" "rt_nodes tree b = Some n"
  shows "\<exists>r. neig_up E tree DIR_LEFT b lev = Some r \<and> (\<forall>lev' pb pos. r = Some (lev', pb, pos) \<longrightarrow>
    (\<exists>pn i k. rt_nodes tree pb = Some pn \<and> pos = whole_item i \<and> Suc i < node40_items (tn_node pn) \<and> lev' = lev + Suc k \<and>
       node40_get_level (tn_node pn) = node40_get_level (tn_node n) + Suc k \<and>
       key_plug_compraw kp (key_at (tn_node pn) (Suc i)) (key_at (tn_node n) 0) = 0))"
  using assms(2)
proof (induction "h - node40_get_level (tn_node n)" arbitrary: b n lev rule: less_induct)
  case less
  have at: "tn_at tree b = n" using less.prems by (simp add: tn_at_def)
  show ?case
  proof (cases "tn_p n")
    case None
    then show ?thesis by (subst neig_up.simps) (simp add: at)
  next
    case (Some pb)
    obtain pn i where p: "tn_ppos n = whole_item i" "rt_nodes tree pb = Some pn" "i < node40_items (tn_node pn)"
      "node40_get_level (tn_node pn) = Suc (node40_get_level (tn_node n))" "node40_get_level (tn_node pn) \<le> h"
      "key_plug_compraw kp (key_at (tn_node n) 0) (key_at (tn_node pn) i) = 0"
      by (rule cached_parent [OF assms(1) less.prems Some])
    have sym: "key_plug_compraw kp (key_at (tn_node pn) i) (key_at (tn_node n) 0) = 0"
      using p(6) raw_keys.cmp_flip [of kp "key_at (tn_node pn) i" "key_at (tn_node n) 0"] by simp
    show ?thesis
    proof (cases i)
      case 0
      have up: "neig_up E tree DIR_LEFT b lev = neig_up E tree DIR_LEFT pb (lev + 1)"
        by (subst neig_up.simps) (simp add: at Some p(1) 0 place_of_def reiser4_place_gtfirst_def)
      obtain r where r: "neig_up E tree DIR_LEFT pb (lev + 1) = Some r" and rs: "\<And>lev' qb pos. r = Some (lev', qb, pos) \<Longrightarrow>
        (\<exists>qn j k. rt_nodes tree qb = Some qn \<and> pos = whole_item j \<and> Suc j < node40_items (tn_node qn) \<and> lev' = lev + 1 + Suc k \<and>
         node40_get_level (tn_node qn) = node40_get_level (tn_node pn) + Suc k \<and>
         key_plug_compraw kp (key_at (tn_node qn) (Suc j)) (key_at (tn_node pn) 0) = 0)"
        using less.hyps [OF _ p(2), of "lev + 1"] p(4,5) by force
      have "\<exists>qn j k. rt_nodes tree qb = Some qn \<and> pos = whole_item j \<and> Suc j < node40_items (tn_node qn) \<and> lev' = lev + Suc k \<and>
         node40_get_level (tn_node qn) = node40_get_level (tn_node n) + Suc k \<and>
         key_plug_compraw kp (key_at (tn_node qn) (Suc j)) (key_at (tn_node n) 0) = 0" if eq: "r = Some (lev', qb, pos)" for lev' qb pos
      proof -
        obtain qn j k where q: "rt_nodes tree qb = Some qn" "pos = whole_item j" "Suc j < node40_items (tn_node qn)" "lev' = lev + 1 + Suc k"
         "node40_get_level (tn_node qn) = node40_get_level (tn_node pn) + Suc k"
         "key_plug_compraw kp (key_at (tn_node qn) (Suc j)) (key_at (tn_node pn) 0) = 0" using rs [OF eq] by blast
        have "key_plug_compraw kp (key_at (tn_node qn) (Suc j)) (key_at (tn_node n) 0) = 0"
          by (rule raw_keys.cmp_eq_trans [OF q(6) sym [unfolded 0]])
        then show ?thesis using q p(4) by (intro exI [of _ qn] exI [of _ j] exI [of _ "Suc k"]) simp
      qed
      then show ?thesis using up r by metis
    next
      case (Suc j)
      obtain hi where "node_ok E kp (node40_get_level (tn_node pn)) (tn_node pn) hi" using cached_sub [OF assms(1) p(2)] by blast
      then have "node40_items (tn_node pn) < 65536" by (rule node_okD)
      then have "neig_up E tree DIR_LEFT b lev = Some (Some (lev + 1, pb, whole_item j))"
        using p(3) by (subst neig_up.simps) (simp add: at Some p(1) Suc place_of_def reiser4_place_gtfirst_def to_u32_id)
      then show ?thesis using p(2-4) sym by (auto simp: Suc intro!: exI [of _ 0])
    qed
  qed
qed

section \<open>Down\<close>

context tree_items_env
begin

lemma child_node:
  assumes "cache_ok E sz kp h root tree" "rt_nodes tree b = Some n" "i < node40_items (tn_node n)" "sub_tree E sz kp h root l b hi"
  shows "(\<exists>tree' c cn l'. reiser4_tree_child_node E b (whole_item i) tree = (Some c, tree') \<and> cache_ok E sz kp h root tree' \<and>
      cache_le tree tree' \<and> rt_nodes tree' c = Some cn \<and> l = Suc l' \<and> sub_tree E sz kp h root l' c (upper_key (tn_node n) i hi)) \<or>
    reiser4_tree_child_node E b (whole_item i) tree = (None, tree)"
proof -
  have nok: "node_ok E kp l (tn_node n) hi" and lev: "0 < l"
    using tree_ok_node [OF sub_tree_ok [OF assms(4)]] cache_okD(1) [OF assms(1,2)] by (metis option.inject)+
  obtain l' where l: "l = Suc l'" using lev by (cases l) simp_all
  note k = node_okD(6) [OF nok assms(3)] and at = cache_okD(2) [OF assms(1,2)]
  show ?thesis
  proof (cases "is_ptr E (tn_node n) i")
    case True
    obtain tree' cn where c: "reiser4_tree_load_node E (Some b) (ptr_link (tn_node n) i) tree = (True, tree')"
      "cache_ok E sz kp h root tree'" "cache_le tree tree'" "rt_nodes tree' (ptr_link (tn_node n) i) = Some cn"
      using load_child [OF assms(1-3) True refl] by blast
    have "reiser4_tree_child_node E b (whole_item i) tree = (Some (ptr_link (tn_node n) i), tree')"
      using c(1) True by (simp add: reiser4_tree_child_node_def at fetch_ok [OF k] branch_unit ptr_facts [OF k True])
    moreover have "sub_tree E sz kp h root l' (ptr_link (tn_node n) i) (upper_key (tn_node n) i hi)"
      by (rule sub_child [OF assms(4) [unfolded l] cache_okD(1) [OF assms(1,2)] assms(3) True])
    ultimately show ?thesis using c l by blast
  next
    case False
    then show ?thesis by (simp add: reiser4_tree_child_node_def at fetch_ok [OF k] branch_unit)
  qed
qed

lemma neig_down_left:
  assumes "cache_ok E sz kp h root tree" "rt_nodes tree b = Some n" "i < node40_items (tn_node n)" "sub_tree E sz kp h root l b hi"
    "upper_key (tn_node n) i hi = Some kk" "k = 0 \<Longrightarrow> i = node40_items (tn_node n) - 1"
  shows "\<exists>r tree'. neig_down E DIR_LEFT k b (whole_item i) tree = (r, tree') \<and> cache_ok E sz kp h root tree' \<and> cache_le tree tree' \<and>
    (\<forall>c. r = Some c \<longrightarrow> (\<exists>cn. rt_nodes tree' c = Some cn \<and> node40_get_level (tn_node cn) + k = l \<and>
       key_plug_compraw kp (key_at (tn_node cn) (node40_items (tn_node cn) - 1)) kk = -1))"
  using assms
proof (induction k arbitrary: tree b n i l hi)
  case 0
  have nok: "node_ok E kp l (tn_node n) hi"
    using tree_ok_node [OF sub_tree_ok [OF 0(4)]] cache_okD(1) [OF 0(1,2)] by (metis option.inject)
  show ?case using 0(1,2,6) node_okD(3) [OF nok] node_okD(7) [OF nok 0(3,5)] by simp
next
  case (Suc k)
  show ?case
  proof (cases "reiser4_tree_child_node E b (whole_item i) tree = (None, tree)")
    case True
    then show ?thesis using Suc.prems(1) by simp
  next
    case False
    obtain tree1 c cn l' where c: "reiser4_tree_child_node E b (whole_item i) tree = (Some c, tree1)" "cache_ok E sz kp h root tree1"
      "cache_le tree tree1" "rt_nodes tree1 c = Some cn" "l = Suc l'" "sub_tree E sz kp h root l' c (upper_key (tn_node n) i hi)"
      using child_node [OF Suc.prems(1-4)] False by blast
    have nok: "node_ok E kp l' (tn_node cn) (upper_key (tn_node n) i hi)"
      using tree_ok_node [OF sub_tree_ok [OF c(6)]] cache_okD(1) [OF c(2,4)] by (metis option.inject)
    let ?j = "node40_items (tn_node cn) - 1"
    note items = node_okD(4,5) [OF nok]
    have j: "?j < node40_items (tn_node cn)" using items by simp
    have "pl_pos (snd (reiser4_place_last (te_tab E) (place_of tree1 c (whole_item i)))) = whole_item ?j"
      "fst (reiser4_place_last (te_tab E) (place_of tree1 c (whole_item i))) = 0"
      using items by (simp_all add: reiser4_place_last_def place_of_def place_item_def cache_okD(2) [OF c(2,4)] to_u32_id of_nat_diff Let_def)
    then have d: "neig_down E DIR_LEFT (Suc k) b (whole_item i) tree = neig_down E DIR_LEFT k c (whole_item ?j) tree1"
      using c(1) by (simp add: case_prod_beta)
    have "upper_key (tn_node cn) ?j (upper_key (tn_node n) i hi) = Some kk" using Suc.prems(5) items by (simp add: upper_key_def)
    then obtain r tree' where "neig_down E DIR_LEFT k c (whole_item ?j) tree1 = (r, tree')" "cache_ok E sz kp h root tree'" "cache_le tree1 tree'"
      "\<forall>c. r = Some c \<longrightarrow> (\<exists>cn. rt_nodes tree' c = Some cn \<and> node40_get_level (tn_node cn) + k = l' \<and>
       key_plug_compraw kp (key_at (tn_node cn) (node40_items (tn_node cn) - 1)) kk = -1)"
      using Suc.IH [OF c(2,4) j c(6)] by blast
    then show ?thesis using d c(3,5) cache_le_trans by fastforce
  qed
qed

lemma ltrt_left:
  assumes "cache_ok E sz kp h root tree" "rt_nodes tree b = Some n"
  shows "\<exists>r tree'. reiser4_tree_ltrt_node E b DIR_LEFT tree = Some (r, tree') \<and> cache_ok E sz kp h root tree' \<and> cache_le tree tree'"
proof -
  obtain r where up: "neig_up E tree DIR_LEFT b 0 = Some r" and r: "\<And>lev pb pos. r = Some (lev, pb, pos) \<Longrightarrow>
    \<exists>pn i k. rt_nodes tree pb = Some pn \<and> pos = whole_item i \<and> Suc i < node40_items (tn_node pn) \<and> lev = 0 + Suc k \<and>
       node40_get_level (tn_node pn) = node40_get_level (tn_node n) + Suc k \<and>
       key_plug_compraw kp (key_at (tn_node pn) (Suc i)) (key_at (tn_node n) 0) = 0"
    using neig_up_left [OF assms, of 0] by blast
  show ?thesis
  proof (cases r)
    case None
    then show ?thesis using up assms(1) by (simp add: reiser4_tree_ltrt_node_def reiser4_tree_neig_place_def)
  next
    case (Some t)
    obtain lev pb pos where t: "t = (lev, pb, pos)" by (cases t) auto
    obtain pn i k where p: "rt_nodes tree pb = Some pn" "pos = whole_item i" "Suc i < node40_items (tn_node pn)" "lev = Suc k"
       "node40_get_level (tn_node pn) = node40_get_level (tn_node n) + Suc k"
       "key_plug_compraw kp (key_at (tn_node pn) (Suc i)) (key_at (tn_node n) 0) = 0"
      using r [of lev pb pos] Some t by auto
    obtain hi where s: "sub_tree E sz kp h root (node40_get_level (tn_node pn)) pb hi" using cached_sub [OF assms(1) p(1)] by blast
    have kk: "upper_key (tn_node pn) i hi = Some (key_at (tn_node pn) (Suc i))" using p(3) by (simp add: upper_key_def)
    obtain r' tree1 where d: "neig_down E DIR_LEFT lev pb pos tree = (r', tree1)" "cache_ok E sz kp h root tree1" "cache_le tree tree1"
      "\<And>c. r' = Some c \<Longrightarrow> (\<exists>cn. rt_nodes tree1 c = Some cn \<and> node40_get_level (tn_node cn) + lev = node40_get_level (tn_node pn) \<and>
         key_plug_compraw kp (key_at (tn_node cn) (node40_items (tn_node cn) - 1)) (key_at (tn_node pn) (Suc i)) = -1)"
      using neig_down_left [OF assms(1) p(1) _ s kk, of lev] p(2-4) by auto
    show ?thesis
    proof (cases r')
      case None
      then show ?thesis using up d(1-3) by (simp add: reiser4_tree_ltrt_node_def reiser4_tree_neig_place_def Some t)
    next
      case c: (Some c)
      obtain cn where cn: "rt_nodes tree1 c = Some cn" "node40_get_level (tn_node cn) + lev = node40_get_level (tn_node pn)"
         "key_plug_compraw kp (key_at (tn_node cn) (node40_items (tn_node cn) - 1)) (key_at (tn_node pn) (Suc i)) = -1"
        using d(4) [OF c] by blast
      obtain n1 where n1: "rt_nodes tree1 b = Some n1" "tn_node n1 = tn_node n" using d(3) assms(2) unfolding cache_le_def by blast
      have "key_plug_compraw kp (key_at (tn_node cn) (node40_items (tn_node cn) - 1)) (key_at (tn_node n) 0) = -1"
        using raw_keys.cmp_less_le_trans [OF cn(3), of "key_at (tn_node n) 0"] p(6) by simp
      then have lo: "left_of kp cn n1" using cn(2) p(4,5) n1(2) by (simp add: left_of_def)
      note c1 = cache_okD(4) [OF d(2) n1(1), unfolded cached_ok_def]
      let ?t2 = "tn_update b (\<lambda>n. n\<lparr>tn_left := Some c\<rparr>) tree1"
      have t2: "cache_ok E sz kp h root ?t2" "cache_le tree1 ?t2"
        using c1 cn(1) lo by (intro cache_ok_update [OF d(2) n1(1)]; simp)+
      obtain cn2 where cn2: "rt_nodes ?t2 c = Some cn2" "tn_node cn2 = tn_node cn" using t2(2) cn(1) unfolding cache_le_def by blast
      obtain n2 where n2: "rt_nodes ?t2 b = Some n2" "tn_node n2 = tn_node n1" using t2(2) n1(1) unfolding cache_le_def by blast
      have lo2: "left_of kp cn2 n2" using lo cn2(2) n2(2) by (simp add: left_of_def)
      note c2 = cache_okD(4) [OF t2(1) cn2(1), unfolded cached_ok_def]
      let ?t3 = "tn_update c (\<lambda>n. n\<lparr>tn_right := Some b\<rparr>) ?t2"
      have t3: "cache_ok E sz kp h root ?t3" "cache_le ?t2 ?t3"
        using c2 n2(1) lo2 by (intro cache_ok_update [OF t2(1) cn2(1)]; simp)+
      have "reiser4_tree_ltrt_node E b DIR_LEFT tree = Some (Some c, ?t3)"
        using up d(1) by (simp add: reiser4_tree_ltrt_node_def reiser4_tree_neig_place_def Some t c set_siblings_def)
      then show ?thesis using t3(1) cache_le_trans [OF d(3) cache_le_trans [OF t2(2) t3(2)]] by blast
    qed
  qed
qed

end

end
