(* ===== verification/TreeFind.thy ===== *)
theory TreeFind
  imports TreeNeig
begin

text \<open>Where the items with a key are: the search of one node, and the items of a node on either side of the key.\<close>

section \<open>Items of a node in the tree\<close>

definition node_seg :: "'d tree_env \<Rightarrow> nat \<Rightarrow> key_plug \<Rightarrow> nat \<Rightarrow> nat \<Rightarrow> node40 \<Rightarrow> nat \<Rightarrow> (nat \<times> nat) list" where
  "node_seg E sz kp l blk nd i = (if is_ptr E nd i then tree_items E sz kp l (ptr_link nd i) else [(blk, i)])"

lemma items_seg:
  assumes "disk_node E sz kp blk = Some nd"
  shows "x \<in> set (tree_items E sz kp (Suc l) blk) \<longleftrightarrow> (\<exists>i<node40_items nd. x \<in> set (node_seg E sz kp l blk nd i))"
  using assms by (auto simp: node_seg_def)

lemma sub_items:
  assumes "sub_tree E sz kp h root l blk hi"
  shows "set (tree_items E sz kp l blk) \<subseteq> set (tree_items E sz kp h root)"
  using assms
proof (induction rule: sub_tree.induct)
  case (sub_child l blk hi nd i)
  have "set (tree_items E sz kp l (ptr_link nd i)) \<subseteq> set (tree_items E sz kp (Suc l) blk)"
    using items_seg [OF sub_child.hyps(2), of _ l] sub_child.hyps(3,4) by (auto simp: node_seg_def simp del: tree_items.simps)
  then show ?case using sub_child.IH by blast
qed simp

lemma item_key_at: "disk_node E sz kp b = Some nd \<Longrightarrow> item_key E sz kp (b, i) = key_at nd i"
  by (simp add: item_key_def)

text \<open>The keys of the items behind position \<open>i\<close> of a node.\<close>

lemma seg_keys:
  assumes "tree_ok E sz kp (Suc l) blk hi" "disk_node E sz kp blk = Some nd" "i < node40_items nd" "x \<in> set (node_seg E sz kp l blk nd i)"
  shows "key_plug_compraw kp (key_at nd i) (item_key E sz kp x) \<le> 0"
    "Suc i < node40_items nd \<Longrightarrow> key_plug_compraw kp (item_key E sz kp x) (key_at nd (Suc i)) = -1"
proof -
  obtain n: "node_ok E kp (Suc l) nd hi"
    and ch: "is_ptr E nd i \<Longrightarrow> tree_ok E sz kp l (ptr_link nd i) (upper_key nd i hi)"
      "is_ptr E nd i \<Longrightarrow> \<exists>c. disk_node E sz kp (ptr_link nd i) = Some c \<and> key_plug_compraw kp (key_at c 0) (key_at nd i) = 0"
    using tree_ok_node [OF assms(1)] assms(2,3) by (metis diff_Suc_1 option.inject)
  have "key_plug_compraw kp (key_at nd i) (item_key E sz kp x) \<le> 0 \<and>
    (Suc i < node40_items nd \<longrightarrow> key_plug_compraw kp (item_key E sz kp x) (key_at nd (Suc i)) = -1)"
  proof (cases "is_ptr E nd i")
    case True
    obtain c where c: "disk_node E sz kp (ptr_link nd i) = Some c" "key_plug_compraw kp (key_at c 0) (key_at nd i) = 0"
      using ch(2) [OF True] by blast
    obtain nd' where nd': "disk_node E sz kp (fst x) = Some nd'" "key_plug_compraw kp (key_at c 0) (key_at nd' (snd x)) \<le> 0"
      "\<forall>k. upper_key nd i hi = Some k \<longrightarrow> key_plug_compraw kp (key_at nd' (snd x)) k = -1"
      using items_between [OF ch(1) [OF True] c(1), of x] assms(4) True by (auto simp: node_seg_def)
    have "key_plug_compraw kp (key_at nd i) (key_at c 0) \<le> 0" using c(2) raw_keys.cmp_flip [of kp "key_at nd i" "key_at c 0"] by simp
    then have "key_plug_compraw kp (key_at nd i) (key_at nd' (snd x)) \<le> 0" using nd'(2) raw_keys.cmp_trans by meson
    then show ?thesis using nd' by (simp add: item_key_def upper_key_def)
  next
    case False
    then have x: "x = (blk, i)" using assms(4) by (simp add: node_seg_def)
    then show ?thesis using assms(2) keys_ascend [OF n, of i "Suc i"] by (simp add: item_key_def)
  qed
  then show "key_plug_compraw kp (key_at nd i) (item_key E sz kp x) \<le> 0"
    "Suc i < node40_items nd \<Longrightarrow> key_plug_compraw kp (item_key E sz kp x) (key_at nd (Suc i)) = -1" by blast+
qed

lemma seg_first:
  assumes "tree_ok E sz kp (Suc l) blk hi" "disk_node E sz kp blk = Some nd" "i < node40_items nd"
  shows "\<exists>x\<in>set (node_seg E sz kp l blk nd i). key_plug_compraw kp (item_key E sz kp x) (key_at nd i) = 0"
proof (cases "is_ptr E nd i")
  case True
  have ch: "tree_ok E sz kp l (ptr_link nd i) (upper_key nd i hi)"
      "\<exists>c. disk_node E sz kp (ptr_link nd i) = Some c \<and> key_plug_compraw kp (key_at c 0) (key_at nd i) = 0"
    using tree_ok_node [OF assms(1)] assms(2,3) True by (metis diff_Suc_1 option.inject)+
  obtain c where c: "disk_node E sz kp (ptr_link nd i) = Some c" "key_plug_compraw kp (key_at c 0) (key_at nd i) = 0"
    using ch(2) by blast
  obtain x nd' where x: "x \<in> set (tree_items E sz kp l (ptr_link nd i))" "disk_node E sz kp (fst x) = Some nd'"
    "key_plug_compraw kp (key_at nd' (snd x)) (key_at c 0) = 0" using first_item [OF ch(1) c(1)] by blast
  show ?thesis
    using x(1,2) True raw_keys.cmp_eq_trans [OF x(3) c(2)] by (intro bexI [of _ x]) (simp_all add: node_seg_def item_key_def)
qed (use assms(2) in \<open>simp add: node_seg_def item_key_def\<close>)

section \<open>Items without the key\<close>

lemma apart_before:
  assumes "items_apart E sz kp xs" "x \<in> set xs" "y \<in> set xs" "kplug key = kp"
    and "key_plug_compraw kp (item_key E sz kp x) (item_key E sz kp y) = -1" "key_plug_compraw kp (item_key E sz kp y) (kbody key) \<le> 0"
  shows "key_plug_compraw kp (item_key E sz kp x) (kbody key) = -1"
    "\<not> item_covers (te_tab E) (the (disk_node E sz kp (fst x))) (snd x) u key" "\<not> item_has E sz kp key x"
proof -
  show lt: "key_plug_compraw kp (item_key E sz kp x) (kbody key) = -1" by (rule raw_keys.cmp_less_le_trans [OF assms(5,6)])
  show c: "\<not> item_covers (te_tab E) (the (disk_node E sz kp (fst x))) (snd x) u key" for u
  proof
    assume "item_covers (te_tab E) (the (disk_node E sz kp (fst x))) (snd x) u key"
    then have "key_plug_compraw kp (kbody key) (item_key E sz kp y) = -1"
      using assms(1-5) lt unfolding items_apart_def Let_def by fastforce
    then show False using assms(6) raw_keys.cmp_flip [of kp "kbody key" "item_key E sz kp y"] by simp
  qed
  show "\<not> item_has E sz kp key x" using lt c by (simp add: item_has_def)
qed

lemma apart_lookup:
  assumes "items_apart E sz kp xs" "x \<in> set xs" "kplug key = kp" "key_plug_compraw kp (item_key E sz kp x) (kbody key) \<le> 0"
    and "place = place_at (te_tab E) (the (disk_node E sz kp (fst x))) (snd x) u" "ip_lookup (place_plug (te_tab E) place) = Some f"
  shows "fst (f place key FIND_EXACT) \<noteq> LOOKUP_EIO"
  using assms(1) [unfolded items_apart_def Let_def, rule_format, OF assms(2), of key u] assms(3-6) by simp

lemma seg_after:
  assumes "tree_ok E sz kp (Suc l) blk hi" "disk_node E sz kp blk = Some nd" "i < node40_items nd" "x \<in> set (node_seg E sz kp l blk nd i)"
    "key_plug_compraw kp (key_at nd i) (kbody key) = 1"
  shows "\<not> item_has E sz kp key x"
proof -
  have "key_plug_compraw kp (kbody key) (key_at nd i) = -1" using assms(5) raw_keys.cmp_flip [of kp "kbody key" "key_at nd i"] by simp
  then have "key_plug_compraw kp (kbody key) (item_key E sz kp x) = -1"
    using seg_keys(1) [OF assms(1-4)] by (rule raw_keys.cmp_less_le_trans)
  then show ?thesis using raw_keys.cmp_flip [of kp "item_key E sz kp x" "kbody key"] by (simp add: item_has_def)
qed

lemma seg_before:
  assumes "tree_ok E sz kp (Suc l) blk hi" "disk_node E sz kp blk = Some nd" "j < i" "i < node40_items nd" "x \<in> set (node_seg E sz kp l blk nd j)"
    "key_plug_compraw kp (key_at nd i) (kbody key) \<le> 0" "kplug key = kp"
    and "items_apart E sz kp xs" "set (tree_items E sz kp (Suc l) blk) \<subseteq> set xs"
  shows "\<not> item_has E sz kp key x"
proof -
  have n: "node_ok E kp (Suc l) nd hi" using tree_ok_node [OF assms(1)] assms(2) by (metis option.inject)
  obtain y where y: "y \<in> set (node_seg E sz kp l blk nd i)" "key_plug_compraw kp (item_key E sz kp y) (key_at nd i) = 0"
    using seg_first [OF assms(1,2,4)] by blast
  have in_xs: "x \<in> set xs" "y \<in> set xs"
    using assms(3-5,9) y(1) items_seg [OF assms(2), of x l] items_seg [OF assms(2), of y l] less_trans by blast+
  have "key_plug_compraw kp (item_key E sz kp x) (key_at nd (Suc j)) = -1" using seg_keys(2) [OF assms(1,2) _ assms(5)] assms(3,4) by simp
  moreover have "key_plug_compraw kp (key_at nd (Suc j)) (key_at nd i) \<le> 0"
    using keys_ascend [OF n, of "Suc j" i] assms(3,4) by (cases "Suc j = i") simp_all
  ultimately have "key_plug_compraw kp (item_key E sz kp x) (key_at nd i) = -1" by (rule raw_keys.cmp_less_le_trans)
  then have lt: "key_plug_compraw kp (item_key E sz kp x) (item_key E sz kp y) = -1"
    using y(2) raw_keys.cmp_flip [of kp "key_at nd i" "item_key E sz kp y"] raw_keys.cmp_less_le_trans by simp
  have "key_plug_compraw kp (item_key E sz kp y) (kbody key) \<le> 0"
    using raw_keys.cmp_trans [of kp "item_key E sz kp y" "key_at nd i" "kbody key"] y(2) assms(6) by simp
  then show ?thesis by (rule apart_before(3) [OF assms(8) in_xs assms(7) lt])
qed

section \<open>The search of one node\<close>

lemma node_find:
  assumes "node_ok E kp l nd hi" "kplug key = kp"
  obtains (found) i where "node40_lookup nd key = (PRESENT, i)" "i < node40_items nd" "key_plug_compraw kp (key_at nd i) (kbody key) = 0"
  | (front) "node40_lookup nd key = (ABSENT, 0)" "\<And>j. j < node40_items nd \<Longrightarrow> key_plug_compraw kp (key_at nd j) (kbody key) = 1"
  | (behind) i where "node40_lookup nd key = (ABSENT, Suc i)" "i < node40_items nd" "key_plug_compraw kp (key_at nd i) (kbody key) = -1"
      "\<And>j. i < j \<Longrightarrow> j < node40_items nd \<Longrightarrow> key_plug_compraw kp (key_at nd j) (kbody key) = 1"
proof -
  note n = node_okD [OF assms(1)]
  have kp: "kplug (node_key nd i) = kp" for i using n(2) by (simp add: node_key_def node40_get_key_def node40_get_key_by_ih_def)
  have cf: "reiser4_key_compfull (node_key nd i) k = key_plug_compraw kp (key_at nd i) (kbody k)" for i k
    unfolding key_at_def by (rule compfull_compraw [OF kp])
  have asc: "\<forall>i j. i \<le> j \<and> j < node40_items nd \<longrightarrow> reiser4_key_compfull (node_key nd i) (node_key nd j) \<le> 0"
  proof (intro allI impI, elim conjE)
    fix i j assume "i \<le> j" "j < node40_items nd"
    then show "reiser4_key_compfull (node_key nd i) (node_key nd j) \<le> 0"
      using keys_ascend [OF assms(1), of i j] by (cases "i = j") (simp_all add: cf key_at_def)
  qed
  obtain r p where rp: "node40_lookup nd key = (r, p)" by fastforce
  have kpn: "kplug key = nd_kplug nd" using assms(2) n(2) by simp
  note sp = node40_lookup_spec [OF n(1) kpn asc, unfolded rp prod.case cf]
  show thesis
  proof (cases r)
    case PRESENT
    then show thesis using sp rp that(1) by simp
  next
    case ABSENT
    show thesis
    proof (cases p)
      case 0
      then show thesis using sp rp ABSENT that(2) by simp
    next
      case (Suc i)
      then show thesis using sp rp ABSENT that(3) [of i] by simp
    qed
  next
    case LOOKUP_EIO
    then show thesis using sp by simp
  qed
qed

end
