(* ===== verification/TreeLookup.thy ===== *)
theory TreeLookup
  imports TreeFind
begin

text \<open>The search for a key in the tree.\<close>

section \<open>One node\<close>

context tree_items_env
begin

lemma key_compfull: "nd_kplug nd = kp \<Longrightarrow> reiser4_key_compfull (node_key nd i) k = key_plug_compraw kp (key_at nd i) (kbody k)"
  unfolding key_at_def by (rule compfull_compraw) (simp add: node_key_def node40_get_key_def node40_get_key_by_ih_def)

lemma behind_pos:
  assumes "node_ok E kp l nd hi" "i < node40_items nd" "node40_lookup nd key = (ABSENT, Suc i)" "kplug key = kp"
    and eio: "\<forall>f. ip_lookup (place_plug (te_tab E) (place_at (te_tab E) nd i MAX_UINT32)) = Some f \<longrightarrow>
      fst (f (place_at (te_tab E) nd i MAX_UINT32) key FIND_EXACT) \<noteq> LOOKUP_EIO"
    and look: "reiser4_node_lookup (te_tab E) nd key FIND_EXACT = (res, pos)"
  shows "res \<noteq> LOOKUP_EIO \<and> (res = PRESENT \<longleftrightarrow> \<not> is_ptr E nd i \<and> item_covers (te_tab E) nd i MAX_UINT32 key) \<and>
    (item pos = i \<or> res = ABSENT \<and> \<not> is_ptr E nd i)"
proof -
  note k = node_okD(6) [OF assms(1,2)]
  let ?place = "place_at (te_tab E) nd i MAX_UINT32"
  let ?plug = "place_plug (te_tab E) ?place"
  have br: "reiser4_item_branch ?plug \<longleftrightarrow> is_ptr E nd i" by (simp add: is_ptr_def item_branch_def)
  note ptr = ptr_facts [OF k, of MAX_UINT32]
  show ?thesis
  proof (cases "ip_lookup ?plug")
    case None
    then show ?thesis
      using look ptr br
      by (auto simp: reiser4_node_lookup_def assms(3) fetch_ok [OF k] item_covers_def Let_def split: option.splits if_splits)
  next
    case (Some f)
    then show ?thesis
      using look ptr br eio Some
      by (auto simp: reiser4_node_lookup_def assms(3) fetch_ok [OF k] item_covers_def Let_def split: option.splits if_splits prod.splits)
  qed
qed

lemma node_search:
  assumes "sub_tree E sz kp h root (Suc l) blk hi" "disk_node E sz kp blk = Some nd" "kplug key = kp"
    and "items_apart E sz kp (tree_items E sz kp h root)"
    and look: "reiser4_node_lookup (te_tab E) nd key FIND_EXACT = (res, pos)"
  shows "res \<noteq> LOOKUP_EIO" "res = PRESENT \<Longrightarrow> item pos < node40_items nd \<and> (\<not> is_ptr E nd (item pos) \<longrightarrow> item_has E sz kp key (blk, item pos))"
    "x \<in> set (tree_items E sz kp (Suc l) blk) \<Longrightarrow> item_has E sz kp key x \<Longrightarrow>
       item pos < node40_items nd \<and> (res = PRESENT \<or> is_ptr E nd (item pos)) \<and> x \<in> set (node_seg E sz kp l blk nd (item pos))"
proof -
  note t = sub_tree_ok [OF assms(1)] and sub = sub_items [OF assms(1)]
  have n: "node_ok E kp (Suc l) nd hi" using tree_ok_node [OF t] assms(2) by (metis option.inject)
  note before = seg_before [OF t assms(2) _ _ _ _ assms(3,4) sub] and after = seg_after [OF t assms(2)]
  have other: "x \<in> set (node_seg E sz kp l blk nd i)"
    if "x \<in> set (tree_items E sz kp (Suc l) blk)" "item_has E sz kp key x" "i < node40_items nd" "key_plug_compraw kp (key_at nd i) (kbody key) \<le> 0"
      "\<And>j. i < j \<Longrightarrow> j < node40_items nd \<Longrightarrow> key_plug_compraw kp (key_at nd j) (kbody key) = 1" for x i
  proof -
    have "\<exists>j<node40_items nd. x \<in> set (node_seg E sz kp l blk nd j)" using that(1) items_seg [OF assms(2), of x l] by blast
    then obtain j where j: "j < node40_items nd" "x \<in> set (node_seg E sz kp l blk nd j)" by blast
    have "\<not> j < i" using before [of j i x] that(2-4) j by blast
    moreover have "\<not> i < j" using after [OF j] that(2,5) j by blast
    ultimately show ?thesis using j(2) by (cases i j rule: linorder_cases) simp_all
  qed
  have "res \<noteq> LOOKUP_EIO \<and> (res = PRESENT \<longrightarrow> item pos < node40_items nd \<and> (\<not> is_ptr E nd (item pos) \<longrightarrow> item_has E sz kp key (blk, item pos))) \<and>
    (\<forall>x. x \<in> set (tree_items E sz kp (Suc l) blk) \<longrightarrow> item_has E sz kp key x \<longrightarrow>
       item pos < node40_items nd \<and> (res = PRESENT \<or> is_ptr E nd (item pos)) \<and> x \<in> set (node_seg E sz kp l blk nd (item pos)))"
  proof (rule node_find [OF n assms(3)])
    fix i assume i: "node40_lookup nd key = (PRESENT, i)" "i < node40_items nd" "key_plug_compraw kp (key_at nd i) (kbody key) = 0"
    have rp: "res = PRESENT" "pos = \<lparr>item = i, unit = 0\<rparr>" using look i(1) by (simp_all add: reiser4_node_lookup_def)
    have gt: "key_plug_compraw kp (key_at nd j) (kbody key) = 1" if "i < j" "j < node40_items nd" for j
    proof -
      have "key_plug_compraw kp (kbody key) (key_at nd j) = -1"
        using raw_keys.cmp_le_less_trans [OF _ keys_ascend [OF n that]] i(3) raw_keys.cmp_flip [of kp "kbody key" "key_at nd i"] by simp
      then show ?thesis using raw_keys.cmp_flip [of kp "kbody key" "key_at nd j"] by simp
    qed
    have "item_has E sz kp key (blk, i)" using i(3) assms(2) by (simp add: item_has_def item_key_def)
    then show ?thesis using rp i other [OF _ _ i(2) _ gt] by simp
  next
    assume f: "node40_lookup nd key = (ABSENT, 0)" "\<And>j. j < node40_items nd \<Longrightarrow> key_plug_compraw kp (key_at nd j) (kbody key) = 1"
    have "\<not> item_has E sz kp key x" if "x \<in> set (tree_items E sz kp (Suc l) blk)" for x
      using that items_seg [OF assms(2), of x l] after f(2) by blast
    moreover have "res = ABSENT" using look f(1) by (simp add: reiser4_node_lookup_def)
    ultimately show ?thesis by simp
  next
    fix i assume i: "node40_lookup nd key = (ABSENT, Suc i)" "i < node40_items nd" "key_plug_compraw kp (key_at nd i) (kbody key) = -1"
      "\<And>j. i < j \<Longrightarrow> j < node40_items nd \<Longrightarrow> key_plug_compraw kp (key_at nd j) (kbody key) = 1"
    have at: "item_key E sz kp (blk, i) = key_at nd i" using assms(2) by (simp add: item_key_def)
    have it: "(blk, i) \<in> set (tree_items E sz kp h root)" if "\<not> is_ptr E nd i"
      using sub items_seg [OF assms(2), of "(blk, i)" l] i(2) that by (auto simp: node_seg_def simp del: tree_items.simps)
    have eio: "fst (f (place_at (te_tab E) nd i MAX_UINT32) key FIND_EXACT) \<noteq> LOOKUP_EIO"
      if f: "ip_lookup (place_plug (te_tab E) (place_at (te_tab E) nd i MAX_UINT32)) = Some f" for f
    proof -
      have np: "\<not> is_ptr E nd i" using ptr_facts(3) [OF node_okD(6) [OF n i(2)]] f by auto
      show ?thesis using apart_lookup [OF assms(4) it [OF np] assms(3), of _ MAX_UINT32 f] at i(3) assms(2) f by simp
    qed
    have "\<forall>f. ip_lookup (place_plug (te_tab E) (place_at (te_tab E) nd i MAX_UINT32)) = Some f \<longrightarrow>
      fst (f (place_at (te_tab E) nd i MAX_UINT32) key FIND_EXACT) \<noteq> LOOKUP_EIO" using eio by blast
    note b = behind_pos [OF n i(2,1) assms(3) this look]
    have has: "item_has E sz kp key (blk, i) \<longleftrightarrow> item_covers (te_tab E) nd i MAX_UINT32 key"
      using i(3) assms(2) by (simp add: item_has_def item_key_def)
    have seg: "x \<in> set (node_seg E sz kp l blk nd i)" if "x \<in> set (tree_items E sz kp (Suc l) blk)" "item_has E sz kp key x" for x
      using other [OF that i(2) _ i(4)] i(3) by simp
    show ?thesis
    proof (cases "is_ptr E nd i")
      case True
      then show ?thesis using b seg i(2) by auto
    next
      case False
      then have "\<And>x. x \<in> set (node_seg E sz kp l blk nd i) \<longleftrightarrow> x = (blk, i)" by (simp add: node_seg_def)
      then show ?thesis using b False seg has i(2) by (metis lookup_res.distinct(1))
    qed
  qed
  then show "res \<noteq> LOOKUP_EIO" "res = PRESENT \<Longrightarrow> item pos < node40_items nd \<and> (\<not> is_ptr E nd (item pos) \<longrightarrow> item_has E sz kp key (blk, item pos))"
    "x \<in> set (tree_items E sz kp (Suc l) blk) \<Longrightarrow> item_has E sz kp key x \<Longrightarrow>
       item pos < node40_items nd \<and> (res = PRESENT \<or> is_ptr E nd (item pos)) \<and> x \<in> set (node_seg E sz kp l blk nd (item pos))"
    by blast+
qed

section \<open>No collisions\<close>

text \<open>An item in front of one at or below the key ends the walk to the left.\<close>

lemma leaf_items:
  assumes "sub_tree E sz kp h root (Suc 0) b hi" "disk_node E sz kp b = Some nd" "i < node40_items nd"
  shows "\<not> is_ptr E nd i" "(b, i) \<in> set (tree_items E sz kp h root)"
proof -
  show np: "\<not> is_ptr E nd i" using tree_ok_node [OF sub_tree_ok [OF assms(1)]] assms(2,3) by (metis diff_Suc_1 option.inject tree_ok.simps(1))
  show "(b, i) \<in> set (tree_items E sz kp h root)"
    using sub_items [OF assms(1)] items_seg [OF assms(2), of "(b, i)" 0] np assms(3) by (auto simp: node_seg_def simp del: tree_items.simps)
qed

lemma collision_stop:
  assumes c: "cache_ok E sz kp h root tree" "rt_nodes tree b = Some n" "node40_get_level (tn_node n) = 1" "m < node40_items (tn_node n)"
    and a: "items_apart E sz kp (tree_items E sz kp h root)" "kplug key = kp"
    and y: "y \<in> set (tree_items E sz kp h root)" "key_plug_compraw kp (key_at (tn_node n) m) (item_key E sz kp y) = -1"
      "key_plug_compraw kp (item_key E sz kp y) (kbody key) \<le> 0"
  shows "collision_items E tree key b (Suc m) u place = (0, True, place)"
proof -
  let ?nd = "tn_node n"
  obtain hi where s: "sub_tree E sz kp h root (Suc 0) b hi" and nok: "node_ok E kp (Suc 0) ?nd hi"
    using cached_sub [OF c(1,2)] c(3) by auto
  note d = cache_okD(1,2) [OF c(1,2)] and k = node_okD(6) [OF nok c(4)]
  note it = leaf_items [OF s d(1) c(4)]
  have key: "item_key E sz kp (b, m) = key_at ?nd m" using d(1) by (simp add: item_key_def)
  note ap = apart_before [OF a(1) it(2) y(1) a(2), unfolded key, OF y(2,3)]
  have nc: "\<not> item_covers (te_tab E) ?nd m u key" using ap(2) d(1) by simp
  have ne: "reiser4_key_compfull (node_key ?nd m) key \<noteq> 0" using ap(1) key_compfull [OF node_okD(2) [OF nok]] by simp
  let ?pl = "place_at (te_tab E) ?nd m u"
  let ?plug = "place_plug (te_tab E) ?pl"
  have flip: "reiser4_key_compfull key (reiser4_item_maxposs_key ?plug ?pl) \<le> 0"
    if g: "ip_maxposs_key ?plug = Some g" "\<not> reiser4_key_compfull (reiser4_item_maxposs_key ?plug ?pl) key < 0" for g
  proof -
    have "te_tab E (pl_plug ?pl) = Some ?plug" using k by (auto simp: known_plug place_at_simps place_plug_def)
    then have "kplug (g ?pl) = kplug (pl_key ?pl)" using maxposs_plug g(1) by blast
    then have "kplug (g ?pl) = kp"
      using node_okD(2) [OF nok] by (simp add: place_at_simps node_key_def node40_get_key_def node40_get_key_by_ih_def)
    then show ?thesis
      using g a(2) raw_keys.cmp_flip [of kp "kbody key" "kbody (g ?pl)"] by (simp add: reiser4_item_maxposs_key_def compfull_compraw)
  qed
  show ?thesis
  proof (cases "reiser4_key_compshort (node_key ?nd m) key \<noteq> 0 \<or>
      (case ip_maxposs_key ?plug of None \<Rightarrow> False | Some f \<Rightarrow> reiser4_key_compfull (reiser4_item_maxposs_key ?plug ?pl) key < 0)")
    case True
    then show ?thesis by (auto simp: fetch_ok [OF k] d(2) place_at_simps Let_def)
  next
    case False
    then have mp: "case ip_maxposs_key ?plug of None \<Rightarrow> True | Some f \<Rightarrow> reiser4_key_compfull key (reiser4_item_maxposs_key ?plug ?pl) \<le> 0"
      using flip by (auto split: option.splits)
    show ?thesis
    proof (cases "ip_lookup ?plug")
      case None
      then show ?thesis using False ne by (simp add: fetch_ok [OF k] d(2) place_at_simps)
    next
      case (Some f)
      then have "fst (f ?pl key FIND_EXACT) \<noteq> PRESENT" using nc mp by (simp add: item_covers_def)
      then show ?thesis using False Some by (simp add: fetch_ok [OF k] d(2) place_at_simps case_prod_beta)
    qed
  qed
qed

lemma collision_stays:
  assumes c: "cache_ok E sz kp h root tree" "rt_nodes tree b = Some n" "node40_get_level (tn_node n) = 1" "i < node40_items (tn_node n)"
    and a: "items_apart E sz kp (tree_items E sz kp h root)" "kplug key = kp"
    and y: "key_plug_compraw kp (key_at (tn_node n) i) (kbody key) \<le> 0"
  shows "\<exists>tree'. collision_walk E key b i u place tree = Some (0, place, tree') \<and> cache_ok E sz kp h root tree' \<and> cache_le tree tree'"
proof -
  let ?nd = "tn_node n"
  obtain hi where s: "sub_tree E sz kp h root (Suc 0) b hi" and nok: "node_ok E kp (Suc 0) ?nd hi"
    using cached_sub [OF c(1,2)] c(3) by auto
  note d = cache_okD(1,2) [OF c(1,2)] and it = leaf_items [OF s cache_okD(1) [OF c(1,2)] c(4)]
  have key: "item_key E sz kp (b, i) = key_at ?nd i" using d(1) by (simp add: item_key_def)
  show ?thesis
  proof (cases i)
    case (Suc m)
    have "collision_items E tree key b (Suc m) u place = (0, True, place)"
      using collision_stop [OF c(1-3) _ a it(2), of m] y key keys_ascend [OF nok, of m i] c(4) Suc by simp
    then show ?thesis using c(1) by (subst collision_walk.simps) (simp add: Suc del: collision_items.simps)
  next
    case 0
    obtain r tree' where lt: "reiser4_tree_ltrt_node E b DIR_LEFT tree = Some (r, tree')" "cache_ok E sz kp h root tree'" "cache_le tree tree'"
      using ltrt_left [OF c(1,2)] by blast
    obtain n' where n': "rt_nodes tree' b = Some n'" "tn_node n' = ?nd" using lt(3) c(2) unfolding cache_le_def by blast
    have at: "tn_at tree' b = n'" using n'(1) by (simp add: tn_at_def)
    show ?thesis
    proof (cases "tn_left n'")
      case None
      then show ?thesis using lt by (subst collision_walk.simps) (simp add: 0 at)
    next
      case (Some lb)
      obtain ln where ln: "rt_nodes tree' lb = Some ln" "left_of kp ln n'"
        using cache_okD(4) [OF lt(2) n'(1)] Some unfolding cached_ok_def by blast
      obtain hi' where nok': "node_ok E kp (node40_get_level (tn_node ln)) (tn_node ln) hi'" using cached_sub [OF lt(2) ln(1)] by blast
      obtain m where m: "node40_items (tn_node ln) = Suc m" using node_okD(4) [OF nok'] by (cases "node40_items (tn_node ln)") simp_all
      have "collision_items E tree' key lb (Suc m) MAX_UINT32 place = (0, True, place)"
        using collision_stop [OF lt(2) ln(1) _ _ a it(2), of m] y key ln(2) n'(2) c(3) m 0 by (simp add: left_of_def)
      then have "collision_walk E key lb (node40_items (node_at tree' lb)) MAX_UINT32 place tree' = Some (0, place, tree')"
        by (subst collision_walk.simps) (simp add: cache_okD(2) [OF lt(2) ln(1)] m del: collision_items.simps)
      then show ?thesis using lt by (subst collision_walk.simps) (simp add: 0 at Some)
    qed
  qed
qed

section \<open>The search\<close>

lemma fetch_cached:
  assumes "cache_ok E sz kp h root tree" "rt_nodes tree b = Some n" "i < node40_items (tn_node n)"
  shows "tree_place_fetch E tree \<lparr>tp_node = Some b, tp_pos = \<lparr>item = i, unit = u\<rparr>, tp_item = x\<rparr> =
    (0, \<lparr>tp_node = Some b, tp_pos = \<lparr>item = i, unit = u\<rparr>, tp_item = Some (place_at (te_tab E) (tn_node n) i u)\<rparr>)"
proof -
  obtain hi where "node_ok E kp (node40_get_level (tn_node n)) (tn_node n) hi" using cached_sub [OF assms(1,2)] by blast
  note k = node_okD(6) [OF this assms(3)]
  show ?thesis by (simp add: tree_place_fetch_def cache_okD(2) [OF assms(1,2)] fetch_ok [OF k] place_at_simps)
qed

lemma finish_stays:
  assumes c: "cache_ok E sz kp h root tree" "rt_nodes tree b = Some n" "node40_get_level (tn_node n) = 1" "item pos < node40_items (tn_node n)"
    and a: "items_apart E sz kp (tree_items E sz kp h root)" "kplug (lh_key hint) = kp" "lh_collision hint = None"
    and y: "key_plug_compraw kp (key_at (tn_node n) (item pos)) (kbody (lh_key hint)) \<le> 0"
  shows "\<exists>place' tree'. lookup_finish E hint PRESENT \<lparr>tp_node = Some b, tp_pos = pos, tp_item = None\<rparr> tree = Some (PRESENT, place', tree') \<and>
    cache_ok E sz kp h root tree' \<and> tp_node place' = Some b \<and> tp_pos place' = pos"
proof -
  obtain i u where pos: "pos = \<lparr>item = i, unit = u\<rparr>" by (cases pos) simp
  have i: "i < node40_items (tn_node n)" using c(4) pos by simp
  let ?place = "\<lparr>tp_node = Some b, tp_pos = pos, tp_item = Some (place_at (te_tab E) (tn_node n) i u)\<rparr>"
  obtain tree' where w: "collision_walk E (lh_key hint) b i u ?place tree = Some (0, ?place, tree')" "cache_ok E sz kp h root tree'" "cache_le tree tree'"
    using collision_stays [OF c(1-3) i a(1,2), of u ?place] y pos by auto
  obtain n' where n': "rt_nodes tree' b = Some n'" "tn_node n' = tn_node n" using w(3) c(2) unfolding cache_le_def by blast
  have i': "i < node40_items (tn_node n')" using i n'(2) by simp
  have "lookup_finish E hint PRESENT \<lparr>tp_node = Some b, tp_pos = pos, tp_item = None\<rparr> tree = Some (PRESENT, ?place, tree')"
    using w(1) fetch_cached [OF c(1,2) i] fetch_cached [OF w(2) n'(1) i'] n'(2)
    by (simp add: lookup_finish_def reiser4_tree_collision_start_def pos a(3))
  then show ?thesis using w(2) by simp
qed

lemma lookup_loop_answer:
  assumes "cache_ok E sz kp h root tree" "rt_nodes tree b = Some n" "sub_tree E sz kp h root l b hi"
    and a: "items_apart E sz kp (tree_items E sz kp h root)" "kplug (lh_key hint) = kp" "lh_collision hint = None" "lh_level hint = LEAF_LEVEL"
  shows "\<exists>res place tree'. lookup_loop E hint FIND_EXACT b tree = Some (res, place, tree') \<and> cache_ok E sz kp h root tree' \<and>
    lookup_answer E sz kp (tree_items E sz kp l b) (lh_key hint) res place"
  using assms(1-3)
proof (induction l arbitrary: b n hi tree)
  case 0
  then show ?case using sub_level(3) by blast
next
  case (Suc l)
  let ?nd = "tn_node n" and ?key = "lh_key hint"
  note d = cache_okD(1,2) [OF Suc.prems(1,2)] and items = items_seg [OF cache_okD(1) [OF Suc.prems(1,2)], of _ l]
  have nok: "node_ok E kp (Suc l) ?nd hi" using tree_ok_node [OF sub_tree_ok [OF Suc.prems(3)]] d(1) by (metis option.inject)
  note level = node_okD(3) [OF nok]
  obtain res pos where look: "reiser4_node_lookup (te_tab E) ?nd ?key FIND_EXACT = (res, pos)" by fastforce
  note s = node_search [OF Suc.prems(3) d(1) a(2,1) look]
  let ?place = "\<lparr>tp_node = Some b, tp_pos = pos, tp_item = None\<rparr>"
  have start: "lookup_loop E hint FIND_EXACT b tree =
    (if l = 0 then lookup_finish E hint res ?place tree
     else if \<not> item pos < node40_items ?nd then Some (ABSENT, ?place, tree)
     else
       (let (err, place) = tree_place_fetch E tree ?place; pl = the (tp_item place)
        in if err \<noteq> 0 then Some (LOOKUP_EIO, place, tree)
           else if \<not> item_branch E pl then Some (res, place, tree)
           else
             (let child = item_link E pl; (ok, tree) = reiser4_tree_load_node E (Some b) child tree
              in if \<not> ok then Some (LOOKUP_EIO, place\<lparr>tp_node := None\<rparr>, tree)
                 else lookup_loop E hint FIND_EXACT child tree)))"
    using s(1) by (subst lookup_loop.simps) (simp add: d(2) level look a(4) Let_def)
  have none: "lookup_answer E sz kp (tree_items E sz kp (Suc l) b) ?key ABSENT p" if "\<And>x. x \<in> set (tree_items E sz kp (Suc l) b) \<Longrightarrow> \<not> item_has E sz kp ?key x" for p
    using that by (simp add: lookup_answer_def del: tree_items.simps)
  have here: "lookup_answer E sz kp (tree_items E sz kp (Suc l) b) ?key PRESENT p"
    if "tp_node p = Some b" "tp_pos p = pos" "res = PRESENT" "\<not> is_ptr E ?nd (item pos)" for p
    using that s(2) items [of "(b, item pos)"] by (auto simp: lookup_answer_def node_seg_def simp del: tree_items.simps)
  show ?case
  proof (cases "item pos < node40_items ?nd")
    case False
    then have "\<And>x. x \<in> set (tree_items E sz kp (Suc l) b) \<Longrightarrow> \<not> item_has E sz kp ?key x" and "res = ABSENT"
      using s by (blast, cases res) blast+
    then show ?thesis using Suc.prems(1) none False start by (cases "l = 0") (simp_all add: lookup_finish_def del: tree_items.simps)
  next
    case i: True
    obtain u where pos: "pos = \<lparr>item = item pos, unit = u\<rparr>" by (cases pos) simp
    note k = node_okD(6) [OF nok i]
    have fetch: "tree_place_fetch E tree ?place = (0, \<lparr>tp_node = Some b, tp_pos = pos, tp_item = Some (place_at (te_tab E) ?nd (item pos) u)\<rparr>)"
      using fetch_cached [OF Suc.prems(1,2) i, of u None] pos by simp
    show ?thesis
    proof (cases "is_ptr E ?nd (item pos)")
      case False
      have abs: "\<And>x. x \<in> set (tree_items E sz kp (Suc l) b) \<Longrightarrow> \<not> item_has E sz kp ?key x" if "res = ABSENT" using s(3) False that by blast
      show ?thesis
      proof (cases res)
        case PRESENT
        show ?thesis
        proof (cases "l = 0")
          case True
          have "item_has E sz kp ?key (b, item pos)" using s(2) PRESENT False by blast
          then have "key_plug_compraw kp (key_at ?nd (item pos)) (kbody ?key) \<le> 0" using d(1) by (auto simp: item_has_def item_key_def)
          then obtain p t where "lookup_finish E hint PRESENT ?place tree = Some (PRESENT, p, t)" "cache_ok E sz kp h root t" "tp_node p = Some b" "tp_pos p = pos"
            using finish_stays [OF Suc.prems(1,2) _ i a(1-3)] level True by auto
          then show ?thesis using start True PRESENT here [of p] False by simp
        next
          case l: False
          then show ?thesis using start i fetch Suc.prems(1) here PRESENT False by (simp add: branch_unit del: tree_items.simps)
        qed
      next
        case ABSENT
        then show ?thesis
          using start i fetch Suc.prems(1) none [OF abs] False by (cases "l = 0") (simp_all add: branch_unit lookup_finish_def del: tree_items.simps)
      qed (use s(1) in simp)
    next
      case True
      then have l: "l \<noteq> 0" using tree_ok_node [OF sub_tree_ok [OF Suc.prems(3)]] d(1) i by (metis diff_Suc_1 option.inject tree_ok.simps(1))
      let ?c = "ptr_link ?nd (item pos)"
      obtain t m where t: "reiser4_tree_load_node E (Some b) ?c tree = (True, t)" "cache_ok E sz kp h root t" "rt_nodes t ?c = Some m"
        using load_child [OF Suc.prems(1,2) i True refl] by blast
      have child: "sub_tree E sz kp h root l ?c (upper_key ?nd (item pos) hi)" by (rule sub_child [OF Suc.prems(3) d(1) i True])
      obtain r p t' where r: "lookup_loop E hint FIND_EXACT ?c t = Some (r, p, t')" "cache_ok E sz kp h root t'"
        "lookup_answer E sz kp (tree_items E sz kp l ?c) ?key r p" using Suc.IH [OF t(2,3) child] by blast
      have "lookup_loop E hint FIND_EXACT b tree = Some (r, p, t')"
        using start l i fetch t(1) r(1) True by (simp add: branch_unit ptr_facts [OF k True])
      moreover have "x \<in> set (tree_items E sz kp l ?c) \<Longrightarrow> x \<in> set (tree_items E sz kp (Suc l) b)" for x
        using items i True by (auto simp: node_seg_def simp del: tree_items.simps)
      moreover have "x \<in> set (tree_items E sz kp (Suc l) b) \<Longrightarrow> item_has E sz kp ?key x \<Longrightarrow> x \<in> set (tree_items E sz kp l ?c)" for x
        using s(3) True by (simp add: node_seg_def del: tree_items.simps)
      ultimately show ?thesis using r(2,3) unfolding lookup_answer_def by (cases r) (simp_all del: tree_items.simps, blast+)
    qed
  qed
qed

lemma lookup_answers:
  assumes "cache_ok E sz kp h root tree"
    and a: "items_apart E sz kp (tree_items E sz kp h root)" "kplug (lh_key hint) = kp" "lh_collision hint = None" "lh_level hint = LEAF_LEVEL"
  shows "\<exists>res place tree'. reiser4_tree_lookup E hint FIND_EXACT tree = Some (res, place, tree') \<and> cache_ok E sz kp h root tree' \<and>
    lookup_answer E sz kp (tree_items E sz kp h root) (lh_key hint) res place"
proof -
  have rt: "rt_root_blk tree = root" "root \<noteq> INVAL_BLK" "tree_ok E sz kp h root None" using assms(1) by (simp_all add: cache_ok_def)
  obtain t where t: "reiser4_tree_load_root E tree = (0, t)" "cache_ok E sz kp h root t" "rt_root t = Some root" "rt_nodes t root \<noteq> None"
    using load_root [OF assms(1)] by blast
  obtain n where n: "rt_nodes t root = Some n" using t(4) by blast
  show ?thesis
    using lookup_loop_answer [OF t(2) n sub_root [OF rt(3)] a] t(1,3) rt(1,2)
    by (simp add: reiser4_tree_lookup_def reiser4_tree_fresh_def)
qed

end

end
