(* ===== verification/TreeProps.thy ===== *)
theory TreeProps
  imports TreeLookup NodeInsert
begin

text \<open>The search of the tree is right, and a sample tree.\<close>

text \<open>
  C27: the search of the balanced tree is right.  With no memory pressure function installed, on a search
  tree on the device whose items do not overlap, \<^verbatim>\<open>reiser4_tree_lookup\<close> for an exact key at the leaf level
  ends, without an error, whatever nodes are in the cache: it answers
  PRESENT with the place of an item that has the key, or ABSENT, and then no item of the tree has it.  The nodes and links
  it leaves in the cache are again those of the tree.
\<close>

theorem tree_lookup_correct:
  assumes "item_plugins (te_tab E)" "cache_ok E sz kp h root tree" "items_apart E sz kp (tree_items E sz kp h root)"
    and "kplug (lh_key hint) = kp" "lh_level hint = LEAF_LEVEL" "lh_collision hint = None"
  shows "\<exists>res place tree'. reiser4_tree_lookup E hint FIND_EXACT tree = Some (res, place, tree') \<and> cache_ok E sz kp h root tree' \<and>
    (case res of
       PRESENT \<Rightarrow> \<exists>b. tp_node place = Some b \<and> (b, item (tp_pos place)) \<in> set (tree_items E sz kp h root) \<and>
         item_has E sz kp (lh_key hint) (b, item (tp_pos place))
     | ABSENT \<Rightarrow> \<forall>x\<in>set (tree_items E sz kp h root). \<not> item_has E sz kp (lh_key hint) x
     | LOOKUP_EIO \<Rightarrow> False)"
  using tree_items_env.lookup_answers [OF _ assms(2,3,4,6,5)] assms(1) unfolding tree_items_env_def lookup_answer_def by blast

section \<open>A sample tree\<close>

text \<open>A root with two pointers, and two leaves with tails of the keys 1, 2 and 3.\<close>

definition root_bytes :: "u8 list" where
  "root_bytes =
     [0, 0, 2, 0, 32, 0, 44, 0, 0x53, 0x46, 0x34, 0x52] @ replicate 14 0 @ [2, 0] @
     [2, 0, 0, 0, 0, 0, 0, 0] @ [3, 0, 0, 0, 0, 0, 0, 0] @ replicate 32 0 @
     [3] @ replicate 23 0 @ [36, 0, 0, 0, 3, 0] @
     [1] @ replicate 23 0 @ [28, 0, 0, 0, 3, 0]"

definition leaf_bytes :: "u8 list" where
  "leaf_bytes =
     [0, 0, 2, 0, 40, 0, 36, 0, 0x53, 0x46, 0x34, 0x52] @ replicate 14 0 @ [1, 0] @
     [11, 12, 13, 14, 15, 21, 22, 23] @ replicate 40 0 @
     [2] @ replicate 23 0 @ [33, 0, 0, 0, 6, 0] @
     [1] @ replicate 23 0 @ [28, 0, 0, 0, 6, 0]"

definition last_bytes :: "u8 list" where
  "last_bytes =
     [0, 0, 1, 0, 76, 0, 30, 0, 0x53, 0x46, 0x34, 0x52] @ replicate 14 0 @ [1, 0] @
     [31, 32] @ replicate 76 0 @
     [3] @ replicate 23 0 @ [28, 0, 0, 0, 6, 0]"

definition bytes_mem :: "u8 list \<Rightarrow> mem" where
  "bytes_mem bs = (\<lambda>x. if 0 \<le> x \<and> x < int (length bs) then bs ! nat x else 0)"

definition bytes_node :: "u8 list \<Rightarrow> node40" where
  "bytes_node bs =
     \<lparr>nd_mem = bytes_mem bs, nd_size = 136, nd_dirty = False, nd_kplug = KEY_SHORT, nd_keypol = 3, nd_state = 0, nd_plug = 0\<rparr>"

definition tail_tab :: "unit item_table" where
  "tail_tab pid = (if pid = ITEM_PLAIN40_ID then Some plain40_plug else if pid = ITEM_CTAIL40_ID then Some ctail40_plug
     else if pid = ITEM_NODEPTR40_ID then Some nodeptr40_plug else None)"

definition sample_env :: "unit tree_env" where
  "sample_env =
     \<lparr>te_dev = (\<lambda>blk. if blk = 1 then Some (bytes_mem root_bytes) else if blk = 2 then Some (bytes_mem leaf_bytes)
        else if blk = 3 then Some (bytes_mem last_bytes) else None),
      te_tab = tail_tab, te_hint = sample_hint 0 (SP_DATA (\<lambda>x. 0)) 0\<rparr>"

definition sample_tree :: rtree where
  "sample_tree = \<lparr>rt_root_blk = 1, rt_height = 2, rt_root = None, rt_blksize = 136, rt_kplug = KEY_SHORT, rt_nodes = (\<lambda>b. None)\<rparr>"

interpretation tail_plugins: item_plugins tail_tab
  by unfold_locales (auto simp: tail_tab_def plain40_plug_def ctail40_plug_def ctail40_init_def nodeptr40_plug_def tail40_maxposs_key_def body40_maxposs_key_def
      reiser4_key_set_offset_def key_short_set_offset_def key_large_set_offset_def Let_def split: if_splits key_plug.splits)

interpretation sample_items: tree_items_env sample_env
  by unfold_locales (simp_all add: sample_env_def tail_plugins.branch_plug tail_plugins.init_keeps tail_plugins.maxposs_plug)

lemma sample_bytes_ids:
  "get_le 2 (bytes_mem root_bytes) 0 = 0" "get_le 2 (bytes_mem leaf_bytes) 0 = 0" "get_le 2 (bytes_mem last_bytes) 0 = 0"
  by code_simp+

lemma sample_bytes_magic:
  "mread (bytes_mem root_bytes) 8 4 = [0x53, 0x46, 0x34, 0x52]" "mread (bytes_mem leaf_bytes) 8 4 = [0x53, 0x46, 0x34, 0x52]"
  "mread (bytes_mem last_bytes) 8 4 = [0x53, 0x46, 0x34, 0x52]"
  by code_simp+

lemma sample_open:
  "disk_node sample_env 136 KEY_SHORT 1 = Some (bytes_node root_bytes)"
  "disk_node sample_env 136 KEY_SHORT 2 = Some (bytes_node leaf_bytes)"
  "disk_node sample_env 136 KEY_SHORT 3 = Some (bytes_node last_bytes)"
proof -
  have magic: "get_le 4 (bytes_mem bs) 8 = NODE40_MAGIC" if "mread (bytes_mem bs) 8 4 = [0x53, 0x46, 0x34, 0x52]" for bs
    using that by (simp add: get_le_def)
  note m = magic [OF sample_bytes_magic(1)] magic [OF sample_bytes_magic(2)] magic [OF sample_bytes_magic(3)]
  show "disk_node sample_env 136 KEY_SHORT 1 = Some (bytes_node root_bytes)"
    "disk_node sample_env 136 KEY_SHORT 2 = Some (bytes_node leaf_bytes)"
    "disk_node sample_env 136 KEY_SHORT 3 = Some (bytes_node last_bytes)"
    using m sample_bytes_ids by (simp_all add: disk_node_def sample_env_def reiser4_node_open_def node40_open_def node40_prepare_def
        nh_get_magic_def bytes_node_def key_plug_bodysize_def key_short_bodysize_def)
qed

lemma sample_tree_heads:
  "nh_get_num_items (bytes_node root_bytes) = 2" "nh_get_free_space (bytes_node root_bytes) = 32" "nh_get_free_space_start (bytes_node root_bytes) = 44"
  "nh_get_num_items (bytes_node leaf_bytes) = 2" "nh_get_free_space (bytes_node leaf_bytes) = 40" "nh_get_free_space_start (bytes_node leaf_bytes) = 36"
  "nh_get_num_items (bytes_node last_bytes) = 1" "nh_get_free_space (bytes_node last_bytes) = 76" "nh_get_free_space_start (bytes_node last_bytes) = 30"
  "nh_get_level (bytes_node root_bytes) = 2" "nh_get_level (bytes_node leaf_bytes) = 1" "nh_get_level (bytes_node last_bytes) = 1"
  by code_simp+

lemma sample_tree_items:
  "ih_get_offset (bytes_mem root_bytes) 106 3 = 28" "ih_get_offset (bytes_mem root_bytes) 76 3 = 36"
  "ih_get_offset (bytes_mem leaf_bytes) 106 3 = 28" "ih_get_offset (bytes_mem leaf_bytes) 76 3 = 33" "ih_get_offset (bytes_mem last_bytes) 106 3 = 28"
  "ih_get_pid (bytes_mem root_bytes) 106 3 = 3" "ih_get_pid (bytes_mem root_bytes) 76 3 = 3"
  "ih_get_pid (bytes_mem leaf_bytes) 106 3 = 6" "ih_get_pid (bytes_mem leaf_bytes) 76 3 = 6" "ih_get_pid (bytes_mem last_bytes) 106 3 = 6"
  "get_le 8 (bytes_mem root_bytes) 28 = 2" "get_le 8 (bytes_mem root_bytes) 36 = 3"
  by code_simp+

lemma sample_tree_keys:
  "get_le 8 (bytes_mem root_bytes) 106 = 1" "get_le 8 (bytes_mem root_bytes) 114 = 0" "get_le 8 (bytes_mem root_bytes) 122 = 0"
  "get_le 8 (bytes_mem root_bytes) 76 = 3" "get_le 8 (bytes_mem root_bytes) 84 = 0" "get_le 8 (bytes_mem root_bytes) 92 = 0"
  "get_le 8 (bytes_mem leaf_bytes) 106 = 1" "get_le 8 (bytes_mem leaf_bytes) 114 = 0" "get_le 8 (bytes_mem leaf_bytes) 122 = 0"
  "get_le 8 (bytes_mem leaf_bytes) 76 = 2" "get_le 8 (bytes_mem leaf_bytes) 84 = 0" "get_le 8 (bytes_mem leaf_bytes) 92 = 0"
  "get_le 8 (bytes_mem last_bytes) 106 = 3" "get_le 8 (bytes_mem last_bytes) 114 = 0" "get_le 8 (bytes_mem last_bytes) 122 = 0"
  by code_simp+

lemma sample_nodes_wf:
  "nd_keyed (bytes_node root_bytes)" "nd_keyed (bytes_node leaf_bytes)" "nd_keyed (bytes_node last_bytes)"
  using sample_tree_heads sample_tree_items
  by (auto simp: nd_keyed_def nd_wf_def nd_off_def nd_head_def nd_hdr_def ih_size_def bytes_node_def less_Suc_eq numeral_2_eq_2
      key_plug_bodysize_def key_short_bodysize_def)

lemma sample_key_at:
  "key_at (bytes_node root_bytes) 0 0 = 1" "key_at (bytes_node root_bytes) 0 (Suc 0) = 0" "key_at (bytes_node root_bytes) 0 2 = 0"
  "key_at (bytes_node root_bytes) (Suc 0) 0 = 3" "key_at (bytes_node root_bytes) (Suc 0) (Suc 0) = 0" "key_at (bytes_node root_bytes) (Suc 0) 2 = 0"
  "key_at (bytes_node leaf_bytes) 0 0 = 1" "key_at (bytes_node leaf_bytes) 0 (Suc 0) = 0" "key_at (bytes_node leaf_bytes) 0 2 = 0"
  "key_at (bytes_node leaf_bytes) (Suc 0) 0 = 2" "key_at (bytes_node leaf_bytes) (Suc 0) (Suc 0) = 0" "key_at (bytes_node leaf_bytes) (Suc 0) 2 = 0"
  "key_at (bytes_node last_bytes) 0 0 = 3" "key_at (bytes_node last_bytes) 0 (Suc 0) = 0" "key_at (bytes_node last_bytes) 0 2 = 0"
  using sample_tree_keys
  by (simp_all add: key_at_def node_key_def node40_get_key_def node40_get_key_by_ih_def bytes_node_def key_size_def mem_key_def
      node40_ih_at_def ih_size_def to_u32_id)

lemma compraw_short:
  "a 0 < b 0 \<Longrightarrow> key_plug_compraw KEY_SHORT a b = -1"
  "a 0 = b 0 \<Longrightarrow> a (Suc 0) = b (Suc 0) \<Longrightarrow> a 2 = b 2 \<Longrightarrow> key_plug_compraw KEY_SHORT a b = 0"
  "key_plug_compraw KEY_SHORT a b \<le> 0 \<Longrightarrow> a 0 \<le> b 0"
  by (auto simp: key_plug_compraw_def key_short_compraw_def ks_comp_el_def ks_get_el_def Let_def split: if_splits)

lemma sample_known:
  "item_known tail_tab (bytes_node root_bytes) 0" "item_known tail_tab (bytes_node root_bytes) (Suc 0)"
  "item_known tail_tab (bytes_node leaf_bytes) 0" "item_known tail_tab (bytes_node leaf_bytes) (Suc 0)"
  "item_known tail_tab (bytes_node last_bytes) 0"
  "is_ptr sample_env (bytes_node root_bytes) 0" "is_ptr sample_env (bytes_node root_bytes) (Suc 0)"
  "\<not> is_ptr sample_env (bytes_node leaf_bytes) 0" "\<not> is_ptr sample_env (bytes_node leaf_bytes) (Suc 0)"
  "\<not> is_ptr sample_env (bytes_node last_bytes) 0"
  using sample_tree_items
  by (simp_all add: tail_plugins.known_plug is_ptr_def item_branch_def place_plug_def tail_plugins.place_at_simps sample_env_def tail_tab_def
      node40_ih_at_def bytes_node_def ih_size_def to_u32_id plain40_plug_def nodeptr40_plug_def reiser4_item_branch_def)

lemma sample_links: "ptr_link (bytes_node root_bytes) 0 = 2" "ptr_link (bytes_node root_bytes) (Suc 0) = 3"
  using sample_tree_items
  by (simp_all add: ptr_link_def node40_ih_at_def bytes_node_def ih_size_def to_u32_id node40_ib_by_ih_def)

lemma all_less_two: "(\<forall>i<2. P i) \<longleftrightarrow> P 0 \<and> P (Suc 0)"
  by (auto simp: less_2_cases_iff)

lemma sample_tree_ok: "tree_ok sample_env 136 KEY_SHORT 2 1 None"
  "tree_items sample_env 136 KEY_SHORT 2 1 = [(2, 0), (2, 1), (3, 0)]"
proof -
  have tab: "te_tab sample_env = tail_tab" by (simp add: sample_env_def)
  have n: "node40_items (bytes_node root_bytes) = 2" "node40_items (bytes_node leaf_bytes) = 2" "node40_items (bytes_node last_bytes) = 1"
    "node40_get_level (bytes_node root_bytes) = 2" "node40_get_level (bytes_node leaf_bytes) = 1" "node40_get_level (bytes_node last_bytes) = 1"
    "nd_kplug (bytes_node bs) = KEY_SHORT" for bs
    using sample_tree_heads by (simp_all add: node40_items_def node40_get_level_def bytes_node_def)
  have leaf: "tree_ok sample_env 136 KEY_SHORT (Suc 0) 2 (Some (key_at (bytes_node root_bytes) (Suc 0)))"
    using sample_nodes_wf sample_known sample_key_at
    by (simp add: sample_open node_ok_def n tab upper_key_def all_less_two compraw_short(1))
  have last: "tree_ok sample_env 136 KEY_SHORT (Suc 0) 3 None"
    using sample_nodes_wf sample_known by (simp add: sample_open node_ok_def n tab upper_key_def)
  have "tree_ok sample_env 136 KEY_SHORT (Suc (Suc 0)) 1 None"
    using sample_nodes_wf(1) sample_known sample_key_at leaf last
    by (subst tree_ok.simps(2)) (simp add: sample_open sample_open(1) [unfolded One_nat_def] node_ok_def n tab upper_key_def all_less_two sample_links
        compraw_short(1,2) del: tree_ok.simps)
  then show "tree_ok sample_env 136 KEY_SHORT 2 1 None" by (simp only: numeral_2_eq_2)
  have "tree_items sample_env 136 KEY_SHORT (Suc 0) 2 = [(2, 0), (2, 1)]" "tree_items sample_env 136 KEY_SHORT (Suc 0) 3 = [(3, 0)]"
    using sample_known by (simp_all add: sample_open n upt_conv_Cons)
  then have "tree_items sample_env 136 KEY_SHORT (Suc (Suc 0)) 1 = [(2, 0), (2, 1), (3, 0)]"
    using sample_known by (subst tree_items.simps(2)) (simp add: sample_open sample_open(1) [unfolded One_nat_def] n sample_links upt_conv_Cons
        del: tree_items.simps)
  then show "tree_items sample_env 136 KEY_SHORT 2 1 = [(2, 0), (2, 1), (3, 0)]" by (simp only: numeral_2_eq_2)
qed

text \<open>A tail covers no key of another object, so tails with different first key elements are apart.\<close>

lemma tail_covers:
  assumes "tail_tab pid = Some plain40_plug" "pl_plug (place_at tail_tab nd i u) = pid" "nd_kplug nd = KEY_SHORT" "kplug key = KEY_SHORT"
    "item_covers tail_tab nd i u key"
  shows "kbody key 0 \<le> key_at nd i 0"
proof -
  let ?pl = "place_at tail_tab nd i u"
  have key: "pl_key ?pl = node_key nd i" "kplug (node_key nd i) = KEY_SHORT"
    using assms(3) by (simp_all add: tail_plugins.place_at_simps node_key_def node40_get_key_def node40_get_key_by_ih_def)
  have "place_plug tail_tab ?pl = plain40_plug" using assms(1,2) by (simp add: place_plug_def)
  then have "reiser4_key_compfull key (body40_maxposs_key ?pl) \<le> 0"
    using assms(5) by (simp add: item_covers_def reiser4_item_maxposs_key_def plain40_plug_def tail40_maxposs_key_def Let_def)
  then have "kbody key 0 \<le> kbody (body40_maxposs_key ?pl) 0" using compraw_short(3) assms(4) by (simp add: compfull_compraw)
  also have "kbody (body40_maxposs_key ?pl) 0 = key_at nd i 0"
    using key by (simp add: body40_maxposs_key_def Let_def reiser4_key_set_offset_def key_short_set_offset_def ks_set_offset_def ks_field_set_def
        ks_set_el_def key_at_def Let_def)
  finally show ?thesis .
qed

lemma sample_els: "\<not> (2 :: u64) \<le> 1" "\<not> (3 :: u64) \<le> 1"
  by (simp_all add: word_le_nat_alt)

lemma sample_item_keys:
  "item_key sample_env 136 KEY_SHORT (2, 0) = key_at (bytes_node leaf_bytes) 0"
  "item_key sample_env 136 KEY_SHORT (2, Suc 0) = key_at (bytes_node leaf_bytes) (Suc 0)"
  "item_key sample_env 136 KEY_SHORT (3, 0) = key_at (bytes_node last_bytes) 0"
  by (simp_all add: item_key_def sample_open)

lemma sample_tails_plugs:
  assumes "x \<in> {(2, 0), (2, Suc 0), (3, 0)}"
  defines "nd \<equiv> the (disk_node sample_env 136 KEY_SHORT (fst x))"
  shows "pl_plug (place_at tail_tab nd (snd x) u) = ITEM_PLAIN40_ID" "nd_kplug nd = KEY_SHORT" "item_key sample_env 136 KEY_SHORT x = key_at nd (snd x)"
proof -
  show "pl_plug (place_at tail_tab nd (snd x) u) = ITEM_PLAIN40_ID"
    using assms(1) sample_tree_items unfolding nd_def
    by (elim insertE emptyE) (simp_all add: sample_open tail_plugins.place_at_simps node40_ih_at_def bytes_node_def ih_size_def to_u32_id)
  show "nd_kplug nd = KEY_SHORT" using assms(1) unfolding nd_def by (elim insertE emptyE) (simp_all add: sample_open bytes_node_def)
  show "item_key sample_env 136 KEY_SHORT x = key_at nd (snd x)" by (simp add: item_key_def nd_def)
qed

lemma sample_covers:
  assumes "x \<in> {(2, 0), (2, Suc 0), (3, 0)}" "kplug key = KEY_SHORT"
    "item_covers tail_tab (the (disk_node sample_env 136 KEY_SHORT (fst x))) (snd x) u key"
  shows "kbody key 0 \<le> item_key sample_env 136 KEY_SHORT x 0"
  using tail_covers [OF _ sample_tails_plugs(1,2) [OF assms(1)] assms(2,3)] sample_tails_plugs(3) [OF assms(1)] by (simp add: tail_tab_def)

lemma sample_apart: "items_apart sample_env 136 KEY_SHORT [(2, 0), (2, 1), (3, 0)]"
  unfolding items_apart_def
proof (intro ballI allI impI, unfold Let_def, intro conjI impI ballI)
  fix x u and key :: reiser4_key
  assume "x \<in> set [(2, 0), (2, 1), (3, 0 :: nat)]"
    and k: "kplug key = KEY_SHORT \<and> key_plug_compraw KEY_SHORT (item_key sample_env 136 KEY_SHORT x) (kbody key) \<le> 0"
  then have x: "x \<in> {(2, 0), (2, Suc 0), (3, 0)}" by simp
  let ?nd = "the (disk_node sample_env 136 KEY_SHORT (fst x))"
  have tab: "te_tab sample_env = tail_tab" by (simp add: sample_env_def)
  have "place_plug tail_tab (place_at tail_tab ?nd (snd x) u) = plain40_plug"
    unfolding place_plug_def sample_tails_plugs(1) [OF x] by (simp add: tail_tab_def)
  then show "case ip_lookup (place_plug (te_tab sample_env) (place_at (te_tab sample_env) ?nd (snd x) u)) of None \<Rightarrow> True
    | Some f \<Rightarrow> fst (f (place_at (te_tab sample_env) ?nd (snd x) u) key FIND_EXACT) \<noteq> LOOKUP_EIO"
    by (simp add: tab plain40_plug_def tail40_lookup_def Let_def)
  fix y
  assume c: "item_covers (te_tab sample_env) ?nd (snd x) u key" and "y \<in> set [(2, 0), (2, 1), (3, 0 :: nat)]"
    and lt: "key_plug_compraw KEY_SHORT (item_key sample_env 136 KEY_SHORT x) (item_key sample_env 136 KEY_SHORT y) = -1"
  then have y: "y \<in> {(2, 0), (2, Suc 0), (3, 0)}" by simp
  have "x \<noteq> y" using lt by auto
  then have "item_key sample_env 136 KEY_SHORT x 0 < item_key sample_env 136 KEY_SHORT y 0"
    using x y lt compraw_short(3) [of "item_key sample_env 136 KEY_SHORT x" "item_key sample_env 136 KEY_SHORT y"]
    by (elim insertE emptyE) (simp_all add: sample_item_keys sample_key_at sample_els)
  then have "kbody key 0 < item_key sample_env 136 KEY_SHORT y 0"
    using sample_covers [OF x _ c [unfolded tab]] k by simp
  then show "key_plug_compraw KEY_SHORT (kbody key) (item_key sample_env 136 KEY_SHORT y) = -1" by (rule compraw_short(1))
qed

definition sample_search :: lookup_hint where
  "sample_search = \<lparr>lh_key = sample_key 2, lh_level = LEAF_LEVEL, lh_collision = None\<rparr>"

theorem tree_lookup_correct_witness:
  "\<exists>place tree'. reiser4_tree_lookup sample_env sample_search FIND_EXACT sample_tree = Some (PRESENT, place, tree') \<and>
    tp_node place = Some 2 \<and> item (tp_pos place) = 1"
proof -
  have "cache_ok sample_env 136 KEY_SHORT 2 1 sample_tree"
    using sample_tree_ok(1) by (simp add: cache_ok_def sample_tree_def)
  moreover have "item_plugins (te_tab sample_env)" by (simp add: sample_env_def tail_plugins.item_plugins_axioms)
  moreover have "items_apart sample_env 136 KEY_SHORT (tree_items sample_env 136 KEY_SHORT 2 1)"
    unfolding sample_tree_ok(2) by (rule sample_apart)
  moreover have h: "kplug (sample_key 2) = KEY_SHORT" "kbody (sample_key 2) 0 = 2" "kbody (sample_key 2) (Suc 0) = 0" "kbody (sample_key 2) 2 = 0"
    by (simp_all add: sample_key_def key_plug_minimal_def)
  ultimately obtain res place tree' where r: "reiser4_tree_lookup sample_env sample_search FIND_EXACT sample_tree = Some (res, place, tree')"
    and c: "case res of
       PRESENT \<Rightarrow> \<exists>b. tp_node place = Some b \<and> (b, item (tp_pos place)) \<in> set [(2, 0), (2, 1), (3, 0)] \<and>
         item_has sample_env 136 KEY_SHORT (sample_key 2) (b, item (tp_pos place))
     | ABSENT \<Rightarrow> \<forall>x\<in>set [(2, 0), (2, 1), (3, 0)]. \<not> item_has sample_env 136 KEY_SHORT (sample_key 2) x
     | LOOKUP_EIO \<Rightarrow> False"
    using tree_lookup_correct [of sample_env 136 KEY_SHORT 2 1 sample_tree sample_search] unfolding sample_tree_ok(2)
    by (simp only: sample_search_def lookup_hint.simps) blast
  have tab: "te_tab sample_env = tail_tab" by (simp add: sample_env_def)
  have has: "item_has sample_env 136 KEY_SHORT (sample_key 2) (2, Suc 0)"
    using h sample_key_at by (simp add: item_has_def sample_item_keys compraw_short(2))
  have "\<not> item_has sample_env 136 KEY_SHORT (sample_key 2) (2, 0)"
    using sample_covers [of "(2, 0)" "sample_key 2" MAX_UINT32] h sample_key_at tab sample_els
    by (auto simp: item_has_def sample_item_keys compraw_short(1))
  moreover have "\<not> item_has sample_env 136 KEY_SHORT (sample_key 2) (3, 0)"
    using raw_keys.cmp_flip [of KEY_SHORT "kbody (sample_key 2)" "key_at (bytes_node last_bytes) 0"] h sample_key_at
    by (simp add: item_has_def sample_item_keys compraw_short(1))
  ultimately show ?thesis using r c has by (cases res) auto
qed

end
