(* ===== verification/Spec2Isabelle.thy ===== *)
theory Spec2Isabelle
  imports Prelude AuxLib KeyCommon KeyLarge KeyShort LibKey HashPlugins Bitmap Alloc40 Oid40 Memory Node40 NodeView NodeShrink NodeMove NodeKeys Node41 ItemPlug TailItems Node40Ops NodeTouch NodeptrItems NodeInsert NodeShift ByteShifter NodeUnite NodeBalance Node40Repair NodeFsck NodeRebuild Extent40 ExtentUnits Cde40 CdeUnits CdeOps CdeShift CdeLookup Format40 FormatChecks SdExt Stat40 SdLaws SdPset StatUnits StatInsert StatFetch StatProps LibPlace LibTree TreeOk TreeCache TreeLoad TreeNeig TreeFind TreeLookup TreeProps
begin

text \<open>
  A verification development for reiser4progs, the user-level library, the plugins and the tools of the Reiser4
  file system.

  The program.  A Reiser4 file system is a balanced tree of nodes.  A node is a block that holds items; an item
  is a run of units with one key: directory entries, file tails, extents, pointers to child nodes, stat data.
  The library calls every object through the method table of a plugin: key plugins, node plugins, item plugins,
  allocators of blocks and object ids, the disk format, the journal, objects.  fsck calls the same plugins for
  their checks, mkfs and the other tools for creation and access.  The development models the plugins and the
  parts of the library below the tree cache, and the theorems say what one layer may rely on in the one below.

  Conventions.  Integers that the C code keeps in 16, 32 or 64 bits are words where the code does bit work on
  them, and numbers with \<open>to_u16\<close>, \<open>to_u32\<close>, \<open>to_u64\<close>, \<open>to_s32\<close>, \<open>to_s64\<close> written where a result is stored, so that
  every wrap-around of the source is one of the model.  A block is a function from signed offsets to bytes
  (theory Memory); a pointer into it is an offset.  Structures are records whose fields have a short prefix,
  plugin tables are records of functions with \<open>None\<close> for a method the plugin has not.  A place is passed by
  value and returned when the code changes what it points to.  Errors are the negative numbers of the code or a
  value of a sum type.  Assertions and messages have no effect and are not modelled; memory is never short.
  libaal, which is not part of the repository, is a parameter of the definitions that use it (\<open>aal_bits\<close>,
  \<open>aal_streams\<close>, \<open>aal_dev\<close>), with the documented behaviour of its operations as the assumptions of a locale
  (\<open>aal_bitops\<close>, \<open>aal_stream_laws\<close>, \<open>aal_dev_laws\<close>); each is interpreted by a concrete instance.

  The theories, bottom up.

  \<^item> Prelude, Memory: integers at their width, byte lists, little-endian fields, memory moves.
  \<^item> AuxLib (\<^verbatim>\<open>libaux/aux.c\<close>, \<^verbatim>\<open>libaux/crc32c.c\<close>): binary search, packing of names, Adler-32 and CRC-32C, each
    proved equal to a bytewise or bitwise specification.
  \<^item> KeyCommon, KeyLarge, KeyShort (\<^verbatim>\<open>plugin/key\<close>), LibKey (\<^verbatim>\<open>libreiser4/key.c\<close>): the packed keys; comparison is
    lexicographic on the fields (locale \<open>three_way\<close>), setters refine updates of a tuple of fields, names survive
    the way into a key and out of it.
  \<^item> HashPlugins (\<^verbatim>\<open>plugin/hash\<close>, \<^verbatim>\<open>plugin/fibre\<close>).
  \<^item> Bitmap (\<^verbatim>\<open>libreiser4/bitmap.c\<close>), Alloc40 (\<^verbatim>\<open>plugin/alloc/alloc40\<close>): the set of marked blocks with its counter
    (locale \<open>space_map\<close>, the contract of both), the blocks of the bitmap on the device, sync and open as a round
    trip.
  \<^item> Oid40 (\<^verbatim>\<open>plugin/oid/oid40\<close>): ids over a history of allocations and releases, an inductive relation.
  \<^item> Node40 (headers of \<^verbatim>\<open>plugin/node/node40/node40.c\<close>, room, copying, lookup), NodeView (the abstract view: \<open>nd_items\<close>,
    the list of the items, and \<open>nd_wf\<close>, that the block accounts for each of its bytes), NodeShrink, NodeMove, NodeKeys:
    what each operation does to the list of items.
  \<^item> Node41 (\<^verbatim>\<open>plugin/node/node41\<close>): the same node with a checksum, and what the checksum detects.
  \<^item> ItemPlug (\<^verbatim>\<open>include/reiser4/plugin.h\<close>, \<^verbatim>\<open>libreiser4/item.c\<close>): places, hints, the method table of item plugins.
  \<^item> TailItems (\<^verbatim>\<open>plugin/item/tail40\<close>, \<^verbatim>\<open>plain40\<close>, \<^verbatim>\<open>body40\<close>, \<^verbatim>\<open>ctail40\<close>), NodeptrItems (\<^verbatim>\<open>plugin/item/nodeptr40\<close>).
  \<^item> Node40Ops (the operations of \<^verbatim>\<open>node40.c\<close> that call item plugins), NodeTouch, NodeInsert (locale \<open>body_writer\<close>: a
    plugin writes only inside the body it was given), NodeShift, ByteShifter (locale \<open>byte_shifter\<close>: items of bytes),
    NodeUnite, NodeBalance (locale \<open>byte_items\<close>): insertion and balancing of whole nodes.
  \<^item> Node40Repair (\<^verbatim>\<open>node40_repair.c\<close>, \<^verbatim>\<open>node41_repair.c\<close>), NodeFsck (the check mode decides well-formedness),
    NodeRebuild (the rebuild mode makes any block a well-formed node before its items' plugins are looked up, and removes
    the item of an unknown plugin if there is one).
  \<^item> Extent40 (\<^verbatim>\<open>plugin/item/extent40\<close>), ExtentUnits: the units of an extent item as a list of pairs and the blocks of
    the file it stands for; lookup, shifting and the joining of fsck on it.
  \<^item> Cde40 (\<^verbatim>\<open>plugin/item/cde40\<close>), CdeUnits, CdeOps, CdeShift, CdeLookup: a directory item as the list of its entries
    (\<open>cde_holds\<close>); insertion, removal, shifting, merging and lookup on it.
  \<^item> Format40 (\<^verbatim>\<open>plugin/format/format40\<close>), FormatChecks: the super block, its backup and its check; the check decides
    whether a super block is settled, the rebuilding settles it, and it survives the device and the backup.
  \<^item> SdExt (\<^verbatim>\<open>plugin/sdext\<close>), Stat40 (\<^verbatim>\<open>plugin/item/stat40\<close>): stat data, a mask and the extensions behind it; SdLaws and
    SdPset (locale \<open>sd_ext\<close>, the contract of an extension plugin, interpreted for each of them), StatUnits, StatInsert,
    StatFetch (locale \<open>stat_exts\<close>: an item over any table of plugins that meet the contract), StatProps (the
    registered plugins): estimate, insertion, fetching and check agree on the same bytes.
  \<^item> LibPlace (\<^verbatim>\<open>libreiser4/place.c\<close>, \<^verbatim>\<open>node.c\<close>), LibTree (\<^verbatim>\<open>libreiser4/tree.c\<close>): the tree as it is read, a cache of nodes
    by block number over a device that may fail.  TreeOk says what a search tree on the device is (\<open>tree_ok\<close>, levels go
    down along pointers, keys ascend between the bounds that the pointers give) and which items it has from left to right;
    the locales \<open>item_plugins\<close> and \<open>tree_items_env\<close> are what the tree asks of the item plugins.  TreeCache: the
    invariant of the cache (\<open>cache_ok\<close>).  TreeLoad, TreeNeig: loading a node finds its pointer in the parent, the ways to
    the left neighbour end, find a node to the left and keep the invariant.  TreeFind, TreeLookup, TreeProps: the
    search of a node and of the whole tree.  The loops are partial functions that return \<open>None\<close> only when they do not
    end; the levels bound them.

  Bounds and fuel.  The loops over arrays recurse on the number of rounds left, which the code knows in advance;
  the others have a measure (binary search: the width of the interval; the rebuilding of a node: the number of
  headers not yet passed).  Fuel is used where the C code walks a structure that it also changes, in the
  estimate of a shift (one round for each unit or item of the source) and in the joining of extents (the number
  of units); every round uses up one, so it cannot run out.  Sizes are bounded in the theorems where the C
  code keeps them in 16 bits (offsets in a node and in a directory item), or in 32 bits.  The binary search of
  libaux computes its midpoint in a C int: its model is an option, \<open>None\<close> where that sum overflows, which needs more
  than 2 to the 30 elements.

  Not modelled.  Printing and the parsing of names of plugins, freeing of memory, and the messages of fsck.  The
  block cache and the device are parameters.  The tree of libreiser4 (cached nodes, lookup, insertion and balancing over levels), the objects on
  top of it and the passes of fsck over a whole device (librepair) are call-outs to the components here with
  device input and output in between; they are not modelled, nor are the programs (\<^verbatim>\<open>progs\<close>, \<^verbatim>\<open>libmisc\<close>: options and
  user interface).
\<close>

end
